(* ===== verification/Prelude.thy ===== *)
theory Prelude
  imports Main "HOL-Library.Word"
begin

section \<open>Prelude: the Go run-time the components rely on\<close>

text \<open>
  The generic part of the development. It models what the components use of the Go language and
  its standard library, and collects the lemmas their proofs share:
  \<^item> run-time faults (panics and self-deadlocks) as values of a sum type, and their propagation;
  \<^item> byte slices with a length and a capacity, with Go's bounds checks;
  \<^item> \<open>encoding/binary\<close>'s big-endian integers;
  \<^item> \<open>strconv\<close>'s decimal integers and \<open>encoding/hex\<close>.
  Machine integers are words: \<open>int64\<close> and \<open>uint64\<close> are the same bits, \<^const>\<open>sint\<close> and
  \<^const>\<open>unat\<close> read them.
\<close>

unbundle bit_operations_syntax

named_theorems go_simps \<open>evaluation of the fault monad and of slice operations\<close>
named_theorems codec_intros \<open>how marshallers and unmarshallers compose\<close>

type_synonym byte = "8 word"
type_synonym int64 = "64 word"
type_synonym uint64 = "64 word"
type_synonym uintptr = "64 word"
type_synonym uint32 = "32 word"

subsection \<open>Faults\<close>

text \<open>
  A Go function either returns, panics, or blocks for ever on a mutex it already holds.
  \<open>Inl\<close> is a fault that unwinds the caller, \<open>Inr\<close> a returned value.
\<close>

datatype fault =
    IndexOutOfRange
  | SliceBoundsOutOfRange
  | MakeSliceLenOutOfRange
  | NilDereference
  | Panic string
  | Deadlock

type_synonym 'a go = "fault + 'a"

definition go_bind :: "'a go \<Rightarrow> ('a \<Rightarrow> 'b go) \<Rightarrow> 'b go" where
  "go_bind m f = (case m of Inl e \<Rightarrow> Inl e | Inr x \<Rightarrow> f x)"

lemma go_bind_Inr [simp, go_simps]: "go_bind (Inr x) f = f x"
  by (simp add: go_bind_def)

lemma go_bind_Inl [simp, go_simps]: "go_bind (Inl e) f = Inl e"
  by (simp add: go_bind_def)

lemma go_bind_eq_Inr: "go_bind m f = Inr y \<longleftrightarrow> (\<exists>x. m = Inr x \<and> f x = Inr y)"
  by (cases m) auto

lemma go_bind_assoc: "go_bind (go_bind m f) g = go_bind m (\<lambda>x. go_bind (f x) g)"
  by (cases m) auto

subsection \<open>Byte slices\<close>

text \<open>
  A slice is its length and the bytes from its first element up to its capacity. Writing through
  a subslice writes the shared array, so an operation that mutates its argument returns the slice
  updated, and \<open>within\<close> puts the bytes of the subslice \<open>b[off:]\<close> back at their offset.
\<close>

record slice =
  sl_len :: nat
  sl_arr :: "byte list"

definition sl_wf :: "slice \<Rightarrow> bool" where
  "sl_wf b \<longleftrightarrow> sl_len b \<le> length (sl_arr b)"

definition sl_bytes :: "slice \<Rightarrow> byte list" where
  "sl_bytes b = take (sl_len b) (sl_arr b)"

definition make_slice :: "nat \<Rightarrow> slice" where
  "make_slice n = \<lparr>sl_len = n, sl_arr = replicate n 0\<rparr>"

definition of_bytes :: "byte list \<Rightarrow> slice" where
  "of_bytes bs = \<lparr>sl_len = length bs, sl_arr = bs\<rparr>"

text \<open>\<open>b[lo:]\<close>, \<open>b[:hi]\<close>, \<open>b[lo:hi]\<close>, \<open>b[i]\<close>, \<open>b[i] = v\<close>, \<open>copy(b, src)\<close>.\<close>

definition slice_from :: "slice \<Rightarrow> nat \<Rightarrow> slice go" where
  "slice_from b lo =
     (if lo \<le> sl_len b then Inr \<lparr>sl_len = sl_len b - lo, sl_arr = drop lo (sl_arr b)\<rparr>
      else Inl SliceBoundsOutOfRange)"

definition slice_to :: "slice \<Rightarrow> nat \<Rightarrow> slice go" where
  "slice_to b hi =
     (if hi \<le> length (sl_arr b) then Inr \<lparr>sl_len = hi, sl_arr = sl_arr b\<rparr>
      else Inl SliceBoundsOutOfRange)"

definition slice_range :: "slice \<Rightarrow> nat \<Rightarrow> nat \<Rightarrow> slice go" where
  "slice_range b lo hi =
     (if lo \<le> hi \<and> hi \<le> length (sl_arr b)
      then Inr \<lparr>sl_len = hi - lo, sl_arr = drop lo (sl_arr b)\<rparr>
      else Inl SliceBoundsOutOfRange)"

definition slice_get :: "slice \<Rightarrow> nat \<Rightarrow> byte go" where
  "slice_get b i = (if i < sl_len b then Inr (sl_arr b ! i) else Inl IndexOutOfRange)"

definition slice_set :: "slice \<Rightarrow> nat \<Rightarrow> byte \<Rightarrow> slice go" where
  "slice_set b i v =
     (if i < sl_len b then Inr (b\<lparr>sl_arr := (sl_arr b)[i := v]\<rparr>) else Inl IndexOutOfRange)"

definition overwrite :: "slice \<Rightarrow> byte list \<Rightarrow> slice" where
  "overwrite b bs = b\<lparr>sl_arr := bs @ drop (length bs) (sl_arr b)\<rparr>"

definition go_copy :: "slice \<Rightarrow> byte list \<Rightarrow> slice \<times> nat" where
  "go_copy b src = (let n = min (sl_len b) (length src) in (overwrite b (take n src), n))"

text \<open>\<open>total += m(b[total:])\<close>: run a writer on the rest of the buffer.\<close>

definition within :: "(slice \<Rightarrow> (slice \<times> nat) go) \<Rightarrow> slice \<times> nat \<Rightarrow> (slice \<times> nat) go" where
  "within m = (\<lambda>(b, t).
     go_bind (slice_from b t) (\<lambda>sub.
     go_bind (m sub) (\<lambda>(sub', n).
       Inr (b\<lparr>sl_arr := take t (sl_arr b) @ sl_arr sub'\<rparr>, t + n))))"

text \<open>\<open>x, n = u(b[total:]); total += n\<close>: read a field from the rest of the buffer.\<close>

definition read_at :: "(slice \<Rightarrow> ('a \<times> nat) go) \<Rightarrow> slice \<Rightarrow> nat \<Rightarrow> ('a \<times> nat) go" where
  "read_at u b t =
     go_bind (slice_from b t) (\<lambda>sub.
     go_bind (u sub) (\<lambda>(x, n). Inr (x, t + n)))"

text \<open>\<open>for i := range xs { total += m(b[total:], xs[i]) }\<close> and its inverse, \<open>k\<close> elements.\<close>

fun marshal_each :: "('a \<Rightarrow> slice \<Rightarrow> (slice \<times> nat) go) \<Rightarrow> 'a list \<Rightarrow> slice \<times> nat \<Rightarrow> (slice \<times> nat) go" where
  "marshal_each m [] bt = Inr bt"
| "marshal_each m (x # xs) bt = go_bind (within (m x) bt) (marshal_each m xs)"

fun unmarshal_each :: "(slice \<Rightarrow> ('a \<times> nat) go) \<Rightarrow> nat \<Rightarrow> slice \<Rightarrow> nat \<Rightarrow> ('a list \<times> nat) go" where
  "unmarshal_each u 0 b t = Inr ([], t)"
| "unmarshal_each u (Suc k) b t =
     go_bind (read_at u b t) (\<lambda>(x, t).
     go_bind (unmarshal_each u k b t) (\<lambda>(xs, t). Inr (x # xs, t)))"

lemmas slice_defs = slice_from_def slice_to_def slice_range_def slice_get_def slice_set_def

lemma sl_wf_of_bytes [simp]: "sl_wf (of_bytes bs)"
  by (simp add: sl_wf_def of_bytes_def)

lemma sl_bytes_of_bytes [simp]: "sl_bytes (of_bytes bs) = bs"
  by (simp add: sl_bytes_def of_bytes_def)

lemma sl_wf_make_slice [simp]: "sl_wf (make_slice n)"
  by (simp add: sl_wf_def make_slice_def)

lemma length_sl_bytes: "sl_wf b \<Longrightarrow> length (sl_bytes b) = sl_len b"
  by (simp add: sl_wf_def sl_bytes_def)

lemma overwrite_len [simp]: "sl_len (overwrite b bs) = sl_len b"
  by (simp add: overwrite_def)

lemma overwrite_cap [simp]:
  "length bs \<le> length (sl_arr b) \<Longrightarrow> length (sl_arr (overwrite b bs)) = length (sl_arr b)"
  by (simp add: overwrite_def)

lemma overwrite_Nil [simp]: "overwrite b [] = b"
  by (simp add: overwrite_def)

lemma sl_bytes_overwrite:
  "length bs \<le> sl_len b \<Longrightarrow>
   sl_bytes (overwrite b bs) = bs @ drop (length bs) (sl_bytes b)"
  by (simp add: sl_bytes_def overwrite_def drop_take)

subsection \<open>\<open>encoding/binary\<close>: big-endian integers\<close>

definition be64 :: "uint64 \<Rightarrow> byte list" where
  "be64 v = [ucast (drop_bit 56 v), ucast (drop_bit 48 v), ucast (drop_bit 40 v),
     ucast (drop_bit 32 v), ucast (drop_bit 24 v), ucast (drop_bit 16 v),
     ucast (drop_bit 8 v), ucast v]"

definition be32 :: "uint32 \<Rightarrow> byte list" where
  "be32 v = [ucast (drop_bit 24 v), ucast (drop_bit 16 v), ucast (drop_bit 8 v), ucast v]"

fun of_be64 :: "byte list \<Rightarrow> uint64" where
  "of_be64 [b0, b1, b2, b3, b4, b5, b6, b7] =
     ucast b7 OR push_bit 8 (ucast b6) OR push_bit 16 (ucast b5) OR push_bit 24 (ucast b4) OR
     push_bit 32 (ucast b3) OR push_bit 40 (ucast b2) OR push_bit 48 (ucast b1) OR
     push_bit 56 (ucast b0)"
| "of_be64 _ = 0"

fun of_be32 :: "byte list \<Rightarrow> uint32" where
  "of_be32 [b0, b1, b2, b3] =
     ucast b3 OR push_bit 8 (ucast b2) OR push_bit 16 (ucast b1) OR push_bit 24 (ucast b0)"
| "of_be32 _ = 0"

definition PutUint64 :: "slice \<Rightarrow> uint64 \<Rightarrow> slice go" where
  "PutUint64 b v = (if 8 \<le> sl_len b then Inr (overwrite b (be64 v)) else Inl IndexOutOfRange)"

definition PutUint32 :: "slice \<Rightarrow> uint32 \<Rightarrow> slice go" where
  "PutUint32 b v = (if 4 \<le> sl_len b then Inr (overwrite b (be32 v)) else Inl IndexOutOfRange)"

definition Uint64 :: "slice \<Rightarrow> uint64 go" where
  "Uint64 b = (if 8 \<le> sl_len b then Inr (of_be64 (take 8 (sl_arr b))) else Inl IndexOutOfRange)"

definition Uint32 :: "slice \<Rightarrow> uint32 go" where
  "Uint32 b = (if 4 \<le> sl_len b then Inr (of_be32 (take 4 (sl_arr b))) else Inl IndexOutOfRange)"

lemma length_be64 [simp]: "length (be64 v) = 8"
  by (simp add: be64_def)

lemma length_be32 [simp]: "length (be32 v) = 4"
  by (simp add: be32_def)

lemma of_be64_be64 [simp]: "of_be64 (be64 v) = v"
proof (rule bit_word_eqI)
  fix n assume "n < LENGTH(64)"
  then consider "n < 8" | "8 \<le> n \<and> n < 16" | "16 \<le> n \<and> n < 24" | "24 \<le> n \<and> n < 32"
    | "32 \<le> n \<and> n < 40" | "40 \<le> n \<and> n < 48" | "48 \<le> n \<and> n < 56" | "56 \<le> n \<and> n < 64"
    by fastforce
  then show "bit (of_be64 (be64 v)) n \<longleftrightarrow> bit v n"
    by cases (auto simp: be64_def bit_simps less_diff_conv2)
qed

lemma of_be32_be32 [simp]: "of_be32 (be32 v) = v"
proof (rule bit_word_eqI)
  fix n assume "n < LENGTH(32)"
  then consider "n < 8" | "8 \<le> n \<and> n < 16" | "16 \<le> n \<and> n < 24" | "24 \<le> n \<and> n < 32"
    by fastforce
  then show "bit (of_be32 (be32 v)) n \<longleftrightarrow> bit v n"
    by cases (auto simp: be32_def bit_simps less_diff_conv2)
qed

lemma be64_of_be64:
  assumes "length bs = 8"
  shows "be64 (of_be64 bs) = bs"
proof -
  from assms obtain b0 b1 b2 b3 b4 b5 b6 b7 where "bs = [b0, b1, b2, b3, b4, b5, b6, b7]"
    by (auto simp: numeral_eq_Suc length_Suc_conv)
  moreover have "\<not> bit b (m + n)" if "8 \<le> m" for b :: byte and m n
    using that by (auto dest: bit_imp_le_length)
  ultimately show ?thesis
    by (auto simp: be64_def bit_simps intro!: bit_word_eqI)
qed

subsection \<open>Strings\<close>

text \<open>A Go string is a byte sequence; a \<^typ>\<open>char\<close> is one byte.\<close>

definition byte_of_char :: "char \<Rightarrow> byte" where
  "byte_of_char c = word_of_nat (of_char c)"

definition char_of_byte :: "byte \<Rightarrow> char" where
  "char_of_byte b = char_of (unat b)"

lemma unat_byte: "unat (b :: byte) < 256"
proof -
  have "unat b < 2 ^ LENGTH(8)" by (rule unsigned_less)
  then show ?thesis by simp
qed

lemma char_of_byte_of_char [simp]: "char_of_byte (byte_of_char c) = c"
  by (simp add: char_of_byte_def byte_of_char_def unsigned_of_nat take_bit_eq_mod of_char_mod_256)

lemma byte_of_char_of_byte [simp]: "byte_of_char (char_of_byte b) = b"
proof -
  have "unat b < 256" by (rule unat_byte)
  then show ?thesis by (simp add: char_of_byte_def byte_of_char_def)
qed

abbreviation bytes_of_string :: "string \<Rightarrow> byte list" where
  "bytes_of_string \<equiv> map byte_of_char"

abbreviation string_of_bytes :: "byte list \<Rightarrow> string" where
  "string_of_bytes \<equiv> map char_of_byte"

lemma char_byte_comp [simp]: "char_of_byte \<circ> byte_of_char = id" "byte_of_char \<circ> char_of_byte = id"
  by auto

subsection \<open>\<open>strconv\<close>: decimal integers\<close>

definition digit_char :: "nat \<Rightarrow> char" where
  "digit_char d = char_of (48 + d)"

definition digit_val :: "char \<Rightarrow> nat option" where
  "digit_val c = (let n = of_char c in if 48 \<le> n \<and> n \<le> 57 then Some (n - 48) else None)"

fun format_nat :: "nat \<Rightarrow> string" where
  "format_nat n = (if n < 10 then [digit_char n] else format_nat (n div 10) @ [digit_char (n mod 10)])"

declare format_nat.simps [simp del]

definition FormatInt :: "int64 \<Rightarrow> string" where
  "FormatInt v = (if sint v < 0 then CHR ''-'' # format_nat (nat (- sint v)) else format_nat (nat (sint v)))"

definition FormatUint :: "uint64 \<Rightarrow> string" where
  "FormatUint v = format_nat (unat v)"

datatype num_error = ErrSyntax | ErrRange

text \<open>
  The digit loop of \<open>ParseUint\<close>: it reports the range error at the digit that overflows, before
  looking at the rest of the string.
\<close>

fun parse_digits :: "nat \<Rightarrow> string \<Rightarrow> num_error + nat" where
  "parse_digits n [] = Inr n"
| "parse_digits n (c # cs) =
     (case digit_val c of
        None \<Rightarrow> Inl ErrSyntax
      | Some d \<Rightarrow> if 2 ^ 64 \<le> 10 * n + d then Inl ErrRange else parse_digits (10 * n + d) cs)"

definition ParseUint :: "string \<Rightarrow> num_error + nat" where
  "ParseUint s = (if s = [] then Inl ErrSyntax else parse_digits 0 s)"

text \<open>\<open>ParseInt(s, 10, 64)\<close>: the value (clamped on a range error) and the error.\<close>

definition ParseInt :: "string \<Rightarrow> int64 \<times> num_error option" where
  "ParseInt s =
     (if s = [] then (0, Some ErrSyntax)
      else let neg = (hd s = CHR ''-'');
               ds = (if hd s = CHR ''+'' \<or> hd s = CHR ''-'' then tl s else s)
           in case ParseUint ds of
                Inl ErrSyntax \<Rightarrow> (0, Some ErrSyntax)
              | r \<Rightarrow>
                  let un = (case r of Inl _ \<Rightarrow> 2 ^ 64 - 1 | Inr n \<Rightarrow> n)
                  in if \<not> neg \<and> 2 ^ 63 \<le> un then (word_of_int (2 ^ 63 - 1), Some ErrRange)
                     else if neg \<and> 2 ^ 63 < un then (word_of_int (- (2 ^ 63)), Some ErrRange)
                     else (word_of_int (if neg then - int un else int un), None))"

lemma digit_val_digit_char [simp]: "d < 10 \<Longrightarrow> digit_val (digit_char d) = Some d"
  by (simp add: digit_val_def digit_char_def Let_def)

lemma format_nat_nonempty [simp]: "format_nat n \<noteq> []"
  by (subst format_nat.simps) simp

lemma parse_digits_append:
  "parse_digits n (s @ t) = (case parse_digits n s of Inl e \<Rightarrow> Inl e | Inr m \<Rightarrow> parse_digits m t)"
  by (induction n s rule: parse_digits.induct) (auto split: option.splits)

lemma parse_digits_format_nat: "n < 2 ^ 64 \<Longrightarrow> parse_digits 0 (format_nat n) = Inr n"
proof (induction n rule: format_nat.induct)
  case (1 n)
  show ?case
  proof (cases "n < 10")
    case True
    then show ?thesis by (simp add: format_nat.simps [of n])
  next
    case False
    with 1 have "parse_digits 0 (format_nat (n div 10)) = Inr (n div 10)" by simp
    with False "1.prems" show ?thesis
      by (simp add: format_nat.simps [of n] parse_digits_append)
  qed
qed

lemma format_nat_digits: "c \<in> set (format_nat n) \<Longrightarrow> \<exists>d < 10. c = digit_char d"
proof (induction n rule: format_nat.induct)
  case (1 n)
  have "\<exists>d < 10. digit_char (n mod 10) = digit_char d"
    by (rule exI [of _ "n mod 10"]) simp
  with 1 show ?case
    by (cases "n < 10") (auto simp: format_nat.simps [of n])
qed

lemma format_nat_no_sign:
  "hd (format_nat n) \<noteq> CHR ''-'' \<and> hd (format_nat n) \<noteq> CHR ''+''"
proof -
  obtain d where d: "d < 10" and h: "hd (format_nat n) = digit_char d"
    using format_nat_digits [of "hd (format_nat n)" n] by auto
  have "digit_val CHR ''-'' = None" and "digit_val CHR ''+'' = None"
    by (simp_all add: digit_val_def Let_def)
  with d h show ?thesis by (metis digit_val_digit_char option.distinct(1))
qed

lemma sint64_range: "- (2 ^ 63) \<le> sint (v :: int64) \<and> sint v < 2 ^ 63"
  using sint_greater_eq [of v] sint_less [of v] by simp

lemma ParseInt_FormatInt: "ParseInt (FormatInt v) = (v, None)"
proof -
  have r: "- (2 ^ 63) \<le> sint v" "sint v < 2 ^ 63" using sint64_range [of v] by auto
  show ?thesis
  proof (cases "sint v < 0")
    case True
    with r have "nat (- sint v) < 2 ^ 64" "nat (- sint v) \<le> 2 ^ 63" by auto
    with True show ?thesis
      by (simp add: ParseInt_def FormatInt_def ParseUint_def parse_digits_format_nat Let_def)
  next
    case False
    with r have "nat (sint v) < 2 ^ 64" "nat (sint v) < 2 ^ 63" by auto
    with False show ?thesis
      using format_nat_no_sign [of "nat (sint v)"]
      by (simp add: ParseInt_def FormatInt_def ParseUint_def parse_digits_format_nat Let_def)
  qed
qed

subsection \<open>\<open>encoding/hex\<close>\<close>

definition hex_char :: "nat \<Rightarrow> char" where
  "hex_char d = (if d < 10 then char_of (48 + d) else char_of (87 + d))"

definition hex_val :: "char \<Rightarrow> nat option" where
  "hex_val c = (let n = of_char c in
     if 48 \<le> n \<and> n \<le> 57 then Some (n - 48)
     else if 97 \<le> n \<and> n \<le> 102 then Some (n - 87)
     else if 65 \<le> n \<and> n \<le> 70 then Some (n - 55)
     else None)"

fun hex_EncodeToString :: "byte list \<Rightarrow> string" where
  "hex_EncodeToString [] = []"
| "hex_EncodeToString (b # bs) =
     hex_char (unat b div 16) # hex_char (unat b mod 16) # hex_EncodeToString bs"

text \<open>\<open>None\<close> stands for the error, an odd length or a character that is not hexadecimal.\<close>

fun hex_DecodeString :: "string \<Rightarrow> byte list option" where
  "hex_DecodeString [] = Some []"
| "hex_DecodeString [c] = None"
| "hex_DecodeString (c # d # cs) =
     (case (hex_val c, hex_val d, hex_DecodeString cs) of
        (Some h, Some l, Some bs) \<Rightarrow> Some (word_of_nat (16 * h + l) # bs)
      | _ \<Rightarrow> None)"

lemma hex_val_hex_char [simp]: "d < 16 \<Longrightarrow> hex_val (hex_char d) = Some d"
  by (auto simp: hex_val_def hex_char_def Let_def)

lemma hex_decode_encode [simp]: "hex_DecodeString (hex_EncodeToString bs) = Some bs"
proof (induction bs)
  case (Cons b bs)
  have "unat b < 256" by (rule unat_byte)
  then have "unat b div 16 < 16" by simp
  with Cons show ?case by simp
qed simp

lemma length_hex_encode [simp]: "length (hex_EncodeToString bs) = 2 * length bs"
  by (induction bs) auto

lemma hex_decode_length: "hex_DecodeString s = Some bs \<Longrightarrow> length s = 2 * length bs"
  by (induction s arbitrary: bs rule: hex_DecodeString.induct) (auto split: option.splits)

end
