(* ===== verification/Codec.thy ===== *)
theory Codec
  imports Prelude
begin

section \<open>Codec: the contract of a marshaller and its unmarshaller\<close>

text \<open>
  Every record type of \<open>tracer/encoding\<close> and every packet of \<open>tracer/protocol\<close> comes with a
  function that writes it at the start of a buffer and one that reads it back, both returning how
  many bytes they went through. The locale \<open>codec\<close> is that interface: \<open>enc x\<close> are the bytes,
  the writer writes exactly them, the reader recovers \<open>x\<close> from them. Inside it the round trip and
  the laws of the loops over slices are proved once.
\<close>

subsection \<open>Writing and reading a run of bytes\<close>

definition writes :: "(slice \<Rightarrow> (slice \<times> nat) go) \<Rightarrow> byte list \<Rightarrow> bool" where
  "writes m bs \<longleftrightarrow>
     (\<forall>b. sl_wf b \<longrightarrow> length bs \<le> sl_len b \<longrightarrow> m b = Inr (overwrite b bs, length bs))"

definition holds_at :: "slice \<Rightarrow> nat \<Rightarrow> byte list \<Rightarrow> bool" where
  "holds_at b t bs \<longleftrightarrow> t + length bs \<le> sl_len b \<and> take (length bs) (drop t (sl_arr b)) = bs"

definition reads :: "(slice \<Rightarrow> ('a \<times> nat) go) \<Rightarrow> byte list \<Rightarrow> 'a \<Rightarrow> bool" where
  "reads u bs x \<longleftrightarrow> (\<forall>b. sl_wf b \<longrightarrow> holds_at b 0 bs \<longrightarrow> u b = Inr (x, length bs))"

lemma writesI:
  "(\<And>b. sl_wf b \<Longrightarrow> length bs \<le> sl_len b \<Longrightarrow> m b = Inr (overwrite b bs, length bs)) \<Longrightarrow> writes m bs"
  by (simp add: writes_def)

lemma writesD:
  "writes m bs \<Longrightarrow> sl_wf b \<Longrightarrow> length bs \<le> sl_len b \<Longrightarrow> m b = Inr (overwrite b bs, length bs)"
  by (simp add: writes_def)

lemma readsI:
  "(\<And>b. sl_wf b \<Longrightarrow> holds_at b 0 bs \<Longrightarrow> u b = Inr (x, length bs)) \<Longrightarrow> reads u bs x"
  by (simp add: reads_def)

lemma readsD: "reads u bs x \<Longrightarrow> sl_wf b \<Longrightarrow> holds_at b 0 bs \<Longrightarrow> u b = Inr (x, length bs)"
  by (simp add: reads_def)

lemma holds_at_append [simp]:
  "holds_at b t (xs @ ys) \<longleftrightarrow> holds_at b t xs \<and> holds_at b (t + length xs) ys"
proof -
  have split: "take (length xs + length ys) (drop t (sl_arr b)) =
      take (length xs) (drop t (sl_arr b)) @ take (length ys) (drop (t + length xs) (sl_arr b))"
    by (simp add: take_add add.commute)
  show ?thesis
  proof
    assume h: "holds_at b t (xs @ ys)"
    then have "length (take (length xs) (drop t (sl_arr b))) = length xs"
      by (auto simp: holds_at_def dest: arg_cong [where f = length])
    with h split show "holds_at b t xs \<and> holds_at b (t + length xs) ys"
      by (auto simp: holds_at_def)
  qed (auto simp: holds_at_def split)
qed

lemma holds_at_Nil [simp]: "holds_at b t [] \<longleftrightarrow> t \<le> sl_len b"
  by (simp add: holds_at_def)

lemma holds_at_overwrite: "sl_wf b \<Longrightarrow> length bs \<le> sl_len b \<Longrightarrow> holds_at (overwrite b bs) 0 bs"
  by (simp add: holds_at_def overwrite_def)

lemma sl_wf_overwrite [simp]:
  "sl_wf b \<Longrightarrow> length bs \<le> sl_len b \<Longrightarrow> sl_wf (overwrite b bs)"
  by (simp add: sl_wf_def)

lemma within_writes:
  assumes m: "writes m bs" and wf: "sl_wf b" and len: "length xs + length bs \<le> sl_len b"
  shows "within m (overwrite b xs, length xs) = Inr (overwrite b (xs @ bs), length (xs @ bs))"
proof -
  let ?sub = "\<lparr>sl_len = sl_len b - length xs, sl_arr = drop (length xs) (sl_arr b)\<rparr>"
  have "sl_wf ?sub" "length bs \<le> sl_len ?sub" using wf len by (auto simp: sl_wf_def)
  from writesD [OF m this] show ?thesis using len
    by (simp add: within_def slice_from_def overwrite_def add.commute)
qed

lemma within_writes_0:
  "writes m bs \<Longrightarrow> sl_wf b \<Longrightarrow> length bs \<le> sl_len b \<Longrightarrow>
   within m (b, 0) = Inr (overwrite b bs, length bs)"
  using within_writes [of m bs b "[]"] by simp

lemma within_at:
  "writes m bs \<Longrightarrow> sl_wf b \<Longrightarrow> t = length xs \<Longrightarrow> length xs + length bs \<le> sl_len b \<Longrightarrow>
   within m (overwrite b xs, t) = Inr (overwrite b (xs @ bs), t + length bs)"
  using within_writes [of m bs b xs] by simp

lemma read_at_reads:
  assumes u: "reads u bs x" and wf: "sl_wf b" and h: "holds_at b t bs"
  shows "read_at u b t = Inr (x, t + length bs)"
proof -
  let ?sub = "\<lparr>sl_len = sl_len b - t, sl_arr = drop t (sl_arr b)\<rparr>"
  have "sl_wf ?sub" "holds_at ?sub 0 bs" using wf h by (auto simp: sl_wf_def holds_at_def)
  from readsD [OF u this] show ?thesis using h
    by (simp add: read_at_def slice_from_def holds_at_def)
qed

subsection \<open>The interface\<close>

locale codec =
  fixes marshal :: "'a \<Rightarrow> slice \<Rightarrow> (slice \<times> nat) go"
    and unmarshal :: "slice \<Rightarrow> ('a \<times> nat) go"
    and enc :: "'a \<Rightarrow> byte list"
    and ok :: "'a \<Rightarrow> bool"
  assumes marshal_writes: "ok x \<Longrightarrow> writes (marshal x) (enc x)"
    and unmarshal_reads: "ok x \<Longrightarrow> reads unmarshal (enc x) x"
begin

lemma round_trip:
  assumes "ok x" "sl_wf b" "length (enc x) \<le> sl_len b"
  shows "\<exists>b'. marshal x b = Inr (b', length (enc x)) \<and> sl_len b' = sl_len b \<and>
    drop (length (enc x)) (sl_arr b') = drop (length (enc x)) (sl_arr b) \<and>
    unmarshal b' = Inr (x, length (enc x))"
proof -
  have "marshal x b = Inr (overwrite b (enc x), length (enc x))"
    using writesD [OF marshal_writes] assms by blast
  moreover have "unmarshal (overwrite b (enc x)) = Inr (x, length (enc x))"
    using readsD [OF unmarshal_reads] assms by (simp add: holds_at_overwrite)
  ultimately show ?thesis by (auto simp: overwrite_def)
qed

lemma marshal_each_writes:
  assumes "list_all ok xs" "sl_wf b" "length ys + length (concat (map enc xs)) \<le> sl_len b"
  shows "marshal_each marshal xs (overwrite b ys, length ys) =
    Inr (overwrite b (ys @ concat (map enc xs)), length (ys @ concat (map enc xs)))"
  using assms
proof (induction xs arbitrary: ys)
  case (Cons x xs)
  have "within (marshal x) (overwrite b ys, length ys) =
      Inr (overwrite b (ys @ enc x), length (ys @ enc x))"
    using Cons.prems by (intro within_writes marshal_writes) auto
  then show ?case
    using Cons.prems Cons.IH [of "ys @ enc x"] by (simp add: add.assoc)
qed simp

lemma unmarshal_each_reads:
  assumes "list_all ok xs" "sl_wf b" "holds_at b t (concat (map enc xs))"
  shows "unmarshal_each unmarshal (length xs) b t = Inr (xs, t + length (concat (map enc xs)))"
  using assms
proof (induction xs arbitrary: t)
  case (Cons x xs)
  have "read_at unmarshal b t = Inr (x, t + length (enc x))"
    using Cons.prems by (intro read_at_reads unmarshal_reads) auto
  then show ?case
    using Cons.prems Cons.IH [of "t + length (enc x)"] by (simp add: add.assoc)
qed simp

end

text \<open>A codec whose encoded size the code can predict, as \<open>PacketSize\<close> and \<open>SizeX\<close> do.\<close>

locale sized_codec = codec +
  fixes sz :: "'a \<Rightarrow> nat"
  assumes size_enc: "ok x \<Longrightarrow> length (enc x) = sz x"
begin

lemma fits_exactly:
  assumes "ok x"
  shows "\<exists>b'. marshal x (make_slice (sz x)) = Inr (b', sz x) \<and> unmarshal b' = Inr (x, sz x)"
  using round_trip [OF assms, of "make_slice (sz x)"] assms
  by (auto simp: size_enc make_slice_def sl_wf_def)

lemma sum_sizes: "list_all ok xs \<Longrightarrow> length (concat (map enc xs)) = sum_list (map sz xs)"
  by (induction xs) (auto simp: size_enc)

end

end
