(* ===== verification/Types.thy ===== *)
theory Types
  imports Prelude "HOL-Library.Signed_Division"
begin

section \<open>Types: the values the tracer exchanges (\<open>tracer/types\<close>)\<close>

text \<open>
  The identifiers, times and log records of \<open>tracer/types/types.go\<close>, \<open>log.go\<close>,
  \<open>log_metadata.go\<close>, \<open>tracer.go\<close> and \<open>marshaller.go\<close>. A method with a pointer receiver
  takes the old value and returns the new one beside its error. \<open>time.Time\<close> is the instant in
  nanoseconds since the epoch, an unbounded integer.
\<close>

subsection \<open>Identifiers\<close>

type_synonym GID = int64
type_synonym TxID = uint64
type_synonym FuncLogID = int64
type_synonym RawFuncLogID = int64
type_synonym Time = int64
type_synonym TagName = byte
type_synonym LogID = "byte list"

definition NotEnded :: Time where
  "NotEnded = -1"

definition NotFoundParent :: FuncLogID where
  "NotFoundParent = -1"

definition FuncStart :: TagName where
  "FuncStart = 0"

definition FuncEnd :: TagName where
  "FuncEnd = 1"

definition GID_String :: "GID \<Rightarrow> string" where
  "GID_String gid = FormatInt gid"

definition GID_FromString :: "GID \<Rightarrow> string \<Rightarrow> GID \<times> num_error option" where
  "GID_FromString gid s =
     (case ParseInt s of (i, None) \<Rightarrow> (i, None) | (i, Some e) \<Rightarrow> (gid, Some e))"

definition FuncLogID_String :: "FuncLogID \<Rightarrow> string" where
  "FuncLogID_String i = FormatInt i"

definition FuncLogID_FromString :: "FuncLogID \<Rightarrow> string \<Rightarrow> FuncLogID \<times> num_error option" where
  "FuncLogID_FromString old s =
     (case ParseInt s of (i, None) \<Rightarrow> (i, None) | (i, Some e) \<Rightarrow> (old, Some e))"

text \<open>The process-wide counters, each an atomic add that returns the new value.\<close>

record counters =
  lastRawFuncLogID :: int64
  lastTxID :: uint64

definition init_counters :: counters where
  "init_counters = \<lparr>lastRawFuncLogID = -1, lastTxID = 0\<rparr>"

definition NewRawFuncLogID :: "counters \<Rightarrow> RawFuncLogID \<times> counters" where
  "NewRawFuncLogID c =
     (let v = lastRawFuncLogID c + 1 in (v, c\<lparr>lastRawFuncLogID := v\<rparr>))"

definition NewTxID :: "counters \<Rightarrow> TxID \<times> counters" where
  "NewTxID c = (let v = lastTxID c + 1 in (v, c\<lparr>lastTxID := v\<rparr>))"

fun take_txids :: "nat \<Rightarrow> counters \<Rightarrow> TxID list" where
  "take_txids 0 c = []"
| "take_txids (Suc n) c = (let (i, c') = NewTxID c in i # take_txids n c')"

subsection \<open>Time\<close>

type_synonym instant = int

definition time_Unix :: "int \<Rightarrow> int \<Rightarrow> instant" where
  "time_Unix sec nsec = sec * 1000000000 + nsec"

definition UnixNano :: "instant \<Rightarrow> int64" where
  "UnixNano t = word_of_int t"

definition NewTime :: "instant \<Rightarrow> Time" where
  "NewTime t = UnixNano t"

definition Time_NumberString :: "Time \<Rightarrow> string" where
  "Time_NumberString t = FormatInt t"

definition Time_FromNumberString :: "Time \<Rightarrow> string \<Rightarrow> Time \<times> num_error option" where
  "Time_FromNumberString t s =
     (case ParseInt s of (i, None) \<Rightarrow> (i, None) | (i, Some e) \<Rightarrow> (t, Some e))"

definition UnixTime :: "Time \<Rightarrow> instant" where
  "UnixTime t =
     (let sec = sint t sdiv 1000000000; nanosec = sint t smod 1000000000 in time_Unix sec nanosec)"

definition marshalInt64 :: "int64 \<Rightarrow> byte list" where
  "marshalInt64 v = bytes_of_string (FormatInt v)"

definition unmarshalInt64 :: "byte list \<Rightarrow> int64 \<times> num_error option" where
  "unmarshalInt64 data = ParseInt (string_of_bytes data)"

definition Time_MarshalJSON :: "Time \<Rightarrow> byte list" where
  "Time_MarshalJSON t = marshalInt64 t"

text \<open>The receiver is assigned before the error is looked at.\<close>

definition Time_UnmarshalJSON :: "Time \<Rightarrow> byte list \<Rightarrow> Time \<times> num_error option" where
  "Time_UnmarshalJSON t data = (let (v, err) = unmarshalInt64 data in (v, err))"

subsection \<open>Log identifiers\<close>

datatype logid_error = HexError | LengthMismatch | MissingQuote

definition zero_LogID :: LogID where
  "zero_LogID = replicate 16 0"

definition LogID_wf :: "LogID \<Rightarrow> bool" where
  "LogID_wf i \<longleftrightarrow> length i = 16"

definition LogID_Hex :: "LogID \<Rightarrow> string" where
  "LogID_Hex i = hex_EncodeToString i"

definition LogID_Unhex :: "string \<Rightarrow> LogID \<times> logid_error option" where
  "LogID_Unhex str =
     (case hex_DecodeString str of
        None \<Rightarrow> (zero_LogID, Some HexError)
      | Some buf \<Rightarrow>
          if length buf \<noteq> length zero_LogID then (zero_LogID, Some LengthMismatch)
          else (buf, None))"

definition LogID_MarshalJSON :: "LogID \<Rightarrow> byte list" where
  "LogID_MarshalJSON i =
     [byte_of_char (CHR 0x22)] @ bytes_of_string (LogID_Hex i) @ [byte_of_char (CHR 0x22)]"

definition LogID_UnmarshalJSON :: "LogID \<Rightarrow> byte list \<Rightarrow> LogID \<times> logid_error option" where
  "LogID_UnmarshalJSON i data =
     (if length data \<noteq> length i * 2 + 2 then (i, Some LengthMismatch)
      else if data ! 0 \<noteq> byte_of_char (CHR 0x22) \<or>
              data ! (length data - 1) \<noteq> byte_of_char (CHR 0x22)
      then (i, Some MissingQuote)
      else case LogID_Unhex (string_of_bytes (butlast (tl data))) of
             (newId, None) \<Rightarrow> (newId, None)
           | (_, Some e) \<Rightarrow> (i, Some e))"

definition LogID_String :: "LogID \<Rightarrow> string" where
  "LogID_String i = LogID_Hex i"

subsection \<open>Log records\<close>

definition MaxStackSize :: nat where
  "MaxStackSize = 64"

record Goroutine =
  g_GID :: GID
  g_StartTime :: Time
  g_EndTime :: Time

record FuncLog =
  fl_ID :: FuncLogID
  fl_StartTime :: Time
  fl_EndTime :: Time
  fl_ParentID :: FuncLogID
  fl_Frames :: "uintptr list"
  fl_GID :: GID

record RawFuncLog =
  raw_ID :: RawFuncLogID
  raw_Tag :: TagName
  raw_Timestamp :: Time
  raw_Frames :: "uintptr list"
  raw_GID :: GID
  raw_TxID :: TxID

definition IsEnded :: "FuncLog \<Rightarrow> bool" where
  "IsEnded fl \<longleftrightarrow> fl_EndTime fl \<noteq> NotEnded"

subsection \<open>Trace targets and the user-interface configuration\<close>

record TraceTarget =
  tt_Funcs :: "string list"

record Tracer =
  tr_ID :: int
  tr_Target :: TraceTarget

definition TraceTarget_Copy :: "TraceTarget \<Rightarrow> TraceTarget \<Rightarrow> TraceTarget" where
  "TraceTarget_Copy t to = to\<lparr>tt_Funcs := tt_Funcs t\<rparr>"

definition Tracer_Copy :: "Tracer \<Rightarrow> Tracer \<Rightarrow> Tracer" where
  "Tracer_Copy t to =
     to\<lparr>tr_ID := tr_ID t, tr_Target := TraceTarget_Copy (tr_Target t) (tr_Target to)\<rparr>"

fun contains_loop :: "string list \<Rightarrow> string \<Rightarrow> bool" where
  "contains_loop [] name = False"
| "contains_loop (f # fs) name = (if f = name then True else contains_loop fs name)"

definition ContainsFunc :: "TraceTarget \<Rightarrow> string \<Rightarrow> bool" where
  "ContainsFunc t name = contains_loop (tt_Funcs t) name"

record UIItemConfig =
  ui_Pinned :: bool
  ui_Masked :: bool
  ui_Comment :: string

record UIConfig =
  ui_FuncLogs :: "FuncLogID \<rightharpoonup> UIItemConfig"
  ui_Funcs :: "string \<rightharpoonup> UIItemConfig"
  ui_Goroutines :: "GID \<rightharpoonup> UIItemConfig"

record LogMetadata =
  md_Timestamp :: instant
  md_PID :: int64
  md_Host :: string
  md_AppName :: string
  md_TraceTarget :: TraceTarget
  md_UI :: UIConfig

record LogInfo =
  li_ID :: string
  li_Version :: int64
  li_Metadata :: LogMetadata
  li_MaxFileSize :: int64
  li_ReadOnly :: bool

text \<open>The loop over the function names runs over the empty list: the conversion is a TODO.\<close>

fun any_func :: "(UIItemConfig \<Rightarrow> bool) \<Rightarrow> (string \<rightharpoonup> UIItemConfig) \<Rightarrow> string list \<Rightarrow> bool \<Rightarrow> bool" where
  "any_func p m [] acc = acc"
| "any_func p m (n # ns) acc =
     any_func p m ns (case m n of Some f \<Rightarrow> acc \<or> p f | None \<Rightarrow> acc)"

definition IsMasked :: "UIConfig \<Rightarrow> FuncLog \<Rightarrow> bool" where
  "IsMasked c fc =
     (let masked = any_func ui_Masked (ui_Funcs c) [] False
      in case ui_Goroutines c (fl_GID fc) of Some g \<Rightarrow> masked \<or> ui_Masked g | None \<Rightarrow> masked)"

definition IsPinned :: "UIConfig \<Rightarrow> FuncLog \<Rightarrow> bool" where
  "IsPinned c fc =
     (let pinned = any_func ui_Pinned (ui_Funcs c) [] False
      in case ui_Goroutines c (fl_GID fc) of Some g \<Rightarrow> pinned \<or> ui_Pinned g | None \<Rightarrow> pinned)"

subsection \<open>Lemmas\<close>

lemma LogID_Hex_length: "LogID_wf i \<Longrightarrow> length (LogID_Hex i) = 32"
  by (simp add: LogID_Hex_def LogID_wf_def)

lemma LogID_Unhex_Hex: "LogID_wf i \<Longrightarrow> LogID_Unhex (LogID_Hex i) = (i, None)"
  by (simp add: LogID_Unhex_def LogID_Hex_def LogID_wf_def zero_LogID_def)

lemma LogID_Hex_inject: "LogID_Hex i = LogID_Hex j \<longleftrightarrow> i = j"
  by (metis LogID_Hex_def hex_decode_encode option.inject)

lemma take_txids_nth: "k < n \<Longrightarrow> take_txids n c ! k = lastTxID c + 1 + word_of_nat k"
proof (induction n arbitrary: c k)
  case (Suc n)
  then show ?case by (cases k) (auto simp: NewTxID_def Let_def algebra_simps)
qed simp

lemma length_take_txids [simp]: "length (take_txids n c) = n"
  by (induction n arbitrary: c) (auto simp: NewTxID_def Let_def)

lemma contains_loop_iff [simp]: "contains_loop fs name \<longleftrightarrow> name \<in> set fs"
  by (induction fs) auto

lemma UnixTime_sint: "UnixTime t = sint t"
  by (simp add: UnixTime_def time_Unix_def Let_def sdiv_mult_smod_eq)

lemma LogID_Unhex_wf: "LogID_Unhex str = (i, None) \<Longrightarrow> LogID_wf i \<and> length str = 32"
  by (auto simp: LogID_Unhex_def LogID_wf_def zero_LogID_def dest: hex_decode_length
      split: option.splits if_splits)

section \<open>Properties\<close>

text \<open>
  Every identifier and time survives its decimal form: the \<open>FromString\<close> of its \<open>String\<close>, the
  \<open>FromNumberString\<close> of its \<open>NumberString\<close> and the JSON round trip give it back without error
  for all 64-bit values, negative ones included; so does the conversion to a \<open>time.Time\<close>.
\<close>

theorem decimal_round_trips:
  "GID_FromString g0 (GID_String g) = (g, None) \<and>
   FuncLogID_FromString i0 (FuncLogID_String i) = (i, None) \<and>
   Time_FromNumberString t0 (Time_NumberString t) = (t, None) \<and>
   Time_UnmarshalJSON t0 (Time_MarshalJSON t) = (t, None) \<and>
   NewTime (UnixTime t) = t"
  by (simp add: GID_FromString_def GID_String_def FuncLogID_FromString_def FuncLogID_String_def
      Time_FromNumberString_def Time_NumberString_def Time_UnmarshalJSON_def Time_MarshalJSON_def
      marshalInt64_def unmarshalInt64_def ParseInt_FormatInt NewTime_def UnixNano_def UnixTime_sint)

text \<open>
  A 16-byte log identifier survives its hexadecimal form and its JSON form, and \<open>Unhex\<close>
  without an error always returns 16 bytes from 32 characters.
\<close>

theorem LogID_round_trips:
  assumes "LogID_wf i" "LogID_wf old"
  shows "LogID_Unhex (LogID_Hex i) = (i, None) \<and>
    LogID_UnmarshalJSON old (LogID_MarshalJSON i) = (i, None) \<and>
    (\<forall>str j. LogID_Unhex str = (j, None) \<longrightarrow> LogID_wf j \<and> length str = 32)"
proof -
  have "length (LogID_MarshalJSON i) = 34"
    using assms LogID_Hex_length [of i] by (simp add: LogID_MarshalJSON_def)
  moreover have "LogID_MarshalJSON i ! 0 = byte_of_char CHR 0x22"
    by (simp add: LogID_MarshalJSON_def)
  moreover have "LogID_MarshalJSON i ! 33 = byte_of_char CHR 0x22"
    using assms LogID_Hex_length [of i] by (simp add: LogID_MarshalJSON_def nth_append)
  moreover have "butlast (tl (LogID_MarshalJSON i)) = bytes_of_string (LogID_Hex i)"
    by (simp add: LogID_MarshalJSON_def butlast_append)
  ultimately have "LogID_UnmarshalJSON old (LogID_MarshalJSON i) = (i, None)"
    using assms by (simp add: LogID_UnmarshalJSON_def LogID_Unhex_Hex LogID_wf_def [of old])
  then show ?thesis using assms LogID_Unhex_Hex LogID_Unhex_wf by blast
qed

theorem LogID_round_trips_witness:
  "LogID_UnmarshalJSON zero_LogID (LogID_MarshalJSON (replicate 16 171)) = (replicate 16 171, None)"
  using LogID_round_trips [of "replicate 16 171" zero_LogID]
  by (simp add: LogID_wf_def zero_LogID_def)

text \<open>
  Transaction identifiers never repeat: any number of consecutive \<open>NewTxID\<close> calls, up to the
  size of the counter, returns pairwise different identifiers, whatever the counter holds.
\<close>

theorem NewTxID_distinct:
  assumes "n \<le> 2 ^ 64"
  shows "distinct (take_txids n c)"
proof -
  have "take_txids n c ! i \<noteq> take_txids n c ! j" if "i < n" "j < n" "i \<noteq> j" for i j
  proof -
    have "i < 2 ^ 64" "j < 2 ^ 64" using that assms by auto
    then have "(word_of_nat i :: uint64) \<noteq> word_of_nat j"
      using that by (simp add: word_of_nat_eq_iff take_bit_nat_eq_self)
    then show ?thesis using that by (simp add: take_txids_nth)
  qed
  then show ?thesis by (auto simp: distinct_conv_nth)
qed

theorem NewTxID_distinct_witness:
  "distinct (take_txids 3 \<lparr>lastRawFuncLogID = -1, lastTxID = -1\<rparr>)"
  by (rule NewTxID_distinct) simp

end
