(* ===== verification/Symbols.thy ===== *)
theory Symbols
  imports Types
begin

section \<open>Symbols: the symbol table of the traced program (\<open>tracer/types/symbols.go\<close>)\<close>

text \<open>
  The table maps program counters to modules, functions and source lines. The lookups scan sorted
  slices and stop early; \<open>Validate\<close> checks the ordering they rely on, and \<open>Load\<close> panics on a
  table that does not pass. The lemmas characterise the lookups on a validated table by what they
  return, independently of the scan.
\<close>

subsection \<open>Strings\<close>

fun IndexByte_from :: "nat \<Rightarrow> string \<Rightarrow> char \<Rightarrow> int" where
  "IndexByte_from i [] c = -1"
| "IndexByte_from i (x # xs) c = (if x = c then int i else IndexByte_from (Suc i) xs c)"

definition IndexByte :: "string \<Rightarrow> char \<Rightarrow> int" where
  "IndexByte s c = IndexByte_from 0 s c"

fun LastIndexByte :: "string \<Rightarrow> char \<Rightarrow> int" where
  "LastIndexByte [] c = -1"
| "LastIndexByte (x # xs) c =
     (let r = LastIndexByte xs c in if 0 \<le> r then r + 1 else if x = c then 0 else -1)"

fun split_on :: "char \<Rightarrow> string \<Rightarrow> string list" where
  "split_on c [] = [[]]"
| "split_on c (x # xs) =
     (if x = c then [] # split_on c xs
      else case split_on c xs of [] \<Rightarrow> [[x]] | w # ws \<Rightarrow> (x # w) # ws)"

fun join_with :: "char \<Rightarrow> string list \<Rightarrow> string" where
  "join_with c [] = []"
| "join_with c [w] = w"
| "join_with c (w # ws) = w @ c # join_with c ws"

subsection \<open>The table\<close>

type_synonym FileID = uint32

record GoModule =
  gm_Name :: string
  gm_MinPC :: uintptr
  gm_MaxPC :: uintptr

record GoFunc =
  gf_Entry :: uintptr
  gf_Name :: string

record GoLine =
  gl_PC :: uintptr
  gl_FileID :: FileID
  gl_Line :: uint32

record SymbolsData =
  sd_Files :: "string list"
  sd_Mods :: "GoModule list"
  sd_Funcs :: "GoFunc list"
  sd_Lines :: "GoLine list"

record Symbols =
  sym_Writable :: bool
  sym_data :: SymbolsData

definition zero_GoModule :: GoModule where
  "zero_GoModule = \<lparr>gm_Name = [], gm_MinPC = 0, gm_MaxPC = 0\<rparr>"

definition zero_GoFunc :: GoFunc where
  "zero_GoFunc = \<lparr>gf_Entry = 0, gf_Name = []\<rparr>"

definition zero_GoLine :: GoLine where
  "zero_GoLine = \<lparr>gl_PC = 0, gl_FileID = 0, gl_Line = 0\<rparr>"

definition zero_SymbolsData :: SymbolsData where
  "zero_SymbolsData = \<lparr>sd_Files = [], sd_Mods = [], sd_Funcs = [], sd_Lines = []\<rparr>"

subsection \<open>Validation\<close>

datatype symbols_error =
    FileIsEmpty nat
  | MinPCIsZero | MaxPCIsZero | MinPCGeMaxPC | ModsNotSorted nat
  | FuncNameIsEmpty | FuncEntryIsZero | FuncsNotSorted nat
  | LinePCIsZero | LineIsZero | LinesNotSorted nat | LineFileIDInvalid nat

definition GoModule_Validate :: "GoModule \<Rightarrow> symbols_error option" where
  "GoModule_Validate m =
     (if gm_MinPC m = 0 then Some MinPCIsZero
      else if gm_MaxPC m = 0 then Some MaxPCIsZero
      else if gm_MinPC m \<ge> gm_MaxPC m then Some MinPCGeMaxPC
      else None)"

definition GoFunc_Validate :: "GoFunc \<Rightarrow> symbols_error option" where
  "GoFunc_Validate f =
     (if gf_Name f = [] then Some FuncNameIsEmpty
      else if gf_Entry f = 0 then Some FuncEntryIsZero
      else None)"

definition GoLine_Validate :: "GoLine \<Rightarrow> symbols_error option" where
  "GoLine_Validate l =
     (if gl_PC l = 0 then Some LinePCIsZero
      else if gl_Line l = 0 then Some LineIsZero
      else None)"

fun validate_files :: "nat \<Rightarrow> string list \<Rightarrow> symbols_error option" where
  "validate_files i [] = None"
| "validate_files i (f # fs) = (if f = [] then Some (FileIsEmpty i) else validate_files (Suc i) fs)"

fun validate_mods :: "nat \<Rightarrow> uintptr \<Rightarrow> GoModule list \<Rightarrow> symbols_error option" where
  "validate_mods i pc [] = None"
| "validate_mods i pc (m # ms) =
     (case GoModule_Validate m of
        Some e \<Rightarrow> Some e
      | None \<Rightarrow> if gm_MinPC m \<le> pc \<or> gm_MaxPC m \<le> pc then Some (ModsNotSorted i)
                else validate_mods (Suc i) (gm_MaxPC m) ms)"

fun validate_funcs :: "nat \<Rightarrow> uintptr \<Rightarrow> GoFunc list \<Rightarrow> symbols_error option" where
  "validate_funcs i pc [] = None"
| "validate_funcs i pc (f # fs) =
     (case GoFunc_Validate f of
        Some e \<Rightarrow> Some e
      | None \<Rightarrow> if gf_Entry f \<le> pc then Some (FuncsNotSorted i)
                else validate_funcs (Suc i) (gf_Entry f) fs)"

fun validate_lines :: "nat \<Rightarrow> nat \<Rightarrow> uintptr \<Rightarrow> GoLine list \<Rightarrow> symbols_error option" where
  "validate_lines nfiles i pc [] = None"
| "validate_lines nfiles i pc (l # ls) =
     (case GoLine_Validate l of
        Some e \<Rightarrow> Some e
      | None \<Rightarrow> if gl_PC l \<le> pc then Some (LinesNotSorted i)
                else if nfiles \<le> unat (gl_FileID l) then Some (LineFileIDInvalid i)
                else validate_lines nfiles (Suc i) (gl_PC l) ls)"

definition SymbolsData_Validate :: "SymbolsData \<Rightarrow> symbols_error option" where
  "SymbolsData_Validate sd =
     (case validate_files 0 (sd_Files sd) of
        Some e \<Rightarrow> Some e
      | None \<Rightarrow>
     (case validate_mods 0 0 (sd_Mods sd) of
        Some e \<Rightarrow> Some e
      | None \<Rightarrow>
     (case validate_funcs 0 0 (sd_Funcs sd) of
        Some e \<Rightarrow> Some e
      | None \<Rightarrow> validate_lines (length (sd_Files sd)) 0 0 (sd_Lines sd))))"

definition Symbols_Load :: "Symbols \<Rightarrow> SymbolsData \<Rightarrow> Symbols go" where
  "Symbols_Load s data =
     (case SymbolsData_Validate data of
        Some e \<Rightarrow> Inl (Panic ''invalid SymbolsData'')
      | None \<Rightarrow> Inr (s\<lparr>sym_data := data\<rparr>))"

definition Symbols_Save :: "Symbols \<Rightarrow> (SymbolsData \<Rightarrow> 'r) \<Rightarrow> 'r" where
  "Symbols_Save s fn = fn (sym_data s)"

subsection \<open>Lookups\<close>

fun goModuleNolock :: "GoModule list \<Rightarrow> uintptr \<Rightarrow> GoModule \<times> bool" where
  "goModuleNolock [] pc = (zero_GoModule, False)"
| "goModuleNolock (m # ms) pc =
     (if gm_MinPC m \<le> pc \<and> pc \<le> gm_MaxPC m then (m, True) else goModuleNolock ms pc)"

definition Symbols_GoModule :: "Symbols \<Rightarrow> uintptr \<Rightarrow> GoModule \<times> bool" where
  "Symbols_GoModule s pc = goModuleNolock (sd_Mods (sym_data s)) pc"

text \<open>
  The scan for the last element with \<open>key e \<le> pc\<close> inside the module: \<open>continue\<close> below the
  module, \<open>break\<close> past the module or past \<open>pc\<close>. The accumulator is the element last found.
\<close>

fun scan_last :: "('e \<Rightarrow> uintptr) \<Rightarrow> GoModule \<Rightarrow> uintptr \<Rightarrow> 'e list \<Rightarrow> 'e option \<Rightarrow> 'e option" where
  "scan_last key m pc [] found = found"
| "scan_last key m pc (e # es) found =
     (if key e < gm_MinPC m then scan_last key m pc es found
      else if key e > gm_MaxPC m then found
      else if key e \<le> pc then scan_last key m pc es (Some e)
      else found)"

definition Symbols_GoFunc :: "Symbols \<Rightarrow> uintptr \<Rightarrow> GoFunc \<times> bool" where
  "Symbols_GoFunc s pc =
     (case goModuleNolock (sd_Mods (sym_data s)) pc of
        (m, False) \<Rightarrow> (zero_GoFunc, False)
      | (m, True) \<Rightarrow>
          (case scan_last gf_Entry m pc (sd_Funcs (sym_data s)) None of
             Some f \<Rightarrow> (f, True)
           | None \<Rightarrow> (zero_GoFunc, False)))"

definition Symbols_GoLine :: "Symbols \<Rightarrow> uintptr \<Rightarrow> GoLine \<times> bool" where
  "Symbols_GoLine s pc =
     (case goModuleNolock (sd_Mods (sym_data s)) pc of
        (m, False) \<Rightarrow> (zero_GoLine, False)
      | (m, True) \<Rightarrow>
          (case scan_last gl_PC m pc (sd_Lines (sym_data s)) None of
             Some l \<Rightarrow> (l, True)
           | None \<Rightarrow> (zero_GoLine, False)))"

text \<open>The condition is inverted in the source: a function that is found is reported as \<open>?\<close>.\<close>

definition Symbols_FuncName :: "Symbols \<Rightarrow> uintptr \<Rightarrow> string" where
  "Symbols_FuncName s pc =
     (let (fn, ok) = Symbols_GoFunc s pc in if ok then ''?'' else gf_Name fn)"

definition Symbols_ModuleName :: "Symbols \<Rightarrow> uintptr \<Rightarrow> string" where
  "Symbols_ModuleName s pc =
     (let moduleHierarchy = split_on CHR ''/'' (Symbols_FuncName s pc);
          lst = length moduleHierarchy - 1;
          moduleHierarchy' =
            moduleHierarchy[lst := hd (split_on CHR ''.'' (moduleHierarchy ! lst))]
      in join_with CHR ''/'' moduleHierarchy')"

definition file_name :: "string list \<Rightarrow> GoLine \<Rightarrow> string go" where
  "file_name files l =
     (if unat (gl_FileID l) \<le> length files
      then if unat (gl_FileID l) < length files then Inr (files ! unat (gl_FileID l))
           else Inl IndexOutOfRange
      else Inr ''?'')"

definition Symbols_File :: "Symbols \<Rightarrow> uintptr \<Rightarrow> string go" where
  "Symbols_File s pc =
     (case Symbols_GoLine s pc of
        (l, True) \<Rightarrow> file_name (sd_Files (sym_data s)) l
      | (l, False) \<Rightarrow> Inr ''?'')"

definition Symbols_Line :: "Symbols \<Rightarrow> uintptr \<Rightarrow> int64" where
  "Symbols_Line s pc =
     (case Symbols_GoLine s pc of (l, True) \<Rightarrow> ucast (gl_Line l) | (l, False) \<Rightarrow> -1)"

definition Symbols_FileLine :: "Symbols \<Rightarrow> uintptr \<Rightarrow> string go" where
  "Symbols_FileLine s pc =
     (case Symbols_GoLine s pc of
        (l, True) \<Rightarrow>
          go_bind (file_name (sd_Files (sym_data s)) l)
            (\<lambda>filename. Inr (filename @ '':'' @ FormatUint (ucast (gl_Line l))))
      | (l, False) \<Rightarrow> Inr (''?'' @ '':'' @ ''?''))"

subsection \<open>Function names\<close>

definition strip_dirs :: "string \<Rightarrow> string" where
  "strip_dirs name =
     (let p1 = LastIndexByte name CHR ''/'' in if 0 \<le> p1 then drop (nat (p1 + 1)) name else name)"

definition GoFunc_ShortName :: "GoFunc \<Rightarrow> string" where
  "GoFunc_ShortName f =
     (let tmp1 = strip_dirs (gf_Name f);
          p2 = IndexByte tmp1 CHR ''.''
      in if 0 \<le> p2 then drop (nat (p2 + 1)) tmp1 else tmp1)"

definition GoFunc_PackagePath :: "GoFunc \<Rightarrow> string" where
  "GoFunc_PackagePath f =
     (let p1 = LastIndexByte (gf_Name f) CHR ''/'';
          tmp1 = strip_dirs (gf_Name f);
          p2 = IndexByte tmp1 CHR ''.''
      in if 0 \<le> p2 then take (nat (p1 + 1 + p2)) (gf_Name f) else tmp1)"

subsection \<open>What validation establishes\<close>

definition mods_ok :: "uintptr \<Rightarrow> GoModule list \<Rightarrow> bool" where
  "mods_ok pc ms \<longleftrightarrow>
     list_all (\<lambda>m. 0 < gm_MinPC m \<and> gm_MinPC m < gm_MaxPC m \<and> pc < gm_MinPC m) ms \<and>
     sorted_wrt (\<lambda>m m'. gm_MaxPC m < gm_MinPC m') ms"

definition funcs_ok :: "uintptr \<Rightarrow> GoFunc list \<Rightarrow> bool" where
  "funcs_ok pc fs \<longleftrightarrow>
     list_all (\<lambda>f. gf_Name f \<noteq> [] \<and> pc < gf_Entry f) fs \<and> sorted_wrt (<) (map gf_Entry fs)"

definition lines_ok :: "nat \<Rightarrow> uintptr \<Rightarrow> GoLine list \<Rightarrow> bool" where
  "lines_ok n pc ls \<longleftrightarrow>
     list_all (\<lambda>l. gl_Line l \<noteq> 0 \<and> pc < gl_PC l \<and> unat (gl_FileID l) < n) ls \<and>
     sorted_wrt (<) (map gl_PC ls)"

definition symbols_wf :: "SymbolsData \<Rightarrow> bool" where
  "symbols_wf sd \<longleftrightarrow>
     list_all (\<lambda>f. f \<noteq> []) (sd_Files sd) \<and> mods_ok 0 (sd_Mods sd) \<and> funcs_ok 0 (sd_Funcs sd) \<and>
     lines_ok (length (sd_Files sd)) 0 (sd_Lines sd)"

lemma validate_files_None: "validate_files i fs = None \<longleftrightarrow> list_all (\<lambda>f. f \<noteq> []) fs"
  by (induction i fs rule: validate_files.induct) auto

lemma validate_mods_None: "validate_mods i pc ms = None \<longleftrightarrow> mods_ok pc ms"
proof (induction i pc ms rule: validate_mods.induct)
  case (2 i pc m ms)
  then show ?case
    by (auto simp: mods_ok_def GoModule_Validate_def list_all_iff word_gt_0 not_le
        intro: less_trans)
qed (simp add: mods_ok_def)

lemma validate_funcs_None: "validate_funcs i pc fs = None \<longleftrightarrow> funcs_ok pc fs"
proof (induction i pc fs rule: validate_funcs.induct)
  case (2 i pc f fs)
  then show ?case
    by (auto simp: funcs_ok_def GoFunc_Validate_def list_all_iff not_le intro: less_trans)
qed (simp add: funcs_ok_def)

lemma validate_lines_None: "validate_lines n i pc ls = None \<longleftrightarrow> lines_ok n pc ls"
proof (induction n i pc ls rule: validate_lines.induct)
  case (2 n i pc l ls)
  then show ?case
    by (auto simp: lines_ok_def GoLine_Validate_def list_all_iff not_le intro: less_trans)
qed (simp add: lines_ok_def)

lemma Validate_None: "SymbolsData_Validate sd = None \<longleftrightarrow> symbols_wf sd"
  by (auto simp: SymbolsData_Validate_def symbols_wf_def
      simp flip: validate_files_None [of 0] validate_mods_None [of 0] validate_funcs_None [of 0]
        validate_lines_None [of _ 0]
      split: option.splits)

subsection \<open>What the lookups return\<close>

lemma goModuleNolock_found:
  assumes "mods_ok lo ms"
  shows "goModuleNolock ms pc = (m, True) \<longleftrightarrow> m \<in> set ms \<and> gm_MinPC m \<le> pc \<and> pc \<le> gm_MaxPC m"
  using assms
proof (induction ms arbitrary: lo)
  case (Cons x ms)
  from Cons.prems have ok: "mods_ok 0 ms"
    and later: "\<And>y. y \<in> set ms \<Longrightarrow> gm_MaxPC x < gm_MinPC y"
    by (auto simp: mods_ok_def list_all_iff)
  show ?case
  proof (cases "gm_MinPC x \<le> pc \<and> pc \<le> gm_MaxPC x")
    case True
    then have "m \<in> set ms \<Longrightarrow> \<not> gm_MinPC m \<le> pc" for m
      using later by (meson leD le_less_trans)
    with True show ?thesis by auto
  next
    case False
    then show ?thesis using Cons.IH [OF ok] by auto
  qed
qed simp

lemma goModuleNolock_not_found:
  "goModuleNolock ms pc = (m, False) \<longleftrightarrow>
   m = zero_GoModule \<and> (\<forall>m' \<in> set ms. \<not> (gm_MinPC m' \<le> pc \<and> pc \<le> gm_MaxPC m'))"
  by (induction ms) auto

definition in_reach :: "('e \<Rightarrow> uintptr) \<Rightarrow> GoModule \<Rightarrow> uintptr \<Rightarrow> 'e \<Rightarrow> bool" where
  "in_reach key m pc e \<longleftrightarrow> gm_MinPC m \<le> key e \<and> key e \<le> gm_MaxPC m \<and> key e \<le> pc"

lemma scan_last_eq_filter:
  assumes "sorted_wrt (<) (map key es)"
  shows "scan_last key m pc es found =
    (let c = filter (in_reach key m pc) es in if c = [] then found else Some (last c))"
  using assms
proof (induction es arbitrary: found)
  case (Cons e es)
  have none: "filter (in_reach key m pc) es = []" if past: "gm_MaxPC m < key e \<or> pc < key e"
  proof -
    have "\<not> in_reach key m pc y" if "y \<in> set es" for y
    proof -
      have "key e < key y" using that Cons.prems by simp
      with past show ?thesis unfolding in_reach_def by (meson leD le_less_trans less_trans)
    qed
    then show ?thesis by (simp add: filter_empty_conv)
  qed
  have IH: "scan_last key m pc es found =
      (let c = filter (in_reach key m pc) es in if c = [] then found else Some (last c))" for found
    using Cons by simp
  consider (below) "key e < gm_MinPC m"
    | (past) "\<not> key e < gm_MinPC m" "gm_MaxPC m < key e \<or> pc < key e"
    | (reach) "in_reach key m pc e"
    unfolding in_reach_def by (meson not_le)
  then show ?case
  proof cases
    case below
    then have "\<not> in_reach key m pc e" by (auto simp: in_reach_def dest: leD)
    with below show ?thesis by (simp add: IH)
  next
    case past
    then have "\<not> in_reach key m pc e" by (auto simp: in_reach_def dest: leD)
    with past none show ?thesis by (auto simp: Let_def)
  next
    case reach
    then have "\<not> key e < gm_MinPC m" "\<not> gm_MaxPC m < key e" "key e \<le> pc"
      by (simp_all add: in_reach_def not_less)
    with reach show ?thesis by (simp add: IH Let_def)
  qed
qed (simp add: Let_def)

lemma last_filter_sorted:
  assumes "sorted_wrt (<) (map (key :: 'e \<Rightarrow> uintptr) es)"
  shows "filter P es \<noteq> [] \<and> last (filter P es) = e \<longleftrightarrow>
    e \<in> set es \<and> P e \<and> (\<forall>e' \<in> set es. P e' \<longrightarrow> key e' \<le> key e)"
  using assms
proof (induction es)
  case (Cons x es)
  then have IH: "filter P es \<noteq> [] \<and> last (filter P es) = e \<longleftrightarrow>
      e \<in> set es \<and> P e \<and> (\<forall>e' \<in> set es. P e' \<longrightarrow> key e' \<le> key e)"
    and lt: "\<And>y. y \<in> set es \<Longrightarrow> key x < key y" by auto
  show ?case
  proof (cases "filter P es = []")
    case True
    then have "\<forall>y \<in> set es. \<not> P y" by (simp add: filter_empty_conv)
    then show ?thesis using True lt by auto
  next
    case False
    then obtain y where "y \<in> set es" "P y" by (auto simp: filter_empty_conv)
    then have "e = x \<Longrightarrow> \<not> (\<forall>e' \<in> set es. P e' \<longrightarrow> key e' \<le> key e)"
      using lt by (auto simp: not_le)
    with False IH lt show ?thesis by (auto simp: less_imp_le)
  qed
qed simp

lemma scan_last_Some:
  assumes "sorted_wrt (<) (map key es)"
  shows "scan_last key m pc es None = Some e \<longleftrightarrow>
    e \<in> set es \<and> in_reach key m pc e \<and>
    (\<forall>e' \<in> set es. in_reach key m pc e' \<longrightarrow> key e' \<le> key e)"
  using last_filter_sorted [OF assms, of "in_reach key m pc" e]
  by (auto simp: scan_last_eq_filter [OF assms] Let_def)

lemma sorted_keys:
  assumes "symbols_wf sd"
  shows "sorted_wrt (<) (map gf_Entry (sd_Funcs sd))" "sorted_wrt (<) (map gl_PC (sd_Lines sd))"
  using assms by (auto simp: symbols_wf_def funcs_ok_def lines_ok_def)

lemma GoLine_mem: "Symbols_GoLine s pc = (l, True) \<Longrightarrow> symbols_wf (sym_data s) \<Longrightarrow>
  l \<in> set (sd_Lines (sym_data s))"
  by (auto simp: Symbols_GoLine_def scan_last_Some sorted_keys split: prod.splits bool.splits option.splits)

subsection \<open>Names\<close>

lemma LastIndexByte_ge: "- 1 \<le> LastIndexByte s c"
  by (induction s) (auto simp: Let_def)

lemma LastIndexByte_split:
  "0 \<le> LastIndexByte s c \<Longrightarrow>
   nat (LastIndexByte s c) < length s \<and> s ! nat (LastIndexByte s c) = c"
proof (induction s)
  case (Cons x s)
  then show ?case
    by (cases "0 \<le> LastIndexByte s c") (auto simp: Let_def nat_add_distrib split: if_splits)
qed simp

lemma IndexByte_from_bounds:
  "0 \<le> IndexByte_from i s c \<Longrightarrow>
   int i \<le> IndexByte_from i s c \<and> nat (IndexByte_from i s c) - i < length s \<and>
   s ! (nat (IndexByte_from i s c) - i) = c"
proof (induction i s c rule: IndexByte_from.induct)
  case (2 i x xs c)
  show ?case
  proof (cases "x = c")
    case False
    with 2 have IH: "int (Suc i) \<le> IndexByte_from (Suc i) xs c"
      "nat (IndexByte_from (Suc i) xs c) - Suc i < length xs"
      "xs ! (nat (IndexByte_from (Suc i) xs c) - Suc i) = c" by auto
    then have "nat (IndexByte_from (Suc i) xs c) - i = Suc (nat (IndexByte_from (Suc i) xs c) - Suc i)"
      by linarith
    with IH False show ?thesis by simp
  qed simp
qed simp

lemma IndexByte_split:
  assumes "0 \<le> IndexByte s c"
  shows "s = take (nat (IndexByte s c)) s @ c # drop (nat (IndexByte s c + 1)) s"
proof -
  have "nat (IndexByte s c) < length s" "s ! nat (IndexByte s c) = c"
    using IndexByte_from_bounds [of 0 s c] assms by (auto simp: IndexByte_def)
  then show ?thesis
    using id_take_nth_drop [of "nat (IndexByte s c)" s] assms by (simp add: nat_add_distrib)
qed

lemma strip_dirs_eq_drop: "strip_dirs name = drop (nat (LastIndexByte name CHR ''/'' + 1)) name"
  using LastIndexByte_ge [of name "CHR ''/''"] by (auto simp: strip_dirs_def Let_def)

lemma GoFunc_found:
  assumes "symbols_wf (sym_data s)"
  shows "Symbols_GoFunc s pc = (f, True) \<longleftrightarrow>
    (\<exists>m. goModuleNolock (sd_Mods (sym_data s)) pc = (m, True) \<and>
      scan_last gf_Entry m pc (sd_Funcs (sym_data s)) None = Some f)"
  by (auto simp: Symbols_GoFunc_def split: prod.splits bool.splits option.splits)

lemma GoLine_found:
  assumes "symbols_wf (sym_data s)"
  shows "Symbols_GoLine s pc = (l, True) \<longleftrightarrow>
    (\<exists>m. goModuleNolock (sd_Mods (sym_data s)) pc = (m, True) \<and>
      scan_last gl_PC m pc (sd_Lines (sym_data s)) None = Some l)"
  by (auto simp: Symbols_GoLine_def split: prod.splits bool.splits option.splits)

lemma closest_below_iff:
  assumes "gm_MinPC m \<le> pc" "pc \<le> gm_MaxPC m"
  shows "in_reach key m pc e \<and> (\<forall>e' \<in> S. in_reach key m pc e' \<longrightarrow> key e' \<le> key e) \<longleftrightarrow>
    gm_MinPC m \<le> key e \<and> key e \<le> pc \<and> (\<forall>e' \<in> S. key e' \<le> pc \<longrightarrow> key e' \<le> key e)"
proof -
  have r: "in_reach key m pc e' \<longleftrightarrow> gm_MinPC m \<le> key e' \<and> key e' \<le> pc" for e'
    using assms unfolding in_reach_def by (meson order_trans)
  have "key e' \<le> key e" if "gm_MinPC m \<le> key e" "\<not> gm_MinPC m \<le> key e'" for e'
    using that by (meson le_cases order_trans)
  then show ?thesis unfolding r by blast
qed

lemma FileID_in_range:
  assumes "symbols_wf (sym_data s)" "Symbols_GoLine s pc = (l, True)"
  shows "unat (gl_FileID l) < length (sd_Files (sym_data s))"
  using GoLine_mem [OF assms(2,1)] assms(1) by (auto simp: symbols_wf_def lines_ok_def list_all_iff)

section \<open>Properties\<close>

definition sample_symbols :: SymbolsData where
  "sample_symbols =
     \<lparr>sd_Files = [''/src/main.go''],
      sd_Mods = [\<lparr>gm_Name = [], gm_MinPC = 100, gm_MaxPC = 500\<rparr>],
      sd_Funcs = [\<lparr>gf_Entry = 100, gf_Name = ''example.com/foo/bar.f''\<rparr>,
                  \<lparr>gf_Entry = 200, gf_Name = ''main.main''\<rparr>],
      sd_Lines = [\<lparr>gl_PC = 100, gl_FileID = 0, gl_Line = 7\<rparr>]\<rparr>"

text \<open>
  C27. On a validated table, \<open>GoFunc(pc)\<close> finds exactly the function of pc's module with the
  greatest entry point not past pc.
\<close>

theorem GoFunc_finds_enclosing_function:
  assumes "SymbolsData_Validate (sym_data s) = None"
  shows "Symbols_GoFunc s pc = (f, True) \<longleftrightarrow>
    (\<exists>m \<in> set (sd_Mods (sym_data s)). gm_MinPC m \<le> pc \<and> pc \<le> gm_MaxPC m \<and>
       f \<in> set (sd_Funcs (sym_data s)) \<and> gm_MinPC m \<le> gf_Entry f \<and> gf_Entry f \<le> pc \<and>
       (\<forall>f' \<in> set (sd_Funcs (sym_data s)). gf_Entry f' \<le> pc \<longrightarrow> gf_Entry f' \<le> gf_Entry f))"
proof -
  have wf: "symbols_wf (sym_data s)" using assms by (simp add: Validate_None)
  then have mods: "mods_ok 0 (sd_Mods (sym_data s))" by (simp add: symbols_wf_def)
  show ?thesis
    unfolding GoFunc_found [OF wf] goModuleNolock_found [OF mods] scan_last_Some [OF sorted_keys(1) [OF wf]]
    using closest_below_iff [where key = gf_Entry] by blast
qed

theorem GoFunc_finds_enclosing_function_witness:
  "Symbols_GoFunc \<lparr>sym_Writable = True, sym_data = sample_symbols\<rparr> 150 =
    (\<lparr>gf_Entry = 100, gf_Name = ''example.com/foo/bar.f''\<rparr>, True)"
proof -
  let ?s = "\<lparr>sym_Writable = True, sym_data = sample_symbols\<rparr>"
  have "SymbolsData_Validate (sym_data ?s) = None" by code_simp
  from GoFunc_finds_enclosing_function [OF this,
      of 150 "\<lparr>gf_Entry = 100, gf_Name = ''example.com/foo/bar.f''\<rparr>"]
  show ?thesis by (simp add: sample_symbols_def)
qed

text \<open>
  On a validated table, \<open>GoLine(pc)\<close> finds exactly the line record of pc's module with the
  greatest program counter not past pc.
\<close>

theorem GoLine_finds_enclosing_line:
  assumes "SymbolsData_Validate (sym_data s) = None"
  shows "Symbols_GoLine s pc = (l, True) \<longleftrightarrow>
    (\<exists>m \<in> set (sd_Mods (sym_data s)). gm_MinPC m \<le> pc \<and> pc \<le> gm_MaxPC m \<and>
       l \<in> set (sd_Lines (sym_data s)) \<and> gm_MinPC m \<le> gl_PC l \<and> gl_PC l \<le> pc \<and>
       (\<forall>l' \<in> set (sd_Lines (sym_data s)). gl_PC l' \<le> pc \<longrightarrow> gl_PC l' \<le> gl_PC l))"
proof -
  have wf: "symbols_wf (sym_data s)" using assms by (simp add: Validate_None)
  then have mods: "mods_ok 0 (sd_Mods (sym_data s))" by (simp add: symbols_wf_def)
  show ?thesis
    unfolding GoLine_found [OF wf] goModuleNolock_found [OF mods] scan_last_Some [OF sorted_keys(2) [OF wf]]
    using closest_below_iff [where key = gl_PC] by blast
qed

theorem GoLine_finds_enclosing_line_witness:
  "Symbols_GoLine \<lparr>sym_Writable = True, sym_data = sample_symbols\<rparr> 250 =
    (\<lparr>gl_PC = 100, gl_FileID = 0, gl_Line = 7\<rparr>, True)"
proof -
  let ?s = "\<lparr>sym_Writable = True, sym_data = sample_symbols\<rparr>"
  have "SymbolsData_Validate (sym_data ?s) = None" by code_simp
  from GoLine_finds_enclosing_line [OF this, of 250 "\<lparr>gl_PC = 100, gl_FileID = 0, gl_Line = 7\<rparr>"]
  show ?thesis by (simp add: sample_symbols_def)
qed

text \<open>
  C40. \<open>Validate\<close> accepts a table exactly when file names are not empty, modules are disjoint,
  ascending, non-empty ranges above 0, and functions and lines are strictly ascending, named,
  numbered and refer to existing files.
\<close>

theorem Validate_iff_well_formed:
  "SymbolsData_Validate sd = None \<longleftrightarrow>
    [] \<notin> set (sd_Files sd) \<and>
    (\<forall>m \<in> set (sd_Mods sd). 0 < gm_MinPC m \<and> gm_MinPC m < gm_MaxPC m) \<and>
    sorted_wrt (\<lambda>m m'. gm_MaxPC m < gm_MinPC m') (sd_Mods sd) \<and>
    (\<forall>f \<in> set (sd_Funcs sd). gf_Name f \<noteq> [] \<and> 0 < gf_Entry f) \<and>
    sorted_wrt (<) (map gf_Entry (sd_Funcs sd)) \<and>
    (\<forall>l \<in> set (sd_Lines sd). gl_Line l \<noteq> 0 \<and> 0 < gl_PC l \<and> unat (gl_FileID l) < length (sd_Files sd)) \<and>
    sorted_wrt (<) (map gl_PC (sd_Lines sd))"
  unfolding Validate_None symbols_wf_def mods_ok_def funcs_ok_def lines_ok_def list_all_iff
  by blast

theorem Validate_iff_well_formed_witness:
  "[] \<notin> set (sd_Files sample_symbols)"
proof -
  have "SymbolsData_Validate sample_symbols = None" by code_simp
  then show ?thesis unfolding Validate_iff_well_formed by blast
qed

text \<open>
  After a successful \<open>Load\<close>, \<open>File\<close> and \<open>FileLine\<close> never index \<open>Files\<close> out of range,
  whatever the program counter, although their own bound check is off by one.
\<close>

theorem File_after_Load_returns:
  assumes "Symbols_Load s data = Inr s'"
  shows "\<exists>name. Symbols_File s' pc = Inr name \<and>
    Symbols_FileLine s' pc =
      Inr (name @ '':'' @
        (if snd (Symbols_GoLine s' pc) then FormatUint (ucast (gl_Line (fst (Symbols_GoLine s' pc)))) else ''?''))"
proof -
  from assms have "symbols_wf (sym_data s')"
    by (auto simp: Symbols_Load_def Validate_None split: option.splits)
  then have "snd (Symbols_GoLine s' pc) \<Longrightarrow>
      unat (gl_FileID (fst (Symbols_GoLine s' pc))) < length (sd_Files (sym_data s'))"
    by (cases "Symbols_GoLine s' pc") (auto intro: FileID_in_range)
  then show ?thesis
    by (cases "Symbols_GoLine s' pc")
      (auto simp: Symbols_File_def Symbols_FileLine_def file_name_def split: bool.splits)
qed

theorem File_after_Load_returns_witness:
  "\<exists>name. Symbols_File \<lparr>sym_Writable = True, sym_data = sample_symbols\<rparr> 123 = Inr name"
proof -
  let ?s = "\<lparr>sym_Writable = True, sym_data = zero_SymbolsData\<rparr>"
  have "SymbolsData_Validate sample_symbols = None" by code_simp
  then have "Symbols_Load ?s sample_symbols = Inr \<lparr>sym_Writable = True, sym_data = sample_symbols\<rparr>"
    by (simp add: Symbols_Load_def)
  from File_after_Load_returns [OF this, of 123] show ?thesis by blast
qed

text \<open>
  \<open>PackagePath\<close> and \<open>ShortName\<close> take a qualified function name apart without loss: the
  package path, a dot and the short name are the name.
\<close>

theorem PackagePath_dot_ShortName:
  assumes "0 \<le> IndexByte (strip_dirs (gf_Name f)) CHR ''.''"
  shows "gf_Name f = GoFunc_PackagePath f @ ''.'' @ GoFunc_ShortName f"
proof -
  define d where "d = nat (LastIndexByte (gf_Name f) CHR ''/'' + 1)"
  define tmp where "tmp = strip_dirs (gf_Name f)"
  define p where "p = nat (IndexByte tmp CHR ''.'')"
  have drop: "tmp = drop d (gf_Name f)"
    unfolding d_def tmp_def by (rule strip_dirs_eq_drop)
  then have name: "gf_Name f = take d (gf_Name f) @ tmp" by simp
  have ge: "- 1 \<le> LastIndexByte (gf_Name f) CHR ''/''" by (rule LastIndexByte_ge)
  have tmp: "tmp = take p tmp @ CHR ''.'' # drop (Suc p) tmp"
    using IndexByte_split [OF assms] assms by (simp add: p_def tmp_def nat_add_distrib)
  have short: "GoFunc_ShortName f = drop (Suc p) tmp"
    using assms by (simp add: GoFunc_ShortName_def Let_def p_def tmp_def nat_add_distrib)
  have "GoFunc_PackagePath f = take (d + p) (gf_Name f)"
    using assms ge by (simp add: GoFunc_PackagePath_def Let_def p_def tmp_def d_def nat_add_distrib)
  then have "GoFunc_PackagePath f = take d (gf_Name f) @ take p tmp"
    by (simp add: take_add drop)
  then show ?thesis using name tmp short by (metis append.assoc append_Cons append_Nil)
qed

theorem PackagePath_dot_ShortName_witness:
  "''example.com/foo/bar.f'' =
    GoFunc_PackagePath \<lparr>gf_Entry = 100, gf_Name = ''example.com/foo/bar.f''\<rparr> @ ''.'' @
    GoFunc_ShortName \<lparr>gf_Entry = 100, gf_Name = ''example.com/foo/bar.f''\<rparr>"
proof -
  let ?f = "\<lparr>gf_Entry = 100, gf_Name = ''example.com/foo/bar.f''\<rparr>"
  have "0 \<le> IndexByte (strip_dirs (gf_Name ?f)) CHR ''.''" by code_simp
  from PackagePath_dot_ShortName [OF this] show ?thesis by simp
qed

text \<open>
  \<open>FuncName\<close> never reports a function name: it answers the placeholder for every program
  counter that \<open>GoFunc\<close> resolves and the empty string otherwise, and \<open>ModuleName\<close> repeats it.
\<close>

theorem FuncName_never_names:
  "Symbols_FuncName s pc = (if snd (Symbols_GoFunc s pc) then ''?'' else []) \<and>
   Symbols_ModuleName s pc = Symbols_FuncName s pc"
proof -
  have name: "Symbols_FuncName s pc = (if snd (Symbols_GoFunc s pc) then ''?'' else [])"
    by (auto simp: Symbols_FuncName_def Symbols_GoFunc_def zero_GoFunc_def
        split: prod.splits bool.splits option.splits)
  then show ?thesis by (simp add: Symbols_ModuleName_def Let_def)
qed

end
