(* ===== verification/Encoding.thy ===== *)
theory Encoding
  imports Codec Symbols
begin

section \<open>Encoding: the binary format (\<open>tracer/encoding\<close>)\<close>

text \<open>
  The fixed-width integers, strings and slices of \<open>buildin.go\<close>, the identifiers of \<open>types.go\<close>
  and the records of \<open>log.go\<close>. A marshaller takes the value and the buffer and returns the buffer
  written and the number of bytes; an unmarshaller returns the value and the number of bytes. Where
  an unmarshaller fills \<open>Frames\<close> of an existing object, the capacity of that slice is an argument.
  Each pair is shown to be a \<open>codec\<close>.
\<close>

subsection \<open>Built-in types (\<open>buildin.go\<close>)\<close>

definition marshalBool :: "bool \<Rightarrow> slice \<Rightarrow> (slice \<times> nat) go" where
  "marshalBool val buf = go_bind (slice_set buf 0 (if val then 1 else 0)) (\<lambda>buf. Inr (buf, 1))"

definition unmarshalBool :: "slice \<Rightarrow> (bool \<times> nat) go" where
  "unmarshalBool buf = go_bind (slice_get buf 0) (\<lambda>b. Inr (b \<noteq> 0, 1))"

definition MarshalUint64 :: "uint64 \<Rightarrow> slice \<Rightarrow> (slice \<times> nat) go" where
  "MarshalUint64 val buf =
     go_bind (slice_to buf 8) (\<lambda>s.
     go_bind (PutUint64 s val) (\<lambda>s. Inr (buf\<lparr>sl_arr := sl_arr s\<rparr>, 8)))"

definition UnmarshalUint64 :: "slice \<Rightarrow> (uint64 \<times> nat) go" where
  "UnmarshalUint64 buf = go_bind (slice_to buf 8) (\<lambda>s. go_bind (Uint64 s) (\<lambda>v. Inr (v, 8)))"

definition marshalUint32 :: "uint32 \<Rightarrow> slice \<Rightarrow> (slice \<times> nat) go" where
  "marshalUint32 val buf =
     go_bind (slice_to buf 4) (\<lambda>s.
     go_bind (PutUint32 s val) (\<lambda>s. Inr (buf\<lparr>sl_arr := sl_arr s\<rparr>, 4)))"

definition unmarshalUint32 :: "slice \<Rightarrow> (uint32 \<times> nat) go" where
  "unmarshalUint32 buf = go_bind (slice_to buf 4) (\<lambda>s. go_bind (Uint32 s) (\<lambda>v. Inr (v, 4)))"

definition MarshalUint8 :: "byte \<Rightarrow> slice \<Rightarrow> (slice \<times> nat) go" where
  "MarshalUint8 val buf = go_bind (slice_set buf 0 val) (\<lambda>buf. Inr (buf, 1))"

definition UnmarshalUint8 :: "slice \<Rightarrow> (byte \<times> nat) go" where
  "UnmarshalUint8 buf = go_bind (slice_get buf 0) (\<lambda>b. Inr (b, 1))"

definition MarshalString :: "string \<Rightarrow> slice \<Rightarrow> (slice \<times> nat) go" where
  "MarshalString str buf =
     go_bind (MarshalUint64 (word_of_nat (length str)) buf)
       (within (\<lambda>sub. Inr (go_copy sub (bytes_of_string str))))"

definition UnmarshalString :: "slice \<Rightarrow> (string \<times> nat) go" where
  "UnmarshalString buf =
     go_bind (UnmarshalUint64 buf) (\<lambda>(len, n).
     go_bind (slice_from buf n) (\<lambda>buf.
     go_bind (slice_to buf (unat len)) (\<lambda>s. Inr (string_of_bytes (sl_bytes s), n + unat len))))"

definition sizeString :: "string \<Rightarrow> nat" where
  "sizeString str = 8 + length str"

text \<open>\<open>make([]T, n)\<close> panics when the slice exceeds the address space.\<close>

definition go_make :: "nat \<Rightarrow> nat \<Rightarrow> unit go" where
  "go_make n elem_size = (if 2 ^ 48 < n * elem_size then Inl MakeSliceLenOutOfRange else Inr ())"

definition marshalStringSlice :: "string list \<Rightarrow> slice \<Rightarrow> (slice \<times> nat) go" where
  "marshalStringSlice strs buf =
     go_bind (MarshalUint64 (word_of_nat (length strs)) buf) (marshal_each MarshalString strs)"

definition unmarshalStringSlice :: "slice \<Rightarrow> (string list \<times> nat) go" where
  "unmarshalStringSlice buf =
     go_bind (UnmarshalUint64 buf) (\<lambda>(len, t).
     go_bind (go_make (unat len) 16) (\<lambda>_. unmarshal_each UnmarshalString (unat len) buf t))"

definition sizeStringSlice :: "string list \<Rightarrow> nat" where
  "sizeStringSlice strs = 8 + sum_list (map sizeString strs)"

definition MarshalUintptr :: "uintptr \<Rightarrow> slice \<Rightarrow> (slice \<times> nat) go" where
  "MarshalUintptr ptr buf = MarshalUint64 ptr buf"

definition UnmarshalUintptr :: "slice \<Rightarrow> (uintptr \<times> nat) go" where
  "UnmarshalUintptr buf = UnmarshalUint64 buf"

definition marshalUintptrSlice :: "uintptr list \<Rightarrow> slice \<Rightarrow> (slice \<times> nat) go" where
  "marshalUintptrSlice xs buf =
     go_bind (MarshalUint64 (word_of_nat (length xs)) buf) (marshal_each MarshalUint64 xs)"

definition unmarshalUintptrSlice :: "nat \<Rightarrow> slice \<Rightarrow> (uintptr list \<times> nat) go" where
  "unmarshalUintptrSlice cap buf =
     go_bind (UnmarshalUint64 buf) (\<lambda>(len, t).
       if cap < unat len then Inl SliceBoundsOutOfRange
       else unmarshal_each UnmarshalUint64 (unat len) buf t)"

subsection \<open>Identifiers (\<open>types.go\<close>)\<close>

definition marshalFileID :: "FileID \<Rightarrow> slice \<Rightarrow> (slice \<times> nat) go" where
  "marshalFileID v buf = marshalUint32 v buf"

definition unmarshalFileID :: "slice \<Rightarrow> (FileID \<times> nat) go" where
  "unmarshalFileID buf = unmarshalUint32 buf"

definition sizeFileID :: nat where
  "sizeFileID = 4"

definition marshalGID :: "GID \<Rightarrow> slice \<Rightarrow> (slice \<times> nat) go" where
  "marshalGID v buf = MarshalUint64 v buf"

definition unmarshalGID :: "slice \<Rightarrow> (GID \<times> nat) go" where
  "unmarshalGID buf = UnmarshalUint64 buf"

definition marshalTxID :: "TxID \<Rightarrow> slice \<Rightarrow> (slice \<times> nat) go" where
  "marshalTxID v buf = MarshalUint64 v buf"

definition unmarshalTxID :: "slice \<Rightarrow> (TxID \<times> nat) go" where
  "unmarshalTxID buf = UnmarshalUint64 buf"

definition marshalFuncLogID :: "FuncLogID \<Rightarrow> slice \<Rightarrow> (slice \<times> nat) go" where
  "marshalFuncLogID v buf = MarshalUint64 v buf"

definition unmarshalFuncLogID :: "slice \<Rightarrow> (FuncLogID \<times> nat) go" where
  "unmarshalFuncLogID buf = UnmarshalUint64 buf"

definition marshalRawFuncLogID :: "RawFuncLogID \<Rightarrow> slice \<Rightarrow> (slice \<times> nat) go" where
  "marshalRawFuncLogID v buf = MarshalUint64 v buf"

definition unmarshalRawFuncLogID :: "slice \<Rightarrow> (RawFuncLogID \<times> nat) go" where
  "unmarshalRawFuncLogID buf = UnmarshalUint64 buf"

definition marshalTime :: "Time \<Rightarrow> slice \<Rightarrow> (slice \<times> nat) go" where
  "marshalTime v buf = MarshalUint64 v buf"

definition unmarshalTime :: "slice \<Rightarrow> (Time \<times> nat) go" where
  "unmarshalTime buf = UnmarshalUint64 buf"

definition marshalTagName :: "TagName \<Rightarrow> slice \<Rightarrow> (slice \<times> nat) go" where
  "marshalTagName tag buf = go_bind (slice_set buf 0 tag) (\<lambda>buf. Inr (buf, 1))"

definition unmarshalTagName :: "slice \<Rightarrow> (TagName \<times> nat) go" where
  "unmarshalTagName buf = go_bind (slice_get buf 0) (\<lambda>b. Inr (b, 1))"

subsection \<open>Log records (\<open>log.go\<close>)\<close>

definition MarshalGoroutine :: "Goroutine \<Rightarrow> slice \<Rightarrow> (slice \<times> nat) go" where
  "MarshalGoroutine g buf =
     go_bind (marshalGID (g_GID g) buf) (\<lambda>bt.
     go_bind (within (marshalTime (g_StartTime g)) bt) (\<lambda>bt.
     within (marshalTime (g_EndTime g)) bt))"

definition UnmarshalGoroutine :: "slice \<Rightarrow> (Goroutine \<times> nat) go" where
  "UnmarshalGoroutine buf =
     go_bind (unmarshalGID buf) (\<lambda>(gid, t).
     go_bind (read_at unmarshalTime buf t) (\<lambda>(start, t).
     go_bind (read_at unmarshalTime buf t) (\<lambda>(fin, t).
     Inr (\<lparr>g_GID = gid, g_StartTime = start, g_EndTime = fin\<rparr>, t))))"

definition SizeGoroutine :: nat where
  "SizeGoroutine = 8 * 3"

definition MarshalFuncLog :: "FuncLog \<Rightarrow> slice \<Rightarrow> (slice \<times> nat) go" where
  "MarshalFuncLog f buf =
     go_bind (marshalFuncLogID (fl_ID f) buf) (\<lambda>bt.
     go_bind (within (marshalTime (fl_StartTime f)) bt) (\<lambda>bt.
     go_bind (within (marshalTime (fl_EndTime f)) bt) (\<lambda>bt.
     go_bind (within (marshalFuncLogID (fl_ParentID f)) bt) (\<lambda>bt.
     go_bind (within (marshalUintptrSlice (fl_Frames f)) bt) (\<lambda>bt.
     within (marshalGID (fl_GID f)) bt)))))"

definition UnmarshalFuncLog :: "nat \<Rightarrow> slice \<Rightarrow> (FuncLog \<times> nat) go" where
  "UnmarshalFuncLog cap buf =
     go_bind (unmarshalFuncLogID buf) (\<lambda>(i, t).
     go_bind (read_at unmarshalTime buf t) (\<lambda>(start, t).
     go_bind (read_at unmarshalTime buf t) (\<lambda>(fin, t).
     go_bind (read_at unmarshalFuncLogID buf t) (\<lambda>(parent, t).
     go_bind (read_at (unmarshalUintptrSlice cap) buf t) (\<lambda>(frames, t).
     go_bind (read_at unmarshalGID buf t) (\<lambda>(gid, t).
     Inr (\<lparr>fl_ID = i, fl_StartTime = start, fl_EndTime = fin, fl_ParentID = parent,
           fl_Frames = frames, fl_GID = gid\<rparr>, t)))))))"

definition SizeFuncLog :: nat where
  "SizeFuncLog = 8 * 5 + 8 * (1 + MaxStackSize)"

definition MarshalRawFuncLog :: "RawFuncLog \<Rightarrow> slice \<Rightarrow> (slice \<times> nat) go" where
  "MarshalRawFuncLog r buf =
     go_bind (marshalRawFuncLogID (raw_ID r) buf) (\<lambda>bt.
     go_bind (within (marshalTagName (raw_Tag r)) bt) (\<lambda>bt.
     go_bind (within (marshalTime (raw_Timestamp r)) bt) (\<lambda>bt.
     go_bind (within (marshalUintptrSlice (raw_Frames r)) bt) (\<lambda>bt.
     go_bind (within (marshalGID (raw_GID r)) bt) (\<lambda>bt.
     within (marshalTxID (raw_TxID r)) bt)))))"

definition UnmarshalRawFuncLog :: "nat \<Rightarrow> slice \<Rightarrow> (RawFuncLog \<times> nat) go" where
  "UnmarshalRawFuncLog cap buf =
     go_bind (unmarshalRawFuncLogID buf) (\<lambda>(i, t).
     go_bind (read_at unmarshalTagName buf t) (\<lambda>(tag, t).
     go_bind (read_at unmarshalTime buf t) (\<lambda>(ts, t).
     go_bind (read_at (unmarshalUintptrSlice cap) buf t) (\<lambda>(frames, t).
     go_bind (read_at unmarshalGID buf t) (\<lambda>(gid, t).
     go_bind (read_at unmarshalTxID buf t) (\<lambda>(tx, t).
     Inr (\<lparr>raw_ID = i, raw_Tag = tag, raw_Timestamp = ts, raw_Frames = frames,
           raw_GID = gid, raw_TxID = tx\<rparr>, t)))))))"

definition SizeRawFuncLog :: nat where
  "SizeRawFuncLog = 8 * 4 + 1 + 8 * (1 + MaxStackSize)"

definition marshalGoModule :: "GoModule \<Rightarrow> slice \<Rightarrow> (slice \<times> nat) go" where
  "marshalGoModule m buf =
     go_bind (within (MarshalString (gm_Name m)) (buf, 0)) (\<lambda>bt.
     go_bind (within (MarshalUintptr (gm_MinPC m)) bt) (\<lambda>bt.
     within (MarshalUintptr (gm_MaxPC m)) bt))"

definition unmarshalGoModule :: "slice \<Rightarrow> (GoModule \<times> nat) go" where
  "unmarshalGoModule buf =
     go_bind (read_at UnmarshalString buf 0) (\<lambda>(name, t).
     go_bind (read_at UnmarshalUintptr buf t) (\<lambda>(minpc, t).
     go_bind (read_at UnmarshalUintptr buf t) (\<lambda>(maxpc, t).
     Inr (\<lparr>gm_Name = name, gm_MinPC = minpc, gm_MaxPC = maxpc\<rparr>, t))))"

definition sizeGoModule :: "GoModule \<Rightarrow> nat" where
  "sizeGoModule m = sizeString (gm_Name m) + 8 + 8"

definition marshalGoModuleSlice :: "GoModule list \<Rightarrow> slice \<Rightarrow> (slice \<times> nat) go" where
  "marshalGoModuleSlice mods buf =
     go_bind (MarshalUint64 (word_of_nat (length mods)) buf) (marshal_each marshalGoModule mods)"

definition unmarshalGoModuleSlice :: "slice \<Rightarrow> (GoModule list \<times> nat) go" where
  "unmarshalGoModuleSlice buf =
     go_bind (UnmarshalUint64 buf) (\<lambda>(len, t).
     go_bind (go_make (unat len) 32) (\<lambda>_. unmarshal_each unmarshalGoModule (unat len) buf t))"

definition sizeGoModuleSlice :: "GoModule list \<Rightarrow> nat" where
  "sizeGoModuleSlice mods = 8 + sum_list (map sizeGoModule mods)"

definition marshalGoFunc :: "GoFunc \<Rightarrow> slice \<Rightarrow> (slice \<times> nat) go" where
  "marshalGoFunc s buf =
     go_bind (within (MarshalString (gf_Name s)) (buf, 0)) (\<lambda>bt.
     within (MarshalUint64 (gf_Entry s)) bt)"

definition unmarshalGoFunc :: "slice \<Rightarrow> (GoFunc \<times> nat) go" where
  "unmarshalGoFunc buf =
     go_bind (read_at UnmarshalString buf 0) (\<lambda>(name, t).
     go_bind (read_at UnmarshalUint64 buf t) (\<lambda>(ptr, t).
     Inr (\<lparr>gf_Entry = ptr, gf_Name = name\<rparr>, t)))"

definition sizeGoFunc :: "GoFunc \<Rightarrow> nat" where
  "sizeGoFunc f = 8 + sizeString (gf_Name f)"

definition marshalGoFuncSlice :: "GoFunc list \<Rightarrow> slice \<Rightarrow> (slice \<times> nat) go" where
  "marshalGoFuncSlice funcs buf =
     go_bind (MarshalUint64 (word_of_nat (length funcs)) buf) (marshal_each marshalGoFunc funcs)"

definition unmarshalGoFuncSlice :: "slice \<Rightarrow> (GoFunc list \<times> nat) go" where
  "unmarshalGoFuncSlice buf =
     go_bind (UnmarshalUint64 buf) (\<lambda>(len, t).
     go_bind (go_make (unat len) 24) (\<lambda>_. unmarshal_each unmarshalGoFunc (unat len) buf t))"

definition sizeGoFuncSlice :: "GoFunc list \<Rightarrow> nat" where
  "sizeGoFuncSlice funcs = 8 + sum_list (map sizeGoFunc funcs)"

definition marshalGoLine :: "GoLine \<Rightarrow> slice \<Rightarrow> (slice \<times> nat) go" where
  "marshalGoLine s buf =
     go_bind (within (MarshalUintptr (gl_PC s)) (buf, 0)) (\<lambda>bt.
     go_bind (within (marshalFileID (gl_FileID s)) bt) (\<lambda>bt.
     within (marshalUint32 (gl_Line s)) bt))"

definition unmarshalGoLine :: "slice \<Rightarrow> (GoLine \<times> nat) go" where
  "unmarshalGoLine buf =
     go_bind (read_at UnmarshalUintptr buf 0) (\<lambda>(pc, t).
     go_bind (read_at unmarshalFileID buf t) (\<lambda>(fid, t).
     go_bind (read_at unmarshalUint32 buf t) (\<lambda>(ln, t).
     Inr (\<lparr>gl_PC = pc, gl_FileID = fid, gl_Line = ln\<rparr>, t))))"

definition sizeGoLine :: "GoLine \<Rightarrow> nat" where
  "sizeGoLine l = 8 + sizeFileID + 4"

definition marshalGoLineSlice :: "GoLine list \<Rightarrow> slice \<Rightarrow> (slice \<times> nat) go" where
  "marshalGoLineSlice ls buf =
     go_bind (MarshalUint64 (word_of_nat (length ls)) buf) (marshal_each marshalGoLine ls)"

definition unmarshalGoLineSlice :: "slice \<Rightarrow> (GoLine list \<times> nat) go" where
  "unmarshalGoLineSlice buf =
     go_bind (UnmarshalUint64 buf) (\<lambda>(len, t).
     go_bind (go_make (unat len) 16) (\<lambda>_. unmarshal_each unmarshalGoLine (unat len) buf t))"

definition sizeGoLineSlice :: "GoLine list \<Rightarrow> nat" where
  "sizeGoLineSlice ls = 8 + sum_list (map sizeGoLine ls)"

definition MarshalSymbolsData :: "SymbolsData \<Rightarrow> slice \<Rightarrow> (slice \<times> nat) go" where
  "MarshalSymbolsData sd buf =
     go_bind (marshalStringSlice (sd_Files sd) buf) (\<lambda>bt.
     go_bind (within (marshalGoModuleSlice (sd_Mods sd)) bt) (\<lambda>bt.
     go_bind (within (marshalGoFuncSlice (sd_Funcs sd)) bt) (\<lambda>bt.
     within (marshalGoLineSlice (sd_Lines sd)) bt)))"

definition UnmarshalSymbolsData :: "slice \<Rightarrow> (SymbolsData \<times> nat) go" where
  "UnmarshalSymbolsData buf =
     go_bind (unmarshalStringSlice buf) (\<lambda>(files, t).
     go_bind (read_at unmarshalGoModuleSlice buf t) (\<lambda>(mods, t).
     go_bind (read_at unmarshalGoFuncSlice buf t) (\<lambda>(funcs, t).
     go_bind (read_at unmarshalGoLineSlice buf t) (\<lambda>(ls, t).
     Inr (\<lparr>sd_Files = files, sd_Mods = mods, sd_Funcs = funcs, sd_Lines = ls\<rparr>, t)))))"

definition SizeSymbolsData :: "SymbolsData \<Rightarrow> nat" where
  "SizeSymbolsData sd =
     sizeStringSlice (sd_Files sd) + sizeGoModuleSlice (sd_Mods sd) +
     sizeGoFuncSlice (sd_Funcs sd) + sizeGoLineSlice (sd_Lines sd)"

subsection \<open>The bytes of each type\<close>

definition enc_string :: "string \<Rightarrow> byte list" where
  "enc_string str = be64 (word_of_nat (length str)) @ bytes_of_string str"

definition enc_list :: "('a \<Rightarrow> byte list) \<Rightarrow> 'a list \<Rightarrow> byte list" where
  "enc_list enc xs = be64 (word_of_nat (length xs)) @ concat (map enc xs)"

definition enc_GoModule :: "GoModule \<Rightarrow> byte list" where
  "enc_GoModule m = enc_string (gm_Name m) @ be64 (gm_MinPC m) @ be64 (gm_MaxPC m)"

definition enc_GoFunc :: "GoFunc \<Rightarrow> byte list" where
  "enc_GoFunc f = enc_string (gf_Name f) @ be64 (gf_Entry f)"

definition enc_GoLine :: "GoLine \<Rightarrow> byte list" where
  "enc_GoLine l = be64 (gl_PC l) @ be32 (gl_FileID l) @ be32 (gl_Line l)"

definition enc_Goroutine :: "Goroutine \<Rightarrow> byte list" where
  "enc_Goroutine g = be64 (g_GID g) @ be64 (g_StartTime g) @ be64 (g_EndTime g)"

definition enc_FuncLog :: "FuncLog \<Rightarrow> byte list" where
  "enc_FuncLog f = be64 (fl_ID f) @ be64 (fl_StartTime f) @ be64 (fl_EndTime f) @
     be64 (fl_ParentID f) @ enc_list be64 (fl_Frames f) @ be64 (fl_GID f)"

definition enc_RawFuncLog :: "RawFuncLog \<Rightarrow> byte list" where
  "enc_RawFuncLog r = be64 (raw_ID r) @ [raw_Tag r] @ be64 (raw_Timestamp r) @
     enc_list be64 (raw_Frames r) @ be64 (raw_GID r) @ be64 (raw_TxID r)"

definition enc_SymbolsData :: "SymbolsData \<Rightarrow> byte list" where
  "enc_SymbolsData sd = enc_list enc_string (sd_Files sd) @ enc_list enc_GoModule (sd_Mods sd) @
     enc_list enc_GoFunc (sd_Funcs sd) @ enc_list enc_GoLine (sd_Lines sd)"

text \<open>What a value must satisfy to be encoded: its lengths fit the address space.\<close>

definition ok_string :: "string \<Rightarrow> bool" where
  "ok_string str \<longleftrightarrow> length str < 2 ^ 63"

definition ok_GoModule :: "GoModule \<Rightarrow> bool" where
  "ok_GoModule m \<longleftrightarrow> ok_string (gm_Name m)"

definition ok_GoFunc :: "GoFunc \<Rightarrow> bool" where
  "ok_GoFunc f \<longleftrightarrow> ok_string (gf_Name f)"

definition ok_list :: "nat \<Rightarrow> ('a \<Rightarrow> bool) \<Rightarrow> 'a list \<Rightarrow> bool" where
  "ok_list esz ok xs \<longleftrightarrow> list_all ok xs \<and> length xs * esz \<le> 2 ^ 48"

definition ok_SymbolsData :: "SymbolsData \<Rightarrow> bool" where
  "ok_SymbolsData sd \<longleftrightarrow>
     ok_list 16 ok_string (sd_Files sd) \<and> ok_list 32 ok_GoModule (sd_Mods sd) \<and>
     ok_list 24 ok_GoFunc (sd_Funcs sd) \<and> ok_list 16 (\<lambda>_. True) (sd_Lines sd)"

subsection \<open>Every pair is a codec\<close>

lemma MarshalUint64_writes: "writes (MarshalUint64 v) (be64 v)"
  by (rule writesI)
    (simp add: MarshalUint64_def slice_to_def PutUint64_def sl_wf_def overwrite_def)

lemma UnmarshalUint64_reads: "reads UnmarshalUint64 (be64 v) v"
  by (rule readsI) (simp add: UnmarshalUint64_def slice_to_def Uint64_def sl_wf_def holds_at_def)

lemma marshalUint32_writes: "writes (marshalUint32 v) (be32 v)"
  by (rule writesI)
    (simp add: marshalUint32_def slice_to_def PutUint32_def sl_wf_def overwrite_def)

lemma unmarshalUint32_reads: "reads unmarshalUint32 (be32 v) v"
  by (rule readsI) (simp add: unmarshalUint32_def slice_to_def Uint32_def sl_wf_def holds_at_def)

lemma slice_set_0:
  "sl_wf b \<Longrightarrow> Suc 0 \<le> sl_len b \<Longrightarrow> slice_set b 0 v = Inr (overwrite b [v])"
  by (cases "sl_arr b") (auto simp: slice_set_def overwrite_def sl_wf_def)

lemma slice_get_0: "holds_at b 0 [v] \<Longrightarrow> slice_get b 0 = Inr v"
  by (cases "sl_arr b") (auto simp: slice_get_def holds_at_def)

lemma MarshalUint8_writes: "writes (MarshalUint8 v) [v]"
  by (rule writesI) (simp add: MarshalUint8_def slice_set_0)

lemma UnmarshalUint8_reads: "reads UnmarshalUint8 [v] v"
  by (rule readsI) (simp add: UnmarshalUint8_def slice_get_0)

lemma marshalTagName_writes: "writes (marshalTagName v) [v]"
  by (rule writesI) (simp add: marshalTagName_def slice_set_0)

lemma unmarshalTagName_reads: "reads unmarshalTagName [v] v"
  by (rule readsI) (simp add: unmarshalTagName_def slice_get_0)

lemma marshalBool_writes: "writes (marshalBool v) [if v then 1 else 0]"
  by (rule writesI) (simp add: marshalBool_def slice_set_0)

lemma unmarshalBool_reads: "reads unmarshalBool [if v then 1 else 0] v"
  by (rule readsI) (simp add: unmarshalBool_def slice_get_0)

lemma copy_writes: "writes (\<lambda>sub. Inr (go_copy sub bs)) bs"
  by (rule writesI) (simp add: go_copy_def Let_def min_def)

lemma MarshalString_writes: "writes (MarshalString str) (enc_string str)"
  by (rule writesI)
    (simp add: MarshalString_def enc_string_def writesD [OF MarshalUint64_writes]
      within_writes [OF copy_writes, of _ "be64 v" for v, simplified])

lemma UnmarshalString_reads:
  assumes "ok_string str"
  shows "reads UnmarshalString (enc_string str) str"
proof (rule readsI)
  fix b assume wf: "sl_wf b" and h: "holds_at b 0 (enc_string str)"
  have len: "unat (word_of_nat (length str) :: uint64) = length str"
    using assms by (simp add: ok_string_def unsigned_of_nat take_bit_nat_eq_self)
  from h have "UnmarshalUint64 b = Inr (word_of_nat (length str), 8)"
    using readsD [OF UnmarshalUint64_reads wf] by (simp add: enc_string_def)
  moreover have "holds_at b 8 (bytes_of_string str)" using h by (simp add: enc_string_def)
  ultimately show "UnmarshalString b = Inr (str, length (enc_string str))"
    using wf len
    by (auto simp: UnmarshalString_def slice_from_def slice_to_def sl_bytes_def holds_at_def sl_wf_def
        enc_string_def)
qed

lemma same_as_Uint64:
  "MarshalUintptr = MarshalUint64" "UnmarshalUintptr = UnmarshalUint64"
  "marshalGID = MarshalUint64" "unmarshalGID = UnmarshalUint64"
  "marshalTxID = MarshalUint64" "unmarshalTxID = UnmarshalUint64"
  "marshalFuncLogID = MarshalUint64" "unmarshalFuncLogID = UnmarshalUint64"
  "marshalRawFuncLogID = MarshalUint64" "unmarshalRawFuncLogID = UnmarshalUint64"
  "marshalTime = MarshalUint64" "unmarshalTime = UnmarshalUint64"
  by (simp_all add: fun_eq_iff MarshalUintptr_def UnmarshalUintptr_def marshalGID_def
      unmarshalGID_def marshalTxID_def unmarshalTxID_def marshalFuncLogID_def
      unmarshalFuncLogID_def marshalRawFuncLogID_def unmarshalRawFuncLogID_def marshalTime_def
      unmarshalTime_def)

lemma same_as_Uint32: "marshalFileID = marshalUint32" "unmarshalFileID = unmarshalUint32"
  by (simp_all add: fun_eq_iff marshalFileID_def unmarshalFileID_def)

interpretation u64: codec MarshalUint64 UnmarshalUint64 be64 "\<lambda>_. True"
  by unfold_locales (rule MarshalUint64_writes, rule UnmarshalUint64_reads)

interpretation u32: codec marshalUint32 unmarshalUint32 be32 "\<lambda>_. True"
  by unfold_locales (rule marshalUint32_writes, rule unmarshalUint32_reads)

interpretation u8: codec MarshalUint8 UnmarshalUint8 "\<lambda>v. [v]" "\<lambda>_. True"
  by unfold_locales (rule MarshalUint8_writes, rule UnmarshalUint8_reads)

interpretation boolean: codec marshalBool unmarshalBool "\<lambda>v. [if v then 1 else 0]" "\<lambda>_. True"
  by unfold_locales (rule marshalBool_writes, rule unmarshalBool_reads)

interpretation str: sized_codec MarshalString UnmarshalString enc_string ok_string sizeString
  by unfold_locales
    (rule MarshalString_writes, erule UnmarshalString_reads, simp add: enc_string_def sizeString_def)

text \<open>The loops over a slice of a codec's values, with the length in front.\<close>

context codec
begin

lemma slice_writes:
  assumes "list_all ok xs"
  shows "writes (\<lambda>b. go_bind (MarshalUint64 (word_of_nat (length xs)) b) (marshal_each marshal xs))
    (enc_list enc xs)"
proof (rule writesI)
  fix b assume "sl_wf b" "length (enc_list enc xs) \<le> sl_len b"
  then show "go_bind (MarshalUint64 (word_of_nat (length xs)) b) (marshal_each marshal xs) =
      Inr (overwrite b (enc_list enc xs), length (enc_list enc xs))"
    using marshal_each_writes [OF assms, of b "be64 (word_of_nat (length xs))"]
    by (simp add: enc_list_def writesD [OF MarshalUint64_writes])
qed

lemma counted_reads:
  assumes "list_all ok xs" "length xs < 2 ^ 64" "sl_wf b" "holds_at b 0 (enc_list enc xs)"
  shows "UnmarshalUint64 b = Inr (word_of_nat (length xs), 8)"
    and "unat (word_of_nat (length xs) :: uint64) = length xs"
    and "unmarshal_each unmarshal (length xs) b 8 = Inr (xs, length (enc_list enc xs))"
proof -
  show "UnmarshalUint64 b = Inr (word_of_nat (length xs), 8)"
    using assms readsD [OF UnmarshalUint64_reads] by (simp add: enc_list_def)
  show "unat (word_of_nat (length xs) :: uint64) = length xs"
    using assms by (simp add: unsigned_of_nat take_bit_nat_eq_self)
  show "unmarshal_each unmarshal (length xs) b 8 = Inr (xs, length (enc_list enc xs))"
    using assms unmarshal_each_reads [of xs b 8] by (simp add: enc_list_def)
qed

lemma slice_reads:
  assumes "ok_list esz ok xs" "0 < esz"
  shows "reads (\<lambda>b. go_bind (UnmarshalUint64 b) (\<lambda>(len, t).
      go_bind (go_make (unat len) esz) (\<lambda>_. unmarshal_each unmarshal (unat len) b t)))
    (enc_list enc xs) xs"
proof (rule readsI)
  fix b assume b: "sl_wf b" "holds_at b 0 (enc_list enc xs)"
  have "length xs \<le> length xs * esz" using assms(2) by simp
  then have "length xs \<le> 2 ^ 48" using assms(1) unfolding ok_list_def by linarith
  then have "list_all ok xs" "length xs < 2 ^ 64" "length xs * esz \<le> 2 ^ 48"
    using assms(1) by (auto simp: ok_list_def)
  then show "go_bind (UnmarshalUint64 b) (\<lambda>(len, t).
      go_bind (go_make (unat len) esz) (\<lambda>_. unmarshal_each unmarshal (unat len) b t)) =
      Inr (xs, length (enc_list enc xs))"
    using counted_reads [of xs b] b by (simp add: go_make_def)
qed

end

lemmas elementary_writes =
  MarshalUint64_writes marshalUint32_writes MarshalUint8_writes marshalTagName_writes
  MarshalString_writes

lemmas write_simps =
  elementary_writes [THEN writesD] elementary_writes [THEN within_writes_0]
  elementary_writes [THEN within_at] same_as_Uint64 same_as_Uint32

lemmas elementary_reads =
  UnmarshalUint64_reads unmarshalUint32_reads UnmarshalUint8_reads unmarshalTagName_reads

lemmas read_simps =
  elementary_reads [THEN readsD] elementary_reads [THEN read_at_reads]
  UnmarshalString_reads [THEN read_at_reads] same_as_Uint64 same_as_Uint32

lemma GoModule_writes: "writes (marshalGoModule m) (enc_GoModule m)"
  by (rule writesI) (simp add: marshalGoModule_def enc_GoModule_def write_simps)

lemma GoModule_reads: "ok_GoModule m \<Longrightarrow> reads unmarshalGoModule (enc_GoModule m) m"
  by (rule readsI)
    (auto simp: unmarshalGoModule_def enc_GoModule_def ok_GoModule_def read_simps)

lemma GoFunc_writes: "writes (marshalGoFunc f) (enc_GoFunc f)"
  by (rule writesI) (simp add: marshalGoFunc_def enc_GoFunc_def write_simps)

lemma GoFunc_reads: "ok_GoFunc f \<Longrightarrow> reads unmarshalGoFunc (enc_GoFunc f) f"
  by (rule readsI) (auto simp: unmarshalGoFunc_def enc_GoFunc_def ok_GoFunc_def read_simps)

lemma GoLine_writes: "writes (marshalGoLine l) (enc_GoLine l)"
  by (rule writesI) (simp add: marshalGoLine_def enc_GoLine_def write_simps)

lemma GoLine_reads: "reads unmarshalGoLine (enc_GoLine l) l"
  by (rule readsI) (auto simp: unmarshalGoLine_def enc_GoLine_def read_simps)

lemma Goroutine_writes: "writes (MarshalGoroutine g) (enc_Goroutine g)"
  by (rule writesI) (simp add: MarshalGoroutine_def enc_Goroutine_def write_simps)

lemma Goroutine_reads: "reads UnmarshalGoroutine (enc_Goroutine g) g"
  by (rule readsI) (auto simp: UnmarshalGoroutine_def enc_Goroutine_def read_simps)

interpretation gomod: sized_codec marshalGoModule unmarshalGoModule enc_GoModule ok_GoModule sizeGoModule
  by unfold_locales
    (rule GoModule_writes, erule GoModule_reads,
     simp add: enc_GoModule_def enc_string_def sizeGoModule_def sizeString_def)

interpretation gofunc: sized_codec marshalGoFunc unmarshalGoFunc enc_GoFunc ok_GoFunc sizeGoFunc
  by unfold_locales
    (rule GoFunc_writes, erule GoFunc_reads,
     simp add: enc_GoFunc_def enc_string_def sizeGoFunc_def sizeString_def)

interpretation goline: sized_codec marshalGoLine unmarshalGoLine enc_GoLine "\<lambda>_. True" sizeGoLine
  by unfold_locales
    (rule GoLine_writes, rule GoLine_reads,
     simp add: enc_GoLine_def sizeGoLine_def sizeFileID_def)

interpretation goroutine: sized_codec MarshalGoroutine UnmarshalGoroutine enc_Goroutine
  "\<lambda>_. True" "\<lambda>_. SizeGoroutine"
  by unfold_locales
    (rule Goroutine_writes, rule Goroutine_reads, simp add: enc_Goroutine_def SizeGoroutine_def)

lemma StringSlice_writes: "list_all ok_string strs \<Longrightarrow> writes (marshalStringSlice strs) (enc_list enc_string strs)"
  using str.slice_writes by (simp add: marshalStringSlice_def [abs_def])

lemma StringSlice_reads: "ok_list 16 ok_string strs \<Longrightarrow> reads unmarshalStringSlice (enc_list enc_string strs) strs"
  using str.slice_reads [of 16 strs] by (simp add: unmarshalStringSlice_def [abs_def])

lemma GoModuleSlice_writes:
  "list_all ok_GoModule ms \<Longrightarrow> writes (marshalGoModuleSlice ms) (enc_list enc_GoModule ms)"
  using gomod.slice_writes by (simp add: marshalGoModuleSlice_def [abs_def])

lemma GoModuleSlice_reads:
  "ok_list 32 ok_GoModule ms \<Longrightarrow> reads unmarshalGoModuleSlice (enc_list enc_GoModule ms) ms"
  using gomod.slice_reads [of 32 ms] by (simp add: unmarshalGoModuleSlice_def [abs_def])

lemma GoFuncSlice_writes:
  "list_all ok_GoFunc fs \<Longrightarrow> writes (marshalGoFuncSlice fs) (enc_list enc_GoFunc fs)"
  using gofunc.slice_writes by (simp add: marshalGoFuncSlice_def [abs_def])

lemma GoFuncSlice_reads:
  "ok_list 24 ok_GoFunc fs \<Longrightarrow> reads unmarshalGoFuncSlice (enc_list enc_GoFunc fs) fs"
  using gofunc.slice_reads [of 24 fs] by (simp add: unmarshalGoFuncSlice_def [abs_def])

lemma GoLineSlice_writes: "writes (marshalGoLineSlice ls) (enc_list enc_GoLine ls)"
  using goline.slice_writes [of ls] by (simp add: marshalGoLineSlice_def [abs_def] list_all_iff)

lemma GoLineSlice_reads:
  "ok_list 16 (\<lambda>_. True) ls \<Longrightarrow> reads unmarshalGoLineSlice (enc_list enc_GoLine ls) ls"
  using goline.slice_reads [of 16 ls] by (simp add: unmarshalGoLineSlice_def [abs_def])

lemma UintptrSlice_writes: "writes (marshalUintptrSlice xs) (enc_list be64 xs)"
  using u64.slice_writes [of xs] by (simp add: marshalUintptrSlice_def [abs_def] list_all_iff)

lemma UintptrSlice_reads:
  assumes "length xs \<le> cap" "cap < 2 ^ 64"
  shows "reads (unmarshalUintptrSlice cap) (enc_list be64 xs) xs"
proof (rule readsI)
  fix b assume "sl_wf b" "holds_at b 0 (enc_list be64 xs)"
  with assms show "unmarshalUintptrSlice cap b = Inr (xs, length (enc_list be64 xs))"
    using u64.counted_reads [of xs b] by (simp add: unmarshalUintptrSlice_def list_all_iff)
qed

lemma FuncLog_writes: "writes (MarshalFuncLog f) (enc_FuncLog f)"
  by (rule writesI)
    (simp add: MarshalFuncLog_def enc_FuncLog_def write_simps UintptrSlice_writes [THEN within_at])

lemma FuncLog_reads:
  assumes "length (fl_Frames f) \<le> cap" "cap < 2 ^ 64"
  shows "reads (UnmarshalFuncLog cap) (enc_FuncLog f) f"
  by (rule readsI)
    (auto simp: UnmarshalFuncLog_def enc_FuncLog_def read_simps UintptrSlice_reads [OF assms, THEN read_at_reads])

lemma RawFuncLog_writes: "writes (MarshalRawFuncLog r) (enc_RawFuncLog r)"
  by (rule writesI)
    (simp add: MarshalRawFuncLog_def enc_RawFuncLog_def write_simps UintptrSlice_writes [THEN within_at]
      del: append.simps)

lemma RawFuncLog_reads:
  assumes "length (raw_Frames r) \<le> cap" "cap < 2 ^ 64"
  shows "reads (UnmarshalRawFuncLog cap) (enc_RawFuncLog r) r"
  by (rule readsI)
    (auto simp: UnmarshalRawFuncLog_def enc_RawFuncLog_def read_simps
      UintptrSlice_reads [OF assms, THEN read_at_reads] simp del: append.simps)

lemma length_enc_u64s [simp]: "length (enc_list be64 xs) = 8 + 8 * length xs"
  by (induction xs) (auto simp: enc_list_def)

lemma length_enc_FuncLog: "length (enc_FuncLog f) = 48 + 8 * length (fl_Frames f)"
  by (simp add: enc_FuncLog_def)

lemma length_enc_RawFuncLog: "length (enc_RawFuncLog r) = 41 + 8 * length (raw_Frames r)"
  by (simp add: enc_RawFuncLog_def)

interpretation funclog: codec MarshalFuncLog "UnmarshalFuncLog MaxStackSize" enc_FuncLog
  "\<lambda>f. length (fl_Frames f) \<le> MaxStackSize"
  by unfold_locales (rule FuncLog_writes, rule FuncLog_reads, simp_all add: MaxStackSize_def)

interpretation rawfunclog: codec MarshalRawFuncLog "UnmarshalRawFuncLog MaxStackSize" enc_RawFuncLog
  "\<lambda>r. length (raw_Frames r) \<le> MaxStackSize"
  by unfold_locales (rule RawFuncLog_writes, rule RawFuncLog_reads, simp_all add: MaxStackSize_def)

lemma ok_listD: "ok_list esz ok xs \<Longrightarrow> list_all ok xs"
  by (simp add: ok_list_def)

lemma SymbolsData_writes:
  "ok_SymbolsData sd \<Longrightarrow> writes (MarshalSymbolsData sd) (enc_SymbolsData sd)"
  by (rule writesI)
    (auto simp: MarshalSymbolsData_def enc_SymbolsData_def ok_SymbolsData_def
      StringSlice_writes [OF ok_listD, THEN writesD] GoModuleSlice_writes [OF ok_listD, THEN within_at]
      GoFuncSlice_writes [OF ok_listD, THEN within_at] GoLineSlice_writes [THEN within_at])

lemma SymbolsData_reads:
  "ok_SymbolsData sd \<Longrightarrow> reads UnmarshalSymbolsData (enc_SymbolsData sd) sd"
  by (rule readsI)
    (auto simp: UnmarshalSymbolsData_def enc_SymbolsData_def ok_SymbolsData_def
      StringSlice_reads [THEN readsD] GoModuleSlice_reads [THEN read_at_reads]
      GoFuncSlice_reads [THEN read_at_reads] GoLineSlice_reads [THEN read_at_reads])

lemma SymbolsData_size: "ok_SymbolsData sd \<Longrightarrow> length (enc_SymbolsData sd) = SizeSymbolsData sd"
  using str.sum_sizes [of "sd_Files sd"] gomod.sum_sizes [of "sd_Mods sd"]
    gofunc.sum_sizes [of "sd_Funcs sd"] goline.sum_sizes [of "sd_Lines sd"]
  by (simp add: ok_SymbolsData_def ok_list_def enc_SymbolsData_def enc_list_def SizeSymbolsData_def
      sizeStringSlice_def sizeGoModuleSlice_def sizeGoFuncSlice_def sizeGoLineSlice_def)

interpretation symbolsdata: sized_codec MarshalSymbolsData UnmarshalSymbolsData enc_SymbolsData
  ok_SymbolsData SizeSymbolsData
  by unfold_locales (erule SymbolsData_writes, erule SymbolsData_reads, erule SymbolsData_size)

lemma read_at_u64_consumes: "read_at UnmarshalUint64 b t = Inr (v, t') \<Longrightarrow> t' = t + 8"
  by (auto simp: read_at_def go_bind_eq_Inr UnmarshalUint64_def)

lemma unmarshal_each_u64_consumes:
  "unmarshal_each UnmarshalUint64 k b t = Inr (xs, t') \<Longrightarrow> length xs = k \<and> t' = t + 8 * k"
proof (induction k arbitrary: t xs t')
  case (Suc k)
  then show ?case
    by (auto simp: go_bind_eq_Inr dest!: read_at_u64_consumes Suc.IH)
qed simp

lemma unmarshalUintptrSlice_consumes:
  "unmarshalUintptrSlice cap b = Inr (xs, n) \<Longrightarrow> length xs \<le> cap \<and> n = 8 + 8 * length xs"
  by (auto simp: unmarshalUintptrSlice_def go_bind_eq_Inr UnmarshalUint64_def
      dest: unmarshal_each_u64_consumes split: if_splits prod.splits)

section \<open>Properties\<close>

text \<open>
  C29. A \<open>FuncLog\<close> with at most \<open>MaxStackSize\<close> frames fits a record of \<open>SizeFuncLog\<close> bytes:
  marshalling it into any buffer of that length succeeds, leaves the bytes behind it alone, and
  unmarshalling gives the same record and byte count.
\<close>

theorem FuncLog_round_trip:
  assumes "length (fl_Frames f) \<le> MaxStackSize" "sl_wf b" "SizeFuncLog \<le> sl_len b"
  shows "\<exists>b' n. MarshalFuncLog f b = Inr (b', n) \<and> n \<le> SizeFuncLog \<and> sl_len b' = sl_len b \<and>
    drop n (sl_arr b') = drop n (sl_arr b) \<and> UnmarshalFuncLog MaxStackSize b' = Inr (f, n)"
proof -
  have le: "length (enc_FuncLog f) \<le> SizeFuncLog"
    using assms(1) by (simp add: length_enc_FuncLog SizeFuncLog_def MaxStackSize_def)
  with assms(3) have "length (enc_FuncLog f) \<le> sl_len b" by simp
  from funclog.round_trip [OF assms(1,2) this] le show ?thesis by blast
qed

theorem FuncLog_round_trip_witness:
  "\<exists>b' n. MarshalFuncLog \<lparr>fl_ID = 3, fl_StartTime = 5, fl_EndTime = -1, fl_ParentID = -1,
        fl_Frames = [4096, 8192], fl_GID = 1\<rparr> (make_slice 560) = Inr (b', n) \<and>
    UnmarshalFuncLog MaxStackSize b' = Inr (\<lparr>fl_ID = 3, fl_StartTime = 5, fl_EndTime = -1,
        fl_ParentID = -1, fl_Frames = [4096, 8192], fl_GID = 1\<rparr>, n)"
  using FuncLog_round_trip [of "\<lparr>fl_ID = 3, fl_StartTime = 5, fl_EndTime = -1, fl_ParentID = -1,
      fl_Frames = [4096, 8192], fl_GID = 1\<rparr>" "make_slice 560"]
  by (auto simp: MaxStackSize_def SizeFuncLog_def make_slice_def sl_wf_def)

text \<open>
  A \<open>RawFuncLog\<close> with at most \<open>MaxStackSize\<close> frames fits a record of \<open>SizeRawFuncLog\<close>
  bytes and survives the round trip, whatever its tag byte.
\<close>

theorem RawFuncLog_round_trip:
  assumes "length (raw_Frames r) \<le> MaxStackSize" "sl_wf b" "SizeRawFuncLog \<le> sl_len b"
  shows "\<exists>b' n. MarshalRawFuncLog r b = Inr (b', n) \<and> n \<le> SizeRawFuncLog \<and> sl_len b' = sl_len b \<and>
    drop n (sl_arr b') = drop n (sl_arr b) \<and> UnmarshalRawFuncLog MaxStackSize b' = Inr (r, n)"
proof -
  have le: "length (enc_RawFuncLog r) \<le> SizeRawFuncLog"
    using assms(1) by (simp add: length_enc_RawFuncLog SizeRawFuncLog_def MaxStackSize_def)
  with assms(3) have "length (enc_RawFuncLog r) \<le> sl_len b" by simp
  from rawfunclog.round_trip [OF assms(1,2) this] le show ?thesis by blast
qed

theorem RawFuncLog_round_trip_witness:
  "\<exists>b' n. MarshalRawFuncLog \<lparr>raw_ID = 0, raw_Tag = FuncEnd, raw_Timestamp = 9, raw_Frames = [1],
        raw_GID = 1, raw_TxID = 2\<rparr> (make_slice 600) = Inr (b', n) \<and>
    UnmarshalRawFuncLog MaxStackSize b' = Inr (\<lparr>raw_ID = 0, raw_Tag = FuncEnd, raw_Timestamp = 9,
        raw_Frames = [1], raw_GID = 1, raw_TxID = 2\<rparr>, n)"
  using RawFuncLog_round_trip [of "\<lparr>raw_ID = 0, raw_Tag = FuncEnd, raw_Timestamp = 9,
      raw_Frames = [1], raw_GID = 1, raw_TxID = 2\<rparr>" "make_slice 600"]
  by (auto simp: MaxStackSize_def SizeRawFuncLog_def make_slice_def sl_wf_def)

text \<open>
  C39. \<open>SizeSymbolsData\<close> predicts the encoding of a symbol table exactly: a fresh buffer of that
  size takes the whole table, and decoding it gives the table back.
\<close>

theorem SymbolsData_fits_predicted_size:
  assumes "ok_SymbolsData sd"
  shows "\<exists>b'. MarshalSymbolsData sd (make_slice (SizeSymbolsData sd)) = Inr (b', SizeSymbolsData sd) \<and>
    UnmarshalSymbolsData b' = Inr (sd, SizeSymbolsData sd)"
  using assms by (rule symbolsdata.fits_exactly)

theorem SymbolsData_fits_predicted_size_witness:
  "\<exists>b'. UnmarshalSymbolsData b' = Inr (sample_symbols, SizeSymbolsData sample_symbols)"
  using SymbolsData_fits_predicted_size [of sample_symbols]
  by (auto simp: ok_SymbolsData_def ok_list_def ok_string_def ok_GoModule_def ok_GoFunc_def
      sample_symbols_def)

text \<open>
  Decoding never trusts the frame count of the data: whatever bytes it is given, a decoded
  \<open>FuncLog\<close> has at most as many frames as the destination's capacity, and the byte count it reports
  is that of the record it returns.
\<close>

theorem UnmarshalFuncLog_bounded:
  assumes "UnmarshalFuncLog cap b = Inr (f, n)"
  shows "length (fl_Frames f) \<le> cap \<and> n = length (enc_FuncLog f)"
proof -
  from assms obtain i start fin parent frames gid t1 t2 t3 t4 t5
    where h: "unmarshalFuncLogID b = Inr (i, t1)" "read_at unmarshalTime b t1 = Inr (start, t2)"
      "read_at unmarshalTime b t2 = Inr (fin, t3)" "read_at unmarshalFuncLogID b t3 = Inr (parent, t4)"
      "read_at (unmarshalUintptrSlice cap) b t4 = Inr (frames, t5)"
      "read_at unmarshalGID b t5 = Inr (gid, n)" and f: "fl_Frames f = frames"
    by (auto simp: UnmarshalFuncLog_def go_bind_eq_Inr)
  have "t1 = 8" using h(1) by (auto simp: same_as_Uint64 UnmarshalUint64_def go_bind_eq_Inr)
  moreover have "t5 = t4 + (8 + 8 * length frames)" "length frames \<le> cap"
    using h(5) by (auto simp: read_at_def go_bind_eq_Inr dest: unmarshalUintptrSlice_consumes)
  ultimately show ?thesis
    using h f by (auto simp: same_as_Uint64 length_enc_FuncLog dest!: read_at_u64_consumes)
qed

theorem UnmarshalFuncLog_bounded_witness:
  "length (fl_Frames \<lparr>fl_ID = 0, fl_StartTime = 7, fl_EndTime = 8, fl_ParentID = -1,
     fl_Frames = [5, 6], fl_GID = 2\<rparr>) \<le> 4"
proof -
  let ?f = "\<lparr>fl_ID = 0, fl_StartTime = 7, fl_EndTime = 8, fl_ParentID = -1, fl_Frames = [5, 6], fl_GID = 2\<rparr>"
  have "UnmarshalFuncLog 4 (of_bytes (enc_FuncLog ?f)) = Inr (?f, length (enc_FuncLog ?f))"
    by (rule FuncLog_reads [THEN readsD]) (simp_all add: holds_at_def of_bytes_def sl_wf_def)
  from UnmarshalFuncLog_bounded [OF this] show ?thesis by blast
qed

end
