(* ===== verification/Machines.thy ===== *)
theory Machines
  imports Prelude
begin

section \<open>Machines: runs, invariants and simulations\<close>

text \<open>
  The stateful components (the state simulator, the record store, the protocol endpoints) are step
  functions \<open>state \<Rightarrow> event \<Rightarrow> state go\<close>. This theory has their runs and the two contracts the
  components instantiate: an invariant kept by every step, and a simulation of an abstract machine
  whose steps are partial (\<open>None\<close>: the event is outside the specification).
\<close>

fun go_run :: "('s \<Rightarrow> 'e \<Rightarrow> 's go) \<Rightarrow> 's \<Rightarrow> 'e list \<Rightarrow> 's go" where
  "go_run step s [] = Inr s"
| "go_run step s (e # es) = go_bind (step s e) (\<lambda>s. go_run step s es)"

fun spec_run :: "('a \<Rightarrow> 'e \<Rightarrow> 'a option) \<Rightarrow> 'a \<Rightarrow> 'e list \<Rightarrow> 'a option" where
  "spec_run step a [] = Some a"
| "spec_run step a (e # es) = (case step a e of None \<Rightarrow> None | Some a' \<Rightarrow> spec_run step a' es)"

lemma go_run_append: "go_run step s (xs @ ys) = go_bind (go_run step s xs) (\<lambda>s. go_run step s ys)"
  by (induction xs arbitrary: s) (auto simp: go_bind_assoc)

lemma spec_run_append: "spec_run step a (xs @ ys) = (case spec_run step a xs of None \<Rightarrow> None | Some b \<Rightarrow> spec_run step b ys)"
  by (induction xs arbitrary: a) (auto split: option.splits)

lemma go_run_Cons_Inr:
  "go_run step s (e # es) = Inr s' \<longleftrightarrow> (\<exists>t. step s e = Inr t \<and> go_run step t es = Inr s')"
  by (simp add: go_bind_eq_Inr)

text \<open>
  \<open>inv n s\<close> holds of a state that can take \<open>n\<close> more steps: counters of fixed width make most
  invariants hold only for a bounded number of steps. \<open>safe\<close> names the faults a step may end in.
\<close>

locale invariant_machine =
  fixes step :: "'s \<Rightarrow> 'e \<Rightarrow> 's go"
    and inv :: "nat \<Rightarrow> 's \<Rightarrow> bool"
    and safe :: "fault \<Rightarrow> bool"
  assumes step_inv: "inv (Suc n) s \<Longrightarrow> step s e = Inr s' \<Longrightarrow> inv n s'"
    and step_safe: "inv (Suc n) s \<Longrightarrow> step s e = Inl f \<Longrightarrow> safe f"
begin

lemma run_inv: "inv (length es + n) s \<Longrightarrow> go_run step s es = Inr s' \<Longrightarrow> inv n s'"
proof (induction es arbitrary: s)
  case (Cons e es)
  then show ?case by (auto simp: go_bind_eq_Inr intro: step_inv)
qed simp

lemma run_safe: "inv (length es) s \<Longrightarrow> go_run step s es = Inl f \<Longrightarrow> safe f"
proof (induction es arbitrary: s)
  case (Cons e es)
  show ?case
  proof (cases "step s e")
    case (Inl g)
    with Cons.prems show ?thesis using step_safe by auto
  next
    case (Inr t)
    with Cons show ?thesis using step_inv by fastforce
  qed
qed simp

end

locale simulating_machine =
  fixes astep :: "'a \<Rightarrow> 'e \<Rightarrow> 'a option"
    and cstep :: "'c \<Rightarrow> 'e \<Rightarrow> 'c go"
    and rel :: "'a \<Rightarrow> 'c \<Rightarrow> bool"
  assumes step_sim: "rel a c \<Longrightarrow> astep a e = Some a' \<Longrightarrow> \<exists>c'. cstep c e = Inr c' \<and> rel a' c'"
begin

lemma run_sim:
  "rel a c \<Longrightarrow> spec_run astep a es = Some a' \<Longrightarrow> \<exists>c'. go_run cstep c es = Inr c' \<and> rel a' c'"
proof (induction es arbitrary: a c)
  case (Cons e es)
  then obtain b where "astep a e = Some b" "spec_run astep b es = Some a'"
    by (auto split: option.splits)
  moreover from this Cons.prems obtain d where "cstep c e = Inr d" "rel b d"
    using step_sim by blast
  ultimately show ?case using Cons.IH by simp
qed simp

end

end
