(* ===== verification/Simulator.thy ===== *)
theory Simulator
  imports Types Machines
begin

section \<open>Simulator: rebuilding calls from raw events (\<open>tracer/simulator\<close>)\<close>

text \<open>
  \<open>StateSimulator\<close> turns the stream of \<open>FuncStart\<close>/\<open>FuncEnd\<close> records of a traced program into
  one \<open>FuncLog\<close> per call and one \<open>Goroutine\<close> per goroutine. The maps of the code are partial
  functions; a missing key of \<open>stacks\<close> reads as Go's zero value. The locks are taken and released
  within each method and carry no state. Objects of the pools have frames of capacity
  \<open>MaxStackSize\<close>. The iteration order of a Go map is not specified: the methods that range over a
  map take the enumeration of its keys as an argument.
\<close>

subsection \<open>State and operations\<close>

record StateSimulator =
  nextID :: FuncLogID
  funcLogs :: "FuncLogID \<rightharpoonup> FuncLog"
  txids :: "TxID \<rightharpoonup> FuncLogID"
  stacks :: "GID \<rightharpoonup> FuncLogID"
  goroutines :: "GID \<rightharpoonup> Goroutine"

definition Simulator_Init :: StateSimulator where
  "Simulator_Init =
     \<lparr>nextID = 0, funcLogs = Map.empty, txids = Map.empty, stacks = Map.empty,
      goroutines = Map.empty\<rparr>"

definition stack_top :: "StateSimulator \<Rightarrow> GID \<Rightarrow> FuncLogID" where
  "stack_top s gid = (case stacks s gid of Some i \<Rightarrow> i | None \<Rightarrow> 0)"

definition set_EndTime :: "(GID \<rightharpoonup> Goroutine) \<Rightarrow> GID \<Rightarrow> Time \<Rightarrow> (GID \<rightharpoonup> Goroutine)" where
  "set_EndTime m gid t = (case m gid of None \<Rightarrow> m | Some g \<Rightarrow> m(gid \<mapsto> g\<lparr>g_EndTime := t\<rparr>))"

definition Next_start :: "StateSimulator \<Rightarrow> RawFuncLog \<Rightarrow> StateSimulator go" where
  "Next_start s raw =
     (let gid = raw_GID raw;
          isExistsGID = (goroutines s gid \<noteq> None);
          parentID = (if isExistsGID then stack_top s gid else NotFoundParent);
          i = nextID s
      in if MaxStackSize < length (raw_Frames raw) then Inl SliceBoundsOutOfRange
         else Inr (s\<lparr>
           nextID := i + 1,
           funcLogs := (funcLogs s)(i \<mapsto>
             \<lparr>fl_ID = i, fl_StartTime = raw_Timestamp raw, fl_EndTime = NotEnded,
              fl_ParentID = parentID, fl_Frames = raw_Frames raw, fl_GID = gid\<rparr>),
           txids := (txids s)(raw_TxID raw \<mapsto> i),
           stacks := (stacks s)(gid \<mapsto> i),
           goroutines :=
             (if \<not> isExistsGID \<and> parentID = -1
              then (goroutines s)(gid \<mapsto>
                \<lparr>g_GID = gid, g_StartTime = raw_Timestamp raw, g_EndTime = NotEnded\<rparr>)
              else if isExistsGID \<and> parentID = -1 then set_EndTime (goroutines s) gid NotEnded
              else goroutines s)\<rparr>))"

definition Next_end :: "StateSimulator \<Rightarrow> RawFuncLog \<Rightarrow> StateSimulator go" where
  "Next_end s raw =
     (let gid = raw_GID raw in
      if goroutines s gid = None then Inl (Panic ''ERROR: not found goroutine'')
      else case txids s (raw_TxID raw) of
             None \<Rightarrow> Inl (Panic ''ERROR: not found FuncLog'')
           | Some i \<Rightarrow>
               (case funcLogs s i of
                  None \<Rightarrow> Inl NilDereference
                | Some fl \<Rightarrow>
                    let parentID = fl_ParentID fl in
                    Inr (s\<lparr>
                      funcLogs := (funcLogs s)(i \<mapsto> fl\<lparr>fl_EndTime := raw_Timestamp raw\<rparr>),
                      txids := (txids s)(raw_TxID raw := None),
                      stacks := (stacks s)(gid \<mapsto> parentID),
                      goroutines :=
                        (if parentID = -1 then set_EndTime (goroutines s) gid (raw_Timestamp raw)
                         else goroutines s)\<rparr>)))"

definition Simulator_Next :: "StateSimulator \<Rightarrow> RawFuncLog \<Rightarrow> StateSimulator go" where
  "Simulator_Next s raw =
     (if raw_Tag raw = FuncStart then Next_start s raw
      else if raw_Tag raw = FuncEnd then Next_end s raw
      else Inl (Panic ''unsupported tag''))"

text \<open>
  \<open>FuncLogs\<close>: a copy of each record (the frames are copied into a pooled slice when
  \<open>needCopy\<close> holds, which panics if they do not fit), in the order of \<open>ks\<close>.
\<close>

fun FuncLogs_loop :: "bool \<Rightarrow> FuncLog list \<Rightarrow> FuncLog list go" where
  "FuncLogs_loop needCopy [] = Inr []"
| "FuncLogs_loop needCopy (fl # fls) =
     (if needCopy \<and> MaxStackSize < length (fl_Frames fl) then Inl SliceBoundsOutOfRange
      else go_bind (FuncLogs_loop needCopy fls) (\<lambda>rest. Inr (fl # rest)))"

definition Simulator_FuncLogs :: "bool \<Rightarrow> StateSimulator \<Rightarrow> FuncLogID list \<Rightarrow> FuncLog list go" where
  "Simulator_FuncLogs needCopy s ks = FuncLogs_loop needCopy (List.map_filter (funcLogs s) ks)"

definition Simulator_Goroutines :: "StateSimulator \<Rightarrow> GID list \<Rightarrow> Goroutine list" where
  "Simulator_Goroutines s ks = List.map_filter (goroutines s) ks"

definition Simulator_Clear :: "StateSimulator \<Rightarrow> StateSimulator" where
  "Simulator_Clear s =
     s\<lparr>funcLogs := (\<lambda>i. case funcLogs s i of
          None \<Rightarrow> None
        | Some fl \<Rightarrow> if fl_EndTime fl = NotEnded then Some fl else None)\<rparr>"

subsection \<open>The store of simulators\<close>

record StateSimulatorStore =
  ss_m :: "(string \<rightharpoonup> StateSimulator) option"

definition SSStore_Get :: "StateSimulatorStore \<Rightarrow> LogID \<Rightarrow> StateSimulator option" where
  "SSStore_Get st i = (case ss_m st of None \<Rightarrow> None | Some m \<Rightarrow> m (LogID_Hex i))"

definition SSStore_New :: "StateSimulatorStore \<Rightarrow> LogID \<Rightarrow> (StateSimulatorStore \<times> StateSimulator) go" where
  "SSStore_New st i =
     (let m = (case ss_m st of None \<Rightarrow> Map.empty | Some m \<Rightarrow> m) in
      if m (LogID_Hex i) \<noteq> None then Inl (Panic ''StateSimulator is already exist'')
      else Inr (st\<lparr>ss_m := Some (m(LogID_Hex i \<mapsto> Simulator_Init))\<rparr>, Simulator_Init))"

definition SSStore_Delete :: "StateSimulatorStore \<Rightarrow> LogID \<Rightarrow> StateSimulatorStore" where
  "SSStore_Delete st i =
     (case ss_m st of None \<Rightarrow> st | Some m \<Rightarrow> st\<lparr>ss_m := Some (m(LogID_Hex i := None))\<rparr>)"

subsection \<open>Events\<close>

text \<open>The server feeds raw records and clears written calls between them.\<close>

datatype sim_event = Raw RawFuncLog | Clear

definition sim_step :: "StateSimulator \<Rightarrow> sim_event \<Rightarrow> StateSimulator go" where
  "sim_step s e = (case e of Raw raw \<Rightarrow> Simulator_Next s raw | Clear \<Rightarrow> Inr (Simulator_Clear s))"

subsection \<open>The specification: a forest of calls\<close>

text \<open>
  The abstract machine keeps every call ever started, in start order, the indices of the calls
  that no \<open>Clear\<close> has dropped since they ended, and the open calls, latest first. A start is admitted when its transaction is not open and its stack fits; an end is
  admitted when it closes the innermost open call of its goroutine, as the deferred \<open>FuncEnd\<close> of an
  instrumented function does. The parent of a call is the innermost open call of its goroutine.
\<close>

record open_call =
  o_gid :: GID
  o_id :: FuncLogID
  o_tx :: TxID

record callgraph =
  cg_calls :: "FuncLog list"
  cg_kept :: "nat list"
  cg_open :: "open_call list"
  cg_gor :: "GID \<rightharpoonup> Goroutine"

definition cg_init :: callgraph where
  "cg_init = \<lparr>cg_calls = [], cg_kept = [], cg_open = [], cg_gor = Map.empty\<rparr>"

definition innermost :: "GID \<Rightarrow> open_call list \<Rightarrow> open_call option" where
  "innermost g es = List.find (\<lambda>e. o_gid e = g) es"

definition top_id :: "GID \<Rightarrow> open_call list \<Rightarrow> FuncLogID" where
  "top_id g es = (case innermost g es of None \<Rightarrow> NotFoundParent | Some e \<Rightarrow> o_id e)"

fun pop :: "GID \<Rightarrow> open_call list \<Rightarrow> open_call list" where
  "pop g [] = []"
| "pop g (e # es) = (if o_gid e = g then es else e # pop g es)"

definition cg_start :: "callgraph \<Rightarrow> RawFuncLog \<Rightarrow> callgraph option" where
  "cg_start c raw =
     (let g = raw_GID raw; i = word_of_nat (length (cg_calls c)) in
      if raw_TxID raw \<in> o_tx ` set (cg_open c) \<or> MaxStackSize < length (raw_Frames raw) \<or>
         2 ^ 63 \<le> length (cg_calls c)
      then None
      else Some \<lparr>
        cg_calls = cg_calls c @
          [\<lparr>fl_ID = i, fl_StartTime = raw_Timestamp raw, fl_EndTime = NotEnded,
            fl_ParentID = top_id g (cg_open c), fl_Frames = raw_Frames raw, fl_GID = g\<rparr>],
        cg_kept = cg_kept c @ [length (cg_calls c)],
        cg_open = \<lparr>o_gid = g, o_id = i, o_tx = raw_TxID raw\<rparr> # cg_open c,
        cg_gor = (case cg_gor c g of
            None \<Rightarrow> (cg_gor c)(g \<mapsto> \<lparr>g_GID = g, g_StartTime = raw_Timestamp raw, g_EndTime = NotEnded\<rparr>)
          | Some gr \<Rightarrow> (cg_gor c)(g \<mapsto> (if innermost g (cg_open c) = None then gr\<lparr>g_EndTime := NotEnded\<rparr> else gr)))\<rparr>)"

definition cg_end :: "callgraph \<Rightarrow> RawFuncLog \<Rightarrow> callgraph option" where
  "cg_end c raw =
     (let g = raw_GID raw; t = raw_Timestamp raw in
      case innermost g (cg_open c) of
        None \<Rightarrow> None
      | Some e \<Rightarrow>
          if o_tx e \<noteq> raw_TxID raw \<or> t = NotEnded then None
          else Some \<lparr>
            cg_calls = (cg_calls c)[unat (o_id e) := (cg_calls c ! unat (o_id e))\<lparr>fl_EndTime := t\<rparr>],
            cg_kept = cg_kept c,
            cg_open = pop g (cg_open c),
            cg_gor = (if innermost g (pop g (cg_open c)) = None then set_EndTime (cg_gor c) g t
                      else cg_gor c)\<rparr>)"

definition cg_step :: "callgraph \<Rightarrow> sim_event \<Rightarrow> callgraph option" where
  "cg_step c e =
     (case e of
        Clear \<Rightarrow> Some (c\<lparr>cg_kept := filter (\<lambda>k. fl_EndTime (cg_calls c ! k) = NotEnded) (cg_kept c)\<rparr>)
      | Raw raw \<Rightarrow>
          if raw_Tag raw = FuncStart then cg_start c raw
          else if raw_Tag raw = FuncEnd then cg_end c raw
          else None)"

subsection \<open>Open calls\<close>

lemma innermost_Cons [simp]:
  "innermost g (e # es) = (if o_gid e = g then Some e else innermost g es)"
  by (simp add: innermost_def)

lemma innermost_Nil [simp]: "innermost g [] = None"
  by (simp add: innermost_def)

lemma innermost_SomeD: "innermost g es = Some e \<Longrightarrow> e \<in> set es \<and> o_gid e = g"
  by (induction es) (auto split: if_splits)

lemma innermost_None: "innermost g es = None \<longleftrightarrow> g \<notin> o_gid ` set es"
  by (induction es) auto

lemma innermost_pop_other: "h \<noteq> g \<Longrightarrow> innermost h (pop g es) = innermost h es"
  by (induction es) auto

lemma top_id_pop_other: "h \<noteq> g \<Longrightarrow> top_id h (pop g es) = top_id h es"
  by (simp add: top_id_def innermost_pop_other)

lemma top_id_Cons [simp]: "top_id g (e # es) = (if o_gid e = g then o_id e else top_id g es)"
  by (simp add: top_id_def)

lemma set_pop: "set (pop g es) \<subseteq> set es"
  by (induction es) auto

lemma distinct_pop: "distinct (map f es) \<Longrightarrow> distinct (map f (pop g es))"
  using set_pop by (induction es) fastforce+

lemma pop_removes:
  "distinct (map f es) \<Longrightarrow> innermost g es = Some e \<Longrightarrow> set (pop g es) = set es - {e} \<and> f e \<notin> f ` set (pop g es)"
proof (induction es)
  case (Cons a es)
  show ?case
  proof (cases "o_gid a = g")
    case True
    with Cons.prems show ?thesis by auto
  next
    case False
    with Cons have "set (pop g es) = set es - {e}" "f e \<notin> f ` set (pop g es)" "e \<in> set es"
      using innermost_SomeD by auto
    moreover have "f a \<noteq> f e" using Cons.prems(1) \<open>e \<in> set es\<close> by auto
    ultimately show ?thesis using False by auto
  qed
qed simp

lemma map_of_pop:
  "distinct (map k es) \<Longrightarrow> innermost g es = Some e \<Longrightarrow>
   map_of (map (\<lambda>e. (k e, v e)) (pop g es)) = (map_of (map (\<lambda>e. (k e, v e)) es))(k e := None)"
proof (induction es)
  case (Cons a es)
  show ?case
  proof (cases "o_gid a = g")
    case True
    with Cons.prems have "map_of (map (\<lambda>e. (k e, v e)) es) (k e) = None"
      by (force simp: map_of_eq_None_iff)
    with True Cons.prems show ?thesis by (auto simp: fun_upd_idem)
  next
    case False
    with Cons.prems have "k a \<noteq> k e" using innermost_SomeD[of g es e] by auto
    with False Cons show ?thesis by (auto simp: fun_upd_twist)
  qed
qed simp

fun chain :: "FuncLog list \<Rightarrow> open_call list \<Rightarrow> bool" where
  "chain cs [] = True"
| "chain cs (e # es) = (fl_ParentID (cs ! unat (o_id e)) = top_id (o_gid e) es \<and> chain cs es)"

lemma chain_cong:
  "(\<And>e. e \<in> set es \<Longrightarrow> fl_ParentID (cs ! unat (o_id e)) = fl_ParentID (ds ! unat (o_id e))) \<Longrightarrow>
   chain cs es = chain ds es"
  by (induction es) auto

lemma chain_innermost:
  "chain cs es \<Longrightarrow> innermost g es = Some e \<Longrightarrow> fl_ParentID (cs ! unat (o_id e)) = top_id g (pop g es)"
  by (induction es) (auto split: if_splits)

lemma chain_pop: "chain cs es \<Longrightarrow> chain cs (pop g es)"
  by (induction es) (auto simp: top_id_pop_other)

subsection \<open>The simulation\<close>

definition ends_open :: "callgraph \<Rightarrow> open_call \<Rightarrow> bool" where
  "ends_open c e \<longleftrightarrow>
     unat (o_id e) \<in> set (cg_kept c) \<and> unat (o_id e) < length (cg_calls c) \<and> fl_EndTime (cg_calls c ! unat (o_id e)) = NotEnded \<and>
     cg_gor c (o_gid e) \<noteq> None"

definition cg_wf :: "callgraph \<Rightarrow> bool" where
  "cg_wf c \<longleftrightarrow>
     length (cg_calls c) \<le> 2 ^ 63 \<and> set (cg_kept c) \<subseteq> {..<length (cg_calls c)} \<and> list_all (ends_open c) (cg_open c) \<and>
     distinct (map o_tx (cg_open c)) \<and> distinct (map o_id (cg_open c)) \<and>
     chain (cg_calls c) (cg_open c)"

definition kept_calls :: "callgraph \<Rightarrow> FuncLogID \<rightharpoonup> FuncLog" where
  "kept_calls c = (\<lambda>i. if unat i \<in> set (cg_kept c) then Some (cg_calls c ! unat i) else None)"

definition sim_rel :: "callgraph \<Rightarrow> StateSimulator \<Rightarrow> bool" where
  "sim_rel c s \<longleftrightarrow>
     cg_wf c \<and>
     nextID s = word_of_nat (length (cg_calls c)) \<and>
     funcLogs s = kept_calls c \<and>
     txids s = map_of (map (\<lambda>e. (o_tx e, o_id e)) (cg_open c)) \<and>
     (\<forall>g. cg_gor c g \<noteq> None \<longrightarrow> stacks s g = Some (top_id g (cg_open c))) \<and>
     goroutines s = cg_gor c"

lemma sim_relD:
  assumes "sim_rel c s"
  shows "cg_wf c" "nextID s = word_of_nat (length (cg_calls c))"
    "funcLogs s = kept_calls c"
    "txids s = map_of (map (\<lambda>e. (o_tx e, o_id e)) (cg_open c))"
    "cg_gor c g \<noteq> None \<Longrightarrow> stacks s g = Some (top_id g (cg_open c))"
    "goroutines s = cg_gor c"
  using assms unfolding sim_rel_def by blast+

lemma unat_of_call: "n < 2 ^ 63 \<Longrightarrow> unat (word_of_nat n :: int64) = n"
  by (simp add: unat_of_nat take_bit_nat_eq_self)

lemma unat_minus_one64: "unat (- 1 :: int64) = 2 ^ 64 - 1"
  by (simp add: unsigned_minus_1_eq_mask mask_eq_exp_minus_1)

lemma top_id_None:
  assumes "list_all (ends_open c) es" "length (cg_calls c) \<le> 2 ^ 63"
  shows "top_id g es = - 1 \<longleftrightarrow> innermost g es = None"
proof (cases "innermost g es")
  case (Some e)
  then have "ends_open c e" using assms(1) innermost_SomeD by (auto simp: list_all_iff)
  then have "unat (o_id e) < 2 ^ 63" using assms(2) by (auto simp: ends_open_def)
  then have "o_id e \<noteq> - 1" by (auto simp: unat_minus_one64)
  then show ?thesis using Some by (simp add: top_id_def)
qed (simp add: top_id_def NotFoundParent_def)

lemma cg_start_sim:
  assumes R: "sim_rel c s" and tag: "raw_Tag raw = FuncStart" and st: "cg_start c raw = Some c'"
  shows "\<exists>s'. Next_start s raw = Inr s' \<and> sim_rel c' s'"
proof -
  let ?g = "raw_GID raw" and ?n = "length (cg_calls c)"
  let ?i = "word_of_nat ?n :: int64"
  let ?s = "projr (Next_start s raw)"
  have wf: "cg_wf c" and fits: "length (raw_Frames raw) \<le> MaxStackSize" and n: "?n < 2 ^ 63"
    and fresh: "raw_TxID raw \<notin> o_tx ` set (cg_open c)"
    using R st by (auto simp: sim_rel_def cg_start_def Let_def split: if_splits)
  have i: "unat ?i = ?n" using n by (rule unat_of_call)
  have top: "top_id ?g (cg_open c) = - 1 \<longleftrightarrow> innermost ?g (cg_open c) = None"
    using wf by (intro top_id_None) (auto simp: cg_wf_def)
  have new: "innermost ?g (cg_open c) = None" if "cg_gor c ?g = None"
    using wf that by (force simp: innermost_None cg_wf_def list_all_iff ends_open_def)
  have parent: "(if cg_gor c ?g \<noteq> None then stack_top s ?g else NotFoundParent) = top_id ?g (cg_open c)"
    using R new by (auto simp: sim_rel_def stack_top_def top_id_def)
  have step: "Next_start s raw = Inr ?s"
    using fits by (simp add: Next_start_def Let_def)
  have gor: "goroutines ?s = cg_gor c'"
    using st fits top new parent R
    by (auto simp: Next_start_def cg_start_def Let_def sim_rel_def set_EndTime_def fun_eq_iff
        split: if_splits option.splits)
  obtain fl where calls: "cg_calls c' = cg_calls c @ [fl]" and logs: "funcLogs ?s = (funcLogs s)(?i \<mapsto> fl)"
    and flds: "fl_EndTime fl = NotEnded" "fl_ParentID fl = top_id ?g (cg_open c)"
    using st fits parent R by (auto simp: Next_start_def cg_start_def Let_def sim_rel_def split: if_splits)
  have rest: "nextID ?s = ?i + 1" "txids ?s = (txids s)(raw_TxID raw \<mapsto> ?i)"
      "stacks ?s = (stacks s)(?g \<mapsto> ?i)"
    using fits R by (auto simp: Next_start_def Let_def sim_rel_def)
  have kept: "cg_kept c' = cg_kept c @ [?n]"
    and opn: "cg_open c' = \<lparr>o_gid = ?g, o_id = ?i, o_tx = raw_TxID raw\<rparr> # cg_open c"
    and known: "cg_gor c' h \<noteq> None \<longleftrightarrow> h = ?g \<or> cg_gor c h \<noteq> None" for h
    using st by (auto simp: cg_start_def Let_def split: if_splits option.splits)
  have old: "ends_open c e \<Longrightarrow> ends_open c' e \<and> o_id e \<noteq> ?i" for e
    using i known by (auto simp: calls kept ends_open_def nth_append)
  have wf': "cg_wf c'"
  proof -
    have "chain (cg_calls c') (cg_open c) = chain (cg_calls c) (cg_open c)"
      using wf by (intro chain_cong) (auto simp: calls nth_append cg_wf_def list_all_iff ends_open_def)
    then have "chain (cg_calls c') (cg_open c')" "ends_open c' \<lparr>o_gid = ?g, o_id = ?i, o_tx = raw_TxID raw\<rparr>"
      "length (cg_calls c') \<le> 2 ^ 63" "set (cg_kept c') \<subseteq> {..<length (cg_calls c')}"
      using wf flds i known n by (auto simp: calls kept opn cg_wf_def ends_open_def)
    moreover have "list_all (ends_open c') (cg_open c)" "?i \<notin> o_id ` set (cg_open c)"
      using wf old by (auto simp: cg_wf_def list_all_iff) metis
    ultimately show ?thesis
      using wf fresh by (simp add: cg_wf_def opn)
  qed
  have "sim_rel c' ?s"
    unfolding sim_rel_def
  proof (intro conjI allI impI)
    show "funcLogs ?s = kept_calls c'"
    proof
      fix j
      show "funcLogs ?s j = kept_calls c' j"
      proof (cases "j = ?i")
        case False
        then have "unat j \<noteq> ?n" using i by (simp add: word_unat_eq_iff)
        then show ?thesis using sim_relD(3)[OF R] wf False
          by (auto simp: kept_calls_def calls kept logs nth_append cg_wf_def subset_iff)
      qed (simp add: kept_calls_def calls kept logs i)
    qed
    show "stacks ?s h = Some (top_id h (cg_open c'))" if "cg_gor c' h \<noteq> None" for h
      using R that known by (auto simp: rest opn sim_rel_def)
  qed (use R wf' gor in \<open>simp_all add: calls rest opn sim_rel_def\<close>)
  then show ?thesis using step by metis
qed


lemma cg_end_sim:
  assumes R: "sim_rel c s" and st: "cg_end c raw = Some c'"
  shows "\<exists>s'. Next_end s raw = Inr s' \<and> sim_rel c' s'"
proof -
  let ?g = "raw_GID raw" and ?t = "raw_Timestamp raw"
  let ?s = "projr (Next_end s raw)"
  obtain e where e: "innermost ?g (cg_open c) = Some e" and tx: "o_tx e = raw_TxID raw" and t: "?t \<noteq> NotEnded"
    using st by (auto simp: cg_end_def Let_def split: option.splits if_splits)
  let ?i = "o_id e"
  let ?fl = "cg_calls c ! unat ?i"
  have c': "c' = \<lparr>cg_calls = (cg_calls c)[unat ?i := ?fl\<lparr>fl_EndTime := ?t\<rparr>], cg_kept = cg_kept c, cg_open = pop ?g (cg_open c),
      cg_gor = (if innermost ?g (pop ?g (cg_open c)) = None then set_EndTime (cg_gor c) ?g ?t else cg_gor c)\<rparr>"
    using st e tx t by (simp add: cg_end_def Let_def)
  have wf: "cg_wf c" using R by (simp add: sim_rel_def)
  have mem: "e \<in> set (cg_open c)" "o_gid e = ?g" using innermost_SomeD[OF e] by auto
  then have eo: "ends_open c e" using wf by (auto simp: cg_wf_def list_all_iff)
  then have logs: "funcLogs s ?i = Some ?fl" "unat ?i < length (cg_calls c)" "cg_gor c ?g \<noteq> None"
    using sim_relD(3)[OF R] mem by (auto simp: ends_open_def kept_calls_def)
  have txe: "txids s (raw_TxID raw) = Some ?i"
    using mem wf tx unfolding sim_relD(4)[OF R]
    by (intro map_of_is_SomeI) (auto simp: cg_wf_def comp_def intro!: rev_image_eqI[of e])
  have parent: "fl_ParentID ?fl = top_id ?g (pop ?g (cg_open c))"
    using wf e by (intro chain_innermost) (simp_all add: cg_wf_def)
  have sub: "list_all (ends_open c) (pop ?g (cg_open c))"
    using wf set_pop[of ?g "cg_open c"] by (auto simp: cg_wf_def list_all_iff)
  have top: "top_id ?g (pop ?g (cg_open c)) = - 1 \<longleftrightarrow> innermost ?g (pop ?g (cg_open c)) = None"
    using wf sub by (intro top_id_None) (auto simp: cg_wf_def)
  have step: "Next_end s raw = Inr ?s" and s': "?s = s\<lparr>funcLogs := (funcLogs s)(?i \<mapsto> ?fl\<lparr>fl_EndTime := ?t\<rparr>),
      txids := (txids s)(raw_TxID raw := None), stacks := (stacks s)(?g \<mapsto> fl_ParentID ?fl), goroutines := cg_gor c'\<rparr>"
    using logs txe parent top sim_relD(6)[OF R] by (auto simp: Next_end_def Let_def c')
  have known: "cg_gor c' h \<noteq> None \<longleftrightarrow> cg_gor c h \<noteq> None" for h
    by (auto simp: c' set_EndTime_def split: option.splits)
  have removed: "e' \<in> set (pop ?g (cg_open c)) \<Longrightarrow> o_id e' \<noteq> ?i" for e'
    using pop_removes[of o_id "cg_open c" ?g e] e wf unfolding cg_wf_def by (metis image_eqI)
  have wf': "cg_wf c'"
  proof -
    have "chain (cg_calls c') (cg_open c') = chain (cg_calls c) (cg_open c')"
      by (intro chain_cong) (auto simp: c' nth_list_update logs)
    moreover have "list_all (ends_open c') (cg_open c')"
      unfolding list_all_iff
    proof
      fix x assume x: "x \<in> set (cg_open c')"
      then have "unat (o_id x) \<noteq> unat ?i" "ends_open c x"
        using removed[of x] sub by (auto simp: c' word_unat_eq_iff list_all_iff)
      then show "ends_open c' x" unfolding ends_open_def known by (simp add: c')
    qed
    ultimately show ?thesis
      using wf by (auto simp: cg_wf_def c' chain_pop distinct_pop)
  qed
  have "sim_rel c' ?s"
    unfolding sim_rel_def
  proof (intro conjI allI impI)
    show "funcLogs ?s = kept_calls c'"
    proof
      fix j
      show "funcLogs ?s j = kept_calls c' j"
      proof (cases "j = ?i")
        case False
        then have "unat j \<noteq> unat ?i" by (simp add: word_unat_eq_iff)
        then show ?thesis using sim_relD(3)[OF R] False by (simp add: s' c' kept_calls_def)
      qed (use logs eo in \<open>simp add: s' c' kept_calls_def ends_open_def\<close>)
    qed
    show "stacks ?s h = Some (top_id h (cg_open c'))" if "cg_gor c' h \<noteq> None" for h
      using R that known parent by (auto simp: s' c' sim_rel_def top_id_pop_other)
    show "txids ?s = map_of (map (\<lambda>e. (o_tx e, o_id e)) (cg_open c'))"
      using R wf e tx by (simp add: s' c' sim_rel_def cg_wf_def map_of_pop)
  qed (use R wf' in \<open>simp_all add: s' c' sim_rel_def\<close>)
  then show ?thesis using step by metis
qed

lemma cg_clear_sim:
  assumes R: "sim_rel c s" and st: "cg_step c Clear = Some c'"
  shows "sim_rel c' (Simulator_Clear s)"
proof -
  have c': "c' = c\<lparr>cg_kept := filter (\<lambda>k. fl_EndTime (cg_calls c ! k) = NotEnded) (cg_kept c)\<rparr>"
    using st by (simp add: cg_step_def)
  have "ends_open c' e = ends_open c e" for e by (auto simp: ends_open_def c')
  then have "cg_wf c'" using sim_relD(1)[OF R] by (auto simp: cg_wf_def c' list_all_iff)
  moreover have "funcLogs (Simulator_Clear s) = kept_calls c'"
    using sim_relD(3)[OF R] by (auto simp: Simulator_Clear_def kept_calls_def c')
  ultimately show ?thesis
    using sim_relD[OF R] unfolding sim_rel_def by (simp add: Simulator_Clear_def c')
qed

interpretation calls: simulating_machine cg_step sim_step sim_rel
proof
  show "\<exists>s'. sim_step s e = Inr s' \<and> sim_rel c' s'" if "sim_rel c s" "cg_step c e = Some c'" for c s e c'
    using that cg_start_sim cg_end_sim cg_clear_sim
    by (auto simp: cg_step_def[of _ "Raw _"] sim_step_def Simulator_Next_def FuncStart_def FuncEnd_def
        split: sim_event.splits if_splits)
qed

lemma sim_rel_init: "sim_rel cg_init Simulator_Init"
  by (simp add: sim_rel_def cg_init_def Simulator_Init_def cg_wf_def kept_calls_def)

subsection \<open>Nesting of calls in time\<close>

text \<open>
  \<open>timed now es\<close>: the timestamps of the raw records of \<open>es\<close> do not decrease, from \<open>now\<close> on.
\<close>

fun timed :: "int \<Rightarrow> sim_event list \<Rightarrow> bool" where
  "timed now [] = True"
| "timed now (Clear # es) = timed now es"
| "timed now (Raw raw # es) = (now \<le> sint (raw_Timestamp raw) \<and> timed (sint (raw_Timestamp raw)) es)"

definition call_ok :: "int \<Rightarrow> open_call list \<Rightarrow> nat \<Rightarrow> FuncLog \<Rightarrow> bool" where
  "call_ok now es k fl \<longleftrightarrow>
     fl_ID fl = word_of_nat k \<and> sint (fl_StartTime fl) \<le> now \<and>
     (if fl_EndTime fl = NotEnded then \<exists>e \<in> set es. unat (o_id e) = k \<and> o_gid e = fl_GID fl
      else sint (fl_StartTime fl) \<le> sint (fl_EndTime fl) \<and> sint (fl_EndTime fl) \<le> now)"

definition inside :: "FuncLog \<Rightarrow> FuncLog \<Rightarrow> bool" where
  "inside fl p \<longleftrightarrow>
     fl_GID fl = fl_GID p \<and> sint (fl_StartTime p) \<le> sint (fl_StartTime fl) \<and>
     (fl_EndTime p \<noteq> NotEnded \<longrightarrow>
        fl_EndTime fl \<noteq> NotEnded \<and> sint (fl_EndTime fl) \<le> sint (fl_EndTime p))"

definition parent_ok :: "FuncLog list \<Rightarrow> nat \<Rightarrow> bool" where
  "parent_ok cs k \<longleftrightarrow>
     (let p = fl_ParentID (cs ! k) in p = NotFoundParent \<or> unat p < k \<and> inside (cs ! k) (cs ! unat p))"

definition nested :: "int \<Rightarrow> callgraph \<Rightarrow> bool" where
  "nested now c \<longleftrightarrow>
     (\<forall>k < length (cg_calls c). call_ok now (cg_open c) k (cg_calls c ! k) \<and> parent_ok (cg_calls c) k) \<and>
     (\<forall>e \<in> set (cg_open c). fl_GID (cg_calls c ! unat (o_id e)) = o_gid e)"

lemma call_ok_mono:
  "call_ok now es k fl \<Longrightarrow> now \<le> now' \<Longrightarrow> set es \<subseteq> set es' \<Longrightarrow> call_ok now' es' k fl"
  by (auto simp: call_ok_def split: if_splits)

lemma nested_start:
  assumes "nested now c" "cg_wf c" "cg_start c raw = Some c'" "now \<le> sint (raw_Timestamp raw)"
  shows "nested (sint (raw_Timestamp raw)) c'"
proof -
  let ?n = "length (cg_calls c)" and ?t = "sint (raw_Timestamp raw)" and ?g = "raw_GID raw"
  let ?i = "word_of_nat ?n :: int64"
  obtain fl where c': "cg_calls c' = cg_calls c @ [fl]"
    "cg_open c' = \<lparr>o_gid = ?g, o_id = ?i, o_tx = raw_TxID raw\<rparr> # cg_open c" and n: "?n < 2 ^ 63"
    and fl: "fl_ID fl = ?i" "fl_StartTime fl = raw_Timestamp raw" "fl_EndTime fl = NotEnded"
      "fl_GID fl = ?g" "fl_ParentID fl = top_id ?g (cg_open c)"
    using assms(3) by (auto simp: cg_start_def Let_def split: if_splits)
  have i: "unat ?i = ?n" using n by (rule unat_of_call)
  have "call_ok ?t (cg_open c') k (cg_calls c' ! k) \<and> parent_ok (cg_calls c') k" if "k < ?n" for k
  proof
    show "call_ok ?t (cg_open c') k (cg_calls c' ! k)"
      using assms(1,4) that by (auto simp: nested_def c' nth_append intro: call_ok_mono)
    have "parent_ok (cg_calls c) k" using assms(1) that by (simp add: nested_def)
    then show "parent_ok (cg_calls c') k"
      using that by (auto simp: parent_ok_def Let_def c' nth_append)
  qed
  moreover have "call_ok ?t (cg_open c') ?n fl" using fl i by (simp add: call_ok_def c')
  moreover have "parent_ok (cg_calls c') ?n"
  proof (cases "innermost ?g (cg_open c)")
    case None
    then show ?thesis using fl by (simp add: parent_ok_def c' top_id_def)
  next
    case (Some e)
    note e = innermost_SomeD[OF Some]
    then have "ends_open c e" "fl_GID (cg_calls c ! unat (o_id e)) = ?g"
      using assms(1,2) by (auto simp: nested_def cg_wf_def list_all_iff)
    moreover from this have "call_ok now (cg_open c) (unat (o_id e)) (cg_calls c ! unat (o_id e))"
      using assms(1) by (auto simp: nested_def ends_open_def)
    ultimately show ?thesis
      using Some fl assms(4)
      by (auto simp: parent_ok_def Let_def c' top_id_def nth_append inside_def ends_open_def call_ok_def)
  qed
  ultimately show ?thesis
    using assms(1,2) fl i
    by (auto simp: nested_def c' less_Suc_eq nth_append cg_wf_def list_all_iff ends_open_def)
qed

text \<open>An open call whose parent is the innermost open call of its goroutine cannot exist.\<close>

lemma top_id_in: "top_id g es \<noteq> NotFoundParent \<Longrightarrow> top_id g es \<in> o_id ` set es"
  by (auto simp: top_id_def dest: innermost_SomeD split: option.splits)

lemma chain_parent_in:
  "chain cs es \<Longrightarrow> x \<in> set es \<Longrightarrow> fl_ParentID (cs ! unat (o_id x)) \<noteq> NotFoundParent \<Longrightarrow>
   fl_ParentID (cs ! unat (o_id x)) \<in> o_id ` set es"
  using top_id_in by (induction es) auto

lemma innermost_childless:
  assumes "chain cs es" "distinct (map o_id es)" "innermost g es = Some e" "x \<in> set es" "o_gid x = g"
    "o_id e \<noteq> NotFoundParent"
  shows "fl_ParentID (cs ! unat (o_id x)) \<noteq> o_id e"
  using assms
proof (induction es)
  case (Cons a es)
  show ?case
  proof (cases "o_gid a = g")
    case True
    then have "o_id e \<notin> o_id ` set es" "a = e" using Cons.prems by auto
    moreover have "p \<in> o_id ` set es" if "p = fl_ParentID (cs ! unat (o_id x))" "p \<noteq> NotFoundParent" for p
      using that Cons.prems chain_parent_in[of cs es x] top_id_in[of g es] by auto
    ultimately show ?thesis using Cons.prems(6) by metis
  next
    case False
    then show ?thesis using Cons by auto
  qed
qed simp

lemma nested_end:
  assumes "nested now c" "cg_wf c" "cg_end c raw = Some c'" "now \<le> sint (raw_Timestamp raw)"
  shows "nested (sint (raw_Timestamp raw)) c'"
proof -
  let ?t = "raw_Timestamp raw" and ?g = "raw_GID raw"
  obtain e where e: "innermost ?g (cg_open c) = Some e" and t: "?t \<noteq> NotEnded"
    and c': "cg_calls c' = (cg_calls c)[unat (o_id e) := (cg_calls c ! unat (o_id e))\<lparr>fl_EndTime := ?t\<rparr>]"
      "cg_open c' = pop ?g (cg_open c)"
    using assms(3) by (auto simp: cg_end_def Let_def split: option.splits if_splits)
  let ?k = "unat (o_id e)"
  note mem = innermost_SomeD[OF e]
  have wf: "chain (cg_calls c) (cg_open c)" "distinct (map o_id (cg_open c))" "ends_open c e"
    using assms(2) mem by (auto simp: cg_wf_def list_all_iff)
  have k: "?k < length (cg_calls c)" "o_id e \<noteq> NotFoundParent"
    using wf assms(2) by (auto simp: ends_open_def cg_wf_def NotFoundParent_def unat_minus_one64)
  note others = pop_removes[OF wf(2) e]
  have ok: "call_ok now (cg_open c) j (cg_calls c ! j)" "parent_ok (cg_calls c) j"
    if "j < length (cg_calls c)" for j using assms(1) that by (auto simp: nested_def)
  have call: "call_ok (sint ?t) (cg_open c') j (cg_calls c' ! j)" if j: "j < length (cg_calls c)" for j
  proof (cases "j = ?k")
    case True
    then show ?thesis using ok(1)[OF j] k t assms(4) by (auto simp: c' call_ok_def)
  next
    case False
    then have "call_ok now (cg_open c') j (cg_calls c ! j)"
      using ok(1)[OF j] others by (auto simp: call_ok_def c')
    then show ?thesis using False assms(4) by (auto simp: c' intro: call_ok_mono)
  qed
  moreover have "parent_ok (cg_calls c') j" if j: "j < length (cg_calls c)" for j
  proof (cases "fl_ParentID (cg_calls c ! j) = NotFoundParent")
    case False
    let ?p = "unat (fl_ParentID (cg_calls c ! j))"
    have p: "?p < j" "inside (cg_calls c ! j) (cg_calls c ! ?p)"
      using ok(2)[OF j] False by (auto simp: parent_ok_def Let_def)
    have same: "fl_ParentID (cg_calls c' ! j) = fl_ParentID (cg_calls c ! j)"
      using k by (cases "j = ?k") (auto simp: c')
    have "inside (cg_calls c' ! j) (cg_calls c' ! ?p)"
    proof (cases "?p = ?k")
      case True
      then have pe: "fl_ParentID (cg_calls c ! j) = o_id e" by (simp add: word_unat_eq_iff)
      have "fl_EndTime (cg_calls c ! j) \<noteq> NotEnded"
      proof
        assume "fl_EndTime (cg_calls c ! j) = NotEnded"
        then obtain x where "x \<in> set (cg_open c)" "unat (o_id x) = j" "o_gid x = fl_GID (cg_calls c ! j)"
          using ok(1)[OF j] by (auto simp: call_ok_def)
        moreover have "fl_GID (cg_calls c ! j) = ?g"
          using p True mem assms(1) by (auto simp: inside_def nested_def)
        ultimately show False
          using innermost_childless[OF wf(1,2) e, of x] pe k by simp
      qed
      then show ?thesis using True p ok(1)[OF j] k assms(4) by (auto simp: c' inside_def call_ok_def)
    next
      case False
      then show ?thesis
        using p k t wf(3) by (cases "j = ?k") (auto simp: c' inside_def ends_open_def)
    qed
    then show ?thesis using p same by (simp add: parent_ok_def)
  qed (use k in \<open>cases "j = ?k"; simp add: parent_ok_def c'\<close>)
  moreover have "fl_GID (cg_calls c' ! unat (o_id x)) = o_gid x" if "x \<in> set (cg_open c')" for x
  proof -
    have "x \<in> set (cg_open c)" using that set_pop[of ?g "cg_open c"] by (auto simp: c')
    then have "fl_GID (cg_calls c ! unat (o_id x)) = o_gid x" using assms(1) by (simp add: nested_def)
    then show ?thesis using k by (cases "unat (o_id x) = ?k") (simp_all add: c')
  qed
  moreover have "length (cg_calls c') = length (cg_calls c)" by (simp add: c')
  ultimately show ?thesis unfolding nested_def by simp
qed

lemma nested_run:
  "nested now c \<Longrightarrow> sim_rel c s \<Longrightarrow> timed now es \<Longrightarrow> spec_run cg_step c es = Some c' \<Longrightarrow> \<exists>now'. nested now' c'"
proof (induction now es arbitrary: c s rule: timed.induct)
  case (2 now es)
  obtain d where d: "cg_step c Clear = Some d" "spec_run cg_step d es = Some c'"
    using "2.prems" by (auto split: option.splits)
  then have "nested now d" using "2.prems"(1) by (auto simp: cg_step_def nested_def)
  moreover have "sim_rel d (Simulator_Clear s)" using cg_clear_sim "2.prems"(2) d(1) by blast
  ultimately show ?case using "2.IH" "2.prems"(3) d(2) by simp
next
  case (3 now raw es)
  obtain d where d: "cg_step c (Raw raw) = Some d" "spec_run cg_step d es = Some c'"
    using "3.prems" by (auto split: option.splits)
  have "nested (sint (raw_Timestamp raw)) d"
    using "3.prems" d sim_relD(1) nested_start nested_end by (auto simp: cg_step_def split: if_splits)
  moreover obtain s' where "sim_rel d s'" using calls.step_sim "3.prems"(2) d(1) by blast
  ultimately show ?case using 3 d by auto
qed auto

subsection \<open>No call record is missing\<close>

text \<open>
  Whatever records arrive, in whatever order: a transaction that is still mapped belongs to a call
  whose record is in memory and not ended, as long as the 64-bit call counter has not wrapped.
\<close>

definition sim_inv :: "nat \<Rightarrow> StateSimulator \<Rightarrow> bool" where
  "sim_inv n s \<longleftrightarrow>
     unat (nextID s) + n < 2 ^ 64 \<and> inj_on (txids s) (dom (txids s)) \<and>
     (\<forall>tx i. txids s tx = Some i \<longrightarrow>
        i < nextID s \<and> (\<exists>fl. funcLogs s i = Some fl \<and> fl_EndTime fl = NotEnded))"

lemma sim_inv_start:
  assumes "sim_inv (Suc n) s" "Next_start s raw = Inr s'"
  shows "sim_inv n s'"
proof -
  obtain fl where s': "nextID s' = nextID s + 1" "funcLogs s' = (funcLogs s)(nextID s \<mapsto> fl)"
    "txids s' = (txids s)(raw_TxID raw \<mapsto> nextID s)" and fl: "fl_EndTime fl = NotEnded"
    using assms(2) by (auto simp: Next_start_def Let_def split: if_splits)
  have lt: "txids s tx = Some i \<Longrightarrow> i < nextID s" for tx i using assms(1) by (simp add: sim_inv_def)
  have nx: "unat (nextID s + 1) = Suc (unat (nextID s))"
    using assms(1) by (simp add: sim_inv_def unat_word_ariths)
  have "nextID s \<notin> ran (txids s)" using lt by (auto simp: ran_def)
  then have "inj_on (txids s') (dom (txids s'))"
    using assms(1) unfolding s' by (auto simp: sim_inv_def inj_on_def dom_def ran_def)
  then show ?thesis
    using assms(1) fl lt nx
    by (auto simp: sim_inv_def s' word_less_nat_alt less_Suc_eq split: if_splits)
qed

lemma sim_inv_end:
  assumes "sim_inv (Suc n) s" "Next_end s raw = Inr s'"
  shows "sim_inv n s'"
proof -
  obtain i fl where i: "txids s (raw_TxID raw) = Some i"
    and s': "nextID s' = nextID s" "funcLogs s' = (funcLogs s)(i \<mapsto> fl\<lparr>fl_EndTime := raw_Timestamp raw\<rparr>)"
      "txids s' = (txids s)(raw_TxID raw := None)"
    using assms(2) by (auto simp: Next_end_def Let_def split: if_splits option.splits)
  have inj: "inj_on (txids s) (dom (txids s))" using assms(1) by (simp add: sim_inv_def)
  then have "inj_on (txids s') (dom (txids s'))" unfolding s' by (auto simp: inj_on_def dom_def)
  moreover have "j \<noteq> i" if "txids s' tx = Some j" for tx j
    using that i inj_onD[OF inj, of tx "raw_TxID raw"] by (auto simp: s' dom_def split: if_splits)
  ultimately show ?thesis
    using assms(1) unfolding sim_inv_def by (simp add: s')
qed

lemma sim_inv_clear: "sim_inv (Suc n) s \<Longrightarrow> sim_inv n (Simulator_Clear s)"
  by (fastforce simp: sim_inv_def Simulator_Clear_def)

lemma sim_inv_safe:
  assumes "sim_inv n s"
  shows "Simulator_Next s raw \<noteq> Inl NilDereference"
proof -
  have "txids s tx = Some i \<Longrightarrow> funcLogs s i = None \<Longrightarrow> False" for tx i
    using assms unfolding sim_inv_def by (metis option.distinct(1))
  then show ?thesis
    by (auto simp: Simulator_Next_def Next_start_def Next_end_def Let_def split: option.splits)
qed

interpretation sim: invariant_machine sim_step sim_inv "\<lambda>f. f \<noteq> NilDereference"
proof
  show "sim_inv n s'" if I: "sim_inv (Suc n) s" and st: "sim_step s e = Inr s'" for n s e s'
  proof (cases e)
    case Clear
    then show ?thesis using sim_inv_clear[OF I] st by (simp add: sim_step_def)
  next
    case (Raw raw)
    then show ?thesis using sim_inv_start[OF I, of raw s'] sim_inv_end[OF I, of raw s'] st
      by (simp add: sim_step_def Simulator_Next_def split: if_splits)
  qed
  show "f \<noteq> NilDereference" if "sim_inv (Suc n) s" "sim_step s e = Inl f" for n s e f
    using that sim_inv_safe by (auto simp: sim_step_def split: sim_event.splits)
qed

subsection \<open>Properties\<close>

text \<open>
  C4. On every well-nested stream of records, with \<open>Clear\<close> at any points, the simulator never panics
  and rebuilds the forest of calls exactly: its call records are those of the specification that
  no \<open>Clear\<close> dropped, and its goroutines are those of the specification.
\<close>

theorem Simulator_rebuilds_calls:
  assumes "spec_run cg_step cg_init es = Some c"
  shows "\<exists>s. go_run sim_step Simulator_Init es = Inr s \<and> funcLogs s = kept_calls c \<and> goroutines s = cg_gor c"
  using calls.run_sim[OF sim_rel_init assms] sim_relD(3,6) by blast

definition start_of :: "GID \<Rightarrow> TxID \<Rightarrow> Time \<Rightarrow> sim_event" where
  "start_of g tx t = Raw \<lparr>raw_ID = 0, raw_Tag = FuncStart, raw_Timestamp = t, raw_Frames = [t], raw_GID = g, raw_TxID = tx\<rparr>"

definition end_of :: "GID \<Rightarrow> TxID \<Rightarrow> Time \<Rightarrow> sim_event" where
  "end_of g tx t = Raw \<lparr>raw_ID = 0, raw_Tag = FuncEnd, raw_Timestamp = t, raw_Frames = [t], raw_GID = g, raw_TxID = tx\<rparr>"

definition sample_trace :: "sim_event list" where
  "sample_trace = [start_of 7 1 10, start_of 8 2 11, start_of 7 3 12, Clear, end_of 7 3 13, end_of 8 2 14, end_of 7 1 15]"

lemmas trace_simps = sample_trace_def start_of_def end_of_def cg_step_def cg_start_def cg_end_def Let_def
  cg_init_def FuncStart_def FuncEnd_def NotEnded_def NotFoundParent_def MaxStackSize_def set_EndTime_def top_id_def

lemma sample_trace_spec:
  "map_option cg_calls (spec_run cg_step cg_init sample_trace) = Some
     [\<lparr>fl_ID = 0, fl_StartTime = 10, fl_EndTime = 15, fl_ParentID = - 1, fl_Frames = [10], fl_GID = 7\<rparr>,
      \<lparr>fl_ID = 1, fl_StartTime = 11, fl_EndTime = 14, fl_ParentID = - 1, fl_Frames = [11], fl_GID = 8\<rparr>,
      \<lparr>fl_ID = 2, fl_StartTime = 12, fl_EndTime = 13, fl_ParentID = 0, fl_Frames = [12], fl_GID = 7\<rparr>]"
  "map_option cg_kept (spec_run cg_step cg_init sample_trace) = Some [0, 1, 2]"
  by (simp_all add: trace_simps)

theorem Simulator_rebuilds_calls_witness:
  "\<exists>s. go_run sim_step Simulator_Init sample_trace = Inr s \<and>
     funcLogs s 2 = Some \<lparr>fl_ID = 2, fl_StartTime = 12, fl_EndTime = 13, fl_ParentID = 0, fl_Frames = [12], fl_GID = 7\<rparr>"
proof -
  obtain c where c: "spec_run cg_step cg_init sample_trace = Some c"
    using sample_trace_spec(1) by (cases "spec_run cg_step cg_init sample_trace") auto
  have "kept_calls c 2 = Some \<lparr>fl_ID = 2, fl_StartTime = 12, fl_EndTime = 13, fl_ParentID = 0, fl_Frames = [12], fl_GID = 7\<rparr>"
    using sample_trace_spec c by (simp add: kept_calls_def)
  then show ?thesis using Simulator_rebuilds_calls[OF c] by auto
qed

text \<open>
  C32. When the timestamps of a well-nested stream do not decrease, the call records nest in time: a
  record is stored under its own ID, an ended call ends no earlier than it starts, and a call whose
  parent is also in memory is on the parent's goroutine, has a later ID, starts no earlier than the
  parent and has ended, no later than the parent, if the parent has ended.
\<close>

theorem Simulator_calls_nest:
  assumes "spec_run cg_step cg_init es = Some c" "timed now es" "go_run sim_step Simulator_Init es = Inr s"
    "funcLogs s i = Some fl"
  shows "fl_ID fl = i \<and> (fl_EndTime fl \<noteq> NotEnded \<longrightarrow> sint (fl_StartTime fl) \<le> sint (fl_EndTime fl)) \<and>
    (\<forall>p. funcLogs s (fl_ParentID fl) = Some p \<longrightarrow> fl_ID p < fl_ID fl \<and> inside fl p)"
proof -
  have R: "sim_rel c s" using calls.run_sim[OF sim_rel_init assms(1)] assms(3) by auto
  have "nested now cg_init" by (simp add: nested_def cg_init_def)
  then obtain now' where now': "nested now' c" using nested_run sim_rel_init assms(1,2) by blast
  have rec: "unat j < length (cg_calls c) \<and> cg_calls c ! unat j = f" if "funcLogs s j = Some f" for j f
    using that R sim_relD(1,3)[OF R]
    by (auto simp: kept_calls_def cg_wf_def subset_iff split: if_splits)
  have ok: "call_ok now' (cg_open c) (unat j) f \<and> parent_ok (cg_calls c) (unat j)" if "funcLogs s j = Some f" for j f
    using rec[OF that] now' by (auto simp: nested_def)
  have len: "length (cg_calls c) \<le> 2 ^ 63" using sim_relD(1)[OF R] by (simp add: cg_wf_def)
  have ID: "fl_ID f = j" if "funcLogs s j = Some f" for j f
    using ok[OF that] by (simp add: call_ok_def)
  have "fl_ID p < fl_ID fl \<and> inside fl p" if p: "funcLogs s (fl_ParentID fl) = Some p" for p
  proof -
    have "fl_ParentID fl \<noteq> NotFoundParent"
      using rec[OF p] len by (auto simp: NotFoundParent_def unat_minus_one64)
    then show ?thesis
      using ok[OF assms(4)] rec[OF assms(4)] rec[OF p] ID[OF p] ID[OF assms(4)]
      by (auto simp: parent_ok_def Let_def word_less_nat_alt)
  qed
  then show ?thesis using ok[OF assms(4)] ID[OF assms(4)] by (auto simp: call_ok_def split: if_splits)
qed

theorem Simulator_calls_nest_witness:
  "\<exists>s fl p. go_run sim_step Simulator_Init sample_trace = Inr s \<and> funcLogs s 2 = Some fl \<and>
     funcLogs s 0 = Some p \<and> inside fl p"
proof -
  obtain c where c: "spec_run cg_step cg_init sample_trace = Some c"
    using sample_trace_spec(1) by (cases "spec_run cg_step cg_init sample_trace") auto
  obtain s where s: "go_run sim_step Simulator_Init sample_trace = Inr s" "funcLogs s = kept_calls c"
    using calls.run_sim[OF sim_rel_init c] sim_relD(3) by blast
  have fls: "funcLogs s 2 = Some (cg_calls c ! 2)" "funcLogs s 0 = Some (cg_calls c ! 0)"
    and par: "fl_ParentID (cg_calls c ! 2) = 0"
    using sample_trace_spec c by (simp_all add: s(2) kept_calls_def)
  have "timed 10 sample_trace" by (simp add: sample_trace_def start_of_def end_of_def)
  from Simulator_calls_nest[OF c this s(1) fls(1)] show ?thesis using s fls par by auto
qed

text \<open>
  Whatever records are fed to the simulator, well-nested or not, and wherever \<open>Clear\<close> is called, it
  never dereferences a missing call record: it can only stop at its own panics.
\<close>

theorem Simulator_never_nil:
  assumes "length es < 2 ^ 64"
  shows "go_run sim_step Simulator_Init es \<noteq> Inl NilDereference"
proof -
  have "sim_inv (length es) Simulator_Init"
    using assms by (simp add: sim_inv_def Simulator_Init_def)
  then show ?thesis using sim.run_safe by blast
qed

theorem Simulator_never_nil_witness:
  "go_run sim_step Simulator_Init [start_of 7 1 10, start_of 7 1 11, end_of 7 1 12, Clear] \<noteq> Inl NilDereference"
  using Simulator_never_nil[of "[start_of 7 1 10, start_of 7 1 11, end_of 7 1 12, Clear]"] by simp

text \<open>
  The store of simulators is a map over log identifiers: a new simulator is found under its own
  identifier and under no other, creating it twice panics, and deleting it makes room again.
\<close>

theorem SSStore_laws:
  assumes "SSStore_Get st i = None"
  shows "\<exists>st'. SSStore_New st i = Inr (st', Simulator_Init) \<and>
    SSStore_Get st' j = (if j = i then Some Simulator_Init else SSStore_Get st j) \<and>
    SSStore_New st' i = Inl (Panic ''StateSimulator is already exist'') \<and>
    SSStore_Get (SSStore_Delete st' i) j = SSStore_Get st j"
  using assms
  by (auto simp: SSStore_New_def SSStore_Get_def SSStore_Delete_def Let_def LogID_Hex_inject split: option.splits)

theorem SSStore_laws_witness:
  "\<exists>st'. SSStore_New \<lparr>ss_m = None\<rparr> zero_LogID = Inr (st', Simulator_Init) \<and>
    SSStore_Get st' zero_LogID = Some Simulator_Init"
  using SSStore_laws[of "\<lparr>ss_m = None\<rparr>" zero_LogID zero_LogID]
  by (auto simp: SSStore_Get_def)

end
