(* ===== verification/Files.thy ===== *)
theory Files
  imports Prelude
begin

section \<open>Files: the operating system as the storage layer sees it (\<open>storage.File\<close>, \<open>os\<close>)\<close>

text \<open>
  The storage layer reaches the disk through \<open>storage.File\<close> (\<open>tracer/storage/dirlayout.go\<close>) and
  the handles it opens. The world holds the content of every file and a script of faults: each
  I/O call consumes one entry, \<open>None\<close> or an exhausted script lets it succeed, \<open>Some k\<close> makes it
  fail after it has transferred at most \<open>k\<close> bytes. Theorems that quantify over the world therefore
  quantify over all patterns of I/O failure. Directories and permissions are not modelled.
\<close>

datatype error =
    EIO | NotExist | InvalidSeek | EOF | ErrClosed | ErrReadOnly | DecodeError
  | ErrInvalid string

record world =
  files :: "string \<rightharpoonup> byte list"
  faults :: "nat option list"

record handle =
  h_path :: string
  h_cur :: nat
  h_append :: bool
  h_open :: bool

definition next_fault :: "world \<Rightarrow> nat option \<times> world" where
  "next_fault w = (case faults w of [] \<Rightarrow> (None, w) | f # fs \<Rightarrow> (f, w\<lparr>faults := fs\<rparr>))"

definition file_bytes :: "world \<Rightarrow> string \<Rightarrow> byte list" where
  "file_bytes w p = (case files w p of None \<Rightarrow> [] | Some c \<Rightarrow> c)"

text \<open>Writing \<open>d\<close> at offset \<open>p\<close>; a gap past the end of the file reads as zeros.\<close>

definition overlay :: "byte list \<Rightarrow> nat \<Rightarrow> byte list \<Rightarrow> byte list" where
  "overlay c p d = take p (c @ replicate (p - length c) 0) @ d @ drop (p + length d) c"

subsection \<open>Handles\<close>

definition os_Seek :: "world \<Rightarrow> handle \<Rightarrow> int \<Rightarrow> handle \<times> error option \<times> world" where
  "os_Seek w h p =
     (if \<not> h_open h then (h, Some ErrClosed, w)
      else case next_fault w of
             (Some _, w) \<Rightarrow> (h, Some EIO, w)
           | (None, w) \<Rightarrow> if p < 0 then (h, Some InvalidSeek, w) else (h\<lparr>h_cur := nat p\<rparr>, None, w))"

text \<open>\<open>Read(buf)\<close> with a buffer of \<open>n\<close> bytes: the handle, the bytes read, the error.\<close>

definition os_Read :: "world \<Rightarrow> handle \<Rightarrow> nat \<Rightarrow> handle \<times> byte list \<times> error option \<times> world" where
  "os_Read w h n =
     (if \<not> h_open h then (h, [], Some ErrClosed, w)
      else let d = take n (drop (h_cur h) (file_bytes w (h_path h))) in
        case next_fault w of
          (Some k, w) \<Rightarrow> (h\<lparr>h_cur := h_cur h + length (take k d)\<rparr>, take k d, Some EIO, w)
        | (None, w) \<Rightarrow>
            if d = [] \<and> 0 < n then (h, [], Some EOF, w)
            else (h\<lparr>h_cur := h_cur h + length d\<rparr>, d, None, w))"

definition os_Write :: "world \<Rightarrow> handle \<Rightarrow> byte list \<Rightarrow> handle \<times> nat \<times> error option \<times> world" where
  "os_Write w h d =
     (if \<not> h_open h then (h, 0, Some ErrClosed, w)
      else let c = file_bytes w (h_path h);
               at = (if h_append h then length c else h_cur h)
        in case next_fault w of
             (Some k, w) \<Rightarrow>
               (h\<lparr>h_cur := at + length (take k d)\<rparr>, length (take k d), Some EIO,
                w\<lparr>files := (files w)(h_path h \<mapsto> overlay c at (take k d))\<rparr>)
           | (None, w) \<Rightarrow>
               (h\<lparr>h_cur := at + length d\<rparr>, length d, None,
                w\<lparr>files := (files w)(h_path h \<mapsto> overlay c at d)\<rparr>))"

definition os_Close :: "world \<Rightarrow> handle \<Rightarrow> handle \<times> error option \<times> world" where
  "os_Close w h =
     (if \<not> h_open h then (h, Some ErrClosed, w)
      else case next_fault w of
             (Some _, w) \<Rightarrow> (h\<lparr>h_open := False\<rparr>, Some EIO, w)
           | (None, w) \<Rightarrow> (h\<lparr>h_open := False\<rparr>, None, w))"

subsection \<open>\<open>File\<close>\<close>

definition File_Remove :: "world \<Rightarrow> string \<Rightarrow> error option \<times> world" where
  "File_Remove w f =
     (case next_fault w of
        (Some _, w) \<Rightarrow> (Some EIO, w)
      | (None, w) \<Rightarrow>
          if files w f = None then (Some NotExist, w) else (None, w\<lparr>files := (files w)(f := None)\<rparr>))"

definition File_Exists :: "world \<Rightarrow> string \<Rightarrow> bool" where
  "File_Exists w f \<longleftrightarrow> files w f \<noteq> None"

text \<open>\<open>Size\<close> reports a failing \<open>Stat\<close> as an empty file, without an error.\<close>

definition File_Size :: "world \<Rightarrow> string \<Rightarrow> nat \<times> error option" where
  "File_Size w f = (case files w f of None \<Rightarrow> (0, None) | Some c \<Rightarrow> (length c, None))"

definition OpenReadOnly :: "world \<Rightarrow> string \<Rightarrow> handle option \<times> error option \<times> world" where
  "OpenReadOnly w f =
     (case next_fault w of
        (Some _, w) \<Rightarrow> (None, Some EIO, w)
      | (None, w) \<Rightarrow>
          if files w f = None then (None, Some NotExist, w)
          else (Some \<lparr>h_path = f, h_cur = 0, h_append = False, h_open = True\<rparr>, None, w))"

text \<open>\<open>openFile\<close> with \<open>O_CREATE|O_WRONLY\<close>, with and without \<open>O_APPEND\<close>; no \<open>O_TRUNC\<close>.\<close>

definition openFile :: "world \<Rightarrow> string \<Rightarrow> bool \<Rightarrow> handle option \<times> error option \<times> world" where
  "openFile w f app =
     (case next_fault w of
        (Some _, w) \<Rightarrow> (None, Some EIO, w)
      | (None, w) \<Rightarrow>
          (Some \<lparr>h_path = f, h_cur = 0, h_append = app, h_open = True\<rparr>, None,
           w\<lparr>files := (files w)(f \<mapsto> file_bytes w f)\<rparr>))"

definition OpenWriteOnly :: "world \<Rightarrow> string \<Rightarrow> handle option \<times> error option \<times> world" where
  "OpenWriteOnly w f = openFile w f False"

definition OpenAppendOnly :: "world \<Rightarrow> string \<Rightarrow> handle option \<times> error option \<times> world" where
  "OpenAppendOnly w f = openFile w f True"

definition RenameTo :: "world \<Rightarrow> string \<Rightarrow> string \<Rightarrow> error option \<times> world" where
  "RenameTo w f g =
     (case next_fault w of
        (Some _, w) \<Rightarrow> (Some EIO, w)
      | (None, w) \<Rightarrow>
          (case files w f of
             None \<Rightarrow> (Some NotExist, w)
           | Some c \<Rightarrow> (None, w\<lparr>files := ((files w)(f := None))(g \<mapsto> c)\<rparr>)))"

text \<open>\<open>ReadAll\<close>: \<open>ioutil.ReadAll\<close> reads to the end and does not report \<open>EOF\<close>.\<close>

definition ReadAll :: "world \<Rightarrow> string \<Rightarrow> byte list \<times> error option \<times> world" where
  "ReadAll w f =
     (case OpenReadOnly w f of
        (None, e, w) \<Rightarrow> ([], e, w)
      | (Some h, _, w) \<Rightarrow>
          (case next_fault w of
             (Some k, w) \<Rightarrow> (take k (file_bytes w f), Some EIO, w)
           | (None, w) \<Rightarrow> (file_bytes w f, None, w)))"

text \<open>
  \<open>WriteAll\<close> writes a sibling file and renames it over the target. The suffix of \<open>new()\<close> is a
  random number, here the argument \<open>rnd\<close>. \<open>ioutil.WriteFile\<close> truncates what it opens.
\<close>

definition File_new :: "string \<Rightarrow> uint64 \<Rightarrow> string" where
  "File_new f rnd = f @ ''.new.'' @ FormatUint rnd"

definition WriteFile :: "world \<Rightarrow> string \<Rightarrow> byte list \<Rightarrow> error option \<times> world" where
  "WriteFile w f d =
     (case next_fault w of
        (Some _, w) \<Rightarrow> (Some EIO, w)
      | (None, w) \<Rightarrow>
          (case next_fault (w\<lparr>files := (files w)(f \<mapsto> [])\<rparr>) of
             (Some k, w) \<Rightarrow> (Some EIO, w\<lparr>files := (files w)(f \<mapsto> take k d)\<rparr>)
           | (None, w) \<Rightarrow> (None, w\<lparr>files := (files w)(f \<mapsto> d)\<rparr>)))"

definition WriteAll :: "world \<Rightarrow> string \<Rightarrow> uint64 \<Rightarrow> byte list \<Rightarrow> error option \<times> world" where
  "WriteAll w f rnd d =
     (case WriteFile w (File_new f rnd) d of
        (Some e, w) \<Rightarrow> (Some e, w)
      | (None, w) \<Rightarrow> RenameTo w (File_new f rnd) f)"

subsection \<open>Overlaying\<close>

lemma length_overlay [simp]: "length (overlay c p d) = max (length c) (p + length d)"
  by (auto simp: overlay_def max_def)

lemma nth_overlay:
  "i < length (overlay c p d) \<Longrightarrow>
   overlay c p d ! i =
     (if p \<le> i \<and> i < p + length d then d ! (i - p) else if i < length c then c ! i else 0)"
  by (auto simp: overlay_def nth_append min_def not_less)

lemma overlay_prefix: "overlay (overlay c p (take k d)) p d = overlay c p d"
  by (rule nth_equalityI) (auto simp: nth_overlay)

lemma overlay_append:
  "overlay (overlay c p d) (p + length d) d' = overlay c p (d @ d')"
  by (rule nth_equalityI) (auto simp: nth_overlay nth_append)

lemma overlay_Nil: "p \<le> length c \<Longrightarrow> overlay c p [] = c"
  by (simp add: overlay_def)

lemma take_drop_overlay_same: "take (length d) (drop p (overlay c p d)) = d"
  by (rule nth_equalityI) (auto simp: nth_overlay)

lemma take_drop_overlay_other:
  assumes "q + n \<le> p \<or> p + length d \<le> q" "q + n \<le> length c"
  shows "take n (drop q (overlay c p d)) = take n (drop q c)"
  using assms by (intro nth_equalityI) (auto simp: nth_overlay)

lemma file_bytes_upd [simp]:
  "file_bytes (w\<lparr>files := m\<rparr>) q = (case m q of None \<Rightarrow> [] | Some c \<Rightarrow> c)"
  by (simp add: file_bytes_def)

lemma file_bytes_faults [simp]: "file_bytes (w\<lparr>faults := fs\<rparr>) q = file_bytes w q"
  by (simp add: file_bytes_def)

lemma next_fault_files: "next_fault w = (f, w') \<Longrightarrow> files w' = files w"
  by (auto simp: next_fault_def split: list.splits)

lemma next_fault_bytes: "next_fault w = (f, w') \<Longrightarrow> file_bytes w' p = file_bytes w p"
  by (simp add: file_bytes_def next_fault_files)

lemma next_fault_none: "faults w = [] \<Longrightarrow> next_fault w = (None, w)"
  by (simp add: next_fault_def)

subsection \<open>Framing\<close>

text \<open>What an operation on file \<open>p\<close> leaves alone.\<close>

definition frame :: "string \<Rightarrow> world \<Rightarrow> world \<Rightarrow> bool" where
  "frame p w w' \<longleftrightarrow> (\<forall>q. q \<noteq> p \<longrightarrow> files w' q = files w q) \<and> (faults w = [] \<longrightarrow> faults w' = []) \<and>
     (files w p \<noteq> None \<longrightarrow> files w' p \<noteq> None)"

lemma frame_refl [simp]: "frame p w w"
  by (simp add: frame_def)

lemma frame_trans: "frame p w v \<Longrightarrow> frame p v u \<Longrightarrow> frame p w u"
  by (auto simp: frame_def)

lemma next_faultD:
  assumes "next_fault w = (f, w')"
  shows "files w' = files w" "frame p w w'" "f \<noteq> None \<Longrightarrow> faults w \<noteq> []"
  using assms by (auto simp: frame_def next_fault_def split: list.splits)

lemma frame_bytes: "frame f w w' \<Longrightarrow> q \<noteq> f \<Longrightarrow> file_bytes w' q = file_bytes w q"
  by (simp add: frame_def file_bytes_def)

subsection \<open>Properties\<close>

text \<open>
  \<open>WriteAll\<close> is atomic: whatever fails on the way, the file holds either its old content or all
  of the new one, no other file than the target and its temporary sibling changes, and success
  means the new content is in place and the sibling is gone.
\<close>

theorem WriteAll_atomic:
  assumes "WriteAll w f rnd d = (e, w')"
  shows "(files w' f = files w f \<or> files w' f = Some d) \<and>
    (\<forall>g. g \<noteq> f \<longrightarrow> g \<noteq> File_new f rnd \<longrightarrow> files w' g = files w g) \<and>
    (e = None \<longrightarrow> files w' f = Some d \<and> files w' (File_new f rnd) = None)"
proof -
  have "File_new f rnd \<noteq> f" by (simp add: File_new_def)
  then show ?thesis using assms
    by (auto simp: next_fault_def WriteAll_def WriteFile_def RenameTo_def split: prod.splits option.splits if_splits list.splits)
qed

theorem WriteAll_atomic_witness:
  "\<exists>e w'. WriteAll \<lparr>files = [''m'' \<mapsto> [1]], faults = [None, Some 1]\<rparr> ''m'' 5 [2, 3] = (e, w') \<and>
     e = Some EIO \<and> (files w' ''m'' = Some [1] \<or> files w' ''m'' = Some [2, 3])"
proof -
  obtain e w' where r: "WriteAll \<lparr>files = [''m'' \<mapsto> [1]], faults = [None, Some 1]\<rparr> ''m'' 5 [2, 3] = (e, w')"
    by (meson surj_pair)
  then have "e = Some EIO" by (auto simp: WriteAll_def WriteFile_def next_fault_def)
  with WriteAll_atomic[OF r] r show ?thesis by auto
qed

end
