(* ===== verification/Buffer.thy ===== *)
theory Buffer
  imports Files
begin

section \<open>Buffer: seekable read and write buffers (\<open>tracer/storage/buffer.go\<close>)\<close>

text \<open>
  \<open>ReadBuffer\<close> and \<open>WriteBuffer\<close> as records, with the file handle they own inside. Positions are
  integers (\<open>rpos\<close> and \<open>wpos\<close> are \<open>-1\<close> when the position of the handle is unknown), buffer indices
  natural numbers; a file offset of more than 63 bits does not occur. A buffer that has not been
  allocated is \<open>None\<close>. Each method returns the buffer, the world and the Go error, and faults where
  the code panics.
\<close>

subsection \<open>\<open>ReadBuffer\<close>\<close>

record ReadBuffer =
  rb_R :: handle
  MaxReadSize :: nat
  rb_BufferSize :: nat
  rpos :: int
  rb_buf :: "byte list option"
  rb_pos :: int
  rb_left :: nat
  rb_right :: nat

definition new_ReadBuffer :: "handle \<Rightarrow> nat \<Rightarrow> nat \<Rightarrow> ReadBuffer" where
  "new_ReadBuffer r m n =
     \<lparr>rb_R = r, MaxReadSize = m, rb_BufferSize = n, rpos = 0, rb_buf = None, rb_pos = 0,
      rb_left = 0, rb_right = 0\<rparr>"

definition DoCache_seek :: "world \<Rightarrow> ReadBuffer \<Rightarrow> ReadBuffer \<times> error option \<times> world" where
  "DoCache_seek w b =
     (if rpos b \<noteq> rb_pos b then
        case os_Seek w (rb_R b) (rb_pos b) of
          (h, Some e, w) \<Rightarrow> (b\<lparr>rb_R := h\<rparr>, Some e, w)
        | (h, None, w) \<Rightarrow> (b\<lparr>rb_R := h, rpos := rb_pos b\<rparr>, None, w)
      else (b, None, w))"

definition DoCache :: "world \<Rightarrow> ReadBuffer \<Rightarrow> ReadBuffer \<times> error option \<times> world" where
  "DoCache w b =
     (case DoCache_seek w b of
        (b, Some e, w) \<Rightarrow> (b, Some e, w)
      | (b, None, w) \<Rightarrow>
          let buf = (case rb_buf b of None \<Rightarrow> replicate (rb_BufferSize b) 0 | Some bs \<Rightarrow> bs);
              b = b\<lparr>rb_buf := Some buf, rb_left := 0, rb_right := 0\<rparr>
          in case os_Read w (rb_R b) (length buf) of
               (h, d, e, w) \<Rightarrow>
                 let b = b\<lparr>rb_R := h, rb_buf := Some (d @ drop (length d) buf)\<rparr> in
                 (case e of
                    Some e \<Rightarrow> (b\<lparr>rpos := - 1\<rparr>, Some e, w)
                  | None \<Rightarrow> (b\<lparr>rpos := rpos b + int (rb_BufferSize b), rb_right := length d\<rparr>, None, w)))"

definition rb_slice :: "ReadBuffer \<Rightarrow> nat \<Rightarrow> byte list go" where
  "rb_slice b n =
     (let buf = (case rb_buf b of None \<Rightarrow> [] | Some bs \<Rightarrow> bs) in
      if rb_left b + n \<le> length buf then Inr (take n (drop (rb_left b) buf)) else Inl SliceBoundsOutOfRange)"

definition ReadBuffer_Read ::
  "world \<Rightarrow> ReadBuffer \<Rightarrow> nat \<Rightarrow> ((byte list \<times> error option) \<times> ReadBuffer \<times> world) go" where
  "ReadBuffer_Read w b n =
     (if MaxReadSize b < n then Inl (Panic ''MaxReadSize'')
      else let (b, e, w) = (if rb_right b - rb_left b < MaxReadSize b then DoCache w b else (b, None, w))
        in case e of
             Some e \<Rightarrow> Inr (([], Some e), b, w)
           | None \<Rightarrow>
               go_bind (rb_slice b n) (\<lambda>ret.
                 Inr ((ret, None), b\<lparr>rb_pos := rb_pos b + int n, rb_left := rb_left b + n\<rparr>, w)))"

text \<open>
  \<open>Seek\<close>: the branch for a target inside the buffer moves \<open>pos\<close> and \<open>left\<close>, and then falls through
  to the code that drops the buffer.
\<close>

definition ReadBuffer_Seek :: "ReadBuffer \<Rightarrow> int \<Rightarrow> ReadBuffer" where
  "ReadBuffer_Seek b p =
     (if rb_pos b = p then b
      else let b = (if rb_pos b < p \<and> p < rb_pos b + int (rb_right b - rb_left b)
                    then b\<lparr>rb_pos := p, rb_left := rb_left b + nat (p - rb_pos b)\<rparr> else b)
        in b\<lparr>rb_pos := p, rb_left := 0, rb_right := 0\<rparr>)"

definition DropCache :: "ReadBuffer \<Rightarrow> ReadBuffer" where
  "DropCache b = b\<lparr>rb_left := 0, rb_right := 0\<rparr>"

subsection \<open>\<open>WriteBuffer\<close>\<close>

record WriteBuffer =
  wb_W :: "handle option"
  MaxWriteSize :: nat
  wb_BufferSize :: nat
  wpos :: int
  wb_buf :: "byte list option"
  wb_pos :: int
  wb_left :: nat
  wb_right :: nat

definition zero_WriteBuffer :: WriteBuffer where
  "zero_WriteBuffer =
     \<lparr>wb_W = None, MaxWriteSize = 0, wb_BufferSize = 0, wpos = 0, wb_buf = None, wb_pos = 0,
      wb_left = 0, wb_right = 0\<rparr>"

definition new_WriteBuffer :: "handle \<Rightarrow> nat \<Rightarrow> nat \<Rightarrow> WriteBuffer" where
  "new_WriteBuffer h m n = zero_WriteBuffer\<lparr>wb_W := Some h, MaxWriteSize := m, wb_BufferSize := n\<rparr>"

definition BufferedRange :: "WriteBuffer \<Rightarrow> int \<times> int" where
  "BufferedRange b = (wb_pos b, wb_pos b + int (wb_right b) - int (wb_left b))"

text \<open>
  \<open>WriteBuffer()\<close> hands out \<open>buf[right:right+MaxWriteSize]\<close>. The caller writes through that slice;
  \<open>put_buf\<close> is the effect of those writes on the shared array.
\<close>

definition wb_array :: "WriteBuffer \<Rightarrow> byte list" where
  "wb_array b = (case wb_buf b of None \<Rightarrow> [] | Some bs \<Rightarrow> bs)"

definition WriteBuffer_WriteBuffer :: "WriteBuffer \<Rightarrow> (slice \<times> WriteBuffer) go" where
  "WriteBuffer_WriteBuffer b =
     (let left = wb_right b; right = left + MaxWriteSize b in
      if wb_buf b = None \<and> wb_BufferSize b < MaxWriteSize b
      then Inl (Panic ''BufferSize is not enough length'')
      else let b = (if wb_buf b = None then b\<lparr>wb_buf := Some (replicate (wb_BufferSize b) 0)\<rparr> else b)
        in go_bind (slice_range (of_bytes (wb_array b)) left right) (\<lambda>s. Inr (s, b)))"

definition put_buf :: "WriteBuffer \<Rightarrow> slice \<Rightarrow> WriteBuffer" where
  "put_buf b s = b\<lparr>wb_buf := Some (take (wb_right b) (wb_array b) @ sl_arr s)\<rparr>"

definition Flush_seek :: "world \<Rightarrow> WriteBuffer \<Rightarrow> handle \<Rightarrow> WriteBuffer \<times> handle \<times> error option \<times> world" where
  "Flush_seek w b h =
     (if wpos b \<noteq> wb_pos b then
        case os_Seek w h (wb_pos b) of
          (h, Some e, w) \<Rightarrow> (b\<lparr>wb_W := Some h\<rparr>, h, Some e, w)
        | (h, None, w) \<Rightarrow> (b\<lparr>wb_W := Some h, wpos := wb_pos b\<rparr>, h, None, w)
      else (b, h, None, w))"

definition WriteBuffer_Flush :: "world \<Rightarrow> WriteBuffer \<Rightarrow> (error option \<times> WriteBuffer \<times> world) go" where
  "WriteBuffer_Flush w b =
     (if wb_left b = wb_right b then Inr (None, b, w)
      else case wb_W b of
        None \<Rightarrow> Inl NilDereference
      | Some h \<Rightarrow>
          (case Flush_seek w b h of
             (b, h, Some e, w) \<Rightarrow> Inr (Some e, b, w)
           | (b, h, None, w) \<Rightarrow>
               go_bind (slice_range (of_bytes (wb_array b)) (wb_left b) (wb_right b)) (\<lambda>s.
               case os_Write w h (sl_bytes s) of
                 (h, n, Some e, w) \<Rightarrow> Inr (Some e, b\<lparr>wb_W := Some h, wpos := - 1\<rparr>, w)
               | (h, n, None, w) \<Rightarrow>
                   if n \<noteq> wb_right b - wb_left b then Inl (Panic ''partial write'')
                   else let p = wpos b + int (wb_right b - wb_left b) in
                     Inr (None, b\<lparr>wb_W := Some h, wpos := p, wb_pos := p, wb_left := 0, wb_right := 0\<rparr>, w))))"

definition WriteBuffer_Write :: "world \<Rightarrow> WriteBuffer \<Rightarrow> nat \<Rightarrow> (error option \<times> WriteBuffer \<times> world) go" where
  "WriteBuffer_Write w b n =
     (if MaxWriteSize b < n then Inl (Panic ''MaxWriteSize'')
      else let b = b\<lparr>wb_right := wb_right b + n\<rparr> in
        if int (MaxWriteSize b) \<le> int (length (wb_array b)) - int (wb_right b) then Inr (None, b, w)
        else WriteBuffer_Flush w b)"

definition WriteBuffer_Seek :: "world \<Rightarrow> WriteBuffer \<Rightarrow> int \<Rightarrow> (error option \<times> WriteBuffer \<times> world) go" where
  "WriteBuffer_Seek w b p =
     (if wb_pos b + int (wb_right b) - int (wb_left b) = p then Inr (None, b, w)
      else go_bind (WriteBuffer_Flush w b) (\<lambda>(e, b, w).
        case e of Some e \<Rightarrow> Inr (Some e, b, w) | None \<Rightarrow> Inr (None, b\<lparr>wb_pos := p\<rparr>, w)))"

subsection \<open>Invariants\<close>

text \<open>
  \<open>virt\<close> is the content of the file once the pending bytes are written: what a client of the
  write buffer believes the file to be.
\<close>

definition pending :: "WriteBuffer \<Rightarrow> byte list" where
  "pending b = take (wb_right b) (wb_array b)"

definition virt :: "string \<Rightarrow> world \<Rightarrow> WriteBuffer \<Rightarrow> byte list" where
  "virt p w b =
     (if wb_right b = 0 then file_bytes w p
      else overlay (file_bytes w p) (nat (wb_pos b)) (pending b))"

definition own_handle :: "string \<Rightarrow> handle \<Rightarrow> bool" where
  "own_handle p h \<longleftrightarrow> h_path h = p \<and> h_open h \<and> \<not> h_append h"

definition wb_wf :: "string \<Rightarrow> WriteBuffer \<Rightarrow> bool" where
  "wb_wf p b \<longleftrightarrow>
     (\<exists>h. wb_W b = Some h \<and> own_handle p h \<and> (wpos b = - 1 \<or> wpos b = int (h_cur h))) \<and>
     wb_left b = 0 \<and> 0 \<le> wb_pos b \<and> MaxWriteSize b \<le> wb_BufferSize b \<and>
     (case wb_buf b of None \<Rightarrow> wb_right b = 0
      | Some bs \<Rightarrow> length bs = wb_BufferSize b \<and> wb_right b \<le> wb_BufferSize b)"

definition wb_room :: "WriteBuffer \<Rightarrow> bool" where
  "wb_room b \<longleftrightarrow> wb_right b + MaxWriteSize b \<le> wb_BufferSize b"

lemma pending_upd [simp]:
  "pending (b\<lparr>wb_W := h\<rparr>) = pending b" "pending (b\<lparr>wpos := n\<rparr>) = pending b"
  "pending (b\<lparr>wb_pos := q\<rparr>) = pending b"
  by (simp_all add: pending_def wb_array_def)

lemma Flush_seek_ok:
  assumes "wb_W b = Some h" "own_handle p h" "0 \<le> wb_pos b" "wpos b = - 1 \<or> wpos b = int (h_cur h)"
    "Flush_seek w b h = (b', h', e, w')"
  shows "own_handle p h' \<and> frame p w w' \<and> files w' = files w \<and>
    (case e of
       None \<Rightarrow> b' = b\<lparr>wb_W := Some h', wpos := wb_pos b\<rparr> \<and> int (h_cur h') = wb_pos b
     | Some _ \<Rightarrow> b' = b \<and> h' = h \<and> faults w \<noteq> [])"
proof (cases "wpos b = wb_pos b")
  case True
  then show ?thesis using assms by (auto simp: Flush_seek_def)
next
  case False
  obtain f w1 where nf: "next_fault w = (f, w1)" by (meson surj_pair)
  show ?thesis
    using assms False nf next_faultD(1,3)[OF nf] next_faultD(2)[OF nf, of p] by (cases f) (auto simp: Flush_seek_def os_Seek_def own_handle_def)
qed

lemma os_Write_ok:
  assumes "own_handle p h" "os_Write w h d = (h', n, e, w')"
  shows "own_handle p h' \<and> frame p w w' \<and>
    (case e of
       None \<Rightarrow> n = length d \<and> file_bytes w' p = overlay (file_bytes w p) (h_cur h) d \<and> h_cur h' = h_cur h + length d
     | Some _ \<Rightarrow> faults w \<noteq> [] \<and> (\<exists>k. file_bytes w' p = overlay (file_bytes w p) (h_cur h) (take k d)))"
proof -
  obtain f w1 where nf: "next_fault w = (f, w1)" by (meson surj_pair)
  have fr: "frame p w (w1\<lparr>files := (files w1)(p \<mapsto> c)\<rparr>)" for c
    using next_faultD(2)[OF nf, of p] by (simp add: frame_def)
  show ?thesis
  proof (cases f)
    case None
    then show ?thesis using assms nf fr next_faultD(1)[OF nf]
      by (auto simp: os_Write_def own_handle_def Let_def)
  next
    case (Some k)
    have "\<exists>k'. overlay c q (take k d) = overlay c q (take k' d)" for c q by blast
    with Some show ?thesis using assms nf fr next_faultD(1,3)[OF nf]
      by (auto simp: os_Write_def own_handle_def Let_def)
  qed
qed

text \<open>
  \<open>Flush\<close> under any faults: it returns, and the virtual content is unchanged. When it reports no
  error the file has caught up with it; when it fails, the same bytes stay pending at the same place.
\<close>

lemma Flush_ok:
  assumes wf: "wb_wf p b"
  shows "\<exists>e b' w'. WriteBuffer_Flush w b = Inr (e, b', w') \<and> wb_wf p b' \<and> frame p w w' \<and>
    virt p w' b' = virt p w b \<and> MaxWriteSize b' = MaxWriteSize b \<and> wb_BufferSize b' = wb_BufferSize b \<and>
    (case e of
       None \<Rightarrow> wb_right b' = 0 \<and> file_bytes w' p = virt p w b \<and> wb_pos b' = wb_pos b + int (wb_right b)
     | Some _ \<Rightarrow> wb_right b' = wb_right b \<and> wb_pos b' = wb_pos b \<and> pending b' = pending b \<and> faults w \<noteq> [])"
proof (cases "wb_right b = 0")
  case True
  then show ?thesis using wf by (auto simp: WriteBuffer_Flush_def wb_wf_def virt_def)
next
  case False
  obtain h where h: "wb_W b = Some h" "own_handle p h" "wpos b = - 1 \<or> wpos b = int (h_cur h)"
    and l: "wb_left b = 0" and pos: "0 \<le> wb_pos b" using wf by (auto simp: wb_wf_def)
  obtain bs where bs: "wb_buf b = Some bs" "length bs = wb_BufferSize b" "wb_right b \<le> wb_BufferSize b"
    using wf False by (auto simp: wb_wf_def split: option.splits)
  obtain b1 h1 e1 w1 where sk: "Flush_seek w b h = (b1, h1, e1, w1)" by (metis prod_cases4)
  note s = Flush_seek_ok[OF h(1,2) pos h(3) sk]
  show ?thesis
  proof (cases e1)
    case (Some e)
    then show ?thesis using s sk False h l wf
      by (auto simp: WriteBuffer_Flush_def virt_def file_bytes_def)
  next
    case None
    then have b1: "b1 = b\<lparr>wb_W := Some h1, wpos := wb_pos b\<rparr>" and cur: "int (h_cur h1) = wb_pos b"
      and w1: "own_handle p h1" "frame p w w1" "file_bytes w1 p = file_bytes w p"
      using s by (auto simp: file_bytes_def)
    obtain h2 n e2 w2 where wr: "os_Write w1 h1 (pending b) = (h2, n, e2, w2)" by (metis prod_cases4)
    note o = os_Write_ok[OF w1(1) wr]
    have fl: "WriteBuffer_Flush w b = (case e2 of
        Some e \<Rightarrow> Inr (Some e, b1\<lparr>wb_W := Some h2, wpos := - 1\<rparr>, w2)
      | None \<Rightarrow> if n \<noteq> wb_right b then Inl (Panic ''partial write'')
          else let q = wb_pos b + int (wb_right b) in
            Inr (None, b1\<lparr>wb_W := Some h2, wpos := q, wb_pos := q, wb_left := 0, wb_right := 0\<rparr>, w2))"
      using False h l bs sk None wr
      by (simp add: WriteBuffer_Flush_def b1 wb_array_def pending_def of_bytes_def sl_bytes_def slice_range_def
          split: option.splits)
    have fr: "frame p w w2" using w1(2) o frame_trans by blast
    have len: "length (pending b) = wb_right b" using bs by (simp add: pending_def wb_array_def)
    have curn: "h_cur h1 = nat (wb_pos b)" using cur by simp
    show ?thesis
    proof (cases e2)
      case (Some e)
      then obtain k where "file_bytes w2 p = overlay (file_bytes w p) (nat (wb_pos b)) (take k (pending b))"
        using o w1(3) curn by auto
      then have "virt p w2 (b1\<lparr>wb_W := Some h2, wpos := - 1\<rparr>) = virt p w b"
        using False overlay_prefix[of _ _ k "pending b"] by (simp add: virt_def b1)
      then show ?thesis using Some fl fr o wf bs w1(2) b1 l pos
        by (auto simp: wb_wf_def pending_def wb_array_def frame_def)
    next
      case None
      then show ?thesis using fl fr o wf bs b1 l pos False len w1(3) curn
        by (auto simp: wb_wf_def virt_def Let_def)
    qed
  qed
qed


subsection \<open>Writing through the buffer\<close>

lemma wb_Seek_ok:
  assumes wf: "wb_wf p b" and q: "0 \<le> q"
  shows "\<exists>e b' w'. WriteBuffer_Seek w b q = Inr (e, b', w') \<and> wb_wf p b' \<and> frame p w w' \<and>
    virt p w' b' = virt p w b \<and> MaxWriteSize b' = MaxWriteSize b \<and> wb_BufferSize b' = wb_BufferSize b \<and>
    (case e of
       None \<Rightarrow> wb_pos b' + int (wb_right b') = q \<and> (wb_room b \<longrightarrow> wb_room b')
     | Some _ \<Rightarrow> faults w \<noteq> [])"
proof (cases "wb_pos b + int (wb_right b) = q")
  case True
  then show ?thesis using wf by (auto simp: WriteBuffer_Seek_def wb_wf_def)
next
  case False
  obtain e b' w' where fl: "WriteBuffer_Flush w b = Inr (e, b', w')" and ok: "wb_wf p b'" "frame p w w'"
    "virt p w' b' = virt p w b" "MaxWriteSize b' = MaxWriteSize b" "wb_BufferSize b' = wb_BufferSize b"
    and r: "case e of None \<Rightarrow> wb_right b' = 0 \<and> file_bytes w' p = virt p w b \<and> wb_pos b' = wb_pos b + int (wb_right b)
     | Some _ \<Rightarrow> wb_right b' = wb_right b \<and> wb_pos b' = wb_pos b \<and> pending b' = pending b \<and> faults w \<noteq> []"
    using Flush_ok[OF wf, of w] by blast
  have "wb_left b = 0" using wf by (simp add: wb_wf_def)
  then show ?thesis
    using False fl ok r q
    by (cases e) (auto simp: WriteBuffer_Seek_def wb_wf_def virt_def wb_room_def split: option.splits)
qed

text \<open>
  Filling the slice that \<open>WriteBuffer()\<close> hands out with \<open>d\<close> and calling \<open>Write\<close> extends the pending
  bytes by \<open>d\<close>, whether or not the flush that a full buffer triggers succeeds.
\<close>

lemma wb_slice_ok:
  assumes wf: "wb_wf p b" and room: "wb_room b"
  obtains s b1 where "WriteBuffer_WriteBuffer b = Inr (s, b1)" "sl_len s = MaxWriteSize b" "sl_wf s"
    "length (sl_arr s) = wb_BufferSize b - wb_right b"
    "wb_wf p b1" "wb_room b1" "pending b1 = pending b" "wb_right b1 = wb_right b" "wb_pos b1 = wb_pos b"
    "MaxWriteSize b1 = MaxWriteSize b" "wb_BufferSize b1 = wb_BufferSize b" "length (wb_array b1) = wb_BufferSize b"
proof -
  define b1 where "b1 = (if wb_buf b = None then b\<lparr>wb_buf := Some (replicate (wb_BufferSize b) 0)\<rparr> else b)"
  define s where "s = \<lparr>sl_len = MaxWriteSize b, sl_arr = drop (wb_right b) (wb_array b1)\<rparr>"
  have "WriteBuffer_WriteBuffer b = Inr (s, b1)"
    using wf room
    by (auto simp: WriteBuffer_WriteBuffer_def b1_def s_def wb_wf_def wb_room_def wb_array_def slice_range_def
        of_bytes_def Let_def split: option.splits)
  then show ?thesis
    using wf room
    by (intro that[of s b1]) (auto simp: b1_def s_def wb_wf_def wb_room_def sl_wf_def wb_array_def pending_def
        split: option.splits)
qed

lemma wb_Write_ok:
  assumes wf: "wb_wf p b" and room: "wb_room b" and arr: "length (wb_array b) = wb_BufferSize b"
    and s: "length (sl_arr s) = wb_BufferSize b - wb_right b" and d: "take (MaxWriteSize b) (sl_arr s) = d"
    and pos: "0 < MaxWriteSize b"
  shows "\<exists>e b' w'. WriteBuffer_Write w (put_buf b s) (MaxWriteSize b) = Inr (e, b', w') \<and> wb_wf p b' \<and> frame p w w' \<and>
    virt p w' b' = overlay (virt p w b) (nat (wb_pos b) + wb_right b) d \<and>
    MaxWriteSize b' = MaxWriteSize b \<and> wb_BufferSize b' = wb_BufferSize b \<and>
    (case e of None \<Rightarrow> wb_room b' | Some _ \<Rightarrow> faults w \<noteq> [])"
proof -
  let ?m = "MaxWriteSize b"
  have put: "wb_array (b\<lparr>wb_buf := Some x, wb_right := r\<rparr>) = x" for x r by (simp add: wb_array_def)
  define b2 where "b2 = (put_buf b s)\<lparr>wb_right := wb_right b + ?m\<rparr>"
  have wf2: "wb_wf p b2" and arr2: "length (wb_array b2) = wb_BufferSize b"
    and keep: "MaxWriteSize b2 = ?m" "wb_BufferSize b2 = wb_BufferSize b" "wb_right b2 = wb_right b + ?m" "wb_pos b2 = wb_pos b"
    using wf room arr s by (auto simp: b2_def wb_wf_def wb_room_def put_buf_def wb_array_def split: option.splits)
  have lp: "length (pending b) = wb_right b" using room arr by (simp add: pending_def wb_room_def)
  have "pending b2 = pending b @ d"
    using room arr s d lp
    by (simp add: pending_def b2_def put_buf_def wb_room_def put)
  then have virt2: "virt p w b2 = overlay (virt p w b) (nat (wb_pos b) + wb_right b) d"
    using pos lp keep overlay_append[of _ "nat (wb_pos b)" "pending b" d]
    by (auto simp: virt_def)
  have wr: "WriteBuffer_Write w (put_buf b s) ?m =
      (if ?m + (wb_right b + ?m) \<le> wb_BufferSize b then Inr (None, b2, w) else WriteBuffer_Flush w b2)"
    using arr2 unfolding WriteBuffer_Write_def
    by (auto simp: b2_def put_buf_def wb_array_def)
  show ?thesis
  proof (cases "?m + (wb_right b + ?m) \<le> wb_BufferSize b")
    case True
    then show ?thesis using wr wf2 virt2 keep by (auto simp: wb_room_def)
  next
    case False
    then show ?thesis using wr Flush_ok[OF wf2, of w] virt2 keep wf2
      by (fastforce simp: wb_room_def wb_wf_def split: option.splits)
  qed
qed


subsection \<open>Reading through the buffer\<close>

text \<open>
  \<open>rb_wf\<close>: the cached bytes are those of the file at \<open>pos\<close>. \<open>synced\<close>: wherever a read of a record of
  \<open>rs\<close> bytes can start, \<open>rpos\<close> equal to it means that the handle is there; if there is a limit \<open>m\<close>, it can also
  mean that both are at or behind the \<open>m\<close>-th record, where a short read of \<open>m\<close> or more records has left them. Such a
  state does no harm to a read in front of the limit, nor to any read if the file still has just \<open>m\<close> records.
\<close>

definition rb_array :: "ReadBuffer \<Rightarrow> byte list" where
  "rb_array b = (case rb_buf b of None \<Rightarrow> [] | Some bs \<Rightarrow> bs)"

definition rb_wf :: "string \<Rightarrow> world \<Rightarrow> ReadBuffer \<Rightarrow> bool" where
  "rb_wf p w b \<longleftrightarrow>
     own_handle p (rb_R b) \<and> 0 < MaxReadSize b \<and> MaxReadSize b \<le> rb_BufferSize b \<and> 0 \<le> rb_pos b \<and>
     (rb_buf b = None \<or> length (rb_array b) = rb_BufferSize b) \<and>
     rb_left b \<le> rb_right b \<and> rb_right b \<le> length (rb_array b) \<and>
     (rb_left b < rb_right b \<longrightarrow>
        nat (rb_pos b) + (rb_right b - rb_left b) \<le> length (file_bytes w p) \<and>
        take (rb_right b - rb_left b) (drop (rb_left b) (rb_array b)) =
        take (rb_right b - rb_left b) (drop (nat (rb_pos b)) (file_bytes w p)))"

definition synced :: "nat option \<Rightarrow> nat \<Rightarrow> ReadBuffer \<Rightarrow> bool" where
  "synced lim rs b \<longleftrightarrow>
     rpos b = int (h_cur (rb_R b)) \<or> \<not> int rs dvd rpos b \<or> rpos b < 0 \<or>
     (\<exists>m. lim = Some m \<and> rs * m \<le> nat (rpos b) \<and> rs * m \<le> h_cur (rb_R b))"

definition may_read :: "nat option \<Rightarrow> nat \<Rightarrow> nat \<Rightarrow> bool" where
  "may_read lim l i \<longleftrightarrow> (case lim of None \<Rightarrow> True | Some m \<Rightarrow> i < m \<or> l = m)"

text \<open>Only if the size of a record divides that of the buffer does a read set a limit, the number of records in the file.\<close>

definition next_limit :: "nat \<Rightarrow> nat \<Rightarrow> nat option \<Rightarrow> nat \<Rightarrow> nat option" where
  "next_limit B rs lim l = (if lim = None \<and> rs dvd B then Some l else lim)"

definition limit_ok :: "nat option \<Rightarrow> nat \<Rightarrow> bool" where
  "limit_ok lim l \<longleftrightarrow> (case lim of None \<Rightarrow> True | Some m \<Rightarrow> m \<le> l)"

lemma synced_weaken: "synced lim rs b \<Longrightarrow> synced (next_limit B rs lim l) rs b"
  by (auto simp: synced_def next_limit_def)

lemma take_length_take: "take (length (take n xs)) xs = take n xs"
  by (cases "n \<le> length xs") auto

lemma take_drop_whole:
  "take n (drop i xs) = take n (drop j ys) \<Longrightarrow> m \<le> n \<Longrightarrow> take m (drop i xs) = take m (drop j ys)"
  by (metis min.absorb1 take_take)

lemma DoCache_seek_ok:
  assumes "rb_wf p w b" "synced lim rs b" "faults w = []" "rb_pos b = int (rs * k)" "0 < rs" "length (file_bytes w p) = rs * l" "may_read lim l k"
  obtains b' where "DoCache_seek w b = (b', None, w)" "rb_wf p w b'" "rb_pos b' = rb_pos b"
    "rb_buf b' = rb_buf b" "rb_BufferSize b' = rb_BufferSize b" "MaxReadSize b' = MaxReadSize b" "rpos b' = rb_pos b"
    "int (h_cur (rb_R b')) = rb_pos b \<or>
       length (file_bytes w p) \<le> nat (rb_pos b) \<and> length (file_bytes w p) \<le> h_cur (rb_R b')"
proof (cases "rpos b = rb_pos b")
  case True
  have n: "nat (rb_pos b) = rs * k" by (simp only: assms(4) nat_int)
  have "int rs dvd rpos b" using True assms(4) by simp
  moreover have "\<not> rpos b < 0" unfolding True assms(4) by (simp only: not_less of_nat_0_le_iff)
  ultimately have "int (h_cur (rb_R b)) = rb_pos b \<or> length (file_bytes w p) \<le> nat (rb_pos b) \<and> length (file_bytes w p) \<le> h_cur (rb_R b)"
    using assms(2,5-7) True unfolding synced_def n by (auto simp: may_read_def n)
  then show ?thesis using assms(1) True by (intro that[of b]) (auto simp: DoCache_seek_def)
next
  case False
  let ?b = "b\<lparr>rb_R := (rb_R b)\<lparr>h_cur := nat (rb_pos b)\<rparr>, rpos := rb_pos b\<rparr>"
  have "DoCache_seek w b = (?b, None, w)"
    using False assms(1,3) by (auto simp: DoCache_seek_def os_Seek_def rb_wf_def own_handle_def next_fault_none)
  then show ?thesis
    using assms(1) by (intro that[of ?b]) (auto simp: rb_wf_def own_handle_def rb_array_def)
qed

lemma DoCache_ok:
  assumes wf: "rb_wf p w b" and sy: "synced lim rs b" and nf: "faults w = []" and k: "rb_pos b = int (rs * k)" "0 < rs"
    and l: "length (file_bytes w p) = rs * l" "may_read lim l k"
  obtains e b' where "DoCache w b = (b', e, w)" "rb_wf p w b'" "rb_pos b' = rb_pos b" "rb_buf b' \<noteq> None"
    "rb_BufferSize b' = rb_BufferSize b" "MaxReadSize b' = MaxReadSize b" "rb_left b' = 0"
    "if nat (rb_pos b) < length (file_bytes w p)
     then e = None \<and> rb_right b' = min (rb_BufferSize b) (length (file_bytes w p) - nat (rb_pos b)) \<and>
       rpos b' = rb_pos b + int (rb_BufferSize b) \<and> int (h_cur (rb_R b')) = rb_pos b + int (rb_right b')
     else e = Some EOF \<and> rpos b' = - 1 \<and> rb_right b' = 0"
proof -
  let ?c = "file_bytes w p" and ?n = "nat (rb_pos b)"
  obtain b1 where sk: "DoCache_seek w b = (b1, None, w)" "rb_wf p w b1" "rb_pos b1 = rb_pos b"
    "rb_buf b1 = rb_buf b" "rb_BufferSize b1 = rb_BufferSize b" "MaxReadSize b1 = MaxReadSize b" "rpos b1 = rb_pos b"
    and cur: "int (h_cur (rb_R b1)) = rb_pos b \<or> length ?c \<le> ?n \<and> length ?c \<le> h_cur (rb_R b1)"
    using DoCache_seek_ok[OF wf sy nf k l] by metis
  define buf where "buf = (case rb_buf b1 of None \<Rightarrow> replicate (rb_BufferSize b1) 0 | Some bs \<Rightarrow> bs)"
  have buf: "length buf = rb_BufferSize b" and pos: "0 \<le> rb_pos b" "0 < rb_BufferSize b"
    using sk wf by (auto simp: buf_def rb_wf_def rb_array_def split: option.splits)
  define d where "d = take (length buf) (drop (h_cur (rb_R b1)) ?c)"
  have h: "h_open (rb_R b1)" "h_path (rb_R b1) = p" using sk(2) by (auto simp: rb_wf_def own_handle_def)
  show ?thesis
  proof (cases "?n < length ?c")
    case True
    then have c1: "h_cur (rb_R b1) = ?n" using cur by auto
    then have dne: "d \<noteq> []" "length d = min (rb_BufferSize b) (length ?c - ?n)"
      using True pos buf by (auto simp: d_def)
    let ?b = "b1\<lparr>rb_left := 0, rb_right := length d, rb_R := (rb_R b1)\<lparr>h_cur := ?n + length d\<rparr>,
      rb_buf := Some (d @ drop (length d) buf), rpos := rb_pos b + int (rb_BufferSize b)\<rparr>"
    have "os_Read w (rb_R b1) (length buf) = ((rb_R b1)\<lparr>h_cur := ?n + length d\<rparr>, d, None, w)"
      using h True nf c1 by (auto simp: os_Read_def next_fault_none Let_def d_def)
    then have "DoCache w b = (?b, None, w)"
      by (simp add: DoCache_def sk(1,5,7) Let_def flip: buf_def)
    moreover have "rb_wf p w ?b"
    proof -
      have "take (length d) (drop ?n ?c) = d"
        using buf by (simp add: d_def c1 take_length_take del: length_take)
      moreover have "?n + length d \<le> length ?c" "length d \<le> length buf"
        using dne buf True by auto
      ultimately show ?thesis using sk(2,3,5,6) wf buf True
        by (simp add: rb_wf_def own_handle_def rb_array_def)
    qed
    ultimately show ?thesis using True sk dne pos by (intro that[of ?b None]) auto
  next
    case False
    then have "drop (h_cur (rb_R b1)) ?c = []" using cur pos by auto
    then have dn: "d = []" by (simp add: d_def)
    let ?b = "b1\<lparr>rb_left := 0, rb_right := 0, rb_buf := Some buf, rpos := - 1\<rparr>"
    have "os_Read w (rb_R b1) (length buf) = (rb_R b1, [], Some EOF, w)"
      using h dn nf pos buf by (auto simp: os_Read_def next_fault_none Let_def d_def)
    then have "DoCache w b = (?b, Some EOF, w)"
      by (simp add: DoCache_def sk(1,5,7) Let_def flip: buf_def)
    moreover have "rb_wf p w ?b"
      using sk(2,3,5) buf by (auto simp: rb_wf_def rb_array_def)
    ultimately show ?thesis using False sk by (intro that[of ?b "Some EOF"]) auto
  qed
qed

lemma synced_after_cache:
  assumes k: "rb_pos b' = int (rs * k)" and r: "rb_right b' = min (rb_BufferSize b') (length c - rs * k)"
    and rp: "rpos b' = rb_pos b' + int (rb_BufferSize b')" "int (h_cur (rb_R b')) = rb_pos b' + int (rb_right b')"
    and n: "rs * k < length c" and l: "length c = rs * l" "limit_ok lim l"
  shows "synced (next_limit (rb_BufferSize b') rs lim l) rs b'"
proof (cases "rb_right b' = rb_BufferSize b'")
  case True
  then show ?thesis using rp by (simp add: synced_def)
next
  case False
  then have "rb_right b' = length c - rs * k" "length c - rs * k \<le> rb_BufferSize b'" using r by auto
  then have len: "rs * l \<le> nat (rpos b')" "rs * l \<le> h_cur (rb_R b')" using rp k n l(1) by linarith+
  show ?thesis
  proof (cases "rs dvd rb_BufferSize b'")
    case False
    have "int rs dvd rpos b' \<longleftrightarrow> rs dvd rb_BufferSize b'"
      unfolding rp k by (simp add: dvd_add_right_iff)
    with False show ?thesis by (simp add: synced_def)
  next
    case True
    show ?thesis
    proof (cases lim)
      case None
      then show ?thesis using len True by (simp add: synced_def next_limit_def)
    next
      case (Some m)
      then have "rs * m \<le> rs * l" using l(2) by (simp add: limit_ok_def)
      then have "rs * m \<le> nat (rpos b')" "rs * m \<le> h_cur (rb_R b')" using len by linarith+
      then show ?thesis using Some by (simp add: synced_def next_limit_def)
    qed
  qed
qed

lemma rb_Read_ok:
  assumes wf: "rb_wf p w b" and sy: "synced lim rs b" and nf: "faults w = []" and rs: "MaxReadSize b = rs"
    and k: "rb_pos b = int (rs * k)" and l: "length (file_bytes w p) = rs * l"
    and may: "may_read lim l k" and lim: "limit_ok lim l"
  obtains b' where
    "ReadBuffer_Read w b rs =
       Inr ((if k < l then (take rs (drop (rs * k) (file_bytes w p)), None) else ([], Some EOF)), b', w)"
    "rb_wf p w b'" "synced (next_limit (rb_BufferSize b) rs lim l) rs b'" "MaxReadSize b' = rs" "rb_BufferSize b' = rb_BufferSize b"
proof -
  note result = that
  let ?lim = "next_limit (rb_BufferSize b) rs lim l"
  let ?c = "file_bytes w p"
  have n: "nat (rb_pos b) = rs * k" by (simp only: k nat_int)
  have pos: "0 < rs" using wf rs by (simp add: rb_wf_def)
  have lt: "rs * k < length ?c \<longleftrightarrow> k < l" using l pos by simp
  have room: "rs \<le> length ?c - rs * k" if "k < l"
  proof -
    from that have "rs * (k + 1) \<le> rs * l" by (intro mult_le_mono2) simp
    then show ?thesis using l by (simp add: algebra_simps)
  qed
  have deliver: thesis
    if "rb_wf p w b1" "synced ?lim rs b1" "MaxReadSize b1 = rs" "rb_BufferSize b1 = rb_BufferSize b"
      "rb_pos b1 = rb_pos b" "rs \<le> rb_right b1 - rb_left b1" "rb_buf b1 \<noteq> None"
      "ReadBuffer_Read w b rs = go_bind (rb_slice b1 rs) (\<lambda>ret.
         Inr ((ret, None), b1\<lparr>rb_pos := rb_pos b1 + int rs, rb_left := rb_left b1 + rs\<rparr>, w))" for b1
  proof -
    let ?b = "b1\<lparr>rb_pos := rb_pos b1 + int rs, rb_left := rb_left b1 + rs\<rparr>"
    let ?m = "rb_right b1 - rb_left b1"
    have cache: "take ?m (drop (rb_left b1) (rb_array b1)) = take ?m (drop (rs * k) ?c)" "rs * k + ?m \<le> length ?c"
      "rb_right b1 \<le> length (rb_array b1)" "rb_left b1 \<le> rb_right b1"
      using that pos n by (auto simp: rb_wf_def)
    then have "rb_slice b1 rs = Inr (take rs (drop (rs * k) ?c))"
      using that(6,7) take_drop_whole[OF cache(1) that(6)]
      by (auto simp: rb_slice_def rb_array_def split: option.splits)
    moreover have "rb_wf p w ?b"
    proof -
      have "nat (rb_pos b + int rs) = rs * k + rs" using n pos k by linarith
      moreover have "take (?m - rs) (drop (rb_left b1 + rs) (rb_array b1)) = take (?m - rs) (drop (rs * k + rs) ?c)"
        using arg_cong[OF cache(1), of "drop rs"] by (simp add: drop_take add.commute)
      moreover have "rb_left b1 + rs \<le> rb_right b1" "rs * k + rs + (?m - rs) \<le> length ?c"
        using that(6) cache(2,4) pos by auto
      ultimately show ?thesis
        using that(1,5) unfolding rb_wf_def by (simp add: rb_array_def diff_diff_left[symmetric] del: diff_diff_left)
    qed
    moreover have "k < l" using cache(2) that(6) pos lt by linarith
    moreover have "synced ?lim rs ?b" using that(2) by (simp add: synced_def)
    ultimately show thesis using that by (intro result[of ?b]) auto
  qed
  show thesis
  proof (cases "rb_right b - rb_left b < rs")
    case False
    then have "rb_buf b \<noteq> None" using wf pos by (cases "rb_buf b") (auto simp: rb_wf_def rb_array_def)
    then show thesis using False wf synced_weaken[OF sy] rs by (intro deliver[of b]) (auto simp: ReadBuffer_Read_def)
  next
    case True
    obtain e b1 where dc: "DoCache w b = (b1, e, w)" "rb_wf p w b1" "rb_pos b1 = rb_pos b" "rb_buf b1 \<noteq> None"
      "rb_BufferSize b1 = rb_BufferSize b" "MaxReadSize b1 = MaxReadSize b" "rb_left b1 = 0"
      and r: "if rs * k < length ?c
       then e = None \<and> rb_right b1 = min (rb_BufferSize b) (length ?c - rs * k) \<and>
         rpos b1 = rb_pos b + int (rb_BufferSize b) \<and> int (h_cur (rb_R b1)) = rb_pos b + int (rb_right b1)
       else e = Some EOF \<and> rpos b1 = - 1 \<and> rb_right b1 = 0"
      using DoCache_ok[OF wf sy nf k pos l may] n by metis
    show thesis
    proof (cases "k < l")
      case k_lt: True
      then have "synced (next_limit (rb_BufferSize b1) rs lim l) rs b1"
        using dc r lt k l lim by (intro synced_after_cache[of b1 rs k ?c]) auto
      then have "synced ?lim rs b1" using dc(5) by simp
      moreover have "rs \<le> rb_right b1" using r k_lt lt room wf rs by (simp add: rb_wf_def)
      ultimately show thesis
        using dc r lt k_lt rs True by (intro deliver[of b1]) (auto simp: ReadBuffer_Read_def)
    next
      case False
      then show thesis
        using dc r lt rs True by (intro result[of b1]) (auto simp: ReadBuffer_Read_def synced_def)
    qed
  qed
qed

lemma rb_Seek_ok:
  assumes "rb_wf p w b" "synced lim rs b" "0 \<le> q"
  shows "rb_wf p w (ReadBuffer_Seek b q)" "synced lim rs (ReadBuffer_Seek b q)" "rb_pos (ReadBuffer_Seek b q) = q"
    "MaxReadSize (ReadBuffer_Seek b q) = MaxReadSize b" "rb_BufferSize (ReadBuffer_Seek b q) = rb_BufferSize b"
  using assms by (auto simp: ReadBuffer_Seek_def rb_wf_def synced_def rb_array_def)

lemma DropCache_ok:
  assumes "rb_wf p w b" "synced lim rs b"
  shows "rb_wf p w' (DropCache b)" "synced lim rs (DropCache b)"
    "MaxReadSize (DropCache b) = MaxReadSize b" "rb_BufferSize (DropCache b) = rb_BufferSize b"
  using assms by (auto simp: DropCache_def rb_wf_def synced_def rb_array_def)

subsection \<open>Properties\<close>

text \<open>
  C38. \<open>WriteBuffer.Flush\<close> never loses buffered bytes, whatever I/O fails and however far it got: the
  file with the pending bytes laid over it stays the same, success writes all of them and empties
  the buffer, and a failure keeps the same bytes pending for the same place, so that a later
  flush that succeeds completes the write.
\<close>

theorem Flush_loses_nothing:
  assumes "wb_wf p b" "wb_left b \<noteq> wb_right b"
  shows "\<exists>e b' w'. WriteBuffer_Flush w b = Inr (e, b', w') \<and> wb_wf p b' \<and>
    (e = None \<longrightarrow> file_bytes w' p = overlay (file_bytes w p) (nat (wb_pos b)) (pending b) \<and> wb_left b' = wb_right b') \<and>
    (e \<noteq> None \<longrightarrow> BufferedRange b' = BufferedRange b \<and> pending b' = pending b \<and>
       (\<forall>e2 b2 w2. WriteBuffer_Flush w' b' = Inr (e2, b2, w2) \<longrightarrow> e2 = None \<longrightarrow>
          file_bytes w2 p = overlay (file_bytes w p) (nat (wb_pos b)) (pending b)))"
proof -
  obtain e b' w' where fl: "WriteBuffer_Flush w b = Inr (e, b', w')" and ok: "wb_wf p b'"
    "virt p w' b' = virt p w b" and r: "case e of
       None \<Rightarrow> wb_right b' = 0 \<and> file_bytes w' p = virt p w b \<and> wb_pos b' = wb_pos b + int (wb_right b)
     | Some _ \<Rightarrow> wb_right b' = wb_right b \<and> wb_pos b' = wb_pos b \<and> pending b' = pending b \<and> faults w \<noteq> []"
    using Flush_ok[OF assms(1), of w] by blast
  have v: "virt p w b = overlay (file_bytes w p) (nat (wb_pos b)) (pending b)" and l: "wb_left b = 0" "wb_left b' = 0"
    using assms ok by (auto simp: virt_def wb_wf_def)
  have again: "file_bytes w2 p = virt p w b" if "WriteBuffer_Flush w' b' = Inr (None, b2, w2)" for b2 w2
    using that Flush_ok[OF ok(1), of w'] ok(2) by auto
  show ?thesis
    using fl ok r v l again by (cases e) (auto simp: BufferedRange_def)
qed

definition sample_wb :: WriteBuffer where
  "sample_wb = (new_WriteBuffer \<lparr>h_path = ''f'', h_cur = 0, h_append = False, h_open = True\<rparr> 2 4)
     \<lparr>wb_buf := Some [7, 8, 0, 0], wb_pos := 3, wb_right := 2\<rparr>"

theorem Flush_loses_nothing_witness:
  "\<exists>b' w'. WriteBuffer_Flush \<lparr>files = [''f'' \<mapsto> [1]], faults = [None, Some 1]\<rparr> sample_wb = Inr (Some EIO, b', w') \<and>
     BufferedRange b' = (3, 5) \<and> pending b' = [7, 8]"
proof -
  have "wb_wf ''f'' sample_wb" "wb_left sample_wb \<noteq> wb_right sample_wb"
    by (simp_all add: sample_wb_def new_WriteBuffer_def zero_WriteBuffer_def wb_wf_def own_handle_def)
  from Flush_loses_nothing[OF this, of "\<lparr>files = [''f'' \<mapsto> [1]], faults = [None, Some 1]\<rparr>"]
  obtain e b' w' where fl: "WriteBuffer_Flush \<lparr>files = [''f'' \<mapsto> [1]], faults = [None, Some 1]\<rparr> sample_wb = Inr (e, b', w')"
    and r: "e \<noteq> None \<longrightarrow> BufferedRange b' = BufferedRange sample_wb \<and> pending b' = pending sample_wb" by auto
  from fl have "e = Some EIO"
    by (auto simp: sample_wb_def new_WriteBuffer_def zero_WriteBuffer_def WriteBuffer_Flush_def Flush_seek_def os_Seek_def
        next_fault_def os_Write_def slice_range_def of_bytes_def wb_array_def Let_def)
  with fl r show ?thesis
    by (simp add: sample_wb_def BufferedRange_def pending_def wb_array_def new_WriteBuffer_def zero_WriteBuffer_def)
qed

text \<open>
  \<open>ReadBuffer\<close> returns the wrong bytes after the file has grown: \<open>DoCache\<close> advances \<open>rpos\<close> by
  the buffer size and not by the bytes read. When a first read meets a file of \<open>l\<close> records, fewer
  than the \<open>m\<close> that fill the buffer, and records are then appended, reading record \<open>m\<close> skips the
  seek and returns record \<open>l\<close>.
\<close>

theorem ReadBuffer_misreads_after_growth:
  assumes h: "own_handle p h" "h_cur h = 0" and nf: "faults w = []" "faults w2 = []"
    and c: "file_bytes w p = c" "length c = rs * l" and c2: "file_bytes w2 p = c @ c'" "rs * (m + 1) \<le> length (c @ c')"
    and l: "0 < l" "l < m" and rs: "0 < rs"
  shows "\<exists>b1 b2. ReadBuffer_Read w (new_ReadBuffer h rs (rs * m)) rs = Inr ((take rs c, None), b1, w) \<and>
    ReadBuffer_Read w2 (ReadBuffer_Seek (DropCache b1) (int (rs * m))) rs =
      Inr ((take rs (drop (rs * l) (c @ c')), None), b2, w2)"
proof -
  have m: "rs \<le> rs * l" "rs * l < rs * m" using l rs by auto
  let ?b1 = "(new_ReadBuffer h rs (rs * m))\<lparr>rb_R := h\<lparr>h_cur := rs * l\<rparr>, rb_buf := Some (c @ drop (rs * l) (replicate (rs * m) 0)),
    rb_right := rs * l, rpos := int (rs * m), rb_pos := int rs, rb_left := rs\<rparr>"
  have "c \<noteq> []" using c l rs by auto
  then have r1: "ReadBuffer_Read w (new_ReadBuffer h rs (rs * m)) rs = Inr ((take rs c, None), ?b1, w)"
    using h nf c l rs m
    by (simp add: ReadBuffer_Read_def new_ReadBuffer_def DoCache_def DoCache_seek_def os_Read_def next_fault_none
        own_handle_def rb_slice_def Let_def)
  have dc: "drop (rs * l) (c @ c') = c'" using c by simp
  let ?d = "take (rs * m) c'"
  have "rs * m + rs \<le> rs * l + length c'" using c2(2) c(2) by (simp add: algebra_simps)
  then have "rs \<le> length c'" using m by linarith
  then have d: "rs \<le> length ?d" "length ?d \<le> rs * m" "?d \<noteq> []" using m rs by auto
  define b where "b = ReadBuffer_Seek (DropCache ?b1) (int (rs * m))"
  have b: "rb_left b = 0" "rb_right b = 0" "rpos b = rb_pos b" "MaxReadSize b = rs" "rb_R b = h\<lparr>h_cur := rs * l\<rparr>"
    "rb_buf b = Some (c @ drop (rs * l) (replicate (rs * m) 0))"
    using m by (auto simp: b_def ReadBuffer_Seek_def DropCache_def new_ReadBuffer_def)
  have "os_Read w2 (rb_R b) (rs * m) = (h\<lparr>h_cur := rs * l + length ?d\<rparr>, ?d, None, w2)"
    using h nf(2) c2(1) d(3) c(2) by (simp add: os_Read_def own_handle_def b next_fault_none Let_def)
  then obtain b2 where dcache: "DoCache w2 b = (b2, None, w2)" "rb_left b2 = 0" "rb_buf b2 = Some (?d @ drop (length ?d) (c @ drop (rs * l) (replicate (rs * m) 0)))"
    using b c m by (simp add: DoCache_def DoCache_seek_def Let_def)
  have "rb_slice b2 rs = Inr (take rs c')"
    using d m unfolding rb_slice_def dcache by (simp add: min_def)
  then have "\<exists>b3. ReadBuffer_Read w2 b rs = Inr ((take rs c', None), b3, w2)"
    using b rs dcache by (simp add: ReadBuffer_Read_def)
  then show ?thesis using r1 dc unfolding b_def by auto
qed

theorem ReadBuffer_misreads_after_growth_witness:
  "\<exists>b1 b2. ReadBuffer_Read \<lparr>files = [''f'' \<mapsto> [1, 2]], faults = []\<rparr>
       (new_ReadBuffer \<lparr>h_path = ''f'', h_cur = 0, h_append = False, h_open = True\<rparr> 1 3) 1 =
       Inr (([1], None), b1, \<lparr>files = [''f'' \<mapsto> [1, 2]], faults = []\<rparr>) \<and>
     ReadBuffer_Read \<lparr>files = [''f'' \<mapsto> [1, 2, 3, 4, 5]], faults = []\<rparr> (ReadBuffer_Seek (DropCache b1) 3) 1 =
       Inr (([3], None), b2, \<lparr>files = [''f'' \<mapsto> [1, 2, 3, 4, 5]], faults = []\<rparr>)"
  using ReadBuffer_misreads_after_growth
    [of "''f''" "\<lparr>h_path = ''f'', h_cur = 0, h_append = False, h_open = True\<rparr>" "\<lparr>files = [''f'' \<mapsto> [1, 2]], faults = []\<rparr>"
      "\<lparr>files = [''f'' \<mapsto> [1, 2, 3, 4, 5]], faults = []\<rparr>" "[1, 2]" 1 2 "[3, 4, 5]" 3]
  by (simp add: own_handle_def file_bytes_def)

end
