(* ===== verification/Store.thy ===== *)
theory Store
  imports Buffer Codec Machines
begin

section \<open>Store: files of fixed-size records (\<open>tracer/storage/store.go\<close>)\<close>

text \<open>
  A \<open>Store\<close> keeps records of \<open>RecordSize\<close> bytes in one file behind a read and a write buffer. The
  mutex is a flag: locking it twice from the same goroutine is the fault \<open>Deadlock\<close>. \<open>st_rb\<close> is
  \<open>None\<close> until \<open>Open\<close> has set the read buffer (its handle is nil before that).
\<close>

type_synonym EncodeFn = "slice \<Rightarrow> (slice \<times> nat) go"
type_synonym 'a DecodeFn = "slice \<Rightarrow> 'a go"

record Store =
  st_File :: string
  RecordSize :: nat
  st_ReadOnly :: bool
  st_locked :: bool
  st_closed :: bool
  st_rb :: "ReadBuffer option"
  st_wb :: WriteBuffer
  st_records :: int

definition new_Store :: "string \<Rightarrow> nat \<Rightarrow> bool \<Rightarrow> Store" where
  "new_Store f n ro =
     \<lparr>st_File = f, RecordSize = n, st_ReadOnly = ro, st_locked = False, st_closed = False, st_rb = None,
      st_wb = zero_WriteBuffer, st_records = 0\<rparr>"

subsection \<open>Locking\<close>

definition Store_Lock :: "Store \<Rightarrow> Store go" where
  "Store_Lock s = (if st_locked s then Inl Deadlock else Inr (s\<lparr>st_locked := True\<rparr>))"

definition Store_Unlock :: "Store \<Rightarrow> Store go" where
  "Store_Unlock s =
     (if st_locked s then Inr (s\<lparr>st_locked := False\<rparr>) else Inl (Panic ''unlock of unlocked mutex''))"

text \<open>\<open>m.Lock(); defer m.Unlock()\<close> around a method body.\<close>

definition with_lock :: "(world \<Rightarrow> Store \<Rightarrow> ('r \<times> Store \<times> world) go) \<Rightarrow> world \<Rightarrow> Store \<Rightarrow> ('r \<times> Store \<times> world) go" where
  "with_lock f w s =
     go_bind (Store_Lock s) (\<lambda>s.
     go_bind (f w s) (\<lambda>(r, s, w).
     go_bind (Store_Unlock s) (\<lambda>s. Inr (r, s, w))))"

subsection \<open>Opening\<close>

definition bufsize :: "nat \<Rightarrow> nat" where
  "bufsize rs = (if 100 * rs < 4096 then 4096 else 100 * rs)"

definition Open_writer :: "world \<Rightarrow> Store \<Rightarrow> error option \<times> Store \<times> world" where
  "Open_writer w s =
     (if st_ReadOnly s then (None, s, w)
      else case OpenWriteOnly w (st_File s) of
             (Some h, _, w) \<Rightarrow>
               (None, s\<lparr>st_wb := new_WriteBuffer h (RecordSize s) (bufsize (RecordSize s))\<rparr>, w)
           | (None, e, w) \<Rightarrow> (e, s, w))"

definition Open_reader :: "world \<Rightarrow> Store \<Rightarrow> error option \<times> Store \<times> world" where
  "Open_reader w s =
     (case OpenReadOnly w (st_File s) of
        (Some h, _, w) \<Rightarrow>
          (None, s\<lparr>st_rb := Some (new_ReadBuffer h (RecordSize s) (bufsize (RecordSize s)))\<rparr>, w)
      | (None, e, w) \<Rightarrow> (e, s, w))"

definition Store_Open_body :: "world \<Rightarrow> Store \<Rightarrow> (error option \<times> Store \<times> world) go" where
  "Store_Open_body w s =
     (if RecordSize s = 0 then Inl (Panic ''invalid record size'')
      else let s = s\<lparr>st_closed := False\<rparr> in
        case Open_writer w s of
          (Some e, s, w) \<Rightarrow> Inr (Some e, s, w)
        | (None, s, w) \<Rightarrow>
            (case Open_reader w s of
               (Some e, s, w) \<Rightarrow> Inr (Some e, s, w)
             | (None, s, w) \<Rightarrow>
                 (case File_Size w (st_File s) of
                    (n, Some e) \<Rightarrow> Inr (Some e, s, w)
                  | (n, None) \<Rightarrow> Inr (None, s\<lparr>st_records := int n div int (RecordSize s)\<rparr>, w))))"

definition Store_Open :: "world \<Rightarrow> Store \<Rightarrow> (error option \<times> Store \<times> world) go" where
  "Store_Open = with_lock Store_Open_body"

subsection \<open>Reading\<close>

text \<open>
  \<open>decode\<close> is called with the bytes of the record when there is no error; the result \<open>Inl\<close> is the
  Go error, \<open>Inr\<close> what \<open>decode\<close> made of the bytes.
\<close>

definition ReadNolock :: "int \<Rightarrow> 'a DecodeFn \<Rightarrow> world \<Rightarrow> Store \<Rightarrow> ((error + 'a) \<times> Store \<times> world) go" where
  "ReadNolock idx decode w s =
     (let p = int (RecordSize s) * idx in
      go_bind (WriteBuffer_Flush w (st_wb s)) (\<lambda>(e, wb, w).
      let s = s\<lparr>st_wb := wb\<rparr> in
      case e of
        Some e \<Rightarrow> Inr (Inl e, s, w)
      | None \<Rightarrow>
          (case st_rb s of
             None \<Rightarrow> Inl (Panic ''MaxReadSize'')
           | Some rb \<Rightarrow>
               go_bind (ReadBuffer_Read w (ReadBuffer_Seek rb p) (RecordSize s)) (\<lambda>((buf, e), rb, w).
               let s = s\<lparr>st_rb := Some rb\<rparr> in
               case e of
                 Some e \<Rightarrow> Inr (Inl e, s, w)
               | None \<Rightarrow> go_bind (decode (of_bytes buf)) (\<lambda>x. Inr (Inr x, s, w))))))"

definition Store_Read :: "int \<Rightarrow> 'a DecodeFn \<Rightarrow> world \<Rightarrow> Store \<Rightarrow> ((error + 'a) \<times> Store \<times> world) go" where
  "Store_Read idx decode = with_lock (ReadNolock idx decode)"

subsection \<open>Writing\<close>

definition fillZero :: "slice \<Rightarrow> slice" where
  "fillZero b = overwrite b (replicate (sl_len b) 0)"

text \<open>\<open>n := encode(buf); fillZero(buf[n:])\<close>\<close>

definition encode_padded :: "EncodeFn \<Rightarrow> slice \<Rightarrow> slice go" where
  "encode_padded encode b =
     go_bind (encode b) (\<lambda>(b, n).
     go_bind (within (\<lambda>sub. Inr (fillZero sub, 0)) (b, n)) (\<lambda>(b, _). Inr b))"

definition WriteNolock :: "int \<Rightarrow> EncodeFn \<Rightarrow> world \<Rightarrow> Store \<Rightarrow> (error option \<times> Store \<times> world) go" where
  "WriteNolock idx encode w s =
     (if st_closed s then Inr (Some ErrClosed, s, w)
      else if st_ReadOnly s then Inr (Some ErrReadOnly, s, w)
      else let s = s\<lparr>st_rb := map_option DropCache (st_rb s)\<rparr>;
               p = int (RecordSize s) * idx
        in go_bind (WriteBuffer_Seek w (st_wb s) p) (\<lambda>(e, wb, w).
           let s = s\<lparr>st_wb := wb\<rparr> in
           case e of
             Some e \<Rightarrow> Inr (Some e, s, w)
           | None \<Rightarrow>
               go_bind (WriteBuffer_WriteBuffer (st_wb s)) (\<lambda>(buf, wb).
               go_bind (encode_padded encode buf) (\<lambda>buf.
               go_bind (WriteBuffer_Write w (put_buf wb buf) (RecordSize s)) (\<lambda>(e, wb, w).
               let s = s\<lparr>st_wb := wb\<rparr> in
               case e of
                 Some e \<Rightarrow> Inr (Some e, s, w)
               | None \<Rightarrow>
                   Inr (None, (if st_records s < idx + 1 then s\<lparr>st_records := idx + 1\<rparr> else s), w))))))"

text \<open>\<open>Write\<close> returns \<open>os.ErrClosed\<close> before it gets to \<open>WriteNolock\<close>.\<close>

definition Store_Write :: "int \<Rightarrow> EncodeFn \<Rightarrow> world \<Rightarrow> Store \<Rightarrow> (error option \<times> Store \<times> world) go" where
  "Store_Write idx encode = with_lock (\<lambda>w s. Inr (Some ErrClosed, s, w))"

definition AppendNolock :: "EncodeFn \<Rightarrow> world \<Rightarrow> Store \<Rightarrow> (error option \<times> Store \<times> world) go" where
  "AppendNolock encode w s = WriteNolock (st_records s) encode w s"

definition Store_Append :: "EncodeFn \<Rightarrow> world \<Rightarrow> Store \<Rightarrow> (error option \<times> Store \<times> world) go" where
  "Store_Append encode = with_lock (\<lambda>w s. WriteNolock (st_records s) encode w s)"

definition FlushNolock :: "world \<Rightarrow> Store \<Rightarrow> (error option \<times> Store \<times> world) go" where
  "FlushNolock w s = go_bind (WriteBuffer_Flush w (st_wb s)) (\<lambda>(e, wb, w). Inr (e, s\<lparr>st_wb := wb\<rparr>, w))"

definition Store_Flush :: "world \<Rightarrow> Store \<Rightarrow> (error option \<times> Store \<times> world) go" where
  "Store_Flush = with_lock FlushNolock"

definition Records :: "Store \<Rightarrow> int" where
  "Records s = st_records s"

subsection \<open>Closing\<close>

definition Close_writer :: "world \<Rightarrow> Store \<Rightarrow> (error option \<times> Store \<times> world) go" where
  "Close_writer w s =
     (if st_ReadOnly s then Inr (None, s, w)
      else go_bind (WriteBuffer_Flush w (st_wb s)) (\<lambda>(e, wb, w).
        let s = s\<lparr>st_wb := wb\<rparr> in
        case e of
          Some e \<Rightarrow> Inr (Some e, s, w)
        | None \<Rightarrow>
            (case wb_W wb of
               None \<Rightarrow> Inl NilDereference
             | Some h \<Rightarrow>
                 (case os_Close w h of
                    (h, e, w) \<Rightarrow> Inr (e, s\<lparr>st_wb := wb\<lparr>wb_W := Some h\<rparr>\<rparr>, w)))))"

definition Store_Close_body :: "world \<Rightarrow> Store \<Rightarrow> (error option \<times> Store \<times> world) go" where
  "Store_Close_body w s =
     (if st_closed s then Inr (None, s, w)
      else let s = s\<lparr>st_closed := True\<rparr> in
        case st_rb s of
          None \<Rightarrow> Inl NilDereference
        | Some rb \<Rightarrow>
            (case os_Close w (rb_R rb) of
               (h, e, w) \<Rightarrow>
                 let s = s\<lparr>st_rb := Some (rb\<lparr>rb_R := h\<rparr>)\<rparr> in
                 (case e of
                    Some e \<Rightarrow> Inr (Some e, s, w)
                  | None \<Rightarrow> Close_writer w s)))"

definition Store_Close :: "world \<Rightarrow> Store \<Rightarrow> (error option \<times> Store \<times> world) go" where
  "Store_Close = with_lock Store_Close_body"

subsection \<open>The specification: an array of records\<close>

definition records_of :: "nat \<Rightarrow> byte list \<Rightarrow> byte list list" where
  "records_of rs c = map (\<lambda>i. take rs (drop (rs * i) c)) [0..<length c div rs]"

definition pad :: "nat \<Rightarrow> byte list \<Rightarrow> byte list" where
  "pad rs d = d @ replicate (rs - length d) 0"

definition array_write :: "nat \<Rightarrow> byte list list \<Rightarrow> nat \<Rightarrow> byte list \<Rightarrow> byte list list" where
  "array_write rs a i d =
     (if i < length a then a[i := d] else a @ replicate (i - length a) (replicate rs 0) @ [d])"

lemma length_records_of: "length c = rs * l \<Longrightarrow> 0 < rs \<Longrightarrow> length (records_of rs c) = l"
  by (simp add: records_of_def)

lemma nth_records_of:
  "length c = rs * l \<Longrightarrow> 0 < rs \<Longrightarrow> j < l \<Longrightarrow> records_of rs c ! j = take rs (drop (rs * j) c)"
  by (simp add: records_of_def)

lemma length_array_write: "length (array_write rs a i d) = max (length a) (i + 1)"
  by (auto simp: array_write_def)

lemma nth_array_write:
  "j < max (length a) (i + 1) \<Longrightarrow> array_write rs a i d ! j =
     (if j = i then d else if j < length a then a ! j else replicate rs 0)"
  by (auto simp: array_write_def nth_append)

lemma overlay_gap:
  "length c \<le> q \<Longrightarrow> q + n \<le> p \<Longrightarrow> take n (drop q (overlay c p d)) = replicate n 0"
  by (rule nth_equalityI) (auto simp: nth_overlay)

lemma mult_slot: "j < (i :: nat) \<Longrightarrow> rs * j + rs \<le> rs * i"
  by (metis Suc_leI mult.commute mult_Suc mult_le_mono1 add.commute)

lemma records_of_overlay:
  assumes c: "length c = rs * l" and d: "length d = rs" and rs: "0 < rs"
  shows "length (overlay c (rs * i) d) = rs * max l (i + 1)"
    and "records_of rs (overlay c (rs * i) d) = array_write rs (records_of rs c) i d"
proof -
  show len: "length (overlay c (rs * i) d) = rs * max l (i + 1)"
    using c d by (simp add: nat_mult_max_right)
  note lc = length_records_of[OF c rs] and lo = length_records_of[OF len rs]
  show "records_of rs (overlay c (rs * i) d) = array_write rs (records_of rs c) i d"
  proof (rule nth_equalityI)
    fix j assume "j < length (records_of rs (overlay c (rs * i) d))"
    then have j: "j < max l (i + 1)" using lo by simp
    then have "records_of rs (overlay c (rs * i) d) ! j = take rs (drop (rs * j) (overlay c (rs * i) d))"
      by (rule nth_records_of[OF len rs])
    also have "\<dots> = (if j = i then d else if j < l then take rs (drop (rs * j) c) else replicate rs 0)"
    proof (cases j i rule: linorder_cases)
      case equal
      then show ?thesis using d take_drop_overlay_same[of d "rs * i" c] by simp
    next
      case less
      then have "rs * j + rs \<le> rs * i" by (rule mult_slot)
      moreover have "j < l \<Longrightarrow> rs * j + rs \<le> length c" using mult_slot c by simp
      moreover have "\<not> j < l \<Longrightarrow> length c \<le> rs * j" using c by simp
      ultimately show ?thesis using less
        by (simp add: take_drop_overlay_other overlay_gap)
    next
      case greater
      then have "rs * i + rs \<le> rs * j" by (rule mult_slot)
      moreover have "j < l" using greater j by simp
      moreover from this have "rs * j + rs \<le> length c" using mult_slot c by simp
      ultimately show ?thesis using greater d by (simp add: take_drop_overlay_other)
    qed
    also have "\<dots> = array_write rs (records_of rs c) i d ! j"
      using j lc nth_records_of[OF c rs] by (simp add: nth_array_write)
    finally show "records_of rs (overlay c (rs * i) d) ! j = array_write rs (records_of rs c) i d ! j" .
  qed (simp add: lo lc length_array_write)
qed

subsection \<open>The invariant of an open store\<close>

definition vc :: "world \<Rightarrow> Store \<Rightarrow> byte list" where
  "vc w s = (if st_ReadOnly s then file_bytes w (st_File s) else virt (st_File s) w (st_wb s))"

definition can_read :: "Store \<Rightarrow> bool" where
  "can_read s \<longleftrightarrow> st_ReadOnly s \<or> \<not> RecordSize s dvd bufsize (RecordSize s)"

definition writer_ok :: "Store \<Rightarrow> bool" where
  "writer_ok s \<longleftrightarrow>
     (if st_ReadOnly s then st_wb s = zero_WriteBuffer
      else wb_wf (st_File s) (st_wb s) \<and> wb_room (st_wb s) \<and> MaxWriteSize (st_wb s) = RecordSize s)"

text \<open>
  \<open>st_at lim\<close> is the invariant with a limit as in \<open>synced\<close>; \<open>st_ok\<close> has the number of records as the limit of a
  read-only store, whose file stays as it is, and none for a writable store.
\<close>

definition buffer_at :: "nat option \<Rightarrow> Store \<Rightarrow> world \<Rightarrow> ReadBuffer \<Rightarrow> bool" where
  "buffer_at lim s w rb \<longleftrightarrow>
     rb_wf (st_File s) w rb \<and> synced lim (RecordSize s) rb \<and>
     MaxReadSize rb = RecordSize s \<and> rb_BufferSize rb = bufsize (RecordSize s) \<and>
     (rb_left rb < rb_right rb \<longrightarrow> wb_right (st_wb s) = 0)"

definition st_at :: "nat option \<Rightarrow> world \<Rightarrow> Store \<Rightarrow> bool" where
  "st_at lim w s \<longleftrightarrow>
     faults w = [] \<and> files w (st_File s) \<noteq> None \<and> \<not> st_closed s \<and> 0 < RecordSize s \<and> writer_ok s \<and>
     (\<exists>rb. st_rb s = Some rb \<and> buffer_at lim s w rb) \<and>
     (\<exists>l. length (vc w s) = RecordSize s * l \<and> st_records s = int l \<and> limit_ok lim l)"

definition own_limit :: "world \<Rightarrow> Store \<Rightarrow> nat option" where
  "own_limit w s = (if st_ReadOnly s then Some (length (vc w s) div RecordSize s) else None)"

definition st_ok :: "world \<Rightarrow> Store \<Rightarrow> bool" where
  "st_ok w s \<longleftrightarrow> st_at (own_limit w s) w s"

definition array_of :: "world \<Rightarrow> Store \<Rightarrow> byte list list" where
  "array_of w s = records_of (RecordSize s) (vc w s)"

lemma st_okD:
  assumes "st_ok w s"
  shows "faults w = []" "\<not> st_closed s" "0 < RecordSize s" "writer_ok s"
  using assms by (auto simp: st_ok_def st_at_def)

lemma length_at: "st_at lim w s \<Longrightarrow> int (length (array_of w s)) = st_records s"
  by (auto simp: st_at_def array_of_def length_records_of)

lemma length_array_of: "st_ok w s \<Longrightarrow> int (length (array_of w s)) = st_records s"
  unfolding st_ok_def by (rule length_at)

lemma own_limit_length: "0 < RecordSize s \<Longrightarrow> own_limit w s = (if st_ReadOnly s then Some (length (array_of w s)) else None)"
  by (simp add: own_limit_def array_of_def records_of_def)

text \<open>The parts of a store that no operation changes.\<close>

definition same_store :: "Store \<Rightarrow> Store \<Rightarrow> bool" where
  "same_store s s' \<longleftrightarrow>
     st_File s' = st_File s \<and> RecordSize s' = RecordSize s \<and> st_ReadOnly s' = st_ReadOnly s \<and>
     st_locked s' = st_locked s"

lemma st_ok_lock [simp]:
  "vc w (s\<lparr>st_locked := b\<rparr>) = vc w s" "st_at lim w (s\<lparr>st_locked := b\<rparr>) = st_at lim w s" "st_ok w (s\<lparr>st_locked := b\<rparr>) = st_ok w s"
  "array_of w (s\<lparr>st_locked := b\<rparr>) = array_of w s" "can_read (s\<lparr>st_locked := b\<rparr>) = can_read s"
  by (simp_all add: st_ok_def st_at_def own_limit_def buffer_at_def writer_ok_def vc_def array_of_def can_read_def)

lemma reader_flushed:
  assumes "buffer_at lim s w rb" "file_bytes w' (st_File s) = virt (st_File s) w (st_wb s)" "wb_right wb = 0"
  shows "buffer_at lim (s\<lparr>st_wb := wb\<rparr>) w' rb"
proof (cases "wb_right (st_wb s) = 0")
  case True
  then have "file_bytes w' (st_File s) = file_bytes w (st_File s)" using assms(2) by (simp add: virt_def)
  then show ?thesis using assms(1,3) unfolding buffer_at_def rb_wf_def by simp metis
next
  case False
  then show ?thesis using assms(1,3) by (auto simp: buffer_at_def rb_wf_def)
qed

lemma st_Flush_at:
  assumes ok: "st_at lim w s"
  obtains wb w' where "WriteBuffer_Flush w (st_wb s) = Inr (None, wb, w')" "st_at lim w' (s\<lparr>st_wb := wb\<rparr>)"
    "vc w' (s\<lparr>st_wb := wb\<rparr>) = vc w s" "file_bytes w' (st_File s) = vc w s" "wb_right wb = 0" "frame (st_File s) w w'"
proof (cases "st_ReadOnly s")
  case True
  then have wb: "st_wb s = zero_WriteBuffer" using ok by (simp add: st_at_def writer_ok_def)
  have "WriteBuffer_Flush w (st_wb s) = Inr (None, st_wb s, w)" "wb_right (st_wb s) = 0"
    by (simp_all add: wb WriteBuffer_Flush_def zero_WriteBuffer_def)
  then show ?thesis using True ok by (intro that[of "st_wb s" w]) (simp_all add: vc_def)
next
  case False
  have wf: "wb_wf (st_File s) (st_wb s)" and nf: "faults w = []"
    using ok False by (auto simp: st_at_def writer_ok_def)
  from Flush_ok[OF wf, of w] nf obtain wb w' where fl: "WriteBuffer_Flush w (st_wb s) = Inr (None, wb, w')"
    "wb_wf (st_File s) wb" "faults w' = []" "virt (st_File s) w' wb = virt (st_File s) w (st_wb s)"
    "MaxWriteSize wb = MaxWriteSize (st_wb s)" "wb_BufferSize wb = wb_BufferSize (st_wb s)"
    "wb_right wb = 0" "file_bytes w' (st_File s) = virt (st_File s) w (st_wb s)" "files w' (st_File s) \<noteq> None"
    "frame (st_File s) w w'"
    using ok by (auto simp: frame_def st_at_def split: option.splits)
  have "writer_ok (s\<lparr>st_wb := wb\<rparr>)" using fl ok False
    by (simp add: st_at_def writer_ok_def wb_room_def)
  then have "st_at lim w' (s\<lparr>st_wb := wb\<rparr>)" using fl ok False reader_flushed[OF _ fl(8) fl(7)]
    by (auto simp: st_at_def vc_def)
  then show ?thesis using fl False by (intro that[of wb w']) (simp_all add: vc_def)
qed

lemma st_Flush_ok:
  assumes ok: "st_ok w s"
  obtains wb w' where "WriteBuffer_Flush w (st_wb s) = Inr (None, wb, w')" "st_ok w' (s\<lparr>st_wb := wb\<rparr>)"
    "vc w' (s\<lparr>st_wb := wb\<rparr>) = vc w s" "file_bytes w' (st_File s) = vc w s" "wb_right wb = 0" "frame (st_File s) w w'"
proof -
  obtain wb w' where fl: "WriteBuffer_Flush w (st_wb s) = Inr (None, wb, w')" "st_at (own_limit w s) w' (s\<lparr>st_wb := wb\<rparr>)"
    "vc w' (s\<lparr>st_wb := wb\<rparr>) = vc w s" "file_bytes w' (st_File s) = vc w s" "wb_right wb = 0" "frame (st_File s) w w'"
    by (rule st_Flush_at[OF ok[unfolded st_ok_def]])
  moreover have "own_limit w' (s\<lparr>st_wb := wb\<rparr>) = own_limit w s" using fl(3) by (simp add: own_limit_def)
  ultimately show ?thesis using that by (simp add: st_ok_def)
qed

lemma ReadNolock_at:
  assumes ok: "st_at lim w s" and may: "may_read lim (length (array_of w s)) i"
  shows "\<exists>s' w'. ReadNolock (int i) decode w s =
       (if i < length (array_of w s)
        then go_bind (decode (of_bytes (array_of w s ! i))) (\<lambda>x. Inr (Inr x, s', w'))
        else Inr (Inl EOF, s', w')) \<and>
    st_at (next_limit (bufsize (RecordSize s)) (RecordSize s) lim (length (array_of w s))) w' s' \<and>
    vc w' s' = vc w s \<and> same_store s s' \<and> frame (st_File s) w w'"
proof -
  let ?rs = "RecordSize s" and ?p = "st_File s"
  obtain wb w1 where fl: "WriteBuffer_Flush w (st_wb s) = Inr (None, wb, w1)" "st_at lim w1 (s\<lparr>st_wb := wb\<rparr>)"
    "vc w1 (s\<lparr>st_wb := wb\<rparr>) = vc w s" "file_bytes w1 ?p = vc w s" "wb_right wb = 0" "frame ?p w w1" using st_Flush_at[OF ok] by metis
  obtain rb where rb: "st_rb s = Some rb" "buffer_at lim (s\<lparr>st_wb := wb\<rparr>) w1 rb" and nf: "faults w1 = []"
    using fl(2) by (auto simp: st_at_def)
  obtain l where l: "length (vc w s) = ?rs * l" "st_records s = int l" "limit_ok lim l" using ok by (auto simp: st_at_def)
  have rs: "0 < ?rs" using ok by (simp add: st_at_def)
  have len: "length (array_of w s) = l" using l rs by (simp add: array_of_def length_records_of)
  have rb0: "rb_wf ?p w1 rb" "synced lim ?rs rb" "MaxReadSize rb = ?rs" "rb_BufferSize rb = bufsize ?rs"
    using rb(2) by (auto simp: buffer_at_def)
  let ?b = "ReadBuffer_Seek rb (int (?rs * i))" and ?lim = "next_limit (bufsize ?rs) ?rs lim l"
  note sk = rb_Seek_ok[OF rb0(1,2), of "int (?rs * i)"]
  obtain b' where rd: "ReadBuffer_Read w1 ?b ?rs =
       Inr ((if i < l then (take ?rs (drop (?rs * i) (vc w s)), None) else ([], Some EOF)), b', w1)"
    "rb_wf ?p w1 b'" "synced ?lim ?rs b'" "MaxReadSize b' = ?rs" "rb_BufferSize b' = rb_BufferSize ?b"
    using rb_Read_ok[of ?p w1 ?b lim ?rs i l] sk rb0 nf l fl(4) may[unfolded len] by (metis of_nat_0_le_iff)
  let ?s = "s\<lparr>st_wb := wb, st_rb := Some b'\<rparr>"
  have "limit_ok ?lim l" using l(3) by (simp add: limit_ok_def next_limit_def)
  then have "st_at ?lim w1 ?s"
    using fl(2,5) rd sk rb0 l by (auto simp: st_at_def buffer_at_def writer_ok_def vc_def)
  moreover have "vc w1 ?s = vc w s" using fl(3) by (cases "st_ReadOnly s") (simp_all add: vc_def)
  moreover have "i < l \<Longrightarrow> array_of w s ! i = take ?rs (drop (?rs * i) (vc w s))"
    using l rs by (simp add: array_of_def nth_records_of)
  ultimately show ?thesis
    using fl(1,6) rb(1) rd(1) unfolding len
    by (intro exI[of _ ?s] exI[of _ w1]) (auto simp: ReadNolock_def Let_def same_store_def)
qed

lemma can_read_limit:
  assumes "st_ok w s" "can_read s"
  shows "may_read (own_limit w s) (length (array_of w s)) i"
    "next_limit (bufsize (RecordSize s)) (RecordSize s) (own_limit w s) (length (array_of w s)) = own_limit w s"
  using assms own_limit_length[OF st_okD(3)[OF assms(1)], of w] by (auto simp: can_read_def may_read_def next_limit_def)

lemma ReadNolock_ok:
  assumes ok: "st_ok w s" and cr: "can_read s"
  shows "\<exists>s' w'. ReadNolock (int i) decode w s =
       (if i < length (array_of w s)
        then go_bind (decode (of_bytes (array_of w s ! i))) (\<lambda>x. Inr (Inr x, s', w'))
        else Inr (Inl EOF, s', w')) \<and>
    st_ok w' s' \<and> array_of w' s' = array_of w s \<and> same_store s s' \<and> frame (st_File s) w w'"
proof -
  note lim = can_read_limit[OF ok cr]
  obtain s' w' where r: "ReadNolock (int i) decode w s =
       (if i < length (array_of w s) then go_bind (decode (of_bytes (array_of w s ! i))) (\<lambda>x. Inr (Inr x, s', w')) else Inr (Inl EOF, s', w'))"
    "st_at (own_limit w s) w' s'" "vc w' s' = vc w s" "same_store s s'" "frame (st_File s) w w'"
    using ReadNolock_at[OF ok[unfolded st_ok_def] lim(1), where decode = decode, unfolded lim(2)] by blast
  then have "own_limit w' s' = own_limit w s" "array_of w' s' = array_of w s" by (auto simp: own_limit_def array_of_def same_store_def)
  then show ?thesis using r unfolding st_ok_def by (intro exI[of _ s'] exI[of _ w']) simp
qed

lemma encode_padded_ok:
  assumes e: "writes encode d" and b: "sl_wf b" "sl_len b = rs" "length d \<le> rs"
  shows "encode_padded encode b = Inr (overwrite b (pad rs d))"
proof -
  have "encode b = Inr (overwrite b d, length d)" using writesD[OF e] b by simp
  moreover have "within (\<lambda>sub. Inr (fillZero sub, 0)) (overwrite b d, length d) = Inr (overwrite b (pad rs d), length d)"
    using b by (simp add: within_def slice_from_def overwrite_def fillZero_def pad_def sl_wf_def)
  ultimately show ?thesis by (simp add: encode_padded_def)
qed

lemma WriteNolock_at:
  assumes ok: "st_at lim w s" and ro: "\<not> st_ReadOnly s" and e: "writes encode d" "length d \<le> RecordSize s"
  shows "\<exists>s' w'. WriteNolock (int i) encode w s = Inr (None, s', w') \<and> st_at lim w' s' \<and>
    array_of w' s' = array_write (RecordSize s) (array_of w s) i (pad (RecordSize s) d) \<and> same_store s s' \<and> frame (st_File s) w w'"
proof -
  let ?rs = "RecordSize s" and ?p = "st_File s"
  have wf: "wb_wf ?p (st_wb s)" "wb_room (st_wb s)" "MaxWriteSize (st_wb s) = ?rs" and nf: "faults w = []" "files w ?p \<noteq> None"
    and rs: "0 < ?rs" using ok ro by (auto simp: st_at_def writer_ok_def)
  obtain l where l: "length (vc w s) = ?rs * l" "st_records s = int l" "limit_ok lim l" using ok by (auto simp: st_at_def)
  obtain rb where rb: "st_rb s = Some rb" "buffer_at lim s w rb" using ok by (auto simp: st_at_def)
  obtain wb1 w1 where sk: "WriteBuffer_Seek w (st_wb s) (int (?rs * i)) = Inr (None, wb1, w1)" "wb_wf ?p wb1"
    "faults w1 = []" "virt ?p w1 wb1 = virt ?p w (st_wb s)" "MaxWriteSize wb1 = ?rs"
    "wb_pos wb1 + int (wb_right wb1) = int (?rs * i)" "wb_room wb1" "files w1 ?p \<noteq> None" "frame ?p w w1"
    using wb_Seek_ok[OF wf(1), of "int (?rs * i)" w] nf wf(2,3) by (auto simp: frame_def split: option.splits)
  obtain b wb2 where sl: "WriteBuffer_WriteBuffer wb1 = Inr (b, wb2)" "sl_len b = ?rs" "sl_wf b"
    "length (sl_arr b) = wb_BufferSize wb2 - wb_right wb2" "wb_wf ?p wb2" "wb_room wb2" "pending wb2 = pending wb1"
    "wb_right wb2 = wb_right wb1" "wb_pos wb2 = wb_pos wb1" "MaxWriteSize wb2 = ?rs" "length (wb_array wb2) = wb_BufferSize wb2"
    using wb_slice_ok[OF sk(2,7)] sk(5) by metis
  let ?d = "pad ?rs d"
  have d: "length ?d = ?rs" using e(2) by (simp add: pad_def)
  have enc: "encode_padded encode b = Inr (overwrite b ?d)" using encode_padded_ok e sl(2,3) by blast
  have arr: "length (sl_arr (overwrite b ?d)) = wb_BufferSize wb2 - wb_right wb2" "take ?rs (sl_arr (overwrite b ?d)) = ?d"
    using sl(2,3,4) d by (simp_all add: overwrite_def sl_wf_def)
  obtain wb3 w3 where wr: "WriteBuffer_Write w1 (put_buf wb2 (overwrite b ?d)) ?rs = Inr (None, wb3, w3)" "wb_wf ?p wb3"
    "faults w3 = []" "virt ?p w3 wb3 = overlay (virt ?p w1 wb2) (nat (wb_pos wb2) + wb_right wb2) ?d"
    "MaxWriteSize wb3 = ?rs" "wb_room wb3" "files w3 ?p \<noteq> None" "frame ?p w1 w3"
    using wb_Write_ok[OF sl(5,6,11) arr(1), of ?d w1] arr(2) sl(10) rs sk(3,8)
    by (auto simp: frame_def split: option.splits)
  have "0 \<le> wb_pos wb2" using sl(5) by (simp add: wb_wf_def)
  then have at: "nat (wb_pos wb2) + wb_right wb2 = ?rs * i" using sk(6) sl(8,9) by linarith
  have "virt ?p w1 wb2 = virt ?p w1 wb1" using sl(7,8,9) by (simp add: virt_def)
  then have virt3: "virt ?p w3 wb3 = overlay (vc w s) (?rs * i) ?d" using wr(4) at sk(4) ro by (simp add: vc_def)
  let ?s = "s\<lparr>st_rb := Some (DropCache rb), st_wb := wb3, st_records := max (st_records s) (int i + 1)\<rparr>"
  have vc3: "vc w3 ?s = overlay (vc w s) (?rs * i) ?d" using virt3 ro by (simp add: vc_def)
  note ov = records_of_overlay[OF l(1) d rs, of i]
  have "buffer_at lim ?s w3 (DropCache rb)"
    using rb(2) DropCache_ok(1)[of ?p w rb lim ?rs w3] DropCache_ok(2)[of ?p w rb lim ?rs]
    by (simp add: buffer_at_def DropCache_def)
  moreover have "limit_ok lim (max l (i + 1))" using l(3) by (auto simp: limit_ok_def split: option.splits)
  ultimately have "st_at lim w3 ?s"
    using ok wr ro rs ov(1) l(2) unfolding st_at_def writer_ok_def vc3 by (auto intro!: exI[of _ "max l (i + 1)"])
  moreover have "array_of w3 ?s = array_write ?rs (array_of w s) i ?d"
    using ov(2) by (simp add: array_of_def vc3)
  moreover have "WriteNolock (int i) encode w s = Inr (None, ?s, w3)"
    using ok ro rb(1) sk(1) sl(1) enc wr(1) by (auto simp: WriteNolock_def st_at_def Let_def max_def)
  ultimately show ?thesis using frame_trans[OF sk(9) wr(8)] by (auto simp: same_store_def)
qed

lemma WriteNolock_ok:
  assumes ok: "st_ok w s" and ro: "\<not> st_ReadOnly s" and e: "writes encode d" "length d \<le> RecordSize s"
  shows "\<exists>s' w'. WriteNolock (int i) encode w s = Inr (None, s', w') \<and> st_ok w' s' \<and>
    array_of w' s' = array_write (RecordSize s) (array_of w s) i (pad (RecordSize s) d) \<and> same_store s s' \<and> frame (st_File s) w w'"
  using WriteNolock_at[of None w s encode d i] assms by (fastforce simp: st_ok_def own_limit_def same_store_def)

lemma FlushNolock_at:
  assumes ok: "st_at lim w s"
  shows "\<exists>s' w'. FlushNolock w s = Inr (None, s', w') \<and> st_at lim w' s' \<and> vc w' s' = vc w s \<and> same_store s s' \<and>
    file_bytes w' (st_File s) = vc w s \<and> frame (st_File s) w w'"
proof -
  obtain wb w' where "WriteBuffer_Flush w (st_wb s) = Inr (None, wb, w')" "st_at lim w' (s\<lparr>st_wb := wb\<rparr>)"
    "vc w' (s\<lparr>st_wb := wb\<rparr>) = vc w s" "file_bytes w' (st_File s) = vc w s" "frame (st_File s) w w'"
    using st_Flush_at[OF ok] by metis
  then show ?thesis by (simp add: FlushNolock_def same_store_def)
qed

lemma FlushNolock_ok:
  assumes ok: "st_ok w s"
  shows "\<exists>s' w'. FlushNolock w s = Inr (None, s', w') \<and> st_ok w' s' \<and> array_of w' s' = array_of w s \<and> same_store s s' \<and>
    file_bytes w' (st_File s) = vc w s \<and> frame (st_File s) w w'"
  using FlushNolock_at[OF ok[unfolded st_ok_def]] by (fastforce simp: st_ok_def own_limit_def array_of_def same_store_def)

subsection \<open>Runs of a store\<close>

datatype sop = SWrite nat "byte list" | SAppend "byte list" | SRead nat | SFlush

datatype sout = OErr error | OBytes "byte list" | ODone

definition put_bytes :: "byte list \<Rightarrow> EncodeFn" where
  "put_bytes d b = (if length d \<le> sl_len b then Inr (overwrite b d, length d) else Inl IndexOutOfRange)"

definition out_err :: "error option \<Rightarrow> sout" where
  "out_err e = (case e of None \<Rightarrow> ODone | Some e \<Rightarrow> OErr e)"

definition out_read :: "error + byte list \<Rightarrow> sout" where
  "out_read r = (case r of Inl e \<Rightarrow> OErr e | Inr bs \<Rightarrow> OBytes bs)"

definition store_step :: "world \<times> Store \<times> sout list \<Rightarrow> sop \<Rightarrow> (world \<times> Store \<times> sout list) go" where
  "store_step = (\<lambda>(w, s, outs) op.
     case op of
       SWrite i d \<Rightarrow> go_bind (with_lock (WriteNolock (int i) (put_bytes d)) w s) (\<lambda>(e, s, w). Inr (w, s, outs @ [out_err e]))
     | SAppend d \<Rightarrow> go_bind (Store_Append (put_bytes d) w s) (\<lambda>(e, s, w). Inr (w, s, outs @ [out_err e]))
     | SRead i \<Rightarrow> go_bind (Store_Read (int i) (\<lambda>b. Inr (sl_bytes b)) w s) (\<lambda>(r, s, w). Inr (w, s, outs @ [out_read r]))
     | SFlush \<Rightarrow> go_bind (Store_Flush w s) (\<lambda>(e, s, w). Inr (w, s, outs @ [out_err e])))"

text \<open>
  The array. On a writable store whose record size divides the size of its buffer (every size from 41 bytes on) the
  first read sets a limit, the number of records at that time. Once the store has grown past it, only records in
  front of the limit can still be read: the read behind it is the one that goes wrong
  (\<open>ReadBuffer_misreads_after_growth\<close>). The limit of a read-only store is its length.
\<close>

definition array_step ::
  "nat \<Rightarrow> bool \<Rightarrow> byte list list \<times> sout list \<times> nat option \<Rightarrow> sop \<Rightarrow> (byte list list \<times> sout list \<times> nat option) option" where
  "array_step rs ro = (\<lambda>(a, outs, lim) op.
     case op of
       SWrite i d \<Rightarrow> if ro \<or> rs < length d then None else Some (array_write rs a i (pad rs d), outs @ [ODone], lim)
     | SAppend d \<Rightarrow> if ro \<or> rs < length d then None else Some (a @ [pad rs d], outs @ [ODone], lim)
     | SRead i \<Rightarrow>
         if may_read lim (length a) i
         then Some (a, outs @ [if i < length a then OBytes (a ! i) else OErr EOF], next_limit (bufsize rs) rs lim (length a))
         else None
     | SFlush \<Rightarrow> Some (a, outs @ [ODone], lim))"

definition first_limit :: "bool \<Rightarrow> byte list list \<Rightarrow> nat option" where
  "first_limit ro a = (if ro then Some (length a) else None)"

definition run_rel :: "string \<Rightarrow> nat \<Rightarrow> bool \<Rightarrow> byte list list \<times> sout list \<times> nat option \<Rightarrow> world \<times> Store \<times> sout list \<Rightarrow> bool" where
  "run_rel p rs ro = (\<lambda>(a, outs, lim) (w, s, outs').
     st_at lim w s \<and> \<not> st_locked s \<and> st_File s = p \<and> RecordSize s = rs \<and> st_ReadOnly s = ro \<and> array_of w s = a \<and> outs' = outs)"

definition store_rel :: "string \<Rightarrow> nat \<Rightarrow> bool \<Rightarrow> byte list list \<times> sout list \<Rightarrow> world \<times> Store \<times> sout list \<Rightarrow> bool" where
  "store_rel p rs ro = (\<lambda>(a, outs) (w, s, outs').
     st_ok w s \<and> \<not> st_locked s \<and> st_File s = p \<and> RecordSize s = rs \<and> st_ReadOnly s = ro \<and> array_of w s = a \<and> outs' = outs)"

lemma writes_put_bytes: "writes (put_bytes d) d"
  by (simp add: writes_def put_bytes_def)

lemma with_lock_eq:
  assumes "\<not> st_locked s" "f w (s\<lparr>st_locked := True\<rparr>) = Inr (r, s', w')" "same_store (s\<lparr>st_locked := True\<rparr>) s'"
  shows "with_lock f w s = Inr (r, s'\<lparr>st_locked := False\<rparr>, w')"
  using assms by (simp add: with_lock_def Store_Lock_def Store_Unlock_def same_store_def)

lemma locked_write_at:
  assumes "st_at lim w s" "\<not> st_locked s" "\<not> st_ReadOnly s" "writes encode d" "length d \<le> RecordSize s"
  shows "\<exists>s' w'. with_lock (WriteNolock (int i) encode) w s = Inr (None, s', w') \<and> st_at lim w' s' \<and> same_store s s' \<and>
    array_of w' s' = array_write (RecordSize s) (array_of w s) i (pad (RecordSize s) d) \<and> frame (st_File s) w w'"
proof -
  let ?s = "s\<lparr>st_locked := True\<rparr>"
  have "st_at lim w ?s" "\<not> st_ReadOnly ?s" "length d \<le> RecordSize ?s" using assms by simp_all
  note ok' = this
  obtain s' w' where
    wr: "WriteNolock (int i) encode w ?s = Inr (None, s', w')" "st_at lim w' s'" "same_store ?s s'"
    "array_of w' s' = array_write (RecordSize s) (array_of w s) i (pad (RecordSize s) d)" "frame (st_File s) w w'"
    using WriteNolock_at[OF ok'(1,2) assms(4) ok'(3), of i] by auto
  have "with_lock (WriteNolock (int i) encode) w s = Inr (None, s'\<lparr>st_locked := False\<rparr>, w')"
    using wr assms(2) by (intro with_lock_eq) auto
  then show ?thesis using wr assms(2) by (auto simp: same_store_def)
qed

lemma locked_write:
  assumes "st_ok w s" "\<not> st_locked s" "\<not> st_ReadOnly s" "writes encode d" "length d \<le> RecordSize s"
  shows "\<exists>s' w'. with_lock (WriteNolock (int i) encode) w s = Inr (None, s', w') \<and> st_ok w' s' \<and> same_store s s' \<and>
    array_of w' s' = array_write (RecordSize s) (array_of w s) i (pad (RecordSize s) d) \<and> frame (st_File s) w w'"
  using locked_write_at[of None w s encode d i] assms by (fastforce simp: st_ok_def own_limit_def same_store_def)

text \<open>A read through the lock of records as they are.\<close>

lemma locked_read_at:
  assumes "st_at lim w s" "\<not> st_locked s" "may_read lim (length (array_of w s)) i"
  shows "\<exists>s' w'. Store_Read (int i) (\<lambda>b. Inr (sl_bytes b)) w s = Inr (if i < length (array_of w s) then Inr (array_of w s ! i) else Inl EOF, s', w') \<and>
    st_at (next_limit (bufsize (RecordSize s)) (RecordSize s) lim (length (array_of w s))) w' s' \<and> same_store s s' \<and> array_of w' s' = array_of w s"
proof -
  let ?s = "s\<lparr>st_locked := True\<rparr>"
  have "st_at lim w ?s" "may_read lim (length (array_of w ?s)) i" using assms by simp_all
  from ReadNolock_at[OF this, where decode = "\<lambda>b. Inr (sl_bytes b)"] obtain s' w' where
    rd: "ReadNolock (int i) (\<lambda>b. Inr (sl_bytes b)) w ?s = Inr (if i < length (array_of w s) then Inr (array_of w s ! i) else Inl EOF, s', w')"
    "st_at (next_limit (bufsize (RecordSize s)) (RecordSize s) lim (length (array_of w s))) w' s'" "vc w' s' = vc w ?s" "same_store ?s s'"
    by (auto simp: sl_bytes_def of_bytes_def)
  have "Store_Read (int i) (\<lambda>b. Inr (sl_bytes b)) w s =
      Inr (if i < length (array_of w s) then Inr (array_of w s ! i) else Inl EOF, s'\<lparr>st_locked := False\<rparr>, w')"
    unfolding Store_Read_def using rd assms(2) by (intro with_lock_eq) auto
  then show ?thesis using rd(2-4) assms(2)
    by (intro exI[of _ "s'\<lparr>st_locked := False\<rparr>"] exI[of _ w']) (simp add: same_store_def array_of_def)
qed

lemma locked_read:
  assumes "st_ok w s" "\<not> st_locked s" "can_read s" "i < length (array_of w s) \<Longrightarrow> decode (of_bytes (array_of w s ! i)) = Inr x"
  shows "\<exists>s' w'. Store_Read (int i) decode w s = Inr (if i < length (array_of w s) then Inr x else Inl EOF, s', w') \<and>
    st_ok w' s' \<and> same_store s s' \<and> array_of w' s' = array_of w s \<and> frame (st_File s) w w'"
proof -
  let ?s = "s\<lparr>st_locked := True\<rparr>"
  have "st_ok w ?s" "can_read ?s" using assms by simp_all
  note ok' = this
  obtain s' w' where
    rd: "ReadNolock (int i) decode w ?s = Inr (if i < length (array_of w s) then Inr x else Inl EOF, s', w')"
    "st_ok w' s'" "same_store ?s s'" "array_of w' s' = array_of w s" "frame (st_File s) w w'"
    using ReadNolock_ok[OF ok', of i decode] assms(4) by (auto split: if_splits)
  have "Store_Read (int i) decode w s = Inr (if i < length (array_of w s) then Inr x else Inl EOF, s'\<lparr>st_locked := False\<rparr>, w')"
    unfolding Store_Read_def using rd assms(2) by (intro with_lock_eq) auto
  then show ?thesis using rd assms(2) by (auto simp: same_store_def)
qed

lemma array_write_end: "array_write rs a (length a) d = a @ [d]"
  by (simp add: array_write_def)

interpretation store: simulating_machine "array_step rs ro" store_step "run_rel p rs ro" for p rs ro
proof
  fix A C op A'
  assume R: "run_rel p rs ro A C" and st: "array_step rs ro A op = Some A'"
  obtain a outs lim w s where AC: "A = (a, outs, lim)" "C = (w, s, outs)" and ok: "st_at lim w s" "\<not> st_locked s"
    and rs: "RecordSize s = rs" "st_ReadOnly s = ro" "st_File s = p" and a: "array_of w s = a"
    using R by (cases A; cases C) (auto simp: run_rel_def)
  show "\<exists>C'. store_step C op = Inr C' \<and> run_rel p rs ro A' C'"
  proof (cases op)
    case (SWrite i d)
    then have "\<not> st_ReadOnly s" "length d \<le> RecordSize s" and A': "A' = (array_write rs a i (pad rs d), outs @ [ODone], lim)"
      using st rs by (auto simp: array_step_def AC split: if_splits)
    from locked_write_at[OF ok this(1) writes_put_bytes this(2), of i] show ?thesis
      using SWrite A' rs ok a by (auto simp: store_step_def AC run_rel_def same_store_def out_err_def)
  next
    case (SAppend d)
    then have "\<not> st_ReadOnly s" "length d \<le> RecordSize s" and A': "A' = (a @ [pad rs d], outs @ [ODone], lim)"
      using st rs by (auto simp: array_step_def AC split: if_splits)
    moreover have "Store_Append (put_bytes d) w s = with_lock (WriteNolock (int (length a)) (put_bytes d)) w s"
      using length_at[OF ok(1)] a by (simp add: Store_Append_def with_lock_def Store_Lock_def)
    ultimately show ?thesis
      using locked_write_at[OF ok _ writes_put_bytes, of d "length a"] SAppend rs ok a
      by (auto simp: store_step_def AC run_rel_def same_store_def out_err_def array_write_end)
  next
    case (SRead i)
    then have "may_read lim (length (array_of w s)) i"
      and A': "A' = (a, outs @ [if i < length a then OBytes (a ! i) else OErr EOF], next_limit (bufsize rs) rs lim (length a))"
      using st a by (auto simp: array_step_def AC split: if_splits)
    from locked_read_at[OF ok this(1)] show ?thesis
      using SRead A' rs ok a by (auto simp: store_step_def AC run_rel_def same_store_def out_read_def)
  next
    case SFlush
    have "st_at lim w (s\<lparr>st_locked := True\<rparr>)" using ok by simp
    note ok' = this
    obtain s' w' where fl: "FlushNolock w (s\<lparr>st_locked := True\<rparr>) = Inr (None, s', w')"
      "st_at lim w' s'" "vc w' s' = vc w (s\<lparr>st_locked := True\<rparr>)" "same_store (s\<lparr>st_locked := True\<rparr>) s'"
      using FlushNolock_at[OF ok'] by blast
    then have "Store_Flush w s = Inr (None, s'\<lparr>st_locked := False\<rparr>, w')"
      unfolding Store_Flush_def using ok(2) by (intro with_lock_eq) auto
    moreover have "array_of w' (s'\<lparr>st_locked := False\<rparr>) = a"
      using fl(3,4) a by (simp add: array_of_def same_store_def)
    ultimately show ?thesis using SFlush st rs fl(2,4)
      by (auto simp: store_step_def array_step_def AC run_rel_def same_store_def out_err_def)
  qed
qed

lemma run_rel_of_store_rel:
  assumes "store_rel p rs ro (a, outs) C"
  shows "run_rel p rs ro (a, outs, first_limit ro a) C"
proof -
  obtain w s where C: "C = (w, s, outs)" and ok: "st_ok w s" "array_of w s = a" "st_ReadOnly s = ro"
    using assms by (cases C) (auto simp: store_rel_def)
  have "first_limit ro a = own_limit w s" using own_limit_length[OF st_okD(3)[OF ok(1)], of w] ok(2,3) by (simp add: first_limit_def)
  then show ?thesis using assms by (simp add: C run_rel_def store_rel_def st_ok_def)
qed

subsection \<open>Opening and closing\<close>

lemma bufsize_ge: "rs \<le> bufsize rs"
  by (simp add: bufsize_def)

lemma new_reader_ok:
  assumes "0 < RecordSize s" "own_handle (st_File s) h" "h_cur h = 0"
  shows "buffer_at lim s w (new_ReadBuffer h (RecordSize s) (bufsize (RecordSize s)))"
  using assms bufsize_ge by (simp add: buffer_at_def new_ReadBuffer_def rb_wf_def synced_def rb_array_def)

lemma Store_Open_ok:
  assumes nf: "faults w = []" and rs: "0 < rs" and l: "length (file_bytes w p) = rs * l" and ex: "ro \<longrightarrow> files w p \<noteq> None"
  shows "\<exists>s w'. Store_Open w (new_Store p rs ro) = Inr (None, s, w') \<and>
    store_rel p rs ro (records_of rs (file_bytes w p), []) (w', s, []) \<and> frame p w w' \<and> (ro \<longrightarrow> w' = w)"
proof -
  let ?h = "\<lparr>h_path = p, h_cur = 0, h_append = False, h_open = True\<rparr>"
  let ?w = "if ro then w else w\<lparr>files := (files w)(p \<mapsto> file_bytes w p)\<rparr>"
  let ?s = "(new_Store p rs ro)\<lparr>st_rb := Some (new_ReadBuffer ?h rs (bufsize rs)),
    st_wb := (if ro then zero_WriteBuffer else new_WriteBuffer ?h rs (bufsize rs)), st_records := int l\<rparr>"
  have exw: "files ?w p \<noteq> None" and bytes: "file_bytes ?w p = file_bytes w p" and nf': "faults ?w = []"
    using ex nf by (auto simp: file_bytes_def)
  have size: "File_Size ?w p = (rs * l, None)"
    using exw bytes l by (auto simp: File_Size_def file_bytes_def split: option.splits)
  have "Store_Open w (new_Store p rs ro) = Inr (None, ?s, ?w)"
    using nf rs size exw
    by (auto simp: Store_Open_def with_lock_def Store_Lock_def Store_Unlock_def Store_Open_body_def Let_def Open_writer_def
        Open_reader_def OpenWriteOnly_def openFile_def OpenReadOnly_def next_fault_none new_Store_def zero_WriteBuffer_def)
  moreover have "vc ?w ?s = file_bytes w p"
    using bytes by (simp add: vc_def virt_def new_WriteBuffer_def zero_WriteBuffer_def new_Store_def)
  moreover have "writer_ok ?s"
    using bufsize_ge[of rs]
    by (simp add: writer_ok_def new_Store_def new_WriteBuffer_def zero_WriteBuffer_def wb_wf_def wb_room_def own_handle_def)
  moreover have "buffer_at (own_limit ?w ?s) ?s ?w (new_ReadBuffer ?h rs (bufsize rs))"
    using new_reader_ok[of ?s ?h "own_limit ?w ?s" ?w] rs by (simp add: new_Store_def own_handle_def)
  ultimately have "st_ok ?w ?s" "array_of ?w ?s = records_of rs (file_bytes w p)"
    using nf' exw rs l by (auto simp: st_ok_def st_at_def array_of_def new_Store_def own_limit_def limit_ok_def)
  with \<open>Store_Open w (new_Store p rs ro) = Inr (None, ?s, ?w)\<close> show ?thesis
    by (intro exI[of _ ?s] exI[of _ ?w]) (simp add: store_rel_def new_Store_def frame_def)
qed

lemma Store_Close_at:
  assumes ok: "st_at lim w s" and lk: "\<not> st_locked s"
  shows "\<exists>s' w'. Store_Close w s = Inr (None, s', w') \<and> st_closed s' \<and> faults w' = [] \<and>
    file_bytes w' (st_File s) = vc w s \<and> files w' (st_File s) \<noteq> None \<and> frame (st_File s) w w'"
proof -
  let ?p = "st_File s"
  have nf: "faults w = []" using ok by (simp add: st_at_def)
  obtain rb where rb: "st_rb s = Some rb" "own_handle ?p (rb_R rb)"
    using ok by (auto simp: st_at_def buffer_at_def rb_wf_def)
  have c1: "os_Close w (rb_R rb) = ((rb_R rb)\<lparr>h_open := False\<rparr>, None, w)"
    using rb nf by (simp add: os_Close_def own_handle_def next_fault_none)
  show ?thesis
  proof (cases "st_ReadOnly s")
    case True
    then show ?thesis using ok lk rb c1 nf
      by (simp add: Store_Close_def with_lock_def Store_Lock_def Store_Unlock_def Store_Close_body_def Let_def
          Close_writer_def st_at_def vc_def)
  next
    case False
    obtain wb w1 where fl: "WriteBuffer_Flush w (st_wb s) = Inr (None, wb, w1)" "st_at lim w1 (s\<lparr>st_wb := wb\<rparr>)"
      "file_bytes w1 ?p = vc w s" "frame ?p w w1" using st_Flush_at[OF ok] by metis
    then obtain h where h: "wb_W wb = Some h" "own_handle ?p h" and nf1: "faults w1 = []" "files w1 ?p \<noteq> None"
      using False by (auto simp: st_at_def writer_ok_def wb_wf_def)
    have c2: "os_Close w1 h = (h\<lparr>h_open := False\<rparr>, None, w1)"
      using h nf1 by (simp add: os_Close_def own_handle_def next_fault_none)
    then show ?thesis using ok lk rb c1 fl(1,3,4) h nf1 False
      by (simp add: Store_Close_def with_lock_def Store_Lock_def Store_Unlock_def Store_Close_body_def Let_def
          Close_writer_def st_at_def)
  qed
qed

lemma Store_Close_ok:
  assumes "st_ok w s" "\<not> st_locked s"
  shows "\<exists>s' w'. Store_Close w s = Inr (None, s', w') \<and> st_closed s' \<and> faults w' = [] \<and>
    file_bytes w' (st_File s) = vc w s \<and> files w' (st_File s) \<noteq> None \<and> frame (st_File s) w w'"
  using Store_Close_at assms unfolding st_ok_def by blast

subsection \<open>Properties\<close>

text \<open>
  C5. A store behaves like an array of records. Opened on a file of whole records, with no I/O
  failure, every sequence of writes, appends, reads and flushes returns what the same operations
  on an array return: a record written at any index is read back padded with zeros, records
  between the end and a written index are zero, and reading past the end is \<open>io.EOF\<close>. Excluded are
  records that do not fit, writes to a read-only store, and some reads of a writable store whose record
  size divides the size of its buffer, as it does from 41 bytes on (calls and raw records): once such a store has grown after its first read, only
  the records that were there at that read may be read, since a read behind them can return wrong bytes.
\<close>

theorem Store_is_an_array:
  assumes "faults w = []" "0 < rs" "length (file_bytes w p) = rs * l" "ro \<longrightarrow> files w p \<noteq> None"
    and "spec_run (array_step rs ro) (records_of rs (file_bytes w p), [], first_limit ro (records_of rs (file_bytes w p))) ops = Some (a, outs, lim)"
  shows "\<exists>s w' s' w''. Store_Open w (new_Store p rs ro) = Inr (None, s, w') \<and>
    go_run store_step (w', s, []) ops = Inr (w'', s', outs) \<and> Records s' = int (length a)"
proof -
  obtain s w' where o: "Store_Open w (new_Store p rs ro) = Inr (None, s, w')"
    "store_rel p rs ro (records_of rs (file_bytes w p), []) (w', s, [])"
    using Store_Open_ok[OF assms(1-4)] by blast
  obtain C where "go_run store_step (w', s, []) ops = Inr C" "run_rel p rs ro (a, outs, lim) C"
    using store.run_sim[OF run_rel_of_store_rel[OF o(2)] assms(5)] by blast
  then show ?thesis using o(1) length_at
    by (cases C) (force simp: run_rel_def Records_def)
qed

definition sample_sops :: "sop list" where
  "sample_sops = [SAppend [1, 2], SRead 0, SRead 1, SWrite 2 [7], SRead 0, SFlush]"

theorem Store_is_an_array_witness:
  "\<exists>s w' s' w''. Store_Open \<lparr>files = Map.empty, faults = []\<rparr> (new_Store ''f'' 64 False) = Inr (None, s, w') \<and>
    go_run store_step (w', s, []) sample_sops =
      Inr (w'', s', [ODone, OBytes (pad 64 [1, 2]), OErr EOF, ODone, OBytes (pad 64 [1, 2]), ODone]) \<and> Records s' = 3"
proof -
  let ?w = "\<lparr>files = Map.empty, faults = []\<rparr>"
  have "records_of 64 (file_bytes ?w ''f'') = []" by (simp add: records_of_def file_bytes_def)
  then have "spec_run (array_step 64 False) (records_of 64 (file_bytes ?w ''f''), [], first_limit False (records_of 64 (file_bytes ?w ''f''))) sample_sops =
    Some ([pad 64 [1, 2], replicate 64 0, pad 64 [7]],
      [ODone, OBytes (pad 64 [1, 2]), OErr EOF, ODone, OBytes (pad 64 [1, 2]), ODone], Some 1)"
    by (simp add: array_step_def array_write_def first_limit_def may_read_def next_limit_def bufsize_def sample_sops_def)
  note run = this
  have "faults ?w = []" "0 < (64 :: nat)" "length (file_bytes ?w ''f'') = 64 * 0" "False \<longrightarrow> files ?w ''f'' \<noteq> None"
    by (simp_all add: file_bytes_def)
  from Store_is_an_array[OF this run] show ?thesis by simp
qed

text \<open>
  Closing a store makes its records durable: after any admitted run, \<open>Close\<close> succeeds and
  leaves them in the file, and a store opened read-only on that file reads them all back, whatever
  the record size.
\<close>

theorem Store_persists_records:
  assumes "faults w = []" "0 < rs" "length (file_bytes w p) = rs * l"
    and run: "spec_run (array_step rs False) (records_of rs (file_bytes w p), [], None) ops = Some (a, outs, lim)"
  shows "\<exists>s w1 s2 w2 s3 w3 s4 w4. Store_Open w (new_Store p rs False) = Inr (None, s, w1) \<and>
    go_run store_step (w1, s, []) ops = Inr (w2, s2, outs) \<and>
    Store_Close w2 s2 = Inr (None, s3, w3) \<and>
    Store_Open w3 (new_Store p rs True) = Inr (None, s4, w4) \<and>
    (\<forall>i < length a. \<exists>s5 w5. Store_Read (int i) (\<lambda>b. Inr (sl_bytes b)) w4 s4 = Inr (Inr (a ! i), s5, w5))"
proof -
  obtain s w1 where o: "Store_Open w (new_Store p rs False) = Inr (None, s, w1)"
    "store_rel p rs False (records_of rs (file_bytes w p), []) (w1, s, [])"
    using Store_Open_ok[OF assms(1-3), of False] by blast
  obtain w2 s2 where r: "go_run store_step (w1, s, []) ops = Inr (w2, s2, outs)" "run_rel p rs False (a, outs, lim) (w2, s2, outs)"
    using store.run_sim[OF run_rel_of_store_rel[OF o(2)], of ops "(a, outs, lim)"] run by (auto simp: run_rel_def first_limit_def)
  then have ok: "st_at lim w2 s2" "\<not> st_locked s2" "RecordSize s2 = rs" "array_of w2 s2 = a" and f: "st_File s2 = p" by (simp_all add: run_rel_def)
  obtain l2 where l2: "length (vc w2 s2) = rs * l2" using ok by (auto simp: st_at_def)
  obtain s3 w3 where c: "Store_Close w2 s2 = Inr (None, s3, w3)" "faults w3 = []" "file_bytes w3 p = vc w2 s2" "files w3 p \<noteq> None"
    using Store_Close_at[OF ok(1,2)] f by auto
  obtain s4 w4 where o4: "Store_Open w3 (new_Store p rs True) = Inr (None, s4, w4)" "store_rel p rs True (a, []) (w4, s4, [])"
    using Store_Open_ok[OF c(2) assms(2), of p l2 True] c(3,4) l2 ok(3,4) by (auto simp: array_of_def)
  have "\<exists>s5 w5. Store_Read (int i) (\<lambda>b. Inr (sl_bytes b)) w4 s4 = Inr (Inr (a ! i), s5, w5)" if "i < length a" for i
    using locked_read[of w4 s4 i "\<lambda>b. Inr (sl_bytes b)" "a ! i"] o4(2) that by (auto simp: store_rel_def can_read_def)
  with o(1) r(1) c(1) o4(1) show ?thesis by blast
qed

theorem Store_persists_records_witness:
  "\<exists>s w1 s2 w2 s3 w3 s4 w4 s5 w5. Store_Open \<lparr>files = Map.empty, faults = []\<rparr> (new_Store ''f'' 64 False) = Inr (None, s, w1) \<and>
    go_run store_step (w1, s, []) [SAppend [1, 2]] = Inr (w2, s2, [ODone]) \<and>
    Store_Close w2 s2 = Inr (None, s3, w3) \<and>
    Store_Open w3 (new_Store ''f'' 64 True) = Inr (None, s4, w4) \<and>
    Store_Read 0 (\<lambda>b. Inr (sl_bytes b)) w4 s4 = Inr (Inr (pad 64 [1, 2]), s5, w5)"
proof -
  have "spec_run (array_step 64 False) (records_of 64 (file_bytes \<lparr>files = Map.empty, faults = []\<rparr> ''f''), [], None) [SAppend [1, 2]] =
    Some ([pad 64 [1, 2]], [ODone], None)"
    by (simp add: array_step_def records_of_def file_bytes_def)
  note spec = this
  have "faults \<lparr>files = Map.empty, faults = []\<rparr> = []" "0 < (64 :: nat)" "length (file_bytes \<lparr>files = Map.empty, faults = []\<rparr> ''f'') = 64 * 0"
    by (simp_all add: file_bytes_def)
  from Store_persists_records[OF this spec] show ?thesis
    by (simp only: length_Cons list.size less_Suc0 One_nat_def add_0 add_0_right nth_Cons_0 simp_thms of_nat_0 plus_nat.simps) simp
qed

lemma failing_flush:
  assumes wf: "wb_wf p b" and r: "0 < wb_right b" and f: "faults w = Some k # fs"
  shows "\<exists>b' w'. WriteBuffer_Flush w b = Inr (Some EIO, b', w') \<and> wb_wf p b' \<and> wb_right b' = wb_right b \<and>
    wb_pos b' = wb_pos b \<and> wb_BufferSize b' = wb_BufferSize b \<and> MaxWriteSize b' = MaxWriteSize b \<and> wb_buf b' = wb_buf b"
proof -
  obtain h where h: "wb_W b = Some h" "own_handle p h" "wpos b = - 1 \<or> wpos b = int (h_cur h)" "wb_left b = 0"
    using wf by (auto simp: wb_wf_def)
  obtain bs where bs: "wb_buf b = Some bs" "wb_right b \<le> length bs" using wf r by (auto simp: wb_wf_def split: option.splits)
  show ?thesis
    using h bs f r wf
    by (cases "wpos b = wb_pos b")
      (auto simp: WriteBuffer_Flush_def Flush_seek_def os_Seek_def next_fault_def own_handle_def slice_range_def
        of_bytes_def wb_array_def os_Write_def Let_def wb_wf_def)
qed

text \<open>
  A write that fails can break the store for the next one. When a record fills the write buffer
  and the flush it triggers fails, \<open>WriteNolock\<close> reports the I/O error and keeps the record in the
  full buffer; writing the following record then needs no seek, so nothing flushes, and \<open>WriteBuffer\<close>
  slices past the end of the buffer: the store panics instead of reporting an error.
\<close>

theorem Write_after_failed_flush_panics:
  assumes st: "\<not> st_closed s" "\<not> st_ReadOnly s" "writer_ok s" "0 < RecordSize s"
    and full: "wb_BufferSize (st_wb s) < wb_right (st_wb s) + 2 * RecordSize s"
    and pos: "wb_pos (st_wb s) + int (wb_right (st_wb s)) = int (RecordSize s * i)"
    and e: "writes encode d" "length d \<le> RecordSize s" and fault: "faults w = Some k # fs"
  shows "\<exists>s' w'. WriteNolock (int i) encode w s = Inr (Some EIO, s', w') \<and>
    (\<forall>w2 encode2. WriteNolock (int i + 1) encode2 w2 s' = Inl SliceBoundsOutOfRange)"
proof -
  let ?rs = "RecordSize s" and ?p = "st_File s"
  have wf: "wb_wf ?p (st_wb s)" "wb_room (st_wb s)" "MaxWriteSize (st_wb s) = ?rs"
    using st by (auto simp: writer_ok_def)
  then have left: "wb_left (st_wb s) = 0" by (simp add: wb_wf_def)
  have sk: "WriteBuffer_Seek w (st_wb s) (int (?rs * i)) = Inr (None, st_wb s, w)"
    using pos left by (simp add: WriteBuffer_Seek_def)
  obtain b wb2 where sl: "WriteBuffer_WriteBuffer (st_wb s) = Inr (b, wb2)" "sl_len b = ?rs" "sl_wf b"
    "length (sl_arr b) = wb_BufferSize wb2 - wb_right wb2" "wb_wf ?p wb2" "wb_room wb2" "pending wb2 = pending (st_wb s)"
    "wb_right wb2 = wb_right (st_wb s)" "wb_pos wb2 = wb_pos (st_wb s)" "MaxWriteSize wb2 = ?rs"
    "wb_BufferSize wb2 = wb_BufferSize (st_wb s)" "length (wb_array wb2) = wb_BufferSize wb2"
    using wb_slice_ok[OF wf(1,2)] wf(3) by metis
  let ?b = "overwrite b (pad ?rs d)"
  have d: "length (pad ?rs d) = ?rs" using e(2) by (simp add: pad_def)
  have enc: "encode_padded encode b = Inr ?b" using encode_padded_ok e sl(2,3) by blast
  define wb3 where "wb3 = (put_buf wb2 ?b)\<lparr>wb_right := wb_right wb2 + ?rs\<rparr>"
  have arr3: "length (wb_array wb3) = wb_BufferSize wb2" "MaxWriteSize wb3 = ?rs" "wb_BufferSize wb3 = wb_BufferSize wb2"
    "wb_pos wb3 = wb_pos wb2" "wb_right wb3 = wb_right wb2 + ?rs" "wb_left wb3 = 0"
    using sl d by (auto simp: wb3_def put_buf_def wb_array_def overwrite_def sl_wf_def wb_room_def wb_wf_def)
  have wf3: "wb_wf ?p wb3"
    using sl(5,6,10) arr3 by (auto simp: wb_wf_def wb_room_def wb3_def put_buf_def wb_array_def)
  have wr: "WriteBuffer_Write w (put_buf wb2 ?b) ?rs = WriteBuffer_Flush w wb3"
    using arr3(1) sl(8,10,11) full unfolding WriteBuffer_Write_def wb3_def
    by (auto simp: put_buf_def wb_array_def Let_def)
  obtain er wb4 w4 where fl: "WriteBuffer_Flush w wb3 = Inr (Some er, wb4, w4)" "er = EIO" "wb_wf ?p wb4"
    "wb_right wb4 = wb_right wb3" "wb_pos wb4 = wb_pos wb3" "MaxWriteSize wb4 = ?rs" "wb_BufferSize wb4 = wb_BufferSize wb3" "wb_buf wb4 \<noteq> None"
    using failing_flush[OF wf3, of w k fs] fault st(4) arr3(5) unfolding arr3(2) by (auto simp: wb3_def put_buf_def)
  let ?s = "s\<lparr>st_rb := map_option DropCache (st_rb s), st_wb := wb4\<rparr>"
  have "WriteNolock (int i) encode w s = Inr (Some EIO, ?s, w4)"
    using st(1,2) sk sl(1) enc wr fl(1,2) by (simp add: WriteNolock_def Let_def)
  moreover have "WriteNolock (int i + 1) encode2 w2 ?s = Inl SliceBoundsOutOfRange" for w2 encode2
  proof -
    have "wb_pos wb4 + int (wb_right wb4) - int (wb_left wb4) = int ?rs * (int i + 1)"
      using fl(3,4,5) arr3(4,5) sl(8,9) pos by (simp add: wb_wf_def algebra_simps)
    then have "WriteBuffer_Seek w2 wb4 (int ?rs * (int i + 1)) = Inr (None, wb4, w2)"
      by (simp add: WriteBuffer_Seek_def)
    moreover have "WriteBuffer_WriteBuffer wb4 = Inl SliceBoundsOutOfRange"
      using fl(3,4,6,7,8) arr3(3,5) sl(8,11) full
      by (auto simp: WriteBuffer_WriteBuffer_def Let_def slice_range_def of_bytes_def wb_array_def wb_wf_def)
    ultimately show ?thesis using st(1,2) by (simp add: WriteNolock_def Let_def)
  qed
  ultimately show ?thesis by blast
qed

definition sample_full_store :: Store where
  "sample_full_store = (new_Store ''f'' 2 False)\<lparr>st_wb :=
     (new_WriteBuffer \<lparr>h_path = ''f'', h_cur = 0, h_append = False, h_open = True\<rparr> 2 4)
       \<lparr>wb_buf := Some [1, 1, 0, 0], wb_right := 2\<rparr>, st_records := 1\<rparr>"

theorem Write_after_failed_flush_panics_witness:
  "\<exists>s' w'. WriteNolock 1 (put_bytes [2, 2]) \<lparr>files = [''f'' \<mapsto> []], faults = [Some 0]\<rparr> sample_full_store = Inr (Some EIO, s', w') \<and>
    WriteNolock 2 (put_bytes [3, 3]) w' s' = Inl SliceBoundsOutOfRange"
proof -
  have "writer_ok sample_full_store"
    by (simp add: writer_ok_def sample_full_store_def new_Store_def new_WriteBuffer_def zero_WriteBuffer_def wb_wf_def
        own_handle_def wb_room_def)
  then have "\<exists>s' w'. WriteNolock (int 1) (put_bytes [2, 2]) \<lparr>files = [''f'' \<mapsto> []], faults = [Some 0]\<rparr> sample_full_store =
      Inr (Some EIO, s', w') \<and> (\<forall>w2 encode2. WriteNolock (int 1 + 1) encode2 w2 s' = Inl SliceBoundsOutOfRange)"
    by (intro Write_after_failed_flush_panics[where d = "[2, 2]" and k = 0 and fs = "[]"] writes_put_bytes)
      (simp_all add: sample_full_store_def new_Store_def new_WriteBuffer_def zero_WriteBuffer_def)
  then show ?thesis by (simp only: of_nat_1 one_add_one) blast
qed

end
