(* ===== verification/Stores.thy ===== *)
theory Stores
  imports Store Encoding
begin

section \<open>Stores: typed record stores (\<open>tracer/storage/stores.go\<close>)\<close>

text \<open>
  \<open>RawFuncLogStore\<close>, \<open>FuncLogStore\<close> and \<open>GoroutineStore\<close> embed a \<open>Store\<close> and put a record at the
  index that is its identifier. \<open>cap\<close> is the capacity of the frames slice of the record the caller
  passes to \<open>Get\<close>. The locale \<open>record_store\<close> is what the three share: a codec whose encodings fit
  the record size of the store.
\<close>

definition decoded :: "(slice \<Rightarrow> ('a \<times> nat) go) \<Rightarrow> 'a DecodeFn" where
  "decoded u b = go_bind (u b) (\<lambda>(x, _). Inr x)"

subsection \<open>Operations\<close>

definition RawFuncLog_GetNolock ::
  "nat \<Rightarrow> RawFuncLogID \<Rightarrow> world \<Rightarrow> Store \<Rightarrow> ((error + RawFuncLog) \<times> Store \<times> world) go" where
  "RawFuncLog_GetNolock cap i = ReadNolock (sint i) (decoded (UnmarshalRawFuncLog cap))"

definition RawFuncLog_SetNolock :: "RawFuncLog \<Rightarrow> world \<Rightarrow> Store \<Rightarrow> (error option \<times> Store \<times> world) go" where
  "RawFuncLog_SetNolock raw = WriteNolock (sint (raw_ID raw)) (MarshalRawFuncLog raw)"

definition RawFuncLog_Get ::
  "nat \<Rightarrow> RawFuncLogID \<Rightarrow> world \<Rightarrow> Store \<Rightarrow> ((error + RawFuncLog) \<times> Store \<times> world) go" where
  "RawFuncLog_Get cap i = with_lock (RawFuncLog_GetNolock cap i)"

definition RawFuncLog_Set :: "RawFuncLog \<Rightarrow> world \<Rightarrow> Store \<Rightarrow> (error option \<times> Store \<times> world) go" where
  "RawFuncLog_Set raw = with_lock (RawFuncLog_SetNolock raw)"

definition FuncLog_GetNolock ::
  "nat \<Rightarrow> FuncLogID \<Rightarrow> world \<Rightarrow> Store \<Rightarrow> ((error + FuncLog) \<times> Store \<times> world) go" where
  "FuncLog_GetNolock cap i = ReadNolock (sint i) (decoded (UnmarshalFuncLog cap))"

definition FuncLog_SetNolock :: "FuncLog \<Rightarrow> world \<Rightarrow> Store \<Rightarrow> (error option \<times> Store \<times> world) go" where
  "FuncLog_SetNolock fl = WriteNolock (sint (fl_ID fl)) (MarshalFuncLog fl)"

definition FuncLog_Get ::
  "nat \<Rightarrow> FuncLogID \<Rightarrow> world \<Rightarrow> Store \<Rightarrow> ((error + FuncLog) \<times> Store \<times> world) go" where
  "FuncLog_Get cap i = with_lock (FuncLog_GetNolock cap i)"

definition FuncLog_Set :: "FuncLog \<Rightarrow> world \<Rightarrow> Store \<Rightarrow> (error option \<times> Store \<times> world) go" where
  "FuncLog_Set fl = with_lock (FuncLog_SetNolock fl)"

definition Goroutine_GetNolock :: "GID \<Rightarrow> world \<Rightarrow> Store \<Rightarrow> ((error + Goroutine) \<times> Store \<times> world) go" where
  "Goroutine_GetNolock i = ReadNolock (sint i) (decoded UnmarshalGoroutine)"

definition Goroutine_SetNolock :: "Goroutine \<Rightarrow> world \<Rightarrow> Store \<Rightarrow> (error option \<times> Store \<times> world) go" where
  "Goroutine_SetNolock g = WriteNolock (sint (g_GID g)) (MarshalGoroutine g)"

definition Goroutine_Get :: "GID \<Rightarrow> world \<Rightarrow> Store \<Rightarrow> ((error + Goroutine) \<times> Store \<times> world) go" where
  "Goroutine_Get i = with_lock (Goroutine_GetNolock i)"

definition Goroutine_Set :: "Goroutine \<Rightarrow> world \<Rightarrow> Store \<Rightarrow> (error option \<times> Store \<times> world) go" where
  "Goroutine_Set g = with_lock (Goroutine_SetNolock g)"

text \<open>A loop that sets one record after the other and stops at the first error.\<close>

fun set_each ::
  "('a \<Rightarrow> world \<Rightarrow> Store \<Rightarrow> (error option \<times> Store \<times> world) go) \<Rightarrow> 'a list \<Rightarrow> world \<Rightarrow> Store \<Rightarrow>
   (error option \<times> Store \<times> world) go" where
  "set_each setx [] w s = Inr (None, s, w)"
| "set_each setx (x # xs) w s =
     go_bind (setx x w s) (\<lambda>(e, s, w).
     case e of Some e \<Rightarrow> Inr (Some e, s, w) | None \<Rightarrow> set_each setx xs w s)"

text \<open>A loop that gets \<open>n\<close> records from \<open>i\<close> on and stops at the first error: the error and the records before it.\<close>

fun get_each ::
  "(int64 \<Rightarrow> world \<Rightarrow> Store \<Rightarrow> ((error + 'a) \<times> Store \<times> world) go) \<Rightarrow> nat \<Rightarrow> int64 \<Rightarrow> world \<Rightarrow> Store \<Rightarrow>
   ((error option \<times> 'a list) \<times> Store \<times> world) go" where
  "get_each getx 0 i w s = Inr ((None, []), s, w)"
| "get_each getx (Suc n) i w s =
     go_bind (getx i w s) (\<lambda>(r, s, w).
     case r of
       Inl e \<Rightarrow> Inr ((Some e, []), s, w)
     | Inr x \<Rightarrow> go_bind (get_each getx n (i + 1) w s) (\<lambda>((e, xs), s, w). Inr ((e, x # xs), s, w)))"

subsection \<open>The contract of a typed store\<close>

locale record_store = codec marshal unmarshal enc ok
  for marshal :: "'a \<Rightarrow> slice \<Rightarrow> (slice \<times> nat) go"
    and unmarshal :: "slice \<Rightarrow> ('a \<times> nat) go"
    and enc :: "'a \<Rightarrow> byte list"
    and ok :: "'a \<Rightarrow> bool" +
  fixes rs :: nat
    and rid :: "'a \<Rightarrow> int64"
  assumes fits: "ok x \<Longrightarrow> length (enc x) \<le> rs"
    and rid_nonneg: "ok x \<Longrightarrow> 0 \<le> sint (rid x)"
    and rs_pos: "0 < rs"
begin

definition put :: "byte list list \<Rightarrow> 'a \<Rightarrow> byte list list" where
  "put a x = array_write rs a (nat (sint (rid x))) (pad rs (enc x))"

lemma decoded_pad: "ok x \<Longrightarrow> decoded unmarshal (of_bytes (pad rs (enc x))) = Inr x"
  using readsD[OF unmarshal_reads, of x "of_bytes (pad rs (enc x))"]
  by (simp add: decoded_def holds_at_def of_bytes_def sl_wf_def pad_def)

lemma set_ok:
  assumes "st_ok w s" "\<not> st_locked s" "\<not> st_ReadOnly s" "RecordSize s = rs" "ok x"
  shows "\<exists>s' w'. with_lock (WriteNolock (sint (rid x)) (marshal x)) w s = Inr (None, s', w') \<and> st_ok w' s' \<and>
    same_store s s' \<and> array_of w' s' = put (array_of w s) x \<and> frame (st_File s) w w'"
  using locked_write[OF assms(1-3) marshal_writes[OF assms(5)], of "nat (sint (rid x))"] assms(4,5) fits rid_nonneg
  by (auto simp: put_def)

lemma set_each_ok:
  assumes "st_ok w s" "\<not> st_locked s" "\<not> st_ReadOnly s" "RecordSize s = rs" "list_all ok xs"
  shows "\<exists>s' w'. set_each (\<lambda>x. with_lock (WriteNolock (sint (rid x)) (marshal x))) xs w s = Inr (None, s', w') \<and>
    st_ok w' s' \<and> same_store s s' \<and> array_of w' s' = fold (\<lambda>x a. put a x) xs (array_of w s) \<and> frame (st_File s) w w'"
  using assms
proof (induction xs arbitrary: w s)
  case (Cons x xs)
  obtain s1 w1 where st: "with_lock (WriteNolock (sint (rid x)) (marshal x)) w s = Inr (None, s1, w1)" "st_ok w1 s1"
    "same_store s s1" "array_of w1 s1 = put (array_of w s) x" "frame (st_File s) w w1" using set_ok[OF Cons.prems(1-4), of x] Cons.prems(5) by auto
  then obtain s2 w2 where "set_each (\<lambda>x. with_lock (WriteNolock (sint (rid x)) (marshal x))) xs w1 s1 = Inr (None, s2, w2)"
    "st_ok w2 s2" "same_store s1 s2" "array_of w2 s2 = fold (\<lambda>x a. put a x) xs (array_of w1 s1)" "frame (st_File s1) w1 w2"
    using Cons.IH[of w1 s1] Cons.prems by (auto simp: same_store_def)
  then show ?case using st by (auto simp: same_store_def intro: frame_trans)
qed (simp add: same_store_def)

lemma get_ok:
  assumes "st_ok w s" "\<not> st_locked s" "can_read s" "nat (sint i) < length (array_of w s)" "0 \<le> sint i"
    "array_of w s ! nat (sint i) = pad rs (enc x)" "ok x"
  shows "\<exists>s' w'. with_lock (ReadNolock (sint i) (decoded unmarshal)) w s = Inr (Inr x, s', w')"
  using locked_read[OF assms(1-3), of "nat (sint i)" "decoded unmarshal" x] assms(4-7) decoded_pad
  by (auto simp: Store_Read_def)

text \<open>The record found at an index is the last one put there.\<close>

lemma fold_put_length: "length a \<le> length (fold (\<lambda>x a. put a x) xs a)"
proof (induction xs arbitrary: a)
  case (Cons x xs)
  have "length a \<le> length (put a x)" by (simp add: put_def length_array_write)
  then show ?case using Cons[of "put a x"] by simp
qed simp

lemma fold_put_nth:
  assumes "list_all ok xs" "map_of (map (\<lambda>x. (rid x, x)) (rev xs)) i = Some x"
  shows "nat (sint i) < length (fold (\<lambda>x a. put a x) xs a) \<and>
    fold (\<lambda>x a. put a x) xs a ! nat (sint i) = pad rs (enc x)"
  using assms
proof (induction xs rule: rev_induct)
  case (snoc y ys)
  let ?a = "fold (\<lambda>x a. put a x) ys a"
  show ?case
  proof (cases "rid y = i")
    case True
    then show ?thesis using snoc.prems by (simp add: put_def length_array_write nth_array_write)
  next
    case False
    then have "sint (rid y) \<noteq> sint i" by (auto dest: signed_word_eqI)
    moreover have "map_of (map (\<lambda>x. (rid x, x)) (rev ys)) i = Some x" using snoc.prems(2) False by simp
    moreover from map_of_SomeD[OF this] have "0 \<le> sint i" using snoc.prems(1) rid_nonneg by (auto simp: list_all_iff)
    moreover have "0 \<le> sint (rid y)" using snoc.prems(1) rid_nonneg by simp
    ultimately show ?thesis using snoc
      by (simp add: put_def length_array_write nth_array_write nat_eq_iff less_max_iff_disj)
  qed
qed simp

lemma fold_put_other:
  assumes "list_all ok xs" "\<forall>x \<in> set xs. rid x \<noteq> i" "0 \<le> sint i" "nat (sint i) < length a"
  shows "fold (\<lambda>x a. put a x) xs a ! nat (sint i) = a ! nat (sint i)"
  using assms
proof (induction xs arbitrary: a)
  case (Cons x xs)
  have "sint (rid x) \<noteq> sint i" using Cons.prems(2) by (auto dest: signed_word_eqI)
  moreover have "0 \<le> sint (rid x)" using Cons.prems(1) rid_nonneg by simp
  ultimately have "nat (sint (rid x)) \<noteq> nat (sint i)" using Cons.prems(3) by (simp add: nat_eq_iff)
  then have "put a x ! nat (sint i) = a ! nat (sint i)" "nat (sint i) < length (put a x)"
    using Cons.prems(4) by (simp_all add: put_def length_array_write nth_array_write)
  then show ?case using Cons.IH[of "put a x"] Cons.prems by simp
qed simp

text \<open>Setting records while the lock is held.\<close>

lemma set_each_nolock:
  assumes "st_ok w s" "\<not> st_ReadOnly s" "RecordSize s = rs" "list_all ok xs"
  shows "\<exists>s' w'. set_each (\<lambda>x. WriteNolock (sint (rid x)) (marshal x)) xs w s = Inr (None, s', w') \<and>
    st_ok w' s' \<and> same_store s s' \<and> array_of w' s' = fold (\<lambda>x a. put a x) xs (array_of w s) \<and> frame (st_File s) w w'"
  using assms
proof (induction xs arbitrary: w s)
  case (Cons x xs)
  have "writes (marshal x) (enc x)" "length (enc x) \<le> RecordSize s" "sint (rid x) = int (nat (sint (rid x)))"
    using Cons.prems(3,4) marshal_writes fits rid_nonneg by simp_all
  then obtain s1 w1 where 1: "WriteNolock (sint (rid x)) (marshal x) w s = Inr (None, s1, w1)" "st_ok w1 s1"
    "array_of w1 s1 = put (array_of w s) x" "same_store s s1" "frame (st_File s) w w1"
    using WriteNolock_ok[OF Cons.prems(1,2), of "marshal x" "enc x" "nat (sint (rid x))"] Cons.prems(3) by (auto simp: put_def)
  then obtain s2 w2 where "set_each (\<lambda>x. WriteNolock (sint (rid x)) (marshal x)) xs w1 s1 = Inr (None, s2, w2)"
    "st_ok w2 s2" "same_store s1 s2" "array_of w2 s2 = fold (\<lambda>x a. put a x) xs (array_of w1 s1)" "frame (st_File s1) w1 w2"
    using Cons.IH[of w1 s1] Cons.prems by (auto simp: same_store_def)
  then show ?case using 1 by (auto simp: same_store_def intro: frame_trans)
qed (simp add: same_store_def)

lemma locked_set_each:
  assumes "st_ok w s" "\<not> st_locked s" "\<not> st_ReadOnly s" "RecordSize s = rs" "list_all ok xs"
  shows "\<exists>s' w'. with_lock (set_each (\<lambda>x. WriteNolock (sint (rid x)) (marshal x)) xs) w s = Inr (None, s', w') \<and>
    st_ok w' s' \<and> same_store s s' \<and> array_of w' s' = fold (\<lambda>x a. put a x) xs (array_of w s) \<and> frame (st_File s) w w'"
proof -
  let ?s = "s\<lparr>st_locked := True\<rparr>"
  obtain s' w' where "set_each (\<lambda>x. WriteNolock (sint (rid x)) (marshal x)) xs w ?s = Inr (None, s', w')" "st_ok w' s'" "same_store ?s s'"
    "array_of w' s' = fold (\<lambda>x a. put a x) xs (array_of w s)" "frame (st_File s) w w'"
    using set_each_nolock[of w ?s xs] assms by auto
  then show ?thesis using with_lock_eq[OF assms(2)] assms(2) by (fastforce simp: same_store_def)
qed

lemma fold_put_bound:
  assumes "list_all ok xs" "\<forall>x \<in> set xs. nat (sint (rid x)) < n" "length a \<le> n"
  shows "length (fold (\<lambda>x a. put a x) xs a) \<le> n"
  using assms
proof (induction xs arbitrary: a)
  case (Cons x xs)
  then have "length (put a x) \<le> n" by (simp add: put_def length_array_write)
  then show ?case using Cons by simp
qed simp

text \<open>Getting records one after the other while the lock is held.\<close>

lemma get_each_nolock:
  assumes "st_ok w s" "can_read s" "array_of w s = map (\<lambda>x. pad rs (enc x)) xs" "list_all ok xs" "k + n \<le> length xs" "length xs < 2 ^ 63"
  shows "\<exists>s' w'. get_each (\<lambda>i. ReadNolock (sint i) (decoded unmarshal)) n (word_of_nat k) w s = Inr ((None, take n (drop k xs)), s', w') \<and>
    st_ok w' s' \<and> same_store s s' \<and> array_of w' s' = array_of w s \<and> frame (st_File s) w w'"
  using assms(1-3,5)
proof (induction n arbitrary: k w s)
  case (Suc n)
  have k: "k < length xs" and sk: "sint (word_of_nat k :: int64) = int k"
    using Suc.prems(4) assms(6) by (simp_all add: signed_of_nat signed_take_bit_int_eq_self)
  have "decoded unmarshal (of_bytes (array_of w s ! k)) = Inr (xs ! k)" using Suc.prems(3) k assms(4) decoded_pad by (simp add: list_all_length)
  then obtain s1 w1 where 1: "ReadNolock (sint (word_of_nat k :: int64)) (decoded unmarshal) w s = Inr (Inr (xs ! k), s1, w1)" "st_ok w1 s1"
    "array_of w1 s1 = array_of w s" "same_store s s1" "frame (st_File s) w w1"
    using ReadNolock_ok[OF Suc.prems(1,2), of k "decoded unmarshal"] Suc.prems(3) k sk by auto
  moreover have "can_read s1" using Suc.prems(2) 1(4) by (simp add: can_read_def same_store_def)
  ultimately obtain s2 w2 where 2: "get_each (\<lambda>i. ReadNolock (sint i) (decoded unmarshal)) n (word_of_nat (k + 1)) w1 s1 = Inr ((None, take n (drop (k + 1) xs)), s2, w2)"
    "st_ok w2 s2" "same_store s1 s2" "array_of w2 s2 = array_of w1 s1" "frame (st_File s1) w1 w2"
    using Suc.IH[of w1 s1 "k + 1"] Suc.prems(3,4) by auto
  have "drop k xs = xs ! k # drop (k + 1) xs" using k by (simp add: Cons_nth_drop_Suc)
  then show ?case using 1 2 by (auto simp: same_store_def add.commute intro: frame_trans)
qed (simp add: same_store_def)

lemma reads_its_writes:
  assumes "faults w = []" "length (file_bytes w p) = rs * l" "list_all ok xs"
    and last: "map_of (map (\<lambda>x. (rid x, x)) (rev xs)) i = Some x" and nd: "\<not> rs dvd bufsize rs"
  shows "\<exists>s w1 s2 w2 s3 w3. Store_Open w (new_Store p rs False) = Inr (None, s, w1) \<and>
    set_each (\<lambda>x. with_lock (WriteNolock (sint (rid x)) (marshal x))) xs w1 s = Inr (None, s2, w2) \<and>
    with_lock (ReadNolock (sint i) (decoded unmarshal)) w2 s2 = Inr (Inr x, s3, w3)"
proof -
  obtain s w1 where o: "Store_Open w (new_Store p rs False) = Inr (None, s, w1)"
    "store_rel p rs False (records_of rs (file_bytes w p), []) (w1, s, [])"
    using Store_Open_ok[OF assms(1) rs_pos assms(2), of False] by blast
  then obtain s2 w2 where r: "set_each (\<lambda>x. with_lock (WriteNolock (sint (rid x)) (marshal x))) xs w1 s = Inr (None, s2, w2)"
    "st_ok w2 s2" "same_store s s2" "array_of w2 s2 = fold (\<lambda>x a. put a x) xs (array_of w1 s)"
    using set_each_ok[of w1 s xs] assms(3) by (auto simp: store_rel_def)
  have x: "ok x" "rid x = i" using map_of_SomeD[OF last] assms(3) by (auto simp: list_all_iff)
  have "\<exists>s3 w3. with_lock (ReadNolock (sint i) (decoded unmarshal)) w2 s2 = Inr (Inr x, s3, w3)"
    using o(2) r(2-4) fold_put_nth[OF assms(3) last, of "array_of w1 s"] x rid_nonneg[OF x(1)] nd
    by (intro get_ok) (auto simp: store_rel_def can_read_def same_store_def)
  with o(1) r(1) show ?thesis by blast
qed

lemma persists:
  assumes "faults w = []" "length (file_bytes w p) = rs * l" "list_all ok xs"
    and last: "map_of (map (\<lambda>x. (rid x, x)) (rev xs)) i = Some x"
  shows "\<exists>s w1 s2 w2 s3 w3 s4 w4 s5 w5. Store_Open w (new_Store p rs False) = Inr (None, s, w1) \<and>
    set_each (\<lambda>x. with_lock (WriteNolock (sint (rid x)) (marshal x))) xs w1 s = Inr (None, s2, w2) \<and>
    Store_Close w2 s2 = Inr (None, s3, w3) \<and> Store_Open w3 (new_Store p rs True) = Inr (None, s4, w4) \<and>
    with_lock (ReadNolock (sint i) (decoded unmarshal)) w4 s4 = Inr (Inr x, s5, w5)"
proof -
  obtain s w1 where o: "Store_Open w (new_Store p rs False) = Inr (None, s, w1)"
    "store_rel p rs False (records_of rs (file_bytes w p), []) (w1, s, [])"
    using Store_Open_ok[OF assms(1) rs_pos assms(2), of False] by blast
  then obtain s2 w2 where r: "set_each (\<lambda>x. with_lock (WriteNolock (sint (rid x)) (marshal x))) xs w1 s = Inr (None, s2, w2)"
    "st_ok w2 s2" "same_store s s2" "array_of w2 s2 = fold (\<lambda>x a. put a x) xs (array_of w1 s)"
    using set_each_ok[of w1 s xs] assms(3) by (auto simp: store_rel_def)
  have s2: "\<not> st_locked s2" "st_File s2 = p" "RecordSize s2 = rs" using o(2) r(3) by (auto simp: store_rel_def same_store_def)
  obtain l2 where l2: "length (vc w2 s2) = rs * l2" using r(2) s2(3) by (auto simp: st_ok_def st_at_def)
  obtain s3 w3 where c: "Store_Close w2 s2 = Inr (None, s3, w3)" "faults w3 = []" "file_bytes w3 p = vc w2 s2" "files w3 p \<noteq> None"
    using Store_Close_ok[OF r(2) s2(1)] s2(2) by auto
  obtain s4 w4 where o4: "Store_Open w3 (new_Store p rs True) = Inr (None, s4, w4)"
    "store_rel p rs True (array_of w2 s2, []) (w4, s4, [])"
    using Store_Open_ok[OF c(2) rs_pos, of p l2 True] c(3,4) l2 s2(3) by (auto simp: array_of_def)
  have x: "ok x" "rid x = i" using map_of_SomeD[OF last] assms(3) by (auto simp: list_all_iff)
  have "\<exists>s5 w5. with_lock (ReadNolock (sint i) (decoded unmarshal)) w4 s4 = Inr (Inr x, s5, w5)"
    using o4(2) fold_put_nth[OF assms(3) last, of "array_of w1 s"] r(4) x rid_nonneg[OF x(1)]
    by (intro get_ok) (auto simp: store_rel_def can_read_def)
  with o(1) r(1) c(1) o4(1) show ?thesis by blast
qed

end

lemma SizeGoroutine_eq: "SizeGoroutine = 24"
  by (simp add: SizeGoroutine_def)

interpretation rawfunclogs: record_store MarshalRawFuncLog "UnmarshalRawFuncLog MaxStackSize" enc_RawFuncLog
  "\<lambda>r. length (raw_Frames r) \<le> MaxStackSize \<and> 0 \<le> sint (raw_ID r)" SizeRawFuncLog raw_ID
proof unfold_locales
  fix x :: RawFuncLog assume ok: "length (raw_Frames x) \<le> MaxStackSize \<and> 0 \<le> sint (raw_ID x)"
  show "writes (MarshalRawFuncLog x) (enc_RawFuncLog x)" by (rule RawFuncLog_writes)
  show "reads (UnmarshalRawFuncLog MaxStackSize) (enc_RawFuncLog x) x" using ok by (intro RawFuncLog_reads) (simp_all add: MaxStackSize_def)
  show "length (enc_RawFuncLog x) \<le> SizeRawFuncLog" "0 \<le> sint (raw_ID x)"
    using ok by (simp_all add: length_enc_RawFuncLog SizeRawFuncLog_def MaxStackSize_def)
qed (simp add: SizeRawFuncLog_def)

interpretation funclogs: record_store MarshalFuncLog "UnmarshalFuncLog MaxStackSize" enc_FuncLog
  "\<lambda>f. length (fl_Frames f) \<le> MaxStackSize \<and> 0 \<le> sint (fl_ID f)" SizeFuncLog fl_ID
proof unfold_locales
  fix x :: FuncLog assume ok: "length (fl_Frames x) \<le> MaxStackSize \<and> 0 \<le> sint (fl_ID x)"
  show "writes (MarshalFuncLog x) (enc_FuncLog x)" by (rule FuncLog_writes)
  show "reads (UnmarshalFuncLog MaxStackSize) (enc_FuncLog x) x" using ok by (intro FuncLog_reads) (simp_all add: MaxStackSize_def)
  show "length (enc_FuncLog x) \<le> SizeFuncLog" "0 \<le> sint (fl_ID x)"
    using ok by (simp_all add: length_enc_FuncLog SizeFuncLog_def MaxStackSize_def)
qed (simp add: SizeFuncLog_def)

interpretation goroutines: record_store MarshalGoroutine UnmarshalGoroutine enc_Goroutine
  "\<lambda>g. 0 \<le> sint (g_GID g)" SizeGoroutine g_GID
  by unfold_locales
    (auto intro: goroutine.marshal_writes goroutine.unmarshal_reads
      simp: goroutine.size_enc SizeGoroutine_eq)

subsection \<open>Properties\<close>

text \<open>
  What the server writes to a \<open>FuncLogStore\<close> is what a reader finds: setting any sequence of call
  records succeeds, and after the store is closed and the file opened again read-only, \<open>Get\<close> of
  an identifier returns the record that was set last under it.
\<close>

theorem FuncLogStore_persists:
  assumes "faults w = []" "length (file_bytes w p) = SizeFuncLog * l"
    and "list_all (\<lambda>f. length (fl_Frames f) \<le> MaxStackSize \<and> 0 \<le> sint (fl_ID f)) fls"
    and "map_of (map (\<lambda>f. (fl_ID f, f)) (rev fls)) i = Some fl"
  shows "\<exists>s w1 s2 w2 s3 w3 s4 w4 s5 w5. Store_Open w (new_Store p SizeFuncLog False) = Inr (None, s, w1) \<and>
    set_each FuncLog_Set fls w1 s = Inr (None, s2, w2) \<and>
    Store_Close w2 s2 = Inr (None, s3, w3) \<and>
    Store_Open w3 (new_Store p SizeFuncLog True) = Inr (None, s4, w4) \<and>
    FuncLog_Get MaxStackSize i w4 s4 = Inr (Inr fl, s5, w5)"
  using funclogs.persists[OF assms]
  by (simp add: FuncLog_Set_def[abs_def] FuncLog_SetNolock_def[abs_def] FuncLog_Get_def FuncLog_GetNolock_def)

definition sample_fl :: "FuncLogID \<Rightarrow> Time \<Rightarrow> FuncLog" where
  "sample_fl i t = \<lparr>fl_ID = i, fl_StartTime = 10, fl_EndTime = t, fl_ParentID = -1, fl_Frames = [4096], fl_GID = 1\<rparr>"

theorem FuncLogStore_persists_witness:
  "\<exists>s w1 s2 w2 s3 w3 s4 w4 s5 w5.
    Store_Open \<lparr>files = Map.empty, faults = []\<rparr> (new_Store ''f'' SizeFuncLog False) = Inr (None, s, w1) \<and>
    set_each FuncLog_Set [sample_fl 1 (- 1), sample_fl 0 20, sample_fl 1 30] w1 s = Inr (None, s2, w2) \<and>
    Store_Close w2 s2 = Inr (None, s3, w3) \<and>
    Store_Open w3 (new_Store ''f'' SizeFuncLog True) = Inr (None, s4, w4) \<and>
    FuncLog_Get MaxStackSize 1 w4 s4 = Inr (Inr (sample_fl 1 30), s5, w5)"
  by (rule FuncLogStore_persists[of _ _ 0]) (simp_all add: file_bytes_def sample_fl_def MaxStackSize_def)

text \<open>
  A goroutine store can be read while it is open for writing: after any sequence of \<open>Set\<close>, \<open>Get\<close>
  of a goroutine returns the record that was set last under its identifier, with no flush or close
  in between. This needs the record size, 24, not to divide the 4096 bytes of the buffer.
\<close>

theorem GoroutineStore_reads_its_writes:
  assumes "faults w = []" "length (file_bytes w p) = SizeGoroutine * l" "list_all (\<lambda>g. 0 \<le> sint (g_GID g)) gs"
    and "map_of (map (\<lambda>g. (g_GID g, g)) (rev gs)) i = Some g"
  shows "\<exists>s w1 s2 w2 s3 w3. Store_Open w (new_Store p SizeGoroutine False) = Inr (None, s, w1) \<and>
    set_each Goroutine_Set gs w1 s = Inr (None, s2, w2) \<and>
    Goroutine_Get i w2 s2 = Inr (Inr g, s3, w3)"
proof -
  have "\<not> SizeGoroutine dvd bufsize SizeGoroutine" by (simp add: SizeGoroutine_eq bufsize_def)
  from goroutines.reads_its_writes[OF assms this] show ?thesis
    by (simp add: Goroutine_Set_def[abs_def] Goroutine_SetNolock_def[abs_def] Goroutine_Get_def Goroutine_GetNolock_def)
qed

theorem GoroutineStore_reads_its_writes_witness:
  "\<exists>s w1 s2 w2 s3 w3. Store_Open \<lparr>files = Map.empty, faults = []\<rparr> (new_Store ''g'' SizeGoroutine False) = Inr (None, s, w1) \<and>
    set_each Goroutine_Set [\<lparr>g_GID = 2, g_StartTime = 1, g_EndTime = -1\<rparr>, \<lparr>g_GID = 2, g_StartTime = 1, g_EndTime = 9\<rparr>] w1 s =
      Inr (None, s2, w2) \<and>
    Goroutine_Get 2 w2 s2 = Inr (Inr \<lparr>g_GID = 2, g_StartTime = 1, g_EndTime = 9\<rparr>, s3, w3)"
  by (rule GoroutineStore_reads_its_writes[of _ _ 0]) (simp_all add: file_bytes_def)

end
