(* ===== verification/Index.thy ===== *)
theory Index
  imports Files Types
begin

section \<open>Index: the time index of a log (\<open>tracer/storage/index.go\<close>)\<close>

text \<open>
  The index keeps one record per block of calls. On disk it is one \<open>encoding/gob\<close> value; the
  encoder and decoder are the arguments \<open>gob_enc\<close> and \<open>gob_dec\<close>. \<open>idx_records\<close> is \<open>None\<close> while
  the index has not been loaded (a nil slice). A \<open>gob\<close> read or write is one I/O call.
\<close>

record IndexRecord =
  MinID :: int64
  MaxID :: int64
  MinStart :: Time
  MaxStart :: Time
  MinEnd :: Time
  MaxEnd :: Time

record Index =
  idx_File :: string
  idx_ReadOnly :: bool
  idx_records :: "IndexRecord list option"

type_synonym gob_encoder = "IndexRecord list \<Rightarrow> byte list"
type_synonym gob_decoder = "byte list \<Rightarrow> error + IndexRecord list"

definition idx_list :: "Index \<Rightarrow> IndexRecord list" where
  "idx_list idx = (case idx_records idx of None \<Rightarrow> [] | Some rs \<Rightarrow> rs)"

subsection \<open>Loading and saving\<close>

definition Index_Open :: "Index \<Rightarrow> error option" where
  "Index_Open idx = None"

definition Index_Load :: "gob_decoder \<Rightarrow> world \<Rightarrow> Index \<Rightarrow> error option \<times> Index \<times> world" where
  "Index_Load gob_dec w idx =
     (case ReadAll w (idx_File idx) of
        (bs, Some e, w) \<Rightarrow> (Some e, idx, w)
      | (bs, None, w) \<Rightarrow>
          (case gob_dec bs of
             Inl e \<Rightarrow> (Some e, idx, w)
           | Inr rs \<Rightarrow> (None, idx\<lparr>idx_records := Some rs\<rparr>, w)))"

definition mustLoad :: "gob_decoder \<Rightarrow> world \<Rightarrow> Index \<Rightarrow> (Index \<times> world) go" where
  "mustLoad gob_dec w idx =
     (if idx_records idx \<noteq> None then Inr (idx, w)
      else if \<not> idx_ReadOnly idx \<and> \<not> File_Exists w (idx_File idx) then Inr (idx\<lparr>idx_records := Some []\<rparr>, w)
      else case Index_Load gob_dec w idx of
             (e, idx, w) \<Rightarrow>
               if e \<noteq> None \<and> e \<noteq> Some EOF then Inl (Panic ''Load'') else Inr (idx, w))"

definition Save_write :: "gob_encoder \<Rightarrow> world \<Rightarrow> Index \<Rightarrow> IndexRecord list \<Rightarrow> error option \<times> world" where
  "Save_write gob_enc w idx rs =
     (case OpenWriteOnly w (idx_File idx) of
        (None, e, w) \<Rightarrow> (e, w)
      | (Some h, _, w) \<Rightarrow> (case os_Write w h (gob_enc rs) of (_, _, e, w) \<Rightarrow> (e, w)))"

definition Index_Save :: "gob_encoder \<Rightarrow> world \<Rightarrow> Index \<Rightarrow> error option \<times> world" where
  "Index_Save gob_enc w idx =
     (if idx_ReadOnly idx then (Some ErrReadOnly, w)
      else case idx_records idx of
        None \<Rightarrow> (None, w)
      | Some rs \<Rightarrow>
          if File_Exists w (idx_File idx) then
            (case File_Remove w (idx_File idx) of
               (Some e, w) \<Rightarrow> (Some e, w)
             | (None, w) \<Rightarrow> Save_write gob_enc w idx rs)
          else Save_write gob_enc w idx rs)"

definition Index_Close :: "gob_encoder \<Rightarrow> world \<Rightarrow> Index \<Rightarrow> error option \<times> Index \<times> world" where
  "Index_Close gob_enc w idx =
     (if idx_ReadOnly idx \<or> idx_records idx = None then (None, idx\<lparr>idx_records := None\<rparr>, w)
      else case Index_Save gob_enc w idx of
             (Some e, w) \<Rightarrow> (Some e, idx, w)
           | (None, w) \<Rightarrow> (None, idx\<lparr>idx_records := None\<rparr>, w))"

subsection \<open>Records\<close>

text \<open>\<open>Get\<close> has a value receiver: what it loads is not kept in the caller's index.\<close>

definition Index_Get :: "gob_decoder \<Rightarrow> world \<Rightarrow> Index \<Rightarrow> int \<Rightarrow> (IndexRecord \<times> world) go" where
  "Index_Get gob_dec w idx i =
     go_bind (mustLoad gob_dec w idx) (\<lambda>(idx, w).
     if 0 \<le> i \<and> nat i < length (idx_list idx) then Inr (idx_list idx ! nat i, w) else Inl IndexOutOfRange)"

definition Index_Append :: "gob_decoder \<Rightarrow> world \<Rightarrow> Index \<Rightarrow> IndexRecord \<Rightarrow> (error option \<times> Index \<times> world) go" where
  "Index_Append gob_dec w idx r =
     (if idx_ReadOnly idx then Inr (Some ErrReadOnly, idx, w)
      else go_bind (mustLoad gob_dec w idx) (\<lambda>(idx, w).
        Inr (None, idx\<lparr>idx_records := Some (idx_list idx @ [r])\<rparr>, w)))"

definition Index_Last :: "gob_decoder \<Rightarrow> world \<Rightarrow> Index \<Rightarrow> (IndexRecord \<times> Index \<times> world) go" where
  "Index_Last gob_dec w idx =
     go_bind (mustLoad gob_dec w idx) (\<lambda>(idx, w).
     if idx_list idx = [] then Inl IndexOutOfRange else Inr (last (idx_list idx), idx, w))"

definition UpdateLast :: "gob_decoder \<Rightarrow> world \<Rightarrow> Index \<Rightarrow> IndexRecord \<Rightarrow> (error option \<times> Index \<times> world) go" where
  "UpdateLast gob_dec w idx r =
     (if idx_ReadOnly idx then Inr (Some (ErrInvalid ''cannot update read-only index''), idx, w)
      else go_bind (mustLoad gob_dec w idx) (\<lambda>(idx, w).
        if idx_list idx = [] then Inl IndexOutOfRange
        else Inr (None, idx\<lparr>idx_records := Some ((idx_list idx)[length (idx_list idx) - 1 := r])\<rparr>, w)))"

definition Index_Len :: "gob_decoder \<Rightarrow> world \<Rightarrow> Index \<Rightarrow> (int \<times> Index \<times> world) go" where
  "Index_Len gob_dec w idx =
     go_bind (mustLoad gob_dec w idx) (\<lambda>(idx, w). Inr (int (length (idx_list idx)), idx, w))"

subsection \<open>Ranges\<close>

definition isNotOverlop :: "int64 \<Rightarrow> int64 \<Rightarrow> int64 \<Rightarrow> int64 \<Rightarrow> bool" where
  "isNotOverlop startA endA startB endB \<longleftrightarrow> sint endA < sint startB \<or> sint endB < sint startA"

definition isOverlap :: "int64 \<Rightarrow> int64 \<Rightarrow> int64 \<Rightarrow> int64 \<Rightarrow> bool" where
  "isOverlap startA endA startB endB \<longleftrightarrow> \<not> isNotOverlop startA endA startB endB"

definition IsOverlapID :: "IndexRecord \<Rightarrow> int64 \<Rightarrow> int64 \<Rightarrow> bool" where
  "IsOverlapID ir start fin = isOverlap (MinID ir) (MaxID ir) start fin"

definition IsOverlapTime :: "IndexRecord \<Rightarrow> Time \<Rightarrow> Time \<Rightarrow> bool" where
  "IsOverlapTime ir start fin = isOverlap (MinStart ir) (MaxEnd ir) start fin"

definition MaxInt64 :: int64 where
  "MaxInt64 = word_of_int (2 ^ 63 - 1)"

definition MinInt64 :: int64 where
  "MinInt64 = word_of_int (- (2 ^ 63))"

record id_range =
  startId :: int64
  endId :: int64
  found :: bool

definition range_step :: "Time \<Rightarrow> Time \<Rightarrow> IndexRecord \<Rightarrow> id_range \<Rightarrow> id_range" where
  "range_step start fin ir r =
     (if IsOverlapTime ir start fin then
        \<lparr>startId = (if sint (MinID ir) < sint (startId r) then MinID ir else startId r),
         endId = (if sint (endId r) < sint (MaxID ir) then MaxID ir else endId r),
         found = True\<rparr>
      else r)"

text \<open>
  The loop \<open>for i := 0; i < idx.Len(); i++ { ir := idx.Get(i) ... }\<close> with the calls it makes; \<open>n\<close>
  counts the iterations left.
\<close>

fun range_loop ::
  "gob_decoder \<Rightarrow> Time \<Rightarrow> Time \<Rightarrow> nat \<Rightarrow> nat \<Rightarrow> world \<Rightarrow> Index \<Rightarrow> id_range \<Rightarrow> (id_range \<times> Index \<times> world) go" where
  "range_loop gob_dec start fin 0 i w idx r = Inr (r, idx, w)"
| "range_loop gob_dec start fin (Suc n) i w idx r =
     go_bind (Index_Len gob_dec w idx) (\<lambda>(len, idx, w).
     if int i < len then
       go_bind (Index_Get gob_dec w idx (int i)) (\<lambda>(ir, w).
       range_loop gob_dec start fin n (i + 1) w idx (range_step start fin ir r))
     else Inr (r, idx, w))"

definition IDRangeByTime ::
  "gob_decoder \<Rightarrow> world \<Rightarrow> Index \<Rightarrow> Time \<Rightarrow> Time \<Rightarrow> ((int64 \<times> int64) \<times> Index \<times> world) go" where
  "IDRangeByTime gob_dec w idx start fin =
     go_bind (mustLoad gob_dec w idx) (\<lambda>(idx, w).
     go_bind (range_loop gob_dec start fin (length (idx_list idx) + 1) 0 w idx
       \<lparr>startId = MaxInt64, endId = MinInt64, found = False\<rparr>) (\<lambda>(r, idx, w).
     Inr ((if found r then (startId r, endId r) else (0, 0)), idx, w)))"

subsection \<open>Lemmas\<close>

lemma mustLoad_loaded: "idx_records idx = Some rs \<Longrightarrow> mustLoad gob_dec w idx = Inr (idx, w)"
  by (simp add: mustLoad_def)

lemma range_loop_loaded:
  assumes "idx_records idx = Some rs" "i + n = length rs + 1"
  shows "range_loop gob_dec start fin n i w idx r = Inr (fold (range_step start fin) (drop i rs) r, idx, w)"
  using assms
proof (induction n arbitrary: i r)
  case (Suc n)
  show ?case
  proof (cases "i < length rs")
    case True
    then have "drop i rs = rs ! i # drop (i + 1) rs" by (simp add: Cons_nth_drop_Suc)
    then show ?thesis using Suc True
      by (simp add: Index_Len_def Index_Get_def mustLoad_loaded idx_list_def)
  next
    case False
    then show ?thesis using Suc.prems by (simp add: Index_Len_def mustLoad_loaded idx_list_def)
  qed
qed simp

definition hits :: "Time \<Rightarrow> Time \<Rightarrow> IndexRecord list \<Rightarrow> IndexRecord list" where
  "hits start fin rs = filter (\<lambda>ir. IsOverlapTime ir start fin) rs"

lemma fold_range_step:
  "found (fold (range_step a z) rs r) \<longleftrightarrow> found r \<or> hits a z rs \<noteq> []"
  "sint (startId (fold (range_step a z) rs r)) = Min (insert (sint (startId r)) ((sint \<circ> MinID) ` set (hits a z rs)))"
  "sint (endId (fold (range_step a z) rs r)) = Max (insert (sint (endId r)) ((sint \<circ> MaxID) ` set (hits a z rs)))"
proof (induction rs arbitrary: r)
  case (Cons ir rs)
  have min: "Min (insert (if y < x then y else x) A) = Min (insert x (insert y A))" if "finite A" for x y :: int and A
    using that by (cases "A = {}") (auto simp: min_def)
  have max: "Max (insert (if x < y then y else x) A) = Max (insert x (insert y A))" if "finite A" for x y :: int and A
    using that by (cases "A = {}") (auto simp: max_def)
  {
    case 1
    show ?case using Cons(1) by (auto simp: hits_def range_step_def)
  next
    case 2
    show ?case
    proof (cases "IsOverlapTime ir a z")
      case True
      have "sint (startId (range_step a z ir r)) = (if sint (MinID ir) < sint (startId r) then sint (MinID ir) else sint (startId r))"
        using True by (simp add: range_step_def)
      then show ?thesis using Cons(2)[of "range_step a z ir r"] True
          min[of "(sint \<circ> MinID) ` set (hits a z rs)" "sint (MinID ir)" "sint (startId r)"] by (simp add: hits_def)
    qed (use Cons(2)[of r] in \<open>simp add: hits_def range_step_def\<close>)
  next
    case 3
    show ?case
    proof (cases "IsOverlapTime ir a z")
      case True
      have "sint (endId (range_step a z ir r)) = (if sint (endId r) < sint (MaxID ir) then sint (MaxID ir) else sint (endId r))"
        using True by (simp add: range_step_def)
      then show ?thesis using Cons(3)[of "range_step a z ir r"] True
          max[of "(sint \<circ> MaxID) ` set (hits a z rs)" "sint (endId r)" "sint (MaxID ir)"] by (simp add: hits_def)
    qed (use Cons(3)[of r] in \<open>simp add: hits_def range_step_def\<close>)
  }
qed (simp_all add: hits_def)

lemma sint_max64: "sint MaxInt64 = 2 ^ 63 - 1"
  by (simp add: MaxInt64_def signed_of_int)

lemma sint_min64: "sint MinInt64 = - (2 ^ 63)"
  by (simp add: MinInt64_def signed_of_int)

subsection \<open>Properties\<close>

text \<open>
  C26. On a loaded index, \<open>IDRangeByTime\<close> returns the smallest range of identifiers that covers every
  block whose time span meets \<open>[start, end]\<close>: the least \<open>MinID\<close> and the greatest \<open>MaxID\<close> of those
  blocks, and \<open>(0, 0)\<close> when there is none. It does not change the index.
\<close>

theorem IDRangeByTime_covers:
  assumes "idx_records idx = Some rs"
  shows "\<exists>lo hi. IDRangeByTime gob_dec w idx start fin = Inr ((lo, hi), idx, w) \<and>
    (if hits start fin rs = [] then lo = 0 \<and> hi = 0
     else sint lo = Min ((sint \<circ> MinID) ` set (hits start fin rs)) \<and>
       sint hi = Max ((sint \<circ> MaxID) ` set (hits start fin rs)) \<and>
       (\<forall>ir \<in> set (hits start fin rs). sint lo \<le> sint (MinID ir) \<and> sint (MaxID ir) \<le> sint hi))"
proof -
  let ?ini = "\<lparr>startId = MaxInt64, endId = MinInt64, found = False\<rparr> :: id_range"
  let ?r = "fold (range_step start fin) rs ?ini"
  have run: "IDRangeByTime gob_dec w idx start fin = Inr ((if found ?r then (startId ?r, endId ?r) else (0, 0)), idx, w)"
    using assms range_loop_loaded[OF assms, of 0] by (simp add: IDRangeByTime_def mustLoad_loaded idx_list_def del: range_loop.simps)
  have "sint v \<le> 2 ^ 63 - 1" "- (2 ^ 63) \<le> sint v" for v :: int64 using sint64_range[of v] by simp_all
  then have top: "\<forall>x \<in> (sint \<circ> MinID) ` A. x \<le> 2 ^ 63 - 1" "\<forall>x \<in> (sint \<circ> MaxID) ` A. - (2 ^ 63) \<le> x" for A
    by (auto simp del: power_numeral)
  have min: "Min (insert t A) = Min A" if "finite A" "A \<noteq> {}" "\<forall>x \<in> A. x \<le> t" for t :: int and A
    using that by (simp add: Min_insert min_def) (metis Min_in antisym)
  have max: "Max (insert t A) = Max A" if "finite A" "A \<noteq> {}" "\<forall>x \<in> A. t \<le> x" for t :: int and A
    using that by (simp add: Max_insert max_def)
  show ?thesis
  proof (cases "hits start fin rs = []")
    case True
    then show ?thesis using run fold_range_step(1)[of start fin rs ?ini] by simp
  next
    case False
    let ?lo = "(sint \<circ> MinID) ` set (hits start fin rs)" and ?hi = "(sint \<circ> MaxID) ` set (hits start fin rs)"
    have "Min (insert (2 ^ 63 - 1) ?lo) = Min ?lo" "Max (insert (- (2 ^ 63)) ?hi) = Max ?hi"
      using False by (intro min max top; simp)+
    then have "sint (startId ?r) = Min ?lo" "sint (endId ?r) = Max ?hi" "found ?r"
      using fold_range_step[of start fin rs ?ini] False by (simp_all only: sint_max64 sint_min64 id_range.simps simp_thms)
    then show ?thesis using run False by auto
  qed
qed

definition sample_ir :: "int64 \<Rightarrow> int64 \<Rightarrow> Time \<Rightarrow> Time \<Rightarrow> IndexRecord" where
  "sample_ir a b s e = \<lparr>MinID = a, MaxID = b, MinStart = s, MaxStart = s, MinEnd = e, MaxEnd = e\<rparr>"

theorem IDRangeByTime_covers_witness:
  "\<exists>lo hi. IDRangeByTime (\<lambda>_. Inl EOF) \<lparr>files = Map.empty, faults = []\<rparr>
      \<lparr>idx_File = ''i'', idx_ReadOnly = False, idx_records = Some [sample_ir 0 9 0 5, sample_ir 10 19 6 9, sample_ir 20 29 8 12]\<rparr> 7 8 =
      Inr ((lo, hi), \<lparr>idx_File = ''i'', idx_ReadOnly = False, idx_records = Some [sample_ir 0 9 0 5, sample_ir 10 19 6 9, sample_ir 20 29 8 12]\<rparr>,
        \<lparr>files = Map.empty, faults = []\<rparr>) \<and> sint lo = 10 \<and> sint hi = 29"
proof -
  have "hits 7 8 [sample_ir 0 9 0 5, sample_ir 10 19 6 9, sample_ir 20 29 8 12] = [sample_ir 10 19 6 9, sample_ir 20 29 8 12]"
    by (simp add: hits_def sample_ir_def IsOverlapTime_def isOverlap_def isNotOverlop_def)
  then show ?thesis
    using IDRangeByTime_covers[of "\<lparr>idx_File = ''i'', idx_ReadOnly = False,
      idx_records = Some [sample_ir 0 9 0 5, sample_ir 10 19 6 9, sample_ir 20 29 8 12]\<rparr>"
      "[sample_ir 0 9 0 5, sample_ir 10 19 6 9, sample_ir 20 29 8 12]" "\<lambda>_. Inl EOF" "\<lparr>files = Map.empty, faults = []\<rparr>" 7 8]
    by (auto simp: sample_ir_def)
qed

text \<open>
  Closing an index and loading the file again gives back the same records, whatever the file held
  before, provided \<open>gob\<close> decodes what it encodes.
\<close>

theorem Index_Close_Load:
  assumes gob: "\<And>rs. gob_dec (gob_enc rs) = Inr rs"
    and idx: "idx_records idx = Some rs" "\<not> idx_ReadOnly idx" and nf: "faults w = []"
  shows "\<exists>idx1 w1 idx2 w2. Index_Close gob_enc w idx = (None, idx1, w1) \<and> idx_records idx1 = None \<and>
    mustLoad gob_dec w1 (idx1\<lparr>idx_ReadOnly := ro\<rparr>) = Inr (idx2, w2) \<and> idx_records idx2 = Some rs"
proof -
  let ?p = "idx_File idx"
  let ?w0 = "if File_Exists w ?p then w\<lparr>files := (files w)(?p := None)\<rparr> else w"
  have "faults ?w0 = []" "file_bytes ?w0 ?p = []" "Index_Save gob_enc w idx = Save_write gob_enc ?w0 idx rs"
    using idx nf by (auto simp: Index_Save_def File_Exists_def File_Remove_def next_fault_none file_bytes_def)
  then obtain w1 where sv: "Index_Save gob_enc w idx = (None, w1)" "faults w1 = []" "files w1 ?p = Some (gob_enc rs)"
    by (auto simp: Save_write_def OpenWriteOnly_def openFile_def next_fault_none os_Write_def overlay_def Let_def)
  then have "ReadAll w1 ?p = (gob_enc rs, None, w1)"
    by (simp add: ReadAll_def OpenReadOnly_def next_fault_none file_bytes_def)
  then show ?thesis using sv idx gob
    by (simp add: Index_Close_def mustLoad_def Index_Load_def File_Exists_def)
qed

text \<open>A codec that meets the hypothesis: six big-endian words per record.\<close>

definition plain_enc :: gob_encoder where
  "plain_enc rs = concat (map (\<lambda>r. be64 (MinID r) @ be64 (MaxID r) @ be64 (MinStart r) @ be64 (MaxStart r) @
     be64 (MinEnd r) @ be64 (MaxEnd r)) rs)"

fun plain_records :: "byte list \<Rightarrow> IndexRecord list" where
  "plain_records bs =
     (if length bs < 48 then []
      else \<lparr>MinID = of_be64 (take 8 bs), MaxID = of_be64 (take 8 (drop 8 bs)), MinStart = of_be64 (take 8 (drop 16 bs)),
        MaxStart = of_be64 (take 8 (drop 24 bs)), MinEnd = of_be64 (take 8 (drop 32 bs)),
        MaxEnd = of_be64 (take 8 (drop 40 bs))\<rparr> # plain_records (drop 48 bs))"

declare plain_records.simps [simp del]

lemma plain_round_trip: "plain_records (plain_enc rs) = rs"
proof (induction rs)
  case (Cons r rs)
  then show ?case
    by (subst plain_records.simps) (simp add: plain_enc_def)
qed (simp add: plain_enc_def plain_records.simps)

theorem Index_Close_Load_witness:
  "\<exists>idx1 w1 idx2 w2.
    Index_Close plain_enc \<lparr>files = [''i'' \<mapsto> [9, 9]], faults = []\<rparr>
      \<lparr>idx_File = ''i'', idx_ReadOnly = False, idx_records = Some [sample_ir 0 9 0 5]\<rparr> = (None, idx1, w1) \<and>
    mustLoad (\<lambda>bs. Inr (plain_records bs)) w1 (idx1\<lparr>idx_ReadOnly := True\<rparr>) = Inr (idx2, w2) \<and>
    idx_records idx2 = Some [sample_ir 0 9 0 5]"
  using Index_Close_Load[of "\<lambda>bs. Inr (plain_records bs)" plain_enc
      "\<lparr>idx_File = ''i'', idx_ReadOnly = False, idx_records = Some [sample_ir 0 9 0 5]\<rparr>" "[sample_ir 0 9 0 5]"
      "\<lparr>files = [''i'' \<mapsto> [9, 9]], faults = []\<rparr>" True] plain_round_trip
  by (simp del: fun_upd_apply) blast

end
