(* ===== verification/Packet.thy ===== *)
theory Packet
  imports Encoding
begin

section \<open>Packet: the wire format (\<open>tracer/protocol/packet.go\<close>, \<open>protocol.go\<close>)\<close>

text \<open>
  A packet on the wire is a 32-bit payload length, a type byte and the marshalled packet.
  \<open>encoding/json\<close>, which the two trace commands go through, is the pair of arguments \<open>je\<close>, \<open>jd\<close>:
  the JSON of a command for a function name, and the name a JSON text carries (\<open>None\<close>: an error).
  A \<open>RawFuncLogPacket\<close> is unmarshalled into a pooled record, whose frames have capacity
  \<open>MaxStackSize\<close>.
\<close>

type_synonym json_encoder = "string \<Rightarrow> byte list"
type_synonym json_decoder = "byte list \<Rightarrow> string option"

subsection \<open>Packet types\<close>

type_synonym PacketType = byte

definition fakePacketType :: PacketType where "fakePacketType = 0"
definition ClientHelloPacketType :: PacketType where "ClientHelloPacketType = 1"
definition ServerHelloPacketType :: PacketType where "ServerHelloPacketType = 2"
definition LogPacketType :: PacketType where "LogPacketType = 3"
definition PingPacketType :: PacketType where "PingPacketType = 4"
definition ShutdownPacketType :: PacketType where "ShutdownPacketType = 5"
definition StartTraceCmdPacketType :: PacketType where "StartTraceCmdPacketType = 6"
definition StopTraceCmdPacketType :: PacketType where "StopTraceCmdPacketType = 7"
definition SymbolPacketType :: PacketType where "SymbolPacketType = 8"
definition RawFuncLogPacketType :: PacketType where "RawFuncLogPacketType = 9"

lemmas packet_types = fakePacketType_def ClientHelloPacketType_def ServerHelloPacketType_def LogPacketType_def
  PingPacketType_def ShutdownPacketType_def StartTraceCmdPacketType_def StopTraceCmdPacketType_def
  SymbolPacketType_def RawFuncLogPacketType_def

record ClientHelloPacket =
  ch_PID :: uint64
  ch_AppName :: string
  ch_Host :: string
  ch_ClientSecret :: string
  ch_ProtocolVersion :: string

datatype packet =
    FakePacket string
  | ClientHello ClientHelloPacket
  | ServerHello string
  | LogPacket
  | PingPacket
  | ShutdownPacket
  | StartTraceCmd string
  | StopTraceCmd string
  | SymbolPacket SymbolsData
  | RawFuncLogPacket RawFuncLog

record MergePacket =
  mp_BufferSize :: nat
  mp_buff :: "slice option"
  mp_size :: nat

text \<open>A value of the interface type \<open>xtcp.Packet\<close>: a packet or a \<open>MergePacket\<close>.\<close>

datatype xpacket = Plain packet | Merged MergePacket

definition detectPacketType :: "xpacket \<Rightarrow> PacketType go" where
  "detectPacketType x =
     (case x of
        Plain p \<Rightarrow>
          Inr (case p of
             FakePacket _ \<Rightarrow> fakePacketType
           | ClientHello _ \<Rightarrow> ClientHelloPacketType
           | ServerHello _ \<Rightarrow> ServerHelloPacketType
           | LogPacket \<Rightarrow> LogPacketType
           | PingPacket \<Rightarrow> PingPacketType
           | ShutdownPacket \<Rightarrow> ShutdownPacketType
           | StartTraceCmd _ \<Rightarrow> StartTraceCmdPacketType
           | StopTraceCmd _ \<Rightarrow> StopTraceCmdPacketType
           | SymbolPacket _ \<Rightarrow> SymbolPacketType
           | RawFuncLogPacket _ \<Rightarrow> RawFuncLogPacketType)
      | Merged _ \<Rightarrow> Inl (Panic ''unknown packet type''))"

text \<open>
  \<open>createPacket\<close> makes an empty packet; for \<open>ShutdownPacketType\<close> the code makes a \<open>PingPacket\<close>.
\<close>

definition zero_ClientHello :: ClientHelloPacket where
  "zero_ClientHello = \<lparr>ch_PID = 0, ch_AppName = [], ch_Host = [], ch_ClientSecret = [], ch_ProtocolVersion = []\<rparr>"

definition zero_RawFuncLog :: RawFuncLog where
  "zero_RawFuncLog = \<lparr>raw_ID = 0, raw_Tag = 0, raw_Timestamp = 0, raw_Frames = [], raw_GID = 0, raw_TxID = 0\<rparr>"

definition createPacket :: "PacketType \<Rightarrow> packet go" where
  "createPacket t =
     (if t = fakePacketType then Inr (FakePacket [])
      else if t = ClientHelloPacketType then Inr (ClientHello zero_ClientHello)
      else if t = ServerHelloPacketType then Inr (ServerHello [])
      else if t = LogPacketType then Inr LogPacket
      else if t = PingPacketType then Inr PingPacket
      else if t = ShutdownPacketType then Inr PingPacket
      else if t = StartTraceCmdPacketType then Inr (StartTraceCmd [])
      else if t = StopTraceCmdPacketType then Inr (StopTraceCmd [])
      else if t = SymbolPacketType then Inr (SymbolPacket zero_SymbolsData)
      else if t = RawFuncLogPacketType then Inr (RawFuncLogPacket zero_RawFuncLog)
      else Inl (Panic ''unknown packet type''))"

subsection \<open>Marshalling\<close>

definition ClientHello_Marshal :: "ClientHelloPacket \<Rightarrow> slice \<Rightarrow> (slice \<times> nat) go" where
  "ClientHello_Marshal p buf =
     go_bind (within (MarshalUint64 (ch_PID p)) (buf, 0)) (\<lambda>bt.
     go_bind (within (MarshalString (ch_AppName p)) bt) (\<lambda>bt.
     go_bind (within (MarshalString (ch_Host p)) bt) (\<lambda>bt.
     go_bind (within (MarshalString (ch_ClientSecret p)) bt) (\<lambda>bt.
     within (MarshalString (ch_ProtocolVersion p)) bt))))"

definition ClientHello_Unmarshal :: "slice \<Rightarrow> (ClientHelloPacket \<times> nat) go" where
  "ClientHello_Unmarshal buf =
     go_bind (read_at UnmarshalUint64 buf 0) (\<lambda>(pid, t).
     go_bind (read_at UnmarshalString buf t) (\<lambda>(app, t).
     go_bind (read_at UnmarshalString buf t) (\<lambda>(host, t).
     go_bind (read_at UnmarshalString buf t) (\<lambda>(secret, t).
     go_bind (read_at UnmarshalString buf t) (\<lambda>(ver, t).
     Inr (\<lparr>ch_PID = pid, ch_AppName = app, ch_Host = host, ch_ClientSecret = secret,
           ch_ProtocolVersion = ver\<rparr>, t))))))"

definition slowMarshal :: "json_encoder \<Rightarrow> string \<Rightarrow> slice \<Rightarrow> (slice \<times> nat) go" where
  "slowMarshal je name buf =
     (let js = je name in
      go_bind (MarshalUint64 (word_of_nat (length js)) buf) (within (\<lambda>sub. Inr (go_copy sub js))))"

definition slowUnmarshal :: "json_decoder \<Rightarrow> slice \<Rightarrow> (string \<times> nat) go" where
  "slowUnmarshal jd buf =
     go_bind (UnmarshalUint64 buf) (\<lambda>(len, t).
     go_bind (slice_range buf t (t + unat len)) (\<lambda>s.
     case jd (sl_bytes s) of
       None \<Rightarrow> Inl (Panic ''json'')
     | Some name \<Rightarrow> Inr (name, t + unat len)))"

definition marshalPacket :: "json_encoder \<Rightarrow> packet \<Rightarrow> slice \<Rightarrow> (slice \<times> nat) go" where
  "marshalPacket je p buf =
     (case p of
        FakePacket s \<Rightarrow> Inr (go_copy buf (bytes_of_string s))
      | ClientHello c \<Rightarrow> ClientHello_Marshal c buf
      | ServerHello v \<Rightarrow> MarshalString v buf
      | LogPacket \<Rightarrow> Inl (Panic ''not implemented'')
      | PingPacket \<Rightarrow> Inr (buf, 0)
      | ShutdownPacket \<Rightarrow> Inr (buf, 0)
      | StartTraceCmd f \<Rightarrow> slowMarshal je f buf
      | StopTraceCmd f \<Rightarrow> slowMarshal je f buf
      | SymbolPacket sd \<Rightarrow> MarshalSymbolsData sd buf
      | RawFuncLogPacket r \<Rightarrow> MarshalRawFuncLog r buf)"

text \<open>The first packet is the empty one that \<open>createPacket\<close> made; only its type matters.\<close>

definition unmarshalPacket :: "json_decoder \<Rightarrow> packet \<Rightarrow> slice \<Rightarrow> (packet \<times> nat) go" where
  "unmarshalPacket jd p buf =
     (case p of
        FakePacket _ \<Rightarrow> Inr (FakePacket (string_of_bytes (sl_bytes buf)), sl_len buf)
      | ClientHello _ \<Rightarrow> go_bind (ClientHello_Unmarshal buf) (\<lambda>(c, n). Inr (ClientHello c, n))
      | ServerHello _ \<Rightarrow> go_bind (UnmarshalString buf) (\<lambda>(v, n). Inr (ServerHello v, n))
      | LogPacket \<Rightarrow> Inl (Panic ''not implemented'')
      | PingPacket \<Rightarrow> Inr (PingPacket, 0)
      | ShutdownPacket \<Rightarrow> Inr (ShutdownPacket, 0)
      | StartTraceCmd _ \<Rightarrow> go_bind (slowUnmarshal jd buf) (\<lambda>(f, n). Inr (StartTraceCmd f, n))
      | StopTraceCmd _ \<Rightarrow> go_bind (slowUnmarshal jd buf) (\<lambda>(f, n). Inr (StopTraceCmd f, n))
      | SymbolPacket _ \<Rightarrow> go_bind (UnmarshalSymbolsData buf) (\<lambda>(sd, n). Inr (SymbolPacket sd, n))
      | RawFuncLogPacket _ \<Rightarrow>
          go_bind (UnmarshalRawFuncLog MaxStackSize buf) (\<lambda>(r, n). Inr (RawFuncLogPacket r, n)))"

subsection \<open>\<open>Proto\<close>\<close>

definition ProtocolVersion :: string where "ProtocolVersion = ''1''"

definition PacketHeaderSize :: nat where "PacketHeaderSize = 5"

definition isCompatibleVersion :: "string \<Rightarrow> bool" where
  "isCompatibleVersion v \<longleftrightarrow> ProtocolVersion = v"

definition PackToByteSlice :: "json_encoder \<Rightarrow> xpacket \<Rightarrow> slice \<Rightarrow> (slice \<times> nat) go" where
  "PackToByteSlice je x buf =
     go_bind (detectPacketType x) (\<lambda>t.
     go_bind (slice_from buf 4) (\<lambda>payload.
     go_bind (MarshalUint8 t payload) (\<lambda>(payload, headerSize).
     go_bind (within (\<lambda>body. case x of Plain p \<Rightarrow> marshalPacket je p body | Merged _ \<Rightarrow> Inl (Panic ''not Marshalable''))
       (payload, headerSize)) (\<lambda>(payload, plen).
     let payloadSize = word_of_nat plen :: uint32;
         buf = buf\<lparr>sl_arr := take 4 (sl_arr buf) @ sl_arr payload\<rparr>
     in go_bind (slice_to buf 4) (\<lambda>s.
        go_bind (PutUint32 s payloadSize) (\<lambda>s.
        Inr (buf\<lparr>sl_arr := sl_arr s\<rparr>, unat (payloadSize + 4))))))))"

text \<open>
  \<open>Unpack\<close> returns the packet, the number of bytes consumed and the error. A panic while
  unmarshalling is recovered by \<open>PanicHandler\<close> and becomes the error. What is unmarshalled is the
  whole rest of the buffer, not only the bytes of this packet.
\<close>

definition Unpack :: "json_decoder \<Rightarrow> slice \<Rightarrow> (packet option \<times> nat \<times> fault option) go" where
  "Unpack jd b =
     (if sl_len b < 4 then Inr (None, 0, None)
      else go_bind (slice_to b 4) (\<lambda>bin.
        go_bind (Uint32 bin) (\<lambda>sz.
        go_bind (slice_from b 4) (\<lambda>packetData.
        if sl_len packetData < unat sz then Inr (None, 0, None)
        else
          case
            go_bind (UnmarshalUint8 packetData) (\<lambda>(t, n).
            go_bind (createPacket t) (\<lambda>p.
            go_bind (slice_from packetData n) (\<lambda>rest.
            go_bind (unmarshalPacket jd p rest) (\<lambda>(p, _). Inr p))))
          of Inl e \<Rightarrow> Inr (None, 4 + unat sz, Some e)
           | Inr p \<Rightarrow> Inr (Some p, 4 + unat sz, None)))))"

subsection \<open>\<open>MergePacket\<close>\<close>

definition new_MergePacket :: "nat \<Rightarrow> MergePacket" where
  "new_MergePacket n = \<lparr>mp_BufferSize = n, mp_buff = None, mp_size = 0\<rparr>"

definition MergePacket_Merge :: "json_encoder \<Rightarrow> xpacket \<Rightarrow> MergePacket \<Rightarrow> MergePacket go" where
  "MergePacket_Merge je x mp =
     (let buff = (case mp_buff mp of None \<Rightarrow> make_slice (mp_BufferSize mp) | Some b \<Rightarrow> b) in
      go_bind (within (PackToByteSlice je x) (buff, mp_size mp)) (\<lambda>(buff, n).
      Inr (mp\<lparr>mp_buff := Some buff, mp_size := n\<rparr>)))"

definition MergePacket_Reset :: "MergePacket \<Rightarrow> MergePacket" where
  "MergePacket_Reset mp = mp\<lparr>mp_size := 0\<rparr>"

definition MergePacket_Len :: "MergePacket \<Rightarrow> nat" where
  "MergePacket_Len mp = mp_size mp"

text \<open>\<open>wr\<close> is the connection's \<open>Write\<close>: how much it wrote and whether it failed.\<close>

definition MergePacket_WriteTo ::
  "(byte list \<Rightarrow> nat \<times> 'e option) \<Rightarrow> MergePacket \<Rightarrow> (nat \<times> 'e option \<times> MergePacket) go" where
  "MergePacket_WriteTo wr mp =
     go_bind (slice_to (case mp_buff mp of None \<Rightarrow> make_slice 0 | Some b \<Rightarrow> b) (mp_size mp)) (\<lambda>s.
     case wr (sl_bytes s) of
       (n, None) \<Rightarrow> Inr (n, None, mp\<lparr>mp_size := 0\<rparr>)
     | (n, Some e) \<Rightarrow> Inr (n, Some e, mp))"

definition PacketSize :: "packet \<Rightarrow> nat go" where
  "PacketSize p = (case p of SymbolPacket sd \<Rightarrow> Inr (SizeSymbolsData sd) | _ \<Rightarrow> Inl (Panic ''not SizePredictable''))"

definition marshalLargePacket :: "json_encoder \<Rightarrow> packet \<Rightarrow> MergePacket go" where
  "marshalLargePacket je p =
     go_bind (PacketSize p) (\<lambda>n. MergePacket_Merge je (Plain p) (new_MergePacket (n + PacketHeaderSize)))"

definition PackTo ::
  "json_encoder \<Rightarrow> (byte list \<Rightarrow> nat \<times> 'e option) \<Rightarrow> xpacket \<Rightarrow> (nat \<times> 'e option \<times> xpacket) go" where
  "PackTo je wr x =
     (case x of
        Merged mp \<Rightarrow> go_bind (MergePacket_WriteTo wr mp) (\<lambda>(n, e, mp). Inr (n, e, Merged mp))
      | Plain p \<Rightarrow>
          go_bind (PackToByteSlice je x (make_slice 1024)) (\<lambda>(buf, n).
          go_bind (slice_to buf n) (\<lambda>s. case wr (sl_bytes s) of (k, e) \<Rightarrow> Inr (k, e, x))))"

subsection \<open>The bytes of a packet\<close>

definition type_of :: "packet \<Rightarrow> PacketType" where
  "type_of p = projr (detectPacketType (Plain p))"

definition enc_ClientHello :: "ClientHelloPacket \<Rightarrow> byte list" where
  "enc_ClientHello c = be64 (ch_PID c) @ enc_string (ch_AppName c) @ enc_string (ch_Host c) @
     enc_string (ch_ClientSecret c) @ enc_string (ch_ProtocolVersion c)"

definition enc_body :: "json_encoder \<Rightarrow> packet \<Rightarrow> byte list" where
  "enc_body je p =
     (case p of
        FakePacket s \<Rightarrow> bytes_of_string s
      | ClientHello c \<Rightarrow> enc_ClientHello c
      | ServerHello v \<Rightarrow> enc_string v
      | StartTraceCmd f \<Rightarrow> be64 (word_of_nat (length (je f))) @ je f
      | StopTraceCmd f \<Rightarrow> be64 (word_of_nat (length (je f))) @ je f
      | SymbolPacket sd \<Rightarrow> enc_SymbolsData sd
      | RawFuncLogPacket r \<Rightarrow> enc_RawFuncLog r
      | _ \<Rightarrow> [])"

definition enc_packet :: "json_encoder \<Rightarrow> packet \<Rightarrow> byte list" where
  "enc_packet je p = be32 (word_of_nat (1 + length (enc_body je p))) @ [type_of p] @ enc_body je p"

text \<open>
  What can be sent: everything but the mock and the unimplemented \<open>LogPacket\<close>, with a payload length
  that fits 32 bits.
\<close>

definition ok_packet :: "json_encoder \<Rightarrow> packet \<Rightarrow> bool" where
  "ok_packet je p \<longleftrightarrow>
     length (enc_body je p) + 5 < 2 ^ 32 \<and>
     (case p of
        FakePacket _ \<Rightarrow> False
      | LogPacket \<Rightarrow> False
      | SymbolPacket sd \<Rightarrow> ok_SymbolsData sd
      | RawFuncLogPacket r \<Rightarrow> length (raw_Frames r) \<le> MaxStackSize
      | _ \<Rightarrow> True)"

text \<open>
  JSON is used for the function name of a trace command and nothing else. It carries the name of a packet if the
  name is decoded from its own encoding; names of Go functions are valid UTF-8, for which \<open>encoding/json\<close> does so.
\<close>

definition json_law :: "json_encoder \<Rightarrow> json_decoder \<Rightarrow> packet \<Rightarrow> bool" where
  "json_law je jd p \<longleftrightarrow>
     (case p of StartTraceCmd f \<Rightarrow> jd (je f) = Some f | StopTraceCmd f \<Rightarrow> jd (je f) = Some f | _ \<Rightarrow> True)"

text \<open>What the peer makes of it: a shutdown arrives as a ping.\<close>

definition received :: "packet \<Rightarrow> packet" where
  "received p = (if p = ShutdownPacket then PingPacket else p)"

lemma ClientHello_writes: "writes (ClientHello_Marshal c) (enc_ClientHello c)"
  by (rule writesI) (simp add: ClientHello_Marshal_def enc_ClientHello_def write_simps)

lemma slow_writes: "writes (slowMarshal je f) (be64 (word_of_nat (length (je f))) @ je f)"
  by (rule writesI)
    (simp add: slowMarshal_def Let_def writesD [OF MarshalUint64_writes]
      within_writes [OF copy_writes, of _ "be64 v" for v, simplified])

lemma nothing_writes: "writes (\<lambda>buf. Inr (buf, 0)) []"
  by (rule writesI) simp

lemma marshalPacket_writes: "ok_packet je p \<Longrightarrow> writes (marshalPacket je p) (enc_body je p)"
  using ClientHello_writes slow_writes nothing_writes MarshalString_writes SymbolsData_writes RawFuncLog_writes
  by (cases p) (auto simp: marshalPacket_def[abs_def] enc_body_def ok_packet_def)

lemma small_string: "length (enc_string v) < 2 ^ 32 \<Longrightarrow> ok_string v"
  by (simp add: enc_string_def ok_string_def)

lemma ClientHello_reads:
  assumes "length (enc_ClientHello c) < 2 ^ 32"
  shows "reads ClientHello_Unmarshal (enc_ClientHello c) c"
proof -
  have "ok_string (ch_AppName c)" "ok_string (ch_Host c)" "ok_string (ch_ClientSecret c)" "ok_string (ch_ProtocolVersion c)"
    using assms by (simp_all add: enc_ClientHello_def enc_string_def ok_string_def)
  then show ?thesis
    by (intro readsI) (auto simp: ClientHello_Unmarshal_def enc_ClientHello_def read_simps)
qed

lemma slow_reads:
  assumes "jd (je f) = Some f" "length (je f) < 2 ^ 32"
  shows "reads (slowUnmarshal jd) (be64 (word_of_nat (length (je f))) @ je f) f"
proof (rule readsI)
  fix b assume wf: "sl_wf b" and h: "holds_at b 0 (be64 (word_of_nat (length (je f))) @ je f)"
  have len: "unat (word_of_nat (length (je f)) :: uint64) = length (je f)"
    using assms(2) by (simp add: unat_of_nat take_bit_nat_eq_self)
  from h have "UnmarshalUint64 b = Inr (word_of_nat (length (je f)), 8)"
    using readsD [OF UnmarshalUint64_reads wf] by simp
  moreover have "holds_at b 8 (je f)" using h by simp
  ultimately show "slowUnmarshal jd b = Inr (f, length (be64 (word_of_nat (length (je f))) @ je f))"
    using wf len assms(1)
    by (auto simp: slowUnmarshal_def slice_range_def sl_bytes_def holds_at_def sl_wf_def)
qed

lemma reads_mapI: "reads u bs x \<Longrightarrow> reads (\<lambda>b. go_bind (u b) (\<lambda>(y, n). Inr (f y, n))) bs (f x)"
  by (simp add: reads_def)

lemmas packet_eval = type_of_def detectPacketType_def createPacket_def packet_types unmarshalPacket_def[abs_def]
  enc_body_def received_def

lemma unmarshalPacket_reads:
  assumes ok: "ok_packet je p" and json: "json_law je jd p"
  shows "\<exists>p0. createPacket (type_of p) = Inr p0 \<and> reads (unmarshalPacket jd p0) (enc_body je p) (received p)"
proof (cases p)
  case (ClientHello c)
  then have "reads ClientHello_Unmarshal (enc_ClientHello c) c"
    using ok by (intro ClientHello_reads) (simp add: ok_packet_def enc_body_def)
  from reads_mapI[OF this, of ClientHello] show ?thesis using ClientHello
    by (simp add: packet_eval)
next
  case (ServerHello v)
  then have "reads UnmarshalString (enc_string v) v"
    using ok by (intro UnmarshalString_reads small_string) (simp add: ok_packet_def enc_body_def)
  from reads_mapI[OF this, of ServerHello] show ?thesis using ServerHello
    by (simp add: packet_eval)
next
  case (StartTraceCmd f)
  then have "reads (slowUnmarshal jd) (be64 (word_of_nat (length (je f))) @ je f) f"
    using ok json by (intro slow_reads) (simp_all add: ok_packet_def enc_body_def json_law_def)
  from reads_mapI[OF this, of StartTraceCmd] show ?thesis using StartTraceCmd
    by (simp add: packet_eval)
next
  case (StopTraceCmd f)
  then have "reads (slowUnmarshal jd) (be64 (word_of_nat (length (je f))) @ je f) f"
    using ok json by (intro slow_reads) (simp_all add: ok_packet_def enc_body_def json_law_def)
  from reads_mapI[OF this, of StopTraceCmd] show ?thesis using StopTraceCmd
    by (simp add: packet_eval)
next
  case (SymbolPacket sd)
  then have "reads UnmarshalSymbolsData (enc_SymbolsData sd) sd"
    using ok by (intro SymbolsData_reads) (simp add: ok_packet_def)
  from reads_mapI[OF this, of SymbolPacket] show ?thesis using SymbolPacket
    by (simp add: packet_eval)
next
  case (RawFuncLogPacket r)
  then have "reads (UnmarshalRawFuncLog MaxStackSize) (enc_RawFuncLog r) r"
    using ok by (intro RawFuncLog_reads) (simp_all add: ok_packet_def MaxStackSize_def)
  from reads_mapI[OF this, of RawFuncLogPacket] show ?thesis using RawFuncLogPacket
    by (simp add: packet_eval)
qed (use ok in \<open>auto simp: ok_packet_def packet_eval reads_def\<close>)

lemma length_enc_packet: "length (enc_packet je p) = length (enc_body je p) + 5"
  by (simp add: enc_packet_def)

lemma Pack_writes:
  assumes "ok_packet je p"
  shows "writes (PackToByteSlice je (Plain p)) (enc_packet je p)"
proof (rule writesI)
  fix b assume wf: "sl_wf b" and len: "length (enc_packet je p) \<le> sl_len b"
  let ?body = "enc_body je p" and ?t = "type_of p"
  let ?n = "word_of_nat (1 + length ?body) :: uint32"
  let ?sub = "\<lparr>sl_len = sl_len b - 4, sl_arr = drop 4 (sl_arr b)\<rparr>"
  have sub: "sl_wf ?sub" "length ([?t] @ ?body) \<le> sl_len ?sub"
    using wf len by (auto simp: sl_wf_def length_enc_packet)
  have h: "MarshalUint8 ?t ?sub = Inr (overwrite ?sub [?t], 1)"
    using writesD[OF MarshalUint8_writes sub(1)] sub(2) by simp
  have w: "within (marshalPacket je p) (overwrite ?sub [?t], 1) = Inr (overwrite ?sub ([?t] @ ?body), 1 + length ?body)"
    using within_at[OF marshalPacket_writes[OF assms] sub(1), of 1 "[?t]"] sub(2) by simp
  have det: "detectPacketType (Plain p) = Inr ?t" by (simp add: type_of_def detectPacketType_def)
  have "1 + length ?body < 2 ^ 32" "1 + length ?body + 4 < 2 ^ 32" using assms by (auto simp: ok_packet_def)
  then have n: "unat (?n + 4) = length ?body + 5"
    by (simp add: unat_word_ariths unat_of_nat take_bit_nat_eq_self flip: of_nat_Suc)
  have "take 4 (sl_arr b) @ sl_arr (overwrite ?sub ([?t] @ ?body)) = take 4 (sl_arr b) @ [?t] @ ?body @ drop (5 + length ?body) (sl_arr b)"
    by (simp add: overwrite_def)
  then show "PackToByteSlice je (Plain p) b = Inr (overwrite b (enc_packet je p), length (enc_packet je p))"
    using det h w n wf len
    by (simp add: PackToByteSlice_def slice_from_def length_enc_packet Let_def slice_to_def PutUint32_def sl_wf_def
        overwrite_def enc_packet_def)
qed

lemma holds_at_sub:
  "holds_at b (n + t) bs \<Longrightarrow> holds_at \<lparr>sl_len = sl_len b - n, sl_arr = drop n (sl_arr b)\<rparr> t bs"
  by (auto simp: holds_at_def add.commute)

lemma Unpack_reads:
  assumes ok: "ok_packet je p" and json: "json_law je jd p" and wf: "sl_wf b" and h: "holds_at b 0 (enc_packet je p)"
  shows "Unpack jd b = Inr (Some (received p), length (enc_packet je p), None)"
proof -
  let ?body = "enc_body je p" and ?t = "type_of p"
  let ?n = "word_of_nat (1 + length ?body) :: uint32"
  have n: "unat ?n = 1 + length ?body"
    using ok by (simp add: ok_packet_def unat_of_nat take_bit_nat_eq_self flip: of_nat_Suc)
  have h4: "holds_at b 0 (be32 ?n)" and ht: "holds_at b 4 [?t]" and hb: "holds_at b 5 ?body"
    and len: "5 + length ?body \<le> sl_len b"
    using h unfolding enc_packet_def holds_at_append by (simp_all del: of_nat_Suc of_nat_add) (simp add: holds_at_def)
  obtain p0 where p0: "createPacket ?t = Inr p0" "reads (unmarshalPacket jd p0) ?body (received p)"
    using unmarshalPacket_reads[OF ok json] by blast
  let ?sub = "\<lparr>sl_len = sl_len b - 4, sl_arr = drop 4 (sl_arr b)\<rparr>"
  let ?rest = "\<lparr>sl_len = sl_len b - 5, sl_arr = drop 5 (sl_arr b)\<rparr>"
  have "sl_wf ?sub" "sl_wf ?rest" using wf by (auto simp: sl_wf_def)
  moreover have "holds_at ?sub 0 [?t]" "holds_at ?rest 0 ?body"
    using holds_at_sub[of b 4 0 "[?t]"] holds_at_sub[of b 5 0 ?body] ht hb by simp_all
  ultimately have "UnmarshalUint8 ?sub = Inr (?t, 1)" "unmarshalPacket jd p0 ?rest = Inr (received p, length ?body)"
    using readsD[OF UnmarshalUint8_reads] readsD[OF p0(2)] by auto
  moreover have "Uint32 \<lparr>sl_len = 4, sl_arr = sl_arr b\<rparr> = Inr ?n"
    using h4 by (simp add: Uint32_def holds_at_def)
  ultimately show ?thesis
    using len wf n p0(1)
    by (simp add: Unpack_def slice_to_def slice_from_def sl_wf_def length_enc_packet del: of_nat_Suc of_nat_add)
qed

subsection \<open>Streams of packets\<close>

fun merge_all :: "json_encoder \<Rightarrow> packet list \<Rightarrow> MergePacket \<Rightarrow> MergePacket go" where
  "merge_all je [] mp = Inr mp"
| "merge_all je (p # ps) mp = go_bind (MergePacket_Merge je (Plain p) mp) (merge_all je ps)"

definition merged_bytes :: "MergePacket \<Rightarrow> byte list" where
  "merged_bytes mp = take (mp_size mp) (case mp_buff mp of None \<Rightarrow> [] | Some b \<Rightarrow> sl_arr b)"

definition mp_wf :: "MergePacket \<Rightarrow> bool" where
  "mp_wf mp \<longleftrightarrow> mp_size mp \<le> mp_BufferSize mp \<and>
     (case mp_buff mp of None \<Rightarrow> mp_size mp = 0
      | Some b \<Rightarrow> sl_len b = mp_BufferSize mp \<and> length (sl_arr b) = mp_BufferSize mp)"

lemma Merge_ok:
  assumes ok: "ok_packet je p" and wf: "mp_wf mp" and fit: "mp_size mp + length (enc_packet je p) \<le> mp_BufferSize mp"
  shows "\<exists>mp'. MergePacket_Merge je (Plain p) mp = Inr mp' \<and> mp_wf mp' \<and> mp_BufferSize mp' = mp_BufferSize mp \<and>
    mp_size mp' = mp_size mp + length (enc_packet je p) \<and> merged_bytes mp' = merged_bytes mp @ enc_packet je p"
proof -
  define b where "b = (case mp_buff mp of None \<Rightarrow> make_slice (mp_BufferSize mp) | Some b \<Rightarrow> b)"
  let ?pre = "take (mp_size mp) (sl_arr b)"
  have b: "sl_len b = mp_BufferSize mp" "length (sl_arr b) = mp_BufferSize mp" "sl_wf b" "merged_bytes mp = ?pre"
    using wf by (auto simp: b_def mp_wf_def make_slice_def sl_wf_def merged_bytes_def split: option.splits)
  have "overwrite b ?pre = b" "length ?pre = mp_size mp" using b fit by (auto simp: overwrite_def)
  with within_at[OF Pack_writes[OF ok] b(3), of "mp_size mp" ?pre] fit b(1)
  have "within (PackToByteSlice je (Plain p)) (b, mp_size mp) =
      Inr (overwrite b (?pre @ enc_packet je p), mp_size mp + length (enc_packet je p))" by simp
  then have "MergePacket_Merge je (Plain p) mp =
      Inr (mp\<lparr>mp_buff := Some (overwrite b (?pre @ enc_packet je p)), mp_size := mp_size mp + length (enc_packet je p)\<rparr>)"
    by (simp add: MergePacket_Merge_def flip: b_def)
  then show ?thesis using b fit by (simp add: mp_wf_def merged_bytes_def overwrite_def)
qed

lemma merge_all_ok:
  assumes "list_all (ok_packet je) ps" "mp_wf mp" "mp_size mp + length (concat (map (enc_packet je) ps)) \<le> mp_BufferSize mp"
  shows "\<exists>mp'. merge_all je ps mp = Inr mp' \<and> mp_wf mp' \<and> merged_bytes mp' = merged_bytes mp @ concat (map (enc_packet je) ps)"
  using assms
proof (induction ps arbitrary: mp)
  case (Cons p ps)
  then obtain mp1 where mp1: "MergePacket_Merge je (Plain p) mp = Inr mp1" "mp_wf mp1" "mp_BufferSize mp1 = mp_BufferSize mp"
    "mp_size mp1 = mp_size mp + length (enc_packet je p)" "merged_bytes mp1 = merged_bytes mp @ enc_packet je p"
    using Merge_ok[of je p mp] by auto
  then show ?case using Cons.IH[of mp1] Cons.prems by auto
qed simp

text \<open>
  The receiving side: unpack while there is a whole packet, each time from what is left of the
  buffer.
\<close>

function unpack_all :: "json_decoder \<Rightarrow> byte list \<Rightarrow> packet list" where
  "unpack_all jd bs =
     (case Unpack jd (of_bytes bs) of
        Inr (Some p, n, None) \<Rightarrow> if n = 0 \<or> bs = [] then [] else p # unpack_all jd (drop n bs)
      | _ \<Rightarrow> [])"
  by pat_completeness auto
termination
  by (relation "measure (\<lambda>(_, bs). length bs)") auto

declare unpack_all.simps [simp del]

lemma unpack_all_enc:
  assumes "list_all (ok_packet je) ps" "list_all (json_law je jd) ps"
  shows "unpack_all jd (concat (map (enc_packet je) ps)) = map received ps"
  using assms
proof (induction ps)
  case Nil
  have "Unpack jd (of_bytes []) = Inr (None, 0, None)" by (simp add: Unpack_def of_bytes_def)
  then show ?case by (simp add: unpack_all.simps)
next
  case (Cons p ps)
  let ?bs = "concat (map (enc_packet je) (p # ps))"
  have "holds_at (of_bytes ?bs) 0 (enc_packet je p)" by (simp add: holds_at_def of_bytes_def)
  then have "Unpack jd (of_bytes ?bs) = Inr (Some (received p), length (enc_packet je p), None)"
    using Cons.prems by (intro Unpack_reads) auto
  moreover have "enc_packet je p \<noteq> []" by (simp add: enc_packet_def)
  ultimately have "unpack_all jd ?bs = received p # unpack_all jd (drop (length (enc_packet je p)) ?bs)"
    by (subst unpack_all.simps) simp
  then show ?case using Cons by simp
qed

subsection \<open>Properties\<close>

text \<open>
  C13. Packets survive the wire. Merging any packets that fit into one \<open>MergePacket\<close>, as the client does
  to send them in one write, never panics, and unpacking the bytes it writes gives the same packets in the
  same order, provided JSON carries the function names of the trace commands among them. Only a \<open>ShutdownPacket\<close> is changed: it arrives as a
  \<open>PingPacket\<close>.
\<close>

theorem merged_stream_round_trip:
  assumes "list_all (ok_packet je) ps" "list_all (json_law je jd) ps"
    and "length (concat (map (enc_packet je) ps)) \<le> n"
  shows "\<exists>mp. merge_all je ps (new_MergePacket n) = Inr mp \<and>
    MergePacket_WriteTo (\<lambda>bs. (length bs, None)) mp =
      Inr (length (concat (map (enc_packet je) ps)), None, MergePacket_Reset mp) \<and>
    unpack_all jd (merged_bytes mp) = map received ps"
proof -
  have "mp_wf (new_MergePacket n)" by (simp add: mp_wf_def new_MergePacket_def)
  from merge_all_ok[OF assms(1) this] assms(3) obtain mp where mp: "merge_all je ps (new_MergePacket n) = Inr mp" "mp_wf mp"
    "merged_bytes mp = concat (map (enc_packet je) ps)"
    by (auto simp: new_MergePacket_def merged_bytes_def[of "\<lparr>mp_BufferSize = n, mp_buff = None, mp_size = 0\<rparr>"])
  have "length (merged_bytes mp) = mp_size mp" using mp(2) by (auto simp: mp_wf_def merged_bytes_def split: option.splits)
  then have "mp_size mp = length (concat (map (enc_packet je) ps))" using mp(3) by simp
  then have "MergePacket_WriteTo (\<lambda>bs. (length bs, None)) mp =
      Inr (length (concat (map (enc_packet je) ps)), None, MergePacket_Reset mp)"
    using mp(2,3) by (auto simp: MergePacket_WriteTo_def MergePacket_Reset_def slice_to_def mp_wf_def make_slice_def
        sl_bytes_def merged_bytes_def split: option.splits)
  then show ?thesis using mp unpack_all_enc[OF assms(1,2)] by auto
qed

definition sample_json :: json_encoder where
  "sample_json f = bytes_of_string f"

definition sample_packets :: "packet list" where
  "sample_packets = [ClientHello \<lparr>ch_PID = 7, ch_AppName = ''app'', ch_Host = ''h'', ch_ClientSecret = [], ch_ProtocolVersion = ''1''\<rparr>,
     StartTraceCmd ''main.f'', ShutdownPacket]"

theorem merged_stream_round_trip_witness:
  "\<exists>mp. merge_all sample_json sample_packets (new_MergePacket 200) = Inr mp \<and>
    unpack_all (\<lambda>bs. Some (string_of_bytes bs)) (merged_bytes mp) = map received sample_packets"
proof -
  have "list_all (ok_packet sample_json) sample_packets"
    "length (concat (map (enc_packet sample_json) sample_packets)) \<le> 200"
    by (simp_all add: sample_packets_def ok_packet_def length_enc_packet enc_body_def enc_ClientHello_def enc_string_def sample_json_def)
  moreover have "list_all (json_law sample_json (\<lambda>bs. Some (string_of_bytes bs))) sample_packets"
    by (simp add: sample_packets_def json_law_def sample_json_def)
  ultimately show ?thesis using merged_stream_round_trip[of sample_json sample_packets "\<lambda>bs. Some (string_of_bytes bs)" 200] by auto
qed

text \<open>
  \<open>Unpack\<close> never panics and makes progress on any bytes a peer sends: it either asks for more, or consumes the
  whole packet the length announces, at least four bytes and no more than it was given, with a packet or an error.
\<close>

theorem Unpack_total:
  assumes "sl_wf b"
  shows "\<exists>r n e. Unpack jd b = Inr (r, n, e) \<and>
    (if sl_len b < 4 \<or> sl_len b < 4 + unat (of_be32 (take 4 (sl_arr b)))
     then r = None \<and> n = 0 \<and> e = None
     else n = 4 + unat (of_be32 (take 4 (sl_arr b))) \<and> n \<le> sl_len b \<and> (r = None) = (e \<noteq> None))"
proof (cases "sl_len b < 4")
  case False
  then have "Uint32 \<lparr>sl_len = 4, sl_arr = sl_arr b\<rparr> = Inr (of_be32 (take 4 (sl_arr b)))" by (simp add: Uint32_def)
  then show ?thesis using False assms
    by (auto simp: Unpack_def slice_to_def slice_from_def sl_wf_def split: sum.splits)
qed (simp add: Unpack_def)

theorem Unpack_total_witness:
  "\<exists>r n e. Unpack (\<lambda>_. None) (of_bytes [0, 0, 0, 1, 77, 1, 2]) = Inr (r, n, e) \<and> n = 5 \<and> (r = None) = (e \<noteq> None)"
proof -
  have "unat (of_be32 [0, 0, 0, 1]) = 1" by simp
  then show ?thesis
    using Unpack_total[of "of_bytes [0, 0, 0, 1, 77, 1, 2]" "\<lambda>_. None"] by (auto simp: of_bytes_def sl_wf_def)
qed

text \<open>
  A symbol table of any size can be sent: \<open>marshalLargePacket\<close> sizes its buffer so that the packet
  fits exactly, header included, and the peer unpacks the same table.
\<close>

theorem large_packet_fits:
  assumes "ok_packet je (SymbolPacket sd)"
  shows "\<exists>mp. marshalLargePacket je (SymbolPacket sd) = Inr mp \<and> MergePacket_Len mp = mp_BufferSize mp \<and>
    unpack_all jd (merged_bytes mp) = [SymbolPacket sd]"
proof -
  have sz: "length (enc_packet je (SymbolPacket sd)) = SizeSymbolsData sd + PacketHeaderSize"
    using assms by (simp add: length_enc_packet ok_packet_def enc_body_def SymbolsData_size PacketHeaderSize_def)
  let ?mp = "new_MergePacket (SizeSymbolsData sd + PacketHeaderSize)"
  have "mp_wf ?mp" "merged_bytes ?mp = []" "mp_size ?mp = 0" "mp_BufferSize ?mp = SizeSymbolsData sd + PacketHeaderSize"
    by (simp_all add: mp_wf_def new_MergePacket_def merged_bytes_def)
  with Merge_ok[OF assms this(1)] sz obtain mp where mp: "MergePacket_Merge je (Plain (SymbolPacket sd)) ?mp = Inr mp"
    "mp_size mp = mp_BufferSize mp" "merged_bytes mp = enc_packet je (SymbolPacket sd)" by auto
  then have "marshalLargePacket je (SymbolPacket sd) = Inr mp" by (simp add: marshalLargePacket_def PacketSize_def)
  then show ?thesis using mp unpack_all_enc[of je "[SymbolPacket sd]" jd] assms
    by (auto simp: MergePacket_Len_def received_def json_law_def)
qed

theorem large_packet_fits_witness:
  "\<exists>mp. marshalLargePacket sample_json (SymbolPacket \<lparr>sd_Files = [''a.go''], sd_Mods = [], sd_Funcs = [], sd_Lines = []\<rparr>) = Inr mp \<and>
    unpack_all (\<lambda>bs. Some (string_of_bytes bs)) (merged_bytes mp) =
      [SymbolPacket \<lparr>sd_Files = [''a.go''], sd_Mods = [], sd_Funcs = [], sd_Lines = []\<rparr>]"
proof -
  have "ok_packet sample_json (SymbolPacket \<lparr>sd_Files = [''a.go''], sd_Mods = [], sd_Funcs = [], sd_Lines = []\<rparr>)"
    by (simp add: ok_packet_def enc_body_def enc_SymbolsData_def enc_list_def enc_string_def ok_SymbolsData_def ok_list_def ok_string_def)
  from large_packet_fits[OF this, of "\<lambda>bs. Some (string_of_bytes bs)"] show ?thesis by auto
qed

end
