(* ===== verification/Server.thy ===== *)
theory Server
  imports Packet Machines Strings
begin

section \<open>Server: the receiving end of the protocol (\<open>tracer/protocol/server.go\<close>, \<open>buffer.go\<close>)\<close>

text \<open>
  \<open>xtcp\<close> delivers events to \<open>Server.OnEvent\<close>, which looks the connection up and lets its
  \<open>ServerConn\<close> handle the event. A \<open>ConnHandler\<close> holds the callbacks of a connection: each is a
  function on the state \<open>'u\<close> the closures of the server's user share, or nil. The connection's own
  effects, what it sends and how it is stopped, are logged in \<open>env\<close>; \<open>ev_fails\<close> scripts the errors of
  \<open>xtcp\<close>'s \<open>Conn.Send\<close>, one entry per call.
\<close>

type_synonym ConnID = int64
type_synonym conn = nat

datatype StopMode = StopImmediately | StopGracefullyButNotWait | StopGracefullyAndWait

datatype EventType = EventAccept | EventConnected | EventRecv | EventSend | EventClosed

datatype conn_error =
    UnexpectedHello "packet option"
  | IncompatibleVersion
  | UnexpectedPacket "packet option"
  | SendError string

record 'u env =
  ev_user :: 'u
  ev_sent :: "(conn \<times> packet) list"
  ev_stops :: "(conn \<times> StopMode) list"
  ev_fails :: "string option list"
  ev_log :: "conn_error list"

subsection \<open>Handlers\<close>

record 'u ConnHandler =
  h_Connected :: "(ClientHelloPacket \<Rightarrow> 'u \<Rightarrow> 'u) option"
  h_Disconnected :: "('u \<Rightarrow> 'u) option"
  h_Error :: "(conn_error \<Rightarrow> 'u \<Rightarrow> 'u) option"
  h_Symbols :: "(SymbolsData \<Rightarrow> 'u \<Rightarrow> 'u) option"
  h_RawFuncLog :: "(RawFuncLog \<Rightarrow> 'u \<Rightarrow> 'u) option"

definition ConnHandler_SetDefault :: "(string \<Rightarrow> 'u \<Rightarrow> 'u) \<Rightarrow> 'u ConnHandler \<Rightarrow> 'u ConnHandler" where
  "ConnHandler_SetDefault fn sh =
     (let sh = (if h_Connected sh = None then sh\<lparr>h_Connected := Some (\<lambda>pkt. fn ''Connected'')\<rparr> else sh);
          sh = (if h_Disconnected sh = None then sh\<lparr>h_Disconnected := Some (fn ''Disconnected'')\<rparr> else sh);
          sh = (if h_Error sh = None then sh\<lparr>h_Error := Some (\<lambda>err. fn ''Error'')\<rparr> else sh);
          sh = (if h_Symbols sh = None then sh\<lparr>h_Symbols := Some (\<lambda>diff. fn ''Symbols'')\<rparr> else sh);
          sh = (if h_RawFuncLog sh = None then sh\<lparr>h_RawFuncLog := Some (\<lambda>funclog. fn ''RawFuncLog'')\<rparr> else sh)
      in sh)"

definition call0 :: "('u \<Rightarrow> 'u) option \<Rightarrow> 'u env \<Rightarrow> 'u env" where
  "call0 f e = (case f of None \<Rightarrow> e | Some f \<Rightarrow> e\<lparr>ev_user := f (ev_user e)\<rparr>)"

definition call1 :: "('a \<Rightarrow> 'u \<Rightarrow> 'u) option \<Rightarrow> 'a \<Rightarrow> 'u env \<Rightarrow> 'u env" where
  "call1 f x e = (case f of None \<Rightarrow> e | Some f \<Rightarrow> e\<lparr>ev_user := f x (ev_user e)\<rparr>)"

subsection \<open>Connections\<close>

text \<open>\<open>sendHandler\<close> and \<open>stopHandler\<close> are nil outside of tests, where they replace the connection.\<close>

record 'u ServerConn =
  sc_ID :: ConnID
  sc_Conn :: conn
  sc_Handler :: "'u ConnHandler"
  sc_isNegotiated :: bool
  sc_sendHandler :: "(conn \<Rightarrow> packet \<Rightarrow> 'u \<Rightarrow> 'u) option"
  sc_stopHandler :: "(conn \<Rightarrow> StopMode \<Rightarrow> 'u \<Rightarrow> 'u) option"

definition xtcp_Send :: "conn \<Rightarrow> packet \<Rightarrow> 'u env \<Rightarrow> string option \<times> 'u env" where
  "xtcp_Send c p e =
     (case ev_fails e of
        Some err # fs \<Rightarrow> (Some err, e\<lparr>ev_fails := fs\<rparr>)
      | None # fs \<Rightarrow> (None, e\<lparr>ev_fails := fs, ev_sent := ev_sent e @ [(c, p)]\<rparr>)
      | [] \<Rightarrow> (None, e\<lparr>ev_sent := ev_sent e @ [(c, p)]\<rparr>))"

definition xtcp_Stop :: "conn \<Rightarrow> StopMode \<Rightarrow> 'u env \<Rightarrow> 'u env" where
  "xtcp_Stop c m e = e\<lparr>ev_stops := ev_stops e @ [(c, m)]\<rparr>"

definition ServerConn_error :: "'u ServerConn \<Rightarrow> conn_error \<Rightarrow> 'u env \<Rightarrow> 'u env" where
  "ServerConn_error s err e =
     (if h_Error (sc_Handler s) \<noteq> None then call1 (h_Error (sc_Handler s)) err e
      else e\<lparr>ev_log := ev_log e @ [err]\<rparr>)"

definition ServerConn_Send :: "'u ServerConn \<Rightarrow> packet \<Rightarrow> 'u env \<Rightarrow> string option \<times> 'u env" where
  "ServerConn_Send s p e =
     (case sc_sendHandler s of
        None \<Rightarrow> xtcp_Send (sc_Conn s) p e
      | Some h \<Rightarrow> (None, e\<lparr>ev_user := h (sc_Conn s) p (ev_user e)\<rparr>))"

definition on_closed :: "'u ServerConn \<Rightarrow> 'u env \<Rightarrow> 'u env" where
  "on_closed s e = call0 (h_Disconnected (sc_Handler s)) e"

text \<open>The mocked stop raises \<open>EventClosed\<close>, the only case of \<open>OnEvent\<close> it leads to.\<close>

definition ServerConn_Stop :: "'u ServerConn \<Rightarrow> StopMode \<Rightarrow> 'u env \<Rightarrow> 'u env" where
  "ServerConn_Stop s m e =
     (case sc_stopHandler s of
        None \<Rightarrow> xtcp_Stop (sc_Conn s) m e
      | Some h \<Rightarrow> on_closed s (e\<lparr>ev_user := h (sc_Conn s) m (ev_user e)\<rparr>))"

definition negotiate :: "'u ServerConn \<Rightarrow> packet option \<Rightarrow> 'u env \<Rightarrow> 'u ServerConn \<times> 'u env" where
  "negotiate s p e =
     (case p of
        Some (ClientHello clientHello) \<Rightarrow>
          if \<not> isCompatibleVersion (ch_ProtocolVersion clientHello)
          then (s, ServerConn_Stop s StopImmediately (ServerConn_error s IncompatibleVersion e))
          else (case ServerConn_Send s (ServerHello ProtocolVersion) e of
              (Some err, e) \<Rightarrow> (s, ServerConn_Stop s StopImmediately (ServerConn_error s (SendError err) e))
            | (None, e) \<Rightarrow> (s\<lparr>sc_isNegotiated := True\<rparr>, call1 (h_Connected (sc_Handler s)) clientHello e))
      | _ \<Rightarrow> (s, ServerConn_Stop s StopImmediately (ServerConn_error s (UnexpectedHello p) e)))"

definition dispatch :: "'u ServerConn \<Rightarrow> packet option \<Rightarrow> 'u env \<Rightarrow> 'u env" where
  "dispatch s p e =
     (case p of
        Some PingPacket \<Rightarrow> e
      | Some (SymbolPacket sd) \<Rightarrow> call1 (h_Symbols (sc_Handler s)) sd e
      | Some (RawFuncLogPacket fl) \<Rightarrow> call1 (h_RawFuncLog (sc_Handler s)) fl e
      | _ \<Rightarrow> ServerConn_Stop s StopImmediately (ServerConn_error s (UnexpectedPacket p) e))"

definition ServerConn_OnEvent ::
  "'u ServerConn \<Rightarrow> EventType \<Rightarrow> packet option \<Rightarrow> 'u env \<Rightarrow> 'u ServerConn \<times> 'u env" where
  "ServerConn_OnEvent s et p e =
     (case et of
        EventAccept \<Rightarrow> (s, e)
      | EventRecv \<Rightarrow> if \<not> sc_isNegotiated s then negotiate s p e else (s, dispatch s p e)
      | EventSend \<Rightarrow> (s, e)
      | EventClosed \<Rightarrow> (s, on_closed s e)
      | EventConnected \<Rightarrow> (s, e))"

subsection \<open>Options\<close>

record XtcpBufferOption =
  xo_SendListLen :: int
  xo_RecvBufInitSize :: int
  xo_SendBufInitSize :: int
  xo_RecvBufMaxSize :: int
  xo_SendBufMaxSize :: int

record BufferOption =
  bo_RefreshInterval :: int
  bo_MaxSmallPacketSize :: int
  bo_MaxLargePacketSize :: int
  bo_Xtcp :: XtcpBufferOption

definition Millisecond :: int where "Millisecond = 1000000"
definition Second :: int where "Second = 1000000000"

definition DefaultRefreshInterval :: int where "DefaultRefreshInterval = 100 * Millisecond"
definition DefaultMaxSmallPacketSize :: int where "DefaultMaxSmallPacketSize = 2 ^ 20"
definition DefaultMaxLargePacketSize :: int where "DefaultMaxLargePacketSize = 100 * 2 ^ 20"
definition DefaultSendListLen :: int where "DefaultSendListLen = 30"
definition DefaultRecvBufInitSize :: int where "DefaultRecvBufInitSize = 2 ^ 20"
definition DefaultRecvBufMaxSize :: int where "DefaultRecvBufMaxSize = 100 * 2 ^ 20"
definition DefaultSendBufInitSize :: int where "DefaultSendBufInitSize = 2 ^ 20"
definition DefaultSendBufMaxSize :: int where "DefaultSendBufMaxSize = 100 * 2 ^ 20"
definition DefaultPingInterval :: int where "DefaultPingInterval = 3 * Second"

definition or_default :: "int \<Rightarrow> int \<Rightarrow> int" where
  "or_default x d = (if x = 0 then d else x)"

definition XtcpBufferOption_SetDefault :: "XtcpBufferOption \<Rightarrow> XtcpBufferOption" where
  "XtcpBufferOption_SetDefault opt =
     \<lparr>xo_SendListLen = or_default (xo_SendListLen opt) DefaultSendListLen,
      xo_RecvBufInitSize = or_default (xo_RecvBufInitSize opt) DefaultRecvBufInitSize,
      xo_SendBufInitSize = or_default (xo_SendBufInitSize opt) DefaultSendBufInitSize,
      xo_RecvBufMaxSize = or_default (xo_RecvBufMaxSize opt) DefaultRecvBufMaxSize,
      xo_SendBufMaxSize = or_default (xo_SendBufMaxSize opt) DefaultSendBufMaxSize\<rparr>"

definition BufferOption_SetDefault :: "BufferOption \<Rightarrow> BufferOption" where
  "BufferOption_SetDefault opt =
     \<lparr>bo_RefreshInterval = or_default (bo_RefreshInterval opt) DefaultRefreshInterval,
      bo_MaxSmallPacketSize = or_default (bo_MaxSmallPacketSize opt) DefaultMaxSmallPacketSize,
      bo_MaxLargePacketSize = or_default (bo_MaxLargePacketSize opt) DefaultMaxLargePacketSize,
      bo_Xtcp = XtcpBufferOption_SetDefault (bo_Xtcp opt)\<rparr>"

subsection \<open>The server\<close>

text \<open>
  \<open>srv_NewHandler\<close> is the user's function that makes the handler of a new connection.
  \<open>srv_listener\<close> is the address listened on, \<open>srv_stops\<close> the calls of the \<open>xtcp\<close> server's \<open>Stop\<close>.
\<close>

record 'u Server =
  srv_Addr :: string
  srv_NewHandler :: "ConnID \<Rightarrow> conn \<Rightarrow> 'u \<Rightarrow> 'u ConnHandler \<times> 'u"
  srv_PingInterval :: int
  srv_BufferOpt :: BufferOption
  srv_listener :: "string option"
  srv_initDone :: bool
  srv_stopDone :: bool
  srv_connMap :: "conn \<rightharpoonup> 'u ServerConn"
  srv_nextConnID :: ConnID
  srv_opt :: "XtcpBufferOption option"
  srv_stops :: nat

definition Server_init :: "'u Server \<Rightarrow> 'u Server" where
  "Server_init s =
     (if srv_initDone s then s
      else let bo = BufferOption_SetDefault (srv_BufferOpt s) in
        s\<lparr>srv_PingInterval := or_default (srv_PingInterval s) DefaultPingInterval,
          srv_BufferOpt := bo, srv_connMap := Map.empty, srv_opt := Some (bo_Xtcp bo), srv_initDone := True\<rparr>)"

definition DefaultTCPPort :: nat where "DefaultTCPPort = 8600"
definition MaxListenTries :: nat where "MaxListenTries = 100"

datatype listen_error = InvalidProtocolError | NetError

text \<open>\<open>net.Listen\<close> is the argument \<open>busy\<close>: the addresses that cannot be listened on.\<close>

definition local_addr :: "nat \<Rightarrow> string" where
  "local_addr port = ''localhost:'' @ format_nat port"

function listen_loop :: "(string \<Rightarrow> bool) \<Rightarrow> nat \<Rightarrow> listen_error option \<Rightarrow> 'u Server \<Rightarrow> listen_error option \<times> 'u Server" where
  "listen_loop busy i err s =
     (if i < MaxListenTries
      then let addr = local_addr (DefaultTCPPort + i);
               s = s\<lparr>srv_Addr := ''tcp://'' @ addr\<rparr>
           in if busy addr then listen_loop busy (i + 1) (Some NetError) s
              else (None, s\<lparr>srv_listener := Some addr\<rparr>)
      else (err, s))"
  by pat_completeness auto
termination by (relation "measure (\<lambda>(_, i, _, _). MaxListenTries - i)") auto

definition Server_Listen :: "(string \<Rightarrow> bool) \<Rightarrow> 'u Server \<Rightarrow> listen_error option \<times> 'u Server" where
  "Server_Listen busy s =
     (let s = Server_init s in
      if srv_Addr s = [] then listen_loop busy 0 None s
      else if HasPrefix (srv_Addr s) ''unix://'' then (Some InvalidProtocolError, s)
      else if HasPrefix (srv_Addr s) ''tcp://''
      then let addr = TrimPrefix (srv_Addr s) ''tcp://'' in
        if busy addr then (Some NetError, s) else (None, s\<lparr>srv_listener := Some addr\<rparr>)
      else (Some InvalidProtocolError, s))"

definition Server_Close :: "'u Server \<Rightarrow> 'u Server" where
  "Server_Close s = (if srv_stopDone s then s else s\<lparr>srv_stops := srv_stops s + 1, srv_stopDone := True\<rparr>)"

definition getServerConn :: "conn \<Rightarrow> 'u Server \<Rightarrow> 'u env \<Rightarrow> 'u ServerConn \<times> 'u Server \<times> 'u env" where
  "getServerConn c s e =
     (case srv_connMap s c of
        Some sc \<Rightarrow> (sc, s, e)
      | None \<Rightarrow>
          (case srv_NewHandler s (srv_nextConnID s) c (ev_user e) of (h, u) \<Rightarrow>
            let sc = \<lparr>sc_ID = srv_nextConnID s, sc_Conn = c, sc_Handler = h, sc_isNegotiated = False,
                      sc_sendHandler = None, sc_stopHandler = None\<rparr>
            in (sc, s\<lparr>srv_connMap := (srv_connMap s)(c \<mapsto> sc), srv_nextConnID := srv_nextConnID s + 1\<rparr>, e\<lparr>ev_user := u\<rparr>)))"

definition Server_OnEvent ::
  "EventType \<Rightarrow> conn \<Rightarrow> packet option \<Rightarrow> 'u Server \<times> 'u env \<Rightarrow> 'u Server \<times> 'u env" where
  "Server_OnEvent et c p = (\<lambda>(s, e).
     case getServerConn c s e of (sc, s, e) \<Rightarrow>
     case ServerConn_OnEvent sc et p e of (sc, e) \<Rightarrow>
       (s\<lparr>srv_connMap := (srv_connMap s)(c \<mapsto> sc)\<rparr>, e))"


subsection \<open>The specification: independent sessions\<close>

text \<open>
  Each connection is a session of its own. \<open>session_out\<close> says what an event does to a session that has
  or has not been negotiated: the callbacks made, the packets sent, the ways the connection is stopped.
\<close>

datatype call = Connected ClientHelloPacket | Disconnected | Failed conn_error | Symbols SymbolsData | RawLog RawFuncLog

record session =
  ss_negotiated :: bool
  ss_calls :: "call list"
  ss_sent :: "packet list"
  ss_stops :: "StopMode list"

definition new_session :: session where
  "new_session = \<lparr>ss_negotiated = False, ss_calls = [], ss_sent = [], ss_stops = []\<rparr>"

definition reject :: "bool \<Rightarrow> conn_error \<Rightarrow> bool \<times> call list \<times> packet list \<times> StopMode list" where
  "reject neg err = (neg, [Failed err], [], [StopImmediately])"

definition session_out :: "bool \<Rightarrow> EventType \<Rightarrow> packet option \<Rightarrow> bool \<times> call list \<times> packet list \<times> StopMode list" where
  "session_out neg et p =
     (case et of
        EventClosed \<Rightarrow> (neg, [Disconnected], [], [])
      | EventRecv \<Rightarrow>
          if \<not> neg then
            (case p of
               Some (ClientHello h) \<Rightarrow>
                 if ch_ProtocolVersion h = ProtocolVersion then (True, [Connected h], [ServerHello ProtocolVersion], [])
                 else reject False IncompatibleVersion
             | _ \<Rightarrow> reject False (UnexpectedHello p))
          else
            (case p of
               Some PingPacket \<Rightarrow> (True, [], [], [])
             | Some (SymbolPacket sd) \<Rightarrow> (True, [Symbols sd], [], [])
             | Some (RawFuncLogPacket r) \<Rightarrow> (True, [RawLog r], [], [])
             | _ \<Rightarrow> reject True (UnexpectedPacket p))
      | _ \<Rightarrow> (neg, [], [], []))"

definition session_step :: "session \<Rightarrow> EventType \<times> packet option \<Rightarrow> session" where
  "session_step ss = (\<lambda>(et, p). case session_out (ss_negotiated ss) et p of (neg, cs, ps, ms) \<Rightarrow>
     \<lparr>ss_negotiated = neg, ss_calls = ss_calls ss @ cs, ss_sent = ss_sent ss @ ps, ss_stops = ss_stops ss @ ms\<rparr>)"

type_synonym net_event = "conn \<times> EventType \<times> packet option"

text \<open>\<open>None\<close>: the counter of connection identifiers would wrap around.\<close>

definition sessions_step :: "(conn \<rightharpoonup> session) \<times> nat \<Rightarrow> net_event \<Rightarrow> ((conn \<rightharpoonup> session) \<times> nat) option" where
  "sessions_step = (\<lambda>(m, n) (c, ev).
     case m c of
       Some ss \<Rightarrow> Some (m(c \<mapsto> session_step ss ev), n)
     | None \<Rightarrow> if n + 1 < 2 ^ 64 then Some (m(c \<mapsto> session_step new_session ev), n + 1) else None)"

text \<open>The server with handlers that record the callbacks of each connection under its identifier.\<close>

type_synonym calls = "ConnID \<Rightarrow> call list"

definition note_call :: "ConnID \<Rightarrow> call \<Rightarrow> calls \<Rightarrow> calls" where
  "note_call i x u = u(i := u i @ [x])"

definition tracing :: "ConnID \<Rightarrow> calls ConnHandler" where
  "tracing i = \<lparr>h_Connected = Some (\<lambda>h. note_call i (Connected h)), h_Disconnected = Some (note_call i Disconnected),
     h_Error = Some (\<lambda>err. note_call i (Failed err)), h_Symbols = Some (\<lambda>sd. note_call i (Symbols sd)),
     h_RawFuncLog = Some (\<lambda>r. note_call i (RawLog r))\<rparr>"

definition tracing_server :: "calls Server \<Rightarrow> bool" where
  "tracing_server s \<longleftrightarrow> srv_NewHandler s = (\<lambda>i c u. (tracing i, u))"

definition server_step :: "calls Server \<times> calls env \<Rightarrow> net_event \<Rightarrow> (calls Server \<times> calls env) go" where
  "server_step se = (\<lambda>(c, et, p). Inr (Server_OnEvent et c p se))"

definition sent_by :: "conn \<Rightarrow> 'u env \<Rightarrow> packet list" where
  "sent_by c e = map snd (filter (\<lambda>x. fst x = c) (ev_sent e))"

definition stops_by :: "conn \<Rightarrow> 'u env \<Rightarrow> StopMode list" where
  "stops_by c e = map snd (filter (\<lambda>x. fst x = c) (ev_stops e))"

definition conn_rel :: "calls env \<Rightarrow> conn \<Rightarrow> session \<Rightarrow> calls ServerConn \<Rightarrow> bool" where
  "conn_rel e c ss sc \<longleftrightarrow>
     sc_Conn sc = c \<and> sc_Handler sc = tracing (sc_ID sc) \<and> sc_sendHandler sc = None \<and> sc_stopHandler sc = None \<and>
     sc_isNegotiated sc = ss_negotiated ss \<and> ev_user e (sc_ID sc) = ss_calls ss \<and>
     sent_by c e = ss_sent ss \<and> stops_by c e = ss_stops ss"

definition unseen :: "calls env \<Rightarrow> conn \<Rightarrow> bool" where
  "unseen e c \<longleftrightarrow> sent_by c e = [] \<and> stops_by c e = []"

definition conn_ok :: "(conn \<rightharpoonup> session) \<Rightarrow> nat \<Rightarrow> calls Server \<Rightarrow> calls env \<Rightarrow> conn \<Rightarrow> bool" where
  "conn_ok m n s e c \<longleftrightarrow>
     (case srv_connMap s c of
        None \<Rightarrow> m c = None \<and> unseen e c
      | Some sc \<Rightarrow> unat (sc_ID sc) < n \<and> (\<exists>ss. m c = Some ss \<and> conn_rel e c ss sc))"

definition ids_distinct :: "'u Server \<Rightarrow> bool" where
  "ids_distinct s \<longleftrightarrow> (\<forall>c c' sc sc'. srv_connMap s c = Some sc \<longrightarrow> srv_connMap s c' = Some sc' \<longrightarrow> sc_ID sc = sc_ID sc' \<longrightarrow> c = c')"

definition server_rel :: "(conn \<rightharpoonup> session) \<times> nat \<Rightarrow> calls Server \<times> calls env \<Rightarrow> bool" where
  "server_rel = (\<lambda>(m, n) (s, e).
     tracing_server s \<and> ev_fails e = [] \<and> n < 2 ^ 64 \<and> srv_nextConnID s = word_of_nat n \<and>
     (\<forall>i. n \<le> unat i \<longrightarrow> ev_user e i = []) \<and> (\<forall>c. conn_ok m n s e c) \<and> ids_distinct s)"

lemma OnEvent_session_out:
  assumes "conn_rel e c ss sc" "ev_fails e = []" "session_out (ss_negotiated ss) et p = (neg, cs, ps, ms)"
  shows "ServerConn_OnEvent sc et p e = (sc\<lparr>sc_isNegotiated := neg\<rparr>,
    e\<lparr>ev_user := (ev_user e)(sc_ID sc := ev_user e (sc_ID sc) @ cs),
      ev_sent := ev_sent e @ map (Pair c) ps, ev_stops := ev_stops e @ map (Pair c) ms\<rparr>)"
  using assms
  by (cases e; cases sc) (auto simp: fun_upd_idem ServerConn_OnEvent_def session_out_def conn_rel_def negotiate_def dispatch_def on_closed_def reject_def
      ServerConn_error_def ServerConn_Stop_def ServerConn_Send_def xtcp_Send_def xtcp_Stop_def call0_def call1_def
      tracing_def note_call_def isCompatibleVersion_def split: EventType.splits option.splits packet.splits if_splits)


lemma server_relD:
  assumes "server_rel (m, n) (s, e)"
  shows "tracing_server s" "ev_fails e = []" "n < 2 ^ 64" "srv_nextConnID s = word_of_nat n" "unat (srv_nextConnID s) = n"
    "n \<le> unat i \<Longrightarrow> ev_user e i = []" "conn_ok m n s e c" "ids_distinct s"
  using assms by (auto simp: server_rel_def unat_of_nat take_bit_nat_eq_self)

lemma known_iff: "conn_ok m n s e c \<Longrightarrow> (m c = None) = (srv_connMap s c = None)"
  by (auto simp: conn_ok_def split: option.splits)

lemma getServerConn_new:
  assumes "server_rel (m, n) (s, e)" "n + 1 < 2 ^ 64" "srv_connMap s c = None"
    "sc = \<lparr>sc_ID = srv_nextConnID s, sc_Conn = c, sc_Handler = tracing (srv_nextConnID s), sc_isNegotiated = False,
      sc_sendHandler = None, sc_stopHandler = None\<rparr>"
    "s' = s\<lparr>srv_connMap := (srv_connMap s)(c \<mapsto> sc), srv_nextConnID := srv_nextConnID s + 1\<rparr>"
  shows "server_rel (m(c \<mapsto> new_session), n + 1) (s', e)"
proof -
  note r = server_relD[OF assms(1)]
  have old: "unat (sc_ID sc'') < n" if "srv_connMap s c' = Some sc''" for c' sc''
    using r(7)[of c'] that by (simp add: conn_ok_def)
  have "unseen e c" using r(7)[of c] assms(3) by (simp add: conn_ok_def)
  then have new: "conn_rel e c new_session sc"
    using r(5) r(6)[of "srv_nextConnID s"] assms(4) by (simp add: conn_rel_def new_session_def unseen_def)
  have "conn_ok (m(c \<mapsto> new_session)) (n + 1) s' e c'" for c'
    using new r(5) r(7)[of c'] assms(4,5) by (auto simp: conn_ok_def split: option.splits)
  moreover have "ids_distinct s'"
    using r(5,8) old assms(4,5) by (fastforce simp: ids_distinct_def)
  ultimately show ?thesis
    using r(1-4) r(6) assms(2,5) by (auto simp: server_rel_def tracing_server_def)
qed

lemma getServerConn_rel:
  assumes "server_rel (m, n) (s, e)" "m c = None \<Longrightarrow> n + 1 < 2 ^ 64" "getServerConn c s e = (sc, s', e')"
  shows "server_rel (case m c of None \<Rightarrow> (m(c \<mapsto> new_session), n + 1) | Some _ \<Rightarrow> (m, n)) (s', e') \<and> srv_connMap s' c = Some sc"
proof (cases "srv_connMap s c")
  case (Some sc')
  then show ?thesis using assms known_iff[OF server_relD(7)[OF assms(1)], of c]
    by (auto simp: getServerConn_def split: option.splits)
next
  case None
  then have "m c = None" using known_iff[OF server_relD(7)[OF assms(1)], of c] by simp
  then show ?thesis
    using assms None server_relD(1)[OF assms(1)] getServerConn_new[OF assms(1) _ None refl refl]
    by (auto simp: getServerConn_def Let_def tracing_server_def)
qed

lemma by_append:
  "sent_by c (e\<lparr>ev_user := u, ev_sent := ev_sent e @ map (Pair d) ps, ev_stops := ev_stops e @ map (Pair d) ms\<rparr>) =
     sent_by c e @ (if c = d then ps else [])"
  "stops_by c (e\<lparr>ev_user := u, ev_sent := ev_sent e @ map (Pair d) ps, ev_stops := ev_stops e @ map (Pair d) ms\<rparr>) =
     stops_by c e @ (if c = d then ms else [])"
  by (auto simp: sent_by_def stops_by_def filter_map comp_def)

lemma OnEvent_rel:
  assumes "server_rel (m, n) (s, e)" "srv_connMap s c = Some sc" "m c = Some ss" "ServerConn_OnEvent sc et p e = (sc', e')"
  shows "server_rel (m(c \<mapsto> session_step ss (et, p)), n) (s\<lparr>srv_connMap := (srv_connMap s)(c \<mapsto> sc')\<rparr>, e')"
proof -
  note r = server_relD[OF assms(1)]
  obtain neg cs ps ms where o: "session_out (ss_negotiated ss) et p = (neg, cs, ps, ms)" by (metis surj_pair)
  have c: "conn_rel e c ss sc" "unat (sc_ID sc) < n" using r(7)[of c] assms(2,3) by (auto simp: conn_ok_def)
  note e = OnEvent_session_out[OF c(1) r(2) o, unfolded assms(4)]
  then have e': "sc' = sc\<lparr>sc_isNegotiated := neg\<rparr>" and
    e'': "e' = e\<lparr>ev_user := (ev_user e)(sc_ID sc := ev_user e (sc_ID sc) @ cs),
      ev_sent := ev_sent e @ map (Pair c) ps, ev_stops := ev_stops e @ map (Pair c) ms\<rparr>" by auto
  have "conn_ok (m(c \<mapsto> session_step ss (et, p))) n (s\<lparr>srv_connMap := (srv_connMap s)(c \<mapsto> sc')\<rparr>) e' d" for d
  proof (cases "d = c")
    case True
    then show ?thesis using c o e' by (simp add: conn_ok_def conn_rel_def session_step_def e'' by_append)
  next
    case False
    have "sc_ID sd \<noteq> sc_ID sc" if "srv_connMap s d = Some sd" for sd
      using False r(8) assms(2) that by (auto simp: ids_distinct_def)
    then show ?thesis using False r(7)[of d]
      by (auto simp: conn_ok_def conn_rel_def unseen_def e'' by_append split: option.splits)
  qed
  moreover have "ids_distinct (s\<lparr>srv_connMap := (srv_connMap s)(c \<mapsto> sc')\<rparr>)"
    using r(8) assms(2) e' by (auto simp: ids_distinct_def)
  moreover have "ev_user e' i = []" if "n \<le> unat i" for i
    using r(6)[OF that] c(2) that e'' by auto
  ultimately show ?thesis using r(1-4) e'' by (auto simp: server_rel_def tracing_server_def)
qed

interpretation server_sessions: simulating_machine sessions_step server_step server_rel
proof
  fix a c ev a'
  assume "server_rel a c" and st: "sessions_step a ev = Some a'"
  obtain m n s e d et p where [simp]: "a = (m, n)" "c = (s, e)" "ev = (d, et, p)" by (metis surj_pair)
  have r: "server_rel (m, n) (s, e)" using \<open>server_rel a c\<close> by simp
  obtain sc s' e' where g: "getServerConn d s e = (sc, s', e')" by (metis surj_pair)
  obtain sc' e'' where o: "ServerConn_OnEvent sc et p e' = (sc', e'')" by (metis surj_pair)
  have b: "m d = None \<Longrightarrow> n + 1 < 2 ^ 64" using st by (auto simp: sessions_step_def split: if_splits)
  have "server_rel a' (s'\<lparr>srv_connMap := (srv_connMap s')(d \<mapsto> sc')\<rparr>, e'')"
  proof (cases "m d")
    case None
    then show ?thesis using getServerConn_rel[OF r b g] OnEvent_rel[OF _ _ _ o, of "m(d \<mapsto> new_session)" "n + 1" s' d new_session] st b
      by (auto simp: sessions_step_def)
  next
    case (Some ss)
    then show ?thesis using getServerConn_rel[OF r b g] OnEvent_rel[OF _ _ _ o, of m n s' d ss] st
      by (auto simp: sessions_step_def)
  qed
  then show "\<exists>c'. server_step c ev = Inr c' \<and> server_rel a' c'"
    using g o by (simp add: server_step_def Server_OnEvent_def)
qed


subsection \<open>Runs of the sessions\<close>

definition events_of :: "conn \<Rightarrow> net_event list \<Rightarrow> (EventType \<times> packet option) list" where
  "events_of c evs = map snd (filter (\<lambda>ev. fst ev = c) evs)"

lemma events_of_simps [simp]:
  "events_of c [] = []" "events_of c ((d, ev) # evs) = (if d = c then ev # events_of c evs else events_of c evs)"
  by (auto simp: events_of_def)

definition session_of :: "session option \<Rightarrow> (EventType \<times> packet option) list \<Rightarrow> session option" where
  "session_of ss evs =
     (case ss of
        None \<Rightarrow> if evs = [] then None else Some (foldl session_step new_session evs)
      | Some ss \<Rightarrow> Some (foldl session_step ss evs))"

lemma sessions_run:
  "n + length evs < 2 ^ 64 \<Longrightarrow>
   \<exists>n'. spec_run sessions_step (m, n) evs = Some (\<lambda>c. session_of (m c) (events_of c evs), n')"
proof (induction evs arbitrary: m n)
  case Nil
  then show ?case by (auto simp: session_of_def split: option.splits)
next
  case (Cons ev evs)
  obtain d et p where [simp]: "ev = (d, et, p)" by (metis surj_pair)
  let ?s = "case m d of None \<Rightarrow> new_session | Some ss \<Rightarrow> ss"
  let ?m = "m(d \<mapsto> session_step ?s (et, p))"
  obtain n1 where n1: "sessions_step (m, n) ev = Some (?m, n1)" "n1 + length evs < 2 ^ 64"
    using Cons.prems by (cases "m d") (auto simp: sessions_step_def)
  moreover have "(\<lambda>c. session_of (?m c) (events_of c evs)) = (\<lambda>c. session_of (m c) (events_of c (ev # evs)))"
    by (auto simp: session_of_def fun_eq_iff split: option.splits)
  ultimately show ?case using Cons.IH[OF n1(2), of ?m]
    by (simp only: spec_run.simps n1(1) option.case)
qed

text \<open>What a session may have done: nothing but failures before the hello, and one hello only.\<close>

definition early_call :: "call \<Rightarrow> bool" where
  "early_call x \<longleftrightarrow> (case x of Failed _ \<Rightarrow> True | Disconnected \<Rightarrow> True | _ \<Rightarrow> False)"

definition well_ordered :: "bool \<Rightarrow> call list \<Rightarrow> bool" where
  "well_ordered neg cs \<longleftrightarrow>
     (if neg then \<exists>pre h post. cs = pre @ Connected h # post \<and> list_all early_call pre \<and>
        ch_ProtocolVersion h = ProtocolVersion \<and> (\<forall>g. Connected g \<notin> set post)
      else list_all early_call cs)"

definition failures :: "call list \<Rightarrow> nat" where
  "failures cs = length (filter (\<lambda>x. case x of Failed _ \<Rightarrow> True | _ \<Rightarrow> False) cs)"

definition session_inv :: "session \<Rightarrow> bool" where
  "session_inv ss \<longleftrightarrow> well_ordered (ss_negotiated ss) (ss_calls ss) \<and>
     ss_sent ss = (if ss_negotiated ss then [ServerHello ProtocolVersion] else []) \<and>
     ss_stops ss = replicate (failures (ss_calls ss)) StopImmediately"

lemma session_out_cases:
  obtains (idle) "session_out neg et p = (neg, [], [], [])"
  | (closed) "session_out neg et p = (neg, [Disconnected], [], [])"
  | (failed) err where "session_out neg et p = (neg, [Failed err], [], [StopImmediately])"
  | (hello) h where "session_out neg et p = (True, [Connected h], [ServerHello ProtocolVersion], [])" "\<not> neg"
      "ch_ProtocolVersion h = ProtocolVersion"
  | (data) x where "session_out neg et p = (neg, [x], [], [])" "neg" "\<not> early_call x" "\<And>g. x \<noteq> Connected g"
proof (cases "et = EventRecv")
  case False
  then show thesis using idle closed by (cases et) (auto simp: session_out_def)
next
  case True
  show thesis
  proof (cases neg)
    case True
    show thesis using True \<open>et = EventRecv\<close> idle failed data
      by (cases p; cases "the p") (auto simp: session_out_def reject_def early_call_def)
  next
    case False
    show thesis
    proof (cases "\<exists>h. p = Some (ClientHello h) \<and> ch_ProtocolVersion h = ProtocolVersion")
      case True
      then show thesis using False \<open>et = EventRecv\<close> hello by (auto simp: session_out_def)
    next
      case wrong: False
      show thesis using wrong False \<open>et = EventRecv\<close> failed
        by (cases p; cases "the p") (auto simp: session_out_def reject_def)
    qed
  qed
qed

lemma failures_append [simp]: "failures (xs @ ys) = failures xs + failures ys"
  by (simp add: failures_def)

lemma failures_single [simp]: "failures [] = 0" "failures [Failed err] = 1" "failures [Disconnected] = 0"
  "failures [Connected h] = 0" "\<not> early_call x \<Longrightarrow> failures [x] = 0"
  by (auto simp: failures_def early_call_def split: call.splits)

lemma well_ordered_late:
  assumes "well_ordered True cs" "\<And>g. x \<noteq> Connected g"
  shows "well_ordered True (cs @ [x])"
proof -
  obtain pre h post where "cs = pre @ Connected h # post" "list_all early_call pre"
    "ch_ProtocolVersion h = ProtocolVersion" "\<forall>g. Connected g \<notin> set post"
    using assms(1) by (auto simp: well_ordered_def)
  then have "cs @ [x] = pre @ Connected h # (post @ [x]) \<and> list_all early_call pre \<and>
    ch_ProtocolVersion h = ProtocolVersion \<and> (\<forall>g. Connected g \<notin> set (post @ [x]))"
    using assms(2) by auto
  then show ?thesis unfolding well_ordered_def if_True by blast
qed

lemma well_ordered_hello:
  assumes "well_ordered False cs" "ch_ProtocolVersion h = ProtocolVersion"
  shows "well_ordered True (cs @ [Connected h])"
  using assms unfolding well_ordered_def if_True by fastforce

lemma well_ordered_early:
  assumes "well_ordered neg cs" "early_call x"
  shows "well_ordered neg (cs @ [x])"
proof (cases neg)
  case True
  have "x \<noteq> Connected g" for g using assms(2) by (auto simp: early_call_def)
  then show ?thesis using True assms(1) well_ordered_late by simp
next
  case False
  then show ?thesis using assms by (simp add: well_ordered_def)
qed

lemma session_step_inv: "session_inv ss \<Longrightarrow> session_inv (session_step ss ev)"
proof -
  assume i: "session_inv ss"
  obtain et p where [simp]: "ev = (et, p)" by (cases ev)
  have e: "early_call Disconnected" "early_call (Failed err)" for err by (simp_all add: early_call_def)
  show ?thesis
    by (rule session_out_cases[of "ss_negotiated ss" et p])
      (use i e in \<open>auto simp: session_inv_def session_step_def replicate_append_same
         intro: well_ordered_early well_ordered_hello well_ordered_late\<close>)
qed

lemma session_run_inv: "session_inv ss \<Longrightarrow> session_inv (foldl session_step ss evs)"
  by (induction evs arbitrary: ss) (auto simp: session_step_inv)


definition idle_server :: "calls Server \<Rightarrow> bool" where
  "idle_server s \<longleftrightarrow> tracing_server s \<and> srv_connMap s = Map.empty \<and> srv_nextConnID s = 0"

definition quiet :: "calls env" where
  "quiet = \<lparr>ev_user = (\<lambda>_. []), ev_sent = [], ev_stops = [], ev_fails = [], ev_log = []\<rparr>"

lemma server_rel_init: "idle_server s \<Longrightarrow> server_rel (Map.empty, 0) (s, quiet)"
  by (auto simp: idle_server_def server_rel_def conn_ok_def unseen_def sent_by_def stops_by_def quiet_def ids_distinct_def)

lemma server_run:
  assumes "idle_server s" "length evs < 2 ^ 64"
  shows "\<exists>s' e' n. go_run server_step (s, quiet) evs = Inr (s', e') \<and>
    server_rel (\<lambda>c. session_of None (events_of c evs), n) (s', e')"
proof -
  obtain n where "spec_run sessions_step (Map.empty, 0) evs = Some (\<lambda>c. session_of None (events_of c evs), n)"
    using sessions_run[of 0 evs Map.empty] assms(2) by auto
  from server_sessions.run_sim[OF server_rel_init[OF assms(1)] this] show ?thesis by auto
qed

lemma events_of_empty: "(events_of c evs = []) = (c \<notin> fst ` set evs)"
  by (auto simp: events_of_def filter_empty_conv)

subsection \<open>Properties\<close>

text \<open>
  C7. However the events of several connections interleave, each connection is served as if it were
  alone: the callbacks it makes under its own identifier, the packets it sends and the stops it asks
  for are those of a session that sees only that connection's events, and no two connections share an
  identifier. The handlers here record every callback, and sends succeed.
\<close>

theorem Server_serves_independent_sessions:
  assumes "idle_server s" "length evs < 2 ^ 64"
  shows "\<exists>s' e'. go_run server_step (s, quiet) evs = Inr (s', e') \<and> ids_distinct s' \<and>
    (\<forall>c. case srv_connMap s' c of
           None \<Rightarrow> c \<notin> fst ` set evs
         | Some sc \<Rightarrow> c \<in> fst ` set evs \<and> (let ss = foldl session_step new_session (events_of c evs) in
             sc_isNegotiated sc = ss_negotiated ss \<and> ev_user e' (sc_ID sc) = ss_calls ss \<and>
             sent_by c e' = ss_sent ss \<and> stops_by c e' = ss_stops ss))"
proof -
  obtain s' e' n where r: "go_run server_step (s, quiet) evs = Inr (s', e')"
    "server_rel (\<lambda>c. session_of None (events_of c evs), n) (s', e')"
    using server_run[OF assms] by blast
  note ok = server_relD(7)[OF r(2)]
  have "case srv_connMap s' c of
           None \<Rightarrow> c \<notin> fst ` set evs
         | Some sc \<Rightarrow> c \<in> fst ` set evs \<and> (let ss = foldl session_step new_session (events_of c evs) in
             sc_isNegotiated sc = ss_negotiated ss \<and> ev_user e' (sc_ID sc) = ss_calls ss \<and>
             sent_by c e' = ss_sent ss \<and> stops_by c e' = ss_stops ss)" for c
    using ok[of c] events_of_empty[of c evs]
    by (auto simp: conn_ok_def session_of_def conn_rel_def Let_def split: option.splits if_splits)
  then show ?thesis using r(1) server_relD(8)[OF r(2)] by blast
qed

definition sample_server :: "calls Server" where
  "sample_server = \<lparr>srv_Addr = [], srv_NewHandler = (\<lambda>i c u. (tracing i, u)), srv_PingInterval = 0,
     srv_BufferOpt = \<lparr>bo_RefreshInterval = 0, bo_MaxSmallPacketSize = 0, bo_MaxLargePacketSize = 0,
       bo_Xtcp = \<lparr>xo_SendListLen = 0, xo_RecvBufInitSize = 0, xo_SendBufInitSize = 0, xo_RecvBufMaxSize = 0, xo_SendBufMaxSize = 0\<rparr>\<rparr>,
     srv_listener = None, srv_initDone = False, srv_stopDone = False, srv_connMap = Map.empty, srv_nextConnID = 0,
     srv_opt = None, srv_stops = 0\<rparr>"

definition sample_hello :: ClientHelloPacket where
  "sample_hello = \<lparr>ch_PID = 7, ch_AppName = ''app'', ch_Host = ''h'', ch_ClientSecret = [], ch_ProtocolVersion = ''1''\<rparr>"

definition sample_events :: "net_event list" where
  "sample_events = [(1, EventRecv, Some (ClientHello sample_hello)), (2, EventRecv, Some PingPacket),
     (1, EventRecv, Some (SymbolPacket zero_SymbolsData)), (2, EventClosed, None)]"

lemma idle_sample_server: "idle_server sample_server"
  by (simp add: idle_server_def tracing_server_def sample_server_def)

theorem Server_serves_independent_sessions_witness:
  "\<exists>s' e'. go_run server_step (sample_server, quiet) sample_events = Inr (s', e') \<and> ids_distinct s' \<and>
    (\<forall>c. case srv_connMap s' c of
           None \<Rightarrow> c \<notin> fst ` set sample_events
         | Some sc \<Rightarrow> c \<in> fst ` set sample_events \<and> (let ss = foldl session_step new_session (events_of c sample_events) in
             sc_isNegotiated sc = ss_negotiated ss \<and> ev_user e' (sc_ID sc) = ss_calls ss \<and>
             sent_by c e' = ss_sent ss \<and> stops_by c e' = ss_stops ss)) \<and>
    ss_calls (foldl session_step new_session (events_of 1 sample_events)) = [Connected sample_hello, Symbols zero_SymbolsData]"
proof -
  have "ss_calls (foldl session_step new_session (events_of 1 sample_events)) = [Connected sample_hello, Symbols zero_SymbolsData]"
    by (simp add: sample_events_def session_step_def session_out_def new_session_def sample_hello_def ProtocolVersion_def)
  moreover have "length sample_events < 2 ^ 64" by (simp add: sample_events_def)
  ultimately show ?thesis
    using Server_serves_independent_sessions[OF idle_sample_server, of sample_events] by blast
qed

text \<open>
  C33. No data reaches the user before the negotiation. Whatever packets arrive, in whatever order and on
  whatever connections: the symbol and log callbacks of a connection come after its one \<open>Connected\<close>,
  which carries a hello of the server's protocol version; a connection is greeted with one server hello,
  just when it is negotiated; every protocol error is reported once and stops the connection at once.
\<close>

theorem Server_negotiates_before_data:
  assumes "idle_server s" "length evs < 2 ^ 64" "go_run server_step (s, quiet) evs = Inr (s', e')"
    "srv_connMap s' c = Some sc"
  shows "well_ordered (sc_isNegotiated sc) (ev_user e' (sc_ID sc)) \<and>
    sent_by c e' = (if sc_isNegotiated sc then [ServerHello ProtocolVersion] else []) \<and>
    stops_by c e' = replicate (failures (ev_user e' (sc_ID sc))) StopImmediately"
proof -
  obtain n where r: "server_rel (\<lambda>c. session_of None (events_of c evs), n) (s', e')"
    using server_run[OF assms(1,2)] assms(3) by auto
  obtain ss where ss: "session_of None (events_of c evs) = Some ss" "conn_rel e' c ss sc"
    using server_relD(7)[OF r, of c] assms(4) by (auto simp: conn_ok_def)
  moreover have "session_inv new_session" by (simp add: session_inv_def new_session_def well_ordered_def)
  ultimately have "session_inv ss"
    using session_run_inv by (auto simp: session_of_def split: if_splits)
  then show ?thesis using ss(2) by (simp add: session_inv_def conn_rel_def)
qed

theorem Server_negotiates_before_data_witness:
  "\<exists>s' e' sc. go_run server_step (sample_server, quiet) sample_events = Inr (s', e') \<and> srv_connMap s' 2 = Some sc \<and>
    well_ordered (sc_isNegotiated sc) (ev_user e' (sc_ID sc)) \<and>
    sent_by 2 e' = (if sc_isNegotiated sc then [ServerHello ProtocolVersion] else []) \<and>
    stops_by 2 e' = replicate (failures (ev_user e' (sc_ID sc))) StopImmediately"
proof -
  have l: "length sample_events < 2 ^ 64" by (simp add: sample_events_def)
  obtain s' e' n where r: "go_run server_step (sample_server, quiet) sample_events = Inr (s', e')"
    "server_rel (\<lambda>c. session_of None (events_of c sample_events), n) (s', e')"
    using server_run[OF idle_sample_server l] by blast
  obtain sc where "srv_connMap s' 2 = Some sc"
    using server_relD(7)[OF r(2), of 2]
    by (auto simp: conn_ok_def session_of_def events_of_empty sample_events_def split: option.splits)
  then show ?thesis using r(1) Server_negotiates_before_data[OF idle_sample_server l r(1)] by blast
qed

lemma listen_loop_first:
  assumes "i \<le> k" "k < MaxListenTries" "\<not> busy (local_addr (DefaultTCPPort + k))"
    "\<forall>j. i \<le> j \<and> j < k \<longrightarrow> busy (local_addr (DefaultTCPPort + j))"
  shows "listen_loop busy i err s = (None, s\<lparr>srv_Addr := ''tcp://'' @ local_addr (DefaultTCPPort + k),
    srv_listener := Some (local_addr (DefaultTCPPort + k))\<rparr>)"
  using assms
proof (induction busy i err s rule: listen_loop.induct)
  case (1 busy i err s)
  show ?case
  proof (cases "i = k")
    case True
    then show ?thesis using 1 by (subst listen_loop.simps) (simp add: Let_def)
  next
    case False
    then show ?thesis using 1 by (subst listen_loop.simps) (simp add: Let_def)
  qed
qed

lemma listen_loop_fails:
  assumes "\<forall>j. i \<le> j \<and> j < MaxListenTries \<longrightarrow> busy (local_addr (DefaultTCPPort + j))" "i < MaxListenTries \<or> err = Some NetError"
  shows "\<exists>s'. listen_loop busy i err s = (Some NetError, s') \<and> srv_listener s' = srv_listener s"
  using assms
proof (induction busy i err s rule: listen_loop.induct)
  case (1 busy i err s)
  show ?case
  proof (cases "i < MaxListenTries")
    case True
    then show ?thesis
      using 1(1)[OF True refl refl] 1(2) by (subst listen_loop.simps) (simp add: Let_def)
  next
    case False
    then show ?thesis using 1(3) by (subst listen_loop.simps) simp
  qed
qed

text \<open>
  With no address configured, \<open>Listen\<close> takes the first free port of 8600 to 8699 on the local host and
  records it as the server's address; when all hundred are taken it fails with the network's error and
  listens on none.
\<close>

theorem Listen_takes_first_free_port:
  assumes "srv_Addr s = []" "srv_listener s = None"
  shows "(\<forall>k < 100. \<not> busy (local_addr (8600 + k)) \<and> (\<forall>j < k. busy (local_addr (8600 + j))) \<longrightarrow>
      (\<exists>s'. Server_Listen busy s = (None, s') \<and> srv_listener s' = Some (local_addr (8600 + k)) \<and>
        srv_Addr s' = ''tcp://localhost:'' @ format_nat (8600 + k) \<and> srv_connMap s' = srv_connMap (Server_init s))) \<and>
    ((\<forall>k < 100. busy (local_addr (8600 + k))) \<longrightarrow>
      (\<exists>s'. Server_Listen busy s = (Some NetError, s') \<and> srv_listener s' = None))"
proof -
  have i: "srv_Addr (Server_init s) = []" "srv_listener (Server_init s) = None"
    using assms by (simp_all add: Server_init_def Let_def)
  then have L: "Server_Listen busy s = listen_loop busy 0 None (Server_init s)" by (simp add: Server_Listen_def Let_def)
  show ?thesis unfolding L
    using listen_loop_first[of 0 _ busy None "Server_init s"] listen_loop_fails[of 0 busy None "Server_init s"] i
    by (auto simp: MaxListenTries_def DefaultTCPPort_def local_addr_def)
qed

theorem Listen_takes_first_free_port_witness:
  "\<exists>s'. Server_Listen (\<lambda>a. a = ''localhost:8600'') sample_server = (None, s') \<and>
    srv_Addr s' = ''tcp://localhost:'' @ format_nat (8600 + 1)"
proof -
  have f: "local_addr 8600 = ''localhost:8600''" "local_addr 8601 = ''localhost:8601''"
    by (simp_all add: local_addr_def format_nat.simps digit_char_def char_of_def bit_iff_odd)
  have "srv_Addr sample_server = []" "srv_listener sample_server = None" by (simp_all add: sample_server_def)
  from Listen_takes_first_free_port[OF this, THEN conjunct1, rule_format, of 1 "\<lambda>a. a = ''localhost:8600''"] f
  show ?thesis by auto
qed

end
