(* ===== verification/MergeSender.thy ===== *)
theory MergeSender
  imports Packet Machines
begin

section \<open>MergeSender: batching of packets (\<open>mergeSender\<close> in \<open>tracer/protocol/client.go\<close>)\<close>

text \<open>
  The client packs small packets into a \<open>MergePacket\<close> and hands it to the connection when it has
  grown past \<open>MaxSmallPacketSize\<close>, when the refresh worker ticks, or when a large packet has to go
  out. \<open>Conn.Send\<close> belongs to \<open>xtcp\<close>: \<open>ms_sent\<close> are the packets it has accepted, and \<open>ms_fails\<close>
  scripts its failures, one entry per call. \<open>ms_pool\<close> is the \<open>sync.Pool\<close> of packets to reuse. The
  mutex is taken and released within each method. The channel \<open>ch\<close> is made and never used.
\<close>

type_synonym send_error = string

record mergeSender =
  ms_MaxSmall :: nat
  ms_pool :: "MergePacket list"
  ms_mergePkt :: "MergePacket option"
  ms_stopped :: bool
  ms_sent :: "MergePacket list"
  ms_fails :: "send_error option list"

definition mergeSender_Init :: "nat \<Rightarrow> mergeSender" where
  "mergeSender_Init m =
     \<lparr>ms_MaxSmall = m, ms_pool = [], ms_mergePkt = None, ms_stopped = False, ms_sent = [], ms_fails = []\<rparr>"

definition pool_Get :: "mergeSender \<Rightarrow> MergePacket \<times> mergeSender" where
  "pool_Get ms =
     (case ms_pool ms of
        [] \<Rightarrow> (new_MergePacket (ms_MaxSmall ms + 2048), ms)
      | mp # mps \<Rightarrow> (mp, ms\<lparr>ms_pool := mps\<rparr>))"

definition mergeSender_Put :: "MergePacket \<Rightarrow> mergeSender \<Rightarrow> mergeSender" where
  "mergeSender_Put mp ms = ms\<lparr>ms_pool := mp # ms_pool ms\<rparr>"

definition Conn_Send :: "MergePacket \<Rightarrow> mergeSender \<Rightarrow> send_error option \<times> mergeSender" where
  "Conn_Send mp ms =
     (case ms_fails ms of
        Some e # fs \<Rightarrow> (Some e, ms\<lparr>ms_fails := fs\<rparr>)
      | None # fs \<Rightarrow> (None, ms\<lparr>ms_fails := fs, ms_sent := ms_sent ms @ [mp]\<rparr>)
      | [] \<Rightarrow> (None, ms\<lparr>ms_sent := ms_sent ms @ [mp]\<rparr>))"

definition sendNolock :: "json_encoder \<Rightarrow> packet \<Rightarrow> mergeSender \<Rightarrow> (send_error option \<times> mergeSender) go" where
  "sendNolock je p ms =
     (if ms_stopped ms then Inl (Panic ''ms.stopped != 0'')
      else let (mp, ms) = (case ms_mergePkt ms of
                   Some mp \<Rightarrow> (mp, ms)
                 | None \<Rightarrow> (case pool_Get ms of (mp, ms) \<Rightarrow> (MergePacket_Reset mp, ms)))
        in go_bind (MergePacket_Merge je (Plain p) mp) (\<lambda>mp.
           if ms_MaxSmall ms \<le> MergePacket_Len mp
           then Inr (Conn_Send mp (ms\<lparr>ms_mergePkt := None\<rparr>))
           else Inr (None, ms\<lparr>ms_mergePkt := Some mp\<rparr>)))"

definition mergeSender_Send :: "json_encoder \<Rightarrow> packet \<Rightarrow> mergeSender \<Rightarrow> (send_error option \<times> mergeSender) go" where
  "mergeSender_Send = sendNolock"

definition refreshNolock :: "mergeSender \<Rightarrow> (send_error option \<times> mergeSender) go" where
  "refreshNolock ms =
     (if ms_stopped ms then Inl (Panic ''ms.stopped != 0'')
      else case ms_mergePkt ms of
        None \<Rightarrow> Inr (None, ms)
      | Some mp \<Rightarrow>
          if MergePacket_Len mp = 0 then Inr (None, ms)
          else Inr (Conn_Send mp (ms\<lparr>ms_mergePkt := None\<rparr>)))"

definition mergeSender_Refresh :: "mergeSender \<Rightarrow> (send_error option \<times> mergeSender) go" where
  "mergeSender_Refresh = refreshNolock"

definition mergeSender_SendLarge :: "json_encoder \<Rightarrow> packet \<Rightarrow> mergeSender \<Rightarrow> (send_error option \<times> mergeSender) go" where
  "mergeSender_SendLarge je p ms =
     (if ms_stopped ms then Inl (Panic ''ms.stopped != 0'')
      else go_bind (refreshNolock ms) (\<lambda>(e, ms).
        case e of
          Some e \<Rightarrow> Inr (Some e, ms)
        | None \<Rightarrow> go_bind (marshalLargePacket je p) (\<lambda>mp. Inr (Conn_Send mp ms))))"

definition refreshLast :: "mergeSender \<Rightarrow> send_error option \<times> mergeSender" where
  "refreshLast ms =
     (let ms = ms\<lparr>ms_stopped := True\<rparr> in
      case ms_mergePkt ms of
        None \<Rightarrow> (None, ms)
      | Some mp \<Rightarrow>
          if MergePacket_Len mp = 0 then (None, ms)
          else Conn_Send mp (ms\<lparr>ms_mergePkt := None\<rparr>))"

text \<open>The refresh worker: a tick refreshes, the end of the context flushes and stops; an error panics.\<close>

datatype refresh_event = Tick | CtxDone

definition RefreshWorker :: "mergeSender \<Rightarrow> refresh_event \<Rightarrow> mergeSender go" where
  "RefreshWorker ms ev =
     (case ev of
        Tick \<Rightarrow> go_bind (mergeSender_Refresh ms) (\<lambda>(e, ms). if e = None then Inr ms else Inl (Panic ''Refresh''))
      | CtxDone \<Rightarrow> (case refreshLast ms of (e, ms) \<Rightarrow> if e = None then Inr ms else Inl (Panic ''refreshLast'')))"

subsection \<open>The specification: a queue of packets\<close>

text \<open>
  What happens to a sender: the two methods, a tick of the refresh worker, and the connection's report that the
  \<open>n\<close>-th packet it was given has been written (\<open>EventSend\<close>), on which the packet goes back to the pool.
\<close>

datatype mop = MSend packet | MSendLarge packet | MTick | MReuse nat

definition ms_step :: "json_encoder \<Rightarrow> mergeSender \<Rightarrow> mop \<Rightarrow> mergeSender go" where
  "ms_step je ms op =
     (case op of
        MSend p \<Rightarrow> go_bind (mergeSender_Send je p ms) (\<lambda>(_, ms). Inr ms)
      | MSendLarge p \<Rightarrow> go_bind (mergeSender_SendLarge je p ms) (\<lambda>(_, ms). Inr ms)
      | MTick \<Rightarrow> RefreshWorker ms Tick
      | MReuse n \<Rightarrow> Inr (if n < length (ms_sent ms) then mergeSender_Put ((ms_sent ms ! n)\<lparr>mp_size := 0\<rparr>) ms else ms))"

text \<open>
  Small packets are those that fit the slack of 2048 bytes, and large ones are symbol tables. The buffer of a
  large packet has just the size of that packet; it is \<^emph>\<open>tight\<close> if that is less than what the sender gives a
  buffer of small packets. The abstract state is the list of all packets sent so far, and whether a tight one was
  among them: from then on reusing buffers is outside the specification (see \<open>reused_large_buffer_panics\<close>).
\<close>

definition tight :: "nat \<Rightarrow> mop \<Rightarrow> bool" where
  "tight m op \<longleftrightarrow> (case op of MSendLarge (SymbolPacket sd) \<Rightarrow> SizeSymbolsData sd + PacketHeaderSize < m + 2048 | _ \<Rightarrow> False)"

definition queue_step :: "json_encoder \<Rightarrow> nat \<Rightarrow> packet list \<times> bool \<Rightarrow> mop \<Rightarrow> (packet list \<times> bool) option" where
  "queue_step je m = (\<lambda>(ps, t) op.
     case op of
       MSend p \<Rightarrow> if ok_packet je p \<and> length (enc_packet je p) \<le> 2048 then Some (ps @ [p], t) else None
     | MSendLarge p \<Rightarrow>
         (case p of SymbolPacket sd \<Rightarrow> if ok_packet je p then Some (ps @ [p], t \<or> tight m op) else None | _ \<Rightarrow> None)
     | MTick \<Rightarrow> Some (ps, t)
     | MReuse n \<Rightarrow> if t then None else Some (ps, t))"

text \<open>The same conditions on a whole sequence of operations, and the packets that it sends.\<close>

definition sendable :: "json_encoder \<Rightarrow> mop \<Rightarrow> bool" where
  "sendable je op \<longleftrightarrow>
     (case op of
        MSend p \<Rightarrow> ok_packet je p \<and> length (enc_packet je p) \<le> 2048
      | MSendLarge p \<Rightarrow> (case p of SymbolPacket sd \<Rightarrow> ok_packet je p | _ \<Rightarrow> False)
      | _ \<Rightarrow> True)"

definition is_reuse :: "mop \<Rightarrow> bool" where
  "is_reuse op \<longleftrightarrow> (case op of MReuse n \<Rightarrow> True | _ \<Rightarrow> False)"

fun roomy :: "nat \<Rightarrow> mop list \<Rightarrow> bool" where
  "roomy m [] = True"
| "roomy m (op # ops) = ((tight m op \<longrightarrow> \<not> list_ex is_reuse ops) \<and> roomy m ops)"

fun sent_packets :: "mop list \<Rightarrow> packet list" where
  "sent_packets [] = []"
| "sent_packets (op # ops) = (case op of MSend p \<Rightarrow> [p] | MSendLarge p \<Rightarrow> [p] | _ \<Rightarrow> []) @ sent_packets ops"

lemma sent_packets_append: "sent_packets (xs @ ys) = sent_packets xs @ sent_packets ys"
  by (induction xs) simp_all

lemma queue_run:
  assumes "list_all (sendable je) ops" "roomy m ops" "t \<longrightarrow> \<not> list_ex is_reuse ops"
  shows "\<exists>t'. spec_run (queue_step je m) (ps, t) ops = Some (ps @ sent_packets ops, t')"
  using assms
proof (induction ops arbitrary: ps t)
  case (Cons op ops)
  let ?t = "t \<or> tight m op"
  have op: "sendable je op" "t \<longrightarrow> \<not> is_reuse op" "?t \<longrightarrow> \<not> list_ex is_reuse ops" using Cons.prems by auto
  have "queue_step je m (ps, t) op = Some (ps @ sent_packets [op], ?t)"
    using op(1,2) by (cases op) (simp_all add: queue_step_def sendable_def is_reuse_def tight_def split: packet.splits)
  moreover obtain t' where "spec_run (queue_step je m) (ps @ sent_packets [op], ?t) ops = Some ((ps @ sent_packets [op]) @ sent_packets ops, t')"
    using Cons.IH[of ?t "ps @ sent_packets [op]"] Cons.prems(1,2) op(3) by auto
  ultimately show ?case by (simp del: sent_packets.simps(2) flip: sent_packets_append)
qed simp

text \<open>Every packet that the client passes to \<open>Send\<close> is small: pings, the shutdown message and call records.\<close>

lemma small_packets:
  "sendable je (MSend PingPacket)" "sendable je (MSend ShutdownPacket)"
  "length (raw_Frames r) \<le> MaxStackSize \<Longrightarrow> sendable je (MSend (RawFuncLogPacket r))"
  by (simp_all add: sendable_def ok_packet_def length_enc_packet enc_body_def length_enc_RawFuncLog MaxStackSize_def)

definition wire :: "mergeSender \<Rightarrow> byte list" where
  "wire ms = concat (map merged_bytes (ms_sent ms))"

definition pending_bytes :: "mergeSender \<Rightarrow> byte list" where
  "pending_bytes ms = (case ms_mergePkt ms of None \<Rightarrow> [] | Some mp \<Rightarrow> merged_bytes mp)"

definition pooled_ok :: "nat \<Rightarrow> MergePacket \<Rightarrow> bool" where
  "pooled_ok m mp \<longleftrightarrow> mp_wf mp \<and> m + 2048 \<le> mp_BufferSize mp"

definition ms_rel :: "json_encoder \<Rightarrow> nat \<Rightarrow> packet list \<times> bool \<Rightarrow> mergeSender \<Rightarrow> bool" where
  "ms_rel je m = (\<lambda>(ps, t) ms.
     \<not> ms_stopped ms \<and> ms_fails ms = [] \<and> ms_MaxSmall ms = m \<and> list_all (ok_packet je) ps \<and>
     wire ms @ pending_bytes ms = concat (map (enc_packet je) ps) \<and>
     list_all (pooled_ok m) (ms_pool ms) \<and>
     (\<forall>mp. ms_mergePkt ms = Some mp \<longrightarrow> pooled_ok m mp \<and> mp_size mp \<le> m) \<and>
     (\<not> t \<longrightarrow> list_all (pooled_ok m) (ms_sent ms)))"

lemma reset_ok:
  "pooled_ok m mp \<Longrightarrow> pooled_ok m (MergePacket_Reset mp) \<and> mp_size (MergePacket_Reset mp) = 0 \<and> merged_bytes (MergePacket_Reset mp) = []"
  by (auto simp: pooled_ok_def mp_wf_def MergePacket_Reset_def merged_bytes_def split: option.splits)

lemma new_ok: "pooled_ok m (new_MergePacket (m + 2048))"
  by (simp add: pooled_ok_def mp_wf_def new_MergePacket_def)

lemma Conn_Send_ok: "ms_fails ms = [] \<Longrightarrow> Conn_Send mp ms = (None, ms\<lparr>ms_sent := ms_sent ms @ [mp]\<rparr>)"
  by (simp add: Conn_Send_def)

lemma pick_packet:
  assumes "list_all (pooled_ok (ms_MaxSmall ms)) (ms_pool ms)"
    "\<forall>mp. ms_mergePkt ms = Some mp \<longrightarrow> pooled_ok (ms_MaxSmall ms) mp \<and> mp_size mp \<le> ms_MaxSmall ms"
  obtains mp pool where "(case ms_mergePkt ms of Some mp \<Rightarrow> (mp, ms) | None \<Rightarrow> (case pool_Get ms of (mp, ms) \<Rightarrow> (MergePacket_Reset mp, ms))) =
      (mp, ms\<lparr>ms_pool := pool\<rparr>)" "pooled_ok (ms_MaxSmall ms) mp" "mp_size mp \<le> ms_MaxSmall ms" "merged_bytes mp = pending_bytes ms"
    "list_all (pooled_ok (ms_MaxSmall ms)) pool"
proof (cases "ms_mergePkt ms")
  case (Some mp)
  then show ?thesis using assms by (intro that[of mp "ms_pool ms"]) (auto simp: pending_bytes_def)
next
  case None
  show ?thesis
  proof (cases "ms_pool ms")
    case Nil
    let ?n = "new_MergePacket (ms_MaxSmall ms + 2048)"
    show ?thesis using None Nil reset_ok[OF new_ok, of "ms_MaxSmall ms"]
      by (intro that[of "MergePacket_Reset ?n" "[]"]) (auto simp: pool_Get_def pending_bytes_def)
  next
    case (Cons mp mps)
    then show ?thesis using None reset_ok[of "ms_MaxSmall ms" mp] assms(1)
      by (intro that[of "MergePacket_Reset mp" mps]) (auto simp: pool_Get_def pending_bytes_def)
  qed
qed

lemma send_sim:
  assumes R: "ms_rel je m (ps, t) ms" and ok: "ok_packet je p" "length (enc_packet je p) \<le> 2048"
  shows "\<exists>ms'. sendNolock je p ms = Inr (None, ms') \<and> ms_rel je m (ps @ [p], t) ms'"
proof -
  have m: "ms_MaxSmall ms = m" using R by (simp add: ms_rel_def)
  obtain mp pool where pk: "(case ms_mergePkt ms of Some mp \<Rightarrow> (mp, ms) | None \<Rightarrow> (case pool_Get ms of (mp, ms) \<Rightarrow> (MergePacket_Reset mp, ms))) =
      (mp, ms\<lparr>ms_pool := pool\<rparr>)" "pooled_ok m mp" "mp_size mp \<le> m" "merged_bytes mp = pending_bytes ms" "list_all (pooled_ok m) pool"
    using pick_packet[of ms] R unfolding m by (auto simp: ms_rel_def)
  obtain mp' where mg: "MergePacket_Merge je (Plain p) mp = Inr mp'" "pooled_ok m mp'"
    "merged_bytes mp' = pending_bytes ms @ enc_packet je p"
    using Merge_ok[OF ok(1), of mp] pk ok(2) by (auto simp: pooled_ok_def)
  have base: "\<not> ms_stopped ms" "ms_fails ms = []" "wire ms @ pending_bytes ms = concat (map (enc_packet je) ps)"
    "list_all (ok_packet je) ps" "\<not> t \<longrightarrow> list_all (pooled_ok m) (ms_sent ms)"
    using R by (auto simp: ms_rel_def)
  have eq: "sendNolock je p ms = (if m \<le> mp_size mp'
      then Inr (Conn_Send mp' (ms\<lparr>ms_pool := pool, ms_mergePkt := None\<rparr>)) else Inr (None, ms\<lparr>ms_pool := pool, ms_mergePkt := Some mp'\<rparr>))"
    using base pk(1) mg(1) by (simp add: sendNolock_def MergePacket_Len_def m)
  show ?thesis
  proof (cases "m \<le> mp_size mp'")
    case True
    then show ?thesis using eq base mg pk(5) ok(1) m
      by (simp add: Conn_Send_ok ms_rel_def wire_def pending_bytes_def[of "_\<lparr>ms_sent := _\<rparr>"])
  next
    case False
    then show ?thesis using eq base mg pk(5) ok(1) m
      by (simp add: ms_rel_def wire_def pending_bytes_def[of "_\<lparr>ms_mergePkt := _\<rparr>"])
  qed
qed

lemma refresh_sim:
  assumes R: "ms_rel je m (ps, t) ms"
  shows "\<exists>ms'. refreshNolock ms = Inr (None, ms') \<and> ms_rel je m (ps, t) ms' \<and> pending_bytes ms' = [] \<and> ms_MaxSmall ms' = ms_MaxSmall ms"
proof (cases "ms_mergePkt ms")
  case None
  then show ?thesis using R by (simp add: refreshNolock_def ms_rel_def pending_bytes_def)
next
  case (Some mp)
  show ?thesis
  proof (cases "mp_size mp = 0")
    case True
    then show ?thesis using R Some
      by (auto simp: refreshNolock_def ms_rel_def pending_bytes_def MergePacket_Len_def merged_bytes_def)
  next
    case False
    then show ?thesis using R Some
      by (auto simp: refreshNolock_def ms_rel_def pending_bytes_def MergePacket_Len_def Conn_Send_ok wire_def)
  qed
qed

lemma large_sim:
  assumes R: "ms_rel je m (ps, t) ms" and ok: "ok_packet je (SymbolPacket sd)"
  shows "\<exists>ms'. mergeSender_SendLarge je (SymbolPacket sd) ms = Inr (None, ms') \<and> ms_rel je m (ps @ [SymbolPacket sd], t \<or> tight m (MSendLarge (SymbolPacket sd))) ms'"
proof -
  obtain ms1 where rf: "refreshNolock ms = Inr (None, ms1)" "ms_rel je m (ps, t) ms1" "pending_bytes ms1 = []"
    using refresh_sim[OF R] by blast
  let ?p = "SymbolPacket sd"
  let ?mp = "new_MergePacket (SizeSymbolsData sd + PacketHeaderSize)"
  have "length (enc_packet je ?p) = SizeSymbolsData sd + PacketHeaderSize"
    using ok by (simp add: length_enc_packet ok_packet_def enc_body_def SymbolsData_size PacketHeaderSize_def)
  then obtain mp where mp: "marshalLargePacket je ?p = Inr mp" "merged_bytes mp = enc_packet je ?p"
    "mp_wf mp" "mp_BufferSize mp = SizeSymbolsData sd + PacketHeaderSize"
    using Merge_ok[OF ok, of ?mp] by (auto simp: marshalLargePacket_def PacketSize_def mp_wf_def new_MergePacket_def merged_bytes_def)
  have "\<not> ms_stopped ms" using R by (simp add: ms_rel_def)
  then show ?thesis using rf mp ok
    by (auto simp: mergeSender_SendLarge_def Conn_Send_ok ms_rel_def wire_def pending_bytes_def pooled_ok_def tight_def)
qed

interpretation sender: simulating_machine "queue_step je m" "ms_step je" "ms_rel je m" for je m
proof
  fix A ms op A'
  assume R: "ms_rel je m A ms" and st: "queue_step je m A op = Some A'"
  obtain ps t where A: "A = (ps, t)" by (cases A)
  show "\<exists>ms'. ms_step je ms op = Inr ms' \<and> ms_rel je m A' ms'"
  proof (cases op)
    case (MSend p)
    then have "ok_packet je p" "length (enc_packet je p) \<le> 2048" and A': "A' = (ps @ [p], t)"
      using st by (auto simp: queue_step_def A split: if_splits)
    from send_sim[OF R[unfolded A] this(1,2)] show ?thesis using MSend A'
      by (auto simp: ms_step_def mergeSender_Send_def)
  next
    case (MSendLarge p)
    then obtain sd where "p = SymbolPacket sd" "ok_packet je (SymbolPacket sd)" and A': "A' = (ps @ [p], t \<or> tight m op)"
      using st by (auto simp: queue_step_def A split: if_splits packet.splits)
    then show ?thesis using large_sim[OF R[unfolded A], of sd] MSendLarge by (auto simp: ms_step_def)
  next
    case MTick
    then show ?thesis using refresh_sim[OF R[unfolded A]] st
      by (auto simp: ms_step_def queue_step_def A RefreshWorker_def mergeSender_Refresh_def)
  next
    case (MReuse n)
    then have "\<not> t" "A' = (ps, t)" using st by (auto simp: queue_step_def A split: if_splits)
    moreover have "pooled_ok m ((ms_sent ms ! n)\<lparr>mp_size := 0\<rparr>)" if "n < length (ms_sent ms)"
      using that R \<open>\<not> t\<close> reset_ok[of m "ms_sent ms ! n"] by (simp add: A ms_rel_def list_all_length MergePacket_Reset_def)
    ultimately show ?thesis using R MReuse
      by (simp add: ms_step_def A ms_rel_def mergeSender_Put_def wire_def pending_bytes_def)
  qed
qed

lemma ms_rel_init: "ms_rel je m ([], False) (mergeSender_Init m)"
  by (simp add: ms_rel_def mergeSender_Init_def wire_def pending_bytes_def)

subsection \<open>A record needs its room\<close>

text \<open>A writer of \<open>k\<close> bytes that returns found \<open>k\<close> bytes of room; the array keeps its size.\<close>

definition room :: "slice \<Rightarrow> slice \<Rightarrow> nat \<Rightarrow> bool" where
  "room b b' n \<longleftrightarrow> n \<le> length (sl_arr b) \<and> length (sl_arr b') = length (sl_arr b) \<and> sl_len b' = sl_len b"

definition takes :: "(slice \<Rightarrow> (slice \<times> nat) go) \<Rightarrow> nat \<Rightarrow> bool" where
  "takes mf k \<longleftrightarrow> (\<forall>b b' n. sl_wf b \<longrightarrow> mf b = Inr (b', n) \<longrightarrow> n = k \<and> room b b' k)"

lemma takesD: "takes mf k \<Longrightarrow> mf b = Inr (b', n) \<Longrightarrow> sl_wf b \<Longrightarrow> n = k \<and> room b b' k \<and> sl_wf b'"
  unfolding takes_def room_def sl_wf_def by (metis (no_types))

lemma takes_u64: "takes (MarshalUint64 v) 8"
proof -
  have "n = 8 \<and> room b b' 8" if "MarshalUint64 v b = Inr (b', n)" for b b' n
    using that by (cases "8 \<le> length (sl_arr b)")
      (auto simp: MarshalUint64_def slice_to_def PutUint64_def overwrite_def room_def)
  then show ?thesis unfolding takes_def by blast
qed

lemma takes_tag: "takes (marshalTagName v) 1"
  by (auto simp: takes_def marshalTagName_def go_bind_eq_Inr slice_set_def sl_wf_def room_def split: if_splits)

lemma within_takes:
  assumes m: "takes mf k" and wf: "sl_wf b" and r: "within mf (b, t) = Inr (b', n)"
  shows "n = t + k \<and> room b b' n \<and> sl_wf b'"
proof -
  let ?sub = "\<lparr>sl_len = sl_len b - t, sl_arr = drop t (sl_arr b)\<rparr>"
  obtain sub' n' where s: "t \<le> sl_len b" "mf ?sub = Inr (sub', n')" "b' = b\<lparr>sl_arr := take t (sl_arr b) @ sl_arr sub'\<rparr>" "n = t + n'"
    using r by (auto simp: within_def slice_from_def go_bind_eq_Inr split: if_splits)
  have "sl_wf ?sub" using wf by (auto simp: sl_wf_def)
  from takesD[OF m s(2) this] show ?thesis using s wf by (auto simp: room_def sl_wf_def)
qed

lemma takes_then: "takes mf k \<Longrightarrow> takes mg l \<Longrightarrow> takes (\<lambda>b. go_bind (mf b) (within mg)) (k + l)"
proof -
  assume mf: "takes mf k" and mg: "takes mg l"
  have "n = k + l \<and> room b b' (k + l)" if wf: "sl_wf b" and run: "go_bind (mf b) (within mg) = Inr (b', n)" for b b' n
  proof -
    obtain b1 n1 where b1: "mf b = Inr (b1, n1)" "within mg (b1, n1) = Inr (b', n)"
      using run by (auto simp: go_bind_eq_Inr)
    note r1 = takesD[OF mf b1(1) wf]
    then show ?thesis using within_takes[OF mg _ b1(2)] by (auto simp: room_def)
  qed
  then show ?thesis unfolding takes_def by blast
qed

lemma marshal_each_takes:
  assumes "\<And>x. takes (mf x) k" "sl_wf b" "t \<le> length (sl_arr b)" "marshal_each mf xs (b, t) = Inr (b', n)"
  shows "n = t + k * length xs \<and> room b b' n"
  using assms(2-4)
proof (induction xs arbitrary: b t)
  case (Cons x xs)
  then obtain b1 n1 where "within (mf x) (b, t) = Inr (b1, n1)" "marshal_each mf xs (b1, n1) = Inr (b', n)"
    by (auto simp: go_bind_eq_Inr)
  with Cons.IH[of b1 n1] Cons.prems within_takes[OF assms(1) Cons.prems(1) this(1)] show ?case
    by (auto simp: room_def)
qed (simp add: room_def)

lemma takes_frames: "takes (marshalUintptrSlice xs) (8 + 8 * length xs)"
  unfolding takes_def marshalUintptrSlice_def go_bind_eq_Inr
  by (auto simp: room_def dest!: takesD[OF takes_u64] marshal_each_takes[OF takes_u64, rotated 2])

lemma takes_RawFuncLog: "takes (MarshalRawFuncLog r) (41 + 8 * length (raw_Frames r))"
proof -
  have "takes (\<lambda>b. go_bind (go_bind (go_bind (go_bind (go_bind (MarshalUint64 (raw_ID r) b) (within (marshalTagName (raw_Tag r))))
      (within (MarshalUint64 (raw_Timestamp r)))) (within (marshalUintptrSlice (raw_Frames r))))
      (within (MarshalUint64 (raw_GID r)))) (within (MarshalUint64 (raw_TxID r))))
      (8 + 1 + 8 + (8 + 8 * length (raw_Frames r)) + 8 + 8)"
    by (intro takes_then takes_u64 takes_tag takes_frames)
  then show ?thesis
    by (simp add: MarshalRawFuncLog_def[abs_def] same_as_Uint64 go_bind_assoc add.commute)
qed

lemma Pack_needs_room:
  assumes "PackToByteSlice je (Plain (RawFuncLogPacket r)) b = Inr (b', n)" "sl_wf b"
  shows "5 + (41 + 8 * length (raw_Frames r)) \<le> length (sl_arr b)"
proof -
  let ?sub = "\<lparr>sl_len = sl_len b - 4, sl_arr = drop 4 (sl_arr b)\<rparr>"
  obtain pl hs pl2 n2 where "4 \<le> sl_len b" "MarshalUint8 RawFuncLogPacketType ?sub = Inr (pl, hs)"
    "within (marshalPacket je (RawFuncLogPacket r)) (pl, hs) = Inr (pl2, n2)"
    using assms(1) by (auto simp: PackToByteSlice_def detectPacketType_def slice_from_def go_bind_eq_Inr split: if_splits)
  moreover from this(2) have "hs = 1" "sl_len pl = sl_len b - 4" "length (sl_arr pl) = length (sl_arr b) - 4"
    by (auto simp: MarshalUint8_def go_bind_eq_Inr slice_set_def split: if_splits)
  moreover from this have "sl_wf pl" using assms(2) by (auto simp: sl_wf_def)
  moreover have "takes (marshalPacket je (RawFuncLogPacket r)) (41 + 8 * length (raw_Frames r))"
    using takes_RawFuncLog by (simp add: marshalPacket_def[abs_def])
  ultimately show ?thesis using within_takes[of _ _ pl hs pl2 n2] assms(2) by (fastforce simp: room_def sl_wf_def)
qed

subsection \<open>Properties\<close>

text \<open>
  C6. The client loses, repeats and reorders nothing. Small packets of at most 2048 bytes (every ping, shutdown message and
  call record is one) and symbol tables are sent, the refresh worker ticks and the connection reports written packets,
  in any order; only after a symbol table smaller than a buffer of small packets no written packet may be reported.
  Then no send panics as long as the connection accepts what it is given; when the worker's context ends, the bytes
  handed to the connection unpack to exactly the packets sent, in order (a shutdown as a ping), provided JSON carries
  the function names of the trace commands among them.
\<close>

theorem sender_delivers_in_order:
  assumes "list_all (sendable je) ops" "roomy m ops" "list_all (json_law je jd) (sent_packets ops)"
  shows "\<exists>ms ms'. go_run (ms_step je) (mergeSender_Init m) ops = Inr ms \<and> RefreshWorker ms CtxDone = Inr ms' \<and>
    unpack_all jd (wire ms') = map received (sent_packets ops)"
proof -
  obtain t where t: "spec_run (queue_step je m) ([], False) ops = Some (sent_packets ops, t)"
    using queue_run[OF assms(1,2), of False "[]"] by auto
  obtain ms where ms: "go_run (ms_step je) (mergeSender_Init m) ops = Inr ms" "ms_rel je m (sent_packets ops, t) ms"
    using sender.run_sim[OF ms_rel_init t] by blast
  then have w: "wire ms @ pending_bytes ms = concat (map (enc_packet je) (sent_packets ops))" "list_all (ok_packet je) (sent_packets ops)"
    "ms_fails ms = []"
    by (auto simp: ms_rel_def)
  have "\<exists>ms'. RefreshWorker ms CtxDone = Inr ms' \<and> wire ms' = wire ms @ pending_bytes ms"
    using w(3) by (auto simp: RefreshWorker_def refreshLast_def Let_def Conn_Send_ok wire_def pending_bytes_def MergePacket_Len_def
        merged_bytes_def split: option.splits)
  then show ?thesis using ms(1) w unpack_all_enc[OF w(2) assms(3)] by auto
qed

definition sample_raw :: RawFuncLog where
  "sample_raw = \<lparr>raw_ID = 1, raw_Tag = FuncStart, raw_Timestamp = 5, raw_Frames = [4096, 8192], raw_GID = 1, raw_TxID = 1\<rparr>"

definition sample_ops :: "mop list" where
  "sample_ops = [MSend PingPacket, MTick, MReuse 0, MSend (RawFuncLogPacket sample_raw), MSend (StartTraceCmd ''main.f''), MTick, MReuse 1,
     MSendLarge (SymbolPacket zero_SymbolsData), MSend (RawFuncLogPacket sample_raw), MTick]"

lemma sample_table_ok: "ok_packet je (SymbolPacket zero_SymbolsData)"
  by (simp add: ok_packet_def enc_body_def enc_SymbolsData_def enc_list_def ok_SymbolsData_def ok_list_def zero_SymbolsData_def)

lemma sample_ops_ok: "list_all (sendable sample_json) sample_ops" "roomy m sample_ops"
  "list_all (json_law sample_json (\<lambda>bs. Some (string_of_bytes bs))) (sent_packets sample_ops)"
  using sample_table_ok small_packets
  by (simp_all add: sample_ops_def sendable_def json_law_def sample_json_def is_reuse_def tight_def sample_raw_def MaxStackSize_def)
    (simp_all add: ok_packet_def length_enc_packet enc_body_def sample_json_def)

theorem sender_delivers_in_order_witness:
  "\<exists>ms ms'. go_run (ms_step sample_json) (mergeSender_Init 10) sample_ops = Inr ms \<and>
    RefreshWorker ms CtxDone = Inr ms' \<and>
    unpack_all (\<lambda>bs. Some (string_of_bytes bs)) (wire ms') = map received (sent_packets sample_ops)"
  by (rule sender_delivers_in_order[OF sample_ops_ok])

text \<open>
  Reusing the buffer of a large packet breaks the sender. The client returns every sent \<open>MergePacket\<close> to
  the pool, also those of \<open>SendLarge\<close>, whose buffer has just the size of their packet. A call record
  sent after a smaller symbol table then runs past the end of the buffer and panics.
\<close>

theorem reused_large_buffer_panics:
  assumes sd: "ok_packet je (SymbolPacket sd)" and small: "SizeSymbolsData sd < 41 + 8 * length (raw_Frames r)"
  shows "\<exists>f. go_run (ms_step je) (mergeSender_Init m) [MSendLarge (SymbolPacket sd), MReuse 0, MSend (RawFuncLogPacket r)] = Inl f"
proof -
  let ?p = "SymbolPacket sd"
  let ?mp = "new_MergePacket (SizeSymbolsData sd + PacketHeaderSize)"
  have "length (enc_packet je ?p) = SizeSymbolsData sd + PacketHeaderSize"
    using sd by (simp add: length_enc_packet ok_packet_def enc_body_def SymbolsData_size PacketHeaderSize_def)
  then obtain mp b where mp: "marshalLargePacket je ?p = Inr mp" "mp_buff mp = Some b"
    "length (sl_arr b) = SizeSymbolsData sd + PacketHeaderSize" "sl_wf b"
    using Merge_ok[OF sd, of ?mp]
    by (auto simp: marshalLargePacket_def PacketSize_def mp_wf_def new_MergePacket_def PacketHeaderSize_def sl_wf_def split: option.splits)
  have "MergePacket_Merge je (Plain (RawFuncLogPacket r)) (MergePacket_Reset (mp\<lparr>mp_size := 0\<rparr>)) \<noteq> Inr mp'" for mp'
  proof
    assume "MergePacket_Merge je (Plain (RawFuncLogPacket r)) (MergePacket_Reset (mp\<lparr>mp_size := 0\<rparr>)) = Inr mp'"
    then obtain b' n where "PackToByteSlice je (Plain (RawFuncLogPacket r)) \<lparr>sl_len = sl_len b, sl_arr = sl_arr b\<rparr> = Inr (b', n)"
      using mp(2) by (auto simp: MergePacket_Merge_def MergePacket_Reset_def within_def slice_from_def go_bind_eq_Inr)
    then have "5 + (41 + 8 * length (raw_Frames r)) \<le> length (sl_arr b)"
      using Pack_needs_room mp(4) by (fastforce simp: sl_wf_def)
    then show False using mp(3) small by (simp add: PacketHeaderSize_def)
  qed
  then obtain f where "MergePacket_Merge je (Plain (RawFuncLogPacket r)) (MergePacket_Reset (mp\<lparr>mp_size := 0\<rparr>)) = Inl f"
    by (cases "MergePacket_Merge je (Plain (RawFuncLogPacket r)) (MergePacket_Reset (mp\<lparr>mp_size := 0\<rparr>))") auto
  then show ?thesis using mp(1)
    by (simp add: ms_step_def mergeSender_Init_def mergeSender_SendLarge_def refreshNolock_def Conn_Send_def mergeSender_Put_def
        mergeSender_Send_def sendNolock_def pool_Get_def)
qed

theorem reused_large_buffer_panics_witness:
  "\<exists>f. go_run (ms_step sample_json) (mergeSender_Init 1048576)
     [MSendLarge (SymbolPacket zero_SymbolsData), MReuse 0, MSend (RawFuncLogPacket sample_raw)] = Inl f"
proof -
  have "ok_packet sample_json (SymbolPacket zero_SymbolsData)" by (rule sample_table_ok)
  moreover have "SizeSymbolsData zero_SymbolsData < 41 + 8 * length (raw_Frames sample_raw)"
    by (simp add: SizeSymbolsData_def zero_SymbolsData_def sizeStringSlice_def sizeGoModuleSlice_def sizeGoFuncSlice_def
        sizeGoLineSlice_def sample_raw_def)
  ultimately show ?thesis by (rule reused_large_buffer_panics)
qed

end
