(* ===== verification/Client.thy ===== *)
theory Client
  imports Server MergeSender
begin

section \<open>Client: the sending end of the protocol (\<open>tracer/protocol/client.go\<close>)\<close>

text \<open>
  \<open>Client\<close> connects, negotiates, starts its two workers (the ping worker and the refresh worker of the
  \<open>mergeSender\<close>) and passes packets to the \<open>mergeSender\<close>. The state keeps how many of each worker are
  running; a worker that sees the end of its context leaves. \<open>cl_cancelled\<close> is \<open>None\<close> while
  \<open>cancel\<close> is nil. \<open>cl_killed\<close> is set by \<open>log.Fatal\<close>. \<open>DialAndServe\<close> of \<open>xtcp\<close> is the argument \<open>dial\<close>: the
  result of the n-th attempt.
\<close>

datatype chan = NilChan | OpenChan | ClosedChan

record 'u ClientHandler =
  c_Connected :: "('u \<Rightarrow> 'u) option"
  c_Disconnected :: "('u \<Rightarrow> 'u) option"
  c_Error :: "(conn_error \<Rightarrow> 'u \<Rightarrow> 'u) option"
  c_Shutdown :: "('u \<Rightarrow> 'u) option"
  c_StartTrace :: "(string \<Rightarrow> 'u \<Rightarrow> 'u) option"
  c_StopTrace :: "(string \<Rightarrow> 'u \<Rightarrow> 'u) option"

record 'u Client =
  cl_Addr :: string
  cl_Handler :: "'u ClientHandler"
  cl_PID :: uint64
  cl_AppName :: string
  cl_Host :: string
  cl_Secret :: string
  cl_PingInterval :: int
  cl_MaxRetries :: int
  cl_BufferOpt :: BufferOption
  cl_initDone :: bool
  cl_closeDone :: bool
  cl_negotiatedCh :: chan
  cl_cancelled :: "bool option"
  cl_pingers :: nat
  cl_refreshers :: nat
  cl_mergeSender :: mergeSender
  cl_opt :: "XtcpBufferOption option"
  cl_xtcpconn :: conn
  cl_isNegotiated :: bool
  cl_killed :: bool

definition DefaultMaxRetries :: int where "DefaultMaxRetries = 10"
definition MinWaitTime :: int64 where "MinWaitTime = 10000000"

definition Client_Init :: "'u Client \<Rightarrow> 'u Client" where
  "Client_Init c =
     (if cl_initDone c then c
      else c\<lparr>cl_MaxRetries := or_default (cl_MaxRetries c) DefaultMaxRetries,
             cl_negotiatedCh := OpenChan, cl_cancelled := Some False,
             cl_PingInterval := or_default (cl_PingInterval c) DefaultPingInterval,
             cl_BufferOpt := BufferOption_SetDefault (cl_BufferOpt c), cl_initDone := True\<rparr>)"

text \<open>The retry loop: the result and the times slept. \<open>time.Duration\<close> is an \<open>int64\<close>.\<close>

function dial_loop :: "(nat \<Rightarrow> string option) \<Rightarrow> int \<Rightarrow> nat \<Rightarrow> int64 \<Rightarrow> string option \<times> int64 list" where
  "dial_loop dial MaxRetries retries waitTime =
     (case dial retries of
        None \<Rightarrow> (None, [])
      | Some err \<Rightarrow>
          if int retries < MaxRetries
          then (case dial_loop dial MaxRetries (retries + 1) (waitTime * 2) of (r, ws) \<Rightarrow> (r, waitTime # ws))
          else (Some err, []))"
  by pat_completeness auto
termination by (relation "measure (\<lambda>(_, m, r, _). nat (m - int r))") auto

declare dial_loop.simps [simp del]

datatype serve_error = BadProtocol | DialError string

definition Serve_addr :: "string \<Rightarrow> string option" where
  "Serve_addr a =
     (if HasPrefix a ''unix://'' then None
      else if HasPrefix a ''tcp://'' then Some (TrimPrefix a ''tcp://'')
      else None)"

definition Serve_setup :: "conn \<Rightarrow> 'u Client \<Rightarrow> 'u Client" where
  "Serve_setup x c =
     c\<lparr>cl_opt := Some (bo_Xtcp (cl_BufferOpt c)), cl_xtcpconn := x,
       cl_mergeSender := mergeSender_Init (nat (bo_MaxSmallPacketSize (cl_BufferOpt c)))\<rparr>"

text \<open>\<open>x\<close> is the connection that \<open>xtcp.NewConn\<close> makes, \<open>dial\<close> may depend on the address.\<close>

definition Client_Serve ::
  "(string \<Rightarrow> nat \<Rightarrow> string option) \<Rightarrow> conn \<Rightarrow> 'u Client \<Rightarrow> serve_error option \<times> int64 list \<times> 'u Client" where
  "Client_Serve dial x c =
     (let c = Client_Init c in
      case Serve_addr (cl_Addr c) of
        None \<Rightarrow> (Some BadProtocol, [], c)
      | Some addr \<Rightarrow>
          let c = Serve_setup x c in
          case dial_loop (dial addr) (cl_MaxRetries c) 0 MinWaitTime of
            (r, ws) \<Rightarrow> (map_option DialError r, ws, c))"

subsection \<open>Sending\<close>

definition Client_Send :: "json_encoder \<Rightarrow> packet \<Rightarrow> 'u Client \<Rightarrow> (send_error option \<times> 'u Client) go" where
  "Client_Send je p c =
     go_bind (mergeSender_Send je p (cl_mergeSender c)) (\<lambda>(err, ms). Inr (err, c\<lparr>cl_mergeSender := ms\<rparr>))"

definition Client_SendLarge :: "json_encoder \<Rightarrow> packet \<Rightarrow> 'u Client \<Rightarrow> (send_error option \<times> 'u Client) go" where
  "Client_SendLarge je p c =
     go_bind (mergeSender_SendLarge je p (cl_mergeSender c)) (\<lambda>(err, ms). Inr (err, c\<lparr>cl_mergeSender := ms\<rparr>))"

definition Client_cancel :: "'u Client \<Rightarrow> 'u Client go" where
  "Client_cancel c =
     (case cl_cancelled c of None \<Rightarrow> Inl NilDereference | Some _ \<Rightarrow> Inr (c\<lparr>cl_cancelled := Some True\<rparr>))"

definition Client_error :: "'u Client \<Rightarrow> conn_error \<Rightarrow> 'u env \<Rightarrow> 'u env" where
  "Client_error c err e =
     (if c_Error (cl_Handler c) \<noteq> None then call1 (c_Error (cl_Handler c)) err e
      else e\<lparr>ev_log := ev_log e @ [err]\<rparr>)"

definition Client_stop :: "'u Client \<Rightarrow> StopMode \<Rightarrow> 'u env \<Rightarrow> 'u env" where
  "Client_stop c m e = xtcp_Stop (cl_xtcpconn c) m e"

definition negotiated :: "'u Client \<Rightarrow> 'u Client go" where
  "negotiated c =
     (let c = c\<lparr>cl_isNegotiated := True\<rparr> in
      case cl_negotiatedCh c of
        NilChan \<Rightarrow> Inl (Panic ''close of nil channel'')
      | ClosedChan \<Rightarrow> Inl (Panic ''close of closed channel'')
      | OpenChan \<Rightarrow> Inr (c\<lparr>cl_negotiatedCh := ClosedChan\<rparr>))"

text \<open>One round of the ping worker: a tick sends a ping, the end of the context ends the worker.\<close>

definition pingWorker :: "json_encoder \<Rightarrow> refresh_event \<Rightarrow> 'u Client \<Rightarrow> 'u Client go" where
  "pingWorker je ev c =
     (case ev of
        Tick \<Rightarrow> go_bind (Client_Send je PingPacket c) (\<lambda>(err, c). if err = None then Inr c else Inl (Panic ''pingWorker''))
      | CtxDone \<Rightarrow> Inr (c\<lparr>cl_pingers := cl_pingers c - 1\<rparr>))"

definition refresh_round :: "refresh_event \<Rightarrow> 'u Client \<Rightarrow> 'u Client go" where
  "refresh_round ev c =
     go_bind (RefreshWorker (cl_mergeSender c) ev) (\<lambda>ms.
       let c = c\<lparr>cl_mergeSender := ms\<rparr> in
       Inr (case ev of Tick \<Rightarrow> c | CtxDone \<Rightarrow> c\<lparr>cl_refreshers := cl_refreshers c - 1\<rparr>))"

subsection \<open>Events\<close>

definition as_packet :: "xpacket option \<Rightarrow> packet option" where
  "as_packet p = (case p of Some (Plain q) \<Rightarrow> Some q | _ \<Rightarrow> None)"

definition client_hello :: "'u Client \<Rightarrow> packet" where
  "client_hello c = ClientHello \<lparr>ch_PID = cl_PID c, ch_AppName = cl_AppName c, ch_Host = cl_Host c,
     ch_ClientSecret = cl_Secret c, ch_ProtocolVersion = ProtocolVersion\<rparr>"

definition client_negotiate :: "packet option \<Rightarrow> 'u Client \<times> 'u env \<Rightarrow> ('u Client \<times> 'u env) go" where
  "client_negotiate p = (\<lambda>(c, e).
     case p of
       Some (ServerHello version) \<Rightarrow>
         if \<not> isCompatibleVersion version
         then Inr (c, Client_stop c StopImmediately (Client_error c IncompatibleVersion e))
         else go_bind (negotiated (c\<lparr>cl_pingers := cl_pingers c + 1, cl_refreshers := cl_refreshers c + 1\<rparr>)) (\<lambda>c.
           Inr (c, call0 (c_Connected (cl_Handler c)) e))
     | _ \<Rightarrow> Inr (c, Client_stop c StopImmediately (Client_error c (UnexpectedHello p) e)))"

definition client_dispatch :: "conn \<Rightarrow> packet option \<Rightarrow> 'u Client \<times> 'u env \<Rightarrow> ('u Client \<times> 'u env) go" where
  "client_dispatch x p = (\<lambda>(c, e).
     case p of
       Some PingPacket \<Rightarrow> Inr (c, e)
     | Some ShutdownPacket \<Rightarrow>
         (let e = call0 (c_Shutdown (cl_Handler c)) e in
          go_bind (Client_cancel c) (\<lambda>c.
          let e = Client_stop c StopGracefullyAndWait e;
              c = (if c_Shutdown (cl_Handler c) = None then c\<lparr>cl_killed := True\<rparr> else c)
          in Inr (c, e)))
     | Some (StartTraceCmd f) \<Rightarrow> Inr (c, call1 (c_StartTrace (cl_Handler c)) f e)
     | Some (StopTraceCmd f) \<Rightarrow> Inr (c, call1 (c_StopTrace (cl_Handler c)) f e)
     | Some (SymbolPacket _) \<Rightarrow> Inr (c, xtcp_Stop x StopImmediately e)
     | Some (RawFuncLogPacket _) \<Rightarrow> Inr (c, xtcp_Stop x StopImmediately e)
     | _ \<Rightarrow> Inr (c, Client_stop c StopImmediately (Client_error c (UnexpectedPacket p) e)))"

definition Client_OnEvent ::
  "EventType \<Rightarrow> conn \<Rightarrow> xpacket option \<Rightarrow> 'u Client \<times> 'u env \<Rightarrow> ('u Client \<times> 'u env) go" where
  "Client_OnEvent et x p = (\<lambda>(c, e).
     case et of
       EventConnected \<Rightarrow>
         (case xtcp_Send (cl_xtcpconn c) (client_hello c) e of
            (Some err, e) \<Rightarrow> Inr (c, Client_stop c StopImmediately (Client_error c (SendError err) e))
          | (None, e) \<Rightarrow> Inr (c, e))
     | EventRecv \<Rightarrow>
         if \<not> cl_isNegotiated c then client_negotiate (as_packet p) (c, e)
         else client_dispatch x (as_packet p) (c, e)
     | EventSend \<Rightarrow>
         (case p of
            Some (Merged mp) \<Rightarrow> Inr (c\<lparr>cl_mergeSender := mergeSender_Put mp (cl_mergeSender c)\<rparr>, e)
          | _ \<Rightarrow> Inr (c, e))
     | EventClosed \<Rightarrow>
         go_bind (Client_cancel c) (\<lambda>c. Inr (c, call0 (c_Disconnected (cl_Handler c)) e))
     | EventAccept \<Rightarrow> Inr (c, e))"

subsection \<open>Closing\<close>

text \<open>
  The two workers run until each has seen the end of its context; \<open>workerWg.Wait\<close> returns when both have left.
  A worker that finds a tick of its ticker and the end of its context at once may take either, so after \<open>cancel\<close> it
  can have more ticks. The argument is the order of the rounds of both workers, as the scheduler and the tickers
  make it; if it ends before they have left, the wait does not return.
\<close>

datatype worker_event = PingRound refresh_event | RefreshRound refresh_event

definition worker_round :: "json_encoder \<Rightarrow> worker_event \<Rightarrow> 'u Client \<Rightarrow> 'u Client go" where
  "worker_round je ev c =
     (case ev of
        PingRound r \<Rightarrow> if cl_pingers c = 0 then Inr c else pingWorker je r c
      | RefreshRound r \<Rightarrow> if cl_refreshers c = 0 then Inr c else refresh_round r c)"

fun workers_Wait :: "json_encoder \<Rightarrow> worker_event list \<Rightarrow> 'u Client \<Rightarrow> 'u Client go" where
  "workers_Wait je evs c =
     (if cl_pingers c = 0 \<and> cl_refreshers c = 0 then Inr c
      else case evs of
        [] \<Rightarrow> Inl Deadlock
      | ev # evs \<Rightarrow> go_bind (worker_round je ev c) (workers_Wait je evs))"

declare workers_Wait.simps [simp del]

definition Client_Close ::
  "json_encoder \<Rightarrow> worker_event list \<Rightarrow> 'u Client \<times> 'u env \<Rightarrow> (send_error option \<times> 'u Client \<times> 'u env) go" where
  "Client_Close je evs = (\<lambda>(c, e).
     if cl_closeDone c then Inr (None, c, e)
     else go_bind (Client_Send je ShutdownPacket c) (\<lambda>(err, c).
       go_bind (Client_cancel c) (\<lambda>c.
       go_bind (workers_Wait je evs c) (\<lambda>c.
       Inr (err, c\<lparr>cl_closeDone := True\<rparr>, xtcp_Stop (cl_xtcpconn c) StopGracefullyAndWait e)))))"

subsection \<open>The invariant of a connected client\<close>

definition client_inv :: "'u Client \<Rightarrow> bool" where
  "client_inv c \<longleftrightarrow> cl_cancelled c \<noteq> None \<and>
     cl_negotiatedCh c = (if cl_isNegotiated c then ClosedChan else OpenChan) \<and>
     cl_pingers c = (if cl_isNegotiated c then 1 else 0) \<and> cl_refreshers c = cl_pingers c"

definition client_event :: "conn \<Rightarrow> 'u Client \<times> 'u env \<Rightarrow> EventType \<times> xpacket option \<Rightarrow> ('u Client \<times> 'u env) go" where
  "client_event x s = (\<lambda>(et, p). Client_OnEvent et x p s)"

definition keeps_inv :: "('u Client \<times> 'u env) go \<Rightarrow> bool" where
  "keeps_inv r = (case r of Inl _ \<Rightarrow> False | Inr (c, e) \<Rightarrow> client_inv c)"

lemma keeps_inv_Inr [simp]: "keeps_inv (Inr (c, e)) = client_inv c"
  by (simp add: keeps_inv_def)

lemma client_inv_simps [simp]:
  "client_inv (c\<lparr>cl_mergeSender := ms\<rparr>) = client_inv c" "client_inv (c\<lparr>cl_killed := k\<rparr>) = client_inv c"
  by (simp_all add: client_inv_def)

lemma client_inv_cancel: "client_inv c \<Longrightarrow> \<exists>c'. Client_cancel c = Inr c' \<and> client_inv c' \<and> cl_Handler c' = cl_Handler c"
  by (rule exI[of _ "c\<lparr>cl_cancelled := Some True\<rparr>"]) (auto simp: client_inv_def Client_cancel_def)

lemma client_negotiate_inv:
  assumes "client_inv c" "\<not> cl_isNegotiated c"
  shows "keeps_inv (client_negotiate p (c, e))"
  using assms by (auto simp: client_negotiate_def client_inv_def negotiated_def Let_def split: option.splits packet.splits)

lemma client_dispatch_inv: "client_inv c \<Longrightarrow> keeps_inv (client_dispatch x p (c, e))"
  using client_inv_cancel[of c]
  by (cases p; cases "the p") (auto simp: client_dispatch_def Let_def)

lemma client_event_inv: "client_inv c \<Longrightarrow> keeps_inv (client_event x (c, e) ev)"
  using client_inv_cancel[of c] client_negotiate_inv[of c] client_dispatch_inv[of c]
  by (cases ev; cases "fst ev")
    (auto simp: client_event_def Client_OnEvent_def split: prod.splits option.splits xpacket.splits)

interpretation client_events: invariant_machine "client_event x" "\<lambda>n (c, e). client_inv c" "\<lambda>f. False" for x
proof
  fix n s ev s'
  assume "case s of (c, e) \<Rightarrow> client_inv c" "client_event x s ev = Inr s'"
  then show "case s' of (c, e) \<Rightarrow> client_inv c" using client_event_inv[of "fst s" x "snd s" ev] by (auto simp: keeps_inv_def)
next
  fix n s ev f
  assume "case s of (c, e) \<Rightarrow> client_inv c" "client_event x s ev = Inl f"
  then show False using client_event_inv[of "fst s" x "snd s" ev] by (auto simp: keeps_inv_def)
qed

subsection \<open>The client as a queue\<close>

definition client_op :: "json_encoder \<Rightarrow> 'u Client \<times> 'u env \<Rightarrow> mop \<Rightarrow> ('u Client \<times> 'u env) go" where
  "client_op je = (\<lambda>(c, e) op.
     case op of
       MSend p \<Rightarrow> go_bind (Client_Send je p c) (\<lambda>(_, c). Inr (c, e))
     | MSendLarge p \<Rightarrow> go_bind (Client_SendLarge je p c) (\<lambda>(_, c). Inr (c, e))
     | MTick \<Rightarrow> go_bind (refresh_round Tick c) (\<lambda>c. Inr (c, e))
     | MReuse n \<Rightarrow>
         if n < length (ms_sent (cl_mergeSender c))
         then Client_OnEvent EventSend (cl_xtcpconn c) (Some (Merged ((ms_sent (cl_mergeSender c) ! n)\<lparr>mp_size := 0\<rparr>))) (c, e)
         else Inr (c, e))"

lemma client_op_ms_step:
  "client_op je (c, e) op = go_bind (ms_step je (cl_mergeSender c) op) (\<lambda>ms. Inr (c\<lparr>cl_mergeSender := ms\<rparr>, e))"
  by (cases op) (auto simp: client_op_def ms_step_def Client_Send_def Client_SendLarge_def refresh_round_def
      Client_OnEvent_def go_bind_def Let_def split: list.splits sum.splits)

lemma client_run_ms_run:
  "go_run (client_op je) (c, e) ops = go_bind (go_run (ms_step je) (cl_mergeSender c) ops) (\<lambda>ms. Inr (c\<lparr>cl_mergeSender := ms\<rparr>, e))"
proof (induction ops arbitrary: c)
  case (Cons op ops)
  then show ?case by (simp add: client_op_ms_step go_bind_assoc)
qed simp


text \<open>The refresh worker's last round hands over what is pending, so that closing loses nothing.\<close>

lemma refresh_last_wire:
  assumes "ms_fails ms = []"
  shows "\<exists>ms'. RefreshWorker ms CtxDone = Inr ms' \<and> wire ms' = wire ms @ pending_bytes ms \<and> ms_stopped ms'"
  using assms by (auto simp: RefreshWorker_def refreshLast_def Let_def Conn_Send_ok wire_def pending_bytes_def MergePacket_Len_def
      merged_bytes_def split: option.splits)

lemma refresh_last_all:
  assumes "ms_rel je m (ps, t) ms"
  obtains ms' where "RefreshWorker ms CtxDone = Inr ms'" "wire ms' = concat (map (enc_packet je) ps)" "ms_stopped ms'"
proof -
  have "ms_fails ms = []" "wire ms @ pending_bytes ms = concat (map (enc_packet je) ps)" using assms by (auto simp: ms_rel_def)
  then show ?thesis using refresh_last_wire[of ms] that by auto
qed

text \<open>
  The rounds of the ping worker are those before its end. A tick among them that comes after the refresh worker has
  left, which stops the sender, is late.
\<close>

definition pings :: "worker_event list \<Rightarrow> worker_event list" where
  "pings evs = takeWhile (\<lambda>ev. ev \<noteq> PingRound CtxDone) evs"

definition late_ping :: "worker_event list \<Rightarrow> bool" where
  "late_ping evs \<longleftrightarrow> PingRound Tick \<in> set (dropWhile (\<lambda>ev. ev \<noteq> RefreshRound CtxDone) (pings evs))"

definition both_leave :: "worker_event list \<Rightarrow> bool" where
  "both_leave evs \<longleftrightarrow> PingRound CtxDone \<in> set evs \<and> RefreshRound CtxDone \<in> set evs"

abbreviation "ping_ticks evs \<equiv> length (filter (\<lambda>ev. ev = PingRound Tick) (pings evs))"

text \<open>What is left to do with one worker gone: the wire does not change any more once the refresh worker has left.\<close>

lemma wait_for_pinger:
  assumes "cl_pingers c = 1" "cl_refreshers c = 0" "ms_stopped (cl_mergeSender c)" "PingRound CtxDone \<in> set evs"
  shows "if PingRound Tick \<in> set (pings evs) then workers_Wait je evs c = Inl (Panic ''ms.stopped != 0'')
    else workers_Wait je evs c = Inr (c\<lparr>cl_pingers := 0\<rparr>)"
  using assms(4)
proof (induction evs)
  case (Cons ev evs)
  show ?case
  proof (cases ev)
    case (PingRound r)
    then show ?thesis using assms(1-3)
      by (cases r) (simp_all add: workers_Wait.simps[of je "_ # _"] workers_Wait.simps[of je _ "c\<lparr>cl_pingers := 0\<rparr>"] worker_round_def pingWorker_def
          Client_Send_def mergeSender_Send_def sendNolock_def pings_def)
  next
    case (RefreshRound r)
    then have "workers_Wait je (ev # evs) c = workers_Wait je evs c" using assms(1,2)
      by (subst workers_Wait.simps) (simp add: worker_round_def)
    then show ?thesis using Cons RefreshRound by (simp add: pings_def)
  qed
qed simp

lemma wait_for_refresher:
  assumes "cl_pingers c = 0" "cl_refreshers c = 1" "ms_rel je m (ps, t) (cl_mergeSender c)" "RefreshRound CtxDone \<in> set evs"
  shows "\<exists>ms. workers_Wait je evs c = Inr (c\<lparr>cl_refreshers := 0, cl_mergeSender := ms\<rparr>) \<and> wire ms = concat (map (enc_packet je) ps)"
  using assms
proof (induction evs arbitrary: c)
  case (Cons ev evs)
  have ev: "workers_Wait je (ev # evs) c = go_bind (worker_round je ev c) (workers_Wait je evs)"
    using Cons.prems(2) by (subst workers_Wait.simps) simp
  show ?case
  proof (cases "ev = RefreshRound CtxDone")
    case True
    obtain ms where "RefreshWorker (cl_mergeSender c) CtxDone = Inr ms" "wire ms = concat (map (enc_packet je) ps)"
      by (rule refresh_last_all[OF Cons.prems(3)])
    then show ?thesis using ev True Cons.prems(1,2)
      by (intro exI[of _ ms]) (simp add: worker_round_def refresh_round_def workers_Wait.simps[of _ evs])
  next
    case False
    obtain ms where "worker_round je ev c = Inr (c\<lparr>cl_mergeSender := ms\<rparr>)" "ms_rel je m (ps, t) ms"
    proof (cases ev)
      case (PingRound r)
      then show ?thesis using Cons.prems(1,3) that[of "cl_mergeSender c"] by (simp add: worker_round_def)
    next
      case (RefreshRound r)
      then have "r = Tick" using False by (cases r) auto
      then show ?thesis using RefreshRound refresh_sim[OF Cons.prems(3)] Cons.prems(2) that
        by (auto simp: worker_round_def refresh_round_def RefreshWorker_def mergeSender_Refresh_def)
    qed
    then show ?thesis using ev Cons.IH[of "c\<lparr>cl_mergeSender := ms\<rparr>"] Cons.prems False by auto
  qed
qed simp

lemma workers_Wait_ok:
  assumes "cl_pingers c = 1" "cl_refreshers c = 1" "ms_rel je m (ps, t) (cl_mergeSender c)" "both_leave evs"
  shows "if late_ping evs then workers_Wait je evs c = Inl (Panic ''ms.stopped != 0'')
    else \<exists>ms. workers_Wait je evs c = Inr (c\<lparr>cl_pingers := 0, cl_refreshers := 0, cl_mergeSender := ms\<rparr>) \<and>
      wire ms = concat (map (enc_packet je) (ps @ replicate (ping_ticks evs) PingPacket))"
  using assms
proof (induction evs arbitrary: c ps)
  case Nil
  then show ?case by (simp add: both_leave_def)
next
  case (Cons ev evs)
  have eq: "c\<lparr>cl_mergeSender := x, cl_pingers := 0, cl_refreshers := 0, cl_mergeSender := y\<rparr> =
      c\<lparr>cl_pingers := 0, cl_refreshers := 0, cl_mergeSender := y\<rparr>" for x y by simp
  have ev: "workers_Wait je (ev # evs) c = go_bind (worker_round je ev c) (workers_Wait je evs)"
    using Cons.prems(1) by (subst workers_Wait.simps) simp
  consider "ev = PingRound Tick" | "ev = PingRound CtxDone" | "ev = RefreshRound Tick" | "ev = RefreshRound CtxDone"
    by (metis refresh_event.exhaust worker_event.exhaust)
  then show ?case
  proof cases
    case 1
    have p: "ok_packet je PingPacket" "length (enc_packet je PingPacket) \<le> 2048"
      using small_packets(1) by (simp_all add: sendable_def)
    obtain ms where ms: "mergeSender_Send je PingPacket (cl_mergeSender c) = Inr (None, ms)" "ms_rel je m (ps @ [PingPacket], t) ms"
      using send_sim[OF Cons.prems(3) p] by (auto simp: mergeSender_Send_def)
    then have w: "workers_Wait je (ev # evs) c = workers_Wait je evs (c\<lparr>cl_mergeSender := ms\<rparr>)"
      using ev 1 Cons.prems(1) by (simp add: worker_round_def pingWorker_def Client_Send_def)
    have b: "both_leave evs" "late_ping (ev # evs) = late_ping evs" "ping_ticks (ev # evs) = Suc (ping_ticks evs)"
      using Cons.prems(4) 1 by (simp_all add: both_leave_def late_ping_def pings_def)
    have IH: "if late_ping evs then workers_Wait je evs (c\<lparr>cl_mergeSender := ms\<rparr>) = Inl (Panic ''ms.stopped != 0'')
      else \<exists>ms'. workers_Wait je evs (c\<lparr>cl_mergeSender := ms\<rparr>) = Inr (c\<lparr>cl_pingers := 0, cl_refreshers := 0, cl_mergeSender := ms'\<rparr>) \<and>
        wire ms' = concat (map (enc_packet je) ((ps @ [PingPacket]) @ replicate (ping_ticks evs) PingPacket))"
      using Cons.IH[of "c\<lparr>cl_mergeSender := ms\<rparr>" "ps @ [PingPacket]"] Cons.prems(1,2) ms(2) b(1) by (simp only: eq) simp
    show ?thesis
    proof (cases "late_ping evs")
      case True
      then show ?thesis using IH b w by simp
    next
      case False
      then show ?thesis using IH b w by auto
    qed
  next
    case 2
    then have "RefreshRound CtxDone \<in> set evs" using Cons.prems(4) by (auto simp: both_leave_def)
    moreover have "worker_round je ev c = Inr (c\<lparr>cl_pingers := 0\<rparr>)" using 2 Cons.prems(1) by (simp add: worker_round_def pingWorker_def)
    ultimately show ?thesis using ev wait_for_refresher[of "c\<lparr>cl_pingers := 0\<rparr>" je m ps t evs] Cons.prems(2,3) 2
      by (auto simp: late_ping_def pings_def)
  next
    case 3
    obtain ms where ms: "refreshNolock (cl_mergeSender c) = Inr (None, ms)" "ms_rel je m (ps, t) ms" using refresh_sim[OF Cons.prems(3)] by blast
    then have w: "workers_Wait je (ev # evs) c = workers_Wait je evs (c\<lparr>cl_mergeSender := ms\<rparr>)"
      using ev 3 Cons.prems(2) by (simp add: worker_round_def refresh_round_def RefreshWorker_def mergeSender_Refresh_def)
    have b: "both_leave evs" "late_ping (ev # evs) = late_ping evs" "ping_ticks (ev # evs) = ping_ticks evs"
      using Cons.prems(4) 3 by (simp_all add: both_leave_def late_ping_def pings_def)
    have IH: "if late_ping evs then workers_Wait je evs (c\<lparr>cl_mergeSender := ms\<rparr>) = Inl (Panic ''ms.stopped != 0'')
      else \<exists>ms'. workers_Wait je evs (c\<lparr>cl_mergeSender := ms\<rparr>) = Inr (c\<lparr>cl_pingers := 0, cl_refreshers := 0, cl_mergeSender := ms'\<rparr>) \<and>
        wire ms' = concat (map (enc_packet je) (ps @ replicate (ping_ticks evs) PingPacket))"
      using Cons.IH[of "c\<lparr>cl_mergeSender := ms\<rparr>" ps] Cons.prems(1,2) ms(2) b(1) by (simp only: eq) simp
    show ?thesis unfolding w b(2,3) by (rule IH)
  next
    case 4
    obtain ms where ms: "RefreshWorker (cl_mergeSender c) CtxDone = Inr ms" "ms_stopped ms"
      "wire ms = concat (map (enc_packet je) ps)"
      by (rule refresh_last_all[OF Cons.prems(3)])
    then have w: "workers_Wait je (ev # evs) c = workers_Wait je evs (c\<lparr>cl_mergeSender := ms, cl_refreshers := 0\<rparr>)"
      using ev 4 Cons.prems(2) by (simp add: worker_round_def refresh_round_def)
    have b: "PingRound CtxDone \<in> set evs" "late_ping (ev # evs) \<longleftrightarrow> PingRound Tick \<in> set (pings evs)"
      "PingRound Tick \<notin> set (pings evs) \<Longrightarrow> ping_ticks (ev # evs) = 0"
      using Cons.prems(4) 4 by (auto simp: both_leave_def late_ping_def pings_def filter_empty_conv)
    have "if PingRound Tick \<in> set (pings evs) then workers_Wait je (ev # evs) c = Inl (Panic ''ms.stopped != 0'')
      else workers_Wait je (ev # evs) c = Inr (c\<lparr>cl_pingers := 0, cl_refreshers := 0, cl_mergeSender := ms\<rparr>)"
      using wait_for_pinger[of "c\<lparr>cl_mergeSender := ms, cl_refreshers := 0\<rparr>" evs je] Cons.prems(1) ms(2) b(1) unfolding w by simp
    then show ?thesis using b(2,3) ms(3) by (cases "late_ping (ev # evs)") (auto intro!: exI[of _ ms])
  qed
qed

lemma Close_flushes:
  assumes "client_inv c" "cl_isNegotiated c" "\<not> cl_closeDone c" "ms_rel je m (ps, t) (cl_mergeSender c)" "both_leave evs"
  shows "if late_ping evs then Client_Close je evs (c, e) = Inl (Panic ''ms.stopped != 0'')
    else \<exists>c' e'. Client_Close je evs (c, e) = Inr (None, c', e') \<and>
      wire (cl_mergeSender c') = concat (map (enc_packet je) (ps @ ShutdownPacket # replicate (ping_ticks evs) PingPacket)) \<and>
      ev_stops e' = ev_stops e @ [(cl_xtcpconn c, StopGracefullyAndWait)] \<and> cl_refreshers c' = 0 \<and> cl_pingers c' = 0 \<and> cl_closeDone c'"
proof -
  have sh: "ok_packet je ShutdownPacket" "length (enc_packet je ShutdownPacket) \<le> 2048"
    using small_packets(2) by (simp_all add: sendable_def)
  obtain ms where ms: "mergeSender_Send je ShutdownPacket (cl_mergeSender c) = Inr (None, ms)" "ms_rel je m (ps @ [ShutdownPacket], t) ms"
    using send_sim[OF assms(4) sh] by (auto simp: mergeSender_Send_def)
  obtain b where b: "cl_cancelled c = Some b" "cl_refreshers c = 1" "cl_pingers c = 1"
    using assms(1,2) by (auto simp: client_inv_def)
  let ?c = "c\<lparr>cl_mergeSender := ms, cl_cancelled := Some True\<rparr>"
  have "Client_Close je evs (c, e) = go_bind (workers_Wait je evs ?c)
      (\<lambda>c. Inr (None, c\<lparr>cl_closeDone := True\<rparr>, xtcp_Stop (cl_xtcpconn c) StopGracefullyAndWait e))"
    using assms(3) ms(1) b(1) by (simp add: Client_Close_def Client_Send_def Client_cancel_def)
  then show ?thesis using workers_Wait_ok[of ?c je m "ps @ [ShutdownPacket]" t evs] b(2,3) ms(2) assms(5)
    by (auto simp: xtcp_Stop_def)
qed

lemma ok_pings: "list_all (ok_packet je) (ShutdownPacket # replicate n PingPacket)" "list_all (json_law je jd) (ShutdownPacket # replicate n PingPacket)"
  "map received (ShutdownPacket # replicate n PingPacket) = replicate (Suc n) PingPacket"
  by (simp_all add: ok_packet_def enc_body_def json_law_def received_def list_all_iff)

definition fresh_client :: "'u Client \<Rightarrow> bool" where
  "fresh_client c \<longleftrightarrow> \<not> cl_initDone c \<and> \<not> cl_closeDone c \<and> \<not> cl_isNegotiated c \<and> cl_pingers c = 0 \<and> cl_refreshers c = 0"

definition served :: "conn \<Rightarrow> 'u Client \<Rightarrow> 'u Client" where
  "served x c = Serve_setup x (Client_Init c)"

lemma served_inv: "fresh_client c \<Longrightarrow> client_inv (served x c)"
  by (simp add: fresh_client_def served_def Serve_setup_def Client_Init_def client_inv_def)

subsection \<open>Properties\<close>

text \<open>
  C34. A client that serves survives whatever its peer and the connection do. Any sequence of events
  after \<open>Serve\<close> has set the client up, with any packets, ends without a panic: the channel that
  announces the negotiation is closed at most once and \<open>cancel\<close> is never nil. At most one ping worker and
  one refresh worker are ever started, both exactly when the negotiation has succeeded.
\<close>

theorem Client_events_never_panic:
  assumes "fresh_client c"
  shows "\<exists>c' e'. go_run (client_event x) (served x c, e) evs = Inr (c', e') \<and>
    cl_pingers c' = (if cl_isNegotiated c' then 1 else 0) \<and> cl_refreshers c' = cl_pingers c' \<and>
    (cl_negotiatedCh c' = ClosedChan) = cl_isNegotiated c'"
proof (cases "go_run (client_event x) (served x c, e) evs")
  case (Inl f)
  then show ?thesis using client_events.run_safe[OF _ Inl] served_inv[OF assms] by auto
next
  case (Inr s')
  then show ?thesis using client_events.run_inv[OF _ Inr] served_inv[OF assms]
    by (cases s') (auto simp: client_inv_def)
qed

definition sample_client :: "unit Client" where
  "sample_client = \<lparr>cl_Addr = ''tcp://localhost:8600'',
     cl_Handler = \<lparr>c_Connected = None, c_Disconnected = None, c_Error = None, c_Shutdown = None, c_StartTrace = None, c_StopTrace = None\<rparr>,
     cl_PID = 1, cl_AppName = ''app'', cl_Host = ''h'', cl_Secret = [], cl_PingInterval = 0, cl_MaxRetries = 0,
     cl_BufferOpt = srv_BufferOpt sample_server, cl_initDone = False, cl_closeDone = False, cl_negotiatedCh = NilChan,
     cl_cancelled = None, cl_pingers = 0, cl_refreshers = 0, cl_mergeSender = mergeSender_Init 0, cl_opt = None,
     cl_xtcpconn = 0, cl_isNegotiated = False, cl_killed = False\<rparr>"

definition calm :: "unit env" where
  "calm = \<lparr>ev_user = (), ev_sent = [], ev_stops = [], ev_fails = [], ev_log = []\<rparr>"

lemma fresh_sample_client: "fresh_client sample_client"
  by (simp add: fresh_client_def sample_client_def)

theorem Client_events_never_panic_witness:
  "\<exists>c' e'. go_run (client_event 3) (served 3 sample_client, calm)
      [(EventConnected, None), (EventRecv, Some (Plain (ServerHello ''1''))), (EventRecv, Some (Plain ShutdownPacket)), (EventClosed, None)] = Inr (c', e') \<and>
    cl_pingers c' = (if cl_isNegotiated c' then 1 else 0) \<and> cl_refreshers c' = cl_pingers c' \<and>
    (cl_negotiatedCh c' = ClosedChan) = cl_isNegotiated c'"
  using Client_events_never_panic[OF fresh_sample_client] by blast

text \<open>A client that has been served negotiates when the hello of the server arrives.\<close>

lemma client_greeted:
  assumes "fresh_client c"
  shows "\<exists>c1 e1. client_event x (served x c, e) (EventRecv, Some (Plain (ServerHello ProtocolVersion))) = Inr (c1, e1) \<and> client_inv c1 \<and>
    cl_isNegotiated c1 \<and> \<not> cl_closeDone c1 \<and> cl_xtcpconn c1 = x \<and>
    ms_rel je (nat (bo_MaxSmallPacketSize (cl_BufferOpt (Client_Init c)))) ([], False) (cl_mergeSender c1)"
proof -
  let ?c = "served x c"
  have inv: "client_inv ?c" by (rule served_inv[OF assms])
  have neg: "\<not> cl_isNegotiated ?c" "\<not> cl_closeDone ?c" "cl_xtcpconn ?c = x"
    using assms by (simp_all add: fresh_client_def served_def Serve_setup_def Client_Init_def)
  obtain c1 e1 where c1: "client_event x (?c, e) (EventRecv, Some (Plain (ServerHello ProtocolVersion))) = Inr (c1, e1)"
    "cl_isNegotiated c1" "\<not> cl_closeDone c1" "cl_xtcpconn c1 = x" "cl_mergeSender c1 = cl_mergeSender ?c"
    using inv neg by (auto simp: client_event_def Client_OnEvent_def client_negotiate_def as_packet_def isCompatibleVersion_def negotiated_def client_inv_def)
  have "client_inv c1" using client_event_inv[OF inv] c1(1) by (metis keeps_inv_Inr)
  moreover have "ms_rel je (nat (bo_MaxSmallPacketSize (cl_BufferOpt (Client_Init c)))) ([], False) (cl_mergeSender c1)" using c1(5) ms_rel_init by (simp add: served_def Serve_setup_def)
  ultimately show ?thesis using c1 by blast
qed

lemma client_close_delivers:
  assumes "fresh_client c" "list_all (sendable je) ops" "roomy (nat (bo_MaxSmallPacketSize (cl_BufferOpt (Client_Init c)))) ops"
    "list_all (json_law je jd) (sent_packets ops)" "both_leave evs"
  shows "\<exists>c1 e1 c2.
    client_event x (served x c, e) (EventRecv, Some (Plain (ServerHello ProtocolVersion))) = Inr (c1, e1) \<and>
    go_run (client_op je) (c1, e1) ops = Inr (c2, e1) \<and>
    (if late_ping evs then Client_Close je evs (c2, e1) = Inl (Panic ''ms.stopped != 0'')
     else \<exists>c3 e3. Client_Close je evs (c2, e1) = Inr (None, c3, e3) \<and>
       unpack_all jd (wire (cl_mergeSender c3)) = map received (sent_packets ops) @ replicate (Suc (ping_ticks evs)) PingPacket \<and>
       ev_stops e3 = ev_stops e1 @ [(x, StopGracefullyAndWait)] \<and> cl_refreshers c3 = 0 \<and> cl_pingers c3 = 0)"
proof -
  let ?m = "nat (bo_MaxSmallPacketSize (cl_BufferOpt (Client_Init c)))" and ?ps = "sent_packets ops"
  obtain c1 e1 where c1: "client_event x (served x c, e) (EventRecv, Some (Plain (ServerHello ProtocolVersion))) = Inr (c1, e1)"
    "client_inv c1" "cl_isNegotiated c1" "\<not> cl_closeDone c1" "cl_xtcpconn c1 = x" "ms_rel je ?m ([], False) (cl_mergeSender c1)"
    using client_greeted[OF assms(1)] by blast
  obtain t where t: "spec_run (queue_step je ?m) ([], False) ops = Some (?ps, t)" using queue_run[OF assms(2,3), of False "[]"] by auto
  obtain ms where ms: "go_run (ms_step je) (cl_mergeSender c1) ops = Inr ms" "ms_rel je ?m (?ps, t) ms"
    using sender.run_sim[OF c1(6) t] by blast
  let ?c2 = "c1\<lparr>cl_mergeSender := ms\<rparr>"
  have run: "go_run (client_op je) (c1, e1) ops = Inr (?c2, e1)"
    using client_run_ms_run[of je c1 e1 ops] ms(1) by simp
  have ok: "list_all (ok_packet je) ?ps" using ms(2) by (simp add: ms_rel_def)
  have "unpack_all jd (concat (map (enc_packet je) (?ps @ ShutdownPacket # replicate n PingPacket))) =
      map received ?ps @ replicate (Suc n) PingPacket" for n
    using unpack_all_enc[of je "?ps @ ShutdownPacket # replicate n PingPacket" jd] ok assms(4) ok_pings(1)[of je n] ok_pings(2)[of je jd n] by (simp add: received_def)
  then have un: "unpack_all jd (wire ms') = map received ?ps @ replicate (Suc n) PingPacket"
    if "wire ms' = concat (map (enc_packet je) (?ps @ ShutdownPacket # replicate n PingPacket))" for ms' n
    by (simp only: that)
  have "client_inv ?c2" "cl_isNegotiated ?c2" "\<not> cl_closeDone ?c2" "ms_rel je ?m (?ps, t) (cl_mergeSender ?c2)" "cl_xtcpconn ?c2 = x"
    using c1 ms(2) by simp_all
  note cl = Close_flushes[OF this(1-4) assms(5), of e1, unfolded this(5)]
  have "if late_ping evs then Client_Close je evs (?c2, e1) = Inl (Panic ''ms.stopped != 0'')
    else \<exists>c3 e3. Client_Close je evs (?c2, e1) = Inr (None, c3, e3) \<and>
       unpack_all jd (wire (cl_mergeSender c3)) = map received ?ps @ replicate (Suc (ping_ticks evs)) PingPacket \<and>
       ev_stops e3 = ev_stops e1 @ [(x, StopGracefullyAndWait)] \<and> cl_refreshers c3 = 0 \<and> cl_pingers c3 = 0"
  proof (cases "late_ping evs")
    case True
    then show ?thesis using cl by (simp only: if_True)
  next
    case False
    then obtain c3 e3 where "Client_Close je evs (?c2, e1) = Inr (None, c3, e3)"
      "wire (cl_mergeSender c3) = concat (map (enc_packet je) (?ps @ ShutdownPacket # replicate (ping_ticks evs) PingPacket))"
      "ev_stops e3 = ev_stops e1 @ [(x, StopGracefullyAndWait)]" "cl_refreshers c3 = 0" "cl_pingers c3 = 0"
      using cl by (simp only: if_False) blast
    then show ?thesis using un unfolding if_not_P[OF False] by blast
  qed
  then show ?thesis using c1(1) run by blast
qed

text \<open>
  C12. Closing a negotiated client delivers everything. Small packets (at most 2048 bytes) and symbol tables have been sent,
  the refresh worker has ticked and written packets have been reported, no longer so after a symbol table smaller than a buffer
  of small packets; the connection accepts everything. Whatever rounds the two workers still make until both have seen the end
  of their context, \<open>Close\<close> returns without error, both workers have left, the connection is
  stopped gracefully, and the bytes handed to it unpack to exactly the packets sent, in order, followed by
  the shutdown message (which the receiver decodes as a ping) and the pings of the last rounds. The only exception is a tick that
  the ping worker takes after the refresh worker has left: it meets a stopped sender and panics.
\<close>

theorem Close_delivers_everything:
  assumes "fresh_client c" "list_all (sendable je) ops" "roomy (nat (bo_MaxSmallPacketSize (cl_BufferOpt (Client_Init c)))) ops"
    "list_all (json_law je jd) (sent_packets ops)" "both_leave evs"
  shows "\<exists>c1 e1 c2.
    client_event x (served x c, e) (EventRecv, Some (Plain (ServerHello ProtocolVersion))) = Inr (c1, e1) \<and>
    go_run (client_op je) (c1, e1) ops = Inr (c2, e1) \<and>
    (if late_ping evs then Client_Close je evs (c2, e1) = Inl (Panic ''ms.stopped != 0'')
     else \<exists>c3 e3. Client_Close je evs (c2, e1) = Inr (None, c3, e3) \<and>
       unpack_all jd (wire (cl_mergeSender c3)) = map received (sent_packets ops) @ replicate (Suc (ping_ticks evs)) PingPacket \<and>
       ev_stops e3 = ev_stops e1 @ [(x, StopGracefullyAndWait)] \<and> cl_refreshers c3 = 0 \<and> cl_pingers c3 = 0)"
  by (rule client_close_delivers[OF assms])

definition sample_rounds :: "worker_event list" where
  "sample_rounds = [RefreshRound Tick, PingRound Tick, RefreshRound CtxDone, PingRound CtxDone]"

lemma sample_rounds_ok: "both_leave sample_rounds" "\<not> late_ping sample_rounds" "ping_ticks sample_rounds = 1"
  by (simp_all add: sample_rounds_def both_leave_def late_ping_def pings_def)

text \<open>The rounds of the workers may end the program.\<close>

definition bad_rounds :: "worker_event list" where
  "bad_rounds = [RefreshRound CtxDone, PingRound Tick, PingRound CtxDone]"

lemma bad_rounds_late: "both_leave bad_rounds" "late_ping bad_rounds"
  by (simp_all add: bad_rounds_def both_leave_def late_ping_def pings_def)

theorem Close_delivers_everything_witness:
  "(\<exists>c1 e1 c2 c3 e3.
    client_event 3 (served 3 sample_client, calm) (EventRecv, Some (Plain (ServerHello ProtocolVersion))) = Inr (c1, e1) \<and>
    go_run (client_op sample_json) (c1, e1) sample_ops = Inr (c2, e1) \<and>
    Client_Close sample_json sample_rounds (c2, e1) = Inr (None, c3, e3) \<and>
    unpack_all (\<lambda>bs. Some (string_of_bytes bs)) (wire (cl_mergeSender c3)) = map received (sent_packets sample_ops) @ [PingPacket, PingPacket] \<and>
    ev_stops e3 = ev_stops e1 @ [(3, StopGracefullyAndWait)] \<and> cl_refreshers c3 = 0 \<and> cl_pingers c3 = 0) \<and>
   (\<exists>c1 e1 c2.
    client_event 3 (served 3 sample_client, calm) (EventRecv, Some (Plain (ServerHello ProtocolVersion))) = Inr (c1, e1) \<and>
    go_run (client_op sample_json) (c1, e1) sample_ops = Inr (c2, e1) \<and>
    Client_Close sample_json bad_rounds (c2, e1) = Inl (Panic ''ms.stopped != 0''))"
  using Close_delivers_everything[OF fresh_sample_client sample_ops_ok sample_rounds_ok(1), of 3 calm]
    Close_delivers_everything[OF fresh_sample_client sample_ops_ok bad_rounds_late(1), of 3 calm]
    sample_rounds_ok(2,3) bad_rounds_late(2) by (simp add: numeral_2_eq_2)

lemma dial_loop_success:
  assumes "r \<le> k" "dial k = None" "int k \<le> m" "\<forall>j. r \<le> j \<and> j < k \<longrightarrow> dial j \<noteq> None"
  shows "dial_loop dial m r w = (None, map (\<lambda>i. w * 2 ^ i) [0..<k - r])"
  using assms
proof (induction dial m r w rule: dial_loop.induct)
  case (1 dial m r w)
  show ?case
  proof (cases "r = k")
    case True
    then show ?thesis using 1(3) by (subst dial_loop.simps) simp
  next
    case False
    then obtain err where d: "dial r = Some err" using 1(2,5) by fastforce
    have lt: "int r < m" using False 1(2,4) by linarith
    have "dial_loop dial m (r + 1) (w * 2) = (None, map (\<lambda>i. w * 2 * 2 ^ i) [0..<k - (r + 1)])"
      using False 1(2-5) by (intro 1(1)[OF d lt]) auto
    moreover have "w # map (\<lambda>i. w * 2 * 2 ^ i) [0..<k - (r + 1)] = map (\<lambda>i. w * 2 ^ i) [0..<k - r]"
      using False 1(2) by (simp add: upt_conv_Cons map_Suc_upt[symmetric] comp_def mult.assoc Suc_diff_Suc[symmetric] del: upt_Suc)
    ultimately show ?thesis using d lt by (subst dial_loop.simps) simp
  qed
qed

lemma dial_loop_failure:
  assumes "int r \<le> m" "\<forall>j. r \<le> j \<and> int j \<le> m \<longrightarrow> dial j \<noteq> None"
  shows "\<exists>ws. dial_loop dial m r w = (dial (nat m), ws) \<and> length ws = nat m - r"
  using assms
proof (induction dial m r w rule: dial_loop.induct)
  case (1 dial m r w)
  then obtain err where d: "dial r = Some err" by (metis le_refl not_None_eq)
  show ?case
  proof (cases "int r < m")
    case True
    then have "\<exists>ws. dial_loop dial m (r + 1) (w * 2) = (dial (nat m), ws) \<and> length ws = nat m - (r + 1)"
      using 1(3) by (intro 1(1)[OF d True]) auto
    then show ?thesis using d True by (subst dial_loop.simps) auto
  next
    case False
    then have "r = nat m" using 1(2) by linarith
    then show ?thesis using d False by (subst dial_loop.simps) simp
  qed
qed

text \<open>
  C37. \<open>Serve\<close> retries and gives up as configured. For a TCP address it dials until the first success and
  sleeps 10 ms, 20 ms, 40 ms, ... before the attempts that follow a failure; when the first attempt and
  \<open>MaxRetries\<close> retries (10 if unset) all fail it returns the last error. Any other address is
  refused without dialling.
\<close>

theorem Serve_retries_with_backoff:
  assumes "\<not> cl_initDone c" "0 \<le> cl_MaxRetries c" "m = (if cl_MaxRetries c = 0 then 10 else nat (cl_MaxRetries c))"
  shows "(\<forall>addr k. cl_Addr c = ''tcp://'' @ addr \<and> k \<le> m \<and> dial addr k = None \<and> (\<forall>j < k. dial addr j \<noteq> None) \<longrightarrow>
      (\<exists>c'. Client_Serve dial x c = (None, map (\<lambda>i. 10000000 * 2 ^ i) [0..<k], c'))) \<and>
    (\<forall>addr. cl_Addr c = ''tcp://'' @ addr \<and> (\<forall>j \<le> m. dial addr j \<noteq> None) \<longrightarrow>
      (\<exists>ws c'. Client_Serve dial x c = (map_option DialError (dial addr m), ws, c') \<and> length ws = m)) \<and>
    (\<not> HasPrefix (cl_Addr c) ''tcp://'' \<longrightarrow> Client_Serve dial x c = (Some BadProtocol, [], Client_Init c))"
proof -
  have i: "cl_Addr (Client_Init c) = cl_Addr c" "cl_MaxRetries (Client_Init c) = int m"
    using assms by (auto simp: Client_Init_def or_default_def DefaultMaxRetries_def)
  have t: "Client_Serve dial x c = (case dial_loop (dial addr) (int m) 0 MinWaitTime of
      (r, ws) \<Rightarrow> (map_option DialError r, ws, Serve_setup x (Client_Init c)))" if "cl_Addr c = ''tcp://'' @ addr" for addr
  proof -
    have "Serve_addr (cl_Addr c) = Some addr" using that by (simp add: Serve_addr_def HasPrefix_def TrimPrefix_def)
    then show ?thesis using i by (simp add: Client_Serve_def Let_def Serve_setup_def)
  qed
  have "Client_Serve dial x c = (Some BadProtocol, [], Client_Init c)" if "\<not> HasPrefix (cl_Addr c) ''tcp://''"
    using that i by (simp add: Client_Serve_def Let_def Serve_addr_def)
  moreover have "dial_loop (dial addr) (int m) 0 MinWaitTime = (None, map (\<lambda>i. 10000000 * 2 ^ i) [0..<k])"
    if "k \<le> m" "dial addr k = None" "\<forall>j < k. dial addr j \<noteq> None" for addr k
    using that dial_loop_success[of 0 k "dial addr" "int m" MinWaitTime] by (simp add: MinWaitTime_def)
  moreover have "\<exists>ws. dial_loop (dial addr) (int m) 0 MinWaitTime = (dial addr m, ws) \<and> length ws = m"
    if "\<forall>j \<le> m. dial addr j \<noteq> None" for addr
    using that dial_loop_failure[of 0 "int m" "dial addr" MinWaitTime] by simp
  ultimately show ?thesis using t by fastforce
qed

theorem Serve_retries_with_backoff_witness:
  "\<exists>c'. Client_Serve (\<lambda>a n. if n < 2 then Some ''refused'' else None) 3 sample_client = (None, map (\<lambda>i. 10000000 * 2 ^ i) [0..<2], c')"
proof -
  have "\<not> cl_initDone sample_client" "0 \<le> cl_MaxRetries sample_client" "cl_Addr sample_client = ''tcp://'' @ ''localhost:8600''"
    "(10::nat) = (if cl_MaxRetries sample_client = 0 then 10 else nat (cl_MaxRetries sample_client))"
    by (simp_all add: sample_client_def)
  then show ?thesis
    using Serve_retries_with_backoff[of sample_client 10 "\<lambda>a n. if n < 2 then Some ''refused'' else None" 3, THEN conjunct1,
        rule_format, of "''localhost:8600''" 2] by simp
qed

text \<open>
  Closing a client whose connection has already gone panics. When the peer closes the connection the
  client's context ends, the refresh worker leaves and marks the sender as stopped; the shutdown message of a
  later \<open>Close\<close> then runs into the panic of the stopped sender, and \<open>Close\<close> does not return an error.
\<close>

theorem Close_after_disconnect_panics:
  assumes "client_inv c" "\<not> cl_closeDone c" "ms_fails (cl_mergeSender c) = []"
  shows "\<exists>c1 e1 c2. client_event x (c, e) (EventClosed, None) = Inr (c1, e1) \<and> cl_cancelled c1 = Some True \<and>
    refresh_round CtxDone c1 = Inr c2 \<and> Client_Close je evs (c2, e1) = Inl (Panic ''ms.stopped != 0'')"
proof -
  obtain b where b: "cl_cancelled c = Some b" using assms(1) by (auto simp: client_inv_def)
  obtain ms where "RefreshWorker (cl_mergeSender c) CtxDone = Inr ms" "ms_stopped ms"
    using refresh_last_wire[OF assms(3)] by blast
  then show ?thesis using b assms(2)
    by (simp add: client_event_def Client_OnEvent_def Client_cancel_def refresh_round_def Client_Close_def Client_Send_def
        mergeSender_Send_def sendNolock_def)
qed

theorem Close_after_disconnect_panics_witness:
  "\<exists>c1 e1 c2. client_event 3 (served 3 sample_client, calm) (EventClosed, None) = Inr (c1, e1) \<and> cl_cancelled c1 = Some True \<and>
    refresh_round CtxDone c1 = Inr c2 \<and> Client_Close sample_json [] (c2, e1) = Inl (Panic ''ms.stopped != 0'')"
  by (rule Close_after_disconnect_panics[OF served_inv[OF fresh_sample_client]])
    (simp_all add: served_def Serve_setup_def Client_Init_def sample_client_def mergeSender_Init_def)

end
