(* ===== verification/SqlRow.thy ===== *)
theory SqlRow
  imports Symbols Types Encoding
begin

section \<open>SqlRow: values, columns and CSV output (\<open>tracer/sql/type.go\<close>, \<open>row.go\<close>)\<close>

text \<open>
  A constant \<open>SqlAny\<close> is a value of one of four types; a conversion between types panics. A row of a table
  hands out getters: \<open>Field\<close> checks the name of a column and returns the closure that reads it from the
  row, which is here a function of the row's present content. A printer writes a row into a buffer;
  the text of a date is \<open>time.Time\<close>'s and comes in as the argument \<open>ts\<close>.
\<close>

subsection \<open>Values\<close>

definition BoolType :: string where "BoolType = ''bool''"
definition BigIntType :: string where "BigIntType = ''bigint''"
definition StringType :: string where "StringType = ''string''"
definition DatetimeType :: string where "DatetimeType = ''datetime''"

lemmas sql_types = BoolType_def BigIntType_def StringType_def DatetimeType_def

definition errSqlCast :: "string \<Rightarrow> string \<Rightarrow> fault" where
  "errSqlCast src dst = Panic (''cast error: '' @ src @ '' to '' @ dst)"

datatype sql_val = SqlBool bool | SqlBigInt int64 | SqlString string | SqlDatetime Time

definition val_Type :: "sql_val \<Rightarrow> string" where
  "val_Type v = (case v of SqlBool _ \<Rightarrow> BoolType | SqlBigInt _ \<Rightarrow> BigIntType | SqlString _ \<Rightarrow> StringType | SqlDatetime _ \<Rightarrow> DatetimeType)"

definition val_Bool :: "sql_val \<Rightarrow> bool go" where
  "val_Bool v = (case v of SqlBool b \<Rightarrow> Inr b | SqlBigInt i \<Rightarrow> Inr (i \<noteq> 0) | _ \<Rightarrow> Inl (errSqlCast (val_Type v) BoolType))"

definition val_BigInt :: "sql_val \<Rightarrow> int64 go" where
  "val_BigInt v = (case v of SqlBigInt i \<Rightarrow> Inr i | _ \<Rightarrow> Inl (errSqlCast (val_Type v) BigIntType))"

definition val_String :: "sql_val \<Rightarrow> string go" where
  "val_String v = (case v of SqlString s \<Rightarrow> Inr s | _ \<Rightarrow> Inl (errSqlCast (val_Type v) StringType))"

definition val_Datetime :: "sql_val \<Rightarrow> Time go" where
  "val_Datetime v = (case v of SqlDatetime t \<Rightarrow> Inr t | _ \<Rightarrow> Inl (errSqlCast (val_Type v) DatetimeType))"

lemmas val_defs = val_Type_def val_Bool_def val_BigInt_def val_String_def val_Datetime_def

subsection \<open>Rows\<close>

record Field =
  f_Table :: string
  f_Name :: string
  f_AliasName :: string

definition LongName :: "Field \<Rightarrow> string" where
  "LongName f = f_Table f @ ''.'' @ f_Name f"

definition Field_String :: "Field \<Rightarrow> string" where
  "Field_String f = (if f_AliasName f \<noteq> [] then f_AliasName f else LongName f)"

definition no_column :: "string \<Rightarrow> string \<Rightarrow> fault" where
  "no_column table col = Panic (''not found '' @ table @ ''.'' @ col @ '' column'')"

definition no_table :: "string \<Rightarrow> string \<Rightarrow> fault" where
  "no_table table col = Panic (''invalid table: '' @ table @ ''.'' @ col @ '' column'')"

record SqlFuncLogRow =
  fr_FuncLog :: FuncLog
  fr_Symbols :: Symbols
  fr_offset :: int

definition frame_pc :: "SqlFuncLogRow \<Rightarrow> uintptr go" where
  "frame_pc r =
     (if 0 \<le> fr_offset r \<and> nat (fr_offset r) < length (fl_Frames (fr_FuncLog r))
      then Inr (fl_Frames (fr_FuncLog r) ! nat (fr_offset r)) else Inl IndexOutOfRange)"

definition FuncLogRow_Field :: "Field \<Rightarrow> (SqlFuncLogRow \<Rightarrow> sql_val go) go" where
  "FuncLogRow_Field field =
     (let table = f_Table field; col = f_Name field in
      if table = ''calls'' then
        (if col = ''id'' then Inr (\<lambda>r. Inr (SqlBigInt (fl_ID (fr_FuncLog r))))
         else if col = ''gid'' then Inr (\<lambda>r. Inr (SqlBigInt (fl_GID (fr_FuncLog r))))
         else if col = ''starttime'' then Inr (\<lambda>r. Inr (SqlDatetime (fl_StartTime (fr_FuncLog r))))
         else if col = ''endtime'' then Inr (\<lambda>r. Inr (SqlDatetime (fl_EndTime (fr_FuncLog r))))
         else if col = ''exectime''
         then Inr (\<lambda>r. Inr (SqlBigInt (fl_EndTime (fr_FuncLog r) - fl_StartTime (fr_FuncLog r))))
         else Inl (no_column table col))
      else if table = ''frames'' then
        (if col = ''id'' then Inr (\<lambda>r. Inr (SqlBigInt (fl_ID (fr_FuncLog r))))
         else if col = ''offset'' then Inr (\<lambda>r. Inr (SqlBigInt (word_of_int (fr_offset r))))
         else if col = ''package'' then Inr (\<lambda>r. go_bind (frame_pc r) (\<lambda>pc.
           case Symbols_GoFunc (fr_Symbols r) pc of (f, ok) \<Rightarrow>
             if \<not> ok then Inr (SqlString ''?'') else Inr (SqlString (GoFunc_PackagePath f))))
         else if col = ''func'' then Inr (\<lambda>r. go_bind (frame_pc r) (\<lambda>pc.
           case Symbols_GoFunc (fr_Symbols r) pc of (f, ok) \<Rightarrow>
             if \<not> ok then Inr (SqlString ''?'') else Inr (SqlString (gf_Name f))))
         else if col = ''file'' then Inr (\<lambda>r. go_bind (frame_pc r) (\<lambda>pc.
           go_bind (Symbols_File (fr_Symbols r) pc) (\<lambda>s. Inr (SqlString s))))
         else if col = ''line'' then Inr (\<lambda>r. go_bind (frame_pc r) (\<lambda>pc.
           Inr (SqlBigInt (Symbols_Line (fr_Symbols r) pc))))
         else if col = ''pc'' then Inr (\<lambda>r. go_bind (frame_pc r) (\<lambda>pc. Inr (SqlBigInt pc)))
         else Inl (no_column table col))
      else Inl (no_table table col))"

definition FuncLogRow_SetOffset :: "int \<Rightarrow> SqlFuncLogRow \<Rightarrow> SqlFuncLogRow" where
  "FuncLogRow_SetOffset i r = r\<lparr>fr_offset := i\<rparr>"

definition FuncLogRow_MaxOffset :: "SqlFuncLogRow \<Rightarrow> nat" where
  "FuncLogRow_MaxOffset r = length (fl_Frames (fr_FuncLog r))"

definition GoroutineRow_Field :: "Field \<Rightarrow> (Goroutine \<Rightarrow> sql_val go) go" where
  "GoroutineRow_Field field =
     (let table = f_Table field; col = f_Name field in
      if table = ''goroutines'' then
        (if col = ''gid'' then Inr (\<lambda>r. Inr (SqlBigInt (g_GID r)))
         else if col = ''starttime'' then Inr (\<lambda>r. Inr (SqlDatetime (g_StartTime r)))
         else if col = ''endtime'' then Inr (\<lambda>r. Inr (SqlDatetime (g_EndTime r)))
         else if col = ''exectime'' then Inr (\<lambda>r. Inr (SqlBigInt (g_EndTime r - g_StartTime r)))
         else Inl (no_column table col))
      else Inl (no_table table col))"

record SqlGoFuncRow =
  gr_GoFunc :: GoFunc
  gr_Symbols :: Symbols

definition GoFuncRow_Field :: "Field \<Rightarrow> (SqlGoFuncRow \<Rightarrow> sql_val go) go" where
  "GoFuncRow_Field field =
     (let table = f_Table field; col = f_Name field in
      if table = ''funcs'' then
        (if col = ''name'' then Inr (\<lambda>r. Inr (SqlString (gf_Name (gr_GoFunc r))))
         else if col = ''shortname'' then Inr (\<lambda>r. Inr (SqlString (GoFunc_ShortName (gr_GoFunc r))))
         else if col = ''package'' then Inr (\<lambda>r. Inr (SqlString (GoFunc_PackagePath (gr_GoFunc r))))
         else if col = ''path'' then Inr (\<lambda>r.
           go_bind (Symbols_FileLine (gr_Symbols r) (gf_Entry (gr_GoFunc r))) (\<lambda>s. Inr (SqlString s)))
         else Inl (no_column table col))
      else Inl (no_table table col))"

definition GoModuleRow_Field :: "Field \<Rightarrow> (GoModule \<Rightarrow> sql_val go) go" where
  "GoModuleRow_Field field =
     (let table = f_Table field; col = f_Name field in
      if table = ''modules'' then
        (if col = ''module'' then Inr (\<lambda>r. Inr (SqlString (gm_Name r)))
         else Inl (no_column table col))
      else Inl (no_table table col))"

text \<open>A value of the interface \<open>SqlRow\<close>, with the methods dispatched to the kind of row.\<close>

datatype SqlRow = FuncLogRow SqlFuncLogRow | GoroutineRow Goroutine | GoFuncRow SqlGoFuncRow | GoModuleRow GoModule

type_synonym SqlFieldGetter = "SqlRow \<Rightarrow> sql_val go"

definition row_Field :: "SqlRow \<Rightarrow> Field \<Rightarrow> SqlFieldGetter go" where
  "row_Field row field =
     (case row of
        FuncLogRow _ \<Rightarrow> go_bind (FuncLogRow_Field field) (\<lambda>g. Inr (\<lambda>r. case r of FuncLogRow x \<Rightarrow> g x | _ \<Rightarrow> Inl NilDereference))
      | GoroutineRow _ \<Rightarrow> go_bind (GoroutineRow_Field field) (\<lambda>g. Inr (\<lambda>r. case r of GoroutineRow x \<Rightarrow> g x | _ \<Rightarrow> Inl NilDereference))
      | GoFuncRow _ \<Rightarrow> go_bind (GoFuncRow_Field field) (\<lambda>g. Inr (\<lambda>r. case r of GoFuncRow x \<Rightarrow> g x | _ \<Rightarrow> Inl NilDereference))
      | GoModuleRow _ \<Rightarrow> go_bind (GoModuleRow_Field field) (\<lambda>g. Inr (\<lambda>r. case r of GoModuleRow x \<Rightarrow> g x | _ \<Rightarrow> Inl NilDereference)))"

fun row_Fields :: "SqlRow \<Rightarrow> Field list \<Rightarrow> SqlFieldGetter list go" where
  "row_Fields row [] = Inr []"
| "row_Fields row (f # fs) = go_bind (row_Field row f) (\<lambda>g. go_bind (row_Fields row fs) (\<lambda>gs. Inr (g # gs)))"

subsection \<open>Printers\<close>

text \<open>
  A printer keeps the type of its column from the first row it prints (\<open>conv\<close>). \<open>strFastcopy\<close> copies
  what fits into the buffer.
\<close>

definition strFastcopy :: "slice \<Rightarrow> string \<Rightarrow> slice \<times> nat" where
  "strFastcopy buf s = go_copy buf (bytes_of_string s)"

fun put_chars :: "slice \<Rightarrow> nat \<Rightarrow> string \<Rightarrow> slice go" where
  "put_chars buf i [] = Inr buf"
| "put_chars buf i (c # cs) = go_bind (slice_set buf i (byte_of_char c)) (\<lambda>buf. put_chars buf (i + 1) cs)"

definition conv_print :: "(Time \<Rightarrow> string) \<Rightarrow> string \<Rightarrow> sql_val \<Rightarrow> slice \<Rightarrow> (slice \<times> nat) go" where
  "conv_print ts coltype v buf =
     (if coltype = BoolType then go_bind (val_Bool v) (\<lambda>b.
        if b then go_bind (put_chars buf 0 ''true'') (\<lambda>buf. Inr (buf, 4))
        else go_bind (put_chars buf 0 ''false'') (\<lambda>buf. Inr (buf, 5)))
      else if coltype = BigIntType then go_bind (val_BigInt v) (\<lambda>i. Inr (strFastcopy buf (FormatInt i)))
      else if coltype = StringType then go_bind (val_String v) (\<lambda>s. Inr (strFastcopy buf s))
      else if coltype = DatetimeType then go_bind (val_Datetime v) (\<lambda>t. Inr (strFastcopy buf (ts t)))
      else Inl (Panic (coltype @ '' type is not supported'')))"

definition Getter_Printer ::
  "(Time \<Rightarrow> string) \<Rightarrow> SqlFieldGetter \<Rightarrow> SqlRow \<Rightarrow> string option \<Rightarrow> slice \<Rightarrow> (string option \<times> slice \<times> nat) go" where
  "Getter_Printer ts g row conv buf =
     go_bind (g row) (\<lambda>v.
     let coltype = (case conv of None \<Rightarrow> val_Type v | Some t \<Rightarrow> t) in
     go_bind (conv_print ts coltype v buf) (\<lambda>(buf, n). Inr (Some coltype, buf, n)))"

fun Getters_Printer ::
  "(Time \<Rightarrow> string) \<Rightarrow> SqlFieldGetter list \<Rightarrow> SqlRow \<Rightarrow> string option list \<Rightarrow> slice \<Rightarrow> (string option list \<times> slice \<times> nat) go" where
  "Getters_Printer ts [g] row (c # cs) buf =
     go_bind (Getter_Printer ts g row c buf) (\<lambda>(c, buf, n). Inr (c # cs, buf, n))"
| "Getters_Printer ts (g # g' # gs) row (c # cs) buf =
     go_bind (Getter_Printer ts g row c buf) (\<lambda>(c, buf, n).
     go_bind (slice_set buf n (byte_of_char (CHR '',''))) (\<lambda>buf.
     go_bind (slice_from buf (n + 1)) (\<lambda>rest.
     go_bind (Getters_Printer ts (g' # gs) row cs rest) (\<lambda>(cs, rest, n2).
     Inr (c # cs, buf\<lparr>sl_arr := take (n + 1) (sl_arr buf) @ sl_arr rest\<rparr>, n + 1 + n2)))))"
| "Getters_Printer ts gs row cs buf = Inl NilDereference"


subsection \<open>What a printer writes\<close>

definition show_val :: "(Time \<Rightarrow> string) \<Rightarrow> sql_val \<Rightarrow> string" where
  "show_val ts v =
     (case v of SqlBool b \<Rightarrow> if b then ''true'' else ''false'' | SqlBigInt i \<Rightarrow> FormatInt i | SqlString s \<Rightarrow> s | SqlDatetime t \<Rightarrow> ts t)"

lemma put_chars_ok:
  "i + length cs \<le> sl_len buf \<Longrightarrow> sl_wf buf \<Longrightarrow>
   put_chars buf i cs = Inr (buf\<lparr>sl_arr := take i (sl_arr buf) @ bytes_of_string cs @ drop (i + length cs) (sl_arr buf)\<rparr>)"
proof (induction cs arbitrary: buf i)
  case (Cons c cs)
  let ?b = "buf\<lparr>sl_arr := (sl_arr buf)[i := byte_of_char c]\<rparr>"
  have i: "i < length (sl_arr buf)" "i < sl_len buf" using Cons.prems by (auto simp: sl_wf_def)
  have "put_chars ?b (i + 1) cs = Inr (?b\<lparr>sl_arr := take (i + 1) (sl_arr ?b) @ bytes_of_string cs @ drop (i + 1 + length cs) (sl_arr ?b)\<rparr>)"
    using Cons.prems by (intro Cons.IH) (auto simp: sl_wf_def)
  then show ?case using i by (simp add: slice_set_def take_Suc_conv_app_nth)
qed simp

lemma strFastcopy_ok:
  "length s \<le> sl_len buf \<Longrightarrow> strFastcopy buf s = (overwrite buf (bytes_of_string s), length s)"
  by (simp add: strFastcopy_def go_copy_def Let_def)

lemma conv_print_ok:
  assumes "length (show_val ts v) \<le> sl_len buf" "sl_wf buf"
  shows "conv_print ts (val_Type v) v buf = Inr (overwrite buf (bytes_of_string (show_val ts v)), length (show_val ts v))"
  using assms put_chars_ok[of 0 "''true''" buf] put_chars_ok[of 0 "''false''" buf]
  by (cases v) (auto simp: conv_print_def val_defs sql_types show_val_def strFastcopy_ok overwrite_def)

text \<open>A column whose type is not known yet, or is the type of the value.\<close>

definition conv_for :: "sql_val \<Rightarrow> string option \<Rightarrow> bool" where
  "conv_for v c \<longleftrightarrow> c = None \<or> c = Some (val_Type v)"

lemma Getter_Printer_ok:
  assumes "g row = Inr v" "conv_for v c" "length (show_val ts v) \<le> sl_len buf" "sl_wf buf"
  shows "Getter_Printer ts g row c buf =
    Inr (Some (val_Type v), overwrite buf (bytes_of_string (show_val ts v)), length (show_val ts v))"
  using assms conv_print_ok[OF assms(3,4)] by (auto simp: Getter_Printer_def conv_for_def)

definition csv_line :: "(Time \<Rightarrow> string) \<Rightarrow> sql_val list \<Rightarrow> string" where
  "csv_line ts vs = join_with (CHR '','') (map (show_val ts) vs)"

lemma csv_line_Cons: "vs \<noteq> [] \<Longrightarrow> csv_line ts (v # vs) = show_val ts v @ CHR '','' # csv_line ts vs"
  by (cases vs) (auto simp: csv_line_def)

lemma separator_step:
  assumes "n = length s" "n < sl_len buf" "sl_wf buf"
  shows "slice_set (overwrite buf (bytes_of_string s)) n (byte_of_char c) = Inr (overwrite buf (bytes_of_string (s @ [c])))"
  using assms by (auto simp: slice_set_def overwrite_def sl_wf_def list_update_append Cons_nth_drop_Suc[symmetric])

lemma overwrite_rest:
  assumes "n = length s" "n \<le> sl_len buf" "sl_wf buf" "length t \<le> sl_len buf - n"
  shows "(overwrite buf s)\<lparr>sl_arr := take n (sl_arr (overwrite buf s)) @ sl_arr (overwrite \<lparr>sl_len = sl_len buf - n, sl_arr = drop n (sl_arr (overwrite buf s))\<rparr> t)\<rparr> =
    overwrite buf (s @ t)"
  using assms by (simp add: overwrite_def add.commute)

lemma Getters_Printer_ok:
  assumes "list_all2 (\<lambda>g v. g row = Inr v) gs vs" "list_all2 conv_for vs cs" "gs \<noteq> []"
    "length (csv_line ts vs) \<le> sl_len buf" "sl_wf buf"
  shows "Getters_Printer ts gs row cs buf =
    Inr (map (Some \<circ> val_Type) vs, overwrite buf (bytes_of_string (csv_line ts vs)), length (csv_line ts vs))"
  using assms
proof (induction gs arbitrary: vs cs buf)
  case (Cons g gs)
  show ?case
  proof (cases gs)
    case Nil
    then obtain v c where "vs = [v]" "g row = Inr v" "conv_for v c" "cs = [c]"
      using Cons.prems by (auto simp: list_all2_Cons1)
    then show ?thesis using Nil Cons.prems Getter_Printer_ok[of g row v c ts buf] by (simp add: csv_line_def)
  next
    case (Cons g' gs')
    then obtain v ws c cs' where v: "vs = v # ws" "g row = Inr v" "conv_for v c" "list_all2 (\<lambda>g v. g row = Inr v) gs ws"
      "list_all2 conv_for ws cs'" "ws \<noteq> []" "cs = c # cs'"
      using Cons.prems by (auto simp: list_all2_Cons1)
    let ?s = "show_val ts v" and ?n = "length (show_val ts v)"
    let ?b = "overwrite buf (bytes_of_string (?s @ [CHR '','']))"
    let ?rest = "\<lparr>sl_len = sl_len buf - (?n + 1), sl_arr = drop (?n + 1) (sl_arr ?b)\<rparr>"
    have l: "?n + 1 + length (csv_line ts ws) \<le> sl_len buf"
      using Cons.prems(4) csv_line_Cons[OF v(6), of ts v] v(1) by simp
    have w: "sl_wf ?rest" using Cons.prems(5) l by (auto simp: sl_wf_def overwrite_def)
    have 1: "Getter_Printer ts g row c buf = Inr (Some (val_Type v), overwrite buf (bytes_of_string ?s), ?n)"
      using v l Cons.prems(5) by (intro Getter_Printer_ok) auto
    have 2: "slice_set (overwrite buf (bytes_of_string ?s)) ?n (byte_of_char (CHR '','')) = Inr ?b"
      using l Cons.prems(5) by (intro separator_step) auto
    have 3: "slice_from ?b (?n + 1) = Inr ?rest" using l by (simp add: slice_from_def)
    have 4: "Getters_Printer ts gs row cs' ?rest =
        Inr (map (Some \<circ> val_Type) ws, overwrite ?rest (bytes_of_string (csv_line ts ws)), length (csv_line ts ws))"
      using v l w Cons by (intro Cons.IH) auto
    have 5: "?b\<lparr>sl_arr := take (?n + 1) (sl_arr ?b) @ sl_arr (overwrite ?rest (bytes_of_string (csv_line ts ws)))\<rparr> =
        overwrite buf (bytes_of_string (csv_line ts vs))"
      using overwrite_rest[of "?n + 1" "bytes_of_string (?s @ [CHR '',''])" buf "bytes_of_string (csv_line ts ws)"] l Cons.prems(5)
        csv_line_Cons[OF v(6), of ts v] v(1) by simp
    show ?thesis
      unfolding v(7) Cons Getters_Printer.simps(2) 1 go_bind_Inr case_prod_conv 2 3 4[unfolded Cons] 5
      using v(1) csv_line_Cons[OF v(6), of ts v] by simp
  qed
qed simp

text \<open>
  A row is printed as its columns, separated by commas: whatever the types of the columns, if the text
  fits the buffer the printer panics nowhere and writes exactly that text at the front of the buffer,
  leaves the bytes behind it alone, and returns its length. The printers remember the types of the
  columns, and rows of those types keep printing.
\<close>

theorem Printer_prints_csv:
  assumes "list_all2 (\<lambda>g v. g row = Inr v) gs vs" "list_all2 conv_for vs cs" "gs \<noteq> []"
    "length (csv_line ts vs) \<le> sl_len buf" "sl_wf buf"
  shows "\<exists>buf' cs'. Getters_Printer ts gs row cs buf = Inr (cs', buf', length (csv_line ts vs)) \<and>
    take (length (csv_line ts vs)) (sl_arr buf') = bytes_of_string (csv_line ts vs) \<and>
    drop (length (csv_line ts vs)) (sl_arr buf') = drop (length (csv_line ts vs)) (sl_arr buf) \<and>
    sl_len buf' = sl_len buf \<and> list_all2 conv_for vs cs'"
  unfolding Getters_Printer_ok[OF assms]
  by (auto simp: overwrite_def conv_for_def list_all2_conv_all_nth)

definition sample_gr :: Goroutine where
  "sample_gr = \<lparr>g_GID = 7, g_StartTime = 1, g_EndTime = 5\<rparr>"

theorem Printer_prints_csv_witness:
  "\<exists>buf' cs'. Getters_Printer (\<lambda>t. ''T'') [\<lambda>r. Inr (SqlBigInt 7), \<lambda>r. Inr (SqlDatetime 1)] (GoroutineRow sample_gr) [None, None] (make_slice 64) =
      Inr (cs', buf', length (csv_line (\<lambda>t. ''T'') [SqlBigInt 7, SqlDatetime 1])) \<and>
    take (length (csv_line (\<lambda>t. ''T'') [SqlBigInt 7, SqlDatetime 1])) (sl_arr buf') = bytes_of_string (csv_line (\<lambda>t. ''T'') [SqlBigInt 7, SqlDatetime 1]) \<and>
    drop (length (csv_line (\<lambda>t. ''T'') [SqlBigInt 7, SqlDatetime 1])) (sl_arr buf') =
      drop (length (csv_line (\<lambda>t. ''T'') [SqlBigInt 7, SqlDatetime 1])) (sl_arr (make_slice 64)) \<and>
    sl_len buf' = sl_len (make_slice 64) \<and> list_all2 conv_for [SqlBigInt 7, SqlDatetime 1] cs'"
  by (rule Printer_prints_csv)
    (auto simp: conv_for_def csv_line_def show_val_def FormatInt_def format_nat.simps make_slice_def sl_wf_def)

end
