(* ===== verification/SqlExpr.thy ===== *)
theory SqlExpr
  imports SqlRow
begin

section \<open>SqlExpr: evaluation of WHERE clauses (\<open>tracer/sql/op.go\<close>, \<open>func.go\<close>, \<open>SqlField\<close>)\<close>

text \<open>
  A WHERE clause is a tree of objects, none of them shared, so that the path from the root (innermost step
  first) names an object. Some objects carry state: \<open>SqlField\<close> keeps the getter that \<open>WithRow\<close> made,
  \<open>CompOp\<close> keeps the comparison chosen on its first evaluation, \<open>SqlFuncFrame\<close> and
  \<open>SqlFuncCall\<close> keep the row, and evaluating \<open>FRAME\<close> moves the offset of the row. \<open>sql_state\<close> has
  all of it. The row object is shared with the caller, who changes its content between evaluations.

  Globbing (\<open>glob4go\<close>) and \<open>sqlparser\<close>'s operator names come from other packages; \<open>regexp\<close> and the clock
  are arguments as well.
\<close>

datatype comp_operator =
    EqualStr | LessThanStr | GreaterThanStr | LessEqualStr | GreaterEqualStr | NotEqualStr | NullSafeEqualStr
  | InStr | NotInStr | LikeStr | NotLikeStr | RegexpStr | NotRegexpStr | JSONExtractOp | JSONUnquoteExtractOp

datatype SqlAny =
    Const sql_val
  | SqlField Field
  | AndOp SqlAny SqlAny
  | OrOp SqlAny SqlAny
  | NotOp SqlAny
  | CompOp comp_operator SqlAny SqlAny
  | RangeOp SqlAny SqlAny SqlAny
  | SqlFuncFrame SqlAny
  | SqlFuncCall SqlAny
  | SqlFuncNow
  | SqlFuncAddTime "SqlAny option" "SqlAny option"
  | SqlFuncSubTime "SqlAny option" "SqlAny option"

type_synonym path = "nat list"

datatype compare_fn =
    BoolEq | BoolNe
  | IntEq | IntLt | IntGt | IntLe | IntGe | IntNe
  | StrEq | StrNe
  | StrGlob bool "byte list"
  | StrRegexp bool string

record sql_libs =
  lib_glob :: "byte list \<Rightarrow> byte list \<Rightarrow> bool"
  lib_regexp :: "string \<Rightarrow> (string \<Rightarrow> bool) option"
  lib_now :: Time

record sql_state =
  st_getter :: "path \<rightharpoonup> SqlFieldGetter"
  st_compare :: "path \<rightharpoonup> compare_fn"
  st_frame :: "path set"
  st_row :: SqlRow

definition new_state :: "SqlRow \<Rightarrow> sql_state" where
  "new_state row = \<lparr>st_getter = Map.empty, st_compare = Map.empty, st_frame = {}, st_row = row\<rparr>"

subsection \<open>\<open>WithRow\<close>, \<open>Const\<close>, \<open>Type\<close>\<close>

definition bind_frame :: "path \<Rightarrow> sql_state \<Rightarrow> sql_state go" where
  "bind_frame \<pi> s =
     (case st_row s of FuncLogRow _ \<Rightarrow> Inr (s\<lparr>st_frame := insert \<pi> (st_frame s)\<rparr>) | _ \<Rightarrow> Inl (Panic ''interface conversion''))"

fun any_WithRow :: "SqlAny \<Rightarrow> path \<Rightarrow> sql_state \<Rightarrow> sql_state go" where
  "any_WithRow (SqlField f) \<pi> s =
     go_bind (row_Field (st_row s) f) (\<lambda>g. Inr (s\<lparr>st_getter := (st_getter s)(\<pi> \<mapsto> g)\<rparr>))"
| "any_WithRow (AndOp l r) \<pi> s = go_bind (any_WithRow l (0 # \<pi>) s) (any_WithRow r (1 # \<pi>))"
| "any_WithRow (OrOp l r) \<pi> s = go_bind (any_WithRow l (0 # \<pi>) s) (any_WithRow r (1 # \<pi>))"
| "any_WithRow (NotOp e) \<pi> s = any_WithRow e (0 # \<pi>) s"
| "any_WithRow (CompOp _ l r) \<pi> s = go_bind (any_WithRow l (0 # \<pi>) s) (any_WithRow r (1 # \<pi>))"
| "any_WithRow (RangeOp l f t) \<pi> s =
     go_bind (any_WithRow l (0 # \<pi>) s) (\<lambda>s. go_bind (any_WithRow f (1 # \<pi>) s) (any_WithRow t (2 # \<pi>)))"
| "any_WithRow (SqlFuncFrame e) \<pi> s = go_bind (bind_frame \<pi> s) (any_WithRow e (0 # \<pi>))"
| "any_WithRow (SqlFuncCall e) \<pi> s = go_bind (bind_frame \<pi> s) (any_WithRow e (0 # \<pi>))"
| "any_WithRow _ \<pi> s = Inr s"

fun any_Const :: "SqlAny \<Rightarrow> bool" where
  "any_Const (Const _) = True"
| "any_Const (AndOp l r) = (any_Const l \<and> any_Const r)"
| "any_Const (OrOp l r) = (any_Const l \<and> any_Const r)"
| "any_Const (NotOp e) = any_Const e"
| "any_Const (CompOp _ l r) = (any_Const l \<and> any_Const r)"
| "any_Const (RangeOp l f t) = (any_Const l \<and> any_Const f \<and> any_Const t)"
| "any_Const _ = False"

text \<open>A getter that \<open>WithRow\<close> has not set is nil.\<close>

definition get_field :: "path \<Rightarrow> sql_state \<Rightarrow> sql_val go" where
  "get_field \<pi> s = (case st_getter s \<pi> of None \<Rightarrow> Inl NilDereference | Some g \<Rightarrow> g (st_row s))"

fun any_Type :: "SqlAny \<Rightarrow> path \<Rightarrow> sql_state \<Rightarrow> string go" where
  "any_Type (Const v) \<pi> s = Inr (val_Type v)"
| "any_Type (SqlField f) \<pi> s = go_bind (get_field \<pi> s) (\<lambda>v. Inr (val_Type v))"
| "any_Type SqlFuncNow \<pi> s = Inr DatetimeType"
| "any_Type (SqlFuncAddTime _ _) \<pi> s = Inr DatetimeType"
| "any_Type (SqlFuncSubTime _ _) \<pi> s = Inr DatetimeType"
| "any_Type _ \<pi> s = Inr BoolType"

subsection \<open>\<open>BigInt\<close>, \<open>String\<close>, \<open>Datetime\<close>\<close>

text \<open>Operators are Booleans, the time functions dates; every other reading of them panics.\<close>

definition own_type :: "SqlAny \<Rightarrow> string" where
  "own_type e = (case e of SqlFuncNow \<Rightarrow> DatetimeType | SqlFuncAddTime _ _ \<Rightarrow> DatetimeType | SqlFuncSubTime _ _ \<Rightarrow> DatetimeType | _ \<Rightarrow> BoolType)"

definition any_BigInt :: "SqlAny \<Rightarrow> path \<Rightarrow> sql_state \<Rightarrow> int64 go" where
  "any_BigInt e \<pi> s =
     (case e of Const v \<Rightarrow> val_BigInt v
      | SqlField f \<Rightarrow> go_bind (get_field \<pi> s) val_BigInt
      | _ \<Rightarrow> Inl (errSqlCast (own_type e) BigIntType))"

definition any_String :: "SqlAny \<Rightarrow> path \<Rightarrow> sql_state \<Rightarrow> string go" where
  "any_String e \<pi> s =
     (case e of Const v \<Rightarrow> val_String v
      | SqlField f \<Rightarrow> go_bind (get_field \<pi> s) val_String
      | _ \<Rightarrow> Inl (errSqlCast (own_type e) StringType))"

fun any_Datetime :: "SqlAny \<Rightarrow> sql_libs \<Rightarrow> path \<Rightarrow> sql_state \<Rightarrow> Time go" where
  "any_Datetime (Const v) L \<pi> s = val_Datetime v"
| "any_Datetime (SqlField f) L \<pi> s = go_bind (get_field \<pi> s) val_Datetime"
| "any_Datetime SqlFuncNow L \<pi> s = Inr (lib_now L)"
| "any_Datetime (SqlFuncAddTime (Some b) (Some d)) L \<pi> s =
     go_bind (any_Datetime b L (0 # \<pi>) s) (\<lambda>x. go_bind (any_Datetime d L (1 # \<pi>) s) (\<lambda>y. Inr (x + y)))"
| "any_Datetime (SqlFuncSubTime (Some b) (Some d)) L \<pi> s =
     go_bind (any_Datetime b L (0 # \<pi>) s) (\<lambda>x. go_bind (any_Datetime d L (1 # \<pi>) s) (\<lambda>y. Inr (x - y)))"
| "any_Datetime (SqlFuncAddTime _ _) L \<pi> s = Inl NilDereference"
| "any_Datetime (SqlFuncSubTime _ _) L \<pi> s = Inl NilDereference"
| "any_Datetime e L \<pi> s = Inl (errSqlCast BoolType DatetimeType)"

subsection \<open>Comparisons\<close>

definition sqlPattern2glob :: "string \<Rightarrow> byte list" where
  "sqlPattern2glob s =
     map (\<lambda>c. byte_of_char (if c = CHR ''%'' then CHR ''*'' else if c = CHR ''_'' then CHR ''?'' else c)) s"

definition not_supported :: fault where
  "not_supported = Panic ''not supported operator''"

definition bool_compare :: "comp_operator \<Rightarrow> compare_fn go" where
  "bool_compare op =
     (case op of EqualStr \<Rightarrow> Inr BoolEq | NotEqualStr \<Rightarrow> Inr BoolNe | NullSafeEqualStr \<Rightarrow> Inr BoolEq | _ \<Rightarrow> Inl not_supported)"

definition int_compare :: "comp_operator \<Rightarrow> compare_fn go" where
  "int_compare op =
     (case op of EqualStr \<Rightarrow> Inr IntEq | LessThanStr \<Rightarrow> Inr IntLt | GreaterThanStr \<Rightarrow> Inr IntGt
      | LessEqualStr \<Rightarrow> Inr IntLe | GreaterEqualStr \<Rightarrow> Inr IntGe | NotEqualStr \<Rightarrow> Inr IntNe
      | NullSafeEqualStr \<Rightarrow> Inr IntEq | _ \<Rightarrow> Inl not_supported)"

text \<open>\<open>rs\<close> is the reading of the right operand, for the operators that take a pattern.\<close>

definition str_compare :: "sql_libs \<Rightarrow> comp_operator \<Rightarrow> string go \<Rightarrow> compare_fn go" where
  "str_compare L op rs =
     (case op of EqualStr \<Rightarrow> Inr StrEq | NotEqualStr \<Rightarrow> Inr StrNe | NullSafeEqualStr \<Rightarrow> Inr StrEq
      | LikeStr \<Rightarrow> go_bind rs (\<lambda>p. Inr (StrGlob True (sqlPattern2glob p)))
      | NotLikeStr \<Rightarrow> go_bind rs (\<lambda>p. Inr (StrGlob False (sqlPattern2glob p)))
      | RegexpStr \<Rightarrow> go_bind rs (\<lambda>p. if lib_regexp L p = None then Inl (Panic ''invalid regular expression'') else Inr (StrRegexp True p))
      | NotRegexpStr \<Rightarrow> go_bind rs (\<lambda>p. if lib_regexp L p = None then Inl (Panic ''invalid regular expression'') else Inr (StrRegexp False p))
      | _ \<Rightarrow> Inl not_supported)"

definition choose_compare :: "sql_libs \<Rightarrow> comp_operator \<Rightarrow> string go \<Rightarrow> string go \<Rightarrow> string go \<Rightarrow> compare_fn go" where
  "choose_compare L op t t2 rs =
     go_bind t (\<lambda>t. go_bind t2 (\<lambda>t2.
     if t \<noteq> t2 then Inl (Panic ''mismatch type'')
     else if t = BoolType then bool_compare op
     else if t = BigIntType then int_compare op
     else if t = StringType then str_compare L op rs
     else Inl (Panic (''bug: type='' @ t))))"

definition compareFn :: "sql_libs \<Rightarrow> comp_operator \<Rightarrow> SqlAny \<Rightarrow> SqlAny \<Rightarrow> path \<Rightarrow> sql_state \<Rightarrow> compare_fn go" where
  "compareFn L op l r \<pi> s =
     choose_compare L op (any_Type l (0 # \<pi>) s) (any_Type r (1 # \<pi>) s) (any_String r (1 # \<pi>) s)"

definition int_result :: "compare_fn \<Rightarrow> int64 \<Rightarrow> int64 \<Rightarrow> bool" where
  "int_result c x y =
     (case c of IntEq \<Rightarrow> x = y | IntLt \<Rightarrow> sint x < sint y | IntGt \<Rightarrow> sint x > sint y
      | IntLe \<Rightarrow> sint x \<le> sint y | IntGe \<Rightarrow> sint x \<ge> sint y | _ \<Rightarrow> x \<noteq> y)"

text \<open>The comparisons whose operands are read without effects.\<close>

definition pure_compare :: "sql_libs \<Rightarrow> compare_fn \<Rightarrow> int64 go \<Rightarrow> int64 go \<Rightarrow> string go \<Rightarrow> string go \<Rightarrow> bool go" where
  "pure_compare L c li ri ls rs =
     (case c of
        StrEq \<Rightarrow> go_bind ls (\<lambda>x. go_bind rs (\<lambda>y. Inr (x = y)))
      | StrNe \<Rightarrow> go_bind ls (\<lambda>x. go_bind rs (\<lambda>y. Inr (x \<noteq> y)))
      | StrGlob ok p \<Rightarrow> go_bind ls (\<lambda>x. Inr (ok = lib_glob L p (bytes_of_string x)))
      | StrRegexp ok p \<Rightarrow> go_bind ls (\<lambda>x. case lib_regexp L p of None \<Rightarrow> Inl NilDereference | Some m \<Rightarrow> Inr (ok = m x))
      | _ \<Rightarrow> go_bind li (\<lambda>x. go_bind ri (\<lambda>y. Inr (int_result c x y))))"

subsection \<open>\<open>Bool\<close>\<close>

definition set_offset :: "nat \<Rightarrow> sql_state \<Rightarrow> sql_state" where
  "set_offset i s = s\<lparr>st_row := (case st_row s of FuncLogRow r \<Rightarrow> FuncLogRow (FuncLogRow_SetOffset (int i) r) | row \<Rightarrow> row)\<rparr>"

definition max_offset :: "sql_state \<Rightarrow> nat" where
  "max_offset s = (case st_row s of FuncLogRow r \<Rightarrow> FuncLogRow_MaxOffset r | _ \<Rightarrow> 0)"

text \<open>The loop of \<open>FRAME\<close> over the offsets that are left.\<close>

fun frame_loop :: "(sql_state \<Rightarrow> (bool \<times> sql_state) go) \<Rightarrow> nat list \<Rightarrow> sql_state \<Rightarrow> (bool \<times> sql_state) go" where
  "frame_loop body [] s = Inr (False, s)"
| "frame_loop body (i # is) s =
     go_bind (body (set_offset i s)) (\<lambda>(b, s). if b then Inr (True, s) else frame_loop body is s)"

fun any_Bool :: "SqlAny \<Rightarrow> sql_libs \<Rightarrow> path \<Rightarrow> sql_state \<Rightarrow> (bool \<times> sql_state) go" where
  "any_Bool (Const v) L \<pi> s = go_bind (val_Bool v) (\<lambda>b. Inr (b, s))"
| "any_Bool (SqlField f) L \<pi> s = go_bind (get_field \<pi> s) (\<lambda>v. go_bind (val_Bool v) (\<lambda>b. Inr (b, s)))"
| "any_Bool (AndOp l r) L \<pi> s =
     go_bind (any_Bool l L (0 # \<pi>) s) (\<lambda>(x, s). go_bind (any_Bool r L (1 # \<pi>) s) (\<lambda>(y, s). Inr (x \<and> y, s)))"
| "any_Bool (OrOp l r) L \<pi> s =
     go_bind (any_Bool l L (0 # \<pi>) s) (\<lambda>(x, s). go_bind (any_Bool r L (1 # \<pi>) s) (\<lambda>(y, s). Inr (x \<or> y, s)))"
| "any_Bool (NotOp e) L \<pi> s = go_bind (any_Bool e L (0 # \<pi>) s) (\<lambda>(x, s). Inr (\<not> x, s))"
| "any_Bool (CompOp op l r) L \<pi> s =
     go_bind (case st_compare s \<pi> of
         Some c \<Rightarrow> Inr (c, s)
       | None \<Rightarrow> go_bind (compareFn L op l r \<pi> s) (\<lambda>c. Inr (c, s\<lparr>st_compare := (st_compare s)(\<pi> \<mapsto> c)\<rparr>))) (\<lambda>(c, s).
     if c = BoolEq \<or> c = BoolNe
     then go_bind (any_Bool l L (0 # \<pi>) s) (\<lambda>(x, s). go_bind (any_Bool r L (1 # \<pi>) s) (\<lambda>(y, s). Inr ((c = BoolEq) = (x = y), s)))
     else go_bind (pure_compare L c (any_BigInt l (0 # \<pi>) s) (any_BigInt r (1 # \<pi>) s)
         (any_String l (0 # \<pi>) s) (any_String r (1 # \<pi>) s)) (\<lambda>b. Inr (b, s)))"
| "any_Bool (RangeOp l f t) L \<pi> s =
     go_bind (any_BigInt l (0 # \<pi>) s) (\<lambda>v. go_bind (any_BigInt f (1 # \<pi>) s) (\<lambda>x. go_bind (any_BigInt t (2 # \<pi>) s) (\<lambda>y.
     Inr (sint x \<le> sint v \<and> sint v \<le> sint y, s))))"
| "any_Bool (SqlFuncFrame e) L \<pi> s =
     (if \<pi> \<notin> st_frame s then Inl NilDereference
      else frame_loop (\<lambda>s. any_Bool e L (0 # \<pi>) s) [0..<max_offset s] s)"
| "any_Bool (SqlFuncCall e) L \<pi> s = any_Bool e L (0 # \<pi>) s"
| "any_Bool SqlFuncNow L \<pi> s = Inl (errSqlCast DatetimeType BoolType)"
| "any_Bool (SqlFuncAddTime _ _) L \<pi> s = Inl (errSqlCast DatetimeType BoolType)"
| "any_Bool (SqlFuncSubTime _ _) L \<pi> s = Inl (errSqlCast DatetimeType BoolType)"


subsection \<open>The meaning of a WHERE clause\<close>

text \<open>
  What a clause says of one row, with nothing remembered and nothing moved: columns are read from the row,
  comparisons are chosen by the types of their operands on this row, \<open>FRAME\<close> looks at the row at each offset.
\<close>

definition read_field :: "SqlRow \<Rightarrow> Field \<Rightarrow> sql_val go" where
  "read_field row f = go_bind (row_Field row f) (\<lambda>g. g row)"

definition e_type :: "SqlAny \<Rightarrow> SqlRow \<Rightarrow> string go" where
  "e_type e row =
     (case e of Const v \<Rightarrow> Inr (val_Type v) | SqlField f \<Rightarrow> go_bind (read_field row f) (\<lambda>v. Inr (val_Type v)) | _ \<Rightarrow> Inr (own_type e))"

definition e_int :: "SqlAny \<Rightarrow> SqlRow \<Rightarrow> int64 go" where
  "e_int e row =
     (case e of Const v \<Rightarrow> val_BigInt v | SqlField f \<Rightarrow> go_bind (read_field row f) val_BigInt | _ \<Rightarrow> Inl (errSqlCast (own_type e) BigIntType))"

definition e_str :: "SqlAny \<Rightarrow> SqlRow \<Rightarrow> string go" where
  "e_str e row =
     (case e of Const v \<Rightarrow> val_String v | SqlField f \<Rightarrow> go_bind (read_field row f) val_String | _ \<Rightarrow> Inl (errSqlCast (own_type e) StringType))"

definition at_offset :: "nat \<Rightarrow> SqlRow \<Rightarrow> SqlRow" where
  "at_offset i row = (case row of FuncLogRow r \<Rightarrow> FuncLogRow (FuncLogRow_SetOffset (int i) r) | row \<Rightarrow> row)"

definition frames_of :: "SqlRow \<Rightarrow> nat" where
  "frames_of row = (case row of FuncLogRow r \<Rightarrow> FuncLogRow_MaxOffset r | _ \<Rightarrow> 0)"

fun some_true :: "(nat \<Rightarrow> bool go) \<Rightarrow> nat list \<Rightarrow> bool go" where
  "some_true P [] = Inr False"
| "some_true P (i # is) = go_bind (P i) (\<lambda>b. if b then Inr True else some_true P is)"

fun meaning :: "SqlAny \<Rightarrow> sql_libs \<Rightarrow> SqlRow \<Rightarrow> bool go" where
  "meaning (Const v) L row = val_Bool v"
| "meaning (SqlField f) L row = go_bind (read_field row f) val_Bool"
| "meaning (AndOp l r) L row = go_bind (meaning l L row) (\<lambda>x. go_bind (meaning r L row) (\<lambda>y. Inr (x \<and> y)))"
| "meaning (OrOp l r) L row = go_bind (meaning l L row) (\<lambda>x. go_bind (meaning r L row) (\<lambda>y. Inr (x \<or> y)))"
| "meaning (NotOp e) L row = go_bind (meaning e L row) (\<lambda>x. Inr (\<not> x))"
| "meaning (CompOp op l r) L row =
     go_bind (choose_compare L op (e_type l row) (e_type r row) (e_str r row)) (\<lambda>c.
     if c = BoolEq \<or> c = BoolNe
     then go_bind (meaning l L row) (\<lambda>x. go_bind (meaning r L row) (\<lambda>y. Inr ((c = BoolEq) = (x = y))))
     else pure_compare L c (e_int l row) (e_int r row) (e_str l row) (e_str r row))"
| "meaning (RangeOp l f t) L row =
     go_bind (e_int l row) (\<lambda>v. go_bind (e_int f row) (\<lambda>x. go_bind (e_int t row) (\<lambda>y. Inr (sint x \<le> sint v \<and> sint v \<le> sint y))))"
| "meaning (SqlFuncFrame e) L row = some_true (\<lambda>i. meaning e L (at_offset i row)) [0..<frames_of row]"
| "meaning (SqlFuncCall e) L row = meaning e L row"
| "meaning SqlFuncNow L row = Inl (errSqlCast DatetimeType BoolType)"
| "meaning (SqlFuncAddTime _ _) L row = Inl (errSqlCast DatetimeType BoolType)"
| "meaning (SqlFuncSubTime _ _) L row = Inl (errSqlCast DatetimeType BoolType)"

text \<open>
  The clauses for which the remembered comparisons agree with the meaning: patterns are constants.
  A clause over the frames of a call either stands inside \<open>FRAME\<close> or has no \<open>FRAME\<close> at all.
\<close>

definition pattern_op :: "comp_operator \<Rightarrow> bool" where
  "pattern_op op \<longleftrightarrow> op \<in> {LikeStr, NotLikeStr, RegexpStr, NotRegexpStr}"

definition is_const :: "SqlAny \<Rightarrow> bool" where
  "is_const e = (case e of Const _ \<Rightarrow> True | _ \<Rightarrow> False)"

definition field_ok :: "bool \<Rightarrow> SqlAny \<Rightarrow> bool" where
  "field_ok inner e = (case e of SqlField f \<Rightarrow> inner \<or> f_Table f \<noteq> ''frames'' | _ \<Rightarrow> True)"

fun steady :: "bool \<Rightarrow> SqlAny \<Rightarrow> bool" where
  "steady inner (SqlField f) = field_ok inner (SqlField f)"
| "steady inner (AndOp l r) = (steady inner l \<and> steady inner r)"
| "steady inner (OrOp l r) = (steady inner l \<and> steady inner r)"
| "steady inner (NotOp e) = steady inner e"
| "steady inner (CompOp op l r) = ((pattern_op op \<longrightarrow> is_const r) \<and> steady inner l \<and> steady inner r)"
| "steady inner (RangeOp l f t) = (field_ok inner l \<and> field_ok inner f \<and> field_ok inner t)"
| "steady inner (SqlFuncFrame e) = (\<not> inner \<and> steady True e)"
| "steady inner (SqlFuncCall e) = steady inner e"
| "steady inner _ = True"

subsection \<open>Columns have types\<close>

definition col_type :: "Field \<Rightarrow> string" where
  "col_type f =
     (if f_Name f \<in> {''id'', ''gid'', ''exectime'', ''offset'', ''line'', ''pc''} then BigIntType
      else if f_Name f \<in> {''starttime'', ''endtime''} then DatetimeType
      else StringType)"

lemma FuncLogRow_typed: "FuncLogRow_Field f = Inr g \<Longrightarrow> g r = Inr v \<Longrightarrow> val_Type v = col_type f"
  by (auto simp: FuncLogRow_Field_def Let_def col_type_def val_Type_def go_bind_eq_Inr case_prod_unfold split: if_splits)

lemma GoroutineRow_typed: "GoroutineRow_Field f = Inr g \<Longrightarrow> g r = Inr v \<Longrightarrow> val_Type v = col_type f"
  by (auto simp: GoroutineRow_Field_def Let_def col_type_def val_Type_def split: if_splits)

lemma GoFuncRow_typed: "GoFuncRow_Field f = Inr g \<Longrightarrow> g r = Inr v \<Longrightarrow> val_Type v = col_type f"
  by (auto simp: GoFuncRow_Field_def Let_def col_type_def val_Type_def go_bind_eq_Inr split: if_splits)

lemma GoModuleRow_typed: "GoModuleRow_Field f = Inr g \<Longrightarrow> g r = Inr v \<Longrightarrow> val_Type v = col_type f"
  by (auto simp: GoModuleRow_Field_def Let_def col_type_def val_Type_def split: if_splits)

lemma row_typed: "row_Field row f = Inr g \<Longrightarrow> g row' = Inr v \<Longrightarrow> val_Type v = col_type f"
  by (auto simp: row_Field_def go_bind_eq_Inr FuncLogRow_typed GoroutineRow_typed GoFuncRow_typed GoModuleRow_typed
      split: SqlRow.splits)

lemma read_typed: "read_field row f = Inr v \<Longrightarrow> val_Type v = col_type f"
  by (auto simp: read_field_def go_bind_eq_Inr row_typed)

lemma col_type_not_Bool: "col_type f \<noteq> BoolType"
  by (simp add: col_type_def sql_types)

lemma type_distinct [simp]:
  "BoolType \<noteq> BigIntType" "BoolType \<noteq> StringType" "BoolType \<noteq> DatetimeType" "BigIntType \<noteq> BoolType" "BigIntType \<noteq> StringType"
  "BigIntType \<noteq> DatetimeType" "StringType \<noteq> BoolType" "StringType \<noteq> BigIntType" "StringType \<noteq> DatetimeType"
  "DatetimeType \<noteq> BoolType" "DatetimeType \<noteq> BigIntType" "DatetimeType \<noteq> StringType"
  by (simp_all add: sql_types)

text \<open>The type and the comparison an expression has on every row.\<close>

definition stype :: "SqlAny \<Rightarrow> string" where
  "stype e = (case e of Const v \<Rightarrow> val_Type v | SqlField f \<Rightarrow> col_type f | _ \<Rightarrow> own_type e)"

definition static_compare :: "sql_libs \<Rightarrow> comp_operator \<Rightarrow> SqlAny \<Rightarrow> SqlAny \<Rightarrow> compare_fn go" where
  "static_compare L op l r = choose_compare L op (Inr (stype l)) (Inr (stype r)) (case r of Const v \<Rightarrow> val_String v | _ \<Rightarrow> Inl NilDereference)"

lemma e_type_cases: "e_type e row = Inr (stype e) \<or> (\<exists>f x. e = SqlField f \<and> read_field row f = Inl x \<and> e_type e row = Inl x)"
proof (cases e)
  case (SqlField f)
  then show ?thesis using read_typed[of row f] by (cases "read_field row f") (auto simp: e_type_def stype_def)
qed (auto simp: e_type_def stype_def)


lemma e_str_field: "read_field row f = Inl x \<Longrightarrow> e_str (SqlField f) row = Inl x"
  "read_field row f = Inl x \<Longrightarrow> e_int (SqlField f) row = Inl x"
  by (simp_all add: e_str_def e_int_def)

lemma val_Type_iff:
  "val_Type v = StringType \<longleftrightarrow> (\<exists>x. v = SqlString x)" "val_Type v = BigIntType \<longleftrightarrow> (\<exists>x. v = SqlBigInt x)"
  by (auto simp: val_Type_def split: sql_val.splits)

lemma own_type_iff: "own_type e \<noteq> StringType" "own_type e \<noteq> BigIntType"
  by (auto simp: own_type_def split: SqlAny.splits)

lemma e_str_ok: "e_type e row = Inr StringType \<Longrightarrow> \<exists>x. e_str e row = Inr x"
  by (cases e) (auto simp: e_type_def e_str_def own_type_iff val_String_def val_Type_iff go_bind_eq_Inr)

lemma e_int_ok: "e_type e row = Inr BigIntType \<Longrightarrow> \<exists>x. e_int e row = Inr x"
  by (cases e) (auto simp: e_type_def e_int_def own_type_iff val_BigInt_def val_Type_iff go_bind_eq_Inr)

lemma str_compare_const:
  "pattern_op op \<longrightarrow> is_const r \<Longrightarrow> str_compare L op (e_str r row) = str_compare L op (case r of Const v \<Rightarrow> val_String v | _ \<Rightarrow> Inl NilDereference)"
  by (cases op) (auto simp: str_compare_def pattern_op_def is_const_def e_str_def split: SqlAny.splits)

text \<open>Choosing the comparison on a row gives the static one, or the fault of reading an operand.\<close>

lemma choose_static:
  assumes "pattern_op op \<longrightarrow> is_const r"
  shows "choose_compare L op (e_type l row) (e_type r row) (e_str r row) = static_compare L op l r \<or>
    (\<exists>f x. l = SqlField f \<and> read_field row f = Inl x \<and> choose_compare L op (e_type l row) (e_type r row) (e_str r row) = Inl x) \<or>
    (\<exists>f x. e_type l row = Inr (stype l) \<and> r = SqlField f \<and> read_field row f = Inl x \<and>
       choose_compare L op (e_type l row) (e_type r row) (e_str r row) = Inl x)"
proof (cases "e_type l row = Inr (stype l)")
  case l: True
  show ?thesis
  proof (cases "e_type r row = Inr (stype r)")
    case True
    then show ?thesis using l str_compare_const[OF assms, of L row] by (simp add: choose_compare_def static_compare_def)
  next
    case False
    then obtain f x where "r = SqlField f" "read_field row f = Inl x" "e_type r row = Inl x" using e_type_cases[of r row] by auto
    then show ?thesis using l by (simp add: choose_compare_def)
  qed
next
  case False
  then obtain f x where "l = SqlField f" "read_field row f = Inl x" "e_type l row = Inl x" using e_type_cases[of l row] by auto
  then show ?thesis by (simp add: choose_compare_def)
qed

definition is_bool :: "compare_fn \<Rightarrow> bool" where
  "is_bool c \<longleftrightarrow> c = BoolEq \<or> c = BoolNe"

definition is_pattern :: "compare_fn \<Rightarrow> bool" where
  "is_pattern c = (case c of StrGlob _ _ \<Rightarrow> True | StrRegexp _ _ \<Rightarrow> True | _ \<Rightarrow> False)"

lemma static_compare_kind:
  assumes "static_compare L op l r = Inr c"
  shows "stype l = stype r"
    "is_bool c \<Longrightarrow> stype r = BoolType"
    "c \<in> {IntEq, IntLt, IntGt, IntLe, IntGe, IntNe} \<Longrightarrow> stype r = BigIntType"
    "c \<in> {StrEq, StrNe} \<or> is_pattern c \<Longrightarrow> stype r = StringType"
    "is_pattern c \<Longrightarrow> is_const r"
proof -
  show "stype l = stype r" using assms by (auto simp: static_compare_def choose_compare_def split: if_splits)
  have "(stype r = BoolType \<and> bool_compare op = Inr c) \<or> (stype r = BigIntType \<and> int_compare op = Inr c) \<or>
      (stype r = StringType \<and> str_compare L op (case r of Const v \<Rightarrow> val_String v | _ \<Rightarrow> Inl NilDereference) = Inr c)"
    using assms by (auto simp: static_compare_def choose_compare_def split: if_splits)
  then show "is_bool c \<Longrightarrow> stype r = BoolType"
    "c \<in> {IntEq, IntLt, IntGt, IntLe, IntGe, IntNe} \<Longrightarrow> stype r = BigIntType"
    "c \<in> {StrEq, StrNe} \<or> is_pattern c \<Longrightarrow> stype r = StringType"
    by (auto simp: is_bool_def is_pattern_def bool_compare_def int_compare_def str_compare_def go_bind_eq_Inr split: comp_operator.splits if_splits)
  show "is_pattern c \<Longrightarrow> is_const r"
    using \<open>_ \<or> _\<close> by (cases r) (auto simp: is_const_def is_pattern_def bool_compare_def int_compare_def str_compare_def split: comp_operator.splits)
qed

text \<open>So a comparison that was chosen earlier does on a row what choosing it on that row would do.\<close>

definition run_compare :: "sql_libs \<Rightarrow> compare_fn \<Rightarrow> bool go \<Rightarrow> bool go \<Rightarrow> SqlAny \<Rightarrow> SqlAny \<Rightarrow> SqlRow \<Rightarrow> bool go" where
  "run_compare L c ml mr l r row =
     (if c = BoolEq \<or> c = BoolNe then go_bind ml (\<lambda>x. go_bind mr (\<lambda>y. Inr ((c = BoolEq) = (x = y))))
      else pure_compare L c (e_int l row) (e_int r row) (e_str l row) (e_str r row))"

lemma pure_compare_fault_left:
  "li = Inl x \<Longrightarrow> ls = Inl x \<Longrightarrow> pure_compare L c li ri ls rs = Inl x"
  by (cases c) (auto simp: pure_compare_def)

lemma run_compare_fault:
  assumes "static_compare L op l r = Inr c" "choose_compare L op (e_type l row) (e_type r row) (e_str r row) \<noteq> Inr c"
    "pattern_op op \<longrightarrow> is_const r"
  shows "\<exists>x. choose_compare L op (e_type l row) (e_type r row) (e_str r row) = Inl x \<and> run_compare L c ml mr l r row = Inl x"
proof -
  note k = static_compare_kind[OF assms(1)]
  have nb: "\<not> is_bool c" if "l = SqlField f \<or> r = SqlField f" for f
    using k(1,2) that col_type_not_Bool[of f] by (auto simp: stype_def)
  from choose_static[OF assms(3), of L l row] assms(1,2)
  consider f x where "l = SqlField f" "read_field row f = Inl x" "choose_compare L op (e_type l row) (e_type r row) (e_str r row) = Inl x"
    | f x where "e_type l row = Inr (stype l)" "r = SqlField f" "read_field row f = Inl x" "choose_compare L op (e_type l row) (e_type r row) (e_str r row) = Inl x"
    by auto
  then show ?thesis
  proof cases
    case 1
    then have "run_compare L c ml mr l r row = Inl x"
      using nb[of f] pure_compare_fault_left[OF e_str_field(2) e_str_field(1)] by (simp add: run_compare_def is_bool_def)
    then show ?thesis using 1(3) by blast
  next
    case 2
    have "run_compare L c ml mr l r row = Inl x"
    proof (cases "c \<in> {StrEq, StrNe}")
      case True
      then obtain y where "e_str l row = Inr y" using k(1,4) 2(1) e_str_ok[of l row] by auto
      then show ?thesis using True e_str_field(1)[OF 2(3)] 2(2) by (auto simp: run_compare_def pure_compare_def)
    next
      case False
      have "\<not> is_pattern c" using k(5) 2(2) by (auto simp: is_const_def)
      then have i: "c \<in> {IntEq, IntLt, IntGt, IntLe, IntGe, IntNe}" using False nb[of f] 2(2) by (cases c) (auto simp: is_bool_def is_pattern_def)
      then obtain y where "e_int l row = Inr y" using k(1,3) 2(1) e_int_ok[of l row] by auto
      then show ?thesis using i e_str_field(2)[OF 2(3)] 2(2) by (auto simp: run_compare_def pure_compare_def)
    qed
    then show ?thesis using 2(4) by blast
  qed
qed

lemma compare_steady:
  assumes "static_compare L op l r = Inr c" "pattern_op op \<longrightarrow> is_const r"
  shows "meaning (CompOp op l r) L row = run_compare L c (meaning l L row) (meaning r L row) l r row"
proof (cases "choose_compare L op (e_type l row) (e_type r row) (e_str r row) = Inr c")
  case True
  then show ?thesis by (simp add: run_compare_def)
next
  case False
  then show ?thesis
    using run_compare_fault[OF assms(1) False assms(2), of "meaning l L row" "meaning r L row"] by auto
qed

lemma choose_Inr_static:
  assumes "choose_compare L op (e_type l row) (e_type r row) (e_str r row) = Inr c" "pattern_op op \<longrightarrow> is_const r"
  shows "static_compare L op l r = Inr c"
  using choose_static[OF assms(2), of L l row] assms(1) by auto


subsection \<open>Evaluation agrees with the meaning\<close>

fun child :: "nat \<Rightarrow> SqlAny \<Rightarrow> SqlAny option" where
  "child i (AndOp l r) = (if i = 0 then Some l else if i = 1 then Some r else None)"
| "child i (OrOp l r) = (if i = 0 then Some l else if i = 1 then Some r else None)"
| "child i (NotOp e) = (if i = 0 then Some e else None)"
| "child i (CompOp _ l r) = (if i = 0 then Some l else if i = 1 then Some r else None)"
| "child i (RangeOp l f t) = (if i = 0 then Some l else if i = 1 then Some f else if i = 2 then Some t else None)"
| "child i (SqlFuncFrame e) = (if i = 0 then Some e else None)"
| "child i (SqlFuncCall e) = (if i = 0 then Some e else None)"
| "child i _ = None"

text \<open>The object that a path names in a clause.\<close>

fun node_of :: "SqlAny \<Rightarrow> path \<Rightarrow> SqlAny option" where
  "node_of root [] = Some root"
| "node_of root (i # \<pi>) = (case node_of root \<pi> of None \<Rightarrow> None | Some e \<Rightarrow> child i e)"

definition good :: "SqlAny \<Rightarrow> sql_state \<Rightarrow> bool" where
  "good root s \<longleftrightarrow> (\<forall>\<pi> f g. node_of root \<pi> = Some (SqlField f) \<longrightarrow> st_getter s \<pi> = Some g \<longrightarrow> row_Field (st_row s) f = Inr g)"

definition caches_ok :: "sql_libs \<Rightarrow> SqlAny \<Rightarrow> sql_state \<Rightarrow> bool" where
  "caches_ok L root s \<longleftrightarrow> (\<forall>\<pi> op l r c. node_of root \<pi> = Some (CompOp op l r) \<longrightarrow> st_compare s \<pi> = Some c \<longrightarrow> static_compare L op l r = Inr c)"

fun covered :: "SqlAny \<Rightarrow> path \<Rightarrow> path set \<Rightarrow> path set \<Rightarrow> bool" where
  "covered (SqlField f) \<pi> D F = (\<pi> \<in> D)"
| "covered (AndOp l r) \<pi> D F = (covered l (0 # \<pi>) D F \<and> covered r (1 # \<pi>) D F)"
| "covered (OrOp l r) \<pi> D F = (covered l (0 # \<pi>) D F \<and> covered r (1 # \<pi>) D F)"
| "covered (NotOp e) \<pi> D F = covered e (0 # \<pi>) D F"
| "covered (CompOp _ l r) \<pi> D F = (covered l (0 # \<pi>) D F \<and> covered r (1 # \<pi>) D F)"
| "covered (RangeOp l f t) \<pi> D F = (covered l (0 # \<pi>) D F \<and> covered f (1 # \<pi>) D F \<and> covered t (2 # \<pi>) D F)"
| "covered (SqlFuncFrame e) \<pi> D F = (\<pi> \<in> F \<and> covered e (0 # \<pi>) D F)"
| "covered (SqlFuncCall e) \<pi> D F = covered e (0 # \<pi>) D F"
| "covered _ \<pi> D F = True"

lemma covered_mono: "covered e \<pi> D F \<Longrightarrow> D \<subseteq> D' \<Longrightarrow> F \<subseteq> F' \<Longrightarrow> covered e \<pi> D' F'"
  by (induction e \<pi> D F rule: covered.induct) auto

text \<open>What \<open>WithRow\<close> leaves alone, and what it grows.\<close>

definition grows :: "sql_state \<Rightarrow> sql_state \<Rightarrow> bool" where
  "grows s s' \<longleftrightarrow> dom (st_getter s) \<subseteq> dom (st_getter s') \<and> st_frame s \<subseteq> st_frame s' \<and> st_row s' = st_row s \<and> st_compare s' = st_compare s"

lemma grows_trans: "grows s t \<Longrightarrow> grows t u \<Longrightarrow> grows s u"
  by (auto simp: grows_def)

lemma grows_covered: "grows s s' \<Longrightarrow> covered e \<pi> (dom (st_getter s)) (st_frame s) \<Longrightarrow> covered e \<pi> (dom (st_getter s')) (st_frame s')"
  using covered_mono by (auto simp: grows_def)

lemma bind_frame_grows:
  "bind_frame \<pi> s = Inr s' \<Longrightarrow> grows s s' \<and> \<pi> \<in> st_frame s' \<and> (good root s \<longrightarrow> good root s')"
  by (auto simp: bind_frame_def grows_def good_def split: SqlRow.splits)

definition binds :: "SqlAny \<Rightarrow> SqlAny \<Rightarrow> path \<Rightarrow> sql_state \<Rightarrow> sql_state \<Rightarrow> bool" where
  "binds root e \<pi> s s' \<longleftrightarrow> grows s s' \<and> good root s' \<and> covered e \<pi> (dom (st_getter s')) (st_frame s')"

lemma binds_two:
  "binds root l \<pi> s t \<Longrightarrow> binds root r \<rho> t u \<Longrightarrow>
   grows s u \<and> good root u \<and> covered l \<pi> (dom (st_getter u)) (st_frame u) \<and> covered r \<rho> (dom (st_getter u)) (st_frame u)"
  using grows_trans[of s t u] grows_covered[of t u l \<pi>] by (simp add: binds_def)

lemma WithRow_binds:
  "any_WithRow e \<pi> s = Inr s' \<Longrightarrow> node_of root \<pi> = Some e \<Longrightarrow> good root s \<Longrightarrow> binds root e \<pi> s s'"
proof (induction e arbitrary: \<pi> s s')
  case (SqlField f)
  then show ?case by (auto simp: binds_def go_bind_eq_Inr grows_def good_def split: if_splits)
next
  case (AndOp l r)
  then obtain t where t: "any_WithRow l (0 # \<pi>) s = Inr t" "any_WithRow r (1 # \<pi>) t = Inr s'" by (auto simp: go_bind_eq_Inr)
  have 1: "binds root l (0 # \<pi>) s t" using AndOp.IH(1)[OF t(1)] AndOp.prems by simp
  have 2: "binds root r (1 # \<pi>) t s'" using AndOp.IH(2)[OF t(2)] AndOp.prems 1 by (simp add: binds_def)
  show ?case using binds_two[OF 1 2] by (simp add: binds_def)
next
  case (OrOp l r)
  then obtain t where t: "any_WithRow l (0 # \<pi>) s = Inr t" "any_WithRow r (1 # \<pi>) t = Inr s'" by (auto simp: go_bind_eq_Inr)
  have 1: "binds root l (0 # \<pi>) s t" using OrOp.IH(1)[OF t(1)] OrOp.prems by simp
  have 2: "binds root r (1 # \<pi>) t s'" using OrOp.IH(2)[OF t(2)] OrOp.prems 1 by (simp add: binds_def)
  show ?case using binds_two[OF 1 2] by (simp add: binds_def)
next
  case (CompOp op l r)
  then obtain t where t: "any_WithRow l (0 # \<pi>) s = Inr t" "any_WithRow r (1 # \<pi>) t = Inr s'" by (auto simp: go_bind_eq_Inr)
  have 1: "binds root l (0 # \<pi>) s t" using CompOp.IH(1)[OF t(1)] CompOp.prems by simp
  have 2: "binds root r (1 # \<pi>) t s'" using CompOp.IH(2)[OF t(2)] CompOp.prems 1 by (simp add: binds_def)
  show ?case using binds_two[OF 1 2] by (simp add: binds_def)
next
  case (RangeOp l f r)
  then obtain t u where t: "any_WithRow l (0 # \<pi>) s = Inr t" "any_WithRow f (1 # \<pi>) t = Inr u" "any_WithRow r (2 # \<pi>) u = Inr s'"
    by (auto simp: go_bind_eq_Inr)
  have 1: "binds root l (0 # \<pi>) s t" using RangeOp.IH(1)[OF t(1)] RangeOp.prems by simp
  have 2: "binds root f (1 # \<pi>) t u" using RangeOp.IH(2)[OF t(2)] RangeOp.prems 1 by (simp add: binds_def)
  have 3: "binds root r (2 # \<pi>) u s'" using RangeOp.IH(3)[OF t(3)] RangeOp.prems 2 by (simp add: binds_def)
  show ?case using 1 2 3 grows_trans[of t u s'] grows_trans[of s t s'] grows_covered[of t s'] grows_covered[of u s'] by (simp add: binds_def)
next
  case (SqlFuncFrame e)
  then obtain t where t: "bind_frame \<pi> s = Inr t" "any_WithRow e (0 # \<pi>) t = Inr s'" by (auto simp: go_bind_eq_Inr)
  note b = bind_frame_grows[OF t(1), of root]
  have "binds root e (0 # \<pi>) t s'" using SqlFuncFrame.IH[OF t(2)] SqlFuncFrame.prems b by simp
  then show ?case using b grows_trans[of s t s'] by (auto simp: binds_def grows_def)
next
  case (SqlFuncCall e)
  then obtain t where t: "bind_frame \<pi> s = Inr t" "any_WithRow e (0 # \<pi>) t = Inr s'" by (auto simp: go_bind_eq_Inr)
  note b = bind_frame_grows[OF t(1), of root]
  have "binds root e (0 # \<pi>) t s'" using SqlFuncCall.IH[OF t(2)] SqlFuncCall.prems b by simp
  then show ?case using b grows_trans[of s t s'] by (auto simp: binds_def)
qed (auto simp: binds_def grows_def)

lemma get_field_read:
  assumes "good root s" "node_of root \<pi> = Some (SqlField f)" "\<pi> \<in> dom (st_getter s)"
  shows "get_field \<pi> s = read_field (st_row s) f"
  using assms by (auto simp: get_field_def read_field_def good_def)


text \<open>Rows that differ in the offset only.\<close>

definition same_row :: "SqlRow \<Rightarrow> SqlRow \<Rightarrow> bool" where
  "same_row r r' \<longleftrightarrow> at_offset 0 r = at_offset 0 r'"

lemma same_row_refl [simp]: "same_row r r" "same_row r (at_offset i r)"
  by (auto simp: same_row_def at_offset_def FuncLogRow_SetOffset_def split: SqlRow.splits)

lemma same_row_trans: "same_row r s \<Longrightarrow> same_row s t \<Longrightarrow> same_row r t"
  by (simp add: same_row_def)

lemma same_row_cases:
  assumes "same_row r r'"
  shows "r = r' \<or> (\<exists>x i j. r = FuncLogRow (x\<lparr>fr_offset := i\<rparr>) \<and> r' = FuncLogRow (x\<lparr>fr_offset := j\<rparr>))"
proof (cases r)
  case (FuncLogRow x)
  then obtain y where y: "r' = FuncLogRow y" "x\<lparr>fr_offset := 0\<rparr> = y\<lparr>fr_offset := 0\<rparr>"
    using assms by (cases r') (auto simp: same_row_def at_offset_def FuncLogRow_SetOffset_def)
  have "x = x\<lparr>fr_offset := fr_offset x\<rparr>" "y = x\<lparr>fr_offset := fr_offset y\<rparr>"
    using y(2) by (auto intro: SqlFuncLogRow.equality) (metis SqlFuncLogRow.surjective SqlFuncLogRow.update_convs(3))
  then show ?thesis using FuncLogRow y(1) by metis
qed (use assms in \<open>auto simp: same_row_def at_offset_def split: SqlRow.splits\<close>)

lemma at_offset_same: "same_row r r' \<Longrightarrow> at_offset i r = at_offset i r'"
  by (drule same_row_cases) (auto simp: at_offset_def FuncLogRow_SetOffset_def)

lemma frames_same: "same_row r r' \<Longrightarrow> frames_of r = frames_of r'"
  by (drule same_row_cases) (auto simp: frames_of_def FuncLogRow_MaxOffset_def)

lemma row_Field_same: "same_row r r' \<Longrightarrow> row_Field r f = row_Field r' f"
  by (drule same_row_cases) (auto simp: row_Field_def)

lemma read_same:
  assumes "same_row r r'" "f_Table f \<noteq> ''frames''"
  shows "read_field r f = read_field r' f"
  using same_row_cases[OF assms(1)] assms(2)
  by (auto simp: read_field_def row_Field_def FuncLogRow_Field_def Let_def)

lemma e_same:
  assumes "same_row r r'" "field_ok False e"
  shows "e_type e r = e_type e r'" "e_int e r = e_int e r'" "e_str e r = e_str e r'"
  using assms read_same[OF assms(1)] by (auto simp: field_ok_def e_type_def e_int_def e_str_def split: SqlAny.splits)

lemma steady_field_ok: "steady inner e \<Longrightarrow> field_ok inner e"
  by (cases e) (auto simp: field_ok_def)

lemma meaning_same: "steady False e \<Longrightarrow> same_row r r' \<Longrightarrow> meaning e L r = meaning e L r'"
proof (induction e)
  case (SqlField f)
  then show ?case using read_same by (simp add: field_ok_def)
next
  case (CompOp op l r)
  then show ?case using e_same[OF CompOp.prems(2) steady_field_ok] by (simp cong: if_cong)
next
  case (RangeOp l f t)
  then show ?case using e_same[OF RangeOp.prems(2)] by simp
next
  case (SqlFuncFrame e)
  then show ?case using at_offset_same frames_same by simp
qed simp_all

text \<open>The invariant of evaluation and what an evaluation may change.\<close>

definition eval_inv :: "sql_libs \<Rightarrow> SqlAny \<Rightarrow> sql_state \<Rightarrow> bool" where
  "eval_inv L root s \<longleftrightarrow> good root s \<and> caches_ok L root s"

definition later :: "sql_libs \<Rightarrow> SqlAny \<Rightarrow> bool \<Rightarrow> sql_state \<Rightarrow> sql_state \<Rightarrow> bool" where
  "later L root inner s s' \<longleftrightarrow> st_getter s' = st_getter s \<and> st_frame s' = st_frame s \<and> eval_inv L root s' \<and>
     same_row (st_row s) (st_row s') \<and> (inner \<longrightarrow> st_row s' = st_row s)"

definition evals :: "sql_libs \<Rightarrow> SqlAny \<Rightarrow> bool \<Rightarrow> sql_state \<Rightarrow> (bool \<times> sql_state) go \<Rightarrow> bool go \<Rightarrow> bool" where
  "evals L root inner s A M \<longleftrightarrow>
     (case M of Inl f \<Rightarrow> A = Inl f | Inr b \<Rightarrow> \<exists>s'. A = Inr (b, s') \<and> later L root inner s s')"

lemma later_refl: "eval_inv L root s \<Longrightarrow> later L root inner s s"
  by (simp add: later_def)

lemma later_trans: "later L root inner s t \<Longrightarrow> later L root inner t u \<Longrightarrow> later L root inner s u"
  using same_row_trans by (auto simp: later_def)

lemma later_inv: "later L root inner s t \<Longrightarrow> eval_inv L root t"
  by (simp add: later_def)

lemma evals_pure: "eval_inv L root s \<Longrightarrow> evals L root inner s (go_bind M (\<lambda>b. Inr (b, s))) M"
  by (cases M) (auto simp: evals_def later_refl)

lemma evals_later:
  assumes "later L root inner s t" "evals L root inner t A M"
  shows "evals L root inner s A M"
  using assms later_trans by (fastforce simp: evals_def split: sum.splits)

lemma evals_bind:
  assumes "evals L root inner s A M" "\<And>b t. later L root inner s t \<Longrightarrow> evals L root inner t (K b t) (N b)"
  shows "evals L root inner s (go_bind A (\<lambda>(b, t). K b t)) (go_bind M N)"
proof (cases M)
  case (Inl f)
  then show ?thesis using assms(1) by (simp add: evals_def)
next
  case (Inr b)
  then obtain t where "A = Inr (b, t)" "later L root inner s t" using assms(1) by (auto simp: evals_def)
  then show ?thesis using Inr evals_later assms(2) by simp
qed

lemma evals_two:
  assumes "evals L root inner s (any_Bool l L \<pi> s) (meaning l L (st_row s))"
    "\<And>t. later L root inner s t \<Longrightarrow> evals L root inner t (any_Bool r L \<rho> t) (meaning r L (st_row t))"
    "steady inner r"
  shows "evals L root inner s (go_bind (any_Bool l L \<pi> s) (\<lambda>(x, t). go_bind (any_Bool r L \<rho> t) (\<lambda>(y, u). Inr (F x y, u))))
    (go_bind (meaning l L (st_row s)) (\<lambda>x. go_bind (meaning r L (st_row s)) (\<lambda>y. Inr (F x y))))"
proof (rule evals_bind[OF assms(1)])
  fix x t assume t: "later L root inner s t"
  have "meaning r L (st_row t) = meaning r L (st_row s)"
    using t assms(3) meaning_same[of r "st_row s" "st_row t" L] by (cases inner) (auto simp: later_def)
  then have "evals L root inner t (any_Bool r L \<rho> t) (meaning r L (st_row s))" using assms(2)[OF t] by simp
  then show "evals L root inner t (go_bind (any_Bool r L \<rho> t) (\<lambda>(y, u). Inr (F x y, u))) (go_bind (meaning r L (st_row s)) (\<lambda>y. Inr (F x y)))"
    by (rule evals_bind) (auto simp: evals_def intro: later_refl later_inv)
qed

text \<open>Operands are read as the meaning reads them.\<close>

lemma operands:
  assumes "eval_inv L root s" "node_of root \<pi> = Some e" "covered e \<pi> (dom (st_getter s)) (st_frame s)"
  shows "any_Type e \<pi> s = e_type e (st_row s)" "any_BigInt e \<pi> s = e_int e (st_row s)" "any_String e \<pi> s = e_str e (st_row s)"
proof -
  have "get_field \<pi> s = read_field (st_row s) f" if "e = SqlField f" for f
    using get_field_read[of root s \<pi> f] assms that by (simp add: eval_inv_def)
  then show "any_Type e \<pi> s = e_type e (st_row s)" "any_BigInt e \<pi> s = e_int e (st_row s)" "any_String e \<pi> s = e_str e (st_row s)"
    by (cases e; simp add: e_type_def any_BigInt_def e_int_def any_String_def e_str_def own_type_def)+
qed


lemma later_covered:
  "later L root inner s t \<Longrightarrow> covered e \<pi> (dom (st_getter s)) (st_frame s) \<Longrightarrow> covered e \<pi> (dom (st_getter t)) (st_frame t)"
  by (simp add: later_def)

lemma frame_loop_evals:
  assumes "\<And>t i. later L root False s t \<Longrightarrow> evals L root True (set_offset i t) (body (set_offset i t)) (P i)" "later L root False s t"
  shows "evals L root False s (frame_loop body is t) (some_true P is)"
  using assms(2)
proof (induction "is" arbitrary: t)
  case Nil
  then show ?case by (simp add: evals_def)
next
  case (Cons i "is")
  note b = assms(1)[OF Cons.prems, of i]
  show ?case
  proof (cases "P i")
    case (Inl f)
    then show ?thesis using b by (simp add: evals_def)
  next
    case (Inr x)
    then obtain u where u: "body (set_offset i t) = Inr (x, u)" "later L root True (set_offset i t) u" using b by (auto simp: evals_def)
    have "st_row (set_offset i t) = at_offset i (st_row t)" by (simp add: set_offset_def at_offset_def)
    then have "later L root False t u" using u(2) by (simp add: later_def set_offset_def)
    then have "later L root False s u" using later_trans Cons.prems by blast
    then show ?thesis using Cons.IH u(1) Inr by (simp add: evals_def)
  qed
qed

lemma set_offset_inv: "eval_inv L root t \<Longrightarrow> eval_inv L root (set_offset i t)"
  using row_Field_same[OF same_row_refl(2)]
  by (auto simp: eval_inv_def good_def caches_ok_def set_offset_def at_offset_def[symmetric])

lemma stage_two:
  assumes "static_compare L op l r = Inr c" "eval_inv L root s" "steady inner r"
    "node_of root (0 # \<pi>) = Some l" "node_of root (1 # \<pi>) = Some r"
    "covered l (0 # \<pi>) (dom (st_getter s)) (st_frame s)" "covered r (1 # \<pi>) (dom (st_getter s)) (st_frame s)"
    "evals L root inner s (any_Bool l L (0 # \<pi>) s) (meaning l L (st_row s))"
    "\<And>t. later L root inner s t \<Longrightarrow> evals L root inner t (any_Bool r L (1 # \<pi>) t) (meaning r L (st_row t))"
  shows "evals L root inner s
    (if c = BoolEq \<or> c = BoolNe
     then go_bind (any_Bool l L (0 # \<pi>) s) (\<lambda>(x, s). go_bind (any_Bool r L (1 # \<pi>) s) (\<lambda>(y, s). Inr ((c = BoolEq) = (x = y), s)))
     else go_bind (pure_compare L c (any_BigInt l (0 # \<pi>) s) (any_BigInt r (1 # \<pi>) s)
         (any_String l (0 # \<pi>) s) (any_String r (1 # \<pi>) s)) (\<lambda>b. Inr (b, s)))
    (run_compare L c (meaning l L (st_row s)) (meaning r L (st_row s)) l r (st_row s))"
proof (cases "c = BoolEq \<or> c = BoolNe")
  case True
  then show ?thesis
    using evals_two[OF assms(8,9,3), of "\<lambda>x y. (c = BoolEq) = (x = y)"] by (simp add: run_compare_def)
next
  case False
  then show ?thesis
    using operands[OF assms(2,4,6)] operands[OF assms(2,5,7)] evals_pure[OF assms(2)] by (simp add: run_compare_def)
qed

lemma cache_later:
  assumes "eval_inv L root s" "node_of root \<pi> = Some (CompOp op l r)" "static_compare L op l r = Inr c"
  shows "later L root inner s (s\<lparr>st_compare := (st_compare s)(\<pi> \<mapsto> c)\<rparr>)"
  using assms by (auto simp: later_def eval_inv_def good_def caches_ok_def)

lemma Bool_meaning:
  assumes "node_of root \<pi> = Some e" "covered e \<pi> (dom (st_getter s)) (st_frame s)" "eval_inv L root s" "steady inner e"
  shows "evals L root inner s (any_Bool e L \<pi> s) (meaning e L (st_row s))"
  using assms
proof (induction e arbitrary: \<pi> s inner)
  case (Const v)
  then show ?case using evals_pure by simp
next
  case (SqlField f)
  have "get_field \<pi> s = read_field (st_row s) f" using get_field_read[of root s \<pi> f] SqlField.prems by (simp add: eval_inv_def)
  then show ?case using evals_pure[OF SqlField.prems(3), of inner "go_bind (read_field (st_row s) f) val_Bool"] by (simp add: go_bind_assoc)
next
  case (AndOp l r)
  have 1: "evals L root inner s (any_Bool l L (0 # \<pi>) s) (meaning l L (st_row s))"
    using AndOp.prems by (intro AndOp.IH(1)) auto
  have 2: "evals L root inner t (any_Bool r L (1 # \<pi>) t) (meaning r L (st_row t))" if "later L root inner s t" for t
    using AndOp.prems later_covered[OF that] later_inv[OF that] by (intro AndOp.IH(2)) auto
  show ?case using evals_two[OF 1 2, of "\<lambda>x y. x \<and> y"] AndOp.prems by simp
next
  case (OrOp l r)
  have 1: "evals L root inner s (any_Bool l L (0 # \<pi>) s) (meaning l L (st_row s))"
    using OrOp.prems by (intro OrOp.IH(1)) auto
  have 2: "evals L root inner t (any_Bool r L (1 # \<pi>) t) (meaning r L (st_row t))" if "later L root inner s t" for t
    using OrOp.prems later_covered[OF that] later_inv[OF that] by (intro OrOp.IH(2)) auto
  show ?case using evals_two[OF 1 2, of "\<lambda>x y. x \<or> y"] OrOp.prems by simp
next
  case (NotOp e)
  have "evals L root inner s (any_Bool e L (0 # \<pi>) s) (meaning e L (st_row s))"
    using NotOp.prems by (intro NotOp.IH) auto
  then have "evals L root inner s (go_bind (any_Bool e L (0 # \<pi>) s) (\<lambda>(x, t). Inr (\<not> x, t))) (go_bind (meaning e L (st_row s)) (\<lambda>x. Inr (\<not> x)))"
    by (rule evals_bind) (auto simp: evals_def intro: later_refl later_inv)
  then show ?case by simp
next
  case (CompOp op l r)
  have nodes: "node_of root (0 # \<pi>) = Some l" "node_of root (1 # \<pi>) = Some r" using CompOp.prems(1) by auto
  have pat: "pattern_op op \<longrightarrow> is_const r" using CompOp.prems(4) by simp
  have two: "evals L root inner s
      (if c = BoolEq \<or> c = BoolNe
       then go_bind (any_Bool l L (0 # \<pi>) t) (\<lambda>(x, s). go_bind (any_Bool r L (1 # \<pi>) s) (\<lambda>(y, s). Inr ((c = BoolEq) = (x = y), s)))
       else go_bind (pure_compare L c (any_BigInt l (0 # \<pi>) t) (any_BigInt r (1 # \<pi>) t)
           (any_String l (0 # \<pi>) t) (any_String r (1 # \<pi>) t)) (\<lambda>b. Inr (b, t)))
      (meaning (CompOp op l r) L (st_row t))"
    if t: "later L root inner s t" and c: "static_compare L op l r = Inr c" for c t
  proof -
    note cov = later_covered[OF t, OF CompOp.prems(2)] and inv = later_inv[OF t]
    have 1: "evals L root inner t (any_Bool l L (0 # \<pi>) t) (meaning l L (st_row t))"
      using CompOp.prems cov inv nodes by (intro CompOp.IH(1)) auto
    have 2: "evals L root inner u (any_Bool r L (1 # \<pi>) u) (meaning r L (st_row u))" if "later L root inner t u" for u
      using CompOp.prems later_covered[OF that cov] later_inv[OF that] nodes by (intro CompOp.IH(2)) auto
    show ?thesis unfolding compare_steady[OF c pat]
      by (rule evals_later[OF t], rule stage_two[OF c inv _ nodes _ _ 1 2]) (use CompOp.prems cov in auto)
  qed
  show ?case
  proof (cases "st_compare s \<pi>")
    case (Some c)
    then have "static_compare L op l r = Inr c" using CompOp.prems(1,3) by (auto simp: eval_inv_def caches_ok_def)
    then show ?thesis using two[OF later_refl[OF CompOp.prems(3)]] Some by (simp del: meaning.simps)
  next
    case None
    have cf: "compareFn L op l r \<pi> s = choose_compare L op (e_type l (st_row s)) (e_type r (st_row s)) (e_str r (st_row s))"
      using operands[OF CompOp.prems(3) nodes(1)] operands[OF CompOp.prems(3) nodes(2)] CompOp.prems(2) by (simp add: compareFn_def)
    show ?thesis
    proof (cases "compareFn L op l r \<pi> s")
      case (Inl f)
      then show ?thesis using None cf by (simp add: evals_def)
    next
      case (Inr c)
      then have c: "static_compare L op l r = Inr c" using choose_Inr_static[OF _ pat] cf by simp
      show ?thesis using two[OF cache_later[OF CompOp.prems(3,1) c] c] None Inr by (simp del: meaning.simps)
    qed
  qed
next
  case (RangeOp l f t)
  have n: "node_of root (0 # \<pi>) = Some l" "node_of root (1 # \<pi>) = Some f" "node_of root (2 # \<pi>) = Some t" using RangeOp.prems(1) by auto
  note o = operands(2)[OF RangeOp.prems(3) n(1)] operands(2)[OF RangeOp.prems(3) n(2)] operands(2)[OF RangeOp.prems(3) n(3)]
  show ?case using o RangeOp.prems(2) evals_pure[OF RangeOp.prems(3), of inner "meaning (RangeOp l f t) L (st_row s)"]
    by (simp add: go_bind_assoc)
next
  case (SqlFuncFrame e)
  have body: "evals L root True (set_offset i t) (any_Bool e L (0 # \<pi>) (set_offset i t)) (meaning e L (at_offset i (st_row s)))"
    if t: "later L root False s t" for t i
  proof -
    have "st_row (set_offset i t) = at_offset i (st_row s)"
      using t at_offset_same[of "st_row s" "st_row t" i] by (simp add: later_def set_offset_def at_offset_def)
    moreover have "covered e (0 # \<pi>) (dom (st_getter (set_offset i t))) (st_frame (set_offset i t))"
      using later_covered[OF t] SqlFuncFrame.prems(2) t by (simp add: set_offset_def later_def)
    ultimately show ?thesis
      using SqlFuncFrame.IH[of "0 # \<pi>" "set_offset i t" True] SqlFuncFrame.prems set_offset_inv[OF later_inv[OF t]] by simp
  qed
  have "max_offset s = frames_of (st_row s)" by (simp add: max_offset_def frames_of_def)
  then show ?case
    using frame_loop_evals[where P = "\<lambda>i. meaning e L (at_offset i (st_row s))" and body = "any_Bool e L (0 # \<pi>)",
        OF body later_refl[OF SqlFuncFrame.prems(3)]] SqlFuncFrame.prems(2,4)
    by (cases inner) auto
next
  case (SqlFuncCall e)
  then show ?case using SqlFuncCall.IH[of "0 # \<pi>" s inner] by simp
qed (simp_all add: evals_def)


subsection \<open>Properties\<close>

text \<open>
  A query evaluates its clause once per row, on one row object whose content the caller replaces by
  \<open>load old new\<close>, which may keep the offset that the last evaluation left.
\<close>

fun where_run :: "sql_libs \<Rightarrow> SqlAny \<Rightarrow> (SqlRow \<Rightarrow> SqlRow \<Rightarrow> SqlRow) \<Rightarrow> sql_state \<Rightarrow> SqlRow list \<Rightarrow> bool list go" where
  "where_run L e load s [] = Inr []"
| "where_run L e load s (row # rows) =
     go_bind (any_Bool e L [] (s\<lparr>st_row := load (st_row s) row\<rparr>)) (\<lambda>(b, s).
     go_bind (where_run L e load s rows) (\<lambda>bs. Inr (b # bs)))"

fun meaning_run :: "sql_libs \<Rightarrow> SqlAny \<Rightarrow> SqlRow list \<Rightarrow> bool list go" where
  "meaning_run L e [] = Inr []"
| "meaning_run L e (row # rows) = go_bind (meaning e L row) (\<lambda>b. go_bind (meaning_run L e rows) (\<lambda>bs. Inr (b # bs)))"

definition same_kind :: "SqlRow \<Rightarrow> SqlRow \<Rightarrow> bool" where
  "same_kind r r' = (case (r, r') of (FuncLogRow _, FuncLogRow _) \<Rightarrow> True | (GoroutineRow _, GoroutineRow _) \<Rightarrow> True
     | (GoFuncRow _, GoFuncRow _) \<Rightarrow> True | (GoModuleRow _, GoModuleRow _) \<Rightarrow> True | _ \<Rightarrow> False)"

lemma row_Field_kind: "same_kind r r' \<Longrightarrow> row_Field r = row_Field r'"
  by (cases r; cases r') (simp_all add: same_kind_def row_Field_def[abs_def])

lemma same_row_kind: "same_row r r' \<Longrightarrow> same_kind x r = same_kind x r'"
  by (drule same_row_cases) (auto simp: same_kind_def split: SqlRow.splits)

lemma same_kind_trans: "same_kind r s \<Longrightarrow> same_kind r t \<Longrightarrow> same_kind s t"
  by (cases r; cases s; cases t) (simp_all add: same_kind_def)

definition loads :: "bool \<Rightarrow> (SqlRow \<Rightarrow> SqlRow \<Rightarrow> SqlRow) \<Rightarrow> bool" where
  "loads inner load \<longleftrightarrow> (\<forall>old row. same_row row (load old row) \<and> (inner \<longrightarrow> load old row = row))"

lemma where_run_meaning:
  assumes "steady inner e" "loads inner load" "eval_inv L e s" "covered e [] (dom (st_getter s)) (st_frame s)"
    "list_all (same_kind (st_row s)) rows"
  shows "where_run L e load s rows = meaning_run L e rows"
  using assms(3-5)
proof (induction rows arbitrary: s)
  case (Cons row rows)
  let ?s = "s\<lparr>st_row := load (st_row s) row\<rparr>"
  have l: "same_row row (load (st_row s) row)" "inner \<longrightarrow> load (st_row s) row = row" using assms(2) by (auto simp: loads_def)
  have k: "same_kind (st_row s) (load (st_row s) row)" using Cons.prems(3) same_row_kind[OF l(1)] by simp
  have "eval_inv L e ?s" using Cons.prems(1) row_Field_kind[OF k] by (simp add: eval_inv_def good_def caches_ok_def)
  then have "evals L e inner ?s (any_Bool e L [] ?s) (meaning e L (load (st_row s) row))"
    using Bool_meaning[of e "[]" e ?s L inner] assms(1) Cons.prems(2) by simp
  moreover have "meaning e L (load (st_row s) row) = meaning e L row"
    using l assms(1) meaning_same[of e row "load (st_row s) row" L] by (cases inner) auto
  ultimately have ev: "evals L e inner ?s (any_Bool e L [] ?s) (meaning e L row)" by simp
  show ?case
  proof (cases "meaning e L row")
    case (Inl f)
    then show ?thesis using ev by (simp add: evals_def)
  next
    case (Inr b)
    then obtain t where t: "any_Bool e L [] ?s = Inr (b, t)" "later L e inner ?s t" using ev by (auto simp: evals_def)
    have "list_all (same_kind (st_row t)) rows"
    proof -
      have "same_kind (st_row s) (st_row t)" using k t(2) same_row_kind[of "st_row ?s" "st_row t"] by (simp add: later_def)
      then show ?thesis using Cons.prems(3) same_kind_trans[of "st_row s" "st_row t"] by (simp add: list_all_iff)
    qed
    then have "where_run L e load t rows = meaning_run L e rows"
      using t(2) Cons.prems(2) by (intro Cons.IH) (auto simp: later_def)
    then show ?thesis using t(1) Inr by simp
  qed
qed simp


definition sample_row :: "GID \<Rightarrow> int \<Rightarrow> SqlRow" where
  "sample_row gid off = FuncLogRow \<lparr>fr_FuncLog = \<lparr>fl_ID = 1, fl_StartTime = 2, fl_EndTime = 9, fl_ParentID = 0, fl_Frames = [16, 32], fl_GID = gid\<rparr>,
     fr_Symbols = \<lparr>sym_Writable = False, sym_data = zero_SymbolsData\<rparr>, fr_offset = off\<rparr>"

definition sample_libs :: sql_libs where
  "sample_libs = \<lparr>lib_glob = (\<lambda>p s. p = s), lib_regexp = (\<lambda>p. Some (\<lambda>s. s = p)), lib_now = 5\<rparr>"

definition sample_where :: SqlAny where
  "sample_where = AndOp (CompOp GreaterThanStr (SqlField \<lparr>f_Table = ''calls'', f_Name = ''gid'', f_AliasName = []\<rparr>) (Const (SqlBigInt 3)))
     (SqlFuncFrame (CompOp EqualStr (SqlField \<lparr>f_Table = ''frames'', f_Name = ''pc'', f_AliasName = []\<rparr>) (Const (SqlBigInt 32))))"


text \<open>
  A pattern that is a column sticks to the first row. \<open>CompOp\<close> remembers the pattern of \<open>LIKE\<close> with the
  comparison, so that on every later row the left column is matched against the right column of the first
  row, whatever the right column holds there.
\<close>

theorem Like_keeps_first_pattern:
  assumes "any_WithRow (CompOp LikeStr (SqlField f) (SqlField g)) [] (new_state row) = Inr s" "same_kind row row2"
    "read_field row f = Inr (SqlString x)" "read_field row g = Inr (SqlString p)" "read_field row2 f = Inr (SqlString y)"
  shows "where_run L (CompOp LikeStr (SqlField f) (SqlField g)) (\<lambda>old new. new) s [row, row2] =
    Inr [lib_glob L (sqlPattern2glob p) (bytes_of_string x), lib_glob L (sqlPattern2glob p) (bytes_of_string y)]"
proof -
  obtain a b where g: "row_Field row f = Inr a" "row_Field row g = Inr b"
    "s = \<lparr>st_getter = [[0] \<mapsto> a, [1] \<mapsto> b], st_compare = Map.empty, st_frame = {}, st_row = row\<rparr>"
    using assms(1) by (auto simp: new_state_def go_bind_eq_Inr)
  have r: "a row = Inr (SqlString x)" "b row = Inr (SqlString p)" "a row2 = Inr (SqlString y)"
    using assms(3-5) g(1,2) row_Field_kind[OF assms(2)] by (auto simp: read_field_def)
  show ?thesis using r
    by (simp add: g(3) compareFn_def choose_compare_def get_field_def val_Type_def any_String_def val_String_def str_compare_def pure_compare_def)
qed

theorem Like_keeps_first_pattern_witness:
  "\<exists>s f g row row2. any_WithRow (CompOp LikeStr (SqlField f) (SqlField g)) [] (new_state row) = Inr s \<and>
    where_run sample_libs (CompOp LikeStr (SqlField f) (SqlField g)) (\<lambda>old new. new) s [row, row2] =
      Inr [lib_glob sample_libs (sqlPattern2glob ''a'') (bytes_of_string ''a''), lib_glob sample_libs (sqlPattern2glob ''a'') (bytes_of_string ''b'')] \<and>
    read_field row2 g = Inr (SqlString ''b'')"
proof -
  let ?f = "\<lparr>f_Table = ''modules'', f_Name = ''module'', f_AliasName = []\<rparr>"
  let ?row = "\<lambda>n. GoModuleRow \<lparr>gm_Name = n, gm_MinPC = 0, gm_MaxPC = 1\<rparr>"
  have rf: "row_Field (?row n) ?f = Inr (\<lambda>r. case r of GoModuleRow m \<Rightarrow> Inr (SqlString (gm_Name m)) | _ \<Rightarrow> Inl NilDereference)" for n
    by (simp add: row_Field_def GoModuleRow_Field_def Let_def)
  then have rd: "read_field (?row n) ?f = Inr (SqlString n)" for n by (simp add: read_field_def)
  obtain s where s: "any_WithRow (CompOp LikeStr (SqlField ?f) (SqlField ?f)) [] (new_state (?row ''a'')) = Inr s"
    using rf[of "''a''"] by (simp add: new_state_def)
  have "same_kind (?row ''a'') (?row ''b'')" by (simp add: same_kind_def)
  from Like_keeps_first_pattern[OF s this rd rd rd, of sample_libs] s rd show ?thesis by blast
qed

text \<open>
  Dates cannot be compared. A comparison whose left side is a column of type datetime, with any operator and
  any right side, panics on the first row it is evaluated on (so do the time functions as operands): no
  operator is defined for the type.
\<close>

theorem Datetime_comparison_panics:
  assumes "any_WithRow (CompOp op (SqlField f) r) [] (new_state row) = Inr s" "read_field row f = Inr (SqlDatetime t)"
  shows "\<exists>x. any_Bool (CompOp op (SqlField f) r) L [] s = Inl x"
proof -
  have b: "binds (CompOp op (SqlField f) r) (CompOp op (SqlField f) r) [] (new_state row) s"
    using WithRow_binds[OF assms(1)] by (simp add: good_def new_state_def)
  then have c: "st_row s = row" "st_compare s [] = None" "[0] \<in> dom (st_getter s)" "good (CompOp op (SqlField f) r) s"
    by (auto simp: binds_def grows_def new_state_def)
  then have "get_field [0] s = Inr (SqlDatetime t)" using get_field_read[OF c(4), of "[0]" f] assms(2) by simp
  then have "\<exists>x. compareFn L op (SqlField f) r [] s = Inl x"
    by (cases "any_Type r [1] s") (auto simp: compareFn_def choose_compare_def val_Type_def)
  then show ?thesis using c(2) by auto
qed

theorem Datetime_comparison_panics_witness:
  "\<exists>s x. any_WithRow (CompOp GreaterThanStr (SqlField \<lparr>f_Table = ''calls'', f_Name = ''starttime'', f_AliasName = []\<rparr>) SqlFuncNow) []
      (new_state (sample_row 0 0)) = Inr s \<and>
    any_Bool (CompOp GreaterThanStr (SqlField \<lparr>f_Table = ''calls'', f_Name = ''starttime'', f_AliasName = []\<rparr>) SqlFuncNow) sample_libs [] s = Inl x"
proof -
  let ?f = "\<lparr>f_Table = ''calls'', f_Name = ''starttime'', f_AliasName = []\<rparr>"
  have rf: "row_Field (sample_row 0 0) ?f = Inr (\<lambda>r. case r of FuncLogRow x \<Rightarrow> Inr (SqlDatetime (fl_StartTime (fr_FuncLog x))) | _ \<Rightarrow> Inl NilDereference)"
    by (simp add: row_Field_def FuncLogRow_Field_def Let_def sample_row_def)
  obtain s where s: "any_WithRow (CompOp GreaterThanStr (SqlField ?f) SqlFuncNow) [] (new_state (sample_row 0 0)) = Inr s"
    using rf by (simp add: new_state_def)
  have "read_field (sample_row 0 0) ?f = Inr (SqlDatetime 2)" using rf by (simp add: read_field_def sample_row_def)
  from Datetime_comparison_panics[OF s this] s show ?thesis by blast
qed

end
