(* ===== verification/Util.thy ===== *)
theory Util
  imports Prelude
begin

section \<open>Util: panics as errors and whole reads and writes (\<open>tracer/util/io.go\<close>)\<close>

text \<open>
  \<open>PanicHandler\<close> turns a panic of the function it runs into an error; a goroutine that blocks for ever
  stays blocked. The writer and the reader of \<open>MustWrite\<close> and \<open>MustRead\<close> are arguments: from their state
  and the data they give the count and the error.
\<close>

definition PanicHandler :: "'a go \<Rightarrow> (fault + 'a) go" where
  "PanicHandler m =
     (case m of
        Inr x \<Rightarrow> Inr (Inr x)
      | Inl Deadlock \<Rightarrow> Inl Deadlock
      | Inl f \<Rightarrow> Inr (Inl f))"

lemma PanicHandler_Inr [simp]: "PanicHandler (Inr x) = Inr (Inr x)"
  by (simp add: PanicHandler_def)

lemma PanicHandler_panic: "f \<noteq> Deadlock \<Longrightarrow> PanicHandler (Inl f) = Inr (Inl f)"
  by (cases f) (simp_all add: PanicHandler_def)

definition MustWrite :: "('w \<Rightarrow> byte list \<Rightarrow> nat \<times> bool \<times> 'w) \<Rightarrow> byte list \<Rightarrow> 'w \<Rightarrow> 'w go" where
  "MustWrite write data w =
     (case write w data of (n, err, w) \<Rightarrow>
        if err then Inl (Panic ''write error'')
        else if n \<noteq> length data then Inl (Panic ''partial write'')
        else Inr w)"

definition MustRead :: "('r \<Rightarrow> nat \<Rightarrow> byte list \<times> bool \<times> 'r) \<Rightarrow> nat \<Rightarrow> 'r \<Rightarrow> (byte list \<times> 'r) go" where
  "MustRead read len r =
     (case read r len of (data, err, r) \<Rightarrow>
        if err then Inl (Panic ''read error'')
        else if length data \<noteq> len then Inl (Panic ''partial read error'')
        else Inr (data, r))"

end
