(* ===== verification/SqlParse.thy ===== *)
theory SqlParse
  imports SqlExpr Util
begin

section \<open>SqlParse: SELECT statements (\<open>tracer/sql/parse.go\<close>, the function table of \<open>func.go\<close>)\<close>

text \<open>
  \<open>sqlparser\<close> turns the text of a statement into a syntax tree; the datatypes below are the part of its tree
  that this package looks at. \<open>eqs\<close> is its comparison of an identifier with a name. A panic inside
  \<open>util.PanicHandler\<close> becomes an error, here \<open>Recovered\<close>.
\<close>

datatype sql_val_type = StrVal | IntVal | OtherVal
datatype range_operator = BetweenStr | NotBetweenStr

datatype expr =
    AndExpr expr expr
  | OrExpr expr expr
  | NotExpr expr
  | ParenExpr expr
  | ComparisonExpr comp_operator expr expr
  | RangeCond range_operator expr expr expr
  | SQLVal sql_val_type string
  | ColName string string
  | IntervalExpr
  | FuncExpr string bool string "select_expr list"
  | OtherExpr
and select_expr = StarExpr string string | AliasedExpr expr string | Nextval

datatype simple_table = TableName string string | Subquery
datatype table_expr = AliasedTableExpr simple_table string | ParenTableExpr | JoinTableExpr

record Limit_clause =
  lim_Offset :: "expr option"
  lim_Rowcount :: "expr option"

record Select =
  sel_Distinct :: string
  sel_From :: "table_expr list"
  sel_SelectExprs :: "select_expr list"
  sel_Where :: "expr option"
  sel_GroupBy :: bool
  sel_Having :: bool
  sel_OrderBy :: bool
  sel_Limit :: "Limit_clause option"

datatype parse_error =
    ErrDistinct | ErrNotFoundTable | ErrJoin | ErrTableAlias | ErrDBQualifier | ErrSubquery | ErrColumnAlias | ErrColumnList
  | ErrUnsupportedStmt | ErrGroupBy | ErrHaving | ErrOrderBy
  | NotFoundTable string | NotFoundColumn string | Recovered fault | SyntaxError

subsection \<open>Tables\<close>

record Table =
  tb_Name :: string
  tb_Fields :: "string list"
  tb_ImplictJoin :: string

definition tables :: "Table list" where
  "tables =
     [\<lparr>tb_Name = ''calls'', tb_Fields = [''id'', ''gid'', ''starttime'', ''endtime'', ''exectime''], tb_ImplictJoin = []\<rparr>,
      \<lparr>tb_Name = ''frames'', tb_Fields = [''id'', ''offset'', ''package'', ''func'', ''file'', ''line'', ''pc''], tb_ImplictJoin = ''calls''\<rparr>,
      \<lparr>tb_Name = ''goroutines'', tb_Fields = [''gid'', ''starttime'', ''endtime'', ''exectime''], tb_ImplictJoin = []\<rparr>,
      \<lparr>tb_Name = ''funcs'', tb_Fields = [''name'', ''shortname'', ''package'', ''path''], tb_ImplictJoin = []\<rparr>,
      \<lparr>tb_Name = ''modules'', tb_Fields = [''module''], tb_ImplictJoin = []\<rparr>]"

definition zero_Table :: Table where
  "zero_Table = \<lparr>tb_Name = [], tb_Fields = [], tb_ImplictJoin = []\<rparr>"

fun has_field_loop :: "string list \<Rightarrow> string \<Rightarrow> bool" where
  "has_field_loop [] name = False"
| "has_field_loop (f # fs) name = (if name = f then True else has_field_loop fs name)"

definition HasField :: "Table \<Rightarrow> string \<Rightarrow> bool" where
  "HasField t name = has_field_loop (tb_Fields t) name"

fun find_table_loop :: "Table list \<Rightarrow> string \<Rightarrow> Table \<times> bool" where
  "find_table_loop [] name = (zero_Table, False)"
| "find_table_loop (t # ts) name = (if name = tb_Name t then (t, True) else find_table_loop ts name)"

definition findTableByName :: "string \<Rightarrow> Table \<times> bool" where
  "findTableByName name = find_table_loop tables name"

subsection \<open>Functions\<close>

record SqlFunc =
  sf_Name :: string
  sf_Table :: string
  sf_Parse :: "SqlAny list \<Rightarrow> SqlAny go"

definition parse_one_arg :: "(SqlAny \<Rightarrow> SqlAny) \<Rightarrow> SqlAny list \<Rightarrow> SqlAny go" where
  "parse_one_arg k args =
     (case args of [] \<Rightarrow> Inl (Panic ''missing args'') | [e] \<Rightarrow> Inr (k e) | _ \<Rightarrow> Inl (Panic ''too many args''))"

definition parse_now :: "SqlAny list \<Rightarrow> SqlAny go" where
  "parse_now args = (if length args > 0 then Inl (Panic ''too many args'') else Inr SqlFuncNow)"

text \<open>\<open>ADDTIME\<close> and \<open>SUBTIME\<close> build the object without its two operands.\<close>

definition parse_two_args :: "SqlAny \<Rightarrow> SqlAny list \<Rightarrow> SqlAny go" where
  "parse_two_args e args = (if length args \<noteq> 2 then Inl (Panic ''invalid args'') else Inr e)"

definition sql_funcs :: "SqlFunc list" where
  "sql_funcs =
     [\<lparr>sf_Name = ''FRAME'', sf_Table = ''frames'', sf_Parse = parse_one_arg SqlFuncFrame\<rparr>,
      \<lparr>sf_Name = ''CALL'', sf_Table = ''calls'', sf_Parse = parse_one_arg SqlFuncCall\<rparr>,
      \<lparr>sf_Name = ''NOW'', sf_Table = [], sf_Parse = parse_now\<rparr>,
      \<lparr>sf_Name = ''ADDTIME'', sf_Table = [], sf_Parse = parse_two_args (SqlFuncAddTime None None)\<rparr>,
      \<lparr>sf_Name = ''SUBTIME'', sf_Table = [], sf_Parse = parse_two_args (SqlFuncSubTime None None)\<rparr>]"

text \<open>The search keeps the last function whose name matches.\<close>

fun find_func :: "(string \<Rightarrow> string \<Rightarrow> bool) \<Rightarrow> string \<Rightarrow> SqlFunc list \<Rightarrow> SqlFunc option \<Rightarrow> SqlFunc option" where
  "find_func eqs name [] found = found"
| "find_func eqs name (f # fs) found = find_func eqs name fs (if eqs name (sf_Name f) then Some f else found)"

definition func_table :: "Table \<Rightarrow> SqlFunc \<Rightarrow> Table go" where
  "func_table t f =
     (if sf_Table f \<noteq> [] then
        (case findTableByName (sf_Table f) of (t', ok) \<Rightarrow> if ok then Inr t' else Inl (Panic ''not found table''))
      else Inr t)"

subsection \<open>WHERE\<close>

fun parseWhereExpr :: "(string \<Rightarrow> string \<Rightarrow> bool) \<Rightarrow> Table \<Rightarrow> expr \<Rightarrow> SqlAny go"
and parseSelectExpr :: "(string \<Rightarrow> string \<Rightarrow> bool) \<Rightarrow> Table \<Rightarrow> select_expr \<Rightarrow> SqlAny go"
and parse_args :: "(string \<Rightarrow> string \<Rightarrow> bool) \<Rightarrow> Table \<Rightarrow> select_expr list \<Rightarrow> SqlAny list go" where
  "parseWhereExpr eqs t (AndExpr l r) =
     go_bind (parseWhereExpr eqs t l) (\<lambda>a. go_bind (parseWhereExpr eqs t r) (\<lambda>b. Inr (AndOp a b)))"
| "parseWhereExpr eqs t (OrExpr l r) =
     go_bind (parseWhereExpr eqs t l) (\<lambda>a. go_bind (parseWhereExpr eqs t r) (\<lambda>b. Inr (OrOp a b)))"
| "parseWhereExpr eqs t (NotExpr e) = go_bind (parseWhereExpr eqs t e) (\<lambda>a. Inr (NotOp a))"
| "parseWhereExpr eqs t (ParenExpr e) = parseWhereExpr eqs t e"
| "parseWhereExpr eqs t (ComparisonExpr op l r) =
     go_bind (parseWhereExpr eqs t l) (\<lambda>a. go_bind (parseWhereExpr eqs t r) (\<lambda>b. Inr (CompOp op a b)))"
| "parseWhereExpr eqs t (RangeCond op l f u) =
     go_bind (parseWhereExpr eqs t l) (\<lambda>a. go_bind (parseWhereExpr eqs t f) (\<lambda>b. go_bind (parseWhereExpr eqs t u) (\<lambda>c.
     case op of BetweenStr \<Rightarrow> Inr (RangeOp a b c) | NotBetweenStr \<Rightarrow> Inr (NotOp (RangeOp a b c)))))"
| "parseWhereExpr eqs t (SQLVal ty v) =
     (case ty of
        StrVal \<Rightarrow> Inr (Const (SqlString v))
      | IntVal \<Rightarrow> (case ParseInt v of (i, None) \<Rightarrow> Inr (Const (SqlBigInt i)) | (_, Some _) \<Rightarrow> Inl (Panic ''strconv.ParseInt''))
      | OtherVal \<Rightarrow> Inl (Panic ''todo''))"
| "parseWhereExpr eqs t (ColName q name) =
     Inr (SqlField \<lparr>f_Table = (if q \<noteq> [] then q else tb_Name t), f_Name = name, f_AliasName = []\<rparr>)"
| "parseWhereExpr eqs t IntervalExpr = Inl (Panic ''todo'')"
| "parseWhereExpr eqs t (FuncExpr q dst name args) =
     (if q \<noteq> [] then Inl (Panic ''function qualifier is not supported'')
      else if dst then Inl (Panic ''DISTINCT is not supported'')
      else case find_func eqs name sql_funcs None of
        None \<Rightarrow> Inl (Panic (''not found '' @ name @ '' function''))
      | Some f \<Rightarrow> go_bind (func_table t f) (\<lambda>t. go_bind (parse_args eqs t args) (sf_Parse f)))"
| "parseWhereExpr eqs t OtherExpr = Inl (Panic ''bug'')"
| "parseSelectExpr eqs t (StarExpr _ _) = Inl (Panic ''not allowed'')"
| "parseSelectExpr eqs t (AliasedExpr e _) = parseWhereExpr eqs t e"
| "parseSelectExpr eqs t Nextval = Inl (Panic ''bug'')"
| "parse_args eqs t [] = Inr []"
| "parse_args eqs t (a # as) = go_bind (parseSelectExpr eqs t a) (\<lambda>x. go_bind (parse_args eqs t as) (\<lambda>xs. Inr (x # xs)))"

subsection \<open>The statement\<close>

record SelectParser =
  sp_Stmt :: Select
  sp_table :: Table
  sp_fields :: "Field list"
  sp_where :: "SqlAny option"
  sp_offset :: int64
  sp_rows :: int64

definition parseFrom :: "table_expr list \<Rightarrow> (parse_error + string) go" where
  "parseFrom froms =
     (case froms of
        [] \<Rightarrow> Inl (Panic ''len(stmt.From) == 0'')
      | [from] \<Rightarrow>
          (case from of
             AliasedTableExpr table as \<Rightarrow>
               if as \<noteq> [] then Inr (Inl ErrDBQualifier)
               else (case table of
                   TableName q name \<Rightarrow> if q \<noteq> [] then Inr (Inl ErrDBQualifier) else Inr (Inr name)
                 | Subquery \<Rightarrow> Inr (Inl ErrSubquery))
           | ParenTableExpr \<Rightarrow> Inr (Inl ErrSubquery)
           | JoinTableExpr \<Rightarrow> Inr (Inl ErrJoin))
      | _ \<Rightarrow> Inr (Inl ErrJoin))"

definition star_fields :: "bool \<Rightarrow> string \<Rightarrow> Table \<Rightarrow> Field list" where
  "star_fields useAlias tname t = map (\<lambda>c. \<lparr>f_Table = tname, f_Name = c, f_AliasName = (if useAlias then c else [])\<rparr>) (tb_Fields t)"

fun cols_loop :: "Table \<Rightarrow> select_expr list \<Rightarrow> Field list \<Rightarrow> parse_error + Field list" where
  "cols_loop t [] flds = Inr flds"
| "cols_loop t (StarExpr q tname # cols) flds =
     (if q \<noteq> [] then Inl ErrDBQualifier
      else if tname \<noteq> [] then
        (case findTableByName tname of (t', ok) \<Rightarrow>
           if \<not> ok then Inl (NotFoundTable tname) else cols_loop t cols (flds @ star_fields False tname t'))
      else cols_loop t cols (flds @ star_fields True (tb_Name t) t))"
| "cols_loop t (AliasedExpr e as # cols) flds =
     (if as \<noteq> [] then Inl ErrColumnAlias
      else case e of
        ColName q name \<Rightarrow>
          cols_loop t cols (flds @ [\<lparr>f_Table = (if q = [] then tb_Name t else q), f_Name = name, f_AliasName = (if q = [] then name else [])\<rparr>])
      | _ \<Rightarrow> Inl ErrColumnList)"
| "cols_loop t (Nextval # cols) flds = cols_loop t cols flds"

definition field_found :: "Table \<Rightarrow> Field \<Rightarrow> bool" where
  "field_found t f =
     (if f_Table f = tb_Name t then HasField t (f_Name f)
      else if f_Table f = tb_ImplictJoin t then
        (case findTableByName (f_Table f) of (t', ok) \<Rightarrow> ok \<and> HasField t' (f_Name f))
      else False)"

fun check_fields :: "Table \<Rightarrow> Field list \<Rightarrow> parse_error option" where
  "check_fields t [] = None"
| "check_fields t (f # fs) = (if \<not> field_found t f then Some (NotFoundColumn (Field_String f)) else check_fields t fs)"

definition parseCols :: "Table \<Rightarrow> select_expr list \<Rightarrow> parse_error + Field list" where
  "parseCols t cols =
     (case cols_loop t cols [] of
        Inl e \<Rightarrow> Inl e
      | Inr flds \<Rightarrow> (case check_fields t flds of Some e \<Rightarrow> Inl e | None \<Rightarrow> Inr flds))"

definition limit_value :: "expr \<Rightarrow> int64 go" where
  "limit_value e =
     (case e of
        SQLVal ty v \<Rightarrow>
          if ty \<noteq> IntVal then Inl (Panic ''type is not allowed'')
          else (case ParseInt v of (i, None) \<Rightarrow> Inr i | (_, Some _) \<Rightarrow> Inl (Panic ''strconv.ParseInt''))
      | _ \<Rightarrow> Inl (Panic ''bug: limitObj''))"

definition parseLimit :: "Limit_clause option \<Rightarrow> (int64 \<times> int64) go" where
  "parseLimit l =
     (case l of
        None \<Rightarrow> Inr (0, 0)
      | Some l \<Rightarrow>
          go_bind (case lim_Offset l of None \<Rightarrow> Inr 0 | Some e \<Rightarrow> limit_value e) (\<lambda>off.
          go_bind (case lim_Rowcount l of None \<Rightarrow> Inl (Panic ''bug: limitObj.Rowcount'') | Some e \<Rightarrow> limit_value e) (\<lambda>rows.
          Inr (off, rows))))"

definition Parse_tail :: "SelectParser \<Rightarrow> (parse_error + SelectParser) go" where
  "Parse_tail s =
     (if sel_GroupBy (sp_Stmt s) then Inr (Inl ErrGroupBy)
      else if sel_Having (sp_Stmt s) then Inr (Inl ErrHaving)
      else if sel_OrderBy (sp_Stmt s) then Inr (Inl ErrOrderBy)
      else case sel_Limit (sp_Stmt s) of
        None \<Rightarrow> Inr (Inr s)
      | Some l \<Rightarrow> go_bind (PanicHandler (parseLimit (Some l))) (\<lambda>r.
          case r of
            Inl f \<Rightarrow> Inr (Inl (Recovered f))
          | Inr (off, rows) \<Rightarrow> Inr (Inr (s\<lparr>sp_offset := off, sp_rows := rows\<rparr>))))"

definition Parse_where :: "(string \<Rightarrow> string \<Rightarrow> bool) \<Rightarrow> SelectParser \<Rightarrow> (parse_error + SelectParser) go" where
  "Parse_where eqs s =
     (case sel_Where (sp_Stmt s) of
        None \<Rightarrow> Parse_tail s
      | Some w \<Rightarrow> go_bind (PanicHandler (parseWhereExpr eqs (sp_table s) w)) (\<lambda>r.
          case r of
            Inl f \<Rightarrow> Inr (Inl (Recovered f))
          | Inr e \<Rightarrow> Parse_tail (s\<lparr>sp_where := Some e\<rparr>)))"

definition Parse :: "(string \<Rightarrow> string \<Rightarrow> bool) \<Rightarrow> SelectParser \<Rightarrow> (parse_error + SelectParser) go" where
  "Parse eqs s =
     (if sel_Distinct (sp_Stmt s) \<noteq> [] then Inr (Inl ErrDistinct)
      else go_bind (parseFrom (sel_From (sp_Stmt s))) (\<lambda>r.
        case r of
          Inl e \<Rightarrow> Inr (Inl e)
        | Inr tname \<Rightarrow>
            (case findTableByName tname of (table, ok) \<Rightarrow>
             if \<not> ok then Inr (Inl ErrNotFoundTable)
             else case parseCols table (sel_SelectExprs (sp_Stmt s)) of
                 Inl e \<Rightarrow> Inr (Inl e)
               | Inr flds \<Rightarrow> Parse_where eqs (s\<lparr>sp_table := table, sp_fields := flds\<rparr>))))"

definition ColNames :: "SelectParser \<Rightarrow> string list" where
  "ColNames s = map Field_String (sp_fields s)"

definition SelectParser_Limit :: "SelectParser \<Rightarrow> int64 \<times> int64" where
  "SelectParser_Limit s = (if sel_Limit (sp_Stmt s) = None then (0, 0) else (sp_offset s, sp_rows s))"

text \<open>\<open>sqlparser.Parse\<close> is the argument \<open>parser\<close>: \<open>None\<close> is a syntax error, \<open>Some None\<close> a statement that is not a SELECT.\<close>

definition new_SelectParser :: "Select \<Rightarrow> SelectParser" where
  "new_SelectParser stmt = \<lparr>sp_Stmt = stmt, sp_table = zero_Table, sp_fields = [], sp_where = None, sp_offset = 0, sp_rows = 0\<rparr>"

definition ParseSelect ::
  "(string \<Rightarrow> Select option option) \<Rightarrow> (string \<Rightarrow> string \<Rightarrow> bool) \<Rightarrow> string \<Rightarrow> (parse_error + SelectParser) go" where
  "ParseSelect parser eqs sql =
     (case parser sql of
        None \<Rightarrow> Inr (Inl SyntaxError)
      | Some None \<Rightarrow> Inr (Inl ErrUnsupportedStmt)
      | Some (Some stmt) \<Rightarrow> Parse eqs (new_SelectParser stmt))"


subsection \<open>What a parsed statement promises\<close>

lemma has_field_loop_iff: "has_field_loop fs name \<longleftrightarrow> name \<in> set fs"
  by (induction fs) auto

lemma find_table_loop_ok: "find_table_loop ts name = (t, True) \<Longrightarrow> t \<in> set ts \<and> tb_Name t = name"
  by (induction ts) (auto split: if_splits)

lemma findTableByName_ok: "findTableByName name = (t, True) \<Longrightarrow> t \<in> set tables \<and> tb_Name t = name"
  by (simp add: findTableByName_def find_table_loop_ok)

text \<open>The kind of row that \<open>search\<close> makes for each table.\<close>

definition row_of_table :: "string \<Rightarrow> SqlRow \<Rightarrow> bool" where
  "row_of_table tname row =
     (case row of
        FuncLogRow _ \<Rightarrow> tname = ''calls'' \<or> tname = ''frames''
      | GoroutineRow _ \<Rightarrow> tname = ''goroutines''
      | GoFuncRow _ \<Rightarrow> tname = ''funcs''
      | GoModuleRow _ \<Rightarrow> tname = ''modules'')"

lemma field_found_cases:
  assumes "t \<in> set tables" "field_found t f"
  shows "(\<exists>t' \<in> set tables. f_Table f = tb_Name t' \<and> f_Name f \<in> set (tb_Fields t') \<and> (t' = t \<or> tb_Name t = ''frames'' \<and> tb_Name t' = ''calls''))"
proof (cases "f_Table f = tb_Name t")
  case True
  then show ?thesis using assms by (auto simp: field_found_def HasField_def has_field_loop_iff)
next
  case False
  then have j: "f_Table f = tb_ImplictJoin t" using assms(2) by (auto simp: field_found_def split: if_splits)
  obtain t' where t': "findTableByName (f_Table f) = (t', True)" "HasField t' (f_Name f)"
    using False j assms(2) by (cases "findTableByName (f_Table f)") (auto simp: field_found_def)
  then have "t' \<in> set tables" "tb_Name t' = f_Table f" using findTableByName_ok by auto
  moreover have "tb_ImplictJoin t = [] \<or> tb_Name t = ''frames'' \<and> tb_ImplictJoin t = ''calls''" using assms(1) by (auto simp: tables_def)
  moreover have "tb_Name t' \<noteq> []" using \<open>t' \<in> set tables\<close> by (auto simp: tables_def)
  ultimately show ?thesis using j t'(2) unfolding HasField_def has_field_loop_iff by metis
qed

lemma FuncLogRow_serves:
  "f_Table f = ''calls'' \<Longrightarrow> f_Name f \<in> {''id'', ''gid'', ''starttime'', ''endtime'', ''exectime''} \<Longrightarrow> \<exists>g. FuncLogRow_Field f = Inr g"
  "f_Table f = ''frames'' \<Longrightarrow> f_Name f \<in> {''id'', ''offset'', ''package'', ''func'', ''file'', ''line'', ''pc''} \<Longrightarrow> \<exists>g. FuncLogRow_Field f = Inr g"
  by (simp_all add: FuncLogRow_Field_def Let_def) blast+

lemma other_rows_serve:
  "f_Table f = ''goroutines'' \<Longrightarrow> f_Name f \<in> {''gid'', ''starttime'', ''endtime'', ''exectime''} \<Longrightarrow> \<exists>g. GoroutineRow_Field f = Inr g"
  "f_Table f = ''funcs'' \<Longrightarrow> f_Name f \<in> {''name'', ''shortname'', ''package'', ''path''} \<Longrightarrow> \<exists>g. GoFuncRow_Field f = Inr g"
  "f_Table f = ''modules'' \<Longrightarrow> f_Name f = ''module'' \<Longrightarrow> \<exists>g. GoModuleRow_Field f = Inr g"
  by (simp_all add: GoroutineRow_Field_def GoFuncRow_Field_def GoModuleRow_Field_def Let_def) blast+

lemma row_Field_served:
  "\<exists>g. FuncLogRow_Field f = Inr g \<Longrightarrow> \<exists>g. row_Field (FuncLogRow r) f = Inr g"
  "\<exists>g. GoroutineRow_Field f = Inr g \<Longrightarrow> \<exists>g. row_Field (GoroutineRow r1) f = Inr g"
  "\<exists>g. GoFuncRow_Field f = Inr g \<Longrightarrow> \<exists>g. row_Field (GoFuncRow r2) f = Inr g"
  "\<exists>g. GoModuleRow_Field f = Inr g \<Longrightarrow> \<exists>g. row_Field (GoModuleRow r3) f = Inr g"
  by (auto simp: row_Field_def)

lemma tables_cases:
  assumes "t \<in> set tables"
  obtains "tb_Name t = ''calls''" "set (tb_Fields t) = {''id'', ''gid'', ''starttime'', ''endtime'', ''exectime''}"
  | "tb_Name t = ''frames''" "set (tb_Fields t) = {''id'', ''offset'', ''package'', ''func'', ''file'', ''line'', ''pc''}"
  | "tb_Name t = ''goroutines''" "set (tb_Fields t) = {''gid'', ''starttime'', ''endtime'', ''exectime''}"
  | "tb_Name t = ''funcs''" "set (tb_Fields t) = {''name'', ''shortname'', ''package'', ''path''}"
  | "tb_Name t = ''modules''" "set (tb_Fields t) = {''module''}"
  using assms unfolding tables_def list.set by (elim insertE emptyE) simp_all

lemma table_columns_served:
  assumes "t \<in> set tables" "f_Table f = tb_Name t" "f_Name f \<in> set (tb_Fields t)" "row_of_table (tb_Name t) row"
  shows "\<exists>g. row_Field row f = Inr g"
proof (rule tables_cases[OF assms(1)])
  assume t: "tb_Name t = ''calls''" "set (tb_Fields t) = {''id'', ''gid'', ''starttime'', ''endtime'', ''exectime''}"
  then obtain r where "row = FuncLogRow r" using assms(4) by (cases row) (simp_all add: row_of_table_def)
  then show ?thesis using row_Field_served(1)[OF FuncLogRow_serves(1)] assms(2,3) t by metis
next
  assume t: "tb_Name t = ''frames''" "set (tb_Fields t) = {''id'', ''offset'', ''package'', ''func'', ''file'', ''line'', ''pc''}"
  then obtain r where "row = FuncLogRow r" using assms(4) by (cases row) (simp_all add: row_of_table_def)
  then show ?thesis using row_Field_served(1)[OF FuncLogRow_serves(2)] assms(2,3) t by metis
next
  assume t: "tb_Name t = ''goroutines''" "set (tb_Fields t) = {''gid'', ''starttime'', ''endtime'', ''exectime''}"
  then obtain r where "row = GoroutineRow r" using assms(4) by (cases row) (simp_all add: row_of_table_def)
  then show ?thesis using row_Field_served(2)[OF other_rows_serve(1)] assms(2,3) t by metis
next
  assume t: "tb_Name t = ''funcs''" "set (tb_Fields t) = {''name'', ''shortname'', ''package'', ''path''}"
  then obtain r where "row = GoFuncRow r" using assms(4) by (cases row) (simp_all add: row_of_table_def)
  then show ?thesis using row_Field_served(3)[OF other_rows_serve(2)] assms(2,3) t by metis
next
  assume t: "tb_Name t = ''modules''" "set (tb_Fields t) = {''module''}"
  then obtain r where "row = GoModuleRow r" using assms(4) by (cases row) (simp_all add: row_of_table_def)
  then show ?thesis using row_Field_served(4)[OF other_rows_serve(3)] assms(2,3) t by simp
qed

lemma field_served:
  assumes "t \<in> set tables" "field_found t f" "row_of_table (tb_Name t) row"
  shows "\<exists>g. row_Field row f = Inr g"
proof -
  obtain t' where t': "t' \<in> set tables" "f_Table f = tb_Name t'" "f_Name f \<in> set (tb_Fields t')"
    "t' = t \<or> tb_Name t = ''frames'' \<and> tb_Name t' = ''calls''"
    using field_found_cases[OF assms(1,2)] by blast
  then have "row_of_table (tb_Name t') row" using assms(3) by (auto simp: row_of_table_def split: SqlRow.splits)
  then show ?thesis using table_columns_served[OF t'(1-3)] by blast
qed

lemma check_fields_ok: "check_fields t fs = None \<Longrightarrow> list_all (field_found t) fs"
  by (induction fs) (auto split: if_splits)

lemma Parse_tail_keeps: "Parse_tail s = Inr (Inr s') \<Longrightarrow> sp_table s' = sp_table s \<and> sp_fields s' = sp_fields s"
  by (auto simp: Parse_tail_def go_bind_def split: if_split_asm option.split_asm sum.split_asm)

lemma Parse_where_keeps: "Parse_where eqs s = Inr (Inr s') \<Longrightarrow> sp_table s' = sp_table s \<and> sp_fields s' = sp_fields s"
  by (auto simp: Parse_where_def go_bind_def dest!: Parse_tail_keeps split: option.split_asm sum.split_asm)

lemma Parse_checked:
  assumes "Parse eqs s = Inr (Inr s')"
  shows "sp_table s' \<in> set tables \<and> list_all (field_found (sp_table s')) (sp_fields s')"
proof -
  obtain tname t flds where t: "findTableByName tname = (t, True)" "parseCols t (sel_SelectExprs (sp_Stmt s)) = Inr flds"
    "Parse_where eqs (s\<lparr>sp_table := t, sp_fields := flds\<rparr>) = Inr (Inr s')"
    using assms by (auto simp: Parse_def go_bind_def split: if_split_asm sum.split_asm prod.split_asm)
  then show ?thesis
    using findTableByName_ok[OF t(1)] Parse_where_keeps[OF t(3)] check_fields_ok
    by (auto simp: parseCols_def split: sum.splits option.splits)
qed

lemma row_Fields_served:
  "t \<in> set tables \<Longrightarrow> list_all (field_found t) fs \<Longrightarrow> row_of_table (tb_Name t) row \<Longrightarrow>
   \<exists>gs. row_Fields row fs = Inr gs \<and> list_all2 (\<lambda>f g. row_Field row f = Inr g) fs gs"
proof (induction fs)
  case (Cons f fs)
  then obtain gs where "row_Fields row fs = Inr gs" "list_all2 (\<lambda>f g. row_Field row f = Inr g) fs gs" by auto
  moreover obtain g where "row_Field row f = Inr g" using field_served[OF Cons.prems(1) _ Cons.prems(3), of f] Cons.prems(2) by auto
  ultimately show ?case by auto
qed simp

text \<open>Parsing panics, it does not block.\<close>

lemma go_bind_eq_Inl: "go_bind m f = Inl e \<longleftrightarrow> m = Inl e \<or> (\<exists>x. m = Inr x \<and> f x = Inl e)"
  by (cases m) auto

lemma go_bind_no_deadlock: "m \<noteq> Inl Deadlock \<Longrightarrow> (\<And>x. m = Inr x \<Longrightarrow> f x \<noteq> Inl Deadlock) \<Longrightarrow> go_bind m f \<noteq> Inl Deadlock"
  by (cases m) auto

lemma find_func_in: "find_func eqs name fs found = Some f \<Longrightarrow> f \<in> set fs \<or> found = Some f"
  by (induction fs arbitrary: found) (auto split: if_splits)

lemma sf_Parse_no_deadlock: "f \<in> set sql_funcs \<Longrightarrow> sf_Parse f args \<noteq> Inl Deadlock"
  by (auto simp: sql_funcs_def parse_one_arg_def parse_now_def parse_two_args_def split: list.splits if_split_asm)

lemma func_table_no_deadlock: "func_table t f \<noteq> Inl Deadlock"
  by (auto simp: func_table_def split: prod.splits)

lemma parse_no_deadlock:
  "parseWhereExpr eqs t e \<noteq> Inl Deadlock"
  "parseSelectExpr eqs t x \<noteq> Inl Deadlock"
  "parse_args eqs t xs \<noteq> Inl Deadlock"
proof (induction eqs t e and eqs t x and eqs t xs rule: parseWhereExpr_parseSelectExpr_parse_args.induct)
  case (10 eqs t q dst name args)
  show ?case
  proof (cases "find_func eqs name sql_funcs None")
    case (Some f)
    then have "f \<in> set sql_funcs" using find_func_in by fastforce
    then have "go_bind (func_table t f) (\<lambda>t. go_bind (parse_args eqs t args) (sf_Parse f)) \<noteq> Inl Deadlock" if "q = []" "\<not> dst"
      using 10 Some that sf_Parse_no_deadlock func_table_no_deadlock by (intro go_bind_no_deadlock) auto
    then show ?thesis using Some by simp
  qed simp
qed (auto simp: go_bind_eq_Inl split: range_operator.split_asm sql_val_type.splits option.splits prod.splits)

lemma limit_no_deadlock: "parseLimit l \<noteq> Inl Deadlock"
  by (auto simp: parseLimit_def limit_value_def go_bind_eq_Inl split: option.split_asm expr.split_asm prod.split_asm if_split_asm)

lemma PanicHandler_returns: "m \<noteq> Inl Deadlock \<Longrightarrow> \<exists>r. PanicHandler m = Inr r"
  by (cases m) (auto simp: PanicHandler_panic)

lemma parseFrom_returns: "froms \<noteq> [] \<Longrightarrow> \<exists>r. parseFrom froms = Inr r"
  by (auto simp: parseFrom_def split: list.split table_expr.split simple_table.split)

lemma Parse_tail_returns: "\<exists>r. Parse_tail s = Inr r"
proof (cases "sel_Limit (sp_Stmt s)")
  case (Some l)
  obtain r where "PanicHandler (parseLimit (Some l)) = Inr r" using PanicHandler_returns[OF limit_no_deadlock] by blast
  then show ?thesis using Some by (cases r) (auto simp: Parse_tail_def)
qed (simp add: Parse_tail_def)

lemma Parse_where_returns: "\<exists>r. Parse_where eqs s = Inr r"
proof (cases "sel_Where (sp_Stmt s)")
  case None
  then show ?thesis using Parse_tail_returns by (simp add: Parse_where_def)
next
  case (Some w)
  obtain r where "PanicHandler (parseWhereExpr eqs (sp_table s) w) = Inr r"
    using PanicHandler_returns[OF parse_no_deadlock(1)] by blast
  then show ?thesis using Some Parse_tail_returns by (cases r) (auto simp: Parse_where_def)
qed

subsection \<open>Properties\<close>

text \<open>
  C35. A SELECT that is accepted can be printed. Every column of an accepted statement, those of \<open>*\<close> and of the
  implicitly joined table included, is served by the rows of the statement's table: building the
  getters never panics, there is one per column of the header, and every value a getter returns has the
  column's type.
\<close>

theorem Parsed_columns_are_served:
  assumes "ParseSelect parser eqs sql = Inr (Inr sp)" "row_of_table (tb_Name (sp_table sp)) row"
  shows "\<exists>gs. row_Fields row (sp_fields sp) = Inr gs \<and> length gs = length (ColNames sp) \<and>
    list_all2 (\<lambda>f g. \<forall>row' v. g row' = Inr v \<longrightarrow> val_Type v = col_type f) (sp_fields sp) gs"
proof -
  obtain stmt where "Parse eqs (new_SelectParser stmt) = Inr (Inr sp)"
    using assms(1) by (auto simp: ParseSelect_def split: option.splits)
  from Parse_checked[OF this] row_Fields_served[OF _ _ assms(2)] obtain gs where
    gs: "row_Fields row (sp_fields sp) = Inr gs" "list_all2 (\<lambda>f g. row_Field row f = Inr g) (sp_fields sp) gs" by blast
  then have "list_all2 (\<lambda>f g. \<forall>row' v. g row' = Inr v \<longrightarrow> val_Type v = col_type f) (sp_fields sp) gs"
    using row_typed by (auto elim!: list_all2_mono)
  then show ?thesis using gs by (auto simp: ColNames_def list_all2_lengthD)
qed

definition sample_select :: Select where
  "sample_select = \<lparr>sel_Distinct = [], sel_From = [AliasedTableExpr (TableName [] ''frames'') []],
     sel_SelectExprs = [StarExpr [] ''calls'', AliasedExpr (ColName [] ''func'') []],
     sel_Where = Some (ComparisonExpr EqualStr (ColName [] ''line'') (SQLVal IntVal ''3'')),
     sel_GroupBy = False, sel_Having = False, sel_OrderBy = False, sel_Limit = None\<rparr>"

lemma ParseInt_3: "ParseInt ''3'' = (3, None)"
  by (simp add: ParseInt_def ParseUint_def digit_val_def Let_def)

lemma sample_parse:
  "\<exists>sp. ParseSelect (\<lambda>_. Some (Some sample_select)) (=) ''q'' = Inr (Inr sp) \<and> tb_Name (sp_table sp) = ''frames'' \<and> length (sp_fields sp) = 6"
  by (simp add: ParseSelect_def Parse_def new_SelectParser_def sample_select_def parseFrom_def findTableByName_def tables_def parseCols_def
      star_fields_def field_found_def HasField_def Parse_where_def Parse_tail_def ParseInt_3)

theorem Parsed_columns_are_served_witness:
  "\<exists>sp gs. ParseSelect (\<lambda>_. Some (Some sample_select)) (=) ''q'' = Inr (Inr sp) \<and>
    row_Fields (sample_row 0 0) (sp_fields sp) = Inr gs \<and> length gs = length (ColNames sp) \<and>
    list_all2 (\<lambda>f g. \<forall>row' v. g row' = Inr v \<longrightarrow> val_Type v = col_type f) (sp_fields sp) gs"
proof -
  obtain sp where sp: "ParseSelect (\<lambda>_. Some (Some sample_select)) (=) ''q'' = Inr (Inr sp)" "tb_Name (sp_table sp) = ''frames''"
    using sample_parse by blast
  have "row_of_table (tb_Name (sp_table sp)) (sample_row 0 0)" using sp(2) by (simp add: row_of_table_def sample_row_def)
  from Parsed_columns_are_served[OF sp(1) this] sp(1) show ?thesis by blast
qed

text \<open>
  Parsing answers every statement. Whatever tree the SQL parser delivers, as long as a SELECT has a FROM
  clause, \<open>ParseSelect\<close> returns a statement or an error and panics nowhere: the panics of the WHERE
  and LIMIT clauses come back as errors.
\<close>

theorem ParseSelect_never_panics:
  assumes "\<And>stmt. parser sql = Some (Some stmt) \<Longrightarrow> sel_From stmt \<noteq> []"
  shows "\<exists>r. ParseSelect parser eqs sql = Inr r"
proof (cases "\<exists>stmt. parser sql = Some (Some stmt)")
  case False
  then show ?thesis by (auto simp: ParseSelect_def split: option.splits)
next
  case True
  then obtain stmt where stmt: "parser sql = Some (Some stmt)" by blast
  obtain r where r: "parseFrom (sel_From stmt) = Inr r"
    using parseFrom_returns[OF assms[OF stmt]] by blast
  have "\<exists>q. Parse eqs (new_SelectParser stmt) = Inr q"
  proof (cases "sel_Distinct stmt = []")
    case True
    then show ?thesis using r Parse_where_returns
      by (cases r) (auto simp: Parse_def new_SelectParser_def split: prod.splits sum.splits)
  qed (simp add: Parse_def new_SelectParser_def)
  then show ?thesis using stmt by (simp add: ParseSelect_def)
qed

theorem ParseSelect_never_panics_witness:
  "\<exists>r. ParseSelect (\<lambda>_. Some (Some (sample_select\<lparr>sel_Where := Some IntervalExpr\<rparr>))) (=) ''q'' = Inr r"
  by (rule ParseSelect_never_panics) (auto simp: sample_select_def)

text \<open>
  \<open>ADDTIME\<close> and \<open>SUBTIME\<close> never yield a date: their arguments are parsed and dropped, and reading the date
  of the object dereferences nil, whatever the arguments were.
\<close>

theorem Time_functions_drop_arguments:
  assumes "parseWhereExpr (=) t (FuncExpr [] False name args) = Inr e" "name = ''ADDTIME'' \<or> name = ''SUBTIME''"
  shows "any_Datetime e L \<pi> s = Inl NilDereference"
proof -
  have "find_func (=) name sql_funcs None \<noteq> None" using assms(2) by (auto simp: sql_funcs_def)
  then show ?thesis using assms
    by (auto simp: sql_funcs_def go_bind_eq_Inr parse_two_args_def split: if_splits)
qed

theorem Time_functions_drop_arguments_witness:
  "\<exists>e. parseWhereExpr (=) zero_Table (FuncExpr [] False ''ADDTIME'' [AliasedExpr (SQLVal IntVal ''3'') [], AliasedExpr (SQLVal IntVal ''3'') []]) = Inr e \<and>
    any_Datetime e sample_libs [] (new_state (sample_row 0 0)) = Inl NilDereference"
proof -
  obtain e where e: "parseWhereExpr (=) zero_Table (FuncExpr [] False ''ADDTIME'' [AliasedExpr (SQLVal IntVal ''3'') [], AliasedExpr (SQLVal IntVal ''3'') []]) = Inr e"
    by (simp add: sql_funcs_def func_table_def ParseInt_3 parse_two_args_def)
  from Time_functions_drop_arguments[OF e] e show ?thesis by blast
qed

end
