(* ===== verification/Query.thy ===== *)
theory Query
  imports SqlParse Stores
begin

section \<open>Query: answering a SELECT (\<open>search\<close> and \<open>csvResponse\<close> in \<open>tracer/restapi/handlers.go\<close>)\<close>

text \<open>
  \<open>csvResponse.Run\<close> rds rows until the end of the table, keeps those that satisfy the WHERE clause, counts
  them against LIMIT and sends them. The closures it is given are arguments here, over the state \<open>'s\<close> they
  share; \<open>rds\<close> are the results of the successive calls of \<open>Read\<close> before \<open>io.EOF\<close> (\<open>Inl\<close>: an error).
\<close>

subsection \<open>\<open>csvResponse\<close>\<close>

fun Run_loop ::
  "('row \<Rightarrow> 's \<Rightarrow> (bool \<times> 's) go) \<Rightarrow> ('row \<Rightarrow> 's \<Rightarrow> (bool \<times> 's) go) \<Rightarrow> int64 \<Rightarrow> int64 \<Rightarrow> (unit + 'row) list \<Rightarrow> int64 \<Rightarrow> 's \<Rightarrow> 's go" where
  "Run_loop wher send off rows [] lineno s = Inr s"
| "Run_loop wher send off rows (Inl e # rds) lineno s = Inr s"
| "Run_loop wher send off rows (Inr row # rds) lineno s =
     go_bind (wher row s) (\<lambda>(hit, s).
     if \<not> hit then Run_loop wher send off rows rds lineno s
     else let lineno = lineno + 1 in
       if sint lineno < sint off then Run_loop wher send off rows rds lineno s
       else if 0 < sint rows \<and> sint (off + rows) \<le> sint lineno then Inr s
       else go_bind (send row s) (\<lambda>(ok, s). if \<not> ok then Inr s else Run_loop wher send off rows rds lineno s))"

datatype response = BadRequest | Answer

definition csvResponse_Run ::
  "('s \<Rightarrow> 's go) \<Rightarrow> ('s \<Rightarrow> bool \<times> 's) \<Rightarrow> ('row \<Rightarrow> 's \<Rightarrow> (bool \<times> 's) go) \<Rightarrow> ('row \<Rightarrow> 's \<Rightarrow> (bool \<times> 's) go) \<Rightarrow>
   int64 \<Rightarrow> int64 \<Rightarrow> (unit + 'row) list \<Rightarrow> 's \<Rightarrow> (response \<times> 's) go" where
  "csvResponse_Run setUpRow writeHeader wher send off rows rds s =
     go_bind (PanicHandler (setUpRow s)) (\<lambda>r.
     case r of
       Inl err \<Rightarrow> Inr (BadRequest, s)
     | Inr s \<Rightarrow>
         (case writeHeader s of (ok, s) \<Rightarrow>
            if \<not> ok then Inr (Answer, s)
            else go_bind (Run_loop wher send off rows rds 0 s) (\<lambda>s. Inr (Answer, s))))"

subsection \<open>Reading the tables\<close>

text \<open>
  \<open>Read\<close> for the table of calls and for the table of frames, with the variables the closures share: the
  identifier and the offset they are at, and the record in the row. \<open>get\<close> is \<open>GetNolock\<close> and \<open>n\<close> the
  number of records of the store.
\<close>

record reader =
  rd_id :: int64
  rd_offset :: int
  rd_fl :: FuncLog
  rd_row_offset :: int

datatype read_result = ReadEOF | ReadError | ReadRow

definition calls_Read :: "(int64 \<Rightarrow> error + FuncLog) \<Rightarrow> int64 \<Rightarrow> reader \<Rightarrow> read_result \<times> reader" where
  "calls_Read get n r =
     (let r = r\<lparr>rd_id := rd_id r + 1\<rparr> in
      if sint n \<le> sint (rd_id r) then (ReadEOF, r)
      else case get (rd_id r) of
        Inl e \<Rightarrow> (ReadError, r)
      | Inr fl \<Rightarrow> (ReadRow, r\<lparr>rd_fl := fl\<rparr>))"

definition frames_Read :: "(int64 \<Rightarrow> error + FuncLog) \<Rightarrow> int64 \<Rightarrow> reader \<Rightarrow> read_result \<times> reader" where
  "frames_Read get n r =
     (if rd_offset r + 1 < int (length (fl_Frames (rd_fl r))) \<and> 0 \<le> rd_offset r
      then let r = r\<lparr>rd_offset := rd_offset r + 1\<rparr> in (ReadRow, r\<lparr>rd_row_offset := rd_offset r\<rparr>)
      else let r = r\<lparr>rd_id := rd_id r + 1, rd_offset := 0\<rparr> in
        if sint n \<le> sint (rd_id r) then (ReadEOF, r)
        else case get (rd_id r) of
          Inl e \<Rightarrow> (ReadError, r\<lparr>rd_row_offset := 0\<rparr>)
        | Inr fl \<Rightarrow> (ReadRow, r\<lparr>rd_fl := fl, rd_row_offset := 0\<rparr>))"

definition init_reader :: "FuncLog \<Rightarrow> reader" where
  "init_reader fl = \<lparr>rd_id = -1, rd_offset = -1, rd_fl = fl, rd_row_offset = 0\<rparr>"

text \<open>The rows that \<open>fuel\<close> calls of \<open>Read\<close> deliver, up to the end of the table.\<close>

fun read_rows :: "nat \<Rightarrow> (reader \<Rightarrow> read_result \<times> reader) \<Rightarrow> reader \<Rightarrow> (unit + FuncLog \<times> int) list option" where
  "read_rows 0 read r = None"
| "read_rows (Suc fuel) read r =
     (case read r of
        (ReadEOF, r) \<Rightarrow> Some []
      | (ReadError, r) \<Rightarrow> Some [Inl ()]
      | (ReadRow, r) \<Rightarrow> map_option (\<lambda>xs. Inr (rd_fl r, rd_row_offset r) # xs) (read_rows fuel read r))"

subsection \<open>The query\<close>

text \<open>
  The state of a query: the WHERE clause with its row, the column types the printers remember, the line
  buffer, and what has been written to the client.
\<close>

record query =
  q_sql :: sql_state
  q_conv :: "string option list"
  q_line :: slice
  q_out :: "byte list"

definition query_SetUpRow :: "SqlAny \<Rightarrow> query \<Rightarrow> query go" where
  "query_SetUpRow e q = go_bind (any_WithRow e [] (q_sql q)) (\<lambda>s. Inr (q\<lparr>q_sql := s\<rparr>))"

definition header_line :: "string list \<Rightarrow> byte list" where
  "header_line names = bytes_of_string (join_with (CHR '','') names @ [char_of (10::nat)])"

definition query_WriteHeader :: "string list \<Rightarrow> query \<Rightarrow> bool \<times> query" where
  "query_WriteHeader names q = (True, q\<lparr>q_out := q_out q @ header_line names\<rparr>)"

text \<open>Reading a row puts it into the row object (\<open>load\<close> says what it leaves of the old content); then the clause is evaluated.\<close>

definition query_Where :: "sql_libs \<Rightarrow> SqlAny \<Rightarrow> (SqlRow \<Rightarrow> SqlRow \<Rightarrow> SqlRow) \<Rightarrow> SqlRow \<Rightarrow> query \<Rightarrow> (bool \<times> query) go" where
  "query_Where L e load row q =
     (let s = q_sql q in
      go_bind (any_Bool e L [] (s\<lparr>st_row := load (st_row s) row\<rparr>)) (\<lambda>(b, s). Inr (b, q\<lparr>q_sql := s\<rparr>)))"

definition query_Send :: "(Time \<Rightarrow> string) \<Rightarrow> SqlFieldGetter list \<Rightarrow> SqlRow \<Rightarrow> query \<Rightarrow> (bool \<times> query) go" where
  "query_Send ts gs row q =
     go_bind (Getters_Printer ts gs (st_row (q_sql q)) (q_conv q) (q_line q)) (\<lambda>(cs, buf, n).
     go_bind (slice_set buf n 10) (\<lambda>buf.
     go_bind (slice_to buf (n + 1)) (\<lambda>out.
     Inr (True, q\<lparr>q_conv := cs, q_line := buf, q_out := q_out q @ sl_bytes out\<rparr>))))"

text \<open>The part of \<open>search\<close> after the statement has been parsed, for the rows of its table.\<close>

definition search_table ::
  "sql_libs \<Rightarrow> (Time \<Rightarrow> string) \<Rightarrow> nat \<Rightarrow> SelectParser \<Rightarrow> SqlRow \<Rightarrow> (SqlRow \<Rightarrow> SqlRow \<Rightarrow> SqlRow) \<Rightarrow> (unit + SqlRow) list \<Rightarrow> (response \<times> query) go" where
  "search_table L ts bufsz sp row load rds =
     (let e = (case sp_where sp of None \<Rightarrow> Const (SqlBool True) | Some e \<Rightarrow> e) in
      case SelectParser_Limit sp of (off, rows) \<Rightarrow>
      go_bind (row_Fields row (sp_fields sp)) (\<lambda>gs.
      csvResponse_Run (query_SetUpRow e) (query_WriteHeader (ColNames sp)) (query_Where L e load) (query_Send ts gs) off rows rds
        \<lparr>q_sql = new_state row, q_conv = replicate (length gs) None, q_line = make_slice bufsz, q_out = []\<rparr>))"


subsection \<open>What a query sends\<close>

text \<open>The hits that are sent, when \<open>k\<close> hits have been counted before.\<close>

fun sent :: "int \<Rightarrow> int \<Rightarrow> int \<Rightarrow> 'a list \<Rightarrow> 'a list" where
  "sent off rows k [] = []"
| "sent off rows k (h # hs) =
     (if k + 1 < off then sent off rows (k + 1) hs
      else if 0 < rows \<and> off + rows \<le> k + 1 then []
      else h # sent off rows (k + 1) hs)"

lemma sent_unlimited: "rows \<le> 0 \<Longrightarrow> sent off rows k hs = drop (nat (off - k - 1)) hs"
proof (induction hs arbitrary: k)
  case (Cons h hs)
  show ?case
  proof (cases "k + 1 < off")
    case True
    then have "nat (off - k - 1) = Suc (nat (off - (k + 1) - 1))" by simp
    with True Cons show ?thesis by simp
  next
    case False
    with Cons show ?thesis by simp
  qed
qed simp

lemma sent_limited: "0 < rows \<Longrightarrow> sent off rows k hs = drop (nat (off - k - 1)) (take (nat (off + rows - k - 1)) hs)"
proof (induction hs arbitrary: k)
  case (Cons h hs)
  show ?case
  proof (cases "k + 1 < off")
    case True
    then have "nat (off - k - 1) = Suc (nat (off - (k + 1) - 1))" "nat (off + rows - k - 1) = Suc (nat (off + rows - (k + 1) - 1))"
      using Cons.prems by auto
    with True Cons show ?thesis by simp
  next
    case False
    show ?thesis
    proof (cases "off + rows \<le> k + 1")
      case True
      then have "nat (off + rows - k - 1) = 0" by simp
      then show ?thesis using True False Cons.prems by simp
    next
      case lt: False
      then have "nat (off + rows - k - 1) = Suc (nat (off + rows - (k + 1) - 1))" by simp
      with False lt Cons show ?thesis by simp
    qed
  qed
qed simp

text \<open>
  What SQL asks for: skip \<open>off\<close> hits, then give \<open>lim\<close>, or all that are left.
\<close>

definition sql_window :: "nat \<Rightarrow> nat option \<Rightarrow> 'a list \<Rightarrow> 'a list" where
  "sql_window off lim hs = (case lim of None \<Rightarrow> drop off hs | Some n \<Rightarrow> take n (drop off hs))"

text \<open>
  What the server means by them is one off: \<open>OFFSET m\<close> skips \<open>m - 1\<close> hits, and \<open>LIMIT n\<close> without an offset gives
  \<open>n - 1\<close>. A limit of 0 is no limit.
\<close>

definition csv_window :: "int \<Rightarrow> int \<Rightarrow> 'a list \<Rightarrow> 'a list" where
  "csv_window off lim hs =
     (if off = 0 then sql_window 0 (if 0 < lim then Some (nat lim - 1) else None) hs
      else sql_window (nat off - 1) (if 0 < lim then Some (nat lim) else None) hs)"

lemma sent_window:
  assumes "0 \<le> off"
  shows "sent off lim 0 hs = csv_window off lim hs"
proof (cases "0 < lim")
  case True
  have n: "nat (off - 1) = nat off - 1" "nat (lim - 1) = nat lim - 1" by auto
  have "off \<noteq> 0 \<Longrightarrow> nat (off + lim - 1) - nat (off - 1) = nat lim" using True assms by auto
  then show ?thesis using sent_limited[OF True, of off 0 hs] True n by (simp add: csv_window_def sql_window_def drop_take)
next
  case False
  then have "nat (off - 1) = nat off - 1" "sent off lim 0 hs = drop (nat (off - 1)) hs" using sent_unlimited[of lim off 0 hs] by auto
  then show ?thesis using False by (simp add: csv_window_def sql_window_def)
qed

lemma sint_add_small:
  fixes x y :: int64
  assumes "- (2 ^ 63) \<le> sint x + sint y" "sint x + sint y < 2 ^ 63"
  shows "sint (x + y) = sint x + sint y"
  using assms by (simp add: signed_take_bit_int_eq_self sint_word_ariths)

text \<open>
  The contract between \<open>Run\<close> and its closures: \<open>wher\<close> decides \<open>P\<close>, \<open>send\<close> writes the line of the row that was
  read last, and neither does anything else to the output.
\<close>

locale csv_source =
  fixes wher send :: "'row \<Rightarrow> 's \<Rightarrow> (bool \<times> 's) go"
    and inv :: "'s \<Rightarrow> bool"
    and holds_row :: "'row \<Rightarrow> 's \<Rightarrow> bool"
    and ok :: "'row \<Rightarrow> bool"
    and P :: "'row \<Rightarrow> bool"
    and line :: "'row \<Rightarrow> 'o list"
    and out :: "'s \<Rightarrow> 'o list"
  assumes where_law: "inv s \<Longrightarrow> ok row \<Longrightarrow> \<exists>s'. wher row s = Inr (P row, s') \<and> holds_row row s' \<and> out s' = out s"
    and send_law: "holds_row row s \<Longrightarrow> ok row \<Longrightarrow> \<exists>s'. send row s = Inr (True, s') \<and> inv s' \<and> out s' = out s @ line row"
    and holds_row_inv: "holds_row row s \<Longrightarrow> inv s"
begin

lemma run_sends:
  assumes "0 \<le> sint off" "sint off + sint rows < 2 ^ 63" "0 \<le> sint k" "sint k + int (length xs) < 2 ^ 63"
    "inv s" "list_all ok xs"
  shows "\<exists>s'. Run_loop wher send off rows (map Inr xs) k s = Inr s' \<and>
    out s' = out s @ concat (map line (sent (sint off) (sint rows) (sint k) (filter P xs)))"
  using assms(3-6)
proof (induction xs arbitrary: k s)
  case Nil
  then show ?case by simp
next
  case (Cons x xs)
  obtain s1 where s1: "wher x s = Inr (P x, s1)" "holds_row x s1" "out s1 = out s"
    using where_law[of s x] Cons.prems by auto
  have k: "sint (k + 1) = sint k + 1" using Cons.prems(1,2) by (subst sint_add_small) auto
  have k': "0 \<le> sint (k + 1)" "sint (k + 1) + int (length xs) < 2 ^ 63" using k Cons.prems(1,2) by auto
  have or: "sint (off + rows) = sint off + sint rows" if "0 < sint rows"
    using that assms(1,2) by (intro sint_add_small) auto
  have inv1: "inv s1" "list_all ok xs" using holds_row_inv[OF s1(2)] Cons.prems(4) by auto
  show ?case
  proof (cases "P x")
    case False
    have "0 \<le> sint k" "sint k + int (length xs) < 2 ^ 63" using Cons.prems by auto
    from Cons.IH[OF this inv1] show ?thesis using False s1 by auto
  next
    case True
    obtain s2 where s2: "send x s1 = Inr (True, s2)" "inv s2" "out s2 = out s1 @ line x"
      using send_law[OF s1(2)] Cons.prems(4) by auto
    note IH1 = Cons.IH[OF k' inv1] and IH2 = Cons.IH[OF k' s2(2) inv1(2)]
    show ?thesis using True s1(1,3) s2 k or IH1 IH2 by (cases "sint k + 1 < sint off"; cases "0 < sint rows \<and> sint off + sint rows \<le> sint k + 1") (auto simp: Let_def)
  qed
qed

end

subsection \<open>The model's query keeps the contract\<close>

definition row_values :: "Field list \<Rightarrow> SqlRow \<Rightarrow> sql_val list" where
  "row_values flds row = map (\<lambda>f. case read_field row f of Inr v \<Rightarrow> v | Inl _ \<Rightarrow> SqlBool False) flds"

definition row_line :: "(Time \<Rightarrow> string) \<Rightarrow> Field list \<Rightarrow> SqlRow \<Rightarrow> byte list" where
  "row_line ts flds row = bytes_of_string (csv_line ts (row_values flds row)) @ [10]"

text \<open>A row that the query can handle: the clause and the columns have values on it, and its line fits the buffer.\<close>

definition row_ok :: "sql_libs \<Rightarrow> (Time \<Rightarrow> string) \<Rightarrow> SqlAny \<Rightarrow> Field list \<Rightarrow> SqlRow \<Rightarrow> nat \<Rightarrow> SqlRow \<Rightarrow> bool" where
  "row_ok L ts e flds rw bufsz row \<longleftrightarrow> same_kind rw row \<and> (\<exists>b. meaning e L row = Inr b) \<and>
     list_all (\<lambda>f. \<exists>v. read_field row f = Inr v) flds \<and> length (csv_line ts (row_values flds row)) < bufsz"

definition columns_ok :: "bool \<Rightarrow> Field list \<Rightarrow> bool" where
  "columns_ok inner flds \<longleftrightarrow> list_all (\<lambda>f. inner \<or> f_Table f \<noteq> ''frames'') flds"

definition query_inv ::
  "sql_libs \<Rightarrow> bool \<Rightarrow> SqlAny \<Rightarrow> (SqlRow \<Rightarrow> SqlRow \<Rightarrow> SqlRow) \<Rightarrow> Field list \<Rightarrow> SqlFieldGetter list \<Rightarrow> SqlRow \<Rightarrow> nat \<Rightarrow> query \<Rightarrow> bool" where
  "query_inv L inner e load flds gs rw bufsz q \<longleftrightarrow>
     steady inner e \<and> loads inner load \<and> columns_ok inner flds \<and> gs \<noteq> [] \<and>
     list_all2 (\<lambda>f g. row_Field rw f = Inr g) flds gs \<and>
     eval_inv L e (q_sql q) \<and> covered e [] (dom (st_getter (q_sql q))) (st_frame (q_sql q)) \<and> same_kind rw (st_row (q_sql q)) \<and>
     list_all2 (\<lambda>f c. c = None \<or> c = Some (col_type f)) flds (q_conv q) \<and> sl_wf (q_line q) \<and> sl_len (q_line q) = bufsz"

definition query_at :: "bool \<Rightarrow> SqlRow \<Rightarrow> query \<Rightarrow> bool" where
  "query_at inner row q \<longleftrightarrow> same_row row (st_row (q_sql q)) \<and> (inner \<longrightarrow> st_row (q_sql q) = row)"

definition row_hit :: "sql_libs \<Rightarrow> SqlAny \<Rightarrow> SqlRow \<Rightarrow> bool" where
  "row_hit L e row \<longleftrightarrow> meaning e L row = Inr True"

lemma query_where_law:
  assumes "query_inv L inner e load flds gs rw bufsz q" "row_ok L ts e flds rw bufsz row"
  shows "\<exists>q'. query_Where L e load row q = Inr (row_hit L e row, q') \<and>
    query_inv L inner e load flds gs rw bufsz q' \<and> query_at inner row q' \<and> q_out q' = q_out q"
proof -
  let ?r = "load (st_row (q_sql q)) row"
  let ?s = "(q_sql q)\<lparr>st_row := ?r\<rparr>"
  have q: "steady inner e" "eval_inv L e (q_sql q)" "covered e [] (dom (st_getter (q_sql q))) (st_frame (q_sql q))" "same_kind rw (st_row (q_sql q))"
    and l: "same_row row ?r" "inner \<longrightarrow> ?r = row"
    using assms(1) by (auto simp: query_inv_def loads_def)
  have k0: "same_kind rw ?r" using assms(2) same_row_kind[OF l(1)] by (simp add: row_ok_def)
  have k: "same_kind (st_row (q_sql q)) ?r" using k0 q(4) same_kind_trans by blast
  have "eval_inv L e ?s" using q(2) row_Field_kind[OF k] by (simp add: eval_inv_def good_def caches_ok_def)
  then have "evals L e inner ?s (any_Bool e L [] ?s) (meaning e L ?r)"
    using Bool_meaning[of e "[]" e ?s L inner] q(1,3) by simp
  moreover have "meaning e L ?r = meaning e L row"
    using l q(1) meaning_same[of e row ?r L] by (cases inner) auto
  moreover obtain b where b: "meaning e L row = Inr b" using assms(2) by (auto simp: row_ok_def)
  ultimately obtain t where t: "any_Bool e L [] ?s = Inr (b, t)" "later L e inner ?s t" by (auto simp: evals_def)
  have "same_kind rw (st_row t)" using k0 t(2) same_row_kind[of ?r "st_row t"] by (simp add: later_def)
  moreover have "same_row row (st_row t)" using l(1) t(2) same_row_trans by (auto simp: later_def)
  ultimately show ?thesis using t b assms(1) l(2)
    by (simp add: query_Where_def Let_def row_hit_def query_inv_def query_at_def later_def)
qed

lemma columns_read:
  assumes "list_all2 (\<lambda>f g. row_Field rw f = Inr g) flds gs" "same_kind rw r" "same_row row r" "inner \<longrightarrow> r = row"
    "columns_ok inner flds" "list_all (\<lambda>f. \<exists>v. read_field row f = Inr v) flds"
  shows "list_all2 (\<lambda>g v. g r = Inr v) gs (row_values flds row)"
  using assms
proof (induction flds arbitrary: gs)
  case (Cons f flds)
  then obtain g gs' where g: "gs = g # gs'" "row_Field rw f = Inr g" "list_all2 (\<lambda>f g. row_Field rw f = Inr g) flds gs'"
    by (auto simp: list_all2_Cons1)
  obtain v where v: "read_field row f = Inr v" using Cons.prems(6) by auto
  have "read_field r f = read_field row f"
    using Cons.prems(4,5) read_same[OF Cons.prems(3), of f] by (cases inner) (auto simp: columns_ok_def)
  then have "g r = Inr v" using v g(2) row_Field_kind[OF Cons.prems(2)] by (simp add: read_field_def)
  moreover have "list_all2 (\<lambda>g v. g r = Inr v) gs' (row_values flds row)"
    using Cons.prems g(3) by (intro Cons.IH) (auto simp: columns_ok_def)
  ultimately show ?case using g(1) v by (simp add: row_values_def)
qed (simp add: row_values_def)

lemma row_values_types:
  "list_all (\<lambda>f. \<exists>v. read_field row f = Inr v) flds \<Longrightarrow> map val_Type (row_values flds row) = map col_type flds"
  using read_typed by (induction flds) (auto simp: row_values_def)

lemma conv_for_columns:
  assumes "list_all2 (\<lambda>f c. c = None \<or> c = Some (col_type f)) flds cs" "map val_Type vs = map col_type flds"
  shows "list_all2 conv_for vs cs"
proof -
  have "length vs = length flds" using assms(2) by (metis length_map)
  moreover have "val_Type (vs ! i) = col_type (flds ! i)" if "i < length flds" for i
    using assms(2) that calculation by (metis nth_map)
  ultimately show ?thesis using assms(1) by (auto simp: list_all2_conv_all_nth conv_for_def)
qed

lemma query_send_law:
  assumes "query_inv L inner e load flds gs rw bufsz q" "query_at inner row q" "row_ok L ts e flds rw bufsz row"
  shows "\<exists>q'. query_Send ts gs row' q = Inr (True, q') \<and> query_inv L inner e load flds gs rw bufsz q' \<and>
    q_out q' = q_out q @ row_line ts flds row"
proof -
  let ?vs = "row_values flds row" and ?r = "st_row (q_sql q)"
  let ?n = "length (csv_line ts ?vs)"
  have q: "list_all2 (\<lambda>f g. row_Field rw f = Inr g) flds gs" "same_kind rw ?r" "columns_ok inner flds" "gs \<noteq> []"
    "list_all2 (\<lambda>f c. c = None \<or> c = Some (col_type f)) flds (q_conv q)" "sl_wf (q_line q)" "sl_len (q_line q) = bufsz"
    using assms(1) by (auto simp: query_inv_def)
  have a: "same_row row ?r" "inner \<longrightarrow> ?r = row" using assms(2) by (auto simp: query_at_def)
  have ok: "list_all (\<lambda>f. \<exists>v. read_field row f = Inr v) flds" "?n < bufsz" using assms(3) by (auto simp: row_ok_def)
  have ty: "map val_Type ?vs = map col_type flds" by (rule row_values_types[OF ok(1)])
  have p: "Getters_Printer ts gs ?r (q_conv q) (q_line q) =
      Inr (map (Some \<circ> val_Type) ?vs, overwrite (q_line q) (bytes_of_string (csv_line ts ?vs)), ?n)"
    using q ok(2) columns_read[OF q(1,2) a q(3) ok(1)] conv_for_columns[OF q(5) ty] by (intro Getters_Printer_ok) auto
  have nl: "byte_of_char (char_of (10::nat)) = 10" by (simp add: byte_of_char_def)
  let ?b = "overwrite (q_line q) (bytes_of_string (csv_line ts ?vs) @ [10])"
  have sep: "slice_set (overwrite (q_line q) (bytes_of_string (csv_line ts ?vs))) ?n 10 = Inr ?b"
    using separator_step[of ?n "csv_line ts ?vs" "q_line q" "char_of (10::nat)"] q(6,7) ok(2) nl by simp
  have len: "?n + 1 \<le> length (sl_arr (q_line q))" using q(6,7) ok(2) by (simp add: sl_wf_def)
  have out: "slice_to ?b (?n + 1) = Inr (?b\<lparr>sl_len := ?n + 1\<rparr>)" "sl_bytes (?b\<lparr>sl_len := ?n + 1\<rparr>) = row_line ts flds row"
    using len by (simp_all add: slice_to_def sl_bytes_def row_line_def overwrite_def)
  have cs: "list_all2 (\<lambda>f c. c = None \<or> c = Some (col_type f)) flds (map (Some \<circ> val_Type) ?vs)"
  proof -
    have "map (Some \<circ> val_Type) ?vs = map (Some \<circ> col_type) flds" using arg_cong[OF ty, of "map Some"] by simp
    then show ?thesis by (simp add: list_all2_conv_all_nth)
  qed
  have wf: "sl_wf ?b" "sl_len ?b = bufsz" using len q(6,7) by (auto simp: sl_wf_def overwrite_def)
  show ?thesis using p sep out cs wf assms(1) by (simp add: query_Send_def query_inv_def)
qed


interpretation queries: csv_source "query_Where L e load" "query_Send ts gs" "query_inv L inner e load flds gs rw bufsz"
    "\<lambda>row q. query_inv L inner e load flds gs rw bufsz q \<and> query_at inner row q" "row_ok L ts e flds rw bufsz" "row_hit L e"
    "row_line ts flds" q_out
  for L e load ts gs inner flds rw bufsz
proof
  show "\<And>s row. query_inv L inner e load flds gs rw bufsz s \<Longrightarrow> row_ok L ts e flds rw bufsz row \<Longrightarrow>
      \<exists>s'. query_Where L e load row s = Inr (row_hit L e row, s') \<and>
        (query_inv L inner e load flds gs rw bufsz s' \<and> query_at inner row s') \<and> q_out s' = q_out s"
    using query_where_law by fastforce
  show "\<And>row s. query_inv L inner e load flds gs rw bufsz s \<and> query_at inner row s \<Longrightarrow> row_ok L ts e flds rw bufsz row \<Longrightarrow>
      \<exists>s'. query_Send ts gs row s = Inr (True, s') \<and> query_inv L inner e load flds gs rw bufsz s' \<and> q_out s' = q_out s @ row_line ts flds row"
    using query_send_law by blast
qed simp

lemma query_inv_init:
  assumes "any_WithRow e [] (new_state row) = Inr s" "steady inner e" "loads inner load" "columns_ok inner flds" "gs \<noteq> []"
    "list_all2 (\<lambda>f g. row_Field row f = Inr g) flds gs"
  shows "query_inv L inner e load flds gs row bufsz
    \<lparr>q_sql = s, q_conv = replicate (length gs) None, q_line = make_slice bufsz, q_out = out0\<rparr>"
proof -
  have b: "binds e e [] (new_state row) s" using WithRow_binds[OF assms(1), of e] by (simp add: good_def new_state_def)
  then have s: "st_row s = row" "st_compare s = Map.empty" by (auto simp: binds_def grows_def new_state_def)
  have "same_kind row row" by (cases row) (simp_all add: same_kind_def)
  moreover have "length flds = length gs" using assms(6) by (rule list_all2_lengthD)
  ultimately show ?thesis using b s assms
    by (simp add: query_inv_def eval_inv_def binds_def caches_ok_def list_all2_conv_all_nth make_slice_def sl_wf_def)
qed

definition where_clause :: "SelectParser \<Rightarrow> SqlAny" where
  "where_clause sp = (case sp_where sp of None \<Rightarrow> Const (SqlBool True) | Some e \<Rightarrow> e)"

subsection \<open>Properties\<close>



definition sample_modules :: Select where
  "sample_modules = \<lparr>sel_Distinct = [], sel_From = [AliasedTableExpr (TableName [] ''modules'') []],
     sel_SelectExprs = [StarExpr [] []], sel_Where = None, sel_GroupBy = False, sel_Having = False, sel_OrderBy = False,
     sel_Limit = Some \<lparr>lim_Offset = None, lim_Rowcount = Some (SQLVal IntVal ''3'')\<rparr>\<rparr>"

definition module_row :: "string \<Rightarrow> SqlRow" where
  "module_row n = GoModuleRow \<lparr>gm_Name = n, gm_MinPC = 0, gm_MaxPC = 1\<rparr>"

lemma sample_modules_parse:
  "\<exists>sp. ParseSelect (\<lambda>_. Some (Some sample_modules)) (=) ''q'' = Inr (Inr sp) \<and> tb_Name (sp_table sp) = ''modules'' \<and>
    sp_fields sp = [\<lparr>f_Table = ''modules'', f_Name = ''module'', f_AliasName = ''module''\<rparr>] \<and> sp_where sp = None \<and> SelectParser_Limit sp = (0, 3)"
  by (simp add: ParseSelect_def Parse_def new_SelectParser_def sample_modules_def parseFrom_def findTableByName_def tables_def parseCols_def
      star_fields_def field_found_def HasField_def Parse_where_def Parse_tail_def parseLimit_def limit_value_def ParseInt_3 SelectParser_Limit_def)

lemma module_row_reads:
  "read_field (module_row n) \<lparr>f_Table = ''modules'', f_Name = ''module'', f_AliasName = ''module''\<rparr> = Inr (SqlString n)"
  by (simp add: read_field_def row_Field_def module_row_def GoModuleRow_Field_def Let_def)


text \<open>Collecting the rows instead of printing them shows which ones are sent.\<close>

definition collect_where :: "('row \<Rightarrow> bool) \<Rightarrow> 'row \<Rightarrow> 'row list \<Rightarrow> (bool \<times> 'row list) go" where
  "collect_where p row s = Inr (p row, s)"

definition collect_send :: "'row \<Rightarrow> 'row list \<Rightarrow> (bool \<times> 'row list) go" where
  "collect_send row s = Inr (True, s @ [row])"

interpretation collected: csv_source "collect_where p" collect_send "\<lambda>s. True" "\<lambda>row s. True" "\<lambda>row. True" p "\<lambda>row. [row]" "\<lambda>s. s" for p
  by unfold_locales (auto simp: collect_where_def collect_send_def)

lemma concat_singles: "concat (map (\<lambda>x. [x]) xs) = xs"
  by (induction xs) auto

text \<open>
  LIMIT sends one row too few, OFFSET skips one row too few. Lines are counted from one: with \<open>LIMIT n\<close> the
  first \<open>n - 1\<close> hits are sent, and with \<open>LIMIT n OFFSET m\<close> the \<open>n\<close> hits from the \<open>m\<close>-th on, where SQL asks for
  those after the \<open>m\<close>-th; without LIMIT all hits are sent.
\<close>

theorem Limit_window_is_off_by_one:
  assumes "0 \<le> sint off" "sint off + sint lim < 2 ^ 63" "length rows < 2 ^ 63"
  shows "Run_loop (collect_where p) collect_send off lim (map Inr rows) 0 [] =
    Inr (if 0 < sint lim
         then (if off = 0 then take (nat (sint lim) - 1) (filter p rows)
               else take (nat (sint lim)) (drop (nat (sint off) - 1) (filter p rows)))
         else drop (nat (sint off) - 1) (filter p rows))"
proof -
  have "Run_loop (collect_where p) collect_send off lim (map Inr rows) 0 [] = Inr (sent (sint off) (sint lim) 0 (filter p rows))"
    using collected.run_sends[OF assms(1,2), where k = 0 and xs = rows and s = "[]" and p = p] assms(3) by (simp add: concat_singles list_all_iff)
  moreover have "off = 0 \<longleftrightarrow> sint off = 0" by (metis signed_eq_0_iff)
  moreover have "nat (sint off - 1) = nat (sint off) - 1" "nat (sint off + sint lim - 1) - nat (sint off - 1) = nat (sint lim)" if "0 < sint lim" "sint off \<noteq> 0"
    using that assms(1) by auto
  moreover have "nat (sint lim - 1) = nat (sint lim) - 1" "nat (sint off - 1) = nat (sint off) - 1" by auto
  ultimately show ?thesis by (auto simp: sent_limited sent_unlimited drop_take)
qed

theorem Limit_window_is_off_by_one_witness:
  "Run_loop (collect_where (\<lambda>x. True)) collect_send 0 2 (map Inr [1, 2, 3 :: nat]) 0 [] = Inr [1]"
  using Limit_window_is_off_by_one[of 0 2 "[1, 2, 3 :: nat]" "\<lambda>x. True"] by simp

subsubsection \<open>The tables are read completely\<close>

definition frame_rows :: "FuncLog \<Rightarrow> (unit + FuncLog \<times> int) list" where
  "frame_rows fl = map (\<lambda>i. Inr (fl, int i)) [0..<max 1 (length (fl_Frames fl))]"

lemma frame_rows_Cons:
  "frame_rows fl = Inr (fl, 0) # map (\<lambda>i. Inr (fl, int i)) [0 + 1..<length (fl_Frames fl)]"
proof -
  have "[0..<max 1 (length (fl_Frames fl))] = 0 # [0 + 1..<length (fl_Frames fl)]"
    by (cases "length (fl_Frames fl)") (simp_all add: upt_conv_Cons del: upt_Suc)
  then show ?thesis unfolding frame_rows_def by (simp only: list.map semiring_1_class.of_nat_0)
qed

lemma record_id:
  fixes k :: nat
  assumes "k \<le> n" "n < 2 ^ 63"
  shows "sint (word_of_nat k :: int64) = int k"
  using assms by (simp add: signed_of_nat signed_take_bit_int_eq_self)

lemma frames_read_on:
  assumes "length fls < 2 ^ 63" "\<forall>i < length fls. get (word_of_nat i) = Inr (fls ! i)" "n = word_of_nat (length fls)"
    "rd_id r = word_of_nat k" "k < length fls" "rd_offset r = int j" "rd_fl r = fls ! k"
    "rest = map (\<lambda>i. Inr (fls ! k, int i)) [j + 1..<length (fl_Frames (fls ! k))] @ concat (map frame_rows (drop (k + 1) fls))" "length rest < fuel"
  shows "read_rows fuel (frames_Read get n) r = Some rest"
  using assms(4-9)
proof (induction fuel arbitrary: r k j rest)
  case (Suc fuel)
  let ?len = "length (fl_Frames (fls ! k))"
  show ?case
  proof (cases "j + 1 < ?len")
    case True
    let ?r = "r\<lparr>rd_offset := int (j + 1), rd_row_offset := int (j + 1)\<rparr>"
    have rd: "frames_Read get n r = (ReadRow, ?r)" using True Suc.prems by (simp add: frames_Read_def Let_def add.commute)
    have rest: "rest = Inr (fls ! k, int (j + 1)) # map (\<lambda>i. Inr (fls ! k, int i)) [j + 1 + 1..<?len] @ concat (map frame_rows (drop (k + 1) fls))"
      using Suc.prems(5) True by (simp add: upt_conv_Cons)
    have "read_rows fuel (frames_Read get n) ?r = Some (map (\<lambda>i. Inr (fls ! k, int i)) [j + 1 + 1..<?len] @ concat (map frame_rows (drop (k + 1) fls)))"
      using Suc.prems rest by (intro Suc.IH[of ?r k "j + 1"]) auto
    then show ?thesis using rd rest Suc.prems(4) by simp
  next
    case False
    then have rest: "rest = concat (map frame_rows (drop (k + 1) fls))" using Suc.prems(5) by simp
    have id: "rd_id r + 1 = word_of_nat (k + 1)" using Suc.prems(1) by (simp add: add.commute)
    have s: "sint (word_of_nat (k + 1) :: int64) = int (k + 1)" "sint n = int (length fls)"
      using record_id[of "k + 1" "length fls"] record_id[of "length fls" "length fls"] assms(1,3) Suc.prems(2) by auto
    show ?thesis
    proof (cases "k + 1 < length fls")
      case fin: False
      then have "frames_Read get n r = (ReadEOF, r\<lparr>rd_id := word_of_nat (k + 1), rd_offset := 0\<rparr>)"
        unfolding frames_Read_def Let_def using False Suc.prems s id by (simp del: of_nat_Suc of_nat_add)
      then show ?thesis using rest fin by simp
    next
      case True
      let ?fl = "fls ! (k + 1)"
      let ?r = "r\<lparr>rd_id := word_of_nat (k + 1), rd_offset := 0, rd_fl := ?fl, rd_row_offset := 0\<rparr>"
      have g: "get (word_of_nat (k + 1)) = Inr ?fl" using assms(2) True by blast
      have rd: "frames_Read get n r = (ReadRow, ?r)"
        unfolding frames_Read_def Let_def using False Suc.prems s True g id by (simp del: of_nat_Suc of_nat_add)
      have d: "drop (k + 1) fls = ?fl # drop (k + 1 + 1) fls" using True by (simp add: Cons_nth_drop_Suc)
      have rest': "rest = Inr (?fl, 0) # map (\<lambda>i. Inr (?fl, int i)) [0 + 1..<length (fl_Frames ?fl)] @ concat (map frame_rows (drop (k + 1 + 1) fls))"
        unfolding rest d using frame_rows_Cons[of ?fl] by simp
      have "read_rows fuel (frames_Read get n) ?r = Some (map (\<lambda>i. Inr (?fl, int i)) [0 + 1..<length (fl_Frames ?fl)] @ concat (map frame_rows (drop (k + 1 + 1) fls)))"
        by (rule Suc.IH[of ?r "k + 1" 0]) (use True rest' Suc.prems(6) in auto)
      then show ?thesis using rd rest' by simp
    qed
  qed
qed simp


lemma calls_read_on:
  assumes "length fls < 2 ^ 63" "\<forall>i < length fls. get (word_of_nat i) = Inr (fls ! i)" "n = word_of_nat (length fls)"
    "rd_id r + 1 = word_of_nat k" "k \<le> length fls" "length fls - k < fuel"
  shows "read_rows fuel (calls_Read get n) r = Some (map (\<lambda>fl. Inr (fl, rd_row_offset r)) (drop k fls))"
  using assms(4-6)
proof (induction fuel arbitrary: r k)
  case (Suc fuel)
  have s: "sint (word_of_nat k :: int64) = int k" "sint n = int (length fls)"
    using record_id[of k "length fls"] record_id[of "length fls" "length fls"] assms(1,3) Suc.prems(2) by auto
  show ?case
  proof (cases "k < length fls")
    case False
    then have "calls_Read get n r = (ReadEOF, r\<lparr>rd_id := word_of_nat k\<rparr>)"
      unfolding calls_Read_def Let_def using Suc.prems s by simp
    then show ?thesis using False by simp
  next
    case True
    let ?r = "r\<lparr>rd_id := word_of_nat k, rd_fl := fls ! k\<rparr>"
    have rd: "calls_Read get n r = (ReadRow, ?r)" unfolding calls_Read_def Let_def using Suc.prems s True assms(2) by simp
    have "read_rows fuel (calls_Read get n) ?r = Some (map (\<lambda>fl. Inr (fl, rd_row_offset ?r)) (drop (k + 1) fls))"
      using True Suc.prems by (intro Suc.IH) (auto simp: add.commute)
    moreover have "drop k fls = fls ! k # drop (k + 1) fls" using True by (simp add: Cons_nth_drop_Suc)
    ultimately show ?thesis using rd by simp
  qed
qed simp

text \<open>
  C36. A query sees every call and every frame once, in order. Over a store of calls, the \<open>Read\<close> of the table
  of calls delivers each record, and the \<open>Read\<close> of the table of frames each record with each offset of its
  frames (a record without frames comes once, with offset 0); both then report the end. Calls of \<open>Read\<close> one
  more than there are rows are enough.
\<close>

theorem Tables_are_read_completely:
  assumes "length fls < 2 ^ 63" "\<forall>i < length fls. get (word_of_nat i) = Inr (fls ! i)" "n = word_of_nat (length fls)"
    "length fls < fuel" "length (concat (map frame_rows fls)) < fuel"
  shows "read_rows fuel (calls_Read get n) (init_reader fl) = Some (map (\<lambda>fl. Inr (fl, 0)) fls) \<and>
    read_rows fuel (frames_Read get n) (init_reader fl) = Some (concat (map frame_rows fls))"
proof
  show "read_rows fuel (calls_Read get n) (init_reader fl) = Some (map (\<lambda>fl. Inr (fl, 0)) fls)"
    using calls_read_on[OF assms(1-3), of "init_reader fl" 0 fuel] assms(4) by (simp add: init_reader_def)
  show "read_rows fuel (frames_Read get n) (init_reader fl) = Some (concat (map frame_rows fls))"
  proof (cases fls)
    case Nil
    then show ?thesis using assms(3,5) by (cases fuel) (simp_all add: frames_Read_def init_reader_def Let_def)
  next
    case (Cons f fs)
    obtain fu where fu: "fuel = Suc fu" using assms(5) by (cases fuel) auto
    let ?r = "\<lparr>rd_id = word_of_nat 0, rd_offset = int 0, rd_fl = fls ! 0, rd_row_offset = 0\<rparr>"
    have g: "get 0 = Inr f" using assms(2) Cons by force
    have "sint n = int (length fls)" using record_id[of "length fls" "length fls"] assms(1,3) by auto
    then have rd: "frames_Read get n (init_reader fl) = (ReadRow, ?r)"
      using Cons g by (simp add: frames_Read_def init_reader_def Let_def)
    let ?rest = "map (\<lambda>i. Inr (fls ! 0, int i)) [0 + 1..<length (fl_Frames (fls ! 0))] @ concat (map frame_rows (drop (0 + 1) fls))"
    have c: "concat (map frame_rows fls) = Inr (f, 0) # ?rest" using Cons frame_rows_Cons[of f] by simp
    have "read_rows fu (frames_Read get n) ?r = Some ?rest"
      by (rule frames_read_on[OF assms(1-3), of ?r 0 0 ?rest fu]) (use Cons c assms(5) fu in auto)
    then show ?thesis using rd c fu Cons by simp
  qed
qed

theorem Tables_are_read_completely_witness:
  "read_rows 5 (calls_Read (\<lambda>i. Inr (sample_fl i 3)) 1) (init_reader (sample_fl 0 3)) = Some (map (\<lambda>fl. Inr (fl, 0)) [sample_fl 0 3]) \<and>
   read_rows 5 (frames_Read (\<lambda>i. Inr (sample_fl i 3)) 1) (init_reader (sample_fl 0 3)) = Some (concat (map frame_rows [sample_fl 0 3]))"
  by (rule Tables_are_read_completely) (simp_all add: frame_rows_def sample_fl_def)

end
