(* ===== verification/Layout.thy ===== *)
theory Layout
  imports Files Types Strings
begin

section \<open>Layout: where a log keeps its files (\<open>tracer/storage/dirlayout.go\<close>, \<open>info.go\<close>)\<close>

text \<open>
  A storage directory has a file of format information and two subdirectories; each log has six kinds
  of files in them, named after its identifier. Names are built with \<open>path.Join\<close>, modelled here with the
  cleaning of \<open>package path\<close>. \<open>os.MkdirAll\<close> is one I/O call; the directories themselves are not part of
  the world. \<open>encoding/json\<close> of the format information is the argument \<open>info_json\<close>/\<open>json_info\<close>.
\<close>

subsection \<open>\<open>package path\<close>\<close>

fun split_slash :: "string \<Rightarrow> string list" where
  "split_slash [] = [[]]"
| "split_slash (c # cs) = (if c = CHR ''/'' then [] # split_slash cs
     else (case split_slash cs of [] \<Rightarrow> [[c]] | p # ps \<Rightarrow> (c # p) # ps))"

fun join_slash :: "string list \<Rightarrow> string" where
  "join_slash [] = []"
| "join_slash [p] = p"
| "join_slash (p # ps) = p @ ''/'' @ join_slash ps"

text \<open>The parts of a cleaned path, innermost first; \<open>..\<close> drops a part, and stays only at the front of a relative path.\<close>

definition clean_part :: "bool \<Rightarrow> string \<Rightarrow> string list \<Rightarrow> string list" where
  "clean_part rooted p acc =
     (if p = [] \<or> p = ''.'' then acc
      else if p = ''..'' then
        (case acc of
           [] \<Rightarrow> if rooted then [] else [''..'']
         | q # qs \<Rightarrow> if q = ''..'' then p # acc else qs)
      else p # acc)"

definition path_rooted :: "string \<Rightarrow> bool" where
  "path_rooted p \<longleftrightarrow> HasPrefix p ''/''"

definition path_parts :: "string \<Rightarrow> string list" where
  "path_parts p = rev (fold (clean_part (path_rooted p)) (split_slash p) [])"

definition path_Clean :: "string \<Rightarrow> string" where
  "path_Clean p =
     (let r = (if path_rooted p then ''/'' else []) @ join_slash (path_parts p)
      in if r = [] then ''.'' else r)"

definition path_Join :: "string list \<Rightarrow> string" where
  "path_Join es =
     (let es = filter (\<lambda>e. e \<noteq> []) es in if es = [] then [] else path_Clean (join_slash es))"

subsection \<open>\<open>Info\<close>\<close>

type_synonym Version = uint64

definition MajorVersion :: Version where "MajorVersion = 0"
definition MinorVersion :: Version where "MinorVersion = 0"

record Info =
  info_MajorVersion :: Version
  info_MinorVersion :: Version

definition IsCompatible :: "Info \<Rightarrow> bool" where
  "IsCompatible i \<longleftrightarrow> info_MajorVersion i = MajorVersion"

subsection \<open>\<open>DirLayout\<close>\<close>

record DirLayout =
  dl_Root :: string

definition InfoFile :: "DirLayout \<Rightarrow> string" where
  "InfoFile d = path_Join [dl_Root d, ''info.json'']"

definition TracersFile :: "DirLayout \<Rightarrow> string" where
  "TracersFile d = path_Join [dl_Root d, ''tracers.json'']"

definition MetaDir :: "DirLayout \<Rightarrow> string" where
  "MetaDir d = path_Join [dl_Root d, ''meta'']"

definition DataDir :: "DirLayout \<Rightarrow> string" where
  "DataDir d = path_Join [dl_Root d, ''data'']"

definition Fname2LogID :: "string \<Rightarrow> LogID \<times> bool" where
  "Fname2LogID fname =
     (if \<not> HasSuffix fname ''.meta.json'' then (zero_LogID, False)
      else case hex_DecodeString (TrimSuffix fname ''.meta.json'') of
             None \<Rightarrow> (zero_LogID, False)
           | Some binid \<Rightarrow> if length binid \<noteq> length zero_LogID then (zero_LogID, False) else (binid, True))"

definition MetaFile :: "DirLayout \<Rightarrow> LogID \<Rightarrow> string" where
  "MetaFile d i = path_Join [MetaDir d, LogID_Hex i @ ''.meta.json'']"

definition RawFuncLogFile :: "DirLayout \<Rightarrow> LogID \<Rightarrow> int64 \<Rightarrow> string" where
  "RawFuncLogFile d i n = path_Join [DataDir d, LogID_Hex i @ ''.'' @ FormatInt n @ ''.rawfunc.log'']"

definition FuncLogFile :: "DirLayout \<Rightarrow> LogID \<Rightarrow> int64 \<Rightarrow> string" where
  "FuncLogFile d i n = path_Join [DataDir d, LogID_Hex i @ ''.'' @ FormatInt n @ ''.func.log'']"

definition GoroutineLogFile :: "DirLayout \<Rightarrow> LogID \<Rightarrow> int64 \<Rightarrow> string" where
  "GoroutineLogFile d i n = path_Join [DataDir d, LogID_Hex i @ ''.'' @ FormatInt n @ ''.goroutine.log'']"

definition SymbolFile :: "DirLayout \<Rightarrow> LogID \<Rightarrow> string" where
  "SymbolFile d i = path_Join [DataDir d, LogID_Hex i @ ''.symbol'']"

definition IndexFile :: "DirLayout \<Rightarrow> LogID \<Rightarrow> string" where
  "IndexFile d i = path_Join [DataDir d, LogID_Hex i @ ''.index'']"

definition mkdir :: "world \<Rightarrow> string \<Rightarrow> error option \<times> world" where
  "mkdir w dir = (case next_fault w of (Some _, w) \<Rightarrow> (Some EIO, w) | (None, w) \<Rightarrow> (None, w))"

definition Init_info :: "(Info \<Rightarrow> byte list) \<Rightarrow> (byte list \<Rightarrow> Info option) \<Rightarrow> world \<Rightarrow> DirLayout \<Rightarrow> error option \<times> world" where
  "Init_info info_json json_info w d =
     (if File_Exists w (InfoFile d) then
        (case ReadAll w (InfoFile d) of
           (data, Some e, w) \<Rightarrow> (Some e, w)
         | (data, None, w) \<Rightarrow>
             (case json_info data of
                None \<Rightarrow> (Some DecodeError, w)
              | Some info \<Rightarrow>
                  if \<not> IsCompatible info then (Some (ErrInvalid ''data format is not compatible''), w) else (None, w)))
      else
        (case OpenWriteOnly w (InfoFile d) of
           (None, e, w) \<Rightarrow> (e, w)
         | (Some h, _, w) \<Rightarrow>
             (case os_Write w h (info_json \<lparr>info_MajorVersion = MajorVersion, info_MinorVersion = MinorVersion\<rparr>) of
                (h, n, Some e, w) \<Rightarrow> (Some e, w)
              | (h, n, None, w) \<Rightarrow> (case os_Close w h of (h, e, w) \<Rightarrow> (e, w)))))"

definition DirLayout_Init :: "(Info \<Rightarrow> byte list) \<Rightarrow> (byte list \<Rightarrow> Info option) \<Rightarrow> world \<Rightarrow> DirLayout \<Rightarrow> error option \<times> world" where
  "DirLayout_Init info_json json_info w d =
     (case mkdir w (dl_Root d) of
        (Some e, w) \<Rightarrow> (Some e, w)
      | (None, w) \<Rightarrow>
          (case Init_info info_json json_info w d of
             (Some e, w) \<Rightarrow> (Some e, w)
           | (None, w) \<Rightarrow>
               (case mkdir w (MetaDir d) of
                  (Some e, w) \<Rightarrow> (Some e, w)
                | (None, w) \<Rightarrow> mkdir w (DataDir d))))"

subsection \<open>Paths\<close>

text \<open>A name that \<open>Join\<close> keeps as it is: the last part of the path.\<close>

definition plain_name :: "string \<Rightarrow> bool" where
  "plain_name n \<longleftrightarrow> CHR ''/'' \<notin> set n \<and> n \<noteq> [] \<and> n \<noteq> ''.'' \<and> n \<noteq> ''..''"

lemma split_slash_nonempty [simp]: "split_slash s \<noteq> []"
  by (induction s) (auto split: list.splits)

lemma split_slash_name: "CHR ''/'' \<notin> set n \<Longrightarrow> split_slash n = [n]"
  by (induction n) auto

lemma split_slash_append: "split_slash (s @ ''/'' @ t) = split_slash s @ split_slash t"
proof (induction s)
  case (Cons c s)
  then show ?case by (cases "split_slash s") auto
qed simp

lemma split_slash_parts: "p \<in> set (split_slash s) \<Longrightarrow> CHR ''/'' \<notin> set p"
proof (induction s arbitrary: p)
  case (Cons c s)
  then show ?case by (cases "split_slash s") (auto split: if_splits)
qed simp

lemma join_slash_snoc: "ps \<noteq> [] \<Longrightarrow> join_slash (ps @ [n]) = join_slash ps @ ''/'' @ n"
  by (induction ps rule: join_slash.induct) auto

lemma split_join: "list_all (\<lambda>p. CHR ''/'' \<notin> set p) ps \<Longrightarrow> ps \<noteq> [] \<Longrightarrow> split_slash (join_slash ps) = ps"
  by (induction ps rule: join_slash.induct) (auto simp: split_slash_name split_slash_append simp del: append_Cons)

text \<open>The text that \<open>Join\<close> puts before a name: the cleaned directory and a slash.\<close>

definition dir_prefix :: "string \<Rightarrow> string" where
  "dir_prefix d = (if path_rooted d then ''/'' else []) @ concat (map (\<lambda>p. p @ ''/'') (path_parts d))"

lemma join_slash_concat: "join_slash (ps @ [n]) = concat (map (\<lambda>p. p @ ''/'') ps) @ n"
  by (induction ps rule: join_slash.induct) auto

lemma path_parts_join:
  assumes "plain_name n" "d \<noteq> []"
  shows "path_parts (d @ ''/'' @ n) = path_parts d @ [n]" "path_rooted (d @ ''/'' @ n) = path_rooted d"
proof -
  show r: "path_rooted (d @ ''/'' @ n) = path_rooted d" using assms(2) by (cases d) (auto simp: path_rooted_def HasPrefix_def)
  show "path_parts (d @ ''/'' @ n) = path_parts d @ [n]"
    using assms(1) unfolding path_parts_def r split_slash_append by (simp add: split_slash_name plain_name_def clean_part_def)
qed

lemma path_Join_name:
  assumes "plain_name n"
  shows "path_Join [d, n] = dir_prefix d @ n"
proof (cases "d = []")
  case True
  have "hd n \<noteq> CHR ''/''" using assms by (cases n) (auto simp: plain_name_def)
  then show ?thesis using assms True
    by (simp add: path_Join_def plain_name_def path_Clean_def path_parts_def split_slash_name clean_part_def dir_prefix_def
        path_rooted_def HasPrefix_def Let_def take_Suc split: list.splits)
next
  case False
  then have "path_Join [d, n] = path_Clean (d @ ''/'' @ n)" using assms by (simp add: path_Join_def plain_name_def)
  also have "\<dots> = dir_prefix d @ n"
    using assms False unfolding path_Clean_def path_parts_join[OF assms False] join_slash_concat
    by (auto simp: dir_prefix_def Let_def plain_name_def)
  finally show ?thesis .
qed

subsection \<open>Properties\<close>

text \<open>The files of a log.\<close>

datatype file_kind = Meta | SymbolCache | TimeIndex | RawLogs int64 | FuncLogs int64 | Goroutines int64

definition log_file :: "DirLayout \<Rightarrow> LogID \<Rightarrow> file_kind \<Rightarrow> string" where
  "log_file d i k =
     (case k of
        Meta \<Rightarrow> MetaFile d i | SymbolCache \<Rightarrow> SymbolFile d i | TimeIndex \<Rightarrow> IndexFile d i
      | RawLogs n \<Rightarrow> RawFuncLogFile d i n | FuncLogs n \<Rightarrow> FuncLogFile d i n | Goroutines n \<Rightarrow> GoroutineLogFile d i n)"

definition kind_suffix :: "file_kind \<Rightarrow> string" where
  "kind_suffix k =
     (case k of
        Meta \<Rightarrow> ''.meta.json'' | SymbolCache \<Rightarrow> ''.symbol'' | TimeIndex \<Rightarrow> ''.index''
      | RawLogs n \<Rightarrow> ''.'' @ FormatInt n @ ''.rawfunc.log'' | FuncLogs n \<Rightarrow> ''.'' @ FormatInt n @ ''.func.log''
      | Goroutines n \<Rightarrow> ''.'' @ FormatInt n @ ''.goroutine.log'')"

definition kind_dir :: "DirLayout \<Rightarrow> file_kind \<Rightarrow> string" where
  "kind_dir d k = (case k of Meta \<Rightarrow> MetaDir d | _ \<Rightarrow> DataDir d)"

lemma format_nat_chars: "c \<in> set (format_nat n) \<Longrightarrow> c \<notin> {CHR ''.'', CHR ''/''}"
proof -
  assume "c \<in> set (format_nat n)"
  then obtain k where "k < 10" "c = digit_char k" using format_nat_digits by blast
  then have "of_char c = (48 + k :: nat)" by (simp add: digit_char_def)
  then show ?thesis using \<open>k < 10\<close> by auto
qed

lemma FormatInt_chars: "c \<in> set (FormatInt n) \<Longrightarrow> c \<notin> {CHR ''.'', CHR ''/''}"
  using format_nat_chars by (auto simp: FormatInt_def split: if_splits)

lemma hex_chars: "c \<in> set (hex_EncodeToString bs) \<Longrightarrow> c \<notin> {CHR ''.'', CHR ''/''}"
proof (induction bs)
  case (Cons b bs)
  have "hex_char k \<notin> {CHR ''.'', CHR ''/''}" if "k < 16" for k
    using hex_val_hex_char[OF that] by (auto simp: hex_val_def)
  moreover have "unat b < 2 ^ LENGTH(8)" by (rule unsigned_less)
  then have "unat b div 16 < 16" by simp
  ultimately show ?case using Cons by auto
qed simp

lemma plain_log_name: "plain_name (LogID_Hex i @ kind_suffix k)"
proof -
  have "CHR ''/'' \<notin> set (LogID_Hex i)" using hex_chars[of "CHR ''/''"] by (auto simp: LogID_Hex_def)
  moreover have "CHR ''/'' \<notin> set (kind_suffix k)"
    using FormatInt_chars[of "CHR ''/''"] by (auto simp: kind_suffix_def split: file_kind.splits)
  moreover have "3 \<le> length (kind_suffix k)" by (auto simp: kind_suffix_def split: file_kind.splits)
  ultimately show ?thesis by (auto simp: plain_name_def append_eq_Cons_conv)
qed

lemma log_file_eq: "log_file d i k = dir_prefix (kind_dir d k) @ LogID_Hex i @ kind_suffix k"
proof -
  have "log_file d i k = path_Join [kind_dir d k, LogID_Hex i @ kind_suffix k]"
    by (simp add: log_file_def kind_dir_def kind_suffix_def MetaFile_def SymbolFile_def IndexFile_def RawFuncLogFile_def
        FuncLogFile_def GoroutineLogFile_def split: file_kind.splits)
  then show ?thesis using path_Join_name[OF plain_log_name] by simp
qed

lemma FormatInt_inject [simp]: "FormatInt n = FormatInt m \<longleftrightarrow> n = m"
  by (metis ParseInt_FormatInt fst_conv)

lemma FormatInt_dot_inject:
  assumes "FormatInt n @ ''.'' @ x = FormatInt m @ ''.'' @ y"
  shows "n = m" "x = y"
proof -
  have t: "takeWhile (\<lambda>c. c \<noteq> CHR ''.'') (FormatInt n @ ''.'' @ x) = FormatInt n" for n x
    using FormatInt_chars[of _ n] by (subst takeWhile_append2) auto
  have "FormatInt n = FormatInt m" using arg_cong[OF assms, of "takeWhile (\<lambda>c. c \<noteq> CHR ''.'')"] unfolding t .
  then show "n = m" by (simp only: FormatInt_inject)
  then show "x = y" using assms by simp
qed

lemma kind_suffix_inject: "kind_suffix k = kind_suffix m \<longleftrightarrow> k = m"
proof
  assume "kind_suffix k = kind_suffix m"
  then have "drop (length (kind_suffix k) - 5) (kind_suffix k) = drop (length (kind_suffix m) - 5) (kind_suffix m)" by simp
  then show "k = m" using \<open>kind_suffix k = kind_suffix m\<close>
    by (cases k; cases m) (auto simp: kind_suffix_def dest: FormatInt_dot_inject)
qed simp

lemma log_file_inject:
  assumes "LogID_wf i" "LogID_wf j"
  shows "log_file d i k = log_file d j m \<longleftrightarrow> i = j \<and> k = m"
proof
  assume e: "log_file d i k = log_file d j m"
  have l: "length (LogID_Hex i) = length (LogID_Hex j)" using assms by (simp add: LogID_Hex_length)
  show "i = j \<and> k = m"
  proof (cases "(k = Meta) = (m = Meta)")
    case True
    then have "kind_dir d k = kind_dir d m" by (auto simp: kind_dir_def split: file_kind.splits)
    then show ?thesis using e l by (simp add: log_file_eq kind_suffix_inject LogID_Hex_inject)
  next
    case False
    then have "last (kind_suffix k) \<noteq> last (kind_suffix m)" "kind_suffix k \<noteq> []" "kind_suffix m \<noteq> []"
      by (cases k; cases m; simp add: kind_suffix_def)+
    then show ?thesis using arg_cong[OF e, of last] by (simp add: log_file_eq)
  qed
qed simp

text \<open>
  C31. The files of a storage never collide. Two files of logs are the same path only if they are the same kind
  of file (with the same number) of the same log, none is the file of format information or of the
  tracers, and the identifier of a log is recovered from the name of its metadata file.
\<close>

theorem Log_files_never_collide:
  assumes "LogID_wf i" "LogID_wf j"
  shows "(log_file d i k = log_file d j m \<longleftrightarrow> i = j \<and> k = m) \<and>
    log_file d i k \<noteq> InfoFile d \<and> log_file d i k \<noteq> TracersFile d \<and>
    (\<exists>p. MetaFile d i = p @ LogID_Hex i @ ''.meta.json'') \<and>
    Fname2LogID (LogID_Hex i @ ''.meta.json'') = (i, True)"
proof -
  have f: "plain_name ''info.json''" "plain_name ''tracers.json''" by (simp_all add: plain_name_def)
  define tail where "tail = (\<lambda>s :: string. take 6 (rev s))"
  have "tail (InfoFile d) \<noteq> tail (log_file d i k)" "tail (TracersFile d) \<noteq> tail (log_file d i k)"
    by (cases k; simp add: tail_def InfoFile_def TracersFile_def path_Join_name f log_file_eq kind_suffix_def)+
  then have "log_file d i k \<noteq> InfoFile d" "log_file d i k \<noteq> TracersFile d" by auto
  moreover have "MetaFile d i = dir_prefix (MetaDir d) @ LogID_Hex i @ ''.meta.json''"
    using log_file_eq[of d i Meta] by (simp add: log_file_def kind_dir_def kind_suffix_def)
  moreover have "Fname2LogID (LogID_Hex i @ ''.meta.json'') = (i, True)"
    using assms(1) by (simp add: Fname2LogID_def LogID_Hex_def LogID_wf_def zero_LogID_def)
  ultimately show ?thesis using log_file_inject[OF assms] by blast
qed

theorem Log_files_never_collide_witness:
  "log_file \<lparr>dl_Root = ''/var/../log/''\<rparr> (replicate 16 1) (FuncLogs 0) = ''/log/data/01010101010101010101010101010101.0.func.log'' \<and>
   log_file \<lparr>dl_Root = ''/var/../log/''\<rparr> (replicate 16 1) (FuncLogs 0) \<noteq> log_file \<lparr>dl_Root = ''/var/../log/''\<rparr> (replicate 16 1) (RawLogs 0)"
proof -
  have "log_file \<lparr>dl_Root = ''/var/../log/''\<rparr> (replicate 16 1) (FuncLogs 0) = ''/log/data/01010101010101010101010101010101.0.func.log''"
    by code_simp
  then show ?thesis
    using Log_files_never_collide[of "replicate 16 1" "replicate 16 1" "\<lparr>dl_Root = ''/var/../log/''\<rparr>" "FuncLogs 0" "RawLogs 0"]
    by (simp add: LogID_wf_def)
qed

end
