(* ===== verification/Gob.thy ===== *)
theory Gob
  imports Files Types Symbols Machines
begin

section \<open>Gob: files of encoded values (\<open>tracer/storage/encdec.go\<close>, \<open>symbols.go\<close>, \<open>readwriter.go\<close>, \<open>compactlog.go\<close>)\<close>

text \<open>
  An \<open>Encoder\<close> appends values to a file through \<open>bufio\<close>, a \<open>Decoder\<close> reads them back; \<open>SymbolsStore\<close>,
  \<open>ParallelReadWriter\<close>, \<open>SplitReadWriter\<close> and \<open>CompactLog\<close> are built on them. \<open>encoding/gob\<close> is the
  argument \<open>L\<close>: \<open>gl_encode vs v\<close> are the writes an encoder makes for \<open>v\<close> when it has encoded \<open>vs\<close> before (it
  describes a type once only), \<open>gl_decode bs\<close> the values a decoder returns one after the other from the
  bytes \<open>bs\<close>, and the error it returns then. A nil \<open>*os.File\<close> behind an interface is a handle that is
  closed. The mutexes are taken and released by each method without nesting and left out.
\<close>

record 'v gob_lib =
  gl_encode :: "'v list \<Rightarrow> 'v \<Rightarrow> byte list list"
  gl_decode :: "byte list \<Rightarrow> 'v list \<times> error"

definition opened :: "string \<Rightarrow> handle option \<Rightarrow> handle" where
  "opened f h = (case h of Some h \<Rightarrow> h | None \<Rightarrow> \<lparr>h_path = f, h_cur = 0, h_append = False, h_open = False\<rparr>)"

subsection \<open>\<open>bufio.Writer\<close>\<close>

record bufio_Writer =
  bw_buf :: "byte list"
  bw_err :: "error option"

definition bufio_size :: nat where "bufio_size = 4096"

definition bufio_Flush :: "world \<Rightarrow> handle \<Rightarrow> bufio_Writer \<Rightarrow> error option \<times> handle \<times> bufio_Writer \<times> world" where
  "bufio_Flush w h b =
     (if bw_err b \<noteq> None then (bw_err b, h, b, w)
      else if bw_buf b = [] then (None, h, b, w)
      else case os_Write w h (bw_buf b) of
             (h, n, None, w) \<Rightarrow> (None, h, b\<lparr>bw_buf := []\<rparr>, w)
           | (h, n, Some e, w) \<Rightarrow> (Some e, h, \<lparr>bw_buf = drop n (bw_buf b), bw_err = Some e\<rparr>, w))"

text \<open>What does not fit into an empty buffer goes to the file directly.\<close>

definition bufio_put :: "world \<Rightarrow> handle \<Rightarrow> bufio_Writer \<Rightarrow> byte list \<Rightarrow> error option \<times> handle \<times> bufio_Writer \<times> world" where
  "bufio_put w h b p =
     (if length p \<le> bufio_size then (None, h, b\<lparr>bw_buf := p\<rparr>, w)
      else case os_Write w h p of (h, n, e, w) \<Rightarrow> (e, h, b\<lparr>bw_err := e\<rparr>, w))"

definition bufio_Write :: "world \<Rightarrow> handle \<Rightarrow> bufio_Writer \<Rightarrow> byte list \<Rightarrow> error option \<times> handle \<times> bufio_Writer \<times> world" where
  "bufio_Write w h b p =
     (let avail = bufio_size - length (bw_buf b) in
      if bw_err b \<noteq> None then (bw_err b, h, b, w)
      else if length p \<le> avail then (None, h, b\<lparr>bw_buf := bw_buf b @ p\<rparr>, w)
      else if bw_buf b = [] then bufio_put w h b p
      else case bufio_Flush w h (b\<lparr>bw_buf := bw_buf b @ take avail p\<rparr>) of
             (Some e, h, b, w) \<Rightarrow> (Some e, h, b, w)
           | (None, h, b, w) \<Rightarrow> bufio_put w h b (drop avail p))"

fun bufio_each :: "world \<Rightarrow> handle \<Rightarrow> bufio_Writer \<Rightarrow> byte list list \<Rightarrow> error option \<times> handle \<times> bufio_Writer \<times> world" where
  "bufio_each w h b [] = (None, h, b, w)"
| "bufio_each w h b (p # ps) =
     (case bufio_Write w h b p of
        (Some e, h, b, w) \<Rightarrow> (Some e, h, b, w)
      | (None, h, b, w) \<Rightarrow> bufio_each w h b ps)"

subsection \<open>\<open>Encoder\<close>\<close>

record 'v Encoder =
  enc_File :: string
  enc_a :: "handle option"
  enc_buf :: "bufio_Writer option"
  enc_enc :: "'v list option"

definition new_Encoder :: "string \<Rightarrow> 'v Encoder" where
  "new_Encoder f = \<lparr>enc_File = f, enc_a = None, enc_buf = None, enc_enc = None\<rparr>"

definition Encoder_Open :: "world \<Rightarrow> 'v Encoder \<Rightarrow> error option \<times> 'v Encoder \<times> world" where
  "Encoder_Open w e =
     (case OpenAppendOnly w (enc_File e) of
        (h, err, w) \<Rightarrow>
          (err, e\<lparr>enc_a := Some (opened (enc_File e) h), enc_buf := Some \<lparr>bw_buf = [], bw_err = None\<rparr>, enc_enc := Some []\<rparr>, w))"

definition Encoder_Append :: "'v gob_lib \<Rightarrow> 'v \<Rightarrow> world \<Rightarrow> 'v Encoder \<Rightarrow> (error option \<times> 'v Encoder \<times> world) go" where
  "Encoder_Append L v w e =
     (case (enc_enc e, enc_a e, enc_buf e) of
        (Some vs, Some h, Some b) \<Rightarrow>
          (case bufio_each w h b (gl_encode L vs v) of
             (err, h, b, w) \<Rightarrow> Inr (err, e\<lparr>enc_enc := Some (vs @ [v]), enc_a := Some h, enc_buf := Some b\<rparr>, w))
      | _ \<Rightarrow> Inl NilDereference)"

definition Encoder_Buffered :: "'v Encoder \<Rightarrow> nat go" where
  "Encoder_Buffered e = (case enc_buf e of None \<Rightarrow> Inl NilDereference | Some b \<Rightarrow> Inr (length (bw_buf b)))"

definition Encoder_Flush :: "world \<Rightarrow> 'v Encoder \<Rightarrow> (error option \<times> 'v Encoder \<times> world) go" where
  "Encoder_Flush w e =
     (case (enc_a e, enc_buf e) of
        (Some h, Some b) \<Rightarrow>
          (case bufio_Flush w h b of (err, h, b, w) \<Rightarrow> Inr (err, e\<lparr>enc_a := Some h, enc_buf := Some b\<rparr>, w))
      | _ \<Rightarrow> Inl NilDereference)"

definition Encoder_Close :: "world \<Rightarrow> 'v Encoder \<Rightarrow> (error option \<times> 'v Encoder \<times> world) go" where
  "Encoder_Close w e =
     (if enc_a e = None then Inr (None, e, w)
      else go_bind (Encoder_Flush w e) (\<lambda>(err, e, w).
        case os_Close w (the (enc_a e)) of
          (h, err2, w) \<Rightarrow>
            Inr ((if err = None then err2 else err), e\<lparr>enc_buf := None, enc_a := None, enc_enc := None\<rparr>, w)))"

subsection \<open>\<open>Decoder\<close>\<close>

text \<open>\<open>dec_dec\<close> counts the values the decoder has returned.\<close>

record Decoder =
  dec_File :: string
  dec_r :: "handle option"
  dec_dec :: "nat option"

definition new_Decoder :: "string \<Rightarrow> Decoder" where
  "new_Decoder f = \<lparr>dec_File = f, dec_r = None, dec_dec = None\<rparr>"

definition Decoder_Open :: "world \<Rightarrow> Decoder \<Rightarrow> error option \<times> Decoder \<times> world" where
  "Decoder_Open w d =
     (case OpenReadOnly w (dec_File d) of
        (h, err, w) \<Rightarrow> (err, d\<lparr>dec_r := Some (opened (dec_File d) h), dec_dec := Some 0\<rparr>, w))"

definition Decoder_Read :: "'v gob_lib \<Rightarrow> world \<Rightarrow> Decoder \<Rightarrow> ((error + 'v) \<times> Decoder \<times> world) go" where
  "Decoder_Read L w d =
     (case (dec_dec d, dec_r d) of
        (Some k, Some h) \<Rightarrow>
          if \<not> h_open h then Inr (Inl ErrClosed, d, w)
          else (case next_fault w of
              (Some _, w) \<Rightarrow> Inr (Inl EIO, d, w)
            | (None, w) \<Rightarrow>
                (case gl_decode L (file_bytes w (h_path h)) of
                   (vs, e) \<Rightarrow>
                     if k < length vs then Inr (Inr (vs ! k), d\<lparr>dec_dec := Some (k + 1)\<rparr>, w) else Inr (Inl e, d, w)))
      | _ \<Rightarrow> Inl NilDereference)"

definition values_left :: "'v gob_lib \<Rightarrow> world \<Rightarrow> Decoder \<Rightarrow> nat" where
  "values_left L w d =
     (case (dec_dec d, dec_r d) of
        (Some k, Some h) \<Rightarrow> length (fst (gl_decode L (file_bytes w (h_path h)))) - k
      | _ \<Rightarrow> 0)"

lemma Decoder_Read_left:
  "Decoder_Read L w d = Inr (Inr v, d', w') \<Longrightarrow> values_left L w' d' < values_left L w d"
  by (auto simp: Decoder_Read_def values_left_def next_fault_bytes split: option.splits if_splits prod.splits)

text \<open>\<open>Walk\<close>; the callback is a step on the state \<open>'s\<close> its closure keeps.\<close>

function Decoder_Walk ::
  "'v gob_lib \<Rightarrow> ('v \<Rightarrow> 's \<Rightarrow> error option \<times> 's) \<Rightarrow> world \<Rightarrow> Decoder \<Rightarrow> 's \<Rightarrow> (error option \<times> Decoder \<times> world \<times> 's) go" where
  "Decoder_Walk L callback w d s =
     (case Decoder_Read L w d of
        Inl f \<Rightarrow> Inl f
      | Inr (Inl e, d, w) \<Rightarrow> Inr ((if e = EOF then None else Some e), d, w, s)
      | Inr (Inr v, d, w) \<Rightarrow>
          (case callback v s of
             (Some e, s) \<Rightarrow> Inr (Some e, d, w, s)
           | (None, s) \<Rightarrow> Decoder_Walk L callback w d s))"
  by pat_completeness auto
termination by (relation "measure (\<lambda>(L, _, w, d, _). values_left L w d)") (auto simp: Decoder_Read_left)

declare Decoder_Walk.simps [simp del]

definition Decoder_Close :: "world \<Rightarrow> Decoder \<Rightarrow> error option \<times> Decoder \<times> world" where
  "Decoder_Close w d =
     (case dec_r d of
        None \<Rightarrow> (None, d, w)
      | Some h \<Rightarrow> (case os_Close w h of (h, err, w) \<Rightarrow> (err, d\<lparr>dec_r := None, dec_dec := None\<rparr>, w)))"

subsection \<open>\<open>SymbolsStore\<close>\<close>

record SymbolsStore =
  ss_File :: string
  ss_ReadOnly :: bool

definition SymbolsStore_Open :: "SymbolsStore \<Rightarrow> error option" where
  "SymbolsStore_Open s = None"

text \<open>The callback keeps the last value; with no value in the file the dereference of \<open>data\<close> panics.\<close>

definition SymbolsStore_Read :: "SymbolsData gob_lib \<Rightarrow> world \<Rightarrow> SymbolsStore \<Rightarrow> Symbols \<Rightarrow> (error option \<times> Symbols \<times> world) go" where
  "SymbolsStore_Read L w s symbols =
     (case Decoder_Open w (new_Decoder (ss_File s)) of
        (Some e, _, w) \<Rightarrow> Inr (Some e, symbols, w)
      | (None, dec, w) \<Rightarrow>
          go_bind (Decoder_Walk L (\<lambda>v data. (None, Some v)) w dec None) (\<lambda>(e, dec, w, data).
          case e of
            Some e \<Rightarrow> (case Decoder_Close w dec of (_, _, w) \<Rightarrow> Inr (Some e, symbols, w))
          | None \<Rightarrow>
              (case data of
                 None \<Rightarrow> Inl NilDereference
               | Some data \<Rightarrow>
                   go_bind (Symbols_Load symbols data) (\<lambda>symbols.
                   case Decoder_Close w dec of (e, _, w) \<Rightarrow> Inr (e, symbols, w)))))"

definition SymbolsStore_Write :: "SymbolsData gob_lib \<Rightarrow> world \<Rightarrow> SymbolsStore \<Rightarrow> Symbols \<Rightarrow> (error option \<times> world) go" where
  "SymbolsStore_Write L w s symbols =
     (if ss_ReadOnly s then Inr (Some ErrReadOnly, w)
      else case Encoder_Open w (new_Encoder (ss_File s)) of
             (Some e, _, w) \<Rightarrow> Inr (Some e, w)
           | (None, enc, w) \<Rightarrow>
               go_bind (Symbols_Save symbols (\<lambda>data. Encoder_Append L data w enc)) (\<lambda>(e, enc, w).
               go_bind (Encoder_Close w enc) (\<lambda>(e2, enc, w).
               Inr ((if e = None then e2 else e), w))))"

subsection \<open>\<open>ParallelReadWriter\<close>\<close>

record 'v ParallelReadWriter =
  prw_File :: string
  prw_ReadOnly :: bool
  prw_closed :: bool
  prw_writable :: bool
  prw_enc :: "'v Encoder"

definition new_ParallelReadWriter :: "string \<Rightarrow> bool \<Rightarrow> 'v ParallelReadWriter" where
  "new_ParallelReadWriter f ro =
     \<lparr>prw_File = f, prw_ReadOnly = ro, prw_closed = False, prw_writable = False, prw_enc = new_Encoder []\<rparr>"

definition Parallel_Open :: "world \<Rightarrow> 'v ParallelReadWriter \<Rightarrow> error option \<times> 'v ParallelReadWriter \<times> world" where
  "Parallel_Open w rw =
     (let rw = rw\<lparr>prw_closed := False\<rparr> in
      if prw_ReadOnly rw then (None, rw\<lparr>prw_writable := False\<rparr>, w)
      else case Encoder_Open w ((prw_enc rw)\<lparr>enc_File := prw_File rw\<rparr>) of
             (err, enc, w) \<Rightarrow> (err, rw\<lparr>prw_writable := True, prw_enc := enc\<rparr>, w))"

definition ErrFileIsReadOnly :: error where
  "ErrFileIsReadOnly = ErrInvalid ''cannot write to read-only file''"

definition Parallel_Append :: "'v gob_lib \<Rightarrow> 'v \<Rightarrow> world \<Rightarrow> 'v ParallelReadWriter \<Rightarrow> (error option \<times> 'v ParallelReadWriter \<times> world) go" where
  "Parallel_Append L v w rw =
     (if prw_closed rw then Inr (Some ErrClosed, rw, w)
      else if \<not> prw_writable rw then Inr (Some ErrFileIsReadOnly, rw, w)
      else go_bind (Encoder_Append L v w (prw_enc rw)) (\<lambda>(e, enc, w). Inr (e, rw\<lparr>prw_enc := enc\<rparr>, w)))"

text \<open>
  The loop of \<open>Walk\<close> that writes the buffer out flushes until nothing is buffered: once, as no other
  goroutine appends in between.
\<close>

definition Walk_flush :: "world \<Rightarrow> 'v ParallelReadWriter \<Rightarrow> (error option \<times> 'v ParallelReadWriter \<times> world) go" where
  "Walk_flush w rw =
     (if \<not> prw_writable rw then Inr (None, rw, w)
      else go_bind (Encoder_Buffered (prw_enc rw)) (\<lambda>n.
        if n = 0 then Inr (None, rw, w)
        else go_bind (Encoder_Flush w (prw_enc rw)) (\<lambda>(e, enc, w). Inr (e, rw\<lparr>prw_enc := enc\<rparr>, w))))"

definition Parallel_Walk ::
  "'v gob_lib \<Rightarrow> ('v \<Rightarrow> 's \<Rightarrow> error option \<times> 's) \<Rightarrow> world \<Rightarrow> 'v ParallelReadWriter \<Rightarrow> 's \<Rightarrow>
   (error option \<times> 'v ParallelReadWriter \<times> world \<times> 's) go" where
  "Parallel_Walk L callback w rw s =
     (if prw_closed rw then Inr (Some ErrClosed, rw, w, s)
      else go_bind (Walk_flush w rw) (\<lambda>(e, rw, w).
        case e of
          Some e \<Rightarrow> Inr (Some e, rw, w, s)
        | None \<Rightarrow>
            (case Decoder_Open w (new_Decoder (prw_File rw)) of
               (Some e, _, w) \<Rightarrow> Inr (Some e, rw, w, s)
             | (None, dec, w) \<Rightarrow>
                 go_bind (Decoder_Walk L callback w dec s) (\<lambda>(err1, dec, w, s).
                 case Decoder_Close w dec of
                   (err2, _, w) \<Rightarrow> Inr ((if err1 \<noteq> None then err1 else err2), rw, w, s)))))"

definition setReadOnlyNoLock :: "world \<Rightarrow> 'v ParallelReadWriter \<Rightarrow> (error option \<times> 'v ParallelReadWriter \<times> world) go" where
  "setReadOnlyNoLock w rw =
     go_bind (Encoder_Close w (prw_enc rw)) (\<lambda>(e, enc, w).
     Inr (e, rw\<lparr>prw_ReadOnly := True, prw_writable := False, prw_enc := enc\<rparr>, w))"

definition SetReadOnly :: "world \<Rightarrow> 'v ParallelReadWriter \<Rightarrow> (error option \<times> 'v ParallelReadWriter \<times> world) go" where
  "SetReadOnly w rw = (if prw_closed rw then Inr (Some ErrClosed, rw, w) else setReadOnlyNoLock w rw)"

definition Parallel_Close :: "world \<Rightarrow> 'v ParallelReadWriter \<Rightarrow> (error option \<times> 'v ParallelReadWriter \<times> world) go" where
  "Parallel_Close w rw =
     (if prw_closed rw then Inr (None, rw, w)
      else go_bind (setReadOnlyNoLock w rw) (\<lambda>(e, rw, w). Inr (e, rw\<lparr>prw_closed := True\<rparr>, w)))"

definition Parallel_Size :: "world \<Rightarrow> 'v ParallelReadWriter \<Rightarrow> (nat \<times> error option) go" where
  "Parallel_Size w rw =
     (case File_Size w (prw_File rw) of
        (n, Some e) \<Rightarrow> Inr (0, Some e)
      | (n, None) \<Rightarrow> go_bind (Encoder_Buffered (prw_enc rw)) (\<lambda>k. Inr (n + k, None)))"

subsection \<open>\<open>SplitReadWriter\<close>\<close>

record 'v SplitReadWriter =
  srw_FileNamePattern :: "(nat \<Rightarrow> string) option"
  srw_ReadOnly :: bool
  srw_closed :: bool
  srw_files :: "'v ParallelReadWriter list"

text \<open>
  \<open>Open\<close> looks for files 0, 1, ... until one does not exist; \<open>None\<close>: it never ends. Opening a read-only
  \<open>ParallelReadWriter\<close>, as for all files but the last, cannot fail.
\<close>

partial_function (option) existing_files :: "(nat \<Rightarrow> bool) \<Rightarrow> nat \<Rightarrow> nat option" where
  "existing_files ex i = (if ex i then existing_files ex (i + 1) else Some i)"

declare existing_files.simps [code]

definition Split_Open :: "world \<Rightarrow> 'v SplitReadWriter \<Rightarrow> (error option \<times> 'v SplitReadWriter \<times> world) option" where
  "Split_Open w srw =
     (case srw_FileNamePattern srw of
        None \<Rightarrow> Some (Some (ErrInvalid ''FileNamePattern should not null, but null''), srw, w)
      | Some pat \<Rightarrow>
          (case existing_files (\<lambda>i. File_Exists w (pat i)) 0 of
             None \<Rightarrow> None
           | Some n \<Rightarrow>
               let fs = map (\<lambda>i. new_ParallelReadWriter (pat i) True) [0..<n];
                   srw = srw\<lparr>srw_closed := False\<rparr>
               in Some (
                 if 0 < n then
                   (case Parallel_Open w ((last fs)\<lparr>prw_ReadOnly := srw_ReadOnly srw\<rparr>) of
                      (e, rw, w) \<Rightarrow> (e, srw\<lparr>srw_files := butlast fs @ [rw]\<rparr>, w))
                 else if \<not> srw_ReadOnly srw then
                   (case Parallel_Open w (new_ParallelReadWriter (pat 0) (srw_ReadOnly srw)) of
                      (e, rw, w) \<Rightarrow> (e, srw\<lparr>srw_files := [rw]\<rparr>, w))
                 else (None, srw\<lparr>srw_files := []\<rparr>, w))))"

text \<open>\<open>rotateNoLock\<close> closes the last file for writing, without a lock of its own, and opens the next.\<close>

definition rotate_new :: "world \<Rightarrow> 'v SplitReadWriter \<Rightarrow> (error option \<times> 'v SplitReadWriter \<times> world) go" where
  "rotate_new w srw =
     (case srw_FileNamePattern srw of
        None \<Rightarrow> Inl NilDereference
      | Some pat \<Rightarrow>
          (case Parallel_Open w (new_ParallelReadWriter (pat (length (srw_files srw))) (srw_ReadOnly srw)) of
             (e, rw, w) \<Rightarrow> Inr (e, srw\<lparr>srw_files := srw_files srw @ [rw]\<rparr>, w)))"

definition rotateNoLock :: "world \<Rightarrow> 'v SplitReadWriter \<Rightarrow> (error option \<times> 'v SplitReadWriter \<times> world) go" where
  "rotateNoLock w srw =
     (if srw_ReadOnly srw then Inr (Some ErrFileIsReadOnly, srw, w)
      else if srw_closed srw then Inr (Some ErrClosed, srw, w)
      else if srw_files srw = [] then rotate_new w srw
      else go_bind (setReadOnlyNoLock w (last (srw_files srw))) (\<lambda>(e, f, w).
        let srw = srw\<lparr>srw_files := butlast (srw_files srw) @ [f]\<rparr> in
        case e of Some e \<Rightarrow> Inr (Some e, srw, w) | None \<Rightarrow> rotate_new w srw))"

definition Rotate :: "world \<Rightarrow> 'v SplitReadWriter \<Rightarrow> (error option \<times> 'v SplitReadWriter \<times> world) go" where
  "Rotate w srw = rotateNoLock w srw"

text \<open>\<open>LastFile\<close> returns a pointer to the last element of \<open>files\<close>, or an error.\<close>

definition LastFile :: "world \<Rightarrow> 'v SplitReadWriter \<Rightarrow> (error option \<times> 'v SplitReadWriter \<times> world) go" where
  "LastFile w srw =
     (if srw_closed srw then Inr (Some ErrClosed, srw, w)
      else if srw_files srw = [] then rotateNoLock w srw
      else Inr (None, srw, w))"

definition Split_Append :: "'v gob_lib \<Rightarrow> 'v \<Rightarrow> world \<Rightarrow> 'v SplitReadWriter \<Rightarrow> (error option \<times> 'v SplitReadWriter \<times> world) go" where
  "Split_Append L v w srw =
     (if srw_ReadOnly srw then Inr (Some ErrFileIsReadOnly, srw, w)
      else go_bind (LastFile w srw) (\<lambda>(e, srw, w).
        case e of
          Some e \<Rightarrow> Inr (Some e, srw, w)
        | None \<Rightarrow>
            go_bind (Parallel_Append L v w (last (srw_files srw))) (\<lambda>(e, f, w).
            Inr (e, srw\<lparr>srw_files := butlast (srw_files srw) @ [f]\<rparr>, w))))"

definition SplitCount :: "'v SplitReadWriter \<Rightarrow> nat" where
  "SplitCount srw = length (srw_files srw)"

definition Split_Index :: "'v SplitReadWriter \<Rightarrow> int \<Rightarrow> 'v ParallelReadWriter go" where
  "Split_Index srw i =
     (if 0 \<le> i \<and> nat i < length (srw_files srw) then Inr (srw_files srw ! nat i) else Inl IndexOutOfRange)"

text \<open>\<open>Close\<close> closes every file and returns the first error.\<close>

fun close_files :: "world \<Rightarrow> 'v ParallelReadWriter list \<Rightarrow> (error option \<times> 'v ParallelReadWriter list \<times> world) go" where
  "close_files w [] = Inr (None, [], w)"
| "close_files w (f # fs) =
     go_bind (Parallel_Close w f) (\<lambda>(e, f, w).
     go_bind (close_files w fs) (\<lambda>(e', fs, w).
     Inr ((if e \<noteq> None then e else e'), f # fs, w)))"

definition Split_Close :: "world \<Rightarrow> 'v SplitReadWriter \<Rightarrow> (error option \<times> 'v SplitReadWriter \<times> world) go" where
  "Split_Close w srw =
     (if srw_closed srw then Inr (None, srw, w)
      else go_bind (close_files w (srw_files srw)) (\<lambda>(e, fs, w). Inr (e, srw\<lparr>srw_files := fs, srw_closed := True\<rparr>, w)))"

subsection \<open>\<open>CompactLog\<close>\<close>

datatype compact_value = CSymbols SymbolsData | CRaw RawFuncLog

record CompactLogWriter =
  cw_File :: string
  cw_w :: "handle option"
  cw_enc :: "compact_value list option"

record CompactLogReader =
  cr_File :: string
  cr_dec :: Decoder

definition CompactLog_Writer :: "string \<Rightarrow> CompactLogWriter" where
  "CompactLog_Writer f = \<lparr>cw_File = f, cw_w = None, cw_enc = None\<rparr>"

definition CompactLog_Reader :: "string \<Rightarrow> CompactLogReader" where
  "CompactLog_Reader f = \<lparr>cr_File = f, cr_dec = new_Decoder f\<rparr>"

definition CompactWriter_Open :: "world \<Rightarrow> CompactLogWriter \<Rightarrow> error option \<times> CompactLogWriter \<times> world" where
  "CompactWriter_Open w c =
     (case OpenWriteOnly w (cw_File c) of
        (h, err, w) \<Rightarrow> (err, c\<lparr>cw_w := Some (opened (cw_File c) h), cw_enc := Some []\<rparr>, w))"

fun write_each :: "world \<Rightarrow> handle \<Rightarrow> byte list list \<Rightarrow> error option \<times> handle \<times> world" where
  "write_each w h [] = (None, h, w)"
| "write_each w h (p # ps) =
     (case os_Write w h p of
        (h, n, Some e, w) \<Rightarrow> (Some e, h, w)
      | (h, n, None, w) \<Rightarrow> write_each w h ps)"

definition compact_encode :: "compact_value gob_lib \<Rightarrow> compact_value \<Rightarrow> world \<Rightarrow> CompactLogWriter \<Rightarrow> (error option \<times> CompactLogWriter \<times> world) go" where
  "compact_encode L v w c =
     (case (cw_enc c, cw_w c) of
        (Some vs, Some h) \<Rightarrow>
          (case write_each w h (gl_encode L vs v) of
             (e, h, w) \<Rightarrow> Inr (e, c\<lparr>cw_enc := Some (vs @ [v]), cw_w := Some h\<rparr>, w))
      | _ \<Rightarrow> Inl NilDereference)"

definition nilDiff :: SymbolsData where
  "nilDiff = \<lparr>sd_Files = [], sd_Mods = [], sd_Funcs = [], sd_Lines = []\<rparr>"

definition nilRawFuncLog :: RawFuncLog where
  "nilRawFuncLog = \<lparr>raw_ID = 0, raw_Tag = 0, raw_Timestamp = 0, raw_Frames = [], raw_GID = 0, raw_TxID = 0\<rparr>"

definition or_nilDiff :: "SymbolsData option \<Rightarrow> SymbolsData" where
  "or_nilDiff d = (case d of None \<Rightarrow> nilDiff | Some d \<Rightarrow> d)"

definition or_nilRaw :: "RawFuncLog option \<Rightarrow> RawFuncLog" where
  "or_nilRaw r = (case r of None \<Rightarrow> nilRawFuncLog | Some r \<Rightarrow> r)"

definition CompactWriter_Write ::
  "compact_value gob_lib \<Rightarrow> SymbolsData option \<Rightarrow> RawFuncLog option \<Rightarrow> world \<Rightarrow> CompactLogWriter \<Rightarrow> (error option \<times> CompactLogWriter \<times> world) go" where
  "CompactWriter_Write L data funclog w c =
     go_bind (compact_encode L (CSymbols (or_nilDiff data)) w c) (\<lambda>(e, c, w).
     case e of
       Some e \<Rightarrow> Inr (Some e, c, w)
     | None \<Rightarrow> compact_encode L (CRaw (or_nilRaw funclog)) w c)"

definition CompactWriter_Close :: "world \<Rightarrow> CompactLogWriter \<Rightarrow> (error option \<times> CompactLogWriter \<times> world) go" where
  "CompactWriter_Close w c =
     (case cw_w c of
        None \<Rightarrow> Inl NilDereference
      | Some h \<Rightarrow> (case os_Close w h of (h, e, w) \<Rightarrow> Inr (e, c\<lparr>cw_w := Some h\<rparr>, w)))"

definition CompactReader_Open :: "world \<Rightarrow> CompactLogReader \<Rightarrow> error option \<times> CompactLogReader \<times> world" where
  "CompactReader_Open w c = (case Decoder_Open w (cr_dec c) of (e, d, w) \<Rightarrow> (e, c\<lparr>cr_dec := d\<rparr>, w))"

text \<open>A value of the other type than the one asked for is a decoding error.\<close>

definition CompactReader_Read ::
  "compact_value gob_lib \<Rightarrow> world \<Rightarrow> CompactLogReader \<Rightarrow> ((error + SymbolsData \<times> RawFuncLog) \<times> CompactLogReader \<times> world) go" where
  "CompactReader_Read L w c =
     go_bind (Decoder_Read L w (cr_dec c)) (\<lambda>(r, d, w).
     let c = c\<lparr>cr_dec := d\<rparr> in
     case r of
       Inl e \<Rightarrow> Inr (Inl e, c, w)
     | Inr (CRaw _) \<Rightarrow> Inr (Inl DecodeError, c, w)
     | Inr (CSymbols diff) \<Rightarrow>
         go_bind (Decoder_Read L w (cr_dec c)) (\<lambda>(r, d, w).
         let c = c\<lparr>cr_dec := d\<rparr> in
         case r of
           Inl e \<Rightarrow> Inr (Inl e, c, w)
         | Inr (CSymbols _) \<Rightarrow> Inr (Inl DecodeError, c, w)
         | Inr (CRaw funclog) \<Rightarrow> Inr (Inr (diff, funclog), c, w)))"

definition CompactReader_Close :: "world \<Rightarrow> CompactLogReader \<Rightarrow> (error option \<times> CompactLogReader \<times> world) go" where
  "CompactReader_Close w c =
     (case dec_r (cr_dec c) of
        None \<Rightarrow> Inl NilDereference
      | Some h \<Rightarrow> (case os_Close w h of (h, e, w) \<Rightarrow> Inr (e, c\<lparr>cr_dec := (cr_dec c)\<lparr>dec_r := Some h\<rparr>\<rparr>, w)))"

subsection \<open>Streams\<close>

text \<open>The bytes of one encoder for the values \<open>vs\<close>; the contract of \<open>gob\<close> on them.\<close>

definition gob_bytes :: "'v gob_lib \<Rightarrow> 'v list \<Rightarrow> byte list" where
  "gob_bytes L vs = concat (map (\<lambda>k. concat (gl_encode L (take k vs) (vs ! k))) [0..<length vs])"

definition gob_round_trip :: "'v gob_lib \<Rightarrow> bool" where
  "gob_round_trip L \<longleftrightarrow> (\<forall>vs. gl_decode L (gob_bytes L vs) = (vs, EOF))"

lemma gob_bytes_Nil [simp]: "gob_bytes L [] = []"
  by (simp add: gob_bytes_def)

lemma gob_bytes_snoc: "gob_bytes L (vs @ [v]) = gob_bytes L vs @ concat (gl_encode L vs v)"
proof -
  have e: "map (\<lambda>k. concat (gl_encode L (take k (vs @ [v])) ((vs @ [v]) ! k))) [0..<length vs] =
    map (\<lambda>k. concat (gl_encode L (take k vs) (vs ! k))) [0..<length vs]"
    by (rule map_cong) (auto simp: nth_append)
  have u: "[0..<length (vs @ [v])] = [0..<length vs] @ [length vs]" by simp
  show ?thesis unfolding gob_bytes_def u map_append concat_append e by simp
qed

definition appender :: "string \<Rightarrow> handle \<Rightarrow> bool" where
  "appender f h \<longleftrightarrow> h_open h \<and> h_append h \<and> h_path h = f"

lemma os_Write_append:
  assumes "faults w = []" "appender f h" "os_Write w h d = (h', n, e, w')"
  shows "e = None" "appender f h'" "faults w' = []" "frame f w w'" "file_bytes w' f = file_bytes w f @ d" "files w' f \<noteq> None"
proof -
  have "overlay (file_bytes w f) (length (file_bytes w f)) d = file_bytes w f @ d" by (simp add: overlay_def)
  then show "e = None" "appender f h'" "faults w' = []" "frame f w w'" "file_bytes w' f = file_bytes w f @ d" "files w' f \<noteq> None"
    using assms by (auto simp: os_Write_def appender_def next_fault_none frame_def Let_def)
qed

text \<open>A writer with nothing wrong; \<open>c\<close> is what the file holds when the buffer has been written out.\<close>

definition bufio_ok :: "string \<Rightarrow> world \<Rightarrow> handle \<Rightarrow> bufio_Writer \<Rightarrow> byte list \<Rightarrow> bool" where
  "bufio_ok f w h b c \<longleftrightarrow> faults w = [] \<and> appender f h \<and> bw_err b = None \<and> length (bw_buf b) \<le> bufio_size \<and>
     files w f \<noteq> None \<and> file_bytes w f @ bw_buf b = c"

lemma bufio_Flush_ok:
  assumes "bufio_ok f w h b c"
  shows "\<exists>h' b' w'. bufio_Flush w h b = (None, h', b', w') \<and> bufio_ok f w' h' b' c \<and> bw_buf b' = [] \<and> frame f w w'"
proof (cases "bw_buf b = []")
  case False
  obtain h' n e w' where o: "os_Write w h (bw_buf b) = (h', n, e, w')" by (metis surj_pair)
  have "faults w = []" "appender f h" using assms by (simp_all add: bufio_ok_def)
  from os_Write_append[OF this o] show ?thesis using assms o False by (simp add: bufio_Flush_def bufio_ok_def)
qed (use assms in \<open>simp add: bufio_Flush_def bufio_ok_def\<close>)

lemma bufio_put_ok:
  assumes "bufio_ok f w h b c" "bw_buf b = []"
  shows "\<exists>h' b' w'. bufio_put w h b p = (None, h', b', w') \<and> bufio_ok f w' h' b' (c @ p) \<and> frame f w w'"
proof (cases "length p \<le> bufio_size")
  case False
  obtain h' n e w' where o: "os_Write w h p = (h', n, e, w')" by (metis surj_pair)
  have "faults w = []" "appender f h" using assms by (simp_all add: bufio_ok_def)
  from os_Write_append[OF this o] show ?thesis using assms o False by (simp add: bufio_put_def bufio_ok_def)
qed (use assms in \<open>simp add: bufio_put_def bufio_ok_def\<close>)

lemma bufio_Write_ok:
  assumes "bufio_ok f w h b c"
  shows "\<exists>h' b' w'. bufio_Write w h b p = (None, h', b', w') \<and> bufio_ok f w' h' b' (c @ p) \<and> frame f w w'"
proof (cases "length p \<le> bufio_size - length (bw_buf b) \<or> bw_buf b = []")
  case True
  then show ?thesis using assms bufio_put_ok[OF assms, of p] by (auto simp: bufio_Write_def bufio_ok_def)
next
  case False
  let ?a = "bufio_size - length (bw_buf b)"
  have "bufio_ok f w h (b\<lparr>bw_buf := bw_buf b @ take ?a p\<rparr>) (c @ take ?a p)" using assms by (auto simp: bufio_ok_def)
  from bufio_Flush_ok[OF this] obtain h1 b1 w1 where fl: "bufio_Flush w h (b\<lparr>bw_buf := bw_buf b @ take ?a p\<rparr>) = (None, h1, b1, w1)"
    "bufio_ok f w1 h1 b1 (c @ take ?a p)" "bw_buf b1 = []" "frame f w w1" by blast
  from bufio_put_ok[OF fl(2,3), of "drop ?a p"] show ?thesis using fl False assms
    by (auto simp: bufio_Write_def Let_def bufio_ok_def intro: frame_trans)
qed

lemma bufio_each_ok:
  "bufio_ok f w h b c \<Longrightarrow> \<exists>h' b' w'. bufio_each w h b ps = (None, h', b', w') \<and> bufio_ok f w' h' b' (c @ concat ps) \<and> frame f w w'"
proof (induction ps arbitrary: w h b c)
  case (Cons p ps)
  obtain h1 b1 w1 where o: "bufio_Write w h b p = (None, h1, b1, w1)" "bufio_ok f w1 h1 b1 (c @ p)" "frame f w w1"
    using bufio_Write_ok[OF Cons.prems] by blast
  from Cons.IH[OF o(2)] show ?case using o by (auto intro: frame_trans)
qed auto

subsection \<open>Encoders and decoders\<close>

definition encoder_ok :: "'v gob_lib \<Rightarrow> string \<Rightarrow> 'v list \<Rightarrow> world \<Rightarrow> 'v Encoder \<Rightarrow> bool" where
  "encoder_ok L f vs w e \<longleftrightarrow> enc_enc e = Some vs \<and>
     (\<exists>h b. enc_a e = Some h \<and> enc_buf e = Some b \<and> bufio_ok f w h b (gob_bytes L vs))"

lemma Encoder_Open_ok:
  assumes "faults w = []" "file_bytes w (enc_File e) = []"
  shows "\<exists>e' w'. Encoder_Open w e = (None, e', w') \<and> encoder_ok L (enc_File e) [] w' e' \<and> frame (enc_File e) w w'"
  using assms by (simp add: Encoder_Open_def OpenAppendOnly_def openFile_def next_fault_none opened_def encoder_ok_def bufio_ok_def
      appender_def frame_def)

lemma Encoder_Append_ok:
  assumes "encoder_ok L f vs w e"
  shows "\<exists>e' w'. Encoder_Append L v w e = Inr (None, e', w') \<and> encoder_ok L f (vs @ [v]) w' e' \<and> frame f w w'"
proof -
  obtain h b where hb: "enc_a e = Some h" "enc_buf e = Some b" "bufio_ok f w h b (gob_bytes L vs)" "enc_enc e = Some vs"
    using assms by (auto simp: encoder_ok_def)
  from bufio_each_ok[OF hb(3), of "gl_encode L vs v"] obtain h' b' w' where
    "bufio_each w h b (gl_encode L vs v) = (None, h', b', w')" "bufio_ok f w' h' b' (gob_bytes L (vs @ [v]))" "frame f w w'"
    by (auto simp: gob_bytes_snoc)
  then show ?thesis using hb by (simp add: Encoder_Append_def encoder_ok_def)
qed

lemma Encoder_Flush_ok:
  assumes "encoder_ok L f vs w e"
  shows "\<exists>e' w'. Encoder_Flush w e = Inr (None, e', w') \<and> encoder_ok L f vs w' e' \<and> frame f w w' \<and>
    file_bytes w' f = gob_bytes L vs \<and> (\<exists>h. enc_a e' = Some h \<and> appender f h)"
proof -
  obtain h b where hb: "enc_a e = Some h" "enc_buf e = Some b" "bufio_ok f w h b (gob_bytes L vs)" "enc_enc e = Some vs"
    using assms by (auto simp: encoder_ok_def)
  from bufio_Flush_ok[OF hb(3)] obtain h' b' w' where
    "bufio_Flush w h b = (None, h', b', w')" "bufio_ok f w' h' b' (gob_bytes L vs)" "bw_buf b' = []" "frame f w w'" by blast
  then show ?thesis using hb by (auto simp: Encoder_Flush_def encoder_ok_def bufio_ok_def)
qed

lemma Encoder_Close_ok:
  assumes "encoder_ok L f vs w e"
  shows "\<exists>e' w'. Encoder_Close w e = Inr (None, e', w') \<and> enc_a e' = None \<and> enc_buf e' = None \<and> enc_enc e' = None \<and>
    frame f w w' \<and> file_bytes w' f = gob_bytes L vs \<and> files w' f \<noteq> None \<and> faults w' = []"
proof -
  obtain e1 w1 h where fl: "Encoder_Flush w e = Inr (None, e1, w1)" "encoder_ok L f vs w1 e1" "frame f w w1"
    "file_bytes w1 f = gob_bytes L vs" "enc_a e1 = Some h" "appender f h" using Encoder_Flush_ok[OF assms] by blast
  moreover have "faults w1 = []" "files w1 f \<noteq> None" using fl(2) by (auto simp: encoder_ok_def bufio_ok_def)
  moreover have "enc_a e \<noteq> None" using assms by (auto simp: encoder_ok_def)
  ultimately show ?thesis by (auto simp: Encoder_Close_def os_Close_def appender_def next_fault_none)
qed

text \<open>Walking over a stream hands every value to the callback.\<close>

definition reader_at :: "string \<Rightarrow> nat \<Rightarrow> Decoder \<Rightarrow> bool" where
  "reader_at f k d \<longleftrightarrow> dec_dec d = Some k \<and> (\<exists>h. dec_r d = Some h \<and> h_open h \<and> h_path h = f)"

lemma Decoder_Open_ok:
  assumes "faults w = []" "files w (dec_File d) \<noteq> None"
  shows "\<exists>d'. Decoder_Open w d = (None, d', w) \<and> reader_at (dec_File d) 0 d'"
  using assms by (auto simp: Decoder_Open_def OpenReadOnly_def next_fault_none opened_def reader_at_def)

lemma Decoder_Read_ok:
  assumes "faults w = []" "reader_at f k d" "gl_decode L (file_bytes w f) = (vs, e)"
  shows "Decoder_Read L w d = (if k < length vs then Inr (Inr (vs ! k), d\<lparr>dec_dec := Some (k + 1)\<rparr>, w) else Inr (Inl e, d, w))"
    "reader_at f (k + 1) (d\<lparr>dec_dec := Some (k + 1)\<rparr>)"
  using assms by (auto simp: Decoder_Read_def reader_at_def next_fault_none)

lemma Decoder_Walk_ok:
  assumes "faults w = []" "reader_at f k d" "gl_decode L (file_bytes w f) = (vs, EOF)"
  shows "\<exists>d'. Decoder_Walk L (\<lambda>v s. (None, upd v s)) w d s = Inr (None, d', w, fold upd (drop k vs) s) \<and>
    (\<exists>h. dec_r d' = Some h \<and> h_open h)"
  using assms(2)
proof (induction "length vs - k" arbitrary: k d s)
  case 0
  then show ?case using assms(1,3) Decoder_Read_ok(1)[OF assms(1) 0(2) assms(3)]
    by (subst Decoder_Walk.simps) (auto simp: reader_at_def)
next
  case (Suc n)
  then have k: "k < length vs" by simp
  then have "drop k vs = vs ! k # drop (k + 1) vs" by (simp add: Cons_nth_drop_Suc)
  moreover have "n = length vs - (k + 1)" using Suc.hyps(2) by simp
  ultimately show ?case
    using Suc.hyps(1)[OF _ Decoder_Read_ok(2)[OF assms(1) Suc.prems assms(3)]] Decoder_Read_ok(1)[OF assms(1) Suc.prems assms(3)] k
    by (subst Decoder_Walk.simps) simp
qed

subsection \<open>Segments: the specification of a split log\<close>

datatype 'v gop = GAppend 'v | GRotate | GWalk nat

datatype 'v gout = GDone | GErr error | GValues "'v list"

definition gout :: "error option \<Rightarrow> 'v gout" where
  "gout e = (case e of None \<Rightarrow> GDone | Some e \<Rightarrow> GErr e)"

definition split_step ::
  "'v gob_lib \<Rightarrow> world \<times> 'v SplitReadWriter \<times> 'v gout list \<Rightarrow> 'v gop \<Rightarrow> (world \<times> 'v SplitReadWriter \<times> 'v gout list) go" where
  "split_step L = (\<lambda>(w, srw, outs) op.
     case op of
       GAppend v \<Rightarrow> go_bind (Split_Append L v w srw) (\<lambda>(e, srw, w). Inr (w, srw, outs @ [gout e]))
     | GRotate \<Rightarrow> go_bind (Rotate w srw) (\<lambda>(e, srw, w). Inr (w, srw, outs @ [gout e]))
     | GWalk i \<Rightarrow>
         go_bind (Split_Index srw (int i)) (\<lambda>rw.
         go_bind (Parallel_Walk L (\<lambda>v vs. (None, vs @ [v])) w rw []) (\<lambda>(e, rw, w, vs).
         Inr (w, srw\<lparr>srw_files := (srw_files srw)[i := rw]\<rparr>, outs @ [case e of None \<Rightarrow> GValues vs | Some e \<Rightarrow> GErr e]))))"

definition segment_step :: "'v list list \<times> 'v gout list \<Rightarrow> 'v gop \<Rightarrow> ('v list list \<times> 'v gout list) option" where
  "segment_step = (\<lambda>(segs, outs) op.
     case op of
       GAppend v \<Rightarrow> Some (butlast segs @ [last segs @ [v]], outs @ [GDone])
     | GRotate \<Rightarrow> Some (segs @ [[]], outs @ [GDone])
     | GWalk i \<Rightarrow> if i < length segs then Some (segs, outs @ [GValues (segs ! i)]) else None)"

text \<open>File \<open>f\<close> of a segment: still written, or finished.\<close>

definition writing :: "'v gob_lib \<Rightarrow> string \<Rightarrow> 'v list \<Rightarrow> world \<Rightarrow> 'v ParallelReadWriter \<Rightarrow> bool" where
  "writing L f vs w rw \<longleftrightarrow> prw_File rw = f \<and> \<not> prw_closed rw \<and> prw_writable rw \<and> encoder_ok L f vs w (prw_enc rw)"

definition finished :: "'v gob_lib \<Rightarrow> string \<Rightarrow> 'v list \<Rightarrow> world \<Rightarrow> 'v ParallelReadWriter \<Rightarrow> bool" where
  "finished L f vs w rw \<longleftrightarrow> prw_File rw = f \<and> \<not> prw_closed rw \<and> \<not> prw_writable rw \<and> enc_a (prw_enc rw) = None \<and>
     files w f \<noteq> None \<and> file_bytes w f = gob_bytes L vs"

lemma writing_frame: "writing L f vs w rw \<Longrightarrow> frame g w w' \<Longrightarrow> f \<noteq> g \<Longrightarrow> faults w' = [] \<Longrightarrow> writing L f vs w' rw"
  by (auto simp: writing_def encoder_ok_def bufio_ok_def frame_bytes) (simp_all add: frame_def)

lemma finished_frame: "finished L f vs w rw \<Longrightarrow> frame g w w' \<Longrightarrow> f \<noteq> g \<Longrightarrow> finished L f vs w' rw"
  by (auto simp: finished_def frame_bytes) (simp_all add: frame_def)

lemma writing_faults: "writing L f vs w rw \<Longrightarrow> faults w = []"
  by (auto simp: writing_def encoder_ok_def bufio_ok_def)

lemma Parallel_Open_ok:
  assumes "faults w = []" "file_bytes w f = []"
  shows "\<exists>rw w'. Parallel_Open w (new_ParallelReadWriter f False) = (None, rw, w') \<and> writing L f [] w' rw \<and> frame f w w'"
proof -
  let ?e = "(new_Encoder [])\<lparr>enc_File := f\<rparr>"
  have "enc_File ?e = f" by simp
  then show ?thesis using Encoder_Open_ok[OF assms(1), of ?e L] assms(2)
    by (auto simp: Parallel_Open_def new_ParallelReadWriter_def writing_def)
qed

lemma Parallel_Append_ok:
  assumes "writing L f vs w rw"
  shows "\<exists>rw' w'. Parallel_Append L v w rw = Inr (None, rw', w') \<and> writing L f (vs @ [v]) w' rw' \<and> frame f w w'"
  using assms Encoder_Append_ok[of L f vs w "prw_enc rw" v] by (auto simp: Parallel_Append_def writing_def)

lemma setReadOnly_ok:
  assumes "writing L f vs w rw"
  shows "\<exists>rw' w'. setReadOnlyNoLock w rw = Inr (None, rw', w') \<and> finished L f vs w' rw' \<and> frame f w w' \<and> faults w' = []"
  using assms Encoder_Close_ok[of L f vs w "prw_enc rw"] by (auto simp: setReadOnlyNoLock_def writing_def finished_def)

lemma setReadOnly_finished:
  "finished L f vs w rw \<Longrightarrow> \<exists>rw'. setReadOnlyNoLock w rw = Inr (None, rw', w) \<and> finished L f vs w rw'"
  by (auto simp: setReadOnlyNoLock_def finished_def Encoder_Close_def)

lemma read_stream:
  assumes "gob_round_trip L" "faults w = []" "files w f \<noteq> None" "file_bytes w f = gob_bytes L vs"
  shows "\<exists>dec dec' dec''. Decoder_Open w (new_Decoder f) = (None, dec, w) \<and>
    Decoder_Walk L (\<lambda>v vs. (None, vs @ [v])) w dec [] = Inr (None, dec', w, vs) \<and> Decoder_Close w dec' = (None, dec'', w)"
proof -
  obtain dec where o: "Decoder_Open w (new_Decoder f) = (None, dec, w)" "reader_at f 0 dec"
    using Decoder_Open_ok[of w "new_Decoder f"] assms(2,3) by (auto simp: new_Decoder_def)
  have "gl_decode L (file_bytes w f) = (vs, EOF)" using assms(1,4) by (simp add: gob_round_trip_def)
  from Decoder_Walk_ok[OF assms(2) o(2) this, of "\<lambda>v vs. vs @ [v]" "[]"] obtain dec' h where
    d: "Decoder_Walk L (\<lambda>v vs. (None, vs @ [v])) w dec [] = Inr (None, dec', w, fold (\<lambda>v vs. vs @ [v]) vs [])"
    "dec_r dec' = Some h" "h_open h" by auto
  have "fold (\<lambda>v vs. vs @ [v]) vs acc = acc @ vs" for acc :: "'a list" by (induction vs arbitrary: acc) auto
  with o(1) d assms(2) show ?thesis by (simp add: Decoder_Close_def os_Close_def next_fault_none)
qed

lemma Walk_writing:
  assumes "gob_round_trip L" "writing L f vs w rw"
  shows "\<exists>rw' w'. Parallel_Walk L (\<lambda>v vs. (None, vs @ [v])) w rw [] = Inr (None, rw', w', vs) \<and>
    writing L f vs w' rw' \<and> frame f w w'"
proof -
  obtain rw1 w1 where fl: "Walk_flush w rw = Inr (None, rw1, w1)" "writing L f vs w1 rw1" "frame f w w1"
    "file_bytes w1 f = gob_bytes L vs"
  proof -
    have e: "encoder_ok L f vs w (prw_enc rw)" "prw_writable rw" using assms(2) by (simp_all add: writing_def)
    obtain b where b: "enc_buf (prw_enc rw) = Some b" "file_bytes w f @ bw_buf b = gob_bytes L vs"
      using e(1) by (auto simp: encoder_ok_def bufio_ok_def)
    show thesis
    proof (cases "bw_buf b = []")
      case True
      then show ?thesis using that[of rw w] e(2) b assms(2) by (simp add: Walk_flush_def Encoder_Buffered_def)
    next
      case False
      then show ?thesis using Encoder_Flush_ok[OF e(1)] e(2) b(1) assms(2)
        by (auto simp: Walk_flush_def Encoder_Buffered_def writing_def intro!: that)
    qed
  qed
  have "faults w1 = []" "files w1 f \<noteq> None" using fl(2) by (auto simp: writing_def encoder_ok_def bufio_ok_def)
  from read_stream[OF assms(1) this fl(4)] show ?thesis using fl assms(2)
    by (auto simp: Parallel_Walk_def writing_def)
qed

lemma Walk_finished:
  assumes "gob_round_trip L" "finished L f vs w rw" "faults w = []"
  shows "Parallel_Walk L (\<lambda>v vs. (None, vs @ [v])) w rw [] = Inr (None, rw, w, vs)"
proof -
  have f: "files w f \<noteq> None" "file_bytes w f = gob_bytes L vs" "prw_File rw = f" "\<not> prw_closed rw" "\<not> prw_writable rw"
    using assms(2) by (simp_all add: finished_def)
  then show ?thesis using read_stream[OF assms(1,3) f(1,2)] by (auto simp: Parallel_Walk_def Walk_flush_def)
qed

definition split_rel ::
  "'v gob_lib \<Rightarrow> (nat \<Rightarrow> string) \<Rightarrow> 'v list list \<times> 'v gout list \<Rightarrow> world \<times> 'v SplitReadWriter \<times> 'v gout list \<Rightarrow> bool" where
  "split_rel L pat = (\<lambda>(segs, outs) (w, srw, outs').
     gob_round_trip L \<and> inj pat \<and> (\<forall>i. length segs \<le> i \<longrightarrow> files w (pat i) = None) \<and> segs \<noteq> [] \<and>
     srw_FileNamePattern srw = Some pat \<and> \<not> srw_ReadOnly srw \<and> \<not> srw_closed srw \<and> length (srw_files srw) = length segs \<and>
     writing L (pat (length segs - 1)) (last segs) w (last (srw_files srw)) \<and>
     (\<forall>i < length segs - 1. finished L (pat i) (segs ! i) w (srw_files srw ! i)) \<and> outs' = outs)"

lemma split_frame:
  assumes "inj pat" "frame (pat k) w w'" "\<forall>i < k. finished L (pat i) (segs ! i) w (fs ! i)"
    "\<forall>i. Suc k \<le> i \<longrightarrow> files w (pat i) = None"
  shows "\<forall>i < k. finished L (pat i) (segs ! i) w' (fs ! i)" "\<forall>i. Suc k \<le> i \<longrightarrow> files w' (pat i) = None"
proof -
  have "pat i \<noteq> pat k" if "i \<noteq> k" for i using assms(1) that by (auto dest: injD)
  note ne = this
  show "\<forall>i < k. finished L (pat i) (segs ! i) w' (fs ! i)"
    using assms(3) finished_frame[OF _ assms(2) ne] by (metis less_irrefl)
  show "\<forall>i. Suc k \<le> i \<longrightarrow> files w' (pat i) = None" using assms(2,4) ne by (simp add: frame_def)
qed

lemma split_append_sim:
  assumes "split_rel L pat (segs, outs) (w, srw, outs)"
  shows "\<exists>srw' w'. Split_Append L v w srw = Inr (None, srw', w') \<and>
    split_rel L pat (butlast segs @ [last segs @ [v]], outs) (w', srw', outs)"
proof -
  let ?k = "length segs - 1"
  have r: "inj pat" "segs \<noteq> []" "length (srw_files srw) = length segs" "srw_files srw \<noteq> []"
    "writing L (pat ?k) (last segs) w (last (srw_files srw))" "\<forall>i < ?k. finished L (pat i) (segs ! i) w (srw_files srw ! i)"
    "\<forall>i. Suc ?k \<le> i \<longrightarrow> files w (pat i) = None"
    using assms by (auto simp: split_rel_def)
  obtain rw' w' where a: "Parallel_Append L v w (last (srw_files srw)) = Inr (None, rw', w')"
    "writing L (pat ?k) (last segs @ [v]) w' rw'" "frame (pat ?k) w w'" using Parallel_Append_ok[OF r(5)] by blast
  note fr = split_frame[OF r(1) a(3) r(6,7)]
  let ?srw = "srw\<lparr>srw_files := butlast (srw_files srw) @ [rw']\<rparr>"
  have "Split_Append L v w srw = Inr (None, ?srw, w')"
    using a(1) r(4) assms by (simp add: Split_Append_def LastFile_def split_rel_def)
  moreover have "split_rel L pat (butlast segs @ [last segs @ [v]], outs) (w', ?srw, outs)"
    using assms a(2) fr r(2,3) by (auto simp: split_rel_def nth_append nth_butlast)
  ultimately show ?thesis by blast
qed

lemma split_rotate_sim:
  assumes "split_rel L pat (segs, outs) (w, srw, outs)"
  shows "\<exists>srw' w'. Rotate w srw = Inr (None, srw', w') \<and> split_rel L pat (segs @ [[]], outs) (w', srw', outs)"
proof -
  let ?k = "length segs - 1"
  have r: "inj pat" "segs \<noteq> []" "length (srw_files srw) = length segs" "srw_files srw \<noteq> []"
    "writing L (pat ?k) (last segs) w (last (srw_files srw))" "\<forall>i < ?k. finished L (pat i) (segs ! i) w (srw_files srw ! i)"
    "\<forall>i. Suc ?k \<le> i \<longrightarrow> files w (pat i) = None"
    using assms by (auto simp: split_rel_def)
  obtain rw1 w1 where c: "setReadOnlyNoLock w (last (srw_files srw)) = Inr (None, rw1, w1)"
    "finished L (pat ?k) (last segs) w1 rw1" "frame (pat ?k) w w1" "faults w1 = []" using setReadOnly_ok[OF r(5)] by blast
  note fr = split_frame[OF r(1) c(3) r(6,7)]
  have "file_bytes w1 (pat (length segs)) = []" using fr(2) r(2) by (simp add: file_bytes_def)
  from Parallel_Open_ok[OF c(4) this, of L] obtain rw2 w2 where
    o: "Parallel_Open w1 (new_ParallelReadWriter (pat (length segs)) False) = (None, rw2, w2)"
    "writing L (pat (length segs)) [] w2 rw2" "frame (pat (length segs)) w1 w2" by blast
  let ?fs = "butlast (srw_files srw) @ [rw1]"
  have f1: "\<forall>i < length segs. finished L (pat i) (segs ! i) w1 (?fs ! i)"
  proof (intro allI impI)
    fix i assume i: "i < length segs"
    show "finished L (pat i) (segs ! i) w1 (?fs ! i)"
    proof (cases "i = ?k")
      case True
      then show ?thesis using c(2) r(2,3) by (simp add: nth_append last_conv_nth)
    next
      case False
      then have "i < ?k" using i by simp
      then show ?thesis using fr(1) r(3) by (simp add: nth_append nth_butlast)
    qed
  qed
  have f2: "\<forall>i. Suc (length segs) \<le> i \<longrightarrow> files w1 (pat i) = None" using fr(2) by simp
  note fr2 = split_frame[OF r(1) o(3) f1 f2]
  let ?srw = "srw\<lparr>srw_files := ?fs @ [rw2]\<rparr>"
  have "Rotate w srw = Inr (None, ?srw, w2)"
    using c(1) o(1) r(3,4) assms by (simp add: Rotate_def rotateNoLock_def rotate_new_def split_rel_def Let_def)
  moreover have "split_rel L pat (segs @ [[]], outs) (w2, ?srw, outs)"
    using assms o(2) fr2 r(2,3) by (auto simp: split_rel_def nth_append)
  ultimately show ?thesis by blast
qed

lemma split_walk_sim:
  assumes "split_rel L pat (segs, outs) (w, srw, outs)" "i < length segs"
  shows "\<exists>rw' w'. Parallel_Walk L (\<lambda>v vs. (None, vs @ [v])) w (srw_files srw ! i) [] = Inr (None, rw', w', segs ! i) \<and>
    split_rel L pat (segs, outs) (w', srw\<lparr>srw_files := (srw_files srw)[i := rw']\<rparr>, outs)"
proof -
  let ?k = "length segs - 1"
  have r: "gob_round_trip L" "inj pat" "segs \<noteq> []" "length (srw_files srw) = length segs" "srw_files srw \<noteq> []"
    "writing L (pat ?k) (last segs) w (last (srw_files srw))" "\<forall>i < ?k. finished L (pat i) (segs ! i) w (srw_files srw ! i)"
    "\<forall>i. Suc ?k \<le> i \<longrightarrow> files w (pat i) = None"
    using assms(1) by (auto simp: split_rel_def)
  show ?thesis
  proof (cases "i = ?k")
    case True
    obtain rw' w' where wk: "Parallel_Walk L (\<lambda>v vs. (None, vs @ [v])) w (last (srw_files srw)) [] = Inr (None, rw', w', last segs)"
      "writing L (pat ?k) (last segs) w' rw'" "frame (pat ?k) w w'" using Walk_writing[OF r(1,6)] by blast
    note fr = split_frame[OF r(2) wk(3) r(7,8)]
    have "last (srw_files srw) = srw_files srw ! i" "last segs = segs ! i" "last ((srw_files srw)[i := rw']) = rw'"
      using True r(3-5) by (simp_all add: last_conv_nth)
    then show ?thesis using wk fr assms True r(3) by (auto simp: split_rel_def)
  next
    case False
    then have "finished L (pat i) (segs ! i) w (srw_files srw ! i)" using r(7) assms(2) by simp
    from Walk_finished[OF r(1) this writing_faults[OF r(6)]] show ?thesis using assms(1) by simp
  qed
qed

interpretation split_log: simulating_machine segment_step "split_step L" "split_rel L pat" for L pat
proof
  fix a c op a'
  assume "split_rel L pat a c" and st: "segment_step a op = Some a'"
  obtain segs outs w srw outs' where [simp]: "a = (segs, outs)" "c = (w, srw, outs')" by (metis surj_pair)
  have r: "split_rel L pat (segs, outs) (w, srw, outs)" and [simp]: "outs' = outs"
    using \<open>split_rel L pat a c\<close> by (auto simp: split_rel_def)
  have out: "split_rel L pat (x, os) (w', s', os') = split_rel L pat (x, ps) (w', s', ps)" if "os' = os" for x os os' ps w' s'
    using that by (simp add: split_rel_def)
  show "\<exists>c'. split_step L c op = Inr c' \<and> split_rel L pat a' c'"
  proof (cases op)
    case (GAppend v)
    then show ?thesis using split_append_sim[OF r, of v] st out
      by (fastforce simp: split_step_def segment_step_def gout_def)
  next
    case GRotate
    then show ?thesis using split_rotate_sim[OF r] st out
      by (fastforce simp: split_step_def segment_step_def gout_def)
  next
    case (GWalk i)
    then have i: "i < length segs" using st by (auto simp: segment_step_def split: if_splits)
    have "length (srw_files srw) = length segs" using r by (simp add: split_rel_def)
    then show ?thesis using split_walk_sim[OF r i] st out GWalk i
      by (fastforce simp: split_step_def segment_step_def Split_Index_def)
  qed
qed

lemma close_files_ok:
  assumes "faults w = []" "inj pat" "length fs = length segs"
    "\<forall>i < length segs. finished L (pat (k + i)) (segs ! i) w (fs ! i) \<or> writing L (pat (k + i)) (segs ! i) w (fs ! i)"
  shows "\<exists>fs' w'. close_files w fs = Inr (None, fs', w') \<and> faults w' = [] \<and> list_all prw_closed fs' \<and>
    (\<forall>i < length segs. file_bytes w' (pat (k + i)) = gob_bytes L (segs ! i)) \<and>
    (\<forall>q. q \<notin> (\<lambda>i. pat (k + i)) ` {..<length segs} \<longrightarrow> files w' q = files w q)"
  using assms
proof (induction fs arbitrary: segs k w)
  case Nil
  then show ?case by simp
next
  case (Cons rw fs)
  then obtain vs segs' where [simp]: "segs = vs # segs'" "length fs = length segs'" by (cases segs) auto
  have ne: "pat j \<noteq> pat i" if "j \<noteq> i" for i j using Cons.prems(2) that by (auto dest: injD)
  obtain rw1 w1 where c: "setReadOnlyNoLock w rw = Inr (None, rw1, w1)" "file_bytes w1 (pat k) = gob_bytes L vs"
    "frame (pat k) w w1" "faults w1 = []"
    using Cons.prems(1) Cons.prems(4)[rule_format, of 0] setReadOnly_ok[of L "pat k" vs w rw] setReadOnly_finished[of L "pat k" vs w rw]
    by (auto simp: finished_def)
  have "\<not> prw_closed rw" using Cons.prems(4)[rule_format, of 0] by (auto simp: finished_def writing_def)
  then have pc: "Parallel_Close w rw = Inr (None, rw1\<lparr>prw_closed := True\<rparr>, w1)" using c(1) by (simp add: Parallel_Close_def)
  have "\<forall>i < length segs'. finished L (pat (Suc k + i)) (segs' ! i) w1 (fs ! i) \<or> writing L (pat (Suc k + i)) (segs' ! i) w1 (fs ! i)"
  proof (intro allI impI)
    fix i assume "i < length segs'"
    then have "finished L (pat (Suc k + i)) (segs' ! i) w (fs ! i) \<or> writing L (pat (Suc k + i)) (segs' ! i) w (fs ! i)"
      using Cons.prems(4)[rule_format, of "Suc i"] by simp
    then show "finished L (pat (Suc k + i)) (segs' ! i) w1 (fs ! i) \<or> writing L (pat (Suc k + i)) (segs' ! i) w1 (fs ! i)"
      using finished_frame[OF _ c(3) ne] writing_frame[OF _ c(3) ne c(4)] by fastforce
  qed
  from Cons.IH[OF c(4) Cons.prems(2) _ this] obtain fs' w' where f: "close_files w1 fs = Inr (None, fs', w')" "faults w' = []"
    "list_all prw_closed fs'" "\<forall>i < length segs'. file_bytes w' (pat (Suc k + i)) = gob_bytes L (segs' ! i)"
    "\<forall>q. q \<notin> (\<lambda>i. pat (Suc k + i)) ` {..<length segs'} \<longrightarrow> files w' q = files w1 q" by auto
  have "pat k \<noteq> pat (Suc k + i)" for i using ne[of k "Suc k + i"] by simp
  then have "files w' (pat k) = files w1 (pat k)" using f(5) by auto
  then have "file_bytes w' (pat k) = gob_bytes L vs" using c(2) by (simp add: file_bytes_def)
  then have "\<forall>i < length segs. file_bytes w' (pat (k + i)) = gob_bytes L (segs ! i)"
    using f(4) by (auto simp: less_Suc_eq_0_disj)
  moreover have "files w' q = files w q" if "q \<notin> (\<lambda>i. pat (k + i)) ` {..<length segs}" for q
  proof -
    have q: "q \<noteq> pat (k + i)" if "i < Suc (length segs')" for i using \<open>q \<notin> _\<close> that by auto
    have "q \<noteq> pat k" using q[of 0] by simp
    moreover have "q \<noteq> pat (Suc k + i)" if "i < length segs'" for i using q[of "Suc i"] that by simp
    then have "q \<notin> (\<lambda>i. pat (Suc k + i)) ` {..<length segs'}" by auto
    ultimately have "q \<noteq> pat k" "q \<notin> (\<lambda>i. pat (Suc k + i)) ` {..<length segs'}" by blast+
    then show ?thesis using f(5) c(3) by (simp add: frame_def)
  qed
  ultimately show ?case using pc f by simp
qed

subsection \<open>Properties\<close>

text \<open>
  C25. A split log is a list of segments. Opened for writing where no file of its pattern exists, with no I/O
  failure and \<open>gob\<close> decoding what it encodes: \<open>Append\<close> adds a value to the last segment, \<open>Rotate\<close> starts a
  new one, and walking over file \<open>i\<close>, also the one being written, returns the values of segment \<open>i\<close> in
  order. After \<open>Close\<close> every file holds its segment and nothing can be appended.
\<close>

theorem Split_log_is_segments:
  assumes "gob_round_trip L" "inj pat" "faults w = []" "\<forall>i. files w (pat i) = None"
    "spec_run segment_step ([[]], []) ops = Some (segs, outs)" "srw_FileNamePattern srw = Some pat" "\<not> srw_ReadOnly srw"
  shows "\<exists>srw1 w1 srw2 w2 srw3 w3. Split_Open w srw = Some (None, srw1, w1) \<and>
    go_run (split_step L) (w1, srw1, []) ops = Inr (w2, srw2, outs) \<and> SplitCount srw2 = length segs \<and>
    Split_Close w2 srw2 = Inr (None, srw3, w3) \<and> (\<forall>i < length segs. gl_decode L (file_bytes w3 (pat i)) = (segs ! i, EOF)) \<and>
    Split_Append L v w3 srw3 = Inr (Some ErrClosed, srw3, w3)"
proof -
  have "existing_files (\<lambda>i. File_Exists w (pat i)) 0 = Some 0" using assms(4) by (subst existing_files.simps) (simp add: File_Exists_def)
  moreover obtain rw w1 where o: "Parallel_Open w (new_ParallelReadWriter (pat 0) False) = (None, rw, w1)"
    "writing L (pat 0) [] w1 rw" "frame (pat 0) w w1"
    using Parallel_Open_ok[OF assms(3), of "pat 0" L] assms(4) by (auto simp: file_bytes_def)
  let ?srw = "srw\<lparr>srw_closed := False, srw_files := [rw]\<rparr>"
  have "pat i \<noteq> pat 0" if "1 \<le> i" for i using assms(2) that by (auto dest: injD)
  then have "\<forall>i. 1 \<le> i \<longrightarrow> files w1 (pat i) = None" using o(3) assms(4) by (simp add: frame_def)
  then have "split_rel L pat ([[]], []) (w1, ?srw, [])" using assms o(2) by (simp add: split_rel_def)
  from split_log.run_sim[OF this assms(5)] obtain srw2 w2 where
    r: "go_run (split_step L) (w1, ?srw, []) ops = Inr (w2, srw2, outs)" "split_rel L pat (segs, outs) (w2, srw2, outs)"
    by (auto simp: split_rel_def)
  have f: "faults w2 = []" "length (srw_files srw2) = length segs" "\<not> srw_closed srw2" "\<not> srw_ReadOnly srw2" "segs \<noteq> []"
    using r(2) writing_faults by (auto simp: split_rel_def)
  have "\<forall>i < length segs. finished L (pat (0 + i)) (segs ! i) w2 (srw_files srw2 ! i) \<or> writing L (pat (0 + i)) (segs ! i) w2 (srw_files srw2 ! i)"
  proof (intro allI impI)
    fix i assume i: "i < length segs"
    have "srw_files srw2 \<noteq> []" using f(2,5) by auto
    then show "finished L (pat (0 + i)) (segs ! i) w2 (srw_files srw2 ! i) \<or> writing L (pat (0 + i)) (segs ! i) w2 (srw_files srw2 ! i)"
      using r(2) f(2) i by (cases "i = length segs - 1") (auto simp: split_rel_def last_conv_nth)
  qed
  from close_files_ok[OF f(1) assms(2) f(2) this] obtain fs' w3 where
    c: "close_files w2 (srw_files srw2) = Inr (None, fs', w3)" "\<forall>i < length segs. file_bytes w3 (pat i) = gob_bytes L (segs ! i)"
    by auto
  then show ?thesis using r(1) f o(1) assms calculation
    by (simp add: Split_Open_def Let_def SplitCount_def Split_Close_def Split_Append_def LastFile_def gob_round_trip_def)
qed

definition byte_gob :: "byte gob_lib" where
  "byte_gob = \<lparr>gl_encode = (\<lambda>vs v. [[v]]), gl_decode = (\<lambda>bs. (bs, EOF))\<rparr>"

lemma byte_gob_round_trip: "gob_round_trip byte_gob"
proof -
  have "gob_bytes byte_gob vs = vs" for vs
    by (induction vs rule: rev_induct) (simp_all add: gob_bytes_snoc, simp add: byte_gob_def)
  then show ?thesis by (simp add: gob_round_trip_def) (simp add: byte_gob_def)
qed

definition tally :: "nat \<Rightarrow> string" where
  "tally n = replicate n CHR ''x''"

definition sample_split :: "byte SplitReadWriter" where
  "sample_split = \<lparr>srw_FileNamePattern = Some tally, srw_ReadOnly = False, srw_closed = True, srw_files = []\<rparr>"

theorem Split_log_is_segments_witness:
  "\<exists>srw1 w1 srw2 w2 srw3 w3. Split_Open \<lparr>files = Map.empty, faults = []\<rparr> sample_split = Some (None, srw1, w1) \<and>
    go_run (split_step byte_gob) (w1, srw1, []) [GAppend 1, GAppend 2, GRotate, GAppend 3, GWalk 0, GWalk 1] =
      Inr (w2, srw2, [GDone, GDone, GDone, GDone, GValues [1, 2], GValues [3]]) \<and> SplitCount srw2 = length [[1, 2], [3 :: byte]] \<and>
    Split_Close w2 srw2 = Inr (None, srw3, w3) \<and>
    (\<forall>i < length [[1, 2], [3 :: byte]]. gl_decode byte_gob (file_bytes w3 (tally i)) = ([[1, 2], [3]] ! i, EOF)) \<and>
    Split_Append byte_gob 4 w3 srw3 = Inr (Some ErrClosed, srw3, w3)"
proof (rule Split_log_is_segments)
  show "gob_round_trip byte_gob" by (rule byte_gob_round_trip)
  show "inj tally" by (rule injI) (metis tally_def length_replicate)
qed (simp_all add: segment_step_def sample_split_def)

text \<open>
  Asking a read-only file for its size panics. A \<open>ParallelReadWriter\<close> that was opened read-only, or has been
  made read-only or closed, has no encoder buffer, and \<open>Size\<close> dereferences it.
\<close>

theorem Size_of_readonly_panics:
  assumes "Parallel_Open w (new_ParallelReadWriter f True) = (None, rw, w')"
  shows "Parallel_Size w' rw = Inl NilDereference \<and>
    (\<exists>rw'. SetReadOnly w' rw = Inr (None, rw', w') \<and> Parallel_Size w' rw' = Inl NilDereference)"
  using assms
  by (auto simp: Parallel_Open_def new_ParallelReadWriter_def new_Encoder_def Parallel_Size_def File_Size_def Encoder_Buffered_def
      SetReadOnly_def setReadOnlyNoLock_def Encoder_Close_def split: option.splits)

theorem Size_of_readonly_panics_witness:
  "Parallel_Size \<lparr>files = [''f'' \<mapsto> [7]], faults = []\<rparr> (new_ParallelReadWriter ''f'' True :: byte ParallelReadWriter) = Inl NilDereference \<and>
    (\<exists>rw'. SetReadOnly \<lparr>files = [''f'' \<mapsto> [7]], faults = []\<rparr> (new_ParallelReadWriter ''f'' True :: byte ParallelReadWriter) =
        Inr (None, rw', \<lparr>files = [''f'' \<mapsto> [7]], faults = []\<rparr>) \<and>
      Parallel_Size \<lparr>files = [''f'' \<mapsto> [7]], faults = []\<rparr> rw' = Inl NilDereference)"
  by (rule Size_of_readonly_panics[where f = "''f''"]) (simp add: Parallel_Open_def new_ParallelReadWriter_def)

subsection \<open>Compact logs\<close>

fun compact_write_all ::
  "compact_value gob_lib \<Rightarrow> (SymbolsData option \<times> RawFuncLog option) list \<Rightarrow> world \<Rightarrow> CompactLogWriter \<Rightarrow> (error option \<times> CompactLogWriter \<times> world) go" where
  "compact_write_all L [] w c = Inr (None, c, w)"
| "compact_write_all L ((d, r) # xs) w c =
     go_bind (CompactWriter_Write L d r w c) (\<lambda>(e, c, w).
     case e of Some e \<Rightarrow> Inr (Some e, c, w) | None \<Rightarrow> compact_write_all L xs w c)"

fun compact_read_all ::
  "compact_value gob_lib \<Rightarrow> nat \<Rightarrow> world \<Rightarrow> CompactLogReader \<Rightarrow> ((error + SymbolsData \<times> RawFuncLog) list \<times> CompactLogReader \<times> world) go" where
  "compact_read_all L 0 w c = Inr ([], c, w)"
| "compact_read_all L (Suc n) w c =
     go_bind (CompactReader_Read L w c) (\<lambda>(r, c, w).
     go_bind (compact_read_all L n w c) (\<lambda>(rs, c, w). Inr (r # rs, c, w)))"

definition compact_pair :: "SymbolsData option \<times> RawFuncLog option \<Rightarrow> SymbolsData \<times> RawFuncLog" where
  "compact_pair = (\<lambda>(d, r). (or_nilDiff d, or_nilRaw r))"

definition compact_values :: "(SymbolsData option \<times> RawFuncLog option) list \<Rightarrow> compact_value list" where
  "compact_values xs = concat (map (\<lambda>x. [CSymbols (fst (compact_pair x)), CRaw (snd (compact_pair x))]) xs)"

text \<open>A writer that has encoded \<open>vs\<close> into the file.\<close>

definition compact_ok :: "compact_value gob_lib \<Rightarrow> string \<Rightarrow> compact_value list \<Rightarrow> world \<Rightarrow> CompactLogWriter \<Rightarrow> bool" where
  "compact_ok L f vs w c \<longleftrightarrow> faults w = [] \<and> cw_enc c = Some vs \<and> files w f \<noteq> None \<and> file_bytes w f = gob_bytes L vs \<and>
     (\<exists>h. cw_w c = Some h \<and> h_open h \<and> \<not> h_append h \<and> h_path h = f \<and> h_cur h = length (gob_bytes L vs))"

lemma write_each_ok:
  assumes "faults w = []" "h_open h" "\<not> h_append h" "h_cur h = length (file_bytes w (h_path h))" "files w (h_path h) \<noteq> None"
  shows "\<exists>h' w'. write_each w h ps = (None, h', w') \<and> faults w' = [] \<and> h_open h' \<and> \<not> h_append h' \<and> h_path h' = h_path h \<and>
    h_cur h' = length (file_bytes w' (h_path h)) \<and> file_bytes w' (h_path h) = file_bytes w (h_path h) @ concat ps \<and>
    files w' (h_path h) \<noteq> None"
  using assms
proof (induction ps arbitrary: w h)
  case (Cons p ps)
  let ?h = "h\<lparr>h_cur := h_cur h + length p\<rparr>"
  let ?w = "w\<lparr>files := (files w)(h_path h \<mapsto> file_bytes w (h_path h) @ p)\<rparr>"
  have "os_Write w h p = (?h, length p, None, ?w)"
    using Cons.prems by (simp add: os_Write_def next_fault_none overlay_def Let_def)
  then show ?case using Cons.IH[of ?w ?h] Cons.prems by auto
qed simp

lemma compact_encode_ok:
  assumes "compact_ok L f vs w c"
  shows "\<exists>c' w'. compact_encode L v w c = Inr (None, c', w') \<and> compact_ok L f (vs @ [v]) w' c'"
proof -
  obtain h where h: "cw_w c = Some h" "h_open h" "\<not> h_append h" "h_path h = f" "h_cur h = length (gob_bytes L vs)"
    using assms by (auto simp: compact_ok_def)
  with assms write_each_ok[of w h "gl_encode L vs v"] show ?thesis
    by (auto simp: compact_encode_def compact_ok_def gob_bytes_snoc)
qed

lemma compact_write_all_ok:
  "compact_ok L f vs w c \<Longrightarrow> \<exists>c' w'. compact_write_all L xs w c = Inr (None, c', w') \<and> compact_ok L f (vs @ compact_values xs) w' c'"
proof (induction xs arbitrary: vs w c)
  case Nil
  then show ?case by (simp add: compact_values_def)
next
  case (Cons x xs)
  obtain d r where x: "x = (d, r)" by (cases x)
  obtain c1 w1 where 1: "compact_encode L (CSymbols (or_nilDiff d)) w c = Inr (None, c1, w1)"
    "compact_ok L f (vs @ [CSymbols (or_nilDiff d)]) w1 c1" using compact_encode_ok[OF Cons.prems] by blast
  obtain c2 w2 where 2: "compact_encode L (CRaw (or_nilRaw r)) w1 c1 = Inr (None, c2, w2)"
    "compact_ok L f ((vs @ [CSymbols (or_nilDiff d)]) @ [CRaw (or_nilRaw r)]) w2 c2" using compact_encode_ok[OF 1(2)] by blast
  from Cons.IH[OF 2(2)] show ?case using 1(1) 2(1)
    by (auto simp: x CompactWriter_Write_def compact_values_def compact_pair_def)
qed

lemma compact_values_nth:
  "k < length xs \<Longrightarrow> compact_values xs ! (2 * k) = CSymbols (fst (compact_pair (xs ! k)))"
  "k < length xs \<Longrightarrow> compact_values xs ! (2 * k + 1) = CRaw (snd (compact_pair (xs ! k)))"
  "length (compact_values xs) = 2 * length xs"
proof (induction xs arbitrary: k)
  case (Cons x xs)
  {
    case 1
    then show ?case using Cons(1)[of "k - 1"] by (cases k) (auto simp: compact_values_def)
  next
    case 2
    then show ?case using Cons(2)[of "k - 1"] by (cases k) (auto simp: compact_values_def)
  next
    case 3
    then show ?case using Cons(3) by (simp add: compact_values_def)
  }
qed (simp_all add: compact_values_def)

lemma compact_read_all_ok:
  assumes "faults w = []" "gl_decode L (file_bytes w f) = (compact_values xs, EOF)" "reader_at f (2 * k) (cr_dec c)" "k \<le> length xs"
  shows "\<exists>c'. compact_read_all L (Suc (length xs) - k) w c = Inr (map (Inr \<circ> compact_pair) (drop k xs) @ [Inl EOF], c', w)"
  using assms(3,4)
proof (induction "length xs - k" arbitrary: k c)
  case 0
  then show ?case using Decoder_Read_ok(1)[OF assms(1) 0(2) assms(2)] by (auto simp: CompactReader_Read_def compact_values_nth(3))
next
  case (Suc n)
  then have k: "k < length xs" by simp
  note r1 = Decoder_Read_ok[OF assms(1) Suc.prems(1) assms(2)]
  note r2 = Decoder_Read_ok[OF assms(1) r1(2) assms(2)]
  let ?c = "c\<lparr>cr_dec := (cr_dec c)\<lparr>dec_dec := Some (2 * k + 1 + 1)\<rparr>\<rparr>"
  have rd: "CompactReader_Read L w c = Inr (Inr (compact_pair (xs ! k)), ?c, w)"
    using r1(1) r2(1) k compact_values_nth(1,2)[OF k] by (simp add: CompactReader_Read_def compact_values_nth(3))
  have "reader_at f (2 * Suc k) (cr_dec ?c)" using r2(2) by simp
  moreover have "n = length xs - Suc k" using Suc.hyps(2) by simp
  ultimately obtain c' where "compact_read_all L (Suc (length xs) - Suc k) w ?c = Inr (map (Inr \<circ> compact_pair) (drop (Suc k) xs) @ [Inl EOF], c', w)"
    using Suc.hyps(1)[of "Suc k" ?c] k by auto
  moreover have "Suc (length xs) - k = Suc (Suc (length xs) - Suc k)" using k by simp
  moreover have "drop k xs = xs ! k # drop (Suc k) xs" using k by (simp add: Cons_nth_drop_Suc)
  ultimately show ?case using rd by simp
qed

text \<open>
  A compact log gives back what was written. Into a new or empty file, any sequence of symbol tables and call
  records (either may be missing: it is replaced by an empty one) is written without error; a reader
  opened after the writer is closed returns the same pairs in order and then \<open>io.EOF\<close>, provided \<open>gob\<close>
  decodes the values it encoded.
\<close>

theorem CompactLog_round_trip:
  assumes "faults w = []" "file_bytes w f = []" "gl_decode L (gob_bytes L (compact_values xs)) = (compact_values xs, EOF)"
  shows "\<exists>c w1 c2 w2 c3 w3 r w4 r'. CompactWriter_Open w (CompactLog_Writer f) = (None, c, w1) \<and>
    compact_write_all L xs w1 c = Inr (None, c2, w2) \<and> CompactWriter_Close w2 c2 = Inr (None, c3, w3) \<and>
    CompactReader_Open w3 (CompactLog_Reader f) = (None, r, w4) \<and>
    compact_read_all L (Suc (length xs)) w4 r = Inr (map (Inr \<circ> compact_pair) xs @ [Inl EOF], r', w4)"
proof -
  obtain c w1 where o: "CompactWriter_Open w (CompactLog_Writer f) = (None, c, w1)" "compact_ok L f [] w1 c"
    using assms(1,2) by (simp add: CompactWriter_Open_def CompactLog_Writer_def OpenWriteOnly_def openFile_def next_fault_none opened_def
        compact_ok_def)
  obtain c2 w2 where wr: "compact_write_all L xs w1 c = Inr (None, c2, w2)" "compact_ok L f (compact_values xs) w2 c2"
    using compact_write_all_ok[OF o(2), of xs] by auto
  then have cl: "\<exists>c3. CompactWriter_Close w2 c2 = Inr (None, c3, w2)"
    by (auto simp: compact_ok_def CompactWriter_Close_def os_Close_def next_fault_none)
  have w2: "faults w2 = []" "files w2 f \<noteq> None" "gl_decode L (file_bytes w2 f) = (compact_values xs, EOF)"
    using wr(2) assms(3) by (auto simp: compact_ok_def)
  obtain d where d: "Decoder_Open w2 (new_Decoder f) = (None, d, w2)" "reader_at f (2 * 0) d"
    using Decoder_Open_ok[of w2 "new_Decoder f"] w2 by (auto simp: new_Decoder_def)
  let ?r = "\<lparr>cr_File = f, cr_dec = d\<rparr>"
  have "CompactReader_Open w2 (CompactLog_Reader f) = (None, ?r, w2)" using d(1) by (simp add: CompactReader_Open_def CompactLog_Reader_def)
  moreover have "\<exists>r'. compact_read_all L (Suc (length xs)) w2 ?r = Inr (map (Inr \<circ> compact_pair) xs @ [Inl EOF], r', w2)"
    using compact_read_all_ok[OF w2(1,3), of 0 ?r] d(2) by simp
  ultimately show ?thesis using o(1) wr(1) cl by blast
qed

definition sample_rec :: RawFuncLog where
  "sample_rec = nilRawFuncLog\<lparr>raw_ID := 5\<rparr>"

text \<open>A \<open>gob\<close> for two call records and the empty table.\<close>

definition tag_gob :: "compact_value gob_lib" where
  "tag_gob =
     \<lparr>gl_encode = (\<lambda>vs v. [[if v = CSymbols nilDiff then 0 else if v = CRaw nilRawFuncLog then 1 else 2]]),
      gl_decode = (\<lambda>bs. (map (\<lambda>b. if b = 0 then CSymbols nilDiff else if b = 1 then CRaw nilRawFuncLog else CRaw sample_rec) bs, EOF))\<rparr>"

theorem CompactLog_round_trip_witness:
  "\<exists>c w1 c2 w2 c3 w3 r w4 r'. CompactWriter_Open \<lparr>files = Map.empty, faults = []\<rparr> (CompactLog_Writer ''app.log'') = (None, c, w1) \<and>
    compact_write_all tag_gob [(Some nilDiff, None), (None, Some sample_rec)] w1 c = Inr (None, c2, w2) \<and>
    CompactWriter_Close w2 c2 = Inr (None, c3, w3) \<and> CompactReader_Open w3 (CompactLog_Reader ''app.log'') = (None, r, w4) \<and>
    compact_read_all tag_gob (Suc (length [(Some nilDiff, None), (None, Some sample_rec)])) w4 r =
      Inr (map (Inr \<circ> compact_pair) [(Some nilDiff, None), (None, Some sample_rec)] @ [Inl EOF], r', w4)"
  by (rule CompactLog_round_trip)
    (simp_all add: gob_bytes_def tag_gob_def compact_values_def compact_pair_def or_nilDiff_def or_nilRaw_def sample_rec_def
      nilRawFuncLog_def nth_Cons' upt_rec file_bytes_def)

end
