(* ===== verification/Log.thy ===== *)
theory Log
  imports Layout Gob Stores Index
begin

section \<open>Log: the files of one trace (\<open>tracer/storage/log.go\<close>)\<close>

text \<open>
  A \<open>Log\<close> composes the index, the symbol table, three record stores and the metadata of one trace.
  \<open>encoding/gob\<close> and \<open>encoding/json\<close> are in \<open>log_libs\<close>. Callbacks that watch the metadata are functions on
  the state \<open>'u\<close> their closures share; a map is iterated in the order \<open>ks\<close> of its keys. The worker that
  updates the time stamp is a count of running workers and its round \<open>timestamp_update\<close>; \<open>Close\<close> ends it
  after a last round. The log's own mutex is taken and released by each method and left out; that of the stores is not.
\<close>

record log_libs =
  ll_index_enc :: gob_encoder
  ll_index_dec :: gob_decoder
  ll_symbols :: "SymbolsData gob_lib"
  ll_meta_enc :: "LogMetadata \<Rightarrow> byte list"
  ll_meta_dec :: "byte list \<Rightarrow> LogMetadata option"

datatype LogStatus = LogBroken | LogNotCreated | LogCreated

type_synonym 'u callbacks = "int64 \<rightharpoonup> (LogInfo \<Rightarrow> 'u \<Rightarrow> 'u)"

record 'u Log =
  lg_ID :: LogID
  lg_Version :: int64
  lg_Root :: DirLayout
  lg_Metadata :: "LogMetadata option"
  lg_MaxFileSize :: int64
  lg_ReadOnly :: bool
  lg_cancelled :: "bool option"
  lg_workers :: nat
  lg_closed :: bool
  lg_index :: "Index option"
  lg_symbols :: "Symbols option"
  lg_funcLog :: Store
  lg_rawFuncLog :: Store
  lg_goroutineLog :: Store
  lg_event :: "'u callbacks"

text \<open>The zero \<open>time.Time\<close>, the first instant of the year 1.\<close>

definition zero_instant :: instant where
  "zero_instant = - 62135596800 * 1000000000"

definition zero_LogMetadata :: LogMetadata where
  "zero_LogMetadata = \<lparr>md_Timestamp = zero_instant, md_PID = 0, md_Host = [], md_AppName = [],
     md_TraceTarget = \<lparr>tt_Funcs = []\<rparr>,
     md_UI = \<lparr>ui_FuncLogs = Map.empty, ui_Funcs = Map.empty, ui_Goroutines = Map.empty\<rparr>\<rparr>"

definition zero_Store :: Store where
  "zero_Store = new_Store [] 0 False"

definition new_Log :: "LogID \<Rightarrow> DirLayout \<Rightarrow> int64 \<Rightarrow> bool \<Rightarrow> 'u Log" where
  "new_Log i d m ro =
     \<lparr>lg_ID = i, lg_Version = 0, lg_Root = d, lg_Metadata = None, lg_MaxFileSize = m, lg_ReadOnly = ro, lg_cancelled = None,
      lg_workers = 0, lg_closed = False, lg_index = None, lg_symbols = None, lg_funcLog = zero_Store, lg_rawFuncLog = zero_Store,
      lg_goroutineLog = zero_Store, lg_event = Map.empty\<rparr>"

subsection \<open>Opening\<close>

definition Log_Status :: "world \<Rightarrow> 'u Log \<Rightarrow> LogStatus" where
  "Log_Status w l =
     (let m = File_Exists w (MetaFile (lg_Root l) (lg_ID l));
          f = File_Exists w (FuncLogFile (lg_Root l) (lg_ID l) 0);
          r = File_Exists w (RawFuncLogFile (lg_Root l) (lg_ID l) 0);
          i = File_Exists w (IndexFile (lg_Root l) (lg_ID l));
          s = File_Exists w (SymbolFile (lg_Root l) (lg_ID l))
      in if m \<and> f \<and> r \<and> i \<and> s then LogCreated
         else if \<not> m \<and> \<not> f \<and> \<not> r \<and> \<not> i \<and> \<not> s then LogNotCreated
         else LogBroken)"

definition symbolsStore :: "'u Log \<Rightarrow> SymbolsStore" where
  "symbolsStore l = \<lparr>ss_File = SymbolFile (lg_Root l) (lg_ID l), ss_ReadOnly = lg_ReadOnly l\<rparr>"

text \<open>The metadata file is closed when \<open>Open\<close> returns: its handle is part of the result.\<close>

definition Open_metadata :: "log_libs \<Rightarrow> world \<Rightarrow> 'u Log \<Rightarrow> error option \<times> 'u Log \<times> handle option \<times> world" where
  "Open_metadata L w l =
     (if lg_Metadata l \<noteq> None then (None, l, None, w)
      else let l = l\<lparr>lg_Metadata := Some zero_LogMetadata\<rparr>; f = MetaFile (lg_Root l) (lg_ID l) in
        if \<not> File_Exists w f then (None, l, None, w)
        else case OpenReadOnly w f of
               (None, e, w) \<Rightarrow> (e, l, None, w)
             | (Some h, _, w) \<Rightarrow>
                 (case next_fault w of
                    (Some _, w) \<Rightarrow> (Some EIO, l, Some h, w)
                  | (None, w) \<Rightarrow>
                      (case ll_meta_dec L (file_bytes w f) of
                         None \<Rightarrow> (Some DecodeError, l, Some h, w)
                       | Some m \<Rightarrow> (None, l\<lparr>lg_Metadata := Some m\<rparr>, Some h, w))))"

definition Open_load :: "log_libs \<Rightarrow> world \<Rightarrow> 'u Log \<Rightarrow> Index \<Rightarrow> Symbols \<Rightarrow> (error option \<times> 'u Log \<times> world) go" where
  "Open_load L w l idx sy =
     (case Index_Load (ll_index_dec L) w idx of
        (Some e, idx, w) \<Rightarrow> Inr (Some e, l\<lparr>lg_index := Some idx, lg_symbols := Some sy\<rparr>, w)
      | (None, idx, w) \<Rightarrow>
          go_bind (SymbolsStore_Read (ll_symbols L) w (symbolsStore l) sy) (\<lambda>(e, sy, w).
          Inr (e, l\<lparr>lg_index := Some idx, lg_symbols := Some sy\<rparr>, w)))"

definition Open_stores :: "world \<Rightarrow> 'u Log \<Rightarrow> (error option \<times> 'u Log \<times> world) go" where
  "Open_stores w l =
     (let d = lg_Root l; i = lg_ID l; ro = lg_ReadOnly l;
          l = l\<lparr>lg_funcLog := new_Store (FuncLogFile d i 0) SizeFuncLog ro,
                lg_rawFuncLog := new_Store (RawFuncLogFile d i 0) SizeRawFuncLog ro,
                lg_goroutineLog := new_Store (GoroutineLogFile d i 0) SizeGoroutine ro\<rparr>
      in go_bind (Store_Open w (lg_funcLog l)) (\<lambda>(e, s, w).
         let l = l\<lparr>lg_funcLog := s\<rparr> in
         case e of Some e \<Rightarrow> Inr (Some e, l, w) | None \<Rightarrow>
         go_bind (Store_Open w (lg_rawFuncLog l)) (\<lambda>(e, s, w).
         let l = l\<lparr>lg_rawFuncLog := s\<rparr> in
         case e of Some e \<Rightarrow> Inr (Some e, l, w) | None \<Rightarrow>
         go_bind (Store_Open w (lg_goroutineLog l)) (\<lambda>(e, s, w).
         let l = l\<lparr>lg_goroutineLog := s\<rparr> in
         case e of Some e \<Rightarrow> Inr (Some e, l, w) | None \<Rightarrow>
         Inr (None, (if ro then l else l\<lparr>lg_workers := lg_workers l + 1\<rparr>), w)))))"

definition Open_rest :: "log_libs \<Rightarrow> world \<Rightarrow> 'u Log \<Rightarrow> (error option \<times> 'u Log \<times> world) go" where
  "Open_rest L w l =
     (let status = Log_Status w l in
      if status = LogBroken then Inr (Some (ErrInvalid ''Log is broken''), l, w)
      else
        let l = l\<lparr>lg_cancelled := Some False, lg_closed := False\<rparr>;
            idx = \<lparr>idx_File = IndexFile (lg_Root l) (lg_ID l), idx_ReadOnly = lg_ReadOnly l, idx_records = None\<rparr>;
            sy = \<lparr>sym_Writable = \<not> lg_ReadOnly l, sym_data = nilDiff\<rparr>
        in case Index_Open idx of
             Some e \<Rightarrow> Inr (Some e, l\<lparr>lg_index := Some idx\<rparr>, w)
           | None \<Rightarrow>
               if status = LogCreated
               then go_bind (Open_load L w l idx sy) (\<lambda>(e, l, w).
                 case e of Some e \<Rightarrow> Inr (Some e, l, w) | None \<Rightarrow> Open_stores w l)
               else Open_stores w (l\<lparr>lg_index := Some idx, lg_symbols := Some sy\<rparr>))"

definition Log_Open :: "log_libs \<Rightarrow> world \<Rightarrow> 'u Log \<Rightarrow> (error option \<times> 'u Log \<times> world) go" where
  "Log_Open L w l =
     (let l = (if sint (lg_Version l) < 1 then l\<lparr>lg_Version := 1\<rparr> else l) in
      case Open_metadata L w l of
        (e, l, h, w) \<Rightarrow>
          go_bind (case e of Some e \<Rightarrow> Inr (Some e, l, w) | None \<Rightarrow> Open_rest L w l) (\<lambda>(e, l, w).
          case h of
            None \<Rightarrow> Inr (e, l, w)
          | Some h \<Rightarrow> (case os_Close w h of (_, _, w) \<Rightarrow> Inr (e, l, w))))"

subsection \<open>Metadata and watchers\<close>

definition logInfoNolock :: "'u Log \<Rightarrow> LogInfo go" where
  "logInfoNolock l =
     (case lg_Metadata l of
        None \<Rightarrow> Inl NilDereference
      | Some m \<Rightarrow> Inr \<lparr>li_ID = LogID_Hex (lg_ID l), li_Version = lg_Version l, li_Metadata = m,
          li_MaxFileSize = lg_MaxFileSize l, li_ReadOnly = lg_ReadOnly l\<rparr>)"

definition Log_LogInfo :: "'u Log \<Rightarrow> LogInfo go" where
  "Log_LogInfo l = logInfoNolock l"

definition logEvent_Notify :: "int64 list \<Rightarrow> LogInfo \<Rightarrow> 'u callbacks \<Rightarrow> 'u \<Rightarrow> 'u" where
  "logEvent_Notify ks info cb u = fold (\<lambda>k u. case cb k of None \<Rightarrow> u | Some fn \<Rightarrow> fn info u) ks u"

definition ErrConflict :: error where
  "ErrConflict = ErrInvalid ''failed to update because conflict''"

definition UpdateMetadata :: "int64 list \<Rightarrow> int64 \<Rightarrow> LogMetadata \<Rightarrow> 'u Log \<times> 'u \<Rightarrow> (error option \<times> 'u Log \<times> 'u) go" where
  "UpdateMetadata ks currentVer metadata = (\<lambda>(l, u).
     if lg_Version l \<noteq> currentVer then Inr (Some ErrConflict, l, u)
     else let l = l\<lparr>lg_Version := lg_Version l + 1, lg_Metadata := Some metadata\<rparr> in
       go_bind (logInfoNolock l) (\<lambda>info. Inr (None, l, logEvent_Notify ks info (lg_event l) u)))"

text \<open>\<open>register\<close> draws random keys until one is free: \<open>rnd\<close> are the draws, \<open>None\<close> if they do not suffice.\<close>

fun register_key :: "int64 list \<Rightarrow> 'u callbacks \<Rightarrow> int64 option" where
  "register_key [] cb = None"
| "register_key (key # rnd) cb = (if cb key \<noteq> None then register_key rnd cb else Some key)"

definition logEvent_register :: "int64 list \<Rightarrow> (LogInfo \<Rightarrow> 'u \<Rightarrow> 'u) \<Rightarrow> 'u callbacks \<Rightarrow> (int64 \<times> 'u callbacks) option" where
  "logEvent_register rnd fn cb = map_option (\<lambda>key. (key, cb(key \<mapsto> fn))) (register_key rnd cb)"

definition logEvent_unregister :: "int64 \<Rightarrow> 'u callbacks \<Rightarrow> 'u callbacks" where
  "logEvent_unregister key cb = cb(key := None)"

text \<open>\<open>Watch\<close> registers, waits for the context to end while \<open>during\<close> happens, and unregisters.\<close>

definition Log_Watch :: "int64 list \<Rightarrow> (LogInfo \<Rightarrow> 'u \<Rightarrow> 'u) \<Rightarrow> ('u Log \<times> 'u \<Rightarrow> ('u Log \<times> 'u) go) \<Rightarrow> 'u Log \<times> 'u \<Rightarrow> ('u Log \<times> 'u) go option" where
  "Log_Watch rnd fn during = (\<lambda>(l, u).
     case logEvent_register rnd fn (lg_event l) of
       None \<Rightarrow> None
     | Some (key, cb) \<Rightarrow>
         Some (go_bind (during (l\<lparr>lg_event := cb\<rparr>, u)) (\<lambda>(l, u). Inr (l\<lparr>lg_event := logEvent_unregister key (lg_event l)\<rparr>, u))))"

definition timestamp_update :: "log_libs \<Rightarrow> int64 list \<Rightarrow> world \<Rightarrow> 'u Log \<times> 'u \<Rightarrow> (('u Log \<times> 'u) \<times> world) go" where
  "timestamp_update L ks w = (\<lambda>(l, u).
     case (lg_index l, lg_Metadata l) of
       (Some idx, Some m) \<Rightarrow>
         go_bind (Index_Len (ll_index_dec L) w idx) (\<lambda>(n, idx, w).
         let l = l\<lparr>lg_index := Some idx\<rparr> in
         if n = 0 then Inr ((l, u), w)
         else go_bind (Index_Last (ll_index_dec L) w idx) (\<lambda>(ir, idx, w).
           let l = l\<lparr>lg_index := Some idx\<rparr> in
           if UnixTime (MaxEnd ir) = md_Timestamp m then Inr ((l, u), w)
           else go_bind (UpdateMetadata ks (lg_Version l) (m\<lparr>md_Timestamp := UnixTime (MaxEnd ir)\<rparr>) (l, u)) (\<lambda>(e, lu).
             Inr (lu, w))))
     | _ \<Rightarrow> Inl NilDereference)"

subsection \<open>Closing\<close>

text \<open>\<open>wg.Wait\<close>: the worker sees the cancelled context, runs a last round and leaves.\<close>

definition wait_workers :: "log_libs \<Rightarrow> int64 list \<Rightarrow> world \<Rightarrow> 'u Log \<times> 'u \<Rightarrow> (('u Log \<times> 'u) \<times> world) go" where
  "wait_workers L ks w = (\<lambda>(l, u).
     if lg_workers l = 0 then Inr ((l, u), w)
     else go_bind (timestamp_update L ks w (l, u)) (\<lambda>((l, u), w). Inr ((l\<lparr>lg_workers := lg_workers l - 1\<rparr>, u), w)))"

definition Close_metadata :: "log_libs \<Rightarrow> world \<Rightarrow> 'u Log \<Rightarrow> error option \<times> world" where
  "Close_metadata L w l =
     (case OpenWriteOnly w (MetaFile (lg_Root l) (lg_ID l)) of
        (None, e, w) \<Rightarrow> (e, w)
      | (Some h, _, w) \<Rightarrow>
          (case os_Write w h (case lg_Metadata l of None \<Rightarrow> bytes_of_string ''null'' @ [10] | Some m \<Rightarrow> ll_meta_enc L m) of
             (h, n, Some e, w) \<Rightarrow> (case os_Close w h of (_, _, w) \<Rightarrow> (Some e, w))
           | (h, n, None, w) \<Rightarrow> (case os_Close w h of (_, e, w) \<Rightarrow> (e, w))))"

definition Close_stores :: "log_libs \<Rightarrow> world \<Rightarrow> 'u Log \<Rightarrow> (error option \<times> 'u Log \<times> world) go" where
  "Close_stores L w l =
     go_bind (Store_Close w (lg_funcLog l)) (\<lambda>(e, s, w).
     let l = l\<lparr>lg_funcLog := s\<rparr> in
     case e of Some e \<Rightarrow> Inr (Some e, l, w) | None \<Rightarrow>
     go_bind (Store_Close w (lg_rawFuncLog l)) (\<lambda>(e, s, w).
     let l = l\<lparr>lg_rawFuncLog := s\<rparr> in
     case e of Some e \<Rightarrow> Inr (Some e, l, w) | None \<Rightarrow>
     go_bind (Store_Close w (lg_goroutineLog l)) (\<lambda>(e, s, w).
     let l = l\<lparr>lg_goroutineLog := s\<rparr> in
     case e of Some e \<Rightarrow> Inr (Some e, l, w) | None \<Rightarrow>
     (case Close_metadata L w l of (e, w) \<Rightarrow> Inr (e, l, w)))))"

definition Close_files :: "log_libs \<Rightarrow> world \<Rightarrow> 'u Log \<Rightarrow> (error option \<times> 'u Log \<times> world) go" where
  "Close_files L w l =
     (case (lg_index l, lg_symbols l) of
        (Some idx, Some sy) \<Rightarrow>
          (case Index_Close (ll_index_enc L) w idx of
             (Some e, idx, w) \<Rightarrow> Inr (Some e, l\<lparr>lg_index := Some idx\<rparr>, w)
           | (None, idx, w) \<Rightarrow>
               let l = l\<lparr>lg_index := Some idx\<rparr> in
               if lg_ReadOnly l then Close_stores L w l
               else go_bind (SymbolsStore_Write (ll_symbols L) w (symbolsStore l) sy) (\<lambda>(e, w).
                 case e of Some e \<Rightarrow> Inr (Some e, l, w) | None \<Rightarrow> Close_stores L w l))
      | _ \<Rightarrow> Inl NilDereference)"

definition Log_Close :: "log_libs \<Rightarrow> int64 list \<Rightarrow> world \<Rightarrow> 'u Log \<times> 'u \<Rightarrow> (error option \<times> ('u Log \<times> 'u) \<times> world) go" where
  "Log_Close L ks w = (\<lambda>(l, u).
     if lg_cancelled l = None then Inl NilDereference
     else go_bind (wait_workers L ks w (l\<lparr>lg_cancelled := Some True\<rparr>, u)) (\<lambda>((l, u), w).
       go_bind (Close_files L w (l\<lparr>lg_closed := True\<rparr>)) (\<lambda>(e, l, w). Inr (e, (l, u), w))))"

subsection \<open>Removing\<close>

text \<open>The loop over the numbered files of call records; it ends when a number has no raw file.\<close>

partial_function (option) remove_loop :: "world \<Rightarrow> 'u Log \<Rightarrow> int64 \<Rightarrow> (error option \<times> world) option" where
  "remove_loop w l i =
     (if \<not> File_Exists w (RawFuncLogFile (lg_Root l) (lg_ID l) i) then Some (None, w)
      else case File_Remove w (RawFuncLogFile (lg_Root l) (lg_ID l) i) of
             (Some e, w) \<Rightarrow> Some (Some e, w)
           | (None, w) \<Rightarrow>
               (case File_Remove w (FuncLogFile (lg_Root l) (lg_ID l) i) of
                  (Some e, w) \<Rightarrow> Some (Some e, w)
                | (None, w) \<Rightarrow> remove_loop w l (i + 1)))"

declare remove_loop.simps [code]

definition Log_Remove :: "world \<Rightarrow> 'u Log \<Rightarrow> (error option \<times> world) option" where
  "Log_Remove w l =
     (case File_Remove w (MetaFile (lg_Root l) (lg_ID l)) of
        (Some e, w) \<Rightarrow> Some (Some e, w)
      | (None, w) \<Rightarrow>
          (case File_Remove w (IndexFile (lg_Root l) (lg_ID l)) of
             (Some e, w) \<Rightarrow> Some (Some e, w)
           | (None, w) \<Rightarrow>
               (case remove_loop w l 0 of
                  None \<Rightarrow> None
                | Some (Some e, w) \<Rightarrow> Some (Some e, w)
                | Some (None, w) \<Rightarrow> Some (File_Remove w (SymbolFile (lg_Root l) (lg_ID l))))))"

subsection \<open>Contents\<close>

definition Log_FuncLog :: "(world \<Rightarrow> Store \<Rightarrow> ('r \<times> Store \<times> world) go) \<Rightarrow> world \<Rightarrow> 'u Log \<Rightarrow> ('r \<times> 'u Log \<times> world) go" where
  "Log_FuncLog fn w l = go_bind (with_lock fn w (lg_funcLog l)) (\<lambda>(r, s, w). Inr (r, l\<lparr>lg_funcLog := s\<rparr>, w))"

definition Log_RawFuncLog :: "(world \<Rightarrow> Store \<Rightarrow> ('r \<times> Store \<times> world) go) \<Rightarrow> world \<Rightarrow> 'u Log \<Rightarrow> ('r \<times> 'u Log \<times> world) go" where
  "Log_RawFuncLog fn w l = go_bind (with_lock fn w (lg_rawFuncLog l)) (\<lambda>(r, s, w). Inr (r, l\<lparr>lg_rawFuncLog := s\<rparr>, w))"

definition Log_Goroutine :: "(world \<Rightarrow> Store \<Rightarrow> ('r \<times> Store \<times> world) go) \<Rightarrow> world \<Rightarrow> 'u Log \<Rightarrow> ('r \<times> 'u Log \<times> world) go" where
  "Log_Goroutine fn w l = go_bind (with_lock fn w (lg_goroutineLog l)) (\<lambda>(r, s, w). Inr (r, l\<lparr>lg_goroutineLog := s\<rparr>, w))"

definition Log_Index :: "(Index option \<Rightarrow> 'r \<times> Index option) \<Rightarrow> 'u Log \<Rightarrow> 'r \<times> 'u Log" where
  "Log_Index fn l = (case fn (lg_index l) of (r, idx) \<Rightarrow> (r, l\<lparr>lg_index := idx\<rparr>))"

definition IndexLen :: "log_libs \<Rightarrow> world \<Rightarrow> 'u Log \<Rightarrow> (int \<times> 'u Log \<times> world) go" where
  "IndexLen L w l =
     (case lg_index l of
        None \<Rightarrow> Inl NilDereference
      | Some idx \<Rightarrow> go_bind (Index_Len (ll_index_dec L) w idx) (\<lambda>(n, idx, w). Inr (n, l\<lparr>lg_index := Some idx\<rparr>, w)))"

definition SetSymbolsData :: "SymbolsData \<Rightarrow> 'u Log \<Rightarrow> (error option \<times> 'u Log) go" where
  "SetSymbolsData data l =
     (if lg_closed l then Inr (Some ErrClosed, l)
      else case lg_symbols l of
             None \<Rightarrow> Inl NilDereference
           | Some sy \<Rightarrow> go_bind (Symbols_Load sy data) (\<lambda>sy. Inr (None, l\<lparr>lg_symbols := Some sy\<rparr>)))"

definition Log_Symbols :: "'u Log \<Rightarrow> Symbols option" where
  "Log_Symbols l = lg_symbols l"

text \<open>
  \<open>SearchFuncLog\<close> locks the store and then calls \<open>Get\<close>, which locks it again. The record it decodes into has
  no frames, a slice of capacity 0. \<open>n\<close> counts the calls left.
\<close>

fun search_loop ::
  "(FuncLog \<Rightarrow> 's \<Rightarrow> error option \<times> 's) \<Rightarrow> nat \<Rightarrow> int64 \<Rightarrow> world \<Rightarrow> Store \<Rightarrow> 's \<Rightarrow> (error option \<times> Store \<times> world \<times> 's) go" where
  "search_loop fn 0 i w st s = Inr (None, st, w, s)"
| "search_loop fn (Suc n) i w st s =
     go_bind (FuncLog_Get 0 i w st) (\<lambda>(r, st, w).
     case r of
       Inl e \<Rightarrow> Inr (Some e, st, w, s)
     | Inr fl \<Rightarrow>
         (case fn fl s of
            (Some e, s) \<Rightarrow> Inr (Some e, st, w, s)
          | (None, s) \<Rightarrow> search_loop fn n (i + 1) w st s))"

definition SearchFuncLog ::
  "log_libs \<Rightarrow> Time \<Rightarrow> Time \<Rightarrow> (FuncLog \<Rightarrow> 's \<Rightarrow> error option \<times> 's) \<Rightarrow> world \<Rightarrow> 'u Log \<Rightarrow> 's \<Rightarrow> (error option \<times> 'u Log \<times> world \<times> 's) go" where
  "SearchFuncLog L start fin fn w l s =
     (case lg_index l of
        None \<Rightarrow> Inl NilDereference
      | Some idx \<Rightarrow>
          go_bind (IDRangeByTime (ll_index_dec L) w idx start fin) (\<lambda>((startIdx, endIdx), idx, w).
          let l = l\<lparr>lg_index := Some idx\<rparr>;
              endIdx = (if endIdx = 0 then Records (lg_funcLog l) else sint endIdx)
          in go_bind (Store_Lock (lg_funcLog l)) (\<lambda>st.
             go_bind (search_loop fn (nat (endIdx - sint startIdx)) startIdx w st s) (\<lambda>(e, st, w, s).
             go_bind (Store_Unlock st) (\<lambda>st. Inr (e, l\<lparr>lg_funcLog := st\<rparr>, w, s))))))"

subsection \<open>Stores beside each other\<close>

lemma st_ok_cong:
  assumes "files w' (st_File s) = files w (st_File s)" "faults w' = []"
  shows "st_ok w s \<Longrightarrow> st_ok w' s" "array_of w' s = array_of w s" "vc w' s = vc w s"
proof -
  have b: "file_bytes w' (st_File s) = file_bytes w (st_File s)" using assms(1) by (simp add: file_bytes_def)
  then show "vc w' s = vc w s" by (simp add: vc_def virt_def)
  then show "array_of w' s = array_of w s" by (simp add: array_of_def)
  show "st_ok w s \<Longrightarrow> st_ok w' s"
    using assms b \<open>vc w' s = vc w s\<close> by (auto simp: st_ok_def st_at_def own_limit_def buffer_at_def rb_wf_def)
qed

lemma st_ok_frame:
  assumes "st_ok w s" "frame f w w'" "f \<noteq> st_File s"
  shows "st_ok w' s" "array_of w' s = array_of w s" "vc w' s = vc w s"
  using st_ok_cong[of w' s w] assms st_okD(1)[OF assms(1)] by (auto simp: frame_def)

subsection \<open>The stores of a log\<close>

definition has_store :: "world \<Rightarrow> string \<Rightarrow> nat \<Rightarrow> bool \<Rightarrow> byte list list \<Rightarrow> Store \<Rightarrow> bool" where
  "has_store w p rs ro a s \<longleftrightarrow> store_rel p rs ro (a, []) (w, s, [])"

lemma has_store_frame: "has_store w p rs ro a s \<Longrightarrow> frame f w w' \<Longrightarrow> f \<noteq> p \<Longrightarrow> has_store w' p rs ro a s"
  using st_ok_frame[of w s f w'] by (auto simp: has_store_def store_rel_def)

lemma has_store_faults: "has_store w p rs ro a s \<Longrightarrow> faults w = []"
  by (auto simp: has_store_def store_rel_def st_ok_def st_at_def)

lemma Store_Open_has:
  assumes "faults w = []" "0 < rs" "length (file_bytes w p) = rs * n" "ro \<longrightarrow> files w p \<noteq> None"
  shows "\<exists>s w'. Store_Open w (new_Store p rs ro) = Inr (None, s, w') \<and> has_store w' p rs ro (records_of rs (file_bytes w p)) s \<and> frame p w w' \<and>
    faults w' = [] \<and> (ro \<longrightarrow> w' = w)"
  using Store_Open_ok[OF assms(1-3), of ro] assms(4) has_store_faults by (fastforce simp: has_store_def)

lemma Store_Close_has:
  assumes "has_store w p rs ro a s"
  shows "\<exists>s' w'. Store_Close w s = Inr (None, s', w') \<and> faults w' = [] \<and> frame p w w' \<and> files w' p \<noteq> None \<and>
    (\<exists>n. length (file_bytes w' p) = rs * n) \<and> records_of rs (file_bytes w' p) = a"
  using Store_Close_ok[of w s] assms by (fastforce simp: has_store_def store_rel_def array_of_def st_ok_def st_at_def)

text \<open>The arrays of a log: call records, raw records, goroutines.\<close>

record arrays =
  ar_calls :: "byte list list"
  ar_raws :: "byte list list"
  ar_goroutines :: "byte list list"

abbreviation path_of :: "'u Log \<Rightarrow> file_kind \<Rightarrow> string" where
  "path_of l k \<equiv> log_file (lg_Root l) (lg_ID l) k"

definition log_stores :: "bool \<Rightarrow> world \<Rightarrow> 'u Log \<Rightarrow> arrays \<Rightarrow> bool" where
  "log_stores ro w l a \<longleftrightarrow>
     has_store w (path_of l (FuncLogs 0)) SizeFuncLog ro (ar_calls a) (lg_funcLog l) \<and>
     has_store w (path_of l (RawLogs 0)) SizeRawFuncLog ro (ar_raws a) (lg_rawFuncLog l) \<and>
     has_store w (path_of l (Goroutines 0)) SizeGoroutine ro (ar_goroutines a) (lg_goroutineLog l)"

definition stored :: "world \<Rightarrow> 'u Log \<Rightarrow> arrays \<Rightarrow> bool" where
  "stored w l a \<longleftrightarrow>
     (\<exists>n. length (file_bytes w (path_of l (FuncLogs 0))) = SizeFuncLog * n) \<and>
     (\<exists>n. length (file_bytes w (path_of l (RawLogs 0))) = SizeRawFuncLog * n) \<and>
     (\<exists>n. length (file_bytes w (path_of l (Goroutines 0))) = SizeGoroutine * n) \<and>
     a = \<lparr>ar_calls = records_of SizeFuncLog (file_bytes w (path_of l (FuncLogs 0))),
          ar_raws = records_of SizeRawFuncLog (file_bytes w (path_of l (RawLogs 0))),
          ar_goroutines = records_of SizeGoroutine (file_bytes w (path_of l (Goroutines 0)))\<rparr>"

lemma path_simps:
  "MetaFile d i = log_file d i Meta" "SymbolFile d i = log_file d i SymbolCache" "IndexFile d i = log_file d i TimeIndex"
  "RawFuncLogFile d i n = log_file d i (RawLogs n)" "FuncLogFile d i n = log_file d i (FuncLogs n)"
  "GoroutineLogFile d i n = log_file d i (Goroutines n)"
  by (simp_all add: log_file_def)

lemma path_of_eq [simp]: "LogID_wf (lg_ID l) \<Longrightarrow> (path_of l k = path_of l m) = (k = m)"
  by (simp add: log_file_inject)

definition stores_of :: "'u Log \<Rightarrow> 'u Log \<Rightarrow> 'u Log" where
  "stores_of l l' = l\<lparr>lg_funcLog := lg_funcLog l', lg_rawFuncLog := lg_rawFuncLog l', lg_goroutineLog := lg_goroutineLog l'\<rparr>"

definition data_kinds :: "file_kind set" where
  "data_kinds = {FuncLogs 0, RawLogs 0, Goroutines 0}"

definition frames :: "string set \<Rightarrow> world \<Rightarrow> world \<Rightarrow> bool" where
  "frames S w w' \<longleftrightarrow> (\<forall>q. q \<notin> S \<longrightarrow> files w' q = files w q)"

lemma frame_frames: "frame f w w' \<Longrightarrow> f \<in> S \<Longrightarrow> frames S w w'"
  by (auto simp: frame_def frames_def)

lemma frames_trans: "frames S w w' \<Longrightarrow> frames S w' w'' \<Longrightarrow> frames S w w''"
  by (simp add: frames_def)

lemma frames_refl [simp]: "frames S w w"
  by (simp add: frames_def)

lemma Open_stores_ok:
  assumes wf: "LogID_wf (lg_ID l)" and nf: "faults w = []" and st: "stored w l a"
    and ex: "lg_ReadOnly l \<longrightarrow> (\<forall>k \<in> data_kinds. files w (path_of l k) \<noteq> None)"
  shows "\<exists>l' w'. Open_stores w l = Inr (None, l', w') \<and> log_stores (lg_ReadOnly l) w' l' a \<and> frames (path_of l ` data_kinds) w w' \<and>
    l' = (stores_of l l')\<lparr>lg_workers := lg_workers l + (if lg_ReadOnly l then 0 else 1)\<rparr> \<and> (lg_ReadOnly l \<longrightarrow> w' = w)"
proof -
  let ?ro = "lg_ReadOnly l"
  let ?f = "path_of l (FuncLogs 0)" and ?r = "path_of l (RawLogs 0)" and ?g = "path_of l (Goroutines 0)"
  note pos = SizeFuncLog_def SizeRawFuncLog_def SizeGoroutine_eq
  obtain s1 w1 where 1: "Store_Open w (new_Store ?f SizeFuncLog ?ro) = Inr (None, s1, w1)"
    "has_store w1 ?f SizeFuncLog ?ro (ar_calls a) s1" "frame ?f w w1" "faults w1 = []" "?ro \<longrightarrow> w1 = w"
    using Store_Open_has[OF nf, of SizeFuncLog ?f _ ?ro] st ex by (fastforce simp: stored_def data_kinds_def pos)
  have b1: "file_bytes w1 ?r = file_bytes w ?r" "files w1 ?r = files w ?r" using 1(3) wf by (simp_all add: frame_def file_bytes_def)
  obtain s2 w2 where 2: "Store_Open w1 (new_Store ?r SizeRawFuncLog ?ro) = Inr (None, s2, w2)"
    "has_store w2 ?r SizeRawFuncLog ?ro (ar_raws a) s2" "frame ?r w1 w2" "faults w2 = []" "?ro \<longrightarrow> w2 = w1"
    using Store_Open_has[OF 1(4), of SizeRawFuncLog ?r _ ?ro] st ex b1 by (fastforce simp: stored_def data_kinds_def pos)
  have b2: "file_bytes w2 ?g = file_bytes w ?g" "files w2 ?g = files w ?g" using 1(3) 2(3) wf by (simp_all add: frame_def file_bytes_def)
  obtain s3 w3 where 3: "Store_Open w2 (new_Store ?g SizeGoroutine ?ro) = Inr (None, s3, w3)"
    "has_store w3 ?g SizeGoroutine ?ro (ar_goroutines a) s3" "frame ?g w2 w3" "faults w3 = []" "?ro \<longrightarrow> w3 = w2"
    using Store_Open_has[OF 2(4), of SizeGoroutine ?g _ ?ro] st ex b2 by (fastforce simp: stored_def data_kinds_def pos)
  have "has_store w3 ?f SizeFuncLog ?ro (ar_calls a) s1" "has_store w3 ?r SizeRawFuncLog ?ro (ar_raws a) s2"
    using has_store_frame[OF has_store_frame[OF 1(2) 2(3)] 3(3)] has_store_frame[OF 2(2) 3(3)] wf by simp_all
  moreover have "frames (path_of l ` data_kinds) w w3"
    using 1(3) 2(3) 3(3) by (auto simp: data_kinds_def frames_def frame_def)
  ultimately show ?thesis using 1(1,5) 2(1,5) 3(1,2,5) unfolding Open_stores_def path_simps
    by (cases ?ro) (simp_all add: Let_def log_stores_def stores_of_def)
qed

lemma os_Write_new:
  assumes "faults w = []" "file_bytes w f = []"
  shows "\<exists>h h' w1 w'. OpenWriteOnly w f = (Some h, None, w1) \<and> os_Write w1 h d = (h', length d, None, w') \<and>
    os_Close w' h' = (h'\<lparr>h_open := False\<rparr>, None, w') \<and> faults w' = [] \<and> frame f w w' \<and> files w' f = Some d"
  using assms
  by (auto simp: OpenWriteOnly_def openFile_def next_fault_none os_Write_def Let_def overlay_def os_Close_def frame_def)

lemma Close_stores_ok:
  assumes wf: "LogID_wf (lg_ID l)" and st: "log_stores ro w l a" and new: "files w (path_of l Meta) = None" and md: "lg_Metadata l = Some m"
  shows "\<exists>l' w'. Close_stores L w l = Inr (None, l', w') \<and> stored w' l a \<and> faults w' = [] \<and>
    (\<forall>k \<in> data_kinds. files w' (path_of l k) \<noteq> None) \<and> files w' (path_of l Meta) = Some (ll_meta_enc L m) \<and>
    frames (path_of l ` insert Meta data_kinds) w w' \<and> l' = stores_of l l'"
proof -
  let ?f = "path_of l (FuncLogs 0)" and ?r = "path_of l (RawLogs 0)" and ?g = "path_of l (Goroutines 0)" and ?m = "path_of l Meta"
  have h: "has_store w ?f SizeFuncLog ro (ar_calls a) (lg_funcLog l)" "has_store w ?r SizeRawFuncLog ro (ar_raws a) (lg_rawFuncLog l)"
    "has_store w ?g SizeGoroutine ro (ar_goroutines a) (lg_goroutineLog l)" using st by (simp_all add: log_stores_def)
  obtain s1 w1 where 1: "Store_Close w (lg_funcLog l) = Inr (None, s1, w1)" "faults w1 = []" "frame ?f w w1" "files w1 ?f \<noteq> None"
    "\<exists>n. length (file_bytes w1 ?f) = SizeFuncLog * n" "records_of SizeFuncLog (file_bytes w1 ?f) = ar_calls a"
    using Store_Close_has[OF h(1)] by blast
  have h2: "has_store w1 ?r SizeRawFuncLog ro (ar_raws a) (lg_rawFuncLog l)" using has_store_frame[OF h(2) 1(3)] wf by simp
  obtain s2 w2 where 2: "Store_Close w1 (lg_rawFuncLog l) = Inr (None, s2, w2)" "faults w2 = []" "frame ?r w1 w2" "files w2 ?r \<noteq> None"
    "\<exists>n. length (file_bytes w2 ?r) = SizeRawFuncLog * n" "records_of SizeRawFuncLog (file_bytes w2 ?r) = ar_raws a"
    using Store_Close_has[OF h2] by blast
  have h3: "has_store w2 ?g SizeGoroutine ro (ar_goroutines a) (lg_goroutineLog l)"
    using has_store_frame[OF has_store_frame[OF h(3) 1(3)] 2(3)] wf by simp
  obtain s3 w3 where 3: "Store_Close w2 (lg_goroutineLog l) = Inr (None, s3, w3)" "faults w3 = []" "frame ?g w2 w3" "files w3 ?g \<noteq> None"
    "\<exists>n. length (file_bytes w3 ?g) = SizeGoroutine * n" "records_of SizeGoroutine (file_bytes w3 ?g) = ar_goroutines a"
    using Store_Close_has[OF h3] by blast
  have "files w3 ?m = None" using new 1(3) 2(3) 3(3) wf by (simp add: frame_def)
  then have "file_bytes w3 ?m = []" by (simp add: file_bytes_def)
  from os_Write_new[OF 3(2) this, of "ll_meta_enc L m"] obtain w4 where
    4: "Close_metadata L w3 (l\<lparr>lg_funcLog := s1, lg_rawFuncLog := s2, lg_goroutineLog := s3\<rparr>) = (None, w4)" "faults w4 = []"
      "frame ?m w3 w4" "files w4 ?m = Some (ll_meta_enc L m)"
    using md unfolding Close_metadata_def path_simps by auto
  have fs: "files w4 ?f = files w1 ?f" "files w4 ?r = files w2 ?r" "files w4 ?g = files w3 ?g"
    using 2(3) 3(3) 4(3) wf by (simp_all add: frame_def)
  then have bs: "file_bytes w4 ?f = file_bytes w1 ?f" "file_bytes w4 ?r = file_bytes w2 ?r" "file_bytes w4 ?g = file_bytes w3 ?g"
    by (simp_all add: file_bytes_def)
  have "stored w4 l a" unfolding stored_def bs using 1(5,6) 2(5,6) 3(5,6) by simp
  moreover have "\<forall>k \<in> data_kinds. files w4 (path_of l k) \<noteq> None" using fs 1(4) 2(4) 3(4) by (auto simp: data_kinds_def)
  moreover have "frames (path_of l ` insert Meta data_kinds) w w4"
    using 1(3) 2(3) 3(3) 4(3) by (auto simp: data_kinds_def frames_def frame_def)
  ultimately show ?thesis using 1(1) 2(1) 3(1) 4
    by (simp add: Close_stores_def Let_def stores_of_def)
qed

subsection \<open>The life of a log\<close>

text \<open>What the theorems assume of \<open>gob\<close> for the values they write.\<close>

definition libs_ok :: "log_libs \<Rightarrow> SymbolsData \<Rightarrow> bool" where
  "libs_ok L sd \<longleftrightarrow> ll_index_dec L (ll_index_enc L []) = Inr [] \<and>
     gl_decode (ll_symbols L) (gob_bytes (ll_symbols L) [sd]) = ([sd], EOF)"

text \<open>A log open for writing whose index has no records, with the symbols \<open>sd\<close>.\<close>

definition writable_log :: "world \<Rightarrow> 'u Log \<Rightarrow> SymbolsData \<Rightarrow> arrays \<Rightarrow> bool" where
  "writable_log w l sd a \<longleftrightarrow> LogID_wf (lg_ID l) \<and> \<not> lg_ReadOnly l \<and> lg_cancelled l = Some False \<and> lg_workers l = 1 \<and> \<not> lg_closed l \<and>
     (\<exists>idx. lg_index l = Some idx \<and> idx_File idx = path_of l TimeIndex \<and> \<not> idx_ReadOnly idx \<and> idx_records idx \<in> {None, Some []}) \<and>
     (\<exists>sy. lg_symbols l = Some sy \<and> sym_data sy = sd) \<and> SymbolsData_Validate sd = None \<and> lg_Metadata l \<noteq> None \<and>
     files w (path_of l Meta) = None \<and> files w (path_of l SymbolCache) = None \<and> files w (path_of l TimeIndex) = None \<and>
     log_stores False w l a"

definition no_arrays :: arrays where
  "no_arrays = \<lparr>ar_calls = [], ar_raws = [], ar_goroutines = []\<rparr>"

lemma records_of_Nil [simp]: "records_of rs [] = []"
  by (simp add: records_of_def)

lemma nilDiff_valid: "SymbolsData_Validate nilDiff = None"
  by (simp add: SymbolsData_Validate_def nilDiff_def)

lemma Log_Open_new:
  assumes wf: "LogID_wf i" and nf: "faults w = []" and new: "\<forall>k. files w (log_file d i k) = None"
  shows "\<exists>l w'. Log_Open L w (new_Log i d m False :: 'u Log) = Inr (None, l, w') \<and> writable_log w' l nilDiff no_arrays \<and>
    lg_ID l = i \<and> lg_Root l = d \<and> lg_Version l = 1 \<and> lg_Metadata l = Some zero_LogMetadata \<and> lg_event l = Map.empty \<and>
    frames (log_file d i ` data_kinds) w w'"
proof -
  let ?idx = "\<lparr>idx_File = log_file d i TimeIndex, idx_ReadOnly = False, idx_records = None\<rparr>"
  let ?l = "(new_Log i d m False :: 'u Log)\<lparr>lg_Version := 1, lg_Metadata := Some zero_LogMetadata, lg_cancelled := Some False, lg_closed := False,
    lg_index := Some ?idx, lg_symbols := Some \<lparr>sym_Writable = True, sym_data = nilDiff\<rparr>\<rparr>"
  have b: "file_bytes w (log_file d i k) = []" for k using new by (simp add: file_bytes_def)
  have "stored w ?l no_arrays" by (simp add: stored_def b no_arrays_def new_Log_def)
  moreover have "LogID_wf (lg_ID ?l)" using wf by (simp add: new_Log_def)
  ultimately obtain l' w' where o: "Open_stores w ?l = Inr (None, l', w')" "log_stores False w' l' no_arrays"
    "frames (path_of ?l ` data_kinds) w w'" "l' = (stores_of ?l l')\<lparr>lg_workers := lg_workers ?l + 1\<rparr>"
    using Open_stores_ok[of ?l w no_arrays] nf by (auto simp: new_Log_def)
  have "Open_stores w (?l\<lparr>lg_index := Some ?idx\<rparr>) = Inr (None, l', w')" using o(1) by (simp add: new_Log_def)
  then have "Log_Open L w (new_Log i d m False) = Inr (None, l', w')"
    using new unfolding Log_Open_def Open_metadata_def Open_rest_def Log_Status_def path_simps Index_Open_def
    by (simp add: new_Log_def File_Exists_def)
  moreover have fl: "lg_ID l' = i" "lg_Root l' = d" "lg_Version l' = 1" "lg_Metadata l' = Some zero_LogMetadata" "lg_ReadOnly l' = False"
    "lg_cancelled l' = Some False" "lg_workers l' = 1" "\<not> lg_closed l'" "lg_index l' = Some ?idx" "lg_event l' = Map.empty"
    "lg_symbols l' = Some \<lparr>sym_Writable = True, sym_data = nilDiff\<rparr>"
    by (subst o(4), simp add: stores_of_def new_Log_def)+
  moreover have "frames (log_file d i ` data_kinds) w w'" using o(3) by (simp add: new_Log_def)
  moreover have "files w' (log_file d i k) = None" if "k \<notin> data_kinds" for k
  proof -
    have "log_file d i k \<notin> log_file d i ` data_kinds" using log_file_inject[OF wf wf] that by auto
    then show ?thesis using new \<open>frames (log_file d i ` data_kinds) w w'\<close> by (simp add: frames_def)
  qed
  ultimately show ?thesis using o(2) wf
    by (simp add: writable_log_def nilDiff_valid data_kinds_def)
qed

lemma SymbolsStore_Write_new:
  assumes "faults w = []" "files w f = None"
  shows "\<exists>w'. SymbolsStore_Write G w \<lparr>ss_File = f, ss_ReadOnly = False\<rparr> sy = Inr (None, w') \<and> faults w' = [] \<and> frame f w w' \<and>
    files w' f \<noteq> None \<and> file_bytes w' f = gob_bytes G [sym_data sy]"
proof -
  have "file_bytes w f = []" using assms(2) by (simp add: file_bytes_def)
  then obtain e1 w1 where 1: "Encoder_Open w (new_Encoder f) = (None, e1, w1)" "encoder_ok G f [] w1 e1" "frame f w w1"
    using Encoder_Open_ok[OF assms(1), of "new_Encoder f" G] by (auto simp: new_Encoder_def)
  obtain e2 w2 where 2: "Encoder_Append G (sym_data sy) w1 e1 = Inr (None, e2, w2)" "encoder_ok G f [sym_data sy] w2 e2" "frame f w1 w2"
    using Encoder_Append_ok[OF 1(2), of "sym_data sy"] by auto
  obtain e3 w3 where 3: "Encoder_Close w2 e2 = Inr (None, e3, w3)" "frame f w2 w3" "file_bytes w3 f = gob_bytes G [sym_data sy]"
    "files w3 f \<noteq> None" "faults w3 = []" using Encoder_Close_ok[OF 2(2)] by blast
  then show ?thesis using 1(1) 2(1) frame_trans[OF frame_trans[OF 1(3) 2(3)] 3(2)]
    by (simp add: SymbolsStore_Write_def Symbols_Save_def)
qed

lemma SymbolsStore_Read_ok:
  assumes "faults w = []" "files w f \<noteq> None" "gl_decode G (file_bytes w f) = ([sd], EOF)" "SymbolsData_Validate sd = None"
  shows "SymbolsStore_Read G w \<lparr>ss_File = f, ss_ReadOnly = ro\<rparr> sy = Inr (None, sy\<lparr>sym_data := sd\<rparr>, w)"
proof -
  obtain d where d: "Decoder_Open w (new_Decoder f) = (None, d, w)" "reader_at f 0 d"
    using Decoder_Open_ok[OF assms(1), of "new_Decoder f"] assms(2) by (auto simp: new_Decoder_def)
  obtain d' h where w: "Decoder_Walk G (\<lambda>v data. (None, Some v)) w d None = Inr (None, d', w, Some sd)" "dec_r d' = Some h" "h_open h"
    using Decoder_Walk_ok[OF assms(1) d(2) assms(3), of "\<lambda>v _. Some v" None] by auto
  then show ?thesis using d(1) assms(1,4)
    by (simp add: SymbolsStore_Read_def Symbols_Load_def Decoder_Close_def os_Close_def next_fault_none)
qed

lemma Index_Close_empty:
  assumes "faults w = []" "\<not> idx_ReadOnly idx" "idx_records idx = Some rs" "files w (idx_File idx) = None"
  shows "\<exists>w'. Index_Close enc w idx = (None, idx\<lparr>idx_records := None\<rparr>, w') \<and> faults w' = [] \<and> frame (idx_File idx) w w' \<and>
    files w' (idx_File idx) = Some (enc rs)"
proof -
  have "file_bytes w (idx_File idx) = []" using assms(4) by (simp add: file_bytes_def)
  from os_Write_new[OF assms(1) this, of "enc rs"] show ?thesis using assms
    by (auto simp: Index_Close_def Index_Save_def Save_write_def File_Exists_def)
qed

lemma wait_workers_ok:
  assumes "writable_log w l sd a"
  shows "\<exists>idx. wait_workers L ks w (l\<lparr>lg_cancelled := Some True\<rparr>, u) =
      Inr ((l\<lparr>lg_cancelled := Some True, lg_index := Some idx, lg_workers := 0\<rparr>, u), w) \<and>
    idx_File idx = path_of l TimeIndex \<and> \<not> idx_ReadOnly idx \<and> idx_records idx = Some []"
proof -
  obtain idx where idx: "lg_index l = Some idx" "idx_File idx = path_of l TimeIndex" "\<not> idx_ReadOnly idx" "idx_records idx \<in> {None, Some []}"
    "lg_Metadata l \<noteq> None" "lg_workers l = 1" "files w (path_of l TimeIndex) = None"
    using assms by (auto simp: writable_log_def)
  let ?idx = "idx\<lparr>idx_records := Some []\<rparr>"
  have "mustLoad (ll_index_dec L) w idx = Inr (?idx, w)" using idx by (auto simp: mustLoad_def File_Exists_def)
  then have "Index_Len (ll_index_dec L) w idx = Inr (0, ?idx, w)" by (simp add: Index_Len_def idx_list_def)
  then show ?thesis using idx
    by (auto simp: wait_workers_def timestamp_update_def intro!: exI[of _ ?idx])
qed

text \<open>A log that has been written and closed.\<close>

definition closed_log :: "log_libs \<Rightarrow> world \<Rightarrow> 'u Log \<Rightarrow> SymbolsData \<Rightarrow> arrays \<Rightarrow> bool" where
  "closed_log L w l sd a \<longleftrightarrow> LogID_wf (lg_ID l) \<and> faults w = [] \<and> stored w l a \<and> (\<forall>k \<in> data_kinds. files w (path_of l k) \<noteq> None) \<and>
     lg_Metadata l \<noteq> None \<and> files w (path_of l Meta) = map_option (ll_meta_enc L) (lg_Metadata l) \<and>
     files w (path_of l TimeIndex) = Some (ll_index_enc L []) \<and> files w (path_of l SymbolCache) \<noteq> None \<and>
     file_bytes w (path_of l SymbolCache) = gob_bytes (ll_symbols L) [sd] \<and> SymbolsData_Validate sd = None"

definition same_log :: "'u Log \<Rightarrow> 'u Log \<Rightarrow> bool" where
  "same_log l l' \<longleftrightarrow> lg_ID l' = lg_ID l \<and> lg_Root l' = lg_Root l \<and> lg_Metadata l' = lg_Metadata l \<and> lg_Version l' = lg_Version l \<and>
     lg_event l' = lg_event l"

definition log_kinds :: "file_kind set" where
  "log_kinds = {Meta, SymbolCache, TimeIndex, FuncLogs 0, RawLogs 0, Goroutines 0}"

lemma stored_frames:
  assumes "stored w l a" "\<forall>k \<in> data_kinds. files w' (path_of l k) = files w (path_of l k)"
  shows "stored w' l a"
proof -
  have "file_bytes w' (path_of l k) = file_bytes w (path_of l k)" if "k \<in> data_kinds" for k
    using assms(2) that by (simp add: file_bytes_def)
  then show ?thesis using assms(1) by (simp add: stored_def data_kinds_def)
qed

lemma log_stores_frame:
  "log_stores ro w l a \<Longrightarrow> frame (path_of l k) w w' \<Longrightarrow> k \<notin> data_kinds \<Longrightarrow> LogID_wf (lg_ID l) \<Longrightarrow> log_stores ro w' l a"
  by (auto simp: log_stores_def data_kinds_def intro: has_store_frame)

lemma Log_Close_ok:
  assumes wr: "writable_log w l sd a"
  shows "\<exists>l' w'. Log_Close L ks w (l, u) = Inr (None, (l', u), w') \<and> closed_log L w' l' sd a \<and> same_log l l' \<and> lg_workers l' = 0 \<and>
    frames (path_of l ` log_kinds) w w'"
proof -
  obtain idx where wt: "wait_workers L ks w (l\<lparr>lg_cancelled := Some True\<rparr>, u) =
      Inr ((l\<lparr>lg_cancelled := Some True, lg_index := Some idx, lg_workers := 0\<rparr>, u), w)"
    "idx_File idx = path_of l TimeIndex" "\<not> idx_ReadOnly idx" "idx_records idx = Some []" using wait_workers_ok[OF wr] by blast
  obtain sy m where f: "LogID_wf (lg_ID l)" "\<not> lg_ReadOnly l" "lg_cancelled l = Some False" "lg_symbols l = Some sy" "sym_data sy = sd"
    "lg_Metadata l = Some m" "SymbolsData_Validate sd = None" "files w (path_of l Meta) = None" "files w (path_of l SymbolCache) = None"
    "files w (path_of l TimeIndex) = None" "log_stores False w l a" using wr by (auto simp: writable_log_def)
  have nf: "faults w = []" using f(11) has_store_faults by (auto simp: log_stores_def)
  obtain w1 where 1: "Index_Close (ll_index_enc L) w idx = (None, idx\<lparr>idx_records := None\<rparr>, w1)" "faults w1 = []"
    "frame (path_of l TimeIndex) w w1" "files w1 (path_of l TimeIndex) = Some (ll_index_enc L [])"
    using Index_Close_empty[OF nf wt(3,4)] wt(2) f(10) by auto
  have "files w1 (path_of l SymbolCache) = None" using 1(3) f(1,9) by (simp add: frame_def)
  from SymbolsStore_Write_new[OF 1(2) this, of "ll_symbols L" sy] obtain w2 where
    2: "SymbolsStore_Write (ll_symbols L) w1 \<lparr>ss_File = path_of l SymbolCache, ss_ReadOnly = False\<rparr> sy = Inr (None, w2)" "faults w2 = []"
    "frame (path_of l SymbolCache) w1 w2" "files w2 (path_of l SymbolCache) \<noteq> None"
    "file_bytes w2 (path_of l SymbolCache) = gob_bytes (ll_symbols L) [sd]" using f(5) by auto
  let ?l = "l\<lparr>lg_cancelled := Some True, lg_workers := 0, lg_closed := True, lg_index := Some (idx\<lparr>idx_records := None\<rparr>)\<rparr>"
  have "log_stores False w2 l a"
    using log_stores_frame[OF log_stores_frame[OF f(11) 1(3)] 2(3)] f(1) by (simp add: data_kinds_def)
  then have "log_stores False w2 ?l a" by (simp add: log_stores_def)
  moreover have "files w2 (path_of ?l Meta) = None" using 1(3) 2(3) f(1,8) by (simp add: frame_def)
  ultimately obtain l' w' where 3: "Close_stores L w2 ?l = Inr (None, l', w')" "stored w' ?l a" "faults w' = []"
    "\<forall>k \<in> data_kinds. files w' (path_of ?l k) \<noteq> None" "files w' (path_of ?l Meta) = Some (ll_meta_enc L m)"
    "frames (path_of ?l ` insert Meta data_kinds) w2 w'" "l' = stores_of ?l l'"
    using Close_stores_ok[of ?l False w2 a m L] f(1,6) by auto
  have fl: "lg_ID l' = lg_ID l" "lg_Root l' = lg_Root l" "lg_Metadata l' = lg_Metadata l" "lg_Version l' = lg_Version l"
    "lg_event l' = lg_event l" "lg_workers l' = 0" by (subst 3(7), simp add: stores_of_def)+
  have kept: "files w' (path_of l k) = files w2 (path_of l k)" if "k \<notin> insert Meta data_kinds" for k
  proof -
    have "path_of l k \<notin> path_of l ` insert Meta data_kinds" using that f(1) by (auto simp: log_file_inject)
    then show ?thesis using 3(6) by (simp add: frames_def)
  qed
  have "files w' (path_of l TimeIndex) = Some (ll_index_enc L [])" "files w' (path_of l SymbolCache) = files w2 (path_of l SymbolCache)"
    using kept 2(3) 1(4) f(1) by (simp_all add: data_kinds_def frame_def)
  then have "closed_log L w' l' sd a" using 2(4,5) 3(2-5) f fl
    by (simp add: closed_log_def stored_def file_bytes_def)
  moreover have "frames (path_of l ` log_kinds) w w'"
    using 1(3) 2(3) 3(6) by (auto simp: frames_def frame_def log_kinds_def data_kinds_def)
  moreover have "Log_Close L ks w (l, u) = Inr (None, (l', u), w')"
    using wt(1) 1(1) 2(1) 3(1) f by (simp add: Log_Close_def Close_files_def symbolsStore_def path_simps)
  ultimately show ?thesis using fl by (auto simp: same_log_def)
qed

lemma Open_rest_ok:
  assumes c: "LogID_wf (lg_ID l)" "faults w = []" "stored w l a" "\<forall>k \<in> data_kinds. files w (path_of l k) \<noteq> None"
    "files w (path_of l Meta) \<noteq> None" "files w (path_of l TimeIndex) = Some (ll_index_enc L [])" "files w (path_of l SymbolCache) \<noteq> None"
    "file_bytes w (path_of l SymbolCache) = gob_bytes (ll_symbols L) [sd]" "SymbolsData_Validate sd = None"
    and libs: "libs_ok L sd" and ro: "lg_ReadOnly l"
  shows "\<exists>l'. Open_rest L w l = Inr (None, l', w) \<and> log_stores True w l' a \<and>
    (\<exists>sy. lg_symbols l' = Some sy \<and> sym_data sy = sd) \<and> (\<exists>idx. lg_index l' = Some idx \<and> idx_records idx = Some []) \<and>
    lg_ReadOnly l' \<and> \<not> lg_closed l' \<and> lg_workers l' = lg_workers l \<and> lg_ID l' = lg_ID l \<and> lg_Root l' = lg_Root l \<and> lg_Metadata l' = lg_Metadata l"
proof -
  let ?idx = "\<lparr>idx_File = path_of l TimeIndex, idx_ReadOnly = True, idx_records = Some []\<rparr>"
  let ?l = "l\<lparr>lg_cancelled := Some False, lg_closed := False, lg_index := Some ?idx,
    lg_symbols := Some \<lparr>sym_Writable = False, sym_data = sd\<rparr>\<rparr>"
  have "Log_Status w l = LogCreated" using c(4-7)
    unfolding Log_Status_def path_simps by (simp add: File_Exists_def data_kinds_def)
  moreover have "Index_Load (ll_index_dec L) w \<lparr>idx_File = path_of l TimeIndex, idx_ReadOnly = True, idx_records = None\<rparr> = (None, ?idx, w)"
    using c(2,6) libs by (simp add: Index_Load_def ReadAll_def OpenReadOnly_def next_fault_none file_bytes_def libs_ok_def)
  moreover have "gl_decode (ll_symbols L) (file_bytes w (path_of l SymbolCache)) = ([sd], EOF)" using c(8) libs by (simp add: libs_ok_def)
  note rd = SymbolsStore_Read_ok[OF c(2,7) this c(9), of True "\<lparr>sym_Writable = False, sym_data = nilDiff\<rparr>"]
  have "stored w ?l a" "LogID_wf (lg_ID ?l)" using c(1,3) by (simp_all add: stored_def)
  then obtain l' where o: "Open_stores w ?l = Inr (None, l', w)" "log_stores True w l' a" "l' = (stores_of ?l l')\<lparr>lg_workers := lg_workers ?l\<rparr>"
    using Open_stores_ok[of ?l w a] c(2,4) ro by auto
  ultimately have "Open_rest L w l = Inr (None, l', w)"
    using rd ro by (simp add: Open_rest_def Open_load_def Index_Open_def symbolsStore_def path_simps Let_def)
  moreover have "lg_symbols l' = Some \<lparr>sym_Writable = False, sym_data = sd\<rparr>" "lg_index l' = Some ?idx" "lg_ReadOnly l' = lg_ReadOnly l" "\<not> lg_closed l'"
    "lg_workers l' = lg_workers l" "lg_ID l' = lg_ID l" "lg_Root l' = lg_Root l" "lg_Metadata l' = lg_Metadata l"
    by (subst o(3), simp add: stores_of_def)+
  ultimately show ?thesis using o(2) ro by auto
qed

lemma Log_reopen_ok:
  assumes cl: "closed_log L w l sd a" and libs: "libs_ok L sd"
  shows "\<exists>l'. Log_Open L w (l\<lparr>lg_ReadOnly := True\<rparr>) = Inr (None, l', w) \<and> log_stores True w l' a \<and>
    (\<exists>sy. lg_symbols l' = Some sy \<and> sym_data sy = sd) \<and> (\<exists>idx. lg_index l' = Some idx \<and> idx_records idx = Some []) \<and>
    lg_ReadOnly l' \<and> \<not> lg_closed l' \<and> lg_workers l' = lg_workers l \<and> lg_ID l' = lg_ID l \<and> lg_Root l' = lg_Root l \<and> lg_Metadata l' = lg_Metadata l"
proof -
  let ?l = "l\<lparr>lg_ReadOnly := True, lg_Version := if sint (lg_Version l) < 1 then 1 else lg_Version l\<rparr>"
  have md: "lg_Metadata l \<noteq> None" using cl by (simp add: closed_log_def)
  have "LogID_wf (lg_ID ?l)" "faults w = []" "stored w ?l a" "\<forall>k \<in> data_kinds. files w (path_of ?l k) \<noteq> None"
    "files w (path_of ?l Meta) \<noteq> None" "files w (path_of ?l TimeIndex) = Some (ll_index_enc L [])" "files w (path_of ?l SymbolCache) \<noteq> None"
    "file_bytes w (path_of ?l SymbolCache) = gob_bytes (ll_symbols L) [sd]" "SymbolsData_Validate sd = None"
    using cl by (auto simp: closed_log_def stored_def)
  from Open_rest_ok[OF this libs] md show ?thesis
    by (cases "sint (lg_Version l) < 1") (auto simp: Log_Open_def Open_metadata_def)
qed

text \<open>A log that is opened for the first time since the program has started reads its metadata from the file.\<close>

definition on_disk :: "log_libs \<Rightarrow> world \<Rightarrow> DirLayout \<Rightarrow> LogID \<Rightarrow> LogMetadata \<Rightarrow> SymbolsData \<Rightarrow> arrays \<Rightarrow> bool" where
  "on_disk L w d i m sd a \<longleftrightarrow>
     closed_log L w ((new_Log i d 0 True :: unit Log)\<lparr>lg_Metadata := Some m\<rparr>) sd a \<and> libs_ok L sd \<and> ll_meta_dec L (ll_meta_enc L m) = Some m"

lemma closed_on_disk:
  "closed_log L w l sd a \<Longrightarrow> lg_Metadata l = Some m \<Longrightarrow> libs_ok L sd \<Longrightarrow> ll_meta_dec L (ll_meta_enc L m) = Some m \<Longrightarrow>
   on_disk L w (lg_Root l) (lg_ID l) m sd a"
  by (simp add: on_disk_def closed_log_def new_Log_def stored_def)

lemma Log_Open_on_disk:
  assumes d: "on_disk L w d i m sd a"
  shows "\<exists>l. Log_Open L w (new_Log i d mx True :: 'u Log) = Inr (None, l, w) \<and> log_stores True w l a \<and>
    (\<exists>sy. lg_symbols l = Some sy \<and> sym_data sy = sd) \<and> lg_ReadOnly l \<and> \<not> lg_closed l \<and> lg_ID l = i \<and> lg_Root l = d \<and> lg_Metadata l = Some m"
proof -
  let ?l = "(new_Log i d mx True :: 'u Log)\<lparr>lg_Version := 1, lg_Metadata := Some m\<rparr>"
  have libs: "libs_ok L sd" and nf: "faults w = []" and mf: "files w (log_file d i Meta) = Some (ll_meta_enc L m)"
    and dec: "ll_meta_dec L (ll_meta_enc L m) = Some m"
    using d by (simp_all add: on_disk_def closed_log_def new_Log_def)
  have "LogID_wf (lg_ID ?l)" "faults w = []" "stored w ?l a" "\<forall>k \<in> data_kinds. files w (path_of ?l k) \<noteq> None"
    "files w (path_of ?l Meta) \<noteq> None" "files w (path_of ?l TimeIndex) = Some (ll_index_enc L [])" "files w (path_of ?l SymbolCache) \<noteq> None"
    "file_bytes w (path_of ?l SymbolCache) = gob_bytes (ll_symbols L) [sd]" "SymbolsData_Validate sd = None" "lg_ReadOnly ?l"
    using d by (auto simp: on_disk_def closed_log_def stored_def new_Log_def)
  note op = Open_rest_ok[OF this(1-9) libs this(10)]
  have "Open_metadata L w ((new_Log i d mx True :: 'u Log)\<lparr>lg_Version := 1\<rparr>) =
    (None, ?l, Some \<lparr>h_path = log_file d i Meta, h_cur = 0, h_append = False, h_open = True\<rparr>, w)"
    using mf nf dec by (simp add: Open_metadata_def path_simps File_Exists_def OpenReadOnly_def next_fault_none file_bytes_def new_Log_def)
  then show ?thesis using op nf by (auto simp: Log_Open_def new_Log_def os_Close_def next_fault_none)
qed

subsection \<open>Properties\<close>

text \<open>
  Updates of the metadata never overwrite each other. Of two clients that have read the same version of a
  log, the first update succeeds, raises the version and is told to every watcher once, with the new
  metadata; the second is refused as a conflict, changes nothing and is told to nobody.
\<close>

theorem Metadata_updates_are_serialised:
  assumes "lg_Version l = v" "distinct ks" "set ks = dom (lg_event l)" "\<And>k. k \<in> set ks \<Longrightarrow> lg_event l k = Some (\<lambda>info u. u @ [(k, info)])"
  shows "\<exists>l' info. UpdateMetadata ks v m (l, []) = Inr (None, l', map (\<lambda>k. (k, info)) ks) \<and>
    li_Metadata info = m \<and> li_Version info = v + 1 \<and> lg_Metadata l' = Some m \<and> Log_LogInfo l' = Inr info \<and>
    UpdateMetadata ks v m2 (l', u) = Inr (Some ErrConflict, l', u)"
proof -
  have "fold (\<lambda>k u. case lg_event l k of None \<Rightarrow> u | Some fn \<Rightarrow> fn info u) xs u = u @ map (\<lambda>k. (k, info)) xs" if "set xs \<subseteq> set ks" for xs u and info :: LogInfo
    using that assms(4) by (induction xs arbitrary: u) auto
  then show ?thesis using assms(1)
    by (simp add: UpdateMetadata_def logInfoNolock_def logEvent_Notify_def Log_LogInfo_def)
qed

definition sample_log :: "(int64 \<times> LogInfo) list Log" where
  "sample_log = (new_Log (replicate 16 1) \<lparr>dl_Root = ''/logs''\<rparr> 0 False)\<lparr>lg_Version := 4, lg_event := [7 \<mapsto> (\<lambda>info u. u @ [(7, info)])]\<rparr>"

theorem Metadata_updates_are_serialised_witness:
  "\<exists>l' info. UpdateMetadata [7] 4 zero_LogMetadata (sample_log, []) = Inr (None, l', map (\<lambda>k. (k, info)) [7]) \<and>
    li_Metadata info = zero_LogMetadata \<and> li_Version info = 4 + 1 \<and> lg_Metadata l' = Some zero_LogMetadata \<and> Log_LogInfo l' = Inr info \<and>
    UpdateMetadata [7] 4 zero_LogMetadata (l', []) = Inr (Some ErrConflict, l', [])"
  by (rule Metadata_updates_are_serialised) (simp_all add: sample_log_def new_Log_def)

text \<open>
  \<open>SearchFuncLog\<close> never returns. On a log whose index is loaded, whenever there is a call record to look at,
  it locks the store, and reading the first record waits for the same lock for ever.
\<close>

theorem SearchFuncLog_deadlocks:
  assumes "lg_index l = Some idx" "IDRangeByTime (ll_index_dec L) w idx start fin = Inr ((a, b), idx', w')"
    "\<not> st_locked (lg_funcLog l)" "sint a < (if b = 0 then Records (lg_funcLog l) else sint b)"
  shows "SearchFuncLog L start fin fn w l s = Inl Deadlock"
proof -
  let ?n = "nat ((if b = 0 then Records (lg_funcLog l) else sint b) - sint a)"
  have "search_loop fn (Suc k) a w' (lg_funcLog l\<lparr>st_locked := True\<rparr>) s = Inl Deadlock" for k
    by (simp add: FuncLog_Get_def with_lock_def Store_Lock_def)
  moreover have "?n = Suc (?n - 1)" using assms(4) by simp
  ultimately have "search_loop fn ?n a w' (lg_funcLog l\<lparr>st_locked := True\<rparr>) s = Inl Deadlock" by metis
  then show ?thesis using assms(1-3) by (cases "b = 0") (simp_all add: SearchFuncLog_def Store_Lock_def Let_def)
qed

definition sample_libs :: log_libs where
  "sample_libs = \<lparr>ll_index_enc = plain_enc, ll_index_dec = (\<lambda>bs. Inr (plain_records bs)),
     ll_symbols = \<lparr>gl_encode = (\<lambda>vs v. [[0]]), gl_decode = (\<lambda>bs. (map (\<lambda>b. nilDiff) bs, EOF))\<rparr>, ll_meta_enc = (\<lambda>m. []), ll_meta_dec = (\<lambda>bs. Some zero_LogMetadata)\<rparr>"

definition sample_idx :: Index where
  "sample_idx = \<lparr>idx_File = ''i'', idx_ReadOnly = True, idx_records = Some []\<rparr>"

theorem SearchFuncLog_deadlocks_witness:
  "SearchFuncLog sample_libs 0 100 (\<lambda>fl s. (None, s + 1)) \<lparr>files = Map.empty, faults = []\<rparr>
      (sample_log\<lparr>lg_index := Some sample_idx, lg_funcLog := (new_Store ''f'' SizeFuncLog True)\<lparr>st_records := 3\<rparr>\<rparr>) (0 :: nat) = Inl Deadlock"
proof (rule SearchFuncLog_deadlocks)
  have "idx_records sample_idx = Some []" by (simp add: sample_idx_def)
  then show "IDRangeByTime (ll_index_dec sample_libs) \<lparr>files = Map.empty, faults = []\<rparr> sample_idx 0 100 =
    Inr ((0, 0), sample_idx, \<lparr>files = Map.empty, faults = []\<rparr>)"
    by (simp add: IDRangeByTime_def mustLoad_loaded idx_list_def Index_Len_def)
qed (simp_all add: new_Store_def Records_def)

lemma File_Remove_ok:
  "faults w = [] \<Longrightarrow> files w f \<noteq> None \<Longrightarrow> File_Remove w f = (None, w\<lparr>files := (files w)(f := None)\<rparr>)"
  by (simp add: File_Remove_def next_fault_none)

text \<open>
  \<open>Remove\<close> forgets the goroutines. Removing a log whose files all exist, with one file of each kind, succeeds
  and the log counts as not created afterwards, but the file of its goroutines stays on disk.
\<close>

theorem Remove_leaves_goroutines:
  assumes "LogID_wf (lg_ID l)" "faults w = []" "\<forall>k \<in> {Meta, SymbolCache, TimeIndex, RawLogs 0, FuncLogs 0, Goroutines 0}. files w (path_of l k) \<noteq> None"
    "files w (path_of l (RawLogs 1)) = None"
  shows "\<exists>w'. Log_Remove w l = Some (None, w') \<and> Log_Status w' l = LogNotCreated \<and>
    files w' (path_of l (Goroutines 0)) = files w (path_of l (Goroutines 0)) \<and> files w' (path_of l (Goroutines 0)) \<noteq> None"
proof -
  let ?rm = "\<lambda>k w. w\<lparr>files := (files w)(path_of l k := None)\<rparr>"
  let ?w2 = "?rm TimeIndex (?rm Meta w)"
  let ?w4 = "?rm (FuncLogs 0) (?rm (RawLogs 0) ?w2)"
  have "remove_loop ?w4 l 1 = Some (None, ?w4)"
    using assms by (subst remove_loop.simps) (simp add: path_simps File_Exists_def)
  then have "remove_loop ?w2 l 0 = Some (None, ?w4)"
    using assms by (subst remove_loop.simps) (simp add: path_simps File_Exists_def File_Remove_ok)
  then have "Log_Remove w l = Some (None, ?rm SymbolCache ?w4)"
    using assms by (simp add: Log_Remove_def path_simps File_Remove_ok)
  then show ?thesis using assms by (simp add: Log_Status_def path_simps File_Exists_def)
qed

definition sample_files :: "string \<rightharpoonup> byte list" where
  "sample_files = (\<lambda>f. if f \<in> log_file \<lparr>dl_Root = ''/logs''\<rparr> (replicate 16 1) ` {Meta, SymbolCache, TimeIndex, RawLogs 0, FuncLogs 0, Goroutines 0} then Some [] else None)"

theorem Remove_leaves_goroutines_witness:
  "\<exists>w'. Log_Remove \<lparr>files = sample_files, faults = []\<rparr> sample_log = Some (None, w') \<and> Log_Status w' sample_log = LogNotCreated \<and>
    files w' (path_of sample_log (Goroutines 0)) = files \<lparr>files = sample_files, faults = []\<rparr> (path_of sample_log (Goroutines 0)) \<and>
    files w' (path_of sample_log (Goroutines 0)) \<noteq> None"
proof (rule Remove_leaves_goroutines)
  have wf: "LogID_wf (replicate 16 1)" by (simp add: LogID_wf_def)
  then show "LogID_wf (lg_ID sample_log)" by (simp add: sample_log_def new_Log_def)
  show "files \<lparr>files = sample_files, faults = []\<rparr> (path_of sample_log (RawLogs 1)) = None"
    using log_file_inject[OF wf wf] by (auto simp: sample_files_def sample_log_def new_Log_def)
qed (simp_all add: sample_files_def sample_log_def new_Log_def)

end
