(* ===== verification/Storage.thy ===== *)
theory Storage
  imports Log
begin

section \<open>Storage: the logs of a directory (\<open>tracer/storage/storage.go\<close>)\<close>

text \<open>
  \<open>Storage\<close> keeps a map from identifiers to logs; a nil pointer in the map is \<open>Some None\<close>. The names in a
  directory, as \<open>ioutil.ReadDir\<close> returns them, and the random bytes of a new identifier are arguments, as
  is the order \<open>ids\<close> in which \<open>Close\<close> visits the map; \<open>info_json\<close> and \<open>json_info\<close> are those of \<open>Layout\<close>.
\<close>

definition DefaultMaxFileSize :: int64 where
  "DefaultMaxFileSize = 104857600"

record 'u Storage =
  sg_Root :: DirLayout
  sg_ReadOnly :: bool
  sg_files :: "LogID \<rightharpoonup> 'u Log option"

definition Storage_log :: "log_libs \<Rightarrow> LogID \<Rightarrow> bool \<Rightarrow> world \<Rightarrow> 'u Storage \<Rightarrow> ((error + 'u Log) \<times> 'u Storage \<times> world) go" where
  "Storage_log L i writable w s =
     go_bind (Log_Open L w (new_Log i (sg_Root s) DefaultMaxFileSize (\<not> writable))) (\<lambda>(e, l, w).
     case e of
       Some e \<Rightarrow> Inr (Inl e, s, w)
     | None \<Rightarrow> Inr (Inr l, s\<lparr>sg_files := (sg_files s)(i \<mapsto> Some l)\<rparr>, w))"

text \<open>A log that fails to open leaves a nil pointer in the map, which the assignment of both results stores.\<close>

fun load_loop :: "log_libs \<Rightarrow> string list \<Rightarrow> world \<Rightarrow> 'u Storage \<Rightarrow> (error option \<times> 'u Storage \<times> world) go" where
  "load_loop L [] w s = Inr (None, s, w)"
| "load_loop L (fname # names) w s =
     (case Fname2LogID fname of
        (i, False) \<Rightarrow> load_loop L names w s
      | (i, True) \<Rightarrow>
          if sg_files s i \<noteq> None then load_loop L names w s
          else go_bind (Storage_log L i False w s) (\<lambda>(r, s, w).
            case r of
              Inl e \<Rightarrow> Inr (Some e, s\<lparr>sg_files := (sg_files s)(i \<mapsto> None)\<rparr>, w)
            | Inr l \<Rightarrow> load_loop L names w (s\<lparr>sg_files := (sg_files s)(i \<mapsto> Some l)\<rparr>)))"

definition Storage_Load :: "log_libs \<Rightarrow> string list \<Rightarrow> world \<Rightarrow> 'u Storage \<Rightarrow> (error option \<times> 'u Storage \<times> world) go" where
  "Storage_Load L names w s =
     (case next_fault w of
        (Some _, w) \<Rightarrow> Inr (Some EIO, s, w)
      | (None, w) \<Rightarrow> load_loop L names w s)"

definition Storage_Init ::
  "log_libs \<Rightarrow> (Info \<Rightarrow> byte list) \<Rightarrow> (byte list \<Rightarrow> Info option) \<Rightarrow> string list \<Rightarrow> world \<Rightarrow> 'u Storage \<Rightarrow> (error option \<times> 'u Storage \<times> world) go" where
  "Storage_Init L info_json json_info names w s =
     (let s = s\<lparr>sg_files := Map.empty\<rparr> in
      case DirLayout_Init info_json json_info w (sg_Root s) of
        (Some e, w) \<Rightarrow> Inr (Some e, s, w)
      | (None, w) \<Rightarrow> Storage_Load L names w s)"

fun Storage_Close :: "log_libs \<Rightarrow> int64 list \<Rightarrow> LogID list \<Rightarrow> world \<Rightarrow> 'u Storage \<times> 'u \<Rightarrow> (error option \<times> ('u Storage \<times> 'u) \<times> world) go" where
  "Storage_Close L ks [] w su = Inr (None, su, w)"
| "Storage_Close L ks (i # ids) w (s, u) =
     (case sg_files s i of
        None \<Rightarrow> Storage_Close L ks ids w (s, u)
      | Some None \<Rightarrow> Inl NilDereference
      | Some (Some l) \<Rightarrow>
          go_bind (Log_Close L ks w (l, u)) (\<lambda>(e, (l, u), w).
          let s = s\<lparr>sg_files := (sg_files s)(i \<mapsto> Some l)\<rparr> in
          case e of Some e \<Rightarrow> Inr (Some e, (s, u), w) | None \<Rightarrow> Storage_Close L ks ids w (s, u)))"

definition Storage_Logs :: "LogID list \<Rightarrow> 'u Storage \<Rightarrow> 'u Log option list" where
  "Storage_Logs ids s = List.map_filter (sg_files s) ids"

definition Storage_Log :: "LogID \<Rightarrow> 'u Storage \<Rightarrow> 'u Log option \<times> bool" where
  "Storage_Log i s = (case sg_files s i of None \<Rightarrow> (None, False) | Some l \<Rightarrow> (l, True))"

text \<open>\<open>rnd\<close>: the random identifier, or the failure of \<open>rand.Read\<close>.\<close>

definition Storage_New :: "log_libs \<Rightarrow> LogID option \<Rightarrow> world \<Rightarrow> 'u Storage \<Rightarrow> ((error + 'u Log) \<times> 'u Storage \<times> world) go" where
  "Storage_New L rnd w s =
     (if sg_ReadOnly s then Inr (Inl (ErrInvalid ''cannot create a log on read-only storage''), s, w)
      else case rnd of
             None \<Rightarrow> Inr (Inl EIO, s, w)
           | Some i \<Rightarrow> Storage_log L i True w s)"

subsection \<open>Lemmas\<close>

text \<open>A log of the storage as it was written: open for reading, with its metadata, symbols and records.\<close>

definition restored :: "world \<Rightarrow> 'u Log \<Rightarrow> LogMetadata \<times> SymbolsData \<times> arrays \<Rightarrow> bool" where
  "restored w l = (\<lambda>(m, sd, a). lg_ReadOnly l \<and> \<not> lg_closed l \<and> lg_Metadata l = Some m \<and> log_stores True w l a \<and>
     (\<exists>sy. lg_symbols l = Some sy \<and> sym_data sy = sd))"

definition log_names :: "string list \<Rightarrow> LogID set" where
  "log_names names = {i. \<exists>f \<in> set names. Fname2LogID f = (i, True)}"

lemma log_names_Cons:
  "log_names (f # fs) = (case Fname2LogID f of (i, ok) \<Rightarrow> if ok then insert i (log_names fs) else log_names fs)"
  by (auto simp: log_names_def split: prod.splits)

lemma Storage_log_on_disk:
  assumes "on_disk L w (sg_Root s) i m sd a"
  shows "\<exists>l. Storage_log L i False w s = Inr (Inr l, s\<lparr>sg_files := (sg_files s)(i \<mapsto> Some l)\<rparr>, w) \<and> restored w l (m, sd, a)"
  using Log_Open_on_disk[OF assms, of DefaultMaxFileSize, where 'u = 'a] by (auto simp: Storage_log_def restored_def)

lemma load_loop_ok:
  assumes "\<And>i. i \<in> log_names names \<Longrightarrow> on_disk L w (sg_Root s) i (fst (disk i)) (fst (snd (disk i))) (snd (snd (disk i)))"
    "\<And>i l. sg_files s i = Some l \<Longrightarrow> \<exists>l'. l = Some l' \<and> restored w l' (disk i)"
  shows "\<exists>s'. load_loop L names w s = Inr (None, s', w) \<and> dom (sg_files s') = dom (sg_files s) \<union> log_names names \<and>
    (\<forall>i l. sg_files s' i = Some l \<longrightarrow> (\<exists>l'. l = Some l' \<and> restored w l' (disk i)))"
  using assms
proof (induction names arbitrary: s)
  case Nil
  then show ?case by (simp add: log_names_def)
next
  case (Cons f names)
  obtain i ok where f: "Fname2LogID f = (i, ok)" by (cases "Fname2LogID f")
  have sub: "log_names names \<subseteq> log_names (f # names)" by (auto simp: log_names_def)
  show ?case
  proof (cases "ok \<and> sg_files s i = None")
    case False
    then have "load_loop L (f # names) w s = load_loop L names w s" using f by (cases ok) auto
    moreover have "dom (sg_files s) \<union> log_names (f # names) = dom (sg_files s) \<union> log_names names"
      using False f by (auto simp: log_names_Cons)
    moreover note Cons.IH[OF Cons.prems(1)[OF subsetD[OF sub]] Cons.prems(2)]
    ultimately show ?thesis by (simp only:)
  next
    case True
    have "i \<in> log_names (f # names)" using True f by (simp add: log_names_Cons)
    from Storage_log_on_disk[OF Cons.prems(1)[OF this]] obtain l where
      l: "Storage_log L i False w s = Inr (Inr l, s\<lparr>sg_files := (sg_files s)(i \<mapsto> Some l)\<rparr>, w)" "restored w l (disk i)" by auto
    let ?s = "s\<lparr>sg_files := (sg_files s)(i \<mapsto> Some l)\<rparr>"
    have "load_loop L (f # names) w s = load_loop L names w ?s" using True f l(1) by auto
    moreover have "dom (sg_files ?s) \<union> log_names names = dom (sg_files s) \<union> log_names (f # names)"
      using True f by (auto simp: log_names_Cons)
    moreover have "on_disk L w (sg_Root ?s) j (fst (disk j)) (fst (snd (disk j))) (snd (snd (disk j)))" if "j \<in> log_names names" for j
      using Cons.prems(1)[OF subsetD[OF sub that]] by simp
    moreover have "\<exists>l'. k = Some l' \<and> restored w l' (disk j)" if "sg_files ?s j = Some k" for j k
      using that Cons.prems(2)[of j k] l(2) by (auto split: if_splits)
    note Cons.IH[of ?s, OF calculation(3) this]
    ultimately show ?thesis by (simp only:)
  qed
qed

lemma Storage_New_ok:
  assumes "\<not> sg_ReadOnly s" "LogID_wf i" "faults w = []" "\<forall>k. files w (log_file (sg_Root s) i k) = None"
  shows "\<exists>l w'. Storage_New L (Some i) w s = Inr (Inr l, s\<lparr>sg_files := (sg_files s)(i \<mapsto> Some l)\<rparr>, w') \<and> writable_log w' l nilDiff no_arrays \<and>
    lg_ID l = i \<and> lg_Root l = sg_Root s \<and> lg_Version l = 1 \<and> lg_Metadata l = Some zero_LogMetadata \<and> lg_event l = Map.empty \<and>
    frames (log_file (sg_Root s) i ` data_kinds) w w'"
  using Log_Open_new[OF assms(2-4), of L DefaultMaxFileSize, where 'u = 'a] assms(1) by (fastforce simp: Storage_New_def Storage_log_def)

subsection \<open>Properties\<close>

text \<open>
  C14. A storage finds its logs again. When every log named in the metadata directory is on disk as \<open>Close\<close> left
  it, loading the storage succeeds without changing a file, knows exactly these logs (other names are
  skipped), and each is open for reading with the metadata, symbols and records that were written.
\<close>

theorem Storage_reloads_logs:
  assumes "faults w = []" "sg_files s = Map.empty"
    "\<forall>i \<in> log_names names. \<exists>m sd a. disk i = (m, sd, a) \<and> on_disk L w (sg_Root s) i m sd a"
  shows "\<exists>s'. Storage_Load L names w s = Inr (None, s', w) \<and> dom (sg_files s') = log_names names \<and>
    (\<forall>i \<in> log_names names. \<exists>l. Storage_Log i s' = (Some l, True) \<and> restored w l (disk i))"
proof -
  have "on_disk L w (sg_Root s) i (fst (disk i)) (fst (snd (disk i))) (snd (snd (disk i)))" if "i \<in> log_names names" for i
    using assms(3) that by auto
  from load_loop_ok[of names L w s disk, OF this] assms(2) obtain s' where
    s': "load_loop L names w s = Inr (None, s', w)" "dom (sg_files s') = log_names names"
    "\<forall>i l. sg_files s' i = Some l \<longrightarrow> (\<exists>l'. l = Some l' \<and> restored w l' (disk i))" by auto
  have "\<exists>l. Storage_Log i s' = (Some l, True) \<and> restored w l (disk i)" if i: "i \<in> log_names names" for i
  proof -
    obtain l where "sg_files s' i = Some l" using i s'(2) by blast
    then show ?thesis using s'(3) by (auto simp: Storage_Log_def)
  qed
  then show ?thesis using s'(1,2) assms(1) by (simp add: Storage_Load_def next_fault_none)
qed

definition sample_disk :: world where
  "sample_disk = \<lparr>files = sample_files(log_file \<lparr>dl_Root = ''/logs''\<rparr> (replicate 16 1) SymbolCache \<mapsto> [0]), faults = []\<rparr>"

lemma sample_on_disk: "on_disk sample_libs sample_disk \<lparr>dl_Root = ''/logs''\<rparr> (replicate 16 1) zero_LogMetadata nilDiff no_arrays"
proof -
  have wf: "LogID_wf (replicate 16 1)" by (simp add: LogID_wf_def)
  note ne = log_file_inject[OF wf wf, of "\<lparr>dl_Root = ''/logs''\<rparr>"]
  have f: "files sample_disk (log_file \<lparr>dl_Root = ''/logs''\<rparr> (replicate 16 1) k) = Some []" if "k \<in> {Meta, TimeIndex, RawLogs 0, FuncLogs 0, Goroutines 0}" for k
    using that ne by (auto simp: sample_disk_def sample_files_def)
  moreover have s: "files sample_disk (log_file \<lparr>dl_Root = ''/logs''\<rparr> (replicate 16 1) SymbolCache) = Some [0]"
    by (simp add: sample_disk_def)
  ultimately have b: "file_bytes sample_disk (log_file \<lparr>dl_Root = ''/logs''\<rparr> (replicate 16 1) k) = []" if "k \<in> {RawLogs 0, FuncLogs 0, Goroutines 0}" for k
    using that by (auto simp: file_bytes_def)
  have "gob_bytes (ll_symbols sample_libs) [nilDiff] = [0]" by (simp add: gob_bytes_def sample_libs_def)
  then show ?thesis using wf f s b
    by (simp add: on_disk_def closed_log_def libs_ok_def stored_def no_arrays_def new_Log_def data_kinds_def nilDiff_valid file_bytes_def)
      (simp add: sample_libs_def sample_disk_def plain_enc_def plain_records.simps)
qed

theorem Storage_reloads_logs_witness:
  "\<exists>s'. Storage_Load sample_libs [''README'', LogID_Hex (replicate 16 1) @ ''.meta.json''] sample_disk
      (\<lparr>sg_Root = \<lparr>dl_Root = ''/logs''\<rparr>, sg_ReadOnly = False, sg_files = Map.empty\<rparr> :: unit Storage) = Inr (None, s', sample_disk) \<and>
    dom (sg_files s') = log_names [''README'', LogID_Hex (replicate 16 1) @ ''.meta.json''] \<and>
    (\<forall>i \<in> log_names [''README'', LogID_Hex (replicate 16 1) @ ''.meta.json'']. \<exists>l. Storage_Log i s' = (Some l, True) \<and>
      restored sample_disk l (zero_LogMetadata, nilDiff, no_arrays))"
proof (rule Storage_reloads_logs)
  have "Fname2LogID ''README'' = (zero_LogID, False)" by (simp add: Fname2LogID_def HasSuffix_def)
  moreover have "Fname2LogID (LogID_Hex (replicate 16 1) @ ''.meta.json'') = (replicate 16 1, True)"
    by (simp add: Fname2LogID_def LogID_Hex_def zero_LogID_def)
  ultimately have "log_names [''README'', LogID_Hex (replicate 16 1) @ ''.meta.json''] = {replicate 16 1}"
    by (simp add: log_names_Cons) (simp add: log_names_def)
  then show "\<forall>i \<in> log_names [''README'', LogID_Hex (replicate 16 1) @ ''.meta.json'']. \<exists>m sd a.
      (zero_LogMetadata, nilDiff, no_arrays) = (m, sd, a) \<and>
      on_disk sample_libs sample_disk (sg_Root \<lparr>sg_Root = \<lparr>dl_Root = ''/logs''\<rparr>, sg_ReadOnly = False, sg_files = Map.empty\<rparr>) i m sd a"
    using sample_on_disk by simp
qed (simp_all add: sample_disk_def)

end
