(* ===== verification/ServerRun.thy ===== *)
theory ServerRun
  imports Storage Simulator Server
begin

section \<open>ServerRun: the server's handlers and workers (\<open>cmd/server_run.go\<close>)\<close>

text \<open>
  A connection's handler sends what arrives to the \<open>logWriteWorker\<close> of the connection, which feeds it to a
  state simulator, writes the simulator out from time to time, and at the end closes the log and
  reopens it for reading. The messages the worker takes from its channels, in the order its \<open>select\<close> takes
  them, are the argument \<open>evs\<close>; \<open>ord\<close> gives the order in which Go iterates over the maps of a simulator.
\<close>

subsection \<open>\<open>logWriteWorker\<close>\<close>

type_synonym map_order = "StateSimulator \<Rightarrow> FuncLogID list \<times> GID list"

definition writeSS :: "map_order \<Rightarrow> world \<Rightarrow> 'u Log \<Rightarrow> StateSimulator \<Rightarrow> ('u Log \<times> StateSimulator \<times> world) go" where
  "writeSS ord w l ss =
     (case ord ss of (ks, gs) \<Rightarrow>
      go_bind (Simulator_FuncLogs False ss ks) (\<lambda>fls.
      go_bind (Log_FuncLog (set_each FuncLog_SetNolock fls) w l) (\<lambda>(e, l, w).
      if e \<noteq> None then Inl (Panic ''ERROR: failed to append FuncLog during rotating'')
      else go_bind (Log_Goroutine (set_each Goroutine_SetNolock (Simulator_Goroutines ss gs)) w l) (\<lambda>(e, l, w).
        if e \<noteq> None then Inl (Panic ''ERROR: failed to append Goroutine during rotating'')
        else Inr (l, Simulator_Clear ss, w)))))"

datatype work = WRaw RawFuncLog | WSymbols SymbolsData | WTick

record 'u worker =
  wk_log :: "'u Log"
  wk_ss :: StateSimulator
  wk_flCount :: int64

definition flCountMax :: int64 where
  "flCountMax = 1000000"

definition worker_write :: "map_order \<Rightarrow> world \<times> 'u worker \<Rightarrow> (world \<times> 'u worker) go" where
  "worker_write ord = (\<lambda>(w, k).
     go_bind (writeSS ord w (wk_log k) (wk_ss k)) (\<lambda>(l, ss, w). Inr (w, \<lparr>wk_log = l, wk_ss = ss, wk_flCount = 0\<rparr>)))"

definition worker_step :: "map_order \<Rightarrow> world \<times> 'u worker \<Rightarrow> work \<Rightarrow> (world \<times> 'u worker) go" where
  "worker_step ord = (\<lambda>(w, k) ev.
     case ev of
       WRaw raw \<Rightarrow>
         go_bind (Simulator_Next (wk_ss k) raw) (\<lambda>ss.
         let k = k\<lparr>wk_ss := ss, wk_flCount := wk_flCount k + 1\<rparr> in
         if sint flCountMax \<le> sint (wk_flCount k) then worker_write ord (w, k) else Inr (w, k))
     | WSymbols sd \<Rightarrow>
         go_bind (SetSymbolsData sd (wk_log k)) (\<lambda>(e, l).
         if e \<noteq> None then Inl (Panic ''failed to append Symbols'') else Inr (w, k\<lparr>wk_log := l\<rparr>))
     | WTick \<Rightarrow> worker_write ord (w, k))"

text \<open>\<open>Run\<close>: the loop until the channel is closed, then the deferred calls, last one first.\<close>

definition logWriteWorker_Run ::
  "log_libs \<Rightarrow> map_order \<Rightarrow> int64 list \<Rightarrow> work list \<Rightarrow> world \<Rightarrow> StateSimulatorStore \<Rightarrow> 'u Log \<times> 'u \<Rightarrow>
   (('u Log \<times> 'u) \<times> StateSimulatorStore \<times> world) go" where
  "logWriteWorker_Run L ord ks evs w store = (\<lambda>(l, u).
     go_bind (SSStore_New store (lg_ID l)) (\<lambda>(store, ss).
     go_bind (go_run (worker_step ord) (w, \<lparr>wk_log = l, wk_ss = ss, wk_flCount = 0\<rparr>) evs) (\<lambda>(w, k).
     go_bind (writeSS ord w (wk_log k) (wk_ss k)) (\<lambda>(l, ss, w).
     let store = SSStore_Delete store (lg_ID l) in
     go_bind (Log_Close L ks w (l, u)) (\<lambda>(e, (l, u), w).
     if e \<noteq> None then Inl (Panic ''failed to close a Log'')
     else go_bind (Log_Open L w (l\<lparr>lg_ReadOnly := True\<rparr>)) (\<lambda>(e, l, w).
       if e \<noteq> None then Inl (Panic ''failed to reopen a Log'') else Inr ((l, u), store, w)))))))"

subsection \<open>\<open>tracerSyncWorker\<close>\<close>

text \<open>The packets sent to the traced program for one version of the metadata: start or stop each function.\<close>

fun is_target :: "string list \<Rightarrow> string \<Rightarrow> bool" where
  "is_target [] name = False"
| "is_target (funcName # fs) name = (if name = funcName then True else is_target fs name)"

definition sync_packets :: "LogInfo \<Rightarrow> SymbolsData \<Rightarrow> packet list" where
  "sync_packets info data =
     map (\<lambda>f. if is_target (tt_Funcs (md_TraceTarget (li_Metadata info))) (gf_Name f) then StartTraceCmd (gf_Name f)
              else StopTraceCmd (gf_Name f)) (sd_Funcs data)"

definition tracerSyncWorker_update :: "'u Log \<Rightarrow> LogInfo \<Rightarrow> packet list go" where
  "tracerSyncWorker_update l info =
     (case Log_Symbols l of
        None \<Rightarrow> Inl NilDereference
      | Some sy \<Rightarrow> Inr (Symbols_Save sy (sync_packets info)))"

subsection \<open>\<open>ServerHandlerMaker\<close>\<close>

text \<open>
  The handlers of a connection share the maker's state: the storage, the channels to the workers and the logs of
  the connections. A channel is an index into \<open>mk_chans\<close>, where its messages and whether it is closed are kept. What a callback does to it may panic;
  the state of the closures is therefore a \<open>go\<close> value, and nothing runs after a panic. \<open>mk_rnd\<close> are the
  random identifiers of new logs. Sends to a channel never block here (its capacity is not modelled).
\<close>

record chan =
  ch_queue :: "work list"
  ch_closed :: bool

record 'u maker =
  mk_storage :: "'u Storage"
  mk_world :: world
  mk_rnd :: "LogID list"
  mk_chMap :: "ConnID \<rightharpoonup> nat"
  mk_chans :: "chan list"
  mk_logs :: "ConnID \<rightharpoonup> LogID"
  mk_user :: 'u

definition on_Connected :: "log_libs \<Rightarrow> ConnID \<Rightarrow> ClientHelloPacket \<Rightarrow> 'u maker \<Rightarrow> 'u maker go" where
  "on_Connected L i pkt m =
     (let rnd = (case mk_rnd m of [] \<Rightarrow> None | r # _ \<Rightarrow> Some r) in
      go_bind (Storage_New L rnd (mk_world m) (mk_storage m)) (\<lambda>(r, sg, w).
      case r of
        Inl e \<Rightarrow> Inl (Panic ''ERROR: Server: failed to a create Log object'')
      | Inr l \<Rightarrow>
          go_bind (Log_LogInfo l) (\<lambda>info.
          let md = (li_Metadata info)\<lparr>md_PID := ch_PID pkt, md_AppName := ch_AppName pkt, md_Host := ch_Host pkt\<rparr> in
          go_bind (UpdateMetadata [] (li_Version info) md (l, mk_user m)) (\<lambda>(e, l, u).
          if e \<noteq> None then Inl (Panic ''ERROR: Server: failed to update LogMetadata'')
          else Inr (m\<lparr>mk_storage := sg\<lparr>sg_files := (sg_files sg)(lg_ID l \<mapsto> Some l)\<rparr>, mk_world := w, mk_rnd := tl (mk_rnd m),
            mk_chMap := (mk_chMap m)(i \<mapsto> length (mk_chans m)), mk_chans := mk_chans m @ [\<lparr>ch_queue = [], ch_closed = False\<rparr>],
            mk_logs := (mk_logs m)(i \<mapsto> lg_ID l),
            mk_user := u\<rparr>)))))"

text \<open>Closing a channel twice, or one that is nil because the map has none, panics; so does sending to a closed one.\<close>

definition on_Disconnected :: "ConnID \<Rightarrow> 'u maker \<Rightarrow> 'u maker go" where
  "on_Disconnected i m =
     (case mk_chMap m i of
        None \<Rightarrow> Inl (Panic ''close of nil channel'')
      | Some c \<Rightarrow>
          if ch_closed (mk_chans m ! c) then Inl (Panic ''close of closed channel'')
          else Inr (m\<lparr>mk_chans := (mk_chans m)[c := (mk_chans m ! c)\<lparr>ch_closed := True\<rparr>], mk_chMap := (mk_chMap m)(i := None)\<rparr>))"

definition on_message :: "ConnID \<Rightarrow> work \<Rightarrow> 'u maker \<Rightarrow> 'u maker go" where
  "on_message i msg m =
     (case mk_chMap m i of
        None \<Rightarrow> Inl Deadlock
      | Some c \<Rightarrow>
          if ch_closed (mk_chans m ! c) then Inl (Panic ''send on closed channel'')
          else Inr (m\<lparr>mk_chans := (mk_chans m)[c := (mk_chans m ! c)\<lparr>ch_queue := ch_queue (mk_chans m ! c) @ [msg]\<rparr>]\<rparr>))"

definition NewConnHandler :: "log_libs \<Rightarrow> ConnID \<Rightarrow> 'u maker go ConnHandler" where
  "NewConnHandler L i =
     \<lparr>h_Connected = Some (\<lambda>pkt m. go_bind m (on_Connected L i pkt)),
      h_Disconnected = Some (\<lambda>m. go_bind m (on_Disconnected i)),
      h_Error = Some (\<lambda>err m. m),
      h_Symbols = Some (\<lambda>s m. go_bind m (on_message i (WSymbols s))),
      h_RawFuncLog = Some (\<lambda>f m. go_bind m (on_message i (WRaw f)))\<rparr>"

subsection \<open>The specification: a trace and its archive\<close>

text \<open>
  Abstractly the worker keeps the forest of calls of the simulator's specification, the latest symbols and a
  count. \<open>None\<close>: a message outside of the specification, a record that does not nest, a negative goroutine
  identifier, or symbols that are not valid.
\<close>

definition trace_clear :: "callgraph \<Rightarrow> callgraph" where
  "trace_clear c = c\<lparr>cg_kept := filter (\<lambda>k. fl_EndTime (cg_calls c ! k) = NotEnded) (cg_kept c)\<rparr>"

definition trace_step :: "callgraph \<times> SymbolsData \<times> nat \<Rightarrow> work \<Rightarrow> (callgraph \<times> SymbolsData \<times> nat) option" where
  "trace_step = (\<lambda>(c, sd, n) ev.
     case ev of
       WRaw raw \<Rightarrow>
         if sint (raw_GID raw) < 0 then None
         else (case cg_step c (Raw raw) of
             None \<Rightarrow> None
           | Some c \<Rightarrow> if 1000000 \<le> n + 1 then Some (trace_clear c, sd, 0) else Some (c, sd, n + 1))
     | WSymbols sd' \<Rightarrow> if SymbolsData_Validate sd' = None then Some (c, sd', n) else None
     | WTick \<Rightarrow> Some (trace_clear c, sd, 0))"

text \<open>The calls carry their position as identifier and the goroutines are listed under theirs.\<close>

definition trace_ok :: "callgraph \<Rightarrow> bool" where
  "trace_ok c \<longleftrightarrow>
     (\<forall>k < length (cg_calls c). fl_ID (cg_calls c ! k) = word_of_nat k \<and> length (fl_Frames (cg_calls c ! k)) \<le> MaxStackSize) \<and>
     (\<forall>g gr. cg_gor c g = Some gr \<longrightarrow> g_GID gr = g \<and> 0 \<le> sint g) \<and> finite (dom (cg_gor c))"

lemma trace_ok_clear [simp]: "trace_ok (trace_clear c) = trace_ok c"
  by (simp add: trace_ok_def trace_clear_def)

lemma trace_ok_start:
  assumes "trace_ok c" "0 \<le> sint (raw_GID raw)" "cg_start c raw = Some c'"
  shows "trace_ok c'"
proof -
  have c': "cg_calls c' = cg_calls c @ [\<lparr>fl_ID = word_of_nat (length (cg_calls c)), fl_StartTime = raw_Timestamp raw, fl_EndTime = NotEnded,
      fl_ParentID = top_id (raw_GID raw) (cg_open c), fl_Frames = raw_Frames raw, fl_GID = raw_GID raw\<rparr>]"
    "length (raw_Frames raw) \<le> MaxStackSize"
    and g: "\<exists>gr. cg_gor c' = (cg_gor c)(raw_GID raw \<mapsto> gr) \<and> g_GID gr = raw_GID raw"
    using assms by (auto simp: cg_start_def Let_def trace_ok_def split: if_splits option.splits)
  then show ?thesis using assms(1,2) by (auto simp: trace_ok_def nth_append less_Suc_eq split: if_splits)
qed

lemma trace_ok_end:
  assumes "trace_ok c" "cg_end c raw = Some c'"
  shows "trace_ok c'"
proof -
  obtain e where e: "innermost (raw_GID raw) (cg_open c) = Some e" using assms(2) by (auto simp: cg_end_def Let_def split: option.splits)
  then have c': "cg_calls c' = (cg_calls c)[unat (o_id e) := (cg_calls c ! unat (o_id e))\<lparr>fl_EndTime := raw_Timestamp raw\<rparr>]"
    "cg_gor c' = cg_gor c \<or> cg_gor c' = set_EndTime (cg_gor c) (raw_GID raw) (raw_Timestamp raw)"
    using assms(2) by (auto simp: cg_end_def Let_def split: option.splits if_splits)
  have g: "trace_ok c \<Longrightarrow> cg_gor c' g = Some gr \<Longrightarrow> g_GID gr = g \<and> 0 \<le> sint g" for g gr
    using c'(2) by (auto simp: trace_ok_def set_EndTime_def split: if_splits option.splits)
  have "dom (cg_gor c') = dom (cg_gor c)" using c'(2) by (auto simp: set_EndTime_def split: if_splits option.splits)
  then have "finite (dom (cg_gor c'))" using assms(1) by (simp add: trace_ok_def)
  moreover have "fl_ID (cg_calls c' ! k) = word_of_nat k \<and> length (fl_Frames (cg_calls c' ! k)) \<le> MaxStackSize" if "k < length (cg_calls c')" for k
    using assms(1) c'(1) that by (cases "unat (o_id e) = k") (simp_all add: trace_ok_def)
  ultimately show ?thesis using g[OF assms(1)] unfolding trace_ok_def by blast
qed

lemma trace_ok_raw:
  assumes "trace_ok c" "0 \<le> sint (raw_GID raw)" "cg_step c (Raw raw) = Some c'"
  shows "trace_ok c'"
  using trace_ok_start[OF assms(1,2), of c'] trace_ok_end[OF assms(1), of raw c'] assms(3) by (simp add: cg_step_def split: if_splits)

text \<open>A call that \<open>Clear\<close> has dropped never changes again.\<close>

lemma dropped_calls:
  assumes "cg_wf c" "cg_step c (Raw raw) = Some c'" "k < length (cg_calls c')" "k \<notin> set (cg_kept c')"
  shows "k < length (cg_calls c) \<and> k \<notin> set (cg_kept c) \<and> cg_calls c' ! k = cg_calls c ! k"
proof (cases "raw_Tag raw = FuncStart")
  case True
  then show ?thesis using assms by (auto simp: cg_step_def cg_start_def Let_def nth_append split: if_splits)
next
  case False
  then obtain e where "innermost (raw_GID raw) (cg_open c) = Some e"
    using assms(2) by (auto simp: cg_step_def cg_end_def Let_def split: option.splits if_splits)
  then have e: "innermost (raw_GID raw) (cg_open c) = Some e" "cg_kept c' = cg_kept c"
    "cg_calls c' = (cg_calls c)[unat (o_id e) := (cg_calls c ! unat (o_id e))\<lparr>fl_EndTime := raw_Timestamp raw\<rparr>]"
    using assms(2) False by (auto simp: cg_step_def cg_end_def Let_def split: if_splits)
  then have "unat (o_id e) \<in> set (cg_kept c)"
    using assms(1) innermost_SomeD[OF e(1)] by (auto simp: cg_wf_def list_all_iff ends_open_def)
  then have "unat (o_id e) \<noteq> k" using assms(4) e(2) by auto
  then show ?thesis using assms(3,4) e by simp
qed

text \<open>The records of an archive: call \<open>k\<close>, goroutine \<open>g\<close>.\<close>

definition has_call :: "arrays \<Rightarrow> callgraph \<Rightarrow> nat \<Rightarrow> bool" where
  "has_call a c k \<longleftrightarrow> k < length (ar_calls a) \<and> ar_calls a ! k = pad SizeFuncLog (enc_FuncLog (cg_calls c ! k))"

definition has_goroutine :: "arrays \<Rightarrow> GID \<Rightarrow> Goroutine \<Rightarrow> bool" where
  "has_goroutine a g gr \<longleftrightarrow> nat (sint g) < length (ar_goroutines a) \<and> ar_goroutines a ! nat (sint g) = pad SizeGoroutine (enc_Goroutine gr)"

definition enumerates :: "map_order \<Rightarrow> bool" where
  "enumerates ord \<longleftrightarrow> (\<forall>ss. finite (dom (funcLogs ss)) \<and> finite (dom (goroutines ss)) \<longrightarrow>
     (\<forall>ks gs. ord ss = (ks, gs) \<longrightarrow> distinct ks \<and> set ks = dom (funcLogs ss) \<and> distinct gs \<and> set gs = dom (goroutines ss)))"

lemma map_filter_all: "(\<And>k. k \<in> set ks \<Longrightarrow> f k = Some (g k)) \<Longrightarrow> List.map_filter f ks = map g ks"
  by (induction ks) (auto simp: List.map_filter_def)

lemma map_of_distinct_rev:
  "distinct (map f xs) \<Longrightarrow> x \<in> set xs \<Longrightarrow> map_of (map (\<lambda>x. (f x, x)) (rev xs)) (f x) = Some x"
  by (rule map_of_is_SomeI) (auto simp: comp_def rev_map[symmetric])

lemma FuncLogs_loop_False: "FuncLogs_loop False fls = Inr fls"
  by (induction fls) auto

lemma sint_small: "n < 2 ^ 63 \<Longrightarrow> sint (word_of_nat n :: int64) = int n"
  by (simp add: signed_of_nat signed_take_bit_int_eq_self_iff)

subsection \<open>Writing the simulator out\<close>

lemma sim_calls:
  assumes "sim_rel c ss" "trace_ok c" "funcLogs ss i = Some fl"
  shows "unat i < length (cg_calls c)" "fl = cg_calls c ! unat i" "fl_ID fl = i" "length (fl_Frames fl) \<le> MaxStackSize" "0 \<le> sint i"
    "nat (sint i) = unat i"
proof -
  have k: "unat i \<in> set (cg_kept c)" "fl = cg_calls c ! unat i" and wf: "cg_wf c"
    using assms(1,3) by (auto simp: sim_rel_def kept_calls_def split: if_splits)
  then show l: "unat i < length (cg_calls c)" "fl = cg_calls c ! unat i" by (auto simp: cg_wf_def)
  then show "fl_ID fl = i" "length (fl_Frames fl) \<le> MaxStackSize" using assms(2) by (auto simp: trace_ok_def)
  have "unat i < 2 ^ 63" using l(1) wf by (auto simp: cg_wf_def)
  then have "sint i = int (unat i)" using sint_small[of "unat i"] by simp
  then show "0 \<le> sint i" "nat (sint i) = unat i" by simp_all
qed

lemma sim_finite:
  assumes "sim_rel c ss" "trace_ok c"
  shows "finite (dom (funcLogs ss))" "finite (dom (goroutines ss))"
proof -
  have "dom (funcLogs ss) \<subseteq> word_of_nat ` set (cg_kept c)"
  proof
    fix i assume "i \<in> dom (funcLogs ss)"
    then have "unat i \<in> set (cg_kept c)" using assms(1) by (auto simp: sim_rel_def kept_calls_def split: if_splits)
    moreover have "i = word_of_nat (unat i)" by simp
    ultimately show "i \<in> word_of_nat ` set (cg_kept c)" by blast
  qed
  then show "finite (dom (funcLogs ss))" using finite_subset by blast
  show "finite (dom (goroutines ss))" using assms by (simp add: sim_rel_def trace_ok_def)
qed

text \<open>Setting a list of records with distinct identifiers: they are all there, the others are kept.\<close>

context record_store
begin

lemma fold_put_distinct:
  assumes "list_all ok xs" "distinct (map rid xs)" "x \<in> set xs"
  shows "nat (sint (rid x)) < length (fold (\<lambda>x a. put a x) xs a)" "fold (\<lambda>x a. put a x) xs a ! nat (sint (rid x)) = pad rs (enc x)"
  using fold_put_nth[OF assms(1) map_of_distinct_rev[OF assms(2,3)]] by simp_all

end

lemma writable_stores:
  assumes "writable_log w l sd a" "log_stores False w' l' a'" "frame (path_of l k) w w'" "k \<in> data_kinds"
    "\<exists>f r g. l' = l\<lparr>lg_funcLog := f, lg_rawFuncLog := r, lg_goroutineLog := g\<rparr>"
  shows "writable_log w' l' sd a'"
proof -
  have "files w' (path_of l m) = files w (path_of l m)" if "m \<notin> data_kinds" for m
  proof -
    have "path_of l m \<noteq> path_of l k" using assms(1,4) that by (auto simp: writable_log_def log_file_inject)
    then show ?thesis using assms(3) by (simp add: frame_def)
  qed
  then have "files w' (path_of l Meta) = files w (path_of l Meta)" "files w' (path_of l SymbolCache) = files w (path_of l SymbolCache)"
    "files w' (path_of l TimeIndex) = files w (path_of l TimeIndex)" by (simp_all add: data_kinds_def)
  then show ?thesis using assms(1,2,5) by (auto simp: writable_log_def)
qed

lemma write_calls:
  assumes w: "writable_log w l sd a" and ok: "list_all (\<lambda>f. length (fl_Frames f) \<le> MaxStackSize \<and> 0 \<le> sint (fl_ID f)) fls"
  shows "\<exists>s w'. Log_FuncLog (set_each FuncLog_SetNolock fls) w l = Inr (None, l\<lparr>lg_funcLog := s\<rparr>, w') \<and>
    writable_log w' (l\<lparr>lg_funcLog := s\<rparr>) sd (a\<lparr>ar_calls := fold (\<lambda>x a. funclogs.put a x) fls (ar_calls a)\<rparr>)"
proof -
  let ?f = "path_of l (FuncLogs 0)"
  have wf: "LogID_wf (lg_ID l)" and st: "log_stores False w l a" using w by (auto simp: writable_log_def)
  have s: "st_ok w (lg_funcLog l)" "\<not> st_locked (lg_funcLog l)" "\<not> st_ReadOnly (lg_funcLog l)" "RecordSize (lg_funcLog l) = SizeFuncLog"
    "st_File (lg_funcLog l) = ?f" "array_of w (lg_funcLog l) = ar_calls a"
    using st by (auto simp: log_stores_def has_store_def store_rel_def)
  obtain s' w' where r: "with_lock (set_each (\<lambda>x. WriteNolock (sint (fl_ID x)) (MarshalFuncLog x)) fls) w (lg_funcLog l) = Inr (None, s', w')"
    "st_ok w' s'" "same_store (lg_funcLog l) s'" "array_of w' s' = fold (\<lambda>x a. funclogs.put a x) fls (ar_calls a)" "frame ?f w w'"
    using funclogs.locked_set_each[OF s(1-4) ok] s(5,6) by auto
  have "has_store w' ?f SizeFuncLog False (fold (\<lambda>x a. funclogs.put a x) fls (ar_calls a)) s'"
    using r(2-4) s by (auto simp: has_store_def store_rel_def same_store_def)
  moreover have "has_store w' (path_of l k) rs False b t" if "has_store w (path_of l k) rs False b t" "k \<noteq> FuncLogs 0" for k rs b t
    using has_store_frame[OF that(1) r(5)] that(2) wf by simp
  ultimately have "log_stores False w' (l\<lparr>lg_funcLog := s'\<rparr>) (a\<lparr>ar_calls := fold (\<lambda>x a. funclogs.put a x) fls (ar_calls a)\<rparr>)"
    using st by (simp add: log_stores_def)
  moreover have "\<exists>f r g. l\<lparr>lg_funcLog := s'\<rparr> = l\<lparr>lg_funcLog := f, lg_rawFuncLog := r, lg_goroutineLog := g\<rparr>"
    by (rule exI[of _ s'], rule exI[of _ "lg_rawFuncLog l"], rule exI[of _ "lg_goroutineLog l"]) simp
  ultimately have "writable_log w' (l\<lparr>lg_funcLog := s'\<rparr>) sd (a\<lparr>ar_calls := fold (\<lambda>x a. funclogs.put a x) fls (ar_calls a)\<rparr>)"
    using writable_stores[OF w _ r(5)] by (simp add: data_kinds_def)
  moreover have "FuncLog_SetNolock = (\<lambda>x. WriteNolock (sint (fl_ID x)) (MarshalFuncLog x))"
    by (simp add: fun_eq_iff FuncLog_SetNolock_def)
  ultimately show ?thesis using r(1) by (intro exI[of _ s'] exI[of _ w']) (simp add: Log_FuncLog_def)
qed

lemma write_goroutines:
  assumes w: "writable_log w l sd a" and ok: "list_all (\<lambda>g. 0 \<le> sint (g_GID g)) grs"
  shows "\<exists>s w'. Log_Goroutine (set_each Goroutine_SetNolock grs) w l = Inr (None, l\<lparr>lg_goroutineLog := s\<rparr>, w') \<and>
    writable_log w' (l\<lparr>lg_goroutineLog := s\<rparr>) sd (a\<lparr>ar_goroutines := fold (\<lambda>x a. goroutines.put a x) grs (ar_goroutines a)\<rparr>)"
proof -
  let ?f = "path_of l (Goroutines 0)"
  have wf: "LogID_wf (lg_ID l)" and st: "log_stores False w l a" using w by (auto simp: writable_log_def)
  have s: "st_ok w (lg_goroutineLog l)" "\<not> st_locked (lg_goroutineLog l)" "\<not> st_ReadOnly (lg_goroutineLog l)" "RecordSize (lg_goroutineLog l) = SizeGoroutine"
    "st_File (lg_goroutineLog l) = ?f" "array_of w (lg_goroutineLog l) = ar_goroutines a"
    using st by (auto simp: log_stores_def has_store_def store_rel_def)
  obtain s' w' where r: "with_lock (set_each (\<lambda>x. WriteNolock (sint (g_GID x)) (MarshalGoroutine x)) grs) w (lg_goroutineLog l) = Inr (None, s', w')"
    "st_ok w' s'" "same_store (lg_goroutineLog l) s'" "array_of w' s' = fold (\<lambda>x a. goroutines.put a x) grs (ar_goroutines a)" "frame ?f w w'"
    using goroutines.locked_set_each[OF s(1-4) ok] s(5,6) by auto
  have "has_store w' ?f SizeGoroutine False (fold (\<lambda>x a. goroutines.put a x) grs (ar_goroutines a)) s'"
    using r(2-4) s by (auto simp: has_store_def store_rel_def same_store_def)
  moreover have "has_store w' (path_of l k) rs False b t" if "has_store w (path_of l k) rs False b t" "k \<noteq> Goroutines 0" for k rs b t
    using has_store_frame[OF that(1) r(5)] that(2) wf by simp
  ultimately have "log_stores False w' (l\<lparr>lg_goroutineLog := s'\<rparr>) (a\<lparr>ar_goroutines := fold (\<lambda>x a. goroutines.put a x) grs (ar_goroutines a)\<rparr>)"
    using st by (simp add: log_stores_def)
  moreover have "\<exists>f r g. l\<lparr>lg_goroutineLog := s'\<rparr> = l\<lparr>lg_funcLog := f, lg_rawFuncLog := r, lg_goroutineLog := g\<rparr>"
    by (rule exI[of _ "lg_funcLog l"], rule exI[of _ "lg_rawFuncLog l"], rule exI[of _ s']) simp
  ultimately have "writable_log w' (l\<lparr>lg_goroutineLog := s'\<rparr>) sd (a\<lparr>ar_goroutines := fold (\<lambda>x a. goroutines.put a x) grs (ar_goroutines a)\<rparr>)"
    using writable_stores[OF w _ r(5)] by (simp add: data_kinds_def)
  moreover have "Goroutine_SetNolock = (\<lambda>x. WriteNolock (sint (g_GID x)) (MarshalGoroutine x))"
    by (simp add: fun_eq_iff Goroutine_SetNolock_def)
  ultimately show ?thesis using r(1) by (intro exI[of _ s'] exI[of _ w']) (simp add: Log_Goroutine_def)
qed

text \<open>
  What has been archived: the calls the simulator no longer keeps. Writing the simulator out archives every
  call that has been seen and every goroutine.
\<close>

definition archived :: "arrays \<Rightarrow> callgraph \<Rightarrow> bool" where
  "archived a c \<longleftrightarrow> length (ar_calls a) \<le> length (cg_calls c) \<and> (\<forall>k < length (cg_calls c). k \<notin> set (cg_kept c) \<longrightarrow> has_call a c k)"

definition complete :: "arrays \<Rightarrow> callgraph \<Rightarrow> bool" where
  "complete a c \<longleftrightarrow> length (ar_calls a) = length (cg_calls c) \<and> (\<forall>k < length (cg_calls c). has_call a c k) \<and> (\<forall>g gr. cg_gor c g = Some gr \<longrightarrow> has_goroutine a g gr)"

lemma complete_archived: "complete a c \<Longrightarrow> archived a (trace_clear c)"
  by (simp add: complete_def archived_def trace_clear_def has_call_def)

lemma archived_step:
  assumes "archived a c" "cg_wf c" "cg_step c (Raw raw) = Some c'"
  shows "archived a c'"
proof -
  have "length (cg_calls c) \<le> length (cg_calls c')"
    using assms(3) by (auto simp: cg_step_def cg_start_def cg_end_def Let_def split: if_splits option.splits)
  then show ?thesis using assms(1) dropped_calls[OF assms(2,3)] by (auto simp: archived_def has_call_def)
qed

lemma sim_rel_clear: "sim_rel c ss \<Longrightarrow> sim_rel (trace_clear c) (Simulator_Clear ss)"
  using cg_clear_sim[of c ss "trace_clear c"] by (simp add: cg_step_def trace_clear_def)

lemma fold_calls:
  assumes R: "sim_rel c ss" "trace_ok c" "archived a c" "distinct ks" "set ks = dom (funcLogs ss)"
    and fls: "fls = map (\<lambda>i. cg_calls c ! unat i) ks" and k: "k < length (cg_calls c)"
  shows "has_call (a\<lparr>ar_calls := fold (\<lambda>x a. funclogs.put a x) fls (ar_calls a)\<rparr>) c k"
proof -
  let ?i = "word_of_nat k :: int64"
  have wf: "cg_wf c" using R(1) sim_relD(1) by blast
  have lt: "k < 2 ^ 63" using k wf by (simp add: cg_wf_def)
  note i = unat_of_call[OF lt] sint_small[OF lt]
  have calls: "unat j < length (cg_calls c) \<and> fl_ID (cg_calls c ! unat j) = j \<and> length (fl_Frames (cg_calls c ! unat j)) \<le> MaxStackSize \<and>
      0 \<le> sint (fl_ID (cg_calls c ! unat j))"
    if "j \<in> set ks" for j
  proof -
    obtain fl where fl: "funcLogs ss j = Some fl" using \<open>j \<in> set ks\<close> R(5) by blast
    show ?thesis using sim_calls[OF R(1,2) fl] by simp
  qed
  then have ok: "list_all (\<lambda>f. length (fl_Frames f) \<le> MaxStackSize \<and> 0 \<le> sint (fl_ID f)) fls"
    unfolding fls list_all_iff set_map by blast
  have "map fl_ID fls = map (\<lambda>i. i) ks" unfolding fls map_map by (rule map_cong) (use calls in auto)
  then have ids: "map fl_ID fls = ks" by simp
  show ?thesis
  proof (cases "k \<in> set (cg_kept c)")
    case True
    then have "?i \<in> set ks" using R(1,5) i by (auto simp: sim_rel_def kept_calls_def)
    then have "cg_calls c ! unat ?i \<in> set fls" "fl_ID (cg_calls c ! unat ?i) = ?i" using calls[of ?i] by (simp_all add: fls)
    then have "cg_calls c ! k \<in> set fls" "fl_ID (cg_calls c ! k) = ?i" by (simp_all only: i)
    then show ?thesis using funclogs.fold_put_distinct[OF ok, of "cg_calls c ! k" "ar_calls a"] R(4) ids i by (simp add: has_call_def)
  next
    case False
    then have "has_call a c k" using R(3) k by (simp add: archived_def)
    moreover have "\<forall>x \<in> set fls. fl_ID x \<noteq> ?i"
    proof
      fix x assume "x \<in> set fls"
      then have "fl_ID x \<in> set ks" using ids by (metis image_eqI set_map)
      then show "fl_ID x \<noteq> ?i" using False R(1,5) i by (auto simp: sim_rel_def kept_calls_def split: if_splits)
    qed
    ultimately show ?thesis
      using funclogs.fold_put_other[OF ok, of ?i "ar_calls a"] funclogs.fold_put_length[of "ar_calls a" fls] i by (simp add: has_call_def)
  qed
qed

lemma fold_goroutines:
  assumes "trace_ok c" "distinct gs" "set gs = dom (cg_gor c)" and g: "cg_gor c g = Some gr"
  shows "has_goroutine (a\<lparr>ar_goroutines := fold (\<lambda>x a. goroutines.put a x) (map (\<lambda>g. the (cg_gor c g)) gs) (ar_goroutines a)\<rparr>) g gr"
    "list_all (\<lambda>g. 0 \<le> sint (g_GID g)) (map (\<lambda>g. the (cg_gor c g)) gs)"
proof -
  let ?grs = "map (\<lambda>g. the (cg_gor c g)) gs"
  have gr: "g_GID (the (cg_gor c h)) = h \<and> 0 \<le> sint h" if "h \<in> set gs" for h
    using that assms(1,3) by (auto simp: trace_ok_def)
  then show ok: "list_all (\<lambda>g. 0 \<le> sint (g_GID g)) ?grs" by (simp add: list_all_iff)
  have "map g_GID ?grs = map (\<lambda>g. g) gs" unfolding map_map by (rule map_cong) (use gr in auto)
  then have "map g_GID ?grs = gs" by simp
  moreover have "g \<in> set gs" using g assms(3) by blast
  then have "gr \<in> set ?grs" "g_GID gr = g" using g gr[of g] by (auto simp: image_iff intro: bexI[of _ g])
  ultimately show "has_goroutine (a\<lparr>ar_goroutines := fold (\<lambda>x a. goroutines.put a x) ?grs (ar_goroutines a)\<rparr>) g gr"
    using goroutines.fold_put_distinct[OF ok, of gr "ar_goroutines a"] assms(2) by (simp add: has_goroutine_def)
qed

lemma same_log_stores [simp]: "same_log l (l'\<lparr>lg_funcLog := s\<rparr>) = same_log l l'" "same_log l (l'\<lparr>lg_goroutineLog := s\<rparr>) = same_log l l'"
  "same_log l (l'\<lparr>lg_symbols := sy\<rparr>) = same_log l l'"
  by (simp_all add: same_log_def)

lemma writeSS_ok:
  assumes R: "sim_rel c ss" "trace_ok c" "archived a c" and w: "writable_log w l sd a" and ord: "enumerates ord"
  shows "\<exists>l' w' a'. writeSS ord w l ss = Inr (l', Simulator_Clear ss, w') \<and> writable_log w' l' sd a' \<and> complete a' c \<and> same_log l l'"
proof -
  obtain ks gs where o: "ord ss = (ks, gs)" by fastforce
  then have ks: "distinct ks" "set ks = dom (funcLogs ss)" and gs: "distinct gs" "set gs = dom (cg_gor c)"
    using ord sim_finite[OF R(1,2)] sim_relD(6)[OF R(1)] by (auto simp: enumerates_def)
  let ?fls = "map (\<lambda>i. cg_calls c ! unat i) ks" and ?grs = "map (\<lambda>g. the (cg_gor c g)) gs"
  have c1: "funcLogs ss i = Some (cg_calls c ! unat i) \<and> length (fl_Frames (cg_calls c ! unat i)) \<le> MaxStackSize \<and> 0 \<le> sint (fl_ID (cg_calls c ! unat i))"
    if "i \<in> set ks" for i
  proof -
    obtain fl where fl: "funcLogs ss i = Some fl" using \<open>i \<in> set ks\<close> ks(2) by blast
    show ?thesis using sim_calls[OF R(1,2) fl] fl by simp
  qed
  then have "Simulator_FuncLogs False ss ks = Inr ?fls"
    unfolding Simulator_FuncLogs_def by (subst map_filter_all[of _ _ "\<lambda>i. cg_calls c ! unat i"]) (auto simp: FuncLogs_loop_False)
  moreover have "list_all (\<lambda>f. length (fl_Frames f) \<le> MaxStackSize \<and> 0 \<le> sint (fl_ID f)) ?fls" using c1 by (simp add: list_all_iff)
  from write_calls[OF w this] obtain s w1 where 1: "Log_FuncLog (set_each FuncLog_SetNolock ?fls) w l = Inr (None, l\<lparr>lg_funcLog := s\<rparr>, w1)"
    "writable_log w1 (l\<lparr>lg_funcLog := s\<rparr>) sd (a\<lparr>ar_calls := fold (\<lambda>x a. funclogs.put a x) ?fls (ar_calls a)\<rparr>)" by blast
  moreover have "Simulator_Goroutines ss gs = ?grs"
    unfolding Simulator_Goroutines_def using gs(2) sim_relD(6)[OF R(1)] by (intro map_filter_all) auto
  moreover have "list_all (\<lambda>g. 0 \<le> sint (g_GID g)) ?grs" using R(2) gs(2) by (auto simp: list_all_iff trace_ok_def)
  from write_goroutines[OF 1(2) this] obtain s' w2 where
    2: "Log_Goroutine (set_each Goroutine_SetNolock ?grs) w1 (l\<lparr>lg_funcLog := s\<rparr>) = Inr (None, l\<lparr>lg_funcLog := s, lg_goroutineLog := s'\<rparr>, w2)"
    "writable_log w2 (l\<lparr>lg_funcLog := s, lg_goroutineLog := s'\<rparr>) sd
       (a\<lparr>ar_calls := fold (\<lambda>x a. funclogs.put a x) ?fls (ar_calls a), ar_goroutines := fold (\<lambda>x a. goroutines.put a x) ?grs (ar_goroutines a)\<rparr>)"
    by auto
  ultimately have "writeSS ord w l ss = Inr (l\<lparr>lg_funcLog := s, lg_goroutineLog := s'\<rparr>, Simulator_Clear ss, w2)"
    using o by (simp add: writeSS_def)
  moreover have "complete (a\<lparr>ar_calls := fold (\<lambda>x a. funclogs.put a x) ?fls (ar_calls a), ar_goroutines := fold (\<lambda>x a. goroutines.put a x) ?grs (ar_goroutines a)\<rparr>) c"
  proof -
    have "list_all (\<lambda>f. length (fl_Frames f) \<le> MaxStackSize \<and> 0 \<le> sint (fl_ID f)) ?fls" using c1 by (simp add: list_all_iff)
    moreover have "nat (sint (fl_ID x)) < length (cg_calls c)" if "x \<in> set ?fls" for x
    proof -
      obtain i where i: "i \<in> set ks" "x = cg_calls c ! unat i" using \<open>x \<in> set ?fls\<close> by auto
      then obtain fl where fl: "funcLogs ss i = Some fl" using ks(2) by blast
      show ?thesis using sim_calls[OF R(1,2) fl] i(2) by simp
    qed
    ultimately have "length (fold (\<lambda>x a. funclogs.put a x) ?fls (ar_calls a)) \<le> length (cg_calls c)"
      using R(3) by (intro funclogs.fold_put_bound) (auto simp: archived_def)
    moreover note calls = fold_calls[OF R ks refl]
    then have "length (cg_calls c) \<le> length (fold (\<lambda>x a. funclogs.put a x) ?fls (ar_calls a))"
      by (metis (no_types, lifting) arrays.select_convs(1) arrays.surjective arrays.update_convs(1) has_call_def leI less_irrefl)
    ultimately show ?thesis
      using calls fold_goroutines(1)[OF R(2) gs] by (auto simp: complete_def has_call_def has_goroutine_def)
  qed
  moreover have "same_log l (l\<lparr>lg_funcLog := s, lg_goroutineLog := s'\<rparr>)" by (simp add: same_log_def)
  ultimately show ?thesis using 2(2) by blast
qed

subsection \<open>The worker simulates the specification\<close>

definition worker_rel :: "map_order \<Rightarrow> 'u Log \<Rightarrow> callgraph \<times> SymbolsData \<times> nat \<Rightarrow> world \<times> 'u worker \<Rightarrow> bool" where
  "worker_rel ord l0 = (\<lambda>(c, sd, n) (w, k).
     enumerates ord \<and> sim_rel c (wk_ss k) \<and> trace_ok c \<and> same_log l0 (wk_log k) \<and> n < 1000000 \<and> wk_flCount k = word_of_nat n \<and>
     (\<exists>a. writable_log w (wk_log k) sd a \<and> archived a c))"

lemma same_log_trans: "same_log l l' \<Longrightarrow> same_log l' l'' \<Longrightarrow> same_log l l''"
  by (simp add: same_log_def)

lemma worker_write_ok:
  assumes "worker_rel ord l0 (c, sd, n) (w, k)"
  shows "\<exists>s'. worker_write ord (w, k) = Inr s' \<and> worker_rel ord l0 (trace_clear c, sd, 0) s'"
proof -
  from assms obtain a where a: "sim_rel c (wk_ss k)" "trace_ok c" "archived a c" "writable_log w (wk_log k) sd a" "enumerates ord"
    "same_log l0 (wk_log k)" by (auto simp: worker_rel_def)
  from writeSS_ok[OF a(1-5)] obtain l' w' a' where
    "writeSS ord w (wk_log k) (wk_ss k) = Inr (l', Simulator_Clear (wk_ss k), w')" "writable_log w' l' sd a'" "complete a' c" "same_log (wk_log k) l'"
    by blast
  then show ?thesis using a sim_rel_clear[OF a(1)] complete_archived same_log_trans[OF a(6)]
    by (auto simp: worker_write_def worker_rel_def)
qed

lemma worker_raw_ok:
  assumes R: "worker_rel ord l0 (c, sd, n) (w, k)" and st: "trace_step (c, sd, n) (WRaw raw) = Some a'"
  shows "\<exists>s'. worker_step ord (w, k) (WRaw raw) = Inr s' \<and> worker_rel ord l0 a' s'"
proof -
  obtain a where a: "sim_rel c (wk_ss k)" "trace_ok c" "archived a c" "writable_log w (wk_log k) sd a" "enumerates ord"
    "same_log l0 (wk_log k)" "n < 1000000" "wk_flCount k = word_of_nat n" using R by (auto simp: worker_rel_def)
  obtain c' where c': "cg_step c (Raw raw) = Some c'" "0 \<le> sint (raw_GID raw)"
    "a' = (if 1000000 \<le> n + 1 then (trace_clear c', sd, 0) else (c', sd, n + 1))"
    using st by (auto simp: trace_step_def split: if_splits option.splits)
  obtain ss where ss: "Simulator_Next (wk_ss k) raw = Inr ss" "sim_rel c' ss"
    using calls.step_sim[OF a(1) c'(1)] by (auto simp: sim_step_def)
  let ?k = "k\<lparr>wk_ss := ss, wk_flCount := wk_flCount k + 1\<rparr>"
  have cnt: "wk_flCount ?k = word_of_nat (n + 1)" using a(8) by simp
  have le: "(sint flCountMax \<le> sint (wk_flCount ?k)) = (1000000 \<le> n + 1)"
    unfolding cnt using sint_small[of "n + 1"] a(7) by (simp add: flCountMax_def)
  have ok: "trace_ok c'" "archived a c'" using trace_ok_raw[OF a(2) c'(2,1)] archived_step[OF a(3) sim_relD(1)[OF a(1)] c'(1)] .
  show ?thesis
  proof (cases "1000000 \<le> n + 1")
    case False
    then have "worker_rel ord l0 (c', sd, n + 1) (w, ?k)" using a ok ss(2) cnt by (auto simp: worker_rel_def)
    moreover have "worker_step ord (w, k) (WRaw raw) = Inr (w, ?k)" using False le ss(1) by (simp add: worker_step_def)
    ultimately show ?thesis using False c'(3) by auto
  next
    case True
    have "worker_rel ord l0 (c', sd, 0) (w, ?k\<lparr>wk_flCount := 0\<rparr>)" using a ok ss(2) by (auto simp: worker_rel_def)
    from worker_write_ok[OF this] obtain s' where "worker_write ord (w, ?k) = Inr s'" "worker_rel ord l0 (trace_clear c', sd, 0) s'"
      by (auto simp: worker_write_def)
    moreover have "worker_step ord (w, k) (WRaw raw) = worker_write ord (w, ?k)" using True le ss(1) by (simp add: worker_step_def)
    ultimately show ?thesis using True c'(3) by auto
  qed
qed

lemma worker_symbols_ok:
  assumes R: "worker_rel ord l0 (c, sd, n) (w, k)" and v: "SymbolsData_Validate sd' = None"
  shows "\<exists>s'. worker_step ord (w, k) (WSymbols sd') = Inr s' \<and> worker_rel ord l0 (c, sd', n) s'"
proof -
  obtain a where a: "writable_log w (wk_log k) sd a" "archived a c" using R by (auto simp: worker_rel_def)
  then obtain sy where sy: "lg_symbols (wk_log k) = Some sy" "\<not> lg_closed (wk_log k)" by (auto simp: writable_log_def)
  let ?l = "(wk_log k)\<lparr>lg_symbols := Some (sy\<lparr>sym_data := sd'\<rparr>)\<rparr>"
  have "SetSymbolsData sd' (wk_log k) = Inr (None, ?l)" using sy v by (simp add: SetSymbolsData_def Symbols_Load_def)
  moreover have "writable_log w ?l sd' a" using a(1) v by (simp add: writable_log_def log_stores_def)
  ultimately show ?thesis using R a(2) by (auto simp: worker_step_def worker_rel_def)
qed

interpretation worker: simulating_machine trace_step "worker_step ord" "worker_rel ord l0" for ord l0
proof
  show "\<exists>s'. worker_step ord s e = Inr s' \<and> worker_rel ord l0 a' s'" if R: "worker_rel ord l0 a s" and st: "trace_step a e = Some a'" for a s e a'
  proof -
    obtain c sd n w k where as: "a = (c, sd, n)" "s = (w, k)" by (cases a, cases s) auto
    show ?thesis
    proof (cases e)
      case (WRaw raw)
      then show ?thesis using worker_raw_ok[of ord l0 c sd n w k raw a'] R st as by simp
    next
      case (WSymbols sd')
      then show ?thesis using worker_symbols_ok[of ord l0 c sd n w k sd'] R st as by (auto simp: trace_step_def split: if_splits)
    next
      case WTick
      then show ?thesis using worker_write_ok[of ord l0 c sd n w k] R st as by (auto simp: trace_step_def worker_step_def)
    qed
  qed
qed

text \<open>A complete archive, opened for reading, answers with the calls and the goroutines of the trace.\<close>

lemma archive_get_call:
  assumes "log_stores True w l a" "trace_ok c" "has_call a c k" "k < length (cg_calls c)" "k < 2 ^ 63"
  shows "\<exists>s w'. FuncLog_Get MaxStackSize (word_of_nat k) w (lg_funcLog l) = Inr (Inr (cg_calls c ! k), s, w')"
  unfolding FuncLog_Get_def FuncLog_GetNolock_def
  using assms(1-4) sint_small[OF assms(5)]
  by (intro funclogs.get_ok) (auto simp: log_stores_def has_store_def store_rel_def can_read_def has_call_def trace_ok_def)

lemma archive_get_goroutine:
  assumes "log_stores True w l a" "trace_ok c" "has_goroutine a g gr" "cg_gor c g = Some gr"
  shows "\<exists>s w'. Goroutine_Get g w (lg_goroutineLog l) = Inr (Inr gr, s, w')"
  unfolding Goroutine_Get_def Goroutine_GetNolock_def
  using assms
  by (intro goroutines.get_ok) (auto simp: log_stores_def has_store_def store_rel_def can_read_def has_goroutine_def trace_ok_def)

lemma SSStore_New_Delete:
  "SSStore_Get store i = None \<Longrightarrow> \<exists>st. SSStore_New store i = Inr (st, Simulator_Init) \<and> (\<forall>j. SSStore_Get (SSStore_Delete st i) j = SSStore_Get store j)"
  by (auto simp: SSStore_New_def SSStore_Get_def SSStore_Delete_def Let_def LogID_Hex_inject split: option.splits)

lemma trace_ok_init: "trace_ok cg_init" "archived no_arrays cg_init"
  by (simp_all add: trace_ok_def archived_def cg_init_def no_arrays_def)

text \<open>From a log that is open for writing to the archive, opened again for reading.\<close>

lemma Run_ok:
  assumes w: "writable_log w l nilDiff no_arrays" and ord: "enumerates ord" and store: "SSStore_Get store (lg_ID l) = None"
    and tr: "spec_run trace_step (cg_init, nilDiff, 0) evs = Some (c, sd, n)" and libs: "libs_ok L sd"
  shows "\<exists>l' st w' a. logWriteWorker_Run L ord ks evs w store (l, u) = Inr ((l', u), st, w') \<and> log_stores True w' l' a \<and> complete a c \<and>
    trace_ok c \<and> cg_wf c \<and> (\<forall>j. SSStore_Get st j = SSStore_Get store j) \<and> (\<exists>sy. lg_symbols l' = Some sy \<and> sym_data sy = sd) \<and>
    lg_ReadOnly l' \<and> \<not> lg_closed l' \<and> lg_ID l' = lg_ID l \<and> lg_Metadata l' = lg_Metadata l"
proof -
  obtain st where st: "SSStore_New store (lg_ID l) = Inr (st, Simulator_Init)" "\<forall>j. SSStore_Get (SSStore_Delete st (lg_ID l)) j = SSStore_Get store j"
    using SSStore_New_Delete[OF store] by blast
  have "worker_rel ord l (cg_init, nilDiff, 0) (w, \<lparr>wk_log = l, wk_ss = Simulator_Init, wk_flCount = 0\<rparr>)"
    using w ord sim_rel_init trace_ok_init by (auto simp: worker_rel_def same_log_def)
  from worker.run_sim[OF this tr] obtain w1 k where
    1: "go_run (worker_step ord) (w, \<lparr>wk_log = l, wk_ss = Simulator_Init, wk_flCount = 0\<rparr>) evs = Inr (w1, k)" "worker_rel ord l (c, sd, n) (w1, k)"
    by auto
  then obtain a where a: "sim_rel c (wk_ss k)" "trace_ok c" "archived a c" "writable_log w1 (wk_log k) sd a" "same_log l (wk_log k)"
    by (auto simp: worker_rel_def)
  obtain l2 w2 a2 where 2: "writeSS ord w1 (wk_log k) (wk_ss k) = Inr (l2, Simulator_Clear (wk_ss k), w2)" "writable_log w2 l2 sd a2" "complete a2 c"
    "same_log l l2" using writeSS_ok[OF a(1-4) ord] same_log_trans[OF a(5)] by blast
  obtain l3 w3 where 3: "Log_Close L ks w2 (l2, u) = Inr (None, (l3, u), w3)" "closed_log L w3 l3 sd a2" "same_log l l3"
    using Log_Close_ok[OF 2(2), of L ks u] same_log_trans[OF 2(4)] by blast
  obtain l4 where 4: "Log_Open L w3 (l3\<lparr>lg_ReadOnly := True\<rparr>) = Inr (None, l4, w3)" "log_stores True w3 l4 a2"
    "\<exists>sy. lg_symbols l4 = Some sy \<and> sym_data sy = sd" "lg_ReadOnly l4" "\<not> lg_closed l4" "lg_ID l4 = lg_ID l3" "lg_Metadata l4 = lg_Metadata l3"
    using Log_reopen_ok[OF 3(2) libs] by blast
  have "logWriteWorker_Run L ord ks evs w store (l, u) = Inr ((l4, u), SSStore_Delete st (lg_ID l), w3)"
    using st(1) 1(1) 2(1) 2(4) 3(1) 4(1) by (simp add: logWriteWorker_Run_def same_log_def)
  then show ?thesis using 4 2(3) a(2) st(2) 3(3) sim_relD(1)[OF a(1)] by (auto simp: same_log_def)
qed

subsection \<open>A session of a connection\<close>

text \<open>The callbacks a connection makes from its hello to its end, and the channel they leave to the worker.\<close>

definition client_session :: "log_libs \<Rightarrow> ConnID \<Rightarrow> ClientHelloPacket \<Rightarrow> work list \<Rightarrow> 'u maker \<Rightarrow> 'u maker go" where
  "client_session L i pkt msgs m =
     go_bind (on_Connected L i pkt m) (\<lambda>m. go_bind (go_run (\<lambda>m msg. on_message i msg m) m msgs) (on_Disconnected i))"

lemma on_messages:
  assumes "mk_chMap m i = Some c" "c < length (mk_chans m)" "\<not> ch_closed (mk_chans m ! c)"
  shows "go_run (\<lambda>m msg. on_message i msg m) m msgs =
    Inr (m\<lparr>mk_chans := (mk_chans m)[c := (mk_chans m ! c)\<lparr>ch_queue := ch_queue (mk_chans m ! c) @ msgs\<rparr>]\<rparr>)"
  using assms
proof (induction msgs arbitrary: m)
  case (Cons msg msgs)
  let ?m = "m\<lparr>mk_chans := (mk_chans m)[c := (mk_chans m ! c)\<lparr>ch_queue := ch_queue (mk_chans m ! c) @ [msg]\<rparr>]\<rparr>"
  have "on_message i msg m = Inr ?m" using Cons.prems by (simp add: on_message_def)
  then show ?case using Cons.IH[of ?m] Cons.prems by simp
qed simp

lemma writable_metadata:
  "writable_log w (l\<lparr>lg_Version := v, lg_Metadata := Some md\<rparr>) sd a" if "writable_log w l sd a"
  using that by (simp add: writable_log_def log_stores_def)

lemma on_Connected_ok:
  assumes "\<not> sg_ReadOnly (mk_storage m)" "mk_rnd m = i # rnd" "LogID_wf i" "faults (mk_world m) = []"
    "\<forall>k. files (mk_world m) (log_file (sg_Root (mk_storage m)) i k) = None"
  shows "\<exists>l m'. on_Connected L cid pkt m = Inr m' \<and> sg_files (mk_storage m') = (sg_files (mk_storage m))(i \<mapsto> Some l) \<and>
    writable_log (mk_world m') l nilDiff no_arrays \<and> lg_ID l = i \<and>
    lg_Metadata l = Some (zero_LogMetadata\<lparr>md_PID := ch_PID pkt, md_AppName := ch_AppName pkt, md_Host := ch_Host pkt\<rparr>) \<and>
    mk_chMap m' = (mk_chMap m)(cid \<mapsto> length (mk_chans m)) \<and> mk_chans m' = mk_chans m @ [\<lparr>ch_queue = [], ch_closed = False\<rparr>] \<and>
    mk_logs m' = (mk_logs m)(cid \<mapsto> i)"
proof -
  obtain l w' where l: "Storage_New L (Some i) (mk_world m) (mk_storage m) =
      Inr (Inr l, (mk_storage m)\<lparr>sg_files := (sg_files (mk_storage m))(i \<mapsto> Some l)\<rparr>, w')" "writable_log w' l nilDiff no_arrays"
    "lg_ID l = i" "lg_Version l = 1" "lg_Metadata l = Some zero_LogMetadata"
    using Storage_New_ok[OF assms(1,3,4,5), of L] by blast
  let ?l = "l\<lparr>lg_Version := 2, lg_Metadata := Some (zero_LogMetadata\<lparr>md_PID := ch_PID pkt, md_AppName := ch_AppName pkt, md_Host := ch_Host pkt\<rparr>)\<rparr>"
  show ?thesis using l writable_metadata[OF l(2)] assms(2)
    by (intro exI[of _ ?l]) (simp add: on_Connected_def Log_LogInfo_def logInfoNolock_def UpdateMetadata_def logEvent_Notify_def)
qed

lemma Session_ok:
  assumes "\<not> sg_ReadOnly (mk_storage m)" "mk_rnd m = i # rnd" "LogID_wf i" "faults (mk_world m) = []"
    "\<forall>k. files (mk_world m) (log_file (sg_Root (mk_storage m)) i k) = None" "SSStore_Get store i = None"
    and "enumerates ord" "libs_ok L sd"
    and "spec_run trace_step (cg_init, nilDiff, 0) evs = Some (c, sd, n)"
  shows "\<exists>m' l l' st w' a sy. client_session L cid pkt msgs m = Inr m' \<and>
    mk_chans m' = mk_chans m @ [\<lparr>ch_queue = msgs, ch_closed = True\<rparr>] \<and> mk_chMap m' cid = None \<and> mk_logs m' cid = Some i \<and>
    Storage_Log i (mk_storage m') = (Some l, True) \<and>
    logWriteWorker_Run L ord ks evs (mk_world m') store (l, u) = Inr ((l', u), st, w') \<and>
    lg_ReadOnly l' \<and> \<not> lg_closed l' \<and> lg_symbols l' = Some sy \<and> sym_data sy = sd \<and> lg_ID l' = i \<and>
    lg_Metadata l' = Some (zero_LogMetadata\<lparr>md_PID := ch_PID pkt, md_AppName := ch_AppName pkt, md_Host := ch_Host pkt\<rparr>) \<and>
    log_stores True w' l' a \<and> complete a c \<and> trace_ok c \<and> cg_wf c \<and> (\<forall>j. SSStore_Get st j = SSStore_Get store j)"
proof -
  obtain l m1 where 1: "on_Connected L cid pkt m = Inr m1" "sg_files (mk_storage m1) = (sg_files (mk_storage m))(i \<mapsto> Some l)"
    "writable_log (mk_world m1) l nilDiff no_arrays" "lg_ID l = i"
    "lg_Metadata l = Some (zero_LogMetadata\<lparr>md_PID := ch_PID pkt, md_AppName := ch_AppName pkt, md_Host := ch_Host pkt\<rparr>)"
    "mk_chMap m1 = (mk_chMap m)(cid \<mapsto> length (mk_chans m))" "mk_chans m1 = mk_chans m @ [\<lparr>ch_queue = [], ch_closed = False\<rparr>]"
    "mk_logs m1 = (mk_logs m)(cid \<mapsto> i)"
    using on_Connected_ok[OF assms(1-5), of L cid pkt] by blast
  have "SSStore_Get store (lg_ID l) = None" using assms(6) 1(4) by simp
  from Run_ok[OF 1(3) assms(7) this assms(9,8), of ks u] obtain l' st w' a where
    2: "logWriteWorker_Run L ord ks evs (mk_world m1) store (l, u) = Inr ((l', u), st, w')" "log_stores True w' l' a" "complete a c"
      "trace_ok c" "cg_wf c" "\<forall>j. SSStore_Get st j = SSStore_Get store j" "\<exists>sy. lg_symbols l' = Some sy \<and> sym_data sy = sd"
      "lg_ReadOnly l'" "\<not> lg_closed l'" "lg_ID l' = lg_ID l" "lg_Metadata l' = lg_Metadata l" by blast
  have "client_session L cid pkt msgs m = Inr (m1\<lparr>mk_chans := mk_chans m @ [\<lparr>ch_queue = msgs, ch_closed = True\<rparr>],
      mk_chMap := (mk_chMap m)(cid := None)\<rparr>)"
    using 1(1) on_messages[of m1 cid "length (mk_chans m)" msgs] 1(6,7)
    by (simp add: client_session_def on_Disconnected_def)
  moreover have "Storage_Log i (mk_storage m1) = (Some l, True)" using 1(2) by (simp add: Storage_Log_def)
  ultimately show ?thesis using 2 1(4,5,8) by (intro exI[of _ "m1\<lparr>mk_chans := _, mk_chMap := _\<rparr>"]) auto
qed

subsection \<open>Properties\<close>

text \<open>
  C3. What a traced program sends is what can be read afterwards. A connection says hello, sends raw records and
  symbols and closes; its callbacks queue every message in order in a channel that is then closed. Whenever the
  records nest (goroutine identifiers not negative, symbols valid), and however the
  ticks that write the simulator out fall between them, the worker returns without a panic, and leaves the log
  open for reading: \<open>Get\<close> of every call ever made returns the call of the specification, also of
  those the simulator dropped long before, \<open>Get\<close> of every goroutine the goroutine, the symbols are the last ones sent,
  the metadata are those of the hello, and the store of simulators is as before.
\<close>

theorem Session_is_archived:
  assumes "\<not> sg_ReadOnly (mk_storage m)" "mk_rnd m = i # rnd" "LogID_wf i" "faults (mk_world m) = []"
    "\<forall>k. files (mk_world m) (log_file (sg_Root (mk_storage m)) i k) = None" "SSStore_Get store i = None"
    and "enumerates ord" "libs_ok L sd"
    and "spec_run trace_step (cg_init, nilDiff, 0) evs = Some (c, sd, n)" "msgs = filter (\<lambda>e. e \<noteq> WTick) evs"
  shows "\<exists>m' l l' st w' sy. client_session L cid pkt msgs m = Inr m' \<and>
    mk_chans m' = mk_chans m @ [\<lparr>ch_queue = msgs, ch_closed = True\<rparr>] \<and> mk_chMap m' cid = None \<and> mk_logs m' cid = Some i \<and>
    Storage_Log i (mk_storage m') = (Some l, True) \<and>
    logWriteWorker_Run L ord ks evs (mk_world m') store (l, u) = Inr ((l', u), st, w') \<and>
    lg_ReadOnly l' \<and> \<not> lg_closed l' \<and> lg_symbols l' = Some sy \<and> sym_data sy = sd \<and>
    lg_Metadata l' = Some (zero_LogMetadata\<lparr>md_PID := ch_PID pkt, md_AppName := ch_AppName pkt, md_Host := ch_Host pkt\<rparr>) \<and>
    (\<forall>k < length (cg_calls c). \<exists>s2 w2. FuncLog_Get MaxStackSize (word_of_nat k) w' (lg_funcLog l') = Inr (Inr (cg_calls c ! k), s2, w2)) \<and>
    (\<forall>g gr. cg_gor c g = Some gr \<longrightarrow> (\<exists>s2 w2. Goroutine_Get g w' (lg_goroutineLog l') = Inr (Inr gr, s2, w2))) \<and>
    (\<forall>j. SSStore_Get st j = SSStore_Get store j)"
proof -
  obtain m' l l' st w' a sy where 1: "client_session L cid pkt msgs m = Inr m'"
    "mk_chans m' = mk_chans m @ [\<lparr>ch_queue = msgs, ch_closed = True\<rparr>]" "mk_chMap m' cid = None" "mk_logs m' cid = Some i"
    "Storage_Log i (mk_storage m') = (Some l, True)" "logWriteWorker_Run L ord ks evs (mk_world m') store (l, u) = Inr ((l', u), st, w')"
    "lg_ReadOnly l'" "\<not> lg_closed l'" "lg_symbols l' = Some sy" "sym_data sy = sd" "\<forall>j. SSStore_Get st j = SSStore_Get store j"
    "lg_Metadata l' = Some (zero_LogMetadata\<lparr>md_PID := ch_PID pkt, md_AppName := ch_AppName pkt, md_Host := ch_Host pkt\<rparr>)"
    and 2: "log_stores True w' l' a" "complete a c" "trace_ok c" "cg_wf c"
    using Session_ok[OF assms(1-9), of cid pkt msgs ks u] by blast
  have "\<exists>s2 w2. FuncLog_Get MaxStackSize (word_of_nat k) w' (lg_funcLog l') = Inr (Inr (cg_calls c ! k), s2, w2)" if "k < length (cg_calls c)" for k
    using archive_get_call[OF 2(1,3), of k] 2(2,4) that by (auto simp: complete_def cg_wf_def)
  moreover have "\<exists>s2 w2. Goroutine_Get g w' (lg_goroutineLog l') = Inr (Inr gr, s2, w2)" if "cg_gor c g = Some gr" for g gr
    using archive_get_goroutine[OF 2(1,3)] 2(2) that by (auto simp: complete_def)
  ultimately show ?thesis using 1 by (intro exI[of _ m'] exI[of _ l] exI[of _ l'] exI[of _ st] exI[of _ w'] exI[of _ sy]) auto
qed

definition sample_maker :: "unit maker" where
  "sample_maker = \<lparr>mk_storage = \<lparr>sg_Root = \<lparr>dl_Root = ''/logs''\<rparr>, sg_ReadOnly = False, sg_files = Map.empty\<rparr>,
     mk_world = \<lparr>files = Map.empty, faults = []\<rparr>, mk_rnd = [replicate 16 1], mk_chMap = Map.empty, mk_chans = [], mk_logs = Map.empty, mk_user = ()\<rparr>"

definition sorted_order :: map_order where
  "sorted_order ss = (sorted_list_of_set (dom (funcLogs ss)), sorted_list_of_set (dom (goroutines ss)))"

lemma enumerates_sorted: "enumerates sorted_order"
  by (auto simp: enumerates_def sorted_order_def)

definition sample_work :: "work list" where
  "sample_work = List.map_filter (\<lambda>e. case e of Raw raw \<Rightarrow> Some (WRaw raw) | Clear \<Rightarrow> Some WTick) sample_trace"

lemma sample_libs_ok: "libs_ok sample_libs nilDiff"
  using sample_on_disk by (simp add: on_disk_def)

lemma sample_work_calls:
  "\<exists>c. spec_run trace_step (cg_init, nilDiff, 0) sample_work = Some (c, nilDiff, 3) \<and> cg_calls c =
     [\<lparr>fl_ID = 0, fl_StartTime = 10, fl_EndTime = 15, fl_ParentID = - 1, fl_Frames = [10], fl_GID = 7\<rparr>,
      \<lparr>fl_ID = 1, fl_StartTime = 11, fl_EndTime = 14, fl_ParentID = - 1, fl_Frames = [11], fl_GID = 8\<rparr>,
      \<lparr>fl_ID = 2, fl_StartTime = 12, fl_EndTime = 13, fl_ParentID = 0, fl_Frames = [12], fl_GID = 7\<rparr>]"
  by (simp add: sample_work_def List.map_filter_def trace_simps trace_step_def trace_clear_def)

lemma sample_work_spec:
  "\<exists>c. spec_run trace_step (cg_init, nilDiff, 0) sample_work = Some (c, nilDiff, 3) \<and> length (cg_calls c) = 3 \<and>
     cg_calls c ! 2 = \<lparr>fl_ID = 2, fl_StartTime = 12, fl_EndTime = 13, fl_ParentID = 0, fl_Frames = [12], fl_GID = 7\<rparr>"
  using sample_work_calls by auto

lemma sample_maker_ok:
  "\<not> sg_ReadOnly (mk_storage sample_maker)" "mk_rnd sample_maker = replicate 16 1 # []" "LogID_wf (replicate 16 1)"
  "faults (mk_world sample_maker) = []" "\<forall>k. files (mk_world sample_maker) (log_file (sg_Root (mk_storage sample_maker)) (replicate 16 1) k) = None"
  "SSStore_Get \<lparr>ss_m = None\<rparr> (replicate 16 1) = None"
  by (simp_all add: sample_maker_def LogID_wf_def SSStore_Get_def)

theorem Session_is_archived_witness:
  "\<exists>m' l l' st w' s2 w2. client_session sample_libs 0 sample_hello
      (filter (\<lambda>e. e \<noteq> WTick) sample_work) sample_maker = Inr m' \<and>
    Storage_Log (replicate 16 1) (mk_storage m') = (Some l, True) \<and>
    logWriteWorker_Run sample_libs sorted_order [] sample_work (mk_world m') \<lparr>ss_m = None\<rparr> (l, ()) = Inr ((l', ()), st, w') \<and>
    FuncLog_Get MaxStackSize 2 w' (lg_funcLog l') =
      Inr (Inr \<lparr>fl_ID = 2, fl_StartTime = 12, fl_EndTime = 13, fl_ParentID = 0, fl_Frames = [12], fl_GID = 7\<rparr>, s2, w2)"
proof -
  obtain c where c: "spec_run trace_step (cg_init, nilDiff, 0) sample_work = Some (c, nilDiff, 3)" "length (cg_calls c) = 3"
    "cg_calls c ! 2 = \<lparr>fl_ID = 2, fl_StartTime = 12, fl_EndTime = 13, fl_ParentID = 0, fl_Frames = [12], fl_GID = 7\<rparr>"
    using sample_work_spec by blast
  from Session_is_archived[OF sample_maker_ok enumerates_sorted sample_libs_ok c(1) refl,
      of 0 sample_hello "[]" "()"]
  obtain m' l l' st w' where r: "client_session sample_libs 0 sample_hello
      (filter (\<lambda>e. e \<noteq> WTick) sample_work) sample_maker = Inr m'"
    "Storage_Log (replicate 16 1) (mk_storage m') = (Some l, True)"
    "logWriteWorker_Run sample_libs sorted_order [] sample_work (mk_world m') \<lparr>ss_m = None\<rparr> (l, ()) = Inr ((l', ()), st, w')"
    "\<forall>k < length (cg_calls c). \<exists>s2 w2. FuncLog_Get MaxStackSize (word_of_nat k) w' (lg_funcLog l') = Inr (Inr (cg_calls c ! k), s2, w2)" by blast
  have "2 < length (cg_calls c)" using c(2) by simp
  with r(4) obtain s2 w2 where "FuncLog_Get MaxStackSize (word_of_nat 2) w' (lg_funcLog l') = Inr (Inr (cg_calls c ! 2), s2, w2)" by blast
  then show ?thesis using r(1-3) c(3) by auto
qed

text \<open>
  A connection that closes before its hello brings the server down. Whatever other connections are doing, when a new
  connection is accepted and closed with no packet in between, its handler closes a channel that was never
  made, and the program panics.
\<close>

theorem Early_close_panics:
  assumes "srv_NewHandler s = (\<lambda>i c u. (NewConnHandler L i, u))" "srv_connMap s c = None" "ev_user e = Inr m"
    "mk_chMap m (srv_nextConnID s) = None"
  shows "ev_user (snd (Server_OnEvent EventClosed c None (Server_OnEvent EventAccept c None (s, e)))) = Inl (Panic ''close of nil channel'')"
  using assms
  by (simp add: Server_OnEvent_def getServerConn_def ServerConn_OnEvent_def on_closed_def NewConnHandler_def on_Disconnected_def call0_def Let_def)

definition sample_front :: "unit maker go Server" where
  "sample_front = \<lparr>srv_Addr = [], srv_NewHandler = (\<lambda>i c u. (NewConnHandler sample_libs i, u)), srv_PingInterval = 0,
     srv_BufferOpt = \<lparr>bo_RefreshInterval = 0, bo_MaxSmallPacketSize = 0, bo_MaxLargePacketSize = 0,
       bo_Xtcp = \<lparr>xo_SendListLen = 0, xo_RecvBufInitSize = 0, xo_SendBufInitSize = 0, xo_RecvBufMaxSize = 0, xo_SendBufMaxSize = 0\<rparr>\<rparr>,
     srv_listener = None, srv_initDone = False, srv_stopDone = False, srv_connMap = Map.empty, srv_nextConnID = 0, srv_opt = None, srv_stops = 0\<rparr>"

theorem Early_close_panics_witness:
  "ev_user (snd (Server_OnEvent EventClosed 5 None (Server_OnEvent EventAccept 5 None
     (sample_front, \<lparr>ev_user = Inr sample_maker, ev_sent = [], ev_stops = [], ev_fails = [], ev_log = []\<rparr>)))) = Inl (Panic ''close of nil channel'')"
  by (rule Early_close_panics[where L = sample_libs and m = sample_maker]) (simp_all add: sample_front_def sample_maker_def)

end
