(* ===== verification/Handlers.thy ===== *)
theory Handlers
  imports Storage Simulator
begin

section \<open>Handlers: the REST API of logs, goroutines and symbols (\<open>tracer/restapi/handlers.go\<close>)\<close>

text \<open>
  A handler reads a request, works on the storage and writes a response. A response is the list of what
  is written: \<open>http.Error\<close>, a status, JSON values (whose encoding is left out: a value stands for its JSON) and
  bytes. The connection to the client may break: \<open>wr_room\<close> is the number of writes it still takes. The
  calls of the logger are left out.
\<close>

subsection \<open>Requests and responses\<close>

datatype json =
    JLogInfo LogInfo | JLogs "LogInfo list" | JMetadata LogMetadata | JFuncLog FuncLog | JGoroutine Goroutine
  | JSymbols SymbolsData | JModule GoModule | JFunc GoFunc | JLine GoLine

datatype reply = HttpError nat string | WriteHeader nat | WriteJson json | WriteBytes "byte list"

record writer =
  wr_out :: "reply list"
  wr_room :: "nat option"

definition StatusOK :: nat where "StatusOK = 200"
definition StatusNoContent :: nat where "StatusNoContent = 204"
definition StatusBadRequest :: nat where "StatusBadRequest = 400"
definition StatusNotFound :: nat where "StatusNotFound = 404"
definition StatusConflict :: nat where "StatusConflict = 409"
definition StatusInternalServerError :: nat where "StatusInternalServerError = 500"

text \<open>Writing: whether it succeeded, and the writer.\<close>

definition wr_write :: "reply \<Rightarrow> writer \<Rightarrow> bool \<times> writer" where
  "wr_write r wr =
     (case wr_room wr of
        None \<Rightarrow> (True, wr\<lparr>wr_out := wr_out wr @ [r]\<rparr>)
      | Some 0 \<Rightarrow> (False, wr)
      | Some (Suc n) \<Rightarrow> (True, wr\<lparr>wr_out := wr_out wr @ [r], wr_room := Some n\<rparr>))"

definition http_Error :: "string \<Rightarrow> nat \<Rightarrow> writer \<Rightarrow> writer" where
  "http_Error msg code wr = snd (wr_write (HttpError code msg) wr)"

definition http_WriteHeader :: "nat \<Rightarrow> writer \<Rightarrow> writer" where
  "http_WriteHeader code wr = snd (wr_write (WriteHeader code) wr)"

text \<open>
  A request: its method, the variables of its path, its query parameters (the empty string for one that is
  missing), and what its body decodes to.
\<close>

record request =
  rq_method :: string
  rq_vars :: "string \<Rightarrow> string"
  rq_query :: "string \<Rightarrow> string"
  rq_body :: "LogInfo option"

definition serverError :: "string \<Rightarrow> writer \<Rightarrow> writer" where
  "serverError msg wr = http_Error msg StatusInternalServerError wr"

definition api_write :: "byte list \<Rightarrow> writer \<Rightarrow> writer" where
  "api_write data wr = snd (wr_write (WriteBytes data) wr)"

definition writeObj :: "json \<Rightarrow> writer \<Rightarrow> writer" where
  "writeObj obj wr = snd (wr_write (WriteJson obj) wr)"

definition readJson :: "request \<Rightarrow> LogInfo option" where
  "readJson r = rq_body r"

definition writeJson :: "json \<Rightarrow> writer \<Rightarrow> writer" where
  "writeJson v wr = snd (wr_write (WriteJson v) wr)"

definition parseTimestamp :: "string \<Rightarrow> Time \<Rightarrow> num_error + Time" where
  "parseTimestamp val defaultValue =
     (if val = [] then Inr defaultValue
      else case Time_UnmarshalJSON 0 (bytes_of_string val) of
             (ts, None) \<Rightarrow> Inr ts
           | (ts, Some e) \<Rightarrow> Inl e)"

text \<open>On an error \<open>strconv.ParseUint\<close> returns 0, or the largest value when the number is out of range.\<close>

definition parseUintptr :: "string \<Rightarrow> uintptr \<times> num_error option" where
  "parseUintptr s =
     (case ParseUint s of
        Inr n \<Rightarrow> (word_of_nat n, None)
      | Inl e \<Rightarrow> (if e = ErrRange then - 1 else 0, Some e))"

subsection \<open>Finding the log\<close>

text \<open>The log of a request; a nil pointer in the map of logs is found, too.\<close>

definition getLog :: "request \<Rightarrow> 'u Storage \<Rightarrow> writer \<Rightarrow> (LogID \<times> 'u Log option) option \<times> writer" where
  "getLog r s wr =
     (case LogID_Unhex (rq_vars r ''log-id'') of
        (i, Some e) \<Rightarrow> (None, http_Error ''invalid log-id'' StatusBadRequest wr)
      | (i, None) \<Rightarrow>
          (case Storage_Log i s of
             (l, False) \<Rightarrow> (None, http_Error ''log not found'' StatusNotFound wr)
           | (l, True) \<Rightarrow> (Some (i, l), wr)))"

text \<open>The results are named: when the pc is not a number, \<open>ok\<close> is still what \<open>getLog\<close> has set it to.\<close>

definition getLogPC :: "request \<Rightarrow> 'u Storage \<Rightarrow> writer \<Rightarrow> ((LogID \<times> 'u Log option) \<times> uintptr) option \<times> writer" where
  "getLogPC r s wr =
     (case getLog r s wr of
        (None, wr) \<Rightarrow> (None, wr)
      | (Some l, wr) \<Rightarrow>
          (case parseUintptr (rq_vars r ''pc'') of
             (pc, Some e) \<Rightarrow> (Some (l, pc), http_Error ''invalid pc parameter because pc is not unsigned integer'' StatusBadRequest wr)
           | (pc, None) \<Rightarrow> (Some (l, pc), wr)))"

definition deref :: "'a option \<Rightarrow> 'a go" where
  "deref p = (case p of None \<Rightarrow> Inl NilDereference | Some x \<Rightarrow> Inr x)"

definition put_log :: "LogID \<Rightarrow> 'u Log \<Rightarrow> 'u Storage \<Rightarrow> 'u Storage" where
  "put_log i l s = s\<lparr>sg_files := (sg_files s)(i \<mapsto> Some l)\<rparr>"

subsection \<open>Logs\<close>

fun log_infos :: "'u Log option list \<Rightarrow> LogInfo list go" where
  "log_infos [] = Inr []"
| "log_infos (p # ps) = go_bind (deref p) (\<lambda>l. go_bind (Log_LogInfo l) (\<lambda>info. go_bind (log_infos ps) (\<lambda>infos. Inr (info # infos))))"

text \<open>\<open>ids\<close> is the order in which the map of logs is iterated.\<close>

definition api_logs :: "LogID list \<Rightarrow> 'u Storage \<Rightarrow> writer \<Rightarrow> writer go" where
  "api_logs ids s wr = go_bind (log_infos (Storage_Logs ids s)) (\<lambda>infos. Inr (snd (wr_write (WriteJson (JLogs infos)) wr)))"

text \<open>The three methods of \<open>/log/{log-id}\<close>. \<open>None\<close>: removing the files does not end.\<close>

definition log_Delete :: "world \<Rightarrow> 'u Log \<Rightarrow> writer \<Rightarrow> (world \<times> writer) option" where
  "log_Delete w l wr =
     (case Log_Remove w l of
        None \<Rightarrow> None
      | Some (Some e, w) \<Rightarrow> Some (w, serverError ''failed to remove a log'' wr)
      | Some (None, w) \<Rightarrow> Some (w, http_WriteHeader StatusNoContent wr))"

definition log_Get :: "'u Log \<Rightarrow> writer \<Rightarrow> writer go" where
  "log_Get l wr = go_bind (Log_LogInfo l) (\<lambda>info. Inr (writeJson (JLogInfo info) wr))"

definition log_Put :: "int64 list \<Rightarrow> request \<Rightarrow> 'u Log \<times> 'u \<Rightarrow> writer \<Rightarrow> (('u Log \<times> 'u) \<times> writer) go" where
  "log_Put ks r lu wr =
     (case readJson r of
        None \<Rightarrow> Inr (lu, wr)
      | Some info \<Rightarrow>
          go_bind (UpdateMetadata ks (li_Version info) (li_Metadata info) lu) (\<lambda>(e, lu).
          case e of
            Some e \<Rightarrow>
              if e = ErrConflict
              then go_bind (Log_LogInfo (fst lu)) (\<lambda>now. Inr (lu, writeJson (JLogInfo now) (http_WriteHeader StatusConflict wr)))
              else Inr (lu, serverError ''failed to Log.UpdateMetadata'' wr)
          | None \<Rightarrow> go_bind (Log_LogInfo (fst lu)) (\<lambda>now. Inr (lu, writeJson (JLogInfo now) (http_WriteHeader StatusOK wr)))))"

definition api_log :: "int64 list \<Rightarrow> request \<Rightarrow> world \<Rightarrow> 'u Storage \<times> 'u \<Rightarrow> writer \<Rightarrow> (('u Storage \<times> 'u) \<times> world \<times> writer) go option" where
  "api_log ks r w = (\<lambda>(s, u) wr.
     case getLog r s wr of
       (None, wr) \<Rightarrow> Some (Inr ((s, u), w, wr))
     | (Some (i, p), wr) \<Rightarrow>
         (case p of
            None \<Rightarrow> if rq_method r \<in> {''DELETE'', ''GET'', ''PUT''} then Some (Inl NilDereference) else Some (Inr ((s, u), w, wr))
          | Some l \<Rightarrow>
              if rq_method r = ''DELETE'' then map_option (\<lambda>(w, wr). Inr ((s, u), w, wr)) (log_Delete w l wr)
              else if rq_method r = ''GET'' then Some (go_bind (log_Get l wr) (\<lambda>wr. Inr ((s, u), w, wr)))
              else if rq_method r = ''PUT''
              then Some (go_bind (log_Put ks r (l, u) wr) (\<lambda>((l, u), wr). Inr ((put_log i l s, u), w, wr)))
              else Some (Inr ((s, u), w, wr))))"

text \<open>
  \<open>logWatch\<close>. The callback writes the metadata of each update after \<open>version\<close>. The context ends with the
  timeout or soon after the first write; \<open>during\<close> is what happens to the log until then.
\<close>

record watch =
  wt_wrote :: bool
  wt_writer :: writer

definition watch_callback :: "int64 \<Rightarrow> LogInfo \<Rightarrow> watch \<Rightarrow> watch" where
  "watch_callback version info t =
     (if sint (li_Version info) \<le> sint version then t
      else \<lparr>wt_wrote = True, wt_writer = writeJson (JMetadata (li_Metadata info)) (wt_writer t)\<rparr>)"

definition watch_params :: "request \<Rightarrow> string + int64 \<times> int64" where
  "watch_params r =
     (let strVer = rq_query r ''version''; strTimeout = rq_query r ''timeout'' in
      if strVer = [] then Inl ''missing \"version\" parameter''
      else case ParseInt strVer of
             (_, Some e) \<Rightarrow> Inl ''\"version\" parameter MUST be integer type''
           | (version, None) \<Rightarrow>
               if strTimeout = [] then Inl ''missing \"timeout\" parameter''
               else (case ParseInt strTimeout of
                       (_, Some e) \<Rightarrow> Inl ''\"timeout\" parameter MUST be integer type''
                     | (timeout, None) \<Rightarrow> Inr (version, timeout)))"

definition api_logWatch ::
  "int64 list \<Rightarrow> (watch Log \<times> watch \<Rightarrow> (watch Log \<times> watch) go) \<Rightarrow> request \<Rightarrow> watch Storage \<Rightarrow> writer \<Rightarrow> (watch Storage \<times> writer) go option" where
  "api_logWatch rnd during r s wr =
     (case getLog r s wr of
        (None, wr) \<Rightarrow> Some (Inr (s, wr))
      | (Some (i, p), wr) \<Rightarrow>
          (case watch_params r of
             Inl msg \<Rightarrow> Some (Inr (s, http_Error msg StatusBadRequest wr))
           | Inr (version, timeout) \<Rightarrow>
               (case p of
                  None \<Rightarrow> Some (Inl NilDereference)
                | Some l \<Rightarrow>
                    map_option (\<lambda>res. go_bind res (\<lambda>(l, t).
                        Inr (put_log i l s, if \<not> wt_wrote t then http_WriteHeader StatusNoContent (wt_writer t) else wt_writer t)))
                      (Log_Watch rnd (watch_callback version) during (l, \<lparr>wt_wrote = False, wt_writer = wr\<rparr>)))))"

subsection \<open>Goroutines\<close>

definition in_period :: "Time \<Rightarrow> Time \<Rightarrow> Goroutine \<Rightarrow> bool" where
  "in_period minTs maxTs g \<longleftrightarrow>
     (minTs = - 1 \<or> sint minTs \<le> sint (g_StartTime g)) \<and> (maxTs = - 1 \<or> sint (g_EndTime g) \<le> sint maxTs)"

fun encode_each :: "('a \<Rightarrow> json) \<Rightarrow> 'a list \<Rightarrow> writer \<Rightarrow> writer" where
  "encode_each f [] wr = wr"
| "encode_each f (x # xs) wr = (case wr_write (WriteJson (f x)) wr of (True, wr) \<Rightarrow> encode_each f xs wr | (False, wr) \<Rightarrow> wr)"

definition api_goroutineSearch :: "request \<Rightarrow> world \<Rightarrow> 'u Storage \<Rightarrow> writer \<Rightarrow> ('u Storage \<times> world \<times> writer) go" where
  "api_goroutineSearch r w s wr =
     (case getLog r s wr of
        (None, wr) \<Rightarrow> Inr (s, w, wr)
      | (Some (i, p), wr) \<Rightarrow>
          (case parseTimestamp (rq_query r ''min-timestamp'') (- 1) of
             Inl e \<Rightarrow> Inr (s, w, http_Error ''invalid min-timestamp'' StatusBadRequest wr)
           | Inr minTs \<Rightarrow>
               (case parseTimestamp (rq_query r ''max-timestamp'') (- 1) of
                  Inl e \<Rightarrow> Inr (s, w, http_Error ''invalid max-timestamp'' StatusBadRequest wr)
                | Inr maxTs \<Rightarrow>
                    go_bind (deref p) (\<lambda>l.
                    go_bind (Log_Goroutine (\<lambda>w st. get_each Goroutine_GetNolock (nat (Records st)) 0 w st) w l) (\<lambda>((e, gs), l, w).
                    Inr (put_log i l s, w, encode_each JGoroutine (filter (in_period minTs maxTs) gs) wr))))))"

subsection \<open>Symbols\<close>

definition api_symbols :: "request \<Rightarrow> 'u Storage \<Rightarrow> writer \<Rightarrow> writer go" where
  "api_symbols r s wr =
     (case getLog r s wr of
        (None, wr) \<Rightarrow> Inr wr
      | (Some (i, p), wr) \<Rightarrow>
          go_bind (deref p) (\<lambda>l. go_bind (deref (Log_Symbols l)) (\<lambda>sy.
          Inr (Symbols_Save sy (\<lambda>data. snd (wr_write (WriteJson (JSymbols data)) wr))))))"

definition symbols_of :: "'u Log option \<Rightarrow> Symbols go" where
  "symbols_of p = go_bind (deref p) (\<lambda>l. deref (Log_Symbols l))"

definition api_goModule :: "request \<Rightarrow> 'u Storage \<Rightarrow> writer \<Rightarrow> writer go" where
  "api_goModule r s wr =
     (case getLogPC r s wr of
        (None, wr) \<Rightarrow> Inr wr
      | (Some ((i, p), pc), wr) \<Rightarrow>
          go_bind (symbols_of p) (\<lambda>sy.
          case Symbols_GoModule sy pc of
            (m, False) \<Rightarrow> Inr (http_Error ''not found module'' StatusNotFound wr)
          | (m, True) \<Rightarrow> Inr (writeObj (JModule m) wr)))"

definition api_goFunc :: "request \<Rightarrow> 'u Storage \<Rightarrow> writer \<Rightarrow> writer go" where
  "api_goFunc r s wr =
     (case getLogPC r s wr of
        (None, wr) \<Rightarrow> Inr wr
      | (Some ((i, p), pc), wr) \<Rightarrow>
          go_bind (symbols_of p) (\<lambda>sy.
          case Symbols_GoFunc sy pc of
            (f, False) \<Rightarrow> Inr (http_Error ''not found function'' StatusNotFound wr)
          | (f, True) \<Rightarrow> Inr (writeObj (JFunc f) wr)))"

text \<open>\<open>goLine\<close> goes on after it has reported that there is no line.\<close>

definition api_goLine :: "request \<Rightarrow> 'u Storage \<Rightarrow> writer \<Rightarrow> writer go" where
  "api_goLine r s wr =
     (case getLogPC r s wr of
        (None, wr) \<Rightarrow> Inr wr
      | (Some ((i, p), pc), wr) \<Rightarrow>
          go_bind (symbols_of p) (\<lambda>sy.
          case Symbols_GoLine sy pc of
            (l, ok) \<Rightarrow> Inr (writeObj (JLine l) (if \<not> ok then http_Error ''not found line'' StatusNotFound wr else wr))))"

definition api_notImpl :: "writer \<Rightarrow> writer" where
  "api_notImpl wr = http_Error ''not implemented'' StatusInternalServerError wr"

subsection \<open>Properties\<close>

text \<open>What an update of another client does to a log that is watched.\<close>

definition update_during :: "int64 list \<Rightarrow> LogMetadata \<Rightarrow> watch Log \<times> watch \<Rightarrow> (watch Log \<times> watch) go" where
  "update_during ks md lu = go_bind (UpdateMetadata ks (lg_Version (fst lu)) md lu) (\<lambda>(e, lu). Inr lu)"

text \<open>
  Watching a log reports an update that comes during the watch and no other. When a client that knows an old
  version watches, an update during the watch is answered with the new metadata; when there is none, the answer is
  204 (no content), although the version the client knows has changed before. In both cases the watcher is unregistered.
\<close>

theorem Watch_reports_updates_during_the_watch_only:
  assumes "getLog r s wr = (Some (i, Some l), wr)" "watch_params r = Inr (version, timeout)" "lg_event l = Map.empty"
    "sint version < sint (lg_Version l)" "sint (lg_Version l) < 2 ^ 63 - 1"
  shows "\<exists>l1 l2. lg_event l1 = Map.empty \<and> lg_event l2 = Map.empty \<and> lg_Metadata l1 = Some md \<and>
    api_logWatch (key # rnd) (update_during [key] md) r s wr = Some (Inr (put_log i l1 s, writeJson (JMetadata md) wr)) \<and>
    api_logWatch (key # rnd) (\<lambda>lu. Inr lu) r s wr = Some (Inr (put_log i l2 s, http_WriteHeader StatusNoContent wr))"
proof -
  have "sint (lg_Version l + 1) = sint (lg_Version l) + 1"
    using assms(5) sint_ge[of "lg_Version l"] by (simp add: sint_word_ariths signed_take_bit_int_eq_self)
  then have new: "\<not> sint (lg_Version l + 1) \<le> sint version" using assms(4) by simp
  let ?l = "l\<lparr>lg_Version := lg_Version l + 1, lg_Metadata := Some md, lg_event := Map.empty\<rparr>"
  have "api_logWatch (key # rnd) (update_during [key] md) r s wr = Some (Inr (put_log i ?l s, writeJson (JMetadata md) wr))"
    using assms(1-3) new
    by (simp add: api_logWatch_def Log_Watch_def logEvent_register_def logEvent_unregister_def update_during_def UpdateMetadata_def
        logInfoNolock_def logEvent_Notify_def watch_callback_def Let_def)
  moreover have "api_logWatch (key # rnd) (\<lambda>lu. Inr lu) r s wr = Some (Inr (put_log i (l\<lparr>lg_event := Map.empty\<rparr>) s, http_WriteHeader StatusNoContent wr))"
    using assms(1-3) by (simp add: api_logWatch_def Log_Watch_def logEvent_register_def logEvent_unregister_def)
  moreover have "lg_event ?l = Map.empty" "lg_event (l\<lparr>lg_event := Map.empty\<rparr>) = Map.empty" "lg_Metadata ?l = Some md" by simp_all
  ultimately show ?thesis by blast
qed

definition watched_log :: "watch Log" where
  "watched_log = (new_Log (replicate 16 1) \<lparr>dl_Root = ''/logs''\<rparr> 0 False)\<lparr>lg_Version := 4, lg_Metadata := Some zero_LogMetadata\<rparr>"

definition watch_request :: request where
  "watch_request = \<lparr>rq_method = ''GET'', rq_vars = (\<lambda>name. LogID_Hex (replicate 16 1)), rq_query = (\<lambda>name. ''2''), rq_body = None\<rparr>"

definition watched_storage :: "watch Storage" where
  "watched_storage = \<lparr>sg_Root = \<lparr>dl_Root = ''/logs''\<rparr>, sg_ReadOnly = False, sg_files = [replicate 16 1 \<mapsto> Some watched_log]\<rparr>"

theorem Watch_reports_updates_during_the_watch_only_witness:
  "\<exists>s1 s2. api_logWatch [7] (update_during [7] (zero_LogMetadata\<lparr>md_PID := 5\<rparr>)) watch_request watched_storage \<lparr>wr_out = [], wr_room = None\<rparr> =
      Some (Inr (s1, \<lparr>wr_out = [WriteJson (JMetadata (zero_LogMetadata\<lparr>md_PID := 5\<rparr>))], wr_room = None\<rparr>)) \<and>
    api_logWatch [7] (\<lambda>lu. Inr lu) watch_request watched_storage \<lparr>wr_out = [], wr_room = None\<rparr> =
      Some (Inr (s2, \<lparr>wr_out = [WriteHeader 204], wr_room = None\<rparr>))"
proof -
  have "LogID_wf (replicate 16 1)" by (simp add: LogID_wf_def)
  then have 1: "getLog watch_request watched_storage \<lparr>wr_out = [], wr_room = None\<rparr> = (Some (replicate 16 1, Some watched_log), \<lparr>wr_out = [], wr_room = None\<rparr>)"
    by (simp add: getLog_def watch_request_def watched_storage_def Storage_Log_def LogID_Unhex_Hex)
  have "FormatInt 2 = ''2''" by (simp add: FormatInt_def format_nat.simps digit_char_def char_of_def bit_iff_odd)
  then have "ParseInt ''2'' = (2, None)" using ParseInt_FormatInt[of 2] by simp
  then have 2: "watch_params watch_request = Inr (2, 2)" by (simp add: watch_params_def watch_request_def)
  from Watch_reports_updates_during_the_watch_only[OF 1 2, of "zero_LogMetadata\<lparr>md_PID := 5\<rparr>" 7 "[]"] show ?thesis
    by (auto simp: watched_log_def new_Log_def writeJson_def http_WriteHeader_def wr_write_def StatusNoContent_def)
qed

end
