(* ===== verification/TopN.thy ===== *)
theory TopN
  imports Types "HOL-Library.Multiset"
begin

section \<open>TopN: sorting and limiting a stream of calls (\<open>sortAndLimit\<close> in \<open>tracer/restapi/handlers.go\<close>)\<close>

text \<open>
  \<open>sortAndLimit\<close> keeps the smallest \<open>offset + rows\<close> records of a stream in a heap whose root is the largest of
  them, sorts what is left at the end and skips the first \<open>offset\<close>. The heap is that of
  \<open>container/heap\<close> over \<open>GenericHeap\<close>, whose \<open>Less\<close> swaps its arguments; comparisons may panic. \<open>sort.Slice\<close> is the argument
  \<open>srt\<close>, since the order in which it leaves equal elements is not specified.
\<close>

subsection \<open>\<open>container/heap\<close>\<close>

type_synonym 'a comparator = "'a \<Rightarrow> 'a \<Rightarrow> bool go"

lemma go_bind_cong [fundef_cong]:
  "m = m' \<Longrightarrow> (\<And>x. m' = Inr x \<Longrightarrow> f x = g x) \<Longrightarrow> go_bind m f = go_bind m' g"
  by (cases m') auto

definition heapComparator :: "'a comparator \<Rightarrow> 'a list \<Rightarrow> nat \<Rightarrow> nat \<Rightarrow> bool go" where
  "heapComparator lss items j i = lss (items ! i) (items ! j)"

definition heap_Swap :: "'a list \<Rightarrow> nat \<Rightarrow> nat \<Rightarrow> 'a list" where
  "heap_Swap items i j = items[i := items ! j, j := items ! i]"

function heap_down :: "'a comparator \<Rightarrow> nat \<Rightarrow> 'a list \<Rightarrow> nat \<Rightarrow> ('a list \<times> nat) go" where
  "heap_down lss n items i =
     (let j1 = 2 * i + 1; j2 = j1 + 1 in
      if n \<le> j1 then Inr (items, i)
      else go_bind (if j2 < n then heapComparator lss items j2 j1 else Inr False) (\<lambda>right.
        let j = (if right then j2 else j1) in
        go_bind (heapComparator lss items j i) (\<lambda>b.
        if \<not> b then Inr (items, i) else heap_down lss n (heap_Swap items i j) j)))"
  by pat_completeness auto
termination by (relation "measure (\<lambda>(_, n, _, i). n - i)") auto

declare heap_down.simps [simp del]

function heap_up :: "'a comparator \<Rightarrow> 'a list \<Rightarrow> nat \<Rightarrow> 'a list go" where
  "heap_up lss items j =
     (let i = (j - 1) div 2 in
      if i = j then Inr items
      else go_bind (heapComparator lss items j i) (\<lambda>b.
        if \<not> b then Inr items else heap_up lss (heap_Swap items i j) i))"
  by pat_completeness auto
termination by (relation "measure (\<lambda>(_, _, j). j)") (auto simp: div_less_dividend)

declare heap_up.simps [simp del]

text \<open>\<open>Init\<close>: \<open>down\<close> at every inner node, the last one first; \<open>k\<close> nodes are left.\<close>

fun heap_Init_loop :: "'a comparator \<Rightarrow> nat \<Rightarrow> 'a list \<Rightarrow> 'a list go" where
  "heap_Init_loop lss 0 items = Inr items"
| "heap_Init_loop lss (Suc i) items =
     go_bind (heap_down lss (length items) items i) (\<lambda>(items, _). heap_Init_loop lss i items)"

definition heap_Init :: "'a comparator \<Rightarrow> 'a list \<Rightarrow> 'a list go" where
  "heap_Init lss items = heap_Init_loop lss (length items div 2) items"

definition heap_Fix :: "'a comparator \<Rightarrow> 'a list \<Rightarrow> nat \<Rightarrow> 'a list go" where
  "heap_Fix lss items i =
     go_bind (heap_down lss (length items) items i) (\<lambda>(items', k). if i < k then Inr items' else heap_up lss items' i)"

subsection \<open>\<open>sortAndLimit\<close>\<close>

type_synonym 'a sorter = "'a comparator \<Rightarrow> 'a list \<Rightarrow> 'a list go"

fun UpdateItemsLoop :: "'a comparator \<Rightarrow> 'a list \<Rightarrow> 'a list \<Rightarrow> 'a list go" where
  "UpdateItemsLoop lss [] items = Inr items"
| "UpdateItemsLoop lss (evt # ch) items =
     (if items = [] then Inl IndexOutOfRange
      else go_bind (lss evt (items ! 0)) (\<lambda>b.
        if b then go_bind (heap_Fix lss (items[0 := evt]) 0) (\<lambda>items. UpdateItemsLoop lss ch items)
        else UpdateItemsLoop lss ch items))"

text \<open>The number of records that the loop \<open>FillItemsLoop\<close> takes: \<open>offset + rows\<close> wraps.\<close>

definition fill_count :: "int64 \<Rightarrow> int64 \<Rightarrow> nat" where
  "fill_count offset rows = nat (sint (offset + rows))"

definition sort_items :: "'a comparator \<Rightarrow> int64 \<Rightarrow> int64 \<Rightarrow> 'a list \<Rightarrow> 'a list go" where
  "sort_items lss offset rows inCh =
     (if sint rows \<le> 0 then Inr inCh
      else let n = fill_count offset rows in
        go_bind (heap_Init lss (take n inCh)) (\<lambda>items. UpdateItemsLoop lss (drop n inCh) items))"

text \<open>\<open>items[offset:]\<close> with a negative offset panics.\<close>

definition sortAndLimit :: "'a sorter \<Rightarrow> 'a comparator option \<Rightarrow> int64 \<Rightarrow> int64 \<Rightarrow> 'a list \<Rightarrow> 'a list go" where
  "sortAndLimit srt lss offset rows inCh =
     (case lss of
        None \<Rightarrow> if sint rows \<le> 0 then Inr inCh else Inr (take (nat (sint rows)) (drop (nat (sint offset)) inCh))
      | Some lss \<Rightarrow>
          go_bind (sort_items lss offset rows inCh) (\<lambda>items.
          go_bind (srt lss items) (\<lambda>items.
          if int (length items) \<le> sint offset then Inr []
          else if sint offset < 0 then Inl SliceBoundsOutOfRange
          else Inr (drop (nat (sint offset)) items))))"

subsection \<open>The heap\<close>

text \<open>\<open>heap_from f m xs\<close>: no child is above its parent, for the parents from \<open>m\<close> on.\<close>

definition heap_from :: "('a \<Rightarrow> int) \<Rightarrow> nat \<Rightarrow> 'a list \<Rightarrow> bool" where
  "heap_from f m xs \<longleftrightarrow> (\<forall>i j. m \<le> i \<and> (j = 2 * i + 1 \<or> j = 2 * i + 2) \<and> j < length xs \<longrightarrow> f (xs ! j) \<le> f (xs ! i))"

text \<open>During \<open>down\<close>: the node \<open>i\<close> may be too small, but its children are below its parent.\<close>

definition sifting :: "('a \<Rightarrow> int) \<Rightarrow> nat \<Rightarrow> nat \<Rightarrow> 'a list \<Rightarrow> bool" where
  "sifting f m i xs \<longleftrightarrow>
     (\<forall>p j. m \<le> p \<and> p \<noteq> i \<and> (j = 2 * p + 1 \<or> j = 2 * p + 2) \<and> j < length xs \<longrightarrow> f (xs ! j) \<le> f (xs ! p)) \<and>
     (\<forall>p j. m \<le> p \<and> (i = 2 * p + 1 \<or> i = 2 * p + 2) \<and> (j = 2 * i + 1 \<or> j = 2 * i + 2) \<and> j < length xs \<longrightarrow> f (xs ! j) \<le> f (xs ! p))"

definition by_key :: "('a \<Rightarrow> int) \<Rightarrow> 'a comparator" where
  "by_key f x y = Inr (f x < f y)"

lemma swap_mset: "i < length xs \<Longrightarrow> j < length xs \<Longrightarrow> mset (heap_Swap xs i j) = mset xs"
  by (simp add: heap_Swap_def mset_swap)

lemma swap_length [simp]: "length (heap_Swap xs i j) = length xs"
  by (simp add: heap_Swap_def)

lemma swap_nth:
  "i < length xs \<Longrightarrow> j < length xs \<Longrightarrow> heap_Swap xs i j ! k = (if k = j then xs ! i else if k = i then xs ! j else xs ! k)"
  by (auto simp: heap_Swap_def nth_list_update)

lemma sifting_swap:
  assumes s: "sifting f m i xs" and mi: "m \<le> i" and j: "j = 2 * i + 1 \<or> j = 2 * i + 2" "j < length xs"
    and top: "\<And>k. k = 2 * i + 1 \<or> k = 2 * i + 2 \<Longrightarrow> k < length xs \<Longrightarrow> f (xs ! k) \<le> f (xs ! j)" and lt: "f (xs ! i) < f (xs ! j)"
  shows "sifting f m j (heap_Swap xs i j)"
proof -
  have i: "i < length xs" "i \<noteq> j" using j by auto
  note n = swap_nth[OF i(1) j(2)]
  have 1: "f (heap_Swap xs i j ! k) \<le> f (heap_Swap xs i j ! p)"
    if p: "m \<le> p" "p \<noteq> j" "k = 2 * p + 1 \<or> k = 2 * p + 2" "k < length xs" for p k
  proof (cases "p = i")
    case True
    then show ?thesis using p top[of k] lt i by (auto simp: n)
  next
    case False
    have kj: "k \<noteq> j" using False p(3) j(1) by presburger
    show ?thesis
    proof (cases "k = i")
      case True
      then have "f (xs ! j) \<le> f (xs ! p)" using s p j unfolding sifting_def by blast
      then show ?thesis using True False p i by (simp add: n)
    next
      case ki: False
      have "f (xs ! k) \<le> f (xs ! p)" using s p False unfolding sifting_def by blast
      then show ?thesis using False p ki kj by (simp add: n)
    qed
  qed
  have 2: "f (heap_Swap xs i j ! k) \<le> f (heap_Swap xs i j ! p)"
    if p: "m \<le> p" "j = 2 * p + 1 \<or> j = 2 * p + 2" "k = 2 * j + 1 \<or> k = 2 * j + 2" "k < length xs" for p k
  proof -
    have pi: "p = i" using p(2) j(1) by presburger
    have "k \<noteq> j" "k \<noteq> i" using p(3) j(1) by presburger+
    moreover have "f (xs ! k) \<le> f (xs ! j)" using s p mi j(1) i(2) unfolding sifting_def by (metis le_add1 le_trans mult_2 nat_le_linear trans_le_add1)
    ultimately show ?thesis using pi i by (simp add: n)
  qed
  show ?thesis unfolding sifting_def using 1 2 by simp
qed

lemma heap_down_ok:
  assumes "sifting f m i xs" "m \<le> i" "i < length xs"
  shows "\<exists>ys k. heap_down (by_key f) (length xs) xs i = Inr (ys, k) \<and> mset ys = mset xs \<and> heap_from f m ys"
  using assms
proof (induction "length xs - i" arbitrary: xs i rule: less_induct)
  case less
  let ?j1 = "2 * i + 1" and ?j2 = "2 * i + 2"
  have stop: "heap_from f m xs" if "\<And>k. k = ?j1 \<or> k = ?j2 \<Longrightarrow> k < length xs \<Longrightarrow> f (xs ! k) \<le> f (xs ! i)"
    using less.prems(1) that unfolding heap_from_def sifting_def by metis
  show ?case
  proof (cases "length xs \<le> ?j1")
    case True
    then show ?thesis using stop by (subst heap_down.simps) auto
  next
    case False
    define j where "j = (if ?j2 < length xs \<and> f (xs ! ?j1) < f (xs ! ?j2) then ?j2 else ?j1)"
    have j: "j = ?j1 \<or> j = ?j2" "j < length xs" using False by (auto simp: j_def)
    have top: "f (xs ! k) \<le> f (xs ! j)" if "k = ?j1 \<or> k = ?j2" "k < length xs" for k using that by (auto simp: j_def)
    have step: "heap_down (by_key f) (length xs) xs i =
        (if \<not> f (xs ! i) < f (xs ! j) then Inr (xs, i) else heap_down (by_key f) (length xs) (heap_Swap xs i j) j)"
      using False by (subst heap_down.simps) (simp add: Let_def heapComparator_def by_key_def j_def)
    show ?thesis
    proof (cases "f (xs ! i) < f (xs ! j)")
      case False
      then have "heap_from f m xs" using top by (intro stop) force
      then show ?thesis using step False by simp
    next
      case True
      have "sifting f m j (heap_Swap xs i j)" by (rule sifting_swap[OF less.prems(1,2) j top True])
      moreover have "length (heap_Swap xs i j) - j < length xs - i" "m \<le> j" "j < length (heap_Swap xs i j)" using j less.prems by auto
      ultimately obtain ys k where "heap_down (by_key f) (length (heap_Swap xs i j)) (heap_Swap xs i j) j = Inr (ys, k)"
        "mset ys = mset (heap_Swap xs i j)" "heap_from f m ys" using less.hyps[of "heap_Swap xs i j" j] by blast
      then show ?thesis using step True swap_mset[OF less.prems(3) j(2)] by simp
    qed
  qed
qed

lemma heap_from_sifting: "heap_from f (Suc i) xs \<Longrightarrow> sifting f i i xs"
proof -
  assume h: "heap_from f (Suc i) xs"
  have "f (xs ! j) \<le> f (xs ! p)" if "i \<le> p" "p \<noteq> i" "j = 2 * p + 1 \<or> j = 2 * p + 2" "j < length xs" for p j
  proof -
    have "Suc i \<le> p" using that by simp
    then show ?thesis using h that(3,4) unfolding heap_from_def by blast
  qed
  moreover have "\<not> (i \<le> p \<and> (i = 2 * p + 1 \<or> i = 2 * p + 2))" for p by presburger
  ultimately show ?thesis unfolding sifting_def by blast
qed

lemma UpdateItemsLoop_by_key:
  "items \<noteq> [] \<Longrightarrow> UpdateItemsLoop (by_key f) (evt # ch) items =
     (if f evt < f (items ! 0) then go_bind (heap_Fix (by_key f) (items[0 := evt]) 0) (\<lambda>items. UpdateItemsLoop (by_key f) ch items)
      else UpdateItemsLoop (by_key f) ch items)"
  by (simp add: by_key_def)

lemma heap_Init_loop_ok:
  "heap_from f k xs \<Longrightarrow> k \<le> length xs \<Longrightarrow> \<exists>ys. heap_Init_loop (by_key f) k xs = Inr ys \<and> mset ys = mset xs \<and> heap_from f 0 ys"
proof (induction k arbitrary: xs)
  case (Suc k)
  obtain ys i where ys: "heap_down (by_key f) (length xs) xs k = Inr (ys, i)" "mset ys = mset xs" "heap_from f k ys"
    using heap_down_ok[OF heap_from_sifting[OF Suc.prems(1)]] Suc.prems(2) by auto
  have "k \<le> length ys" using Suc.prems(2) mset_eq_length[OF ys(2)] by simp
  from Suc.IH[OF ys(3) this] show ?case using ys by auto
qed simp

lemma heap_Init_ok: "\<exists>ys. heap_Init (by_key f) xs = Inr ys \<and> mset ys = mset xs \<and> heap_from f 0 ys"
proof -
  have "heap_from f (length xs div 2) xs" unfolding heap_from_def by presburger
  then show ?thesis unfolding heap_Init_def by (rule heap_Init_loop_ok) simp
qed

lemma heap_root: "heap_from f 0 xs \<Longrightarrow> j < length xs \<Longrightarrow> f (xs ! j) \<le> f (xs ! 0)"
proof (induction j rule: less_induct)
  case (less j)
  show ?case
  proof (cases "j = 0")
    case False
    let ?p = "(j - 1) div 2"
    have p: "?p < j" "j = 2 * ?p + 1 \<or> j = 2 * ?p + 2" using False by presburger+
    then have "f (xs ! j) \<le> f (xs ! ?p)" using less.prems unfolding heap_from_def by blast
    also have "\<dots> \<le> f (xs ! 0)" using less p by simp
    finally show ?thesis .
  qed simp
qed

lemma heap_max: "heap_from f 0 xs \<Longrightarrow> x \<in> set xs \<Longrightarrow> f x \<le> f (xs ! 0)"
  using heap_root by (metis in_set_conv_nth)

text \<open>Replacing the root and fixing the heap.\<close>

lemma heap_Fix_ok:
  assumes "heap_from f 0 xs" "xs \<noteq> []"
  shows "\<exists>ys. heap_Fix (by_key f) (xs[0 := x]) 0 = Inr ys \<and> mset ys = add_mset x (mset xs - {#xs ! 0#}) \<and> heap_from f 0 ys"
proof -
  have "heap_from f (Suc 0) (xs[0 := x])" using assms(1) unfolding heap_from_def by (auto simp: nth_list_update)
  then obtain ys k where "heap_down (by_key f) (length (xs[0 := x])) (xs[0 := x]) 0 = Inr (ys, k)" "mset ys = mset (xs[0 := x])" "heap_from f 0 ys"
    using heap_down_ok[OF heap_from_sifting, of f 0 "xs[0 := x]"] assms(2) by auto
  moreover have "heap_up (by_key f) ys 0 = Inr ys" by (subst heap_up.simps) simp
  ultimately show ?thesis using assms(2) by (auto simp: heap_Fix_def mset_update)
qed

subsection \<open>The smallest records\<close>

text \<open>\<open>smallest f ys xs\<close>: \<open>ys\<close> are records of \<open>xs\<close> and no record that is left out is below one of them.\<close>

definition smallest :: "('a \<Rightarrow> int) \<Rightarrow> 'a list \<Rightarrow> 'a multiset \<Rightarrow> bool" where
  "smallest f ys xs \<longleftrightarrow> (\<exists>rest. xs = mset ys + rest \<and> (\<forall>x \<in># rest. \<forall>y \<in> set ys. f y \<le> f x))"

lemma UpdateItemsLoop_ok:
  assumes "heap_from f 0 items" "items \<noteq> []" "smallest f items xs"
  shows "\<exists>ys. UpdateItemsLoop (by_key f) ch items = Inr ys \<and> length ys = length items \<and> smallest f ys (xs + mset ch)"
  using assms
proof (induction ch arbitrary: items xs)
  case (Cons evt ch)
  obtain rest where rest: "xs = mset items + rest" "\<forall>x \<in># rest. \<forall>y \<in> set items. f y \<le> f x" using Cons.prems(3) by (auto simp: smallest_def)
  note top = heap_max[OF Cons.prems(1)]
  let ?r = "items ! 0"
  have r: "?r \<in> set items" using Cons.prems(2) by simp
  show ?case
  proof (cases "f evt < f ?r")
    case False
    have "smallest f items (xs + {#evt#})" unfolding smallest_def
    proof (intro exI conjI ballI)
      show "xs + {#evt#} = mset items + add_mset evt rest" using rest(1) by simp
      show "f y \<le> f x" if "x \<in># add_mset evt rest" "y \<in> set items" for x y
        using that rest(2) False top[OF that(2)] by auto
    qed
    from Cons.IH[OF Cons.prems(1,2) this] show ?thesis using False Cons.prems(2) by (simp add: UpdateItemsLoop_by_key del: UpdateItemsLoop.simps)
  next
    case True
    obtain ys where ys: "heap_Fix (by_key f) (items[0 := evt]) 0 = Inr ys" "mset ys = add_mset evt (mset items - {#?r#})" "heap_from f 0 ys"
      using heap_Fix_ok[OF Cons.prems(1,2)] by blast
    have items: "mset items = add_mset ?r (mset items - {#?r#})" using r by simp
    then have len: "length ys = length items" using ys(2) by (metis size_add_mset size_mset)
    have sub: "y = evt \<or> y \<in> set items" if "y \<in> set ys" for y
      using that ys(2) by (metis in_diffD insert_iff set_mset_add_mset_insert set_mset_mset)
    have "smallest f ys (xs + {#evt#})" unfolding smallest_def
    proof (intro exI conjI ballI)
      show "xs + {#evt#} = mset ys + add_mset ?r rest" using rest(1) ys(2) items by (metis add_mset_add_single union_mset_add_mset_left union_mset_add_mset_right)
      show "f y \<le> f x" if "x \<in># add_mset ?r rest" "y \<in> set ys" for x y
      proof -
        have "f y \<le> f ?r" using sub[OF that(2)] True top by auto
        moreover have "f ?r \<le> f x" using that(1) rest(2) r by auto
        ultimately show ?thesis by simp
      qed
    qed
    moreover have "ys \<noteq> []" using len Cons.prems(2) by auto
    ultimately obtain zs where "UpdateItemsLoop (by_key f) ch ys = Inr zs" "length zs = length ys" "smallest f zs (xs + {#evt#} + mset ch)"
      using Cons.IH[OF ys(3)] by blast
    then show ?thesis using ys(1) len True Cons.prems(2) by (simp add: UpdateItemsLoop_by_key del: UpdateItemsLoop.simps)
  qed
qed (simp add: smallest_def)

text \<open>What \<open>sort.Slice\<close> promises: for a consistent comparison a sorted permutation.\<close>

definition sort_Slice :: "'a sorter \<Rightarrow> bool" where
  "sort_Slice srt \<longleftrightarrow> (\<forall>f xs. \<exists>ys. srt (by_key f) xs = Inr ys \<and> mset ys = mset xs \<and> sorted (map f ys))"

lemma smallest_keys:
  assumes "smallest f ys xs" "sorted (map f ys)"
  shows "map f ys = take (length ys) (sorted_list_of_multiset (image_mset f xs))"
proof -
  obtain rest where r: "xs = mset ys + rest" "\<forall>x \<in># rest. \<forall>y \<in> set ys. f y \<le> f x" using assms(1) by (auto simp: smallest_def)
  let ?r = "sorted_list_of_multiset (image_mset f rest)"
  have "mset (map f ys @ ?r) = image_mset f xs" using r(1) by simp
  moreover have "sorted (map f ys @ ?r)" using assms(2) r(2) by (auto simp: sorted_append)
  ultimately have "map f ys @ ?r = sorted_list_of_multiset (image_mset f xs)"
    by (metis properties_for_sort sorted_list_of_multiset_mset sorted_sort_id)
  then show ?thesis by (metis append_eq_conv_conj length_map)
qed

lemma sort_items_ok:
  assumes "0 \<le> sint offset" "sint offset + sint rows < 2 ^ 63"
  shows "\<exists>items. sort_items (by_key f) offset rows xs = Inr items \<and> smallest f items (mset xs) \<and>
    length items = (if 0 < sint rows then min (length xs) (nat (sint offset + sint rows)) else length xs)"
proof (cases "0 < sint rows")
  case False
  then show ?thesis by (simp add: sort_items_def smallest_def)
next
  case True
  let ?n = "nat (sint offset + sint rows)"
  have "sint (offset + rows) = sint offset + sint rows"
    using assms True by (simp add: signed_take_bit_int_eq_self sint_word_ariths)
  then have n: "fill_count offset rows = ?n" by (simp add: fill_count_def)
  obtain items where i: "heap_Init (by_key f) (take ?n xs) = Inr items" "mset items = mset (take ?n xs)" "heap_from f 0 items"
    using heap_Init_ok by blast
  have len: "length items = min (length xs) ?n" using mset_eq_length[OF i(2)] by simp
  show ?thesis
  proof (cases "xs = []")
    case True
    then show ?thesis using i len \<open>0 < sint rows\<close> n by (simp add: sort_items_def smallest_def)
  next
    case False
    have "smallest f items (mset (take ?n xs))" using i(2) by (simp add: smallest_def)
    moreover have "0 < ?n" using True assms(1) by simp
    then have "length items \<noteq> 0" using len False by (simp add: min_def)
    then have "items \<noteq> []" by simp
    ultimately obtain ys where "UpdateItemsLoop (by_key f) (drop ?n xs) items = Inr ys" "length ys = length items"
      "smallest f ys (mset (take ?n xs) + mset (drop ?n xs))" using UpdateItemsLoop_ok[OF i(3)] by blast
    moreover have "mset (take ?n xs) + mset (drop ?n xs) = mset xs" by (metis append_take_drop_id mset_append)
    ultimately show ?thesis using i(1) len True n by (simp add: sort_items_def)
  qed
qed

text \<open>The keys of what is sent, as SQL would say it.\<close>

definition window :: "int \<Rightarrow> int \<Rightarrow> 'a list \<Rightarrow> 'a list" where
  "window offset rows xs = (if 0 < rows then take (nat rows) (drop (nat offset) xs) else drop (nat offset) xs)"

lemma sortAndLimit_ok:
  assumes "sort_Slice srt" "0 \<le> sint offset" "sint offset + sint rows < 2 ^ 63"
  shows "\<exists>out. sortAndLimit srt (Some (by_key f)) offset rows xs = Inr out \<and> mset out \<subseteq># mset xs \<and>
    map f out = window (sint offset) (sint rows) (sort (map f xs))"
proof -
  let ?o = "nat (sint offset)" and ?r = "sint rows"
  obtain items where i: "sort_items (by_key f) offset rows xs = Inr items" "smallest f items (mset xs)"
    "length items = (if 0 < ?r then min (length xs) (nat (sint offset + ?r)) else length xs)" using sort_items_ok[OF assms(2,3)] by blast
  obtain ys where y: "srt (by_key f) items = Inr ys" "mset ys = mset items" "sorted (map f ys)" using assms(1) unfolding sort_Slice_def by blast
  have "smallest f ys (mset xs)" using i(2) y(2) mset_eq_setD[OF y(2)] by (simp add: smallest_def)
  from smallest_keys[OF this y(3)] have keys: "map f ys = take (length ys) (sort (map f xs))"
    by (metis mset_map sorted_list_of_multiset_mset)
  have ly: "length ys = length items" using mset_eq_length[OF y(2)] .
  have sub: "mset (drop ?o ys) \<subseteq># mset xs"
  proof -
    have "mset (drop ?o ys) \<subseteq># mset ys" by (metis append_take_drop_id mset_append mset_subset_eq_add_right)
    moreover have "mset ys \<subseteq># mset xs" using i(2) y(2) by (auto simp: smallest_def)
    ultimately show ?thesis by (rule subset_mset.order_trans)
  qed
  have res: "sortAndLimit srt (Some (by_key f)) offset rows xs = Inr (drop ?o ys)"
    using i(1) y(1) assms(2) by (simp add: sortAndLimit_def)
  have "map f (drop ?o ys) = drop ?o (take (length ys) (sort (map f xs)))" by (simp add: drop_map keys[symmetric])
  also have "\<dots> = window (sint offset) ?r (sort (map f xs))"
  proof (cases "0 < ?r")
    case True
    then have "nat (sint offset + ?r) = ?o + nat ?r" using assms(2) by simp
    then show ?thesis using True ly i(3) by (simp add: window_def take_drop min_def add.commute)
  next
    case False
    then show ?thesis using ly i(3) by (simp add: window_def)
  qed
  finally show ?thesis using res sub by blast
qed

text \<open>A comparison that always panics: sorting two records or more panics.\<close>

definition sort_compares :: "'a sorter \<Rightarrow> bool" where
  "sort_compares srt \<longleftrightarrow> (\<forall>e xs. 2 \<le> length xs \<longrightarrow> srt (\<lambda>x y. Inl e) xs = Inl e)"

text \<open>An instance of \<open>sort.Slice\<close>: insertion, as it does for short slices.\<close>

fun insert_by :: "'a comparator \<Rightarrow> 'a \<Rightarrow> 'a list \<Rightarrow> 'a list go" where
  "insert_by c x [] = Inr [x]"
| "insert_by c x (y # ys) = go_bind (c y x) (\<lambda>b. if b then go_bind (insert_by c x ys) (\<lambda>zs. Inr (y # zs)) else Inr (x # y # ys))"

fun insertion_sort :: "'a sorter" where
  "insertion_sort c [] = Inr []"
| "insertion_sort c (x # xs) = go_bind (insertion_sort c xs) (\<lambda>ys. insert_by c x ys)"

lemma insert_by_ok:
  "sorted (map f ys) \<Longrightarrow> \<exists>zs. insert_by (by_key f) x ys = Inr zs \<and> mset zs = add_mset x (mset ys) \<and> sorted (map f zs)"
proof (induction ys)
  case (Cons y ys)
  then obtain zs where z: "insert_by (by_key f) x ys = Inr zs" "mset zs = add_mset x (mset ys)" "sorted (map f zs)" by auto
  have "set zs = insert x (set ys)" using arg_cong[OF z(2), of set_mset] by simp
  moreover have "insert_by (by_key f) x (y # ys) = (if f y < f x then go_bind (insert_by (by_key f) x ys) (\<lambda>zs. Inr (y # zs)) else Inr (x # y # ys))"
    by (simp add: by_key_def)
  ultimately show ?case using z Cons.prems by (cases "f y < f x") (auto simp del: insert_by.simps)
qed simp

lemma insertion_sort_ok: "sort_Slice insertion_sort"
proof -
  have "\<exists>ys. insertion_sort (by_key f) xs = Inr ys \<and> mset ys = mset xs \<and> sorted (map f ys)" for f and xs :: "'a list"
  proof (induction xs)
    case (Cons x xs)
    then obtain ys where "insertion_sort (by_key f) xs = Inr ys" "mset ys = mset xs" "sorted (map f ys)" by blast
    moreover from insert_by_ok[OF this(3), of x] obtain zs where
      "insert_by (by_key f) x ys = Inr zs" "mset zs = add_mset x (mset ys)" "sorted (map f zs)" by blast
    ultimately show ?case by simp
  qed simp
  then show ?thesis by (simp add: sort_Slice_def)
qed

lemma insertion_sort_compares: "sort_compares insertion_sort"
proof -
  have "insertion_sort (\<lambda>x y. Inl e) (x # y # zs) = Inl e" for e x y and zs :: "'a list"
    by (induction zs arbitrary: x y) auto
  then show ?thesis unfolding sort_compares_def by (metis Suc_le_length_iff numeral_2_eq_2)
qed

end
