(* ===== verification/CallSearch.thy ===== *)
theory CallSearch
  imports Handlers TopN Query ServerRun
begin

section \<open>CallSearch: searching function calls (\<open>func-call/search\<close> in \<open>tracer/restapi/handlers.go\<close>, \<open>structs.go\<close>)\<close>

text \<open>
  A search reads the calls of a log, drops those that a filter rejects, sorts and limits the rest, and
  sends them to the client. The stages are goroutines joined by channels; each stage is a function from the records
  it receives to those it passes on. When the reader or the sender fails, the others are cancelled at
  some point: \<open>se_cut\<close> says how many records each stage still let through (it matters in that case only).
  A stage works on all it receives; that a later stage which has enough stops the reader early is not visible in what is sent.
\<close>

subsection \<open>Parameters\<close>

definition NoSortKey :: string where "NoSortKey = ''''"
definition SortByID :: string where "SortByID = ''id''"
definition SortByStartTime :: string where "SortByStartTime = ''start-time''"
definition SortByEndTime :: string where "SortByEndTime = ''end-time''"

definition NoSortOrder :: string where "NoSortOrder = ''''"
definition AscendingSortOrder :: string where "AscendingSortOrder = ''asc''"
definition DescendingSortOrder :: string where "DescendingSortOrder = ''desc''"

definition SortKey_Parse :: "string \<Rightarrow> string option" where
  "SortKey_Parse s = (if s \<in> {NoSortKey, SortByID, SortByStartTime, SortByEndTime} then Some s else None)"

definition SortOrder_Parse :: "string \<Rightarrow> string \<Rightarrow> string option" where
  "SortOrder_Parse order defaultOrder =
     (if order = NoSortOrder then Some defaultOrder
      else if order \<in> {AscendingSortOrder, DescendingSortOrder} then Some order
      else None)"

record SearchFuncLogParams =
  sf_Gid :: GID
  sf_MinId :: FuncLogID
  sf_MaxId :: FuncLogID
  sf_MinTimestamp :: Time
  sf_MaxTimestamp :: Time
  sf_Limit :: int64
  sf_SortKey :: string
  sf_SortOrder :: string
  sf_Sql :: string

definition param :: "string \<Rightarrow> bool \<Rightarrow> string \<Rightarrow> (string \<rightharpoonup> string) \<Rightarrow> (string \<rightharpoonup> string)" where
  "param name given val m = (if given then m(name \<mapsto> val) else m)"

definition ToParamMap :: "SearchFuncLogParams \<Rightarrow> (string \<rightharpoonup> string)" where
  "ToParamMap s =
     (param ''sql'' (sf_Sql s \<noteq> []) (sf_Sql s)
     (param ''order'' (sf_SortOrder s \<noteq> NoSortOrder) (sf_SortOrder s)
     (param ''sort'' (sf_SortKey s \<noteq> NoSortKey) (sf_SortKey s)
     (param ''limit'' (sf_Limit s \<noteq> 0) (FormatInt (sf_Limit s))
     (param ''max-timestamp'' (sf_MaxTimestamp s \<noteq> 0) (Time_NumberString (sf_MaxTimestamp s))
     (param ''min-timestamp'' (sf_MinTimestamp s \<noteq> 0) (Time_NumberString (sf_MinTimestamp s))
     (param ''max-id'' (sf_MaxId s \<noteq> 0) (FuncLogID_String (sf_MaxId s))
     (param ''min-id'' (sf_MinId s \<noteq> 0) (FuncLogID_String (sf_MinId s))
     (param ''gid'' (sf_Gid s \<noteq> 0) (GID_String (sf_Gid s)) Map.empty)))))))))"

text \<open>
  \<open>FromString\<close>: a number that is missing is \<open>-1\<close>. The result is the name of the first parameter that is not valid, or
  the parameters.
\<close>

definition parse_field :: "string \<Rightarrow> (string \<Rightarrow> 'v option) \<Rightarrow> string \<Rightarrow> 'v \<Rightarrow> ('v \<Rightarrow> string + 'r) \<Rightarrow> string + 'r" where
  "parse_field name parse s dflt k =
     (if s = [] then k dflt else case parse s of None \<Rightarrow> Inl name | Some v \<Rightarrow> k v)"

definition no_error :: "'v \<times> num_error option \<Rightarrow> 'v option" where
  "no_error = (\<lambda>(v, e). if e = None then Some v else None)"

definition FromString ::
  "string \<Rightarrow> string \<Rightarrow> string \<Rightarrow> string \<Rightarrow> string \<Rightarrow> string \<Rightarrow> string \<Rightarrow> string \<Rightarrow> string \<Rightarrow> string + SearchFuncLogParams" where
  "FromString gid minId maxId minTs maxTs limit key order sql =
     parse_field ''gid'' (\<lambda>s. no_error (GID_FromString (- 1) s)) gid (- 1) (\<lambda>gid.
     parse_field ''min-id'' (\<lambda>s. no_error (FuncLogID_FromString (- 1) s)) minId (- 1) (\<lambda>minId.
     parse_field ''max-id'' (\<lambda>s. no_error (FuncLogID_FromString (- 1) s)) maxId (- 1) (\<lambda>maxId.
     parse_field ''min-timestamp'' (\<lambda>s. no_error (Time_FromNumberString (- 1) s)) minTs (- 1) (\<lambda>minTs.
     parse_field ''max-timestamp'' (\<lambda>s. no_error (Time_FromNumberString (- 1) s)) maxTs (- 1) (\<lambda>maxTs.
     parse_field ''limit'' (\<lambda>s. no_error (ParseInt s)) limit (- 1) (\<lambda>limit.
     parse_field ''sort'' SortKey_Parse key [] (\<lambda>key.
     parse_field ''order'' (\<lambda>s. SortOrder_Parse s AscendingSortOrder) order AscendingSortOrder (\<lambda>order.
     Inr \<lparr>sf_Gid = gid, sf_MinId = minId, sf_MaxId = maxId, sf_MinTimestamp = minTs, sf_MaxTimestamp = maxTs, sf_Limit = limit,
          sf_SortKey = key, sf_SortOrder = order, sf_Sql = sql\<rparr>))))))))"

definition query_params :: "(string \<Rightarrow> string) \<Rightarrow> string + SearchFuncLogParams" where
  "query_params q =
     FromString (q ''gid'') (q ''min-id'') (q ''max-id'') (q ''min-timestamp'') (q ''max-timestamp'') (q ''limit'') (q ''sort'') (q ''order'') (q ''sql'')"

subsection \<open>The stages\<close>

text \<open>
  What the handlers use beside the log: the libraries, \<open>sort.Slice\<close>, the order of Go's iteration over the calls of a
  simulator, the texts of errors and panics, and where a cancelled pipeline stopped.
\<close>

record search_env =
  se_log :: log_libs
  se_sql :: sql_libs
  se_time :: "Time \<Rightarrow> string"
  se_parser :: "string \<Rightarrow> Select option option"
  se_eqs :: "string \<Rightarrow> string \<Rightarrow> bool"
  se_error :: "parse_error \<Rightarrow> string"
  se_panic :: "fault \<Rightarrow> string"
  se_sort :: "FuncLog sorter"
  se_order :: "StateSimulator \<Rightarrow> FuncLogID list"
  se_cut :: "nat \<times> nat"

definition lower_id :: "FuncLogID \<Rightarrow> FuncLogID" where
  "lower_id minId = (if sint minId < 0 then 0 else minId)"

definition upper_id :: "FuncLogID \<Rightarrow> Store \<Rightarrow> FuncLogID" where
  "upper_id maxId st = (if sint maxId < 0 \<or> Records st < sint maxId then word_of_int (Records st) else maxId)"

text \<open>
  The calls of the file, then those of the simulator that are not in the file yet. The record that a call is
  read into comes from a pool and has room for \<open>MaxStackSize\<close> frames. The stages that follow take the records in any case; the error goes to \<open>wait\<close>.
\<close>

definition readFuncLog ::
  "search_env \<Rightarrow> StateSimulatorStore \<Rightarrow> FuncLogID \<Rightarrow> FuncLogID \<Rightarrow> world \<Rightarrow> 'u Log \<Rightarrow>
   ((error option \<times> FuncLog list) \<times> 'u Log \<times> world) go" where
  "readFuncLog E sims minId maxId w l =
     go_bind (Log_FuncLog (\<lambda>w st.
         go_bind (get_each (FuncLog_GetNolock MaxStackSize) (nat (sint (upper_id maxId st) - sint (lower_id minId))) (lower_id minId) w st) (\<lambda>((e, fls), st', w).
         Inr ((e, fls, upper_id maxId st), st', w))) w l) (\<lambda>((e, fls, maxId), l, w).
     if e \<noteq> None then Inr ((e, fls), l, w)
     else case SSStore_Get sims (lg_ID l) of
            None \<Rightarrow> Inr ((None, fls), l, w)
          | Some ss \<Rightarrow>
              go_bind (Simulator_FuncLogs True ss (se_order E ss)) (\<lambda>more.
              Inr ((None, fls @ filter (\<lambda>fl. \<not> sint (fl_ID fl) < sint maxId) more), l, w)))"

text \<open>The filter runs in a goroutine of its own: when it panics, so does the program.\<close>

fun filter_loop :: "(FuncLog \<Rightarrow> 's \<Rightarrow> (bool \<times> 's) go) \<Rightarrow> FuncLog list \<Rightarrow> 's \<Rightarrow> (FuncLog list \<times> 's) go" where
  "filter_loop isFiltered [] s = Inr ([], s)"
| "filter_loop isFiltered (evt # ch) s =
     go_bind (isFiltered evt s) (\<lambda>(drop, s).
     go_bind (filter_loop isFiltered ch s) (\<lambda>(rest, s). Inr (if drop then rest else evt # rest, s)))"

definition filterFuncLog :: "(FuncLog \<Rightarrow> 's \<Rightarrow> (bool \<times> 's) go) option \<Rightarrow> FuncLog list \<Rightarrow> 's \<Rightarrow> (FuncLog list \<times> 's) go" where
  "filterFuncLog isFiltered ch s = (case isFiltered of None \<Rightarrow> Inr (ch, s) | Some f \<Rightarrow> filter_loop f ch s)"

text \<open>\<open>sendTo\<close>: a send that fails or panics ends it with an error; \<open>send\<close> says whether it succeeded.\<close>

fun sendTo :: "(FuncLog \<Rightarrow> 's \<Rightarrow> (bool \<times> 's) go) \<Rightarrow> FuncLog list \<Rightarrow> 's \<Rightarrow> (bool \<times> 's) go" where
  "sendTo send [] s = Inr (True, s)"
| "sendTo send (evt # ch) s =
     (case send evt s of
        Inl Deadlock \<Rightarrow> Inl Deadlock
      | Inl f \<Rightarrow> Inr (False, s)
      | Inr (ok, s) \<Rightarrow> if ok then sendTo send ch s else Inr (False, s))"

definition json_send :: "FuncLog \<Rightarrow> writer \<Rightarrow> (bool \<times> writer) go" where
  "json_send fl wr = Inr (wr_write (WriteJson (JFuncLog fl)) wr)"

text \<open>The whole pipeline, from the reader to the sender.\<close>

definition pipeline ::
  "search_env \<Rightarrow> StateSimulatorStore \<Rightarrow> FuncLogID \<Rightarrow> FuncLogID \<Rightarrow>
   (FuncLog \<Rightarrow> 's \<Rightarrow> (bool \<times> 's) go) option \<Rightarrow> FuncLog comparator option \<Rightarrow> int64 \<Rightarrow> int64 \<Rightarrow> (FuncLog \<Rightarrow> 'w \<Rightarrow> (bool \<times> 'w) go) \<Rightarrow>
   's \<Rightarrow> world \<Rightarrow> 'u Log \<Rightarrow> 'w \<Rightarrow> ('u Log \<times> world \<times> 'w) go" where
  "pipeline E sims minId maxId isFiltered sortFn offset rows send s w l wr =
     go_bind (readFuncLog E sims minId maxId w l) (\<lambda>((e, fls), l, w).
     go_bind (filterFuncLog isFiltered fls s) (\<lambda>(hits, s).
     go_bind (sortAndLimit (se_sort E) sortFn offset rows (if e = None then hits else take (fst (se_cut E)) hits)) (\<lambda>out.
     go_bind (sendTo send (if e = None then out else take (snd (se_cut E)) out) wr) (\<lambda>(_, wr). Inr (l, w, wr)))))"

subsection \<open>Searching with simple parameters\<close>

definition sort_less :: "string \<Rightarrow> FuncLog comparator option go" where
  "sort_less key =
     (if key = SortByID then Inr (Some (\<lambda>x y. Inr (sint (fl_ID x) < sint (fl_ID y))))
      else if key = SortByStartTime then Inr (Some (\<lambda>x y. Inr (sint (fl_StartTime x) < sint (fl_StartTime y))))
      else if key = SortByEndTime then Inr (Some (\<lambda>x y. Inr (sint (fl_EndTime x) < sint (fl_EndTime y))))
      else if key = NoSortKey then Inr None
      else Inl (Panic ''bug''))"

text \<open>Descending order wraps the function, also when it is nil: calling the wrapper then panics.\<close>

definition sort_direction :: "string \<Rightarrow> FuncLog comparator option \<Rightarrow> FuncLog comparator option go" where
  "sort_direction order sortFn =
     (if order = AscendingSortOrder then Inr sortFn
      else if order = DescendingSortOrder
      then Inr (Some (\<lambda>x y. case sortFn of None \<Rightarrow> Inl NilDereference | Some f \<Rightarrow> f y x))
      else Inl (Panic ''bug''))"

definition has_range :: "SearchFuncLogParams \<Rightarrow> bool" where
  "has_range p \<longleftrightarrow> 0 \<le> sint (sf_MinId p) \<or> 0 \<le> sint (sf_MaxId p) \<or> 0 \<le> sint (sf_MinTimestamp p) \<or> 0 \<le> sint (sf_MaxTimestamp p)"

record narrow =
  nr_found :: bool
  nr_min :: FuncLogID
  nr_max :: FuncLogID

definition narrow_step :: "SearchFuncLogParams \<Rightarrow> narrow \<Rightarrow> IndexRecord \<Rightarrow> narrow" where
  "narrow_step p n ir =
     (if \<not> IsOverlapID ir (sf_MinId p) (sf_MaxId p) \<or> \<not> IsOverlapTime ir (sf_MinTimestamp p) (sf_MaxTimestamp p) then n
      else \<lparr>nr_found = True,
        nr_min = if sint (MinID ir) < sint (nr_min n) then MinID ir else nr_min n,
        nr_max = if sint (nr_max n) < sint (MaxID ir) then MaxID ir else nr_max n\<rparr>)"

text \<open>
  Narrowing the range by the index: \<open>None\<close> when no record of the index overlaps it, a panic when those that do reach
  out of it. The first use of the index loads it.
\<close>

definition narrow_range :: "log_libs \<Rightarrow> SearchFuncLogParams \<Rightarrow> world \<Rightarrow> 'u Log \<Rightarrow> (SearchFuncLogParams option \<times> 'u Log \<times> world) go" where
  "narrow_range L p w l =
     (let p = p\<lparr>sf_MinId := if sint (sf_MinId p) < 0 then 0 else sf_MinId p,
               sf_MaxId := if sint (sf_MaxId p) < 0 then MaxInt64 else sf_MaxId p\<rparr> in
      case lg_index l of
        None \<Rightarrow> Inl NilDereference
      | Some idx \<Rightarrow>
          go_bind (Index_Len (ll_index_dec L) w idx) (\<lambda>(_, idx, w).
          let l = l\<lparr>lg_index := Some idx\<rparr>;
              n = foldl (narrow_step p) \<lparr>nr_found = False, nr_min = MaxInt64, nr_max = MinInt64\<rparr> (idx_list idx) in
          if \<not> nr_found n then Inr (None, l, w)
          else if sint (nr_min n) < sint (sf_MinId p) \<or> sint (sf_MaxId p) < sint (nr_max n) then Inl (Panic ''assertion error'')
          else Inr (Some (p\<lparr>sf_MinId := nr_min n, sf_MaxId := nr_max n\<rparr>), l, w)))"

definition is_filtered :: "SearchFuncLogParams \<Rightarrow> FuncLog \<Rightarrow> bool" where
  "is_filtered p evt \<longleftrightarrow>
     0 \<le> sint (sf_Gid p) \<and> fl_GID evt \<noteq> sf_Gid p \<or>
     0 \<le> sint (sf_MinId p) \<and> sint (fl_ID evt) < sint (sf_MinId p) \<or>
     0 \<le> sint (sf_MaxId p) \<and> sint (sf_MaxId p) < sint (fl_ID evt) \<or>
     0 \<le> sint (sf_MinTimestamp p) \<and> sint (fl_StartTime evt) < sint (sf_MinTimestamp p) \<and> sint (fl_EndTime evt) < sint (sf_MinTimestamp p) \<or>
     0 \<le> sint (sf_MaxTimestamp p) \<and> sint (sf_MaxTimestamp p) < sint (fl_StartTime evt)"

definition simple_filter :: "SearchFuncLogParams \<Rightarrow> (FuncLog \<Rightarrow> unit \<Rightarrow> (bool \<times> unit) go) option" where
  "simple_filter p = (if 0 \<le> sint (sf_Gid p) \<or> has_range p then Some (\<lambda>evt s. Inr (is_filtered p evt, s)) else None)"

definition unsupported :: "string \<Rightarrow> writer \<Rightarrow> writer" where
  "unsupported format wr = http_Error (format @ '' format is not supported'') StatusBadRequest wr"

definition funcCallSearchBySimpleParams ::
  "search_env \<Rightarrow> StateSimulatorStore \<Rightarrow> SearchFuncLogParams \<Rightarrow> string \<Rightarrow>
   world \<Rightarrow> 'u Log \<Rightarrow> writer \<Rightarrow> ('u Log \<times> world \<times> writer) go" where
  "funcCallSearchBySimpleParams E sims p format w l wr =
     go_bind (sort_less (sf_SortKey p)) (\<lambda>sortFn.
     go_bind (sort_direction (sf_SortOrder p) sortFn) (\<lambda>sortFn.
     go_bind (if has_range p then narrow_range (se_log E) p w l else Inr (Some p, l, w)) (\<lambda>(np, l, w).
     case np of
       None \<Rightarrow> Inr (l, w, wr)
     | Some p \<Rightarrow>
         if format = ''json''
         then pipeline E sims (sf_MinId p) (sf_MaxId p) (simple_filter p) sortFn 0 (sf_Limit p) json_send () w l wr
         else Inr (l, w, unsupported format wr))))"

subsection \<open>Searching with SQL\<close>

text \<open>
  The clause is evaluated on a row object of its own; the CSV lines are printed from another one. Both have the pointer
  to the symbols of the log, which the clause and the columns follow; an answer in JSON without a clause has no row object and does not look at it.
\<close>

definition symbols_for :: "bool \<Rightarrow> 'u Log \<Rightarrow> Symbols go" where
  "symbols_for used l = (if used then deref (Log_Symbols l) else Inr \<lparr>sym_Writable = False, sym_data = zero_SymbolsData\<rparr>)"

definition call_row :: "Symbols \<Rightarrow> FuncLog \<Rightarrow> SqlRow" where
  "call_row sy fl = FuncLogRow \<lparr>fr_FuncLog = fl, fr_Symbols = sy, fr_offset = 0\<rparr>"

definition set_call :: "FuncLog \<Rightarrow> SqlRow \<Rightarrow> SqlRow" where
  "set_call fl row = (case row of FuncLogRow r \<Rightarrow> FuncLogRow (r\<lparr>fr_FuncLog := fl\<rparr>) | _ \<Rightarrow> row)"

definition sql_filter :: "sql_libs \<Rightarrow> SqlAny \<Rightarrow> FuncLog \<Rightarrow> sql_state \<Rightarrow> (bool \<times> sql_state) go" where
  "sql_filter L e fl s = go_bind (any_Bool e L [] (s\<lparr>st_row := set_call fl (st_row s)\<rparr>)) (\<lambda>(b, s). Inr (\<not> b, s))"

record csv_writer =
  cw_row :: SqlRow
  cw_conv :: "string option list"
  cw_line :: slice
  cw_out :: writer

definition csv_send :: "(Time \<Rightarrow> string) \<Rightarrow> SqlFieldGetter list \<Rightarrow> FuncLog \<Rightarrow> csv_writer \<Rightarrow> (bool \<times> csv_writer) go" where
  "csv_send ts gs fl cw =
     (let row = set_call fl (cw_row cw) in
      go_bind (Getters_Printer ts gs row (cw_conv cw) (cw_line cw)) (\<lambda>(cs, buf, n).
      go_bind (slice_set buf n 10) (\<lambda>buf.
      go_bind (slice_to buf (n + 1)) (\<lambda>out.
      case wr_write (WriteBytes (sl_bytes out)) (cw_out cw) of
        (ok, wr) \<Rightarrow> Inr (ok, \<lparr>cw_row = row, cw_conv = cs, cw_line = buf, cw_out = wr\<rparr>)))))"

definition funcCallSearchBySql ::
  "search_env \<Rightarrow> StateSimulatorStore \<Rightarrow> FuncLog \<Rightarrow> string \<Rightarrow> string \<Rightarrow> world \<Rightarrow> 'u Log \<Rightarrow> writer \<Rightarrow> ('u Log \<times> world \<times> writer) go" where
  "funcCallSearchBySql E sims fl0 stmt format w l wr =
     go_bind (ParseSelect (se_parser E) (se_eqs E) stmt) (\<lambda>sel.
     case sel of
       Inl err \<Rightarrow> Inr (l, w, http_Error (''invalid sql statement'' @ [char_of (10::nat)] @ se_error E err) StatusBadRequest wr)
     | Inr sp \<Rightarrow>
         go_bind (symbols_for (sp_where sp \<noteq> None \<or> format = ''csv'') l) (\<lambda>sy.
         let s0 = new_state (call_row sy fl0) in
         go_bind (PanicHandler (case sp_where sp of None \<Rightarrow> Inr s0 | Some e \<Rightarrow> any_WithRow e [] s0)) (\<lambda>r.
         case r of
           Inl f \<Rightarrow> Inr (l, w, http_Error (se_panic E f) StatusBadRequest wr)
         | Inr s \<Rightarrow>
             (let isFiltered = map_option (\<lambda>e. sql_filter (se_sql E) e) (sp_where sp) in
              case SelectParser_Limit sp of (offset, rows) \<Rightarrow>
              if format = ''json''
              then pipeline E sims (- 1) (- 1) isFiltered None offset rows json_send s w l wr
              else if format = ''csv''
              then (case wr_write (WriteBytes (header_line (ColNames sp))) wr of
                      (False, wr) \<Rightarrow> Inr (l, w, wr)
                    | (True, wr) \<Rightarrow>
                        go_bind (row_Fields (call_row sy fl0) (sp_fields sp)) (\<lambda>gs.
                        go_bind (pipeline E sims (- 1) (- 1) isFiltered None offset rows (csv_send (se_time E) gs) s w l
                          \<lparr>cw_row = call_row sy fl0, cw_conv = replicate (length gs) None, cw_line = make_slice (64 * 1024), cw_out = wr\<rparr>) (\<lambda>(l, w, cw).
                        Inr (l, w, cw_out cw))))
              else Inr (l, w, unsupported format wr)))))"

text \<open>The handler. \<open>fl0\<close> is the zero call record.\<close>

definition exclusive_params :: "string list" where
  "exclusive_params = [''gid'', ''min-id'', ''max-id'', ''min-timestamp'', ''max-timestamp'', ''limit'', ''sort'', ''order'']"

definition funcCallSearch ::
  "search_env \<Rightarrow> StateSimulatorStore \<Rightarrow> FuncLog \<Rightarrow> request \<Rightarrow> string \<Rightarrow> world \<Rightarrow> 'u Storage \<Rightarrow> writer \<Rightarrow> ('u Storage \<times> world \<times> writer) go" where
  "funcCallSearch E sims fl0 r format w s wr =
     (case getLog r s wr of
        (None, wr) \<Rightarrow> Inr (s, w, wr)
      | (Some (i, ptr), wr) \<Rightarrow>
          (case query_params (rq_query r) of
             Inl name \<Rightarrow> Inr (s, w, http_Error (''invalid '' @ name) StatusBadRequest wr)
           | Inr p \<Rightarrow>
               if sf_Sql p \<noteq> [] then
                 (case filter (\<lambda>name. rq_query r name \<noteq> []) exclusive_params of
                    name # _ \<Rightarrow> Inr (s, w, http_Error (''sql parameter and '' @ name @ '' parameter are mutually exclusive'') StatusBadRequest wr)
                  | [] \<Rightarrow> go_bind (deref ptr) (\<lambda>l.
                      go_bind (funcCallSearchBySql E sims fl0 (sf_Sql p) format w l wr) (\<lambda>(l, w, wr). Inr (put_log i l s, w, wr))))
               else go_bind (deref ptr) (\<lambda>l.
                      go_bind (funcCallSearchBySimpleParams E sims p format w l wr) (\<lambda>(l, w, wr). Inr (put_log i l s, w, wr)))))"

subsection \<open>Reading\<close>

definition call_fits :: "FuncLog \<Rightarrow> bool" where
  "call_fits f \<longleftrightarrow> length (fl_Frames f) \<le> MaxStackSize \<and> 0 \<le> sint (fl_ID f)"

definition holds_calls :: "arrays \<Rightarrow> FuncLog list \<Rightarrow> bool" where
  "holds_calls a fls \<longleftrightarrow> ar_calls a = map (\<lambda>fl. pad SizeFuncLog (enc_FuncLog fl)) fls \<and> list_all call_fits fls \<and> length fls < 2 ^ 63"

lemma read_all_calls:
  assumes st: "log_stores True w l a" and fls: "holds_calls a fls" and n: "Records ((lg_funcLog l)\<lparr>st_locked := True\<rparr>) = int (length fls) \<Longrightarrow> n ((lg_funcLog l)\<lparr>st_locked := True\<rparr>) = length fls"
  shows "\<exists>s w'. with_lock (\<lambda>w st. go_bind (get_each (FuncLog_GetNolock MaxStackSize) (n st) 0 w st) (\<lambda>((e, fls), st', w). Inr ((e, fls, m st), st', w))) w (lg_funcLog l) =
    Inr ((None, fls, m ((lg_funcLog l)\<lparr>st_locked := True\<rparr>)), s, w') \<and> Records ((lg_funcLog l)\<lparr>st_locked := True\<rparr>) = int (length fls)"
proof -
  let ?s = "(lg_funcLog l)\<lparr>st_locked := True\<rparr>"
  have s: "st_ok w (lg_funcLog l)" "\<not> st_locked (lg_funcLog l)" "st_ReadOnly (lg_funcLog l)" "array_of w (lg_funcLog l) = ar_calls a"
    using st by (auto simp: log_stores_def has_store_def store_rel_def)
  then have rec: "Records ?s = int (length fls)" using fls length_array_of[OF s(1)]
    by (simp add: Records_def holds_calls_def)
  have "FuncLog_GetNolock MaxStackSize = (\<lambda>i. ReadNolock (sint i) (decoded (UnmarshalFuncLog MaxStackSize)))"
    by (simp add: fun_eq_iff FuncLog_GetNolock_def)
  moreover obtain s' w' where "get_each (\<lambda>i. ReadNolock (sint i) (decoded (UnmarshalFuncLog MaxStackSize))) (length fls) (word_of_nat 0) w ?s =
      Inr ((None, take (length fls) (drop 0 fls)), s', w')" "same_store ?s s'"
    using funclogs.get_each_nolock[of w ?s fls 0 "length fls"] s fls by (auto simp: can_read_def holds_calls_def call_fits_def[abs_def])
  ultimately have "get_each (FuncLog_GetNolock MaxStackSize) (n ?s) 0 w ?s = Inr ((None, fls), s', w')" using n[OF rec] by simp
  then show ?thesis using rec with_lock_eq[OF s(2)] \<open>same_store ?s s'\<close> by (intro exI conjI) (rule with_lock_eq[OF s(2)], auto)
qed

lemma Log_FuncLog_read:
  assumes "log_stores True w l a" "holds_calls a fls"
  shows "\<exists>s w'. with_lock (\<lambda>w st. go_bind (get_each (FuncLog_GetNolock MaxStackSize) (nat (sint (upper_id (- 1) st) - sint (lower_id (- 1)))) (lower_id (- 1)) w st)
      (\<lambda>((e, fls), st', w). Inr ((e, fls, upper_id (- 1) st), st', w))) w (lg_funcLog l) = Inr ((None, fls, word_of_nat (length fls)), s, w')"
proof -
  have low: "lower_id (- 1) = 0" by (simp add: lower_id_def)
  have up: "upper_id (- 1) st = word_of_nat (length fls)" if "Records st = int (length fls)" for st
    using that by (simp add: upper_id_def)
  have "nat (sint (upper_id (- 1) st) - sint (lower_id (- 1))) = length fls" if "Records st = int (length fls)" for st
    using assms(2) up[OF that] by (simp add: holds_calls_def low signed_of_nat signed_take_bit_int_eq_self)
  from read_all_calls[OF assms this, where m = "upper_id (- 1)"] show ?thesis using up unfolding low by fastforce
qed

lemma readFuncLog_ok:
  assumes "log_stores True w l a" "holds_calls a fls" "SSStore_Get sims (lg_ID l) = None"
  shows "\<exists>s w'. readFuncLog E sims (- 1) (- 1) w l = Inr ((None, fls), l\<lparr>lg_funcLog := s\<rparr>, w')"
  using Log_FuncLog_read[OF assms(1,2)] assms(3) by (auto simp: readFuncLog_def Log_FuncLog_def)

subsection \<open>Filtering, sorting, sending\<close>

lemma filter_pure: "filter_loop (\<lambda>evt s. Inr (p evt, s)) fls s = Inr (filter (\<lambda>x. \<not> p x) fls, s)"
  by (induction fls) auto

lemma sendTo_json:
  "wr_room wr = None \<Longrightarrow> sendTo json_send fls wr = Inr (True, wr\<lparr>wr_out := wr_out wr @ map (\<lambda>fl. WriteJson (JFuncLog fl)) fls\<rparr>)"
  by (induction fls arbitrary: wr) (auto simp: json_send_def wr_write_def)

definition search_key :: "SearchFuncLogParams \<Rightarrow> FuncLog \<Rightarrow> int" where
  "search_key p fl =
     (let k = (if sf_SortKey p = SortByID then sint (fl_ID fl)
               else if sf_SortKey p = SortByStartTime then sint (fl_StartTime fl) else sint (fl_EndTime fl))
      in if sf_SortOrder p = DescendingSortOrder then - k else k)"

lemmas sort_names = SortByID_def SortByStartTime_def SortByEndTime_def AscendingSortOrder_def DescendingSortOrder_def NoSortKey_def

lemma sort_functions:
  assumes "sf_SortKey p \<in> {SortByID, SortByStartTime, SortByEndTime}" "sf_SortOrder p \<in> {AscendingSortOrder, DescendingSortOrder}"
  shows "go_bind (sort_less (sf_SortKey p)) (sort_direction (sf_SortOrder p)) = Inr (Some (by_key (search_key p)))"
  using assms by (auto simp: sort_less_def sort_direction_def search_key_def by_key_def fun_eq_iff sort_names)

definition of_gid :: "SearchFuncLogParams \<Rightarrow> FuncLog \<Rightarrow> bool" where
  "of_gid p fl \<longleftrightarrow> sint (sf_Gid p) < 0 \<or> fl_GID fl = sf_Gid p"

lemma simple_filter_ok:
  assumes "\<not> has_range p"
  shows "filterFuncLog (simple_filter p) fls () = Inr (filter (of_gid p) fls, ())"
proof (cases "0 \<le> sint (sf_Gid p)")
  case True
  have "is_filtered p fl = (\<not> of_gid p fl)" for fl using assms True by (auto simp: is_filtered_def has_range_def of_gid_def)
  then show ?thesis using True filter_pure[of "\<lambda>fl. \<not> of_gid p fl" fls "()"] by (simp add: filterFuncLog_def simple_filter_def)
next
  case False
  then show ?thesis using assms by (simp add: filterFuncLog_def simple_filter_def of_gid_def[abs_def])
qed

lemma range_ids: "\<not> has_range p \<Longrightarrow> sint (sf_MinId p) < 0 \<and> sint (sf_MaxId p) < 0"
  by (auto simp: has_range_def)

lemma negative_ids:
  "sint minId < 0 \<Longrightarrow> sint maxId < 0 \<Longrightarrow> readFuncLog E sims minId maxId w l = readFuncLog E sims (- 1) (- 1) w l"
  by (simp add: readFuncLog_def lower_id_def upper_id_def)

lemma search_ok:
  assumes "log_stores True w l a" "holds_calls a fls" "SSStore_Get sims (lg_ID l) = None" "sort_Slice (se_sort E)" "\<not> has_range p"
    "sf_SortKey p \<in> {SortByID, SortByStartTime, SortByEndTime}" "sf_SortOrder p \<in> {AscendingSortOrder, DescendingSortOrder}" "wr_room wr = None"
    and "sint (sf_Limit p) < 2 ^ 63"
  shows "\<exists>l' w' out. funcCallSearchBySimpleParams E sims p ''json'' w l wr = Inr (l', w', wr\<lparr>wr_out := wr_out wr @ map (\<lambda>fl. WriteJson (JFuncLog fl)) out\<rparr>) \<and>
    mset out \<subseteq># mset (filter (of_gid p) fls) \<and>
    map (search_key p) out = window 0 (sint (sf_Limit p)) (sort (map (search_key p) (filter (of_gid p) fls)))"
proof -
  obtain s w' where r: "readFuncLog E sims (sf_MinId p) (sf_MaxId p) w l = Inr ((None, fls), l\<lparr>lg_funcLog := s\<rparr>, w')"
    using readFuncLog_ok[OF assms(1-3)] negative_ids range_ids[OF assms(5)] by metis
  obtain out where out: "sortAndLimit (se_sort E) (Some (by_key (search_key p))) 0 (sf_Limit p) (filter (of_gid p) fls) = Inr out"
    "mset out \<subseteq># mset (filter (of_gid p) fls)" "map (search_key p) out = window 0 (sint (sf_Limit p)) (sort (map (search_key p) (filter (of_gid p) fls)))"
    using sortAndLimit_ok[OF assms(4), of 0 "sf_Limit p" "search_key p" "filter (of_gid p) fls"] assms(9) by auto
  have "funcCallSearchBySimpleParams E sims p ''json'' w l wr =
      pipeline E sims (sf_MinId p) (sf_MaxId p) (simple_filter p) (Some (by_key (search_key p))) 0 (sf_Limit p) json_send () w l wr"
    using sort_functions[OF assms(6,7)] assms(5) by (auto simp: funcCallSearchBySimpleParams_def go_bind_eq_Inr)
  then show ?thesis using r out simple_filter_ok[OF assms(5), of fls] sendTo_json[OF assms(8)] by (auto simp: pipeline_def)
qed

lemma heap_Init_panics:
  assumes "2 \<le> length xs"
  shows "heap_Init (\<lambda>x y. Inl e) xs = Inl e"
proof -
  obtain i where i: "length xs div 2 = Suc i" using assms by (cases "length xs div 2") auto
  then have "2 * i + 1 < length xs" by simp
  then have "heap_down (\<lambda>x y. Inl e) (length xs) xs i = Inl e"
    by (subst heap_down.simps) (simp add: Let_def heapComparator_def)
  then show ?thesis using i by (simp add: heap_Init_def)
qed

lemma sortAndLimit_panics:
  assumes "sort_compares srt" "2 \<le> length xs"
  shows "sortAndLimit srt (Some (\<lambda>x y. Inl e)) 0 rows xs = Inl e"
proof (cases "sint rows \<le> 0")
  case True
  then show ?thesis using assms by (simp add: sortAndLimit_def sort_items_def sort_compares_def)
next
  case False
  show ?thesis
  proof (cases "sint rows = 1")
    case True
    obtain x y zs where xs: "xs = x # y # zs" using assms(2) by (metis Suc_le_length_iff numeral_2_eq_2)
    have "heap_Init (\<lambda>x y. Inl e) [x] = Inr [x]" by (simp add: heap_Init_def)
    then show ?thesis using True xs by (simp add: sortAndLimit_def sort_items_def fill_count_def)
  next
    case F: False
    then have "2 \<le> nat (sint rows)" using False by linarith
    then have "heap_Init (\<lambda>x y. Inl e) (take (nat (sint rows)) xs) = Inl e" using assms(2) by (intro heap_Init_panics) simp
    then show ?thesis using False by (simp add: sortAndLimit_def sort_items_def fill_count_def)
  qed
qed

subsection \<open>Parameters on the wire\<close>

text \<open>The query parameters a client sends: those of \<open>ToParamMap\<close>; the others read as the empty string.\<close>

definition sent_query :: "SearchFuncLogParams \<Rightarrow> string \<Rightarrow> string" where
  "sent_query p name = (case ToParamMap p name of None \<Rightarrow> [] | Some v \<Rightarrow> v)"

definition or_unset :: "int64 \<Rightarrow> int64" where
  "or_unset n = (if n = 0 then - 1 else n)"

lemma FormatInt_not_Nil [simp]: "FormatInt n \<noteq> []"
  by (simp add: FormatInt_def)

lemma sent_query_simps:
  "sent_query p ''gid'' = (if sf_Gid p = 0 then [] else FormatInt (sf_Gid p))"
  "sent_query p ''min-id'' = (if sf_MinId p = 0 then [] else FormatInt (sf_MinId p))"
  "sent_query p ''max-id'' = (if sf_MaxId p = 0 then [] else FormatInt (sf_MaxId p))"
  "sent_query p ''min-timestamp'' = (if sf_MinTimestamp p = 0 then [] else FormatInt (sf_MinTimestamp p))"
  "sent_query p ''max-timestamp'' = (if sf_MaxTimestamp p = 0 then [] else FormatInt (sf_MaxTimestamp p))"
  "sent_query p ''limit'' = (if sf_Limit p = 0 then [] else FormatInt (sf_Limit p))"
  "sent_query p ''sort'' = sf_SortKey p" "sent_query p ''order'' = sf_SortOrder p" "sent_query p ''sql'' = sf_Sql p"
  by (auto simp: sent_query_def ToParamMap_def param_def NoSortKey_def NoSortOrder_def
      GID_String_def FuncLogID_String_def Time_NumberString_def)

lemma parse_number:
  "parse_field name (\<lambda>s. no_error (GID_FromString (- 1) s)) (if n = 0 then [] else FormatInt n) (- 1) k = k (or_unset n)"
  "parse_field name (\<lambda>s. no_error (FuncLogID_FromString (- 1) s)) (if n = 0 then [] else FormatInt n) (- 1) k = k (or_unset n)"
  "parse_field name (\<lambda>s. no_error (Time_FromNumberString (- 1) s)) (if n = 0 then [] else FormatInt n) (- 1) k = k (or_unset n)"
  "parse_field name (\<lambda>s. no_error (ParseInt s)) (if n = 0 then [] else FormatInt n) (- 1) k = k (or_unset n)"
  by (simp_all add: parse_field_def no_error_def or_unset_def ParseInt_FormatInt GID_FromString_def FuncLogID_FromString_def Time_FromNumberString_def)

lemma query_of_params:
  assumes "sf_SortKey p \<in> {NoSortKey, SortByID, SortByStartTime, SortByEndTime}"
    "sf_SortOrder p \<in> {NoSortOrder, AscendingSortOrder, DescendingSortOrder}"
  shows "query_params (sent_query p) =
    Inr \<lparr>sf_Gid = or_unset (sf_Gid p), sf_MinId = or_unset (sf_MinId p), sf_MaxId = or_unset (sf_MaxId p),
      sf_MinTimestamp = or_unset (sf_MinTimestamp p), sf_MaxTimestamp = or_unset (sf_MaxTimestamp p), sf_Limit = or_unset (sf_Limit p),
      sf_SortKey = sf_SortKey p, sf_SortOrder = (if sf_SortOrder p = NoSortOrder then AscendingSortOrder else sf_SortOrder p), sf_Sql = sf_Sql p\<rparr>"
proof -
  have k: "parse_field ''sort'' SortKey_Parse (sf_SortKey p) [] c = c (sf_SortKey p)" for c :: "string \<Rightarrow> string + SearchFuncLogParams"
    using assms(1) by (auto simp: parse_field_def SortKey_Parse_def NoSortKey_def)
  have o: "parse_field ''order'' (\<lambda>s. SortOrder_Parse s AscendingSortOrder) (sf_SortOrder p) AscendingSortOrder c =
      c (if sf_SortOrder p = NoSortOrder then AscendingSortOrder else sf_SortOrder p)" for c :: "string \<Rightarrow> string + SearchFuncLogParams"
    using assms(2) by (auto simp: parse_field_def SortOrder_Parse_def NoSortOrder_def)
  show ?thesis unfolding query_params_def FromString_def sent_query_simps parse_number k o ..
qed

subsection \<open>Searching an archived trace\<close>

lemma complete_holds:
  assumes "complete a c" "trace_ok c" "length (cg_calls c) < 2 ^ 63"
  shows "holds_calls a (cg_calls c)"
proof -
  have "ar_calls a = map (\<lambda>fl. pad SizeFuncLog (enc_FuncLog fl)) (cg_calls c)"
    using assms(1) by (auto simp: complete_def has_call_def intro: nth_equalityI)
  moreover have "call_fits (cg_calls c ! k)" if "k < length (cg_calls c)" for k
    using assms(2,3) that by (auto simp: call_fits_def trace_ok_def sint_small)
  ultimately show ?thesis using assms(3) by (auto simp: holds_calls_def list_all_length)
qed

text \<open>Sorting by ID has one result when the IDs increase.\<close>

lemma increasing_determined:
  fixes f :: "'a \<Rightarrow> int"
  assumes inc: "sorted_wrt (<) (map f xs)" and sub: "mset ys \<subseteq># mset xs" and eq: "map f ys = map f xs"
  shows "ys = xs"
proof -
  have inj: "inj_on f (set xs)" and len: "length ys = length xs" using inc map_eq_imp_length_eq[OF eq]
    by (auto simp: strict_sorted_iff distinct_map)
  have "set ys \<subseteq> set xs" using sub by (metis set_mset_mono set_mset_mset)
  then show ?thesis using inj eq map_inj_on[of f ys xs] by (metis sup.absorb_iff2)
qed

lemma ids_increase:
  assumes "trace_ok c" "length (cg_calls c) < 2 ^ 63"
  shows "sorted_wrt (<) (map (\<lambda>fl. sint (fl_ID fl)) (cg_calls c))"
  using assms by (auto simp: sorted_wrt_iff_nth_less trace_ok_def sint_small)

text \<open>The parameters of a search for the calls of one goroutine, in the order of their IDs.\<close>

definition gid_search :: "GID \<Rightarrow> SearchFuncLogParams" where
  "gid_search g = \<lparr>sf_Gid = g, sf_MinId = 0, sf_MaxId = 0, sf_MinTimestamp = 0, sf_MaxTimestamp = 0, sf_Limit = 0,
     sf_SortKey = SortByID, sf_SortOrder = NoSortOrder, sf_Sql = []\<rparr>"

lemma gid_search_found:
  assumes "log_stores True w l a" "complete a c" "trace_ok c" "length (cg_calls c) < 2 ^ 63" "SSStore_Get sims (lg_ID l) = None"
    "sort_Slice (se_sort E)" "wr_room wr = None" "LogID_wf i" "lg_ID l = i" "rq_vars r ''log-id'' = LogID_Hex i" "rq_query r = sent_query (gid_search g)"
  shows "\<exists>s2 w2. funcCallSearch E sims fl0 r ''json'' w (put_log i l s) wr =
    Inr (s2, w2, wr\<lparr>wr_out := wr_out wr @ map (\<lambda>fl. WriteJson (JFuncLog fl)) (filter (\<lambda>fl. sint g \<le> 0 \<or> fl_GID fl = g) (cg_calls c))\<rparr>)"
proof -
  let ?p = "(gid_search g)\<lparr>sf_Gid := or_unset g, sf_MinId := - 1, sf_MaxId := - 1, sf_MinTimestamp := - 1, sf_MaxTimestamp := - 1, sf_Limit := - 1, sf_SortOrder := AscendingSortOrder\<rparr>"
  let ?hits = "filter (of_gid ?p) (cg_calls c)"
  have p: "query_params (rq_query r) = Inr ?p"
    using assms(11) query_of_params[of "gid_search g"] by (simp add: gid_search_def or_unset_def)
  have gid: "of_gid ?p fl \<longleftrightarrow> sint g \<le> 0 \<or> fl_GID fl = g" for fl
    using signed_eq_0_iff[of g, where ?'a = int] by (auto simp: of_gid_def or_unset_def gid_search_def)
  have key: "search_key ?p = (\<lambda>fl. sint (fl_ID fl))"
    by (simp add: search_key_def gid_search_def fun_eq_iff sort_names)
  have q: "\<not> has_range ?p" "sf_SortKey ?p \<in> {SortByID, SortByStartTime, SortByEndTime}"
    "sf_SortOrder ?p \<in> {AscendingSortOrder, DescendingSortOrder}" "sint (sf_Limit ?p) < 2 ^ 63"
    by (simp_all add: has_range_def gid_search_def)
  obtain l' w' out where
    out: "funcCallSearchBySimpleParams E sims ?p ''json'' w l wr = Inr (l', w', wr\<lparr>wr_out := wr_out wr @ map (\<lambda>fl. WriteJson (JFuncLog fl)) out\<rparr>)"
      "mset out \<subseteq># mset ?hits" "map (search_key ?p) out = window 0 (sint (sf_Limit ?p)) (sort (map (search_key ?p) ?hits))"
    using search_ok[OF assms(1) complete_holds[OF assms(2-4)] assms(5,6) q(1-3) assms(7) q(4)] by blast
  have inc: "sorted_wrt (<) (map (search_key ?p) ?hits)"
    using ids_increase[OF assms(3,4)] unfolding key by (auto simp: sorted_wrt_map intro: sorted_wrt_filter)
  then have "map (search_key ?p) out = map (search_key ?p) ?hits"
    using out(3) by (simp add: window_def strict_sorted_iff sorted_sort_id)
  then have "out = ?hits" using increasing_determined[OF inc out(2)] by simp
  moreover have "getLog r (put_log i l s) wr = (Some (i, Some l), wr)"
    using assms(8,10) by (simp add: getLog_def LogID_Unhex_Hex Storage_Log_def put_log_def)
  moreover have "sf_Sql ?p = []" by (simp add: gid_search_def)
  ultimately show ?thesis using p out(1) unfolding funcCallSearch_def gid by (simp add: deref_def)
qed

lemma descending_search_panics:
  assumes "log_stores True w l a" "holds_calls a fls" "SSStore_Get sims (lg_ID l) = None" "sort_compares (se_sort E)" "\<not> has_range p"
    "sf_SortKey p = NoSortKey" "sf_SortOrder p = DescendingSortOrder" "2 \<le> length (filter (of_gid p) fls)"
  shows "funcCallSearchBySimpleParams E sims p ''json'' w l wr = Inl NilDereference"
proof -
  obtain s w' where r: "readFuncLog E sims (sf_MinId p) (sf_MaxId p) w l = Inr ((None, fls), l\<lparr>lg_funcLog := s\<rparr>, w')"
    using readFuncLog_ok[OF assms(1-3)] negative_ids range_ids[OF assms(5)] by metis
  have "go_bind (sort_less (sf_SortKey p)) (sort_direction (sf_SortOrder p)) = Inr (Some (\<lambda>x y. Inl NilDereference))"
    using assms(6,7) by (auto simp: sort_less_def sort_direction_def sort_names)
  then have "funcCallSearchBySimpleParams E sims p ''json'' w l wr =
      pipeline E sims (sf_MinId p) (sf_MaxId p) (simple_filter p) (Some (\<lambda>x y. Inl NilDereference)) 0 (sf_Limit p) json_send () w l wr"
    using assms(5) by (auto simp: funcCallSearchBySimpleParams_def go_bind_eq_Inr)
  then show ?thesis using r simple_filter_ok[OF assms(5), of fls] sortAndLimit_panics[OF assms(4,8)] by (simp add: pipeline_def)
qed

text \<open>With an end of the period that is not given (\<open>-1\<close>), no record of the index overlaps.\<close>

lemma narrow_none:
  assumes "list_all (\<lambda>ir. 0 \<le> sint (MinStart ir)) rs" "sint (sf_MaxTimestamp p) < 0"
  shows "foldl (narrow_step p) n rs = n"
  using assms by (induction rs) (auto simp: narrow_step_def IsOverlapTime_def isOverlap_def isNotOverlop_def)

subsection \<open>Properties\<close>

text \<open>
  C11. A search of an archived log sends what it is asked for. The log is open for reading only and belongs to a finished session (no simulator runs for it); the
  search has no range of times or identifiers. Then a search by goroutine with a sort key sends JSON of calls of the log that belong to that goroutine; their keys are
  exactly those of the sorted hits, in the order asked for, up to the limit. (Equal keys may come in any order.) The search of a running trace,
  whose calls come from the simulator and from a store that is still written and can be misread (\<open>ReadBuffer_misreads_after_growth\<close>), is not covered.
\<close>

theorem Search_sends_sorted_window:
  assumes "log_stores True w l a" "holds_calls a fls" "SSStore_Get sims (lg_ID l) = None" "sort_Slice (se_sort E)" "\<not> has_range p"
    "sf_SortKey p \<in> {SortByID, SortByStartTime, SortByEndTime}" "sf_SortOrder p \<in> {AscendingSortOrder, DescendingSortOrder}" "wr_room wr = None"
  shows "\<exists>l' w' out. funcCallSearchBySimpleParams E sims p ''json'' w l wr = Inr (l', w', wr\<lparr>wr_out := wr_out wr @ map (\<lambda>fl. WriteJson (JFuncLog fl)) out\<rparr>) \<and>
    mset out \<subseteq># mset (filter (of_gid p) fls) \<and>
    map (search_key p) out = window 0 (sint (sf_Limit p)) (sort (map (search_key p) (filter (of_gid p) fls)))"
  using search_ok[OF assms] sint_lt[of "sf_Limit p"] by simp

text \<open>An archive of three calls, for the samples.\<close>

definition sample_env :: search_env where
  "sample_env = \<lparr>se_log = Log.sample_libs, se_sql = SqlExpr.sample_libs, se_time = FormatInt, se_parser = (\<lambda>s. None), se_eqs = (=),
     se_error = (\<lambda>e. []), se_panic = (\<lambda>f. []), se_sort = insertion_sort, se_order = (\<lambda>ss. []), se_cut = (0, 0)\<rparr>"

definition sample_calls :: "FuncLog list" where
  "sample_calls =
     [\<lparr>fl_ID = 0, fl_StartTime = 10, fl_EndTime = 15, fl_ParentID = - 1, fl_Frames = [10], fl_GID = 7\<rparr>,
      \<lparr>fl_ID = 1, fl_StartTime = 11, fl_EndTime = 14, fl_ParentID = - 1, fl_Frames = [11], fl_GID = 8\<rparr>,
      \<lparr>fl_ID = 2, fl_StartTime = 12, fl_EndTime = 13, fl_ParentID = 0, fl_Frames = [12], fl_GID = 7\<rparr>]"

lemma sample_archive_full:
  "\<exists>w (l :: unit Log) a sy. log_stores True w l a \<and> holds_calls a sample_calls \<and> lg_symbols l = Some sy \<and> lg_ID l = replicate 16 1"
proof -
  obtain c where c: "spec_run trace_step (cg_init, nilDiff, 0) sample_work = Some (c, nilDiff, 3)" "cg_calls c = sample_calls"
    using sample_work_calls unfolding sample_calls_def by blast
  obtain l' :: "unit Log" and w' a sy where "log_stores True w' l' a" "complete a c" "trace_ok c" "lg_symbols l' = Some sy" "lg_ID l' = replicate 16 1"
    using Session_ok[OF sample_maker_ok enumerates_sorted sample_libs_ok c(1), of 0 sample_hello "[]" "[]" "()"] by blast
  moreover have "holds_calls a sample_calls" using complete_holds[OF calculation(2,3)] unfolding c(2) by (simp add: sample_calls_def)
  ultimately show ?thesis by blast
qed

lemma sample_archive:
  "\<exists>w (l :: unit Log) a. log_stores True w l a \<and> holds_calls a sample_calls \<and> SSStore_Get \<lparr>ss_m = None\<rparr> (lg_ID l) = None"
  using sample_archive_full sample_maker_ok(6) by metis

definition sample_params :: "string \<Rightarrow> string \<Rightarrow> SearchFuncLogParams" where
  "sample_params key order = \<lparr>sf_Gid = - 1, sf_MinId = - 1, sf_MaxId = - 1, sf_MinTimestamp = - 1, sf_MaxTimestamp = - 1, sf_Limit = 2,
     sf_SortKey = key, sf_SortOrder = order, sf_Sql = []\<rparr>"

lemma sample_params_simps [simp]:
  "\<not> has_range (sample_params key order)" "sf_SortKey (sample_params key order) = key" "sf_SortOrder (sample_params key order) = order"
  "of_gid (sample_params key order) = (\<lambda>fl. True)" "sf_Limit (sample_params key order) = 2"
  by (simp_all add: sample_params_def has_range_def of_gid_def fun_eq_iff)

theorem Search_sends_sorted_window_witness:
  "\<exists>w (l :: unit Log) l' w' out.
    funcCallSearchBySimpleParams sample_env \<lparr>ss_m = None\<rparr> (sample_params SortByStartTime DescendingSortOrder) ''json'' w l \<lparr>wr_out = [], wr_room = None\<rparr> =
      Inr (l', w', \<lparr>wr_out = map (\<lambda>fl. WriteJson (JFuncLog fl)) out, wr_room = None\<rparr>) \<and> map (\<lambda>fl. sint (fl_StartTime fl)) out = [12, 11]"
proof -
  obtain w and l :: "unit Log" and a where l: "log_stores True w l a" "holds_calls a sample_calls" "SSStore_Get \<lparr>ss_m = None\<rparr> (lg_ID l) = None"
    using sample_archive by blast
  have srt: "sort_Slice (se_sort sample_env)" using insertion_sort_ok by (simp add: sample_env_def)
  have key: "search_key (sample_params SortByStartTime DescendingSortOrder) = (\<lambda>fl. - sint (fl_StartTime fl))"
    by (simp add: search_key_def fun_eq_iff sort_names)
  let ?p = "sample_params SortByStartTime DescendingSortOrder" and ?wr = "\<lparr>wr_out = [], wr_room = None\<rparr>"
  have win: "window 0 (sint (sf_Limit ?p)) (sort (map (\<lambda>fl. - sint (fl_StartTime fl)) (filter (of_gid ?p) sample_calls))) = [- 12, - 11]"
    by (simp add: sample_calls_def window_def)
  have prm: "\<not> has_range ?p" "sf_SortKey ?p \<in> {SortByID, SortByStartTime, SortByEndTime}" "sf_SortOrder ?p \<in> {AscendingSortOrder, DescendingSortOrder}" "wr_room ?wr = None"
    by simp_all
  obtain l' w' out where "funcCallSearchBySimpleParams sample_env \<lparr>ss_m = None\<rparr> ?p ''json'' w l ?wr =
      Inr (l', w', ?wr\<lparr>wr_out := wr_out ?wr @ map (\<lambda>fl. WriteJson (JFuncLog fl)) out\<rparr>)" "map (\<lambda>fl. - sint (fl_StartTime fl)) out = [- 12, - 11]"
    using Search_sends_sorted_window[OF l srt prm] unfolding key win by (elim exE conjE) (rule that)
  moreover from this(2) have "map (\<lambda>fl. sint (fl_StartTime fl)) out = [12, 11]" by (auto simp: map_eq_Cons_conv)
  ultimately show ?thesis by (intro exI[of _ w] exI[of _ l] exI[of _ l'] exI[of _ w'] exI[of _ out]) simp
qed

text \<open>
  C30. A search with parameters arrives as it was meant: the server reads the parameters a client has sent,
  numbers that are 0 as not given and no order as the ascending one.
\<close>

theorem Search_params_round_trip:
  assumes "sf_SortKey p \<in> {NoSortKey, SortByID, SortByStartTime, SortByEndTime}"
    "sf_SortOrder p \<in> {NoSortOrder, AscendingSortOrder, DescendingSortOrder}"
  shows "query_params (sent_query p) =
    Inr \<lparr>sf_Gid = or_unset (sf_Gid p), sf_MinId = or_unset (sf_MinId p), sf_MaxId = or_unset (sf_MaxId p),
      sf_MinTimestamp = or_unset (sf_MinTimestamp p), sf_MaxTimestamp = or_unset (sf_MaxTimestamp p), sf_Limit = or_unset (sf_Limit p),
      sf_SortKey = sf_SortKey p, sf_SortOrder = (if sf_SortOrder p = NoSortOrder then AscendingSortOrder else sf_SortOrder p), sf_Sql = sf_Sql p\<rparr>"
  using assms by (rule query_of_params)

theorem Search_params_round_trip_witness:
  "query_params (sent_query (gid_search 0)) = Inr (sample_params SortByID AscendingSortOrder\<lparr>sf_Limit := - 1\<rparr>)"
  using Search_params_round_trip[of "gid_search 0"] by (simp add: gid_search_def sample_params_def or_unset_def)

text \<open>
  Descending order without a sort key brings the server down: the comparison function wraps a nil function, and
  as soon as there are two hits it is called, in a goroutine that recovers from nothing.
\<close>

theorem Descending_without_key_panics:
  assumes "log_stores True w l a" "holds_calls a fls" "SSStore_Get sims (lg_ID l) = None" "sort_compares (se_sort E)" "\<not> has_range p"
    "sf_SortKey p = NoSortKey" "sf_SortOrder p = DescendingSortOrder" "2 \<le> length (filter (of_gid p) fls)"
  shows "funcCallSearchBySimpleParams E sims p ''json'' w l wr = Inl NilDereference"
  using assms by (rule descending_search_panics)

theorem Descending_without_key_panics_witness:
  "\<exists>w (l :: unit Log). funcCallSearchBySimpleParams sample_env \<lparr>ss_m = None\<rparr> (sample_params NoSortKey DescendingSortOrder) ''json'' w l
    \<lparr>wr_out = [], wr_room = None\<rparr> = Inl NilDereference"
proof -
  obtain w and l :: "unit Log" and a where l: "log_stores True w l a" "holds_calls a sample_calls" "SSStore_Get \<lparr>ss_m = None\<rparr> (lg_ID l) = None"
    using sample_archive by blast
  have "sort_compares (se_sort sample_env)" using insertion_sort_compares by (simp add: sample_env_def)
  from Descending_without_key_panics[OF l this, of "sample_params NoSortKey DescendingSortOrder" "\<lparr>wr_out = [], wr_room = None\<rparr>"]
  show ?thesis by (auto simp: sample_calls_def)
qed

text \<open>
  A search over a range of IDs that does not give the end of the period finds nothing, whatever calls the log has:
  the end that is not given is \<open>-1\<close>, and no record of the index starts before it.
\<close>

theorem Search_by_ids_finds_nothing:
  assumes "has_range p" "sint (sf_MaxTimestamp p) < 0" "sf_SortKey p \<in> {SortByID, SortByStartTime, SortByEndTime}"
    "sf_SortOrder p \<in> {AscendingSortOrder, DescendingSortOrder}" "lg_index l = Some idx" "idx_records idx = Some rs" "list_all (\<lambda>ir. 0 \<le> sint (MinStart ir)) rs"
  shows "funcCallSearchBySimpleParams E sims p format w l wr = Inr (l, w, wr)"
proof -
  have "narrow_range L p w l = Inr (None, l\<lparr>lg_index := Some idx\<rparr>, w)" for L
    using assms(2,5-7) mustLoad_loaded[OF assms(6), of "ll_index_dec L" w]
    by (simp add: narrow_range_def Index_Len_def idx_list_def Let_def narrow_none)
  moreover have "l\<lparr>lg_index := Some idx\<rparr> = l" using assms(5) by simp
  ultimately show ?thesis using sort_functions[OF assms(3,4)] assms(1)
    by (auto simp: funcCallSearchBySimpleParams_def go_bind_eq_Inr)
qed

definition indexed_log :: "unit Log" where
  "indexed_log = (new_Log (replicate 16 1) \<lparr>dl_Root = ''/logs''\<rparr> 0 True)\<lparr>lg_index := Some (sample_idx\<lparr>idx_records := Some [sample_ir 0 9 100 200]\<rparr>)\<rparr>"

theorem Search_by_ids_finds_nothing_witness:
  "funcCallSearchBySimpleParams sample_env \<lparr>ss_m = None\<rparr> (sample_params SortByID AscendingSortOrder\<lparr>sf_MinId := 1\<rparr>) ''json''
      \<lparr>files = Map.empty, faults = []\<rparr> indexed_log \<lparr>wr_out = [], wr_room = None\<rparr> =
    Inr (indexed_log, \<lparr>files = Map.empty, faults = []\<rparr>, \<lparr>wr_out = [], wr_room = None\<rparr>)"
  by (rule Search_by_ids_finds_nothing[where idx = "sample_idx\<lparr>idx_records := Some [sample_ir 0 9 100 200]\<rparr>" and rs = "[sample_ir 0 9 100 200]"])
    (simp_all add: has_range_def sample_params_def indexed_log_def sample_ir_def)

end
