(* ===== verification/RestClient.thy ===== *)
theory RestClient
  imports CallSearch
begin

section \<open>RestClient: the client of the REST API (\<open>tracer/restapi/client.go\<close>, \<open>errors.go\<close>)\<close>

text \<open>
  A client builds a URL, sends a request, checks the status of the response and decodes its body. What carries a
  request to the server and its response back (the HTTP libraries and the router) is a parameter of
  the client, a function on the state of whoever answers. Decoding takes the values of the
  response as they were written.
\<close>

subsection \<open>Responses\<close>

datatype body = BodyText string | BodyJson json | BodyBytes "byte list"

record response =
  rs_status :: nat
  rs_body :: "body list"

text \<open>What a client sees of what a handler writes: the first status counts, and a body without a status is a success.\<close>

fun reply_status :: "reply list \<Rightarrow> nat" where
  "reply_status [] = StatusOK"
| "reply_status (HttpError code msg # rs) = code"
| "reply_status (WriteHeader code # rs) = code"
| "reply_status (r # rs) = StatusOK"

fun reply_body :: "reply \<Rightarrow> body list" where
  "reply_body (HttpError code msg) = [BodyText msg]"
| "reply_body (WriteHeader code) = []"
| "reply_body (WriteJson j) = [BodyJson j]"
| "reply_body (WriteBytes bs) = [BodyBytes bs]"

definition response_of :: "reply list \<Rightarrow> response" where
  "response_of rs = \<lparr>rs_status = reply_status rs, rs_body = concat (map reply_body rs)\<rparr>"

datatype rest_error =
    RestConflict | NotFoundGoModule | NotFoundGoFunc | NotFoundGoLine
  | FailedResp error | UnexpStatus string string string nat | InvalidJSON string string

type_synonym 's transport = "string \<Rightarrow> string \<Rightarrow> (string \<rightharpoonup> string) \<Rightarrow> LogInfo option \<Rightarrow> 's \<Rightarrow> (error + response) \<times> 's"

text \<open>\<open>errors.go\<close>: the text of the expected codes is part of the error.\<close>

fun expected_codes :: "nat \<Rightarrow> nat list \<Rightarrow> string" where
  "expected_codes i [] = []"
| "expected_codes i (code # codes) = (if i \<noteq> 0 then ''|'' else []) @ FormatInt (word_of_nat code) @ expected_codes (Suc i) codes"

definition errUnexpStatus :: "string \<Rightarrow> string \<Rightarrow> response \<Rightarrow> nat list \<Rightarrow> rest_error" where
  "errUnexpStatus method url r expected = UnexpStatus method url (expected_codes 0 expected) (rs_status r)"

definition wrapResp :: "(error + response) \<times> 's \<Rightarrow> (rest_error + response) \<times> 's" where
  "wrapResp = (\<lambda>(r, s). (map_sum FailedResp id r, s))"

definition json_value :: "(json \<Rightarrow> 'a option) \<Rightarrow> response \<Rightarrow> 'a option" where
  "json_value sel r = (case rs_body r of BodyJson j # _ \<Rightarrow> sel j | _ \<Rightarrow> None)"

definition rest_get :: "'s transport \<Rightarrow> string \<Rightarrow> (string \<rightharpoonup> string) \<Rightarrow> 's \<Rightarrow> (rest_error + response) \<times> 's" where
  "rest_get T url params s =
     (case wrapResp (T ''GET'' url params None s) of
        (Inl e, s) \<Rightarrow> (Inl e, s)
      | (Inr r, s) \<Rightarrow> if rs_status r = StatusOK then (Inr r, s) else (Inl (errUnexpStatus ''GET'' url r [StatusOK]), s))"

definition getJSON :: "'s transport \<Rightarrow> (json \<Rightarrow> 'a option) \<Rightarrow> string \<Rightarrow> (string \<rightharpoonup> string) \<Rightarrow> 's \<Rightarrow> (rest_error + 'a) \<times> 's" where
  "getJSON T sel url params s =
     (case rest_get T url params s of
        (Inl e, s) \<Rightarrow> (Inl e, s)
      | (Inr r, s) \<Rightarrow> (case json_value sel r of None \<Rightarrow> (Inl (InvalidJSON ''GET'' url), s) | Some v \<Rightarrow> (Inr v, s)))"

definition rest_delete :: "'s transport \<Rightarrow> string \<Rightarrow> 's \<Rightarrow> rest_error option \<times> 's" where
  "rest_delete T url s =
     (case wrapResp (T ''DELETE'' url Map.empty None s) of
        (Inl e, s) \<Rightarrow> (Some e, s)
      | (Inr r, s) \<Rightarrow> if rs_status r = StatusNoContent then (None, s) else (Some (errUnexpStatus ''DELETE'' url r [StatusNoContent]), s))"

definition rest_put :: "'s transport \<Rightarrow> string \<Rightarrow> LogInfo \<Rightarrow> 's \<Rightarrow> (rest_error + response) \<times> 's" where
  "rest_put T url info s =
     (case wrapResp (T ''PUT'' url Map.empty (Some info) s) of
        (Inl e, s) \<Rightarrow> (Inl e, s)
      | (Inr r, s) \<Rightarrow>
          if rs_status r = StatusOK then (Inr r, s)
          else if rs_status r = StatusConflict then (Inl RestConflict, s)
          else (Inl (errUnexpStatus ''PUT'' url r [StatusOK]), s))"

definition putJSON :: "'s transport \<Rightarrow> (json \<Rightarrow> 'a option) \<Rightarrow> string \<Rightarrow> LogInfo \<Rightarrow> 's \<Rightarrow> (rest_error + 'a) \<times> 's" where
  "putJSON T sel url info s =
     (case rest_put T url info s of
        (Inl e, s) \<Rightarrow> (Inl e, s)
      | (Inr r, s) \<Rightarrow> (case json_value sel r of None \<Rightarrow> (Inl (InvalidJSON ''PUT'' url), s) | Some v \<Rightarrow> (Inr v, s)))"

subsection \<open>The client and its cache of symbols\<close>

text \<open>\<open>cl_cache\<close>: the map of \<open>apiCache\<close>; a \<open>logCache\<close> holds a pointer to symbols.\<close>

record ClientWithCtx =
  cl_BaseUrl :: string
  cl_UseCache :: bool
  cl_cache :: "string \<rightharpoonup> Symbols option"

definition WithCtx :: "string \<Rightarrow> ClientWithCtx" where
  "WithCtx base = \<lparr>cl_BaseUrl = base, cl_UseCache = True, cl_cache = Map.empty\<rparr>"

definition client_url :: "ClientWithCtx \<Rightarrow> string list \<Rightarrow> string" where
  "client_url c parts = cl_BaseUrl c @ ''/api/v0.1'' @ join_with CHR ''/'' parts"

definition apiCache_Log :: "string \<Rightarrow> ClientWithCtx \<Rightarrow> Symbols option option" where
  "apiCache_Log logID c = cl_cache c logID"

definition logCache_Symbols :: "Symbols option option \<Rightarrow> Symbols option" where
  "logCache_Symbols l = (case l of None \<Rightarrow> None | Some sp \<Rightarrow> sp)"

definition AddLog :: "string \<Rightarrow> ClientWithCtx \<Rightarrow> ClientWithCtx" where
  "AddLog logID c = (if cl_cache c logID = None then c\<lparr>cl_cache := (cl_cache c)(logID \<mapsto> None)\<rparr> else c)"

definition SetSymbols :: "string \<Rightarrow> Symbols \<Rightarrow> ClientWithCtx \<Rightarrow> ClientWithCtx" where
  "SetSymbols logID s c = c\<lparr>cl_cache := (cl_cache c)(logID \<mapsto> Some s)\<rparr>"

definition zero_Symbols :: Symbols where
  "zero_Symbols = \<lparr>sym_Writable = False, sym_data = zero_SymbolsData\<rparr>"

definition SyncSymbols :: "'s transport \<Rightarrow> string \<Rightarrow> ClientWithCtx \<times> 's \<Rightarrow> (rest_error option \<times> ClientWithCtx \<times> 's) go" where
  "SyncSymbols T logID = (\<lambda>(c, s).
     case getJSON T (\<lambda>j. case j of JSymbols d \<Rightarrow> Some d | _ \<Rightarrow> None) (client_url c [''/log'', logID, ''symbols'']) Map.empty s of
       (Inl e, s) \<Rightarrow> Inr (Some e, c, s)
     | (Inr d, s) \<Rightarrow> go_bind (Symbols_Load zero_Symbols d) (\<lambda>sy. Inr (None, SetSymbols logID sy (AddLog logID c), s)))"

text \<open>The pointer that \<open>Symbols\<close> returns may be nil; only with an error, as \<open>SyncSymbols\<close> fills the cache.\<close>

definition client_Symbols :: "'s transport \<Rightarrow> string \<Rightarrow> ClientWithCtx \<times> 's \<Rightarrow> ((rest_error + Symbols option) \<times> ClientWithCtx \<times> 's) go" where
  "client_Symbols T logID = (\<lambda>(c, s).
     case logCache_Symbols (apiCache_Log logID c) of
       Some sy \<Rightarrow> Inr (Inr (Some sy), c, s)
     | None \<Rightarrow>
         go_bind (SyncSymbols T logID (c, s)) (\<lambda>(e, c, s).
         Inr (case e of Some e \<Rightarrow> Inl e | None \<Rightarrow> Inr (logCache_Symbols (apiCache_Log logID c)), c, s)))"

definition FormatUintptr :: "uintptr \<Rightarrow> string" where
  "FormatUintptr ptr = FormatUint ptr"

definition ParseUintptr :: "string \<Rightarrow> uintptr \<times> num_error option" where
  "ParseUintptr s = parseUintptr s"

definition validateGoModule :: "uintptr \<Rightarrow> GoModule \<Rightarrow> unit go" where
  "validateGoModule pc m =
     (if gm_Name m = [] \<or> gm_MinPC m = 0 \<or> gm_MaxPC m = 0 \<or> pc < gm_MinPC m \<or> gm_MaxPC m < pc
      then Inl (Panic ''validation error'') else Inr ())"

definition validateGoFunc :: "uintptr \<Rightarrow> GoFunc \<Rightarrow> unit go" where
  "validateGoFunc pc f = (if gf_Entry f = 0 \<or> pc < gf_Entry f then Inl (Panic ''validation error'') else Inr ())"

definition validateGoLine :: "uintptr \<Rightarrow> GoLine \<Rightarrow> unit go" where
  "validateGoLine pc l = (if gl_PC l = 0 \<or> pc < gl_PC l then Inl (Panic ''validation error'') else Inr ())"

text \<open>
  The three lookups differ in the table, the error, the path and the check only: in the cached symbols, or at
  the server. A lookup in nil symbols panics.
\<close>

definition client_lookup ::
  "(Symbols \<Rightarrow> uintptr \<Rightarrow> 'e \<times> bool) \<Rightarrow> rest_error \<Rightarrow> string \<Rightarrow> (json \<Rightarrow> 'e option) \<Rightarrow> (uintptr \<Rightarrow> 'e \<Rightarrow> unit go) \<Rightarrow>
   's transport \<Rightarrow> string \<Rightarrow> uintptr \<Rightarrow> ClientWithCtx \<times> 's \<Rightarrow> ((rest_error + 'e) \<times> ClientWithCtx \<times> 's) go" where
  "client_lookup look err path sel validate T logID pc = (\<lambda>(c, s).
     if cl_UseCache c then
       go_bind (client_Symbols T logID (c, s)) (\<lambda>(r, c, s).
       case r of
         Inl e \<Rightarrow> Inr (Inl e, c, s)
       | Inr p \<Rightarrow>
           go_bind (deref p) (\<lambda>sy.
           case look sy pc of
             (x, False) \<Rightarrow> Inr (Inl err, c, s)
           | (x, True) \<Rightarrow> go_bind (validate pc x) (\<lambda>_. Inr (Inr x, c, s))))
     else
       (case getJSON T sel (client_url c [''/log'', logID, ''symbol'', path, FormatUintptr pc]) Map.empty s of
          (Inl e, s) \<Rightarrow> Inr (Inl e, c, s)
        | (Inr x, s) \<Rightarrow> go_bind (validate pc x) (\<lambda>_. Inr (Inr x, c, s))))"

definition client_GoModule :: "'s transport \<Rightarrow> string \<Rightarrow> uintptr \<Rightarrow> ClientWithCtx \<times> 's \<Rightarrow> ((rest_error + GoModule) \<times> ClientWithCtx \<times> 's) go" where
  "client_GoModule = client_lookup Symbols_GoModule NotFoundGoModule ''module'' (\<lambda>j. case j of JModule m \<Rightarrow> Some m | _ \<Rightarrow> None) validateGoModule"

definition client_GoFunc :: "'s transport \<Rightarrow> string \<Rightarrow> uintptr \<Rightarrow> ClientWithCtx \<times> 's \<Rightarrow> ((rest_error + GoFunc) \<times> ClientWithCtx \<times> 's) go" where
  "client_GoFunc = client_lookup Symbols_GoFunc NotFoundGoFunc ''func'' (\<lambda>j. case j of JFunc f \<Rightarrow> Some f | _ \<Rightarrow> None) validateGoFunc"

definition client_GoLine :: "'s transport \<Rightarrow> string \<Rightarrow> uintptr \<Rightarrow> ClientWithCtx \<times> 's \<Rightarrow> ((rest_error + GoLine) \<times> ClientWithCtx \<times> 's) go" where
  "client_GoLine = client_lookup Symbols_GoLine NotFoundGoLine ''line'' (\<lambda>j. case j of JLine l \<Rightarrow> Some l | _ \<Rightarrow> None) validateGoLine"

subsection \<open>Logs\<close>

definition info_value :: "json \<Rightarrow> LogInfo option" where
  "info_value j = (case j of JLogInfo info \<Rightarrow> Some info | _ \<Rightarrow> None)"

definition client_Logs :: "'s transport \<Rightarrow> ClientWithCtx \<Rightarrow> 's \<Rightarrow> (rest_error + LogInfo list) \<times> 's" where
  "client_Logs T c s = getJSON T (\<lambda>j. case j of JLogs ls \<Rightarrow> Some ls | _ \<Rightarrow> None) (client_url c [''/logs'']) Map.empty s"

definition RemoveLog :: "'s transport \<Rightarrow> ClientWithCtx \<Rightarrow> string \<Rightarrow> 's \<Rightarrow> rest_error option \<times> 's" where
  "RemoveLog T c logID s = rest_delete T (client_url c [''/log'', logID]) s"

definition client_LogInfo :: "'s transport \<Rightarrow> ClientWithCtx \<Rightarrow> string \<Rightarrow> 's \<Rightarrow> (rest_error + LogInfo) \<times> 's" where
  "client_LogInfo T c logID s = getJSON T info_value (client_url c [''/log'', logID]) Map.empty s"

definition SetLogInfo :: "'s transport \<Rightarrow> ClientWithCtx \<Rightarrow> string \<Rightarrow> LogInfo \<Rightarrow> 's \<Rightarrow> (rest_error + LogInfo) \<times> 's" where
  "SetLogInfo T c logID info s = putJSON T info_value (client_url c [''/log'', logID]) info s"

text \<open>\<open>fn\<close> may fail; \<open>tries\<close> counts down.\<close>

fun UpdateLogInfo ::
  "'s transport \<Rightarrow> ClientWithCtx \<Rightarrow> string \<Rightarrow> nat \<Rightarrow> (LogInfo \<Rightarrow> rest_error + LogInfo) \<Rightarrow> 's \<Rightarrow> (rest_error + LogInfo) \<times> 's" where
  "UpdateLogInfo T c logID 0 fn s = (Inl RestConflict, s)"
| "UpdateLogInfo T c logID (Suc tries) fn s =
     (case client_LogInfo T c logID s of
        (Inl e, s) \<Rightarrow> (Inl e, s)
      | (Inr info, s) \<Rightarrow>
          (case fn info of
             Inl e \<Rightarrow> (Inl e, s)
           | Inr info \<Rightarrow>
               (case SetLogInfo T c logID info s of
                  (Inl e, s) \<Rightarrow> if e = RestConflict then UpdateLogInfo T c logID tries fn s else (Inl e, s)
                | (Inr newInfo, s) \<Rightarrow> (Inr newInfo, s))))"

subsection \<open>Searches\<close>

text \<open>
  The values of a body that a decoder yields one by one, and the error it ends with (\<open>None\<close> at the end of the
  body). The channel has a reader that takes everything.
\<close>

fun decode_values :: "(json \<Rightarrow> 'a option) \<Rightarrow> string \<Rightarrow> body list \<Rightarrow> 'a list \<times> rest_error option" where
  "decode_values sel url [] = ([], None)"
| "decode_values sel url (BodyJson j # bs) =
     (case sel j of
        None \<Rightarrow> ([], Some (InvalidJSON ''GET'' url))
      | Some v \<Rightarrow> (case decode_values sel url bs of (vs, e) \<Rightarrow> (v # vs, e)))"
| "decode_values sel url (b # bs) = ([], Some (InvalidJSON ''GET'' url))"

definition SearchFuncLogs ::
  "'s transport \<Rightarrow> ClientWithCtx \<Rightarrow> string \<Rightarrow> SearchFuncLogParams \<Rightarrow> 's \<Rightarrow> (FuncLog list \<times> rest_error option) \<times> 's" where
  "SearchFuncLogs T c logID so s =
     (let url = client_url c [''/log'', logID, ''func-call'', ''search''] in
      case rest_get T url (ToParamMap so) s of
        (Inl e, s) \<Rightarrow> (([], Some e), s)
      | (Inr r, s) \<Rightarrow> (decode_values (\<lambda>j. case j of JFuncLog fl \<Rightarrow> Some fl | _ \<Rightarrow> None) url (rs_body r), s))"

text \<open>\<open>Goroutines\<close>: an error of the request is returned; one of a value only ends the channel.\<close>

definition client_Goroutines :: "'s transport \<Rightarrow> ClientWithCtx \<Rightarrow> string \<Rightarrow> 's \<Rightarrow> (rest_error + Goroutine list) \<times> 's" where
  "client_Goroutines T c logID s =
     (let url = client_url c [''/log'', logID, ''goroutines'', ''search''] in
      case rest_get T url Map.empty s of
        (Inl e, s) \<Rightarrow> (Inl e, s)
      | (Inr r, s) \<Rightarrow> (Inr (fst (decode_values (\<lambda>j. case j of JGoroutine g \<Rightarrow> Some g | _ \<Rightarrow> None) url (rs_body r))), s))"

definition SearchRaw :: "'s transport \<Rightarrow> ClientWithCtx \<Rightarrow> string \<Rightarrow> string \<Rightarrow> 's \<Rightarrow> (rest_error + response) \<times> 's" where
  "SearchRaw T c logID query s = rest_get T (client_url c [''/log'', logID, ''search.csv'']) [''sql'' \<mapsto> query] s"

subsection \<open>Optimistic updates\<close>

text \<open>
  What \<open>UpdateLogInfo\<close> relies on: a log that other clients may change between two requests (\<open>later\<close>), whose
  version tells whether they did, and an update that is refused unless it names the current version.
\<close>

locale versioned_log =
  fixes T :: "'s transport" and c :: ClientWithCtx and logID :: string
    and ok :: "'s \<Rightarrow> bool" and info :: "'s \<Rightarrow> LogInfo" and later :: "'s \<Rightarrow> 's \<Rightarrow> bool"
  assumes get: "ok s \<Longrightarrow> \<exists>s1. ok s1 \<and> later s s1 \<and> client_LogInfo T c logID s = (Inr (info s1), s1)"
    and put: "ok s \<Longrightarrow> \<exists>s1. ok s1 \<and> later s s1 \<and>
      (if li_Version new = li_Version (info s1)
       then \<exists>s2. ok s2 \<and> SetLogInfo T c logID new s = (Inr (info s2), s2) \<and> info s2 = (info s1)\<lparr>li_Version := li_Version (info s1) + 1, li_Metadata := li_Metadata new\<rparr>
       else SetLogInfo T c logID new s = (Inl RestConflict, s1))"
    and version: "ok s \<Longrightarrow> later s s1 \<Longrightarrow> li_Version (info s1) = li_Version (info s) \<Longrightarrow> info s1 = info s"
begin

lemma no_lost_update:
  assumes "ok s" "UpdateLogInfo T c logID tries fn s = (Inr newInfo, s')" "\<And>i i'. fn i = Inr i' \<Longrightarrow> li_Version i' = li_Version i"
  shows "\<exists>s0 s1 i'. ok s0 \<and> later s0 s1 \<and> fn (info s1) = Inr i' \<and> SetLogInfo T c logID i' s0 = (Inr newInfo, s') \<and>
    newInfo = info s' \<and> info s' = (info s1)\<lparr>li_Version := li_Version (info s1) + 1, li_Metadata := li_Metadata i'\<rparr>"
  using assms(1,2)
proof (induction tries arbitrary: s)
  case (Suc tries)
  obtain s1 where 1: "ok s1" "client_LogInfo T c logID s = (Inr (info s1), s1)" using get[OF Suc.prems(1)] by blast
  then obtain i' where i': "fn (info s1) = Inr i'" using Suc.prems(2) by (auto split: sum.splits)
  obtain s2 where 2: "ok s2" "later s1 s2"
    "if li_Version i' = li_Version (info s2)
     then \<exists>s3. ok s3 \<and> SetLogInfo T c logID i' s1 = (Inr (info s3), s3) \<and> info s3 = (info s2)\<lparr>li_Version := li_Version (info s2) + 1, li_Metadata := li_Metadata i'\<rparr>
     else SetLogInfo T c logID i' s1 = (Inl RestConflict, s2)" using put[OF 1(1)] by blast
  show ?case
  proof (cases "li_Version i' = li_Version (info s2)")
    case True
    then have "li_Version (info s2) = li_Version (info s1)" using assms(3)[OF i'] by simp
    then have same: "info s2 = info s1" by (rule version[OF 1(1) 2(2)])
    obtain s3 where 3: "ok s3" "SetLogInfo T c logID i' s1 = (Inr (info s3), s3)"
      "info s3 = (info s2)\<lparr>li_Version := li_Version (info s2) + 1, li_Metadata := li_Metadata i'\<rparr>" using 2(3) True by auto
    then have "newInfo = info s3" "s' = s3" using Suc.prems(2) 1(2) i' by simp_all
    then show ?thesis using 1(1) 2(2) 3(2,3) i' same by (intro exI[of _ s1] exI[of _ s2] exI[of _ i']) simp
  next
    case False
    then have "UpdateLogInfo T c logID tries fn s2 = (Inr newInfo, s')" using 2(3) 1(2) i' Suc.prems(2) by simp
    then show ?thesis using Suc.IH[OF 2(1)] by blast
  qed
qed simp

text \<open>Without other clients, the first try succeeds.\<close>

lemma alone_succeeds:
  assumes "ok s" "\<And>s1. later s s1 \<Longrightarrow> info s1 = info s \<and> (\<forall>s2. later s1 s2 \<longrightarrow> info s2 = info s)" "fn (info s) = Inr i'" "li_Version i' = li_Version (info s)"
  shows "\<exists>s'. UpdateLogInfo T c logID (Suc tries) fn s = (Inr (info s'), s') \<and>
    info s' = (info s)\<lparr>li_Version := li_Version (info s) + 1, li_Metadata := li_Metadata i'\<rparr>"
proof -
  obtain s1 where 1: "ok s1" "later s s1" "client_LogInfo T c logID s = (Inr (info s1), s1)" using get[OF assms(1)] by blast
  obtain s2 where 2: "ok s2" "later s1 s2"
    "if li_Version i' = li_Version (info s2)
     then \<exists>s3. ok s3 \<and> SetLogInfo T c logID i' s1 = (Inr (info s3), s3) \<and> info s3 = (info s2)\<lparr>li_Version := li_Version (info s2) + 1, li_Metadata := li_Metadata i'\<rparr>
     else SetLogInfo T c logID i' s1 = (Inl RestConflict, s2)" using put[OF 1(1)] by blast
  have same: "info s1 = info s" "info s2 = info s" using assms(2)[OF 1(2)] 2(2) by simp_all
  then obtain s3 where "SetLogInfo T c logID i' s1 = (Inr (info s3), s3)"
    "info s3 = (info s)\<lparr>li_Version := li_Version (info s) + 1, li_Metadata := li_Metadata i'\<rparr>" using 2(3) assms(4) by auto
  then show ?thesis using 1(3) assms(3) same by (intro exI[of _ s3]) simp
qed

end

text \<open>
  The server: before each request, other clients make the updates of one batch; then \<open>api_log\<close> handles the
  request. A handler that panics closes the connection.
\<close>

type_synonym 'u log_server = "('u Storage \<times> 'u) \<times> (int64 \<times> LogMetadata) list list"

fun other_updates :: "int64 list \<Rightarrow> (int64 \<times> LogMetadata) list \<Rightarrow> 'u Log \<times> 'u \<Rightarrow> 'u Log \<times> 'u" where
  "other_updates ks [] lu = lu"
| "other_updates ks ((v, md) # us) lu = other_updates ks us (case UpdateMetadata ks v md lu of Inr (_, lu) \<Rightarrow> lu | Inl _ \<Rightarrow> lu)"

definition others :: "int64 list \<Rightarrow> LogID \<Rightarrow> 'u log_server \<Rightarrow> 'u log_server" where
  "others ks i = (\<lambda>((s, u), batches).
     case (Storage_Log i s, batches) of
       ((Some l, True), b # bs) \<Rightarrow> (case other_updates ks b (l, u) of (l, u) \<Rightarrow> ((put_log i l s, u), bs))
     | _ \<Rightarrow> ((s, u), batches))"

definition log_transport :: "int64 list \<Rightarrow> LogID \<Rightarrow> world \<Rightarrow> 'u log_server transport" where
  "log_transport ks i w method url params body sv =
     (case others ks i sv of
        ((s, u), bs) \<Rightarrow>
          (case api_log ks \<lparr>rq_method = method, rq_vars = (\<lambda>name. LogID_Hex i), rq_query = (\<lambda>name. []), rq_body = body\<rparr> w (s, u) \<lparr>wr_out = [], wr_room = None\<rparr> of
             Some (Inr ((s, u), w, wr)) \<Rightarrow> (Inr (response_of (wr_out wr)), ((s, u), bs))
           | _ \<Rightarrow> (Inl EOF, ((s, u), bs))))"

definition log_of :: "LogID \<Rightarrow> 'u log_server \<Rightarrow> 'u Log" where
  "log_of i sv = the (fst (Storage_Log i (fst (fst sv))))"

definition server_ok :: "LogID \<Rightarrow> 'u log_server \<Rightarrow> bool" where
  "server_ok i sv \<longleftrightarrow> LogID_wf i \<and> (\<exists>l md. Storage_Log i (fst (fst sv)) = (Some l, True) \<and> lg_Metadata l = Some md) \<and> list_all (\<lambda>b. length b < 2 ^ 64) (snd sv)"

definition info_of :: "'u Log \<Rightarrow> LogInfo" where
  "info_of l = \<lparr>li_ID = LogID_Hex (lg_ID l), li_Version = lg_Version l, li_Metadata = the (lg_Metadata l), li_MaxFileSize = lg_MaxFileSize l, li_ReadOnly = lg_ReadOnly l\<rparr>"

lemma UpdateMetadata_cases:
  "UpdateMetadata ks v md (l, u) =
    (if lg_Version l = v then Inr (None, l\<lparr>lg_Version := v + 1, lg_Metadata := Some md\<rparr>,
       logEvent_Notify ks (info_of (l\<lparr>lg_Version := v + 1, lg_Metadata := Some md\<rparr>)) (lg_event l) u)
     else Inr (Some Log.ErrConflict, l, u))"
  by (simp add: UpdateMetadata_def logInfoNolock_def info_of_def Let_def)

lemma Log_LogInfo_of: "lg_Metadata l \<noteq> None \<Longrightarrow> Log_LogInfo l = Inr (info_of l)"
  by (auto simp: Log_LogInfo_def logInfoNolock_def info_of_def)

text \<open>A batch of updates raises the version by the number of those that succeed.\<close>

lemma other_updates_version:
  assumes "lg_Metadata l \<noteq> None"
  shows "\<exists>n \<le> length b. \<exists>l' u'. other_updates ks b (l, u) = (l', u') \<and> lg_Version l' = lg_Version l + word_of_nat n \<and>
    lg_Metadata l' \<noteq> None \<and> (n = 0 \<longrightarrow> l' = l) \<and> lg_ID l' = lg_ID l \<and> lg_MaxFileSize l' = lg_MaxFileSize l \<and> lg_ReadOnly l' = lg_ReadOnly l"
  using assms
proof (induction b arbitrary: l u)
  case (Cons p b)
  obtain v md where p: "p = (v, md)" by (cases p)
  show ?case
  proof (cases "lg_Version l = v")
    case True
    let ?l = "l\<lparr>lg_Version := v + 1, lg_Metadata := Some md\<rparr>"
    obtain n l' u' where n: "n \<le> length b" "other_updates ks b (?l, logEvent_Notify ks (info_of ?l) (lg_event l) u) = (l', u')"
      "lg_Version l' = lg_Version ?l + word_of_nat n" "lg_Metadata l' \<noteq> None" "lg_ID l' = lg_ID ?l" "lg_MaxFileSize l' = lg_MaxFileSize ?l" "lg_ReadOnly l' = lg_ReadOnly ?l"
      using Cons.IH[of ?l "logEvent_Notify ks (info_of ?l) (lg_event l) u"] by auto
    then show ?thesis using True p by (intro exI[of _ "Suc n"]) (auto simp: UpdateMetadata_cases add.assoc)
  next
    case False
    obtain n l' u' where "n \<le> length b" "other_updates ks b (l, u) = (l', u')" "lg_Version l' = lg_Version l + word_of_nat n"
      "lg_Metadata l' \<noteq> None" "n = 0 \<longrightarrow> l' = l" "lg_ID l' = lg_ID l" "lg_MaxFileSize l' = lg_MaxFileSize l" "lg_ReadOnly l' = lg_ReadOnly l"
      using Cons.IH[OF Cons.prems, of u] by auto
    then show ?thesis using False p by (intro exI[of _ n]) (auto simp: UpdateMetadata_cases)
  qed
qed simp

lemma others_ok:
  assumes "server_ok i sv"
  shows "server_ok i (others ks i sv) \<and>
    (lg_Version (log_of i (others ks i sv)) = lg_Version (log_of i sv) \<longrightarrow> log_of i (others ks i sv) = log_of i sv)"
proof -
  obtain s u bs where sv: "sv = ((s, u), bs)" by (metis surj_pair)
  obtain l where l: "Storage_Log i s = (Some l, True)" "lg_Metadata l \<noteq> None" and b: "list_all (\<lambda>b. length b < 2 ^ 64) bs" "LogID_wf i"
    using assms sv by (auto simp: server_ok_def)
  show ?thesis
  proof (cases bs)
    case Nil
    then show ?thesis using assms sv l by (simp add: others_def)
  next
    case (Cons b bs')
    obtain n l' u' where n: "n \<le> length b" "other_updates ks b (l, u) = (l', u')" "lg_Version l' = lg_Version l + word_of_nat n"
      "lg_Metadata l' \<noteq> None" "n = 0 \<longrightarrow> l' = l" using other_updates_version[OF l(2), of b ks u] by blast
    have "n = 0" if "(word_of_nat n :: int64) = 0" using that n(1) b Cons by (auto simp: word_of_nat_eq_0_iff dvd_def)
    then show ?thesis using n l b Cons sv
      by (auto simp: others_def server_ok_def log_of_def Storage_Log_def put_log_def)
  qed
qed


lemma server_metadata: "server_ok i sv \<Longrightarrow> lg_Metadata (log_of i sv) \<noteq> None"
  by (auto simp: server_ok_def log_of_def)

lemma api_log_of:
  assumes "server_ok i ((s, u), bs)" "rq_vars r ''log-id'' = LogID_Hex i"
  shows "getLog r s wr = (Some (i, Some (log_of i ((s, u), bs))), wr)"
  using assms by (auto simp: server_ok_def getLog_def LogID_Unhex_Hex log_of_def)

lemma log_transport_get:
  assumes "server_ok i sv"
  shows "log_transport ks i w ''GET'' url params None sv = (Inr (response_of [WriteJson (JLogInfo (info_of (log_of i (others ks i sv))))]), others ks i sv)"
proof -
  obtain s u bs where sv: "others ks i sv = ((s, u), bs)" by (metis surj_pair)
  have "server_ok i ((s, u), bs)" using others_ok[OF assms, of ks] sv by simp
  then show ?thesis using sv api_log_of[of i s u bs] Log_LogInfo_of[OF server_metadata[of i "((s, u), bs)"]]
    by (simp add: log_transport_def api_log_def log_Get_def writeJson_def wr_write_def)
qed

lemma log_transport_put:
  assumes "server_ok i sv"
  shows "\<exists>sv2. server_ok i sv2 \<and>
    (if li_Version new = lg_Version (log_of i (others ks i sv))
     then log_transport ks i w ''PUT'' url params (Some new) sv = (Inr (response_of [WriteHeader StatusOK, WriteJson (JLogInfo (info_of (log_of i sv2)))]), sv2) \<and>
       log_of i sv2 = (log_of i (others ks i sv))\<lparr>lg_Version := li_Version new + 1, lg_Metadata := Some (li_Metadata new)\<rparr>
     else log_transport ks i w ''PUT'' url params (Some new) sv =
       (Inr (response_of [WriteHeader StatusConflict, WriteJson (JLogInfo (info_of (log_of i (others ks i sv))))]), sv2) \<and> sv2 = others ks i sv)"
proof -
  obtain s u bs where sv: "others ks i sv = ((s, u), bs)" by (metis surj_pair)
  have ok: "server_ok i ((s, u), bs)" using others_ok[OF assms, of ks] sv by simp
  let ?l = "log_of i ((s, u), bs)"
  let ?r = "\<lparr>rq_method = ''PUT'', rq_vars = (\<lambda>name. LogID_Hex i), rq_query = (\<lambda>name. []), rq_body = Some new\<rparr>"
  have g: "getLog ?r s \<lparr>wr_out = [], wr_room = None\<rparr> = (Some (i, Some ?l), \<lparr>wr_out = [], wr_room = None\<rparr>)" "lg_Metadata ?l \<noteq> None"
    using api_log_of[OF ok] server_metadata[OF ok] by simp_all
  note put = log_transport_def api_log_def log_Put_def readJson_def UpdateMetadata_cases Log_LogInfo_of writeJson_def http_WriteHeader_def wr_write_def
  show ?thesis
  proof (cases "li_Version new = lg_Version ?l")
    case True
    let ?l2 = "?l\<lparr>lg_Version := li_Version new + 1, lg_Metadata := Some (li_Metadata new)\<rparr>"
    let ?sv2 = "((put_log i ?l2 s, logEvent_Notify ks (info_of ?l2) (lg_event ?l) u), bs)"
    have "server_ok i ?sv2" "log_of i ?sv2 = ?l2" using ok by (auto simp: server_ok_def log_of_def Storage_Log_def put_log_def)
    then show ?thesis using True sv g by (intro exI[of _ ?sv2]) (simp add: put)
  next
    case False
    have "put_log i ?l s = s" using ok by (auto simp: put_log_def log_of_def server_ok_def Storage_Log_def map_upd_triv split: option.splits)
    then show ?thesis using False sv g ok by (intro exI[of _ "((s, u), bs)"]) (simp add: put)
  qed
qed

interpretation log_updates: versioned_log "log_transport ks i w" c "LogID_Hex i" "server_ok i" "\<lambda>sv. info_of (log_of i sv)" "\<lambda>sv sv1. sv1 = others ks i sv"
  for ks i w c
proof
  fix sv :: "'a log_server" and sv1 and new :: LogInfo
  assume ok: "server_ok i sv"
  show "\<exists>s1. server_ok i s1 \<and> s1 = others ks i sv \<and> client_LogInfo (log_transport ks i w) c (LogID_Hex i) sv = (Inr (info_of (log_of i s1)), s1)"
    using others_ok[OF ok, of ks] log_transport_get[OF ok]
    by (intro exI[of _ "others ks i sv"]) (simp add: client_LogInfo_def getJSON_def rest_get_def wrapResp_def response_of_def json_value_def info_value_def)
  show "\<exists>s1. server_ok i s1 \<and> s1 = others ks i sv \<and>
    (if li_Version new = li_Version (info_of (log_of i s1))
     then \<exists>s2. server_ok i s2 \<and> SetLogInfo (log_transport ks i w) c (LogID_Hex i) new sv = (Inr (info_of (log_of i s2)), s2) \<and>
       info_of (log_of i s2) = (info_of (log_of i s1))\<lparr>li_Version := li_Version (info_of (log_of i s1)) + 1, li_Metadata := li_Metadata new\<rparr>
     else SetLogInfo (log_transport ks i w) c (LogID_Hex i) new sv = (Inl RestConflict, s1))"
    using others_ok[OF ok, of ks] log_transport_put[OF ok, of new ks w "client_url c [''/log'', LogID_Hex i]" Map.empty]
    by (intro exI[of _ "others ks i sv"]) (auto simp: SetLogInfo_def putJSON_def rest_put_def wrapResp_def response_of_def json_value_def info_value_def info_of_def StatusOK_def StatusConflict_def)
  show "info_of (log_of i sv1) = info_of (log_of i sv)" if "sv1 = others ks i sv" "li_Version (info_of (log_of i sv1)) = li_Version (info_of (log_of i sv))"
    using others_ok[OF ok, of ks] that by (simp add: info_of_def)
qed

subsection \<open>Lookups and searches over the handlers\<close>

text \<open>
  A transport that takes one request to a handler: the handler writes on a fresh response; when it panics, the
  connection is closed.
\<close>

definition delivers :: "'s transport \<Rightarrow> string \<Rightarrow> string \<Rightarrow> (string \<rightharpoonup> string) \<Rightarrow> LogInfo option \<Rightarrow> (writer \<Rightarrow> 's \<Rightarrow> (writer \<times> 's) go) \<Rightarrow> bool" where
  "delivers T method url params b handler \<longleftrightarrow>
     (\<forall>s. T method url params b s =
       (case handler \<lparr>wr_out = [], wr_room = None\<rparr> s of
          Inl f \<Rightarrow> (Inl EOF, s)
        | Inr (wr, s) \<Rightarrow> (Inr (response_of (wr_out wr)), s)))"

definition symbol_request :: "string \<Rightarrow> uintptr \<Rightarrow> request" where
  "symbol_request logID pc =
     \<lparr>rq_method = ''GET'', rq_vars = (\<lambda>name. if name = ''log-id'' then logID else FormatUintptr pc), rq_query = (\<lambda>name. []), rq_body = None\<rparr>"

text \<open>The two routes a lookup may take: the whole table, or the one entry.\<close>

definition serves_symbols ::
  "'u Storage transport \<Rightarrow> ClientWithCtx \<Rightarrow> string \<Rightarrow> uintptr \<Rightarrow> string \<Rightarrow> (request \<Rightarrow> 'u Storage \<Rightarrow> writer \<Rightarrow> writer go) \<Rightarrow> bool" where
  "serves_symbols T c logID pc path entry \<longleftrightarrow>
     delivers T ''GET'' (client_url c [''/log'', logID, ''symbols'']) Map.empty None
       (\<lambda>wr s. go_bind (api_symbols (symbol_request logID pc) s wr) (\<lambda>wr. Inr (wr, s))) \<and>
     delivers T ''GET'' (client_url c [''/log'', logID, ''symbol'', path, FormatUintptr pc]) Map.empty None
       (\<lambda>wr s. go_bind (entry (symbol_request logID pc) s wr) (\<lambda>wr. Inr (wr, s)))"

definition has_symbols :: "'u Storage \<Rightarrow> LogID \<Rightarrow> Symbols \<Rightarrow> bool" where
  "has_symbols s i sy \<longleftrightarrow> LogID_wf i \<and> symbols_wf (sym_data sy) \<and> (\<exists>l. Storage_Log i s = (Some l, True) \<and> lg_symbols l = Some sy)"

lemma ParseUint_FormatUint: "ParseUint (FormatUint v) = Inr (unat v)"
  using unsigned_less[of v, where ?'a = nat] by (simp add: ParseUint_def FormatUint_def parse_digits_format_nat)

lemma ParseUintptr_Format: "ParseUintptr (FormatUintptr pc) = (pc, None)"
  by (simp add: ParseUintptr_def FormatUintptr_def parseUintptr_def ParseUint_FormatUint)

lemma getLogPC_symbols:
  assumes "has_symbols s i sy"
  shows "\<exists>l. getLogPC (symbol_request (LogID_Hex i) pc) s wr = (Some ((i, Some l), pc), wr) \<and>
    getLog (symbol_request (LogID_Hex i) pc) s wr = (Some (i, Some l), wr) \<and> lg_symbols l = Some sy"
  using assms ParseUintptr_Format[of pc]
  by (auto simp: has_symbols_def getLogPC_def getLog_def symbol_request_def LogID_Unhex_Hex ParseUintptr_def)

lemma api_symbols_answer:
  assumes "has_symbols s i sy"
  shows "api_symbols (symbol_request (LogID_Hex i) pc) s \<lparr>wr_out = [], wr_room = None\<rparr> = Inr \<lparr>wr_out = [WriteJson (JSymbols (sym_data sy))], wr_room = None\<rparr>"
proof -
  obtain l where "getLog (symbol_request (LogID_Hex i) pc) s \<lparr>wr_out = [], wr_room = None\<rparr> = (Some (i, Some l), \<lparr>wr_out = [], wr_room = None\<rparr>)"
    "lg_symbols l = Some sy" using getLogPC_symbols[OF assms] by blast
  then show ?thesis by (simp add: api_symbols_def deref_def Log_Symbols_def Symbols_Save_def wr_write_def)
qed

text \<open>The cache of the log has the table of the server, or nothing yet.\<close>

definition cached :: "ClientWithCtx \<Rightarrow> LogID \<Rightarrow> Symbols \<Rightarrow> bool" where
  "cached c i sy \<longleftrightarrow> (\<exists>sy'. cl_cache c (LogID_Hex i) = Some (Some sy') \<and> sym_data sy' = sym_data sy)"

definition cache_ok :: "ClientWithCtx \<Rightarrow> LogID \<Rightarrow> Symbols \<Rightarrow> bool" where
  "cache_ok c i sy \<longleftrightarrow> cl_cache c (LogID_Hex i) = None \<or> cl_cache c (LogID_Hex i) = Some None \<or> cached c i sy"

text \<open>A filled cache answers without asking the server; an empty one is filled with the table of the server.\<close>

lemma client_Symbols_hit:
  assumes "cached c i sy"
  obtains sy' where "\<And>T s. client_Symbols T (LogID_Hex i) (c, s) = Inr (Inr (Some sy'), c, s)" "sym_data sy' = sym_data sy"
  using assms that by (auto simp: cached_def client_Symbols_def apiCache_Log_def logCache_Symbols_def)

lemma client_Symbols_loads:
  assumes "has_symbols s i sy" "serves_symbols T c (LogID_Hex i) pc path entry" "cache_ok c i sy"
  shows "\<exists>c' sy'. client_Symbols T (LogID_Hex i) (c, s) = Inr (Inr (Some sy'), c', s) \<and> sym_data sy' = sym_data sy \<and>
    cached c' i sy \<and> cl_UseCache c' = cl_UseCache c"
proof (cases "cached c i sy")
  case True
  then show ?thesis using client_Symbols_hit by metis
next
  case False
  then have none: "logCache_Symbols (cl_cache c (LogID_Hex i)) = None" using assms(3) by (auto simp: cache_ok_def logCache_Symbols_def)
  have "T ''GET'' (client_url c [''/log'', LogID_Hex i, ''symbols'']) Map.empty None s =
      (Inr \<lparr>rs_status = StatusOK, rs_body = [BodyJson (JSymbols (sym_data sy))]\<rparr>, s)"
    using assms(2) api_symbols_answer[OF assms(1)] by (simp add: serves_symbols_def delivers_def response_of_def)
  moreover have "SymbolsData_Validate (sym_data sy) = None" using assms(1) by (simp add: has_symbols_def Validate_None)
  ultimately show ?thesis using none
    by (simp add: client_Symbols_def apiCache_Log_def SyncSymbols_def getJSON_def rest_get_def wrapResp_def json_value_def
        Symbols_Load_def SetSymbols_def AddLog_def cached_def logCache_Symbols_def)
qed

text \<open>Looking up in the cache and asking the server: the same entry, or an error on both sides.\<close>

lemma lookup_hit:
  assumes "cached c i sy" "cl_UseCache c" and look: "\<And>sy'. sym_data sy' = sym_data sy \<Longrightarrow> look sy' = look sy"
  shows "client_lookup look err path sel validate T (LogID_Hex i) pc (c, s) =
    (case look sy pc of (x, True) \<Rightarrow> go_bind (validate pc x) (\<lambda>_. Inr (Inr x, c, s)) | (x, False) \<Rightarrow> Inr (Inl err, c, s))"
proof -
  obtain sy' where "client_Symbols T (LogID_Hex i) (c, s) = Inr (Inr (Some sy'), c, s)" "sym_data sy' = sym_data sy"
    using client_Symbols_hit[OF assms(1)] by metis
  then show ?thesis using look[of sy'] assms(2) by (auto simp: client_lookup_def deref_def split: prod.splits bool.splits)
qed

lemma lookup_both:
  assumes s: "has_symbols s i sy" "serves_symbols T c (LogID_Hex i) pc path entry" "cache_ok c i sy"
    and look: "\<And>sy'. sym_data sy' = sym_data sy \<Longrightarrow> look sy' = look sy"
    and answer: "entry (symbol_request (LogID_Hex i) pc) s \<lparr>wr_out = [], wr_room = None\<rparr> =
      Inr \<lparr>wr_out = (case look sy pc of (x, True) \<Rightarrow> [WriteJson (js x)] | (x, False) \<Rightarrow> HttpError StatusNotFound msg # rest), wr_room = None\<rparr>"
    and sel: "\<And>x. sel (js x) = Some x"
  shows "\<exists>c'. cached c' i sy \<and> cl_UseCache c' \<and> client_lookup look err path sel validate T (LogID_Hex i) pc (c\<lparr>cl_UseCache := True\<rparr>, s) =
      (case look sy pc of (x, True) \<Rightarrow> go_bind (validate pc x) (\<lambda>_. Inr (Inr x, c', s)) | (x, False) \<Rightarrow> Inr (Inl err, c', s))"
    "\<exists>e. client_lookup look err path sel validate T (LogID_Hex i) pc (c\<lparr>cl_UseCache := False\<rparr>, s) =
      (case look sy pc of (x, True) \<Rightarrow> go_bind (validate pc x) (\<lambda>_. Inr (Inr x, c\<lparr>cl_UseCache := False\<rparr>, s)) | (x, False) \<Rightarrow> Inr (Inl e, c\<lparr>cl_UseCache := False\<rparr>, s))"
proof -
  have srv: "serves_symbols T (c\<lparr>cl_UseCache := b\<rparr>) (LogID_Hex i) pc path entry" for b
    using s(2) by (simp add: serves_symbols_def client_url_def)
  have "cache_ok (c\<lparr>cl_UseCache := True\<rparr>) i sy" using s(3) by (simp add: cache_ok_def cached_def)
  from client_Symbols_loads[OF s(1) srv[of True] this]
  obtain c' sy' where "client_Symbols T (LogID_Hex i) (c\<lparr>cl_UseCache := True\<rparr>, s) = Inr (Inr (Some sy'), c', s)" "sym_data sy' = sym_data sy"
    "cached c' i sy" "cl_UseCache c'" by auto
  then show "\<exists>c'. cached c' i sy \<and> cl_UseCache c' \<and> client_lookup look err path sel validate T (LogID_Hex i) pc (c\<lparr>cl_UseCache := True\<rparr>, s) =
      (case look sy pc of (x, True) \<Rightarrow> go_bind (validate pc x) (\<lambda>_. Inr (Inr x, c', s)) | (x, False) \<Rightarrow> Inr (Inl err, c', s))"
    using look[of sy'] by (intro exI[of _ c']) (auto simp: client_lookup_def deref_def split: prod.splits bool.splits)
  have "T ''GET'' (client_url c [''/log'', LogID_Hex i, ''symbol'', path, FormatUintptr pc]) Map.empty None s =
      (Inr (response_of (case look sy pc of (x, True) \<Rightarrow> [WriteJson (js x)] | (x, False) \<Rightarrow> HttpError StatusNotFound msg # rest)), s)"
    using s(2) answer by (simp add: serves_symbols_def delivers_def)
  then show "\<exists>e. client_lookup look err path sel validate T (LogID_Hex i) pc (c\<lparr>cl_UseCache := False\<rparr>, s) =
      (case look sy pc of (x, True) \<Rightarrow> go_bind (validate pc x) (\<lambda>_. Inr (Inr x, c\<lparr>cl_UseCache := False\<rparr>, s)) | (x, False) \<Rightarrow> Inr (Inl e, c\<lparr>cl_UseCache := False\<rparr>, s))"
    by (auto simp: client_lookup_def client_url_def getJSON_def rest_get_def wrapResp_def response_of_def json_value_def sel StatusOK_def StatusNotFound_def
        split: prod.splits bool.splits)
qed

lemma GoFunc_answer:
  assumes "has_symbols s i sy"
  shows "api_goFunc (symbol_request (LogID_Hex i) pc) s \<lparr>wr_out = [], wr_room = None\<rparr> =
    Inr \<lparr>wr_out = (case Symbols_GoFunc sy pc of (f, True) \<Rightarrow> [WriteJson (JFunc f)] | (f, False) \<Rightarrow> HttpError StatusNotFound ''not found function'' # []), wr_room = None\<rparr>"
  using getLogPC_symbols[OF assms, of pc "\<lparr>wr_out = [], wr_room = None\<rparr>"]
  by (auto simp: api_goFunc_def symbols_of_def deref_def Log_Symbols_def writeObj_def http_Error_def wr_write_def split: prod.splits bool.splits)

lemma GoLine_answer:
  assumes "has_symbols s i sy"
  shows "api_goLine (symbol_request (LogID_Hex i) pc) s \<lparr>wr_out = [], wr_room = None\<rparr> =
    Inr \<lparr>wr_out = (case Symbols_GoLine sy pc of (l, True) \<Rightarrow> [WriteJson (JLine l)]
      | (l, False) \<Rightarrow> HttpError StatusNotFound ''not found line'' # [WriteJson (JLine (fst (Symbols_GoLine sy pc)))]), wr_room = None\<rparr>"
  using getLogPC_symbols[OF assms, of pc "\<lparr>wr_out = [], wr_room = None\<rparr>"]
  by (auto simp: api_goLine_def symbols_of_def deref_def Log_Symbols_def writeObj_def http_Error_def wr_write_def split: prod.splits bool.splits)

lemma GoModule_answer:
  assumes "has_symbols s i sy"
  shows "api_goModule (symbol_request (LogID_Hex i) pc) s \<lparr>wr_out = [], wr_room = None\<rparr> =
    Inr \<lparr>wr_out = (case Symbols_GoModule sy pc of (m, True) \<Rightarrow> [WriteJson (JModule m)] | (m, False) \<Rightarrow> HttpError StatusNotFound ''not found module'' # []), wr_room = None\<rparr>"
  using getLogPC_symbols[OF assms, of pc "\<lparr>wr_out = [], wr_room = None\<rparr>"]
  by (auto simp: api_goModule_def symbols_of_def deref_def Log_Symbols_def writeObj_def http_Error_def wr_write_def split: prod.splits bool.splits)

lemma lookup_cong:
  "sym_data sy' = sym_data sy \<Longrightarrow> Symbols_GoFunc sy' = Symbols_GoFunc sy"
  "sym_data sy' = sym_data sy \<Longrightarrow> Symbols_GoLine sy' = Symbols_GoLine sy"
  "sym_data sy' = sym_data sy \<Longrightarrow> Symbols_GoModule sy' = Symbols_GoModule sy"
  by (rule ext, simp only: Symbols_GoFunc_def Symbols_GoLine_def Symbols_GoModule_def)+


text \<open>What is found in a well-formed table passes the check of the client; a module must have a name, too.\<close>

lemma GoFunc_valid:
  assumes "symbols_wf (sym_data sy)" "Symbols_GoFunc sy pc = (f, True)"
  shows "validateGoFunc pc f = Inr ()"
proof -
  obtain m where "scan_last gf_Entry m pc (sd_Funcs (sym_data sy)) None = Some f" using assms GoFunc_found by blast
  then have "f \<in> set (sd_Funcs (sym_data sy))" "gf_Entry f \<le> pc"
    using sorted_keys(1)[OF assms(1)] by (auto simp: scan_last_Some in_reach_def)
  then show ?thesis using assms(1) by (auto simp: validateGoFunc_def symbols_wf_def funcs_ok_def list_all_iff)
qed

lemma GoLine_valid:
  assumes "symbols_wf (sym_data sy)" "Symbols_GoLine sy pc = (l, True)"
  shows "validateGoLine pc l = Inr ()"
proof -
  obtain m where "scan_last gl_PC m pc (sd_Lines (sym_data sy)) None = Some l" using assms GoLine_found by blast
  then have "l \<in> set (sd_Lines (sym_data sy))" "gl_PC l \<le> pc"
    using sorted_keys(2)[OF assms(1)] by (auto simp: scan_last_Some in_reach_def)
  then show ?thesis using assms(1) by (auto simp: validateGoLine_def symbols_wf_def lines_ok_def list_all_iff)
qed

lemma decode_calls:
  "decode_values (\<lambda>j. case j of JFuncLog fl \<Rightarrow> Some fl | _ \<Rightarrow> None) url (concat (map reply_body (map (\<lambda>fl. WriteJson (JFuncLog fl)) fls))) = (fls, None)"
  by (induction fls) auto

lemma status_of_calls: "reply_status (map (\<lambda>fl. WriteJson (JFuncLog fl)) fls) = StatusOK"
  by (cases fls) auto

definition search_request :: "LogID \<Rightarrow> SearchFuncLogParams \<Rightarrow> request" where
  "search_request i p = \<lparr>rq_method = ''GET'', rq_vars = (\<lambda>name. LogID_Hex i), rq_query = sent_query p, rq_body = None\<rparr>"

subsection \<open>Properties\<close>

text \<open>
  C15. \<open>UpdateLogInfo\<close> loses no update. Whatever other clients do between the requests of a client (fewer than
  \<open>2 ^ 64\<close> updates at a time), when it succeeds, the accepted update was computed by \<open>fn\<close> from exactly
  the info the log had at the moment of acceptance, the log has the new metadata and the next version, and the
  info returned is that of the log. With no other clients one try is enough.
\<close>

theorem UpdateLogInfo_loses_no_update:
  assumes "server_ok i sv" "\<forall>x x'. fn x = Inr x' \<longrightarrow> li_Version x' = li_Version x"
  shows "(\<forall>newInfo sv'. UpdateLogInfo (log_transport ks i w) c (LogID_Hex i) tries fn sv = (Inr newInfo, sv') \<longrightarrow>
      (\<exists>sv0 x'. fn (info_of (log_of i (others ks i sv0))) = Inr x' \<and>
        SetLogInfo (log_transport ks i w) c (LogID_Hex i) x' sv0 = (Inr newInfo, sv') \<and> newInfo = info_of (log_of i sv') \<and>
        newInfo = (info_of (log_of i (others ks i sv0)))\<lparr>li_Version := lg_Version (log_of i (others ks i sv0)) + 1, li_Metadata := li_Metadata x'\<rparr>)) \<and>
    (\<forall>x'. snd sv = [] \<and> 0 < tries \<and> fn (info_of (log_of i sv)) = Inr x' \<longrightarrow>
      (\<exists>sv'. UpdateLogInfo (log_transport ks i w) c (LogID_Hex i) tries fn sv = (Inr (info_of (log_of i sv')), sv') \<and>
        info_of (log_of i sv') = (info_of (log_of i sv))\<lparr>li_Version := lg_Version (log_of i sv) + 1, li_Metadata := li_Metadata x'\<rparr>))"
proof (intro conjI allI impI)
  fix newInfo sv' assume "UpdateLogInfo (log_transport ks i w) c (LogID_Hex i) tries fn sv = (Inr newInfo, sv')"
  from log_updates.no_lost_update[OF assms(1) this] assms(2)
  show "\<exists>sv0 x'. fn (info_of (log_of i (others ks i sv0))) = Inr x' \<and>
      SetLogInfo (log_transport ks i w) c (LogID_Hex i) x' sv0 = (Inr newInfo, sv') \<and> newInfo = info_of (log_of i sv') \<and>
      newInfo = (info_of (log_of i (others ks i sv0)))\<lparr>li_Version := lg_Version (log_of i (others ks i sv0)) + 1, li_Metadata := li_Metadata x'\<rparr>"
    by (auto simp: info_of_def)
next
  fix x' assume x': "snd sv = [] \<and> 0 < tries \<and> fn (info_of (log_of i sv)) = Inr x'"
  then have "others ks i sv = sv" by (cases sv) (auto simp: others_def split: prod.splits option.splits bool.splits)
  moreover obtain n where "tries = Suc n" using x' by (cases tries) auto
  ultimately show "\<exists>sv'. UpdateLogInfo (log_transport ks i w) c (LogID_Hex i) tries fn sv = (Inr (info_of (log_of i sv')), sv') \<and>
      info_of (log_of i sv') = (info_of (log_of i sv))\<lparr>li_Version := lg_Version (log_of i sv) + 1, li_Metadata := li_Metadata x'\<rparr>"
    using log_updates.alone_succeeds[OF assms(1), of ks fn x' w c n] x' assms(2) by (simp add: info_of_def)
qed

definition sample_log_server :: "(int64 \<times> LogMetadata) list list \<Rightarrow> unit log_server" where
  "sample_log_server bs = ((\<lparr>sg_Root = \<lparr>dl_Root = ''/logs''\<rparr>, sg_ReadOnly = False,
     sg_files = [replicate 16 1 \<mapsto> Some ((new_Log (replicate 16 1) \<lparr>dl_Root = ''/logs''\<rparr> 0 False)\<lparr>lg_Version := 4, lg_Metadata := Some zero_LogMetadata\<rparr>)]\<rparr>, ()), bs)"

theorem UpdateLogInfo_loses_no_update_witness:
  "\<exists>sv'. UpdateLogInfo (log_transport [] (replicate 16 1) \<lparr>files = Map.empty, faults = []\<rparr>) (WithCtx ''h'') (LogID_Hex (replicate 16 1)) 2
      (\<lambda>x. Inr (x\<lparr>li_Metadata := zero_LogMetadata\<lparr>md_PID := 5\<rparr>\<rparr>)) (sample_log_server []) = (Inr (info_of (log_of (replicate 16 1) sv')), sv') \<and>
    lg_Version (log_of (replicate 16 1) sv') = 5"
proof -
  let ?i = "replicate 16 1 :: LogID" and ?sv = "sample_log_server []" and ?fn = "(\<lambda>x. Inr (x\<lparr>li_Metadata := zero_LogMetadata\<lparr>md_PID := 5\<rparr>\<rparr>)) :: LogInfo \<Rightarrow> rest_error + LogInfo"
  have ok: "server_ok ?i ?sv" by (simp add: server_ok_def sample_log_server_def Storage_Log_def new_Log_def LogID_wf_def)
  have v: "\<forall>x x'. ?fn x = Inr x' \<longrightarrow> li_Version x' = li_Version x" by auto
  have l: "snd ?sv = []" "lg_Version (log_of ?i ?sv) = 4" by (simp_all add: sample_log_server_def log_of_def Storage_Log_def)
  have "snd ?sv = [] \<and> 0 < (2 :: nat) \<and> ?fn (info_of (log_of ?i ?sv)) = Inr ((info_of (log_of ?i ?sv))\<lparr>li_Metadata := zero_LogMetadata\<lparr>md_PID := 5\<rparr>\<rparr>)"
    using l(1) by simp
  from UpdateLogInfo_loses_no_update[where fn = ?fn and tries = 2 and ks = "[]" and w = "\<lparr>files = Map.empty, faults = []\<rparr>" and c = "WithCtx ''h''", OF ok v, THEN conjunct2, THEN spec, THEN mp, OF this]
  obtain sv' where "UpdateLogInfo (log_transport [] ?i \<lparr>files = Map.empty, faults = []\<rparr>) (WithCtx ''h'') (LogID_Hex ?i) 2 ?fn ?sv = (Inr (info_of (log_of ?i sv')), sv')"
    "info_of (log_of ?i sv') = (info_of (log_of ?i ?sv))\<lparr>li_Version := lg_Version (log_of ?i ?sv) + 1, li_Metadata := zero_LogMetadata\<lparr>md_PID := 5\<rparr>\<rparr>"
    by auto
  moreover from this(2) have "lg_Version (log_of ?i sv') = 5" using l(2) by (simp add: info_of_def)
  ultimately show ?thesis by blast
qed

text \<open>
  C28. The cache of symbols is transparent. For a log with a valid table, asking for a function or a line through the cache
  of the client and asking the server gives the same entry, the one of the table; when there is none, both
  return an error. The checks of the client never panic. This holds whether the cache is still empty or already has the table. After the
  first lookup the cache has it, and every further lookup of a function or a line is answered from it alone, whatever the server does. (A table that has
  changed at the server since it was downloaded, as it can for a running trace, is not covered.)
\<close>

theorem Cached_lookups_agree:
  fixes T :: "'a Storage transport"
  assumes "has_symbols s i sy" "cache_ok c i sy"
    "serves_symbols T c (LogID_Hex i) pc ''func'' api_goFunc" "serves_symbols T c (LogID_Hex i) pc ''line'' api_goLine"
  shows "\<exists>c1 c2 e1 e2.
    client_GoFunc T (LogID_Hex i) pc (c\<lparr>cl_UseCache := True\<rparr>, s) = Inr (case Symbols_GoFunc sy pc of (f, True) \<Rightarrow> Inr f | (f, False) \<Rightarrow> Inl NotFoundGoFunc, c1, s) \<and>
    client_GoFunc T (LogID_Hex i) pc (c\<lparr>cl_UseCache := False\<rparr>, s) = Inr (case Symbols_GoFunc sy pc of (f, True) \<Rightarrow> Inr f | (f, False) \<Rightarrow> Inl e1, c\<lparr>cl_UseCache := False\<rparr>, s) \<and>
    client_GoLine T (LogID_Hex i) pc (c\<lparr>cl_UseCache := True\<rparr>, s) = Inr (case Symbols_GoLine sy pc of (l, True) \<Rightarrow> Inr l | (l, False) \<Rightarrow> Inl NotFoundGoLine, c2, s) \<and>
    client_GoLine T (LogID_Hex i) pc (c\<lparr>cl_UseCache := False\<rparr>, s) = Inr (case Symbols_GoLine sy pc of (l, True) \<Rightarrow> Inr l | (l, False) \<Rightarrow> Inl e2, c\<lparr>cl_UseCache := False\<rparr>, s) \<and>
    (\<forall>(T' :: 'a Storage transport) pc' s'.
      client_GoFunc T' (LogID_Hex i) pc' (c1, s') = Inr (case Symbols_GoFunc sy pc' of (f, True) \<Rightarrow> Inr f | (f, False) \<Rightarrow> Inl NotFoundGoFunc, c1, s') \<and>
      client_GoLine T' (LogID_Hex i) pc' (c1, s') = Inr (case Symbols_GoLine sy pc' of (l, True) \<Rightarrow> Inr l | (l, False) \<Rightarrow> Inl NotFoundGoLine, c1, s') \<and>
      client_GoFunc T' (LogID_Hex i) pc' (c2, s') = Inr (case Symbols_GoFunc sy pc' of (f, True) \<Rightarrow> Inr f | (f, False) \<Rightarrow> Inl NotFoundGoFunc, c2, s') \<and>
      client_GoLine T' (LogID_Hex i) pc' (c2, s') = Inr (case Symbols_GoLine sy pc' of (l, True) \<Rightarrow> Inr l | (l, False) \<Rightarrow> Inl NotFoundGoLine, c2, s'))"
proof -
  have wf: "symbols_wf (sym_data sy)" using assms(1) by (simp add: has_symbols_def)
  have f: "(case Symbols_GoFunc sy q of (f, True) \<Rightarrow> go_bind (validateGoFunc q f) (\<lambda>_. Inr (Inr f, c', t)) | (f, False) \<Rightarrow> Inr (Inl e, c', t)) =
      Inr (case Symbols_GoFunc sy q of (f, True) \<Rightarrow> Inr f | (f, False) \<Rightarrow> Inl e, c', t)" for c' :: ClientWithCtx and e :: rest_error and t q
    using GoFunc_valid[OF wf] by (auto split: prod.splits bool.splits)
  have l: "(case Symbols_GoLine sy q of (l, True) \<Rightarrow> go_bind (validateGoLine q l) (\<lambda>_. Inr (Inr l, c', t)) | (l, False) \<Rightarrow> Inr (Inl e, c', t)) =
      Inr (case Symbols_GoLine sy q of (l, True) \<Rightarrow> Inr l | (l, False) \<Rightarrow> Inl e, c', t)" for c' :: ClientWithCtx and e :: rest_error and t q
    using GoLine_valid[OF wf] by (auto split: prod.splits bool.splits)
  note F = lookup_both[where look = Symbols_GoFunc and js = JFunc and sel = "\<lambda>j. case j of JFunc f \<Rightarrow> Some f | _ \<Rightarrow> None" and err = NotFoundGoFunc and validate = validateGoFunc,
      OF assms(1,3,2) lookup_cong(1) GoFunc_answer[OF assms(1)], folded client_GoFunc_def, unfolded f]
  note L = lookup_both[where look = Symbols_GoLine and js = JLine and sel = "\<lambda>j. case j of JLine l \<Rightarrow> Some l | _ \<Rightarrow> None" and err = NotFoundGoLine and validate = validateGoLine,
      OF assms(1,4,2) lookup_cong(2) GoLine_answer[OF assms(1)], folded client_GoLine_def, unfolded l]
  have hit: "client_GoFunc T' (LogID_Hex i) pc' (c', s') = Inr (case Symbols_GoFunc sy pc' of (f, True) \<Rightarrow> Inr f | (f, False) \<Rightarrow> Inl NotFoundGoFunc, c', s') \<and>
      client_GoLine T' (LogID_Hex i) pc' (c', s') = Inr (case Symbols_GoLine sy pc' of (l, True) \<Rightarrow> Inr l | (l, False) \<Rightarrow> Inl NotFoundGoLine, c', s')"
    if "cached c' i sy" "cl_UseCache c'" for T' pc' c' s'
    using lookup_hit[where look = Symbols_GoFunc and err = NotFoundGoFunc and path = "''func''" and validate = validateGoFunc and T = T' and pc = pc' and s = s'
          and sel = "\<lambda>j. case j of JFunc f \<Rightarrow> Some f | _ \<Rightarrow> None", OF that lookup_cong(1), unfolded f]
      lookup_hit[where look = Symbols_GoLine and err = NotFoundGoLine and path = "''line''" and validate = validateGoLine and T = T' and pc = pc' and s = s'
          and sel = "\<lambda>j. case j of JLine l \<Rightarrow> Some l | _ \<Rightarrow> None", OF that lookup_cong(2), unfolded l]
    unfolding client_GoFunc_def client_GoLine_def by (intro conjI)
  obtain c1 e1 where c1: "cached c1 i sy" "cl_UseCache c1" and
      F: "client_GoFunc T (LogID_Hex i) pc (c\<lparr>cl_UseCache := True\<rparr>, s) = Inr (case Symbols_GoFunc sy pc of (f, True) \<Rightarrow> Inr f | (f, False) \<Rightarrow> Inl NotFoundGoFunc, c1, s)"
        "client_GoFunc T (LogID_Hex i) pc (c\<lparr>cl_UseCache := False\<rparr>, s) = Inr (case Symbols_GoFunc sy pc of (f, True) \<Rightarrow> Inr f | (f, False) \<Rightarrow> Inl e1, c\<lparr>cl_UseCache := False\<rparr>, s)"
    using F by fastforce
  obtain c2 e2 where c2: "cached c2 i sy" "cl_UseCache c2" and
      L: "client_GoLine T (LogID_Hex i) pc (c\<lparr>cl_UseCache := True\<rparr>, s) = Inr (case Symbols_GoLine sy pc of (l, True) \<Rightarrow> Inr l | (l, False) \<Rightarrow> Inl NotFoundGoLine, c2, s)"
        "client_GoLine T (LogID_Hex i) pc (c\<lparr>cl_UseCache := False\<rparr>, s) = Inr (case Symbols_GoLine sy pc of (l, True) \<Rightarrow> Inr l | (l, False) \<Rightarrow> Inl e2, c\<lparr>cl_UseCache := False\<rparr>, s)"
    using L by fastforce
  show ?thesis
    by (rule exI[of _ c1], rule exI[of _ c2], rule exI[of _ e1], rule exI[of _ e2]) (simp only: F L hit[OF c1] hit[OF c2] simp_thms)
qed

definition named_symbols :: "string \<Rightarrow> Symbols" where
  "named_symbols name = \<lparr>sym_Writable = True, sym_data = sample_symbols\<lparr>sd_Mods := [\<lparr>gm_Name = name, gm_MinPC = 100, gm_MaxPC = 400\<rparr>]\<rparr>\<rparr>"

definition symbol_storage :: "Symbols \<Rightarrow> unit Storage" where
  "symbol_storage sy = \<lparr>sg_Root = \<lparr>dl_Root = ''/logs''\<rparr>, sg_ReadOnly = False,
     sg_files = [replicate 16 1 \<mapsto> Some ((new_Log (replicate 16 1) \<lparr>dl_Root = ''/logs''\<rparr> 0 True)\<lparr>lg_symbols := Some sy\<rparr>)]\<rparr>"

definition symbol_server :: "uintptr \<Rightarrow> unit Storage transport" where
  "symbol_server pc method url params b s =
     (let r = symbol_request (LogID_Hex (replicate 16 1)) pc; wr = \<lparr>wr_out = [], wr_room = None\<rparr>;
          at = (\<lambda>path. url = client_url (WithCtx ''h'') [''/log'', LogID_Hex (replicate 16 1), ''symbol'', path, FormatUintptr pc]) in
      case (if at ''module'' then api_goModule r s wr else if at ''func'' then api_goFunc r s wr else if at ''line'' then api_goLine r s wr else api_symbols r s wr) of
        Inl f \<Rightarrow> (Inl EOF, s)
      | Inr wr \<Rightarrow> (Inr (response_of (wr_out wr)), s))"

lemma symbol_urls:
  "client_url c [''/log'', h, ''symbol'', p, x] = client_url c [''/log'', h, ''symbol'', q, x] \<longleftrightarrow> p = q"
  "client_url c [''/log'', h, ''symbols''] \<noteq> client_url c [''/log'', h, ''symbol'', p, x]"
  by (simp_all add: client_url_def)

lemma symbol_server_serves:
  assumes "(path, entry) \<in> {(''module'', api_goModule), (''func'', api_goFunc), (''line'', api_goLine)}"
  shows "serves_symbols (symbol_server pc) (WithCtx ''h'') (LogID_Hex (replicate 16 1)) pc path entry"
  using assms by (elim insertE emptyE) (simp_all add: serves_symbols_def delivers_def symbol_server_def symbol_urls Let_def split: sum.splits)

lemma has_named_symbols: "has_symbols (symbol_storage (named_symbols name)) (replicate 16 1) (named_symbols name)"
proof -
  have "symbols_wf (sym_data (named_symbols name))"
    by (simp add: named_symbols_def sample_symbols_def symbols_wf_def mods_ok_def funcs_ok_def lines_ok_def)
  then show ?thesis by (simp add: has_symbols_def symbol_storage_def Storage_Log_def LogID_wf_def)
qed

text \<open>The first lookup downloads the table, the second one finds it even though no server answers any more.\<close>

theorem Cached_lookups_agree_witness:
  "\<exists>c1. client_GoFunc (symbol_server 150) (LogID_Hex (replicate 16 1)) 150 (WithCtx ''h''\<lparr>cl_UseCache := True\<rparr>, symbol_storage (named_symbols ''m'')) =
      Inr (Inr \<lparr>gf_Entry = 100, gf_Name = ''example.com/foo/bar.f''\<rparr>, c1, symbol_storage (named_symbols ''m'')) \<and>
    client_GoFunc (symbol_server 150) (LogID_Hex (replicate 16 1)) 150 (WithCtx ''h''\<lparr>cl_UseCache := False\<rparr>, symbol_storage (named_symbols ''m'')) =
      Inr (Inr \<lparr>gf_Entry = 100, gf_Name = ''example.com/foo/bar.f''\<rparr>, WithCtx ''h''\<lparr>cl_UseCache := False\<rparr>, symbol_storage (named_symbols ''m'')) \<and>
    client_GoFunc (\<lambda>method url params b s. (Inl EOF, s)) (LogID_Hex (replicate 16 1)) 150 (c1, symbol_storage (named_symbols ''m'')) =
      Inr (Inr \<lparr>gf_Entry = 100, gf_Name = ''example.com/foo/bar.f''\<rparr>, c1, symbol_storage (named_symbols ''m''))"
proof -
  have "Symbols_GoFunc (named_symbols ''m'') 150 = (\<lparr>gf_Entry = 100, gf_Name = ''example.com/foo/bar.f''\<rparr>, True)"
    by (simp add: Symbols_GoFunc_def named_symbols_def sample_symbols_def)
  moreover have "cache_ok (WithCtx ''h'') (replicate 16 1) (named_symbols ''m'')" by (simp add: WithCtx_def cache_ok_def)
  ultimately show ?thesis
    using Cached_lookups_agree[OF has_named_symbols[of "''m''"] _ symbol_server_serves symbol_server_serves, of 150]
    apply (elim meta_impE)
    apply simp_all
    apply (elim exE conjE)
    subgoal premises p for c1 c2
      using p by (intro exI[of _ c1]) simp
    done
qed

text \<open>
  A module without a name stops the client. The symbols of most programs have one module, and its name is empty; such a
  table is valid. Asking for the module of an address in it panics, through the cache and without it.
\<close>

theorem Nameless_module_panics:
  assumes "has_symbols s i sy" "cache_ok c i sy" "serves_symbols T c (LogID_Hex i) pc ''module'' api_goModule"
    and "Symbols_GoModule sy pc = (m, True)" "gm_Name m = []"
  shows "client_GoModule T (LogID_Hex i) pc (c\<lparr>cl_UseCache := useCache\<rparr>, s) = Inl (Panic ''validation error'')"
proof -
  note M = lookup_both[where look = Symbols_GoModule and js = JModule and sel = "\<lambda>j. case j of JModule m \<Rightarrow> Some m | _ \<Rightarrow> None" and err = NotFoundGoModule and validate = validateGoModule,
      OF assms(1,3,2) lookup_cong(3) GoModule_answer[OF assms(1)], folded client_GoModule_def, simplified assms(4)]
  show ?thesis using M assms(5) by (cases useCache) (auto simp: validateGoModule_def)
qed

theorem Nameless_module_panics_witness:
  "client_GoModule (symbol_server 150) (LogID_Hex (replicate 16 1)) 150 (WithCtx ''h''\<lparr>cl_UseCache := True\<rparr>, symbol_storage (named_symbols [])) =
    Inl (Panic ''validation error'')"
proof (rule Nameless_module_panics[OF has_named_symbols _ symbol_server_serves])
  show "Symbols_GoModule (named_symbols []) 150 = (\<lparr>gm_Name = [], gm_MinPC = 100, gm_MaxPC = 400\<rparr>, True)"
    by (simp add: Symbols_GoModule_def named_symbols_def)
qed (simp_all add: WithCtx_def cache_ok_def)


text \<open>
  What a program does under the tracer reaches the client. A connection says hello, sends the records and symbols of a
  program and closes; the worker archives them. The client that then searches the log for the calls of goroutine \<open>g\<close> in
  the order of their IDs receives exactly the calls of that goroutine in the specification of the trace, each
  once and in the order they were made, and no error; for a \<open>g\<close> that is not positive, all calls.
\<close>

theorem Recorded_calls_reach_the_client:
  assumes "\<not> sg_ReadOnly (mk_storage m)" "mk_rnd m = i # rnd" "LogID_wf i" "faults (mk_world m) = []"
    "\<forall>k. files (mk_world m) (log_file (sg_Root (mk_storage m)) i k) = None" "SSStore_Get store i = None"
    and "enumerates ord" "libs_ok L sd"
    and "spec_run trace_step (cg_init, nilDiff, 0) evs = Some (c, sd, n)" "msgs = filter (\<lambda>e. e \<noteq> WTick) evs"
    and "length (cg_calls c) < 2 ^ 63" "sort_Slice (se_sort E)"
    and "\<And>sims. delivers (T sims) ''GET'' (client_url cl [''/log'', LogID_Hex i, ''func-call'', ''search'']) (ToParamMap (gid_search g)) None
      (\<lambda>wr (s, w). go_bind (funcCallSearch E sims fl0 (search_request i (gid_search g)) ''json'' w s wr) (\<lambda>(s, w, wr). Inr (wr, s, w)))"
  shows "\<exists>m' l l' st w' s2. client_session L cid pkt msgs m = Inr m' \<and> Storage_Log i (mk_storage m') = (Some l, True) \<and>
    logWriteWorker_Run L ord ks evs (mk_world m') store (l, u) = Inr ((l', u), st, w') \<and>
    SearchFuncLogs (T st) cl (LogID_Hex i) (gid_search g) (put_log i l' (mk_storage m'), w') =
      ((filter (\<lambda>fl. sint g \<le> 0 \<or> fl_GID fl = g) (cg_calls c), None), s2)"
proof -
  obtain m' l l' st w' a where 1: "client_session L cid pkt msgs m = Inr m'" "Storage_Log i (mk_storage m') = (Some l, True)"
    "logWriteWorker_Run L ord ks evs (mk_world m') store (l, u) = Inr ((l', u), st, w')" "lg_ID l' = i"
    "log_stores True w' l' a" "complete a c" "trace_ok c" "\<forall>j. SSStore_Get st j = SSStore_Get store j"
    using Session_ok[OF assms(1-9), of cid pkt msgs ks u] by blast
  let ?wr = "\<lparr>wr_out = [], wr_room = None\<rparr>" and ?hits = "filter (\<lambda>fl. sint g \<le> 0 \<or> fl_GID fl = g) (cg_calls c)"
  have st: "SSStore_Get st (lg_ID l') = None" and wr: "wr_room ?wr = None" using 1(4,8) assms(6) by simp_all
  have rq: "rq_vars (search_request i (gid_search g)) ''log-id'' = LogID_Hex i" "rq_query (search_request i (gid_search g)) = sent_query (gid_search g)"
    by (simp_all add: search_request_def)
  obtain s2 w2 where "funcCallSearch E st fl0 (search_request i (gid_search g)) ''json'' w' (put_log i l' (mk_storage m')) ?wr =
      Inr (s2, w2, ?wr\<lparr>wr_out := wr_out ?wr @ map (\<lambda>fl. WriteJson (JFuncLog fl)) ?hits\<rparr>)"
    using gid_search_found[OF 1(5-7) assms(11) st assms(12) wr assms(3) 1(4) rq, of fl0 "mk_storage m'"] by blast
  then have "T st ''GET'' (client_url cl [''/log'', LogID_Hex i, ''func-call'', ''search'']) (ToParamMap (gid_search g)) None (put_log i l' (mk_storage m'), w') =
      (Inr (response_of (map (\<lambda>fl. WriteJson (JFuncLog fl)) ?hits)), s2, w2)"
    using assms(13)[of st] by (simp add: delivers_def)
  then have "SearchFuncLogs (T st) cl (LogID_Hex i) (gid_search g) (put_log i l' (mk_storage m'), w') = ((?hits, None), s2, w2)"
    using decode_calls[of _ ?hits] status_of_calls[of ?hits]
    by (simp add: SearchFuncLogs_def rest_get_def wrapResp_def response_of_def Let_def del: map_map)
  then show ?thesis using 1(1-3) by blast
qed

definition search_server :: "StateSimulatorStore \<Rightarrow> (unit Storage \<times> world) transport" where
  "search_server sims method url params b = (\<lambda>(s, w).
     case funcCallSearch sample_env sims (sample_calls ! 0) (search_request (replicate 16 1) (gid_search 7)) ''json'' w s \<lparr>wr_out = [], wr_room = None\<rparr> of
       Inl f \<Rightarrow> (Inl EOF, s, w)
     | Inr (s, w, wr) \<Rightarrow> (Inr (response_of (wr_out wr)), s, w))"

lemma search_server_delivers:
  "delivers (search_server sims) ''GET'' url params None
     (\<lambda>wr (s, w). go_bind (funcCallSearch sample_env sims (sample_calls ! 0) (search_request (replicate 16 1) (gid_search 7)) ''json'' w s wr) (\<lambda>(s, w, wr). Inr (wr, s, w)))"
  by (auto simp: delivers_def search_server_def go_bind_def split: sum.splits)

theorem Recorded_calls_reach_the_client_witness:
  "\<exists>m' l l' st w' s2. client_session Log.sample_libs 0 sample_hello (filter (\<lambda>e. e \<noteq> WTick) sample_work) sample_maker = Inr m' \<and>
    Storage_Log (replicate 16 1) (mk_storage m') = (Some l, True) \<and>
    logWriteWorker_Run Log.sample_libs sorted_order [] sample_work (mk_world m') \<lparr>ss_m = None\<rparr> (l, ()) = Inr ((l', ()), st, w') \<and>
    SearchFuncLogs (search_server st) (WithCtx ''h'') (LogID_Hex (replicate 16 1)) (gid_search 7) (put_log (replicate 16 1) l' (mk_storage m'), w') =
      (([sample_calls ! 0, sample_calls ! 2], None), s2)"
proof -
  obtain c where c: "spec_run trace_step (cg_init, nilDiff, 0) sample_work = Some (c, nilDiff, 3)" "cg_calls c = sample_calls"
    using sample_work_calls unfolding sample_calls_def by blast
  have len: "length (cg_calls c) < 2 ^ 63" and hits: "filter (\<lambda>fl. sint (7 :: GID) \<le> 0 \<or> fl_GID fl = 7) (cg_calls c) = [sample_calls ! 0, sample_calls ! 2]"
    using c(2) by (simp_all add: sample_calls_def)
  have srt: "sort_Slice (se_sort sample_env)" using insertion_sort_ok by (simp add: sample_env_def)
  from Recorded_calls_reach_the_client[OF sample_maker_ok enumerates_sorted sample_libs_ok c(1) refl len srt search_server_delivers,
      of 0 sample_hello "[]" "()" "WithCtx ''h''"] show ?thesis unfolding hits .
qed

end
