(* ===== verification/Logger.thy ===== *)
theory Logger
  imports Gob Layout Client "HOL-Library.Char_ord" "HOL-Library.List_Lexorder"
begin

section \<open>Logger: the probe in the traced program (\<open>tracer/logger\<close>)\<close>

text \<open>
  The probe is linked into the traced program. \<open>FuncStart\<close> and \<open>FuncEnd\<close> make a record and hand it to a
  \<open>Sender\<close>; before the probe is initialised the records are kept in a buffer. A \<open>Sender\<close> is a record of functions on
  the state of the sender and of what it writes to. What the probe asks the Go runtime for (the time, the goroutine, the stack, the
  symbols of the program) and the environment of the process are arguments.
\<close>

subsection \<open>Senders\<close>

datatype log_error = ClosedError | NoServerEnv string | FileError error | ClientError send_error

record 's Sender =
  sn_New :: "'s \<Rightarrow> 's"
  sn_Open :: "'s \<Rightarrow> (log_error option \<times> 's) go"
  sn_Close :: "'s \<Rightarrow> (log_error option \<times> 's) go"
  sn_SendSymbols :: "SymbolsData \<Rightarrow> 's \<Rightarrow> (log_error option \<times> 's) go"
  sn_SendLog :: "RawFuncLog \<Rightarrow> 's \<Rightarrow> (log_error option \<times> 's) go"

text \<open>The environment of the process.\<close>

record process =
  pr_env :: "string \<Rightarrow> string option"
  pr_pid :: uint64
  pr_args0 :: string
  pr_hostname :: string
  pr_cwd :: string

definition DefaultLogfileEnv :: string where "DefaultLogfileEnv = ''GOAPPTRACE_LOG''"
definition DefaultLogfilePrefix :: string where "DefaultLogfilePrefix = ''./goapptrace''"
definition DefaultLogsrvEnv :: string where "DefaultLogsrvEnv = ''GOAPPTRACE_SERVER''"
definition DefaultAppNameEnv :: string where "DefaultAppNameEnv = ''GOAPPTRACE_APP_NAME''"

subsection \<open>\<open>FileSender\<close>\<close>

definition filepath_Abs :: "string \<Rightarrow> string \<Rightarrow> string" where
  "filepath_Abs cwd p = (if path_rooted p then path_Clean p else path_Join [cwd, p])"

definition logFilePath :: "process \<Rightarrow> string" where
  "logFilePath p =
     (let prefix = (case pr_env p DefaultLogfileEnv of None \<Rightarrow> DefaultLogfilePrefix | Some v \<Rightarrow> v)
      in filepath_Abs (pr_cwd p) (prefix @ ''.'' @ FormatUint (pr_pid p) @ ''.log.gz''))"

type_synonym file_sender = "CompactLogWriter option \<times> world"

definition FileSender_Open :: "process \<Rightarrow> file_sender \<Rightarrow> (log_error option \<times> file_sender) go" where
  "FileSender_Open p = (\<lambda>(f, w).
     case CompactWriter_Open w (CompactLog_Writer (logFilePath p)) of (e, c, w) \<Rightarrow> Inr (map_option FileError e, Some c, w))"

definition FileSender_Close :: "file_sender \<Rightarrow> (log_error option \<times> file_sender) go" where
  "FileSender_Close = (\<lambda>(f, w).
     case f of
       None \<Rightarrow> Inr (Some ClosedError, f, w)
     | Some c \<Rightarrow> go_bind (CompactWriter_Close w c) (\<lambda>(e, c, w). Inr (map_option FileError e, None, w)))"

definition FileSender_write :: "compact_value gob_lib \<Rightarrow> SymbolsData option \<Rightarrow> RawFuncLog option \<Rightarrow> file_sender \<Rightarrow> (log_error option \<times> file_sender) go" where
  "FileSender_write L d r = (\<lambda>(f, w).
     case f of
       None \<Rightarrow> Inr (Some ClosedError, f, w)
     | Some c \<Rightarrow> go_bind (CompactWriter_Write L d r w c) (\<lambda>(e, c, w). Inr (map_option FileError e, Some c, w)))"

definition FileSender_SendSymbols :: "compact_value gob_lib \<Rightarrow> SymbolsData \<Rightarrow> file_sender \<Rightarrow> (log_error option \<times> file_sender) go" where
  "FileSender_SendSymbols L sd = FileSender_write L (Some sd) None"

definition FileSender_SendLog :: "compact_value gob_lib \<Rightarrow> RawFuncLog \<Rightarrow> file_sender \<Rightarrow> (log_error option \<times> file_sender) go" where
  "FileSender_SendLog L raw = FileSender_write L None (Some raw)"

definition FileSender :: "compact_value gob_lib \<Rightarrow> process \<Rightarrow> file_sender Sender" where
  "FileSender L p = \<lparr>sn_New = (\<lambda>(f, w). (None, w)), sn_Open = FileSender_Open p, sn_Close = FileSender_Close,
     sn_SendSymbols = FileSender_SendSymbols L, sn_SendLog = FileSender_SendLog L\<rparr>"

subsection \<open>Tracing flags\<close>

text \<open>
  Which functions are traced. The flags are allocated booleans: the traced functions hold pointers to them.
  \<open>tr_flags\<close> is the memory, a pointer is an index.
\<close>

record FuncConfig =
  fc_Name :: string
  fc_IsTracing :: "nat option"

record PackageData =
  pd_Name :: string
  pd_Funcs :: "FuncConfig list"

record tracing =
  tr_default :: bool
  tr_pkgs :: "PackageData list"
  tr_map :: "string \<rightharpoonup> nat"
  tr_flags :: "bool list"

definition init_tracing :: tracing where
  "init_tracing = \<lparr>tr_default = False, tr_pkgs = [], tr_map = Map.empty, tr_flags = []\<rparr>"

definition AddPackage :: "PackageData \<Rightarrow> tracing \<Rightarrow> tracing" where
  "AddPackage pd t = t\<lparr>tr_pkgs := tr_pkgs t @ [pd]\<rparr>"

definition new_flag :: "string \<Rightarrow> bool \<Rightarrow> tracing \<Rightarrow> tracing" where
  "new_flag name b t = t\<lparr>tr_flags := tr_flags t @ [b], tr_map := (tr_map t)(name \<mapsto> length (tr_flags t))\<rparr>"

definition set_flag :: "string \<Rightarrow> bool \<Rightarrow> tracing \<Rightarrow> tracing" where
  "set_flag name b t = (case tr_map t name of Some bp \<Rightarrow> t\<lparr>tr_flags := (tr_flags t)[bp := b]\<rparr> | None \<Rightarrow> t)"

text \<open>\<open>ord\<close> is the order of the iteration over the map.\<close>

definition set_all :: "((string \<rightharpoonup> nat) \<Rightarrow> string list) \<Rightarrow> bool \<Rightarrow> tracing \<Rightarrow> tracing" where
  "set_all ord b t = (fold (\<lambda>name. set_flag name b) (ord (tr_map t)) t)\<lparr>tr_default := b\<rparr>"

definition EnableAll :: "((string \<rightharpoonup> nat) \<Rightarrow> string list) \<Rightarrow> tracing \<Rightarrow> tracing" where
  "EnableAll ord t = set_all ord True t"

definition DisableAll :: "((string \<rightharpoonup> nat) \<Rightarrow> string list) \<Rightarrow> tracing \<Rightarrow> tracing" where
  "DisableAll ord t = set_all ord False t"

definition EnableTrace :: "string \<Rightarrow> tracing \<Rightarrow> tracing" where
  "EnableTrace name t = (if tr_map t name \<noteq> None then set_flag name True t else new_flag name True t)"

definition DisableTrace :: "string \<Rightarrow> tracing \<Rightarrow> tracing" where
  "DisableTrace name t = (if tr_map t name \<noteq> None then set_flag name False t else new_flag name False t)"

text \<open>The variable \<open>symbols\<close> of the probe: nothing is ever loaded into it.\<close>

definition logger_symbols :: Symbols where
  "logger_symbols = \<lparr>sym_Writable = True, sym_data = zero_SymbolsData\<rparr>"

text \<open>The name of the calling function: from the symbols of the probe, or from the runtime.\<close>

definition caller_name :: "Symbols \<Rightarrow> (uintptr \<Rightarrow> string option) \<Rightarrow> uintptr option \<Rightarrow> string go" where
  "caller_name sy FuncForPC caller =
     (case caller of
        None \<Rightarrow> Inl (Panic ''bug'')
      | Some pc \<Rightarrow>
          (case Symbols_GoFunc sy pc of
             (f, True) \<Rightarrow> Inr (gf_Name f)
           | (f, False) \<Rightarrow> (case FuncForPC pc of None \<Rightarrow> Inl (Panic ''bug'') | Some name \<Rightarrow> Inr name)))"

definition TracingFlag :: "Symbols \<Rightarrow> (uintptr \<Rightarrow> string option) \<Rightarrow> uintptr option \<Rightarrow> tracing \<Rightarrow> (nat \<times> tracing) go" where
  "TracingFlag sy FuncForPC caller t =
     go_bind (caller_name sy FuncForPC caller) (\<lambda>name.
     let t = (if tr_map t name = None then new_flag name (tr_default t) t else t)
     in case tr_map t name of None \<Rightarrow> Inl NilDereference | Some bp \<Rightarrow> Inr (bp, t))"

subsection \<open>\<open>LogServerSender\<close>\<close>

text \<open>
  The client runs in goroutines of its own: \<open>connect\<close> is what \<open>Serve\<close> and the server do until the
  negotiation is done. The user of the client is the tracing state; a handler that panics stops the program.
  \<open>rounds\<close> are the rounds that the workers of a client still make when it is closed.
  The clients that have been closed are kept, in the order of their ends, so that what they sent can be looked at.
\<close>

type_synonym probe_user = "tracing go"
type_synonym server_sender = "probe_user Client option \<times> probe_user Client list \<times> probe_user env"

definition CanUseLogServerSender :: "process \<Rightarrow> bool" where
  "CanUseLogServerSender p \<longleftrightarrow> pr_env p DefaultLogsrvEnv \<noteq> None"

definition on_trace :: "(string \<Rightarrow> tracing \<Rightarrow> tracing) \<Rightarrow> string \<Rightarrow> probe_user \<Rightarrow> probe_user" where
  "on_trace act name u = go_bind u (\<lambda>t. if name \<noteq> [] then Inr (act name t) else Inl (Panic ''FuncName MUST NOT empty''))"

definition probe_handler :: "probe_user ClientHandler" where
  "probe_handler = \<lparr>c_Connected = Some (\<lambda>u. u), c_Disconnected = Some (\<lambda>u. u), c_Error = Some (\<lambda>e u. u), c_Shutdown = None,
     c_StartTrace = Some (on_trace EnableTrace), c_StopTrace = Some (on_trace DisableTrace)\<rparr>"

definition zero_BufferOption :: BufferOption where
  "zero_BufferOption = \<lparr>bo_RefreshInterval = 0, bo_MaxSmallPacketSize = 0, bo_MaxLargePacketSize = 0,
     bo_Xtcp = \<lparr>xo_SendListLen = 0, xo_RecvBufInitSize = 0, xo_SendBufInitSize = 0, xo_RecvBufMaxSize = 0, xo_SendBufMaxSize = 0\<rparr>\<rparr>"

definition probe_client :: "process \<Rightarrow> string \<Rightarrow> probe_user Client" where
  "probe_client p url =
     (let appname = (case pr_env p DefaultAppNameEnv of None \<Rightarrow> [] | Some v \<Rightarrow> v) in
      \<lparr>cl_Addr = url, cl_Handler = probe_handler, cl_PID = pr_pid p, cl_AppName = (if appname = [] then pr_args0 p else appname),
       cl_Host = pr_hostname p, cl_Secret = ''secret'', cl_PingInterval = 0, cl_MaxRetries = 0, cl_BufferOpt = zero_BufferOption,
       cl_initDone = False, cl_closeDone = False, cl_negotiatedCh = NilChan, cl_cancelled = None, cl_pingers = 0, cl_refreshers = 0,
       cl_mergeSender = mergeSender_Init 0, cl_opt = None, cl_xtcpconn = 0, cl_isNegotiated = False, cl_killed = False\<rparr>)"

definition LogServerSender_Open ::
  "process \<Rightarrow> (probe_user Client \<times> probe_user env \<Rightarrow> (probe_user Client \<times> probe_user env) go) \<Rightarrow> server_sender \<Rightarrow> (log_error option \<times> server_sender) go" where
  "LogServerSender_Open p connect = (\<lambda>(s, old, e).
     case pr_env p DefaultLogsrvEnv of
       None \<Rightarrow> Inr (Some (NoServerEnv DefaultLogsrvEnv), s, old, e)
     | Some url \<Rightarrow> go_bind (connect (Client_Init (probe_client p url), e)) (\<lambda>(c, e). Inr (None, Some c, old, e)))"

definition LogServerSender_Close :: "json_encoder \<Rightarrow> worker_event list \<Rightarrow> server_sender \<Rightarrow> (log_error option \<times> server_sender) go" where
  "LogServerSender_Close je rounds = (\<lambda>(s, old, e).
     case s of
       None \<Rightarrow> Inr (Some ClosedError, s, old, e)
     | Some c \<Rightarrow> go_bind (Client_Close je rounds (c, e)) (\<lambda>(err, c, e).
         case err of Some err \<Rightarrow> Inr (Some (ClientError err), Some c, old, e) | None \<Rightarrow> Inr (None, None, old @ [c], e)))"

text \<open>Unlike \<open>SendLog\<close>, \<open>SendSymbols\<close> does not look whether there is a client.\<close>

definition LogServerSender_SendSymbols :: "json_encoder \<Rightarrow> SymbolsData \<Rightarrow> server_sender \<Rightarrow> (log_error option \<times> server_sender) go" where
  "LogServerSender_SendSymbols je sd = (\<lambda>(s, old, e).
     case s of
       None \<Rightarrow> Inl NilDereference
     | Some c \<Rightarrow> go_bind (Client_SendLarge je (SymbolPacket sd) c) (\<lambda>(err, c). Inr (map_option ClientError err, Some c, old, e)))"

definition LogServerSender_SendLog :: "json_encoder \<Rightarrow> RawFuncLog \<Rightarrow> server_sender \<Rightarrow> (log_error option \<times> server_sender) go" where
  "LogServerSender_SendLog je raw = (\<lambda>(s, old, e).
     case s of
       None \<Rightarrow> Inr (Some ClosedError, s, old, e)
     | Some c \<Rightarrow> go_bind (Client_Send je (RawFuncLogPacket raw) c) (\<lambda>(err, c). Inr (map_option ClientError err, Some c, old, e)))"

definition LogServerSender ::
  "json_encoder \<Rightarrow> process \<Rightarrow> (probe_user Client \<times> probe_user env \<Rightarrow> (probe_user Client \<times> probe_user env) go) \<Rightarrow>
   worker_event list \<Rightarrow> server_sender Sender" where
  "LogServerSender je p connect rounds = \<lparr>sn_New = (\<lambda>(s, old, e). (None, old, e)), sn_Open = LogServerSender_Open p connect, sn_Close = LogServerSender_Close je rounds,
     sn_SendSymbols = LogServerSender_SendSymbols je, sn_SendLog = LogServerSender_SendLog je\<rparr>"

subsection \<open>\<open>RetrySender\<close>\<close>

definition defaultMaxRetry :: int where "defaultMaxRetry = 50"
definition defaultRetryInterval :: int where "defaultRetryInterval = 1000000000"

definition maxRetry :: "int \<Rightarrow> nat go" where
  "maxRetry MaxRetry = (if MaxRetry < 0 then Inl (Panic ''invalid MaxRetry'') else Inr (nat (if MaxRetry = 0 then defaultMaxRetry else MaxRetry)))"

text \<open>The duration that \<open>sleep\<close> returns; nothing waits for it.\<close>

definition retry_sleep :: "int \<Rightarrow> int go" where
  "retry_sleep RetryInterval =
     (if RetryInterval < 0 then Inl (Panic ''invalid RetryInterval'') else Inr (if RetryInterval = 0 then defaultRetryInterval else RetryInterval))"

text \<open>\<open>n\<close> is the number of tries left, \<open>err\<close> the error of the last one.\<close>

fun retry_loop :: "int \<Rightarrow> ('s \<Rightarrow> (log_error option \<times> 's) go) \<Rightarrow> nat \<Rightarrow> log_error option \<Rightarrow> 's \<Rightarrow> (log_error option \<times> 's) go" where
  "retry_loop ri fn 0 err s = Inr (err, s)"
| "retry_loop ri fn (Suc n) err s =
     go_bind (fn s) (\<lambda>(err, s).
     if err = None then Inr (None, s) else go_bind (retry_sleep ri) (\<lambda>_. retry_loop ri fn n err s))"

definition retry :: "int \<Rightarrow> int \<Rightarrow> ('s \<Rightarrow> (log_error option \<times> 's) go) \<Rightarrow> 's \<Rightarrow> (log_error option \<times> 's) go" where
  "retry mr ri fn s = go_bind (maxRetry mr) (\<lambda>n. retry_loop ri fn n None s)"

text \<open>After a send that failed, the sender is closed and opened again, each with retries of its own.\<close>

fun retrySend_loop :: "int \<Rightarrow> int \<Rightarrow> 's Sender \<Rightarrow> ('s \<Rightarrow> (log_error option \<times> 's) go) \<Rightarrow> nat \<Rightarrow> log_error option \<Rightarrow> 's \<Rightarrow> (log_error option \<times> 's) go" where
  "retrySend_loop mr ri S send 0 err s = Inr (err, s)"
| "retrySend_loop mr ri S send (Suc n) err s =
     go_bind (send s) (\<lambda>(senderr, s).
     if senderr = None then Inr (None, s)
     else go_bind (retry mr ri (sn_Close S) s) (\<lambda>(closeerr, s).
       go_bind (retry mr ri (sn_Open S) s) (\<lambda>(openerr, s).
       if openerr \<noteq> None then Inl (Panic ''failed to Sender.Open() on RetrySender'')
       else go_bind (retry_sleep ri) (\<lambda>_. retrySend_loop mr ri S send n senderr s))))"

definition retrySend :: "int \<Rightarrow> int \<Rightarrow> 's Sender \<Rightarrow> ('s \<Rightarrow> (log_error option \<times> 's) go) \<Rightarrow> 's \<Rightarrow> (log_error option \<times> 's) go" where
  "retrySend mr ri S send s = go_bind (maxRetry mr) (\<lambda>n. retrySend_loop mr ri S send n None s)"

definition RetrySender :: "int \<Rightarrow> int \<Rightarrow> 's Sender \<Rightarrow> 's Sender" where
  "RetrySender mr ri S = \<lparr>sn_New = sn_New S, sn_Open = retry mr ri (sn_Open S), sn_Close = retry mr ri (sn_Close S),
     sn_SendSymbols = (\<lambda>sd. retrySend mr ri S (sn_SendSymbols S sd)), sn_SendLog = (\<lambda>raw. retrySend mr ri S (sn_SendLog S raw))\<rparr>"

subsection \<open>The probe\<close>

text \<open>The variables of the package: \<open>pb_open\<close> says whether \<open>sender\<close> is not nil.\<close>

record 's probe =
  pb_counters :: counters
  pb_initBuffer :: "RawFuncLog list"
  pb_open :: bool
  pb_sender :: 's

definition setOutput :: "'s Sender \<Rightarrow> 's probe \<Rightarrow> 's probe go" where
  "setOutput S b =
     (if pb_open b then Inr b
      else let s = sn_New S (pb_sender b) in
        go_bind (sn_Open S s) (\<lambda>(err, s).
        if err \<noteq> None then Inl (Panic ''failed to sender.Open()'') else Inr (b\<lparr>pb_open := True, pb_sender := s\<rparr>)))"

definition default_retry :: "'s Sender \<Rightarrow> 's Sender" where
  "default_retry S = RetrySender defaultMaxRetry defaultRetryInterval S"

text \<open>\<open>setOutput\<close> sends to the log server if the environment names one, and to a file otherwise.\<close>

definition on_fst :: "('a \<Rightarrow> (log_error option \<times> 'a) go) \<Rightarrow> 'a \<times> 'b \<Rightarrow> (log_error option \<times> 'a \<times> 'b) go" where
  "on_fst f = (\<lambda>(x, y). go_bind (f x) (\<lambda>(err, x). Inr (err, x, y)))"

definition on_snd :: "('b \<Rightarrow> (log_error option \<times> 'b) go) \<Rightarrow> 'a \<times> 'b \<Rightarrow> (log_error option \<times> 'a \<times> 'b) go" where
  "on_snd f = (\<lambda>(x, y). go_bind (f y) (\<lambda>(err, y). Inr (err, x, y)))"

definition choose_Sender :: "process \<Rightarrow> 'a Sender \<Rightarrow> 'b Sender \<Rightarrow> ('a \<times> 'b) Sender" where
  "choose_Sender p A B =
     (if CanUseLogServerSender p
      then let S = default_retry A in \<lparr>sn_New = map_prod (sn_New S) id, sn_Open = on_fst (sn_Open S), sn_Close = on_fst (sn_Close S),
        sn_SendSymbols = (\<lambda>sd. on_fst (sn_SendSymbols S sd)), sn_SendLog = (\<lambda>raw. on_fst (sn_SendLog S raw))\<rparr>
      else let S = default_retry B in \<lparr>sn_New = map_prod id (sn_New S), sn_Open = on_snd (sn_Open S), sn_Close = on_snd (sn_Close S),
        sn_SendSymbols = (\<lambda>sd. on_snd (sn_SendSymbols S sd)), sn_SendLog = (\<lambda>raw. on_snd (sn_SendLog S raw))\<rparr>)"

text \<open>Sending under the lock; \<open>make_log\<close> runs before it.\<close>

definition send_raw :: "'s Sender \<Rightarrow> RawFuncLog \<Rightarrow> 's probe \<Rightarrow> 's probe go" where
  "send_raw S raw b =
     go_bind (sn_SendLog S raw (pb_sender b)) (\<lambda>(err, s).
     if err \<noteq> None then Inl (Panic ''failed to sender.Send()'') else Inr (b\<lparr>pb_sender := s\<rparr>))"

definition deliver :: "'s Sender \<Rightarrow> RawFuncLog \<Rightarrow> 's probe \<Rightarrow> 's probe go" where
  "deliver S raw b = (if \<not> pb_open b then Inr (b\<lparr>pb_initBuffer := pb_initBuffer b @ [raw]\<rparr>) else send_raw S raw b)"

text \<open>What the runtime answers: the time, the goroutine and the stack; at most as many frames as the slice has room for.\<close>

record moment =
  mo_now :: instant
  mo_gid :: GID
  mo_stack :: "uintptr list"

definition make_log :: "TagName \<Rightarrow> TxID \<Rightarrow> moment \<Rightarrow> counters \<Rightarrow> RawFuncLog \<times> counters" where
  "make_log tag i mo c =
     (case NewRawFuncLogID c of
        (n, c) \<Rightarrow> (\<lparr>raw_ID = n, raw_Tag = tag, raw_Timestamp = NewTime (mo_now mo), raw_Frames = take MaxStackSize (mo_stack mo),
          raw_GID = mo_gid mo, raw_TxID = i\<rparr>, c))"

definition sendLog :: "'s Sender \<Rightarrow> TagName \<Rightarrow> TxID \<Rightarrow> moment \<Rightarrow> 's probe \<Rightarrow> 's probe go" where
  "sendLog S tag i mo b = (case make_log tag i mo (pb_counters b) of (raw, c) \<Rightarrow> deliver S raw (b\<lparr>pb_counters := c\<rparr>))"

definition probe_FuncStart :: "'s Sender \<Rightarrow> moment \<Rightarrow> 's probe \<Rightarrow> (TxID \<times> 's probe) go" where
  "probe_FuncStart S mo b =
     (case NewTxID (pb_counters b) of
        (i, c) \<Rightarrow> go_bind (sendLog S Types.FuncStart i mo (b\<lparr>pb_counters := c\<rparr>)) (\<lambda>b. Inr (i, b)))"

definition probe_FuncEnd :: "'s Sender \<Rightarrow> TxID \<Rightarrow> moment \<Rightarrow> 's probe \<Rightarrow> 's probe go" where
  "probe_FuncEnd S i mo b = sendLog S Types.FuncEnd i mo b"

text \<open>\<open>init\<close>: the symbols of the program are those the runtime enumerates.\<close>

definition file_id :: "string \<Rightarrow> string list \<Rightarrow> nat \<times> string list" where
  "file_id fname names =
     (let i = length (takeWhile (\<lambda>f. f \<noteq> fname) names)
      in if i < length names then (i, names) else (length names, names @ [fname]))"

fun init_lines :: "(uintptr \<times> string \<times> int) list \<Rightarrow> SymbolsData \<Rightarrow> SymbolsData go" where
  "init_lines [] sd = Inr sd"
| "init_lines ((pc, fname, line) # ls) sd =
     (if line < 0 then Inl (Panic ''invalid line'')
      else case file_id fname (sd_Files sd) of
        (i, names) \<Rightarrow> init_lines ls (sd\<lparr>sd_Files := names, sd_Lines := sd_Lines sd @ [\<lparr>gl_PC = pc, gl_FileID = word_of_nat i, gl_Line = word_of_int line\<rparr>]\<rparr>))"

definition init_symbols :: "(uintptr \<times> uintptr \<times> string) list \<Rightarrow> (uintptr \<times> string) list \<Rightarrow> (uintptr \<times> string \<times> int) list \<Rightarrow> SymbolsData go" where
  "init_symbols ms fs ls =
     init_lines ls \<lparr>sd_Files = [], sd_Mods = map (\<lambda>(lo, hi, name). \<lparr>gm_Name = name, gm_MinPC = lo, gm_MaxPC = hi\<rparr>) ms,
       sd_Funcs = map (\<lambda>(pc, name). \<lparr>gf_Entry = pc, gf_Name = name\<rparr>) fs, sd_Lines = []\<rparr>"

definition logger_init :: "'s Sender \<Rightarrow> SymbolsData \<Rightarrow> 's probe \<Rightarrow> 's probe go" where
  "logger_init S sd b =
     go_bind (setOutput S b) (\<lambda>b.
     go_bind (sn_SendSymbols S sd (pb_sender b)) (\<lambda>(err, s).
     if err \<noteq> None then Inl (Panic ''failed to SendSymbols'')
     else go_bind (go_run (\<lambda>b raw. send_raw S raw b) (b\<lparr>pb_sender := s\<rparr>) (pb_initBuffer b)) (\<lambda>b.
       Inr (b\<lparr>pb_initBuffer := []\<rparr>))))"

definition logger_Close :: "'s Sender \<Rightarrow> 's probe \<Rightarrow> 's probe go" where
  "logger_Close S b =
     (if \<not> pb_open b then Inr b
      else go_bind (sn_Close S (pb_sender b)) (\<lambda>(err, s).
        if err \<noteq> None then Inl (Panic ''failed to sender.Close()'') else Inr (b\<lparr>pb_open := False, pb_sender := s\<rparr>)))"

text \<open>The symbols are collected first; then the rest of \<open>init\<close> runs.\<close>

definition probe_init ::
  "'s Sender \<Rightarrow> (uintptr \<times> uintptr \<times> string) list \<Rightarrow> (uintptr \<times> string) list \<Rightarrow> (uintptr \<times> string \<times> int) list \<Rightarrow> 's probe \<Rightarrow> 's probe go" where
  "probe_init S ms fs ls b = go_bind (init_symbols ms fs ls) (\<lambda>sd. logger_init S sd b)"

text \<open>\<open>CloseAndExit\<close> ends the process with the code it returns here.\<close>

definition CloseAndExit :: "'s Sender \<Rightarrow> int \<Rightarrow> 's probe \<Rightarrow> (int \<times> 's probe) go" where
  "CloseAndExit S code b = go_bind (logger_Close S b) (\<lambda>b. Inr (code, b))"

text \<open>Every line refers to the name of its file, and every name is listed once.\<close>

lemma file_id_ok:
  assumes "distinct names" "file_id f names = (i, names')"
  shows "distinct names' \<and> i < length names' \<and> names' ! i = f \<and> (\<exists>ns. names' = names @ ns) \<and> length names' \<le> Suc (length names)"
proof (cases "f \<in> set names")
  case True
  then have "length (takeWhile (\<lambda>g. g \<noteq> f) names) < length names"
    by (metis (mono_tags, lifting) length_takeWhile_le nat_less_le set_takeWhileD takeWhile_eq_take take_all)
  moreover from this have "names ! length (takeWhile (\<lambda>g. g \<noteq> f) names) = f" using nth_length_takeWhile by fastforce
  ultimately show ?thesis using assms by (auto simp: file_id_def Let_def)
next
  case False
  then have "takeWhile (\<lambda>g. g \<noteq> f) names = names" by (intro takeWhile_eq_all_conv[THEN iffD2]) auto
  then have "length (takeWhile (\<lambda>g. g \<noteq> f) names) = length names" by (rule arg_cong)
  then have "i = length names" "names' = names @ [f]" using assms(2) by (simp_all add: file_id_def)
  then show ?thesis using assms(1) False by simp
qed

lemma init_lines_ok:
  assumes "init_lines ls sd = Inr sd'" "distinct (sd_Files sd)" "length (sd_Files sd) + length ls \<le> 2 ^ 32"
  shows "distinct (sd_Files sd') \<and> (\<exists>ns. sd_Files sd' = sd_Files sd @ ns) \<and> (\<exists>gls. sd_Lines sd' = sd_Lines sd @ gls \<and>
     map (\<lambda>l. (gl_PC l, sd_Files sd' ! unat (gl_FileID l), gl_Line l)) gls = map (\<lambda>(pc, f, line). (pc, f, word_of_int line)) ls \<and>
     (\<forall>l \<in> set gls. unat (gl_FileID l) < length (sd_Files sd')))"
  using assms
proof (induction ls arbitrary: sd)
  case (Cons x ls)
  obtain pc f line where x: "x = (pc, f, line)" by (metis surj_pair)
  obtain i names where i: "file_id f (sd_Files sd) = (i, names)" by (metis surj_pair)
  note f = file_id_ok[OF Cons.prems(2) i]
  let ?l = "\<lparr>gl_PC = pc, gl_FileID = word_of_nat i, gl_Line = word_of_int line\<rparr>"
  let ?sd = "sd\<lparr>sd_Files := names, sd_Lines := sd_Lines sd @ [?l]\<rparr>"
  have run: "init_lines ls ?sd = Inr sd'" using Cons.prems(1) i by (simp add: x split: if_splits)
  have pre: "distinct (sd_Files ?sd)" "length (sd_Files ?sd) + length ls \<le> 2 ^ 32" using f Cons.prems(3) by auto
  obtain ns gls where
    IH: "distinct (sd_Files sd')" "sd_Files sd' = sd_Files ?sd @ ns" "sd_Lines sd' = sd_Lines ?sd @ gls"
      "map (\<lambda>l. (gl_PC l, sd_Files sd' ! unat (gl_FileID l), gl_Line l)) gls = map (\<lambda>(pc, f, line). (pc, f, word_of_int line)) ls"
      "\<forall>l \<in> set gls. unat (gl_FileID l) < length (sd_Files sd')"
    using Cons.IH[OF run pre] by blast
  obtain ns0 where ns0: "names = sd_Files sd @ ns0" using f by blast
  have "i < 2 ^ 32" using f Cons.prems(3) by simp
  then have l: "unat (gl_FileID ?l) = i" by (simp add: unsigned_of_nat take_bit_nat_eq_self)
  have 1: "sd_Files sd' = sd_Files sd @ (ns0 @ ns)" using IH(2) ns0 by simp
  have 2: "sd_Lines sd' = sd_Lines sd @ (?l # gls)" using IH(3) by simp
  have "sd_Files sd' ! i = f" "i < length (sd_Files sd')" using IH(2) f by (simp_all add: nth_append)
  then have 3: "map (\<lambda>l. (gl_PC l, sd_Files sd' ! unat (gl_FileID l), gl_Line l)) (?l # gls) =
      map (\<lambda>(pc, f, line). (pc, f, word_of_int line)) (x # ls)"
    "\<forall>l \<in> set (?l # gls). unat (gl_FileID l) < length (sd_Files sd')" using IH(4,5) l by (simp_all add: x)
  from IH(1) 1 2 3 show ?case by blast
qed simp

subsection \<open>The contract of a sender\<close>

datatype item = Syms SymbolsData | Rec RawFuncLog

text \<open>
  A sender that nothing disturbs: from \<open>ready\<close> it can be opened, then it takes items (those that \<open>fits\<close>
  admits) and keeps their order, and closing leaves them all at their place.
\<close>

locale reliable_sender =
  fixes S :: "'s Sender"
    and ready :: "'s \<Rightarrow> bool" and live :: "item list \<Rightarrow> 's \<Rightarrow> bool" and closed :: "item list \<Rightarrow> 's \<Rightarrow> bool" and fits :: "item \<Rightarrow> bool"
  assumes open_ok: "ready s \<Longrightarrow> \<exists>s'. sn_Open S (sn_New S s) = Inr (None, s') \<and> live [] s'"
    and symbols_ok: "live xs s \<Longrightarrow> fits (Syms sd) \<Longrightarrow> \<exists>s'. sn_SendSymbols S sd s = Inr (None, s') \<and> live (xs @ [Syms sd]) s'"
    and log_ok: "live xs s \<Longrightarrow> fits (Rec raw) \<Longrightarrow> \<exists>s'. sn_SendLog S raw s = Inr (None, s') \<and> live (xs @ [Rec raw]) s'"
    and close_ok: "live xs s \<Longrightarrow> \<exists>s'. sn_Close S s = Inr (None, s') \<and> closed xs s'"
begin

lemma send_all:
  assumes "live xs (pb_sender b)" "list_all (\<lambda>r. fits (Rec r)) rs"
  shows "\<exists>s. go_run (\<lambda>b raw. send_raw S raw b) b rs = Inr (b\<lparr>pb_sender := s\<rparr>) \<and> live (xs @ map Rec rs) s"
  using assms
proof (induction rs arbitrary: b xs)
  case Nil
  then show ?case by (intro exI[of _ "pb_sender b"]) simp
next
  case (Cons r rs)
  obtain s where s: "sn_SendLog S r (pb_sender b) = Inr (None, s)" "live (xs @ [Rec r]) s" using log_ok[OF Cons.prems(1)] Cons.prems(2) by auto
  then show ?case using Cons.IH[of "xs @ [Rec r]" "b\<lparr>pb_sender := s\<rparr>"] Cons.prems(2) by (auto simp: send_raw_def)
qed

lemma deliver_closed: "\<not> pb_open b \<Longrightarrow> go_run (\<lambda>b raw. deliver S raw b) b rs = Inr (b\<lparr>pb_initBuffer := pb_initBuffer b @ rs\<rparr>)"
  by (induction rs arbitrary: b) (auto simp: deliver_def)

lemma deliver_open:
  assumes "pb_open b" "live xs (pb_sender b)" "list_all (\<lambda>r. fits (Rec r)) rs"
  shows "\<exists>s. go_run (\<lambda>b raw. deliver S raw b) b rs = Inr (b\<lparr>pb_sender := s\<rparr>) \<and> live (xs @ map Rec rs) s"
  using assms
proof (induction rs arbitrary: b xs)
  case Nil
  then show ?case by (intro exI[of _ "pb_sender b"]) simp
next
  case (Cons r rs)
  obtain s where s: "sn_SendLog S r (pb_sender b) = Inr (None, s)" "live (xs @ [Rec r]) s" using log_ok[OF Cons.prems(2)] Cons.prems(3) by auto
  then show ?case using Cons.IH[of "b\<lparr>pb_sender := s\<rparr>" "xs @ [Rec r]"] Cons.prems(1,3) by (auto simp: deliver_def send_raw_def)
qed

text \<open>The life of a probe: records before and after its initialisation, and the end of the program.\<close>

lemma probe_life:
  assumes "ready (pb_sender b)" "\<not> pb_open b" "pb_initBuffer b = []" "fits (Syms sd)" "list_all (\<lambda>r. fits (Rec r)) (early @ late)"
  shows "\<exists>b1 b2 b3 b4. go_run (\<lambda>b raw. deliver S raw b) b early = Inr b1 \<and> logger_init S sd b1 = Inr b2 \<and>
    go_run (\<lambda>b raw. deliver S raw b) b2 late = Inr b3 \<and> logger_Close S b3 = Inr b4 \<and>
    closed (Syms sd # map Rec (early @ late)) (pb_sender b4) \<and> \<not> pb_open b4 \<and> pb_initBuffer b4 = []"
proof -
  let ?b1 = "b\<lparr>pb_initBuffer := early\<rparr>"
  have 1: "go_run (\<lambda>b raw. deliver S raw b) b early = Inr ?b1" using deliver_closed[OF assms(2)] assms(3) by simp
  obtain s1 where o: "sn_Open S (sn_New S (pb_sender b)) = Inr (None, s1)" "live [] s1" using open_ok[OF assms(1)] by blast
  obtain s2 where y: "sn_SendSymbols S sd s1 = Inr (None, s2)" "live [Syms sd] s2" using symbols_ok[OF o(2) assms(4)] by auto
  let ?b2 = "?b1\<lparr>pb_open := True, pb_sender := s2\<rparr>"
  obtain s3 where e: "go_run (\<lambda>b raw. send_raw S raw b) ?b2 early = Inr (?b2\<lparr>pb_sender := s3\<rparr>)" "live ([Syms sd] @ map Rec early) s3"
    using send_all[of "[Syms sd]" ?b2 early] y(2) assms(5) by auto
  let ?b3 = "?b2\<lparr>pb_sender := s3, pb_initBuffer := []\<rparr>"
  have 2: "logger_init S sd ?b1 = Inr ?b3" using o(1) y(1) e(1) assms(2) by (simp add: logger_init_def setOutput_def Let_def)
  obtain s4 where 3: "go_run (\<lambda>b raw. deliver S raw b) ?b3 late = Inr (?b3\<lparr>pb_sender := s4\<rparr>)" "live (([Syms sd] @ map Rec early) @ map Rec late) s4"
    using deliver_open[of ?b3 "[Syms sd] @ map Rec early" late] e(2) assms(5) by auto
  obtain s5 where "sn_Close S s4 = Inr (None, s5)" "closed (Syms sd # map Rec (early @ late)) s5" using close_ok[OF 3(2)] by auto
  then have "logger_Close S (?b3\<lparr>pb_sender := s4\<rparr>) = Inr (?b3\<lparr>pb_open := False, pb_sender := s5\<rparr>)" "closed (Syms sd # map Rec (early @ late)) s5"
    by (simp_all add: logger_Close_def)
  then show ?thesis using 1 2 3(1)
    by (intro exI[of _ ?b1] exI[of _ ?b3] exI[of _ "?b3\<lparr>pb_sender := s4\<rparr>"] exI[of _ "?b3\<lparr>pb_open := False, pb_sender := s5\<rparr>"]) simp
qed

end

text \<open>Retrying keeps the contract: nothing fails, so nothing is tried twice.\<close>

lemma maxRetry_pos: "0 \<le> mr \<Longrightarrow> \<exists>n. maxRetry mr = Inr (Suc n)"
  by (auto simp: maxRetry_def defaultMaxRetry_def intro: exI[of _ "nat (mr - 1)"] exI[of _ 49])

lemma retry_None: "0 \<le> mr \<Longrightarrow> fn s = Inr (None, s') \<Longrightarrow> retry mr ri fn s = Inr (None, s')"
  using maxRetry_pos[of mr] by (auto simp: retry_def)

lemma retrySend_None: "0 \<le> mr \<Longrightarrow> send s = Inr (None, s') \<Longrightarrow> retrySend mr ri S send s = Inr (None, s')"
  using maxRetry_pos[of mr] by (auto simp: retrySend_def)

locale retried_sender = reliable_sender +
  fixes mr ri :: int
  assumes mr: "0 \<le> mr"

sublocale retried_sender \<subseteq> retried: reliable_sender "RetrySender mr ri S" ready live closed fits
proof
  show "\<exists>s'. sn_Open (RetrySender mr ri S) (sn_New (RetrySender mr ri S) s) = Inr (None, s') \<and> live [] s'" if "ready s" for s
    using open_ok[OF that] retry_None[OF mr] by (fastforce simp: RetrySender_def)
  show "\<exists>s'. sn_SendSymbols (RetrySender mr ri S) sd s = Inr (None, s') \<and> live (xs @ [Syms sd]) s'" if "live xs s" "fits (Syms sd)" for xs s sd
    using symbols_ok[OF that] retrySend_None[OF mr] by (fastforce simp: RetrySender_def)
  show "\<exists>s'. sn_SendLog (RetrySender mr ri S) raw s = Inr (None, s') \<and> live (xs @ [Rec raw]) s'" if "live xs s" "fits (Rec raw)" for xs s raw
    using log_ok[OF that] retrySend_None[OF mr] by (fastforce simp: RetrySender_def)
  show "\<exists>s'. sn_Close (RetrySender mr ri S) s = Inr (None, s') \<and> closed xs s'" if "live xs s" for xs s
    using close_ok[OF that] retry_None[OF mr] by (fastforce simp: RetrySender_def)
qed

subsection \<open>The contract of \<open>FileSender\<close>\<close>

definition item_pair :: "item \<Rightarrow> SymbolsData option \<times> RawFuncLog option" where
  "item_pair x = (case x of Syms sd \<Rightarrow> (Some sd, None) | Rec raw \<Rightarrow> (None, Some raw))"

definition file_live :: "compact_value gob_lib \<Rightarrow> process \<Rightarrow> item list \<Rightarrow> file_sender \<Rightarrow> bool" where
  "file_live L p xs = (\<lambda>(f, w). \<exists>c. f = Some c \<and> compact_ok L (logFilePath p) (compact_values (map item_pair xs)) w c)"

definition file_closed :: "compact_value gob_lib \<Rightarrow> process \<Rightarrow> item list \<Rightarrow> file_sender \<Rightarrow> bool" where
  "file_closed L p xs = (\<lambda>(f, w). f = None \<and> faults w = [] \<and> files w (logFilePath p) \<noteq> None \<and>
     file_bytes w (logFilePath p) = gob_bytes L (compact_values (map item_pair xs)))"

lemma file_write_ok:
  assumes "file_live L p xs (f, w)"
  shows "\<exists>s'. FileSender_write L (fst (item_pair x)) (snd (item_pair x)) (f, w) = Inr (None, s') \<and> file_live L p (xs @ [x]) s'"
proof -
  obtain c where c: "f = Some c" "compact_ok L (logFilePath p) (compact_values (map item_pair xs)) w c" using assms by (auto simp: file_live_def)
  obtain c' w' where "CompactWriter_Write L (fst (item_pair x)) (snd (item_pair x)) w c = Inr (None, c', w')"
    "compact_ok L (logFilePath p) (compact_values (map item_pair xs) @ compact_values [item_pair x]) w' c'"
    using compact_write_all_ok[OF c(2), of "[item_pair x]"] by (cases "item_pair x") (auto simp: go_bind_eq_Inr split: option.splits)
  then show ?thesis using c(1) by (auto simp: FileSender_write_def file_live_def compact_values_def)
qed

interpretation to_file: retried_sender "FileSender L p" "\<lambda>(f, w). faults w = [] \<and> file_bytes w (logFilePath p) = []" "file_live L p" "file_closed L p"
  "\<lambda>x. True" defaultMaxRetry defaultRetryInterval for L p
proof
  fix s :: file_sender and xs sd raw
  obtain f w where s: "s = (f, w)" by (cases s)
  show "\<exists>s'. sn_Open (FileSender L p) (sn_New (FileSender L p) s) = Inr (None, s') \<and> file_live L p [] s'"
    if "case s of (f, w) \<Rightarrow> faults w = [] \<and> file_bytes w (logFilePath p) = []"
    using that s by (simp add: FileSender_def FileSender_Open_def CompactWriter_Open_def CompactLog_Writer_def OpenWriteOnly_def openFile_def
        next_fault_none opened_def file_live_def compact_ok_def compact_values_def)
  show "\<exists>s'. sn_SendSymbols (FileSender L p) sd s = Inr (None, s') \<and> file_live L p (xs @ [Syms sd]) s'" if "file_live L p xs s"
    using file_write_ok[of L p xs f w "Syms sd"] that s by (simp add: FileSender_def FileSender_SendSymbols_def item_pair_def)
  show "\<exists>s'. sn_SendLog (FileSender L p) raw s = Inr (None, s') \<and> file_live L p (xs @ [Rec raw]) s'" if "file_live L p xs s"
    using file_write_ok[of L p xs f w "Rec raw"] that s by (simp add: FileSender_def FileSender_SendLog_def item_pair_def)
  show "\<exists>s'. sn_Close (FileSender L p) s = Inr (None, s') \<and> file_closed L p xs s'" if "file_live L p xs s"
    using that s by (auto simp: FileSender_def FileSender_Close_def file_live_def file_closed_def compact_ok_def CompactWriter_Close_def os_Close_def next_fault_none)
qed (simp add: defaultMaxRetry_def)

subsection \<open>The contract of \<open>LogServerSender\<close>\<close>

text \<open>The server answers the hello of the client with its own: \<open>Serve\<close> sets the connection up, and the hello arrives.\<close>

definition greeted :: "conn \<Rightarrow> 'u Client \<times> 'u env \<Rightarrow> ('u Client \<times> 'u env) go" where
  "greeted x = (\<lambda>(c, e). client_event x (Serve_setup x c, e) (EventRecv, Some (Plain (ServerHello ProtocolVersion))))"

definition probe_MaxSmall :: nat where
  "probe_MaxSmall = nat DefaultMaxSmallPacketSize"

lemma greeted_ok:
  "\<exists>c1 e1. greeted x (Client_Init (probe_client p url), e) = Inr (c1, e1) \<and> client_inv c1 \<and> cl_isNegotiated c1 \<and> \<not> cl_closeDone c1 \<and>
    ms_rel je probe_MaxSmall ([], False) (cl_mergeSender c1)"
proof -
  have "fresh_client (probe_client p url)" by (simp add: fresh_client_def probe_client_def Let_def)
  moreover have "nat (bo_MaxSmallPacketSize (cl_BufferOpt (Client_Init (probe_client p url)))) = probe_MaxSmall"
    by (simp add: Client_Init_def probe_client_def Let_def BufferOption_SetDefault_def or_default_def zero_BufferOption_def probe_MaxSmall_def)
  ultimately show ?thesis using client_greeted[of "probe_client p url" x e je] by (fastforce simp: greeted_def served_def)
qed

text \<open>
  While the program runs the client has a life of its own: its two workers tick, and the connection reports that
  it has written a packet, which goes back to the pool. \<open>with_background\<close> adds such tasks to a sender: those of the
  \<open>n\<close>-th entry of the list happen before the \<open>n\<close>-th call of \<open>SendSymbols\<close>, \<open>SendLog\<close> or \<open>Close\<close>.
\<close>

datatype client_task = PingTick | RefreshTick | Written nat

definition client_task_step :: "json_encoder \<Rightarrow> 'u Client \<times> 'u env \<Rightarrow> client_task \<Rightarrow> ('u Client \<times> 'u env) go" where
  "client_task_step je = (\<lambda>(c, e) t.
     case t of
       PingTick \<Rightarrow> go_bind (worker_round je (PingRound Tick) c) (\<lambda>c. Inr (c, e))
     | RefreshTick \<Rightarrow> go_bind (worker_round je (RefreshRound Tick) c) (\<lambda>c. Inr (c, e))
     | Written n \<Rightarrow> client_op je (c, e) (MReuse n))"

type_synonym busy_sender = "server_sender \<times> client_task list list"

definition background :: "json_encoder \<Rightarrow> client_task list \<Rightarrow> server_sender \<Rightarrow> server_sender go" where
  "background je ts = (\<lambda>(s, old, e).
     case s of
       None \<Rightarrow> Inr (s, old, e)
     | Some c \<Rightarrow> go_bind (go_run (client_task_step je) (c, e) ts) (\<lambda>(c, e). Inr (Some c, old, e)))"

definition after_tasks ::
  "json_encoder \<Rightarrow> (server_sender \<Rightarrow> (log_error option \<times> server_sender) go) \<Rightarrow> busy_sender \<Rightarrow> (log_error option \<times> busy_sender) go" where
  "after_tasks je f = (\<lambda>(s, bg).
     go_bind (background je (concat (take 1 bg)) s) (\<lambda>s. go_bind (f s) (\<lambda>(err, s). Inr (err, s, drop 1 bg))))"

definition with_background :: "json_encoder \<Rightarrow> server_sender Sender \<Rightarrow> busy_sender Sender" where
  "with_background je S =
     \<lparr>sn_New = (\<lambda>(s, bg). (sn_New S s, bg)), sn_Open = (\<lambda>(s, bg). go_bind (sn_Open S s) (\<lambda>(err, s). Inr (err, s, bg))),
      sn_Close = after_tasks je (sn_Close S), sn_SendSymbols = (\<lambda>sd. after_tasks je (sn_SendSymbols S sd)),
      sn_SendLog = (\<lambda>raw. after_tasks je (sn_SendLog S raw))\<rparr>"

definition item_packet :: "item \<Rightarrow> packet" where
  "item_packet x = (case x of Syms sd \<Rightarrow> SymbolPacket sd | Rec raw \<Rightarrow> RawFuncLogPacket raw)"

text \<open>Written packets may be reported if the buffer of the symbol table is as large as those of call records.\<close>

definition item_fits :: "json_encoder \<Rightarrow> bool \<Rightarrow> item \<Rightarrow> bool" where
  "item_fits je reuse x \<longleftrightarrow> ok_packet je (item_packet x) \<and> (reuse \<longrightarrow> \<not> tight probe_MaxSmall (MSendLarge (item_packet x)))"

definition is_written :: "client_task \<Rightarrow> bool" where
  "is_written t \<longleftrightarrow> (case t of Written n \<Rightarrow> True | _ \<Rightarrow> False)"

definition allowed_tasks :: "bool \<Rightarrow> client_task list \<Rightarrow> bool" where
  "allowed_tasks reuse ts \<longleftrightarrow> list_ex is_written ts \<longrightarrow> reuse"

text \<open>Between the records the pings of the client are on the wire.\<close>

definition live_client :: "json_encoder \<Rightarrow> bool \<Rightarrow> item list \<Rightarrow> nat \<Rightarrow> 'u Client \<Rightarrow> bool" where
  "live_client je reuse xs n c \<longleftrightarrow> client_inv c \<and> cl_isNegotiated c \<and> \<not> cl_closeDone c \<and>
     (\<exists>ps t. ms_rel je probe_MaxSmall (ps, t) (cl_mergeSender c) \<and> (reuse \<longrightarrow> \<not> t) \<and>
       filter (\<lambda>p. p \<noteq> PingPacket) ps = map item_packet xs \<and> length ps \<le> length xs + n)"

definition server_live :: "json_encoder \<Rightarrow> bool \<Rightarrow> nat \<Rightarrow> worker_event list \<Rightarrow> item list \<Rightarrow> busy_sender \<Rightarrow> bool" where
  "server_live je reuse N rounds xs = (\<lambda>((s, old, e), bg).
     both_leave rounds \<and> \<not> late_ping rounds \<and> allowed_tasks reuse (concat bg) \<and>
     (\<exists>c n. s = Some c \<and> live_client je reuse xs n c \<and> n + length (concat bg) \<le> N))"

definition server_closed :: "json_encoder \<Rightarrow> nat \<Rightarrow> worker_event list \<Rightarrow> item list \<Rightarrow> busy_sender \<Rightarrow> bool" where
  "server_closed je N rounds xs = (\<lambda>((s, old, e), bg). s = None \<and> old \<noteq> [] \<and>
     (\<exists>ps. list_all (ok_packet je) ps \<and> filter (\<lambda>p. p \<noteq> PingPacket) ps = map item_packet xs \<and> length ps \<le> length xs + N \<and>
       wire (cl_mergeSender (last old)) =
         concat (map (enc_packet je) (ps @ ShutdownPacket # replicate (ping_ticks rounds) PingPacket))))"

lemma item_packet_not_ping: "item_packet x \<noteq> PingPacket"
  by (simp add: item_packet_def split: item.splits)

lemma raw_packet_small: "ok_packet je (RawFuncLogPacket raw) \<Longrightarrow> length (enc_packet je (RawFuncLogPacket raw)) \<le> 2048"
  by (simp add: ok_packet_def length_enc_packet enc_body_def length_enc_RawFuncLog MaxStackSize_def)

lemma live_clientI:
  assumes "live_client je reuse xs n c" "ms_rel je probe_MaxSmall (ps, t) ms" "reuse \<longrightarrow> \<not> t"
    "filter (\<lambda>p. p \<noteq> PingPacket) ps = map item_packet ys" "length ps \<le> length ys + k"
  shows "live_client je reuse ys k (c\<lparr>cl_mergeSender := ms\<rparr>)"
  using assms by (auto simp: live_client_def)

lemma client_task_ok:
  assumes "live_client je reuse xs n c" "is_written t \<longrightarrow> reuse"
  shows "\<exists>c'. client_task_step je (c, e) t = Inr (c', e) \<and> live_client je reuse xs (Suc n) c'"
proof -
  obtain ps u where c: "client_inv c" "cl_isNegotiated c" "ms_rel je probe_MaxSmall (ps, u) (cl_mergeSender c)" "reuse \<longrightarrow> \<not> u"
    "filter (\<lambda>p. p \<noteq> PingPacket) ps = map item_packet xs" "length ps \<le> length xs + n"
    using assms(1) by (auto simp: live_client_def)
  have w: "cl_pingers c = 1" "cl_refreshers c = 1" using c(1,2) by (simp_all add: client_inv_def)
  show ?thesis
  proof (cases t)
    case PingTick
    have p: "ok_packet je PingPacket" "length (enc_packet je PingPacket) \<le> 2048" using small_packets(1) by (simp_all add: sendable_def)
    obtain ms where ms: "sendNolock je PingPacket (cl_mergeSender c) = Inr (None, ms)" "ms_rel je probe_MaxSmall (ps @ [PingPacket], u) ms"
      using send_sim[OF c(3) p] by blast
    have "live_client je reuse xs (Suc n) (c\<lparr>cl_mergeSender := ms\<rparr>)" by (rule live_clientI[OF assms(1) ms(2) c(4)]) (use c(5,6) in simp_all)
    then show ?thesis using PingTick ms(1) w
      by (simp add: client_task_step_def worker_round_def pingWorker_def Client_Send_def mergeSender_Send_def)
  next
    case RefreshTick
    obtain ms where ms: "refreshNolock (cl_mergeSender c) = Inr (None, ms)" "ms_rel je probe_MaxSmall (ps, u) ms" using refresh_sim[OF c(3)] by blast
    have "live_client je reuse xs (Suc n) (c\<lparr>cl_mergeSender := ms\<rparr>)" by (rule live_clientI[OF assms(1) ms(2) c(4,5)]) (use c(6) in simp)
    then show ?thesis using RefreshTick ms(1) w
      by (simp add: client_task_step_def worker_round_def refresh_round_def RefreshWorker_def mergeSender_Refresh_def)
  next
    case (Written k)
    then have "queue_step je probe_MaxSmall (ps, u) (MReuse k) = Some (ps, u)" using assms(2) c(4) by (simp add: is_written_def queue_step_def)
    from sender.step_sim[OF c(3) this] obtain ms where ms: "ms_step je (cl_mergeSender c) (MReuse k) = Inr ms" "ms_rel je probe_MaxSmall (ps, u) ms"
      by blast
    have "live_client je reuse xs (Suc n) (c\<lparr>cl_mergeSender := ms\<rparr>)" by (rule live_clientI[OF assms(1) ms(2) c(4,5)]) (use c(6) in simp)
    then show ?thesis using Written ms(1) by (simp add: client_task_step_def client_op_ms_step)
  qed
qed

lemma client_tasks_ok:
  "live_client je reuse xs n c \<Longrightarrow> allowed_tasks reuse ts \<Longrightarrow>
   \<exists>c'. go_run (client_task_step je) (c, e) ts = Inr (c', e) \<and> live_client je reuse xs (length ts + n) c'"
proof (induction ts arbitrary: c n)
  case (Cons t ts)
  then have "is_written t \<longrightarrow> reuse" "allowed_tasks reuse ts" by (auto simp: allowed_tasks_def)
  from client_task_ok[OF Cons.prems(1) this(1), of e] Cons.IH[OF _ this(2)] show ?case by fastforce
qed simp

text \<open>Behind the tasks of the background a step of the sender finds a live client again.\<close>

lemma after_tasks_ok:
  assumes live: "server_live je reuse N rounds xs ((s, old, e), bg)"
    and f: "\<And>c n. live_client je reuse xs n c \<Longrightarrow> n + length (concat (drop 1 bg)) \<le> N \<Longrightarrow>
      \<exists>s'. f (Some c, old, e) = Inr (None, s') \<and> P (s', drop 1 bg)"
  shows "\<exists>s'. after_tasks je f ((s, old, e), bg) = Inr (None, s') \<and> P s'"
proof -
  obtain c n where c: "s = Some c" "live_client je reuse xs n c" "n + length (concat bg) \<le> N" "allowed_tasks reuse (concat bg)"
    using live by (auto simp: server_live_def)
  have bg: "concat bg = concat (take 1 bg) @ concat (drop 1 bg)" by (cases bg) simp_all
  then have "allowed_tasks reuse (concat (take 1 bg))" using c(4) by (simp add: allowed_tasks_def)
  from client_tasks_ok[OF c(2) this, of e] obtain c' where
    c': "go_run (client_task_step je) (c, e) (concat (take 1 bg)) = Inr (c', e)" "live_client je reuse xs (length (concat (take 1 bg)) + n) c'" by blast
  have "length (concat (take 1 bg)) + n + length (concat (drop 1 bg)) \<le> N" using c(3) bg by simp
  from f[OF c'(2) this] show ?thesis using c(1) c'(1) by (auto simp: after_tasks_def background_def)
qed

lemma server_live_drop:
  "server_live je reuse N rounds xs (s, bg) \<Longrightarrow> both_leave rounds \<and> \<not> late_ping rounds \<and> allowed_tasks reuse (concat (drop 1 bg))"
  by (cases bg) (auto simp: server_live_def allowed_tasks_def split: prod.splits)

interpretation to_server: retried_sender "with_background je (LogServerSender je p (greeted x) rounds)"
  "\<lambda>(s, bg). CanUseLogServerSender p \<and> both_leave rounds \<and> \<not> late_ping rounds \<and> allowed_tasks reuse (concat bg) \<and> length (concat bg) \<le> N"
  "server_live je reuse N rounds" "server_closed je N rounds" "item_fits je reuse"
  defaultMaxRetry defaultRetryInterval for je p x rounds reuse N
proof
  fix s :: busy_sender and xs sd raw
  let ?S = "with_background je (LogServerSender je p (greeted x) rounds)"
  obtain so old e bg where s: "s = ((so, old, e), bg)" by (metis surj_pair)
  show "\<exists>s'. sn_Open ?S (sn_New ?S s) = Inr (None, s') \<and> server_live je reuse N rounds [] s'"
    if ready: "case s of (s, bg) \<Rightarrow> CanUseLogServerSender p \<and> both_leave rounds \<and> \<not> late_ping rounds \<and> allowed_tasks reuse (concat bg) \<and> length (concat bg) \<le> N"
  proof -
    obtain url where url: "pr_env p DefaultLogsrvEnv = Some url" using ready s by (auto simp: CanUseLogServerSender_def)
    obtain c1 e1 where c1: "greeted x (Client_Init (probe_client p url), e) = Inr (c1, e1)" "client_inv c1" "cl_isNegotiated c1" "\<not> cl_closeDone c1"
      "ms_rel je probe_MaxSmall ([], False) (cl_mergeSender c1)" using greeted_ok by blast
    have "live_client je reuse [] 0 c1" unfolding live_client_def using c1 by (intro conjI exI[of _ "[]"] exI[of _ False]) simp_all
    then have "server_live je reuse N rounds [] ((Some c1, old, e1), bg)" using ready s by (auto simp: server_live_def)
    then show ?thesis using url s c1(1) by (simp add: with_background_def LogServerSender_def LogServerSender_Open_def)
  qed
  show "\<exists>s'. sn_SendSymbols ?S sd s = Inr (None, s') \<and> server_live je reuse N rounds (xs @ [Syms sd]) s'"
    if live: "server_live je reuse N rounds xs s" "item_fits je reuse (Syms sd)"
  proof -
    have "\<exists>s'. after_tasks je (LogServerSender_SendSymbols je sd) ((so, old, e), bg) = Inr (None, s') \<and> server_live je reuse N rounds (xs @ [Syms sd]) s'"
    proof (rule after_tasks_ok[OF live(1)[unfolded s]])
      fix c :: "probe_user Client" and n assume c: "live_client je reuse xs n c" "n + length (concat (drop 1 bg)) \<le> N"
      then obtain ps t where ps: "ms_rel je probe_MaxSmall (ps, t) (cl_mergeSender c)" "reuse \<longrightarrow> \<not> t"
        "filter (\<lambda>p. p \<noteq> PingPacket) ps = map item_packet xs" "length ps \<le> length xs + n" by (auto simp: live_client_def)
      have ok: "ok_packet je (SymbolPacket sd)" "reuse \<longrightarrow> \<not> tight probe_MaxSmall (MSendLarge (SymbolPacket sd))"
        using live(2) by (simp_all add: item_fits_def item_packet_def)
      obtain ms where ms: "mergeSender_SendLarge je (SymbolPacket sd) (cl_mergeSender c) = Inr (None, ms)"
        "ms_rel je probe_MaxSmall (ps @ [SymbolPacket sd], t \<or> tight probe_MaxSmall (MSendLarge (SymbolPacket sd))) ms"
        using large_sim[OF ps(1) ok(1)] by blast
      have "live_client je reuse (xs @ [Syms sd]) n (c\<lparr>cl_mergeSender := ms\<rparr>)"
        by (rule live_clientI[OF c(1) ms(2)]) (use ps(2-4) ok(2) in \<open>auto simp: item_packet_def\<close>)
      then show "\<exists>s'. LogServerSender_SendSymbols je sd (Some c, old, e) = Inr (None, s') \<and>
          server_live je reuse N rounds (xs @ [Syms sd]) (s', drop 1 bg)"
        using ms(1) c(2) server_live_drop[OF live(1)[unfolded s]]
        by (auto simp: LogServerSender_SendSymbols_def Client_SendLarge_def server_live_def)
    qed
    then show ?thesis by (simp add: s with_background_def LogServerSender_def)
  qed
  show "\<exists>s'. sn_SendLog ?S raw s = Inr (None, s') \<and> server_live je reuse N rounds (xs @ [Rec raw]) s'"
    if live: "server_live je reuse N rounds xs s" "item_fits je reuse (Rec raw)"
  proof -
    have "\<exists>s'. after_tasks je (LogServerSender_SendLog je raw) ((so, old, e), bg) = Inr (None, s') \<and> server_live je reuse N rounds (xs @ [Rec raw]) s'"
    proof (rule after_tasks_ok[OF live(1)[unfolded s]])
      fix c :: "probe_user Client" and n assume c: "live_client je reuse xs n c" "n + length (concat (drop 1 bg)) \<le> N"
      then obtain ps t where ps: "ms_rel je probe_MaxSmall (ps, t) (cl_mergeSender c)" "reuse \<longrightarrow> \<not> t"
        "filter (\<lambda>p. p \<noteq> PingPacket) ps = map item_packet xs" "length ps \<le> length xs + n" by (auto simp: live_client_def)
      have ok: "ok_packet je (RawFuncLogPacket raw)" using live(2) by (simp add: item_fits_def item_packet_def)
      obtain ms where ms: "mergeSender_Send je (RawFuncLogPacket raw) (cl_mergeSender c) = Inr (None, ms)"
        "ms_rel je probe_MaxSmall (ps @ [RawFuncLogPacket raw], t) ms"
        using send_sim[OF ps(1) ok raw_packet_small[OF ok]] by (auto simp: mergeSender_Send_def)
      have "live_client je reuse (xs @ [Rec raw]) n (c\<lparr>cl_mergeSender := ms\<rparr>)"
        by (rule live_clientI[OF c(1) ms(2) ps(2)]) (use ps(3,4) in \<open>simp_all add: item_packet_def\<close>)
      then show "\<exists>s'. LogServerSender_SendLog je raw (Some c, old, e) = Inr (None, s') \<and>
          server_live je reuse N rounds (xs @ [Rec raw]) (s', drop 1 bg)"
        using ms(1) c(2) server_live_drop[OF live(1)[unfolded s]]
        by (auto simp: LogServerSender_SendLog_def Client_Send_def server_live_def)
    qed
    then show ?thesis by (simp add: s with_background_def LogServerSender_def)
  qed
  show "\<exists>s'. sn_Close ?S s = Inr (None, s') \<and> server_closed je N rounds xs s'" if live: "server_live je reuse N rounds xs s"
  proof -
    have "\<exists>s'. after_tasks je (LogServerSender_Close je rounds) ((so, old, e), bg) = Inr (None, s') \<and> server_closed je N rounds xs s'"
    proof (rule after_tasks_ok[OF live[unfolded s]])
      fix c :: "probe_user Client" and n assume c: "live_client je reuse xs n c" "n + length (concat (drop 1 bg)) \<le> N"
      then obtain ps t where ps: "client_inv c" "cl_isNegotiated c" "\<not> cl_closeDone c" "ms_rel je probe_MaxSmall (ps, t) (cl_mergeSender c)"
        "filter (\<lambda>p. p \<noteq> PingPacket) ps = map item_packet xs" "length ps \<le> length xs + n" by (auto simp: live_client_def)
      have "both_leave rounds" "\<not> late_ping rounds" "list_all (ok_packet je) ps"
        using server_live_drop[OF live[unfolded s]] ps(4) by (simp_all add: ms_rel_def)
      then show "\<exists>s'. LogServerSender_Close je rounds (Some c, old, e) = Inr (None, s') \<and> server_closed je N rounds xs (s', drop 1 bg)"
        using Close_flushes[OF ps(1-4), of rounds e] ps(5,6) c(2) by (fastforce simp: LogServerSender_Close_def server_closed_def)
    qed
    then show ?thesis by (simp add: s with_background_def LogServerSender_def)
  qed
qed (simp add: defaultMaxRetry_def)

subsection \<open>Tracing flags as a function\<close>

datatype trace_op = OpEnableAll | OpDisableAll | OpEnable string | OpDisable string | OpFlag string

text \<open>What the commands mean: which functions are traced. Asking for a flag changes nothing.\<close>

definition traced_step :: "(string \<Rightarrow> bool) \<Rightarrow> trace_op \<Rightarrow> (string \<Rightarrow> bool) option" where
  "traced_step tr op =
     (case op of OpEnableAll \<Rightarrow> Some (\<lambda>_. True) | OpDisableAll \<Rightarrow> Some (\<lambda>_. False) | OpEnable f \<Rightarrow> Some (tr(f := True))
      | OpDisable f \<Rightarrow> Some (tr(f := False)) | OpFlag f \<Rightarrow> Some tr)"

text \<open>The commands on the flags; a function asks for its flag under its name.\<close>

definition tracing_step :: "((string \<rightharpoonup> nat) \<Rightarrow> string list) \<Rightarrow> tracing \<Rightarrow> trace_op \<Rightarrow> tracing go" where
  "tracing_step ord t op =
     (case op of OpEnableAll \<Rightarrow> Inr (EnableAll ord t) | OpDisableAll \<Rightarrow> Inr (DisableAll ord t) | OpEnable f \<Rightarrow> Inr (EnableTrace f t)
      | OpDisable f \<Rightarrow> Inr (DisableTrace f t)
      | OpFlag f \<Rightarrow> go_bind (TracingFlag logger_symbols (\<lambda>pc. Some f) (Some 0) t) (\<lambda>(bp, t). Inr t))"

definition tracing_wf :: "tracing \<Rightarrow> bool" where
  "tracing_wf t \<longleftrightarrow> inj_on (tr_map t) (dom (tr_map t)) \<and> finite (dom (tr_map t)) \<and> (\<forall>f bp. tr_map t f = Some bp \<longrightarrow> bp < length (tr_flags t))"

definition flag_of :: "tracing \<Rightarrow> string \<Rightarrow> bool" where
  "flag_of t f = (case tr_map t f of Some bp \<Rightarrow> tr_flags t ! bp | None \<Rightarrow> tr_default t)"

definition tracing_rel :: "((string \<rightharpoonup> nat) \<Rightarrow> string list) \<Rightarrow> (string \<rightharpoonup> nat) \<Rightarrow> (string \<Rightarrow> bool) \<Rightarrow> tracing \<Rightarrow> bool" where
  "tracing_rel ord m tr t \<longleftrightarrow> (\<forall>m. finite (dom m) \<longrightarrow> set (ord m) = dom m) \<and> tracing_wf t \<and> flag_of t = tr \<and> m \<subseteq>\<^sub>m tr_map t"

lemma set_flag_of:
  assumes "tracing_wf t" "tr_map t f \<noteq> None"
  shows "flag_of (set_flag f b t) = (flag_of t)(f := b)" "tracing_wf (set_flag f b t)" "tr_map (set_flag f b t) = tr_map t"
proof -
  obtain bp where bp: "tr_map t f = Some bp" "bp < length (tr_flags t)" using assms by (auto simp: tracing_wf_def)
  have "(tr_flags t)[bp := b] ! bq = tr_flags t ! bq" if "tr_map t g = Some bq" "g \<noteq> f" for g bq
    using assms(1) bp(1) that by (intro nth_list_update_neq) (auto simp: tracing_wf_def inj_on_def dom_def)
  then show "flag_of (set_flag f b t) = (flag_of t)(f := b)" using bp
    by (auto simp: fun_eq_iff flag_of_def set_flag_def split: option.splits)
qed (use assms in \<open>auto simp: set_flag_def tracing_wf_def split: option.splits\<close>)

lemma new_flag_of:
  assumes "tracing_wf t" "tr_map t f = None"
  shows "flag_of (new_flag f b t) = (flag_of t)(f := b)" "tracing_wf (new_flag f b t)" "tr_map t \<subseteq>\<^sub>m tr_map (new_flag f b t)"
proof -
  have lt: "bp < length (tr_flags t)" if "tr_map t g = Some bp" for g bp using assms(1) that by (simp add: tracing_wf_def)
  then show "flag_of (new_flag f b t) = (flag_of t)(f := b)"
    using assms(2) by (auto simp: fun_eq_iff flag_of_def new_flag_def nth_append split: option.splits)
  show "tr_map t \<subseteq>\<^sub>m tr_map (new_flag f b t)" using assms(2) by (auto simp: new_flag_def map_le_def)
  have ne: "tr_map t g \<noteq> Some (length (tr_flags t))" for g using lt[of g] by auto
  have inj: "inj_on (tr_map t) (dom (tr_map t))" "finite (dom (tr_map t))" using assms(1) by (simp_all add: tracing_wf_def)
  have "inj_on (tr_map (new_flag f b t)) (dom (tr_map (new_flag f b t)))"
  proof (rule inj_onI)
    fix g h assume "g \<in> dom (tr_map (new_flag f b t))" "h \<in> dom (tr_map (new_flag f b t))" "tr_map (new_flag f b t) g = tr_map (new_flag f b t) h"
    then show "g = h" using ne[of g] ne[of h] inj_onD[OF inj(1), of g h] by (auto simp: new_flag_def dom_def split: if_splits)
  qed
  then show "tracing_wf (new_flag f b t)" using inj(2) less_SucI[OF lt] by (auto simp: tracing_wf_def new_flag_def)
qed

lemma set_flags_of:
  "tracing_wf t \<Longrightarrow> set fs \<subseteq> dom (tr_map t) \<Longrightarrow>
   flag_of (fold (\<lambda>f. set_flag f b) fs t) = (\<lambda>f. if f \<in> set fs then b else flag_of t f) \<and> tracing_wf (fold (\<lambda>f. set_flag f b) fs t) \<and>
   tr_map (fold (\<lambda>f. set_flag f b) fs t) = tr_map t"
proof (induction fs arbitrary: t)
  case (Cons f fs)
  then have "tr_map t f \<noteq> None" by auto
  from Cons.IH[of "set_flag f b t"] set_flag_of[OF Cons.prems(1) this] Cons.prems(2) show ?case by (auto simp: fun_eq_iff)
qed (simp add: fun_eq_iff)

lemma set_all_of:
  assumes "tracing_wf t" "\<forall>m. finite (dom m) \<longrightarrow> set (ord m) = dom m"
  shows "flag_of (set_all ord b t) = (\<lambda>_. b)" "tracing_wf (set_all ord b t)" "tr_map (set_all ord b t) = tr_map t"
proof -
  have "set (ord (tr_map t)) = dom (tr_map t)" using assms by (simp add: tracing_wf_def)
  note r = set_flags_of[OF assms(1), of "ord (tr_map t)" b, unfolded this]
  then show "tr_map (set_all ord b t) = tr_map t" by (simp add: set_all_def)
  from r have "tracing_wf (fold (\<lambda>f. set_flag f b) (ord (tr_map t)) t)" by blast
  then show "tracing_wf (set_all ord b t)" by (simp add: set_all_def tracing_wf_def)
  show "flag_of (set_all ord b t) = (\<lambda>_. b)"
  proof
    fix f show "flag_of (set_all ord b t) f = b"
      using r by (cases "tr_map t f") (auto simp: set_all_def flag_of_def fun_eq_iff dom_def split: option.splits if_splits)
  qed
qed

lemma TracingFlag_of:
  "TracingFlag logger_symbols (\<lambda>pc. Some f) (Some 0) t =
    (let t = (if tr_map t f = None then new_flag f (tr_default t) t else t) in case tr_map t f of None \<Rightarrow> Inl NilDereference | Some bp \<Rightarrow> Inr (bp, t))"
  by (simp add: TracingFlag_def caller_name_def Symbols_GoFunc_def logger_symbols_def zero_SymbolsData_def)

text \<open>\<open>m\<close> are the pointers that have been handed out: they stay where they are.\<close>

interpretation flags: simulating_machine traced_step "tracing_step ord" "tracing_rel ord m" for ord m
proof
  fix tr t op tr'
  assume R: "tracing_rel ord m tr t" and st: "traced_step tr op = Some tr'"
  then have wf: "tracing_wf t" and tr: "flag_of t = tr" and m: "m \<subseteq>\<^sub>m tr_map t" and ord: "\<forall>m. finite (dom m) \<longrightarrow> set (ord m) = dom m"
    by (simp_all add: tracing_rel_def)
  have new: "tracing_rel ord m (tr(f := b)) (new_flag f b t)" if "tr_map t f = None" for f b
    using new_flag_of[OF wf that] tr ord map_le_trans[OF m] by (auto simp: tracing_rel_def)
  have upd: "tracing_rel ord m (tr(f := b)) (set_flag f b t)" if "tr_map t f \<noteq> None" for f b
    using set_flag_of[OF wf that] tr ord m by (auto simp: tracing_rel_def)
  have all: "tracing_rel ord m (\<lambda>_. b) (set_all ord b t)" for b
    using set_all_of[OF wf ord] ord m by (simp add: tracing_rel_def)
  have flag: "\<exists>t'. go_bind (TracingFlag logger_symbols (\<lambda>pc. Some f) (Some 0) t) (\<lambda>(bp, t). Inr t) = Inr t' \<and> tracing_rel ord m tr t'" for f
  proof (cases "tr_map t f")
    case None
    then have "tr f = tr_default t" using tr[symmetric] by (simp add: flag_of_def)
    then have "tr(f := tr_default t) = tr" by (rule fun_upd_idem)
    then show ?thesis using new[OF None, of "tr_default t"] None by (simp add: TracingFlag_of new_flag_def Let_def)
  next
    case (Some bp)
    then show ?thesis using R by (simp add: TracingFlag_of)
  qed
  show "\<exists>t'. tracing_step ord t op = Inr t' \<and> tracing_rel ord m tr' t'"
    using st all flag new upd by (cases op) (auto simp: traced_step_def tracing_step_def EnableAll_def DisableAll_def EnableTrace_def DisableTrace_def)
qed

lemma tracing_rel_init:
  "\<forall>m. finite (dom m) \<longrightarrow> set (ord m) = dom m \<Longrightarrow> tracing_rel ord Map.empty (\<lambda>_. False) init_tracing"
  by (simp add: tracing_rel_def tracing_wf_def init_tracing_def flag_of_def fun_eq_iff)

lemma flag_pointer:
  assumes "tracing_rel ord Map.empty tr t"
  shows "\<exists>bp t'. TracingFlag logger_symbols (\<lambda>pc. Some f) (Some 0) t = Inr (bp, t') \<and> tracing_rel ord [f \<mapsto> bp] tr t'"
proof -
  obtain t' where t': "tracing_step ord t (OpFlag f) = Inr t'" "tracing_rel ord Map.empty tr t'"
    using flags.step_sim[OF assms, of "OpFlag f" tr] by (auto simp: traced_step_def)
  then obtain bp where bp: "TracingFlag logger_symbols (\<lambda>pc. Some f) (Some 0) t = Inr (bp, t')"
    by (auto simp: tracing_step_def go_bind_eq_Inr)
  then have "tr_map t' f = Some bp" by (auto simp: TracingFlag_of Let_def split: option.splits if_splits)
  then show ?thesis using bp t'(2) by (auto simp: tracing_rel_def map_le_def)
qed


subsection \<open>Properties\<close>

text \<open>
  C17. Tracing flags follow the commands. Whatever commands to trace come, from the server or from the program, and
  whenever functions ask for their flags: the pointer that a function was once given shows,
  after any further commands, whether that function is to be traced.
\<close>

theorem Tracing_flags_follow_commands:
  assumes "\<forall>m. finite (dom m) \<longrightarrow> set (ord m) = dom m"
    "spec_run traced_step (\<lambda>_. False) ops = Some tr" "spec_run traced_step tr later = Some tr'"
  shows "\<exists>t bp t1 t2. go_run (tracing_step ord) init_tracing ops = Inr t \<and>
    TracingFlag logger_symbols (\<lambda>pc. Some f) (Some 0) t = Inr (bp, t1) \<and> bp < length (tr_flags t1) \<and> tr_flags t1 ! bp = tr f \<and>
    go_run (tracing_step ord) t1 later = Inr t2 \<and> bp < length (tr_flags t2) \<and> tr_flags t2 ! bp = tr' f"
proof -
  obtain t where 1: "go_run (tracing_step ord) init_tracing ops = Inr t" "tracing_rel ord Map.empty tr t"
    using flags.run_sim[OF tracing_rel_init[OF assms(1)] assms(2)] by blast
  obtain bp t1 where 2: "TracingFlag logger_symbols (\<lambda>pc. Some f) (Some 0) t = Inr (bp, t1)" "tracing_rel ord [f \<mapsto> bp] tr t1"
    using flag_pointer[OF 1(2)] by blast
  obtain t2 where 3: "go_run (tracing_step ord) t1 later = Inr t2" "tracing_rel ord [f \<mapsto> bp] tr' t2"
    using flags.run_sim[OF 2(2) assms(3)] by blast
  have "bp < length (tr_flags u)" "tr_flags u ! bp = s f" if "tracing_rel ord [f \<mapsto> bp] s u" for s u
  proof -
    have "tr_map u f = Some bp" using that by (auto simp: tracing_rel_def map_le_def)
    then show "bp < length (tr_flags u)" "tr_flags u ! bp = s f" using that by (auto simp: tracing_rel_def tracing_wf_def flag_of_def split: option.splits)
  qed
  then show ?thesis using 1(1) 2 3 by blast
qed

theorem Tracing_flags_follow_commands_witness:
  "\<exists>t bp t1 t2. go_run (tracing_step (\<lambda>m. sorted_list_of_set (dom m))) init_tracing [OpEnable ''f'', OpFlag ''g''] = Inr t \<and>
    TracingFlag logger_symbols (\<lambda>pc. Some ''f'') (Some 0) t = Inr (bp, t1) \<and> bp < length (tr_flags t1) \<and> tr_flags t1 ! bp = True \<and>
    go_run (tracing_step (\<lambda>m. sorted_list_of_set (dom m))) t1 [OpDisableAll] = Inr t2 \<and> bp < length (tr_flags t2) \<and> tr_flags t2 ! bp = False"
proof -
  have "spec_run traced_step (\<lambda>_. False) [OpEnable ''f'', OpFlag ''g''] = Some ((\<lambda>_. False)(''f'' := True))"
    "spec_run traced_step ((\<lambda>_. False)(''f'' := True)) [OpDisableAll] = Some (\<lambda>_. False)" by (simp_all add: traced_step_def)
  from Tracing_flags_follow_commands[OF _ this, of "\<lambda>m. sorted_list_of_set (dom m)" "''f''"] show ?thesis by simp
qed

text \<open>
  C16. A probe without a log server writes the whole trace to its file. Records made before the probe is
  initialised are kept and written after the symbols and before the later ones; nothing is lost, doubled or
  reordered. After the end of the program a reader of the file gets the symbols and then the
  records in the order they were made, provided \<open>gob\<close> decodes the values it encoded.
\<close>

theorem Probe_writes_the_trace_to_its_file:
  assumes "faults w = []" "file_bytes w (logFilePath p) = []" "pb_sender b = (f, w)" "\<not> pb_open b" "pb_initBuffer b = []"
    "gl_decode L (gob_bytes L (compact_values (map item_pair (Syms sd # map Rec (early @ late))))) = (compact_values (map item_pair (Syms sd # map Rec (early @ late))), EOF)"
  shows "\<exists>b1 b2 b3 b4 r w4 r'. go_run (\<lambda>b raw. deliver (default_retry (FileSender L p)) raw b) b early = Inr b1 \<and>
    logger_init (default_retry (FileSender L p)) sd b1 = Inr b2 \<and>
    go_run (\<lambda>b raw. deliver (default_retry (FileSender L p)) raw b) b2 late = Inr b3 \<and>
    logger_Close (default_retry (FileSender L p)) b3 = Inr b4 \<and> \<not> pb_open b4 \<and>
    CompactReader_Open (snd (pb_sender b4)) (CompactLog_Reader (logFilePath p)) = (None, r, w4) \<and>
    compact_read_all L (length (early @ late) + 2) w4 r =
      Inr (Inr (sd, nilRawFuncLog) # map (\<lambda>raw. Inr (nilDiff, raw)) (early @ late) @ [Inl EOF], r', w4)"
proof -
  let ?xs = "map item_pair (Syms sd # map Rec (early @ late))"
  have rd: "case pb_sender b of (f, w) \<Rightarrow> faults w = [] \<and> file_bytes w (logFilePath p) = []" using assms(1-3) by simp
  obtain b1 b2 b3 b4 where 1: "go_run (\<lambda>b raw. deliver (default_retry (FileSender L p)) raw b) b early = Inr b1"
    "logger_init (default_retry (FileSender L p)) sd b1 = Inr b2" "go_run (\<lambda>b raw. deliver (default_retry (FileSender L p)) raw b) b2 late = Inr b3"
    "logger_Close (default_retry (FileSender L p)) b3 = Inr b4" "file_closed L p (Syms sd # map Rec (early @ late)) (pb_sender b4)" "\<not> pb_open b4"
    using to_file.retried.probe_life[where L = L and sd = sd and early = early and late = late, OF rd assms(4,5)] unfolding default_retry_def by (auto simp: list_all_iff)
  obtain w' where w': "pb_sender b4 = (None, w')" "faults w' = []" "files w' (logFilePath p) \<noteq> None" "file_bytes w' (logFilePath p) = gob_bytes L (compact_values ?xs)"
    using 1(5) by (cases "pb_sender b4") (auto simp: file_closed_def)
  obtain d where d: "Decoder_Open w' (new_Decoder (logFilePath p)) = (None, d, w')" "reader_at (logFilePath p) (2 * 0) d"
    using Decoder_Open_ok[of w' "new_Decoder (logFilePath p)"] w' by (auto simp: new_Decoder_def)
  let ?r = "\<lparr>cr_File = logFilePath p, cr_dec = d\<rparr>"
  have "CompactReader_Open w' (CompactLog_Reader (logFilePath p)) = (None, ?r, w')" using d(1) by (simp add: CompactReader_Open_def CompactLog_Reader_def)
  moreover obtain r' where "compact_read_all L (Suc (length ?xs)) w' ?r = Inr (map (Inr \<circ> compact_pair) ?xs @ [Inl EOF], r', w')"
    using compact_read_all_ok[of w' L "logFilePath p" ?xs 0 ?r] w'(2,4) assms(6) d(2) by auto
  moreover have "map (Inr \<circ> compact_pair) ?xs = Inr (sd, nilRawFuncLog) # map (\<lambda>raw. Inr (nilDiff, raw)) (early @ late)"
    by (simp add: item_pair_def compact_pair_def or_nilDiff_def or_nilRaw_def)
  ultimately show ?thesis using 1(1-4,6) w'(1) by (intro exI[of _ b1] exI[of _ b2] exI[of _ b3] exI[of _ b4] exI[of _ ?r] exI[of _ w'] exI[of _ r']) simp
qed

definition sample_process :: process where
  "sample_process = \<lparr>pr_env = (\<lambda>name. None), pr_pid = 7, pr_args0 = ''app'', pr_hostname = ''h'', pr_cwd = ''/tmp''\<rparr>"

definition new_probe :: "'s \<Rightarrow> 's probe" where
  "new_probe s = \<lparr>pb_counters = init_counters, pb_initBuffer = [], pb_open = False, pb_sender = s\<rparr>"

theorem Probe_writes_the_trace_to_its_file_witness:
  "\<exists>b1 b2 b3 b4 r w4 r'. go_run (\<lambda>b raw. deliver (default_retry (FileSender tag_gob sample_process)) raw b)
      (new_probe (None, \<lparr>files = Map.empty, faults = []\<rparr>)) [sample_rec] = Inr b1 \<and>
    logger_init (default_retry (FileSender tag_gob sample_process)) nilDiff b1 = Inr b2 \<and>
    go_run (\<lambda>b raw. deliver (default_retry (FileSender tag_gob sample_process)) raw b) b2 [nilRawFuncLog] = Inr b3 \<and>
    logger_Close (default_retry (FileSender tag_gob sample_process)) b3 = Inr b4 \<and> \<not> pb_open b4 \<and>
    CompactReader_Open (snd (pb_sender b4)) (CompactLog_Reader (logFilePath sample_process)) = (None, r, w4) \<and>
    compact_read_all tag_gob (length ([sample_rec] @ [nilRawFuncLog]) + 2) w4 r =
      Inr (Inr (nilDiff, nilRawFuncLog) # map (\<lambda>raw. Inr (nilDiff, raw)) ([sample_rec] @ [nilRawFuncLog]) @ [Inl EOF], r', w4)"
  by (rule Probe_writes_the_trace_to_its_file[where f = None and w = "\<lparr>files = Map.empty, faults = []\<rparr>"])
    (simp_all add: new_probe_def file_bytes_def item_pair_def compact_values_def compact_pair_def or_nilDiff_def or_nilRaw_def tag_gob_def gob_bytes_def
      sample_rec_def nilRawFuncLog_def nth_Cons' upt_rec)

lemma write_each_overlay:
  assumes "faults w = []" "h_open h" "\<not> h_append h" "h_cur h \<le> length (file_bytes w (h_path h))" "files w (h_path h) \<noteq> None"
  shows "\<exists>h' w'. write_each w h ps = (None, h', w') \<and> faults w' = [] \<and> h_open h' \<and> \<not> h_append h' \<and> h_path h' = h_path h \<and>
    h_cur h' = h_cur h + length (concat ps) \<and> file_bytes w' (h_path h) = overlay (file_bytes w (h_path h)) (h_cur h) (concat ps) \<and>
    files w' (h_path h) \<noteq> None"
  using assms
proof (induction ps arbitrary: w h)
  case Nil
  then show ?case by (simp add: overlay_Nil)
next
  case (Cons p ps)
  let ?h = "h\<lparr>h_cur := h_cur h + length p\<rparr>"
  let ?w = "w\<lparr>files := (files w)(h_path h \<mapsto> overlay (file_bytes w (h_path h)) (h_cur h) p)\<rparr>"
  have "os_Write w h p = (?h, length p, None, ?w)"
    using Cons.prems by (simp add: os_Write_def next_fault_none Let_def)
  moreover have "file_bytes ?w (h_path h) = overlay (file_bytes w (h_path h)) (h_cur h) p" by (simp add: file_bytes_def)
  ultimately show ?case using Cons.IH[of ?w ?h] Cons.prems by (auto simp: overlay_append)
qed

text \<open>A send that fails once and succeeds after the sender was opened again.\<close>

lemma retrySend_twice:
  assumes "send s = Inr (Some e, s1)" "sn_Close S s1 = Inr (None, s2)" "sn_Open S s2 = Inr (None, s3)" "send s3 = Inr (None, s4)"
  shows "retrySend defaultMaxRetry defaultRetryInterval S send s = Inr (None, s4)"
proof -
  obtain n where "maxRetry defaultMaxRetry = Inr (Suc (Suc n))" by (rule that[of 48]) (simp add: maxRetry_def defaultMaxRetry_def)
  moreover have "0 \<le> defaultMaxRetry" by (simp add: defaultMaxRetry_def)
  moreover have "retry_sleep defaultRetryInterval = Inr defaultRetryInterval" by (simp add: retry_sleep_def defaultRetryInterval_def)
  ultimately show ?thesis using assms retry_None[of defaultMaxRetry "sn_Close S" s1 s2] retry_None[of defaultMaxRetry "sn_Open S" s2 s3]
    by (simp add: retrySend_def)
qed

lemma write_from_start:
  assumes "faults w = []" "h_open h" "\<not> h_append h" "h_cur h = 0" "h_path h = q" "files w q \<noteq> None"
  shows "\<exists>c' w'. CompactWriter_Write L None (Some raw) w \<lparr>cw_File = q, cw_w = Some h, cw_enc = Some []\<rparr> = Inr (None, c', w') \<and>
    file_bytes w' q = overlay (file_bytes w q) 0 (gob_bytes L [CSymbols nilDiff, CRaw raw])"
proof -
  let ?p1 = "concat (gl_encode L [] (CSymbols nilDiff))" and ?p2 = "concat (gl_encode L [CSymbols nilDiff] (CRaw raw))"
  obtain h1 w1 where 1: "write_each w h (gl_encode L [] (CSymbols nilDiff)) = (None, h1, w1)" "faults w1 = []" "h_open h1" "\<not> h_append h1"
    "h_path h1 = q" "h_cur h1 = length ?p1" "file_bytes w1 q = overlay (file_bytes w q) 0 ?p1" "files w1 q \<noteq> None"
    using write_each_overlay[of w h "gl_encode L [] (CSymbols nilDiff)"] assms by auto
  obtain h2 w2 where 2: "write_each w1 h1 (gl_encode L [CSymbols nilDiff] (CRaw raw)) = (None, h2, w2)"
    "file_bytes w2 q = overlay (file_bytes w1 q) (length ?p1) ?p2"
    using write_each_overlay[of w1 h1 "gl_encode L [CSymbols nilDiff] (CRaw raw)"] 1 by auto
  have "gob_bytes L [CSymbols nilDiff, CRaw raw] = ?p1 @ ?p2"
    using gob_bytes_snoc[of L "[CSymbols nilDiff]" "CRaw raw"] gob_bytes_snoc[of L "[]" "CSymbols nilDiff"] by simp
  moreover have "overlay (overlay (file_bytes w q) 0 ?p1) (length ?p1) ?p2 = overlay (file_bytes w q) 0 (?p1 @ ?p2)"
    using overlay_append[of "file_bytes w q" 0 ?p1 ?p2] by simp
  ultimately show ?thesis using 1(1,7) 2 by (simp add: CompactWriter_Write_def compact_encode_def or_nilDiff_def or_nilRaw_def)
qed

text \<open>
  C18. A retry overwrites the log file. When one write of a record fails, the sender is closed and opened again, and the
  record is sent once more, without error; but the file is opened at its start and not truncated: the
  record is written over the beginning of what was there.
\<close>

theorem Retry_overwrites_the_file:
  assumes "file_live L p xs (f, w)" "gl_encode L (compact_values (map item_pair xs)) (CSymbols nilDiff) = bs # bss"
  shows "\<exists>s'. sn_SendLog (default_retry (FileSender L p)) raw (f, w\<lparr>faults := [Some 0]\<rparr>) = Inr (None, s') \<and>
    file_bytes (snd s') (logFilePath p) =
      (let new = gob_bytes L [CSymbols nilDiff, CRaw raw] in new @ drop (length new) (gob_bytes L (compact_values (map item_pair xs))))"
proof -
  let ?q = "logFilePath p" and ?vs = "compact_values (map item_pair xs)" and ?w = "w\<lparr>faults := [Some 0]\<rparr>"
  obtain c h where c: "f = Some c" "cw_enc c = Some ?vs" "cw_w c = Some h" "h_open h" "\<not> h_append h" "h_path h = ?q"
    "h_cur h = length (gob_bytes L ?vs)" "file_bytes w ?q = gob_bytes L ?vs" "files w ?q \<noteq> None"
    using assms(1) by (auto simp: file_live_def compact_ok_def)
  let ?w1 = "w\<lparr>faults := [], files := (files w)(?q \<mapsto> gob_bytes L ?vs)\<rparr>"
  have fb: "file_bytes ?w ?q = gob_bytes L ?vs" using c(8) by (simp add: file_bytes_def)
  have "os_Write ?w h bs = (h, 0, Some EIO, ?w1)"
    using c(4-7) fb by (simp add: os_Write_def next_fault_def overlay_Nil Let_def)
  then have "CompactWriter_Write L None (Some raw) ?w c = Inr (Some EIO, c\<lparr>cw_enc := Some (?vs @ [CSymbols nilDiff]), cw_w := Some h\<rparr>, ?w1)"
    using c(2,3) assms(2) by (simp add: CompactWriter_Write_def compact_encode_def or_nilDiff_def)
  then have 1: "sn_SendLog (FileSender L p) raw (f, ?w) =
      Inr (Some (FileError EIO), Some (c\<lparr>cw_enc := Some (?vs @ [CSymbols nilDiff]), cw_w := Some h\<rparr>), ?w1)"
    using c(1) by (simp add: FileSender_def FileSender_SendLog_def FileSender_write_def)
  have 2: "sn_Close (FileSender L p) (Some (c\<lparr>cw_enc := Some (?vs @ [CSymbols nilDiff]), cw_w := Some h\<rparr>), ?w1) = Inr (None, None, ?w1)"
    using c(4) by (simp add: FileSender_def FileSender_Close_def CompactWriter_Close_def os_Close_def next_fault_def)
  let ?h = "\<lparr>h_path = ?q, h_cur = 0, h_append = False, h_open = True\<rparr>"
  have 3: "sn_Open (FileSender L p) (None, ?w1) = Inr (None, Some \<lparr>cw_File = ?q, cw_w = Some ?h, cw_enc = Some []\<rparr>, ?w1)"
    by (simp add: FileSender_def FileSender_Open_def CompactWriter_Open_def CompactLog_Writer_def OpenWriteOnly_def openFile_def next_fault_def opened_def
        file_bytes_def fun_upd_idem)
  obtain c' w' where w': "CompactWriter_Write L None (Some raw) ?w1 \<lparr>cw_File = ?q, cw_w = Some ?h, cw_enc = Some []\<rparr> = Inr (None, c', w')"
    "file_bytes w' ?q = overlay (file_bytes ?w1 ?q) 0 (gob_bytes L [CSymbols nilDiff, CRaw raw])"
    using write_from_start[of ?w1 ?h ?q L raw] by auto
  then have 4: "sn_SendLog (FileSender L p) raw (Some \<lparr>cw_File = ?q, cw_w = Some ?h, cw_enc = Some []\<rparr>, ?w1) = Inr (None, Some c', w')"
    by (simp add: FileSender_def FileSender_SendLog_def FileSender_write_def)
  from retrySend_twice[where S = "FileSender L p", OF 1 2 3 4]
  have "sn_SendLog (default_retry (FileSender L p)) raw (f, ?w) = Inr (None, Some c', w')" by (simp add: default_retry_def RetrySender_def)
  moreover have "file_bytes ?w1 ?q = gob_bytes L ?vs" by (simp add: file_bytes_def)
  ultimately show ?thesis using w'(2) by (simp add: overlay_def Let_def)
qed


theorem Retry_overwrites_the_file_witness:
  "\<exists>f w s'. file_live tag_gob sample_process [Syms nilDiff, Rec sample_rec] (f, w) \<and> file_bytes w (logFilePath sample_process) = [0, 1, 0, 2] \<and>
    sn_SendLog (default_retry (FileSender tag_gob sample_process)) sample_rec (f, w\<lparr>faults := [Some 0]\<rparr>) = Inr (None, s') \<and>
    file_bytes (snd s') (logFilePath sample_process) = [0, 2, 0, 2]"
proof -
  let ?S = "FileSender tag_gob sample_process" and ?live = "file_live tag_gob sample_process"
  obtain s0 where 0: "?live [] s0"
    using to_file.open_ok[where s = "(None, \<lparr>files = Map.empty, faults = []\<rparr>)" and p = sample_process and L = tag_gob] by (auto simp: file_bytes_def)
  obtain s1 where 1: "?live [Syms nilDiff] s1" using to_file.symbols_ok[OF 0, where sd = nilDiff] by auto
  obtain f w where 2: "?live [Syms nilDiff, Rec sample_rec] (f, w)" using to_file.log_ok[OF 1, where raw = sample_rec] by auto
  have b: "gob_bytes tag_gob (compact_values (map item_pair [Syms nilDiff, Rec sample_rec])) = [0, 1, 0, 2]"
    "gob_bytes tag_gob [CSymbols nilDiff, CRaw sample_rec] = [0, 2]"
    by (simp_all add: gob_bytes_def tag_gob_def compact_values_def compact_pair_def item_pair_def or_nilDiff_def or_nilRaw_def upt_rec nth_Cons'
        sample_rec_def nilRawFuncLog_def)
  have "file_bytes w (logFilePath sample_process) = [0, 1, 0, 2]" using 2 b(1) by (auto simp: file_live_def compact_ok_def)
  moreover obtain bs bss where "gl_encode tag_gob (compact_values (map item_pair [Syms nilDiff, Rec sample_rec])) (CSymbols nilDiff) = bs # bss"
    by (simp add: tag_gob_def)
  note Retry_overwrites_the_file[OF 2 this, of sample_rec]
  ultimately show ?thesis using 2 b by (auto simp: Let_def)
qed

end
