(* ===== verification/Program.thy ===== *)
theory Program
  imports Logger ServerRun
begin

section \<open>Program: an instrumented program under the tracer\<close>

text \<open>
  What the source editor inserts into every function (\<open>tracer/srceditor/template.go\<close>) makes the program call the
  probe: at its first run a function asks for its tracing flag; while the flag is set, a call is announced with
  \<open>FuncStart\<close> and its end, deferred, with \<open>FuncEnd\<close>. This theory runs a program whose goroutines enter and leave
  functions, and shows that the records the probe makes are a trace in the sense of \<open>ServerRun\<close> whose calls are
  those of the program.
\<close>

subsection \<open>The inserted statement\<close>

datatype prog_event = Enter string moment | Leave moment | Command trace_op

text \<open>
  \<open>im_flags\<close> are the flag variables of the functions, \<open>im_open\<close> the deferred calls of each goroutine:
  the transaction to end, or nothing for a call that was not traced.
\<close>

record 's instrumented =
  im_flags :: "string \<rightharpoonup> nat"
  im_tracing :: tracing
  im_open :: "GID \<Rightarrow> TxID option list"
  im_probe :: "'s probe"

definition own_flag :: "string \<Rightarrow> (string \<rightharpoonup> nat) \<Rightarrow> tracing \<Rightarrow> (nat \<times> tracing) go" where
  "own_flag f flags t = (case flags f of Some bp \<Rightarrow> Inr (bp, t) | None \<Rightarrow> TracingFlag logger_symbols (\<lambda>pc. Some f) (Some 0) t)"

definition funcStartStopStmt :: "'s Sender \<Rightarrow> string \<Rightarrow> moment \<Rightarrow> 's instrumented \<Rightarrow> 's instrumented go" where
  "funcStartStopStmt S f mo im =
     go_bind (own_flag f (im_flags im) (im_tracing im)) (\<lambda>(bp, t).
     let g = mo_gid mo; im = im\<lparr>im_flags := (im_flags im)(f \<mapsto> bp), im_tracing := t\<rparr> in
     if tr_flags t ! bp
     then go_bind (probe_FuncStart S mo (im_probe im)) (\<lambda>(i, b).
       Inr (im\<lparr>im_probe := b, im_open := (im_open im)(g := Some i # im_open im g)\<rparr>))
     else Inr (im\<lparr>im_open := (im_open im)(g := None # im_open im g)\<rparr>))"

definition run_deferred :: "'s Sender \<Rightarrow> moment \<Rightarrow> 's instrumented \<Rightarrow> 's instrumented go" where
  "run_deferred S mo im =
     (let g = mo_gid mo in
      case im_open im g of
        [] \<Rightarrow> Inr im
      | None # os \<Rightarrow> Inr (im\<lparr>im_open := (im_open im)(g := os)\<rparr>)
      | Some i # os \<Rightarrow> go_bind (probe_FuncEnd S i mo (im_probe im)) (\<lambda>b. Inr (im\<lparr>im_probe := b, im_open := (im_open im)(g := os)\<rparr>)))"

definition instrumented_step :: "((string \<rightharpoonup> nat) \<Rightarrow> string list) \<Rightarrow> 's Sender \<Rightarrow> 's instrumented \<Rightarrow> prog_event \<Rightarrow> 's instrumented go" where
  "instrumented_step ord S im ev =
     (case ev of
        Enter f mo \<Rightarrow> funcStartStopStmt S f mo im
      | Leave mo \<Rightarrow> run_deferred S mo im
      | Command op \<Rightarrow> go_bind (tracing_step ord (im_tracing im) op) (\<lambda>t. Inr (im\<lparr>im_tracing := t\<rparr>)))"

subsection \<open>The specification: calls of a program\<close>

text \<open>
  Abstractly a program has the functions that are traced, its traced calls in the order of their starts, and per
  goroutine the open calls, innermost first: the position of a traced one, nothing for another. \<open>None\<close>:
  a goroutine leaves without having entered, a traced goroutine has a negative identifier, a clock reads the time that stands
  for a call that has not ended, or there are too many calls.
\<close>

record program =
  pg_traced :: "string \<Rightarrow> bool"
  pg_calls :: "FuncLog list"
  pg_open :: "GID \<Rightarrow> nat option list"

definition open_calls :: "program \<Rightarrow> GID \<Rightarrow> nat list" where
  "open_calls sp g = List.map_filter (\<lambda>x. x) (pg_open sp g)"

definition new_call :: "program \<Rightarrow> moment \<Rightarrow> FuncLog" where
  "new_call sp mo =
     \<lparr>fl_ID = word_of_nat (length (pg_calls sp)), fl_StartTime = NewTime (mo_now mo), fl_EndTime = NotEnded,
      fl_ParentID = (case open_calls sp (mo_gid mo) of [] \<Rightarrow> NotFoundParent | k # _ \<Rightarrow> word_of_nat k),
      fl_Frames = take MaxStackSize (mo_stack mo), fl_GID = mo_gid mo\<rparr>"

definition program_step :: "program \<Rightarrow> prog_event \<Rightarrow> program option" where
  "program_step sp ev =
     (case ev of
        Enter f mo \<Rightarrow>
          let g = mo_gid mo; n = length (pg_calls sp) in
          if \<not> pg_traced sp f then Some (sp\<lparr>pg_open := (pg_open sp)(g := None # pg_open sp g)\<rparr>)
          else if sint g < 0 \<or> 2 ^ 63 \<le> n then None
          else Some (sp\<lparr>pg_calls := pg_calls sp @ [new_call sp mo], pg_open := (pg_open sp)(g := Some n # pg_open sp g)\<rparr>)
      | Leave mo \<Rightarrow>
          let g = mo_gid mo; t = NewTime (mo_now mo) in
          (case pg_open sp g of
             [] \<Rightarrow> None
           | None # os \<Rightarrow> Some (sp\<lparr>pg_open := (pg_open sp)(g := os)\<rparr>)
           | Some k # os \<Rightarrow>
               if sint g < 0 \<or> t = NotEnded then None
               else Some (sp\<lparr>pg_calls := (pg_calls sp)[k := (pg_calls sp ! k)\<lparr>fl_EndTime := t\<rparr>], pg_open := (pg_open sp)(g := os)\<rparr>))
      | Command op \<Rightarrow> map_option (\<lambda>tr. sp\<lparr>pg_traced := tr\<rparr>) (traced_step (pg_traced sp) op))"

definition init_program :: program where
  "init_program = \<lparr>pg_traced = (\<lambda>_. False), pg_calls = [], pg_open = (\<lambda>_. [])\<rparr>"

subsection \<open>The records of a program\<close>

text \<open>What a step does but for the delivery of its record, if it makes one.\<close>

type_synonym silent = "(string \<rightharpoonup> nat) \<times> tracing \<times> (GID \<Rightarrow> TxID option list) \<times> counters"

definition silent_of :: "'s instrumented \<Rightarrow> silent" where
  "silent_of im = (im_flags im, im_tracing im, im_open im, pb_counters (im_probe im))"

definition record_step :: "((string \<rightharpoonup> nat) \<Rightarrow> string list) \<Rightarrow> silent \<Rightarrow> prog_event \<Rightarrow> (RawFuncLog list \<times> silent) go" where
  "record_step ord = (\<lambda>(fl, t, op, ctr) ev.
     case ev of
       Enter f mo \<Rightarrow>
         go_bind (own_flag f fl t) (\<lambda>(bp, t).
         let g = mo_gid mo; fl = fl(f \<mapsto> bp) in
         if tr_flags t ! bp
         then case NewTxID ctr of (i, ctr) \<Rightarrow> case make_log Types.FuncStart i mo ctr of (raw, ctr) \<Rightarrow> Inr ([raw], fl, t, op(g := Some i # op g), ctr)
         else Inr ([], fl, t, op(g := None # op g), ctr))
     | Leave mo \<Rightarrow>
         (let g = mo_gid mo in
          case op g of
            [] \<Rightarrow> Inr ([], fl, t, op, ctr)
          | None # os \<Rightarrow> Inr ([], fl, t, op(g := os), ctr)
          | Some i # os \<Rightarrow> case make_log Types.FuncEnd i mo ctr of (raw, ctr) \<Rightarrow> Inr ([raw], fl, t, op(g := os), ctr))
     | Command c \<Rightarrow> go_bind (tracing_step ord t c) (\<lambda>t. Inr ([], fl, t, op, ctr)))"

text \<open>A program that collects its records.\<close>

definition collect_step :: "((string \<rightharpoonup> nat) \<Rightarrow> string list) \<Rightarrow> RawFuncLog list \<times> silent \<Rightarrow> prog_event \<Rightarrow> (RawFuncLog list \<times> silent) go" where
  "collect_step ord = (\<lambda>(recs, s) ev. go_bind (record_step ord s ev) (\<lambda>(r, s). Inr (recs @ r, s)))"

lemma deliver_counters: "deliver S raw (b\<lparr>pb_counters := c\<rparr>) = go_bind (deliver S raw b) (\<lambda>b. Inr (b\<lparr>pb_counters := c\<rparr>))"
  by (cases "sn_SendLog S raw (pb_sender b)") (auto simp: deliver_def send_raw_def)

lemma sendLog_records:
  assumes "make_log tag i mo ctr = (raw, ctr')" "deliver S raw b = Inr b'"
  shows "sendLog S tag i mo (b\<lparr>pb_counters := ctr\<rparr>) = Inr (b'\<lparr>pb_counters := ctr'\<rparr>)"
  using assms by (simp add: sendLog_def deliver_counters)

definition with_silent :: "silent \<Rightarrow> 's probe \<Rightarrow> 's instrumented" where
  "with_silent = (\<lambda>(fl, t, op, ctr) b. \<lparr>im_flags = fl, im_tracing = t, im_open = op, im_probe = b\<lparr>pb_counters := ctr\<rparr>\<rparr>)"

lemma with_silent_of: "with_silent (silent_of im) (im_probe im) = im"
  by (simp add: with_silent_def silent_of_def)

lemma instrumented_step_records:
  assumes "record_step ord s ev = Inr (r, s')" "go_run (\<lambda>b raw. deliver S raw b) b r = Inr b'"
  shows "instrumented_step ord S (with_silent s b) ev = Inr (with_silent s' b')"
proof -
  obtain fl t op ctr where s: "s = (fl, t, op, ctr)" by (metis surj_pair)
  show ?thesis
  proof (cases ev)
    case (Enter f mo)
    obtain bp u where o: "own_flag f fl t = Inr (bp, u)" using assms(1) by (auto simp: Enter s record_step_def go_bind_eq_Inr)
    obtain i ctr1 raw ctr2 where m: "NewTxID ctr = (i, ctr1)" "make_log Types.FuncStart i mo ctr1 = (raw, ctr2)" by (metis surj_pair)
    from sendLog_records[OF m(2)] o m assms show ?thesis
      by (auto simp: Enter s record_step_def instrumented_step_def funcStartStopStmt_def with_silent_def probe_FuncStart_def Let_def go_bind_eq_Inr split: if_splits)
  next
    case (Leave mo)
    show ?thesis
    proof (cases "op (mo_gid mo)")
      case (Cons x os)
      then show ?thesis using assms
        by (cases x) (auto simp: Leave s record_step_def instrumented_step_def run_deferred_def with_silent_def probe_FuncEnd_def Let_def go_bind_eq_Inr
          sendLog_records split: prod.splits)
    qed (use assms in \<open>auto simp: Leave s record_step_def instrumented_step_def run_deferred_def with_silent_def Let_def\<close>)
  next
    case (Command c)
    then show ?thesis using assms by (auto simp: s record_step_def instrumented_step_def with_silent_def go_bind_eq_Inr)
  qed
qed

lemma instrumented_run_records:
  assumes "go_run (collect_step ord) (recs, s) evs = Inr (recs', s')"
  shows "\<exists>new. recs' = recs @ new \<and> (\<forall>b b'. go_run (\<lambda>b raw. deliver S raw b) b new = Inr b' \<longrightarrow>
    go_run (instrumented_step ord S) (with_silent s b) evs = Inr (with_silent s' b'))"
  using assms
proof (induction evs arbitrary: recs s)
  case (Cons ev evs)
  obtain r t where 1: "record_step ord s ev = Inr (r, t)" "go_run (collect_step ord) (recs @ r, t) evs = Inr (recs', s')"
    using Cons.prems by (auto simp: collect_step_def go_bind_eq_Inr)
  obtain new where 2: "recs' = (recs @ r) @ new" "\<And>b b'. go_run (\<lambda>b raw. deliver S raw b) b new = Inr b' \<Longrightarrow>
    go_run (instrumented_step ord S) (with_silent t b) evs = Inr (with_silent s' b')"
    using Cons.IH[OF 1(2)] by blast
  have "go_run (instrumented_step ord S) (with_silent s b) (ev # evs) = Inr (with_silent s' b')"
    if "go_run (\<lambda>b raw. deliver S raw b) b (r @ new) = Inr b'" for b b'
    using that instrumented_step_records[OF 1(1)] 2(2) by (fastforce simp: go_run_append go_bind_eq_Inr)
  then show ?case using 2(1) by (intro exI[of _ "r @ new"]) simp
qed simp

subsection \<open>The trace of the records\<close>

definition call_entry :: "GID \<Rightarrow> nat \<Rightarrow> open_call" where
  "call_entry g k = \<lparr>o_gid = g, o_id = word_of_nat k, o_tx = word_of_nat (Suc k)\<rparr>"

definition on_goroutine :: "GID \<Rightarrow> open_call list \<Rightarrow> open_call list" where
  "on_goroutine g es = filter (\<lambda>e. o_gid e = g) es"

lemma on_goroutine_simps [simp]:
  "on_goroutine g [] = []"
  "on_goroutine g (e # es) = (if o_gid e = g then e # on_goroutine g es else on_goroutine g es)"
  by (simp_all add: on_goroutine_def)

lemma innermost_on: "innermost g es = (case on_goroutine g es of [] \<Rightarrow> None | e # _ \<Rightarrow> Some e)"
  by (induction es) auto

lemma pop_on: "on_goroutine h (pop g es) = (if h = g then tl (on_goroutine h es) else on_goroutine h es)"
  by (induction es) auto

text \<open>The forest of the specification of a trace agrees with the program.\<close>

definition forest_of :: "program \<Rightarrow> callgraph \<Rightarrow> bool" where
  "forest_of sp c \<longleftrightarrow> cg_calls c = pg_calls sp \<and> length (pg_calls sp) \<le> 2 ^ 63 \<and>
     (\<forall>g. on_goroutine g (cg_open c) = map (call_entry g) (open_calls sp g)) \<and> (\<forall>g. \<forall>k \<in> set (open_calls sp g). k < length (pg_calls sp))"

lemma forest_open: "forest_of sp c \<Longrightarrow> k \<in> set (open_calls sp g) \<Longrightarrow> k < length (pg_calls sp)"
  by (auto simp: forest_of_def)

lemma o_gid_call_entry [simp]: "o_gid (call_entry g k) = g"
  by (simp add: call_entry_def)

lemma o_tx_call_entry: "o_tx (call_entry g k) = word_of_nat (Suc k)"
  by (simp add: call_entry_def)

lemma open_calls_push: "open_calls (sp\<lparr>pg_open := (pg_open sp)(g := x # pg_open sp g)\<rparr>) h =
    (if h = g then (case x of None \<Rightarrow> [] | Some k \<Rightarrow> [k]) else []) @ open_calls sp h"
  by (simp add: open_calls_def List.map_filter_simps split: option.splits)

lemma open_calls_pop: "pg_open sp g = x # os \<Longrightarrow> open_calls (sp\<lparr>pg_open := (pg_open sp)(g := os)\<rparr>) h =
    (if h = g then drop (case x of None \<Rightarrow> 0 | Some k \<Rightarrow> 1) (open_calls sp h) else open_calls sp h)"
  by (simp add: open_calls_def List.map_filter_simps split: option.splits)

lemma open_calls_other: "open_calls (sp\<lparr>pg_calls := cs\<rparr>) = open_calls sp" "open_calls (sp\<lparr>pg_traced := tr\<rparr>) = open_calls sp"
  "open_calls (sp\<lparr>pg_calls := cs, pg_open := op\<rparr>) = open_calls (sp\<lparr>pg_open := op\<rparr>)"
  by (simp_all add: open_calls_def fun_eq_iff)

lemma tx_is_new:
  assumes "forest_of sp c" "length (pg_calls sp) < 2 ^ 63"
  shows "word_of_nat (Suc (length (pg_calls sp))) \<notin> o_tx ` set (cg_open c)"
proof
  assume "word_of_nat (Suc (length (pg_calls sp))) \<in> o_tx ` set (cg_open c)"
  then obtain e where e: "e \<in> set (cg_open c)" "word_of_nat (Suc (length (pg_calls sp))) = o_tx e" by blast
  have "e \<in> set (on_goroutine (o_gid e) (cg_open c))" using e(1) by (simp add: on_goroutine_def)
  then have "e \<in> set (map (call_entry (o_gid e)) (open_calls sp (o_gid e)))" using assms(1) by (simp add: forest_of_def)
  then obtain k where ke: "k \<in> set (open_calls sp (o_gid e))" "e = call_entry (o_gid e) k" by auto
  have k: "k < length (pg_calls sp)" "o_tx e = word_of_nat (Suc k)"
    by (rule forest_open[OF assms(1) ke(1)]) (rule trans[OF arg_cong[OF ke(2), of o_tx] o_tx_call_entry])
  have "unat (word_of_nat (Suc (length (pg_calls sp))) :: TxID) = Suc (length (pg_calls sp))" "unat (word_of_nat (Suc k) :: TxID) = Suc k"
    using assms(2) k(1) by (simp_all add: unsigned_of_nat take_bit_nat_eq_self del: of_nat_Suc)
  then show False using e(2) k by simp
qed

lemma forest_enter:
  assumes "forest_of sp c" "program_step sp (Enter f mo) = Some sp'" "pg_traced sp f"
    "raw = \<lparr>raw_ID = i, raw_Tag = Types.FuncStart, raw_Timestamp = NewTime (mo_now mo), raw_Frames = take MaxStackSize (mo_stack mo),
      raw_GID = mo_gid mo, raw_TxID = word_of_nat (Suc (length (pg_calls sp)))\<rparr>"
  shows "\<exists>c'. cg_step c (Raw raw) = Some c' \<and> forest_of sp' c' \<and> 0 \<le> sint (raw_GID raw)"
proof -
  let ?g = "mo_gid mo" and ?n = "length (pg_calls sp)"
  have sp': "sp' = sp\<lparr>pg_calls := pg_calls sp @ [new_call sp mo], pg_open := (pg_open sp)(?g := Some ?n # pg_open sp ?g)\<rparr>"
    and len: "?n < 2 ^ 63" and g: "0 \<le> sint ?g"
    using assms(2,3) by (auto simp: program_step_def Let_def split: if_splits)
  have top: "top_id ?g (cg_open c) = (case open_calls sp ?g of [] \<Rightarrow> NotFoundParent | k # _ \<Rightarrow> word_of_nat k)"
    using assms(1) by (simp add: top_id_def innermost_on forest_of_def call_entry_def split: list.splits)
  obtain c' where c': "cg_start c raw = Some c'" "cg_calls c' = cg_calls c @ [new_call sp mo]"
    "cg_open c' = call_entry ?g ?n # cg_open c"
    using tx_is_new[OF assms(1) len] len assms(1) top
    by (simp add: cg_start_def assms(4) Let_def forest_of_def new_call_def call_entry_def del: of_nat_Suc)
  have "cg_step c (Raw raw) = Some c'" using c'(1) by (simp add: cg_step_def assms(4))
  moreover have "open_calls sp' h = (if h = ?g then [?n] else []) @ open_calls sp h" for h
    by (simp add: sp' open_calls_other open_calls_push)
  then have "forest_of sp' c'" using assms(1) c'(2,3) len less_SucI[OF forest_open[OF assms(1)]]
    unfolding forest_of_def by (simp add: sp' ball_Un del: of_nat_Suc)
  ultimately show ?thesis using g assms(4) by simp
qed

lemma forest_leave:
  assumes "forest_of sp c" "program_step sp (Leave mo) = Some sp'" "pg_open sp (mo_gid mo) = Some k # os"
    "raw = \<lparr>raw_ID = i, raw_Tag = Types.FuncEnd, raw_Timestamp = NewTime (mo_now mo), raw_Frames = fs,
      raw_GID = mo_gid mo, raw_TxID = word_of_nat (Suc k)\<rparr>"
  shows "\<exists>c'. cg_step c (Raw raw) = Some c' \<and> forest_of sp' c' \<and> 0 \<le> sint (raw_GID raw)"
proof -
  let ?g = "mo_gid mo" and ?t = "NewTime (mo_now mo)"
  have sp': "sp' = sp\<lparr>pg_calls := (pg_calls sp)[k := (pg_calls sp ! k)\<lparr>fl_EndTime := ?t\<rparr>], pg_open := (pg_open sp)(?g := os)\<rparr>"
    and t: "?t \<noteq> NotEnded" and g: "0 \<le> sint ?g"
    using assms(2,3) by (auto simp: program_step_def Let_def split: if_splits)
  obtain ks where ks: "open_calls sp ?g = k # ks" using assms(3) by (simp add: open_calls_def List.map_filter_simps)
  have k: "k < length (pg_calls sp)" using forest_open[OF assms(1), of k ?g] ks by simp
  then have un: "unat (word_of_nat k :: FuncLogID) = k" using assms(1) by (simp add: forest_of_def unsigned_of_nat take_bit_nat_eq_self)
  have inn: "innermost ?g (cg_open c) = Some (call_entry ?g k)" using assms(1) ks by (simp add: innermost_on forest_of_def)
  obtain c' where c': "cg_end c raw = Some c'" "cg_calls c' = (cg_calls c)[k := (cg_calls c ! k)\<lparr>fl_EndTime := ?t\<rparr>]"
    "cg_open c' = pop ?g (cg_open c)"
    using inn t un by (simp add: cg_end_def assms(4) Let_def call_entry_def)
  have "cg_step c (Raw raw) = Some c'" using c'(1) by (simp add: cg_step_def assms(4) FuncStart_def FuncEnd_def)
  moreover have "forest_of sp' c'" using assms(1) c'(2,3) ks forest_open[OF assms(1), of _ ?g]
    by (auto simp: sp' forest_of_def open_calls_other open_calls_pop[OF assms(3)] pop_on)
  ultimately show ?thesis using g assms(4) by simp
qed

subsection \<open>The ticks of the worker\<close>

text \<open>Ticks, and the limit of records between them, change only which calls are still in memory.\<close>

definition same_forest :: "callgraph \<Rightarrow> callgraph \<Rightarrow> bool" where
  "same_forest c d \<longleftrightarrow> cg_calls c = cg_calls d \<and> cg_open c = cg_open d \<and> cg_gor c = cg_gor d"

lemma cg_step_same:
  assumes "same_forest c d" "cg_step c (Raw raw) = Some c'"
  shows "\<exists>d'. cg_step d (Raw raw) = Some d' \<and> same_forest c' d'"
  using assms
  by (auto simp: same_forest_def cg_step_def cg_start_def cg_end_def Let_def split: if_splits option.splits)

lemma same_forest_clear: "same_forest c (trace_clear d) = same_forest c d" "same_forest (trace_clear c) d = same_forest c d"
  by (simp_all add: same_forest_def trace_clear_def)

lemma trace_step_same:
  assumes "same_forest c d" "trace_step (c, sd, n) ev = Some (c', sd', n')"
  shows "\<exists>d' m'. trace_step (d, sd, m) ev = Some (d', sd', m') \<and> same_forest c' d'"
proof (cases ev)
  case (WRaw raw)
  then obtain c1 where c1: "0 \<le> sint (raw_GID raw)" "cg_step c (Raw raw) = Some c1" "same_forest c1 = same_forest c'" "sd' = sd"
    using assms(2) by (fastforce simp: trace_step_def same_forest_clear split: if_splits option.splits)
  then obtain d1 where "cg_step d (Raw raw) = Some d1" "same_forest c' d1" using cg_step_same[OF assms(1)] by metis
  then show ?thesis using c1(1,4) by (simp add: WRaw trace_step_def same_forest_clear)
next
  case (WSymbols s)
  then show ?thesis using assms by (simp add: trace_step_def split: if_splits)
next
  case WTick
  then show ?thesis using assms by (auto simp: trace_step_def same_forest_clear)
qed

lemma trace_with_ticks:
  assumes "same_forest c d" "spec_run trace_step (c, sd, n) (filter (\<lambda>e. e \<noteq> WTick) evs) = Some (c', sd', n')"
  shows "\<exists>d' m'. spec_run trace_step (d, sd, m) evs = Some (d', sd', m') \<and> same_forest c' d'"
  using assms
proof (induction evs arbitrary: c d sd n m)
  case (Cons ev evs)
  show ?case
  proof (cases "ev = WTick")
    case True
    have "same_forest c (trace_clear d)" using Cons.prems(1) by (simp add: same_forest_clear)
    from Cons.IH[OF this, of sd n 0] Cons.prems(2) True show ?thesis by (simp add: trace_step_def)
  next
    case False
    then obtain c1 sd1 n1 where 1: "trace_step (c, sd, n) ev = Some (c1, sd1, n1)"
      "spec_run trace_step (c1, sd1, n1) (filter (\<lambda>e. e \<noteq> WTick) evs) = Some (c', sd', n')"
      using Cons.prems(2) by (auto split: option.splits)
    then obtain d1 m1 where "trace_step (d, sd, m) ev = Some (d1, sd1, m1)" "same_forest c1 d1"
      using trace_step_same[OF Cons.prems(1)] by blast
    then show ?thesis using Cons.IH[OF _ 1(2), of d1 m1] by simp
  qed
qed simp

subsection \<open>The records follow the program\<close>

definition tx_of :: "nat \<Rightarrow> TxID" where
  "tx_of k = word_of_nat (Suc k)"

text \<open>The silent part of the program and the records so far agree with the specification.\<close>

definition program_rel :: "((string \<rightharpoonup> nat) \<Rightarrow> string list) \<Rightarrow> SymbolsData \<Rightarrow> program \<Rightarrow> RawFuncLog list \<times> silent \<Rightarrow> bool" where
  "program_rel ord sd sp = (\<lambda>(recs, fl, t, op, ctr).
     tracing_rel ord fl (pg_traced sp) t \<and> op = (\<lambda>g. map (map_option tx_of) (pg_open sp g)) \<and>
     lastTxID ctr = word_of_nat (length (pg_calls sp)) \<and> list_all (\<lambda>r. length (raw_Frames r) \<le> MaxStackSize) recs \<and>
     (\<exists>c n. spec_run trace_step (cg_init, sd, 0) (map WRaw recs) = Some (c, sd, n) \<and> forest_of sp c))"

lemma own_flag_ok:
  assumes "tracing_rel ord fl tr t"
  shows "\<exists>bp u. own_flag f fl t = Inr (bp, u) \<and> tr_flags u ! bp = tr f \<and> tracing_rel ord (fl(f \<mapsto> bp)) tr u"
proof (cases "fl f")
  case None
  obtain u where u: "tracing_step ord t (OpFlag f) = Inr u" "tracing_rel ord fl tr u"
    using flags.step_sim[OF assms, of "OpFlag f" tr] by (auto simp: traced_step_def)
  then obtain bp where bp: "TracingFlag logger_symbols (\<lambda>pc. Some f) (Some 0) t = Inr (bp, u)"
    by (auto simp: tracing_step_def go_bind_eq_Inr)
  then have "tr_map u f = Some bp" by (auto simp: TracingFlag_of Let_def split: option.splits if_splits)
  then show ?thesis using bp u(2) None by (auto simp: own_flag_def tracing_rel_def map_le_def flag_of_def split: option.splits)
next
  case (Some bp)
  then have "tr_map t f = Some bp" using assms by (auto simp: tracing_rel_def map_le_def dom_def)
  moreover have "fl(f \<mapsto> bp) = fl" using Some by (simp add: fun_upd_idem)
  ultimately show ?thesis using assms Some by (auto simp: own_flag_def tracing_rel_def flag_of_def)
qed

lemma trace_snoc:
  assumes "spec_run trace_step (cg_init, sd, 0) (map WRaw recs) = Some (c, sd, n)" "cg_step c (Raw raw) = Some c'" "forest_of sp c'" "0 \<le> sint (raw_GID raw)"
  shows "\<exists>c' n. spec_run trace_step (cg_init, sd, 0) (map WRaw (recs @ [raw])) = Some (c', sd, n) \<and> forest_of sp c'"
proof -
  have "forest_of sp (trace_clear c')" using assms(3) by (simp add: forest_of_def trace_clear_def)
  then show ?thesis using assms by (simp add: spec_run_append trace_step_def)
qed

lemma enter_sim:
  assumes R: "program_rel ord sd sp (recs, fl, t, op, ctr)" and st: "program_step sp (Enter f mo) = Some sp'"
  shows "\<exists>s'. collect_step ord (recs, fl, t, op, ctr) (Enter f mo) = Inr s' \<and> program_rel ord sd sp' s'"
proof -
  let ?g = "mo_gid mo" and ?n = "length (pg_calls sp)"
  have tr: "tracing_rel ord fl (pg_traced sp) t" and op: "op = (\<lambda>g. map (map_option tx_of) (pg_open sp g))"
    and tx: "lastTxID ctr = word_of_nat ?n" and fr: "list_all (\<lambda>r. length (raw_Frames r) \<le> MaxStackSize) recs"
    using R by (simp_all add: program_rel_def)
  obtain c n where c: "spec_run trace_step (cg_init, sd, 0) (map WRaw recs) = Some (c, sd, n)" "forest_of sp c"
    using R by (auto simp: program_rel_def)
  obtain bp u where u: "own_flag f fl t = Inr (bp, u)" "tr_flags u ! bp = pg_traced sp f" "tracing_rel ord (fl(f \<mapsto> bp)) (pg_traced sp) u"
    using own_flag_ok[OF tr] by blast
  show ?thesis
  proof (cases "pg_traced sp f")
    case False
    then have sp': "sp' = sp\<lparr>pg_open := (pg_open sp)(?g := None # pg_open sp ?g)\<rparr>" using st by (simp add: program_step_def Let_def)
    have "open_calls sp' = open_calls sp" using open_calls_push[of sp ?g None] by (simp add: sp' fun_eq_iff)
    then have "forest_of sp' c" using c(2) sp' by (simp add: forest_of_def)
    moreover have "op(?g := None # op ?g) = (\<lambda>g. map (map_option tx_of) (pg_open sp' g))" by (auto simp: op sp')
    moreover have "collect_step ord (recs, fl, t, op, ctr) (Enter f mo) = Inr (recs, fl(f \<mapsto> bp), u, op(?g := None # op ?g), ctr)"
      using u(1,2) False by (simp add: collect_step_def record_step_def Let_def)
    moreover have "pg_traced sp' = pg_traced sp" "pg_calls sp' = pg_calls sp" by (simp_all add: sp')
    ultimately show ?thesis using u(3) c(1) tx fr by (auto simp: program_rel_def)
  next
    case True
    obtain raw ctr' where m: "make_log Types.FuncStart (tx_of ?n) mo (ctr\<lparr>lastTxID := tx_of ?n\<rparr>) = (raw, ctr')" by (metis surj_pair)
    then have raw: "raw = \<lparr>raw_ID = raw_ID raw, raw_Tag = Types.FuncStart, raw_Timestamp = NewTime (mo_now mo),
        raw_Frames = take MaxStackSize (mo_stack mo), raw_GID = ?g, raw_TxID = word_of_nat (Suc ?n)\<rparr>" and ctr': "lastTxID ctr' = tx_of ?n"
      by (auto simp: make_log_def NewRawFuncLogID_def Let_def tx_of_def)
    have tx': "NewTxID ctr = (tx_of ?n, ctr\<lparr>lastTxID := tx_of ?n\<rparr>)" using tx by (simp add: NewTxID_def tx_of_def add.commute Let_def)
    have sp': "sp' = sp\<lparr>pg_calls := pg_calls sp @ [new_call sp mo], pg_open := (pg_open sp)(?g := Some ?n # pg_open sp ?g)\<rparr>"
      using st True by (auto simp: program_step_def Let_def split: if_splits)
    obtain c' where c': "cg_step c (Raw raw) = Some c'" "forest_of sp' c'" "0 \<le> sint (raw_GID raw)"
      using forest_enter[OF c(2) st True raw] by blast
    have "length (raw_Frames raw) \<le> MaxStackSize" by (subst raw) simp
    moreover have "collect_step ord (recs, fl, t, op, ctr) (Enter f mo) =
        Inr (recs @ [raw], fl(f \<mapsto> bp), u, op(?g := Some (tx_of ?n) # op ?g), ctr')"
      using u(1,2) True tx' m by (simp add: collect_step_def record_step_def Let_def)
    moreover have "lastTxID ctr' = word_of_nat (length (pg_calls sp'))" by (simp add: ctr' tx_of_def sp')
    moreover have "op(?g := Some (tx_of ?n) # op ?g) = (\<lambda>g. map (map_option tx_of) (pg_open sp' g))" by (auto simp: op sp')
    moreover have "pg_traced sp' = pg_traced sp" by (simp add: sp')
    ultimately show ?thesis using u(3) fr trace_snoc[OF c(1) c'] by (simp add: program_rel_def)
  qed
qed

lemma leave_sim:
  assumes R: "program_rel ord sd sp (recs, fl, t, op, ctr)" and st: "program_step sp (Leave mo) = Some sp'"
  shows "\<exists>s'. collect_step ord (recs, fl, t, op, ctr) (Leave mo) = Inr s' \<and> program_rel ord sd sp' s'"
proof -
  let ?g = "mo_gid mo"
  have tr: "tracing_rel ord fl (pg_traced sp) t" and op: "op = (\<lambda>g. map (map_option tx_of) (pg_open sp g))"
    and tx: "lastTxID ctr = word_of_nat (length (pg_calls sp))" and fr: "list_all (\<lambda>r. length (raw_Frames r) \<le> MaxStackSize) recs"
    using R by (simp_all add: program_rel_def)
  obtain c n where c: "spec_run trace_step (cg_init, sd, 0) (map WRaw recs) = Some (c, sd, n)" "forest_of sp c"
    using R by (auto simp: program_rel_def)
  obtain x os where x: "pg_open sp ?g = x # os" using st by (cases "pg_open sp ?g") (auto simp: program_step_def Let_def)
  show ?thesis
  proof (cases x)
    case None
    then have sp': "sp' = sp\<lparr>pg_open := (pg_open sp)(?g := os)\<rparr>" using st x by (simp add: program_step_def Let_def)
    have "forest_of sp' c" using c(2) None by (simp add: sp' forest_of_def open_calls_pop[OF x])
    then show ?thesis using tr tx c(1) fr x None
      by (auto simp: collect_step_def record_step_def program_rel_def op sp' Let_def)
  next
    case (Some k)
    obtain raw ctr' where m: "make_log Types.FuncEnd (tx_of k) mo ctr = (raw, ctr')" by (metis surj_pair)
    then have raw: "raw = \<lparr>raw_ID = raw_ID raw, raw_Tag = Types.FuncEnd, raw_Timestamp = NewTime (mo_now mo),
        raw_Frames = take MaxStackSize (mo_stack mo), raw_GID = ?g, raw_TxID = word_of_nat (Suc k)\<rparr>" and ctr': "lastTxID ctr' = lastTxID ctr"
      by (auto simp: make_log_def NewRawFuncLogID_def Let_def tx_of_def)
    obtain cs where sp': "sp' = sp\<lparr>pg_calls := cs, pg_open := (pg_open sp)(?g := os)\<rparr>" "length cs = length (pg_calls sp)"
      using st x Some by (auto simp: program_step_def Let_def split: if_splits)
    obtain c' where c': "cg_step c (Raw raw) = Some c'" "forest_of sp' c'" "0 \<le> sint (raw_GID raw)"
      using forest_leave[OF c(2) st x[unfolded Some] raw] by blast
    have "length (raw_Frames raw) \<le> MaxStackSize" by (subst raw) simp
    moreover have "collect_step ord (recs, fl, t, op, ctr) (Leave mo) = Inr (recs @ [raw], fl, t, op(?g := map (map_option tx_of) os), ctr')"
      using x Some m by (simp add: collect_step_def record_step_def op Let_def)
    moreover have "lastTxID ctr' = word_of_nat (length (pg_calls sp'))" by (simp add: ctr' tx sp')
    moreover have "op(?g := map (map_option tx_of) os) = (\<lambda>g. map (map_option tx_of) (pg_open sp' g))" by (auto simp: op sp')
    moreover have "pg_traced sp' = pg_traced sp" by (simp add: sp')
    ultimately show ?thesis using tr fr trace_snoc[OF c(1) c'] by (simp add: program_rel_def)
  qed
qed

interpretation traced: simulating_machine program_step "collect_step ord" "program_rel ord sd" for ord sd
proof
  fix sp s ev sp'
  assume R: "program_rel ord sd sp s" and st: "program_step sp ev = Some sp'"
  obtain recs fl t op ctr where s: "s = (recs, fl, t, op, ctr)" by (metis surj_pair)
  show "\<exists>s'. collect_step ord s ev = Inr s' \<and> program_rel ord sd sp' s'"
  proof (cases ev)
    case (Enter f mo)
    then show ?thesis using enter_sim R st s by blast
  next
    case (Leave mo)
    then show ?thesis using leave_sim R st s by blast
  next
    case (Command c)
    then obtain tr where tr: "traced_step (pg_traced sp) c = Some tr" "sp' = sp\<lparr>pg_traced := tr\<rparr>" using st by (auto simp: program_step_def)
    have "tracing_rel ord fl (pg_traced sp) t" using R by (simp add: s program_rel_def)
    from flags.step_sim[OF this tr(1)] obtain u where "tracing_step ord t c = Inr u" "tracing_rel ord fl tr u" by blast
    then show ?thesis using R tr(2)
      by (auto simp: s Command collect_step_def record_step_def program_rel_def forest_of_def open_calls_other)
  qed
qed

lemma program_rel_init:
  assumes "\<forall>m. finite (dom m) \<longrightarrow> set (ord m) = dom m" "lastTxID ctr = 0"
  shows "program_rel ord sd init_program ([], Map.empty, init_tracing, \<lambda>_. [], ctr)"
  using tracing_rel_init[OF assms(1)] assms(2)
  by (simp add: program_rel_def init_program_def forest_of_def cg_init_def open_calls_def List.map_filter_simps)

text \<open>A program in two parts, before and after the probe is initialised.\<close>

lemma program_records:
  assumes "\<forall>m. finite (dom m) \<longrightarrow> set (ord m) = dom m" "lastTxID ctr = 0" "spec_run program_step init_program (early @ late) = Some sp"
  shows "\<exists>r1 s1 r2 s2. go_run (collect_step ord) ([], Map.empty, init_tracing, \<lambda>_. [], ctr) early = Inr (r1, s1) \<and>
    go_run (collect_step ord) (r1, s1) late = Inr (r1 @ r2, s2) \<and> program_rel ord sd sp (r1 @ r2, s2)"
proof -
  obtain sp1 where sp1: "spec_run program_step init_program early = Some sp1" "spec_run program_step sp1 late = Some sp"
    using assms(3) by (auto simp: spec_run_append split: option.splits)
  obtain r1 s1 where 1: "go_run (collect_step ord) ([], Map.empty, init_tracing, \<lambda>_. [], ctr) early = Inr (r1, s1)" "program_rel ord sd sp1 (r1, s1)"
    using traced.run_sim[OF program_rel_init[OF assms(1,2)] sp1(1)] by fastforce
  obtain r s2 where 2: "go_run (collect_step ord) (r1, s1) late = Inr (r, s2)" "program_rel ord sd sp (r, s2)"
    using traced.run_sim[OF 1(2) sp1(2)] by fastforce
  from instrumented_run_records[OF 2(1)] obtain r2 where "r = r1 @ r2" by blast
  then show ?thesis using 1(1) 2 by blast
qed

subsection \<open>The life of an instrumented program\<close>

definition new_instrumented :: "'s probe \<Rightarrow> 's instrumented" where
  "new_instrumented b = \<lparr>im_flags = Map.empty, im_tracing = init_tracing, im_open = (\<lambda>_. []), im_probe = b\<rparr>"

lemma send_raw_counters: "send_raw S raw (b\<lparr>pb_counters := c\<rparr>) = go_bind (send_raw S raw b) (\<lambda>b. Inr (b\<lparr>pb_counters := c\<rparr>))"
  by (cases "sn_SendLog S raw (pb_sender b)") (auto simp: send_raw_def)

lemma send_raws_counters:
  "go_run (\<lambda>b raw. send_raw S raw b) (b\<lparr>pb_counters := c\<rparr>) rs = go_bind (go_run (\<lambda>b raw. send_raw S raw b) b rs) (\<lambda>b. Inr (b\<lparr>pb_counters := c\<rparr>))"
proof (induction rs arbitrary: b)
  case (Cons r rs)
  then show ?case by (cases "send_raw S r b") (simp_all add: send_raw_counters)
qed simp

lemma setOutput_counters: "setOutput S (b\<lparr>pb_counters := c\<rparr>) = go_bind (setOutput S b) (\<lambda>b. Inr (b\<lparr>pb_counters := c\<rparr>))"
  by (cases "sn_Open S (sn_New S (pb_sender b))") (auto simp: setOutput_def Let_def)

lemma logger_init_counters:
  assumes "logger_init S sd b = Inr b'"
  shows "logger_init S sd (b\<lparr>pb_counters := c\<rparr>) = Inr (b'\<lparr>pb_counters := c\<rparr>)"
proof -
  obtain b1 where b1: "setOutput S b = Inr b1" using assms by (auto simp: logger_init_def go_bind_eq_Inr)
  obtain s where s: "sn_SendSymbols S sd (pb_sender b1) = Inr (None, s)" using assms b1 by (auto simp: logger_init_def go_bind_eq_Inr split: if_splits)
  obtain b2 where b2: "go_run (\<lambda>b raw. send_raw S raw b) (b1\<lparr>pb_sender := s\<rparr>) (pb_initBuffer b1) = Inr b2" "b' = b2\<lparr>pb_initBuffer := []\<rparr>"
    using assms b1 s by (auto simp: logger_init_def go_bind_eq_Inr)
  have eq: "b1\<lparr>pb_counters := c, pb_sender := s\<rparr> = b1\<lparr>pb_sender := s, pb_counters := c\<rparr>" by simp
  have "go_run (\<lambda>b raw. send_raw S raw b) (b1\<lparr>pb_counters := c, pb_sender := s\<rparr>) (pb_initBuffer b1) = Inr (b2\<lparr>pb_counters := c\<rparr>)"
    by (subst eq) (simp add: send_raws_counters b2(1))
  then show ?thesis using b1 s b2(2) by (simp add: logger_init_def setOutput_counters)
qed

lemma logger_Close_counters: "logger_Close S (b\<lparr>pb_counters := c\<rparr>) = go_bind (logger_Close S b) (\<lambda>b. Inr (b\<lparr>pb_counters := c\<rparr>))"
  by (cases "sn_Close S (pb_sender b)") (auto simp: logger_Close_def)

lemma with_silent_new: "with_silent (Map.empty, init_tracing, \<lambda>_. [], pb_counters b) b = new_instrumented b"
  by (simp add: with_silent_def new_instrumented_def)

lemma im_probe_with_silent: "im_probe (with_silent s b) = b\<lparr>pb_counters := snd (snd (snd s))\<rparr>"
  "(with_silent s b)\<lparr>im_probe := b'\<lparr>pb_counters := snd (snd (snd s))\<rparr>\<rparr> = with_silent s b'"
  by (simp_all add: with_silent_def split: prod.splits)

lemma collect_length:
  assumes "go_run (collect_step ord) (recs, s) evs = Inr (recs', s')"
  shows "length recs' \<le> length recs + length evs"
  using assms
proof (induction evs arbitrary: recs s)
  case (Cons ev evs)
  obtain r t where 1: "record_step ord s ev = Inr (r, t)" "go_run (collect_step ord) (recs @ r, t) evs = Inr (recs', s')"
    using Cons.prems by (auto simp: collect_step_def go_bind_eq_Inr)
  obtain fl u op ctr where s: "s = (fl, u, op, ctr)" by (metis surj_pair)
  have "length r \<le> 1" using 1(1)
    by (cases ev) (auto simp: s record_step_def Let_def go_bind_eq_Inr split: if_splits prod.splits list.splits option.splits)
  then show ?case using Cons.IH[OF 1(2)] by simp
qed simp

context reliable_sender
begin

lemma program_life:
  assumes "ready (pb_sender b)" "\<not> pb_open b" "pb_initBuffer b = []" "lastTxID (pb_counters b) = 0" "fits (Syms sd)"
    and "\<And>raw. length (raw_Frames raw) \<le> MaxStackSize \<Longrightarrow> fits (Rec raw)" "init_symbols ms fs ls = Inr sd"
    and "\<forall>m. finite (dom m) \<longrightarrow> set (ord m) = dom m" "spec_run program_step init_program (early @ late) = Some sp"
  shows "\<exists>im1 b2 im3 b4 recs c n. go_run (instrumented_step ord S) (new_instrumented b) early = Inr im1 \<and>
    probe_init S ms fs ls (im_probe im1) = Inr b2 \<and> go_run (instrumented_step ord S) (im1\<lparr>im_probe := b2\<rparr>) late = Inr im3 \<and>
    logger_Close S (im_probe im3) = Inr b4 \<and> closed (Syms sd # map Rec recs) (pb_sender b4) \<and>
    list_all (\<lambda>r. length (raw_Frames r) \<le> MaxStackSize) recs \<and> length recs \<le> length (early @ late) \<and>
    spec_run trace_step (cg_init, sd, 0) (map WRaw recs) = Some (c, sd, n) \<and> forest_of sp c"
proof -
  obtain r1 s1 r2 s2 where r: "go_run (collect_step ord) ([], Map.empty, init_tracing, \<lambda>_. [], pb_counters b) early = Inr (r1, s1)"
    "go_run (collect_step ord) (r1, s1) late = Inr (r1 @ r2, s2)" "program_rel ord sd sp (r1 @ r2, s2)"
    using program_records[OF assms(8,4,9)] by blast
  then obtain c n where fr: "list_all (\<lambda>r. length (raw_Frames r) \<le> MaxStackSize) (r1 @ r2)"
    and c: "spec_run trace_step (cg_init, sd, 0) (map WRaw (r1 @ r2)) = Some (c, sd, n)" "forest_of sp c"
    by (auto simp: program_rel_def)
  have fit: "list_all (\<lambda>r. fits (Rec r)) (r1 @ r2)" by (rule list.pred_mono_strong[OF fr assms(6)])
  obtain b1 b2 b3 b4 where p: "go_run (\<lambda>b raw. deliver S raw b) b r1 = Inr b1" "logger_init S sd b1 = Inr b2"
    "go_run (\<lambda>b raw. deliver S raw b) b2 r2 = Inr b3" "logger_Close S b3 = Inr b4" "closed (Syms sd # map Rec (r1 @ r2)) (pb_sender b4)"
    using probe_life[OF assms(1-3,5) fit] by blast
  let ?im1 = "with_silent s1 b1" and ?im3 = "with_silent s2 b3"
  have 1: "go_run (instrumented_step ord S) (new_instrumented b) early = Inr ?im1"
    using instrumented_run_records[OF r(1), of S] p(1) by (auto simp: with_silent_new[symmetric])
  have 2: "probe_init S ms fs ls (im_probe ?im1) = Inr (b2\<lparr>pb_counters := snd (snd (snd s1))\<rparr>)"
    using logger_init_counters[OF p(2)] assms(7) by (simp add: probe_init_def im_probe_with_silent)
  have 3: "go_run (instrumented_step ord S) (with_silent s1 b2) late = Inr ?im3"
    using instrumented_run_records[OF r(2), of S] p(3) by auto
  have 4: "logger_Close S (im_probe ?im3) = Inr (b4\<lparr>pb_counters := snd (snd (snd s2))\<rparr>)"
    using p(4) by (simp add: im_probe_with_silent logger_Close_counters)
  have "length (r1 @ r2) \<le> length (early @ late)" using collect_length[OF r(1)] collect_length[OF r(2)] by simp
  then show ?thesis using 1 2 3 4 p(5) c fr
    by (intro exI[of _ ?im1] exI[of _ "b2\<lparr>pb_counters := snd (snd (snd s1))\<rparr>"] exI[of _ ?im3] exI[of _ "b4\<lparr>pb_counters := snd (snd (snd s2))\<rparr>"]
        exI[of _ "r1 @ r2"] exI[of _ c] exI[of _ n]) (simp add: im_probe_with_silent(2))
qed

end

end
