(* ===== verification/Editor.thy ===== *)
theory Editor
  imports Files Strings
begin

section \<open>Editor: inserting the tracing code (\<open>tracer/srceditor\<close>)\<close>

text \<open>
  The source editor parses a Go file, collects insertions and deletions while it walks over the syntax tree, applies
  them to the source and formats the result. The parser and the formatter of the Go library are
  parameters; a syntax tree keeps what the editor looks at.
\<close>

subsection \<open>Lists of edits (\<open>nodes.go\<close>)\<close>

text \<open>\<open>token.Pos\<close>: positions count from one.\<close>

type_synonym Pos = int

datatype Node = InsertNode Pos "byte list" | DeleteNode Pos Pos

record NodeList =
  nl_OrigSrc :: "byte list"
  nl_list :: "Node list"

definition topos :: "Node \<Rightarrow> Pos" where
  "topos n = (case n of InsertNode p s \<Rightarrow> p | DeleteNode p e \<Rightarrow> p)"

definition NodeSorter_Less :: "Node list \<Rightarrow> nat \<Rightarrow> nat \<Rightarrow> bool" where
  "NodeSorter_Less ns i j \<longleftrightarrow> topos (ns ! i) < topos (ns ! j)"

definition NodeList_Add :: "Node list \<Rightarrow> NodeList \<Rightarrow> NodeList" where
  "NodeList_Add ns nl = nl\<lparr>nl_list := nl_list nl @ ns\<rparr>"

definition srcByRange1 :: "byte list \<Rightarrow> Pos \<Rightarrow> byte list go" where
  "srcByRange1 src a = (if 0 \<le> a - 1 \<and> a - 1 \<le> int (length src) then Inr (drop (nat (a - 1)) src) else Inl SliceBoundsOutOfRange)"

definition srcByRange2 :: "byte list \<Rightarrow> Pos \<Rightarrow> Pos \<Rightarrow> byte list go" where
  "srcByRange2 src a b =
     (if 0 \<le> a - 1 \<and> a - 1 \<le> b - 1 \<and> b - 1 \<le> int (length src)
      then Inr (drop (nat (a - 1)) (take (nat (b - 1)) src)) else Inl SliceBoundsOutOfRange)"

fun Format_loop :: "byte list \<Rightarrow> Pos \<Rightarrow> Node list \<Rightarrow> byte list \<Rightarrow> byte list go" where
  "Format_loop src pos [] buf = go_bind (srcByRange1 src pos) (\<lambda>s. Inr (buf @ s))"
| "Format_loop src pos (InsertNode p s # ns) buf = go_bind (srcByRange2 src pos p) (\<lambda>t. Format_loop src p ns (buf @ t @ s))"
| "Format_loop src pos (DeleteNode p e # ns) buf = go_bind (srcByRange2 src pos p) (\<lambda>t. Format_loop src e ns (buf @ t))"

text \<open>\<open>sort.Stable\<close> keeps the order of edits at the same position; \<open>fmt\<close> is \<open>format.Source\<close>.\<close>

definition NodeList_Format :: "(byte list \<Rightarrow> 'e + byte list) \<Rightarrow> NodeList \<Rightarrow> ('e + byte list) go" where
  "NodeList_Format fmt nl = go_bind (Format_loop (nl_OrigSrc nl) 1 (sort_key topos (nl_list nl)) []) (\<lambda>s. Inr (fmt s))"

subsection \<open>Templates (\<open>template.go\<close>)\<close>

record TemplateData =
  td_ImportName :: string
  td_ImportPath :: string
  td_VariablePrefix :: string

definition DefaultImportName :: string where "DefaultImportName = ''__goapptrace_tracer''"
definition DefaultImportPath :: string where "DefaultImportPath = ''github.com/yuuki0xff/goapptrace/tracer/logger''"
definition DefaultVariablePrefix :: string where "DefaultVariablePrefix = ''__goapptrace_tracer_var_''"

definition newTemplate :: "TemplateData \<Rightarrow> TemplateData" where
  "newTemplate d =
     d\<lparr>td_ImportName := (if td_ImportName d = [] then DefaultImportName else td_ImportName d),
       td_ImportPath := (if td_ImportPath d = [] then DefaultImportPath else td_ImportPath d),
       td_VariablePrefix := (if td_VariablePrefix d = [] then DefaultVariablePrefix else td_VariablePrefix d)\<rparr>"

text \<open>A new line with \<open>n\<close> tabs.\<close>

definition nl_tabs :: "nat \<Rightarrow> string" where
  "nl_tabs n = char_of (10::nat) # replicate n (char_of (9::nat))"

definition tmpl_funcTracingFlag :: "TemplateData \<Rightarrow> string \<Rightarrow> string" where
  "tmpl_funcTracingFlag d f = td_VariablePrefix d @ ''_func_'' @ f @ ''_isTracing''"

definition tmpl_importStmt :: "TemplateData \<Rightarrow> string" where
  "tmpl_importStmt d = nl_tabs 2 @ ''import '' @ td_ImportName d @ '' '' @ [CHR 0x22] @ td_ImportPath d @ [CHR 0x22] @ nl_tabs 1"

definition tmpl_defineFuncTracingFlag :: "TemplateData \<Rightarrow> string \<Rightarrow> string" where
  "tmpl_defineFuncTracingFlag d f = nl_tabs 2 @ ''var '' @ tmpl_funcTracingFlag d f @ '' *bool'' @ nl_tabs 1"

definition tmpl_funcStartStopStmt :: "TemplateData \<Rightarrow> string \<Rightarrow> string" where
  "tmpl_funcStartStopStmt d f =
     (let flag = tmpl_funcTracingFlag d f; tx = td_VariablePrefix d @ ''_txid''; lg = td_ImportName d in
      nl_tabs 2 @ ''if '' @ flag @ '' == nil {'' @
      nl_tabs 3 @ flag @ '' = '' @ lg @ ''.TracingFlag()'' @
      nl_tabs 2 @ ''}'' @
      nl_tabs 2 @ ''if *'' @ flag @ '' {'' @
      nl_tabs 3 @ tx @ '' := '' @ lg @ ''.FuncStart()'' @
      nl_tabs 3 @ ''defer '' @ lg @ ''.FuncEnd('' @ tx @ '')'' @
      nl_tabs 2 @ ''}'' @ nl_tabs 1)"

definition tmpl_funcStartCloseStopStmt :: "TemplateData \<Rightarrow> string \<Rightarrow> string" where
  "tmpl_funcStartCloseStopStmt d f =
     nl_tabs 2 @ ''defer '' @ td_ImportName d @ ''.Close()'' @ nl_tabs 2 @ tmpl_funcStartStopStmt d f @ nl_tabs 1"

definition tmpl_closeAndExit :: "TemplateData \<Rightarrow> string" where
  "tmpl_closeAndExit d = td_ImportName d @ ''.CloseAndExit''"

subsection \<open>The editor (\<open>editor.go\<close>)\<close>

text \<open>
  A declared function with its name, whether it is exported and the place of its brace if it has a body;
  a function literal; a call, with the names and the place of the selector \<open>a.b\<close> it calls, if it calls one.
\<close>

datatype ast =
    FuncDecl string bool "Pos option" "ast list"
  | FuncLit "Pos option" "ast list"
  | CallExpr "(string \<times> string \<times> Pos \<times> Pos) option" "ast list"
  | OtherNode "ast list"

record go_file =
  gf_pkg :: string
  gf_nameEnd :: Pos
  gf_end :: Pos
  gf_decls :: "ast list"

record CodeEditor =
  ce_ExportedOnly :: bool
  ce_Prefix :: string
  ce_tmpl :: "TemplateData option"
  ce_dontUseRandom :: string

definition CodeEditor_init :: "CodeEditor \<Rightarrow> CodeEditor" where
  "CodeEditor_init ce =
     (case ce_tmpl ce of
        Some t \<Rightarrow> ce
      | None \<Rightarrow> ce\<lparr>ce_tmpl := Some (newTemplate
          \<lparr>td_ImportName = (if ce_Prefix ce \<noteq> [] then ce_Prefix ce @ ''_import'' else []), td_ImportPath = [],
           td_VariablePrefix = (if ce_Prefix ce \<noteq> [] then ce_Prefix ce @ ''_var_'' else [])\<rparr>)\<rparr>)"

text \<open>\<open>rnd n\<close> is what the \<open>n\<close>-th call of the random generator gives, formatted.\<close>

record walk =
  wk_import :: bool
  wk_nodes :: "Node list"
  wk_draws :: nat

definition ce_random :: "CodeEditor \<Rightarrow> (nat \<Rightarrow> string) \<Rightarrow> walk \<Rightarrow> string \<times> walk" where
  "ce_random ce rnd k =
     (if ce_dontUseRandom ce \<noteq> [] then (ce_dontUseRandom ce, k) else (rnd (wk_draws k), k\<lparr>wk_draws := wk_draws k + 1\<rparr>))"

text \<open>The flag of a function is declared at the end of the file, its statement comes after the brace.\<close>

definition add_func :: "go_file \<Rightarrow> (string \<Rightarrow> string) \<Rightarrow> TemplateData \<Rightarrow> Pos \<Rightarrow> string \<Rightarrow> walk \<Rightarrow> walk" where
  "add_func f stmt d lbrace name k =
     k\<lparr>wk_import := True, wk_nodes := wk_nodes k @
       [InsertNode (gf_end f) (bytes_of_string (tmpl_defineFuncTracingFlag d name)), InsertNode (lbrace + 1) (bytes_of_string (stmt name))]\<rparr>"

fun inspect :: "CodeEditor \<Rightarrow> TemplateData \<Rightarrow> (nat \<Rightarrow> string) \<Rightarrow> go_file \<Rightarrow> ast \<Rightarrow> walk \<Rightarrow> walk"
and inspects :: "CodeEditor \<Rightarrow> TemplateData \<Rightarrow> (nat \<Rightarrow> string) \<Rightarrow> go_file \<Rightarrow> ast list \<Rightarrow> walk \<Rightarrow> walk" where
  "inspect ce d rnd f (FuncDecl name exported body cs) k =
     (if ce_ExportedOnly ce \<and> \<not> exported then k
      else case body of
        None \<Rightarrow> inspects ce d rnd f cs k
      | Some lbrace \<Rightarrow>
          (case ce_random ce rnd k of
             (r, k) \<Rightarrow> inspects ce d rnd f cs
               (add_func f (if gf_pkg f = ''main'' \<and> name = ''main'' then tmpl_funcStartCloseStopStmt d else tmpl_funcStartStopStmt d)
                 d lbrace (name @ ''_'' @ r) k)))"
| "inspect ce d rnd f (FuncLit body cs) k =
     (case body of
        None \<Rightarrow> inspects ce d rnd f cs k
      | Some lbrace \<Rightarrow>
          (case ce_random ce rnd k of
             (r, k) \<Rightarrow> inspects ce d rnd f cs (add_func f (tmpl_funcStartStopStmt d) d lbrace (''anonymousFunc_'' @ r) k)))"
| "inspect ce d rnd f (CallExpr sel cs) k =
     inspects ce d rnd f cs
       (case sel of
          None \<Rightarrow> k
        | Some (a, b, apos, bend) \<Rightarrow>
            if a = ''os'' \<and> b = ''Exit''
            then k\<lparr>wk_nodes := wk_nodes k @ [DeleteNode apos bend, InsertNode bend (bytes_of_string (tmpl_closeAndExit d))]\<rparr>
            else k)"
| "inspect ce d rnd f (OtherNode cs) k = inspects ce d rnd f cs k"
| "inspects ce d rnd f [] k = k"
| "inspects ce d rnd f (c # cs) k = inspects ce d rnd f cs (inspect ce d rnd f c k)"

definition edit_nodes :: "CodeEditor \<Rightarrow> TemplateData \<Rightarrow> (nat \<Rightarrow> string) \<Rightarrow> go_file \<Rightarrow> Node list" where
  "edit_nodes ce d rnd f =
     (let k = inspects ce d rnd f (gf_decls f) \<lparr>wk_import = False, wk_nodes = [], wk_draws = 0\<rparr>
      in wk_nodes k @ (if wk_import k then [InsertNode (gf_nameEnd f) (bytes_of_string (tmpl_importStmt d))] else []))"

definition CodeEditor_edit ::
  "(string \<Rightarrow> byte list \<Rightarrow> 'e + go_file) \<Rightarrow> (byte list \<Rightarrow> 'e + byte list) \<Rightarrow> (nat \<Rightarrow> string) \<Rightarrow> string \<Rightarrow> byte list \<Rightarrow> CodeEditor \<Rightarrow>
   (('e + byte list) \<times> CodeEditor) go" where
  "CodeEditor_edit parse fmt rnd fname src ce =
     (let ce = CodeEditor_init ce in
      case parse fname src of
        Inl e \<Rightarrow> Inr (Inl e, ce)
      | Inr f \<Rightarrow>
          (case ce_tmpl ce of
             None \<Rightarrow> Inl NilDereference
           | Some d \<Rightarrow> go_bind (NodeList_Format fmt (NodeList_Add (edit_nodes ce d rnd f) \<lparr>nl_OrigSrc = src, nl_list = []\<rparr>)) (\<lambda>r. Inr (r, ce))))"

text \<open>
  Replacing a file: the new content goes to a temporary file \<open>tmp\<close>, a fresh name, which is renamed at
  the end; when something fails it is removed. \<open>fn\<close> reads from the one handle and writes to the other.
\<close>

definition io_step :: "world \<Rightarrow> error option \<times> world" where
  "io_step w = (case next_fault w of (Some _, w) \<Rightarrow> (Some EIO, w) | (None, w) \<Rightarrow> (None, w))"

definition replace_with ::
  "string \<Rightarrow> string \<Rightarrow> (handle \<Rightarrow> handle \<Rightarrow> world \<Rightarrow> (error option \<times> handle \<times> world) go) \<Rightarrow> handle \<Rightarrow> handle \<Rightarrow> world \<Rightarrow> (error option \<times> world) go" where
  "replace_with tmp fname fn r wh w =
     (case io_step w of
        (Some e, w) \<Rightarrow> Inr (Some e, w)
      | (None, w) \<Rightarrow>
          go_bind (fn r wh w) (\<lambda>(e, wh, w).
          case e of
            Some e \<Rightarrow> (case os_Close w wh of (wh, _, w) \<Rightarrow> Inr (Some e, w))
          | None \<Rightarrow>
              (case os_Close w wh of
                 (wh, Some e, w) \<Rightarrow> Inr (Some e, w)
               | (wh, None, w) \<Rightarrow> Inr (RenameTo w tmp fname))))"

definition AtomicReadWrite ::
  "string \<Rightarrow> string \<Rightarrow> (handle \<Rightarrow> handle \<Rightarrow> world \<Rightarrow> (error option \<times> handle \<times> world) go) \<Rightarrow> world \<Rightarrow> (error option \<times> world) go" where
  "AtomicReadWrite tmp fname fn w =
     (case OpenReadOnly w fname of
        (None, e, w) \<Rightarrow> Inr (e, w)
      | (Some r, _, w) \<Rightarrow>
          (case io_step w of
             (Some e, w) \<Rightarrow> Inr (Some e, snd (snd (os_Close w r)))
           | (None, w) \<Rightarrow>
               (case openFile w tmp False of
                  (None, e, w) \<Rightarrow> Inr (e, snd (snd (os_Close w r)))
                | (Some wh, _, w) \<Rightarrow>
                    go_bind (replace_with tmp fname fn r wh w) (\<lambda>(e, w).
                    let w = (if e = None then w else snd (File_Remove w tmp)) in
                    Inr (e, snd (snd (os_Close w r)))))))"

text \<open>Reading a handle to its end; an error of the parser or the formatter is \<open>bad\<close>.\<close>

definition read_rest :: "handle \<Rightarrow> world \<Rightarrow> byte list \<times> error option \<times> world" where
  "read_rest r w =
     (let d = drop (h_cur r) (file_bytes w (h_path r)) in
      case next_fault w of (Some k, w) \<Rightarrow> (take k d, Some EIO, w) | (None, w) \<Rightarrow> (d, None, w))"

definition EditFileOverwrite ::
  "(string \<Rightarrow> byte list \<Rightarrow> 'e + go_file) \<Rightarrow> (byte list \<Rightarrow> 'e + byte list) \<Rightarrow> (nat \<Rightarrow> string) \<Rightarrow> ('e \<Rightarrow> error) \<Rightarrow> CodeEditor \<Rightarrow> string \<Rightarrow> string \<Rightarrow> world \<Rightarrow>
   (error option \<times> world) go" where
  "EditFileOverwrite parse fmt rnd bad ce tmp fname w =
     AtomicReadWrite tmp fname (\<lambda>r wh w.
       case read_rest r w of
         (src, Some e, w) \<Rightarrow> Inr (Some e, wh, w)
       | (src, None, w) \<Rightarrow>
           go_bind (CodeEditor_edit parse fmt rnd fname src ce) (\<lambda>(res, ce).
           case res of
             Inl e \<Rightarrow> Inr (Some (bad e), wh, w)
           | Inr new \<Rightarrow> (case os_Write w wh new of (wh, n, e, w) \<Rightarrow> Inr (e, wh, w)))) w"

definition EditFile ::
  "(string \<Rightarrow> byte list \<Rightarrow> 'e + go_file) \<Rightarrow> (byte list \<Rightarrow> 'e + byte list) \<Rightarrow> (nat \<Rightarrow> string) \<Rightarrow> ('e \<Rightarrow> error) \<Rightarrow> CodeEditor \<Rightarrow> string \<Rightarrow> string \<Rightarrow> world \<Rightarrow>
   (error option \<times> world) go" where
  "EditFile parse fmt rnd bad ce inFile outFile w =
     (case ReadAll w inFile of
        (src, Some e, w) \<Rightarrow> Inr (Some e, w)
      | (src, None, w) \<Rightarrow>
          (case io_step w of
             (Some e, w) \<Rightarrow> Inr (Some e, w)
           | (None, w) \<Rightarrow>
               go_bind (CodeEditor_edit parse fmt rnd inFile src ce) (\<lambda>(res, ce).
               case res of
                 Inl e \<Rightarrow> Inr (Some (bad e), w)
               | Inr new \<Rightarrow> Inr (WriteFile w outFile new))))"

text \<open>
  Finding the sources: \<open>stat\<close> says whether a path is a directory, \<open>tree\<close> lists what \<open>filepath.Walk\<close> visits, with
  no information where it could not be read. The callback looks at it all the same.
\<close>

fun find_go :: "(string \<times> bool option) list \<Rightarrow> string list \<Rightarrow> string list go" where
  "find_go [] found = Inr found"
| "find_go ((p, None) # ps) found = Inl NilDereference"
| "find_go ((p, Some dir) # ps) found = find_go ps (if \<not> dir \<and> HasSuffix p ''.go'' then found @ [p] else found)"

definition FindFiles :: "(string \<Rightarrow> bool option) \<Rightarrow> (string \<Rightarrow> (string \<times> bool option) list) \<Rightarrow> string \<Rightarrow> (error + string list) go" where
  "FindFiles stat tree p =
     (case stat p of
        None \<Rightarrow> Inr (Inl NotExist)
      | Some False \<Rightarrow> Inr (Inr [p])
      | Some True \<Rightarrow> go_bind (find_go (tree p) []) (\<lambda>fs. Inr (Inr fs)))"

subsection \<open>What a list of edits means\<close>

definition inserted :: "Pos \<Rightarrow> Node list \<Rightarrow> byte list" where
  "inserted p ns = concat (map (\<lambda>n. case n of InsertNode q s \<Rightarrow> if q = p then s else [] | DeleteNode a b \<Rightarrow> []) ns)"

definition deleted :: "Pos \<Rightarrow> Node list \<Rightarrow> bool" where
  "deleted p ns \<longleftrightarrow> (\<exists>n \<in> set ns. case n of InsertNode q s \<Rightarrow> False | DeleteNode a b \<Rightarrow> a \<le> p \<and> p < b)"

definition cell :: "byte list \<Rightarrow> Node list \<Rightarrow> Pos \<Rightarrow> byte list" where
  "cell src ns p = inserted p ns @ (if p \<le> int (length src) \<and> \<not> deleted p ns then [src ! nat (p - 1)] else [])"

text \<open>The source from a position on, with what is inserted before each of its bytes and without what is deleted.\<close>

definition spliced :: "byte list \<Rightarrow> Node list \<Rightarrow> Pos \<Rightarrow> byte list" where
  "spliced src ns p = concat (map (cell src ns) [p..int (length src) + 1])"

definition is_delete :: "Node \<Rightarrow> bool" where
  "is_delete n \<longleftrightarrow> (case n of InsertNode p s \<Rightarrow> False | DeleteNode a b \<Rightarrow> True)"

text \<open>
  The edits are inside of the source and none starts in a stretch that another one deletes, but that an
  insertion may come before a deletion at the same place. \<open>compatible n m\<close>: \<open>n\<close> has been added before \<open>m\<close>.
\<close>

definition apart :: "Node \<Rightarrow> Pos \<Rightarrow> bool" where
  "apart n p \<longleftrightarrow> (case n of InsertNode q s \<Rightarrow> True | DeleteNode a b \<Rightarrow> p < a \<or> b \<le> p)"

definition compatible :: "Node \<Rightarrow> Node \<Rightarrow> bool" where
  "compatible n m \<longleftrightarrow> apart n (topos m) \<and> (apart m (topos n) \<or> \<not> is_delete n \<and> topos n = topos m)"

definition in_source :: "nat \<Rightarrow> Node \<Rightarrow> bool" where
  "in_source len n \<longleftrightarrow> 1 \<le> topos n \<and> topos n \<le> int len + 1 \<and> (case n of InsertNode p s \<Rightarrow> True | DeleteNode a b \<Rightarrow> a \<le> b \<and> b \<le> int len + 1)"

definition edits_ok :: "nat \<Rightarrow> Node list \<Rightarrow> bool" where
  "edits_ok len ns \<longleftrightarrow> list_all (in_source len) ns \<and> sorted_wrt compatible ns"

text \<open>In the sorted list, nothing comes before the end of an edit that comes first.\<close>

definition after :: "Node \<Rightarrow> Node \<Rightarrow> bool" where
  "after n m \<longleftrightarrow> topos n \<le> topos m \<and> (case n of InsertNode p s \<Rightarrow> True | DeleteNode a b \<Rightarrow> b \<le> topos m)"

lemma compatible_after:
  "compatible n m \<Longrightarrow> topos n \<le> topos m \<Longrightarrow> after n m"
  "compatible n m \<Longrightarrow> topos m < topos n \<Longrightarrow> after m n"
  by (cases n; auto simp: after_def compatible_def apart_def topos_def split: Node.splits)
    (cases m; auto simp: after_def compatible_def apart_def topos_def split: Node.splits)

lemma after_insort:
  "sorted_wrt after ns \<Longrightarrow> \<forall>m \<in> set ns. compatible x m \<Longrightarrow> sorted_wrt after (insort_key topos x ns)"
proof (induction ns)
  case (Cons m ns)
  show ?case
  proof (cases "topos x \<le> topos m")
    case True
    have "after x y" if "y \<in> set (m # ns)" for y
    proof (rule compatible_after)
      show "compatible x y" using that Cons.prems(2) by auto
      show "topos x \<le> topos y" using that True Cons.prems(1) by (auto simp: after_def)
    qed
    then show ?thesis using True Cons.prems(1) by simp
  next
    case False
    then have "after m x" using compatible_after(2)[of x m] Cons.prems(2) by simp
    then show ?thesis using False Cons by (auto simp: set_insort_key)
  qed
qed simp

lemma after_sort: "sorted_wrt compatible ns \<Longrightarrow> sorted_wrt after (sort_key topos ns)"
  by (induction ns) (auto intro: after_insort)

lemma cells_plain:
  assumes "\<And>q. p \<le> q \<Longrightarrow> q < r \<Longrightarrow> cell src ns q = [src ! nat (q - 1)]" "1 \<le> p" "p \<le> r" "r \<le> int (length src) + 1"
  shows "spliced src ns p = drop (nat (p - 1)) (take (nat (r - 1)) src) @ spliced src ns r"
  using assms(3,1,2)
proof (induction "nat (r - p)" arbitrary: p)
  case 0
  then show ?case by simp
next
  case (Suc n)
  then have lt: "p < r" by simp
  have c: "cell src ns p = [src ! nat (p - 1)]" using Suc.prems(2)[of p] lt by simp
  have IH: "spliced src ns (p + 1) = drop (nat p) (take (nat (r - 1)) src) @ spliced src ns r"
    using Suc.hyps(1)[of "p + 1"] Suc.hyps(2) Suc.prems lt by auto
  have "nat (p - 1) < length (take (nat (r - 1)) src)" using lt Suc.prems(3) assms(4) by simp
  then have "drop (nat (p - 1)) (take (nat (r - 1)) src) = src ! nat (p - 1) # drop (Suc (nat (p - 1))) (take (nat (r - 1)) src)"
    by (simp add: Cons_nth_drop_Suc[symmetric] nth_take)
  moreover have "Suc (nat (p - 1)) = nat p" using Suc.prems(3) by simp
  moreover have "spliced src ns p = cell src ns p @ spliced src ns (p + 1)" using lt assms(4) by (simp add: spliced_def upto_rec1)
  ultimately show ?case using c IH by simp
qed

lemma inserted_Cons: "inserted p (n # ns) = (case n of InsertNode q s \<Rightarrow> if q = p then s else [] | DeleteNode a b \<Rightarrow> []) @ inserted p ns"
  by (simp add: inserted_def)

lemma deleted_Cons: "deleted p (n # ns) \<longleftrightarrow> (case n of InsertNode q s \<Rightarrow> False | DeleteNode a b \<Rightarrow> a \<le> p \<and> p < b) \<or> deleted p ns"
  by (auto simp: deleted_def)

lemma before_edits:
  assumes "\<forall>n \<in> set ns. p < topos n"
  shows "inserted p ns = []" "\<not> deleted p ns"
  using assms by (induction ns) (auto simp: inserted_Cons deleted_Cons topos_def inserted_def[of _ "[]"] deleted_def[of _ "[]"] split: Node.splits)

lemma spliced_insert:
  assumes "1 \<le> pos" "pos \<le> p" "p \<le> int (length src) + 1" "\<forall>n \<in> set ns. p \<le> topos n"
  shows "spliced src (InsertNode p s # ns) pos = drop (nat (pos - 1)) (take (nat (p - 1)) src) @ s @ spliced src ns p"
proof -
  let ?ns = "InsertNode p s # ns"
  have "cell src ?ns q = [src ! nat (q - 1)]" if "pos \<le> q" "q < p" for q
  proof -
    have "\<forall>n \<in> set ns. q < topos n" using assms(4) that by force
    from before_edits[OF this] show ?thesis using that assms(3) by (simp add: cell_def inserted_Cons deleted_Cons)
  qed
  from cells_plain[of pos p src ?ns, OF this] assms(1-3) have 1: "spliced src ?ns pos = drop (nat (pos - 1)) (take (nat (p - 1)) src) @ spliced src ?ns p"
    by blast
  have c: "cell src ?ns p = s @ cell src ns p" "\<And>q. p < q \<Longrightarrow> cell src ?ns q = cell src ns q"
    by (simp_all add: cell_def inserted_Cons deleted_Cons)
  have tail: "map (cell src ?ns) [p + 1..int (length src) + 1] = map (cell src ns) [p + 1..int (length src) + 1]" using c(2) by (intro map_cong) auto
  have "spliced src ?ns p = s @ spliced src ns p" using assms(3) c(1) unfolding spliced_def by (simp add: upto_rec1 tail del: map_eq_conv)
  then show ?thesis using 1 by simp
qed

lemma spliced_delete:
  assumes "1 \<le> pos" "pos \<le> a" "a \<le> b" "b \<le> int (length src) + 1" "\<forall>n \<in> set ns. a \<le> topos n \<and> b \<le> topos n"
  shows "spliced src (DeleteNode a b # ns) pos = drop (nat (pos - 1)) (take (nat (a - 1)) src) @ spliced src ns b"
proof -
  let ?ns = "DeleteNode a b # ns"
  have "cell src ?ns q = [src ! nat (q - 1)]" if "pos \<le> q" "q < a" for q
  proof -
    have "\<forall>n \<in> set ns. q < topos n" using assms(5) that by force
    from before_edits[OF this] show ?thesis using that assms(3,4) by (simp add: cell_def inserted_Cons deleted_Cons)
  qed
  from cells_plain[of pos a src ?ns, OF this] assms(1-4) have 1: "spliced src ?ns pos = drop (nat (pos - 1)) (take (nat (a - 1)) src) @ spliced src ?ns a"
    by force
  have "cell src ?ns q = []" if "a \<le> q" "q < b" for q
  proof -
    have "\<forall>n \<in> set ns. q < topos n" using assms(5) that by force
    from before_edits[OF this] show ?thesis using that by (simp add: cell_def inserted_Cons deleted_Cons)
  qed
  then have 2: "concat (map (cell src ?ns) [a..b - 1]) = []" by simp
  have 3: "[a..int (length src) + 1] = [a..b - 1] @ [b..int (length src) + 1]" using upto_split1[of a b "int (length src) + 1"] assms(3,4) by simp
  have 4: "map (cell src ?ns) [b..int (length src) + 1] = map (cell src ns) [b..int (length src) + 1]"
    by (intro map_cong) (auto simp: cell_def inserted_Cons deleted_Cons)
  have "spliced src ?ns a = spliced src ns b" unfolding spliced_def 3 map_append concat_append 2 4 by simp
  then show ?thesis using 1 by simp
qed

text \<open>The loop over edits in order.\<close>

lemma Format_loop_ok:
  assumes "list_all (in_source (length src)) ns" "sorted_wrt after ns" "\<forall>n \<in> set ns. pos \<le> topos n" "1 \<le> pos" "pos \<le> int (length src) + 1"
  shows "Format_loop src pos ns buf = Inr (buf @ spliced src ns pos)"
  using assms
proof (induction ns arbitrary: pos buf)
  case Nil
  have "cell src [] q = [src ! nat (q - 1)]" if "pos \<le> q" "q < int (length src) + 1" for q
    using that by (simp add: cell_def inserted_def deleted_def)
  from cells_plain[of pos "int (length src) + 1" src "[]", OF this] Nil.prems(4,5)
  have "spliced src [] pos = drop (nat (pos - 1)) src @ spliced src [] (int (length src) + 1)" by simp
  moreover have "spliced src [] (int (length src) + 1) = []" by (simp add: spliced_def cell_def inserted_def)
  ultimately show ?case using Nil.prems(4,5) by (simp add: srcByRange1_def)
next
  case (Cons n ns)
  have ok: "list_all (in_source (length src)) ns" "sorted_wrt after ns" "\<forall>m \<in> set ns. after n m" using Cons.prems(1,2) by auto
  show ?case
  proof (cases n)
    case (InsertNode p s)
    then have p: "pos \<le> p" "p \<le> int (length src) + 1" using Cons.prems(1,3) by (auto simp: in_source_def topos_def)
    have "\<forall>m \<in> set ns. p \<le> topos m" using ok(3) InsertNode by (simp add: after_def topos_def)
    from Cons.IH[OF ok(1,2) this] spliced_insert[OF Cons.prems(4) p this, of s] show ?thesis
      using p Cons.prems(4) by (simp add: InsertNode srcByRange2_def)
  next
    case (DeleteNode a b)
    then have a: "pos \<le> a" "a \<le> b" "b \<le> int (length src) + 1" using Cons.prems(1,3) by (auto simp: in_source_def topos_def)
    have m: "\<forall>m \<in> set ns. a \<le> topos m \<and> b \<le> topos m" using ok(3) by (auto simp: DeleteNode after_def topos_def[of "DeleteNode a b"])
    from Cons.IH[OF ok(1,2), of b] spliced_delete[OF Cons.prems(4) a m] show ?thesis
      using a m Cons.prems(4) by (simp add: DeleteNode srcByRange2_def)
  qed
qed

lemma inserted_sort: "inserted p (sort_key topos ns) = inserted p ns"
proof -
  have "inserted p ms = inserted p (filter (\<lambda>n. topos n = p) ms)" for ms
    by (induction ms) (auto simp: inserted_def topos_def split: Node.splits)
  then show ?thesis by (metis sort_key_stable)
qed

lemma spliced_sort: "spliced src (sort_key topos ns) = spliced src ns"
proof -
  have "cell src (sort_key topos ns) = cell src ns" by (simp add: fun_eq_iff cell_def inserted_sort deleted_def)
  then show ?thesis by (intro ext) (simp only: spliced_def)
qed

lemma Format_ok:
  assumes "edits_ok (length src) ns"
  shows "NodeList_Format fmt \<lparr>nl_OrigSrc = src, nl_list = ns\<rparr> = Inr (fmt (spliced src ns 1))"
proof -
  have "list_all (in_source (length src)) (sort_key topos ns)" "sorted_wrt after (sort_key topos ns)"
    using assms after_sort by (auto simp: edits_ok_def list_all_iff)
  moreover from this(1) have "\<forall>n \<in> set (sort_key topos ns). 1 \<le> topos n" by (simp add: list_all_iff in_source_def)
  ultimately show ?thesis using Format_loop_ok[of src "sort_key topos ns" 1 "[]"] by (simp add: NodeList_Format_def spliced_sort)
qed

subsection \<open>Where the editor edits\<close>

text \<open>The functions it enters, by their braces and names, and the calls of \<open>os.Exit\<close>, in the order of the walk.\<close>

datatype site = Brace Pos string | Exit Pos Pos

fun sites :: "bool \<Rightarrow> ast \<Rightarrow> site list" and sitess :: "bool \<Rightarrow> ast list \<Rightarrow> site list" where
  "sites eo (FuncDecl name exported body cs) =
     (if eo \<and> \<not> exported then [] else (case body of None \<Rightarrow> [] | Some lb \<Rightarrow> [Brace lb name]) @ sitess eo cs)"
| "sites eo (FuncLit body cs) = (case body of None \<Rightarrow> [] | Some lb \<Rightarrow> [Brace lb ''anonymousFunc'']) @ sitess eo cs"
| "sites eo (CallExpr sel cs) =
     (case sel of None \<Rightarrow> [] | Some (a, b, p, e) \<Rightarrow> if a = ''os'' \<and> b = ''Exit'' then [Exit p e] else []) @ sitess eo cs"
| "sites eo (OtherNode cs) = sitess eo cs"
| "sitess eo [] = []"
| "sitess eo (c # cs) = sites eo c @ sitess eo cs"

text \<open>
  The texts that the editor inserts, written for the names they use: \<open>lg\<close> is the name of the imported package, \<open>v\<close>
  the flag of a function and \<open>tx\<close> its variable.
\<close>

definition import_text :: "string \<Rightarrow> string \<Rightarrow> byte list" where
  "import_text lg path = bytes_of_string (nl_tabs 2 @ ''import '' @ lg @ '' '' @ [CHR 0x22] @ path @ [CHR 0x22] @ nl_tabs 1)"

definition flag_text :: "string \<Rightarrow> byte list" where
  "flag_text v = bytes_of_string (nl_tabs 2 @ ''var '' @ v @ '' *bool'' @ nl_tabs 1)"

definition trace_text :: "string \<Rightarrow> string \<Rightarrow> string \<Rightarrow> string" where
  "trace_text lg tx v =
     nl_tabs 2 @ ''if '' @ v @ '' == nil {'' @ nl_tabs 3 @ v @ '' = '' @ lg @ ''.TracingFlag()'' @ nl_tabs 2 @ ''}'' @
     nl_tabs 2 @ ''if *'' @ v @ '' {'' @ nl_tabs 3 @ tx @ '' := '' @ lg @ ''.FuncStart()'' @
     nl_tabs 3 @ ''defer '' @ lg @ ''.FuncEnd('' @ tx @ '')'' @ nl_tabs 2 @ ''}'' @ nl_tabs 1"

definition entry_text :: "string \<Rightarrow> string \<Rightarrow> bool \<Rightarrow> string \<Rightarrow> byte list" where
  "entry_text lg tx closes v = bytes_of_string
     (if closes then nl_tabs 2 @ ''defer '' @ lg @ ''.Close()'' @ nl_tabs 2 @ trace_text lg tx v @ nl_tabs 1 else trace_text lg tx v)"

definition exit_text :: "string \<Rightarrow> byte list" where
  "exit_text lg = bytes_of_string (lg @ ''.CloseAndExit'')"

lemma tmpl_texts:
  "bytes_of_string (tmpl_importStmt d) = import_text (td_ImportName d) (td_ImportPath d)"
  "bytes_of_string (tmpl_defineFuncTracingFlag d n) = flag_text (tmpl_funcTracingFlag d n)"
  "bytes_of_string (tmpl_funcStartStopStmt d n) = entry_text (td_ImportName d) (td_VariablePrefix d @ ''_txid'') False (tmpl_funcTracingFlag d n)"
  "bytes_of_string (tmpl_funcStartCloseStopStmt d n) = entry_text (td_ImportName d) (td_VariablePrefix d @ ''_txid'') True (tmpl_funcTracingFlag d n)"
  "bytes_of_string (tmpl_closeAndExit d) = exit_text (td_ImportName d)"
  by (simp_all add: tmpl_importStmt_def import_text_def tmpl_defineFuncTracingFlag_def flag_text_def tmpl_funcStartStopStmt_def entry_text_def
      trace_text_def Let_def tmpl_funcStartCloseStopStmt_def tmpl_closeAndExit_def exit_text_def)

text \<open>The sites with their flags: each function draws its own random part.\<close>

definition random_part :: "CodeEditor \<Rightarrow> (nat \<Rightarrow> string) \<Rightarrow> nat \<Rightarrow> string" where
  "random_part ce rnd n = (if ce_dontUseRandom ce \<noteq> [] then ce_dontUseRandom ce else rnd n)"

definition drawn :: "CodeEditor \<Rightarrow> nat \<Rightarrow> nat" where
  "drawn ce n = (if ce_dontUseRandom ce \<noteq> [] then n else n + 1)"

fun flagged :: "CodeEditor \<Rightarrow> TemplateData \<Rightarrow> (nat \<Rightarrow> string) \<Rightarrow> nat \<Rightarrow> site list \<Rightarrow> (site \<times> string) list" where
  "flagged ce d rnd n [] = []"
| "flagged ce d rnd n (Brace lb nm # xs) =
     (Brace lb nm, tmpl_funcTracingFlag d (nm @ ''_'' @ random_part ce rnd n)) # flagged ce d rnd (drawn ce n) xs"
| "flagged ce d rnd n (Exit a b # xs) = (Exit a b, []) # flagged ce d rnd n xs"

fun all_drawn :: "CodeEditor \<Rightarrow> nat \<Rightarrow> site list \<Rightarrow> nat" where
  "all_drawn ce n [] = n"
| "all_drawn ce n (Brace lb nm # xs) = all_drawn ce (drawn ce n) xs"
| "all_drawn ce n (Exit a b # xs) = all_drawn ce n xs"

fun flags :: "(site \<times> string) list \<Rightarrow> string list" where
  "flags [] = []"
| "flags ((Brace lb nm, v) # ys) = v # flags ys"
| "flags ((Exit a b, v) # ys) = flags ys"

lemma flagged_append: "flagged ce d rnd n (xs @ ys) = flagged ce d rnd n xs @ flagged ce d rnd (all_drawn ce n xs) ys"
  by (induction ce d rnd n xs rule: flagged.induct) auto

lemma all_drawn_append: "all_drawn ce n (xs @ ys) = all_drawn ce (all_drawn ce n xs) ys"
  by (induction ce n xs rule: all_drawn.induct) auto

lemma flags_append: "flags (xs @ ys) = flags xs @ flags ys"
  by (induction xs rule: flags.induct) auto

lemma flagged_sites: "map fst (flagged ce d rnd n xs) = xs"
  by (induction ce d rnd n xs rule: flagged.induct) auto

lemma flags_of_later: "v \<in> set (flags (flagged ce d rnd n xs)) \<Longrightarrow> ce_dontUseRandom ce = [] \<Longrightarrow>
    \<exists>m nm. n \<le> m \<and> m < n + length (flags (flagged ce d rnd n xs)) \<and> v = tmpl_funcTracingFlag d (nm @ ''_'' @ rnd m)"
proof (induction ce d rnd n xs rule: flagged.induct)
  case (2 ce d rnd n lb nm xs)
  then consider "v = tmpl_funcTracingFlag d (nm @ ''_'' @ rnd n)" | "v \<in> set (flags (flagged ce d rnd (Suc n) xs))"
    by (auto simp: random_part_def drawn_def)
  then show ?case
  proof cases
    case 1
    then show ?thesis by (intro exI[of _ n] exI[of _ nm]) simp
  next
    case 2
    then obtain m nm' where "Suc n \<le> m" "m < Suc n + length (flags (flagged ce d rnd (Suc n) xs))" "v = tmpl_funcTracingFlag d (nm' @ ''_'' @ rnd m)"
      using "2.IH" "2.prems"(2) by (auto simp: drawn_def)
    then show ?thesis using "2.prems"(2) by (intro exI[of _ m] exI[of _ nm']) (simp add: drawn_def)
  qed
qed auto

lemma flag_random: "tmpl_funcTracingFlag d (nm @ ''_'' @ r) = tmpl_funcTracingFlag d (nm' @ ''_'' @ r') \<Longrightarrow> length r = length r' \<Longrightarrow> r = r'"
  by (simp add: tmpl_funcTracingFlag_def append_eq_append_conv flip: append_assoc)

lemma flags_distinct:
  assumes "ce_dontUseRandom ce = []" "inj_on rnd {n..<n + length (flags (flagged ce d rnd n xs))}" "\<And>i j. length (rnd i) = length (rnd j)"
  shows "distinct (flags (flagged ce d rnd n xs))"
  using assms
proof (induction ce d rnd n xs rule: flagged.induct)
  case (2 ce d rnd n lb nm xs)
  let ?later = "flags (flagged ce d rnd (Suc n) xs)"
  have inj: "inj_on rnd {n..<Suc (n + length ?later)}" using "2.prems"(1,2) by (simp add: drawn_def)
  have "tmpl_funcTracingFlag d (nm @ ''_'' @ rnd n) \<notin> set ?later"
  proof
    assume "tmpl_funcTracingFlag d (nm @ ''_'' @ rnd n) \<in> set ?later"
    then obtain m nm' where m: "Suc n \<le> m" "m < Suc n + length ?later" "tmpl_funcTracingFlag d (nm @ ''_'' @ rnd n) = tmpl_funcTracingFlag d (nm' @ ''_'' @ rnd m)"
      using flags_of_later[OF _ "2.prems"(1)] by blast
    then have "rnd n = rnd m" using flag_random "2.prems"(3) by blast
    then show False using inj_onD[OF inj, of n m] m(1,2) by simp
  qed
  moreover have "inj_on rnd {Suc n..<Suc n + length ?later}" using inj by (auto intro: inj_on_subset)
  then have "distinct ?later" using "2.IH" "2.prems"(1,3) by (simp add: drawn_def)
  ultimately show ?case using "2.prems"(1) by (simp add: random_part_def drawn_def)
qed auto

text \<open>The edits of a site: a function has its flag declared at the end of the file and its statement after the brace.\<close>

definition entry_of :: "TemplateData \<Rightarrow> bool \<Rightarrow> string \<Rightarrow> string \<Rightarrow> byte list" where
  "entry_of d in_main nm v = entry_text (td_ImportName d) (td_VariablePrefix d @ ''_txid'') (in_main \<and> nm = ''main'') v"

definition site_edits :: "TemplateData \<Rightarrow> bool \<Rightarrow> Pos \<Rightarrow> site \<times> string \<Rightarrow> Node list" where
  "site_edits d in_main fend y =
     (case y of
        (Brace lb nm, v) \<Rightarrow> [InsertNode fend (flag_text v), InsertNode (lb + 1) (entry_of d in_main nm v)]
      | (Exit a b, v) \<Rightarrow> [DeleteNode a b, InsertNode b (exit_text (td_ImportName d))])"

definition walk_edits :: "TemplateData \<Rightarrow> bool \<Rightarrow> Pos \<Rightarrow> (site \<times> string) list \<Rightarrow> Node list" where
  "walk_edits d in_main fend ys = concat (map (site_edits d in_main fend) ys)"

lemma walk_edits_simps:
  "walk_edits d m e [] = []" "walk_edits d m e (y # ys) = site_edits d m e y @ walk_edits d m e ys"
  "walk_edits d m e (xs @ ys) = walk_edits d m e xs @ walk_edits d m e ys"
  by (simp_all add: walk_edits_def)

text \<open>The walk adds the edits of its sites and wants the import once it has entered a function.\<close>

definition walks :: "CodeEditor \<Rightarrow> TemplateData \<Rightarrow> (nat \<Rightarrow> string) \<Rightarrow> go_file \<Rightarrow> site list \<Rightarrow> walk \<Rightarrow> walk \<Rightarrow> bool" where
  "walks ce d rnd f xs k k' \<longleftrightarrow>
     wk_nodes k' = wk_nodes k @ walk_edits d (gf_pkg f = ''main'') (gf_end f) (flagged ce d rnd (wk_draws k) xs) \<and>
     wk_draws k' = all_drawn ce (wk_draws k) xs \<and>
     (wk_import k' \<longleftrightarrow> wk_import k \<or> flags (flagged ce d rnd (wk_draws k) xs) \<noteq> [])"

lemma walks_Nil: "walks ce d rnd f [] k k"
  by (simp add: walks_def walk_edits_simps)

lemma walks_append: "walks ce d rnd f xs k k1 \<Longrightarrow> walks ce d rnd f ys k1 k2 \<Longrightarrow> walks ce d rnd f (xs @ ys) k k2"
  by (auto simp: walks_def flagged_append all_drawn_append flags_append walk_edits_simps)

lemma walks_Brace:
  assumes "ce_random ce rnd k = (r, k1)" "\<And>v. bytes_of_string (stmt v) = entry_of d (gf_pkg f = ''main'') nm (tmpl_funcTracingFlag d v)"
  shows "walks ce d rnd f [Brace lb nm] k (add_func f stmt d lb (nm @ ''_'' @ r) k1)"
  using assms(1)
  by (auto simp: walks_def ce_random_def add_func_def walk_edits_simps site_edits_def assms(2) tmpl_texts(2) random_part_def drawn_def split: if_splits)

lemma inspect_walks:
  "walks ce d rnd f (sites (ce_ExportedOnly ce) a) k (inspect ce d rnd f a k)"
  "walks ce d rnd f (sitess (ce_ExportedOnly ce) as) k (inspects ce d rnd f as k)"
proof (induction ce d rnd f a k and ce d rnd f as k rule: inspect_inspects.induct)
  case (1 ce d rnd f name exported body cs k)
  show ?case
  proof (cases "ce_ExportedOnly ce \<and> \<not> exported")
    case True
    then show ?thesis using walks_Nil by simp
  next
    case enter: False
    show ?thesis
    proof (cases body)
      case None
      then show ?thesis using enter 1(1) by auto
    next
      case (Some lb)
      obtain r k1 where r: "ce_random ce rnd k = (r, k1)" by fastforce
      let ?stmt = "if gf_pkg f = ''main'' \<and> name = ''main'' then tmpl_funcStartCloseStopStmt d else tmpl_funcStartStopStmt d"
      have "bytes_of_string (?stmt v) = entry_of d (gf_pkg f = ''main'') name (tmpl_funcTracingFlag d v)" for v
        by (cases "gf_pkg f = ''main'' \<and> name = ''main''") (auto simp: entry_of_def tmpl_texts)
      then have b: "walks ce d rnd f [Brace lb name] k (add_func f ?stmt d lb (name @ ''_'' @ r) k1)" by (rule walks_Brace[OF r])
      show ?thesis using walks_append[OF b 1(2)[OF _ Some r[symmetric]]] enter Some r by auto
    qed
  qed
next
  case (2 ce d rnd f body cs k)
  show ?case
  proof (cases body)
    case None
    then show ?thesis using 2(1) by auto
  next
    case (Some lb)
    obtain r k1 where r: "ce_random ce rnd k = (r, k1)" by fastforce
    have b: "walks ce d rnd f [Brace lb ''anonymousFunc''] k (add_func f (tmpl_funcStartStopStmt d) d lb (''anonymousFunc'' @ ''_'' @ r) k1)"
      by (rule walks_Brace[OF r]) (simp add: entry_of_def tmpl_texts)
    show ?thesis using walks_append[OF b] 2(2)[OF Some r[symmetric]] Some r by auto
  qed
next
  case (3 ce d rnd f sel cs k)
  let ?es = "case sel of None \<Rightarrow> [] | Some (a, b, p, e) \<Rightarrow> if a = ''os'' \<and> b = ''Exit'' then [Exit p e] else []"
  let ?k = "case sel of None \<Rightarrow> k | Some (a, b, apos, bend) \<Rightarrow> if a = ''os'' \<and> b = ''Exit''
    then k\<lparr>wk_nodes := wk_nodes k @ [DeleteNode apos bend, InsertNode bend (bytes_of_string (tmpl_closeAndExit d))]\<rparr> else k"
  have e: "walks ce d rnd f ?es k ?k"
    by (cases sel) (auto simp: walks_def walk_edits_simps site_edits_def tmpl_texts(5) split: if_splits)
  then show ?case using walks_append[OF e] 3 by auto
next
  case (6 ce d rnd f c cs k)
  then show ?case using walks_append by fastforce
qed (auto simp: walks_Nil)

text \<open>
  What the parser says of the places of sites: they are in the file after the clause of the package, selectors do not
  overlap, and a brace before a selector belongs to a function that the walk has entered already.
\<close>

definition site_pos :: "site \<Rightarrow> Pos" where
  "site_pos x = (case x of Brace lb nm \<Rightarrow> lb + 1 | Exit a b \<Rightarrow> b)"

definition separate :: "site \<Rightarrow> site \<Rightarrow> bool" where
  "separate x y \<longleftrightarrow>
     (case (x, y) of
        (Brace p n, Brace q m) \<Rightarrow> p \<noteq> q
      | (Brace p n, Exit a b) \<Rightarrow> p < a \<or> b \<le> p
      | (Exit a b, Brace p n) \<Rightarrow> p + 1 < a \<or> b \<le> p
      | (Exit a b, Exit a' b') \<Rightarrow> b < a' \<or> b' < a)"

definition in_file :: "Pos \<Rightarrow> Pos \<Rightarrow> site \<Rightarrow> bool" where
  "in_file nend fend x \<longleftrightarrow> (case x of Brace p n \<Rightarrow> nend \<le> p \<and> p + 1 < fend | Exit a b \<Rightarrow> nend < a \<and> a < b \<and> b < fend)"

definition sites_ok :: "nat \<Rightarrow> Pos \<Rightarrow> Pos \<Rightarrow> site list \<Rightarrow> bool" where
  "sites_ok len nend fend xs \<longleftrightarrow> 1 \<le> nend \<and> nend < fend \<and> fend \<le> int len + 1 \<and> list_all (in_file nend fend) xs \<and> sorted_wrt separate xs"

lemma group_compatible:
  assumes "separate (fst x) (fst y)" "in_file nend fend (fst x)" "in_file nend fend (fst y)" "n \<in> set (site_edits d m fend x)" "k \<in> set (site_edits d m fend y)"
  shows "compatible n k"
  using assms
  by (cases x; cases y; cases "fst x"; cases "fst y")
    (auto simp: separate_def in_file_def site_edits_def compatible_def apart_def topos_def is_delete_def)

lemma group_ok:
  assumes "in_file nend fend (fst x)" "1 \<le> nend" "fend \<le> int len + 1"
  shows "sorted_wrt compatible (site_edits d m fend x)" "list_all (in_source len) (site_edits d m fend x)"
  using assms
  by (cases x; cases "fst x"; auto simp: in_file_def site_edits_def compatible_def apart_def topos_def is_delete_def in_source_def)+

lemma walk_edits_ok:
  assumes "sites_ok len nend fend (map fst ys)"
  shows "edits_ok len (walk_edits d m fend ys)"
proof -
  have b: "1 \<le> nend" "fend \<le> int len + 1" using assms by (auto simp: sites_ok_def)
  have "list_all (in_file nend fend) (map fst ys)" "sorted_wrt separate (map fst ys)" using assms by (auto simp: sites_ok_def)
  then show ?thesis
  proof (induction ys)
    case (Cons y ys)
    have later: "compatible n k" if "n \<in> set (site_edits d m fend y)" "k \<in> set (walk_edits d m fend ys)" for n k
      using that Cons.prems group_compatible[of y _ nend fend n d m k] by (auto simp: walk_edits_def list_all_iff)
    show ?case using Cons group_ok[of nend fend y, OF _ b] later by (simp add: walk_edits_simps edits_ok_def sorted_wrt_append)
  qed (simp add: edits_ok_def walk_edits_simps)
qed

lemma deleted_append: "deleted p (ns @ ms) \<longleftrightarrow> deleted p ns \<or> deleted p ms"
  by (auto simp: deleted_def)

lemma inserted_append: "inserted p (ns @ ms) = inserted p ns @ inserted p ms"
  by (simp add: inserted_def)

definition site_text :: "TemplateData \<Rightarrow> bool \<Rightarrow> site \<times> string \<Rightarrow> byte list" where
  "site_text d m y = (case y of (Brace lb nm, v) \<Rightarrow> entry_of d m nm v | (Exit a b, v) \<Rightarrow> exit_text (td_ImportName d))"

lemma group_inserted:
  "p \<noteq> fend \<Longrightarrow> inserted p (site_edits d m fend x) = (if p = site_pos (fst x) then site_text d m x else [])"
  "in_file nend fend (fst x) \<Longrightarrow> inserted fend (site_edits d m fend x) = concat (map flag_text (flags [x]))"
  by (cases x; cases "fst x"; auto simp: site_text_def site_edits_def site_pos_def inserted_def in_file_def)+

lemma separate_pos: "separate x y \<Longrightarrow> in_file nend fend x \<Longrightarrow> in_file nend fend y \<Longrightarrow> site_pos x \<noteq> site_pos y"
  by (cases x; cases y) (auto simp: separate_def in_file_def site_pos_def)

lemma in_file_pos: "in_file nend fend x \<Longrightarrow> nend < site_pos x \<and> site_pos x < fend"
  by (cases x) (auto simp: in_file_def site_pos_def)

text \<open>What a walk inserts and deletes.\<close>

lemma walk_inserted_nothing:
  "p \<noteq> fend \<Longrightarrow> p \<notin> site_pos ` set (map fst ys) \<Longrightarrow> inserted p (walk_edits d m fend ys) = []"
  by (induction ys) (auto simp: walk_edits_simps inserted_append group_inserted(1), simp add: inserted_def)

lemma walk_inserted:
  assumes "list_all (in_file nend fend) (map fst ys)" "sorted_wrt separate (map fst ys)" "y \<in> set ys" "p = site_pos (fst y)"
  shows "inserted p (walk_edits d m fend ys) = site_text d m y"
  using assms
proof (induction ys)
  case (Cons z ys)
  have fend: "p \<noteq> fend" using Cons.prems in_file_pos[of nend fend "fst y"] by (auto simp: list_all_iff)
  have apart: "site_pos (fst z) \<noteq> site_pos (fst x)" if "x \<in> set ys" for x
    using that Cons.prems(1,2) separate_pos[of "fst z" "fst x" nend fend] by (auto simp: list_all_iff)
  show ?case
  proof (cases "y = z")
    case True
    have "p \<notin> site_pos ` set (map fst ys)" using apart Cons.prems(4) True by auto
    then show ?thesis using walk_inserted_nothing[OF fend] group_inserted(1)[OF fend] Cons.prems(4) True
      by (simp add: walk_edits_simps inserted_append)
  next
    case False
    then have y: "y \<in> set ys" using Cons.prems(3) by simp
    then show ?thesis using Cons apart[OF y] group_inserted(1)[OF fend, of d m z] by (simp add: walk_edits_simps inserted_append)
  qed
qed simp

lemma walk_flags: "list_all (in_file nend fend) (map fst ys) \<Longrightarrow> inserted fend (walk_edits d m fend ys) = concat (map flag_text (flags ys))"
proof (induction ys)
  case (Cons y ys)
  then show ?case using group_inserted(2)[of nend fend y d m] flags_append[of "[y]" ys] by (simp add: walk_edits_simps inserted_append)
qed (simp add: walk_edits_simps inserted_def)

lemma walk_deleted: "deleted p (walk_edits d m fend ys) \<longleftrightarrow> (\<exists>a b. Exit a b \<in> set (map fst ys) \<and> a \<le> p \<and> p < b)"
proof (induction ys)
  case (Cons y ys)
  have "deleted p (site_edits d m fend y) \<longleftrightarrow> (\<exists>a b. Exit a b = fst y \<and> a \<le> p \<and> p < b)"
    by (cases y; cases "fst y") (auto simp: site_edits_def deleted_def)
  then have "deleted p (walk_edits d m fend (y # ys)) \<longleftrightarrow>
      (\<exists>a b. Exit a b = fst y \<and> a \<le> p \<and> p < b) \<or> (\<exists>a b. Exit a b \<in> set (map fst ys) \<and> a \<le> p \<and> p < b)"
    using Cons.IH by (simp only: walk_edits_simps deleted_append)
  then show ?case by (simp only: list.map list.set insert_iff) blast
qed (simp add: walk_edits_simps deleted_def)

lemma edits_ok_import:
  assumes "sites_ok len nend fend (map fst ys)"
  shows "edits_ok len (walk_edits d m fend ys @ [InsertNode nend t])"
proof -
  have "compatible n (InsertNode nend t)" if n: "n \<in> set (walk_edits d m fend ys)" for n
  proof (cases n)
    case (DeleteNode a b)
    obtain y where y: "y \<in> set ys" "n \<in> set (site_edits d m fend y)" using n by (auto simp: walk_edits_def)
    then have "fst y = Exit a b" by (cases y; cases "fst y") (auto simp: site_edits_def DeleteNode)
    then have "nend < a" using assms y(1) by (auto simp: sites_ok_def list_all_iff in_file_def)
    then show ?thesis by (simp add: DeleteNode compatible_def apart_def topos_def)
  qed (simp add: compatible_def apart_def)
  moreover have "in_source len (InsertNode nend t)" using assms by (auto simp: sites_ok_def in_source_def topos_def)
  ultimately show ?thesis using walk_edits_ok[OF assms, of d m] by (auto simp: edits_ok_def sorted_wrt_append)
qed

subsection \<open>Properties\<close>

text \<open>
  C19. The editor adds the tracing code and changes nothing else. When the places that the parser reports
  are sound, the editor panics nowhere, and what it gives to the formatter is the source with exactly these changes. Every function it enters has, right
  after its brace, the statement that tests and sets a flag \<open>v\<close> of its own and traces the call with the package \<open>lg\<close>; \<open>main\<close> of
  the package \<open>main\<close> first defers \<open>lg.Close()\<close>. At the end of the file there is the declaration of each of these
  flags, in the order of the functions, and nothing else; the flags are different when the random parts are. After the clause of the package
  there is the import of \<open>lg\<close> when a function has been entered, and nothing otherwise. Every \<open>os.Exit\<close> is replaced by
  \<open>lg.CloseAndExit\<close>. Nothing else is inserted or deleted. (The comments of the templates put the flags after the
  import and the other call on the line before \<open>os.Exit\<close>; the code does what is said here.)
\<close>

theorem Editor_instruments_functions:
  assumes "parse fname src = Inr f" "xs = sitess (ce_ExportedOnly ce) (gf_decls f)" "sites_ok (length src) (gf_nameEnd f) (gf_end f) xs"
  shows "\<exists>ns d ys lg tx. CodeEditor_edit parse fmt rnd fname src ce = Inr (fmt (spliced src ns 1), CodeEditor_init ce) \<and>
    ce_tmpl (CodeEditor_init ce) = Some d \<and> lg = td_ImportName d \<and> tx = td_VariablePrefix d @ ''_txid'' \<and> map fst ys = xs \<and>
    (\<forall>lb nm v. (Brace lb nm, v) \<in> set ys \<longrightarrow> inserted (lb + 1) ns = entry_text lg tx (gf_pkg f = ''main'' \<and> nm = ''main'') v) \<and>
    inserted (gf_end f) ns = concat (map flag_text (flags ys)) \<and>
    (ce_dontUseRandom ce = [] \<and> inj_on rnd {..<length (flags ys)} \<and> (\<forall>i. length (rnd i) = 32) \<longrightarrow> distinct (flags ys)) \<and>
    inserted (gf_nameEnd f) ns = (if flags ys \<noteq> [] then import_text lg (td_ImportPath d) else []) \<and>
    (\<forall>a b. Exit a b \<in> set xs \<longrightarrow> inserted b ns = exit_text lg) \<and>
    (\<forall>p. deleted p ns \<longleftrightarrow> (\<exists>a b. Exit a b \<in> set xs \<and> a \<le> p \<and> p < b)) \<and>
    (\<forall>p. inserted p ns \<noteq> [] \<longrightarrow> p = gf_nameEnd f \<or> p = gf_end f \<or> p \<in> site_pos ` set xs)"
proof -
  let ?ce = "CodeEditor_init ce" and ?m = "gf_pkg f = ''main''"
  obtain d where d: "ce_tmpl ?ce = Some d" by (cases "ce_tmpl ce") (simp_all add: CodeEditor_init_def)
  have eo: "ce_ExportedOnly ?ce = ce_ExportedOnly ce" "ce_dontUseRandom ?ce = ce_dontUseRandom ce" by (simp_all add: CodeEditor_init_def split: option.splits)
  define ys where "ys = flagged ?ce d rnd 0 xs"
  have fst: "map fst ys = xs" by (simp add: ys_def flagged_sites)
  let ?imp = "if flags ys \<noteq> [] then [InsertNode (gf_nameEnd f) (import_text (td_ImportName d) (td_ImportPath d))] else []"
  let ?ns = "walk_edits d ?m (gf_end f) ys @ ?imp"
  have ns: "edit_nodes ?ce d rnd f = ?ns"
    using inspect_walks(2)[of ?ce d rnd f "gf_decls f" "\<lparr>wk_import = False, wk_nodes = [], wk_draws = 0\<rparr>"] assms(2) eo(1)
    by (simp add: edit_nodes_def Let_def walks_def tmpl_texts(1) ys_def)
  have sok: "sites_ok (length src) (gf_nameEnd f) (gf_end f) (map fst ys)" using assms(3) fst by simp
  have "edits_ok (length src) ?ns" using walk_edits_ok[OF sok] edits_ok_import[OF sok] by simp
  then have run: "CodeEditor_edit parse fmt rnd fname src ce = Inr (fmt (spliced src ?ns 1), ?ce)"
    using Format_ok[of src ?ns fmt] assms(1) d by (simp add: CodeEditor_edit_def NodeList_Add_def Let_def ns)
  have s: "list_all (in_file (gf_nameEnd f) (gf_end f)) (map fst ys)" "sorted_wrt separate (map fst ys)" "gf_nameEnd f \<noteq> gf_end f"
    using sok by (auto simp: sites_ok_def)
  have imp: "inserted p ?imp = (if p = gf_nameEnd f \<and> flags ys \<noteq> [] then import_text (td_ImportName d) (td_ImportPath d) else [])" for p
    by (simp add: inserted_def)
  have pos: "gf_nameEnd f < site_pos x \<and> site_pos x < gf_end f" if "x \<in> set (map fst ys)" for x
    using that s(1) in_file_pos by (auto simp: list_all_iff)
  have at: "inserted (site_pos (fst y)) ?ns = site_text d ?m y" if y: "y \<in> set ys" for y
    using walk_inserted[OF s(1,2) y refl, of d ?m] pos[of "fst y"] y by (simp add: inserted_append imp)
  have e: "inserted (lb + 1) ?ns = entry_text (td_ImportName d) (td_VariablePrefix d @ ''_txid'') (?m \<and> nm = ''main'') v" if "(Brace lb nm, v) \<in> set ys" for lb nm v
    using at[OF that] by (simp add: site_pos_def site_text_def entry_of_def)
  have x: "inserted b ?ns = exit_text (td_ImportName d)" if ab: "Exit a b \<in> set xs" for a b
  proof -
    obtain v where "(Exit a b, v) \<in> set ys" using ab fst by auto
    from at[OF this] show ?thesis by (simp add: site_pos_def site_text_def)
  qed
  have fl: "inserted (gf_end f) ?ns = concat (map flag_text (flags ys))"
    using walk_flags[OF s(1), of d ?m] s(3) by (simp add: inserted_append imp)
  have im: "inserted (gf_nameEnd f) ?ns = (if flags ys \<noteq> [] then import_text (td_ImportName d) (td_ImportPath d) else [])"
    using walk_inserted_nothing[of "gf_nameEnd f" "gf_end f" ys d ?m] s(3) pos by (fastforce simp: inserted_append imp)
  have dl: "deleted p ?ns \<longleftrightarrow> (\<exists>a b. Exit a b \<in> set xs \<and> a \<le> p \<and> p < b)" for p
    using walk_deleted[of p d ?m "gf_end f" ys] by (simp add: deleted_append fst) (simp add: deleted_def)
  have el: "p = gf_nameEnd f \<or> p = gf_end f \<or> p \<in> site_pos ` set xs" if "inserted p ?ns \<noteq> []" for p
    using that walk_inserted_nothing[of p "gf_end f" ys d ?m] by (auto simp: inserted_append imp fst split: if_splits)
  have ds: "distinct (flags ys)" if "ce_dontUseRandom ce = []" "inj_on rnd {..<length (flags ys)}" "\<forall>i. length (rnd i) = 32"
    using flags_distinct[of ?ce rnd 0 d xs] that eo(2) by (simp add: ys_def lessThan_atLeast0)
  show ?thesis
    by (rule exI[of _ ?ns], rule exI[of _ d], rule exI[of _ ys], rule exI[of _ "td_ImportName d"], rule exI[of _ "td_VariablePrefix d @ ''_txid''"])
      (use run d fst e fl ds im x dl el in blast)
qed

text \<open>A file with a function that another call ends: \<open>package p\<close>, then \<open>func f(){os.Exit(1)}\<close>.\<close>

definition sample_go :: go_file where
  "sample_go = \<lparr>gf_pkg = ''p'', gf_nameEnd = 10, gf_end = 32, gf_decls =
     [FuncDecl ''f'' False (Some 19) [OtherNode [CallExpr (Some (''os'', ''Exit'', 20, 27)) []]]]\<rparr>"

definition sample_go_src :: "byte list" where
  "sample_go_src = bytes_of_string (''package p'' @ [char_of (10::nat)] @ ''func f(){os.Exit(1)}'' @ [char_of (10::nat)])"

theorem Editor_instruments_functions_witness:
  "\<exists>ns v lg tx. CodeEditor_edit (\<lambda>n s. Inr sample_go) (\<lambda>s. Inr s :: nat + byte list) (\<lambda>n. ''0'') ''p.go'' sample_go_src
      \<lparr>ce_ExportedOnly = False, ce_Prefix = ''q'', ce_tmpl = None, ce_dontUseRandom = []\<rparr> =
        Inr (Inr (spliced sample_go_src ns 1), CodeEditor_init \<lparr>ce_ExportedOnly = False, ce_Prefix = ''q'', ce_tmpl = None, ce_dontUseRandom = []\<rparr>) \<and>
    lg = ''q_import'' \<and> tx = ''q_var__txid'' \<and>
    inserted 20 ns = entry_text lg tx False v \<and> inserted 32 ns = flag_text v \<and> inserted 10 ns = import_text lg DefaultImportPath \<and>
    inserted 27 ns = exit_text lg \<and> deleted 21 ns \<and> \<not> deleted 27 ns"
proof -
  let ?ce = "\<lparr>ce_ExportedOnly = False, ce_Prefix = ''q'', ce_tmpl = None, ce_dontUseRandom = []\<rparr>" and ?xs = "[Brace 19 ''f'', Exit 20 27]"
  have x: "?xs = sitess (ce_ExportedOnly ?ce) (gf_decls sample_go)" by (simp add: sample_go_def)
  have ok: "sites_ok (length sample_go_src) (gf_nameEnd sample_go) (gf_end sample_go) ?xs"
    by (simp add: sites_ok_def in_file_def separate_def sample_go_def sample_go_src_def)
  have i: "ce_tmpl (CodeEditor_init ?ce) = Some \<lparr>td_ImportName = ''q_import'', td_ImportPath = DefaultImportPath, td_VariablePrefix = ''q_var_''\<rparr>"
    by (simp add: CodeEditor_init_def newTemplate_def)
  from Editor_instruments_functions[where parse = "\<lambda>n s. Inr sample_go" and fname = "''p.go''" and src = sample_go_src and f = sample_go and ce = ?ce
      and rnd = "\<lambda>n. ''0''" and fmt = "\<lambda>s. Inr s :: nat + byte list", OF refl x ok] i
  obtain ns ys where r: "CodeEditor_edit (\<lambda>n s. Inr sample_go) (\<lambda>s. Inr s :: nat + byte list) (\<lambda>n. ''0'') ''p.go'' sample_go_src ?ce =
      Inr (Inr (spliced sample_go_src ns 1), CodeEditor_init ?ce)" "map fst ys = ?xs"
    "\<forall>lb nm v. (Brace lb nm, v) \<in> set ys \<longrightarrow> inserted (lb + 1) ns = entry_text ''q_import'' ''q_var__txid'' (gf_pkg sample_go = ''main'' \<and> nm = ''main'') v"
    "inserted (gf_end sample_go) ns = concat (map flag_text (flags ys))"
    "inserted (gf_nameEnd sample_go) ns = (if flags ys \<noteq> [] then import_text ''q_import'' DefaultImportPath else [])"
    "\<forall>a b. Exit a b \<in> set ?xs \<longrightarrow> inserted b ns = exit_text ''q_import''"
    "\<forall>p. deleted p ns \<longleftrightarrow> (\<exists>a b. Exit a b \<in> set ?xs \<and> a \<le> p \<and> p < b)"
  proof (elim exE conjE, goal_cases)
    case (1 ns d ys lg tx)
    have d: "d = \<lparr>td_ImportName = ''q_import'', td_ImportPath = DefaultImportPath, td_VariablePrefix = ''q_var_''\<rparr>" using 1(2,4) by simp
    show ?case
    proof (rule 1(1))
      show "\<forall>lb nm v. (Brace lb nm, v) \<in> set ys \<longrightarrow> inserted (lb + 1) ns = entry_text ''q_import'' ''q_var__txid'' (gf_pkg sample_go = ''main'' \<and> nm = ''main'') v"
        using 1 d by simp
    qed (use 1 d in simp_all)
  qed
  from r(2) obtain v u where ys: "ys = [(Brace 19 ''f'', v), (Exit 20 27, u)]" by (auto simp: Cons_eq_map_conv)
  show ?thesis using r(1) r(3-7) unfolding ys
    by (intro exI[of _ ns] exI[of _ v] exI[of _ "''q_import''"] exI[of _ "''q_var__txid''"]) (simp add: sample_go_def)
qed

subsection \<open>Replacing a file\<close>

lemma io_step_files: "io_step w = (e, w') \<Longrightarrow> files w' = files w"
  by (auto simp: io_step_def split: prod.splits option.splits dest: next_fault_files)

lemma os_Close_files: "os_Close w h = (h', e, w') \<Longrightarrow> files w' = files w"
  by (auto simp: os_Close_def split: prod.splits option.splits if_splits dest: next_fault_files)

lemma next_fault_cases: obtains fo w' where "next_fault w = (fo, w')" "files w' = files w"
  by (cases "next_fault w") (use next_fault_files in blast)

lemma remove_other: "q \<noteq> f \<Longrightarrow> files (snd (File_Remove w f)) q = files w q"
proof -
  assume q: "q \<noteq> f"
  obtain fo w' where "next_fault w = (fo, w')" "files w' = files w" by (rule next_fault_cases)
  then show ?thesis using q by (cases fo) (simp_all add: File_Remove_def)
qed

text \<open>Reading, editing and writing touch the temporary file only.\<close>

lemma edit_handles:
  assumes "CodeEditor_edit parse fmt rnd fname src ce = Inr (res, ce')" "r = \<lparr>h_path = fname, h_cur = 0, h_append = False, h_open = True\<rparr>"
    "wh = \<lparr>h_path = tmp, h_cur = 0, h_append = False, h_open = True\<rparr>" "files w fname = Some src" "files w tmp = Some []"
  shows "\<exists>e wh' w'. (case read_rest r w of
         (src, Some e, w) \<Rightarrow> Inr (Some e, wh, w)
       | (src, None, w) \<Rightarrow>
           go_bind (CodeEditor_edit parse fmt rnd fname src ce) (\<lambda>(res, ce).
           case res of
             Inl e \<Rightarrow> Inr (Some (bad e), wh, w)
           | Inr new \<Rightarrow> (case os_Write w wh new of (wh, n, e, w) \<Rightarrow> Inr (e, wh, w)))) = Inr (e, wh', w') \<and> h_open wh' \<and>
     (\<forall>q. q \<noteq> tmp \<longrightarrow> files w' q = files w q) \<and> files w' tmp \<noteq> None \<and> (e = None \<longrightarrow> (\<exists>new. res = Inr new \<and> files w' tmp = Some new))"
proof -
  obtain fo w1 where f: "next_fault w = (fo, w1)" "files w1 = files w" by (rule next_fault_cases)
  have src: "drop (h_cur r) (file_bytes w (h_path r)) = src" using assms(2,4) by (simp add: file_bytes_def)
  show ?thesis
  proof (cases fo)
    case (Some k)
    then show ?thesis using f src assms(3,5) by (simp add: read_rest_def)
  next
    case None
    then have rd: "read_rest r w = (src, None, w1)" using f src by (simp add: read_rest_def)
    show ?thesis
    proof (cases res)
      case (Inl e)
      then show ?thesis using rd assms(1,3,5) f(2) by simp
    next
      case (Inr new)
      obtain g w2 where g: "next_fault w1 = (g, w2)" "files w2 = files w1" by (rule next_fault_cases)
      have "file_bytes w1 tmp = []" using f(2) assms(5) by (simp add: file_bytes_def)
      then show ?thesis using rd assms(1,3) f(2) g Inr by (cases g) (simp_all add: os_Write_def overlay_def)
    qed
  qed
qed

lemma replace_ok:
  assumes "fn r wh v = Inr (e, wh', w')" "v = snd (io_step w)" "h_open wh'" "\<forall>q. q \<noteq> tmp \<longrightarrow> files w' q = files v q" "files w' tmp \<noteq> None"
    "e = None \<longrightarrow> files w' tmp = Some new" "tmp \<noteq> fname"
  shows "\<exists>e2 w2. replace_with tmp fname fn r wh w = Inr (e2, w2) \<and> (\<forall>q. q \<noteq> tmp \<longrightarrow> q \<noteq> fname \<longrightarrow> files w2 q = files w q) \<and>
     (e2 = None \<longrightarrow> e = None \<and> files w2 tmp = None \<and> files w2 fname = Some new) \<and> (e2 \<noteq> None \<longrightarrow> files w2 fname = files w fname)"
proof (cases "io_step w")
  case (Pair e1 w1)
  then have v: "v = w1" "files w1 = files w" using assms(2) io_step_files by auto
  show ?thesis
  proof (cases e1)
    case (Some x)
    then show ?thesis using Pair v by (simp add: replace_with_def)
  next
    case None
    obtain h3 e3 w3 where c: "os_Close w' wh' = (h3, e3, w3)" by (metis surj_pair)
    note fc = os_Close_files[OF c]
    obtain fo w4 where f: "next_fault w3 = (fo, w4)" "files w4 = files w3" by (rule next_fault_cases)
    show ?thesis
    proof (cases e)
      case (Some x)
      then show ?thesis using assms(1,4,7) v c fc Pair None by (simp add: replace_with_def)
    next
      case en: None
      then show ?thesis using assms v c fc Pair None f
        by (cases e3; cases fo) (auto simp: replace_with_def RenameTo_def)
    qed
  qed
qed

text \<open>
  C20. Editing a file in place is atomic. Whatever operation of the file system fails: when an error is returned, the file
  is as it was; when none is, it holds the edited source and the temporary file is gone. No other file changes.
\<close>

theorem EditFileOverwrite_is_atomic:
  assumes "files w fname = Some src" "files w tmp = None" "tmp \<noteq> fname" "CodeEditor_edit parse fmt rnd fname src ce = Inr (res, ce')"
  shows "\<exists>e w'. EditFileOverwrite parse fmt rnd bad ce tmp fname w = Inr (e, w') \<and> (\<forall>q. q \<noteq> fname \<longrightarrow> q \<noteq> tmp \<longrightarrow> files w' q = files w q) \<and>
    (e \<noteq> None \<longrightarrow> files w' fname = Some src) \<and> (e = None \<longrightarrow> (\<exists>new. res = Inr new \<and> files w' fname = Some new) \<and> files w' tmp = None)"
proof -
  let ?r = "\<lparr>h_path = fname, h_cur = 0, h_append = False, h_open = True\<rparr>" and ?wh = "\<lparr>h_path = tmp, h_cur = 0, h_append = False, h_open = True\<rparr>"
  let ?fn = "\<lambda>r wh w. case read_rest r w of
         (src, Some e, w) \<Rightarrow> Inr (Some e, wh, w)
       | (src, None, w) \<Rightarrow>
           go_bind (CodeEditor_edit parse fmt rnd fname src ce) (\<lambda>(res, ce).
           case res of
             Inl e \<Rightarrow> Inr (Some (bad e), wh, w)
           | Inr new \<Rightarrow> (case os_Write w wh new of (wh, n, e, w) \<Rightarrow> Inr (e, wh, w)))"
  obtain f1 w1 where 1: "next_fault w = (f1, w1)" "files w1 = files w" by (rule next_fault_cases)
  obtain e2 w2 where 2: "io_step w1 = (e2, w2)" "files w2 = files w1" using io_step_files by (metis surj_pair)
  obtain f3 w3 where 3: "next_fault w2 = (f3, w3)" "files w3 = files w2" by (rule next_fault_cases)
  let ?w3 = "w3\<lparr>files := (files w3)(tmp \<mapsto> file_bytes w3 tmp)\<rparr>"
  have closed: "files (snd (snd (os_Close v h))) = files v" for v h by (metis os_Close_files prod.collapse)
  show ?thesis
  proof (cases "f1 = None \<and> e2 = None \<and> f3 = None")
    case False
    then show ?thesis using 1 2 3 assms(1) closed
      by (cases f1; cases e2; cases f3) (auto simp: EditFileOverwrite_def AtomicReadWrite_def OpenReadOnly_def openFile_def)
  next
    case True
    let ?v = "snd (io_step ?w3)"
    have v: "files ?v = files ?w3" by (metis io_step_files prod.collapse)
    have tmp: "files ?v fname = Some src" "files ?v tmp = Some []" using v 1 2 3 assms(1-3) by (simp_all add: file_bytes_def)
    obtain e wh' w' where fn: "?fn ?r ?wh ?v = Inr (e, wh', w')" "h_open wh'" "\<forall>q. q \<noteq> tmp \<longrightarrow> files w' q = files ?v q" "files w' tmp \<noteq> None"
      "e = None \<longrightarrow> (\<exists>new. res = Inr new \<and> files w' tmp = Some new)"
      using edit_handles[OF assms(4) refl refl tmp, of bad] by blast
    define new where "new = (case res of Inr new \<Rightarrow> new | Inl _ \<Rightarrow> [])"
    have "e = None \<longrightarrow> files w' tmp = Some new" using fn(5) by (auto simp: new_def)
    from replace_ok[of ?fn ?r ?wh ?v e wh' w' ?w3 tmp new fname, OF fn(1) refl fn(2-4) this assms(3)] obtain e4 w4 where
      r: "replace_with tmp fname ?fn ?r ?wh ?w3 = Inr (e4, w4)" "\<forall>q. q \<noteq> tmp \<longrightarrow> q \<noteq> fname \<longrightarrow> files w4 q = files ?w3 q"
        "e4 = None \<longrightarrow> e = None \<and> files w4 tmp = None \<and> files w4 fname = Some new" "e4 \<noteq> None \<longrightarrow> files w4 fname = files ?w3 fname" by blast
    let ?w5 = "if e4 = None then w4 else snd (File_Remove w4 tmp)"
    have w5: "files ?w5 q = files w4 q" if "q \<noteq> tmp \<or> e4 = None" for q
      using that by (auto simp: remove_other)
    have run: "EditFileOverwrite parse fmt rnd bad ce tmp fname w = Inr (e4, snd (snd (os_Close ?w5 ?r)))"
      using True 1 2 3 assms(1) r(1) by (simp add: EditFileOverwrite_def AtomicReadWrite_def OpenReadOnly_def openFile_def Let_def)
    have fs: "files (snd (snd (os_Close ?w5 ?r))) q = files ?w5 q" for q by (simp only: closed)
    have "files ?w3 q = files w q" if "q \<noteq> tmp" for q using that 1 2 3 by simp
    moreover have "e4 = None \<Longrightarrow> res = Inr new" using r(3) fn(5) by (auto simp: new_def)
    ultimately show ?thesis using run fs w5 r(2-4) assms(1,3)
      by (intro exI[of _ e4] exI[of _ "snd (snd (os_Close ?w5 ?r))"]) (simp add: closed)
  qed
qed

text \<open>A file without functions.\<close>

definition plain_go :: go_file where
  "plain_go = \<lparr>gf_pkg = ''p'', gf_nameEnd = 10, gf_end = 11, gf_decls = []\<rparr>"

definition plain_editor :: CodeEditor where
  "plain_editor = \<lparr>ce_ExportedOnly = False, ce_Prefix = [], ce_tmpl = None, ce_dontUseRandom = []\<rparr>"

theorem EditFileOverwrite_is_atomic_witness:
  "\<exists>e w'. EditFileOverwrite (\<lambda>n s. Inr plain_go) (\<lambda>s. Inr (s @ [10]) :: nat + byte list) (\<lambda>n. []) (\<lambda>e. EIO) plain_editor ''t'' ''p.go''
      \<lparr>files = [''p.go'' \<mapsto> [1, 2]], faults = [None, None, None, None, None, Some 1]\<rparr> = Inr (e, w') \<and>
    (\<forall>q. q \<noteq> ''p.go'' \<longrightarrow> q \<noteq> ''t'' \<longrightarrow> files w' q = None) \<and> (e \<noteq> None \<longrightarrow> files w' ''p.go'' = Some [1, 2]) \<and>
    (e = None \<longrightarrow> (\<exists>new. (Inr [1, 2, 10] :: nat + byte list) = Inr new \<and> files w' ''p.go'' = Some new) \<and> files w' ''t'' = None)"
proof -
  let ?w = "\<lparr>files = [''p.go'' \<mapsto> [1, 2]], faults = [None, None, None, None, None, Some 1]\<rparr>"
  have "CodeEditor_edit (\<lambda>n s. Inr plain_go) (\<lambda>s. Inr (s @ [10]) :: nat + byte list) (\<lambda>n. []) ''p.go'' [1, 2] plain_editor =
      Inr (Inr [1, 2, 10], CodeEditor_init plain_editor)"
    by (simp add: CodeEditor_edit_def CodeEditor_init_def plain_editor_def plain_go_def edit_nodes_def NodeList_Add_def NodeList_Format_def srcByRange1_def Let_def)
  from EditFileOverwrite_is_atomic[OF _ _ _ this, of ?w "''t''" "\<lambda>e. EIO"] show ?thesis by simp
qed

end
