(* ===== verification/Graph.thy ===== *)
theory Graph
  imports RestClient
begin

section \<open>Graph: the history of calls as lines (\<open>logviewer/graphview.go\<close>, \<open>graphwidget.go\<close>, \<open>scroll.go\<close>)\<close>

text \<open>
  The viewer draws a call as a horizontal line, in the row of its goroutine. Positions count events and not
  time. Coordinates are unbounded here; they are at most twice the number of calls, so that they do not overflow in the code.
\<close>

subsection \<open>Lines and how they are painted (\<open>graphwidget.go\<close>)\<close>

type_synonym rune = nat

datatype LineType = HorizontalLine | VerticalLine
datatype LineTermination = LineTerminationNormal | LineTerminationHighlight | LineTerminationNone
datatype Origin = OriginTopLeft | OriginTopRight | OriginBottomLeft | OriginBottomRight

fun LineType_Rune :: "LineType \<Rightarrow> rune" where
  "LineType_Rune HorizontalLine = 0x2500"
| "LineType_Rune VerticalLine = 0x2502"

fun LineTermination_Rune :: "LineTermination \<Rightarrow> rune \<Rightarrow> rune" where
  "LineTermination_Rune LineTerminationNone d = d"
| "LineTermination_Rune LineTerminationNormal d = 0x25CF"
| "LineTermination_Rune LineTerminationHighlight d = 0x25CE"

record Line =
  ln_X :: int
  ln_Y :: int
  ln_Length :: int
  ln_Type :: LineType
  ln_StartDeco :: LineTermination
  ln_EndDeco :: LineTermination
  ln_StyleName :: string

record GraphWidget =
  gw_lines :: "Line list"
  gw_origin :: Origin

definition newGraphWidget :: GraphWidget where
  "newGraphWidget = \<lparr>gw_lines = [], gw_origin = OriginTopLeft\<rparr>"

definition RemoveLines :: "GraphWidget \<Rightarrow> GraphWidget" where
  "RemoveLines v = v\<lparr>gw_lines := []\<rparr>"

definition SetLines :: "Line list \<Rightarrow> GraphWidget \<Rightarrow> GraphWidget" where
  "SetLines ls v = v\<lparr>gw_lines := ls\<rparr>"

definition SetOrigin :: "Origin \<Rightarrow> GraphWidget \<Rightarrow> GraphWidget" where
  "SetOrigin og v = v\<lparr>gw_origin := og\<rparr>"

fun hint_loop :: "Line list \<Rightarrow> int \<times> int \<Rightarrow> int \<times> int" where
  "hint_loop [] sz = sz"
| "hint_loop (l # ls) (sx, sy) =
     (let rightX = ln_X l + ln_Length l in
      hint_loop ls (if sx < rightX then rightX else sx, if sy < ln_Y l then ln_Y l else sy))"

definition SizeHint :: "GraphWidget \<Rightarrow> int \<times> int" where
  "SizeHint v = hint_loop (gw_lines v) (0, 0)"

definition AddLine :: "Line \<Rightarrow> GraphWidget \<Rightarrow> GraphWidget go" where
  "AddLine l v = (if ln_Length l \<le> 0 then Inl (Panic ''invalid line'') else Inr (v\<lparr>gw_lines := gw_lines v @ [l]\<rparr>))"

text \<open>What is asked of the painter of the library, in order.\<close>

datatype paint = DrawRune int int rune | WithStyle string "paint list" | Translate int int | Restore

fun place :: "Origin \<Rightarrow> int \<times> int \<Rightarrow> int \<times> int \<Rightarrow> int \<times> int" where
  "place OriginTopLeft (sx, sy) (x, y) = (x, y)"
| "place OriginTopRight (sx, sy) (x, y) = (sx - 1 - x, y)"
| "place OriginBottomLeft (sx, sy) (x, y) = (x, sy - 1 - y)"
| "place OriginBottomRight (sx, sy) (x, y) = (sx - 1 - x, sy - 1 - y)"

definition drawRune :: "Origin \<Rightarrow> int \<times> int \<Rightarrow> int \<Rightarrow> int \<Rightarrow> rune \<Rightarrow> paint" where
  "drawRune og sz x y r = (case place og sz (x, y) of (x, y) \<Rightarrow> DrawRune x y r)"

text \<open>\<open>len\<close> counts up to the length of the line; the loop gives the place it has come to.\<close>

function draw_loop :: "Origin \<Rightarrow> int \<times> int \<Rightarrow> Line \<Rightarrow> int \<Rightarrow> int \<Rightarrow> int \<Rightarrow> int \<Rightarrow> int \<Rightarrow> paint list \<times> int \<times> int" where
  "draw_loop og sz l dx dy len x y =
     (let len = len + 1 in
      if ln_Length l \<le> len then ([], x, y)
      else (case draw_loop og sz l dx dy len (x + dx) (y + dy) of
              (ps, p) \<Rightarrow> (drawRune og sz (x + dx) (y + dy) (LineType_Rune (ln_Type l)) # ps, p)))"
  by pat_completeness auto
termination by (relation "measure (\<lambda>(og, sz, l, dx, dy, len, x, y). nat (ln_Length l - len))") auto

declare draw_loop.simps [simp del]

definition drawLine :: "int \<times> int \<Rightarrow> GraphWidget \<Rightarrow> Line \<Rightarrow> paint list" where
  "drawLine sz v l =
     (let (dx, dy) = (case ln_Type l of HorizontalLine \<Rightarrow> (1, 0) | VerticalLine \<Rightarrow> (0, 1));
          startRune = LineTermination_Rune (ln_StartDeco l) (LineType_Rune (ln_Type l));
          endRune = LineTermination_Rune (ln_EndDeco l) (LineType_Rune (ln_Type l)) in
      case draw_loop (gw_origin v) sz l dx dy 0 (ln_X l) (ln_Y l) of
        (ps, x, y) \<Rightarrow> drawRune (gw_origin v) sz (ln_X l) (ln_Y l) startRune # ps @ [drawRune (gw_origin v) sz x y endRune])"

definition GraphWidget_Draw :: "int \<times> int \<Rightarrow> GraphWidget \<Rightarrow> paint list" where
  "GraphWidget_Draw sz v =
     concat (map (\<lambda>l. if ln_StyleName l = [] then drawLine sz v l else [WithStyle (ln_StyleName l) (drawLine sz v l)]) (gw_lines v))"

definition ScrollArea :: "GraphWidget \<Rightarrow> int \<times> int" where
  "ScrollArea v = SizeHint v"

definition PartialDraw :: "int \<times> int \<Rightarrow> GraphWidget \<Rightarrow> int \<times> int \<Rightarrow> int \<times> int \<Rightarrow> paint list" where
  "PartialDraw sz v area1 area2 = GraphWidget_Draw sz v"

subsection \<open>Scrolling (\<open>scroll.go\<close>)\<close>

datatype ScrollMode = ManualScrollMode | AutoScrollMode

record ScrollWidget =
  sw_widget :: GraphWidget
  sw_p1 :: "int \<times> int"
  sw_autoscrollX :: bool
  sw_autoscrollY :: bool

definition sw_Scroll :: "int \<Rightarrow> int \<Rightarrow> ScrollWidget \<Rightarrow> ScrollWidget" where
  "sw_Scroll x y w = w\<lparr>sw_p1 := (x, y)\<rparr>"

definition sw_AutoScroll :: "bool \<Rightarrow> bool \<Rightarrow> ScrollWidget \<Rightarrow> ScrollWidget" where
  "sw_AutoScroll x y w = w\<lparr>sw_autoscrollX := x, sw_autoscrollY := y\<rparr>"

definition scroll_pos :: "int \<times> int \<Rightarrow> ScrollWidget \<Rightarrow> int \<times> int" where
  "scroll_pos sz w =
     (let area = ScrollArea (sw_widget w);
          x = (if sw_autoscrollX w then (let x = fst sz - fst area in if 0 < x then 0 else x) else fst (sw_p1 w));
          y = (if sw_autoscrollY w then (let y = snd sz - snd area in if 0 < y then 0 else y) else snd (sw_p1 w))
      in (x, y))"

definition ScrollWidget_Draw :: "int \<times> int \<Rightarrow> ScrollWidget \<Rightarrow> paint list" where
  "ScrollWidget_Draw sz w =
     (case scroll_pos sz w of (x, y) \<Rightarrow> Translate x y # PartialDraw sz (sw_widget w) (x, y) (ScrollArea (sw_widget w)) @ [Restore])"

subsection \<open>From calls to lines (\<open>graphview.go\<close>)\<close>

record GraphCache =
  gc_LogInfo :: LogInfo
  gc_Symbols :: "Symbols option"
  gc_Records :: "FuncLog list"
  gc_GMap :: "GID \<rightharpoonup> Goroutine"

fun EndedFuncLogs :: "FuncLog list \<Rightarrow> Time \<Rightarrow> int" where
  "EndedFuncLogs [] t = 0"
| "EndedFuncLogs (fc # fcs) t = (if IsEnded fc \<and> sint (fl_EndTime fc) < sint t then 1 else 0) + EndedFuncLogs fcs t"

fun RunningFuncLogs :: "FuncLog list \<Rightarrow> Time \<Rightarrow> int" where
  "RunningFuncLogs [] t = 0"
| "RunningFuncLogs (fc # fcs) t =
     (if sint (fl_StartTime fc) < sint t \<and> (\<not> IsEnded fc \<or> sint t \<le> sint (fl_EndTime fc)) then 1 else 0) + RunningFuncLogs fcs t"

fun maxTime_loop :: "FuncLog list \<Rightarrow> Time \<Rightarrow> Time" where
  "maxTime_loop [] m = m"
| "maxTime_loop (fc # fcs) m =
     (let m = (if sint m < sint (fl_StartTime fc) then fl_StartTime fc else m);
          m = (if sint m < sint (fl_EndTime fc) then fl_EndTime fc else m)
      in maxTime_loop fcs m)"

definition maxTime :: "FuncLog list \<Rightarrow> Time" where
  "maxTime rs = maxTime_loop rs 0"

definition calcXPos :: "FuncLog list \<Rightarrow> Time \<Rightarrow> int" where
  "calcXPos rs t = EndedFuncLogs rs t * 2 + RunningFuncLogs rs t"

definition right_of :: "FuncLog list \<Rightarrow> FuncLog \<Rightarrow> int" where
  "right_of rs fc = (if \<not> IsEnded fc then calcXPos rs (maxTime rs) else calcXPos rs (fl_EndTime fc))"

text \<open>The place and the length of the calls, in order.\<close>

fun x_loop :: "FuncLog list \<Rightarrow> FuncLog list \<Rightarrow> (int \<times> int) list go" where
  "x_loop rs [] = Inr []"
| "x_loop rs (fc # fcs) =
     (let left = calcXPos rs (fl_StartTime fc); right = right_of rs fc in
      if right \<le> left then Inl (Panic ''bug'') else go_bind (x_loop rs fcs) (\<lambda>xs. Inr ((left, right - left + 1) # xs)))"

definition MaxInt :: int where "MaxInt = 2 ^ 63 - 1"
definition MinInt :: int where "MinInt = - (2 ^ 63)"

fun gap_loop :: "GID \<Rightarrow> Goroutine \<Rightarrow> (FuncLog \<times> int \<times> int) list \<Rightarrow> int \<times> int \<times> bool \<Rightarrow> int \<times> int \<times> bool" where
  "gap_loop gid g [] st = st"
| "gap_loop gid g ((fc, x, len) # xs) (firstX, lastX, exst) =
     (if fl_GID fc \<noteq> gid then gap_loop gid g xs (firstX, lastX, exst)
      else gap_loop gid g xs
        (if x < firstX then (if sint (g_StartTime g) < sint (fl_StartTime fc) then x - 1 else x) else firstX,
         if lastX < x + len then (if sint (fl_EndTime fc) < sint (g_EndTime g) then x + len + 1 else x + len) else lastX, True))"

fun gap_sets :: "(GID \<rightharpoonup> Goroutine) \<Rightarrow> (FuncLog \<times> int \<times> int) list \<Rightarrow> GID list \<Rightarrow> (GID \<rightharpoonup> int \<times> int) go" where
  "gap_sets gm xs [] = Inr Map.empty"
| "gap_sets gm xs (gid # gids) =
     (case gm gid of
        None \<Rightarrow> gap_sets gm xs gids
      | Some g \<Rightarrow>
          (case gap_loop gid g xs (MaxInt, MinInt, False) of
             (firstX, lastX, exst) \<Rightarrow>
               if \<not> exst then Inl (Panic ''not found function call logs'')
               else go_bind (gap_sets gm xs gids) (\<lambda>m. Inr (m(gid \<mapsto> (firstX, lastX))))))"

text \<open>The rows: the goroutines by their identifiers.\<close>

definition gid_rows :: "GID list \<Rightarrow> (GID \<rightharpoonup> int)" where
  "gid_rows gidList = map_of (zip gidList (map int [0..<length gidList]))"

definition row_of :: "(GID \<rightharpoonup> int) \<Rightarrow> GID \<Rightarrow> int" where
  "row_of gidY gid = (case gidY gid of None \<Rightarrow> 0 | Some y \<Rightarrow> y)"

fun gap_lines :: "(GID \<rightharpoonup> int) \<Rightarrow> (GID \<rightharpoonup> int \<times> int) \<Rightarrow> GID list \<Rightarrow> Line list go" where
  "gap_lines gidY ends [] = Inr []"
| "gap_lines gidY ends (gid # gids) =
     (let (firstX, lastX) = (case ends gid of None \<Rightarrow> (0, 0) | Some p \<Rightarrow> p); len = lastX - firstX in
      if len < 0 then Inl (Panic ''negative length'')
      else go_bind (gap_lines gidY ends gids) (\<lambda>ls. Inr
        (\<lparr>ln_X = firstX, ln_Y = row_of gidY gid, ln_Length = len, ln_Type = HorizontalLine, ln_StartDeco = LineTerminationNone,
          ln_EndDeco = LineTerminationNone, ln_StyleName = ''line.gap''\<rparr> # ls)))"

definition styleName :: "UIConfig \<Rightarrow> FuncLogID \<Rightarrow> FuncLog \<Rightarrow> string" where
  "styleName ui selected fc =
     ''line.'' @ (if IsEnded fc then ''stopped'' else ''running'') @
     (if fl_ID fc = selected then ''.selected'' else if IsPinned ui fc then ''.marked'' else [])"

definition call_line :: "UIConfig \<Rightarrow> FuncLogID \<Rightarrow> (GID \<rightharpoonup> int) \<Rightarrow> FuncLog \<times> int \<times> int \<Rightarrow> Line" where
  "call_line ui selected gidY = (\<lambda>(fc, x, len).
     \<lparr>ln_X = x, ln_Y = row_of gidY (fl_GID fc), ln_Length = len, ln_Type = HorizontalLine, ln_StartDeco = LineTerminationNormal,
      ln_EndDeco = LineTerminationNormal, ln_StyleName = styleName ui selected fc\<rparr>)"

text \<open>
  \<open>srt\<close> and \<open>srtG\<close> are \<open>sort.Slice\<close> on the two types, \<open>ord1\<close>, \<open>ord2\<close> and \<open>ord3\<close> the orders in which Go iterates over the map of goroutines.
  The two goroutines that compute columns and rows share nothing but the map, which both only read.
\<close>

definition buildLines ::
  "FuncLog sorter \<Rightarrow> GID sorter \<Rightarrow> GID list \<Rightarrow> GID list \<Rightarrow> GID list \<Rightarrow> FuncLogID \<Rightarrow> GraphCache \<Rightarrow> (Line list \<times> GraphCache) go" where
  "buildLines srt srtG ord1 ord2 ord3 selected c =
     go_bind (srt (\<lambda>a b. Inr (sint (fl_StartTime b) < sint (fl_StartTime a))) (gc_Records c)) (\<lambda>rs.
     go_bind (x_loop rs rs) (\<lambda>xs.
     go_bind (gap_sets (gc_GMap c) (zip rs xs) ord1) (\<lambda>ends.
     go_bind (srtG (\<lambda>a b. Inr (sint a < sint b)) ord2) (\<lambda>gidList.
     go_bind (gap_lines (gid_rows gidList) ends ord3) (\<lambda>gaps.
     Inr (gaps @ map (call_line (md_UI (li_Metadata (gc_LogInfo c))) selected (gid_rows gidList)) (rev (zip rs xs)), c\<lparr>gc_Records := rs\<rparr>))))))"

text \<open>\<open>UpdateOffset\<close>: offsets are never positive.\<close>

definition UpdateOffset :: "int \<Rightarrow> int \<Rightarrow> int \<times> int \<Rightarrow> int \<times> int" where
  "UpdateOffset dx dy = (\<lambda>(ox, oy). (if 0 < ox + dx then 0 else ox + dx, if 0 < oy + dy then 0 else oy + dy))"

text \<open>
  \<open>GraphCache.Update\<close>: after the metadata, three requests run at once; \<open>ord\<close> is the order in which they are answered. The first error is returned; a request
  that is aborted because of it fails, too. The requests have a client of their own, with an empty cache.
\<close>

datatype graph_request = GetSymbols | GetCalls | GetGoroutines

definition graph_params :: SearchFuncLogParams where
  "graph_params = \<lparr>sf_Gid = 0, sf_MinId = 0, sf_MaxId = 0, sf_MinTimestamp = 0, sf_MaxTimestamp = 0, sf_Limit = 0,
     sf_SortKey = SortByID, sf_SortOrder = DescendingSortOrder, sf_Sql = []\<rparr>"

definition first_error :: "rest_error option \<Rightarrow> rest_error option \<Rightarrow> rest_error option" where
  "first_error err e = (case err of None \<Rightarrow> e | Some x \<Rightarrow> Some x)"

fun gmap_of :: "Goroutine list \<Rightarrow> (GID \<rightharpoonup> Goroutine) \<Rightarrow> (GID \<rightharpoonup> Goroutine)" where
  "gmap_of [] m = m"
| "gmap_of (g # gs) m = gmap_of gs (m(g_GID g \<mapsto> g))"

fun graph_answer ::
  "'s transport \<Rightarrow> string \<Rightarrow> graph_request \<Rightarrow> GraphCache \<times> rest_error option \<times> ClientWithCtx \<times> 's \<Rightarrow> (GraphCache \<times> rest_error option \<times> ClientWithCtx \<times> 's) go" where
  "graph_answer T logID GetSymbols (g, err, c, s) =
     go_bind (client_Symbols T logID (c, s)) (\<lambda>(r, c, s).
     case r of
       Inl e \<Rightarrow> Inr (g\<lparr>gc_Symbols := None\<rparr>, first_error err (Some e), c, s)
     | Inr sy \<Rightarrow> Inr (g\<lparr>gc_Symbols := sy\<rparr>, err, c, s))"
| "graph_answer T logID GetCalls (g, err, c, s) =
     (case SearchFuncLogs T c logID graph_params s of
        ((fls, e), s) \<Rightarrow>
          Inr (g\<lparr>gc_Records := gc_Records g @ filter (\<lambda>fc. \<not> IsMasked (md_UI (li_Metadata (gc_LogInfo g))) fc) fls\<rparr>, first_error err e, c, s))"
| "graph_answer T logID GetGoroutines (g, err, c, s) =
     (case client_Goroutines T c logID s of
        (Inl e, s) \<Rightarrow> Inr (g, first_error err (Some e), c, s)
      | (Inr gs, s) \<Rightarrow> Inr (g\<lparr>gc_GMap := gmap_of gs Map.empty\<rparr>, err, c, s))"

fun graph_answers ::
  "'s transport \<Rightarrow> string \<Rightarrow> graph_request list \<Rightarrow> GraphCache \<times> rest_error option \<times> ClientWithCtx \<times> 's \<Rightarrow> (GraphCache \<times> rest_error option \<times> ClientWithCtx \<times> 's) go" where
  "graph_answers T logID [] st = Inr st"
| "graph_answers T logID (r # rs) st = go_bind (graph_answer T logID r st) (graph_answers T logID rs)"

definition zero_LogInfo :: LogInfo where
  "zero_LogInfo = \<lparr>li_ID = [], li_Version = 0, li_Metadata = zero_LogMetadata, li_MaxFileSize = 0, li_ReadOnly = False\<rparr>"

definition new_GraphCache :: GraphCache where
  "new_GraphCache = \<lparr>gc_LogInfo = zero_LogInfo, gc_Symbols = None, gc_Records = [], gc_GMap = Map.empty\<rparr>"

definition GraphCache_Update ::
  "'s transport \<Rightarrow> string \<Rightarrow> graph_request list \<Rightarrow> ClientWithCtx \<Rightarrow> 's \<Rightarrow> (GraphCache \<times> rest_error option \<times> 's) go" where
  "GraphCache_Update T logID ord c s =
     (case client_LogInfo T c logID s of
        (Inl e, s) \<Rightarrow> Inr (new_GraphCache, Some e, s)
      | (Inr info, s) \<Rightarrow>
          go_bind (graph_answers T logID ord (new_GraphCache\<lparr>gc_LogInfo := info\<rparr>, None, WithCtx (cl_BaseUrl c), s)) (\<lambda>(g, err, c, s).
          Inr (g, err, s)))"

subsection \<open>Positions count events\<close>

text \<open>What a call adds to the position of a time: one when it has started, two when it has ended.\<close>

definition contrib :: "FuncLog \<Rightarrow> Time \<Rightarrow> int" where
  "contrib fc t = (if IsEnded fc \<and> sint (fl_EndTime fc) < sint t then 2 else 0) +
     (if sint (fl_StartTime fc) < sint t \<and> (\<not> IsEnded fc \<or> sint t \<le> sint (fl_EndTime fc)) then 1 else 0)"

lemma calcXPos_sum: "calcXPos rs t = sum_list (map (\<lambda>fc. contrib fc t) rs)"
proof (induction rs)
  case (Cons fc rs)
  then show ?case by (simp add: calcXPos_def contrib_def)
qed (simp add: calcXPos_def)

lemma contrib_mono: "sint t \<le> sint u \<Longrightarrow> contrib fc t \<le> contrib fc u"
  by (auto simp: contrib_def)

lemma contrib_bounds: "0 \<le> contrib fc t" "contrib fc t \<le> 2"
  by (auto simp: contrib_def)

lemma calcXPos_mono: "sint t \<le> sint u \<Longrightarrow> calcXPos rs t \<le> calcXPos rs u"
  by (simp add: calcXPos_sum contrib_mono sum_list_mono)

lemma calcXPos_strict: "fc \<in> set rs \<Longrightarrow> sint t \<le> sint u \<Longrightarrow> contrib fc t < contrib fc u \<Longrightarrow> calcXPos rs t < calcXPos rs u"
proof (induction rs)
  case (Cons a rs)
  have "calcXPos (a # rs) v = contrib a v + calcXPos rs v" for v by (simp add: calcXPos_sum)
  then show ?case using Cons contrib_mono[of t u a] calcXPos_mono[of t u rs] by auto
qed simp

lemma calcXPos_bounds: "0 \<le> calcXPos rs t" "calcXPos rs t \<le> 2 * int (length rs)"
proof -
  have "0 \<le> sum_list (map (\<lambda>fc. contrib fc t) rs)" by (rule sum_list_nonneg) (auto simp: contrib_bounds(1))
  then show "0 \<le> calcXPos rs t" by (simp add: calcXPos_sum)
  show "calcXPos rs t \<le> 2 * int (length rs)"
  proof (induction rs)
    case (Cons fc rs)
    then show ?case using contrib_bounds(2)[of fc t] by (simp add: calcXPos_sum)
  qed (simp add: calcXPos_def)
qed

lemma maxTime_loop_le:
  "sint (maxTime_loop rs m) \<le> k \<longleftrightarrow> sint m \<le> k \<and> (\<forall>fc \<in> set rs. sint (fl_StartTime fc) \<le> k \<and> sint (fl_EndTime fc) \<le> k)"
proof (induction rs arbitrary: m)
  case (Cons fc rs)
  show ?case by (auto simp: Let_def Cons.IH)
qed simp

lemma maxTime_ge: "fc \<in> set rs \<Longrightarrow> sint (fl_StartTime fc) \<le> sint (maxTime rs) \<and> sint (fl_EndTime fc) \<le> sint (maxTime rs)"
  using maxTime_loop_le[of rs 0 "sint (maxTime rs)"] by (simp add: maxTime_def)

lemma maxTime_cong: "set rs = set rs' \<Longrightarrow> sint (maxTime rs) = sint (maxTime rs')"
proof -
  assume "set rs = set rs'"
  then have "sint (maxTime rs) \<le> k \<longleftrightarrow> sint (maxTime rs') \<le> k" for k by (simp add: maxTime_def maxTime_loop_le)
  then show ?thesis by (meson order.antisym order.refl)
qed

definition x_of :: "FuncLog list \<Rightarrow> FuncLog \<Rightarrow> int" where
  "x_of rs fc = calcXPos rs (fl_StartTime fc)"

definition len_of :: "FuncLog list \<Rightarrow> FuncLog \<Rightarrow> int" where
  "len_of rs fc = right_of rs fc - x_of rs fc + 1"

text \<open>An ended call takes time, and a running one is not the latest event of the log.\<close>

definition drawable :: "FuncLog list \<Rightarrow> bool" where
  "drawable rs \<longleftrightarrow> (\<forall>fc \<in> set rs. sint (fl_StartTime fc) < (if IsEnded fc then sint (fl_EndTime fc) else sint (maxTime rs)))"

lemma drawable_cong: "set rs = set rs' \<Longrightarrow> drawable rs = drawable rs'"
  using maxTime_cong[of rs rs'] by (simp add: drawable_def)

lemma drawable_left:
  assumes "drawable rs" "fc \<in> set rs"
  shows "x_of rs fc < right_of rs fc"
proof -
  let ?u = "if IsEnded fc then fl_EndTime fc else maxTime rs"
  have lt: "sint (fl_StartTime fc) < sint ?u" using assms by (auto simp: drawable_def)
  then have "contrib fc (fl_StartTime fc) < contrib fc ?u" by (auto simp: contrib_def)
  then have "calcXPos rs (fl_StartTime fc) < calcXPos rs ?u" using calcXPos_strict[OF assms(2)] lt by simp
  then show ?thesis by (auto simp: x_of_def right_of_def)
qed

lemma x_loop_ok: "\<forall>fc \<in> set fcs. x_of rs fc < right_of rs fc \<Longrightarrow> x_loop rs fcs = Inr (map (\<lambda>fc. (x_of rs fc, len_of rs fc)) fcs)"
  by (induction fcs) (auto simp: x_of_def len_of_def Let_def)

text \<open>Nested calls have nested lines, and calls that follow one another do not touch.\<close>

definition nested_in :: "FuncLog \<Rightarrow> FuncLog \<Rightarrow> bool" where
  "nested_in b a \<longleftrightarrow> sint (fl_StartTime a) \<le> sint (fl_StartTime b) \<and> (\<not> IsEnded a \<or> IsEnded b \<and> sint (fl_EndTime b) \<le> sint (fl_EndTime a))"

definition follows :: "FuncLog \<Rightarrow> FuncLog \<Rightarrow> bool" where
  "follows b a \<longleftrightarrow> IsEnded a \<and> sint (fl_EndTime a) < sint (fl_StartTime b)"

lemma x_mono: "sint (fl_StartTime a) \<le> sint (fl_StartTime b) \<Longrightarrow> x_of rs a \<le> x_of rs b"
  by (simp add: x_of_def calcXPos_mono)

lemma nested_lines:
  assumes "nested_in b a" "b \<in> set rs"
  shows "x_of rs a \<le> x_of rs b" "x_of rs b + len_of rs b \<le> x_of rs a + len_of rs a"
proof -
  show "x_of rs a \<le> x_of rs b" using assms x_mono by (simp add: nested_in_def)
  have "sint (fl_EndTime b) \<le> sint (maxTime rs)" using maxTime_ge assms(2) by blast
  then have "right_of rs b \<le> right_of rs a" using assms(1) by (auto simp: right_of_def nested_in_def intro: calcXPos_mono)
  then show "x_of rs b + len_of rs b \<le> x_of rs a + len_of rs a" by (simp add: len_of_def)
qed

lemma follows_lines:
  assumes "follows b a" "drawable rs" "a \<in> set rs"
  shows "x_of rs a + len_of rs a \<le> x_of rs b"
proof -
  have "sint (fl_StartTime a) < sint (fl_EndTime a)" using assms by (auto simp: drawable_def follows_def)
  then have "contrib a (fl_EndTime a) < contrib a (fl_StartTime b)" using assms(1) by (auto simp: contrib_def follows_def)
  then have "calcXPos rs (fl_EndTime a) < calcXPos rs (fl_StartTime b)" using calcXPos_strict[OF assms(3)] assms(1) by (simp add: follows_def)
  then show ?thesis using assms(1) by (simp add: len_of_def x_of_def right_of_def follows_def)
qed

subsection \<open>Gaps and rows\<close>

lemma gap_loop_covers:
  "gap_loop gid g xs (f0, l0, e0) = (f, l, e) \<Longrightarrow>
    f \<le> f0 \<and> l0 \<le> l \<and> (e \<longleftrightarrow> e0 \<or> (\<exists>fc x n. (fc, x, n) \<in> set xs \<and> fl_GID fc = gid)) \<and>
    (\<forall>fc x n. (fc, x, n) \<in> set xs \<longrightarrow> fl_GID fc = gid \<longrightarrow> f \<le> x \<and> x + n \<le> l)"
proof (induction xs arbitrary: f0 l0 e0)
  case (Cons p xs)
  obtain fc x n where p: "p = (fc, x, n)" by (metis surj_pair)
  show ?case
  proof (cases "fl_GID fc = gid")
    case False
    then have "gap_loop gid g xs (f0, l0, e0) = (f, l, e)" using Cons.prems p by simp
    from Cons.IH[OF this] show ?thesis using p False by fastforce
  next
    case True
    let ?f = "if x < f0 then (if sint (g_StartTime g) < sint (fl_StartTime fc) then x - 1 else x) else f0"
    let ?l = "if l0 < x + n then (if sint (fl_EndTime fc) < sint (g_EndTime g) then x + n + 1 else x + n) else l0"
    have "gap_loop gid g xs (?f, ?l, True) = (f, l, e)" using Cons.prems p True by simp
    note IH = Cons.IH[OF this]
    have "?f \<le> x" "?f \<le> f0" "x + n \<le> ?l" "l0 \<le> ?l" by auto
    then have b: "f \<le> x" "f \<le> f0" "x + n \<le> l" "l0 \<le> l" using IH by linarith+
    have e: e "\<exists>fc' x' n'. (fc', x', n') \<in> set (p # xs) \<and> fl_GID fc' = gid" using IH p True by auto
    have "f \<le> x' \<and> x' + n' \<le> l" if "(fc', x', n') \<in> set (p # xs)" "fl_GID fc' = gid" for fc' x' n'
      using that IH b p by auto
    then show ?thesis using b(2,4) e by blast
  qed
qed simp

lemma gap_sets_ok:
  assumes "set gids \<subseteq> dom gm" "\<forall>gid \<in> set gids. \<exists>fc x n. (fc, x, n) \<in> set xs \<and> fl_GID fc = gid"
  shows "\<exists>m. gap_sets gm xs gids = Inr m \<and> dom m = set gids \<and>
    (\<forall>gid f l. m gid = Some (f, l) \<longrightarrow> (\<forall>fc x n. (fc, x, n) \<in> set xs \<longrightarrow> fl_GID fc = gid \<longrightarrow> f \<le> x \<and> x + n \<le> l))"
  using assms
proof (induction gids)
  case (Cons gid gids)
  then obtain m where m: "gap_sets gm xs gids = Inr m" "dom m = set gids"
    "\<forall>gid f l. m gid = Some (f, l) \<longrightarrow> (\<forall>fc x n. (fc, x, n) \<in> set xs \<longrightarrow> fl_GID fc = gid \<longrightarrow> f \<le> x \<and> x + n \<le> l)" by auto
  obtain g where g: "gm gid = Some g" using Cons.prems(1) by auto
  obtain f l e where gl: "gap_loop gid g xs (MaxInt, MinInt, False) = (f, l, e)" by (metis surj_pair)
  note cov = gap_loop_covers[OF gl]
  then have e using Cons.prems(2) by auto
  then show ?case using m g gl cov by (auto intro!: exI[of _ "m(gid \<mapsto> (f, l))"])
qed simp

lemma gap_lines_ok:
  assumes "\<forall>gid \<in> set gids. \<exists>f l. ends gid = Some (f, l) \<and> f \<le> l"
  shows "\<exists>ls. gap_lines gidY ends gids = Inr ls \<and>
    (\<forall>gid \<in> set gids. \<forall>f l. ends gid = Some (f, l) \<longrightarrow> (\<exists>g \<in> set ls. ln_X g = f \<and> ln_X g + ln_Length g = l \<and> ln_Y g = row_of gidY gid))"
  using assms
proof (induction gids)
  case (Cons gid gids)
  then obtain ls where "gap_lines gidY ends gids = Inr ls"
    "\<forall>gid \<in> set gids. \<forall>f l. ends gid = Some (f, l) \<longrightarrow> (\<exists>g \<in> set ls. ln_X g = f \<and> ln_X g + ln_Length g = l \<and> ln_Y g = row_of gidY gid)" by auto
  moreover obtain f l where "ends gid = Some (f, l)" "f \<le> l" using Cons.prems by auto
  ultimately show ?case by auto
qed simp

lemma row_of_inj:
  assumes "distinct gids" "a \<in> set gids" "b \<in> set gids"
  shows "row_of (gid_rows gids) a = row_of (gid_rows gids) b \<longleftrightarrow> a = b"
proof -
  have at: "row_of (gid_rows gids) (gids ! i) = int i" if "i < length gids" for i
    using that map_of_zip_nth[of gids "map int [0..<length gids]" i] assms(1) by (simp add: row_of_def gid_rows_def)
  obtain i j where "i < length gids" "a = gids ! i" "j < length gids" "b = gids ! j" using assms(2,3) by (metis in_set_conv_nth)
  then show ?thesis using at assms(1) by (simp add: nth_eq_iff_index_eq)
qed

subsection \<open>Properties of the graph\<close>

text \<open>
  C21. The graph shows how calls nest. When every ended call took time, no running call is the latest event and every goroutine
  has a call, building the lines does not panic. The calls are drawn in the order of their start, each with a line of at least
  two cells; the line of a call inside of another lies inside of the line of the other, and calls that follow one another do not
  touch. Two calls are in one row exactly when they are of one goroutine, and the line of gaps of a goroutine covers all its calls.
\<close>

theorem Graph_shows_the_nesting:
  assumes "sort_Slice srt" "sort_Slice srtG" "drawable (gc_Records c)" "\<forall>gid \<in> dom (gc_GMap c). \<exists>fc \<in> set (gc_Records c). fl_GID fc = gid"
    "set ord1 = dom (gc_GMap c)" "set ord2 = dom (gc_GMap c)" "distinct ord2" "set ord3 = dom (gc_GMap c)"
  shows "\<exists>gaps rs line c'. buildLines srt srtG ord1 ord2 ord3 selected c = Inr (gaps @ map line rs, c') \<and>
    mset rs = mset (gc_Records c) \<and> sorted (map (\<lambda>fc. sint (fl_StartTime fc)) rs) \<and> (\<forall>a \<in> set rs. 2 \<le> ln_Length (line a)) \<and>
    (\<forall>a \<in> set rs. \<forall>b \<in> set rs. nested_in b a \<longrightarrow> ln_X (line a) \<le> ln_X (line b) \<and> ln_X (line b) + ln_Length (line b) \<le> ln_X (line a) + ln_Length (line a)) \<and>
    (\<forall>a \<in> set rs. \<forall>b \<in> set rs. follows b a \<longrightarrow> ln_X (line a) + ln_Length (line a) \<le> ln_X (line b)) \<and>
    (\<forall>a \<in> set rs. fl_GID a \<in> dom (gc_GMap c) \<longrightarrow>
      (\<forall>b \<in> set rs. fl_GID b \<in> dom (gc_GMap c) \<longrightarrow> (ln_Y (line a) = ln_Y (line b) \<longleftrightarrow> fl_GID a = fl_GID b)) \<and>
      (\<exists>g \<in> set gaps. ln_Y g = ln_Y (line a) \<and> ln_X g \<le> ln_X (line a) \<and> ln_X (line a) + ln_Length (line a) \<le> ln_X g + ln_Length g))"
proof -
  have key: "(\<lambda>a b. Inr (sint (fl_StartTime b) < sint (fl_StartTime a))) = by_key (\<lambda>fc. - sint (fl_StartTime fc))"
    "(\<lambda>a b. Inr (sint a < sint b)) = by_key (\<lambda>g :: GID. sint g)" by (auto simp: by_key_def fun_eq_iff)
  obtain rs where rs: "srt (by_key (\<lambda>fc. - sint (fl_StartTime fc))) (gc_Records c) = Inr rs" "mset rs = mset (gc_Records c)"
    "sorted (map (\<lambda>fc. - sint (fl_StartTime fc)) rs)" using assms(1) unfolding sort_Slice_def by blast
  obtain gids where gs: "srtG (by_key (\<lambda>g :: GID. sint g)) ord2 = Inr gids" "mset gids = mset ord2" using assms(2) unfolding sort_Slice_def by blast
  have set_rs: "set rs = set (gc_Records c)" by (metis rs(2) set_mset_mset)
  have gset: "set gids = dom (gc_GMap c)" "distinct gids" using gs(2) assms(6,7) by (metis set_mset_mset, metis mset_eq_imp_distinct_iff)
  have dr: "drawable rs" using assms(3) drawable_cong[OF set_rs] by simp
  let ?f = "\<lambda>fc. (x_of rs fc, len_of rs fc)"
  let ?xs = "zip rs (map ?f rs)"
  have xs: "x_loop rs rs = Inr (map ?f rs)" using x_loop_ok[of rs rs] drawable_left[OF dr] by blast
  have zs: "?xs = map (\<lambda>fc. (fc, ?f fc)) rs" by (simp add: zip_map2 zip_same_conv_map)
  have len: "2 \<le> len_of rs a" if "a \<in> set rs" for a using drawable_left[OF dr that] by (simp add: len_of_def)
  have "\<forall>gid \<in> set ord1. \<exists>fc x n. (fc, x, n) \<in> set ?xs \<and> fl_GID fc = gid" using assms(4,5) set_rs by (auto simp: zs image_iff)
  with gap_sets_ok[of ord1 "gc_GMap c" ?xs] assms(5) obtain ends where ends: "gap_sets (gc_GMap c) ?xs ord1 = Inr ends" "dom ends = dom (gc_GMap c)"
    "\<And>gid f l fc x n. ends gid = Some (f, l) \<Longrightarrow> (fc, x, n) \<in> set ?xs \<Longrightarrow> fl_GID fc = gid \<Longrightarrow> f \<le> x \<and> x + n \<le> l" by auto
  have cov: "f \<le> x_of rs a \<and> x_of rs a + len_of rs a \<le> l" if "ends (fl_GID a) = Some (f, l)" "a \<in> set rs" for a f l
    using ends(3)[OF that(1), of a "x_of rs a" "len_of rs a"] that(2) by (auto simp: zs)
  have "\<exists>f l. ends gid = Some (f, l) \<and> f \<le> l" if "gid \<in> set ord3" for gid
  proof -
    have d: "gid \<in> dom (gc_GMap c)" using that assms(8) by simp
    from bspec[OF assms(4) d] obtain a where a: "a \<in> set rs" "fl_GID a = gid" unfolding set_rs by (rule bexE)
    obtain f l where "ends gid = Some (f, l)" using d unfolding ends(2)[symmetric] by auto
    then show ?thesis using cov[of a f l] a len[of a] by auto
  qed
  then obtain gaps where gaps: "gap_lines (gid_rows gids) ends ord3 = Inr gaps"
    "\<And>gid f l. gid \<in> set ord3 \<Longrightarrow> ends gid = Some (f, l) \<Longrightarrow> \<exists>g \<in> set gaps. ln_X g = f \<and> ln_X g + ln_Length g = l \<and> ln_Y g = row_of (gid_rows gids) gid"
    using gap_lines_ok[of ord3 ends "gid_rows gids"] by blast
  let ?line = "\<lambda>fc. call_line (md_UI (li_Metadata (gc_LogInfo c))) selected (gid_rows gids) (fc, ?f fc)"
  have line: "ln_X (?line fc) = x_of rs fc" "ln_Length (?line fc) = len_of rs fc" "ln_Y (?line fc) = row_of (gid_rows gids) (fl_GID fc)" for fc
    by (simp_all add: call_line_def)
  have run: "buildLines srt srtG ord1 ord2 ord3 selected c = Inr (gaps @ map ?line (rev rs), c\<lparr>gc_Records := rs\<rparr>)"
    using rs(1) xs ends(1) gs(1) gaps(1) by (simp add: buildLines_def key zs rev_map comp_def)
  have "sorted (map (\<lambda>fc. sint (fl_StartTime fc)) (rev rs))" using rs(3) by (simp add: sorted_wrt_map sorted_wrt_rev)
  moreover have "\<exists>g \<in> set gaps. ln_Y g = ln_Y (?line a) \<and> ln_X g \<le> ln_X (?line a) \<and> ln_X (?line a) + ln_Length (?line a) \<le> ln_X g + ln_Length g"
    if a: "a \<in> set rs" "fl_GID a \<in> dom (gc_GMap c)" for a
  proof -
    obtain f l where fl: "ends (fl_GID a) = Some (f, l)" using a(2) unfolding ends(2)[symmetric] by auto
    then show ?thesis using gaps(2)[of "fl_GID a" f l] cov[OF fl a(1)] a(2) assms(8) by (auto simp: line)
  qed
  moreover have "ln_Y (?line a) = ln_Y (?line b) \<longleftrightarrow> fl_GID a = fl_GID b" if "fl_GID a \<in> dom (gc_GMap c)" "fl_GID b \<in> dom (gc_GMap c)" for a b
    using row_of_inj[OF gset(2)] that gset(1) by (simp add: line)
  ultimately show ?thesis using rs(2) len nested_lines follows_lines[OF _ dr]
    by (intro exI[of _ gaps] exI[of _ "rev rs"] exI[of _ ?line] exI[of _ "c\<lparr>gc_Records := rs\<rparr>"]) (simp add: run line(1,2) del: map_map)
qed

lemma x_loop_panics: "\<exists>fc \<in> set fcs. right_of rs fc \<le> x_of rs fc \<Longrightarrow> x_loop rs fcs = Inl (Panic ''bug'')"
proof (induction fcs)
  case (Cons a fcs)
  then show ?case by (cases "right_of rs a \<le> x_of rs a") (auto simp: x_of_def Let_def)
qed simp

text \<open>
  C24. A call that is still running and whose start is the latest event of the log makes the viewer panic: its line would have no length. This is so for the
  first call of every program until another event comes.
\<close>

theorem Latest_running_call_panics:
  assumes "sort_Slice srt" "fc \<in> set (gc_Records c)" "\<not> IsEnded fc" "sint (maxTime (gc_Records c)) \<le> sint (fl_StartTime fc)"
  shows "buildLines srt srtG ord1 ord2 ord3 selected c = Inl (Panic ''bug'')"
proof -
  have key: "(\<lambda>a b. Inr (sint (fl_StartTime b) < sint (fl_StartTime a))) = by_key (\<lambda>fc. - sint (fl_StartTime fc))" by (auto simp: by_key_def fun_eq_iff)
  obtain rs where rs: "srt (by_key (\<lambda>fc. - sint (fl_StartTime fc))) (gc_Records c) = Inr rs" "mset rs = mset (gc_Records c)"
    using assms(1) unfolding sort_Slice_def by blast
  have set_rs: "set rs = set (gc_Records c)" by (metis rs(2) set_mset_mset)
  have "right_of rs fc \<le> x_of rs fc" using assms(3,4) maxTime_cong[OF set_rs] by (simp add: right_of_def x_of_def calcXPos_mono)
  then have "x_loop rs rs = Inl (Panic ''bug'')" using x_loop_panics assms(2) set_rs by blast
  then show ?thesis using rs(1) by (simp add: buildLines_def key)
qed

definition sample_call :: "FuncLogID \<Rightarrow> Time \<Rightarrow> Time \<Rightarrow> FuncLog" where
  "sample_call i a b = \<lparr>fl_ID = i, fl_StartTime = a, fl_EndTime = b, fl_ParentID = - 1, fl_Frames = [100], fl_GID = 1\<rparr>"

definition sample_cache :: "FuncLog list \<Rightarrow> GraphCache" where
  "sample_cache rs = new_GraphCache\<lparr>gc_Records := rs, gc_GMap := [1 \<mapsto> \<lparr>g_GID = 1, g_StartTime = 5, g_EndTime = 50\<rparr>]\<rparr>"

theorem Latest_running_call_panics_witness:
  "buildLines insertion_sort insertion_sort [1] [1] [1] 0 (sample_cache [sample_call 1 10 20, sample_call 2 30 NotEnded]) = Inl (Panic ''bug'')"
  by (rule Latest_running_call_panics[OF insertion_sort_ok, of "sample_call 2 30 NotEnded"])
    (simp_all add: sample_cache_def sample_call_def new_GraphCache_def IsEnded_def NotEnded_def maxTime_def Let_def)

theorem Graph_shows_the_nesting_witness:
  "\<exists>gaps rs line c'. buildLines insertion_sort insertion_sort [1] [1] [1] 0 (sample_cache [sample_call 1 10 NotEnded, sample_call 2 20 40]) = Inr (gaps @ map line rs, c') \<and>
    mset rs = {#sample_call 1 10 NotEnded, sample_call 2 20 40#} \<and>
    ln_X (line (sample_call 1 10 NotEnded)) \<le> ln_X (line (sample_call 2 20 40)) \<and>
    ln_X (line (sample_call 2 20 40)) + ln_Length (line (sample_call 2 20 40)) \<le> ln_X (line (sample_call 1 10 NotEnded)) + ln_Length (line (sample_call 1 10 NotEnded))"
proof -
  let ?a = "sample_call 1 10 NotEnded" and ?b = "sample_call 2 20 40"
  let ?rs = "[?a, ?b]"
  have d: "drawable (gc_Records (sample_cache ?rs))"
    by (simp add: drawable_def sample_cache_def new_GraphCache_def sample_call_def IsEnded_def NotEnded_def maxTime_def Let_def)
  have dom: "dom (gc_GMap (sample_cache ?rs)) = {1}" and recs: "gc_Records (sample_cache ?rs) = ?rs" and gid: "fl_GID ?a = 1"
    by (simp_all add: sample_cache_def new_GraphCache_def sample_call_def)
  have in_ab: "nested_in ?b ?a" by (simp add: nested_in_def sample_call_def IsEnded_def NotEnded_def)
  obtain gaps rs line c' where r: "buildLines insertion_sort insertion_sort [1] [1] [1] 0 (sample_cache ?rs) = Inr (gaps @ map line rs, c')" "mset rs = mset ?rs"
    "\<forall>a \<in> set rs. \<forall>b \<in> set rs. nested_in b a \<longrightarrow> ln_X (line a) \<le> ln_X (line b) \<and> ln_X (line b) + ln_Length (line b) \<le> ln_X (line a) + ln_Length (line a)"
    using Graph_shows_the_nesting[OF insertion_sort_ok insertion_sort_ok d, of "[1]" "[1]" "[1]" 0] gid by (auto simp: dom recs)
  have "set rs = set ?rs" by (metis r(2) set_mset_mset)
  then show ?thesis using r in_ab by (intro exI[of _ gaps] exI[of _ rs] exI[of _ line] exI[of _ c']) simp
qed

subsection \<open>What is painted\<close>

text \<open>The runes on the screen; later ones overwrite.\<close>

fun painted :: "paint list \<Rightarrow> (int \<times> int \<rightharpoonup> rune) \<Rightarrow> (int \<times> int \<rightharpoonup> rune)" where
  "painted [] m = m"
| "painted (DrawRune x y r # ps) m = painted ps (m((x, y) \<mapsto> r))"
| "painted (WithStyle s qs # ps) m = painted ps (painted qs m)"
| "painted (Translate dx dy # ps) m = painted ps m"
| "painted (Restore # ps) m = painted ps m"

lemma draw_loop_cells:
  "j + 1 \<le> ln_Length l \<Longrightarrow> draw_loop og sz l dx dy j x y =
    (map (\<lambda>i. drawRune og sz (x + i * dx) (y + i * dy) (LineType_Rune (ln_Type l))) [1..ln_Length l - 1 - j],
     x + (ln_Length l - 1 - j) * dx, y + (ln_Length l - 1 - j) * dy)"
proof (induction "nat (ln_Length l - j)" arbitrary: j x y)
  case (Suc n)
  let ?r = "LineType_Rune (ln_Type l)"
  show ?case
  proof (cases "ln_Length l \<le> j + 1")
    case False
    let ?k = "ln_Length l - 1 - (j + 1)"
    have IH: "draw_loop og sz l dx dy (j + 1) (x + dx) (y + dy) =
      (map (\<lambda>i. drawRune og sz (x + dx + i * dx) (y + dy + i * dy) ?r) [1..?k], x + dx + ?k * dx, y + dy + ?k * dy)"
      using Suc.hyps(1)[of "j + 1" "x + dx" "y + dy"] Suc.hyps(2) False by simp
    have up: "[1..ln_Length l - 1 - j] = 1 # map (\<lambda>i. i + 1) [1..?k]"
    proof -
      have "[1..ln_Length l - 1 - j] = 1 # [1 + 1..?k + 1]" using False by (simp add: upto_rec1 algebra_simps)
      also have "[1 + 1..?k + 1] = map (\<lambda>i. i + 1) [1..?k]" by (rule nth_equalityI) auto
      finally show ?thesis .
    qed
    have "draw_loop og sz l dx dy j x y =
      (case draw_loop og sz l dx dy (j + 1) (x + dx) (y + dy) of (ps, p) \<Rightarrow> (drawRune og sz (x + dx) (y + dy) ?r # ps, p))"
      using False by (subst draw_loop.simps) (simp add: Let_def)
    then show ?thesis unfolding IH up by (simp add: comp_def algebra_simps)
  qed (use Suc.prems in \<open>subst draw_loop.simps, simp\<close>)
qed simp

text \<open>The cells of a line, and the rune each shows.\<close>

definition line_cell :: "Origin \<Rightarrow> int \<times> int \<Rightarrow> Line \<Rightarrow> int \<Rightarrow> int \<times> int" where
  "line_cell og sz l i = place og sz (case ln_Type l of HorizontalLine \<Rightarrow> (ln_X l + i, ln_Y l) | VerticalLine \<Rightarrow> (ln_X l, ln_Y l + i))"

definition line_rune :: "Line \<Rightarrow> int \<Rightarrow> rune" where
  "line_rune l i =
     (if i = ln_Length l - 1 then LineTermination_Rune (ln_EndDeco l) (LineType_Rune (ln_Type l))
      else if i = 0 then LineTermination_Rune (ln_StartDeco l) (LineType_Rune (ln_Type l)) else LineType_Rune (ln_Type l))"

lemma line_cell_inj: "line_cell og sz l i = line_cell og sz l j \<longleftrightarrow> i = j"
  by (cases sz; cases og; cases "ln_Type l") (auto simp: line_cell_def)

lemma painted_append: "painted (ps @ qs) m = painted qs (painted ps m)"
proof (induction ps arbitrary: m)
  case (Cons p ps)
  then show ?case by (cases p) (simp_all only: append_Cons painted.simps)
qed simp

definition cell_paint :: "Origin \<Rightarrow> int \<times> int \<Rightarrow> Line \<Rightarrow> rune \<Rightarrow> int \<Rightarrow> paint" where
  "cell_paint og sz l r i = (case line_cell og sz l i of (x, y) \<Rightarrow> DrawRune x y r)"

lemma painted_cell: "painted [cell_paint og sz l r i] m = m(line_cell og sz l i \<mapsto> r)"
  by (simp add: cell_paint_def split: prod.splits)

lemma painted_cells: "painted (map (cell_paint og sz l r) ks) m q = (if q \<in> line_cell og sz l ` set ks then Some r else m q)"
proof (induction ks arbitrary: m)
  case (Cons k ks)
  have "painted (map (cell_paint og sz l r) (k # ks)) m = painted (map (cell_paint og sz l r) ks) (m(line_cell og sz l k \<mapsto> r))"
    using painted_append[of "[cell_paint og sz l r k]"] by (simp add: painted_cell)
  then show ?case by (simp add: Cons.IH)
qed simp

lemma drawLine_cells:
  assumes "1 \<le> ln_Length l"
  shows "drawLine sz v l = cell_paint (gw_origin v) sz l (LineTermination_Rune (ln_StartDeco l) (LineType_Rune (ln_Type l))) 0 #
    map (cell_paint (gw_origin v) sz l (LineType_Rune (ln_Type l))) [1..ln_Length l - 1] @
    [cell_paint (gw_origin v) sz l (LineTermination_Rune (ln_EndDeco l) (LineType_Rune (ln_Type l))) (ln_Length l - 1)]"
proof -
  have p: "drawRune og sz (ln_X l + i * (case ln_Type l of HorizontalLine \<Rightarrow> 1 | VerticalLine \<Rightarrow> 0))
      (ln_Y l + i * (case ln_Type l of HorizontalLine \<Rightarrow> 0 | VerticalLine \<Rightarrow> 1)) r = cell_paint og sz l r i" for og r i
    by (cases "ln_Type l") (simp_all add: drawRune_def cell_paint_def line_cell_def)
  have z: "drawRune og sz (ln_X l) (ln_Y l) r = cell_paint og sz l r 0" for og r using p[of og 0 r] by simp
  show ?thesis using assms p z draw_loop_cells[of 0 l]
    by (cases "ln_Type l") (simp_all add: drawLine_def)
qed

text \<open>
  A line shows its cells: its two ends decorated, the rest as the line, wherever the origin of the surface is; a
  line of one cell shows the decoration of its end. Nothing else is painted.
\<close>

lemma Line_is_painted:
  assumes "1 \<le> ln_Length l"
  shows "0 \<le> i \<Longrightarrow> i < ln_Length l \<Longrightarrow> painted (drawLine sz v l) m (line_cell (gw_origin v) sz l i) = Some (line_rune l i)"
    "\<forall>i. 0 \<le> i \<longrightarrow> i < ln_Length l \<longrightarrow> q \<noteq> line_cell (gw_origin v) sz l i \<Longrightarrow> painted (drawLine sz v l) m q = m q"
proof -
  let ?c = "line_cell (gw_origin v) sz l" and ?R = "LineType_Rune (ln_Type l)"
  have "painted (drawLine sz v l) m = (painted (map (cell_paint (gw_origin v) sz l ?R) [1..ln_Length l - 1])
      (m(?c 0 \<mapsto> LineTermination_Rune (ln_StartDeco l) ?R)))(?c (ln_Length l - 1) \<mapsto> LineTermination_Rune (ln_EndDeco l) ?R)"
    using painted_append[of "[cell_paint (gw_origin v) sz l (LineTermination_Rune (ln_StartDeco l) ?R) 0]" "map (cell_paint (gw_origin v) sz l ?R) [1..ln_Length l - 1] @ [cell_paint (gw_origin v) sz l (LineTermination_Rune (ln_EndDeco l) ?R) (ln_Length l - 1)]"]
    unfolding drawLine_cells[OF assms] by (simp add: painted_append painted_cell)
  note eq = this
  show "0 \<le> i \<Longrightarrow> i < ln_Length l \<Longrightarrow> painted (drawLine sz v l) m (?c i) = Some (line_rune l i)"
    by (auto simp: eq painted_cells line_cell_inj line_rune_def image_iff)
  show "\<forall>i. 0 \<le> i \<longrightarrow> i < ln_Length l \<longrightarrow> q \<noteq> ?c i \<Longrightarrow> painted (drawLine sz v l) m q = m q"
    using assms by (auto simp: eq painted_cells image_iff)
qed

text \<open>Scrolling: offsets stay at or above of the origin, and so does the position that automatic scrolling takes.\<close>

lemma UpdateOffset_nonpos: "UpdateOffset dx dy p = (x, y) \<Longrightarrow> x \<le> 0 \<and> y \<le> 0"
  by (cases p) (auto simp: UpdateOffset_def split: if_splits)

lemma scroll_pos_nonpos:
  "fst (sw_p1 w) \<le> 0 \<Longrightarrow> snd (sw_p1 w) \<le> 0 \<Longrightarrow> scroll_pos sz w = (x, y) \<Longrightarrow> x \<le> 0 \<and> y \<le> 0"
  by (auto simp: scroll_pos_def Let_def split: if_splits)

text \<open>
  The size hint has the columns of every line, but its height is the row of the last line, which itself is outside of it.
\<close>

lemma hint_loop_covers:
  "hint_loop ls (sx, sy) = (hx, hy) \<Longrightarrow> sx \<le> hx \<and> sy \<le> hy \<and> (\<forall>l \<in> set ls. ln_X l + ln_Length l \<le> hx \<and> ln_Y l \<le> hy)"
proof (induction ls arbitrary: sx sy)
  case (Cons l ls)
  let ?x = "if sx < ln_X l + ln_Length l then ln_X l + ln_Length l else sx" and ?y = "if sy < ln_Y l then ln_Y l else sy"
  have "hint_loop ls (?x, ?y) = (hx, hy)" using Cons.prems by (simp add: Let_def)
  from Cons.IH[OF this] show ?case by (auto split: if_splits)
qed simp

end
