(* ===== verification/Viewer.thy ===== *)
theory Viewer
  imports Graph
begin

section \<open>Viewer: the screens of the terminal interface (\<open>logviewer\<close>)\<close>

text \<open>
  The viewer shows one of four screens: the logs, the calls of a log, a call, the graph of a log. Each has a view model, which is updated from the
  server, and a view, which is a snapshot of the state of its model. The coordinator replaces the model when the user navigates.
  A worker that updates a model changes its state and tells the coordinator in one step here (\<open>ui_update\<close>); in the code the user can
  act between the two, and then sees the change with the notification only.

  The widgets of the library are inert descriptions here. A table of the library decides itself which of its rows is selected:
  what it answers is an argument of the events below.
\<close>

subsection \<open>Tables with a header (\<open>headertable.go\<close>)\<close>

datatype widget =
    Spacer
  | Label string
  | StyledLabel string string
  | StatusBar string string
  | ErrorMsg rest_error
  | TableWidget "table_op list"
  | GraphArea ScrollWidget
  | VBox "widget list"
and table_op = OpAppendRow "widget list" | OpSelect int | OpRemoveRow int | OpRemoveRows

text \<open>What has been asked of the table of the library, in order, and the number of rows below the header.\<close>

record headerTable =
  ht_ops :: "table_op list"
  ht_Headers :: "widget list"
  ht_rows :: int

definition ht_do :: "table_op \<Rightarrow> headerTable \<Rightarrow> headerTable" where
  "ht_do op t = t\<lparr>ht_ops := ht_ops t @ [op]\<rparr>"

definition newHeaderTable :: "widget list \<Rightarrow> headerTable" where
  "newHeaderTable headers = \<lparr>ht_ops = [OpAppendRow headers, OpSelect (- 1)], ht_Headers = headers, ht_rows = 0\<rparr>"

text \<open>The library reports a selection: the header is never selected. \<open>True\<close>: the handler of the user is called.\<close>

definition ht_changed :: "int \<Rightarrow> headerTable \<Rightarrow> headerTable \<times> bool" where
  "ht_changed selected t =
     (if ht_rows t = 0 \<and> selected = 0 then (ht_do (OpSelect (- 1)) t, False)
      else if 0 < ht_rows t \<and> selected \<le> 0 then (ht_do (OpSelect 1) t, False)
      else (t, True))"

definition ht_Select :: "int \<Rightarrow> headerTable \<Rightarrow> headerTable" where
  "ht_Select i t = (if ht_rows t \<le> 1 then ht_do (OpSelect (- 1)) t else if i < 1 then ht_do (OpSelect 1) t else ht_do (OpSelect i) t)"

definition ht_AppendRow :: "widget list \<Rightarrow> headerTable \<Rightarrow> headerTable" where
  "ht_AppendRow row t = (ht_do (OpAppendRow row) t)\<lparr>ht_rows := ht_rows t + 1\<rparr>"

definition ht_RemoveRow :: "int \<Rightarrow> headerTable \<Rightarrow> headerTable" where
  "ht_RemoveRow index t =
     (if index = 0 then t
      else let t = (ht_do (OpRemoveRow index) t)\<lparr>ht_rows := ht_rows t - 1\<rparr> in
           if ht_rows t \<le> 1 then ht_do (OpSelect (- 1)) t else t)"

definition ht_RemoveRows :: "headerTable \<Rightarrow> headerTable" where
  "ht_RemoveRows t = (let t = (ht_do OpRemoveRows t)\<lparr>ht_rows := 0\<rparr> in ht_AppendRow (ht_Headers t) t)"

subsection \<open>States of the screens\<close>

datatype LLState = LLLoadingState | LLWait | LLSelectedState
datatype LRState = LRLoadingState | LRWait | LRSelectedState
datatype FCDState = FCDLoading | FCDWait
datatype GState = GLoading | GWait

record LogListState =
  ll_State :: LLState
  ll_Error :: "rest_error option"
  ll_Logs :: "LogInfo list"
  ll_SelectedID :: string

record LogRecordState =
  lr_State :: LRState
  lr_Error :: "rest_error option"
  lr_Records :: "FuncLog list"
  lr_SelectedID :: FuncLogID
  lr_Symbols :: "Symbols option"

record FuncLogDetailState =
  fd_State :: FCDState
  fd_Error :: "rest_error option"
  fd_Record :: FuncLog
  fd_Mods :: "GoModule list"
  fd_Funcs :: "GoFunc list"
  fd_Lines :: "GoLine list"

record GraphState =
  gs_State :: GState
  gs_Error :: "rest_error option"
  gs_Lines :: "Line list"
  gs_Selected :: FuncLogID
  gs_ScrollMode :: ScrollMode
  gs_Offset :: "int \<times> int"
  gs_ScrollSpeed :: "int \<times> int"

definition new_LogListState :: LogListState where
  "new_LogListState = \<lparr>ll_State = LLLoadingState, ll_Error = None, ll_Logs = [], ll_SelectedID = []\<rparr>"

definition new_LogRecordState :: LogRecordState where
  "new_LogRecordState = \<lparr>lr_State = LRLoadingState, lr_Error = None, lr_Records = [], lr_SelectedID = 0, lr_Symbols = None\<rparr>"

definition zero_FuncLog :: FuncLog where
  "zero_FuncLog = \<lparr>fl_ID = 0, fl_StartTime = 0, fl_EndTime = 0, fl_ParentID = 0, fl_Frames = [], fl_GID = 0\<rparr>"

definition new_FuncLogDetailState :: FuncLogDetailState where
  "new_FuncLogDetailState =
     \<lparr>fd_State = FCDLoading, fd_Error = None, fd_Record = zero_FuncLog, fd_Mods = [], fd_Funcs = [], fd_Lines = []\<rparr>"

definition new_GraphState :: GraphState where
  "new_GraphState = \<lparr>gs_State = GLoading, gs_Error = None, gs_Lines = [], gs_Selected = 0, gs_ScrollMode = ManualScrollMode,
     gs_Offset = (0, 0), gs_ScrollSpeed = (0, 0)\<rparr>"

subsection \<open>What the views show\<close>

definition newStatusBar :: "string \<Rightarrow> string \<Rightarrow> widget" where
  "newStatusBar perm t = StatusBar perm t"

text \<open>The list of logs; \<open>tstr\<close> formats a time.\<close>

definition log_row :: "(instant \<Rightarrow> string) \<Rightarrow> LogInfo \<Rightarrow> widget list" where
  "log_row tstr l =
     [if li_ReadOnly l then StyledLabel ''status-stopped'' [] else StyledLabel ''status-running'' ''Running'',
      Label (li_ID l), Label (tstr (md_Timestamp (li_Metadata l)))]"

fun select_log :: "string \<Rightarrow> nat \<Rightarrow> LogInfo list \<Rightarrow> headerTable \<Rightarrow> headerTable" where
  "select_log sel i [] t = t"
| "select_log sel i (l # ls) t = (if li_ID l = sel then ht_Select (int i + 1) t else select_log sel (Suc i) ls t)"

definition newLogTable :: "(instant \<Rightarrow> string) \<Rightarrow> LogListState \<Rightarrow> headerTable" where
  "newLogTable tstr v =
     (let t = fold (\<lambda>l. ht_AppendRow (log_row tstr l)) (ll_Logs v) (newHeaderTable [Label ''Status'', Label ''LogID'', Label ''Timestamp''])
      in if ll_SelectedID v \<noteq> [] then select_log (ll_SelectedID v) 0 (ll_Logs v) t else t)"

text \<open>A view gives its widget, and its table when it has one.\<close>

definition LogListView_init :: "(instant \<Rightarrow> string) \<Rightarrow> LogListState \<Rightarrow> (widget \<times> headerTable option) go" where
  "LogListView_init tstr v =
     (let bar = newStatusBar ''Log List'' in
      case ll_State v of
        LLLoadingState \<Rightarrow> Inr (VBox [Spacer, bar ''Loading ...''], None)
      | LLWait \<Rightarrow>
          (case ll_Error v of
             Some e \<Rightarrow> Inr (VBox [ErrorMsg e, Spacer, bar ''Error''], None)
           | None \<Rightarrow> let t = newLogTable tstr v in Inr (VBox [TableWidget (ht_ops t), Spacer, bar []], Some t))
      | LLSelectedState \<Rightarrow> Inr (Spacer, None))"

text \<open>The calls: at most \<open>maxTableRecords\<close> rows.\<close>

definition maxTableRecords :: nat where "maxTableRecords = 1000"

definition FileLine_ptr :: "Symbols option \<Rightarrow> uintptr \<Rightarrow> string go" where
  "FileLine_ptr p pc = go_bind (deref p) (\<lambda>sy. Symbols_FileLine sy pc)"

fun record_rows :: "(Time \<Rightarrow> string) \<Rightarrow> Symbols option \<Rightarrow> FuncLog list \<Rightarrow> headerTable \<Rightarrow> headerTable go" where
  "record_rows tstr sy [] t = Inr t"
| "record_rows tstr sy (fc # fcs) t =
     (case fl_Frames fc of
        [] \<Rightarrow> Inl IndexOutOfRange
      | pc # _ \<Rightarrow>
          go_bind (FileLine_ptr sy pc) (\<lambda>line.
          record_rows tstr sy fcs (ht_AppendRow
            [Label (tstr (fl_StartTime fc)), Label (Time_NumberString (fl_EndTime fc - fl_StartTime fc)), Label (GID_String (fl_GID fc)), Label line] t)))"

fun select_record :: "FuncLogID \<Rightarrow> nat \<Rightarrow> FuncLog list \<Rightarrow> headerTable \<Rightarrow> headerTable" where
  "select_record sel i [] t = t"
| "select_record sel i (fc # fcs) t = (if fl_ID fc = sel then ht_Select (int i + 1) t else select_record sel (Suc i) fcs t)"

definition newRecordTable :: "(Time \<Rightarrow> string) \<Rightarrow> LogRecordState \<Rightarrow> headerTable go" where
  "newRecordTable tstr v =
     (let records = take maxTableRecords (lr_Records v) in
      go_bind (record_rows tstr (lr_Symbols v) records
        (newHeaderTable [Label ''StartTime'', Label ''ExecTime (ns)'', Label ''GID'', Label ''Module.Func:Line''])) (\<lambda>t.
      Inr (select_record (lr_SelectedID v) 0 records t)))"

definition LogRecordView_init :: "(Time \<Rightarrow> string) \<Rightarrow> LogRecordState \<Rightarrow> (widget \<times> headerTable option) go" where
  "LogRecordView_init tstr v =
     (let bar = newStatusBar ''Function Call Logs'' in
      case lr_State v of
        LRLoadingState \<Rightarrow> Inr (VBox [Spacer, bar ''Loading ...''], None)
      | LRWait \<Rightarrow>
          (case lr_Error v of
             Some e \<Rightarrow> Inr (VBox [ErrorMsg e, Spacer, bar ''Error''], None)
           | None \<Rightarrow> go_bind (newRecordTable tstr v) (\<lambda>t. Inr (VBox [TableWidget (ht_ops t), Spacer, bar []], Some t)))
      | LRSelectedState \<Rightarrow> Inr (Spacer, None))"

text \<open>A call with its stack.\<close>

fun detail_rows :: "FuncLogDetailState \<Rightarrow> nat \<Rightarrow> uintptr list \<Rightarrow> headerTable \<Rightarrow> headerTable go" where
  "detail_rows v i [] t = Inr t"
| "detail_rows v i (pc # pcs) t =
     (if i < length (fd_Funcs v) \<and> i < length (fd_Lines v)
      then detail_rows v (Suc i) pcs (ht_AppendRow
        [Label (gf_Name (fd_Funcs v ! i)), Label (FormatUint (ucast (gl_Line (fd_Lines v ! i)))), Label (''('' @ FormatUint pc @ '')'')] t)
      else Inl IndexOutOfRange)"

definition newGoFuncTable :: "FuncLogDetailState \<Rightarrow> headerTable" where
  "newGoFuncTable v = ht_AppendRow [Label ''GID'', Label (FormatInt (fl_GID (fd_Record v)))] (newHeaderTable [Label ''Name'', Label ''Value''])"

definition newFramesTable :: "FuncLogDetailState \<Rightarrow> headerTable go" where
  "newFramesTable v = detail_rows v 0 (fl_Frames (fd_Record v)) (newHeaderTable [Label ''Name'', Label ''Line'', Label ''PC''])"

definition FuncLogDetailView_init :: "FuncLogDetailState \<Rightarrow> (widget \<times> headerTable option) go" where
  "FuncLogDetailView_init v =
     (let bar = newStatusBar ''Function Call Detail'' in
      case fd_State v of
        FCDLoading \<Rightarrow> Inr (VBox [Spacer, bar ''Loading ...''], None)
      | FCDWait \<Rightarrow>
          (case fd_Error v of
             Some e \<Rightarrow> Inr (VBox [ErrorMsg e, Spacer, bar ''Error''], None)
           | None \<Rightarrow>
               go_bind (newFramesTable v) (\<lambda>t.
               let fcInfo = VBox [Label ''Func Info:'', TableWidget (ht_ops (newGoFuncTable v))];
                   framesInfo = VBox [Label ''Call Stack:'', TableWidget (ht_ops t)]
               in Inr (VBox [fcInfo, Label [], framesInfo, Spacer, bar []], None))))"

text \<open>The graph.\<close>

definition GraphView_init :: "GraphState \<Rightarrow> (widget \<times> headerTable option) go" where
  "GraphView_init v =
     (let bar = newStatusBar ''Function Call History'' in
      case gs_State v of
        GLoading \<Rightarrow> Inr (VBox [Spacer, bar ''Loading ...''], None)
      | GWait \<Rightarrow>
          (case gs_Error v of
             Some e \<Rightarrow> Inr (VBox [ErrorMsg e, Spacer, bar ''Error''], None)
           | None \<Rightarrow>
               (case gs_Offset v of
                  (ox, oy) \<Rightarrow>
                    let w = sw_Scroll ox oy \<lparr>sw_widget = SetLines (gs_Lines v) newGraphWidget, sw_p1 = (0, 0), sw_autoscrollX = False, sw_autoscrollY = False\<rparr>
                    in (case gs_ScrollMode v of
                          ManualScrollMode \<Rightarrow> Inr (VBox [GraphArea w, bar (FormatInt (word_of_int ox) @ ''x'' @ FormatInt (word_of_int oy))], None)
                        | AutoScrollMode \<Rightarrow> Inr (VBox [GraphArea (sw_AutoScroll True False w), bar []], None)))))"

definition defaultScrollSpeed :: "int \<times> int" where "defaultScrollSpeed = (10, 10)"

definition scrollSpeed :: "GraphState \<Rightarrow> int \<times> int" where
  "scrollSpeed v = (if gs_ScrollSpeed v = (0, 0) then defaultScrollSpeed else gs_ScrollSpeed v)"

subsection \<open>View models\<close>

text \<open>A model keeps the view it has made last until its state changes; \<open>None\<close> is the nil pointer.\<close>

record LogListVM =
  lv_Client :: ClientWithCtx
  lv_state :: LogListState
  lv_view :: "LogListState option"

record LogRecordVM =
  rv_Client :: ClientWithCtx
  rv_LogID :: string
  rv_state :: LogRecordState
  rv_view :: "LogRecordState option"

record FuncLogDetailVM =
  dv_Client :: ClientWithCtx
  dv_LogID :: string
  dv_Record :: FuncLog
  dv_state :: FuncLogDetailState
  dv_view :: "FuncLogDetailState option"
  dv_updated :: bool

record GraphVM =
  gv_Client :: ClientWithCtx
  gv_LogID :: string
  gv_state :: GraphState
  gv_view :: "GraphState option"
  gv_cache :: GraphCache

definition LogListVM_View :: "LogListVM \<Rightarrow> LogListState \<times> LogListVM" where
  "LogListVM_View vm = (case lv_view vm of Some v \<Rightarrow> (v, vm) | None \<Rightarrow> (lv_state vm, vm\<lparr>lv_view := Some (lv_state vm)\<rparr>))"

definition LogRecordVM_View :: "LogRecordVM \<Rightarrow> LogRecordState \<times> LogRecordVM" where
  "LogRecordVM_View vm = (case rv_view vm of Some v \<Rightarrow> (v, vm) | None \<Rightarrow> (rv_state vm, vm\<lparr>rv_view := Some (rv_state vm)\<rparr>))"

definition FuncLogDetailVM_View :: "FuncLogDetailVM \<Rightarrow> FuncLogDetailState \<times> FuncLogDetailVM" where
  "FuncLogDetailVM_View vm = (case dv_view vm of Some v \<Rightarrow> (v, vm) | None \<Rightarrow> (dv_state vm, vm\<lparr>dv_view := Some (dv_state vm)\<rparr>))"

definition GraphVM_View :: "GraphVM \<Rightarrow> GraphState \<times> GraphVM" where
  "GraphVM_View vm = (case gv_view vm of Some v \<Rightarrow> (v, vm) | None \<Rightarrow> (gv_state vm, vm\<lparr>gv_view := Some (gv_state vm)\<rparr>))"

text \<open>What a run of the viewer depends on: the server, the format of times and \<open>sort.Slice\<close>.\<close>

record 's viewer_env =
  ve_T :: "'s transport"
  ve_BaseUrl :: string
  ve_instant :: "instant \<Rightarrow> string"
  ve_time :: "Time \<Rightarrow> string"
  ve_sortLogs :: "LogInfo sorter"
  ve_sortCalls :: "FuncLog sorter"
  ve_sortGIDs :: "GID sorter"

text \<open>
  What an update depends on: the height of the widget, the orders in which requests that run at once are answered, and the orders in which Go
  iterates over the goroutines.
\<close>

datatype frame_lookup = LookModule | LookFunc | LookLine

record update_args =
  ua_rows :: int
  ua_symbolsFirst :: bool
  ua_lookups :: "(frame_lookup \<times> nat) list"
  ua_requests :: "graph_request list"
  ua_gids1 :: "(GID \<rightharpoonup> Goroutine) \<Rightarrow> GID list"
  ua_gids2 :: "(GID \<rightharpoonup> Goroutine) \<Rightarrow> GID list"
  ua_gids3 :: "(GID \<rightharpoonup> Goroutine) \<Rightarrow> GID list"

text \<open>The logs are sorted by their times, newest first, and then by their identifiers.\<close>

fun str_less :: "string \<Rightarrow> string \<Rightarrow> bool" where
  "str_less xs [] = False"
| "str_less [] (y # ys) = True"
| "str_less (x # xs) (y # ys) = ((of_char x :: nat) < of_char y \<or> x = y \<and> str_less xs ys)"

definition newer_log :: "LogInfo comparator" where
  "newer_log a b =
     (let t1 = md_Timestamp (li_Metadata a) div 1000000000; t2 = md_Timestamp (li_Metadata b) div 1000000000
      in Inr (if t1 = t2 then str_less (li_ID a) (li_ID b) else t2 < t1))"

definition LogListVM_Update :: "'s viewer_env \<Rightarrow> LogListVM \<times> 's \<Rightarrow> (LogListVM \<times> 's) go" where
  "LogListVM_Update V = (\<lambda>(vm, s).
     case client_Logs (ve_T V) (lv_Client vm) s of
       (Inl e, s) \<Rightarrow>
         Inr (vm\<lparr>lv_view := None, lv_state := (lv_state vm)\<lparr>ll_State := LLWait, ll_Error := Some e, ll_Logs := []\<rparr>\<rparr>, s)
     | (Inr logs, s) \<Rightarrow>
         go_bind (ve_sortLogs V newer_log logs) (\<lambda>logs.
         Inr (vm\<lparr>lv_view := None, lv_state := (lv_state vm)\<lparr>ll_State := LLWait, ll_Error := None, ll_Logs := logs\<rparr>\<rparr>, s)))"

text \<open>The calls that ended last; twice as many as the widget has rows.\<close>

definition records_params :: "int64 \<Rightarrow> SearchFuncLogParams" where
  "records_params limit = \<lparr>sf_Gid = 0, sf_MinId = 0, sf_MaxId = 0, sf_MinTimestamp = 0, sf_MaxTimestamp = 0, sf_Limit = limit,
     sf_SortKey = SortByEndTime, sf_SortOrder = DescendingSortOrder, sf_Sql = []\<rparr>"

definition fetch_symbols :: "'s viewer_env \<Rightarrow> string \<Rightarrow> ClientWithCtx \<times> 's \<Rightarrow> (Symbols option \<times> rest_error option \<times> ClientWithCtx \<times> 's) go" where
  "fetch_symbols V logID = (\<lambda>(c, s).
     go_bind (client_Symbols (ve_T V) logID (c, s)) (\<lambda>(r, c, s).
     Inr (case r of Inl e \<Rightarrow> (None, Some e, c, s) | Inr sy \<Rightarrow> (sy, None, c, s))))"

definition LogRecordVM_fetch ::
  "'s viewer_env \<Rightarrow> update_args \<Rightarrow> LogRecordVM \<times> 's \<Rightarrow> (FuncLog list \<times> Symbols option \<times> rest_error option \<times> LogRecordVM \<times> 's) go" where
  "LogRecordVM_fetch V a = (\<lambda>(vm, s).
     case LogRecordVM_View vm of
       (v, vm) \<Rightarrow>
         go_bind (LogRecordView_init (ve_time V) v) (\<lambda>_.
         let p = records_params (word_of_int (ua_rows a * 2)) in
         if ua_symbolsFirst a then
           go_bind (fetch_symbols V (rv_LogID vm) (rv_Client vm, s)) (\<lambda>(sy, e1, c, s).
           case SearchFuncLogs (ve_T V) c (rv_LogID vm) p s of
             ((fls, e2), s) \<Rightarrow>
               go_bind (ve_sortCalls V (\<lambda>a b. Inr (sint (fl_StartTime b) < sint (fl_StartTime a))) fls) (\<lambda>fls.
               Inr (fls, sy, first_error e1 e2, vm\<lparr>rv_Client := c\<rparr>, s)))
         else
           (case SearchFuncLogs (ve_T V) (rv_Client vm) (rv_LogID vm) p s of
              ((fls, e2), s) \<Rightarrow>
                go_bind (ve_sortCalls V (\<lambda>a b. Inr (sint (fl_StartTime b) < sint (fl_StartTime a))) fls) (\<lambda>fls.
                go_bind (fetch_symbols V (rv_LogID vm) (rv_Client vm, s)) (\<lambda>(sy, e1, c, s).
                Inr (fls, sy, first_error e2 e1, vm\<lparr>rv_Client := c\<rparr>, s))))))"

definition LogRecordVM_Update :: "'s viewer_env \<Rightarrow> update_args \<Rightarrow> LogRecordVM \<times> 's \<Rightarrow> (LogRecordVM \<times> 's) go" where
  "LogRecordVM_Update V a vms =
     go_bind (LogRecordVM_fetch V a vms) (\<lambda>(records, symbols, err, vm, s).
     Inr (vm\<lparr>rv_view := None, rv_state := (rv_state vm)\<lparr>lr_State := LRWait, lr_Error := err, lr_Records := records, lr_Symbols := symbols\<rparr>\<rparr>, s))"

text \<open>The details of a call are fetched once; the lookups of its frames run at once, in the order of the list.\<close>

record details =
  dt_Mods :: "GoModule list"
  dt_Funcs :: "GoFunc list"
  dt_Lines :: "GoLine list"
  dt_err :: "rest_error option"

definition lookup_frame ::
  "'s viewer_env \<Rightarrow> string \<Rightarrow> uintptr list \<Rightarrow> frame_lookup \<times> nat \<Rightarrow> details \<times> ClientWithCtx \<times> 's \<Rightarrow> (details \<times> ClientWithCtx \<times> 's) go" where
  "lookup_frame V logID pcs = (\<lambda>(k, i) (d, c, s).
     let fail = (\<lambda>e. d\<lparr>dt_err := first_error (dt_err d) (Some e)\<rparr>) in
     if length pcs \<le> i then Inl IndexOutOfRange
     else case k of
       LookModule \<Rightarrow> go_bind (client_GoModule (ve_T V) logID (pcs ! i) (c, s)) (\<lambda>(r, cs).
         Inr (case r of Inl e \<Rightarrow> fail e | Inr x \<Rightarrow> d\<lparr>dt_Mods := (dt_Mods d)[i := x]\<rparr>, cs))
     | LookFunc \<Rightarrow> go_bind (client_GoFunc (ve_T V) logID (pcs ! i) (c, s)) (\<lambda>(r, cs).
         Inr (case r of Inl e \<Rightarrow> fail e | Inr x \<Rightarrow> d\<lparr>dt_Funcs := (dt_Funcs d)[i := x]\<rparr>, cs))
     | LookLine \<Rightarrow> go_bind (client_GoLine (ve_T V) logID (pcs ! i) (c, s)) (\<lambda>(r, cs).
         Inr (case r of Inl e \<Rightarrow> fail e | Inr x \<Rightarrow> d\<lparr>dt_Lines := (dt_Lines d)[i := x]\<rparr>, cs)))"

fun lookup_frames ::
  "'s viewer_env \<Rightarrow> string \<Rightarrow> uintptr list \<Rightarrow> (frame_lookup \<times> nat) list \<Rightarrow> details \<times> ClientWithCtx \<times> 's \<Rightarrow> (details \<times> ClientWithCtx \<times> 's) go" where
  "lookup_frames V logID pcs [] st = Inr st"
| "lookup_frames V logID pcs (k # ks) st = go_bind (lookup_frame V logID pcs k st) (lookup_frames V logID pcs ks)"

definition new_details :: "nat \<Rightarrow> details" where
  "new_details n = \<lparr>dt_Mods = replicate n zero_GoModule, dt_Funcs = replicate n zero_GoFunc, dt_Lines = replicate n zero_GoLine, dt_err = None\<rparr>"

definition FuncLogDetailVM_Update :: "'s viewer_env \<Rightarrow> update_args \<Rightarrow> FuncLogDetailVM \<times> 's \<Rightarrow> (FuncLogDetailVM \<times> 's) go" where
  "FuncLogDetailVM_Update V a = (\<lambda>(vm, s).
     go_bind (lookup_frames V (dv_LogID vm) (fl_Frames (dv_Record vm)) (ua_lookups a)
       (new_details (length (fl_Frames (dv_Record vm))), dv_Client vm, s)) (\<lambda>(d, c, s).
     let ok = (dt_err d = None) in
     Inr (vm\<lparr>dv_Client := c, dv_updated := True, dv_view := None,
       dv_state := (dv_state vm)\<lparr>fd_State := FCDWait, fd_Error := dt_err d, fd_Record := dv_Record vm,
         fd_Mods := (if ok then dt_Mods d else []), fd_Funcs := (if ok then dt_Funcs d else []), fd_Lines := (if ok then dt_Lines d else [])\<rparr>\<rparr>, s)))"

definition GraphVM_Update :: "'s viewer_env \<Rightarrow> update_args \<Rightarrow> GraphVM \<times> 's \<Rightarrow> (GraphVM \<times> 's) go" where
  "GraphVM_Update V a = (\<lambda>(vm, s).
     go_bind (GraphCache_Update (ve_T V) (gv_LogID vm) (ua_requests a) (gv_Client vm) s) (\<lambda>(cache, err, s).
     go_bind (case err of
         Some e \<Rightarrow> Inr ([], cache)
       | None \<Rightarrow> buildLines (ve_sortCalls V) (ve_sortGIDs V) (ua_gids1 a (gc_GMap cache)) (ua_gids2 a (gc_GMap cache)) (ua_gids3 a (gc_GMap cache))
           (gs_Selected (gv_state vm)) cache) (\<lambda>(ls, cache).
     Inr (vm\<lparr>gv_view := None, gv_cache := cache, gv_state := (gv_state vm)\<lparr>gs_State := GWait, gs_Error := err, gs_Lines := ls\<rparr>\<rparr>, s))))"

text \<open>What the user does with a table or the graph.\<close>

definition LogListVM_onSelectionChanged :: "string \<Rightarrow> LogListVM \<Rightarrow> LogListVM" where
  "LogListVM_onSelectionChanged logID vm = vm\<lparr>lv_view := None, lv_state := (lv_state vm)\<lparr>ll_SelectedID := logID\<rparr>\<rparr>"

definition SelectedLog :: "LogListVM \<Rightarrow> string" where
  "SelectedLog vm = ll_SelectedID (lv_state vm)"

definition LogRecordVM_onSelectionChanged :: "FuncLogID \<Rightarrow> LogRecordVM \<Rightarrow> LogRecordVM" where
  "LogRecordVM_onSelectionChanged i vm = vm\<lparr>rv_view := None, rv_state := (rv_state vm)\<lparr>lr_SelectedID := i\<rparr>\<rparr>"

definition onChangedOffset :: "int \<Rightarrow> int \<Rightarrow> GraphVM \<Rightarrow> GraphVM" where
  "onChangedOffset dx dy vm = vm\<lparr>gv_view := None, gv_state := (gv_state vm)\<lparr>gs_Offset := UpdateOffset dx dy (gs_Offset (gv_state vm))\<rparr>\<rparr>"

definition onChangedScrollMode :: "ScrollMode \<Rightarrow> GraphVM \<Rightarrow> GraphVM" where
  "onChangedScrollMode mode vm = vm\<lparr>gv_view := None, gv_state := (gv_state vm)\<lparr>gs_ScrollMode := mode\<rparr>\<rparr>"

subsection \<open>The coordinator (\<open>main.go\<close>)\<close>

datatype vm = VList LogListVM | VRecords LogRecordVM | VDetail FuncLogDetailVM | VGraph GraphVM

datatype view = ListView LogListState | RecordView LogRecordState | DetailView FuncLogDetailState | GraphView GraphState

fun vm_View :: "vm \<Rightarrow> view \<times> vm" where
  "vm_View (VList vm) = (case LogListVM_View vm of (v, vm) \<Rightarrow> (ListView v, VList vm))"
| "vm_View (VRecords vm) = (case LogRecordVM_View vm of (v, vm) \<Rightarrow> (RecordView v, VRecords vm))"
| "vm_View (VDetail vm) = (case FuncLogDetailVM_View vm of (v, vm) \<Rightarrow> (DetailView v, VDetail vm))"
| "vm_View (VGraph vm) = (case GraphVM_View vm of (v, vm) \<Rightarrow> (GraphView v, VGraph vm))"

fun vm_Update :: "'s viewer_env \<Rightarrow> update_args \<Rightarrow> vm \<times> 's \<Rightarrow> (vm \<times> 's) go" where
  "vm_Update V a (VList vm, s) = go_bind (LogListVM_Update V (vm, s)) (\<lambda>(vm, s). Inr (VList vm, s))"
| "vm_Update V a (VRecords vm, s) = go_bind (LogRecordVM_Update V a (vm, s)) (\<lambda>(vm, s). Inr (VRecords vm, s))"
| "vm_Update V a (VDetail vm, s) =
     (if dv_updated vm then Inr (VDetail vm, s) else go_bind (FuncLogDetailVM_Update V a (vm, s)) (\<lambda>(vm, s). Inr (VDetail vm, s)))"
| "vm_Update V a (VGraph vm, s) = go_bind (GraphVM_Update V a (vm, s)) (\<lambda>(vm, s). Inr (VGraph vm, s))"

fun view_init :: "'s viewer_env \<Rightarrow> view \<Rightarrow> (widget \<times> headerTable option) go" where
  "view_init V (ListView v) = LogListView_init (ve_instant V) v"
| "view_init V (RecordView v) = LogRecordView_init (ve_time V) v"
| "view_init V (DetailView v) = FuncLogDetailView_init v"
| "view_init V (GraphView v) = GraphView_init v"

record UIState =
  us_LogID :: string
  us_RecordID :: FuncLogID
  us_Record :: FuncLog
  us_UseGraphView :: bool

definition zero_UIState :: UIState where
  "zero_UIState = \<lparr>us_LogID = [], us_RecordID = 0, us_Record = zero_FuncLog, us_UseGraphView = False\<rparr>"

definition new_vm :: "string \<Rightarrow> UIState \<Rightarrow> vm" where
  "new_vm base s =
     (if us_LogID s = [] then VList \<lparr>lv_Client = WithCtx base, lv_state = new_LogListState, lv_view = None\<rparr>
      else if us_RecordID s \<noteq> 0 then VDetail \<lparr>dv_Client = WithCtx base, dv_LogID = us_LogID s, dv_Record = us_Record s,
        dv_state = new_FuncLogDetailState, dv_view = None, dv_updated = False\<rparr>
      else if us_UseGraphView s then VGraph \<lparr>gv_Client = WithCtx base, gv_LogID = us_LogID s, gv_state = new_GraphState, gv_view = None, gv_cache = new_GraphCache\<rparr>
      else VRecords \<lparr>rv_Client = WithCtx base, rv_LogID = us_LogID s, rv_state = new_LogRecordState, rv_view = None\<rparr>)"

text \<open>
  The models that have been made are kept in a list, as their workers may still run; \<open>ui_vm\<close> is the current one. The contexts of models have the numbers of
  the models. A view that is to be shown waits in \<open>ui_pending\<close> for the thread of the interface; \<open>None\<close> is the nil view.
\<close>

record 's ui =
  ui_vms :: "vm list"
  ui_vm :: "nat option"
  ui_cancelled :: "nat list"
  ui_pending :: "(nat \<times> view) option list"
  ui_shown :: "(nat \<times> view \<times> headerTable option) option"
  ui_quit :: bool
  ui_srv :: 's

definition setView :: "(nat \<times> view) option \<Rightarrow> 's ui \<Rightarrow> 's ui" where
  "setView v u = u\<lparr>ui_pending := ui_pending u @ [v]\<rparr>"

definition NotifyVMUpdated :: "'s ui \<Rightarrow> 's ui" where
  "NotifyVMUpdated u =
     (case ui_vm u of
        None \<Rightarrow> setView None u
      | Some i \<Rightarrow> (case vm_View (ui_vms u ! i) of (v, vm) \<Rightarrow> setView (Some (i, v)) (u\<lparr>ui_vms := (ui_vms u)[i := vm]\<rparr>)))"

definition setVM :: "vm \<Rightarrow> 's ui \<Rightarrow> 's ui" where
  "setVM new u =
     (let u = (case ui_vm u of None \<Rightarrow> u | Some i \<Rightarrow> u\<lparr>ui_cancelled := ui_cancelled u @ [i]\<rparr>) in
      case vm_View new of
        (v, vm) \<Rightarrow> setView (Some (length (ui_vms u), v)) (u\<lparr>ui_vms := ui_vms u @ [vm], ui_vm := Some (length (ui_vms u))\<rparr>))"

definition SetState :: "'s viewer_env \<Rightarrow> UIState \<Rightarrow> 's ui \<Rightarrow> 's ui" where
  "SetState V s u = setVM (new_vm (ve_BaseUrl V) s) u"

definition start_ui :: "'s viewer_env \<Rightarrow> 's \<Rightarrow> 's ui" where
  "start_ui V s = SetState V zero_UIState
     \<lparr>ui_vms = [], ui_vm = None, ui_cancelled = [], ui_pending = [], ui_shown = None, ui_quit = False, ui_srv = s\<rparr>"

text \<open>The keys of a view act on its own model, which may be an older one than the current.\<close>

datatype ui_action = Navigate UIState | ChangeOffset int int | ChangeMode ScrollMode

fun vm_LogID :: "vm \<Rightarrow> string" where
  "vm_LogID (VList vm) = []"
| "vm_LogID (VRecords vm) = rv_LogID vm"
| "vm_LogID (VDetail vm) = dv_LogID vm"
| "vm_LogID (VGraph vm) = gv_LogID vm"

text \<open>\<open>sel\<close> is the row that the table of the view says is selected; a view without a table panics.\<close>

definition onActivatedLog :: "LogListState \<Rightarrow> headerTable option \<Rightarrow> int \<Rightarrow> ui_action list go" where
  "onActivatedLog v t sel =
     (if t = None then Inl NilDereference
      else if sel \<le> 0 then Inr []
      else if nat (sel - 1) < length (ll_Logs v) then Inr [Navigate (zero_UIState\<lparr>us_LogID := li_ID (ll_Logs v ! nat (sel - 1))\<rparr>)]
      else Inl IndexOutOfRange)"

definition onActivatedRecord :: "string \<Rightarrow> LogRecordState \<Rightarrow> headerTable option \<Rightarrow> int \<Rightarrow> ui_action list go" where
  "onActivatedRecord logID v t sel =
     (if t = None then Inl NilDereference
      else if sel \<le> 0 then Inr []
      else if nat (sel - 1) < length (lr_Records v)
      then (let rec = lr_Records v ! nat (sel - 1) in Inr [Navigate (zero_UIState\<lparr>us_LogID := logID, us_RecordID := fl_ID rec, us_Record := rec\<rparr>)])
      else Inl IndexOutOfRange)"

definition LogListView_key :: "LogListState \<Rightarrow> headerTable option \<Rightarrow> string \<Rightarrow> int \<Rightarrow> ui_action list go" where
  "LogListView_key v t k sel = (if k \<in> {''Right'', ''l''} then onActivatedLog v t sel else Inr [])"

definition LogRecordView_key :: "LogRecordState \<Rightarrow> string \<Rightarrow> headerTable option \<Rightarrow> string \<Rightarrow> int \<Rightarrow> ui_action list go" where
  "LogRecordView_key v logID t k sel =
     (if k \<in> {''Left'', ''h''} then Inr [Navigate zero_UIState]
      else if k \<in> {''Right'', ''l''} then onActivatedRecord logID v t sel
      else if k = ''t'' then Inr [Navigate (zero_UIState\<lparr>us_LogID := logID, us_UseGraphView := True\<rparr>)]
      else Inr [])"

definition FuncLogDetailView_key :: "string \<Rightarrow> string \<Rightarrow> ui_action list go" where
  "FuncLogDetailView_key logID k = (if k \<in> {''Left'', ''h''} then Inr [Navigate (zero_UIState\<lparr>us_LogID := logID\<rparr>)] else Inr [])"

definition GraphView_key :: "GraphState \<Rightarrow> string \<Rightarrow> string \<Rightarrow> ui_action list go" where
  "GraphView_key v logID k =
     (if k = ''d'' then Inr [Navigate (zero_UIState\<lparr>us_LogID := logID\<rparr>)]
      else if k \<in> {''k'', ''Up''} then Inr [ChangeOffset 0 (snd (scrollSpeed v))]
      else if k \<in> {''l'', ''Right''} then Inr [ChangeMode ManualScrollMode, ChangeOffset (- fst (scrollSpeed v)) 0]
      else if k \<in> {''j'', ''Down''} then Inr [ChangeOffset 0 (- snd (scrollSpeed v))]
      else if k \<in> {''h'', ''Left''} then Inr [ChangeMode ManualScrollMode, ChangeOffset (fst (scrollSpeed v)) 0]
      else if k = ''f'' then Inr [ChangeMode AutoScrollMode]
      else Inr [])"

fun view_key :: "view \<Rightarrow> string \<Rightarrow> headerTable option \<Rightarrow> string \<Rightarrow> int \<Rightarrow> ui_action list go" where
  "view_key (ListView v) logID t k sel = LogListView_key v t k sel"
| "view_key (RecordView v) logID t k sel = LogRecordView_key v logID t k sel"
| "view_key (DetailView v) logID t k sel = FuncLogDetailView_key logID k"
| "view_key (GraphView v) logID t k sel = GraphView_key v logID k"

lemmas key_defs = LogListView_key_def LogRecordView_key_def FuncLogDetailView_key_def GraphView_key_def

fun on_graph :: "(GraphVM \<Rightarrow> GraphVM) \<Rightarrow> vm \<Rightarrow> vm" where
  "on_graph f (VGraph vm) = VGraph (f vm)"
| "on_graph f vm = vm"

definition change_vm :: "nat \<Rightarrow> vm \<Rightarrow> 's ui \<Rightarrow> 's ui" where
  "change_vm i vm u = NotifyVMUpdated (u\<lparr>ui_vms := (ui_vms u)[i := vm]\<rparr>)"

fun ui_act :: "'s viewer_env \<Rightarrow> nat \<Rightarrow> ui_action \<Rightarrow> 's ui \<Rightarrow> 's ui" where
  "ui_act V i (Navigate s) u = SetState V s u"
| "ui_act V i (ChangeOffset dx dy) u = change_vm i (on_graph (onChangedOffset dx dy) (ui_vms u ! i)) u"
| "ui_act V i (ChangeMode m) u = change_vm i (on_graph (onChangedScrollMode m) (ui_vms u ! i)) u"

definition ui_acts :: "'s viewer_env \<Rightarrow> nat \<Rightarrow> ui_action list \<Rightarrow> 's ui \<Rightarrow> 's ui" where
  "ui_acts V i as u = fold (ui_act V i) as u"

definition setKeybindings :: "'s viewer_env \<Rightarrow> string \<Rightarrow> int \<Rightarrow> 's ui \<Rightarrow> 's ui go" where
  "setKeybindings V k sel u =
     (case ui_shown u of
        None \<Rightarrow> Inr u
      | Some (i, v, t) \<Rightarrow>
          if k \<in> {''Q'', ''Esc''} then Inr (u\<lparr>ui_quit := True\<rparr>)
          else go_bind (view_key v (vm_LogID (ui_vms u ! i)) t k sel) (\<lambda>as. Inr (ui_acts V i as u)))"

text \<open>A row has been activated, or the selection of the table has changed.\<close>

fun view_activated :: "view \<Rightarrow> string \<Rightarrow> headerTable option \<Rightarrow> int \<Rightarrow> ui_action list go" where
  "view_activated (ListView v) logID t sel = onActivatedLog v t sel"
| "view_activated (RecordView v) logID t sel = onActivatedRecord logID v t sel"
| "view_activated (DetailView v) logID t sel = (if sel \<le> 0 then Inr [] else Inl (Panic ''not implemented''))"
| "view_activated (GraphView v) logID t sel = Inr []"

text \<open>The model after a selection; \<open>None\<close>: the view does not tell it.\<close>

definition LogListView_onSelectionChanged :: "LogListState \<Rightarrow> int \<Rightarrow> LogListVM \<Rightarrow> LogListVM go" where
  "LogListView_onSelectionChanged v sel vm =
     (if sel \<le> 0 then Inr (LogListVM_onSelectionChanged [] vm)
      else if nat (sel - 1) < length (ll_Logs v) then Inr (LogListVM_onSelectionChanged (li_ID (ll_Logs v ! nat (sel - 1))) vm)
      else Inl IndexOutOfRange)"

definition LogRecordView_onSelectionChanged :: "LogRecordState \<Rightarrow> int \<Rightarrow> LogRecordVM \<Rightarrow> LogRecordVM option go" where
  "LogRecordView_onSelectionChanged v sel vm =
     (if sel \<le> 0 then Inr None
      else if nat (sel - 1) < length (lr_Records v) then Inr (Some (LogRecordVM_onSelectionChanged (fl_ID (lr_Records v ! nat (sel - 1))) vm))
      else Inl IndexOutOfRange)"

fun vm_selected :: "view \<Rightarrow> int \<Rightarrow> vm \<Rightarrow> vm option go" where
  "vm_selected (ListView v) sel (VList vm) = go_bind (LogListView_onSelectionChanged v sel vm) (\<lambda>vm. Inr (Some (VList vm)))"
| "vm_selected (RecordView v) sel (VRecords vm) = go_bind (LogRecordView_onSelectionChanged v sel vm) (\<lambda>r. Inr (map_option VRecords r))"
| "vm_selected v sel vm = Inr None"

definition ui_selected :: "int \<Rightarrow> 's ui \<Rightarrow> 's ui go" where
  "ui_selected sel u =
     (case ui_shown u of
        Some (i, v, Some t) \<Rightarrow>
          (case ht_changed sel t of
             (t, told) \<Rightarrow>
               let u = u\<lparr>ui_shown := Some (i, v, Some t)\<rparr> in
               if \<not> told then Inr u
               else go_bind (vm_selected v sel (ui_vms u ! i)) (\<lambda>r. Inr (case r of None \<Rightarrow> u | Some vm \<Rightarrow> change_vm i vm u)))
      | _ \<Rightarrow> Inr u)"

text \<open>
  The events: a worker updates a model, the thread of the interface takes one of the waiting views, and what the
  user does with the view that is shown.
\<close>

datatype ui_event = Update nat update_args | Paint nat | Key string int | SelectionChanged int | ItemActivated int

definition ui_update :: "'s viewer_env \<Rightarrow> nat \<Rightarrow> update_args \<Rightarrow> 's ui \<Rightarrow> 's ui go" where
  "ui_update V i a u =
     (let vm = ui_vms u ! i in
      go_bind (vm_Update V a (vm, ui_srv u)) (\<lambda>(vm', s).
      Inr (if (case vm of VDetail d \<Rightarrow> dv_updated d | _ \<Rightarrow> False) then u else change_vm i vm' (u\<lparr>ui_srv := s\<rparr>))))"

definition ui_paint :: "'s viewer_env \<Rightarrow> nat \<Rightarrow> 's ui \<Rightarrow> 's ui go" where
  "ui_paint V j u =
     (case ui_pending u ! j of
        None \<Rightarrow> Inl NilDereference
      | Some (i, v) \<Rightarrow>
          go_bind (view_init V v) (\<lambda>(w, t).
          Inr (u\<lparr>ui_shown := Some (i, v, t), ui_pending := take j (ui_pending u) @ drop (Suc j) (ui_pending u)\<rparr>)))"

fun ui_handle :: "'s viewer_env \<Rightarrow> 's ui \<Rightarrow> ui_event \<Rightarrow> 's ui go" where
  "ui_handle V u (Update i a) = (if i < length (ui_vms u) then ui_update V i a u else Inr u)"
| "ui_handle V u (Paint j) = (if j < length (ui_pending u) then ui_paint V j u else Inr u)"
| "ui_handle V u (Key k sel) = setKeybindings V k sel u"
| "ui_handle V u (SelectionChanged sel) = ui_selected sel u"
| "ui_handle V u (ItemActivated sel) =
     (case ui_shown u of
        None \<Rightarrow> Inr u
      | Some (i, v, t) \<Rightarrow> go_bind (view_activated v (vm_LogID (ui_vms u ! i)) t sel) (\<lambda>as. Inr (ui_acts V i as u)))"

definition ui_step :: "'s viewer_env \<Rightarrow> 's ui \<Rightarrow> ui_event \<Rightarrow> 's ui go" where
  "ui_step V u e = (if ui_quit u then Inr u else ui_handle V u e)"

subsection \<open>Models and their views\<close>

fun state_view :: "vm \<Rightarrow> view" where
  "state_view (VList vm) = ListView (lv_state vm)"
| "state_view (VRecords vm) = RecordView (rv_state vm)"
| "state_view (VDetail vm) = DetailView (dv_state vm)"
| "state_view (VGraph vm) = GraphView (gv_state vm)"

fun cached_view :: "vm \<Rightarrow> view option" where
  "cached_view (VList vm) = map_option ListView (lv_view vm)"
| "cached_view (VRecords vm) = map_option RecordView (rv_view vm)"
| "cached_view (VDetail vm) = map_option DetailView (dv_view vm)"
| "cached_view (VGraph vm) = map_option GraphView (gv_view vm)"

text \<open>
  Calls without an error come with symbols, details have an entry for every frame, and offsets are not positive.
\<close>

fun view_ok :: "view \<Rightarrow> bool" where
  "view_ok (ListView v) = True"
| "view_ok (RecordView v) = (lr_State v = LRWait \<and> lr_Error v = None \<longrightarrow> lr_Symbols v \<noteq> None)"
| "view_ok (DetailView v) = (fd_State v = FCDWait \<and> fd_Error v = None \<longrightarrow>
     length (fd_Mods v) = length (fl_Frames (fd_Record v)) \<and> length (fd_Funcs v) = length (fl_Frames (fd_Record v)) \<and>
     length (fd_Lines v) = length (fl_Frames (fd_Record v)))"
| "view_ok (GraphView v) = (fst (gs_Offset v) \<le> 0 \<and> snd (gs_Offset v) \<le> 0)"

definition vm_ok :: "vm \<Rightarrow> bool" where
  "vm_ok vm \<longleftrightarrow> view_ok (state_view vm) \<and> (cached_view vm = None \<or> cached_view vm = Some (state_view vm))"

fun view_kind :: "view \<Rightarrow> nat" where
  "view_kind (ListView v) = 0" | "view_kind (RecordView v) = 1" | "view_kind (DetailView v) = 2" | "view_kind (GraphView v) = 3"

definition same_vm :: "vm \<Rightarrow> vm \<Rightarrow> bool" where
  "same_vm vm vm' \<longleftrightarrow> view_kind (state_view vm') = view_kind (state_view vm) \<and> vm_LogID vm' = vm_LogID vm"

lemma same_vm_refl: "same_vm vm vm"
  by (simp add: same_vm_def)

lemma vm_View_ok:
  assumes "vm_ok vm" "vm_View vm = (v, vm')"
  shows "v = state_view vm \<and> vm_ok vm' \<and> state_view vm' = state_view vm \<and> same_vm vm vm'"
  using assms
  by (cases vm) (auto simp: vm_ok_def same_vm_def LogListVM_View_def LogRecordVM_View_def FuncLogDetailVM_View_def GraphVM_View_def split: option.splits prod.splits)

lemma new_vm_ok: "vm_ok (new_vm base s)"
  by (simp add: new_vm_def vm_ok_def new_LogRecordState_def new_FuncLogDetailState_def new_GraphState_def)

lemma client_Symbols_some: "client_Symbols T logID (c, s) = Inr (Inr sy, c', s') \<Longrightarrow> sy \<noteq> None"
  by (auto simp: client_Symbols_def SyncSymbols_def go_bind_eq_Inr SetSymbols_def apiCache_Log_def logCache_Symbols_def
      split: option.splits sum.splits prod.splits)

lemma fetch_symbols_some:
  assumes "fetch_symbols V logID (c, s) = Inr (sy, None, c', s')"
  shows "sy \<noteq> None"
proof -
  obtain r c1 s1 where r: "client_Symbols (ve_T V) logID (c, s) = Inr (r, c1, s1)" using assms by (auto simp: fetch_symbols_def go_bind_eq_Inr)
  then show ?thesis using assms client_Symbols_some[of "ve_T V" logID c s] by (cases r) (auto simp: fetch_symbols_def)
qed

lemma first_error_None: "first_error a b = None \<longleftrightarrow> a = None \<and> b = None"
  by (simp add: first_error_def split: option.splits)

lemma LogRecordVM_View_LogID: "LogRecordVM_View vm = (v, vm') \<Longrightarrow> rv_LogID vm' = rv_LogID vm \<and> rv_state vm' = rv_state vm"
  by (auto simp: LogRecordVM_View_def split: option.splits)

lemma fetch_ok:
  assumes "LogRecordVM_fetch V a (vm, s) = Inr (fls, sy, err, vm', s')"
  shows "rv_LogID vm' = rv_LogID vm \<and> rv_state vm' = rv_state vm \<and> (err = None \<longrightarrow> sy \<noteq> None)"
proof -
  obtain v x where x: "LogRecordVM_View vm = (v, x)" by fastforce
  note vx = LogRecordVM_View_LogID[OF x]
  let ?p = "records_params (word_of_int (ua_rows a * 2))"
  show ?thesis
  proof (cases "ua_symbolsFirst a")
    case True
    then obtain sy1 e1 c s1 where f: "fetch_symbols V (rv_LogID x) (rv_Client x, s) = Inr (sy1, e1, c, s1)"
      using assms x by (auto simp: LogRecordVM_fetch_def Let_def go_bind_eq_Inr)
    obtain f2 e2 s2 where "SearchFuncLogs (ve_T V) c (rv_LogID x) ?p s1 = ((f2, e2), s2)" by (metis surj_pair)
    then have "vm' = x\<lparr>rv_Client := c\<rparr>" "err = first_error e1 e2" "sy = sy1"
      using assms x f True by (auto simp: LogRecordVM_fetch_def Let_def go_bind_eq_Inr)
    then show ?thesis using vx fetch_symbols_some[of V "rv_LogID x" "rv_Client x" s sy1 c s1] f by (auto simp: first_error_None)
  next
    case False
    obtain f2 e2 s2 where q: "SearchFuncLogs (ve_T V) (rv_Client x) (rv_LogID x) ?p s = ((f2, e2), s2)" by (metis surj_pair)
    then obtain sy1 e1 c s1 where f: "fetch_symbols V (rv_LogID x) (rv_Client x, s2) = Inr (sy1, e1, c, s1)"
      using assms x False by (auto simp: LogRecordVM_fetch_def Let_def go_bind_eq_Inr)
    then have "vm' = x\<lparr>rv_Client := c\<rparr>" "err = first_error e2 e1" "sy = sy1"
      using assms x q False by (auto simp: LogRecordVM_fetch_def Let_def go_bind_eq_Inr)
    then show ?thesis using vx fetch_symbols_some[of V "rv_LogID x" "rv_Client x" s2 sy1 c s1] f by (auto simp: first_error_None)
  qed
qed

definition details_len :: "nat \<Rightarrow> details \<Rightarrow> bool" where
  "details_len n d \<longleftrightarrow> length (dt_Mods d) = n \<and> length (dt_Funcs d) = n \<and> length (dt_Lines d) = n"

lemma lookup_frame_len:
  assumes "lookup_frame V logID pcs (k, i) (d, c, s) = Inr (d', c', s')" "details_len n d"
  shows "details_len n d'"
proof -
  have i: "i < length pcs" using assms(1) by (cases "length pcs \<le> i") (simp_all add: lookup_frame_def Let_def)
  show ?thesis
  proof (cases k)
    case LookModule
    then obtain r where "d' = (case r of Inl e \<Rightarrow> d\<lparr>dt_err := first_error (dt_err d) (Some e)\<rparr> | Inr x \<Rightarrow> d\<lparr>dt_Mods := (dt_Mods d)[i := x]\<rparr>)"
      using assms(1) i by (auto simp: lookup_frame_def go_bind_eq_Inr Let_def)
    then show ?thesis using assms(2) by (cases r) (simp_all add: details_len_def)
  next
    case LookFunc
    then obtain r where "d' = (case r of Inl e \<Rightarrow> d\<lparr>dt_err := first_error (dt_err d) (Some e)\<rparr> | Inr x \<Rightarrow> d\<lparr>dt_Funcs := (dt_Funcs d)[i := x]\<rparr>)"
      using assms(1) i by (auto simp: lookup_frame_def go_bind_eq_Inr Let_def)
    then show ?thesis using assms(2) by (cases r) (simp_all add: details_len_def)
  next
    case LookLine
    then obtain r where "d' = (case r of Inl e \<Rightarrow> d\<lparr>dt_err := first_error (dt_err d) (Some e)\<rparr> | Inr x \<Rightarrow> d\<lparr>dt_Lines := (dt_Lines d)[i := x]\<rparr>)"
      using assms(1) i by (auto simp: lookup_frame_def go_bind_eq_Inr Let_def)
    then show ?thesis using assms(2) by (cases r) (simp_all add: details_len_def)
  qed
qed

lemma lookup_frames_len: "lookup_frames V logID pcs ks (d, c, s) = Inr (d', c', s') \<Longrightarrow> details_len n d \<Longrightarrow> details_len n d'"
proof (induction ks arbitrary: d c s)
  case (Cons k ks)
  obtain look i where k: "k = (look, i)" by fastforce
  obtain d1 c1 s1 where 1: "lookup_frame V logID pcs (look, i) (d, c, s) = Inr (d1, c1, s1)" "lookup_frames V logID pcs ks (d1, c1, s1) = Inr (d', c', s')"
    using Cons.prems(1) by (auto simp: go_bind_eq_Inr k)
  show ?case by (rule Cons.IH[OF 1(2) lookup_frame_len[OF 1(1) Cons.prems(2)]])
qed simp

lemma vm_Update_ok:
  assumes "vm_ok vm" "vm_Update V a (vm, s) = Inr (vm', s')"
  shows "vm_ok vm' \<and> same_vm vm vm'"
proof (cases vm)
  case (VList x)
  then show ?thesis using assms by (auto simp: vm_ok_def same_vm_def LogListVM_Update_def go_bind_eq_Inr split: sum.splits prod.splits)
next
  case (VRecords x)
  then obtain y where y: "LogRecordVM_Update V a (x, s) = Inr (y, s')" "vm' = VRecords y" using assms(2) by (auto simp: go_bind_eq_Inr)
  then obtain fls sy err z where f: "LogRecordVM_fetch V a (x, s) = Inr (fls, sy, err, z, s')"
    "y = z\<lparr>rv_view := None, rv_state := (rv_state z)\<lparr>lr_State := LRWait, lr_Error := err, lr_Records := fls, lr_Symbols := sy\<rparr>\<rparr>"
    by (auto simp: LogRecordVM_Update_def go_bind_eq_Inr)
  then show ?thesis using fetch_ok[OF f(1)] y(2) VRecords by (simp add: vm_ok_def same_vm_def)
next
  case (VDetail x)
  show ?thesis
  proof (cases "dv_updated x")
    case True
    then show ?thesis using assms VDetail same_vm_refl by simp
  next
    case False
    then obtain y where y: "FuncLogDetailVM_Update V a (x, s) = Inr (y, s')" "vm' = VDetail y" using assms(2) VDetail by (auto simp: go_bind_eq_Inr)
    let ?n = "length (fl_Frames (dv_Record x))"
    obtain d c where d: "lookup_frames V (dv_LogID x) (fl_Frames (dv_Record x)) (ua_lookups a) (new_details ?n, dv_Client x, s) = Inr (d, c, s')"
      "vm_ok vm' \<and> same_vm vm vm' \<longleftrightarrow> (dt_err d = None \<longrightarrow> details_len ?n d)"
      using y VDetail by (auto simp: FuncLogDetailVM_Update_def go_bind_eq_Inr vm_ok_def same_vm_def details_len_def Let_def)
    have "details_len ?n (new_details ?n)" by (simp add: details_len_def new_details_def)
    from lookup_frames_len[OF d(1) this] show ?thesis using d(2) by simp
  qed
next
  case (VGraph x)
  then show ?thesis using assms by (auto simp: vm_ok_def same_vm_def GraphVM_Update_def go_bind_eq_Inr split: prod.splits)
qed

lemma offset_nonpos: "fst (UpdateOffset dx dy p) \<le> 0" "snd (UpdateOffset dx dy p) \<le> 0"
  by (auto simp: UpdateOffset_def split: prod.splits)

lemma on_graph_ok:
  assumes "vm_ok vm"
  shows "vm_ok (on_graph (onChangedOffset dx dy) vm) \<and> same_vm vm (on_graph (onChangedOffset dx dy) vm)"
    "vm_ok (on_graph (onChangedScrollMode m) vm) \<and> same_vm vm (on_graph (onChangedScrollMode m) vm)"
  using assms by (cases vm; simp add: vm_ok_def same_vm_def onChangedOffset_def onChangedScrollMode_def offset_nonpos)+

lemma vm_selected_ok:
  assumes "vm_ok vm" "vm_selected v sel vm = Inr (Some vm')"
  shows "vm_ok vm' \<and> same_vm vm vm'"
proof (cases vm)
  case (VList x)
  then show ?thesis using assms by (cases v) (auto simp: vm_ok_def same_vm_def LogListView_onSelectionChanged_def LogListVM_onSelectionChanged_def split: if_splits)
next
  case (VRecords x)
  then show ?thesis using assms by (cases v) (auto simp: vm_ok_def same_vm_def LogRecordView_onSelectionChanged_def LogRecordVM_onSelectionChanged_def split: if_splits)
qed (use assms in \<open>cases v; simp\<close>)+

subsection \<open>The invariant of the viewer\<close>

definition of_vm :: "vm list \<Rightarrow> nat \<Rightarrow> view \<Rightarrow> bool" where
  "of_vm vms i v \<longleftrightarrow> i < length vms \<and> view_ok v \<and> view_kind v = view_kind (state_view (vms ! i))"

definition vms_ok :: "vm list \<Rightarrow> bool" where
  "vms_ok vms \<longleftrightarrow> (\<forall>vm \<in> set vms. vm_ok vm \<and> (view_kind (state_view vm) = 0 \<or> vm_LogID vm \<noteq> []))"

definition current :: "'s ui \<Rightarrow> nat \<Rightarrow> bool" where
  "current u i \<longleftrightarrow> ui_vm u = Some i \<and> i < length (ui_vms u) \<and> set (ui_cancelled u) = {..<length (ui_vms u)} - {i}"

definition ui_ok :: "'s ui \<Rightarrow> bool" where
  "ui_ok u \<longleftrightarrow> (\<exists>i. current u i) \<and> vms_ok (ui_vms u) \<and> (\<forall>p \<in> set (ui_pending u). \<exists>i v. p = Some (i, v) \<and> of_vm (ui_vms u) i v) \<and>
     (\<forall>i v t. ui_shown u = Some (i, v, t) \<longrightarrow> of_vm (ui_vms u) i v)"

text \<open>The view that has been asked for last is the state of the current model.\<close>

definition newest :: "'s ui \<Rightarrow> (nat \<times> view) option" where
  "newest u = (if ui_pending u = [] then map_option (\<lambda>(i, v, t). (i, v)) (ui_shown u) else last (ui_pending u))"

definition up_to_date :: "'s ui \<Rightarrow> bool" where
  "up_to_date u \<longleftrightarrow> (\<exists>i. ui_vm u = Some i \<and> newest u = Some (i, state_view (ui_vms u ! i)))"

definition similar :: "vm list \<Rightarrow> vm list \<Rightarrow> bool" where
  "similar vms vms' \<longleftrightarrow> list_all2 same_vm vms vms'"

lemma similar_refl: "similar vms vms"
  by (simp add: similar_def list_all2_same same_vm_refl)

lemma similar_update: "similar vms vms' \<Longrightarrow> same_vm (vms' ! i) vm \<Longrightarrow> similar vms (vms'[i := vm])"
proof -
  assume a: "similar vms vms'" "same_vm (vms' ! i) vm"
  have "same_vm (vms ! j) (vms'[i := vm] ! j)" if "j < length vms'" for j
    using a that by (cases "i = j") (auto simp: similar_def list_all2_conv_all_nth same_vm_def)
  then show ?thesis using a(1) by (simp add: similar_def list_all2_conv_all_nth)
qed

lemma similar_of_vm: "similar vms vms' \<Longrightarrow> of_vm vms i v \<Longrightarrow> of_vm vms' i v"
  by (auto simp: similar_def of_vm_def same_vm_def list_all2_conv_all_nth)

lemma similar_length: "similar vms vms' \<Longrightarrow> length vms' = length vms"
  by (simp add: similar_def list_all2_lengthD)

lemma vms_ok_update: "vms_ok vms \<Longrightarrow> i < length vms \<Longrightarrow> vm_ok vm \<Longrightarrow> same_vm (vms ! i) vm \<Longrightarrow> vms_ok (vms[i := vm])"
proof -
  assume a: "vms_ok vms" "i < length vms" "vm_ok vm" "same_vm (vms ! i) vm"
  have "view_kind (state_view (vms ! i)) = 0 \<or> vm_LogID (vms ! i) \<noteq> []" using a(1,2) by (simp add: vms_ok_def)
  then have "view_kind (state_view vm) = 0 \<or> vm_LogID vm \<noteq> []" using a(4) by (simp add: same_vm_def)
  then show ?thesis using a(1,3) set_update_subset_insert[of vms i vm] unfolding vms_ok_def by blast
qed

lemma vms_ok_nth: "vms_ok vms \<Longrightarrow> i < length vms \<Longrightarrow> vm_ok (vms ! i)"
  by (simp add: vms_ok_def)

text \<open>A step that replaces models by models of the same kind, and asks for the view of the current one.\<close>

lemma notified_ok:
  assumes "ui_ok u" "similar (ui_vms u) vms" "vms_ok vms"
  shows "ui_ok (NotifyVMUpdated (u\<lparr>ui_vms := vms, ui_srv := s\<rparr>))" "up_to_date (NotifyVMUpdated (u\<lparr>ui_vms := vms, ui_srv := s\<rparr>))"
    "length (ui_vms (NotifyVMUpdated (u\<lparr>ui_vms := vms, ui_srv := s\<rparr>))) = length (ui_vms u)"
proof -
  obtain c where c: "current u c" using assms(1) by (auto simp: ui_ok_def)
  then have cl: "c < length vms" "ui_vm u = Some c" using similar_length[OF assms(2)] by (auto simp: current_def)
  obtain v vm where v: "vm_View (vms ! c) = (v, vm)" by fastforce
  note vo = vm_View_ok[OF vms_ok_nth[OF assms(3) cl(1)] v]
  let ?vms = "vms[c := vm]"
  have sim: "similar (ui_vms u) ?vms" using similar_update[OF assms(2), of c vm] vo by simp
  have ok: "vms_ok ?vms" using vms_ok_update[OF assms(3) cl(1)] vo by simp
  have eq: "NotifyVMUpdated (u\<lparr>ui_vms := vms, ui_srv := s\<rparr>) = u\<lparr>ui_vms := ?vms, ui_srv := s, ui_pending := ui_pending u @ [Some (c, v)]\<rparr>"
    using cl(2) v by (simp add: NotifyVMUpdated_def setView_def)
  have "view_ok v" "of_vm ?vms c v" using vo cl(1) vms_ok_nth[OF ok, of c] by (auto simp: of_vm_def vm_ok_def)
  then show "ui_ok (NotifyVMUpdated (u\<lparr>ui_vms := vms, ui_srv := s\<rparr>))"
    using assms(1) c ok similar_of_vm[OF sim] similar_length[OF sim] unfolding eq by (fastforce simp: ui_ok_def current_def)
  show "up_to_date (NotifyVMUpdated (u\<lparr>ui_vms := vms, ui_srv := s\<rparr>))"
    using cl vo unfolding eq by (simp add: up_to_date_def newest_def)
  show "length (ui_vms (NotifyVMUpdated (u\<lparr>ui_vms := vms, ui_srv := s\<rparr>))) = length (ui_vms u)"
    using similar_length[OF sim] unfolding eq by simp
qed

lemma change_vm_ok:
  assumes "ui_ok u" "i < length (ui_vms u)" "vm_ok vm" "same_vm (ui_vms u ! i) vm"
  shows "ui_ok (change_vm i vm (u\<lparr>ui_srv := s\<rparr>))" "up_to_date (change_vm i vm (u\<lparr>ui_srv := s\<rparr>))"
    "length (ui_vms (change_vm i vm (u\<lparr>ui_srv := s\<rparr>))) = length (ui_vms u)"
proof -
  have "similar (ui_vms u) ((ui_vms u)[i := vm])" by (rule similar_update[OF similar_refl assms(4)])
  moreover have "vms_ok ((ui_vms u)[i := vm])" using vms_ok_update assms by (auto simp: ui_ok_def)
  moreover have "change_vm i vm (u\<lparr>ui_srv := s\<rparr>) = NotifyVMUpdated (u\<lparr>ui_vms := (ui_vms u)[i := vm], ui_srv := s\<rparr>)"
    by (cases u) (simp add: change_vm_def)
  ultimately show "ui_ok (change_vm i vm (u\<lparr>ui_srv := s\<rparr>))" "up_to_date (change_vm i vm (u\<lparr>ui_srv := s\<rparr>))"
    "length (ui_vms (change_vm i vm (u\<lparr>ui_srv := s\<rparr>))) = length (ui_vms u)" using notified_ok[OF assms(1)] by auto
qed

lemmas change_vm_ok' = change_vm_ok[where s = "ui_srv u" and u = u for u, simplified]

lemma new_vm_named: "view_kind (state_view (new_vm base s)) = 0 \<or> vm_LogID (new_vm base s) \<noteq> []"
  by (simp add: new_vm_def)

lemma SetState_ok:
  assumes "vms_ok (ui_vms u)" "(\<exists>i. current u i) \<or> ui_vm u = None \<and> ui_vms u = [] \<and> ui_cancelled u = []"
    "\<forall>p \<in> set (ui_pending u). \<exists>i v. p = Some (i, v) \<and> of_vm (ui_vms u) i v" "\<forall>i v t. ui_shown u = Some (i, v, t) \<longrightarrow> of_vm (ui_vms u) i v"
  shows "ui_ok (SetState V s u) \<and> up_to_date (SetState V s u) \<and> length (ui_vms (SetState V s u)) = Suc (length (ui_vms u))"
proof -
  let ?n = "length (ui_vms u)"
  obtain v vm where v: "vm_View (new_vm (ve_BaseUrl V) s) = (v, vm)" by fastforce
  note vo = vm_View_ok[OF new_vm_ok v]
  let ?c = "case ui_vm u of None \<Rightarrow> ui_cancelled u | Some i \<Rightarrow> ui_cancelled u @ [i]"
  have eq: "SetState V s u = u\<lparr>ui_cancelled := ?c, ui_vms := ui_vms u @ [vm], ui_vm := Some ?n, ui_pending := ui_pending u @ [Some (?n, v)]\<rparr>"
    by (simp add: SetState_def setVM_def v setView_def split: option.splits)
  have f: "ui_vms (SetState V s u) = ui_vms u @ [vm]" "ui_vm (SetState V s u) = Some ?n" "ui_cancelled (SetState V s u) = ?c"
    "ui_pending (SetState V s u) = ui_pending u @ [Some (?n, v)]" "ui_shown (SetState V s u) = ui_shown u" by (simp_all add: eq)
  have ok: "vms_ok (ui_vms u @ [vm])" using assms(1) vo new_vm_named[of "ve_BaseUrl V" s] by (auto simp: vms_ok_def same_vm_def)
  have new: "of_vm (ui_vms u @ [vm]) ?n v" using vo by (auto simp: of_vm_def vm_ok_def)
  have old: "of_vm (ui_vms u @ [vm]) i w" if "of_vm (ui_vms u) i w" for i w using that by (auto simp: of_vm_def nth_append)
  have "set ?c = {..<?n}"
  proof (cases "ui_vm u")
    case None
    then show ?thesis using assms(2) by (auto simp: current_def)
  next
    case (Some i)
    then have "set (ui_cancelled u) = {..<?n} - {i}" "i < ?n" using assms(2) by (auto simp: current_def)
    then show ?thesis using Some by auto
  qed
  moreover have "{..<Suc ?n} - {?n} = {..<?n}" by auto
  ultimately have cur: "current (SetState V s u) ?n" unfolding current_def f by simp
  have pend: "\<exists>i w. p = Some (i, w) \<and> of_vm (ui_vms u @ [vm]) i w" if p: "p \<in> set (ui_pending u @ [Some (?n, v)])" for p
  proof (cases "p \<in> set (ui_pending u)")
    case True
    then obtain i w where "p = Some (i, w)" "of_vm (ui_vms u) i w" using assms(3) by blast
    then show ?thesis using old by blast
  next
    case False
    then show ?thesis using p new by simp
  qed
  have "of_vm (ui_vms u @ [vm]) i w" if "ui_shown u = Some (i, w, t)" for i w t using that assms(4) old by blast
  then have "ui_ok (SetState V s u)" unfolding ui_ok_def f using ok cur pend by blast
  moreover have "up_to_date (SetState V s u)" using vo by (simp add: up_to_date_def newest_def f)
  ultimately show ?thesis by (simp add: f)
qed

lemma SetState_keeps: "ui_ok u \<Longrightarrow> ui_ok (SetState V s u) \<and> up_to_date (SetState V s u) \<and> length (ui_vms (SetState V s u)) = Suc (length (ui_vms u))"
  by (rule SetState_ok) (auto simp: ui_ok_def)

lemma start_ui_ok: "ui_ok (start_ui V s)" "up_to_date (start_ui V s)"
  using SetState_ok[of "\<lparr>ui_vms = [], ui_vm = None, ui_cancelled = [], ui_pending = [], ui_shown = None, ui_quit = False, ui_srv = s\<rparr>" V zero_UIState]
  by (auto simp: start_ui_def vms_ok_def)

lemma ui_act_ok:
  assumes "ui_ok u" "i < length (ui_vms u)"
  shows "ui_ok (ui_act V i a u) \<and> up_to_date (ui_act V i a u) \<and> length (ui_vms u) \<le> length (ui_vms (ui_act V i a u))"
proof -
  have "vm_ok (ui_vms u ! i)" using assms vms_ok_nth by (auto simp: ui_ok_def)
  note og = on_graph_ok[OF this]
  show ?thesis
  proof (cases a)
    case (Navigate s)
    then show ?thesis using SetState_keeps[OF assms(1)] by simp
  next
    case (ChangeOffset dx dy)
    then show ?thesis using change_vm_ok'[OF assms] og(1) by simp
  next
    case (ChangeMode m)
    then show ?thesis using change_vm_ok'[OF assms] og(2) by simp
  qed
qed

lemma ui_acts_ok:
  "ui_ok u \<Longrightarrow> i < length (ui_vms u) \<Longrightarrow> ui_ok (ui_acts V i as u) \<and> (up_to_date u \<longrightarrow> up_to_date (ui_acts V i as u))"
proof (induction as arbitrary: u)
  case (Cons a as)
  note step = ui_act_ok[OF Cons.prems, of V a]
  have "ui_acts V i (a # as) u = ui_acts V i as (ui_act V i a u)" by (simp add: ui_acts_def)
  moreover have "i < length (ui_vms (ui_act V i a u))" using step Cons.prems(2) by simp
  ultimately show ?case using Cons.IH step by simp
qed (simp add: ui_acts_def)

lemma shown_index: "ui_ok u \<Longrightarrow> ui_shown u = Some (i, v, t) \<Longrightarrow> i < length (ui_vms u)"
  by (auto simp: ui_ok_def of_vm_def)

lemma ui_update_ok:
  assumes "ui_ok u" "i < length (ui_vms u)" "ui_update V i a u = Inr u'"
  shows "ui_ok u' \<and> (up_to_date u \<longrightarrow> up_to_date u')"
proof -
  have ok: "vm_ok (ui_vms u ! i)" using assms vms_ok_nth by (auto simp: ui_ok_def)
  obtain vm s where vm: "vm_Update V a (ui_vms u ! i, ui_srv u) = Inr (vm, s)"
    "u' = (if (case ui_vms u ! i of VDetail d \<Rightarrow> dv_updated d | _ \<Rightarrow> False) then u else change_vm i vm (u\<lparr>ui_srv := s\<rparr>))"
    using assms(3) by (auto simp: ui_update_def go_bind_eq_Inr Let_def)
  note vo = vm_Update_ok[OF ok vm(1)]
  show ?thesis using change_vm_ok[OF assms(1,2), of vm s] vo assms(1) unfolding vm(2) by auto
qed

lemma ui_paint_ok:
  assumes "ui_ok u" "j < length (ui_pending u)" "ui_paint V j u = Inr u'"
  shows "ui_ok u' \<and> (j = 0 \<longrightarrow> up_to_date u \<longrightarrow> up_to_date u')"
proof -
  have "ui_pending u ! j \<in> set (ui_pending u)" using assms(2) by simp
  then obtain i v where p: "ui_pending u ! j = Some (i, v)" "of_vm (ui_vms u) i v" using assms(1) unfolding ui_ok_def by blast
  obtain w t where "u' = u\<lparr>ui_shown := Some (i, v, t), ui_pending := take j (ui_pending u) @ drop (Suc j) (ui_pending u)\<rparr>"
    using assms(3) p(1) by (auto simp: ui_paint_def go_bind_eq_Inr)
  then have f: "ui_vms u' = ui_vms u" "ui_vm u' = ui_vm u" "ui_cancelled u' = ui_cancelled u" "ui_shown u' = Some (i, v, t)"
    "ui_pending u' = take j (ui_pending u) @ drop (Suc j) (ui_pending u)" by simp_all
  have "set (ui_pending u') \<subseteq> set (ui_pending u)" unfolding f(5) using set_take_subset[of j "ui_pending u"] set_drop_subset[of "Suc j" "ui_pending u"] by auto
  then have "ui_ok u'" using assms(1) p(2) unfolding ui_ok_def current_def f by blast
  moreover have "newest u' = newest u" if "j = 0"
  proof (cases "ui_pending u")
    case (Cons x xs)
    then show ?thesis using p(1) that by (auto simp: newest_def f)
  qed (use assms(2) in simp)
  ultimately show ?thesis by (simp add: up_to_date_def f)
qed

lemma ui_selected_ok:
  assumes "ui_ok u" "ui_selected sel u = Inr u'"
  shows "ui_ok u' \<and> (up_to_date u \<longrightarrow> up_to_date u')"
proof (cases "\<exists>i v t. ui_shown u = Some (i, v, Some t)")
  case False
  then have "u' = u" using assms(2) by (auto simp: ui_selected_def split: option.splits)
  then show ?thesis using assms(1) by simp
next
  case True
  then obtain i v t where sh: "ui_shown u = Some (i, v, Some t)" by blast
  obtain t' told where ch: "ht_changed sel t = (t', told)" by fastforce
  let ?u = "u\<lparr>ui_shown := Some (i, v, Some t')\<rparr>"
  have ok: "ui_ok ?u" and up: "up_to_date u \<longrightarrow> up_to_date ?u" using assms(1) sh by (auto simp: ui_ok_def current_def up_to_date_def newest_def)
  show ?thesis
  proof (cases told)
    case False
    then show ?thesis using assms(2) sh ch ok up by (simp add: ui_selected_def)
  next
    case True
    then obtain r where r: "vm_selected v sel (ui_vms u ! i) = Inr r" "u' = (case r of None \<Rightarrow> ?u | Some vm \<Rightarrow> change_vm i vm ?u)"
      using assms(2) sh ch by (auto simp: ui_selected_def go_bind_eq_Inr Let_def)
    show ?thesis
    proof (cases r)
      case None
      then show ?thesis using r ok up by simp
    next
      case (Some vm)
      have i: "i < length (ui_vms ?u)" using shown_index[OF assms(1) sh] by simp
      have "vm_ok (ui_vms u ! i)" using assms(1) i vms_ok_nth by (auto simp: ui_ok_def)
      then have "vm_ok vm \<and> same_vm (ui_vms u ! i) vm" using vm_selected_ok r(1) Some by blast
      then show ?thesis using change_vm_ok'[OF ok i, of vm] r(2) Some by simp
    qed
  qed
qed

definition in_order :: "ui_event \<Rightarrow> ui_event" where
  "in_order e = (case e of Paint j \<Rightarrow> Paint 0 | _ \<Rightarrow> e)"

lemma ui_step_ok:
  assumes "ui_ok u" "ui_step V u e = Inr u'"
  shows "ui_ok u' \<and> (in_order e = e \<longrightarrow> up_to_date u \<longrightarrow> up_to_date u')"
proof (cases "ui_quit u")
  case True
  then show ?thesis using assms by (simp add: ui_step_def)
next
  case False
  then have h: "ui_handle V u e = Inr u'" using assms(2) by (simp add: ui_step_def)
  have quit: "ui_ok (u\<lparr>ui_quit := True\<rparr>) \<and> (up_to_date u \<longrightarrow> up_to_date (u\<lparr>ui_quit := True\<rparr>))"
    using assms(1) by (auto simp: ui_ok_def current_def up_to_date_def newest_def)
  show ?thesis
  proof (cases e)
    case (Update i a)
    then show ?thesis using h ui_update_ok[OF assms(1)] assms(1) by (auto split: if_splits)
  next
    case (Paint j)
    then show ?thesis using h ui_paint_ok[OF assms(1), of j V u'] assms(1) by (auto simp: in_order_def split: if_splits)
  next
    case (Key k sel)
    show ?thesis
    proof (cases "ui_shown u")
      case None
      then show ?thesis using h Key assms(1) by (simp add: setKeybindings_def)
    next
      case (Some p)
      obtain i v t where p: "p = (i, v, t)" by (metis surj_pair)
      show ?thesis using h Key Some p quit ui_acts_ok[OF assms(1) shown_index[OF assms(1) Some[unfolded p]]]
        by (auto simp: setKeybindings_def go_bind_eq_Inr split: if_splits)
    qed
  next
    case (SelectionChanged sel)
    then show ?thesis using h ui_selected_ok[OF assms(1)] by simp
  next
    case (ItemActivated sel)
    show ?thesis
    proof (cases "ui_shown u")
      case None
      then show ?thesis using h ItemActivated assms(1) by simp
    next
      case (Some p)
      obtain i v t where p: "p = (i, v, t)" by (metis surj_pair)
      show ?thesis using h ItemActivated Some p ui_acts_ok[OF assms(1) shown_index[OF assms(1) Some[unfolded p]]]
        by (auto simp: go_bind_eq_Inr)
    qed
  qed
qed

text \<open>The contract of machines: the invariant for any order of painting, and with the newest view when views are painted in order.\<close>

interpretation viewer: invariant_machine "ui_step V" "\<lambda>n. ui_ok" "\<lambda>f. True" for V
  by unfold_locales (use ui_step_ok in blast)+

interpretation ordered_viewer: invariant_machine "\<lambda>u e. ui_step V u (in_order e)" "\<lambda>n u. ui_ok u \<and> up_to_date u" "\<lambda>f. True" for V
proof unfold_locales
  fix n :: nat and u e u'
  assume "ui_ok u \<and> up_to_date u" "ui_step V u (in_order e) = Inr u'"
  moreover have "in_order (in_order e) = in_order e" by (simp add: in_order_def split: ui_event.splits)
  ultimately show "ui_ok u' \<and> up_to_date u'" using ui_step_ok by blast
qed simp

subsection \<open>Properties of the viewer\<close>

text \<open>
  C22. Whatever the user does and whenever workers update their models: exactly one context is not cancelled, the one of the current model, no
  nil view is waiting, and when views are painted in the order in which they were asked for, the screen shows the current state of the
  current model as soon as none is waiting.
\<close>

theorem Viewer_shows_the_current_model:
  assumes "go_run (\<lambda>u e. ui_step V u (in_order e)) (start_ui V s) es = Inr u"
  shows "\<exists>i. ui_vm u = Some i \<and> {..<length (ui_vms u)} - set (ui_cancelled u) = {i} \<and> None \<notin> set (ui_pending u) \<and>
    (ui_pending u = [] \<longrightarrow> (\<exists>t. ui_shown u = Some (i, state_view (ui_vms u ! i), t)))"
proof -
  have ok: "ui_ok u" "up_to_date u" using ordered_viewer.run_inv[OF _ assms] start_ui_ok[of V s] by auto
  then obtain i where i: "current u i" by (auto simp: ui_ok_def)
  then have "{..<length (ui_vms u)} - set (ui_cancelled u) = {i}" by (auto simp: current_def)
  moreover have "None \<notin> set (ui_pending u)" using ok(1) by (auto simp: ui_ok_def)
  moreover have "\<exists>t. ui_shown u = Some (i, state_view (ui_vms u ! i), t)" if "ui_pending u = []"
    using ok(2) i that by (auto simp: up_to_date_def newest_def current_def)
  ultimately show ?thesis using i by (auto simp: current_def)
qed

definition failing_env :: "nat viewer_env" where
  "failing_env = \<lparr>ve_T = (\<lambda>m url ps b n. (Inl EIO, n + 1)), ve_BaseUrl = ''http://h'', ve_instant = (\<lambda>t. ''t''), ve_time = (\<lambda>t. ''t''),
     ve_sortLogs = insertion_sort, ve_sortCalls = insertion_sort, ve_sortGIDs = insertion_sort\<rparr>"

definition sample_args :: update_args where
  "sample_args = \<lparr>ua_rows = 10, ua_symbolsFirst = True, ua_lookups = [], ua_requests = [GetSymbols, GetCalls, GetGoroutines],
     ua_gids1 = (\<lambda>m. [1]), ua_gids2 = (\<lambda>m. [1]), ua_gids3 = (\<lambda>m. [1])\<rparr>"

definition failed_list :: LogListState where
  "failed_list = \<lparr>ll_State = LLWait, ll_Error = Some (FailedResp EIO), ll_Logs = [], ll_SelectedID = []\<rparr>"

lemma failing_update:
  "LogListVM_Update failing_env (\<lparr>lv_Client = c, lv_state = new_LogListState, lv_view = v\<rparr>, n) =
    Inr (\<lparr>lv_Client = c, lv_state = failed_list, lv_view = None\<rparr>, n + 1)"
  by (simp add: LogListVM_Update_def client_Logs_def getJSON_def rest_get_def wrapResp_def failing_env_def new_LogListState_def failed_list_def)

definition list_vm :: "LogListState \<Rightarrow> LogListState option \<Rightarrow> vm" where
  "list_vm st v = VList \<lparr>lv_Client = WithCtx ''http://h'', lv_state = st, lv_view = v\<rparr>"

definition list_ui :: "LogListState \<Rightarrow> (nat \<times> view) option list \<Rightarrow> (nat \<times> view \<times> headerTable option) option \<Rightarrow> nat \<Rightarrow> nat ui" where
  "list_ui st ps sh n = \<lparr>ui_vms = [list_vm st (Some st)], ui_vm = Some 0, ui_cancelled = [], ui_pending = ps, ui_shown = sh, ui_quit = False, ui_srv = n\<rparr>"

lemma list_ui_start:
  assumes "ve_BaseUrl V = ''http://h''"
  shows "start_ui V 0 = list_ui new_LogListState [Some (0, ListView new_LogListState)] None 0"
  using assms by (simp add: start_ui_def SetState_def setVM_def new_vm_def zero_UIState_def setView_def LogListVM_View_def list_ui_def list_vm_def)

lemma list_ui_init: "LogListView_init f new_LogListState = Inr (VBox [Spacer, StatusBar ''Log List'' ''Loading ...''], None)"
  "LogListView_init f failed_list = Inr (VBox [ErrorMsg (FailedResp EIO), Spacer, StatusBar ''Log List'' ''Error''], None)"
  by (simp_all add: LogListView_init_def new_LogListState_def failed_list_def newStatusBar_def)

lemma list_ui_paint:
  assumes "LogListView_init (ve_instant V) v = Inr (w, t)"
  shows "ui_step V (list_ui st [Some (0, ListView v)] sh n) (in_order (Paint 0)) = Inr (list_ui st [] (Some (0, ListView v, t)) n)"
  using assms by (simp add: ui_step_def in_order_def ui_paint_def list_ui_def)

lemma list_ui_update:
  assumes "\<And>c v. LogListVM_Update V (\<lparr>lv_Client = c, lv_state = new_LogListState, lv_view = v\<rparr>, n) =
    Inr (\<lparr>lv_Client = c, lv_state = st, lv_view = None\<rparr>, n + 1)"
  shows "ui_step V (list_ui new_LogListState [] sh n) (in_order (Update 0 a)) = Inr (list_ui st [Some (0, ListView st)] sh (n + 1))"
  using assms by (simp add: ui_step_def in_order_def ui_update_def list_ui_def list_vm_def change_vm_def NotifyVMUpdated_def LogListVM_View_def setView_def Let_def)

lemma list_ui_run:
  assumes "ve_BaseUrl V = ''http://h''" "LogListView_init (ve_instant V) st = Inr (w, t)"
    "\<And>c v. LogListVM_Update V (\<lparr>lv_Client = c, lv_state = new_LogListState, lv_view = v\<rparr>, 0) = Inr (\<lparr>lv_Client = c, lv_state = st, lv_view = None\<rparr>, 0 + 1)"
  shows "go_run (\<lambda>u e. ui_step V u (in_order e)) (start_ui V 0) [Paint 0, Update 0 sample_args, Paint 0] =
    Inr (list_ui st [] (Some (0, ListView st, t)) 1)"
  using list_ui_paint[OF list_ui_init(1)] list_ui_paint[OF assms(2)] list_ui_update[OF assms(3)] by (simp add: list_ui_start[OF assms(1)])

lemma failing_run:
  "go_run (\<lambda>u e. ui_step failing_env u (in_order e)) (start_ui failing_env 0) [Paint 0, Update 0 sample_args, Paint 0] =
    Inr (list_ui failed_list [] (Some (0, ListView failed_list, None)) 1)"
  by (rule list_ui_run[OF _ list_ui_init(2) failing_update]) (simp add: failing_env_def)

theorem Viewer_shows_the_current_model_witness:
  "\<exists>u i. go_run (\<lambda>u e. ui_step failing_env u (in_order e)) (start_ui failing_env 0) [Paint 0, Update 0 sample_args, Paint 0] = Inr u \<and>
    ui_vm u = Some i \<and> {..<length (ui_vms u)} - set (ui_cancelled u) = {i} \<and> (\<exists>t. ui_shown u = Some (i, state_view (ui_vms u ! i), t)) \<and>
    state_view (ui_vms u ! i) = ListView failed_list"
proof -
  from Viewer_shows_the_current_model[OF failing_run] obtain i where
    "ui_vm (list_ui failed_list [] (Some (0, ListView failed_list, None)) 1) = Some i"
    "{..<length (ui_vms (list_ui failed_list [] (Some (0, ListView failed_list, None)) 1))} - set (ui_cancelled (list_ui failed_list [] (Some (0, ListView failed_list, None)) 1)) = {i}"
    "\<exists>t. ui_shown (list_ui failed_list [] (Some (0, ListView failed_list, None)) 1) = Some (i, state_view (ui_vms (list_ui failed_list [] (Some (0, ListView failed_list, None)) 1) ! i), t)"
    by (auto simp: list_ui_def)
  moreover from this(1) have "state_view (ui_vms (list_ui failed_list [] (Some (0, ListView failed_list, None)) 1) ! i) = ListView failed_list"
    by (simp add: list_ui_def list_vm_def)
  ultimately show ?thesis using failing_run by blast
qed

text \<open>The keys that open a row ask the table for it; while the logs or the calls are being loaded there is none: the viewer crashes.\<close>

lemma Key_while_loading_panics:
  "go_run (ui_step V) (start_ui V s) [Paint 0, Key ''l'' sel] = Inl NilDereference"
  by (simp add: start_ui_def SetState_def setVM_def new_vm_def zero_UIState_def setView_def LogListVM_View_def ui_step_def ui_paint_def
      LogListView_init_def new_LogListState_def Let_def setKeybindings_def key_defs onActivatedLog_def)

subsection \<open>Navigation\<close>

datatype screen = LogsScreen | CallsScreen string | CallScreen string FuncLog | GraphScreen string

fun screen_of :: "vm \<Rightarrow> screen" where
  "screen_of (VList vm) = LogsScreen"
| "screen_of (VRecords vm) = CallsScreen (rv_LogID vm)"
| "screen_of (VDetail vm) = CallScreen (dv_LogID vm) (dv_Record vm)"
| "screen_of (VGraph vm) = GraphScreen (gv_LogID vm)"

text \<open>The specification: where a key leads to; \<open>l\<close> and \<open>fc\<close> are the log and the call of the selected row.\<close>

fun navigate :: "screen \<Rightarrow> string \<Rightarrow> string \<Rightarrow> FuncLog \<Rightarrow> screen" where
  "navigate LogsScreen k l fc = (if k \<in> {''Right'', ''l''} then CallsScreen l else LogsScreen)"
| "navigate (CallsScreen i) k l fc =
     (if k \<in> {''Left'', ''h''} then LogsScreen else if k \<in> {''Right'', ''l''} then CallScreen i fc else if k = ''t'' then GraphScreen i else CallsScreen i)"
| "navigate (CallScreen i c) k l fc = (if k \<in> {''Left'', ''h''} then CallsScreen i else CallScreen i c)"
| "navigate (GraphScreen i) k l fc = (if k = ''d'' then CallsScreen i else GraphScreen i)"

fun row_chosen :: "view \<Rightarrow> headerTable option \<Rightarrow> int \<Rightarrow> string \<Rightarrow> FuncLog \<Rightarrow> bool" where
  "row_chosen (ListView v) t sel l fc = (t \<noteq> None \<and> 0 < sel \<and> nat (sel - 1) < length (ll_Logs v) \<and> l = li_ID (ll_Logs v ! nat (sel - 1)) \<and> l \<noteq> [])"
| "row_chosen (RecordView v) t sel l fc = (t \<noteq> None \<and> 0 < sel \<and> nat (sel - 1) < length (lr_Records v) \<and> fc = lr_Records v ! nat (sel - 1))"
| "row_chosen v t sel l fc = True"

definition current_screen :: "'s ui \<Rightarrow> screen" where
  "current_screen u = screen_of (ui_vms u ! the (ui_vm u))"

lemma screen_of_View: "vm_View vm = (v, vm') \<Longrightarrow> screen_of vm' = screen_of vm"
  by (cases vm) (auto simp: LogListVM_View_def LogRecordVM_View_def FuncLogDetailVM_View_def GraphVM_View_def split: option.splits prod.splits)

lemma screen_SetState: "current_screen (SetState V s u) = screen_of (new_vm (ve_BaseUrl V) s)"
proof -
  obtain v vm where v: "vm_View (new_vm (ve_BaseUrl V) s) = (v, vm)" by fastforce
  then show ?thesis using screen_of_View[OF v] by (simp add: current_screen_def SetState_def setVM_def setView_def split: option.splits)
qed

lemma screen_change_vm:
  assumes "ui_vm u = Some i" "i < length (ui_vms u)" "screen_of vm = screen_of (ui_vms u ! i)"
  shows "current_screen (change_vm i vm u) = current_screen u" "ui_vm (change_vm i vm u) = Some i" "length (ui_vms (change_vm i vm u)) = length (ui_vms u)"
proof -
  obtain v vm' where v: "vm_View vm = (v, vm')" by fastforce
  then show "current_screen (change_vm i vm u) = current_screen u" "ui_vm (change_vm i vm u) = Some i" "length (ui_vms (change_vm i vm u)) = length (ui_vms u)"
    using assms screen_of_View[OF v] by (auto simp: current_screen_def change_vm_def NotifyVMUpdated_def setView_def)
qed

lemma screen_on_graph: "screen_of (on_graph (onChangedOffset dx dy) vm) = screen_of vm" "screen_of (on_graph (onChangedScrollMode m) vm) = screen_of vm"
  by (cases vm; simp add: onChangedOffset_def onChangedScrollMode_def)+

lemma screen_new_vm:
  "screen_of (new_vm base zero_UIState) = LogsScreen"
  "l \<noteq> [] \<Longrightarrow> screen_of (new_vm base (zero_UIState\<lparr>us_LogID := l\<rparr>)) = CallsScreen l"
  "l \<noteq> [] \<Longrightarrow> screen_of (new_vm base (zero_UIState\<lparr>us_LogID := l, us_UseGraphView := True\<rparr>)) = GraphScreen l"
  "l \<noteq> [] \<Longrightarrow> screen_of (new_vm base (zero_UIState\<lparr>us_LogID := l, us_RecordID := fl_ID fc, us_Record := fc\<rparr>)) =
    (if fl_ID fc = 0 then CallsScreen l else CallScreen l fc)"
  "l \<noteq> [] \<Longrightarrow> screen_of (new_vm base (zero_UIState\<lparr>us_LogID := l, us_RecordID := 0, us_Record := fc\<rparr>)) = CallsScreen l"
  by (simp_all add: new_vm_def zero_UIState_def)

lemma graph_acts:
  assumes "ui_vm u = Some i" "i < length (ui_vms u)" "\<forall>a \<in> set as. \<nexists>s. a = Navigate s"
  shows "current_screen (ui_acts V i as u) = current_screen u"
  using assms
proof (induction as arbitrary: u)
  case (Cons a as)
  have a: "current_screen (ui_act V i a u) = current_screen u \<and> ui_vm (ui_act V i a u) = Some i \<and> length (ui_vms (ui_act V i a u)) = length (ui_vms u)"
    using Cons.prems screen_on_graph screen_change_vm[OF Cons.prems(1,2)] by (cases a) auto
  have "current_screen (ui_acts V i as (ui_act V i a u)) = current_screen (ui_act V i a u)"
    using Cons.IH[of "ui_act V i a u"] a Cons.prems(2,3) by simp
  then show ?case using a by (simp add: ui_acts_def)
qed (simp add: ui_acts_def)

lemma ui_acts_single: "ui_acts V i [Navigate s] u = SetState V s u" "ui_acts V i [] u = u"
  by (simp_all add: ui_acts_def)

text \<open>
  C23. The keys move between the screens as the specification says: from the list of logs to the calls of the selected log, from there to the selected call, to the
  graph and back, while every other key leaves the screen as it is. The one exception is a call with the identifier 0, as the first call of every log has:
  opening it leads back to the list of calls. Nothing panics when the selected row is one of the table.
\<close>

theorem Keys_navigate:
  assumes "go_run (\<lambda>u e. ui_step V u (in_order e)) (start_ui V s) es = Inr u" "ui_pending u = []" "\<not> ui_quit u"
    "ui_shown u = Some (i, v, t)" "row_chosen v t sel l fc" "k \<noteq> ''Q''" "k \<noteq> ''Esc''"
  shows "\<exists>u'. ui_step V u (Key k sel) = Inr u' \<and> current_screen u' =
    (if (\<exists>i. current_screen u = CallsScreen i) \<and> k \<in> {''Right'', ''l''} \<and> fl_ID fc = 0 then current_screen u
     else navigate (current_screen u) k l fc)"
proof -
  have ok: "ui_ok u" "up_to_date u" using ordered_viewer.run_inv[OF _ assms(1)] start_ui_ok[of V s] by auto
  then have cur: "ui_vm u = Some i" "v = state_view (ui_vms u ! i)" and i: "i < length (ui_vms u)"
    using assms(2,4) by (auto simp: up_to_date_def newest_def ui_ok_def current_def)
  have named: "view_kind (state_view (ui_vms u ! i)) = 0 \<or> vm_LogID (ui_vms u ! i) \<noteq> []" using ok(1) i by (auto simp: ui_ok_def vms_ok_def)
  have scr: "current_screen u = screen_of (ui_vms u ! i)" using cur(1) by (simp add: current_screen_def)
  have step: "ui_step V u (Key k sel) = go_bind (view_key v (vm_LogID (ui_vms u ! i)) t k sel) (\<lambda>as. Inr (ui_acts V i as u))"
    using assms(3,4,6,7) by (simp add: ui_step_def setKeybindings_def)
  show ?thesis
  proof (cases "ui_vms u ! i")
    case (VList x)
    then show ?thesis using step cur(2) assms(5)
      by (auto simp: scr ui_acts_single screen_SetState screen_new_vm key_defs onActivatedLog_def)
  next
    case (VRecords x)
    then have id: "rv_LogID x \<noteq> []" using named by simp
    show ?thesis using step cur(2) assms(5) VRecords
      by (auto simp: scr ui_acts_single screen_SetState screen_new_vm screen_new_vm(2)[OF id] screen_new_vm(3)[OF id] screen_new_vm(4)[OF id] screen_new_vm(5)[OF id] key_defs onActivatedRecord_def Let_def)
  next
    case (VDetail x)
    then have id: "dv_LogID x \<noteq> []" using named by simp
    show ?thesis using step cur(2) VDetail by (auto simp: scr ui_acts_single screen_SetState screen_new_vm(2)[OF id] key_defs)
  next
    case (VGraph x)
    then have id: "gv_LogID x \<noteq> []" using named by simp
    have "\<exists>as. view_key v (vm_LogID (ui_vms u ! i)) t k sel = Inr as \<and>
        (if k = ''d'' then as = [Navigate (zero_UIState\<lparr>us_LogID := gv_LogID x\<rparr>)] else (\<forall>a \<in> set as. \<nexists>s. a = Navigate s))"
      using cur(2) VGraph by (auto simp: key_defs)
    then obtain as where as: "ui_step V u (Key k sel) = Inr (ui_acts V i as u)"
      "if k = ''d'' then as = [Navigate (zero_UIState\<lparr>us_LogID := gv_LogID x\<rparr>)] else (\<forall>a \<in> set as. \<nexists>s. a = Navigate s)" using step by auto
    show ?thesis
    proof (cases "k = ''d''")
      case True
      then show ?thesis using as by (simp add: scr VGraph ui_acts_single screen_SetState screen_new_vm(2)[OF id])
    next
      case False
      then show ?thesis using as graph_acts[OF cur(1) i, of as V] by (simp add: scr VGraph)
    qed
  qed
qed

text \<open>A server with one log.\<close>

definition one_log :: LogInfo where
  "one_log = \<lparr>li_ID = ''ab'', li_Version = 1, li_Metadata = zero_LogMetadata, li_MaxFileSize = 0, li_ReadOnly = True\<rparr>"

definition one_log_env :: "nat viewer_env" where
  "one_log_env = failing_env\<lparr>ve_T := (\<lambda>m url ps b n. (Inr \<lparr>rs_status = StatusOK, rs_body = [BodyJson (JLogs [one_log])]\<rparr>, n + 1))\<rparr>"

definition one_log_list :: LogListState where
  "one_log_list = \<lparr>ll_State = LLWait, ll_Error = None, ll_Logs = [one_log], ll_SelectedID = []\<rparr>"

lemma one_log_update:
  "LogListVM_Update one_log_env (\<lparr>lv_Client = c, lv_state = new_LogListState, lv_view = v\<rparr>, n) =
    Inr (\<lparr>lv_Client = c, lv_state = one_log_list, lv_view = None\<rparr>, n + 1)"
  by (simp add: LogListVM_Update_def client_Logs_def getJSON_def rest_get_def wrapResp_def one_log_env_def failing_env_def new_LogListState_def one_log_list_def
      json_value_def StatusOK_def)

theorem Keys_navigate_witness:
  "\<exists>u u'. go_run (\<lambda>u e. ui_step one_log_env u (in_order e)) (start_ui one_log_env 0) [Paint 0, Update 0 sample_args, Paint 0] = Inr u \<and>
    ui_step one_log_env u (Key ''l'' 1) = Inr u' \<and> current_screen u' = CallsScreen ''ab''"
proof -
  obtain w t where wt: "LogListView_init (ve_instant one_log_env) one_log_list = Inr (w, Some t)"
    by (simp add: LogListView_init_def one_log_list_def Let_def)
  let ?u = "list_ui one_log_list [] (Some (0, ListView one_log_list, Some t)) 1"
  have run: "go_run (\<lambda>u e. ui_step one_log_env u (in_order e)) (start_ui one_log_env 0) [Paint 0, Update 0 sample_args, Paint 0] = Inr ?u"
    by (rule list_ui_run[OF _ wt one_log_update]) (simp add: one_log_env_def failing_env_def)
  have row: "row_chosen (ListView one_log_list) (Some t) 1 ''ab'' zero_FuncLog" by (simp add: one_log_list_def one_log_def)
  have "current_screen ?u = LogsScreen" by (simp add: current_screen_def list_ui_def list_vm_def)
  with Keys_navigate[OF run _ _ _ row, of 0 "''l''"] show ?thesis using run by (simp add: list_ui_def)
qed

text \<open>
  The coordinator takes a call with the identifier 0, which is the first call of every log, for no call: its details are never shown.
\<close>

lemma First_call_has_no_detail:
  "fl_ID fc = 0 \<Longrightarrow> l \<noteq> [] \<Longrightarrow> current_screen (SetState V (zero_UIState\<lparr>us_LogID := l, us_RecordID := fl_ID fc, us_Record := fc\<rparr>) u) = CallsScreen l"
  using screen_new_vm(4)[of l "ve_BaseUrl V" fc] by (simp add: screen_SetState)

end
