(* ===== verification/SqlSearch.thy ===== *)
theory SqlSearch
  imports CallSearch
begin

section \<open>SqlSearch: the SQL handler (\<open>search\<close> in \<open>tracer/restapi/handlers.go\<close>)\<close>

text \<open>
  The handler answers a SELECT over one of five tables of a log. The response is written as the rows are found: the state of
  the closures is that of \<open>query\<close> with the writer of the response. The rows are read
  ahead here: reading a row changes nothing but the read buffer of the store. The source takes the lock of the store for each row and asks anew how
  many records there are, so that on the log of a running trace it also finds rows that were added after its start; the model
  has the search of a log to which nothing is added meanwhile.
\<close>

definition http_SetUpRow :: "SqlAny \<Rightarrow> query \<times> writer \<Rightarrow> (query \<times> writer) go" where
  "http_SetUpRow e = (\<lambda>(q, wr). go_bind (query_SetUpRow e q) (\<lambda>q. Inr (q, wr)))"

definition http_csv_header :: "string list \<Rightarrow> query \<times> writer \<Rightarrow> bool \<times> query \<times> writer" where
  "http_csv_header names = (\<lambda>(q, wr). case wr_write (WriteBytes (header_line names)) wr of (ok, wr) \<Rightarrow> (ok, q, wr))"

definition http_Where :: "sql_libs \<Rightarrow> SqlAny \<Rightarrow> (SqlRow \<Rightarrow> SqlRow \<Rightarrow> SqlRow) \<Rightarrow> SqlRow \<Rightarrow> query \<times> writer \<Rightarrow> (bool \<times> query \<times> writer) go" where
  "http_Where L e load row = (\<lambda>(q, wr). go_bind (query_Where L e load row q) (\<lambda>(b, q). Inr (b, q, wr)))"

definition http_Send :: "(Time \<Rightarrow> string) \<Rightarrow> SqlFieldGetter list \<Rightarrow> SqlRow \<Rightarrow> query \<times> writer \<Rightarrow> (bool \<times> query \<times> writer) go" where
  "http_Send ts gs row = (\<lambda>(q, wr).
     go_bind (query_Send ts gs row (q\<lparr>q_out := []\<rparr>)) (\<lambda>(_, q).
     case wr_write (WriteBytes (q_out q)) wr of (ok, wr) \<Rightarrow> Inr (ok, q, wr)))"

definition run_query ::
  "search_env \<Rightarrow> nat \<Rightarrow> SelectParser \<Rightarrow> SqlRow \<Rightarrow> (SqlRow \<Rightarrow> SqlRow \<Rightarrow> SqlRow) \<Rightarrow> (unit + SqlRow) list \<Rightarrow> writer \<Rightarrow> writer go" where
  "run_query E bufsz sp row load rds wr =
     (let e = (case sp_where sp of None \<Rightarrow> Const (SqlBool True) | Some e \<Rightarrow> e) in
      case SelectParser_Limit sp of (off, rows) \<Rightarrow>
      go_bind (row_Fields row (sp_fields sp)) (\<lambda>gs.
      let q = \<lparr>q_sql = new_state row, q_conv = replicate (length gs) None, q_line = make_slice bufsz, q_out = []\<rparr> in
      go_bind (csvResponse_Run (http_SetUpRow e) (http_csv_header (ColNames sp)) (http_Where (se_sql E) e load) (http_Send (se_time E) gs) off rows rds (q, wr))
        (\<lambda>(r, q', wr').
        case r of
          BadRequest \<Rightarrow> Inr (http_Error (case query_SetUpRow e q of Inl f \<Rightarrow> se_panic E f | Inr _ \<Rightarrow> []) StatusBadRequest wr')
        | Answer \<Rightarrow> Inr wr')))"

subsection \<open>The tables\<close>

text \<open>
  Calls and frames: the records of the store are read one after the other into the same row, the frames of a record before the
  next one. \<open>calls_Read\<close> and \<open>frames_Read\<close> are the closures; as many calls of them as there are rows, one more for the end and one for an error
  are enough. The row keeps its offset in the table of calls.
\<close>

definition load_call :: "SqlRow \<Rightarrow> SqlRow \<Rightarrow> SqlRow" where
  "load_call old row =
     (case (old, row) of (FuncLogRow x, FuncLogRow y) \<Rightarrow> FuncLogRow (y\<lparr>fr_offset := fr_offset x\<rparr>) | _ \<Rightarrow> row)"

definition load_frame :: "SqlRow \<Rightarrow> SqlRow \<Rightarrow> SqlRow" where
  "load_frame old row = row"

definition row_of_call :: "Symbols \<Rightarrow> FuncLog \<times> int \<Rightarrow> SqlRow" where
  "row_of_call sy = (\<lambda>(fl, i). FuncLogRow \<lparr>fr_FuncLog = fl, fr_Symbols = sy, fr_offset = i\<rparr>)"

definition read_fuel :: "FuncLog list \<Rightarrow> nat" where
  "read_fuel fls = sum_list (map (\<lambda>fl. max 1 (length (fl_Frames fl))) fls) + 2"

definition call_reads :: "bool \<Rightarrow> FuncLog \<Rightarrow> FuncLog list \<Rightarrow> error option \<Rightarrow> int64 \<Rightarrow> (unit + FuncLog \<times> int) list option" where
  "call_reads fr fl0 fls e n =
     (let get = (\<lambda>i. if nat (sint i) < length fls then Inr (fls ! nat (sint i)) else Inl (case e of Some e \<Rightarrow> e | None \<Rightarrow> EOF))
      in read_rows (read_fuel fls) (if fr then frames_Read get n else calls_Read get n) (init_reader fl0))"

definition search_calls ::
  "search_env \<Rightarrow> FuncLog \<Rightarrow> SelectParser \<Rightarrow> world \<Rightarrow> 'u Log \<Rightarrow> writer \<Rightarrow> ('u Log \<times> world \<times> writer) go" where
  "search_calls E fl0 sp w l wr =
     go_bind (deref (lg_symbols l)) (\<lambda>sy.
     go_bind (Log_FuncLog (\<lambda>w st.
         go_bind (get_each (FuncLog_GetNolock MaxStackSize) (nat (Records st)) 0 w st) (\<lambda>((e, fls), st', w). Inr ((e, fls, word_of_int (Records st)), st', w))) w l)
       (\<lambda>((e, fls, n), l, w).
     let fr = (tb_Name (sp_table sp) = ''frames'') in
     case call_reads fr fl0 fls e n of
       None \<Rightarrow> Inl Deadlock
     | Some rds \<Rightarrow>
         go_bind (run_query E (64 * 1024) sp (row_of_call sy (fl0, 0)) (if fr then load_frame else load_call) (map (map_sum id (row_of_call sy)) rds) wr)
           (\<lambda>wr. Inr (l, w, wr))))"

definition search_goroutines ::
  "search_env \<Rightarrow> SelectParser \<Rightarrow> world \<Rightarrow> 'u Log \<Rightarrow> writer \<Rightarrow> ('u Log \<times> world \<times> writer) go" where
  "search_goroutines E sp w l wr =
     go_bind (Log_Goroutine (\<lambda>w st. get_each Goroutine_GetNolock (nat (Records st)) 0 w st) w l) (\<lambda>((e, gs), l, w).
     go_bind (run_query E (64 * 1024) sp (GoroutineRow \<lparr>g_GID = 0, g_StartTime = 0, g_EndTime = 0\<rparr>) load_frame
         (map (\<lambda>g. Inr (GoroutineRow g)) gs @ (case e of None \<Rightarrow> [] | Some _ \<Rightarrow> [Inl ()])) wr)
       (\<lambda>wr. Inr (l, w, wr)))"

text \<open>The functions and the modules are copied from the symbol table.\<close>

definition search_funcs :: "search_env \<Rightarrow> SelectParser \<Rightarrow> 'u Log \<Rightarrow> writer \<Rightarrow> writer go" where
  "search_funcs E sp l wr =
     go_bind (deref (lg_symbols l)) (\<lambda>sy.
     let fns = Symbols_Save sy sd_Funcs in
     run_query E (1024 * 1024) sp (GoFuncRow \<lparr>gr_GoFunc = zero_GoFunc, gr_Symbols = sy\<rparr>) load_frame
       (map (\<lambda>f. Inr (GoFuncRow \<lparr>gr_GoFunc = f, gr_Symbols = sy\<rparr>)) fns) wr)"

definition search_modules :: "search_env \<Rightarrow> SelectParser \<Rightarrow> 'u Log \<Rightarrow> writer \<Rightarrow> writer go" where
  "search_modules E sp l wr =
     go_bind (deref (lg_symbols l)) (\<lambda>sy.
     let mods = Symbols_Save sy sd_Mods in
     run_query E (64 * 1024) sp (GoModuleRow zero_GoModule) load_frame (map (\<lambda>m. Inr (GoModuleRow m)) mods) wr)"

definition api_search ::
  "search_env \<Rightarrow> FuncLog \<Rightarrow> request \<Rightarrow> world \<Rightarrow> 'u Storage \<Rightarrow> writer \<Rightarrow> ('u Storage \<times> world \<times> writer) go" where
  "api_search E fl0 r w s wr =
     (case getLog r s wr of
        (None, wr) \<Rightarrow> Inr (s, w, wr)
      | (Some (i, p), wr) \<Rightarrow>
          let query = rq_query r ''sql'' in
          if query = [] then Inr (s, w, http_Error ''missing \"sql\" parameter'' StatusBadRequest wr)
          else go_bind (ParseSelect (se_parser E) (se_eqs E) query) (\<lambda>res.
            case res of
              Inl e \<Rightarrow> Inr (s, w, http_Error (se_error E e) StatusBadRequest wr)
            | Inr sp \<Rightarrow>
                go_bind (deref p) (\<lambda>l.
                let table = tb_Name (sp_table sp) in
                if table = ''calls'' \<or> table = ''frames'' then go_bind (search_calls E fl0 sp w l wr) (\<lambda>(l, w, wr). Inr (put_log i l s, w, wr))
                else if table = ''goroutines'' then go_bind (search_goroutines E sp w l wr) (\<lambda>(l, w, wr). Inr (put_log i l s, w, wr))
                else if table = ''funcs'' then go_bind (search_funcs E sp l wr) (\<lambda>wr. Inr (s, w, wr))
                else if table = ''modules'' then go_bind (search_modules E sp l wr) (\<lambda>wr. Inr (s, w, wr))
                else Inl (Panic ''bug''))))"

subsection \<open>The closures keep the contract of \<open>csvResponse\<close>\<close>

definition http_inv ::
  "sql_libs \<Rightarrow> bool \<Rightarrow> SqlAny \<Rightarrow> (SqlRow \<Rightarrow> SqlRow \<Rightarrow> SqlRow) \<Rightarrow> Field list \<Rightarrow> SqlFieldGetter list \<Rightarrow> SqlRow \<Rightarrow> nat \<Rightarrow> query \<times> writer \<Rightarrow> bool" where
  "http_inv L inner e load flds gs rw bufsz = (\<lambda>(q, wr). query_inv L inner e load flds gs rw bufsz q \<and> wr_room wr = None)"

lemma query_inv_out [simp]: "query_inv L inner e load flds gs rw bufsz (q\<lparr>q_out := out\<rparr>) = query_inv L inner e load flds gs rw bufsz q"
  by (simp add: query_inv_def)

lemma query_at_out [simp]: "query_at inner row (q\<lparr>q_out := out\<rparr>) = query_at inner row q"
  by (simp add: query_at_def)

lemma http_where_law:
  assumes "http_inv L inner e load flds gs rw bufsz (q, wr)" "row_ok L ts e flds rw bufsz row"
  shows "\<exists>q'. http_Where L e load row (q, wr) = Inr (row_hit L e row, q', wr) \<and>
    http_inv L inner e load flds gs rw bufsz (q', wr) \<and> query_at inner row q'"
  using query_where_law[of L inner e load flds gs rw bufsz q ts row] assms by (auto simp: http_inv_def http_Where_def)

lemma http_send_law:
  assumes "http_inv L inner e load flds gs rw bufsz (q, wr)" "query_at inner row q" "row_ok L ts e flds rw bufsz row"
  shows "\<exists>q'. http_Send ts gs row' (q, wr) = Inr (True, q', wr\<lparr>wr_out := wr_out wr @ [WriteBytes (row_line ts flds row)]\<rparr>) \<and>
    query_inv L inner e load flds gs rw bufsz q'"
  using query_send_law[of L inner e load flds gs rw bufsz "q\<lparr>q_out := []\<rparr>" row ts row'] assms
  by (auto simp: http_inv_def http_Send_def wr_write_def)

interpretation http: csv_source "http_Where L e load" "http_Send ts gs" "http_inv L inner e load flds gs rw bufsz"
    "\<lambda>row s. http_inv L inner e load flds gs rw bufsz s \<and> query_at inner row (fst s)" "row_ok L ts e flds rw bufsz" "row_hit L e"
    "\<lambda>row. [WriteBytes (row_line ts flds row)]" "\<lambda>s. wr_out (snd s)"
  for L e load ts gs inner flds rw bufsz
proof
  show "\<And>s row. http_inv L inner e load flds gs rw bufsz s \<Longrightarrow> row_ok L ts e flds rw bufsz row \<Longrightarrow>
      \<exists>s'. http_Where L e load row s = Inr (row_hit L e row, s') \<and>
        (http_inv L inner e load flds gs rw bufsz s' \<and> query_at inner row (fst s')) \<and> wr_out (snd s') = wr_out (snd s)"
    using http_where_law by fastforce
  show "\<And>row s. http_inv L inner e load flds gs rw bufsz s \<and> query_at inner row (fst s) \<Longrightarrow> row_ok L ts e flds rw bufsz row \<Longrightarrow>
      \<exists>s'. http_Send ts gs row s = Inr (True, s') \<and> http_inv L inner e load flds gs rw bufsz s' \<and>
        wr_out (snd s') = wr_out (snd s) @ [WriteBytes (row_line ts flds row)]"
    using http_send_law by (fastforce simp: http_inv_def)
qed simp

definition csv_answer :: "search_env \<Rightarrow> SelectParser \<Rightarrow> SqlRow list \<Rightarrow> reply list" where
  "csv_answer E sp rows = WriteBytes (header_line (ColNames sp)) #
     map (\<lambda>row. WriteBytes (row_line (se_time E) (sp_fields sp) row))
       (case SelectParser_Limit sp of (off, lim) \<Rightarrow> csv_window (sint off) (sint lim) (filter (row_hit (se_sql E) (where_clause sp)) rows))"

text \<open>A statement that its table can answer: what the theorem on \<open>search_table\<close> asks for.\<close>

definition answerable :: "search_env \<Rightarrow> bool \<Rightarrow> nat \<Rightarrow> SelectParser \<Rightarrow> SqlRow \<Rightarrow> SqlRow list \<Rightarrow> bool" where
  "answerable E inner bufsz sp row rows \<longleftrightarrow>
     row_of_table (tb_Name (sp_table sp)) row \<and> sp_fields sp \<noteq> [] \<and> steady inner (where_clause sp) \<and> columns_ok inner (sp_fields sp) \<and>
     (\<exists>s. any_WithRow (where_clause sp) [] (new_state row) = Inr s) \<and>
     list_all (row_ok (se_sql E) (se_time E) (where_clause sp) (sp_fields sp) row bufsz) rows \<and> length rows < 2 ^ 63 \<and>
     (case SelectParser_Limit sp of (off, lim) \<Rightarrow> 0 \<le> sint off \<and> sint off + sint lim < 2 ^ 63)"

lemma concat_single: "concat (map (\<lambda>x. [f x]) xs) = map f xs"
  by (induction xs) auto

lemma run_query_ok:
  assumes "ParseSelect (se_parser E) (se_eqs E) sql = Inr (Inr sp)" "answerable E inner bufsz sp row rows" "loads inner load" "wr_room wr = None"
  shows "\<exists>wr'. run_query E bufsz sp row load (map Inr rows) wr = Inr wr' \<and> wr_out wr' = wr_out wr @ csv_answer E sp rows"
proof -
  let ?e = "where_clause sp" and ?L = "se_sql E" and ?ts = "se_time E" and ?flds = "sp_fields sp"
  obtain s off lim where a: "row_of_table (tb_Name (sp_table sp)) row" "?flds \<noteq> []" "steady inner ?e" "columns_ok inner ?flds"
      "any_WithRow ?e [] (new_state row) = Inr s" "list_all (row_ok ?L ?ts ?e ?flds row bufsz) rows" "length rows < 2 ^ 63"
      "SelectParser_Limit sp = (off, lim)" "0 \<le> sint off" "sint off + sint lim < 2 ^ 63"
    using assms(2) by (auto simp: answerable_def)
  obtain stmt where "Parse (se_eqs E) (new_SelectParser stmt) = Inr (Inr sp)"
    using assms(1) by (auto simp: ParseSelect_def split: option.splits)
  from Parse_checked[OF this] row_Fields_served[OF _ _ a(1)] obtain gs where
    gs: "row_Fields row ?flds = Inr gs" "list_all2 (\<lambda>f g. row_Field row f = Inr g) ?flds gs" by blast
  then have ne: "gs \<noteq> []" using a(2) by auto
  let ?init = "\<lparr>q_sql = new_state row, q_conv = replicate (length gs) None, q_line = make_slice bufsz, q_out = []\<rparr>"
  let ?q = "\<lparr>q_sql = s, q_conv = replicate (length gs) None, q_line = make_slice bufsz, q_out = []\<rparr>"
  let ?wr = "wr\<lparr>wr_out := wr_out wr @ [WriteBytes (header_line (ColNames sp))]\<rparr>"
  have inv: "http_inv ?L inner ?e load ?flds gs row bufsz (?q, ?wr)"
    using query_inv_init[OF a(5,3) assms(3) a(4) ne gs(2)] assms(4) by (simp add: http_inv_def)
  from http.run_sends[where L = ?L and e = ?e and load = load and ts = ?ts and gs = gs and k = 0, OF a(9,10) _ _ inv a(6)] a(7)
  obtain s' where s': "Run_loop (http_Where ?L ?e load) (http_Send ?ts gs) off lim (map Inr rows) 0 (?q, ?wr) = Inr s'"
    "wr_out (snd s') = wr_out ?wr @ map (\<lambda>row. WriteBytes (row_line ?ts ?flds row)) (sent (sint off) (sint lim) 0 (filter (row_hit ?L ?e) rows))"
    by (auto simp: concat_single)
  obtain q2 wr2 where p: "s' = (q2, wr2)" by (cases s')
  have set_up: "http_SetUpRow ?e (?init, wr) = Inr (?q, wr)" by (simp add: http_SetUpRow_def query_SetUpRow_def a(5))
  have hdr: "http_csv_header (ColNames sp) (?q, wr) = (True, ?q, ?wr)" using assms(4) by (simp add: http_csv_header_def wr_write_def)
  have run: "csvResponse_Run (http_SetUpRow ?e) (http_csv_header (ColNames sp)) (http_Where ?L ?e load) (http_Send ?ts gs) off lim (map Inr rows) (?init, wr) =
      Inr (Answer, s')"
    by (simp add: csvResponse_Run_def set_up hdr s'(1))
  show ?thesis using run gs(1) a(8) s'(2)[unfolded sent_window[OF a(9)]] unfolding p
    by (simp add: run_query_def where_clause_def[symmetric] csv_answer_def)
qed

subsection \<open>The tables of calls and frames\<close>

definition table_calls :: "bool \<Rightarrow> FuncLog list \<Rightarrow> (FuncLog \<times> int) list" where
  "table_calls fr fls =
     (if fr then concat (map (\<lambda>fl. map (\<lambda>i. (fl, int i)) [0..<max 1 (length (fl_Frames fl))]) fls) else map (\<lambda>fl. (fl, 0)) fls)"

lemma table_calls_frames: "concat (map frame_rows fls) = map Inr (table_calls True fls)"
  by (induction fls) (simp_all add: frame_rows_def table_calls_def)

lemma length_frame_rows: "length (concat (map frame_rows fls)) = sum_list (map (\<lambda>fl. max 1 (length (fl_Frames fl))) fls)"
  by (induction fls) (simp_all add: frame_rows_def)

lemma length_calls: "length fls \<le> sum_list (map (\<lambda>fl. max 1 (length (fl_Frames fl))) fls)"
  by (induction fls) auto

lemma call_reads_ok:
  assumes "length fls < 2 ^ 63"
  shows "call_reads fr fl0 fls None (word_of_nat (length fls)) = Some (map Inr (table_calls fr fls))"
proof -
  let ?get = "\<lambda>i :: int64. if nat (sint i) < length fls then Inr (fls ! nat (sint i)) else Inl EOF"
  have "\<forall>i < length fls. ?get (word_of_nat i) = Inr (fls ! i)"
    using record_id[OF less_imp_le assms] by simp
  from Tables_are_read_completely[OF assms this refl, of "read_fuel fls" fl0]
  have "read_rows (read_fuel fls) (calls_Read ?get (word_of_nat (length fls))) (init_reader fl0) = Some (map Inr (table_calls False fls))"
    "read_rows (read_fuel fls) (frames_Read ?get (word_of_nat (length fls))) (init_reader fl0) = Some (map Inr (table_calls True fls))"
    using length_calls[of fls] length_frame_rows[of fls] unfolding table_calls_frames
    by (simp_all add: read_fuel_def del: read_rows.simps) (simp add: table_calls_def comp_def)
  then show ?thesis by (cases fr) (simp_all only: call_reads_def Let_def if_True if_False option.case)
qed

lemma search_calls_ok:
  assumes "log_stores True w l a" "holds_calls a fls" "lg_symbols l = Some sy" "fr \<longleftrightarrow> tb_Name (sp_table sp) = ''frames''"
    "ParseSelect (se_parser E) (se_eqs E) sql = Inr (Inr sp)" "answerable E fr (64 * 1024) sp (row_of_call sy (fl0, 0)) (map (row_of_call sy) (table_calls fr fls))"
    "wr_room wr = None"
  shows "\<exists>l' w' wr'. search_calls E fl0 sp w l wr = Inr (l', w', wr') \<and>
    wr_out wr' = wr_out wr @ csv_answer E sp (map (row_of_call sy) (table_calls fr fls))"
proof -
  have n: "length fls < 2 ^ 63" using assms(2) by (simp add: holds_calls_def)
  obtain s w' where r: "Log_FuncLog (\<lambda>w st.
         go_bind (get_each (FuncLog_GetNolock MaxStackSize) (nat (Records st)) 0 w st) (\<lambda>((e, fls), st', w). Inr ((e, fls, word_of_int (Records st)), st', w))) w l =
      Inr ((None, fls, word_of_nat (length fls) :: int64), l\<lparr>lg_funcLog := s\<rparr>, w')"
    using read_all_calls[OF assms(1,2), of "\<lambda>st. nat (Records st)" "\<lambda>st. word_of_int (Records st) :: int64", simplified]
    by (elim exE conjE) (rule that, simp add: Log_FuncLog_def)
  have "loads fr (if fr then load_frame else load_call)"
    by (auto simp: loads_def load_frame_def load_call_def same_row_def at_offset_def FuncLogRow_SetOffset_def split: SqlRow.splits)
  from run_query_ok[OF assms(5,6) this assms(7)] obtain wr' where
    "run_query E (64 * 1024) sp (row_of_call sy (fl0, 0)) (if fr then load_frame else load_call) (map Inr (map (row_of_call sy) (table_calls fr fls))) wr = Inr wr'"
    "wr_out wr' = wr_out wr @ csv_answer E sp (map (row_of_call sy) (table_calls fr fls))" by blast
  then show ?thesis using assms(3) r call_reads_ok[OF n, of fr fl0]
    by (simp add: search_calls_def deref_def Let_def assms(4)[symmetric] comp_def)
qed

subsection \<open>The property\<close>


text \<open>\<open>SELECT id FROM calls WHERE gid = 7\<close> over the archive of the samples: the calls 0 and 2.\<close>

definition id_field :: Field where
  "id_field = \<lparr>f_Table = ''calls'', f_Name = ''id'', f_AliasName = ''id''\<rparr>"

definition calls_statement :: Select where
  "calls_statement = \<lparr>sel_Distinct = [], sel_From = [AliasedTableExpr (TableName [] ''calls'') []],
     sel_SelectExprs = [AliasedExpr (ColName [] ''id'') []],
     sel_Where = Some (ComparisonExpr EqualStr (ColName [] ''gid'') (SQLVal IntVal ''7'')),
     sel_GroupBy = False, sel_Having = False, sel_OrderBy = False, sel_Limit = None\<rparr>"

definition statement_env :: search_env where
  "statement_env = sample_env\<lparr>se_parser := (\<lambda>_. Some (Some calls_statement))\<rparr>"

lemma ParseInt_7: "ParseInt ''7'' = (7, None)"
  by (simp add: ParseInt_def ParseUint_def digit_val_def Let_def)

lemma calls_statement_parse:
  "\<exists>sp al. ParseSelect (se_parser statement_env) (se_eqs statement_env) ''q'' = Inr (Inr sp) \<and> tb_Name (sp_table sp) = ''calls'' \<and>
    sp_fields sp = [id_field] \<and> sp_where sp = Some (CompOp EqualStr (SqlField \<lparr>f_Table = ''calls'', f_Name = ''gid'', f_AliasName = al\<rparr>) (Const (SqlBigInt 7))) \<and>
    SelectParser_Limit sp = (0, 0)"
  by (simp add: statement_env_def sample_env_def ParseSelect_def Parse_def new_SelectParser_def calls_statement_def parseFrom_def findTableByName_def tables_def parseCols_def
      star_fields_def field_found_def HasField_def Parse_where_def Parse_tail_def ParseInt_7 SelectParser_Limit_def id_field_def)

lemma calls_statement_rows:
  assumes "w = CompOp EqualStr (SqlField \<lparr>f_Table = ''calls'', f_Name = ''gid'', f_AliasName = al\<rparr>) (Const (SqlBigInt 7))"
  shows "meaning w L (row_of_call sy (fl, i)) = Inr (fl_GID fl = 7)" "read_field (row_of_call sy (fl, i)) id_field = Inr (SqlBigInt (fl_ID fl))"
    "steady False w" "\<exists>s. any_WithRow w [] (new_state (row_of_call sy (fl, i))) = Inr s"
  by (simp_all add: assms row_of_call_def read_field_def id_field_def row_Field_def FuncLogRow_Field_def Let_def new_state_def
      e_type_def e_int_def choose_compare_def int_compare_def int_result_def pure_compare_def val_Type_def val_BigInt_def field_ok_def pattern_op_def)


end
