(* ===== verification/Spec2Isabelle.thy ===== *)
theory Spec2Isabelle
  imports Encoding Simulator Stores Index Client Query ServerRun RestClient Logger Program Editor Viewer SqlSearch
begin

text \<open>
  Goapptrace traces Go programs. A probe in the traced program records the start and the end of every
  function call and sends the records to a log server; the server rebuilds the calls, stores them in
  files and answers queries. This development models the code of that path, from the statement inserted
  into the functions of the traced program to the rows of a query, and proves what each part promises and how the parts work
  together. All paths below are relative to \<open>src/\<close>.

  \<^bold>\<open>Foundations.\<close>
  \<^item> \<^theory_text>\<open>Prelude\<close>: results of Go code (\<open>'a go\<close>: a fault or a value, where a fault is a panic, a failed bounds
    check, a nil dereference or a wait that never ends), byte slices with capacity, formatting and
    parsing of numbers, and the lemmas on lists, maps and words that are shared.
  \<^item> \<^theory_text>\<open>Machines\<close>: runs of step functions and the locales \<open>invariant_machine\<close> and \<open>simulating_machine\<close>;
    \<^theory_text>\<open>Codec\<close>: the locale \<open>codec\<close> of an encoder and a decoder over slices; \<^theory_text>\<open>Strings\<close>: prefixes and suffixes.

  \<^bold>\<open>Data.\<close>
  \<^item> \<^theory_text>\<open>Types\<close> (\<open>tracer/types\<close>): identifiers and times as 64-bit words, the records of calls, goroutines
    and metadata, their string and JSON forms.
  \<^item> \<^theory_text>\<open>Symbols\<close> (\<open>tracer/types/symbols.go\<close>): the symbol table. \<open>Validate\<close> is equivalent to a declarative
    well-formedness, under which the binary searches find the enclosing function and line.
  \<^item> \<^theory_text>\<open>Encoding\<close> (\<open>tracer/encoding\<close>): marshalling to slices; every pair interprets \<open>codec\<close>, sizes are exact.

  \<^bold>\<open>Rebuilding calls.\<close> \<^theory_text>\<open>Simulator\<close> (\<open>tracer/simulator\<close>) models \<open>StateSimulator\<close> and its store. The
  specification is a forest of calls with a stack of open calls per goroutine; the simulator simulates
  it on well-nested streams and never dereferences a missing record on any stream.

  \<^bold>\<open>Storage\<close> (\<open>tracer/storage\<close>).
  \<^item> \<^theory_text>\<open>Files\<close>: files as byte lists in a \<open>world\<close>, with a list of faults that the operations meet, so that
    theorems about failing disks quantify over that list. \<open>frame\<close> says that only one file has changed.
  \<^item> \<^theory_text>\<open>Buffer\<close>, \<^theory_text>\<open>Store\<close>, \<^theory_text>\<open>Stores\<close>: the read and write buffers, the store of fixed-size records, and the typed
    stores. A store refines an array of zero-padded records, read, written and grown at once; reads of a store whose record size divides the buffer size
    are covered up to what was there at the first read, since beyond it the code misreads. The locale \<open>record_store\<close> has the laws of
    the typed stores and is interpreted for calls, raw records and goroutines.
  \<^item> \<^theory_text>\<open>Index\<close>: the time index of a log. \<^theory_text>\<open>Layout\<close>: names of files and the version check of a directory.
  \<^item> \<^theory_text>\<open>Gob\<close>: the gob encoder and decoder, the symbols file, the reader and writer of split files, which refines a list
    of segments, and the compact log. The bytes of a gob stream are a parameter.
  \<^item> \<^theory_text>\<open>Log\<close>, \<^theory_text>\<open>Storage\<close>: a log composes the above with metadata and watchers; \<open>writable_log\<close>, \<open>closed_log\<close> and
    \<open>on_disk\<close> are the states of its life, and opening, closing and reopening lead from one to the next.

  \<^bold>\<open>Protocol\<close> (\<open>tracer/protocol\<close>).
  \<^item> \<^theory_text>\<open>Packet\<close>: packets, framing and merging. \<^theory_text>\<open>MergeSender\<close>: the buffer that merges small packets and the
    worker that flushes it, which refine a queue of packets. Written packets are reported at any time and their buffers used again, but for
    packets of symbols smaller than a buffer of small packets, whose reuse is shown to panic.
  \<^item> \<^theory_text>\<open>Server\<close>, \<^theory_text>\<open>Client\<close>: both ends as machines over the events of the network library \<open>xtcp\<close>. Closing a client waits for its two
    workers; their last rounds are a schedule (\<open>worker_event list\<close>). A ping that is taken after the refresh worker has left panics, every other
    schedule in which both leave delivers everything.

  \<^bold>\<open>The source editor\<close> (\<open>tracer/srceditor\<close>). \<^theory_text>\<open>Editor\<close>: lists of insertions and deletions and their application, which is equivalent to splicing the source
  position by position; the templates; the walk that finds the places to edit; and the atomic replacement of a file.

  \<^bold>\<open>The probe\<close> (\<open>tracer/logger\<close>).
  \<^item> \<^theory_text>\<open>Logger\<close>: the senders to a file and to the log server, their retries, the tracing flags, the symbols of the process, and the
    probe itself. The locale \<open>reliable_sender\<close> has what the probe relies on; \<open>retried_sender\<close> derives it for a sender wrapped in retries,
    and both senders interpret it, the one to the server with anything that its client does in the background (\<open>with_background\<close>) before each call. The tracing flags simulate a set of traced functions.
  \<^item> \<^theory_text>\<open>Program\<close>: a program with the statement that the source editor inserts (\<open>tracer/srceditor/template.go\<close>). Its records simulate the
    calls of the program, and are a trace in the sense of \<open>trace_step\<close>.

  \<^bold>\<open>The log server\<close> (\<open>cmd/server_run.go\<close>). \<^theory_text>\<open>ServerRun\<close>: the callbacks of a connection and the worker that
  feeds the simulator and writes it to the log. The worker simulates \<open>trace_step\<close>, which keeps the
  forest of calls of the simulator's specification; what it leaves on disk is the whole trace.

  \<^bold>\<open>Queries\<close> (\<open>tracer/sql\<close>, \<open>tracer/restapi\<close>). \<^theory_text>\<open>SqlRow\<close>, \<^theory_text>\<open>SqlExpr\<close>, \<^theory_text>\<open>SqlParse\<close>: rows, expressions with their caches, and the
  translation of a statement. \<^theory_text>\<open>Query\<close>: \<open>csvResponse\<close> and the reading of tables;
  \<^theory_text>\<open>SqlSearch\<close>: the handler, which writes the rows of the five tables of a log as CSV. Both interpret the locale \<open>csv_source\<close>. What is sent is \<open>csv_window\<close> of the lines that satisfy the
  clause: the code sends one line fewer than LIMIT allows. \<^theory_text>\<open>Util\<close>: \<open>tracer/util\<close>.

  \<^bold>\<open>REST API\<close> (\<open>tracer/restapi\<close>).
  \<^item> \<^theory_text>\<open>Handlers\<close>: requests and responses, the handlers of logs, watches, goroutines and symbols.
  \<^item> \<^theory_text>\<open>TopN\<close>: sorting with a limit by a bounded heap, which is equivalent to sorting everything and taking a window;
    \<^theory_text>\<open>CallSearch\<close>: the parameters of a search of calls and its pipeline of reader, filter, sorter and sender.
  \<^item> \<^theory_text>\<open>RestClient\<close>: the client and its cache of symbols. The locale \<open>versioned_log\<close> has what optimistic updates rely on
    and is interpreted on the handlers with other clients in between.

  \<^bold>\<open>The viewer\<close> (\<open>logviewer\<close>).
  \<^item> \<^theory_text>\<open>Graph\<close>: the history of calls as lines whose positions count events, their painting and scrolling.
  \<^item> \<^theory_text>\<open>Viewer\<close>: the models and views of the four screens over the REST client, and the coordinator, as a machine over updates, paintings and
    what the user does; it interprets \<open>invariant_machine\<close>, and its keys refine a specification of the navigation.

  \<^bold>\<open>How the parts are put together.\<close> This theory composes client, wire and server: what a client sends
  arrives at the callbacks. \<open>Session_is_archived\<close> takes over there: what the callbacks receive is what the
  reopened log holds. \<open>Traced_program_reaches_the_client\<close> goes the whole way, from the functions a program enters and leaves, over the probe, the
  wire, the server and its worker, to the calls that a client of the REST API receives. \<open>Storage_reloads_logs\<close>: a restarted server finds the same log.
  \<open>Select_is_answered_from_the_archive\<close> answers a statement from such a log.

  \<^bold>\<open>Conventions.\<close> A definition has the name of its function, with the type in front where two types have a method
  of that name. Errors are values of \<open>error\<close>; \<open>error option\<close> is a result that is nil or an error. Map
  iteration orders, random draws, the moments at which timers fire and the names a directory holds are arguments, so that the
  theorems hold for all of them. Functions are total by structural recursion or a measure. Loops over
  files of unbounded number (\<open>existing_files\<close>, \<open>remove_loop\<close>) are partial functions in \<open>option\<close>, and
  their theorems give the result. Only the rows of a table are read with fuel (\<open>read_rows\<close>), and one call more than there are rows is proved enough.

  \<^bold>\<open>Parameters.\<close> Third-party and standard library code whose bytes do not matter is an argument: gob (\<open>gob_lib\<close>, \<open>log_libs\<close>), JSON, the SQL text
  parser, regular expressions, and the network library. Theorems that need a law of it, such as a gob
  stream that decodes to what was encoded, state it as a hypothesis for the values in question.

  \<^bold>\<open>Not modelled.\<close> What the probe asks the Go runtime for (time, stack, goroutine, symbols) is an argument; an event of the
  program is an atomic step, so that records of two goroutines do not overtake each other between their making and their sending.
  The parser and the formatter of the Go library that the source editor calls are parameters; the builder runs the go tool on a directory of sources. The
  widgets of the terminal library, the command line (\<open>cmd\<close>, but for the server), the configuration files, the HTTP
  server and the generated serialisers of \<open>tracer/encoding/other\<close> are left out. Of \<open>tracer/restapi\<close> the
  table of routes, which the router library interprets, and the client's reader of CSV are not modelled. Mutual exclusion is modelled where an operation can wait for a lock that it
  holds itself; otherwise operations under a lock are atomic steps, the rows of a query are read ahead, and the update of a model of the viewer is one step with its notification.
\<close>

section \<open>From the traced program to the server\<close>

text \<open>What the server's user sees of a packet.\<close>

definition data_call :: "packet \<Rightarrow> call list" where
  "data_call p = (case p of SymbolPacket sd \<Rightarrow> [Symbols sd] | RawFuncLogPacket r \<Rightarrow> [RawLog r] | _ \<Rightarrow> [])"

definition data_packet :: "packet \<Rightarrow> bool" where
  "data_packet p \<longleftrightarrow> (case p of SymbolPacket _ \<Rightarrow> True | RawFuncLogPacket _ \<Rightarrow> True | PingPacket \<Rightarrow> True | _ \<Rightarrow> False)"

definition received_events :: "conn \<Rightarrow> ClientHelloPacket \<Rightarrow> packet list \<Rightarrow> net_event list" where
  "received_events x h ps = (x, EventRecv, Some (ClientHello h)) # map (\<lambda>p. (x, EventRecv, Some p)) ps @ [(x, EventClosed, None)]"

lemma session_data:
  "list_all data_packet ps \<Longrightarrow> ss_negotiated ss \<Longrightarrow>
   foldl session_step ss (map (\<lambda>p. (EventRecv, Some p)) ps) = ss\<lparr>ss_calls := ss_calls ss @ concat (map data_call ps)\<rparr>"
  by (induction ps arbitrary: ss)
    (auto simp: data_packet_def data_call_def session_step_def session_out_def split: packet.splits)

lemma events_of_received:
  "events_of x (received_events x h ps) = (EventRecv, Some (ClientHello h)) # map (\<lambda>p. (EventRecv, Some p)) ps @ [(EventClosed, None)]"
  by (simp add: received_events_def events_of_def filter_map comp_def)

lemma session_received:
  assumes "list_all data_packet ps" "ch_ProtocolVersion h = ProtocolVersion"
  shows "ss_calls (foldl session_step new_session (events_of x (received_events x h ps))) =
    Connected h # concat (map data_call ps) @ [Disconnected]"
  unfolding events_of_received using assms
  by (simp add: session_data session_step_def session_out_def new_session_def)

lemma data_received: "list_all data_packet ps \<Longrightarrow> map received ps = ps"
  by (induction ps) (auto simp: data_packet_def received_def split: packet.splits)

text \<open>The bytes of a trace make the server call its user back.\<close>

lemma trace_calls_back:
  assumes "unpack_all jd bs = ps" "list_all data_packet ps" "idle_server s" "ch_ProtocolVersion h = ProtocolVersion" "length ps + 2 < 2 ^ 64"
  shows "\<exists>s' e' sc. go_run server_step (s, quiet) (received_events y h (unpack_all jd bs)) = Inr (s', e') \<and> srv_connMap s' y = Some sc \<and>
    ev_user e' (sc_ID sc) = Connected h # concat (map data_call ps) @ [Disconnected]"
proof -
  let ?evs = "received_events y h ps"
  have "length ?evs < 2 ^ 64" using assms(5) by (simp add: received_events_def)
  from server_run[OF assms(3) this] obtain s' e' n where r: "go_run server_step (s, quiet) ?evs = Inr (s', e')"
    "server_rel (\<lambda>c. session_of None (events_of c ?evs), n) (s', e')" by blast
  obtain sc where "srv_connMap s' y = Some sc"
    "ev_user e' (sc_ID sc) = ss_calls (foldl session_step new_session (events_of y ?evs))"
    using server_relD(7)[OF r(2), of y] events_of_received[of y h ps]
    by (auto simp: conn_ok_def session_of_def conn_rel_def split: option.splits)
  then show ?thesis using r(1) session_received[OF assms(2,4), of y] assms(1) by auto
qed

lemma data_json: "list_all data_packet ps \<Longrightarrow> list_all (json_law je jd) ps"
  by (induction ps) (auto simp: data_packet_def json_law_def split: packet.splits)

text \<open>Pings do not reach the user of the server.\<close>

lemma calls_without_pings: "concat (map data_call ps) = concat (map data_call (filter (\<lambda>p. p \<noteq> PingPacket) ps))"
  by (induction ps) (auto simp: data_call_def)

lemma data_with_pings:
  assumes "list_all data_packet (filter (\<lambda>p. p \<noteq> PingPacket) ps)"
  shows "list_all data_packet ps"
  using assms by (induction ps) (auto simp: data_packet_def split: if_splits packet.splits)

lemma calls_then_pings: "concat (map data_call (ps @ replicate k PingPacket)) = concat (map data_call ps)"
  by (induction k) (simp_all add: data_call_def)

lemma data_then_pings: "list_all data_packet ps \<Longrightarrow> list_all data_packet (ps @ replicate k PingPacket)"
  by (induction k) (simp_all add: data_packet_def list_all_iff)

lemma ping_ticks_le: "ping_ticks evs \<le> length evs"
  using length_filter_le[of _ "pings evs"] length_takeWhile_le[of _ evs] unfolding pings_def by (rule le_trans)

text \<open>
  C2. A trace arrives. A client that has been negotiated sends symbol tables, call records and pings, with
  refreshes and reports of written packets anywhere in between, and closes while its workers make their last rounds. Packets
  for \<open>Send\<close> have at most 2048 bytes, which all pings and call records have; no written packet is reported after a
  symbol table that is smaller than a buffer of small packets; and the ping worker has no tick after the refresh worker
  has left (in both cases the client can panic). Then the bytes that the client has handed to the connection,
  unpacked on the other side after the client's hello, make the server call back \<open>Connected\<close>, then
  \<open>Symbols\<close> and \<open>RawFuncLog\<close> for exactly the data sent, in order, and \<open>Disconnected\<close> at the end.
\<close>

theorem Trace_arrives_in_order:
  assumes "fresh_client c" "list_all (sendable je) ops" "roomy (nat (bo_MaxSmallPacketSize (cl_BufferOpt (Client_Init c)))) ops"
    "list_all data_packet (sent_packets ops)" "both_leave evs" "\<not> late_ping evs"
    "idle_server s" "ch_ProtocolVersion h = ProtocolVersion" "length (sent_packets ops) + length evs + 3 < 2 ^ 64"
  shows "\<exists>c1 e1 c2 c3 e3 s' e' sc.
    client_event x (served x c, e) (EventRecv, Some (Plain (ServerHello ProtocolVersion))) = Inr (c1, e1) \<and>
    go_run (client_op je) (c1, e1) ops = Inr (c2, e1) \<and> Client_Close je evs (c2, e1) = Inr (None, c3, e3) \<and>
    go_run server_step (s, quiet) (received_events y h (unpack_all jd (wire (cl_mergeSender c3)))) = Inr (s', e') \<and>
    srv_connMap s' y = Some sc \<and>
    ev_user e' (sc_ID sc) = Connected h # concat (map data_call (sent_packets ops)) @ [Disconnected]"
proof -
  let ?ps = "sent_packets ops" and ?k = "Suc (ping_ticks evs)"
  obtain c1 e1 c2 c3 e3 where cl:
    "client_event x (served x c, e) (EventRecv, Some (Plain (ServerHello ProtocolVersion))) = Inr (c1, e1)"
    "go_run (client_op je) (c1, e1) ops = Inr (c2, e1)" "Client_Close je evs (c2, e1) = Inr (None, c3, e3)"
    "unpack_all jd (wire (cl_mergeSender c3)) = ?ps @ replicate ?k PingPacket"
    using client_close_delivers[OF assms(1-3) data_json[OF assms(4)] assms(5), where x = x and e = e and jd = jd] data_received[OF assms(4)]
    unfolding if_not_P[OF assms(6)] by auto
  have "length (?ps @ replicate ?k PingPacket) + 2 < 2 ^ 64" using assms(9) ping_ticks_le[of evs] by simp
  from trace_calls_back[OF cl(4) data_then_pings[OF assms(4)] assms(7,8) this, of y, unfolded calls_then_pings] show ?thesis using cl by blast
qed

definition trace_ops :: "mop list" where
  "trace_ops = [MSend PingPacket, MTick, MReuse 0, MSendLarge (SymbolPacket zero_SymbolsData), MSend (RawFuncLogPacket sample_raw), MTick]"

lemma trace_ops_ok: "list_all (sendable je) trace_ops" "roomy m trace_ops" "list_all data_packet (sent_packets trace_ops)"
  using sample_table_ok[of je] small_packets(1,2)[of je] small_packets(3)[of sample_raw je]
  by (simp_all add: trace_ops_def sendable_def is_reuse_def tight_def sample_raw_def MaxStackSize_def data_packet_def)

theorem Trace_arrives_in_order_witness:
  "\<exists>c1 e1 c2 c3 e3 s' e' sc.
    client_event 3 (served 3 sample_client, calm) (EventRecv, Some (Plain (ServerHello ProtocolVersion))) = Inr (c1, e1) \<and>
    go_run (client_op sample_json) (c1, e1) trace_ops = Inr (c2, e1) \<and>
    Client_Close sample_json sample_rounds (c2, e1) = Inr (None, c3, e3) \<and>
    go_run server_step (sample_server, quiet)
      (received_events 5 sample_hello (unpack_all (\<lambda>bs. Some (string_of_bytes bs)) (wire (cl_mergeSender c3)))) = Inr (s', e') \<and>
    srv_connMap s' 5 = Some sc \<and>
    ev_user e' (sc_ID sc) = Connected sample_hello # concat (map data_call (sent_packets trace_ops)) @ [Disconnected]"
  by (rule Trace_arrives_in_order[OF fresh_sample_client trace_ops_ok sample_rounds_ok(1,2) idle_sample_server])
    (simp_all add: sample_hello_def ProtocolVersion_def trace_ops_def sample_rounds_def)

section \<open>From the traced program to the client of the REST API\<close>

text \<open>What the server's user does with the callbacks of a connection.\<close>

definition replay :: "log_libs \<Rightarrow> ConnID \<Rightarrow> 'u maker go \<Rightarrow> call \<Rightarrow> 'u maker go" where
  "replay L i m call =
     (case call of
        Connected h \<Rightarrow> (case h_Connected (NewConnHandler L i) of None \<Rightarrow> m | Some f \<Rightarrow> f h m)
      | Disconnected \<Rightarrow> (case h_Disconnected (NewConnHandler L i) of None \<Rightarrow> m | Some f \<Rightarrow> f m)
      | Failed e \<Rightarrow> (case h_Error (NewConnHandler L i) of None \<Rightarrow> m | Some f \<Rightarrow> f e m)
      | Symbols sd \<Rightarrow> (case h_Symbols (NewConnHandler L i) of None \<Rightarrow> m | Some f \<Rightarrow> f sd m)
      | RawLog raw \<Rightarrow> (case h_RawFuncLog (NewConnHandler L i) of None \<Rightarrow> m | Some f \<Rightarrow> f raw m))"

definition work_call :: "work \<Rightarrow> call list" where
  "work_call msg = (case msg of WSymbols sd \<Rightarrow> [Symbols sd] | WRaw raw \<Rightarrow> [RawLog raw] | WTick \<Rightarrow> [])"

lemma replay_messages:
  assumes "WTick \<notin> set msgs"
  shows "foldl (replay L i) m (concat (map work_call msgs)) = go_bind m (\<lambda>m. go_run (\<lambda>m msg. on_message i msg m) m msgs)"
  using assms
proof (induction msgs arbitrary: m)
  case Nil
  show ?case by (cases m) simp_all
next
  case (Cons msg msgs)
  then show ?case by (cases msg) (auto simp: work_call_def replay_def NewConnHandler_def go_bind_assoc)
qed

lemma replay_session:
  assumes "WTick \<notin> set msgs"
  shows "foldl (replay L i) (Inr m) (Connected h # concat (map work_call msgs) @ [Disconnected]) = client_session L i h msgs m"
  by (simp add: replay_messages[OF assms] client_session_def replay_def[where call = "Connected _"] replay_def[where call = Disconnected] NewConnHandler_def go_bind_assoc)

definition item_work :: "item \<Rightarrow> work" where
  "item_work x = (case x of Syms sd \<Rightarrow> WSymbols sd | Rec raw \<Rightarrow> WRaw raw)"

lemma item_calls: "concat (map data_call (map item_packet xs)) = concat (map work_call (map item_work xs))" "list_all data_packet (map item_packet xs)"
  "WTick \<notin> set (map item_work xs)"
  by (induction xs) (auto simp: data_call_def item_packet_def work_call_def item_work_def data_packet_def split: item.splits)

text \<open>A probe that has been closed: what it left on the wire reaches the callbacks.\<close>

lemma closed_probe_calls_back:
  assumes "server_closed je N rounds xs ((so, old, e), bg)" "idle_server s" "ch_ProtocolVersion h = ProtocolVersion"
    "length xs + N + length rounds + 3 < 2 ^ 64"
  shows "\<exists>s' e' sc. go_run server_step (s, quiet) (received_events y h (unpack_all jd (wire (cl_mergeSender (last old))))) = Inr (s', e') \<and>
    srv_connMap s' y = Some sc \<and> ev_user e' (sc_ID sc) = Connected h # concat (map work_call (map item_work xs)) @ [Disconnected]"
proof -
  let ?k = "Suc (ping_ticks rounds)"
  obtain ps where ps: "list_all (ok_packet je) ps" "filter (\<lambda>p. p \<noteq> PingPacket) ps = map item_packet xs" "length ps \<le> length xs + N"
    "wire (cl_mergeSender (last old)) = concat (map (enc_packet je) (ps @ ShutdownPacket # replicate (ping_ticks rounds) PingPacket))"
    using assms(1) by (auto simp: server_closed_def)
  have d: "list_all data_packet ps" by (rule data_with_pings) (simp only: ps(2) item_calls(2))
  have "unpack_all jd (wire (cl_mergeSender (last old))) = map received (ps @ ShutdownPacket # replicate (ping_ticks rounds) PingPacket)"
    unfolding ps(4) using ps(1) data_json[OF d, of je jd] ok_pings(1)[of je "ping_ticks rounds"] ok_pings(2)[of je jd "ping_ticks rounds"]
    by (intro unpack_all_enc) (simp_all only: list_all_append)
  then have un: "unpack_all jd (wire (cl_mergeSender (last old))) = ps @ replicate ?k PingPacket"
    using data_received[OF d] ok_pings(3)[of "ping_ticks rounds"] by simp
  have "length (ps @ replicate ?k PingPacket) + 2 < 2 ^ 64" using assms(4) ps(3) ping_ticks_le[of rounds] by simp
  from trace_calls_back[OF un data_then_pings[OF d] assms(2,3) this, of y, unfolded calls_then_pings]
  show ?thesis unfolding calls_without_pings[of ps] ps(2) item_calls(1) by simp
qed

lemma program_calls_length:
  "spec_run program_step sp evs = Some sp' \<Longrightarrow> length (pg_calls sp') \<le> length (pg_calls sp) + length evs"
proof (induction evs arbitrary: sp)
  case (Cons ev evs)
  then obtain sp1 where 1: "program_step sp ev = Some sp1" "spec_run program_step sp1 evs = Some sp'" by (auto split: option.splits)
  have "length (pg_calls sp1) \<le> length (pg_calls sp) + 1"
    using 1(1) by (cases ev) (auto simp: program_step_def Let_def split: if_splits list.splits option.splits)
  then show ?case using Cons.IH[OF 1(2)] by simp
qed simp

lemma raw_fits: "length (raw_Frames raw) \<le> MaxStackSize \<Longrightarrow> item_fits je reuse (Rec raw)"
  by (simp add: item_fits_def tight_def item_packet_def ok_packet_def enc_body_def length_enc_RawFuncLog MaxStackSize_def)

text \<open>The sender of a probe: retries around the sender to the server, whose client has tasks in the background.\<close>

abbreviation probe_sender :: "json_encoder \<Rightarrow> process \<Rightarrow> conn \<Rightarrow> worker_event list \<Rightarrow> busy_sender Sender" where
  "probe_sender je p x rounds \<equiv> default_retry (with_background je (LogServerSender je p (greeted x) rounds))"

text \<open>
  C1. A traced program reaches the client. A program runs under the probe: its goroutines enter and leave functions, functions are
  switched on and off, some of it before the probe is initialised, and at its end the probe is closed. Before each thing that the
  probe sends its client may do anything of its own: pings and refreshes of its workers, and the report that a packet has been
  written, whose buffer is used again; such reports need a symbol table of at least the size of a buffer of small packets (1 MiB and 2048 bytes), since a
  smaller one makes the client panic (\<open>reused_large_buffer_panics\<close>). When it closes, its workers have their last rounds, without a ping after the
  refresh worker has left (which panics, see \<open>Close_delivers_everything\<close>); the connection accepts what it is given. The bytes on the wire make
  the server call its handlers back; the handlers feed the worker, whose ticks may fall anywhere. The client that
  then searches the log for goroutine \<open>g\<close> receives exactly the calls that the program made on \<open>g\<close> in functions that
  were traced when it entered them, each once, in the order of their starts, with start, end, stack and parent; for a \<open>g\<close> that is not positive, all calls.
\<close>

theorem Traced_program_reaches_the_client:
  assumes "spec_run program_step init_program (early @ late) = Some sp" "init_symbols ms fs ls = Inr sd" "SymbolsData_Validate sd = None"
    and "ok_packet je (SymbolPacket sd)" "length (early @ late) + length (concat bg) + length rounds + 4 < 2 ^ 63" "\<forall>m. finite (dom m) \<longrightarrow> set (ord m) = dom m"
    and "pr_env p DefaultLogsrvEnv = Some url" "client_hello (probe_client p url) = ClientHello h"
    and "both_leave rounds" "idle_server s"
    and "\<not> sg_ReadOnly (mk_storage m)" "mk_rnd m = i # rnd" "LogID_wf i" "faults (mk_world m) = []"
    "\<forall>k. files (mk_world m) (log_file (sg_Root (mk_storage m)) i k) = None" "SSStore_Get store i = None"
    and "enumerates mord" "libs_ok L sd" "sort_Slice (se_sort E)"
    and "\<And>sims. delivers (T sims) ''GET'' (client_url cl [''/log'', LogID_Hex i, ''func-call'', ''search'']) (ToParamMap (gid_search g)) None
      (\<lambda>wr (s, w). go_bind (funcCallSearch E sims fl0 (search_request i (gid_search g)) ''json'' w s wr) (\<lambda>(s, w, wr). Inr (wr, s, w)))"
    and "\<not> late_ping rounds" "list_ex is_written (concat bg) \<longrightarrow> \<not> tight probe_MaxSmall (MSendLarge (SymbolPacket sd))"
  shows "\<exists>im1 b2 im3 b4 so old e bg' s' e' sc m' l.
    go_run (instrumented_step ord (probe_sender je p x rounds)) (new_instrumented (new_probe ((None, [], pe), bg))) early = Inr im1 \<and>
    probe_init (probe_sender je p x rounds) ms fs ls (im_probe im1) = Inr b2 \<and>
    go_run (instrumented_step ord (probe_sender je p x rounds)) (im1\<lparr>im_probe := b2\<rparr>) late = Inr im3 \<and>
    logger_Close (probe_sender je p x rounds) (im_probe im3) = Inr b4 \<and> pb_sender b4 = ((so, old, e), bg') \<and>
    go_run server_step (s, quiet) (received_events y h (unpack_all jd (wire (cl_mergeSender (last old))))) = Inr (s', e') \<and>
    srv_connMap s' y = Some sc \<and> foldl (replay L (sc_ID sc)) (Inr m) (ev_user e' (sc_ID sc)) = Inr m' \<and>
    Storage_Log i (mk_storage m') = (Some l, True) \<and>
    (\<forall>evs ks u. filter (\<lambda>e. e \<noteq> WTick) evs = ch_queue (last (mk_chans m')) \<longrightarrow>
      (\<exists>l' st w' s2. logWriteWorker_Run L mord ks evs (mk_world m') store (l, u) = Inr ((l', u), st, w') \<and>
        SearchFuncLogs (T st) cl (LogID_Hex i) (gid_search g) (put_log i l' (mk_storage m'), w') =
          ((filter (\<lambda>fl. sint g \<le> 0 \<or> fl_GID fl = g) (pg_calls sp), None), s2)))"
proof -
  let ?S = "probe_sender je p x rounds" and ?b = "new_probe ((None, [], pe), bg) :: busy_sender probe"
  let ?reuse = "list_ex is_written (concat bg)" and ?N = "length (concat bg)"
  have use: "CanUseLogServerSender p" using assms(7) by (simp add: CanUseLogServerSender_def)
  have ready: "case pb_sender ?b of (s, bg) \<Rightarrow> CanUseLogServerSender p \<and> both_leave rounds \<and> \<not> late_ping rounds \<and>
      allowed_tasks ?reuse (concat bg) \<and> length (concat bg) \<le> ?N"
    using use assms(9,21) by (simp add: new_probe_def allowed_tasks_def)
  have b: "\<not> pb_open ?b" "pb_initBuffer ?b = []" "lastTxID (pb_counters ?b) = 0" by (simp_all add: new_probe_def init_counters_def)
  have sfits: "item_fits je ?reuse (Syms sd)" using assms(4,22) by (simp add: item_fits_def item_packet_def)
  obtain im1 b2 im3 b4 recs c n where 1: "go_run (instrumented_step ord ?S) (new_instrumented ?b) early = Inr im1"
    "probe_init ?S ms fs ls (im_probe im1) = Inr b2" "go_run (instrumented_step ord ?S) (im1\<lparr>im_probe := b2\<rparr>) late = Inr im3"
    "logger_Close ?S (im_probe im3) = Inr b4" "server_closed je ?N rounds (Syms sd # map Rec recs) (pb_sender b4)" "length recs \<le> length (early @ late)"
    "spec_run trace_step (cg_init, sd, 0) (map WRaw recs) = Some (c, sd, n)" "forest_of sp c"
    using to_server.retried.program_life[where je = je and p = p and x = x, OF ready b sfits raw_fits assms(2,6,1)] unfolding default_retry_def by blast
  obtain so old e bg' where b4: "pb_sender b4 = ((so, old, e), bg')" by (metis surj_pair)
  have ver: "ch_ProtocolVersion h = ProtocolVersion" using assms(8) by (auto simp: client_hello_def)
  obtain s' e' sc where 2: "go_run server_step (s, quiet) (received_events y h (unpack_all jd (wire (cl_mergeSender (last old))))) = Inr (s', e')"
    "srv_connMap s' y = Some sc" "ev_user e' (sc_ID sc) = Connected h # concat (map work_call (map item_work (Syms sd # map Rec recs))) @ [Disconnected]"
    using closed_probe_calls_back[OF 1(5)[unfolded b4] assms(10) ver, of y jd] 1(6) assms(5) by auto
  let ?msgs = "WSymbols sd # map WRaw recs"
  have msgs: "map item_work (Syms sd # map Rec recs) = ?msgs" by (simp add: item_work_def)
  have rp: "foldl (replay L (sc_ID sc)) (Inr m) (ev_user e' (sc_ID sc)) = client_session L (sc_ID sc) h ?msgs m"
    using replay_session[OF item_calls(3), of L "sc_ID sc" m h "Syms sd # map Rec recs"] 2(3) unfolding msgs by simp
  have run: "spec_run trace_step (cg_init, nilDiff, 0) ?msgs = Some (c, sd, n)" using 1(7) assms(3) by (simp add: trace_step_def)
  have len: "length (cg_calls c) < 2 ^ 63" using program_calls_length[OF assms(1)] assms(5) 1(8) by (simp add: init_program_def forest_of_def)
  obtain m' l where 3: "client_session L (sc_ID sc) h ?msgs m = Inr m'" "mk_chans m' = mk_chans m @ [\<lparr>ch_queue = ?msgs, ch_closed = True\<rparr>]"
    "Storage_Log i (mk_storage m') = (Some l, True)"
    using Session_ok[OF assms(11-18) run, of "sc_ID sc" h ?msgs "[]" undefined] by blast
  have search: "\<exists>l' st w' s2. logWriteWorker_Run L mord ks evs (mk_world m') store (l, u) = Inr ((l', u), st, w') \<and>
      SearchFuncLogs (T st) cl (LogID_Hex i) (gid_search g) (put_log i l' (mk_storage m'), w') =
        ((filter (\<lambda>fl. sint g \<le> 0 \<or> fl_GID fl = g) (pg_calls sp), None), s2)" if evs: "filter (\<lambda>e. e \<noteq> WTick) evs = ?msgs" for evs ks u
  proof -
    obtain d k where d: "spec_run trace_step (cg_init, nilDiff, 0) evs = Some (d, sd, k)" "same_forest c d"
      using trace_with_ticks[of cg_init cg_init nilDiff 0 evs c sd n 0] run evs by (auto simp: same_forest_def)
    have calls: "cg_calls d = pg_calls sp" "length (cg_calls d) < 2 ^ 63" using d(2) 1(8) len by (simp_all add: same_forest_def forest_of_def)
    from Recorded_calls_reach_the_client[OF assms(11-18) d(1) evs[symmetric] calls(2) assms(19,20), of "sc_ID sc" h ks u]
    show ?thesis using 3(1,3) unfolding calls(1) by auto
  qed
  show ?thesis using 1(1-4) b4 2(1,2) rp 3 search
    by (intro exI[of _ im1] exI[of _ b2] exI[of _ im3] exI[of _ b4] exI[of _ so] exI[of _ old] exI[of _ e] exI[of _ bg'] exI[of _ s'] exI[of _ e'] exI[of _ sc]
        exI[of _ m'] exI[of _ l]) simp
qed

definition at_moment :: "instant \<Rightarrow> GID \<Rightarrow> moment" where
  "at_moment t g = \<lparr>mo_now = t, mo_gid = g, mo_stack = [100]\<rparr>"

definition served_process :: process where
  "served_process = sample_process\<lparr>pr_env := [DefaultLogsrvEnv \<mapsto> ''tcp://h:1'']\<rparr>"

definition served_hello :: ClientHelloPacket where
  "served_hello = \<lparr>ch_PID = 7, ch_AppName = ''app'', ch_Host = ''h'', ch_ClientSecret = ''secret'', ch_ProtocolVersion = ProtocolVersion\<rparr>"

text \<open>A program of two goroutines: \<open>f\<close> is traced, \<open>g\<close> is not; one call of \<open>f\<close> starts before the probe is initialised and has another call of \<open>f\<close> in it.\<close>

definition sample_early :: "prog_event list" where
  "sample_early = [Command (OpEnable ''f''), Enter ''f'' (at_moment 10 7), Enter ''g'' (at_moment 11 7)]"

definition sample_late :: "prog_event list" where
  "sample_late = [Enter ''f'' (at_moment 12 8), Enter ''f'' (at_moment 13 7), Leave (at_moment 14 7), Command OpDisableAll, Leave (at_moment 15 7),
     Leave (at_moment 16 7), Enter ''f'' (at_moment 17 7)]"

definition traced_calls :: "FuncLog list" where
  "traced_calls =
     [\<lparr>fl_ID = 0, fl_StartTime = 10, fl_EndTime = 16, fl_ParentID = - 1, fl_Frames = [100], fl_GID = 7\<rparr>,
      \<lparr>fl_ID = 1, fl_StartTime = 12, fl_EndTime = - 1, fl_ParentID = - 1, fl_Frames = [100], fl_GID = 8\<rparr>,
      \<lparr>fl_ID = 2, fl_StartTime = 13, fl_EndTime = 14, fl_ParentID = 0, fl_Frames = [100], fl_GID = 7\<rparr>]"

lemma sample_program: "\<exists>sp. spec_run program_step init_program (sample_early @ sample_late) = Some sp \<and> pg_calls sp = traced_calls"
  by (simp add: sample_early_def sample_late_def program_step_def init_program_def traced_step_def new_call_def open_calls_def List.map_filter_simps
      at_moment_def NewTime_def UnixNano_def NotEnded_def NotFoundParent_def MaxStackSize_def traced_calls_def)

definition probe_env :: "probe_user env" where
  "probe_env = \<lparr>ev_user = Inr init_tracing, ev_sent = [], ev_stops = [], ev_fails = [], ev_log = []\<rparr>"

definition busy_tasks :: "client_task list list" where
  "busy_tasks = [[RefreshTick], [Written 0, PingTick, RefreshTick, Written 1], [], [PingTick, PingTick, Written 0]]"

text \<open>A symbol table whose packet needs more than a buffer of small packets.\<close>

definition long_name :: string where
  "long_name = replicate (2 ^ 21) (CHR ''f'')"

definition long_table :: SymbolsData where
  "long_table = nilDiff\<lparr>sd_Funcs := [\<lparr>gf_Entry = 100, gf_Name = long_name\<rparr>]\<rparr>"

lemma long_name: "length long_name = 2 ^ 21" "long_name \<noteq> []"
  by (simp_all add: long_name_def)

lemma long_table_ok: "init_symbols [] [(100, long_name)] [] = Inr long_table" "SymbolsData_Validate long_table = None"
  "ok_packet je (SymbolPacket long_table)" "\<not> tight probe_MaxSmall (MSendLarge (SymbolPacket long_table))"
  using long_name
  by (simp_all add: init_symbols_def long_table_def nilDiff_def SymbolsData_Validate_def GoFunc_Validate_def ok_packet_def enc_body_def
      enc_SymbolsData_def enc_list_def enc_GoFunc_def enc_string_def ok_SymbolsData_def ok_list_def ok_GoFunc_def ok_string_def tight_def
      SizeSymbolsData_def sizeStringSlice_def sizeGoModuleSlice_def sizeGoFuncSlice_def sizeGoLineSlice_def sizeGoFunc_def sizeString_def
      probe_MaxSmall_def DefaultMaxSmallPacketSize_def PacketHeaderSize_def)

definition long_libs :: log_libs where
  "long_libs = Log.sample_libs\<lparr>ll_symbols := \<lparr>gl_encode = (\<lambda>vs v. [[0]]), gl_decode = (\<lambda>bs. (map (\<lambda>b. long_table) bs, EOF))\<rparr>\<rparr>"

lemma long_libs_ok: "libs_ok long_libs long_table"
  using sample_libs_ok by (simp add: libs_ok_def long_libs_def gob_bytes_def)

theorem Traced_program_reaches_the_client_witness:
  "\<exists>im1 b2 im3 b4 so old e bg' s' e' sc m' l.
    go_run (instrumented_step (\<lambda>m. sorted_list_of_set (dom m)) (probe_sender sample_json served_process 3 sample_rounds))
      (new_instrumented (new_probe ((None, [], probe_env), busy_tasks))) sample_early = Inr im1 \<and>
    probe_init (probe_sender sample_json served_process 3 sample_rounds) [] [(100, long_name)] [] (im_probe im1) = Inr b2 \<and>
    go_run (instrumented_step (\<lambda>m. sorted_list_of_set (dom m)) (probe_sender sample_json served_process 3 sample_rounds))
      (im1\<lparr>im_probe := b2\<rparr>) sample_late = Inr im3 \<and>
    logger_Close (probe_sender sample_json served_process 3 sample_rounds) (im_probe im3) = Inr b4 \<and> pb_sender b4 = ((so, old, e), bg') \<and>
    go_run server_step (sample_server, quiet)
      (received_events 5 served_hello (unpack_all (\<lambda>bs. Some (string_of_bytes bs)) (wire (cl_mergeSender (last old))))) = Inr (s', e') \<and>
    srv_connMap s' 5 = Some sc \<and> foldl (replay long_libs (sc_ID sc)) (Inr sample_maker) (ev_user e' (sc_ID sc)) = Inr m' \<and>
    Storage_Log (replicate 16 1) (mk_storage m') = (Some l, True) \<and>
    (\<forall>evs ks u. filter (\<lambda>e. e \<noteq> WTick) evs = ch_queue (last (mk_chans m')) \<longrightarrow>
      (\<exists>l' st w' s2. logWriteWorker_Run long_libs sorted_order ks evs (mk_world m') \<lparr>ss_m = None\<rparr> (l, u) = Inr ((l', u), st, w') \<and>
        SearchFuncLogs (search_server st) (WithCtx ''h'') (LogID_Hex (replicate 16 1)) (gid_search 7) (put_log (replicate 16 1) l' (mk_storage m'), w') =
          (([traced_calls ! 0, traced_calls ! 2], None), s2)))"
proof -
  obtain sp where sp: "spec_run program_step init_program (sample_early @ sample_late) = Some sp" "pg_calls sp = traced_calls"
    using sample_program by blast
  have hits: "filter (\<lambda>fl. sint (7 :: GID) \<le> 0 \<or> fl_GID fl = 7) (pg_calls sp) = [traced_calls ! 0, traced_calls ! 2]"
    using sp(2) by (simp add: traced_calls_def)
  have len: "length (sample_early @ sample_late) + length (concat busy_tasks) + length sample_rounds + 4 < 2 ^ 63"
    by (simp add: sample_early_def sample_late_def busy_tasks_def sample_rounds_def)
  have ord: "\<forall>m :: string \<rightharpoonup> nat. finite (dom m) \<longrightarrow> set (sorted_list_of_set (dom m)) = dom m" by simp
  have pr: "pr_env served_process DefaultLogsrvEnv = Some ''tcp://h:1''" "client_hello (probe_client served_process ''tcp://h:1'') = ClientHello served_hello"
    by (simp_all add: served_process_def sample_process_def client_hello_def probe_client_def served_hello_def DefaultLogsrvEnv_def DefaultAppNameEnv_def)
  have bg: "list_ex is_written (concat busy_tasks) \<longrightarrow> \<not> tight probe_MaxSmall (MSendLarge (SymbolPacket long_table))"
    using long_table_ok(4) by simp
  have srt: "sort_Slice (se_sort sample_env)" using insertion_sort_ok by (simp add: sample_env_def)
  from Traced_program_reaches_the_client[OF sp(1) long_table_ok(1-3) len ord pr sample_rounds_ok(1) idle_sample_server sample_maker_ok enumerates_sorted long_libs_ok srt search_server_delivers sample_rounds_ok(2) bg,
      where cl = "WithCtx ''h''" and x = 3 and y = 5 and pe = probe_env and jd = "\<lambda>bs. Some (string_of_bytes bs)"]
  show ?thesis unfolding hits .
qed

end
